(* ===== verification/Gateway_Prelude.thy ===== *)
theory Gateway_Prelude
  imports Complex_Main "HOL-Library.AList"
begin

text \<open>
  Vocabulary shared by the components of the gateway: the number type of clock readings,
  Python dictionaries as association lists in insertion order, the rounding functions of
  Python, and the three interfaces several components implement (a queue trimmed at a time
  horizon, a machine with an invariant, a machine whose state is split by key).

  A Python float is represented by the rational number it denotes; the rounding of float
  arithmetic is not modelled. Python integers are \<open>int\<close>.
\<close>

section \<open>Types and collections of facts\<close>

type_synonym time = rat

type_synonym ('k, 'v) dict = "('k \<times> 'v) list"

named_theorems dict_simps \<open>look-up after insertion and deletion\<close>

section \<open>Python dictionaries\<close>

text \<open>
  A dictionary keeps its keys in the order of their first insertion: overwriting a key keeps
  its place, a new key goes to the end. \<^const>\<open>map_of\<close> is the look-up.
\<close>

abbreviation dict_get :: "('k, 'v) dict \<Rightarrow> 'k \<Rightarrow> 'v option" where
  "dict_get d k \<equiv> map_of d k"

abbreviation dict_set :: "'k \<Rightarrow> 'v \<Rightarrow> ('k, 'v) dict \<Rightarrow> ('k, 'v) dict" where
  "dict_set \<equiv> AList.update"

abbreviation dict_pop :: "'k \<Rightarrow> ('k, 'v) dict \<Rightarrow> ('k, 'v) dict" where
  "dict_pop \<equiv> AList.delete"

abbreviation dict_keys :: "('k, 'v) dict \<Rightarrow> 'k list" where
  "dict_keys d \<equiv> map fst d"

definition dict_default :: "'v \<Rightarrow> ('k, 'v) dict \<Rightarrow> 'k \<Rightarrow> 'v" where
  "dict_default v d k = (case map_of d k of None \<Rightarrow> v | Some x \<Rightarrow> x)"

text \<open>Reading a \<open>defaultdict\<close> stores the default for a key it does not hold.\<close>

definition dict_touch :: "'v \<Rightarrow> 'k \<Rightarrow> ('k, 'v) dict \<Rightarrow> ('k, 'v) dict" where
  "dict_touch v k d = (case map_of d k of None \<Rightarrow> AList.update k v d | Some _ \<Rightarrow> d)"

lemma dict_get_set [dict_simps]:
  "map_of (AList.update k v d) k' = (if k' = k then Some v else map_of d k')"
  by (simp add: update_conv')

lemma dict_get_pop [dict_simps]:
  "map_of (AList.delete k d) k' = (if k' = k then None else map_of d k')"
  by (simp add: delete_conv')

lemma dict_default_set [dict_simps]:
  "dict_default v (AList.update k x d) k' = (if k' = k then x else dict_default v d k')"
  by (simp add: dict_default_def dict_get_set)

lemma dict_default_pop [dict_simps]:
  "dict_default v (AList.delete k d) k' = (if k' = k then v else dict_default v d k')"
  by (simp add: dict_default_def dict_get_pop)

lemma dict_get_touch [dict_simps]:
  "map_of (dict_touch v k d) k' = (if k' = k then Some (dict_default v d k) else map_of d k')"
  by (auto simp: dict_touch_def dict_default_def dict_get_set split: option.split)

lemma dict_default_touch [dict_simps]: "dict_default v (dict_touch v k d) k' = dict_default v d k'"
  by (simp add: dict_default_def dict_get_touch)

lemma distinct_dict_set: "distinct (map fst d) \<Longrightarrow> distinct (map fst (AList.update k v d))"
  by (rule distinct_update)

lemma distinct_dict_pop: "distinct (map fst d) \<Longrightarrow> distinct (map fst (AList.delete k d))"
  by (rule distinct_delete)

lemma dict_pop_filter: "AList.delete k d = filter (\<lambda>p. fst p \<noteq> k) d"
  by (induction d) simp_all

lemma set_dict_pop: "set (AList.delete k d) \<subseteq> set d"
  by (auto simp: dict_pop_filter)

lemma set_dict_set: "set (AList.update k v d) \<subseteq> insert (k, v) (set d)"
  by (induction d) auto

lemma dict_set_new: "k \<notin> fst ` set d \<Longrightarrow> AList.update k v d = d @ [(k, v)]"
  by (induction d) auto

lemma length_dict_set_old: "dict_get d k = Some v \<Longrightarrow> length (dict_set k x d) = length d"
  by (induction d) (auto split: if_splits)

lemma length_dict_pop: "length (dict_pop k d) \<le> length d"
  by (simp add: dict_pop_filter)

text \<open>A sum over the values splits off the entry of one key.\<close>

lemma sum_dict_pop:
  fixes f :: "'v \<Rightarrow> 'a::ab_group_add"
  assumes "distinct (map fst d)" and "map_of d k = Some v"
  shows "(\<Sum>p\<leftarrow>AList.delete k d. f (snd p)) = (\<Sum>p\<leftarrow>d. f (snd p)) - f v"
  using assms
proof (induction d)
  case Nil
  then show ?case by simp
next
  case (Cons p d)
  then show ?case
    by (cases "fst p = k")
      (auto simp: image_iff algebra_simps dest: map_of_SomeD split: if_splits)
qed

lemma sum_dict_set_new:
  fixes f :: "'v \<Rightarrow> 'a::comm_monoid_add"
  assumes "map_of d k = None"
  shows "(\<Sum>p\<leftarrow>AList.update k v d. f (snd p)) = (\<Sum>p\<leftarrow>d. f (snd p)) + f v"
  using assms by (induction d) (auto simp: add.assoc split: if_splits)

text \<open>The sum of a quantity over the values of a dictionary.\<close>

definition dict_sum :: "('v \<Rightarrow> int) \<Rightarrow> ('k, 'v) dict \<Rightarrow> int" where
  "dict_sum f d = (\<Sum>p\<leftarrow>d. f (snd p))"

lemma dict_sum_Nil [simp]: "dict_sum f [] = 0"
  by (simp add: dict_sum_def)

lemma dict_sum_set:
  "distinct (dict_keys d) \<Longrightarrow> dict_sum f (dict_set k x d) =
     dict_sum f d - (case dict_get d k of None \<Rightarrow> 0 | Some v \<Rightarrow> f v) + f x"
  by (induction d) (auto simp: dict_sum_def split: option.split)

lemma dict_sum_pop:
  assumes "distinct (dict_keys d)"
  shows "dict_sum f (dict_pop k d) = dict_sum f d - (case dict_get d k of None \<Rightarrow> 0 | Some v \<Rightarrow> f v)"
proof (cases "dict_get d k")
  case None
  then have "dict_pop k d = d" by (simp add: map_of_eq_None_iff delete_idem)
  with None show ?thesis by simp
next
  case (Some v)
  with sum_dict_pop[OF assms Some, of f] show ?thesis by (simp add: dict_sum_def)
qed

lemma dict_pop_set: "dict_pop k (dict_set k v d) = dict_pop k d"
  by (induction d) auto

lemma keys_dict_set: "fst ` set (dict_set k v d) = insert k (fst ` set d)"
  by (induction d) auto

lemma keys_dict_pop: "fst ` set (dict_pop k d) = fst ` set d - {k}"
  by (induction d) auto

lemma length_dict_set_new: "dict_get d k = None \<Longrightarrow> length (dict_set k v d) = Suc (length d)"
  by (induction d) (auto split: if_splits)

text \<open>Sums over a list of which one element changes.\<close>

lemma sum_update:
  assumes "i < length xs"
  shows "(\<Sum>x\<leftarrow>xs[i := y]. f x) = (\<Sum>x\<leftarrow>xs. f x) - f (xs ! i) + (f y :: int)"
  using assms
proof (induction xs arbitrary: i)
  case Nil
  then show ?case by simp
next
  case (Cons x xs)
  then show ?case by (cases i) auto
qed

lemma sum_ge_nth:
  assumes "i < length xs" and "\<forall>x\<in>set xs. 0 \<le> (f x :: int)"
  shows "f (xs ! i) \<le> (\<Sum>x\<leftarrow>xs. f x)"
  using assms
proof (induction xs arbitrary: i)
  case Nil
  then show ?case by simp
next
  case (Cons x xs)
  have "0 \<le> (\<Sum>x\<leftarrow>xs. f x)" using Cons.prems(2) by (intro sum_list_nonneg) auto
  with Cons show ?case by (cases i) (auto intro: add_increasing)
qed

section \<open>Rounding\<close>

text \<open>\<open>int(x)\<close> of a float truncates towards zero; \<open>round(x)\<close> rounds half to even.\<close>

definition py_int :: "rat \<Rightarrow> int" where
  "py_int x = (if x < 0 then \<lceil>x\<rceil> else \<lfloor>x\<rfloor>)"

definition py_round :: "rat \<Rightarrow> int" where
  "py_round x =
     (let f = \<lfloor>x\<rfloor>; r = x - of_int f
      in if r < 1 / 2 then f
         else if 1 / 2 < r then f + 1
         else if even f then f else f + 1)"

lemma py_round_close: "\<bar>of_int (py_round x) - x\<bar> \<le> 1 / 2"
proof -
  define f where "f = \<lfloor>x\<rfloor>"
  have "of_int f \<le> x" "x < of_int f + 1" by (simp_all add: f_def) linarith
  then show ?thesis by (auto simp: py_round_def Let_def f_def[symmetric] abs_le_iff)
qed

section \<open>Strings\<close>

text \<open>
  A \<^typ>\<open>string\<close> is a list of characters with codes below 256. \<open>str.strip\<close> removes white
  space at both ends; \<open>s.split(c)\<close> at a one-character separator keeps empty pieces.
\<close>

definition py_space :: "char \<Rightarrow> bool" where
  "py_space c = (let n = of_char c :: nat
     in (9 \<le> n \<and> n \<le> 13) \<or> (28 \<le> n \<and> n \<le> 32) \<or> n = 133 \<or> n = 160)"

abbreviation code_of :: "char \<Rightarrow> nat" where "code_of c \<equiv> of_char c"

definition py_strip :: "string \<Rightarrow> string" where
  "py_strip s = rev (dropWhile py_space (rev (dropWhile py_space s)))"

fun py_split :: "'a \<Rightarrow> 'a list \<Rightarrow> 'a list list" where
  "py_split c [] = [[]]"
| "py_split c (x # xs) =
     (if x = c then [] # py_split c xs
      else case py_split c xs of [] \<Rightarrow> [[x]] | p # ps \<Rightarrow> (x # p) # ps)"

section \<open>Dynamically typed numbers\<close>

text \<open>
  What a Python value looks like to the code that validates a number: a boolean (an instance of
  \<open>int\<close> that every validator refuses), an integer, a finite float, an infinity, a NaN, or
  something else. \<open>float(n)\<close> of an integer raises \<open>OverflowError\<close> when the integer rounds to
  \<open>2^1024\<close> or more, which happens from \<open>2^1024 - 2^970\<close> on.
\<close>

datatype py_num =
  PyBool bool
| PyInt int
| PyFloat rat
| PyInf
| PyNegInf
| PyNan
| PyOther

definition float_overflow :: "rat \<Rightarrow> bool" where
  "float_overflow x \<longleftrightarrow> \<bar>x\<bar> \<ge> 2 ^ 1024 - 2 ^ 970"

text \<open>A finite non-negative float, or the validation error.\<close>

fun finite_non_negative :: "py_num \<Rightarrow> unit + rat" where
  "finite_non_negative (PyInt n) =
     (if float_overflow (of_int n) \<or> n < 0 then Inl () else Inr (of_int n))"
| "finite_non_negative (PyFloat x) = (if x < 0 then Inl () else Inr x)"
| "finite_non_negative _ = Inl ()"

lemma finite_non_negative_ge: "finite_non_negative v = Inr x \<Longrightarrow> 0 \<le> x"
  by (cases v) (auto split: if_splits)

lemma float_overflow_numeral: "x < 1000000 \<Longrightarrow> 0 \<le> x \<Longrightarrow> \<not> float_overflow x"
proof -
  have "(1000000::rat) \<le> 2 ^ 970" by simp
  also have "(2::rat) ^ 970 \<le> 2 ^ 1024 - 2 ^ 970" by simp
  finally show "x < 1000000 \<Longrightarrow> 0 \<le> x \<Longrightarrow> \<not> float_overflow x"
    unfolding float_overflow_def by linarith
qed

lemma float_overflow_mono: "0 \<le> x \<Longrightarrow> x \<le> y \<Longrightarrow> float_overflow x \<Longrightarrow> float_overflow y"
  by (simp add: float_overflow_def)

text \<open>A small amount does not overflow: evaluation needs no power of two.\<close>

lemma float_overflow_code [code]:
  "float_overflow x = (if 0 \<le> x \<and> x < 1000000 then False else 2 ^ 1024 - 2 ^ 970 \<le> \<bar>x\<bar>)"
  using float_overflow_numeral[of x] by (simp add: float_overflow_def)

section \<open>Decimal digits\<close>

definition digit_char :: "nat \<Rightarrow> char" where
  "digit_char n = char_of (48 + n)"

definition is_digit :: "char \<Rightarrow> bool" where
  "is_digit c \<longleftrightarrow> 48 \<le> code_of c \<and> code_of c \<le> 57"

primrec zero_padded :: "nat \<Rightarrow> nat \<Rightarrow> string" where
  "zero_padded 0 n = []"
| "zero_padded (Suc w) n = zero_padded w (n div 10) @ [digit_char (n mod 10)]"

definition number_of :: "string \<Rightarrow> nat" where
  "number_of s = foldl (\<lambda>n c. 10 * n + (code_of c - 48)) 0 s"

lemma code_digit: "n < 10 \<Longrightarrow> code_of (digit_char n) = 48 + n"
  by (simp add: digit_char_def)

lemma zero_padded_digits: "list_all is_digit (zero_padded w n)" "length (zero_padded w n) = w"
  by (induction w arbitrary: n) (auto simp: is_digit_def code_digit)

lemma number_of_append: "number_of (s @ [c]) = 10 * number_of s + (code_of c - 48)"
  by (simp add: number_of_def)

lemma number_of_padded: "n < 10 ^ w \<Longrightarrow> number_of (zero_padded w n) = n"
proof (induction w arbitrary: n)
  case (Suc w)
  have "n div 10 < 10 ^ w" using Suc.prems by (simp add: less_mult_imp_div_less mult.commute)
  with Suc.IH show ?case by (simp add: number_of_append code_digit)
qed (simp add: number_of_def)

lemma padded_number: "list_all is_digit s \<Longrightarrow> zero_padded (length s) (number_of s) = s"
proof (induction s rule: rev_induct)
  case (snoc c s)
  then have c: "48 \<le> code_of c" "code_of c \<le> 57" by (simp_all add: is_digit_def)
  define k where "k = code_of c - 48"
  have k: "k < 10" "digit_char k = c" using c by (simp_all add: k_def digit_char_def)
  then have "(10 * number_of s + k) mod 10 = k" "(10 * number_of s + k) div 10 = number_of s" by simp_all
  with snoc k show ?case by (simp add: number_of_append k_def[symmetric])
qed simp

lemma number_of_less: "list_all is_digit s \<Longrightarrow> number_of s < 10 ^ length s"
proof (induction s rule: rev_induct)
  case (snoc c s)
  then have "code_of c - 48 < 10" "number_of s < 10 ^ length s" by (auto simp: is_digit_def)
  then show ?case by (simp add: number_of_append)
qed (simp add: number_of_def)

section \<open>Decoded JSON\<close>

datatype py_value =
  VNone
| VNum py_num
| VText string
| VList "py_value list"
| VDict "(string \<times> py_value) list"

type_synonym json_object = "(string, py_value) dict"

section \<open>Optional limits\<close>

text \<open>The guard \<open>limit is not None and limit > 0 and used >= limit\<close>.\<close>

fun limit_reached :: "int option \<Rightarrow> int \<Rightarrow> bool" where
  "limit_reached None used = False"
| "limit_reached (Some n) used = (n > 0 \<and> used \<ge> n)"

lemma limit_reached_mono: "limit_reached l a \<Longrightarrow> a \<le> b \<Longrightarrow> limit_reached l b"
  by (cases l) auto

section \<open>Queues trimmed at a time horizon\<close>

text \<open>
  The sliding windows of the rate limiter and of the routing state are queues of stamped
  entries from whose front every entry older than a cutoff is dropped. The contract is the
  loop's own unfolding; the lemmas say what the loop keeps.
\<close>

locale sliding_window =
  fixes stamp :: "'e \<Rightarrow> time"
    and trim :: "time \<Rightarrow> 'e list \<Rightarrow> 'e list"
  assumes trim_Nil: "trim c [] = []"
    and trim_Cons: "trim c (e # es) = (if stamp e < c then trim c es else e # es)"
begin

lemma trim_suffix: "\<exists>ds. es = ds @ trim c es \<and> (\<forall>d\<in>set ds. stamp d < c)"
proof (induction es)
  case Nil
  then show ?case by (simp add: trim_Nil)
next
  case (Cons e es)
  then obtain ds where ds: "es = ds @ trim c es" "\<forall>d\<in>set ds. stamp d < c" by blast
  show ?case
  proof (cases "stamp e < c")
    case True
    with ds show ?thesis by (intro exI[of _ "e # ds"]) (auto simp: trim_Cons)
  next
    case False
    then show ?thesis by (intro exI[of _ "[]"]) (simp add: trim_Cons)
  qed
qed

lemma trim_subset: "set (trim c es) \<subseteq> set es"
  by (induction es) (auto simp: trim_Nil trim_Cons)

lemma trim_sorted: "sorted (map stamp es) \<Longrightarrow> sorted (map stamp (trim c es))"
  by (induction es) (auto simp: trim_Nil trim_Cons)

lemma trim_filter: "sorted (map stamp es) \<Longrightarrow> trim c es = filter (\<lambda>e. c \<le> stamp e) es"
proof (induction es)
  case Nil
  then show ?case by (simp add: trim_Nil)
next
  case (Cons e es)
  show ?case
  proof (cases "stamp e < c")
    case True
    with Cons show ?thesis by (simp add: trim_Cons)
  next
    case False
    with Cons.prems have "filter (\<lambda>e. c \<le> stamp e) es = es"
      by (force simp: filter_id_conv)
    with False show ?thesis by (simp add: trim_Cons)
  qed
qed

lemma trim_keeps: "c \<le> c' \<Longrightarrow> filter (\<lambda>e. c' \<le> stamp e) (trim c es) = filter (\<lambda>e. c' \<le> stamp e) es"
  by (induction es) (auto simp: trim_Nil trim_Cons)

lemma trim_idem: "trim c (trim c es) = trim c es"
  by (induction es) (auto simp: trim_Nil trim_Cons)

lemma trim_all_recent: "\<forall>e\<in>set es. c \<le> stamp e \<Longrightarrow> trim c es = es"
  by (cases es) (auto simp: trim_Nil trim_Cons)

lemma trim_recent: "sorted (map stamp es) \<Longrightarrow> e \<in> set (trim c es) \<Longrightarrow> c \<le> stamp e"
  by (simp add: trim_filter)

end

section \<open>Machines with an invariant\<close>

locale step_machine =
  fixes step :: "'op \<Rightarrow> 's \<Rightarrow> 's"
    and invar :: "'s \<Rightarrow> bool"
  assumes step_invar: "invar s \<Longrightarrow> invar (step x s)"
begin

lemma run_invar: "invar s \<Longrightarrow> invar (fold step xs s)"
  by (induction xs arbitrary: s) (auto intro: step_invar)

end

text \<open>The same for inputs that are only possible in some states.\<close>

locale guarded_machine =
  fixes step :: "'op \<Rightarrow> 's \<Rightarrow> 's"
    and invar :: "'s \<Rightarrow> bool"
    and possible :: "'op \<Rightarrow> 's \<Rightarrow> bool"
    and run_possible :: "'op list \<Rightarrow> 's \<Rightarrow> bool"
  assumes step_invar: "invar s \<Longrightarrow> possible x s \<Longrightarrow> invar (step x s)"
    and run_Cons: "run_possible (x # xs) s \<longleftrightarrow> possible x s \<and> run_possible xs (step x s)"
begin

lemma run_invar: "invar s \<Longrightarrow> run_possible xs s \<Longrightarrow> invar (fold step xs s)"
  by (induction xs arbitrary: s) (auto simp: run_Cons intro: step_invar)

lemma run_split: "run_possible (xs @ ys) s \<Longrightarrow> (\<And>s. run_possible [] s) \<Longrightarrow>
    run_possible xs s \<and> run_possible ys (fold step xs s)"
  by (induction xs arbitrary: s) (auto simp: run_Cons)

end

section \<open>Machines whose state is split by key\<close>

text \<open>
  The stores of the gateway hold one entry per client key, per IP address or per upstream
  reference. The contract: an operation changes only the entries it touches, and what it
  makes of an entry depends on that entry alone. The consequence is non-interference: an
  entry is determined by the operations that touch it.
\<close>

locale keyed_machine =
  fixes step :: "'op \<Rightarrow> 's \<Rightarrow> 's"
    and touches :: "'op \<Rightarrow> 'k \<Rightarrow> bool"
    and view :: "'s \<Rightarrow> 'k \<Rightarrow> 'v"
  assumes frame: "\<not> touches x k \<Longrightarrow> view (step x s) k = view s k"
    and local_step: "view s k = view t k \<Longrightarrow> view (step x s) k = view (step x t) k"
begin

lemma run_local: "view s k = view t k \<Longrightarrow> view (fold step xs s) k = view (fold step xs t) k"
proof (induction xs arbitrary: s t)
  case Nil
  then show ?case by simp
next
  case (Cons x xs)
  from Cons.prems have "view (step x s) k = view (step x t) k" by (rule local_step)
  then have "view (fold step xs (step x s)) k = view (fold step xs (step x t)) k"
    by (rule Cons.IH)
  then show ?case by simp
qed

lemma run_noninterference:
  "view (fold step xs s) k = view (fold step (filter (\<lambda>x. touches x k) xs) s) k"
proof (induction xs arbitrary: s)
  case Nil
  then show ?case by simp
next
  case (Cons x xs)
  show ?case
  proof (cases "touches x k")
    case True
    with Cons.IH show ?thesis by simp
  next
    case False
    then have "view (step x s) k = view s k" by (rule frame)
    then have "view (fold step xs (step x s)) k = view (fold step xs s) k"
      by (rule run_local)
    with False Cons.IH[of s] show ?thesis by simp
  qed
qed

lemma run_frame: "\<forall>x\<in>set xs. \<not> touches x k \<Longrightarrow> view (fold step xs s) k = view s k"
proof -
  assume "\<forall>x\<in>set xs. \<not> touches x k"
  then have "filter (\<lambda>x. touches x k) xs = []" by (simp add: filter_empty_conv)
  with run_noninterference[of xs s k] show ?thesis by simp
qed

end

section \<open>First-come-first-served admission\<close>

text \<open>
  The admission queues of the gateway give capacity to the waiter at the head while it fits and
  stop at the first one that does not. The contract is the loop's unfolding; the lemmas say that
  a prefix of the queue is served, in order, and that the head left behind does not fit.
\<close>

locale fifo_drain =
  fixes fits :: "'s \<Rightarrow> 'w \<Rightarrow> bool"
    and grant :: "'w \<Rightarrow> 's \<Rightarrow> 's"
    and drain :: "'w list \<Rightarrow> 's \<Rightarrow> 'w list \<times> 's"
  assumes drain_Nil: "drain [] s = ([], s)"
    and drain_Cons: "drain (w # ws) s = (if fits s w then drain ws (grant w s) else (w # ws, s))"
begin

lemma drain_prefix: "drain ws s = (rest, s') \<Longrightarrow> \<exists>gs. ws = gs @ rest \<and> s' = fold grant gs s"
proof (induction ws arbitrary: s)
  case Nil
  then show ?case by (simp add: drain_Nil)
next
  case (Cons w ws)
  show ?case
  proof (cases "fits s w")
    case True
    with Cons.prems have "drain ws (grant w s) = (rest, s')" by (simp add: drain_Cons)
    from Cons.IH[OF this] obtain gs where "ws = gs @ rest" "s' = fold grant gs (grant w s)" by blast
    then show ?thesis by (intro exI[of _ "w # gs"]) simp
  next
    case False
    with Cons.prems show ?thesis by (auto simp: drain_Cons)
  qed
qed

lemma drain_blocked: "drain ws s = (rest, s') \<Longrightarrow> rest \<noteq> [] \<Longrightarrow> \<not> fits s' (hd rest)"
proof (induction ws arbitrary: s)
  case Nil
  then show ?case by (simp add: drain_Nil)
next
  case (Cons w ws)
  then show ?case by (auto simp: drain_Cons split: if_splits)
qed

lemma drain_invariant:
  assumes "\<And>w ws s. I (w # ws) s \<Longrightarrow> fits s w \<Longrightarrow> I ws (grant w s)"
  shows "I ws s \<Longrightarrow> drain ws s = (rest, s') \<Longrightarrow> I rest s'"
proof (induction ws arbitrary: s)
  case Nil
  then show ?case by (simp add: drain_Nil)
next
  case (Cons w ws)
  then show ?case using assms by (auto simp: drain_Cons split: if_splits)
qed

end

end
