(* ===== verification/Rate_Limiter.thy ===== *)
theory Rate_Limiter
  imports Gateway_Prelude
begin

text \<open>
  The per-key sliding-window rate limiter (\<open>services/rate_limiter.py\<close>): its events and key
  windows, the purge loop, and every operation under the limiter's lock as one step.

  A key window is a mutable Python object that only the limiter's dictionary refers to, so it
  is modelled by value and written back. The attribution table compares event objects by
  identity; identity is a serial number handed out per window (\<open>kw_next_oid\<close>).
\<close>

section \<open>Data\<close>

definition WINDOW_SECONDS :: time where
  "WINDOW_SECONDS = 60"

record rate_event =
  ev_oid :: nat
  ev_timestamp :: time
  ev_tokens :: int
  ev_rpm :: int
  ev_request_id :: "string option"
  ev_legacy :: bool

record key_window =
  kw_events :: "rate_event list"
  kw_rpm_count :: int
  kw_tpm_tokens :: int
  kw_request_events :: "(string, nat option) dict"
  kw_next_oid :: nat

record rate_limiter =
  rl_window :: time
  rl_by_key :: "(int, key_window) dict"

datatype rl_message =
  RpmExceeded int
| TpmExceeded int
| RequestAlreadyTerminal

text \<open>The dynamically typed token argument of an attribution.\<close>

datatype token_arg = TokInt int | TokBool bool | TokOther

definition new_limiter :: "time \<Rightarrow> rate_limiter" where
  "new_limiter w = \<lparr>rl_window = w, rl_by_key = []\<rparr>"

definition new_key_window :: key_window where
  "new_key_window = \<lparr>kw_events = [], kw_rpm_count = 0, kw_tpm_tokens = 0,
     kw_request_events = [], kw_next_oid = 0\<rparr>"

definition put_window :: "int \<Rightarrow> key_window \<Rightarrow> rate_limiter \<Rightarrow> rate_limiter" where
  "put_window k st l = l\<lparr>rl_by_key := dict_set k st (rl_by_key l)\<rparr>"

definition pop_window :: "int \<Rightarrow> rate_limiter \<Rightarrow> rate_limiter" where
  "pop_window k l = l\<lparr>rl_by_key := dict_pop k (rl_by_key l)\<rparr>"

abbreviation window_of :: "rate_limiter \<Rightarrow> int \<Rightarrow> key_window option" where
  "window_of l k \<equiv> dict_get (rl_by_key l) k"

section \<open>The purge loop\<close>

text \<open>One expired event leaves the front of the queue: the counters shrink by its share and
  its request leaves the attribution table when the table still refers to this event.\<close>

definition forget_event :: "rate_event \<Rightarrow> key_window \<Rightarrow> key_window" where
  "forget_event e st =
     st\<lparr>kw_rpm_count := kw_rpm_count st - ev_rpm e,
        kw_tpm_tokens := kw_tpm_tokens st - ev_tokens e,
        kw_request_events :=
          (case ev_request_id e of
             None \<Rightarrow> kw_request_events st
           | Some rid \<Rightarrow>
               (if dict_get (kw_request_events st) rid = Some (Some (ev_oid e))
                then dict_pop rid (kw_request_events st)
                else kw_request_events st))\<rparr>"

fun purge_events :: "time \<Rightarrow> rate_event list \<Rightarrow> key_window \<Rightarrow> key_window" where
  "purge_events cutoff [] st = st\<lparr>kw_events := []\<rparr>"
| "purge_events cutoff (e # es) st =
     (if ev_timestamp e < cutoff then purge_events cutoff es (forget_event e st)
      else st\<lparr>kw_events := e # es\<rparr>)"

definition purge_window :: "time \<Rightarrow> key_window \<Rightarrow> key_window" where
  "purge_window cutoff st = purge_events cutoff (kw_events st) st"

text \<open>\<open>_purge\<close>: the window of a key that the dictionary holds; the key leaves the dictionary
  when nothing is left, and the result says whether the queue is empty.\<close>

definition rl_purge :: "int \<Rightarrow> key_window \<Rightarrow> time \<Rightarrow> rate_limiter \<Rightarrow>
    rate_limiter \<times> key_window \<times> bool" where
  "rl_purge k st now l =
     (let st' = purge_window (now - rl_window l) st
      in (if kw_events st' = [] \<and> kw_request_events st' = [] then pop_window k l
          else put_window k st' l,
          st', kw_events st' = []))"

definition append_event :: "rate_event \<Rightarrow> key_window \<Rightarrow> key_window" where
  "append_event e st =
     st\<lparr>kw_events := kw_events st @ [e],
        kw_rpm_count := kw_rpm_count st + ev_rpm e,
        kw_tpm_tokens := kw_tpm_tokens st + ev_tokens e,
        kw_next_oid := Suc (kw_next_oid st)\<rparr>"

definition legacy_event :: "time \<Rightarrow> int \<Rightarrow> key_window \<Rightarrow> rate_event" where
  "legacy_event now tokens st =
     \<lparr>ev_oid = kw_next_oid st, ev_timestamp = now, ev_tokens = tokens, ev_rpm = 1,
      ev_request_id = None, ev_legacy = True\<rparr>"

definition admission_event :: "time \<Rightarrow> key_window \<Rightarrow> rate_event" where
  "admission_event now st =
     \<lparr>ev_oid = kw_next_oid st, ev_timestamp = now, ev_tokens = 0, ev_rpm = 1,
      ev_request_id = None, ev_legacy = False\<rparr>"

definition attribution_event :: "time \<Rightarrow> string \<Rightarrow> int \<Rightarrow> key_window \<Rightarrow> rate_event" where
  "attribution_event now rid tokens st =
     \<lparr>ev_oid = kw_next_oid st, ev_timestamp = now, ev_tokens = tokens, ev_rpm = 0,
      ev_request_id = Some rid, ev_legacy = False\<rparr>"

section \<open>Operations\<close>

definition check :: "time \<Rightarrow> int \<Rightarrow> int option \<Rightarrow> int option \<Rightarrow> rate_limiter \<Rightarrow>
    rate_limiter \<times> rl_message option" where
  "check now k rpm_limit tpm_limit l =
     (if rpm_limit = None \<and> tpm_limit = None then (l, None)
      else case window_of l k of
        None \<Rightarrow> (l, None)
      | Some st \<Rightarrow>
          (let (l', st', empty) = rl_purge k st now l
           in if empty then (l', None)
              else if limit_reached rpm_limit (kw_rpm_count st')
              then (l', Some (RpmExceeded (the rpm_limit)))
              else if limit_reached tpm_limit (kw_tpm_tokens st')
              then (l', Some (TpmExceeded (the tpm_limit)))
              else (l', None)))"

text \<open>The state a writer works on: the key's window, created and stored when there is none,
  purged, and stored back when the purge removed it.\<close>

definition writer_window :: "time \<Rightarrow> int \<Rightarrow> rate_limiter \<Rightarrow> rate_limiter \<times> key_window" where
  "writer_window now k l =
     (let st0 = (case window_of l k of None \<Rightarrow> new_key_window | Some st \<Rightarrow> st);
          l0 = (case window_of l k of None \<Rightarrow> put_window k st0 l | Some st \<Rightarrow> l);
          (l1, st1, empty) = rl_purge k st0 now l0
      in (if empty then put_window k st1 l1 else l1, st1))"

definition try_acquire :: "time \<Rightarrow> int option \<Rightarrow> int option \<Rightarrow> int option \<Rightarrow> int \<Rightarrow> rate_limiter \<Rightarrow>
    rate_limiter \<times> rl_message option" where
  "try_acquire now key rpm_limit tpm_limit tokens l =
     (case key of
        None \<Rightarrow> (l, None)
      | Some k \<Rightarrow>
          (let (l', st) = writer_window now k l
           in if limit_reached rpm_limit (kw_rpm_count st)
              then (l', Some (RpmExceeded (the rpm_limit)))
              else if tokens \<noteq> 0 \<and> limit_reached tpm_limit (kw_tpm_tokens st)
              then (l', Some (TpmExceeded (the tpm_limit)))
              else (put_window k (append_event (legacy_event now tokens st) st) l', None)))"

definition record_request :: "time \<Rightarrow> int option \<Rightarrow> int \<Rightarrow> rate_limiter \<Rightarrow> rate_limiter" where
  "record_request now key tokens l =
     (case key of
        None \<Rightarrow> l
      | Some k \<Rightarrow>
          (let (l', st) = writer_window now k l
           in put_window k (append_event (legacy_event now tokens st) st) l'))"

text \<open>The state an admission works on: the key's purged window, or a fresh one that is not
  stored yet.\<close>

definition admission_window :: "time \<Rightarrow> int \<Rightarrow> rate_limiter \<Rightarrow> rate_limiter \<times> key_window" where
  "admission_window now k l =
     (case window_of l k of
        None \<Rightarrow> (l, new_key_window)
      | Some st0 \<Rightarrow> (let (l1, st1, _) = rl_purge k st0 now l in (l1, st1)))"

definition open_request :: "time \<Rightarrow> string \<Rightarrow> key_window \<Rightarrow> key_window" where
  "open_request now rid st =
     (append_event (admission_event now st) st)\<lparr>kw_request_events :=
        dict_set rid None (kw_request_events st)\<rparr>"

definition admit_request :: "time \<Rightarrow> string \<Rightarrow> int option \<Rightarrow> int option \<Rightarrow> int option \<Rightarrow>
    rate_limiter \<Rightarrow> rate_limiter \<times> rl_message option" where
  "admit_request now rid key rpm_limit tpm_limit l =
     (case key of
        None \<Rightarrow> (l, None)
      | Some k \<Rightarrow>
          (let (l', st) = admission_window now k l
           in case dict_get (kw_request_events st) rid of
                Some None \<Rightarrow> (l', None)
              | Some (Some _) \<Rightarrow> (l', Some RequestAlreadyTerminal)
              | None \<Rightarrow>
                  (if limit_reached rpm_limit (kw_rpm_count st)
                   then (l', Some (RpmExceeded (the rpm_limit)))
                   else if limit_reached tpm_limit (kw_tpm_tokens st)
                   then (l', Some (TpmExceeded (the tpm_limit)))
                   else (put_window k (open_request now rid st) l', None))))"

text \<open>An attribution may raise \<open>AccountingValidationError\<close> (\<open>Inl\<close>) after the purge.\<close>

definition close_request :: "time \<Rightarrow> string \<Rightarrow> int \<Rightarrow> key_window \<Rightarrow> key_window" where
  "close_request now rid n st =
     (append_event (attribution_event now rid n st) st)\<lparr>kw_request_events :=
        dict_set rid (Some (kw_next_oid st)) (kw_request_events st)\<rparr>"

definition attribute_request_tokens :: "time \<Rightarrow> string \<Rightarrow> int option \<Rightarrow> token_arg \<Rightarrow>
    rate_limiter \<Rightarrow> rate_limiter \<times> (unit + bool)" where
  "attribute_request_tokens now rid key tokens l =
     (case key of
        None \<Rightarrow> (l, Inr False)
      | Some k \<Rightarrow>
          (case window_of l k of
             None \<Rightarrow> (l, Inr False)
           | Some st0 \<Rightarrow>
               (let (l', st, _) = rl_purge k st0 now l
                in case dict_get (kw_request_events st) rid of
                     None \<Rightarrow> (l', Inr False)
                   | Some (Some _) \<Rightarrow> (l', Inr False)
                   | Some None \<Rightarrow>
                       (case tokens of
                          TokInt n \<Rightarrow>
                            (if n < 0 then (l', Inl ())
                             else (put_window k (close_request now rid n st) l', Inr True))
                        | _ \<Rightarrow> (l', Inl ())))))"

text \<open>\<open>next((event for event in reversed(events) if event.legacy), None)\<close>, as the list split at
  that event.\<close>

fun add_to_last_legacy :: "int \<Rightarrow> rate_event list \<Rightarrow> rate_event list option" where
  "add_to_last_legacy n [] = None"
| "add_to_last_legacy n (e # es) =
     (case add_to_last_legacy n es of
        Some es' \<Rightarrow> Some (e # es')
      | None \<Rightarrow> (if ev_legacy e then Some (e\<lparr>ev_tokens := ev_tokens e + n\<rparr> # es) else None))"

fun over_limit :: "int option \<Rightarrow> int \<Rightarrow> bool" where
  "over_limit None used = False"
| "over_limit (Some n) used = (n > 0 \<and> used > n)"

definition add_tokens :: "time \<Rightarrow> int option \<Rightarrow> int \<Rightarrow> int option \<Rightarrow> rate_limiter \<Rightarrow>
    rate_limiter \<times> rl_message option" where
  "add_tokens now key tokens tpm_limit l =
     (case key of
        None \<Rightarrow> (l, None)
      | Some k \<Rightarrow>
          (if tokens = 0 then (l, None)
           else case window_of l k of
             None \<Rightarrow> (l, None)
           | Some st0 \<Rightarrow>
               (if kw_events st0 = [] then (l, None)
                else
                  (let (l', st, empty) = rl_purge k st0 now l
                   in if empty then (l', None)
                      else case add_to_last_legacy tokens (kw_events st) of
                        None \<Rightarrow> (l', None)
                      | Some es' \<Rightarrow>
                          (if over_limit tpm_limit (kw_tpm_tokens st + tokens)
                           then (l', Some (TpmExceeded (the tpm_limit)))
                           else (put_window k (st\<lparr>kw_events := es',
                                   kw_tpm_tokens := kw_tpm_tokens st + tokens\<rparr>) l', None))))))"

definition get_window_snapshot :: "time \<Rightarrow> int \<Rightarrow> rate_limiter \<Rightarrow>
    rate_limiter \<times> (int \<times> int \<times> time option)" where
  "get_window_snapshot now k l =
     (case window_of l k of
        None \<Rightarrow> (l, (0, 0, None))
      | Some st \<Rightarrow>
          (let (l', st', empty) = rl_purge k st now l
           in if empty then (l', (0, 0, None))
              else (l', (kw_rpm_count st', kw_tpm_tokens st',
                     (case kw_events st' of [] \<Rightarrow> None | e # _ \<Rightarrow> Some (now - ev_timestamp e))))))"

definition rl_reset :: "int option \<Rightarrow> rate_limiter \<Rightarrow> rate_limiter" where
  "rl_reset key l =
     (case key of None \<Rightarrow> l\<lparr>rl_by_key := []\<rparr> | Some k \<Rightarrow> pop_window k l)"

section \<open>One step per call\<close>

datatype rl_op =
  Check time int "int option" "int option"
| TryAcquire time "int option" "int option" "int option" int
| Admit time string "int option" "int option" "int option"
| Attribute time string "int option" token_arg
| Record time "int option" int
| AddTokens time "int option" int "int option"
| Snapshot time int
| Reset "int option"

fun rl_step :: "rl_op \<Rightarrow> rate_limiter \<Rightarrow> rate_limiter" where
  "rl_step (Check now k rpm tpm) l = fst (check now k rpm tpm l)"
| "rl_step (TryAcquire now key rpm tpm n) l = fst (try_acquire now key rpm tpm n l)"
| "rl_step (Admit now rid key rpm tpm) l = fst (admit_request now rid key rpm tpm l)"
| "rl_step (Attribute now rid key n) l = fst (attribute_request_tokens now rid key n l)"
| "rl_step (Record now key n) l = record_request now key n l"
| "rl_step (AddTokens now key n tpm) l = fst (add_tokens now key n tpm l)"
| "rl_step (Snapshot now k) l = fst (get_window_snapshot now k l)"
| "rl_step (Reset key) l = rl_reset key l"

section \<open>Windows: the counters and the attribution table\<close>

text \<open>
  The counters are the sums over the queue; the attribution table names, for a terminal
  request, the event in the queue that carries its tokens, and nothing else.
\<close>

definition counters_ok :: "key_window \<Rightarrow> bool" where
  "counters_ok st \<longleftrightarrow>
     kw_rpm_count st = (\<Sum>e\<leftarrow>kw_events st. ev_rpm e) \<and>
     kw_tpm_tokens st = (\<Sum>e\<leftarrow>kw_events st. ev_tokens e) \<and>
     (\<forall>e\<in>set (kw_events st). 0 \<le> ev_rpm e)"

definition oids_ok :: "key_window \<Rightarrow> bool" where
  "oids_ok st \<longleftrightarrow> distinct (map ev_oid (kw_events st)) \<and>
     (\<forall>e\<in>set (kw_events st). ev_oid e < kw_next_oid st)"

definition tagged :: "rate_event list \<Rightarrow> (string \<times> nat) set" where
  "tagged es = {(rid, ev_oid e) | e rid. e \<in> set es \<and> ev_request_id e = Some rid}"

definition table_ok :: "key_window \<Rightarrow> bool" where
  "table_ok st \<longleftrightarrow>
     (\<forall>rid i. dict_get (kw_request_events st) rid = Some (Some i) \<longleftrightarrow> (rid, i) \<in> tagged (kw_events st))"

lemma tagged_simps [simp]:
  "tagged [] = {}"
  "tagged (e # es) = (case ev_request_id e of None \<Rightarrow> {} | Some rid \<Rightarrow> {(rid, ev_oid e)}) \<union> tagged es"
  "tagged (es @ es') = tagged es \<union> tagged es'"
  by (auto simp: tagged_def split: option.split)

lemma tagged_oid: "(rid, i) \<in> tagged es \<Longrightarrow> i \<in> ev_oid ` set es"
  by (auto simp: tagged_def)

lemma tagged_zip:
  "tagged es = {(rid, i). (i, Some rid) \<in> set (zip (map ev_oid es) (map ev_request_id es))}"
  by (induction es) (auto split: option.split)

lemma tagged_map:
  "map ev_oid es' = map ev_oid es \<Longrightarrow> map ev_request_id es' = map ev_request_id es \<Longrightarrow>
   tagged es' = tagged es"
  by (simp add: tagged_zip)

definition window_ok :: "key_window \<Rightarrow> bool" where
  "window_ok st \<longleftrightarrow> counters_ok st \<and> oids_ok st \<and> table_ok st"

lemmas window_ok_defs = window_ok_def counters_ok_def oids_ok_def table_ok_def

lemma window_ok_new: "window_ok new_key_window"
  by (simp add: window_ok_defs new_key_window_def)

lemma forget_event_simps [simp]:
  "kw_events (forget_event e st) = kw_events st"
  "kw_next_oid (forget_event e st) = kw_next_oid st"
  by (simp_all add: forget_event_def)

lemma forget_event_update [simp]:
  "forget_event e (st\<lparr>kw_events := es\<rparr>) = (forget_event e st)\<lparr>kw_events := es\<rparr>"
  by (cases st) (simp add: forget_event_def split: option.split)

lemma purge_events_absorb [simp]:
  "purge_events c es (st\<lparr>kw_events := es'\<rparr>) = purge_events c es st"
  by (induction es arbitrary: st) auto

lemma kw_events_purge_events: "kw_events (purge_events c es st) = dropWhile (\<lambda>e. ev_timestamp e < c) es"
  by (induction es arbitrary: st) auto

lemma kw_events_purge:
  "kw_events (purge_window c st) = dropWhile (\<lambda>e. ev_timestamp e < c) (kw_events st)"
  by (simp add: purge_window_def kw_events_purge_events)

interpretation limiter_window: sliding_window ev_timestamp
    "\<lambda>c es. kw_events (purge_events c es new_key_window)"
  by unfold_locales (auto simp: kw_events_purge_events)

lemma window_ok_forget:
  assumes ok: "window_ok st" and es: "kw_events st = e # es"
  shows "window_ok ((forget_event e st)\<lparr>kw_events := es\<rparr>)"
proof -
  have "counters_ok ((forget_event e st)\<lparr>kw_events := es\<rparr>)"
    using ok es by (simp add: window_ok_defs forget_event_def)
  moreover have "oids_ok ((forget_event e st)\<lparr>kw_events := es\<rparr>)"
    using ok es by (simp add: window_ok_defs forget_event_def)
  moreover have "table_ok ((forget_event e st)\<lparr>kw_events := es\<rparr>)"
  proof (cases "ev_request_id e")
    case None
    with ok es show ?thesis by (simp add: window_ok_defs forget_event_def)
  next
    case (Some rid)
    have table: "dict_get (kw_request_events st) r = Some (Some i) \<longleftrightarrow>
        (r, i) = (rid, ev_oid e) \<or> (r, i) \<in> tagged es" for r i
      using ok es Some by (auto simp: window_ok_defs)
    have fresh: "(rid, i) \<notin> tagged es" for i
    proof
      assume "(rid, i) \<in> tagged es"
      with table[of rid i] table[of rid "ev_oid e"] have "i = ev_oid e" by simp
      with tagged_oid[OF \<open>(rid, i) \<in> tagged es\<close>] ok es show False by (auto simp: window_ok_defs)
    qed
    show ?thesis
      using Some table[of rid "ev_oid e"] table fresh
      by (auto simp: table_ok_def forget_event_def dict_get_pop)
  qed
  ultimately show ?thesis by (simp add: window_ok_def)
qed

lemma window_ok_purge: "window_ok st \<Longrightarrow> window_ok (purge_window c st)"
proof -
  have "window_ok (st\<lparr>kw_events := es\<rparr>) \<Longrightarrow> window_ok (purge_events c es st)" for es
  proof (induction es arbitrary: st)
    case Nil
    then show ?case by simp
  next
    case (Cons e es)
    show ?case
    proof (cases "ev_timestamp e < c")
      case True
      have "window_ok ((forget_event e (st\<lparr>kw_events := e # es\<rparr>))\<lparr>kw_events := es\<rparr>)"
        by (rule window_ok_forget[OF Cons.prems]) simp
      then have "window_ok ((forget_event e st)\<lparr>kw_events := es\<rparr>)" by simp
      from Cons.IH[OF this] True show ?thesis by simp
    next
      case False
      with Cons.prems show ?thesis by simp
    qed
  qed
  from this[of "kw_events st"] show "window_ok st \<Longrightarrow> window_ok (purge_window c st)"
    by (simp add: purge_window_def)
qed

lemma kw_next_oid_purge [simp]: "kw_next_oid (purge_window c st) = kw_next_oid st"
proof -
  have "kw_next_oid (purge_events c es st) = kw_next_oid st" for es
    by (induction es arbitrary: st) auto
  then show ?thesis by (simp add: purge_window_def)
qed

lemma window_ok_append_plain:
  "window_ok st \<Longrightarrow> ev_oid e = kw_next_oid st \<Longrightarrow> ev_request_id e = None \<Longrightarrow>
   0 \<le> ev_rpm e \<Longrightarrow> window_ok (append_event e st)"
  by (fastforce simp: window_ok_defs append_event_def less_Suc_eq)

lemma window_ok_open_request:
  assumes ok: "window_ok st" and absent: "dict_get (kw_request_events st) rid = None"
  shows "window_ok (open_request now rid st)"
proof -
  let ?st = "append_event (admission_event now st) st"
  have "window_ok ?st" using ok
    by (rule window_ok_append_plain) (simp_all add: admission_event_def)
  moreover have "table_ok (open_request now rid st)"
    using ok absent
    by (auto simp: window_ok_defs open_request_def append_event_def admission_event_def dict_get_set)
      (metis option.distinct(1))
  ultimately show ?thesis by (simp add: window_ok_defs open_request_def)
qed

lemma window_ok_close_request:
  assumes ok: "window_ok st" and pending: "dict_get (kw_request_events st) rid = Some None"
  shows "window_ok (close_request now rid n st)" (is "window_ok ?st")
proof -
  have "counters_ok ?st"
    using ok by (simp add: window_ok_defs close_request_def append_event_def attribution_event_def)
  moreover have "oids_ok ?st"
    using ok by (fastforce simp: window_ok_defs close_request_def append_event_def
        attribution_event_def less_Suc_eq)
  moreover have "table_ok ?st"
    using ok pending
    by (auto simp: window_ok_defs close_request_def append_event_def attribution_event_def
        dict_get_set) (metis option.distinct(1) option.inject)
  ultimately show ?thesis by (simp add: window_ok_def)
qed

section \<open>The limiter\<close>

definition live_window :: "key_window \<Rightarrow> bool" where
  "live_window st \<longleftrightarrow> kw_events st \<noteq> [] \<or> kw_request_events st \<noteq> []"

text \<open>Every stored window is consistent and holds something: an idle key costs no memory.\<close>

definition limiter_ok :: "rate_limiter \<Rightarrow> bool" where
  "limiter_ok l \<longleftrightarrow> (\<forall>k st. window_of l k = Some st \<longrightarrow> window_ok st \<and> live_window st)"

lemma window_of_put [simp]:
  "window_of (put_window k st l) k' = (if k' = k then Some st else window_of l k')"
  "rl_window (put_window k st l) = rl_window l"
  by (simp_all add: put_window_def dict_get_set)

lemma window_of_pop [simp]:
  "window_of (pop_window k l) k' = (if k' = k then None else window_of l k')"
  "rl_window (pop_window k l) = rl_window l"
  by (simp_all add: pop_window_def dict_get_pop)

lemma window_of_reset [simp]:
  "window_of (rl_reset key l) k = (if key = None \<or> key = Some k then None else window_of l k)"
  "rl_window (rl_reset key l) = rl_window l"
  by (auto simp: rl_reset_def split: option.splits)

lemma limiter_ok_new: "limiter_ok (new_limiter w)"
  by (simp add: limiter_ok_def new_limiter_def)

lemma limiter_ok_put: "limiter_ok l \<Longrightarrow> window_ok st \<Longrightarrow> live_window st \<Longrightarrow> limiter_ok (put_window k st l)"
  by (simp add: limiter_ok_def)

lemma limiter_ok_pop: "limiter_ok l \<Longrightarrow> limiter_ok (pop_window k l)"
  by (simp add: limiter_ok_def)

lemma limiter_ok_window: "limiter_ok l \<Longrightarrow> window_of l k = Some st \<Longrightarrow> window_ok st"
  by (simp add: limiter_ok_def)

lemma rl_purge_eqs:
  assumes "rl_purge k st now l = (l', st', gone)"
  shows "st' = purge_window (now - rl_window l) st"
    and "gone \<longleftrightarrow> kw_events st' = []"
    and "l' = (if live_window st' then put_window k st' l else pop_window k l)"
  using assms by (auto simp: rl_purge_def Let_def live_window_def)

lemma rl_purge_window_of:
  assumes "rl_purge k st now l = (l', st', gone)"
  shows "window_of l' k' =
           (if k' = k then (if live_window st' then Some st' else None) else window_of l k')"
    and "rl_window l' = rl_window l"
  using rl_purge_eqs(3)[OF assms] by auto

lemma rl_purge_ok:
  assumes "rl_purge k st now l = (l', st', gone)" and "limiter_ok l" and "window_ok st"
  shows "limiter_ok l'" and "window_ok st'"
  using rl_purge_eqs[OF assms(1)] assms(2,3)
  by (auto simp: limiter_ok_put limiter_ok_pop window_ok_purge)

lemma live_append [simp]: "live_window (append_event e st)"
  by (simp add: live_window_def append_event_def)

lemma live_requests [simp]:
  "live_window (open_request now rid st)" "live_window (close_request now rid n st)"
  by (simp_all add: live_window_def open_request_def close_request_def)

lemma writer_window_frame:
  assumes "writer_window now k l = (l', st)"
  shows "st = purge_window (now - rl_window l)
           (case window_of l k of None \<Rightarrow> new_key_window | Some st \<Rightarrow> st)"
    and "window_of l' k' = (if k' = k then Some st else window_of l k')"
    and "rl_window l' = rl_window l"
proof -
  let ?st0 = "case window_of l k of None \<Rightarrow> new_key_window | Some st \<Rightarrow> st"
  let ?l0 = "case window_of l k of None \<Rightarrow> put_window k ?st0 l | Some st \<Rightarrow> l"
  obtain l1 st1 gone where pg: "rl_purge k ?st0 now ?l0 = (l1, st1, gone)"
    by (metis prod_cases3)
  from assms pg have l': "l' = (if gone then put_window k st1 l1 else l1)" and st: "st = st1"
    by (auto simp: writer_window_def Let_def)
  note eqs = rl_purge_eqs[OF pg]
  show "st = purge_window (now - rl_window l) ?st0"
    using st eqs(1) by (simp split: option.splits)
  show "window_of l' k' = (if k' = k then Some st else window_of l k')"
    using l' st eqs(2,3) by (auto simp: live_window_def split: option.splits)
  show "rl_window l' = rl_window l" using l' eqs(3) by (auto split: option.splits)
qed

lemma writer_window_ok: "writer_window now k l = (l', st) \<Longrightarrow> limiter_ok l \<Longrightarrow> window_ok st"
  using writer_window_frame(1)[of now k l l' st]
  by (auto simp: limiter_ok_def window_ok_new window_ok_purge split: option.split)

lemma counters_empty: "window_ok st \<Longrightarrow> kw_events st = [] \<Longrightarrow> kw_rpm_count st = 0 \<and> kw_tpm_tokens st = 0"
  by (simp add: window_ok_defs)

lemma limit_reached_zero [simp]: "\<not> limit_reached n 0"
  by (cases n) auto

text \<open>A writer that stops at a limit leaves only live windows behind.\<close>

lemma writer_window_rejected_ok:
  assumes ww: "writer_window now k l = (l', st)" and ok: "limiter_ok l"
    and "limit_reached a (kw_rpm_count st) \<or> limit_reached b (kw_tpm_tokens st)"
  shows "limiter_ok l'"
proof -
  note st = writer_window_ok[OF ww ok]
  have "kw_events st \<noteq> []" using counters_empty[OF st] assms(3) by fastforce
  with st ok show ?thesis
    by (simp add: limiter_ok_def live_window_def writer_window_frame(2)[OF ww])
qed

lemma writer_window_put_ok:
  assumes ww: "writer_window now k l = (l', st)" and ok: "limiter_ok l"
    and st': "window_ok st'" "live_window st'"
  shows "limiter_ok (put_window k st' l')"
  using ok st' by (simp add: limiter_ok_def writer_window_frame(2)[OF ww])

section \<open>Every operation keeps the invariant\<close>

lemma check_ok: "limiter_ok l \<Longrightarrow> limiter_ok (fst (check now k a b l))"
  by (auto simp: check_def split: option.split prod.split
      dest: rl_purge_ok(1) limiter_ok_window)

lemma snapshot_ok: "limiter_ok l \<Longrightarrow> limiter_ok (fst (get_window_snapshot now k l))"
  by (auto simp: get_window_snapshot_def split: option.split prod.split
      dest: rl_purge_ok(1) limiter_ok_window)

lemma reset_ok: "limiter_ok l \<Longrightarrow> limiter_ok (rl_reset key l)"
  by (simp add: limiter_ok_def)

lemma legacy_append_ok: "window_ok st \<Longrightarrow> window_ok (append_event (legacy_event now n st) st)"
  by (rule window_ok_append_plain) (simp_all add: legacy_event_def)

lemma record_ok: "limiter_ok l \<Longrightarrow> limiter_ok (record_request now key n l)"
  by (auto simp: record_request_def split: option.split prod.split
      intro!: writer_window_put_ok legacy_append_ok dest: writer_window_ok)

lemma try_acquire_ok: "limiter_ok l \<Longrightarrow> limiter_ok (fst (try_acquire now key a b n l))"
proof (cases key)
  case None
  then show "limiter_ok l \<Longrightarrow> ?thesis" by (simp add: try_acquire_def)
next
  case (Some k)
  assume ok: "limiter_ok l"
  obtain l' st where ww: "writer_window now k l = (l', st)" by fastforce
  then show ?thesis
    using Some writer_window_rejected_ok[OF ww ok, of a b]
      writer_window_put_ok[OF ww ok legacy_append_ok[OF writer_window_ok[OF ww ok]] live_append]
    by (auto simp: try_acquire_def)
qed

text \<open>The window an admission works on is consistent, and only this key's entry may differ.\<close>

lemma admission_window_spec:
  assumes "admission_window now k l = (l', st)" and "limiter_ok l"
  shows "limiter_ok l'" and "window_ok st"
    and "st = (case window_of l k of None \<Rightarrow> new_key_window
               | Some st0 \<Rightarrow> purge_window (now - rl_window l) st0)"
    and "window_of l' k' = (if k' = k then (if live_window st then Some st else None)
                            else window_of l k')"
    and "rl_window l' = rl_window l"
proof -
  show "limiter_ok l'" using assms
    by (auto simp: admission_window_def split: option.splits prod.splits
        dest: rl_purge_ok limiter_ok_window)
  show "window_ok st" using assms
    by (auto simp: admission_window_def window_ok_new split: option.splits prod.splits
        dest: rl_purge_ok limiter_ok_window)
  show "st = (case window_of l k of None \<Rightarrow> new_key_window
               | Some st0 \<Rightarrow> purge_window (now - rl_window l) st0)"
    using assms(1)
    by (auto simp: admission_window_def rl_purge_eqs(1) split: option.splits prod.splits)
  show "window_of l' k' = (if k' = k then (if live_window st then Some st else None)
                            else window_of l k')"
    using assms(1)
    by (auto simp: admission_window_def live_window_def new_key_window_def rl_purge_window_of
        split: option.splits prod.splits)
  show "rl_window l' = rl_window l"
    using assms(1)
    by (auto simp: admission_window_def rl_purge_window_of split: option.splits prod.splits)
qed

lemma admit_ok: "limiter_ok l \<Longrightarrow> limiter_ok (fst (admit_request now rid key a b l))"
proof (cases key)
  case None
  then show "limiter_ok l \<Longrightarrow> ?thesis" by (simp add: admit_request_def)
next
  case (Some k)
  assume ok: "limiter_ok l"
  obtain l' st where aw: "admission_window now k l = (l', st)" by fastforce
  note spec = admission_window_spec[OF aw ok]
  show ?thesis
    using Some aw spec(1) window_ok_open_request[OF spec(2)]
    by (auto simp: admit_request_def split: option.split intro!: limiter_ok_put)
qed

lemma attribute_ok: "limiter_ok l \<Longrightarrow> limiter_ok (fst (attribute_request_tokens now rid key n l))"
proof (cases "case key of None \<Rightarrow> None | Some k \<Rightarrow> window_of l k")
  case None
  then show "limiter_ok l \<Longrightarrow> ?thesis"
    by (auto simp: attribute_request_tokens_def split: option.splits)
next
  case (Some st0)
  assume ok: "limiter_ok l"
  from Some obtain k where k: "key = Some k" "window_of l k = Some st0"
    by (cases key) auto
  obtain l' st g where pg: "rl_purge k st0 now l = (l', st, g)" by (metis prod_cases3)
  note ok' = rl_purge_ok[OF pg ok limiter_ok_window[OF ok k(2)]]
  show ?thesis
    using k pg ok' window_ok_close_request[OF ok'(2), of rid]
    by (auto simp: attribute_request_tokens_def split: option.split token_arg.split
        intro!: limiter_ok_put)
qed

lemma add_to_last_legacy_map:
  "add_to_last_legacy n es = Some es' \<Longrightarrow>
   map ev_oid es' = map ev_oid es \<and> map ev_request_id es' = map ev_request_id es \<and>
   map ev_timestamp es' = map ev_timestamp es \<and> map ev_rpm es' = map ev_rpm es \<and>
   (\<Sum>e\<leftarrow>es'. ev_tokens e) = (\<Sum>e\<leftarrow>es. ev_tokens e) + n"
  by (induction es arbitrary: es') (auto split: option.splits if_splits)

lemma window_ok_add_tokens:
  assumes ok: "window_ok st" and es': "add_to_last_legacy n (kw_events st) = Some es'"
  shows "window_ok (st\<lparr>kw_events := es', kw_tpm_tokens := kw_tpm_tokens st + n\<rparr>)"
proof -
  note m = add_to_last_legacy_map[OF es']
  have len: "set (map ev_oid es') = set (map ev_oid (kw_events st))" using m by simp
  have "tagged es' = tagged (kw_events st)" using m by (intro tagged_map) auto
  with ok have "table_ok (st\<lparr>kw_events := es', kw_tpm_tokens := kw_tpm_tokens st + n\<rparr>)"
    by (simp add: window_ok_def table_ok_def)
  moreover have "\<forall>e\<in>set es'. ev_oid e < kw_next_oid st"
    using len ok by (auto simp: window_ok_defs) (metis imageE image_eqI)
  moreover have "\<forall>e\<in>set es'. 0 \<le> ev_rpm e"
  proof -
    have "set (map ev_rpm es') = set (map ev_rpm (kw_events st))" using m by simp
    with ok show ?thesis by (auto simp: window_ok_defs) (metis imageE image_eqI)
  qed
  ultimately show ?thesis using m ok by (simp add: window_ok_defs)
qed

lemma add_tokens_ok: "limiter_ok l \<Longrightarrow> limiter_ok (fst (add_tokens now key n b l))"
proof (cases "case key of None \<Rightarrow> None | Some k \<Rightarrow> window_of l k")
  case None
  then show "limiter_ok l \<Longrightarrow> ?thesis" by (auto simp: add_tokens_def split: option.splits)
next
  case (Some st0)
  assume ok: "limiter_ok l"
  from Some obtain k where k: "key = Some k" "window_of l k = Some st0"
    by (cases key) auto
  obtain l' st g where pg: "rl_purge k st0 now l = (l', st, g)" by (metis prod_cases3)
  note ok' = rl_purge_ok[OF pg ok limiter_ok_window[OF ok k(2)]]
  have upd: "limiter_ok (put_window k (st\<lparr>kw_events := es',
      kw_tpm_tokens := kw_tpm_tokens st + n\<rparr>) l')"
    if "add_to_last_legacy n (kw_events st) = Some es'" for es'
  proof (rule limiter_ok_put[OF ok'(1) window_ok_add_tokens[OF ok'(2) that]])
    have "es' \<noteq> []" using that by (cases "kw_events st") (auto split: option.splits if_splits)
    then show "live_window (st\<lparr>kw_events := es', kw_tpm_tokens := kw_tpm_tokens st + n\<rparr>)"
      by (simp add: live_window_def)
  qed
  show ?thesis
    using k pg ok'(1) ok upd by (auto simp: add_tokens_def split: option.split)
qed

lemma rl_step_ok: "limiter_ok l \<Longrightarrow> limiter_ok (rl_step x l)"
  by (cases x)
    (simp_all add: check_ok try_acquire_ok admit_ok attribute_ok record_ok add_tokens_ok
      snapshot_ok reset_ok)

interpretation limiter_run: step_machine rl_step limiter_ok
  by unfold_locales (rule rl_step_ok)

section \<open>Keys do not interfere\<close>

fun rl_touches :: "rl_op \<Rightarrow> int \<Rightarrow> bool" where
  "rl_touches (Check now k rpm tpm) k' = (k' = k)"
| "rl_touches (TryAcquire now key rpm tpm n) k' = (key = Some k')"
| "rl_touches (Admit now rid key rpm tpm) k' = (key = Some k')"
| "rl_touches (Attribute now rid key n) k' = (key = Some k')"
| "rl_touches (Record now key n) k' = (key = Some k')"
| "rl_touches (AddTokens now key n tpm) k' = (key = Some k')"
| "rl_touches (Snapshot now k) k' = (k' = k)"
| "rl_touches (Reset key) k' = (key = None \<or> key = Some k')"

definition rl_view :: "rate_limiter \<Rightarrow> int \<Rightarrow> time \<times> key_window option" where
  "rl_view l k = (rl_window l, window_of l k)"

lemma rl_view_sel: "fst (rl_view l k) = rl_window l" "snd (rl_view l k) = window_of l k"
  by (simp_all add: rl_view_def)

lemmas rl_op_defs = check_def try_acquire_def admit_request_def attribute_request_tokens_def
  record_request_def add_tokens_def get_window_snapshot_def

definition settle :: "int \<Rightarrow> key_window \<Rightarrow> rate_limiter \<Rightarrow> rate_limiter" where
  "settle k st l = (if live_window st then put_window k st l else pop_window k l)"

lemma rl_purge_settle:
  "rl_purge k st now l =
     (settle k (purge_window (now - rl_window l) st) l, purge_window (now - rl_window l) st,
      kw_events (purge_window (now - rl_window l) st) = [])"
  by (auto simp: rl_purge_def Let_def settle_def live_window_def)

lemma settle_view [simp]:
  "rl_view (settle k st l) k' =
     (rl_window l, if k' = k then (if live_window st then Some st else None) else window_of l k')"
  "rl_view (put_window k st l) k' = (rl_window l, if k' = k then Some st else window_of l k')"
  "rl_view (pop_window k l) k' = (rl_window l, if k' = k then None else window_of l k')"
  "rl_window (settle k st l) = rl_window l"
  by (simp_all add: rl_view_def settle_def)

lemma writer_window_view:
  "window_of (fst (writer_window now k l)) k' =
     (if k' = k then Some (snd (writer_window now k l)) else window_of l k')"
  "snd (writer_window now k l) = purge_window (now - rl_window l)
     (case window_of l k of None \<Rightarrow> new_key_window | Some st \<Rightarrow> st)"
  "rl_window (fst (writer_window now k l)) = rl_window l"
proof -
  obtain l' st where ww: "writer_window now k l = (l', st)" by fastforce
  note frame = writer_window_frame[OF ww]
  show "window_of (fst (writer_window now k l)) k' =
     (if k' = k then Some (snd (writer_window now k l)) else window_of l k')"
    "snd (writer_window now k l) = purge_window (now - rl_window l)
       (case window_of l k of None \<Rightarrow> new_key_window | Some st \<Rightarrow> st)"
    "rl_window (fst (writer_window now k l)) = rl_window l"
    using ww frame by simp_all
qed

lemma admission_window_view:
  "rl_view (fst (admission_window now k l)) k' =
     (if k' = k \<and> window_of l k \<noteq> None
      then (rl_window l, if live_window (snd (admission_window now k l))
                         then Some (snd (admission_window now k l)) else None)
      else rl_view l k')"
  "snd (admission_window now k l) =
     (case window_of l k of None \<Rightarrow> new_key_window
      | Some st \<Rightarrow> purge_window (now - rl_window l) st)"
  "rl_window (fst (admission_window now k l)) = rl_window l"
  by (auto simp: admission_window_def rl_purge_settle rl_view_def settle_def split: option.split)

text \<open>The effect of every operation on the view of one key, as a function of that view.\<close>

definition writer_base :: "time \<Rightarrow> time \<times> key_window option \<Rightarrow> key_window" where
  "writer_base now v = purge_window (now - fst v)
     (case snd v of None \<Rightarrow> new_key_window | Some st \<Rightarrow> st)"

definition purged_view :: "time \<Rightarrow> time \<times> key_window option \<Rightarrow> time \<times> key_window option" where
  "purged_view now v =
     (fst v, case snd v of None \<Rightarrow> None
       | Some st \<Rightarrow> (if live_window (purge_window (now - fst v) st)
                      then Some (purge_window (now - fst v) st) else None))"

lemma check_view:
  "rl_view (fst (check now k a b l)) k' =
     (if k' = k \<and> \<not> (a = None \<and> b = None) then purged_view now (rl_view l k') else rl_view l k')"
  by (cases "window_of l k")
    (auto simp: check_def rl_purge_settle rl_view_def settle_def purged_view_def)

lemma snapshot_view:
  "rl_view (fst (get_window_snapshot now k l)) k' =
     (if k' = k then purged_view now (rl_view l k') else rl_view l k')"
  by (cases "window_of l k")
    (auto simp: get_window_snapshot_def rl_purge_settle rl_view_def settle_def purged_view_def)

lemma record_view:
  "rl_view (record_request now key n l) k =
     (if key = Some k
      then (rl_window l, Some (let st = writer_base now (rl_view l k)
                               in append_event (legacy_event now n st) st))
      else rl_view l k)"
  by (cases key)
    (auto simp: record_request_def writer_window_view writer_base_def rl_view_def
      split_beta Let_def)

lemma try_acquire_view:
  "rl_view (fst (try_acquire now key a b n l)) k =
     (if key = Some k
      then (rl_window l, Some (let st = writer_base now (rl_view l k)
              in if limit_reached a (kw_rpm_count st) \<or> (n \<noteq> 0 \<and> limit_reached b (kw_tpm_tokens st))
                 then st else append_event (legacy_event now n st) st))
      else rl_view l k)"
  by (cases key)
    (auto simp: try_acquire_def writer_window_view writer_base_def rl_view_def
      split_beta Let_def)

definition admission_base :: "time \<Rightarrow> time \<times> key_window option \<Rightarrow> key_window" where
  "admission_base now v = (case snd v of None \<Rightarrow> new_key_window
     | Some st \<Rightarrow> purge_window (now - fst v) st)"

text \<open>The window left by an admission on window \<open>st\<close>.\<close>

definition admission_result :: "time \<Rightarrow> string \<Rightarrow> int option \<Rightarrow> int option \<Rightarrow> key_window \<Rightarrow>
    key_window option" where
  "admission_result now rid a b st =
     (if dict_get (kw_request_events st) rid \<noteq> None \<or> limit_reached a (kw_rpm_count st) \<or>
         limit_reached b (kw_tpm_tokens st)
      then (if live_window st then Some st else None)
      else Some (open_request now rid st))"

lemma not_live_new [simp]: "\<not> live_window new_key_window"
  by (simp add: live_window_def new_key_window_def)

lemma admit_view:
  "rl_view (fst (admit_request now rid key a b l)) k =
     (if key = Some k
      then (rl_window l, admission_result now rid a b (admission_base now (rl_view l k)))
      else rl_view l k)"
proof (cases key)
  case None
  then show ?thesis by (simp add: admit_request_def)
next
  case (Some j)
  obtain l' st where aw: "admission_window now j l = (l', st)" by fastforce
  have base: "admission_base now (rl_window l, window_of l j) = st"
    using aw admission_window_view(2)[of now j l] by (auto simp: admission_base_def split: option.splits)
  have v: "window_of l' k = (if k = j then (if live_window st then Some st else None) else window_of l k)"
    using aw admission_window_view(1)[of now j l k] admission_window_view(2)[of now j l]
    by (auto simp: rl_view_def split: if_splits option.splits)
  have w: "rl_window l' = rl_window l" using aw admission_window_view(3)[of now j l] by simp
  show ?thesis
  proof (cases "dict_get (kw_request_events st) rid")
    case None
    with Some aw base v w show ?thesis
      by (auto simp: admit_request_def admission_result_def rl_view_def)
  next
    case (Some x)
    with \<open>key = Some j\<close> aw base v w show ?thesis
      by (cases x) (auto simp: admit_request_def admission_result_def rl_view_def)
  qed
qed

lemma attribute_view:
  "rl_view (fst (attribute_request_tokens now rid key n l)) k =
     (if key = Some k \<and> window_of l k \<noteq> None
      then (rl_window l,
        (let st = purge_window (now - rl_window l) (the (window_of l k))
         in case (dict_get (kw_request_events st) rid, n) of
              (Some None, TokInt i) \<Rightarrow>
                if i < 0 then Some st else Some (close_request now rid i st)
            | _ \<Rightarrow> if live_window st then Some st else None))
      else rl_view l k)"
proof (cases key)
  case None
  then show ?thesis by (simp add: attribute_request_tokens_def)
next
  case (Some j)
  have live: "dict_get (kw_request_events st) rid = Some x \<Longrightarrow> live_window st" for st x
    by (auto simp: live_window_def)
  show ?thesis
    unfolding Some attribute_request_tokens_def
    by (cases "window_of l j")
      (auto simp: rl_purge_settle Let_def rl_view_def settle_def live
        split: option.split token_arg.split)
qed

lemma add_tokens_view:
  "rl_view (fst (add_tokens now key n b l)) k =
     (if key = Some k \<and> n \<noteq> 0 \<and> window_of l k \<noteq> None \<and> kw_events (the (window_of l k)) \<noteq> []
      then (rl_window l,
        (let st = purge_window (now - rl_window l) (the (window_of l k))
         in case add_to_last_legacy n (kw_events st) of
              Some es' \<Rightarrow> Some (if over_limit b (kw_tpm_tokens st + n) then st
                 else st\<lparr>kw_events := es', kw_tpm_tokens := kw_tpm_tokens st + n\<rparr>)
            | None \<Rightarrow> if live_window st then Some st else None))
      else rl_view l k)"
proof (cases key)
  case None
  then show ?thesis by (simp add: add_tokens_def)
next
  case (Some j)
  have live: "add_to_last_legacy n (kw_events st) = Some x \<Longrightarrow> live_window st" for st x
    by (cases "kw_events st") (auto simp: live_window_def)
  show ?thesis
    unfolding Some add_tokens_def
    by (cases "window_of l j")
      (auto simp: rl_purge_settle Let_def rl_view_def settle_def live split: option.split)
qed

lemma reset_view:
  "rl_view (rl_reset key l) k =
     (if key = None \<or> key = Some k then (rl_window l, None) else rl_view l k)"
  by (simp add: rl_view_def)

lemmas rl_views = check_view try_acquire_view admit_view attribute_view record_view
  add_tokens_view snapshot_view reset_view

lemma rl_frame: "\<not> rl_touches x k \<Longrightarrow> rl_view (rl_step x l) k = rl_view l k"
  by (cases x) (auto simp: rl_views)

lemma rl_local: "rl_view l k = rl_view m k \<Longrightarrow> rl_view (rl_step x l) k = rl_view (rl_step x m) k"
proof -
  assume eq: "rl_view l k = rl_view m k"
  then have "rl_window l = rl_window m" "window_of l k = window_of m k" by (simp_all add: rl_view_def)
  with eq show ?thesis by (cases "rl_touches x k"; cases x) (auto simp: rl_views rl_frame)
qed

interpretation limiter_keys: keyed_machine rl_step rl_touches rl_view
  by unfold_locales (fact rl_frame, fact rl_local)



section \<open>The rolling bound\<close>

text \<open>Does the call record a request for the key? (An admission that finds its request in
  flight records nothing.)\<close>

fun records_request :: "int \<Rightarrow> rl_op \<Rightarrow> rate_limiter \<Rightarrow> bool" where
  "records_request k (Admit now rid key a b) l =
     (key = Some k \<and> dict_get (kw_request_events (snd (admission_window now k l))) rid = None \<and>
      snd (admit_request now rid key a b l) = None)"
| "records_request k (TryAcquire now key a b n) l =
     (key = Some k \<and> snd (try_acquire now key a b n l) = None)"
| "records_request k (Record now key n) l = (key = Some k)"
| "records_request k _ l = False"

fun op_time :: "rl_op \<Rightarrow> time option" where
  "op_time (Check now k a b) = Some now"
| "op_time (TryAcquire now key a b n) = Some now"
| "op_time (Admit now rid key a b) = Some now"
| "op_time (Attribute now rid key n) = Some now"
| "op_time (Record now key n) = Some now"
| "op_time (AddTokens now key n b) = Some now"
| "op_time (Snapshot now k) = Some now"
| "op_time (Reset key) = None"

text \<open>The clock readings of a run do not decrease.\<close>

fun clocked :: "time \<Rightarrow> rl_op list \<Rightarrow> bool" where
  "clocked now [] = True"
| "clocked now (x # xs) =
     (case op_time x of None \<Rightarrow> clocked now xs | Some t \<Rightarrow> now \<le> t \<and> clocked t xs)"

text \<open>The run, with the times at which requests of key \<open>k\<close> were recorded.\<close>

definition log_step :: "int \<Rightarrow> rl_op \<Rightarrow> rate_limiter \<times> time list \<Rightarrow> rate_limiter \<times> time list" where
  "log_step k x s =
     (rl_step x (fst s),
      snd s @ (if records_request k x (fst s) then [the (op_time x)] else []))"

definition request_log :: "int \<Rightarrow> rl_op list \<Rightarrow> rate_limiter \<Rightarrow> time list" where
  "request_log k xs l = snd (fold (log_step k) xs (l, []))"

text \<open>Every call that can record a request of the key carries the RPM limit \<open>n\<close>, and the
  key's window is not reset.\<close>

fun limited_by :: "int \<Rightarrow> int \<Rightarrow> rl_op \<Rightarrow> bool" where
  "limited_by k n (Admit now rid key a b) = (key = Some k \<longrightarrow> a = Some n)"
| "limited_by k n (TryAcquire now key a b m) = (key = Some k \<longrightarrow> a = Some n)"
| "limited_by k n (Record now key m) = (key \<noteq> Some k)"
| "limited_by k n (Reset key) = (key \<noteq> None \<and> key \<noteq> Some k)"
| "limited_by k n _ = True"

definition within_rate :: "time \<Rightarrow> int \<Rightarrow> time list \<Rightarrow> bool" where
  "within_rate w n ts \<longleftrightarrow>
     (\<forall>i<length ts. int (length (filter (\<lambda>t. ts ! i - w \<le> t) (take (Suc i) ts))) \<le> n)"

lemma within_rate_snoc:
  "within_rate w n (ts @ [t]) \<longleftrightarrow>
     within_rate w n ts \<and> int (length (filter (\<lambda>s. t - w \<le> s) (ts @ [t]))) \<le> n"
  by (auto simp: within_rate_def less_Suc_eq nth_append)

definition rpm_since :: "time \<Rightarrow> key_window option \<Rightarrow> int" where
  "rpm_since c v = (case v of None \<Rightarrow> 0
     | Some st \<Rightarrow> (\<Sum>e\<leftarrow>filter (\<lambda>e. c \<le> ev_timestamp e) (kw_events st). ev_rpm e))"

lemma rpm_since_simps [simp]:
  "rpm_since c None = 0"
  "rpm_since c (Some (append_event e st)) =
     rpm_since c (Some st) + (if c \<le> ev_timestamp e then ev_rpm e else 0)"
  "rpm_since c (Some (open_request now rid st)) = rpm_since c (Some st) + (if c \<le> now then 1 else 0)"
  "rpm_since c (Some (close_request now rid n st)) = rpm_since c (Some st)"
  "rpm_since c (Some new_key_window) = 0"
  by (simp_all add: rpm_since_def append_event_def open_request_def close_request_def
      admission_event_def attribution_event_def new_key_window_def)

lemma rpm_since_dead: "\<not> live_window st \<Longrightarrow> rpm_since c (Some st) = 0"
  by (simp add: rpm_since_def live_window_def)

lemma rpm_since_purge:
  assumes "c' \<le> c" shows "rpm_since c (Some (purge_window c' st)) = rpm_since c (Some st)"
  using limiter_window.trim_keeps[OF assms, of "kw_events st"]
  by (simp add: rpm_since_def kw_events_purge kw_events_purge_events)

lemma filter_map_cong:
  "map f xs = map f ys \<Longrightarrow> map g xs = map g ys \<Longrightarrow>
   map g (filter (\<lambda>x. P (f x)) xs) = map g (filter (\<lambda>x. P (f x)) ys)"
proof (induction xs arbitrary: ys)
  case Nil
  then show ?case by simp
next
  case (Cons x xs)
  then show ?case by (cases ys) auto
qed

lemma rpm_since_add_tokens:
  assumes "add_to_last_legacy n (kw_events st) = Some es'"
  shows "rpm_since c (Some (st\<lparr>kw_events := es', kw_tpm_tokens := m\<rparr>)) = rpm_since c (Some st)"
proof -
  note eqs = add_to_last_legacy_map[OF assms]
  have "map ev_rpm (filter (\<lambda>e. c \<le> ev_timestamp e) es') =
        map ev_rpm (filter (\<lambda>e. c \<le> ev_timestamp e) (kw_events st))"
    by (rule filter_map_cong[where f = ev_timestamp]) (use eqs in auto)
  then show ?thesis by (simp add: rpm_since_def)
qed

lemma rpm_since_view: "rpm_since c (window_of l k) = rpm_since c (snd (rl_view l k))"
  by (simp add: rl_view_def)

lemma rpm_since_bases:
  assumes "now - fst v \<le> c"
  shows "rpm_since c (Some (writer_base now v)) = rpm_since c (snd v)"
    and "rpm_since c (Some (admission_base now v)) = rpm_since c (snd v)"
    and "rpm_since c (snd (purged_view now v)) = rpm_since c (snd v)"
proof -
  have new: "purge_window (now - fst v) new_key_window = new_key_window"
    by (simp add: purge_window_def new_key_window_def)
  show "rpm_since c (Some (writer_base now v)) = rpm_since c (snd v)"
    using assms by (auto simp: writer_base_def new rpm_since_purge split: option.split)
  show "rpm_since c (Some (admission_base now v)) = rpm_since c (snd v)"
    using assms by (auto simp: admission_base_def rpm_since_purge split: option.split)
  show "rpm_since c (snd (purged_view now v)) = rpm_since c (snd v)"
    using assms rpm_since_purge[OF assms] rpm_since_dead
    by (auto simp: purged_view_def split: option.split) (metis)
qed

lemma admit_outcome:
  "snd (admit_request now rid (Some k) a b l) = None \<longleftrightarrow>
     (let st = admission_base now (rl_view l k)
      in dict_get (kw_request_events st) rid = Some None \<or>
         dict_get (kw_request_events st) rid = None \<and>
         \<not> limit_reached a (kw_rpm_count st) \<and> \<not> limit_reached b (kw_tpm_tokens st))"
proof -
  have base: "snd (admission_window now k l) = admission_base now (rl_view l k)"
    by (simp add: admission_window_view(2) admission_base_def rl_view_def split: option.split)
  show ?thesis
    by (auto simp: admit_request_def base split_beta Let_def split: option.split)
qed

lemma try_acquire_outcome:
  "snd (try_acquire now (Some k) a b n l) = None \<longleftrightarrow>
     (let st = writer_base now (rl_view l k)
      in \<not> limit_reached a (kw_rpm_count st) \<and> \<not> (n \<noteq> 0 \<and> limit_reached b (kw_tpm_tokens st)))"
  using writer_window_view(2)[of now k l]
  by (auto simp: try_acquire_def writer_base_def rl_view_def split_beta Let_def)

lemma admission_window_base:
  "snd (admission_window now k l) = admission_base now (rl_view l k)"
  by (simp add: admission_window_view(2) admission_base_def rl_view_def split: option.split)

text \<open>A step changes the requests counted since a recent moment by exactly the request it
  records.\<close>

lemma rl_step_since:
  assumes time: "op_time x = Some now" and c: "now - rl_window l \<le> c"
  shows "rpm_since c (window_of (rl_step x l) k) =
         rpm_since c (window_of l k) + (if records_request k x l \<and> c \<le> now then 1 else 0)"
proof -
  have c': "now - fst (rl_view l k) \<le> c" using c by (simp add: rl_view_def)
  note bases = rpm_since_bases[OF c']
  show ?thesis
  proof (cases x)
    case (Check t j a b)
    with time bases show ?thesis by (auto simp: rpm_since_view check_view)
  next
    case (Snapshot t j)
    with time bases show ?thesis by (auto simp: rpm_since_view snapshot_view)
  next
    case (Reset key)
    with time show ?thesis by simp
  next
    case (Record t key m)
    with time bases show ?thesis
      by (simp add: rpm_since_view record_view Let_def legacy_event_def)
  next
    case (TryAcquire t key a b m)
    with time bases show ?thesis
      by (auto simp: rpm_since_view try_acquire_view Let_def legacy_event_def try_acquire_outcome)
  next
    case (Admit t rid key a b)
    with time bases show ?thesis
      by (auto simp: rpm_since_view admit_view Let_def admit_outcome admission_window_base
          admission_result_def rpm_since_dead simp del: not_None_eq)
  next
    case (Attribute t rid key n)
    have "rpm_since c (snd (rl_view (fst (attribute_request_tokens now rid key n l)) k)) =
          rpm_since c (snd (rl_view l k))"
    proof (cases "key = Some k \<and> window_of l k \<noteq> None")
      case True
      then obtain st where st: "key = Some k" "window_of l k = Some st" by auto
      have since: "rpm_since c (Some (purge_window (now - rl_window l) st)) = rpm_since c (Some st)"
        by (rule rpm_since_purge[OF c])
      show ?thesis
        using st since rpm_since_dead[of "purge_window (now - rl_window l) st" c]
        by (auto simp: attribute_view rl_view_sel Let_def split: option.split token_arg.split)
    next
      case False
      then show ?thesis by (auto simp: attribute_view)
    qed
    with Attribute time show ?thesis by (simp add: rpm_since_view)
  next
    case (AddTokens t key n b)
    have "rpm_since c (snd (rl_view (fst (add_tokens now key n b l)) k)) =
          rpm_since c (snd (rl_view l k))"
    proof (cases "key = Some k \<and> n \<noteq> 0 \<and> window_of l k \<noteq> None \<and>
        kw_events (the (window_of l k)) \<noteq> []")
      case True
      then obtain st where st: "key = Some k" "window_of l k = Some st" by auto
      have since: "rpm_since c (Some (purge_window (now - rl_window l) st)) = rpm_since c (Some st)"
        by (rule rpm_since_purge[OF c])
      show ?thesis
        using True st since rpm_since_dead[of "purge_window (now - rl_window l) st" c]
        by (auto simp: add_tokens_view rl_view_sel Let_def rpm_since_add_tokens split: option.split)
    next
      case False
      then show ?thesis by (auto simp: add_tokens_view)
    qed
    with AddTokens time show ?thesis by (simp add: rpm_since_view)
  qed
qed

lemma rl_step_window: "rl_window (rl_step x l) = rl_window l"
proof -
  have w: "fst (rl_view m k) = rl_window m" for m k by (simp add: rl_view_def)
  have "fst (rl_view (rl_step x l) 0) = fst (rl_view l 0)"
    by (cases x) (auto simp: rl_views purged_view_def w)
  then show ?thesis by (simp add: w)
qed

text \<open>A recorded request finds fewer than \<open>n\<close> requests since the horizon.\<close>

lemma rpm_since_le_count:
  assumes "window_ok st" shows "rpm_since c (Some st) \<le> kw_rpm_count st"
proof -
  have "(\<Sum>e\<leftarrow>filter P es. ev_rpm e) \<le> (\<Sum>e\<leftarrow>es. ev_rpm e)"
    if "\<forall>e\<in>set es. 0 \<le> ev_rpm e" for P and es :: "rate_event list"
    using that by (induction es) auto
  then show ?thesis using assms by (simp add: rpm_since_def window_ok_defs)
qed

lemma bases_ok:
  assumes "limiter_ok l"
  shows "window_ok (writer_base now (rl_view l k))" "window_ok (admission_base now (rl_view l k))"
  using assms
  by (auto simp: writer_base_def admission_base_def rl_view_def limiter_ok_def window_ok_new
      window_ok_purge split: option.split)

lemma recorded_below_limit:
  assumes ok: "limiter_ok l" and rec: "records_request k x l" and lim: "limited_by k n x"
    and time: "op_time x = Some now" and n: "0 < n"
  shows "rpm_since (now - rl_window l) (window_of l k) < n"
proof -
  have v: "now - fst (rl_view l k) = now - rl_window l" by (simp add: rl_view_def)
  note bases = rpm_since_bases[of now "rl_view l k" "now - rl_window l", unfolded v, OF order.refl]
  note le = rpm_since_le_count[OF bases_ok(1)[OF ok], of "now - rl_window l" now k]
    rpm_since_le_count[OF bases_ok(2)[OF ok], of "now - rl_window l" now k]
  from rec lim time n bases le show ?thesis
    by (cases x)
      (auto simp: rpm_since_view try_acquire_outcome admit_outcome admission_window_base Let_def)
qed

lemma log_step_invariant:
  assumes "0 < n" and "clocked now xs" and "\<forall>x\<in>set xs. limited_by k n x"
    and "limiter_ok l" and "within_rate (rl_window l) n ts" and "\<forall>t\<in>set ts. t \<le> now"
    and "\<forall>c \<ge> now - rl_window l.
           int (length (filter (\<lambda>t. c \<le> t) ts)) = rpm_since c (window_of l k)"
  shows "within_rate (rl_window l) n (snd (fold (log_step k) xs (l, ts)))"
  using assms
proof (induction xs arbitrary: now l ts)
  case Nil
  then show ?case by simp
next
  case (Cons x xs)
  have lim: "limited_by k n x" using Cons.prems(3) by simp
  have ok': "limiter_ok (rl_step x l)" using Cons.prems(4) by (rule rl_step_ok)
  show ?case
  proof (cases "op_time x")
    case None
    then obtain key where x: "x = Reset key" by (cases x) auto
    with lim have "window_of (rl_step x l) k = window_of l k" by auto
    with Cons.IH[of now "rl_step x l" ts] Cons.prems ok' x show ?thesis
      by (auto simp: log_step_def rl_step_window)
  next
    case (Some t)
    with Cons.prems(2) have t: "now \<le> t" "clocked t xs" by auto
    define ts' where "ts' = (if records_request k x l then ts @ [t] else ts)"
    have count: "int (length (filter (\<lambda>t. c \<le> t) ts')) = rpm_since c (window_of (rl_step x l) k)"
      if c: "t - rl_window l \<le> c" for c
      using rl_step_since[OF Some c, of k] Cons.prems(7) c t(1) by (auto simp: ts'_def)
    have rate: "within_rate (rl_window l) n ts'"
    proof (cases "records_request k x l")
      case True
      have "rpm_since (t - rl_window l) (window_of l k) < n"
        by (rule recorded_below_limit[OF Cons.prems(4) True lim Some Cons.prems(1)])
      moreover have "int (length (filter (\<lambda>s. t - rl_window l \<le> s) ts)) =
          rpm_since (t - rl_window l) (window_of l k)"
        using Cons.prems(7) t(1) by auto
      ultimately show ?thesis
        using True Cons.prems(5) by (auto simp: ts'_def within_rate_snoc)
    next
      case False
      then show ?thesis using Cons.prems(5) by (simp add: ts'_def)
    qed
    have "\<forall>s\<in>set ts'. s \<le> t" using Cons.prems(6) t(1) by (auto simp: ts'_def)
    with Cons.IH[of t "rl_step x l" ts'] Cons.prems(1,3) t(2) ok' rate count
    have "within_rate (rl_window l) n (snd (fold (log_step k) xs (rl_step x l, ts')))"
      by (simp add: rl_step_window)
    moreover have "log_step k x (l, ts) = (rl_step x l, ts')"
      using Some by (simp add: log_step_def ts'_def)
    ultimately show ?thesis by simp
  qed
qed

section \<open>Requests in flight\<close>

definition in_flight :: "rate_limiter \<Rightarrow> int \<Rightarrow> string \<Rightarrow> bool" where
  "in_flight l k rid \<longleftrightarrow>
     (\<exists>st. window_of l k = Some st \<and> dict_get (kw_request_events st) rid = Some None)"

text \<open>The calls that may end a request: its own attribution and a reset of its key.\<close>

fun may_end :: "int \<Rightarrow> string \<Rightarrow> rl_op \<Rightarrow> bool" where
  "may_end k rid (Attribute now r key n) = (r = rid \<and> key = Some k)"
| "may_end k rid (Reset key) = (key = None \<or> key = Some k)"
| "may_end k rid _ = False"

lemma purge_keeps_open:
  "dict_get (kw_request_events st) rid = Some None \<Longrightarrow>
   dict_get (kw_request_events (purge_window c st)) rid = Some None"
proof -
  have "dict_get (kw_request_events st) rid = Some None \<Longrightarrow>
    dict_get (kw_request_events (purge_events c es st)) rid = Some None" for es
  proof (induction es arbitrary: st)
    case Nil
    then show ?case by simp
  next
    case (Cons e es)
    then have "dict_get (kw_request_events (forget_event e st)) rid = Some None"
      by (auto simp: forget_event_def dict_get_pop split: option.split)
    with Cons show ?case by simp
  qed
  then show "dict_get (kw_request_events st) rid = Some None \<Longrightarrow> ?thesis"
    by (simp add: purge_window_def)
qed

lemma live_open: "dict_get (kw_request_events st) rid = Some x \<Longrightarrow> live_window st"
  by (auto simp: live_window_def)

lemma request_table_simps [simp]:
  "kw_request_events (append_event e st) = kw_request_events st"
  "dict_get (kw_request_events (open_request now r st)) rid =
     (if rid = r then Some None else dict_get (kw_request_events st) rid)"
  "dict_get (kw_request_events (close_request now r n st)) rid =
     (if rid = r then Some (Some (kw_next_oid st)) else dict_get (kw_request_events st) rid)"
  by (simp_all add: append_event_def open_request_def close_request_def dict_get_set)

lemma in_flight_view:
  "in_flight l k rid \<longleftrightarrow> (case snd (rl_view l k) of None \<Rightarrow> False
     | Some st \<Rightarrow> dict_get (kw_request_events st) rid = Some None)"
  by (auto simp: in_flight_def rl_view_def split: option.split)

lemma in_flight_bases:
  assumes "in_flight l k rid"
  shows "dict_get (kw_request_events (writer_base now (rl_view l k))) rid = Some None"
    and "dict_get (kw_request_events (admission_base now (rl_view l k))) rid = Some None"
    and "(case snd (purged_view now (rl_view l k)) of None \<Rightarrow> False
          | Some st \<Rightarrow> dict_get (kw_request_events st) rid = Some None)"
  using assms
  by (auto simp: in_flight_def rl_view_def writer_base_def admission_base_def purged_view_def
      purge_keeps_open live_open[OF purge_keeps_open])

lemma in_flight_step:
  assumes fl: "in_flight l k rid" and keep: "\<not> may_end k rid x"
  shows "in_flight (rl_step x l) k rid"
proof -
  note bases = in_flight_bases[OF fl]
  obtain st where st: "window_of l k = Some st" "dict_get (kw_request_events st) rid = Some None"
    using fl by (auto simp: in_flight_def)
  have pst: "dict_get (kw_request_events (purge_window c st)) rid = Some None" for c
    by (rule purge_keeps_open[OF st(2)])
  note live = live_open[OF pst]
  show ?thesis
  proof (cases x)
    case (Check t j a b)
    with bases fl show ?thesis by (auto simp: in_flight_view check_view)
  next
    case (Snapshot t j)
    with bases fl show ?thesis by (auto simp: in_flight_view snapshot_view)
  next
    case (Reset key)
    with keep fl show ?thesis by (auto simp: in_flight_view reset_view)
  next
    case (Record t key m)
    with bases fl show ?thesis by (auto simp: in_flight_view record_view Let_def)
  next
    case (TryAcquire t key a b m)
    with bases fl show ?thesis by (auto simp: in_flight_view try_acquire_view Let_def)
  next
    case (Admit t r key a b)
    with bases(2) fl live_open[OF bases(2)] show ?thesis
      by (auto simp: in_flight_view admit_view admission_result_def)
  next
    case (Attribute t r key n)
    have "in_flight (fst (attribute_request_tokens t r key n l)) k rid"
    proof (cases "key = Some k")
      case True
      with keep Attribute have "r \<noteq> rid" by auto
      with True st live pst show ?thesis
        by (auto simp: in_flight_view attribute_view Let_def split: option.split token_arg.split)
    next
      case False
      with fl show ?thesis by (simp add: in_flight_view attribute_view)
    qed
    with Attribute show ?thesis by simp
  next
    case (AddTokens t key n b)
    have "in_flight (fst (add_tokens t key n b l)) k rid"
      using fl st live pst by (auto simp: in_flight_view add_tokens_view Let_def split: option.split)
    with AddTokens show ?thesis by simp
  qed
qed

lemma in_flight_run:
  "in_flight l k rid \<Longrightarrow> \<forall>x\<in>set xs. \<not> may_end k rid x \<Longrightarrow> in_flight (fold rl_step xs l) k rid"
  by (induction xs arbitrary: l) (auto intro: in_flight_step)

lemma admitted_in_flight:
  "snd (admit_request now rid (Some k) a b l) = None \<Longrightarrow>
   in_flight (fst (admit_request now rid (Some k) a b l)) k rid"
  by (auto simp: admit_outcome in_flight_view admit_view admission_result_def live_open Let_def)

lemma retry_of_in_flight:
  assumes "in_flight l k rid"
  shows "snd (admit_request now rid (Some k) a b l) = None"
    and "\<not> records_request k (Admit now rid (Some k) a b) l"
  using in_flight_bases(2)[OF assms, of now]
  by (simp_all add: admit_outcome admission_window_base Let_def)

lemma attribution_of_in_flight:
  assumes "in_flight l k rid" and "0 \<le> n"
  shows "snd (attribute_request_tokens now rid (Some k) (TokInt n) l) = Inr True"
    and "window_of (fst (attribute_request_tokens now rid (Some k) (TokInt n) l)) k =
         Some (close_request now rid n (purge_window (now - rl_window l) (the (window_of l k))))"
proof -
  obtain st where st: "window_of l k = Some st" "dict_get (kw_request_events st) rid = Some None"
    using assms(1) by (auto simp: in_flight_def)
  have pst: "dict_get (kw_request_events (purge_window c st)) rid = Some None" for c
    by (rule purge_keeps_open[OF st(2)])
  show "snd (attribute_request_tokens now rid (Some k) (TokInt n) l) = Inr True"
    "window_of (fst (attribute_request_tokens now rid (Some k) (TokInt n) l)) k =
     Some (close_request now rid n (purge_window (now - rl_window l) (the (window_of l k))))"
    using st pst assms(2) by (simp_all add: attribute_request_tokens_def rl_purge_settle)
qed

lemma attribute_outcome:
  "snd (attribute_request_tokens now rid (Some k) n l) = Inr True \<Longrightarrow>
   dict_get (kw_request_events (admission_base now (rl_view l k))) rid = Some None"
  by (cases "window_of l k")
    (auto simp: attribute_request_tokens_def rl_purge_settle admission_base_def rl_view_def
      split: option.splits token_arg.splits if_splits)

section \<open>Properties\<close>

text \<open>C1: Over any rolling window no key gets more requests recorded than its RPM limit. For
  every run of limiter calls whose clock does not go back, in which every admission or
  acquisition of key \<open>k\<close> carries the positive limit \<open>n\<close> (other keys do what they like, the
  key is not reset and not charged by the unchecked \<open>record\<close>), at every recorded request the
  number of requests recorded in the window that ends there is at most \<open>n\<close>.\<close>

theorem rolling_rpm_bound:
  assumes "0 < n" and "clocked now xs" and "\<forall>x\<in>set xs. limited_by k n x"
  shows "within_rate w n (request_log k xs (new_limiter w))"
  using log_step_invariant[OF assms limiter_ok_new[of w], of "[]"]
  by (simp add: request_log_def within_rate_def new_limiter_def)

theorem rolling_rpm_bound_witness:
  "request_log 7 [Admit 0 ''a'' (Some 7) (Some 2) None, Admit 1 ''b'' (Some 7) (Some 2) None,
       Admit 5 ''c'' (Some 7) (Some 2) None, Admit 61 ''d'' (Some 7) (Some 2) None]
       (new_limiter 60) = [0, 1, 61]
   \<and> within_rate 60 2 (request_log 7 [Admit 0 ''a'' (Some 7) (Some 2) None,
       Admit 1 ''b'' (Some 7) (Some 2) None, Admit 5 ''c'' (Some 7) (Some 2) None,
       Admit 61 ''d'' (Some 7) (Some 2) None] (new_limiter 60))"
proof
  show "request_log 7 [Admit 0 ''a'' (Some 7) (Some 2) None, Admit 1 ''b'' (Some 7) (Some 2) None,
       Admit 5 ''c'' (Some 7) (Some 2) None, Admit 61 ''d'' (Some 7) (Some 2) None]
       (new_limiter 60) = [0, 1, 61]"
    by (simp add: request_log_def log_step_def new_limiter_def admit_request_def
        admission_window_def rl_purge_def purge_window_def put_window_def new_key_window_def
        open_request_def append_event_def admission_event_def forget_event_def Let_def)
  show "within_rate 60 2 (request_log 7 [Admit 0 ''a'' (Some 7) (Some 2) None,
       Admit 1 ''b'' (Some 7) (Some 2) None, Admit 5 ''c'' (Some 7) (Some 2) None,
       Admit 61 ''d'' (Some 7) (Some 2) None] (new_limiter 60))"
    by (rule rolling_rpm_bound[where now = 0]) simp_all
qed


text \<open>C10: In every state reachable from an empty limiter, every stored key window is
  consistent: its two counters are the sums over its queue, its attribution table names exactly
  the queued terminal events, and it holds at least one event or request (idle keys are
  dropped).\<close>

theorem limiter_state_consistent:
  assumes "window_of (fold rl_step xs (new_limiter w)) k = Some st"
  shows "window_ok st \<and> live_window st"
  using limiter_run.run_invar[OF limiter_ok_new[of w], of xs] assms
  by (auto simp: limiter_ok_def)

theorem limiter_state_consistent_witness:
  "\<exists>st. window_of (fold rl_step [Record 1 (Some 3) 40] (new_limiter 60)) 3 = Some st \<and>
     kw_tpm_tokens st = 40 \<and> window_ok st \<and> live_window st"
proof -
  obtain st where st: "window_of (fold rl_step [Record 1 (Some 3) 40] (new_limiter 60)) 3 = Some st"
    "kw_tpm_tokens st = 40"
    by (simp add: record_request_def writer_window_def new_limiter_def rl_purge_def purge_window_def
        put_window_def pop_window_def new_key_window_def append_event_def legacy_event_def Let_def)
  from limiter_state_consistent[OF st(1)] st show ?thesis by blast
qed

text \<open>Keys do not interfere: the window of a key after any run is the window after the calls
  on that key alone (calls on other keys, in any interleaving, change nothing it sees).\<close>

theorem limiter_noninterference:
  "window_of (fold rl_step xs (new_limiter w)) k =
   window_of (fold rl_step (filter (\<lambda>x. rl_touches x k) xs) (new_limiter w)) k"
  using limiter_keys.run_noninterference[of xs "new_limiter w" k] by (simp add: rl_view_def)

text \<open>An admitted request is charged once. While it is in flight (no attribution of it and no
  reset of its key), at any later time and under any limits, whatever else happened, a retry
  with the same identifier is admitted and records nothing.\<close>

theorem admission_idempotent:
  assumes "snd (admit_request now rid (Some k) a b l) = None"
    and "\<forall>x\<in>set xs. \<not> may_end k rid x"
  defines "l' \<equiv> fold rl_step xs (fst (admit_request now rid (Some k) a b l))"
  shows "snd (admit_request now' rid (Some k) a' b' l') = None \<and>
         \<not> records_request k (Admit now' rid (Some k) a' b') l'"
proof -
  have "in_flight l' k rid"
    unfolding l'_def by (rule in_flight_run[OF admitted_in_flight[OF assms(1)] assms(2)])
  from retry_of_in_flight[OF this] show ?thesis by blast
qed

theorem admission_idempotent_witness:
  "snd (admit_request 9 ''r'' (Some 1) (Some 1) None
     (fold rl_step [Admit 8 ''s'' (Some 1) (Some 1) None]
        (fst (admit_request 2 ''r'' (Some 1) (Some 1) None (new_limiter 60))))) = None"
proof -
  have "snd (admit_request 2 ''r'' (Some 1) (Some 1) None (new_limiter 60)) = None"
    by (simp add: admit_request_def admission_window_def new_limiter_def new_key_window_def)
  from admission_idempotent[OF this, of "[Admit 8 ''s'' (Some 1) (Some 1) None]" 9 "Some 1" None]
  show ?thesis by simp
qed

lemma close_request_persists:
  assumes ok: "window_ok st" and pending: "dict_get (kw_request_events st) rid = Some None"
    and c: "c \<le> now"
  shows "dict_get (kw_request_events (purge_window c (close_request now rid n st))) rid =
         Some (Some (kw_next_oid st))"
proof -
  let ?st = "close_request now rid n st"
  have ok': "window_ok (purge_window c ?st)"
    by (rule window_ok_purge[OF window_ok_close_request[OF ok pending]])
  have evs: "kw_events ?st = kw_events st @ [attribution_event now rid n st]"
    by (simp add: close_request_def append_event_def)
  have "kw_events (purge_window c ?st) =
      dropWhile (\<lambda>e. ev_timestamp e < c) (kw_events st) @ [attribution_event now rid n st]"
    using c by (simp add: kw_events_purge evs dropWhile_append dropWhile_append3 attribution_event_def
        split: if_splits)
  then have "attribution_event now rid n st \<in> set (kw_events (purge_window c ?st))" by simp
  then have "(rid, kw_next_oid st) \<in> tagged (kw_events (purge_window c ?st))"
    by (force simp: tagged_def attribution_event_def)
  with ok' show ?thesis by (simp add: window_ok_def table_ok_def)
qed

text \<open>Tokens are attributed exactly once. For a request in flight the first attribution of a
  non-negative count succeeds; while the attributed event is inside the window (the clock has
  not passed \<open>now + window\<close>), a second attribution is refused and a new admission of the same
  identifier is answered with the terminal marker.\<close>

theorem attribution_exactly_once:
  assumes ok: "limiter_ok l" and fl: "in_flight l k rid" and n: "0 \<le> n"
    and later: "now' \<le> now + rl_window l"
  defines "r \<equiv> attribute_request_tokens now rid (Some k) (TokInt n) l"
  shows "snd r = Inr True \<and>
         snd (attribute_request_tokens now' rid (Some k) m (fst r)) = Inr False \<and>
         snd (admit_request now' rid (Some k) a b (fst r)) = Some RequestAlreadyTerminal"
proof -
  let ?st = "purge_window (now - rl_window l) (the (window_of l k))"
  obtain st where st: "window_of l k = Some st" "dict_get (kw_request_events st) rid = Some None"
    using fl by (auto simp: in_flight_def)
  have r: "snd r = Inr True" "window_of (fst r) k = Some (close_request now rid n ?st)"
    using attribution_of_in_flight[OF fl n] by (simp_all add: r_def)
  have w: "rl_window (fst r) = rl_window l"
    using rl_step_window[of "Attribute now rid (Some k) (TokInt n)" l] by (simp add: r_def)
  have "dict_get (kw_request_events (purge_window (now' - rl_window l) (close_request now rid n ?st))) rid
      = Some (Some (kw_next_oid ?st))"
    by (rule close_request_persists)
      (use ok st later in \<open>simp_all add: limiter_ok_def window_ok_purge purge_keeps_open\<close>)
  with r w show ?thesis
    by (simp add: attribute_request_tokens_def admit_request_def admission_window_def rl_purge_settle)
qed

theorem attribution_exactly_once_witness:
  "snd (attribute_request_tokens 5 ''r'' (Some 1) (TokInt 30)
     (fst (admit_request 2 ''r'' (Some 1) None None (new_limiter 60)))) = Inr True"
proof -
  let ?l = "fst (admit_request 2 ''r'' (Some 1) None None (new_limiter 60))"
  have "limiter_ok ?l" by (rule admit_ok[OF limiter_ok_new])
  moreover have "in_flight ?l 1 ''r''"
    by (rule admitted_in_flight)
      (simp add: admit_request_def admission_window_def new_limiter_def new_key_window_def)
  moreover have "6 \<le> 5 + rl_window ?l"
    using rl_step_window[of "Admit 2 ''r'' (Some 1) None None" "new_limiter 60"]
    by (simp add: new_limiter_def)
  ultimately show ?thesis using attribution_exactly_once[of ?l 1 "''r''" 30 6 5] by simp
qed

end
