(* ===== verification/Budget_Ledger.thy ===== *)
theory Budget_Ledger
  imports Gateway_Prelude
begin

text \<open>
  The in-memory USD reservation ledger (\<open>services/access_control.py\<close>): anonymous and
  per-request reservations of a key against its budget, their commit and release, and the
  validation of amounts.

  Amounts are the rationals the floats denote and their sums are exact (\<open>math.fsum\<close> rounds the
  exact sum once; the legacy path adds floats one by one).
\<close>

section \<open>Data\<close>

definition DEFAULT_USD_BUDGET_RESERVATION_ESTIMATE :: rat where
  "DEFAULT_USD_BUDGET_RESERVATION_ESTIMATE = 5"

definition USD_EPSILON :: rat where
  "USD_EPSILON = 1 / 10 ^ 9"

record ledger_entry =
  le_budget_usd :: "rat option"
  le_spent_usd :: rat
  le_reserved_usd :: rat
  le_reservations :: "rat list"
  le_request_reservations :: "(string, rat) dict"

type_synonym ledger = "(int, ledger_entry) dict"

definition new_entry :: "rat option \<Rightarrow> rat \<Rightarrow> ledger_entry" where
  "new_entry budget spent = \<lparr>le_budget_usd = budget, le_spent_usd = spent, le_reserved_usd = 0,
     le_reservations = [], le_request_reservations = []\<rparr>"

definition normalize_request_usd :: "py_num \<Rightarrow> unit + rat" where
  "normalize_request_usd v = finite_non_negative v"

definition sum_request_usd :: "rat list \<Rightarrow> unit + rat" where
  "sum_request_usd xs =
     (let total = sum_list xs
      in if float_overflow total \<or> total < 0 then Inl () else Inr total)"

definition budget_enforced :: "ledger_entry \<Rightarrow> bool" where
  "budget_enforced e = (case le_budget_usd e of None \<Rightarrow> False | Some b \<Rightarrow> b \<ge> 0)"

definition request_reserved_total :: "ledger_entry \<Rightarrow> string option \<Rightarrow> rat list \<Rightarrow> unit + rat" where
  "request_reserved_total e excluded additional =
     sum_request_usd
       (le_reservations e @
        map snd (filter (\<lambda>p. Some (fst p) \<noteq> excluded) (le_request_reservations e)) @ additional)"

definition over_budget :: "ledger_entry \<Rightarrow> rat \<Rightarrow> bool" where
  "over_budget e liability =
     (case le_budget_usd e of None \<Rightarrow> False | Some b \<Rightarrow> liability > b + USD_EPSILON)"

section \<open>Operations\<close>

definition sync_record :: "int \<Rightarrow> rat option \<Rightarrow> rat \<Rightarrow> ledger \<Rightarrow> ledger" where
  "sync_record k budget spent d =
     (let spent_value = max 0 spent
      in case dict_get d k of
           None \<Rightarrow> dict_set k (new_entry budget spent_value) d
         | Some e \<Rightarrow>
             (let e1 = e\<lparr>le_budget_usd := budget\<rparr>
              in dict_set k (if spent_value > le_spent_usd e
                             then e1\<lparr>le_spent_usd := spent_value\<rparr> else e1) d))"

definition reset_record :: "int \<Rightarrow> rat option \<Rightarrow> rat \<Rightarrow> ledger \<Rightarrow> ledger" where
  "reset_record k budget spent d =
     (let spent_value = max 0 spent
      in case dict_get d k of
           None \<Rightarrow> dict_set k (new_entry budget spent_value) d
         | Some e \<Rightarrow> dict_set k (e\<lparr>le_budget_usd := budget, le_spent_usd := spent_value\<rparr>) d)"

definition reserve :: "int \<Rightarrow> rat \<Rightarrow> ledger \<Rightarrow> ledger \<times> bool" where
  "reserve k estimate d =
     (let v = max 0 estimate
      in case dict_get d k of
           None \<Rightarrow> (d, True)
         | Some e \<Rightarrow>
             (if \<not> budget_enforced e then (d, True)
              else let next_reserved = le_reserved_usd e + v
                   in if over_budget e (le_spent_usd e + next_reserved) then (d, False)
                      else (dict_set k (e\<lparr>le_reserved_usd := next_reserved,
                              le_reservations := le_reservations e @ [v]\<rparr>) d, True)))"

text \<open>\<open>Inl ()\<close> is \<open>AccountingValidationError\<close>.\<close>

definition reserve_request :: "string \<Rightarrow> int \<Rightarrow> py_num \<Rightarrow> ledger \<Rightarrow> ledger \<times> (unit + bool)" where
  "reserve_request rid k estimate d =
     (case normalize_request_usd estimate of
        Inl _ \<Rightarrow> (d, Inl ())
      | Inr v \<Rightarrow>
          (let e = (case dict_get d k of None \<Rightarrow> new_entry None 0 | Some e \<Rightarrow> e)
           in case dict_get (le_request_reservations e) rid of
                Some existing \<Rightarrow> (d, if existing \<noteq> v then Inl () else Inr True)
              | None \<Rightarrow>
                  (case request_reserved_total e None [v] of
                     Inl _ \<Rightarrow> (d, Inl ())
                   | Inr next_reserved \<Rightarrow>
                       (case sum_request_usd [le_spent_usd e, next_reserved] of
                          Inl _ \<Rightarrow> (d, Inl ())
                        | Inr liability \<Rightarrow>
                            (if budget_enforced e \<and> over_budget e liability then (d, Inr False)
                             else (dict_set k (e\<lparr>le_reserved_usd := next_reserved,
                                     le_request_reservations :=
                                       dict_set rid v (le_request_reservations e)\<rparr>) d,
                                   Inr True))))))"

text \<open>\<open>reservations.pop(index)\<close> of the first reservation within the tolerance.\<close>

fun pop_close :: "rat \<Rightarrow> rat list \<Rightarrow> (rat \<times> rat list) option" where
  "pop_close v [] = None"
| "pop_close v (x # xs) =
     (if \<bar>x - v\<bar> \<le> USD_EPSILON then Some (x, xs)
      else map_option (\<lambda>(y, ys). (y, x # ys)) (pop_close v xs))"

definition pop_reserved_value :: "ledger_entry \<Rightarrow> rat option \<Rightarrow> rat \<times> ledger_entry" where
  "pop_reserved_value e reserved =
     (case le_reservations e of
        [] \<Rightarrow> (0, e)
      | x # xs \<Rightarrow>
          (case reserved of
             None \<Rightarrow> (x, e\<lparr>le_reservations := xs\<rparr>)
           | Some r \<Rightarrow>
               (case pop_close (max 0 r) (x # xs) of
                  Some (y, ys) \<Rightarrow> (y, e\<lparr>le_reservations := ys\<rparr>)
                | None \<Rightarrow> (0, e))))"

definition drop_reserved :: "ledger_entry \<Rightarrow> rat option \<Rightarrow> ledger_entry" where
  "drop_reserved e reserved =
     (let (v, e1) = pop_reserved_value e reserved
      in e1\<lparr>le_reserved_usd := max 0 (le_reserved_usd e1 - v)\<rparr>)"

definition commit_reserved :: "int \<Rightarrow> rat \<Rightarrow> rat option \<Rightarrow> ledger \<Rightarrow> ledger" where
  "commit_reserved k actual reserved d =
     (let v = max 0 actual
      in case dict_get d k of
           None \<Rightarrow> d
         | Some e \<Rightarrow>
             (let e1 = drop_reserved e reserved
              in dict_set k (e1\<lparr>le_spent_usd := le_spent_usd e1 + v\<rparr>) d))"

definition commit_request :: "string \<Rightarrow> int \<Rightarrow> py_num \<Rightarrow> ledger \<Rightarrow> ledger \<times> (unit + bool)" where
  "commit_request rid k actual d =
     (case dict_get d k of
        None \<Rightarrow> (d, Inr False)
      | Some e \<Rightarrow>
          (case dict_get (le_request_reservations e) rid of
             None \<Rightarrow> (d, Inr False)
           | Some _ \<Rightarrow>
               (case normalize_request_usd actual of
                  Inl _ \<Rightarrow> (d, Inl ())
                | Inr v \<Rightarrow>
                    (case request_reserved_total e (Some rid) [] of
                       Inl _ \<Rightarrow> (d, Inl ())
                     | Inr next_reserved \<Rightarrow>
                         (case sum_request_usd [le_spent_usd e, v] of
                            Inl _ \<Rightarrow> (d, Inl ())
                          | Inr next_spent \<Rightarrow>
                              (dict_set k (e\<lparr>le_request_reservations :=
                                   dict_pop rid (le_request_reservations e),
                                 le_reserved_usd := next_reserved,
                                 le_spent_usd := next_spent\<rparr>) d,
                               Inr True))))))"

definition release :: "int \<Rightarrow> rat option \<Rightarrow> ledger \<Rightarrow> ledger" where
  "release k reserved d =
     (case dict_get d k of None \<Rightarrow> d | Some e \<Rightarrow> dict_set k (drop_reserved e reserved) d)"

definition release_request :: "string \<Rightarrow> int \<Rightarrow> ledger \<Rightarrow> ledger \<times> (unit + bool)" where
  "release_request rid k d =
     (case dict_get d k of
        None \<Rightarrow> (d, Inr False)
      | Some e \<Rightarrow>
          (case dict_get (le_request_reservations e) rid of
             None \<Rightarrow> (d, Inr False)
           | Some _ \<Rightarrow>
               (case request_reserved_total e (Some rid) [] of
                  Inl _ \<Rightarrow> (d, Inl ())
                | Inr next_reserved \<Rightarrow>
                    (dict_set k (e\<lparr>le_request_reservations :=
                         dict_pop rid (le_request_reservations e),
                       le_reserved_usd := next_reserved\<rparr>) d,
                     Inr True))))"

definition discard_record :: "int \<Rightarrow> ledger \<Rightarrow> ledger" where
  "discard_record k d = dict_pop k d"

definition reserved_for :: "int \<Rightarrow> ledger \<Rightarrow> rat" where
  "reserved_for k d = (case dict_get d k of None \<Rightarrow> 0 | Some e \<Rightarrow> le_reserved_usd e)"

section \<open>One step per call\<close>

datatype ledger_op =
  SyncRecord int "rat option" rat
| ResetRecord int "rat option" rat
| Reserve int rat
| ReserveRequest string int py_num
| CommitReserved int rat "rat option"
| CommitRequest string int py_num
| Release int "rat option"
| ReleaseRequest string int
| Discard int

fun ledger_step :: "ledger_op \<Rightarrow> ledger \<Rightarrow> ledger" where
  "ledger_step (SyncRecord k b s) d = sync_record k b s d"
| "ledger_step (ResetRecord k b s) d = reset_record k b s d"
| "ledger_step (Reserve k v) d = fst (reserve k v d)"
| "ledger_step (ReserveRequest rid k v) d = fst (reserve_request rid k v d)"
| "ledger_step (CommitReserved k v r) d = commit_reserved k v r d"
| "ledger_step (CommitRequest rid k v) d = fst (commit_request rid k v d)"
| "ledger_step (Release k r) d = release k r d"
| "ledger_step (ReleaseRequest rid k) d = fst (release_request rid k d)"
| "ledger_step (Discard k) d = discard_record k d"

fun ledger_key :: "ledger_op \<Rightarrow> int" where
  "ledger_key (SyncRecord k b s) = k"
| "ledger_key (ResetRecord k b s) = k"
| "ledger_key (Reserve k v) = k"
| "ledger_key (ReserveRequest rid k v) = k"
| "ledger_key (CommitReserved k v r) = k"
| "ledger_key (CommitRequest rid k v) = k"
| "ledger_key (Release k r) = k"
| "ledger_key (ReleaseRequest rid k) = k"
| "ledger_key (Discard k) = k"

lemmas ledger_op_defs = sync_record_def reset_record_def reserve_def reserve_request_def
  commit_reserved_def commit_request_def release_def release_request_def discard_record_def

lemma ledger_frame: "ledger_key x \<noteq> k \<Longrightarrow> dict_get (ledger_step x d) k = dict_get d k"
  by (cases x) (auto simp: ledger_op_defs dict_simps Let_def split: option.split sum.split)

lemma ledger_local:
  assumes "dict_get d k = dict_get c k"
  shows "dict_get (ledger_step x d) k = dict_get (ledger_step x c) k"
proof (cases "ledger_key x = k")
  case False
  then show ?thesis using assms by (simp add: ledger_frame)
next
  case True
  show ?thesis
  proof (cases x)
    case (ReserveRequest rid j v)
    with True assms show ?thesis
      by (cases "dict_get c k"; cases "normalize_request_usd v")
        (auto simp: reserve_request_def dict_simps Let_def split: sum.split option.split)
  qed (use True assms in \<open>auto simp: ledger_op_defs dict_simps Let_def
        split: sum.split option.split\<close>)
qed

interpretation ledger_keys: keyed_machine ledger_step "\<lambda>x k. ledger_key x = k" map_of
  by unfold_locales (simp add: ledger_frame, rule ledger_local)

section \<open>The entry invariant\<close>

text \<open>What is reserved is what the anonymous and the per-request reservations add up to, and no
  amount is negative.\<close>

definition reservation_total :: "ledger_entry \<Rightarrow> rat" where
  "reservation_total e =
     sum_list (le_reservations e) + (\<Sum>p\<leftarrow>le_request_reservations e. snd p)"

definition entry_ok :: "ledger_entry \<Rightarrow> bool" where
  "entry_ok e \<longleftrightarrow>
     le_reserved_usd e = reservation_total e \<and> 0 \<le> le_spent_usd e \<and>
     (\<forall>v\<in>set (le_reservations e). 0 \<le> v) \<and>
     (\<forall>p\<in>set (le_request_reservations e). 0 \<le> snd p) \<and>
     distinct (map fst (le_request_reservations e))"

definition ledger_ok :: "ledger \<Rightarrow> bool" where
  "ledger_ok d \<longleftrightarrow> (\<forall>k e. dict_get d k = Some e \<longrightarrow> entry_ok e)"

lemma entry_ok_new: "0 \<le> s \<Longrightarrow> entry_ok (new_entry b s)"
  by (simp add: entry_ok_def reservation_total_def new_entry_def)

lemma entry_ok_reserved: "entry_ok e \<Longrightarrow> 0 \<le> le_reserved_usd e"
  by (auto simp: entry_ok_def reservation_total_def intro!: add_nonneg_nonneg sum_list_nonneg)

lemma entry_ok_budget [simp]: "entry_ok (e\<lparr>le_budget_usd := b\<rparr>) = entry_ok e"
  by (simp add: entry_ok_def reservation_total_def)

lemma entry_ok_spent: "entry_ok e \<Longrightarrow> 0 \<le> s \<Longrightarrow> entry_ok (e\<lparr>le_spent_usd := s\<rparr>)"
  by (simp add: entry_ok_def reservation_total_def)

lemma sum_request_usd_Inr: "sum_request_usd xs = Inr t \<longleftrightarrow> t = sum_list xs \<and> \<not> float_overflow t \<and> 0 \<le> t"
  by (auto simp: sum_request_usd_def Let_def)

text \<open>The total a reservation call computes: all amounts, without the excluded request.\<close>

lemma request_reserved_total_None:
  "request_reserved_total e None xs = Inr t \<Longrightarrow> t = reservation_total e + sum_list xs"
  by (simp add: request_reserved_total_def sum_request_usd_Inr reservation_total_def)

lemma request_reserved_total_Some:
  assumes "request_reserved_total e (Some rid) [] = Inr t" and "entry_ok e"
    and "dict_get (le_request_reservations e) rid = Some v"
  shows "t = reservation_total e - v"
  using assms sum_dict_pop[of "le_request_reservations e" rid v "\<lambda>x. x"]
  by (simp add: request_reserved_total_def sum_request_usd_Inr reservation_total_def
      dict_pop_filter entry_ok_def)

lemma entry_ok_open:
  assumes "entry_ok e" and "dict_get (le_request_reservations e) rid = None" and "0 \<le> v"
  shows "entry_ok (e\<lparr>le_reserved_usd := reservation_total e + v,
           le_request_reservations := dict_set rid v (le_request_reservations e)\<rparr>)"
proof -
  have new: "dict_set rid v (le_request_reservations e) = le_request_reservations e @ [(rid, v)]"
    using assms(2) by (intro dict_set_new) (simp add: map_of_eq_None_iff)
  show ?thesis
    using assms by (auto simp: entry_ok_def reservation_total_def new map_of_eq_None_iff)
qed

lemma entry_ok_close:
  assumes "entry_ok e" and "dict_get (le_request_reservations e) rid = Some v" and "0 \<le> s"
  shows "entry_ok (e\<lparr>le_request_reservations := dict_pop rid (le_request_reservations e),
           le_reserved_usd := reservation_total e - v, le_spent_usd := s\<rparr>)"
  using assms sum_dict_pop[of "le_request_reservations e" rid v "\<lambda>x. x"]
    set_dict_pop[of rid "le_request_reservations e"]
  by (auto simp: entry_ok_def reservation_total_def distinct_dict_pop)

lemma pop_close_spec:
  "pop_close v xs = Some (y, ys) \<Longrightarrow>
   y \<in> set xs \<and> set ys \<subseteq> set xs \<and> sum_list ys = sum_list xs - y \<and> \<bar>y - v\<bar> \<le> USD_EPSILON"
  by (induction xs arbitrary: ys) (auto split: if_splits)

lemma pop_reserved_value_spec:
  assumes "pop_reserved_value e r = (v, e')" and "entry_ok e"
  shows "\<exists>xs. e' = e\<lparr>le_reservations := xs\<rparr> \<and> set xs \<subseteq> set (le_reservations e) \<and>
           sum_list xs = sum_list (le_reservations e) - v \<and> 0 \<le> v"
proof -
  note pc = pop_close_spec
  have same: "e = e\<lparr>le_reservations := le_reservations e\<rparr>" by simp
  show ?thesis
  proof (cases "le_reservations e")
    case Nil
    with assms(1) have "v = 0" "e' = e" by (auto simp: pop_reserved_value_def)
    with same show ?thesis by (intro exI[of _ "le_reservations e"]) simp
  next
    case (Cons x xs)
    note Cons' = Cons
    show ?thesis
    proof (cases "\<exists>w. r = Some w \<and> pop_close (max 0 w) (x # xs) = None")
      case True
      with Cons assms(1) have "v = 0" "e' = e" by (auto simp: pop_reserved_value_def)
      with same show ?thesis by (intro exI[of _ "le_reservations e"]) simp
    next
      case False
      then consider "r = None" | w y ys where "r = Some w" "pop_close (max 0 w) (x # xs) = Some (y, ys)"
        by (cases r) (auto simp del: pop_close.simps)
      then show ?thesis
      proof cases
        case 1
        with Cons' assms show ?thesis by (auto simp: pop_reserved_value_def entry_ok_def)
      next
        case (2 w y ys)
        with Cons' assms pc[OF 2(2)] show ?thesis
          by (auto simp: pop_reserved_value_def entry_ok_def simp del: pop_close.simps)
      qed
    qed
  qed
qed

lemma drop_reserved_spec:
  assumes "entry_ok e"
  shows "\<exists>xs. drop_reserved e r = e\<lparr>le_reservations := xs,
           le_reserved_usd := le_reserved_usd e - fst (pop_reserved_value e r)\<rparr> \<and>
         entry_ok (drop_reserved e r) \<and> 0 \<le> fst (pop_reserved_value e r)"
proof -
  obtain v e' where pr: "pop_reserved_value e r = (v, e')" by fastforce
  from pop_reserved_value_spec[OF this assms] obtain xs where
    xs: "e' = e\<lparr>le_reservations := xs\<rparr>" "set xs \<subseteq> set (le_reservations e)"
      "sum_list xs = sum_list (le_reservations e) - v" "0 \<le> v" by blast
  have "0 \<le> sum_list xs" using xs(2) assms by (auto simp: entry_ok_def intro!: sum_list_nonneg)
  moreover have "0 \<le> (\<Sum>p\<leftarrow>le_request_reservations e. snd p)"
    using assms by (auto simp: entry_ok_def intro!: sum_list_nonneg)
  ultimately have "v \<le> le_reserved_usd e"
    using xs(3) assms by (simp add: entry_ok_def reservation_total_def)
  then have "drop_reserved e r = e\<lparr>le_reservations := xs, le_reserved_usd := le_reserved_usd e - v\<rparr>"
    using pr xs(1) by (simp add: drop_reserved_def)
  moreover have "entry_ok (e\<lparr>le_reservations := xs, le_reserved_usd := le_reserved_usd e - v\<rparr>)"
    using assms xs(2,3) by (auto simp: entry_ok_def reservation_total_def)
  ultimately show ?thesis using pr xs(4) by auto
qed

section \<open>Every operation keeps the invariant\<close>

lemma ledger_ok_set: "ledger_ok d \<Longrightarrow> entry_ok e \<Longrightarrow> ledger_ok (dict_set k e d)"
  by (simp add: ledger_ok_def dict_get_set)

lemma ledger_ok_get: "ledger_ok d \<Longrightarrow> dict_get d k = Some e \<Longrightarrow> entry_ok e"
  by (simp add: ledger_ok_def)

lemma sync_ok: "ledger_ok d \<Longrightarrow> ledger_ok (sync_record k b s d)"
  by (auto simp: sync_record_def Let_def split: option.split
      intro!: ledger_ok_set entry_ok_new entry_ok_spent dest: ledger_ok_get)

lemma reset_ledger_ok: "ledger_ok d \<Longrightarrow> ledger_ok (reset_record k b s d)"
proof (cases "dict_get d k")
  case None
  then show "ledger_ok d \<Longrightarrow> ?thesis"
    by (auto simp: reset_record_def Let_def intro!: ledger_ok_set entry_ok_new)
next
  case (Some e)
  assume ok: "ledger_ok d"
  from ledger_ok_get[OF ok Some] have "entry_ok (e\<lparr>le_budget_usd := b, le_spent_usd := max 0 s\<rparr>)"
    by (intro entry_ok_spent) simp_all
  with Some ok show ?thesis by (simp add: reset_record_def Let_def ledger_ok_set)
qed

lemma reserve_ok: "ledger_ok d \<Longrightarrow> ledger_ok (fst (reserve k v d))"
proof (cases "dict_get d k")
  case None
  then show "ledger_ok d \<Longrightarrow> ?thesis" by (simp add: reserve_def Let_def)
next
  case (Some e)
  assume ok: "ledger_ok d"
  from ledger_ok_get[OF ok Some]
  have "entry_ok (e\<lparr>le_reserved_usd := le_reserved_usd e + max 0 v,
      le_reservations := le_reservations e @ [max 0 v]\<rparr>)"
    by (auto simp: entry_ok_def reservation_total_def)
  with Some ok show ?thesis by (simp add: reserve_def Let_def ledger_ok_set)
qed

definition entry_for :: "int \<Rightarrow> ledger \<Rightarrow> ledger_entry" where
  "entry_for k d = (case dict_get d k of None \<Rightarrow> new_entry None 0 | Some e \<Rightarrow> e)"

lemma entry_for_ok: "ledger_ok d \<Longrightarrow> entry_ok (entry_for k d)"
  by (simp add: entry_for_def entry_ok_new ledger_ok_def split: option.split)

text \<open>A reservation call either changes nothing, or opens a reservation that fits.\<close>

lemma reserve_request_cases:
  assumes "reserve_request rid k a d = (d', r)"
  obtains (same) "d' = d" "r = Inr True \<Longrightarrow> \<exists>v. dict_get (le_request_reservations (entry_for k d)) rid = Some v"
  | (opened) v where "r = Inr True" "normalize_request_usd a = Inr v" "0 \<le> v"
      "dict_get (le_request_reservations (entry_for k d)) rid = None"
      "budget_enforced (entry_for k d) \<Longrightarrow> \<not> over_budget (entry_for k d)
         (le_spent_usd (entry_for k d) + (reservation_total (entry_for k d) + v))"
      "d' = dict_set k ((entry_for k d)\<lparr>le_reserved_usd := reservation_total (entry_for k d) + v,
         le_request_reservations := dict_set rid v (le_request_reservations (entry_for k d))\<rparr>) d"
proof (cases "\<exists>v nr l. normalize_request_usd a = Inr v \<and>
    dict_get (le_request_reservations (entry_for k d)) rid = None \<and>
    request_reserved_total (entry_for k d) None [v] = Inr nr \<and>
    sum_request_usd [le_spent_usd (entry_for k d), nr] = Inr l \<and>
    \<not> (budget_enforced (entry_for k d) \<and> over_budget (entry_for k d) l)")
  case True
  then obtain v nr l where v: "normalize_request_usd a = Inr v"
    "dict_get (le_request_reservations (entry_for k d)) rid = None"
    "request_reserved_total (entry_for k d) None [v] = Inr nr"
    "sum_request_usd [le_spent_usd (entry_for k d), nr] = Inr l"
    "\<not> (budget_enforced (entry_for k d) \<and> over_budget (entry_for k d) l)" by blast
  have nr: "nr = reservation_total (entry_for k d) + v"
    using request_reserved_total_None[OF v(3)] by simp
  have l: "l = le_spent_usd (entry_for k d) + nr" using v(4) by (simp add: sum_request_usd_Inr)
  show thesis
    by (rule opened[of v])
      (use assms v nr l in \<open>auto simp: reserve_request_def Let_def normalize_request_usd_def
        entry_for_def[symmetric] dest: finite_non_negative_ge\<close>)
next
  case False
  show thesis
  proof (rule same)
    show "d' = d"
      using assms False
      by (auto simp: reserve_request_def Let_def entry_for_def[symmetric] split: sum.splits option.splits if_splits)
    show "r = Inr True \<Longrightarrow> \<exists>v. dict_get (le_request_reservations (entry_for k d)) rid = Some v"
      using assms False
      by (auto simp: reserve_request_def Let_def entry_for_def[symmetric] split: sum.splits option.splits if_splits)
  qed
qed

lemma reserve_request_ok: "ledger_ok d \<Longrightarrow> ledger_ok (fst (reserve_request rid k a d))"
proof -
  assume ok: "ledger_ok d"
  obtain d' r where rr: "reserve_request rid k a d = (d', r)" by fastforce
  from rr have "ledger_ok d'"
  proof (cases rule: reserve_request_cases)
    case same
    with ok show ?thesis by simp
  next
    case (opened v)
    with ok show ?thesis by (simp add: ledger_ok_set entry_ok_open entry_for_ok)
  qed
  with rr show ?thesis by simp
qed

text \<open>Closing calls take one reservation out, or change nothing.\<close>

lemma commit_request_cases:
  assumes "commit_request rid k a d = (d', r)" and "ledger_ok d"
  obtains (same) "d' = d" "r \<noteq> Inr True"
  | (closed) e v c where "dict_get d k = Some e" "r = Inr True"
      "dict_get (le_request_reservations e) rid = Some v" "normalize_request_usd a = Inr c" "0 \<le> c"
      "d' = dict_set k (e\<lparr>le_request_reservations := dict_pop rid (le_request_reservations e),
         le_reserved_usd := reservation_total e - v, le_spent_usd := le_spent_usd e + c\<rparr>) d"
proof (cases "r = Inr True")
  case True
  with assms(1) obtain e v c nr ns where e: "dict_get d k = Some e"
    "dict_get (le_request_reservations e) rid = Some v" "normalize_request_usd a = Inr c"
    "request_reserved_total e (Some rid) [] = Inr nr" "sum_request_usd [le_spent_usd e, c] = Inr ns"
    by (auto simp: commit_request_def split: option.splits sum.splits)
  from e assms(2) have "nr = reservation_total e - v"
    by (intro request_reserved_total_Some) (auto dest: ledger_ok_get)
  moreover have "ns = le_spent_usd e + c" using e(5) by (simp add: sum_request_usd_Inr)
  ultimately show thesis
    using assms(1) e True
    by (intro closed) (auto simp: commit_request_def normalize_request_usd_def
        dest: finite_non_negative_ge)
next
  case False
  with assms(1) show thesis
    by (intro same) (auto simp: commit_request_def split: option.splits sum.splits)
qed

lemma release_request_cases:
  assumes "release_request rid k d = (d', r)" and "ledger_ok d"
  obtains (same) "d' = d" "r \<noteq> Inr True"
  | (closed) e v where "dict_get d k = Some e" "r = Inr True"
      "dict_get (le_request_reservations e) rid = Some v"
      "d' = dict_set k (e\<lparr>le_request_reservations := dict_pop rid (le_request_reservations e),
         le_reserved_usd := reservation_total e - v\<rparr>) d"
proof (cases "r = Inr True")
  case True
  with assms(1) obtain e v nr where e: "dict_get d k = Some e"
    "dict_get (le_request_reservations e) rid = Some v"
    "request_reserved_total e (Some rid) [] = Inr nr"
    by (auto simp: release_request_def split: option.splits sum.splits)
  from e assms(2) have "nr = reservation_total e - v"
    by (intro request_reserved_total_Some) (auto dest: ledger_ok_get)
  with assms(1) e True show thesis by (intro closed) (auto simp: release_request_def)
next
  case False
  with assms(1) show thesis
    by (intro same) (auto simp: release_request_def split: option.splits sum.splits)
qed

lemma commit_request_ok: "ledger_ok d \<Longrightarrow> ledger_ok (fst (commit_request rid k a d))"
proof -
  assume ok: "ledger_ok d"
  obtain d' r where cr: "commit_request rid k a d = (d', r)" by fastforce
  from cr ok have "ledger_ok d'"
  proof (cases rule: commit_request_cases)
    case same
    with ok show ?thesis by simp
  next
    case (closed e v c)
    note e = ledger_ok_get[OF ok closed(1)]
    have "0 \<le> le_spent_usd e + c" using e closed(5) by (simp add: entry_ok_def)
    with closed ok e show ?thesis by (simp add: ledger_ok_set entry_ok_close)
  qed
  with cr show ?thesis by simp
qed

lemma release_request_ok: "ledger_ok d \<Longrightarrow> ledger_ok (fst (release_request rid k d))"
proof -
  assume ok: "ledger_ok d"
  obtain d' r where rr: "release_request rid k d = (d', r)" by fastforce
  from rr ok have "ledger_ok d'"
  proof (cases rule: release_request_cases)
    case same
    with ok show ?thesis by simp
  next
    case (closed e v)
    note e = ledger_ok_get[OF ok closed(1)]
    have "entry_ok (e\<lparr>le_request_reservations := dict_pop rid (le_request_reservations e),
        le_reserved_usd := reservation_total e - v, le_spent_usd := le_spent_usd e\<rparr>)"
      by (rule entry_ok_close[OF e closed(3)]) (use e in \<open>simp add: entry_ok_def\<close>)
    with closed ok show ?thesis by (simp add: ledger_ok_set)
  qed
  with rr show ?thesis by simp
qed

lemma release_ok: "ledger_ok d \<Longrightarrow> ledger_ok (release k r d)"
  by (auto simp: release_def split: option.split intro!: ledger_ok_set
      dest: ledger_ok_get drop_reserved_spec)

lemma commit_reserved_ok: "ledger_ok d \<Longrightarrow> ledger_ok (commit_reserved k a r d)"
proof (cases "dict_get d k")
  case None
  then show "ledger_ok d \<Longrightarrow> ?thesis" by (simp add: commit_reserved_def Let_def)
next
  case (Some e)
  assume ok: "ledger_ok d"
  have e: "entry_ok (drop_reserved e r)" using drop_reserved_spec[OF ledger_ok_get[OF ok Some]] by blast
  then have "0 \<le> le_spent_usd (drop_reserved e r) + max 0 a" by (simp add: entry_ok_def)
  with e Some ok show ?thesis by (simp add: commit_reserved_def Let_def ledger_ok_set entry_ok_spent)
qed

lemma discard_ok: "ledger_ok d \<Longrightarrow> ledger_ok (discard_record k d)"
  by (simp add: ledger_ok_def discard_record_def dict_get_pop)

interpretation ledger_run: step_machine ledger_step ledger_ok
proof
  show "ledger_ok d \<Longrightarrow> ledger_ok (ledger_step x d)" for d x
    by (cases x) (simp_all add: sync_ok reset_ledger_ok reserve_ok reserve_request_ok
        commit_reserved_ok commit_request_ok release_ok release_request_ok discard_ok)
qed

lemma ledger_ok_empty: "ledger_ok []"
  by (simp add: ledger_ok_def)

section \<open>Liability\<close>

text \<open>What a key has spent and reserved. A call is covered when it commits no more than the
  reservation it closes, and re-reads from the database neither another budget nor a larger
  spend than the ledger's own.\<close>

definition liability :: "ledger_entry \<Rightarrow> rat" where
  "liability e = le_spent_usd e + le_reserved_usd e"

fun covered :: "int \<Rightarrow> rat \<Rightarrow> ledger \<Rightarrow> ledger_op \<Rightarrow> bool" where
  "covered k b d (SyncRecord j b' s) = (j = k \<longrightarrow> b' = Some b \<and> s \<le> le_spent_usd (entry_for k d))"
| "covered k b d (ResetRecord j b' s) = (j = k \<longrightarrow> b' = Some b \<and> s \<le> le_spent_usd (entry_for k d))"
| "covered k b d (CommitReserved j a r) =
     (j = k \<longrightarrow> a \<le> fst (pop_reserved_value (entry_for k d) r))"
| "covered k b d (CommitRequest rid j a) =
     (case (normalize_request_usd a, dict_get (le_request_reservations (entry_for k d)) rid) of
        (Inr c, Some v) \<Rightarrow> j = k \<longrightarrow> c \<le> v
      | _ \<Rightarrow> True)"
| "covered k b d (Discard j) = (j \<noteq> k)"
| "covered k b d _ = True"

fun covered_run :: "int \<Rightarrow> rat \<Rightarrow> ledger \<Rightarrow> ledger_op list \<Rightarrow> bool" where
  "covered_run k b d [] = True"
| "covered_run k b d (x # xs) = (covered k b d x \<and> covered_run k b (ledger_step x d) xs)"

definition solvent :: "int \<Rightarrow> rat \<Rightarrow> ledger \<Rightarrow> bool" where
  "solvent k b d \<longleftrightarrow> (\<exists>e. dict_get d k = Some e \<and> le_budget_usd e = Some b \<and>
     liability e \<le> b + USD_EPSILON)"

lemma solvent_drop:
  assumes "entry_ok e"
  shows "liability (drop_reserved e r) = liability e - fst (pop_reserved_value e r)"
    and "le_budget_usd (drop_reserved e r) = le_budget_usd e"
    and "le_spent_usd (drop_reserved e r) = le_spent_usd e"
  using drop_reserved_spec[OF assms, of r] by (auto simp: liability_def)

lemma solvent_step:
  assumes ok: "ledger_ok d" and sol: "solvent k b d" and b: "0 \<le> b" and cov: "covered k b d x"
  shows "solvent k b (ledger_step x d)"
proof (cases "ledger_key x = k")
  case False
  with sol show ?thesis by (simp add: solvent_def ledger_frame)
next
  case True
  obtain e where e: "dict_get d k = Some e" "le_budget_usd e = Some b"
    "liability e \<le> b + USD_EPSILON" using sol by (auto simp: solvent_def)
  note eok = ledger_ok_get[OF ok e(1)]
  have ef: "entry_for k d = e" by (simp add: entry_for_def e(1))
  have enf: "budget_enforced e" using e(2) b by (simp add: budget_enforced_def)
  have spent: "0 \<le> le_spent_usd e" using eok by (simp add: entry_ok_def)
  have total: "reservation_total e = le_reserved_usd e" using eok by (simp add: entry_ok_def)
  note drop = drop_reserved_spec[OF eok] solvent_drop[OF eok]
  show ?thesis
  proof (cases x)
    case (SyncRecord j b' s)
    with True cov e ef spent show ?thesis
      by (auto simp: solvent_def sync_record_def Let_def dict_get_set liability_def)
  next
    case (ResetRecord j b' s)
    with True cov e ef spent show ?thesis
      by (auto simp: solvent_def reset_record_def Let_def dict_get_set liability_def)
  next
    case (Reserve j v)
    with True e enf show ?thesis
      by (auto simp: solvent_def reserve_def Let_def dict_get_set liability_def over_budget_def)
  next
    case (ReserveRequest rid j a)
    obtain d' r where rr: "reserve_request rid k a d = (d', r)" by fastforce
    have "solvent k b d'"
    using rr proof (cases rule: reserve_request_cases)
      case same
      with sol show ?thesis by simp
    next
      case (opened v)
      with ef enf e show ?thesis
        by (auto simp: solvent_def dict_get_set liability_def over_budget_def)
    qed
    with ReserveRequest True rr show ?thesis by simp
  next
    case (CommitReserved j a r)
    with True cov e ef drop[of r] show ?thesis
      by (auto simp: solvent_def commit_reserved_def Let_def dict_get_set liability_def)
  next
    case (CommitRequest rid j a)
    obtain d' r where cr: "commit_request rid k a d = (d', r)" by fastforce
    have "solvent k b d'"
    using cr ok proof (cases rule: commit_request_cases)
      case same
      with sol show ?thesis by simp
    next
      case (closed e' v c)
      with CommitRequest True cov e ef total show ?thesis
        by (auto simp: solvent_def dict_get_set liability_def)
    qed
    with CommitRequest True cr show ?thesis by simp
  next
    case (Release j r)
    with True e drop[of r] show ?thesis
      by (auto simp: solvent_def release_def dict_get_set)
  next
    case (ReleaseRequest rid j)
    obtain d' r where rr: "release_request rid k d = (d', r)" by fastforce
    have "solvent k b d'"
    using rr ok proof (cases rule: release_request_cases)
      case same
      with sol show ?thesis by simp
    next
      case (closed e' v)
      with e total eok show ?thesis
        by (auto simp: solvent_def dict_get_set liability_def entry_ok_def dest: map_of_SomeD)
    qed
    with ReleaseRequest True rr show ?thesis by simp
  next
    case (Discard j)
    with cov True show ?thesis by simp
  qed
qed

lemma solvent_run:
  "ledger_ok d \<Longrightarrow> solvent k b d \<Longrightarrow> 0 \<le> b \<Longrightarrow> covered_run k b d xs \<Longrightarrow>
   solvent k b (fold ledger_step xs d)"
proof (induction xs arbitrary: d)
  case Nil
  then show ?case by simp
next
  case (Cons x xs)
  then have "solvent k b (ledger_step x d)" by (intro solvent_step) simp_all
  with Cons show ?case by (simp add: ledger_run.step_invar)
qed

section \<open>Closed requests stay closed\<close>

definition open_reservation :: "int \<Rightarrow> string \<Rightarrow> ledger \<Rightarrow> bool" where
  "open_reservation k rid d \<longleftrightarrow> dict_get (le_request_reservations (entry_for k d)) rid \<noteq> None"

fun opens :: "int \<Rightarrow> string \<Rightarrow> ledger_op \<Rightarrow> bool" where
  "opens k rid (ReserveRequest r j a) = (j = k \<and> r = rid)"
| "opens k rid _ = False"

lemma closed_noop:
  assumes "\<not> open_reservation k rid d"
  shows "commit_request rid k a d = (d, Inr False)" and "release_request rid k d = (d, Inr False)"
  using assms
  by (auto simp: open_reservation_def entry_for_def commit_request_def release_request_def
      split: option.split)

lemma entry_for_set [simp]: "entry_for k (dict_set j e d) = (if j = k then e else entry_for k d)"
  by (simp add: entry_for_def dict_get_set)

lemma entry_for_pop [simp]:
  "entry_for k (dict_pop j d) = (if j = k then new_entry None 0 else entry_for k d)"
  by (simp add: entry_for_def dict_get_pop)

lemma new_entry_requests [simp]: "le_request_reservations (new_entry b s) = []"
  by (simp add: new_entry_def)

lemma drop_reserved_requests [simp]:
  "le_request_reservations (drop_reserved e r) = le_request_reservations e"
  by (simp add: drop_reserved_def pop_reserved_value_def split: list.split option.split prod.split)

lemma entry_for_Some: "dict_get d k = Some e \<Longrightarrow> entry_for k d = e"
  by (simp add: entry_for_def)

lemma closed_step:
  assumes closed: "\<not> open_reservation k rid d" and no: "\<not> opens k rid x" and ok: "ledger_ok d"
  shows "\<not> open_reservation k rid (ledger_step x d)"
proof (cases x)
  case (ReserveRequest r j a)
  obtain d' res where rr: "reserve_request r j a d = (d', res)" by fastforce
  from rr have "\<not> open_reservation k rid d'"
    by (cases rule: reserve_request_cases)
      (use closed no ReserveRequest in \<open>auto simp: open_reservation_def dict_get_set\<close>)
  with rr ReserveRequest show ?thesis by simp
next
  case (CommitRequest r j a)
  obtain d' res where cr: "commit_request r j a d = (d', res)" by fastforce
  from cr ok have "\<not> open_reservation k rid d'"
    by (cases rule: commit_request_cases)
      (use closed in \<open>auto simp: open_reservation_def dict_get_pop entry_for_Some\<close>)
  with cr CommitRequest show ?thesis by simp
next
  case (ReleaseRequest r j)
  obtain d' res where rr: "release_request r j d = (d', res)" by fastforce
  from rr ok have "\<not> open_reservation k rid d'"
    by (cases rule: release_request_cases)
      (use closed in \<open>auto simp: open_reservation_def dict_get_pop entry_for_Some\<close>)
  with rr ReleaseRequest show ?thesis by simp
qed (use closed in \<open>auto simp: open_reservation_def sync_record_def reset_record_def reserve_def
      commit_reserved_def release_def discard_record_def Let_def entry_for_Some split: option.split\<close>)

lemma closed_run:
  "ledger_ok d \<Longrightarrow> \<not> open_reservation k rid d \<Longrightarrow> \<forall>x\<in>set xs. \<not> opens k rid x \<Longrightarrow>
   \<not> open_reservation k rid (fold ledger_step xs d)"
  by (induction xs arbitrary: d) (simp_all add: closed_step ledger_run.step_invar)

lemma closes_request:
  assumes "ledger_ok d"
    and "commit_request rid k a d = (d', Inr True) \<or> release_request rid k d = (d', Inr True)"
  shows "\<not> open_reservation k rid d'"
  using assms
  by (auto simp: open_reservation_def dict_get_pop
      elim: commit_request_cases[OF _ assms(1)] release_request_cases[OF _ assms(1)])

section \<open>Properties\<close>

text \<open>C11: In every state the ledger can reach, what a key has reserved is exactly the sum of its
  open anonymous and per-request reservations, every amount is non-negative and no request
  holds two reservations.\<close>

theorem ledger_accounts:
  assumes "dict_get (fold ledger_step xs []) k = Some e"
  shows "entry_ok e \<and> reserved_for k (fold ledger_step xs []) = reservation_total e"
  using ledger_run.run_invar[OF ledger_ok_empty, of xs] assms
  by (simp add: ledger_ok_def reserved_for_def entry_ok_def)

theorem ledger_accounts_witness:
  "reserved_for 4 (fold ledger_step [SyncRecord 4 (Some 10) 1, Reserve 4 2,
     ReserveRequest ''r'' 4 (PyInt 3)] []) = 5"
proof -
  have "dict_get (fold ledger_step [SyncRecord 4 (Some 10) 1, Reserve 4 2,
      ReserveRequest ''r'' 4 (PyInt 3)] []) 4 =
    Some \<lparr>le_budget_usd = Some 10, le_spent_usd = 1, le_reserved_usd = 5, le_reservations = [2],
      le_request_reservations = [(''r'', 3)]\<rparr>"
    by (simp add: sync_record_def reserve_def reserve_request_def new_entry_def Let_def
        budget_enforced_def over_budget_def USD_EPSILON_def normalize_request_usd_def
        request_reserved_total_def sum_request_usd_def float_overflow_numeral)
  from ledger_accounts[OF this] show ?thesis by (simp add: reservation_total_def)
qed

text \<open>C2: A key never overspends by concurrency. From any consistent state in which a key with budget \<open>b\<close>
  has spent and reserved at most \<open>b\<close> (up to the tolerance \<open>USD_EPSILON\<close> of 1e-9 that every admission
  allows), every run of ledger calls keeps spent plus reserved within \<open>b\<close> plus that tolerance, whatever
  reservations are attempted - provided that the commits of the key stay within the reservations they
  close, that its database re-reads bring no other budget and no larger spend, and that it is not
  discarded. Without these a commit or a re-read of a larger spend does pass the budget.\<close>

theorem budget_never_exceeded:
  assumes "ledger_ok d" and "dict_get d k = Some e" and "le_budget_usd e = Some b" and "0 \<le> b"
    and "liability e \<le> b + USD_EPSILON" and "covered_run k b d xs"
  shows "\<exists>e'. dict_get (fold ledger_step xs d) k = Some e' \<and> le_budget_usd e' = Some b \<and>
              le_spent_usd e' \<le> b + USD_EPSILON \<and> liability e' \<le> b + USD_EPSILON"
proof -
  have "solvent k b d" using assms by (simp add: solvent_def)
  from solvent_run[OF assms(1) this assms(4,6)] obtain e' where
    e': "dict_get (fold ledger_step xs d) k = Some e'" "le_budget_usd e' = Some b"
      "liability e' \<le> b + USD_EPSILON" by (auto simp: solvent_def)
  have "ledger_ok (fold ledger_step xs d)" using assms(1) by (rule ledger_run.run_invar)
  from entry_ok_reserved[OF ledger_ok_get[OF this e'(1)]] e'(3)
  have "le_spent_usd e' \<le> b + USD_EPSILON" by (simp add: liability_def)
  with e' show ?thesis by blast
qed

theorem budget_never_exceeded_witness:
  "\<exists>e'. dict_get (fold ledger_step [Reserve 1 4, Reserve 1 4, ReserveRequest ''r'' 2 (PyInt 9),
      CommitReserved 1 3 None] [(1, new_entry (Some 6) 1)]) 1 = Some e' \<and>
    liability e' \<le> 6 + USD_EPSILON"
proof -
  let ?e = "new_entry (Some 6) 1"
  let ?xs = "[Reserve 1 4, Reserve 1 4, ReserveRequest ''r'' 2 (PyInt 9), CommitReserved 1 3 None]"
  have "ledger_ok [(1, ?e)]" by (simp add: ledger_ok_def entry_ok_new)
  moreover have "reserve 1 4 [(1, ?e)] =
      ([(1, ?e\<lparr>le_reserved_usd := 4, le_reservations := [4]\<rparr>)], True)"
    by (simp add: reserve_def budget_enforced_def over_budget_def USD_EPSILON_def new_entry_def)
  moreover have "reserve 1 4 [(1, ?e\<lparr>le_reserved_usd := 4, le_reservations := [4]\<rparr>)] =
      ([(1, ?e\<lparr>le_reserved_usd := 4, le_reservations := [4]\<rparr>)], False)"
    by (simp add: reserve_def budget_enforced_def over_budget_def USD_EPSILON_def new_entry_def)
  ultimately show ?thesis
    using budget_never_exceeded[of "[(1, ?e)]" 1 ?e 6 ?xs]
    by (auto simp: new_entry_def liability_def USD_EPSILON_def reserve_request_def Let_def
        normalize_request_usd_def request_reserved_total_def sum_request_usd_def
        float_overflow_numeral budget_enforced_def entry_for_def pop_reserved_value_def)
qed

text \<open>A request reservation is closed exactly once. After a successful commit or release of
  \<open>(request, key)\<close>, whatever calls follow, as long as none reserves that request on that key
  again, committing and releasing it are refused and change nothing.\<close>

theorem request_closed_exactly_once:
  assumes "ledger_ok d"
    and "commit_request rid k a d = (d', Inr True) \<or> release_request rid k d = (d', Inr True)"
    and "\<forall>x\<in>set xs. \<not> opens k rid x"
  defines "d'' \<equiv> fold ledger_step xs d'"
  shows "commit_request rid k a' d'' = (d'', Inr False) \<and> release_request rid k d'' = (d'', Inr False)"
proof -
  have ok: "ledger_ok d'"
    using assms(2) commit_request_ok[OF assms(1), of rid k a] release_request_ok[OF assms(1), of rid k]
    by auto
  from closed_run[OF ok closes_request[OF assms(1,2)] assms(3)]
  show ?thesis by (simp add: closed_noop d''_def)
qed

theorem request_closed_exactly_once_witness:
  "commit_request ''r'' 1 (PyInt 2) [(1, new_entry (Some 6) 3)] =
    ([(1, new_entry (Some 6) 3)], Inr False)"
proof -
  let ?e = "(new_entry (Some 6) 1)\<lparr>le_reserved_usd := 2, le_request_reservations := [(''r'', 2)]\<rparr>"
  have ok: "ledger_ok [(1, ?e)]"
    by (auto simp: ledger_ok_def entry_ok_def reservation_total_def new_entry_def)
  have "commit_request ''r'' 1 (PyInt 2) [(1, ?e)] = ([(1, new_entry (Some 6) 3)], Inr True)"
    by (simp add: commit_request_def normalize_request_usd_def request_reserved_total_def
        sum_request_usd_def float_overflow_numeral new_entry_def)
  then have "commit_request ''r'' 1 (PyInt 2) [(1, ?e)] = ([(1, new_entry (Some 6) 3)], Inr True)
    \<or> release_request ''r'' 1 [(1, ?e)] = ([(1, new_entry (Some 6) 3)], Inr True)" ..
  from request_closed_exactly_once[OF ok this, of "[]" "PyInt 2"] show ?thesis by simp
qed

text \<open>Releasing what was just reserved restores the ledger exactly: a fresh request
  reservation on a known key that succeeds is undone by its release, entry for entry.\<close>

theorem reserve_release_roundtrip:
  assumes ok: "ledger_ok d" and e: "dict_get d k = Some e"
    and fresh: "dict_get (le_request_reservations e) rid = None"
    and res: "reserve_request rid k a d = (d', Inr True)"
  shows "release_request rid k d' = (d, Inr True)"
  using res
proof (cases rule: reserve_request_cases)
  case same
  with e fresh show ?thesis by (simp add: entry_for_Some)
next
  case (opened v)
  let ?e' = "e\<lparr>le_reserved_usd := reservation_total e + v,
      le_request_reservations := dict_set rid v (le_request_reservations e)\<rparr>"
  have ef: "entry_for k d = e" using e by (rule entry_for_Some)
  have eok: "entry_ok e" using ok e by (rule ledger_ok_get)
  have new: "dict_set rid v (le_request_reservations e) = le_request_reservations e @ [(rid, v)]"
    using fresh by (intro dict_set_new) (simp add: map_of_eq_None_iff)
  have old: "filter (\<lambda>p. fst p \<noteq> rid) (le_request_reservations e) = le_request_reservations e"
    using fresh by (auto simp: filter_id_conv map_of_eq_None_iff)
  have rt: "0 \<le> reservation_total e" using entry_ok_reserved[OF eok] eok by (simp add: entry_ok_def)
  have "\<not> float_overflow (reservation_total e + v)"
    using res ef opened(2,4) by (auto simp: reserve_request_def Let_def entry_for_def[symmetric]
        request_reserved_total_def sum_request_usd_def reservation_total_def add.assoc
        split: if_splits)
  then have "\<not> float_overflow (reservation_total e)"
    using rt opened(3) by (simp add: float_overflow_def)
  then have "request_reserved_total ?e' (Some rid) [] = Inr (reservation_total e)"
    using rt by (simp add: request_reserved_total_def sum_request_usd_Inr reservation_total_def new old)
  moreover have "d' = dict_set k ?e' d" using opened(6) ef by simp
  moreover have "reservation_total e = le_reserved_usd e" using eok by (simp add: entry_ok_def)
  moreover have "dict_set k e d = d" using e by (simp add: update_triv)
  moreover have "dict_pop rid (le_request_reservations e) = le_request_reservations e"
    using old by (simp add: dict_pop_filter)
  moreover have "dict_get (le_request_reservations e @ [(rid, v)]) rid = Some v"
    using fresh by (simp add: map_add_def)
  moreover have "e\<lparr>le_reserved_usd := le_reserved_usd e + v,
      le_request_reservations := le_request_reservations e @ [(rid, v)],
      le_request_reservations := le_request_reservations e, le_reserved_usd := le_reserved_usd e\<rparr> = e"
    by (cases e) simp
  ultimately show ?thesis
    by (simp add: release_request_def dict_get_set new dict_pop_filter old del: map_of_append)
qed

theorem reserve_release_roundtrip_witness:
  "release_request ''r'' 1 [(1, (new_entry (Some 6) 1)\<lparr>le_reserved_usd := 2,
      le_request_reservations := [(''r'', 2)]\<rparr>)] = ([(1, new_entry (Some 6) 1)], Inr True)"
  by (rule reserve_release_roundtrip[where e = "new_entry (Some 6) 1" and a = "PyInt 2"])
    (simp_all add: ledger_ok_def entry_ok_def reservation_total_def reserve_request_def normalize_request_usd_def
      request_reserved_total_def sum_request_usd_def float_overflow_numeral new_entry_def Let_def
      budget_enforced_def over_budget_def USD_EPSILON_def)

end
