(* ===== verification/Ip_Guard.thy ===== *)
theory Ip_Guard
  imports Gateway_Prelude
begin

text \<open>
  The brute-force guard (\<open>services/ip_blocklist.py\<close>): consecutive authentication failures per
  client address, temporary blocks, and the permanent blocks read from the rejections database.
  What the database answers is an argument of the operation that asks. A missing or empty
  address is the empty string.
\<close>

section \<open>Data\<close>

definition PERMANENT_BLOCK :: int where
  "PERMANENT_BLOCK = -1"

record ip_state =
  ip_failures :: int
  ip_blocked_until :: time

record 'i ip_guard =
  ig_max_failures :: int
  ig_block_seconds :: time
  ig_by_ip :: "(string, ip_state) dict"
  ig_has_db :: bool
  ig_permanent :: "(string, 'i) dict"

definition new_ip_state :: ip_state where
  "new_ip_state = \<lparr>ip_failures = 0, ip_blocked_until = 0\<rparr>"

datatype guard_error = MaxFailuresNotPositive | BlockSecondsNotPositive

definition new_guard :: "int \<Rightarrow> time \<Rightarrow> (string \<times> 'i) list option \<Rightarrow> guard_error + 'i ip_guard" where
  "new_guard max_failures block_seconds db =
     (if max_failures \<le> 0 then Inl MaxFailuresNotPositive
      else if block_seconds \<le> 0 then Inl BlockSecondsNotPositive
      else Inr \<lparr>ig_max_failures = max_failures, ig_block_seconds = block_seconds, ig_by_ip = [],
             ig_has_db = (db \<noteq> None),
             ig_permanent = fold (\<lambda>(ip, item). dict_set ip item)
               (case db of None \<Rightarrow> [] | Some items \<Rightarrow> items) []\<rparr>)"

abbreviation put_ip :: "string \<Rightarrow> ip_state \<Rightarrow> 'i ip_guard \<Rightarrow> 'i ip_guard" where
  "put_ip ip st g \<equiv> g\<lparr>ig_by_ip := dict_set ip st (ig_by_ip g)\<rparr>"

abbreviation pop_ip :: "string \<Rightarrow> 'i ip_guard \<Rightarrow> 'i ip_guard" where
  "pop_ip ip g \<equiv> g\<lparr>ig_by_ip := dict_pop ip (ig_by_ip g)\<rparr>"

section \<open>Operations\<close>

definition check_blocked :: "time \<Rightarrow> string \<Rightarrow> 'i ip_guard \<Rightarrow> 'i ip_guard \<times> int option" where
  "check_blocked now ip g =
     (if ip = [] then (g, None)
      else if dict_get (ig_permanent g) ip \<noteq> None then (g, Some PERMANENT_BLOCK)
      else case dict_get (ig_by_ip g) ip of
        None \<Rightarrow> (g, None)
      | Some st \<Rightarrow>
          (if ip_blocked_until st > now then (g, Some (max 1 (py_round (ip_blocked_until st - now))))
           else (if ip_blocked_until st \<noteq> 0 then pop_ip ip g else g, None)))"

definition register_failure :: "time \<Rightarrow> string \<Rightarrow> 'i ip_guard \<Rightarrow> 'i ip_guard \<times> int option" where
  "register_failure now ip g =
     (if ip = [] then (g, None)
      else
        (let st = (case dict_get (ig_by_ip g) ip of None \<Rightarrow> new_ip_state | Some st \<Rightarrow> st)
         in if ip_blocked_until st > now then (put_ip ip st g, None)
            else
              (let st1 = (if ip_blocked_until st \<noteq> 0 then st\<lparr>ip_blocked_until := 0\<rparr> else st);
                   st2 = st1\<lparr>ip_failures := ip_failures st1 + 1\<rparr>
               in if ip_failures st2 \<ge> ig_max_failures g
                  then (put_ip ip (st2\<lparr>ip_blocked_until := now + ig_block_seconds g,
                          ip_failures := 0\<rparr>) g,
                        Some (py_int (ig_block_seconds g)))
                  else (put_ip ip st2 g, None))))"

definition register_success :: "time \<Rightarrow> string \<Rightarrow> 'i ip_guard \<Rightarrow> 'i ip_guard" where
  "register_success now ip g =
     (if ip = [] then g
      else case dict_get (ig_by_ip g) ip of
        None \<Rightarrow> g
      | Some st \<Rightarrow> (if ip_blocked_until st > now then g else pop_ip ip g))"

definition reset_ip :: "string option \<Rightarrow> 'i ip_guard \<Rightarrow> 'i ip_guard" where
  "reset_ip ip g = (case ip of None \<Rightarrow> g\<lparr>ig_by_ip := []\<rparr> | Some a \<Rightarrow> pop_ip a g)"

text \<open>\<open>items\<close> is the answer of \<open>promote_repeat_ip_blocks\<close>, \<open>released\<close> that of
  \<open>release_permanent_ip_block\<close>.\<close>

definition scan_permanent_blocks :: "(string \<times> 'i) list \<Rightarrow> 'i ip_guard \<Rightarrow> 'i ip_guard" where
  "scan_permanent_blocks items g =
     (if \<not> ig_has_db g then g
      else g\<lparr>ig_permanent := fold (\<lambda>(ip, item). dict_set ip item) items []\<rparr>)"

definition list_permanent_blocks :: "'i ip_guard \<Rightarrow> 'i list" where
  "list_permanent_blocks g = map snd (ig_permanent g)"

definition unblock_permanent_ip :: "string \<Rightarrow> bool \<Rightarrow> 'i ip_guard \<Rightarrow> 'i ip_guard \<times> bool" where
  "unblock_permanent_ip ip released g =
     (if \<not> ig_has_db g then (g, False)
      else if \<not> released then (g, False)
      else (pop_ip ip (g\<lparr>ig_permanent := dict_pop ip (ig_permanent g)\<rparr>), True))"

section \<open>One step per call\<close>

datatype 'i ip_op =
  CheckIp time string
| Failure time string
| Success time string
| ResetIp "string option"
| Scan "(string \<times> 'i) list"
| Unblock string bool

fun ip_step :: "'i ip_op \<Rightarrow> 'i ip_guard \<Rightarrow> 'i ip_guard" where
  "ip_step (CheckIp now ip) g = fst (check_blocked now ip g)"
| "ip_step (Failure now ip) g = fst (register_failure now ip g)"
| "ip_step (Success now ip) g = register_success now ip g"
| "ip_step (ResetIp ip) g = reset_ip ip g"
| "ip_step (Scan items) g = scan_permanent_blocks items g"
| "ip_step (Unblock ip released) g = fst (unblock_permanent_ip ip released g)"

fun ip_touches :: "'i ip_op \<Rightarrow> string \<Rightarrow> bool" where
  "ip_touches (CheckIp now ip) a = (ip = a)"
| "ip_touches (Failure now ip) a = (ip = a)"
| "ip_touches (Success now ip) a = (ip = a)"
| "ip_touches (ResetIp ip) a = (ip = None \<or> ip = Some a)"
| "ip_touches (Scan items) a = True"
| "ip_touches (Unblock ip released) a = (ip = a)"

text \<open>What the guard knows of one address.\<close>

definition ip_view :: "'i ip_guard \<Rightarrow> string \<Rightarrow> int \<times> time \<times> bool \<times> ip_state option \<times> 'i option" where
  "ip_view g ip = (ig_max_failures g, ig_block_seconds g, ig_has_db g,
     dict_get (ig_by_ip g) ip, dict_get (ig_permanent g) ip)"

lemmas ip_op_defs = check_blocked_def register_failure_def register_success_def reset_ip_def
  scan_permanent_blocks_def unblock_permanent_ip_def

interpretation ip_keys: keyed_machine ip_step ip_touches ip_view
proof
  show "\<not> ip_touches x ip \<Longrightarrow> ip_view (ip_step x g) ip = ip_view g ip"
    for x :: "'a ip_op" and ip g
    by (cases x) (auto simp: ip_view_def ip_op_defs Let_def dict_simps split: option.split)
next
  fix g h :: "'a ip_guard" and ip x
  assume eq: "ip_view g ip = ip_view h ip"
  show "ip_view (ip_step x g) ip = ip_view (ip_step x h) ip"
    using eq by (cases x) (auto simp: ip_view_def ip_op_defs Let_def dict_simps split: option.splits)
qed

section \<open>The specification: a state per address\<close>

text \<open>At a time, an address counts failures or is blocked until a deadline; expiry is a matter of
  reading the clock.\<close>

datatype ip_phase = Counting int | Blocked time

definition ip_phase_of :: "time \<Rightarrow> ip_state option \<Rightarrow> ip_phase" where
  "ip_phase_of now e = (case e of None \<Rightarrow> Counting 0
     | Some st \<Rightarrow> if ip_blocked_until st > now then Blocked (ip_blocked_until st)
                 else if ip_blocked_until st \<noteq> 0 then Counting 0
                 else Counting (ip_failures st))"

fun phase_expire :: "time \<Rightarrow> ip_phase \<Rightarrow> ip_phase" where
  "phase_expire now (Blocked t) = (if t > now then Blocked t else Counting 0)"
| "phase_expire now (Counting n) = Counting n"

fun phase_failure :: "int \<Rightarrow> time \<Rightarrow> time \<Rightarrow> ip_phase \<Rightarrow> ip_phase" where
  "phase_failure m block now (Blocked t) = Blocked t"
| "phase_failure m block now (Counting n) =
     (if n + 1 \<ge> m then Blocked (now + block) else Counting (n + 1))"

fun phase_success :: "ip_phase \<Rightarrow> ip_phase" where
  "phase_success (Blocked t) = Blocked t"
| "phase_success (Counting n) = Counting 0"

text \<open>The guard's invariant: a temporary block has no failures pending, an address never holds as
  many failures as the threshold, and the settings are positive.\<close>

definition ip_state_ok :: "int \<Rightarrow> ip_state \<Rightarrow> bool" where
  "ip_state_ok m st \<longleftrightarrow> 0 \<le> ip_failures st \<and> ip_failures st < m \<and>
     (ip_blocked_until st \<noteq> 0 \<longrightarrow> ip_failures st = 0)"

definition guard_ok :: "'i ip_guard \<Rightarrow> bool" where
  "guard_ok g \<longleftrightarrow> 0 < ig_max_failures g \<and> 0 < ig_block_seconds g \<and>
     (\<forall>ip st. dict_get (ig_by_ip g) ip = Some st \<longrightarrow> ip_state_ok (ig_max_failures g) st)"

lemma guard_ok_put: "guard_ok g \<Longrightarrow> ip_state_ok (ig_max_failures g) st \<Longrightarrow> guard_ok (put_ip ip st g)"
  by (simp add: guard_ok_def dict_get_set)

lemma guard_ok_pop: "guard_ok g \<Longrightarrow> guard_ok (pop_ip ip g)"
  by (simp add: guard_ok_def dict_get_pop)

lemma guard_ok_state: "guard_ok g \<Longrightarrow>
    ip_state_ok (ig_max_failures g) (case dict_get (ig_by_ip g) ip of None \<Rightarrow> new_ip_state | Some st \<Rightarrow> st)"
  by (auto simp: guard_ok_def new_ip_state_def ip_state_ok_def split: option.split)

interpretation guard_run: step_machine ip_step guard_ok
proof
  fix g :: "'a ip_guard" and x
  assume ok: "guard_ok g"
  show "guard_ok (ip_step x g)"
  proof (cases x)
    case (Failure now ip)
    let ?st = "case dict_get (ig_by_ip g) ip of None \<Rightarrow> new_ip_state | Some st \<Rightarrow> st"
    have "ip_state_ok (ig_max_failures g) ?st" using ok by (rule guard_ok_state)
    moreover have "0 < ig_max_failures g" using ok by (simp add: guard_ok_def)
    ultimately show ?thesis using ok Failure
      by (auto simp: register_failure_def Let_def ip_state_ok_def intro!: guard_ok_put)
  qed (use ok in \<open>auto simp: ip_op_defs guard_ok_pop guard_ok_def dict_simps split: option.split\<close>)
qed

lemma new_guard_ok: "new_guard m b db = Inr g \<Longrightarrow> guard_ok g \<and> ig_by_ip g = []"
  by (auto simp: new_guard_def guard_ok_def split: if_splits)

lemma phase_of_later: "0 \<le> now \<Longrightarrow> now \<le> now' \<Longrightarrow> ip_phase_of now' e = phase_expire now' (ip_phase_of now e)"
  by (auto simp: ip_phase_of_def split: option.split)

lemma guard_ok_get: "guard_ok g \<Longrightarrow> dict_get (ig_by_ip g) ip = Some st \<Longrightarrow> ip_state_ok (ig_max_failures g) st"
  by (simp add: guard_ok_def)

abbreviation ip_phase_in :: "time \<Rightarrow> string \<Rightarrow> 'i ip_guard \<Rightarrow> ip_phase" where
  "ip_phase_in now ip g \<equiv> ip_phase_of now (dict_get (ig_by_ip g) ip)"

lemma failure_phase:
  assumes "guard_ok g" and "ip \<noteq> []" and "0 \<le> now"
  shows "ip_phase_in now ip (fst (register_failure now ip g)) =
           phase_failure (ig_max_failures g) (ig_block_seconds g) now (ip_phase_in now ip g)"
    and "snd (register_failure now ip g) =
           (case ip_phase_in now ip g of Blocked t \<Rightarrow> None
            | Counting n \<Rightarrow> if n + 1 \<ge> ig_max_failures g then Some (py_int (ig_block_seconds g)) else None)"
proof -
  have pos: "0 < ig_max_failures g" "0 < ig_block_seconds g" using assms(1) by (simp_all add: guard_ok_def)
  show "ip_phase_in now ip (fst (register_failure now ip g)) =
      phase_failure (ig_max_failures g) (ig_block_seconds g) now (ip_phase_in now ip g)"
    using assms pos
    by (cases "dict_get (ig_by_ip g) ip")
      (auto simp: register_failure_def Let_def ip_phase_of_def dict_get_set new_ip_state_def
        ip_state_ok_def dest!: guard_ok_get)
  show "snd (register_failure now ip g) =
      (case ip_phase_in now ip g of Blocked t \<Rightarrow> None
       | Counting n \<Rightarrow> if n + 1 \<ge> ig_max_failures g then Some (py_int (ig_block_seconds g)) else None)"
    using assms pos
    by (cases "dict_get (ig_by_ip g) ip")
      (auto simp: register_failure_def Let_def ip_phase_of_def new_ip_state_def
        ip_state_ok_def dest!: guard_ok_get)
qed

lemma success_phase:
  "ip \<noteq> [] \<Longrightarrow> ip_phase_in now ip (register_success now ip g) = phase_success (ip_phase_in now ip g)"
  by (auto simp: register_success_def ip_phase_of_def dict_get_pop split: option.split)

lemma check_phase:
  assumes "ip \<noteq> []"
  shows "ip_phase_in now ip (fst (check_blocked now ip g)) = ip_phase_in now ip g"
    and "snd (check_blocked now ip g) =
           (if dict_get (ig_permanent g) ip \<noteq> None then Some PERMANENT_BLOCK
            else case ip_phase_in now ip g of Blocked t \<Rightarrow> Some (max 1 (py_round (t - now)))
              | Counting n \<Rightarrow> None)"
  using assms by (auto simp: check_blocked_def ip_phase_of_def dict_get_pop split: option.split)

section \<open>Counting up to the block\<close>

lemma ip_step_settings [simp]:
  "ig_max_failures (ip_step x g) = ig_max_failures g"
  "ig_block_seconds (ip_step x g) = ig_block_seconds g"
  by (cases x; auto simp: ip_op_defs Let_def split: option.split)+

lemma failure_permanent [simp]: "ig_permanent (fst (register_failure now ip g)) = ig_permanent g"
  by (simp add: register_failure_def Let_def)

definition ip_counting :: "int \<Rightarrow> string \<Rightarrow> 'i ip_guard \<Rightarrow> bool" where
  "ip_counting n ip g \<longleftrightarrow> dict_get (ig_permanent g) ip = None \<and>
     (case dict_get (ig_by_ip g) ip of None \<Rightarrow> n = 0
      | Some st \<Rightarrow> ip_blocked_until st = 0 \<and> ip_failures st = n)"

lemma counting_failure:
  assumes "ip_counting n ip g" and "ip \<noteq> []" and "0 \<le> t" and "n + 1 < ig_max_failures g"
  shows "ip_counting (n + 1) ip (fst (register_failure t ip g))"
  using assms
  by (auto simp: ip_counting_def register_failure_def Let_def dict_get_set new_ip_state_def
      split: option.splits)

lemma counting_failures:
  "ip_counting n ip g \<Longrightarrow> ip \<noteq> [] \<Longrightarrow> \<forall>t\<in>set ts. 0 \<le> t \<Longrightarrow> n + int (length ts) < ig_max_failures g \<Longrightarrow>
   ip_counting (n + int (length ts)) ip (fold ip_step (map (\<lambda>t. Failure t ip) ts) g)"
proof (induction ts arbitrary: g n)
  case Nil
  then show ?case by simp
next
  case (Cons t ts)
  then have "ip_counting (n + 1) ip (fst (register_failure t ip g))"
    by (intro counting_failure) simp_all
  with Cons.IH[of "n + 1" "fst (register_failure t ip g)"] Cons.prems
    ip_step_settings(1)[of "Failure t ip" g]
  show ?case by (simp add: add.assoc)
qed

lemma counting_check:
  "ip_counting n ip g \<Longrightarrow> 0 \<le> now \<Longrightarrow> snd (check_blocked now ip g) = None"
  by (auto simp: ip_counting_def check_blocked_def split: option.splits)

lemma counting_block:
  assumes "ip_counting n ip g" and "ip \<noteq> []" and "0 \<le> t" and "n + 1 = ig_max_failures g"
  shows "dict_get (ig_by_ip (fst (register_failure t ip g))) ip =
      Some \<lparr>ip_failures = 0, ip_blocked_until = t + ig_block_seconds g\<rparr>"
  using assms
  by (auto simp: ip_counting_def register_failure_def Let_def dict_get_set new_ip_state_def
      split: option.splits)

lemma run_settings [simp]:
  "ig_max_failures (fold ip_step xs g) = ig_max_failures g"
  "ig_block_seconds (fold ip_step xs g) = ig_block_seconds g"
  by (induction xs arbitrary: g) simp_all

text \<open>The answer to a check depends only on what the guard knows of the address.\<close>

lemma ip_check_view: "ip_view g ip = ip_view h ip \<Longrightarrow> snd (check_blocked now ip g) = snd (check_blocked now ip h)"
  by (auto simp: ip_view_def check_blocked_def split: option.split)

text \<open>A block in force: no call before its deadline, other than an administrator's, moves it.\<close>

fun early :: "time \<Rightarrow> string \<Rightarrow> 'i ip_op \<Rightarrow> bool" where
  "early t ip (CheckIp now a) = (a = ip \<longrightarrow> now < t)"
| "early t ip (Failure now a) = (a = ip \<longrightarrow> now < t)"
| "early t ip (Success now a) = (a = ip \<longrightarrow> now < t)"
| "early t ip (ResetIp a) = (a \<noteq> None \<and> a \<noteq> Some ip)"
| "early t ip (Scan items) = True"
| "early t ip (Unblock a released) = (a \<noteq> ip)"

lemma block_step:
  assumes "dict_get (ig_by_ip g) ip = Some st" and "early (ip_blocked_until st) ip x"
  shows "dict_get (ig_by_ip (ip_step x g)) ip = Some st"
  using assms
  by (cases x) (auto simp: ip_op_defs Let_def dict_simps split: option.split)

lemma block_run:
  "dict_get (ig_by_ip g) ip = Some st \<Longrightarrow> \<forall>x\<in>set xs. early (ip_blocked_until st) ip x \<Longrightarrow>
   dict_get (ig_by_ip (fold ip_step xs g)) ip = Some st"
  by (induction xs arbitrary: g) (simp_all add: block_step)

section \<open>Properties\<close>

text \<open>C28: The guard refines a two-phase machine per address. Read through the clock, an address
  either counts failures or is blocked until a deadline; expiry is nothing but the passing of
  time, a failure counts or, at the threshold, blocks from now for the configured time (and only
  then reports the duration), a success clears a count but never lifts a block, and a check
  reports the remaining time without changing the phase.\<close>

theorem ip_guard_refines:
  assumes ok: "guard_ok g" and ip: "ip \<noteq> []" and now: "0 \<le> now" "now \<le> now'"
  defines "ph \<equiv> \<lambda>t h. ip_phase_of t (dict_get (ig_by_ip h) ip)"
  shows "ph now' g = phase_expire now' (ph now g) \<and>
         ph now (fst (register_failure now ip g)) =
           phase_failure (ig_max_failures g) (ig_block_seconds g) now (ph now g) \<and>
         (snd (register_failure now ip g) \<noteq> None \<longleftrightarrow>
            (\<exists>n. ph now g = Counting n \<and> n + 1 \<ge> ig_max_failures g)) \<and>
         ph now (register_success now ip g) = phase_success (ph now g) \<and>
         ph now (fst (check_blocked now ip g)) = ph now g \<and>
         (dict_get (ig_permanent g) ip = None \<longrightarrow>
            snd (check_blocked now ip g) = (case ph now g of Blocked t \<Rightarrow> Some (max 1 (py_round (t - now)))
              | Counting n \<Rightarrow> None))"
  using phase_of_later[OF now, of "dict_get (ig_by_ip g) ip"] failure_phase[OF ok ip now(1)]
    success_phase[OF ip, of now g] check_phase[OF ip, of now g]
  by (simp add: ph_def split: ip_phase.split)

text \<open>An address is blocked by exactly the threshold number of consecutive failures. From a
  guard that holds nothing against the address, whatever the other addresses do, if the calls on
  it are failures at the times \<open>ts\<close> (at most \<open>max_failures\<close> of them), then it is not blocked
  before the last one of \<open>max_failures\<close>, and from that one on it is refused for
  \<open>block_seconds\<close>.\<close>

theorem blocks_at_threshold:
  assumes "ip_counting 0 ip g" and "ip \<noteq> []" and "\<forall>t\<in>set ts. 0 \<le> t" and "0 \<le> now"
    and "filter (\<lambda>x. ip_touches x ip) xs = map (\<lambda>t. Failure t ip) (ts @ [t])"
    and "0 \<le> t" and "int (length (ts @ [t])) \<le> ig_max_failures g"
  shows "snd (check_blocked now ip (fold ip_step xs g)) =
           (if int (length (ts @ [t])) < ig_max_failures g \<or> now \<ge> t + ig_block_seconds g then None
            else Some (max 1 (py_round (t + ig_block_seconds g - now))))"
proof -
  let ?h = "fold ip_step (map (\<lambda>t. Failure t ip) ts) g"
  let ?r = "fst (register_failure t ip ?h)"
  have cnt: "ip_counting (int (length ts)) ip ?h"
    using counting_failures[OF assms(1-3)] assms(7) by simp
  have "ip_view (fold ip_step xs g) ip = ip_view ?r ip"
    using ip_keys.run_noninterference[of xs g ip] assms(5) by simp
  then have same: "snd (check_blocked now ip (fold ip_step xs g)) = snd (check_blocked now ip ?r)"
    by (rule ip_check_view)
  show ?thesis
  proof (cases "int (length ts) + 1 < ig_max_failures g")
    case True
    from counting_failure[OF cnt assms(2,6)] True
    have "ip_counting (int (length ts) + 1) ip ?r" by simp
    with same True assms(4) show ?thesis by (simp add: counting_check)
  next
    case False
    with assms(7) have "int (length ts) + 1 = ig_max_failures ?h" by simp
    from counting_block[OF cnt assms(2,6) this] cnt
    have "dict_get (ig_by_ip ?r) ip = Some \<lparr>ip_failures = 0, ip_blocked_until = t + ig_block_seconds g\<rparr>"
      "dict_get (ig_permanent ?r) ip = None" by (simp_all add: ip_counting_def)
    with same False assms(2) show ?thesis by (auto simp: check_blocked_def)
  qed
qed

theorem blocks_at_threshold_witness:
  "snd (check_blocked 100 ''1.2.3.4'' (fold ip_step [Failure 1 ''1.2.3.4'', Success 2 ''9.9.9.9'',
     Failure 3 ''1.2.3.4''] (\<lparr>ig_max_failures = 2, ig_block_seconds = 1200, ig_by_ip = [],
       ig_has_db = False, ig_permanent = []\<rparr> :: unit ip_guard))) = Some 1103"
proof -
  let ?g = "\<lparr>ig_max_failures = 2, ig_block_seconds = 1200, ig_by_ip = [],
       ig_has_db = False, ig_permanent = []\<rparr> :: unit ip_guard"
  have "snd (check_blocked 100 ''1.2.3.4'' (fold ip_step [Failure 1 ''1.2.3.4'', Success 2 ''9.9.9.9'',
     Failure 3 ''1.2.3.4''] ?g)) = Some (max 1 (py_round (3 + 1200 - 100)))"
    using blocks_at_threshold[of "''1.2.3.4''" ?g "[1]" 100 "[Failure 1 ''1.2.3.4'',
        Success 2 ''9.9.9.9'', Failure 3 ''1.2.3.4'']" 3]
    by (simp add: ip_counting_def)
  then show ?thesis by (simp add: py_round_def Let_def)
qed

text \<open>A temporary block is neither lifted nor prolonged before its deadline. While an address is
  blocked until \<open>t\<close>, any calls before \<open>t\<close> (checks, further failures, even a successful
  authentication, on any address, and database scans), short of an administrator's reset or
  release of this address, leave it blocked until exactly \<open>t\<close>: every check before \<open>t\<close> refuses it.\<close>

theorem block_holds_until_deadline:
  assumes "dict_get (ig_by_ip g) ip = Some st" and "ip \<noteq> []"
    and "\<forall>x\<in>set xs. early (ip_blocked_until st) ip x" and "now < ip_blocked_until st"
  shows "ip_phase_of now (dict_get (ig_by_ip (fold ip_step xs g)) ip) = Blocked (ip_blocked_until st) \<and>
         (\<exists>s. snd (check_blocked now ip (fold ip_step xs g)) = Some s \<and> (s \<ge> 1 \<or> s = PERMANENT_BLOCK))"
proof -
  have "dict_get (ig_by_ip (fold ip_step xs g)) ip = Some st"
    using assms(1,3) by (rule block_run)
  with assms(2,4) show ?thesis by (auto simp: ip_phase_of_def check_blocked_def)
qed

theorem block_holds_until_deadline_witness:
  "\<exists>s. snd (check_blocked 6 ''a'' (fold ip_step [Failure 3 ''a'', Success 4 ''a'', Failure 9 ''b'']
      (\<lparr>ig_max_failures = 2, ig_block_seconds = 5,
        ig_by_ip = [(''a'', \<lparr>ip_failures = 0, ip_blocked_until = 7\<rparr>)],
        ig_has_db = False, ig_permanent = []\<rparr> :: unit ip_guard))) = Some s \<and> (s \<ge> 1 \<or> s = PERMANENT_BLOCK)"
  using block_holds_until_deadline[of "\<lparr>ig_max_failures = 2, ig_block_seconds = 5,
        ig_by_ip = [(''a'', \<lparr>ip_failures = 0, ip_blocked_until = 7\<rparr>)],
        ig_has_db = False, ig_permanent = []\<rparr> :: unit ip_guard" "''a''"
      "\<lparr>ip_failures = 0, ip_blocked_until = 7\<rparr>"
      "[Failure 3 ''a'', Success 4 ''a'', Failure 9 ''b'']" 6]
  by (simp del: fold_simps)

theorem ip_guard_refines_witness:
  "ip_phase_of 4 (dict_get (ig_by_ip (fst (register_failure 4 ''a'' (\<lparr>ig_max_failures = 1,
      ig_block_seconds = 5, ig_by_ip = [], ig_has_db = False, ig_permanent = []\<rparr> :: unit ip_guard)))) ''a'')
   = Blocked 9"
  using ip_guard_refines[of "\<lparr>ig_max_failures = 1, ig_block_seconds = 5, ig_by_ip = [],
      ig_has_db = False, ig_permanent = []\<rparr> :: unit ip_guard" "''a''" 4 4]
  by (simp add: guard_ok_def ip_phase_of_def)

end
