(* ===== verification/Routing_Data.thy ===== *)
theory Routing_Data
  imports Gateway_Prelude "HOL-Library.Char_ord" "HOL-Library.List_Lexorder"
    "HOL-Library.Product_Lexorder"
begin

text \<open>
  The state of the upstream router (\<open>services/upstream_routing_state.py\<close>) and the operations
  that are not about failures or selection: sliding request and token windows, manual pauses,
  the concurrency counters and their leases, the observed limits, and the quota checks.

  An upstream reference is \<open>(provider, model, key fingerprint)\<close>; a key reference leaves the
  model out. Operations take the clock readings as arguments.
\<close>

section \<open>Data\<close>

definition KEYLESS_FINGERPRINT :: string where "KEYLESS_FINGERPRINT = ''keyless''"
definition DEFAULT_COOLDOWN_SECONDS :: time where "DEFAULT_COOLDOWN_SECONDS = 600"
definition PENALTY_DECAY_SECONDS :: time where "PENALTY_DECAY_SECONDS = 300"
definition DEFAULT_SESSION_AFFINITY_TTL_SECONDS :: time where
  "DEFAULT_SESSION_AFFINITY_TTL_SECONDS = 3600"
definition RATE_LIMIT_TRANSIENT_COOLDOWN_SECONDS :: time where
  "RATE_LIMIT_TRANSIENT_COOLDOWN_SECONDS = 90"
definition RATE_LIMIT_ESCALATION_LADDER_SECONDS :: "time list" where
  "RATE_LIMIT_ESCALATION_LADDER_SECONDS = [120, 600, 3600, 86400]"
definition RATE_LIMIT_HIT_WINDOW_SECONDS :: time where "RATE_LIMIT_HIT_WINDOW_SECONDS = 3600"
definition RATE_LIMIT_EXHAUSTION_WINDOW_SECONDS :: time where
  "RATE_LIMIT_EXHAUSTION_WINDOW_SECONDS = 86400"
definition DAILY_QUOTA_MIN_COOLDOWN_SECONDS :: time where "DAILY_QUOTA_MIN_COOLDOWN_SECONDS = 60"
definition UPSTREAM_OVERLOAD_COOLDOWN_SECONDS :: time where
  "UPSTREAM_OVERLOAD_COOLDOWN_SECONDS = 15"
definition COOLDOWN_CEILING_SECONDS :: time where "COOLDOWN_CEILING_SECONDS = 86400"
definition ACCESS_DENIED_STATUS_CODES :: "int set" where "ACCESS_DENIED_STATUS_CODES = {401, 403}"

datatype axis = Rpm | Rpd | Tpm | Tpd

datatype limit_source = Header | ErrorBody

type_synonym up_ref = "string \<times> string \<times> string"
type_synonym key_ref = "string \<times> string"

record observed_limit =
  ol_limit :: "int option"
  ol_remaining :: "int option"
  ol_reset_at :: "time option"
  ol_source :: limit_source
  ol_observed_at :: string

text \<open>\<open>fingerprint_api_key\<close>; \<open>sha\<close> is the hexadecimal SHA-256 digest of a text.\<close>

definition fingerprint_api_key :: "(string \<Rightarrow> string) \<Rightarrow> string option \<Rightarrow> string" where
  "fingerprint_api_key sha key =
     (case key of None \<Rightarrow> KEYLESS_FINGERPRINT
      | Some k \<Rightarrow> if k = [] then KEYLESS_FINGERPRINT else take 16 (sha k))"

record quota_limits =
  ql_rpm :: "int option"
  ql_rpd :: "int option"
  ql_tpm :: "int option"
  ql_tpd :: "int option"
  ql_max_concurrency :: "int option"

text \<open>A configured limit as read: absent (or empty), what \<open>int()\<close> makes of it, or a value that
  \<open>int()\<close> refuses.\<close>

datatype raw_limit = RawAbsent | RawInt int | RawBad

datatype limit_error = LimitNotPositive | LimitNotAnInteger

definition positive_int :: "raw_limit \<Rightarrow> limit_error + int option" where
  "positive_int raw = (case raw of
     RawAbsent \<Rightarrow> Inr None
   | RawBad \<Rightarrow> Inl LimitNotAnInteger
   | RawInt n \<Rightarrow> if n \<le> 0 then Inl LimitNotPositive else Inr (Some n))"

definition quota_limits_from_mapping ::
    "(string \<Rightarrow> raw_limit) option \<Rightarrow> limit_error + quota_limits option" where
  "quota_limits_from_mapping value =
     (case value of None \<Rightarrow> Inr None
      | Some get \<Rightarrow>
          (case positive_int (get ''rpm'') of Inl e \<Rightarrow> Inl e | Inr a \<Rightarrow>
          (case positive_int (get ''rpd'') of Inl e \<Rightarrow> Inl e | Inr b \<Rightarrow>
          (case positive_int (get ''tpm'') of Inl e \<Rightarrow> Inl e | Inr c \<Rightarrow>
          (case positive_int (get ''tpd'') of Inl e \<Rightarrow> Inl e | Inr d \<Rightarrow>
          (case positive_int (get ''max_concurrency'') of Inl e \<Rightarrow> Inl e | Inr m \<Rightarrow>
             Inr (Some \<lparr>ql_rpm = a, ql_rpd = b, ql_tpm = c, ql_tpd = d,
               ql_max_concurrency = m\<rparr>)))))))"

record runtime_state =
  rs_health_status :: string
  rs_last_checked_at :: "string option"
  rs_last_error :: "string option"
  rs_cooldown_until :: "time option"
  rs_penalty_score :: rat
  rs_penalty_updated_at :: time

definition new_runtime_state :: runtime_state where
  "new_runtime_state = \<lparr>rs_health_status = ''unknown'', rs_last_checked_at = None,
     rs_last_error = None, rs_cooldown_until = None, rs_penalty_score = 0,
     rs_penalty_updated_at = 0\<rparr>"

record affinity_binding =
  ab_fingerprint :: string
  ab_expires_at :: time

record manual_pause =
  mp_expires_at :: time
  mp_reason :: string

record routing =
  rt_states :: "(up_ref, runtime_state) dict"
  rt_request_windows :: "(up_ref, time list) dict"
  rt_token_windows :: "(up_ref, (time \<times> int) list) dict"
  rt_key_request_windows :: "(key_ref, time list) dict"
  rt_key_token_windows :: "(key_ref, (time \<times> int) list) dict"
  rt_active_concurrency :: "(key_ref, int) dict"
  rt_manual_pauses :: "(string \<times> string \<times> string option, manual_pause) dict"
  rt_round_robin :: "(string \<times> string \<times> string list, nat) dict"
  rt_session_affinity :: "(string \<times> string \<times> string \<times> string \<times> string, affinity_binding) dict"
  rt_hit_windows :: "(up_ref, time list) dict"
  rt_exhaustion_windows :: "(up_ref, time list) dict"
  rt_observed_limits :: "(up_ref, (axis, observed_limit) dict) dict"
  rt_forced_unsupported :: "(string \<times> string) set"

definition new_routing :: routing where
  "new_routing = \<lparr>rt_states = [], rt_request_windows = [], rt_token_windows = [],
     rt_key_request_windows = [], rt_key_token_windows = [], rt_active_concurrency = [],
     rt_manual_pauses = [], rt_round_robin = [], rt_session_affinity = [],
     rt_hit_windows = [], rt_exhaustion_windows = [], rt_observed_limits = [],
     rt_forced_unsupported = {}\<rparr>"

section \<open>Forced tool choice\<close>

definition record_forced_tool_choice_unsupported :: "string \<Rightarrow> string \<Rightarrow> routing \<Rightarrow> routing" where
  "record_forced_tool_choice_unsupported provider model rt =
     rt\<lparr>rt_forced_unsupported := insert (provider, model) (rt_forced_unsupported rt)\<rparr>"

definition forced_tool_choice_unsupported :: "string \<Rightarrow> string \<Rightarrow> routing \<Rightarrow> bool" where
  "forced_tool_choice_unsupported provider model rt \<longleftrightarrow>
     (provider, model) \<in> rt_forced_unsupported rt"

section \<open>Windows\<close>

fun trim_times :: "time \<Rightarrow> time list \<Rightarrow> time list" where
  "trim_times cutoff [] = []"
| "trim_times cutoff (t # ts) = (if t < cutoff then trim_times cutoff ts else t # ts)"

fun trim_token_entries :: "time \<Rightarrow> (time \<times> int) list \<Rightarrow> (time \<times> int) list" where
  "trim_token_entries cutoff [] = []"
| "trim_token_entries cutoff (e # es) = (if fst e < cutoff then trim_token_entries cutoff es else e # es)"

definition trim_numeric_window :: "time \<Rightarrow> time \<Rightarrow> time list \<Rightarrow> time list" where
  "trim_numeric_window now seconds values = trim_times (now - seconds) values"

definition trim_token_window :: "time \<Rightarrow> time \<Rightarrow> (time \<times> int) list \<Rightarrow> (time \<times> int) list" where
  "trim_token_window now seconds values = trim_token_entries (now - seconds) values"

definition count_since :: "time \<Rightarrow> time \<Rightarrow> time list \<Rightarrow> int" where
  "count_since now seconds values = int (length (filter (\<lambda>t. t \<ge> now - seconds) values))"

definition tokens_since :: "time \<Rightarrow> time \<Rightarrow> (time \<times> int) list \<Rightarrow> int" where
  "tokens_since now seconds values = (\<Sum>e\<leftarrow>filter (\<lambda>e. fst e \<ge> now - seconds) values. snd e)"

interpretation time_window: sliding_window "\<lambda>t. t" trim_times
  by unfold_locales simp_all

interpretation token_window: sliding_window fst trim_token_entries
  by unfold_locales simp_all

lemma count_since_trim:
  "seconds \<le> horizon \<Longrightarrow> count_since now seconds (trim_numeric_window now horizon ts) = count_since now seconds ts"
  using time_window.trim_keeps[of "now - horizon" "now - seconds" ts]
  by (simp add: count_since_def trim_numeric_window_def)

lemma tokens_since_trim:
  "seconds \<le> horizon \<Longrightarrow> tokens_since now seconds (trim_token_window now horizon es) = tokens_since now seconds es"
  using token_window.trim_keeps[of "now - horizon" "now - seconds" es]
  by (simp add: tokens_since_def trim_token_window_def)

section \<open>Runtime states: cooldown and penalty\<close>

abbreviation state_at :: "routing \<Rightarrow> up_ref \<Rightarrow> runtime_state" where
  "state_at rt ref \<equiv> dict_default new_runtime_state (rt_states rt) ref"

definition state_for :: "up_ref \<Rightarrow> routing \<Rightarrow> routing" where
  "state_for ref rt = rt\<lparr>rt_states := dict_touch new_runtime_state ref (rt_states rt)\<rparr>"

definition put_state :: "up_ref \<Rightarrow> runtime_state \<Rightarrow> routing \<Rightarrow> routing" where
  "put_state ref st rt = rt\<lparr>rt_states := dict_set ref st (rt_states rt)\<rparr>"

text \<open>Both reads clean up after themselves: an expired cooldown and a penalty that decayed to
  nothing are reset in place.\<close>

definition cooldown_remaining :: "time \<Rightarrow> runtime_state \<Rightarrow> runtime_state \<times> time option" where
  "cooldown_remaining now st =
     (case rs_cooldown_until st of
        None \<Rightarrow> (st, None)
      | Some t \<Rightarrow> if t - now \<le> 0 then (st\<lparr>rs_cooldown_until := None\<rparr>, None) else (st, Some (t - now)))"

definition decayed_penalty :: "time \<Rightarrow> runtime_state \<Rightarrow> runtime_state \<times> rat" where
  "decayed_penalty now st =
     (if rs_penalty_score st \<le> 0 then (st, 0)
      else
        (let elapsed = max 0 (now - rs_penalty_updated_at st)
         in if elapsed \<le> 0 then (st, rs_penalty_score st)
            else
              (let remaining = max 0 (rs_penalty_score st - (elapsed / PENALTY_DECAY_SECONDS) * 25)
               in (if remaining = 0 then st\<lparr>rs_penalty_score := 0\<rparr> else st, remaining))))"

section \<open>Manual pauses\<close>

definition pause_key :: "time \<Rightarrow> string \<Rightarrow> string \<Rightarrow> string option \<Rightarrow> int \<Rightarrow> string \<Rightarrow> routing \<Rightarrow> routing" where
  "pause_key now provider fp model duration reason rt =
     rt\<lparr>rt_manual_pauses := dict_set (provider, fp, model)
          \<lparr>mp_expires_at = now + of_int duration, mp_reason = reason\<rparr> (rt_manual_pauses rt)\<rparr>"

definition resume_key :: "string \<Rightarrow> string \<Rightarrow> string option \<Rightarrow> routing \<Rightarrow> routing" where
  "resume_key provider fp model rt =
     rt\<lparr>rt_manual_pauses := dict_pop (provider, fp, model) (rt_manual_pauses rt)\<rparr>"

definition expire_manual_pauses :: "time \<Rightarrow> routing \<Rightarrow> routing" where
  "expire_manual_pauses now rt =
     rt\<lparr>rt_manual_pauses := fold (\<lambda>(ref, pause) d. if mp_expires_at pause \<le> now then dict_pop ref d else d)
          (rt_manual_pauses rt) (rt_manual_pauses rt)\<rparr>"

record pause_row =
  pr_provider :: string
  pr_fingerprint :: string
  pr_model :: "string option"
  pr_reason :: string
  pr_remaining_seconds :: int

definition get_manual_pauses :: "time \<Rightarrow> routing \<Rightarrow> routing \<times> pause_row list" where
  "get_manual_pauses now rt =
     (let rt' = expire_manual_pauses now rt
      in (rt', map (\<lambda>((provider, fp, model), pause).
            \<lparr>pr_provider = provider, pr_fingerprint = fp, pr_model = model,
             pr_reason = mp_reason pause,
             pr_remaining_seconds = max 0 (py_int (mp_expires_at pause - now))\<rparr>)
          (rt_manual_pauses rt')))"

text \<open>The loop over the two scopes, all models first; an expired pause met on the way is deleted.\<close>

fun active_pause_in :: "string \<Rightarrow> string \<Rightarrow> string option list \<Rightarrow> time \<Rightarrow> routing \<Rightarrow>
    routing \<times> manual_pause option" where
  "active_pause_in provider fp [] now rt = (rt, None)"
| "active_pause_in provider fp (scope # scopes) now rt =
     (case dict_get (rt_manual_pauses rt) (provider, fp, scope) of
        None \<Rightarrow> active_pause_in provider fp scopes now rt
      | Some pause \<Rightarrow>
          (if mp_expires_at pause > now then (rt, Some pause)
           else active_pause_in provider fp scopes now
             (rt\<lparr>rt_manual_pauses := dict_pop (provider, fp, scope) (rt_manual_pauses rt)\<rparr>)))"

definition active_pause :: "string \<Rightarrow> string \<Rightarrow> string \<Rightarrow> time \<Rightarrow> routing \<Rightarrow> routing \<times> manual_pause option" where
  "active_pause provider fp model now rt = active_pause_in provider fp [None, Some model] now rt"

section \<open>Observed limits\<close>

definition record_observed_limit :: "string \<Rightarrow> up_ref \<Rightarrow> axis \<Rightarrow> int option \<Rightarrow> int option \<Rightarrow>
    time option \<Rightarrow> limit_source \<Rightarrow> routing \<Rightarrow> routing" where
  "record_observed_limit stamp ref ax limit remaining reset_at source rt =
     (let axis_map = dict_default [] (rt_observed_limits rt) ref;
          keep = rt\<lparr>rt_observed_limits := dict_touch [] ref (rt_observed_limits rt)\<rparr>;
          entry = \<lparr>ol_limit = limit, ol_remaining = remaining, ol_reset_at = reset_at,
                   ol_source = source, ol_observed_at = stamp\<rparr>;
          store = rt\<lparr>rt_observed_limits := dict_set ref (dict_set ax entry axis_map) (rt_observed_limits rt)\<rparr>
      in case dict_get axis_map ax of
           None \<Rightarrow> store
         | Some existing \<Rightarrow>
             (if source = ErrorBody \<and> ol_source existing = Header then keep
              else if source = ErrorBody \<and>
                 (case ol_limit existing of None \<Rightarrow> False
                  | Some old \<Rightarrow> (case limit of None \<Rightarrow> True | Some new \<Rightarrow> new \<ge> old)) then keep
              else store))"

record observed_row =
  or_limit :: "int option"
  or_remaining :: "int option"
  or_reset_in_seconds :: "time option"
  or_source :: limit_source
  or_observed_at :: string

definition observed_limits_snapshot :: "up_ref \<Rightarrow> time \<Rightarrow> routing \<Rightarrow> (axis \<times> observed_row) list" where
  "observed_limits_snapshot ref now rt =
     map (\<lambda>(ax, e). (ax, \<lparr>or_limit = ol_limit e, or_remaining = ol_remaining e,
            or_reset_in_seconds = map_option (\<lambda>t. t - now) (ol_reset_at e),
            or_source = ol_source e, or_observed_at = ol_observed_at e\<rparr>))
         (dict_default [] (rt_observed_limits rt) ref)"

definition effective_limit :: "up_ref \<Rightarrow> axis \<Rightarrow> int option \<Rightarrow> routing \<Rightarrow> int option" where
  "effective_limit ref ax configured rt =
     (let observed = (case dict_get (dict_default [] (rt_observed_limits rt) ref) ax of
            None \<Rightarrow> None | Some e \<Rightarrow> ol_limit e)
      in case configured of
           None \<Rightarrow> observed
         | Some c \<Rightarrow> (case observed of None \<Rightarrow> Some c | Some n \<Rightarrow> Some (min c n)))"

section \<open>Why a key is refused\<close>

text \<open>One constructor per reason the code words.\<close>

datatype block_reason =
  BlockPaused
| BlockCooldown time
| BlockZeroRemaining axis limit_source
| BlockQuota axis
| BlockKeyConcurrency
| BlockKeyQuota axis

fun zero_remaining_in :: "time \<Rightarrow> (axis \<times> observed_limit) list \<Rightarrow> block_reason option" where
  "zero_remaining_in now [] = None"
| "zero_remaining_in now ((ax, e) # es) =
     (if ol_remaining e \<noteq> Some 0 then zero_remaining_in now es
      else case ol_reset_at e of
        None \<Rightarrow> zero_remaining_in now es
      | Some t \<Rightarrow> (if t \<le> now then zero_remaining_in now es
                    else Some (BlockZeroRemaining ax (ol_source e))))"

definition zero_remaining_block :: "up_ref \<Rightarrow> time \<Rightarrow> routing \<Rightarrow> block_reason option" where
  "zero_remaining_block ref now rt =
     zero_remaining_in now (dict_default [] (rt_observed_limits rt) ref)"

definition has_zero_remaining_quota_block :: "time \<Rightarrow> up_ref \<Rightarrow> routing \<Rightarrow> bool" where
  "has_zero_remaining_quota_block now ref rt \<longleftrightarrow> zero_remaining_block ref now rt \<noteq> None"

fun at_limit :: "int option \<Rightarrow> int \<Rightarrow> bool" where
  "at_limit None used = False"
| "at_limit (Some n) used = (used \<ge> n)"

definition quota_block_reason :: "up_ref \<Rightarrow> quota_limits option \<Rightarrow> time \<Rightarrow> routing \<Rightarrow>
    routing \<times> block_reason option" where
  "quota_block_reason ref limits now rt =
     (case zero_remaining_block ref now rt of
        Some r \<Rightarrow> (rt, Some r)
      | None \<Rightarrow>
          (let cfg = (\<lambda>get. case limits of None \<Rightarrow> None | Some l \<Rightarrow> get l);
               rpm = effective_limit ref Rpm (cfg ql_rpm) rt;
               rpd = effective_limit ref Rpd (cfg ql_rpd) rt;
               tpm = effective_limit ref Tpm (cfg ql_tpm) rt;
               tpd = effective_limit ref Tpd (cfg ql_tpd) rt
           in if rpm = None \<and> rpd = None \<and> tpm = None \<and> tpd = None then (rt, None)
              else
                (let requests = trim_numeric_window now 86400 (dict_default [] (rt_request_windows rt) ref);
                     tokens = trim_token_window now 86400 (dict_default [] (rt_token_windows rt) ref);
                     rt' = rt\<lparr>rt_request_windows := dict_set ref requests (rt_request_windows rt),
                               rt_token_windows := dict_set ref tokens (rt_token_windows rt)\<rparr>
                 in (rt',
                     if at_limit rpm (count_since now 60 requests) then Some (BlockQuota Rpm)
                     else if at_limit rpd (count_since now 86400 requests) then Some (BlockQuota Rpd)
                     else if at_limit tpm (tokens_since now 60 tokens) then Some (BlockQuota Tpm)
                     else if at_limit tpd (tokens_since now 86400 tokens) then Some (BlockQuota Tpd)
                     else None))))"

text \<open>The loop over the four axes with their window lengths.\<close>

definition key_axis_block :: "quota_limits \<Rightarrow> time \<Rightarrow> time list \<Rightarrow> (time \<times> int) list \<Rightarrow> block_reason option" where
  "key_axis_block limits now requests tokens =
     (if at_limit (ql_rpm limits) (count_since now 60 requests) then Some (BlockKeyQuota Rpm)
      else if at_limit (ql_rpd limits) (count_since now 86400 requests) then Some (BlockKeyQuota Rpd)
      else if at_limit (ql_tpm limits) (tokens_since now 60 tokens) then Some (BlockKeyQuota Tpm)
      else if at_limit (ql_tpd limits) (tokens_since now 86400 tokens) then Some (BlockKeyQuota Tpd)
      else None)"

definition key_quota_block_reason :: "bool \<Rightarrow> key_ref \<Rightarrow> quota_limits option \<Rightarrow> time \<Rightarrow> routing \<Rightarrow>
    routing \<times> block_reason option" where
  "key_quota_block_reason include_concurrency ref limits now rt =
     (case limits of
        None \<Rightarrow> (rt, None)
      | Some l \<Rightarrow>
          (let rt1 = (if include_concurrency \<and> ql_max_concurrency l \<noteq> None
                      then rt\<lparr>rt_active_concurrency := dict_touch 0 ref (rt_active_concurrency rt)\<rparr>
                      else rt)
           in if include_concurrency \<and>
                 at_limit (ql_max_concurrency l) (dict_default 0 (rt_active_concurrency rt) ref)
              then (rt1, Some BlockKeyConcurrency)
              else
                (let requests = trim_numeric_window now 86400 (dict_default [] (rt_key_request_windows rt) ref);
                     tokens = trim_token_window now 86400 (dict_default [] (rt_key_token_windows rt) ref)
                 in (rt1\<lparr>rt_key_request_windows := dict_set ref requests (rt_key_request_windows rt1),
                         rt_key_token_windows := dict_set ref tokens (rt_key_token_windows rt1)\<rparr>,
                     key_axis_block l now requests tokens))))"

section \<open>Recording attempts and tokens\<close>

definition record_attempt_start :: "time \<Rightarrow> string \<Rightarrow> string \<Rightarrow> string \<Rightarrow> quota_limits option \<Rightarrow> routing \<Rightarrow>
    routing \<times> block_reason option" where
  "record_attempt_start now provider model fp key_limits rt =
     (let ref = (provider, model, fp);
          (rt1, pause) = active_pause provider fp model now rt
      in if pause \<noteq> None then (rt1, Some BlockPaused)
         else
           (let (rt2, blocked) = key_quota_block_reason False (provider, fp) key_limits now rt1
            in case blocked of
                 Some r \<Rightarrow> (rt2, Some r)
               | None \<Rightarrow>
                   (let requests = trim_numeric_window now 86400
                          (dict_default [] (rt_request_windows rt2) ref @ [now]);
                        key_requests = trim_numeric_window now 86400
                          (dict_default [] (rt_key_request_windows rt2) (provider, fp) @ [now])
                    in (state_for ref
                          (rt2\<lparr>rt_request_windows := dict_set ref requests (rt_request_windows rt2),
                               rt_key_request_windows :=
                                 dict_set (provider, fp) key_requests (rt_key_request_windows rt2)\<rparr>),
                        None))))"

definition record_tokens :: "time \<Rightarrow> string \<Rightarrow> string \<Rightarrow> string \<Rightarrow> int option \<Rightarrow> routing \<Rightarrow> routing" where
  "record_tokens now provider model fp total_tokens rt =
     (case total_tokens of
        None \<Rightarrow> rt
      | Some n \<Rightarrow>
          (if n \<le> 0 then rt
           else
             (let ref = (provider, model, fp);
                  tokens = trim_token_window now 86400
                    (dict_default [] (rt_token_windows rt) ref @ [(now, n)]);
                  key_tokens = trim_token_window now 86400
                    (dict_default [] (rt_key_token_windows rt) (provider, fp) @ [(now, n)])
              in state_for ref
                   (rt\<lparr>rt_token_windows := dict_set ref tokens (rt_token_windows rt),
                       rt_key_token_windows :=
                         dict_set (provider, fp) key_tokens (rt_key_token_windows rt)\<rparr>))))"

definition cooldown_remaining_seconds :: "time \<Rightarrow> up_ref \<Rightarrow> routing \<Rightarrow> routing \<times> time option" where
  "cooldown_remaining_seconds now ref rt =
     (case dict_get (rt_states rt) ref of
        None \<Rightarrow> (rt, None)
      | Some st \<Rightarrow> (let (st', r) = cooldown_remaining now st in (put_state ref st' rt, r)))"

section \<open>Concurrency leases\<close>

record lease =
  ls_provider :: string
  ls_fingerprint :: string
  ls_released :: bool

definition acquire_concurrency :: "string \<Rightarrow> string \<Rightarrow> int option \<Rightarrow> routing \<Rightarrow> routing \<times> lease option" where
  "acquire_concurrency provider fp max_concurrency rt =
     (let ref = (provider, fp);
          active = dict_default 0 (rt_active_concurrency rt) ref
      in if at_limit max_concurrency active
         then (rt\<lparr>rt_active_concurrency := dict_touch 0 ref (rt_active_concurrency rt)\<rparr>, None)
         else (rt\<lparr>rt_active_concurrency := dict_set ref (active + 1) (rt_active_concurrency rt)\<rparr>,
               Some \<lparr>ls_provider = provider, ls_fingerprint = fp, ls_released = False\<rparr>))"

definition release_lease :: "lease \<Rightarrow> routing \<Rightarrow> routing \<times> lease" where
  "release_lease l rt =
     (if ls_released l then (rt, l)
      else
        (let ref = (ls_provider l, ls_fingerprint l);
             active = dict_default 0 (rt_active_concurrency rt) ref
         in (rt\<lparr>rt_active_concurrency :=
                (if active \<le> 1 then dict_pop ref (rt_active_concurrency rt)
                 else dict_set ref (active - 1) (rt_active_concurrency rt))\<rparr>,
             l\<lparr>ls_released := True\<rparr>)))"

end
