(* ===== verification/Routing_Failures.thy ===== *)
theory Routing_Failures
  imports Routing_Data
begin

text \<open>
  What a success, a health check and a failure make of an upstream reference
  (\<open>mark_health\<close>, \<open>record_success\<close>, \<open>record_failure\<close> and the rate-limit escalation ladder of
  \<open>services/upstream_routing_state.py\<close>).

  What \<open>services/error_classifier.py\<close> says of an error is part of the error's description
  (\<open>failure\<close>), the \<open>ValueError\<close> of its limit parser included; the wall clock is a number of seconds since the epoch and its ISO text.
\<close>

section \<open>Data\<close>

record failure =
  fl_present :: bool
  fl_text :: string
  fl_status_code :: "int option"
  fl_rate_limited :: bool
  fl_daily_quota :: bool
  fl_overload :: bool
  fl_learned_limit :: "unit + (axis \<times> int) option"

text \<open>A \<open>Retry-After\<close> argument: \<open>float()\<close> of it, or a value \<open>float()\<close> refuses.\<close>

datatype retry_arg = RetrySeconds rat | RetryBad

record clocks =
  ck_now :: time
  ck_wall :: rat
  ck_stamp :: string

definition mark_health :: "clocks \<Rightarrow> up_ref \<Rightarrow> string \<Rightarrow> string option \<Rightarrow> routing \<Rightarrow> routing" where
  "mark_health ck ref health_status last_error rt =
     (let st = (state_at rt ref)
            \<lparr>rs_health_status := health_status,
             rs_last_checked_at := Some (ck_stamp ck),
             rs_last_error := (case last_error of None \<Rightarrow> None
               | Some e \<Rightarrow> if e = [] then None else Some (take 500 e))\<rparr>
      in if health_status = ''healthy''
         then (put_state ref
                (st\<lparr>rs_cooldown_until := None,
                    rs_penalty_score := max 0 (rs_penalty_score st - 10),
                    rs_penalty_updated_at := ck_now ck\<rparr>) rt)
              \<lparr>rt_hit_windows := dict_pop ref (rt_hit_windows rt),
               rt_exhaustion_windows := dict_pop ref (rt_exhaustion_windows rt)\<rparr>
         else put_state ref st rt)"

definition record_success :: "clocks \<Rightarrow> up_ref \<Rightarrow> routing \<Rightarrow> routing" where
  "record_success ck ref rt = mark_health ck ref ''healthy'' None rt"

section \<open>Cooldown lengths\<close>

definition positive_floor :: "rat option \<Rightarrow> rat" where
  "positive_floor f = (case f of None \<Rightarrow> 0 | Some x \<Rightarrow> if x \<noteq> 0 \<and> x > 0 then x else 0)"

definition rate_limit_ladder_cooldown :: "up_ref \<Rightarrow> time \<Rightarrow> rat option \<Rightarrow> routing \<Rightarrow> routing \<times> rat" where
  "rate_limit_ladder_cooldown ref now retry_floor rt =
     (let hits = trim_numeric_window now RATE_LIMIT_HIT_WINDOW_SECONDS
            (dict_default [] (rt_hit_windows rt) ref @ [now]);
          rt1 = rt\<lparr>rt_hit_windows := dict_set ref hits (rt_hit_windows rt)\<rparr>
      in if length hits \<ge> 2
         then
           (let events = trim_numeric_window now RATE_LIMIT_EXHAUSTION_WINDOW_SECONDS
                  (dict_default [] (rt_exhaustion_windows rt) ref @ [now]);
                index = min (length events - 1) (length RATE_LIMIT_ESCALATION_LADDER_SECONDS - 1)
            in (rt1\<lparr>rt_exhaustion_windows := dict_set ref events (rt_exhaustion_windows rt)\<rparr>,
                max (RATE_LIMIT_ESCALATION_LADDER_SECONDS ! index) (positive_floor retry_floor)))
         else (rt1, max RATE_LIMIT_TRANSIENT_COOLDOWN_SECONDS (positive_floor retry_floor)))"

text \<open>\<open>datetime.fromtimestamp\<close> keeps microseconds; the next midnight is the next multiple of a
  day.\<close>

definition seconds_until_next_utc_midnight :: "rat \<Rightarrow> rat" where
  "seconds_until_next_utc_midnight wall =
     (let us = py_round (wall * 1000000); day = 86400 * 1000000
      in max DAILY_QUOTA_MIN_COOLDOWN_SECONDS (of_int (day - us mod day) / 1000000))"

definition daily_quota_cooldown_seconds :: "rat \<Rightarrow> rat option \<Rightarrow> rat" where
  "daily_quota_cooldown_seconds wall retry_floor =
     (case retry_floor of
        Some x \<Rightarrow> if x > 0 then x else seconds_until_next_utc_midnight wall
      | None \<Rightarrow> seconds_until_next_utc_midnight wall)"

definition legacy_cooldown :: "retry_arg option \<Rightarrow> rat" where
  "legacy_cooldown retry_after =
     (case retry_after of
        None \<Rightarrow> DEFAULT_COOLDOWN_SECONDS
      | Some RetryBad \<Rightarrow> DEFAULT_COOLDOWN_SECONDS
      | Some (RetrySeconds s) \<Rightarrow> if s > 0 then s else DEFAULT_COOLDOWN_SECONDS)"

text \<open>The flag says that the parser raised.\<close>

definition maybe_learn_limit :: "string \<Rightarrow> up_ref \<Rightarrow> failure \<Rightarrow> routing \<Rightarrow> routing \<times> bool" where
  "maybe_learn_limit stamp ref f rt =
     (case fl_learned_limit f of
        Inl u \<Rightarrow> (rt, True)
      | Inr None \<Rightarrow> (rt, False)
      | Inr (Some (ax, n)) \<Rightarrow> (record_observed_limit stamp ref ax (Some n) None None ErrorBody rt, False))"

section \<open>Failures\<close>

text \<open>The cooldown of a temporary failure, on the state object \<open>st\<close> of the reference.\<close>

definition temporary_cooldown :: "clocks \<Rightarrow> up_ref \<Rightarrow> failure \<Rightarrow> retry_arg option \<Rightarrow> rat option \<Rightarrow>
    runtime_state \<Rightarrow> routing \<Rightarrow> routing \<times> runtime_state \<times> rat" where
  "temporary_cooldown ck ref f retry_after retry_floor st rt =
     (let rate_limited = fl_rate_limited f;
          daily = rate_limited \<and> fl_daily_quota f;
          overload = \<not> daily \<and> fl_overload f
      in if daily
         then (rt, st, min (daily_quota_cooldown_seconds (ck_wall ck) retry_floor) COOLDOWN_CEILING_SECONDS)
         else if overload
         then (rt, st, min (max UPSTREAM_OVERLOAD_COOLDOWN_SECONDS (positive_floor retry_floor))
                 COOLDOWN_CEILING_SECONDS)
         else if rate_limited
         then (case cooldown_remaining (ck_now ck) st of
                 (st', Some active) \<Rightarrow>
                   (rt, st', min (max active (positive_floor retry_floor)) COOLDOWN_CEILING_SECONDS)
               | (st', None) \<Rightarrow>
                   (let (rt', c) = rate_limit_ladder_cooldown ref (ck_now ck) retry_floor rt
                    in (rt', st', min c COOLDOWN_CEILING_SECONDS)))
         else (rt, st, legacy_cooldown retry_after))"

text \<open>The result is \<open>Inl\<close> when the limit parser raises: the cooldown is set by then, the penalty is not.\<close>

definition record_failure :: "clocks \<Rightarrow> up_ref \<Rightarrow> failure \<Rightarrow> bool \<Rightarrow> bool \<Rightarrow> retry_arg option \<Rightarrow> rat option \<Rightarrow>
    routing \<Rightarrow> routing \<times> (unit + bool)" where
  "record_failure ck ref f temporary apply_penalty retry_after retry_floor rt =
     (let now = ck_now ck;
          access_denied = (case fl_status_code f of None \<Rightarrow> False
            | Some c \<Rightarrow> c \<in> ACCESS_DENIED_STATUS_CODES);
          st0 = (state_at rt ref)
            \<lparr>rs_health_status := (if access_denied then ''invalid'' else ''error''),
             rs_last_checked_at := Some (ck_stamp ck),
             rs_last_error := (if fl_present f then Some (take 500 (fl_text f)) else None)\<rparr>;
          rate_limited = (temporary \<and> fl_rate_limited f);
          overload = (\<not> (rate_limited \<and> fl_daily_quota f) \<and> fl_overload f);
          (rt1, st1, raised) =
            (if temporary
             then (let (rt', st', c) = temporary_cooldown ck ref f retry_after retry_floor st0 rt;
                       (rt'', raised) = (if rate_limited \<and> \<not> overload then maybe_learn_limit (ck_stamp ck) ref f rt'
                         else (rt', False))
                   in (rt'', st'\<lparr>rs_cooldown_until := Some (now + c)\<rparr>, raised))
             else if access_denied
             then (rt, st0\<lparr>rs_cooldown_until := Some (now + DEFAULT_COOLDOWN_SECONDS)\<rparr>, False)
             else (rt, st0, False))
      in if raised then (put_state ref st1 rt1, Inl ())
         else
           (let st2 =
              (if apply_penalty \<and> temporary
               then (let (st', p) = decayed_penalty now st1
                     in st'\<lparr>rs_penalty_score := min 100 (p + 25), rs_penalty_updated_at := now\<rparr>)
               else st1)
            in (put_state ref st2 rt1, Inr rate_limited)))"

section \<open>One step per report\<close>

datatype report =
  HealthReport clocks up_ref string "string option"
| FailureReport clocks up_ref failure bool bool "retry_arg option" "rat option"
| LimitReport string up_ref axis "int option" "int option" "time option" limit_source

fun report_step :: "report \<Rightarrow> routing \<Rightarrow> routing" where
  "report_step (HealthReport ck ref h e) rt = mark_health ck ref h e rt"
| "report_step (FailureReport ck ref f tmp pen ra fl) rt = fst (record_failure ck ref f tmp pen ra fl rt)"
| "report_step (LimitReport stamp ref ax l r t src) rt = record_observed_limit stamp ref ax l r t src rt"

fun report_ref :: "report \<Rightarrow> up_ref" where
  "report_ref (HealthReport ck ref h e) = ref"
| "report_ref (FailureReport ck ref f tmp pen ra fl) = ref"
| "report_ref (LimitReport stamp ref ax l r t src) = ref"

text \<open>Everything the router knows of one reference.\<close>

definition ref_view :: "routing \<Rightarrow> up_ref \<Rightarrow>
    runtime_state \<times> time list \<times> time list \<times> (axis, observed_limit) dict" where
  "ref_view rt ref = (state_at rt ref, dict_default [] (rt_hit_windows rt) ref,
     dict_default [] (rt_exhaustion_windows rt) ref, dict_default [] (rt_observed_limits rt) ref)"

lemma put_state_simps [simp]:
  "state_at (put_state ref st rt) r = (if r = ref then st else state_at rt r)"
  "rt_hit_windows (put_state ref st rt) = rt_hit_windows rt"
  "rt_exhaustion_windows (put_state ref st rt) = rt_exhaustion_windows rt"
  "rt_observed_limits (put_state ref st rt) = rt_observed_limits rt"
  by (simp_all add: put_state_def dict_simps)

lemma observed_simps [simp]:
  "rt_states (record_observed_limit stamp ref ax l r t src rt) = rt_states rt"
  "rt_hit_windows (record_observed_limit stamp ref ax l r t src rt) = rt_hit_windows rt"
  "rt_exhaustion_windows (record_observed_limit stamp ref ax l r t src rt) = rt_exhaustion_windows rt"
  by (simp_all add: record_observed_limit_def Let_def split: option.split)

lemma observed_frame:
  "r \<noteq> ref \<Longrightarrow> dict_default [] (rt_observed_limits (record_observed_limit stamp ref ax l rm t src rt)) r =
   dict_default [] (rt_observed_limits rt) r"
  by (simp add: record_observed_limit_def Let_def dict_simps split: option.split)

text \<open>The axis map of a reference after a reading, from the axis map before.\<close>

definition observe_axis :: "string \<Rightarrow> axis \<Rightarrow> int option \<Rightarrow> int option \<Rightarrow> time option \<Rightarrow> limit_source \<Rightarrow>
    (axis, observed_limit) dict \<Rightarrow> (axis, observed_limit) dict" where
  "observe_axis stamp ax limit remaining reset_at source m =
     (case dict_get m ax of
        Some e \<Rightarrow>
          (if source = ErrorBody \<and> (ol_source e = Header \<or>
              (case ol_limit e of None \<Rightarrow> False
               | Some old \<Rightarrow> (case limit of None \<Rightarrow> True | Some new \<Rightarrow> new \<ge> old))) then m
           else dict_set ax \<lparr>ol_limit = limit, ol_remaining = remaining, ol_reset_at = reset_at,
                  ol_source = source, ol_observed_at = stamp\<rparr> m)
      | None \<Rightarrow> dict_set ax \<lparr>ol_limit = limit, ol_remaining = remaining, ol_reset_at = reset_at,
                  ol_source = source, ol_observed_at = stamp\<rparr> m)"

lemma observed_at_ref:
  "dict_default [] (rt_observed_limits (record_observed_limit stamp ref ax l r t src rt)) ref =
   observe_axis stamp ax l r t src (dict_default [] (rt_observed_limits rt) ref)"
  by (auto simp: record_observed_limit_def observe_axis_def Let_def dict_simps split: option.split)

lemma learn_simps [simp]:
  "rt_states (fst (maybe_learn_limit stamp ref f rt)) = rt_states rt"
  "rt_hit_windows (fst (maybe_learn_limit stamp ref f rt)) = rt_hit_windows rt"
  "rt_exhaustion_windows (fst (maybe_learn_limit stamp ref f rt)) = rt_exhaustion_windows rt"
  "snd (maybe_learn_limit stamp ref f rt) = isl (fl_learned_limit f)"
  by (simp_all add: maybe_learn_limit_def split: sum.split option.split prod.split)

definition learn_axis :: "string \<Rightarrow> failure \<Rightarrow> (axis, observed_limit) dict \<Rightarrow> (axis, observed_limit) dict" where
  "learn_axis stamp f m = (case fl_learned_limit f of Inr (Some (ax, n)) \<Rightarrow> observe_axis stamp ax (Some n) None None ErrorBody m
     | _ \<Rightarrow> m)"

lemma learn_observed:
  "dict_default [] (rt_observed_limits (fst (maybe_learn_limit stamp ref f rt))) r =
   (if r = ref then learn_axis stamp f (dict_default [] (rt_observed_limits rt) ref)
    else dict_default [] (rt_observed_limits rt) r)"
  by (auto simp: maybe_learn_limit_def learn_axis_def observed_at_ref observed_frame
      split: sum.split option.split prod.split)

text \<open>Errors whose limit cannot be read.\<close>

definition learning_raises :: "failure \<Rightarrow> bool" where
  "learning_raises f \<longleftrightarrow> fl_rate_limited f \<and> (fl_daily_quota f \<or> \<not> fl_overload f) \<and> isl (fl_learned_limit f)"

text \<open>The ladder as a function of the two windows of the reference.\<close>

definition ladder_windows :: "time \<Rightarrow> rat option \<Rightarrow> time list \<Rightarrow> time list \<Rightarrow> time list \<times> time list \<times> rat" where
  "ladder_windows now retry_floor hs es =
     (let hits = trim_numeric_window now RATE_LIMIT_HIT_WINDOW_SECONDS (hs @ [now]);
          events = trim_numeric_window now RATE_LIMIT_EXHAUSTION_WINDOW_SECONDS (es @ [now])
      in if length hits \<ge> 2
         then (hits, events, max (RATE_LIMIT_ESCALATION_LADDER_SECONDS !
                 min (length events - 1) (length RATE_LIMIT_ESCALATION_LADDER_SECONDS - 1))
                 (positive_floor retry_floor))
         else (hits, es, max RATE_LIMIT_TRANSIENT_COOLDOWN_SECONDS (positive_floor retry_floor)))"

lemma ladder_view:
  assumes "ladder_windows now fl (dict_default [] (rt_hit_windows rt) ref)
      (dict_default [] (rt_exhaustion_windows rt) ref) = (hits, events, c)"
    and "rate_limit_ladder_cooldown ref now fl rt = (rt', c')"
  shows "c' = c" and "rt_states rt' = rt_states rt" and "rt_observed_limits rt' = rt_observed_limits rt"
    and "dict_default [] (rt_hit_windows rt') r = (if r = ref then hits else dict_default [] (rt_hit_windows rt) r)"
    and "dict_default [] (rt_exhaustion_windows rt') r =
           (if r = ref then events else dict_default [] (rt_exhaustion_windows rt) r)"
  using assms
  by (auto simp: ladder_windows_def rate_limit_ladder_cooldown_def Let_def dict_simps split: if_splits)

definition cooldown_view :: "clocks \<Rightarrow> failure \<Rightarrow> retry_arg option \<Rightarrow> rat option \<Rightarrow> runtime_state \<Rightarrow>
    time list \<Rightarrow> time list \<Rightarrow> time list \<times> time list \<times> runtime_state \<times> rat" where
  "cooldown_view ck f retry_after retry_floor st hs es =
     (let daily = fl_rate_limited f \<and> fl_daily_quota f;
          overload = \<not> daily \<and> fl_overload f
      in if daily
         then (hs, es, st, min (daily_quota_cooldown_seconds (ck_wall ck) retry_floor) COOLDOWN_CEILING_SECONDS)
         else if overload
         then (hs, es, st, min (max UPSTREAM_OVERLOAD_COOLDOWN_SECONDS (positive_floor retry_floor))
                 COOLDOWN_CEILING_SECONDS)
         else if fl_rate_limited f
         then (case cooldown_remaining (ck_now ck) st of
                 (st', Some active) \<Rightarrow>
                   (hs, es, st', min (max active (positive_floor retry_floor)) COOLDOWN_CEILING_SECONDS)
               | (st', None) \<Rightarrow>
                   (case ladder_windows (ck_now ck) retry_floor hs es of (hits, events, c) \<Rightarrow>
                      (hits, events, st', min c COOLDOWN_CEILING_SECONDS)))
         else (hs, es, st, legacy_cooldown retry_after))"

lemma temporary_cooldown_view:
  assumes "temporary_cooldown ck ref f ra fl st rt = (rt', st', c)"
    and "cooldown_view ck f ra fl st (dict_default [] (rt_hit_windows rt) ref)
      (dict_default [] (rt_exhaustion_windows rt) ref) = (hits, events, st2, c2)"
  shows "st' = st2" and "c = c2" and "rt_states rt' = rt_states rt"
    and "rt_observed_limits rt' = rt_observed_limits rt"
    and "dict_default [] (rt_hit_windows rt') r = (if r = ref then hits else dict_default [] (rt_hit_windows rt) r)"
    and "dict_default [] (rt_exhaustion_windows rt') r =
           (if r = ref then events else dict_default [] (rt_exhaustion_windows rt) r)"
proof -
  obtain rt3 c3 where r: "rate_limit_ladder_cooldown ref (ck_now ck) fl rt = (rt3, c3)" by fastforce
  obtain h4 e4 c4 where w: "ladder_windows (ck_now ck) fl (dict_default [] (rt_hit_windows rt) ref)
      (dict_default [] (rt_exhaustion_windows rt) ref) = (h4, e4, c4)" by (metis prod_cases3)
  note lv = ladder_view[OF w r]
  obtain st5 a5 where cr: "cooldown_remaining (ck_now ck) st = (st5, a5)" by fastforce
  note defs = temporary_cooldown_def cooldown_view_def Let_def r w cr
  show "st' = st2" "c = c2" "rt_states rt' = rt_states rt" "rt_observed_limits rt' = rt_observed_limits rt"
    using assms lv by (auto simp: defs split: if_splits option.splits)
  show "dict_default [] (rt_hit_windows rt') r = (if r = ref then hits else dict_default [] (rt_hit_windows rt) r)"
    using assms lv by (auto simp: defs split: if_splits option.splits)
  show "dict_default [] (rt_exhaustion_windows rt') r =
      (if r = ref then events else dict_default [] (rt_exhaustion_windows rt) r)"
    using assms lv by (auto simp: defs split: if_splits option.splits)
qed

definition denied :: "failure \<Rightarrow> bool" where
  "denied f = (case fl_status_code f of None \<Rightarrow> False | Some c \<Rightarrow> c \<in> ACCESS_DENIED_STATUS_CODES)"

definition failed_state :: "clocks \<Rightarrow> failure \<Rightarrow> runtime_state \<Rightarrow> runtime_state" where
  "failed_state ck f st = st\<lparr>rs_health_status := (if denied f then ''invalid'' else ''error''),
     rs_last_checked_at := Some (ck_stamp ck),
     rs_last_error := (if fl_present f then Some (take 500 (fl_text f)) else None)\<rparr>"

definition penalised :: "time \<Rightarrow> runtime_state \<Rightarrow> runtime_state" where
  "penalised now st = (let (st', p) = decayed_penalty now st
     in st'\<lparr>rs_penalty_score := min 100 (p + 25), rs_penalty_updated_at := now\<rparr>)"

text \<open>A failure report as a function of what the router knows of the reference.\<close>

definition failure_view :: "clocks \<Rightarrow> failure \<Rightarrow> bool \<Rightarrow> bool \<Rightarrow> retry_arg option \<Rightarrow> rat option \<Rightarrow>
    runtime_state \<times> time list \<times> time list \<times> (axis, observed_limit) dict \<Rightarrow>
    runtime_state \<times> time list \<times> time list \<times> (axis, observed_limit) dict" where
  "failure_view ck f temporary apply_penalty ra fl v =
     (case v of (st, hs, es, m) \<Rightarrow>
        if temporary
        then (case cooldown_view ck f ra fl (failed_state ck f st) hs es of (hits, events, st', c) \<Rightarrow>
               (let st1 = st'\<lparr>rs_cooldown_until := Some (ck_now ck + c)\<rparr>
                in (if apply_penalty then penalised (ck_now ck) st1 else st1, hits, events,
                    if fl_rate_limited f \<and> (fl_daily_quota f \<or> \<not> fl_overload f)
                    then learn_axis (ck_stamp ck) f m else m)))
        else (if denied f
              then (failed_state ck f st)\<lparr>rs_cooldown_until := Some (ck_now ck + DEFAULT_COOLDOWN_SECONDS)\<rparr>
              else failed_state ck f st, hs, es, m))"

lemma failure_ref_view:
  "ref_view (fst (record_failure ck ref f temporary apply_penalty ra fl rt)) r =
   (if r = ref then failure_view ck f temporary (apply_penalty \<and> \<not> learning_raises f) ra fl (ref_view rt ref)
    else ref_view rt r)"
proof (cases temporary)
  case True
  let ?st = "failed_state ck f (state_at rt ref)"
  obtain rt' st' c where tc: "temporary_cooldown ck ref f ra fl ?st rt = (rt', st', c)"
    by (metis prod_cases3)
  obtain hits events st2 c2 where cv: "cooldown_view ck f ra fl ?st
      (dict_default [] (rt_hit_windows rt) ref) (dict_default [] (rt_exhaustion_windows rt) ref) =
      (hits, events, st2, c2)" by (metis prod_cases4)
  note tv = temporary_cooldown_view[OF tc cv]
  obtain rt2 raised where learn: "maybe_learn_limit (ck_stamp ck) ref f rt' = (rt2, raised)" by fastforce
  note ls = learn_simps[of "ck_stamp ck" ref f rt', unfolded learn fst_conv snd_conv]
    learn_observed[of "ck_stamp ck" ref f rt', unfolded learn fst_conv]
  from True tc show ?thesis
    unfolding record_failure_def Let_def denied_def[symmetric] failed_state_def[symmetric]
    by (auto simp: tv ref_view_def failure_view_def cv learn ls learning_raises_def penalised_def split: prod.split)
next
  case False
  then show ?thesis
    unfolding record_failure_def Let_def denied_def[symmetric] failed_state_def[symmetric]
    by (simp add: ref_view_def failure_view_def)
qed

definition health_view :: "clocks \<Rightarrow> string \<Rightarrow> string option \<Rightarrow>
    runtime_state \<times> time list \<times> time list \<times> (axis, observed_limit) dict \<Rightarrow>
    runtime_state \<times> time list \<times> time list \<times> (axis, observed_limit) dict" where
  "health_view ck h e v =
     (case v of (st, hs, es, m) \<Rightarrow>
        (let st1 = st\<lparr>rs_health_status := h, rs_last_checked_at := Some (ck_stamp ck),
               rs_last_error := (case e of None \<Rightarrow> None
                 | Some x \<Rightarrow> if x = [] then None else Some (take 500 x))\<rparr>
         in if h = ''healthy''
            then (st1\<lparr>rs_cooldown_until := None, rs_penalty_score := max 0 (rs_penalty_score st - 10),
                      rs_penalty_updated_at := ck_now ck\<rparr>, [], [], m)
            else (st1, hs, es, m)))"

lemma health_ref_view:
  "ref_view (mark_health ck ref h e rt) r =
   (if r = ref then health_view ck h e (ref_view rt ref) else ref_view rt r)"
  by (simp add: ref_view_def mark_health_def health_view_def Let_def dict_simps)

lemma limit_ref_view:
  "ref_view (record_observed_limit stamp ref ax l rm t src rt) r =
   (if r = ref then (case ref_view rt ref of (st, hs, es, m) \<Rightarrow> (st, hs, es, observe_axis stamp ax l rm t src m))
    else ref_view rt r)"
  by (simp add: ref_view_def observed_frame observed_at_ref)

interpretation report_refs: keyed_machine report_step "\<lambda>x r. report_ref x = r" ref_view
proof
  show "report_ref x \<noteq> r \<Longrightarrow> ref_view (report_step x rt) r = ref_view rt r" for x r rt
    by (cases x) (auto simp: failure_ref_view health_ref_view limit_ref_view)
  show "ref_view rt r = ref_view rt' r \<Longrightarrow> ref_view (report_step x rt) r = ref_view (report_step x rt') r"
    for rt r rt' x
    by (cases x) (auto simp: failure_ref_view health_ref_view limit_ref_view)
qed

section \<open>The ladder over a history of strikes\<close>

text \<open>
  Specification: a strike is a plain 429 on a reference that is not cooling down; the history
  holds the strikes since the last healthy report. A strike within an hour of the previous one
  is an exhaustion event, and the ladder's rung is the number of exhaustion events of the
  preceding 24 hours.
\<close>

fun exhaustion_of :: "time list \<Rightarrow> time list" where
  "exhaustion_of (t # u # ts) =
     (if u - t \<le> RATE_LIMIT_HIT_WINDOW_SECONDS then [u] else []) @ exhaustion_of (u # ts)"
| "exhaustion_of _ = []"

definition rung :: "time \<Rightarrow> time list \<Rightarrow> rat" where
  "rung now hist =
     (if hist \<noteq> [] \<and> now - last hist \<le> RATE_LIMIT_HIT_WINDOW_SECONDS
      then RATE_LIMIT_ESCALATION_LADDER_SECONDS !
        min (length (filter (\<lambda>t. now - RATE_LIMIT_EXHAUSTION_WINDOW_SECONDS \<le> t) (exhaustion_of hist))) 3
      else RATE_LIMIT_TRANSIENT_COOLDOWN_SECONDS)"

lemma exhaustion_of_snoc:
  "exhaustion_of (hs @ [t]) = exhaustion_of hs @
     (if hs \<noteq> [] \<and> t - last hs \<le> RATE_LIMIT_HIT_WINDOW_SECONDS then [t] else [])"
  by (induction hs rule: exhaustion_of.induct) auto

lemma exhaustion_of_subset: "set (exhaustion_of hs) \<subseteq> set hs"
  by (induction hs rule: exhaustion_of.induct) auto

text \<open>The windows agree with the history wherever they will still be read.\<close>

definition tracks :: "time list \<Rightarrow> time list \<Rightarrow> time list \<Rightarrow> bool" where
  "tracks hist hs es \<longleftrightarrow> sorted hist \<and> sorted hs \<and> sorted es \<and>
     (if hist = [] then hs = [] \<and> es = []
      else set hs \<subseteq> {..last hist} \<and> set es \<subseteq> {..last hist} \<and>
        (\<forall>c. last hist - RATE_LIMIT_HIT_WINDOW_SECONDS \<le> c \<longrightarrow>
          filter (\<lambda>t. c \<le> t) hs = filter (\<lambda>t. c \<le> t) hist) \<and>
        (\<forall>c. last hist - RATE_LIMIT_EXHAUSTION_WINDOW_SECONDS \<le> c \<longrightarrow>
          filter (\<lambda>t. c \<le> t) es = filter (\<lambda>t. c \<le> t) (exhaustion_of hist)))"

lemma tracks_Nil [simp]: "tracks [] [] []"
  by (simp add: tracks_def)

lemma sorted_le_last: "sorted (hs :: time list) \<Longrightarrow> t \<in> set hs \<Longrightarrow> t \<le> last hs"
  by (induction hs rule: rev_induct) (auto simp: sorted_append)

lemma recent_iff_last:
  "sorted (hs :: time list) \<Longrightarrow> filter (\<lambda>t. c \<le> t) hs \<noteq> [] \<longleftrightarrow> hs \<noteq> [] \<and> c \<le> last hs"
  by (auto simp: filter_empty_conv dest: sorted_le_last order_trans intro: last_in_set)

lemma tracks_hits:
  assumes "tracks hist hs es" and "hist \<noteq> [] \<longrightarrow> last hist \<le> now"
  shows "trim_numeric_window now RATE_LIMIT_HIT_WINDOW_SECONDS (hs @ [now]) =
           filter (\<lambda>t. now - RATE_LIMIT_HIT_WINDOW_SECONDS \<le> t) hist @ [now]"
    and "trim_numeric_window now RATE_LIMIT_EXHAUSTION_WINDOW_SECONDS (es @ [now]) =
           filter (\<lambda>t. now - RATE_LIMIT_EXHAUSTION_WINDOW_SECONDS \<le> t) (exhaustion_of hist) @ [now]"
proof -
  have "\<forall>t\<in>set hs. t \<le> now" "\<forall>t\<in>set es. t \<le> now"
    using assms by (force simp: tracks_def split: if_splits)+
  then have "sorted (map (\<lambda>t. t) (hs @ [now]))" "sorted (map (\<lambda>t. t) (es @ [now]))"
    using assms(1) by (simp_all add: tracks_def sorted_append)
  then have "trim_times c (hs @ [now]) = filter (\<lambda>t. c \<le> t) (hs @ [now])"
    "trim_times c (es @ [now]) = filter (\<lambda>t. c \<le> t) (es @ [now])" for c
    by (simp_all add: time_window.trim_filter)
  with assms show
    "trim_numeric_window now RATE_LIMIT_HIT_WINDOW_SECONDS (hs @ [now]) =
       filter (\<lambda>t. now - RATE_LIMIT_HIT_WINDOW_SECONDS \<le> t) hist @ [now]"
    "trim_numeric_window now RATE_LIMIT_EXHAUSTION_WINDOW_SECONDS (es @ [now]) =
       filter (\<lambda>t. now - RATE_LIMIT_EXHAUSTION_WINDOW_SECONDS \<le> t) (exhaustion_of hist) @ [now]"
    by (auto simp: trim_numeric_window_def tracks_def RATE_LIMIT_HIT_WINDOW_SECONDS_def
        RATE_LIMIT_EXHAUSTION_WINDOW_SECONDS_def split: if_splits)
qed

lemma tracks_strike:
  assumes tr: "tracks hist hs es" and now: "hist \<noteq> [] \<longrightarrow> last hist \<le> now"
    and lw: "ladder_windows now fl hs es = (hits, events, c)"
  shows "c = max (rung now hist) (positive_floor fl)" and "tracks (hist @ [now]) hits events"
proof -
  let ?H = "RATE_LIMIT_HIT_WINDOW_SECONDS" and ?E = "RATE_LIMIT_EXHAUSTION_WINDOW_SECONDS"
  note th = tracks_hits[OF tr now]
  have srt: "sorted hist" using tr by (simp add: tracks_def)
  have two: "2 \<le> length (filter (\<lambda>t. now - ?H \<le> t) hist @ [now]) \<longleftrightarrow>
      hist \<noteq> [] \<and> now - last hist \<le> ?H"
    using recent_iff_last[OF srt, of "now - ?H"]
    by (cases "filter (\<lambda>t. now - ?H \<le> t) hist") (auto simp: algebra_simps)
  have hits: "hits = filter (\<lambda>t. now - ?H \<le> t) hist @ [now]"
    using lw th by (auto simp: ladder_windows_def Let_def split: if_splits)
  show "c = max (rung now hist) (positive_floor fl)"
    using lw th two
    by (auto simp: ladder_windows_def Let_def rung_def RATE_LIMIT_ESCALATION_LADDER_SECONDS_def
        numeral_3_eq_3 split: if_splits)
  have le: "\<forall>t\<in>set hist. t \<le> now" using now srt by (auto dest: sorted_le_last)
  have ex: "\<forall>t\<in>set (exhaustion_of hist). t \<le> now" using le exhaustion_of_subset[of hist] by blast
  have hs_ok: "filter (\<lambda>t. k \<le> t) hits = filter (\<lambda>t. k \<le> t) (hist @ [now])" if "now - ?H \<le> k" for k
    using that by (auto simp: hits intro!: filter_cong)
  have sh: "sorted hits" using srt le by (simp add: hits sorted_append sorted_filter[where f = "\<lambda>t. t", simplified])
  have es: "events = (if hist \<noteq> [] \<and> now - last hist \<le> ?H
      then filter (\<lambda>t. now - ?E \<le> t) (exhaustion_of hist) @ [now] else es)"
    using lw th two by (auto simp: ladder_windows_def Let_def split: if_splits)
  have es_ok: "filter (\<lambda>t. k \<le> t) events = filter (\<lambda>t. k \<le> t) (exhaustion_of (hist @ [now]))"
    if "now - ?E \<le> k" for k
  proof (cases "hist \<noteq> [] \<and> now - last hist \<le> ?H")
    case True
    have "filter (\<lambda>t. k \<le> t) (filter (\<lambda>t. now - ?E \<le> t) (exhaustion_of hist)) =
        filter (\<lambda>t. k \<le> t) (exhaustion_of hist)"
      using that by (auto intro!: filter_cong)
    with True show ?thesis by (auto simp: es exhaustion_of_snoc)
  next
    case False
    have "filter (\<lambda>t. k \<le> t) es = filter (\<lambda>t. k \<le> t) (exhaustion_of hist)"
      using tr now that by (auto simp: tracks_def split: if_splits)
    with False show ?thesis by (auto simp: es exhaustion_of_snoc)
  qed
  have ses: "sorted (exhaustion_of hist)" using srt
    by (induction hist rule: exhaustion_of.induct) (use exhaustion_of_subset in \<open>auto, fastforce\<close>)
  have "sorted events" "set events \<subseteq> {..now}"
    using tr now ses ex
    by (auto simp: es sorted_append tracks_def sorted_filter[where f = "\<lambda>t. t", simplified] split: if_splits)
  with srt le sh hs_ok es_ok show "tracks (hist @ [now]) hits events"
    by (auto simp: tracks_def sorted_append hits)
qed

fun plain_strike :: "up_ref \<Rightarrow> report \<Rightarrow> routing \<Rightarrow> bool" where
  "plain_strike ref (FailureReport ck r f tmp pen ra fl) rt \<longleftrightarrow>
     r = ref \<and> tmp \<and> fl_rate_limited f \<and> \<not> fl_daily_quota f \<and> \<not> fl_overload f \<and>
     snd (cooldown_remaining (ck_now ck) (state_at rt ref)) = None"
| "plain_strike ref _ rt \<longleftrightarrow> False"

fun report_time :: "report \<Rightarrow> time option" where
  "report_time (FailureReport ck r f tmp pen ra fl) = Some (ck_now ck)"
| "report_time _ = None"

fun heals :: "up_ref \<Rightarrow> report \<Rightarrow> bool" where
  "heals ref (HealthReport ck r h e) \<longleftrightarrow> r = ref \<and> h = ''healthy''"
| "heals ref _ \<longleftrightarrow> False"

text \<open>The run of reports with the history of strikes on \<open>ref\<close> beside it.\<close>

definition strike_step :: "up_ref \<Rightarrow> report \<Rightarrow> routing \<times> time list \<Rightarrow> routing \<times> time list" where
  "strike_step ref x p = (case p of (rt, hist) \<Rightarrow>
     (report_step x rt,
      if heals ref x then []
      else if plain_strike ref x rt then hist @ (case report_time x of None \<Rightarrow> [] | Some t \<Rightarrow> [t])
      else hist))"

fun ordered_reports :: "time \<Rightarrow> report list \<Rightarrow> bool" where
  "ordered_reports t [] = True"
| "ordered_reports t (x # xs) =
     (case report_time x of None \<Rightarrow> ordered_reports t xs
      | Some t' \<Rightarrow> t \<le> t' \<and> ordered_reports t' xs)"

definition tracked :: "up_ref \<Rightarrow> time \<Rightarrow> routing \<times> time list \<Rightarrow> bool" where
  "tracked ref t p = (case p of (rt, hist) \<Rightarrow>
     (case ref_view rt ref of (st, hs, es, m) \<Rightarrow> tracks hist hs es) \<and> (hist \<noteq> [] \<longrightarrow> last hist \<le> t))"

lemma cooldown_remaining_cases:
  "cooldown_remaining now st = (st', r) \<Longrightarrow>
   (\<exists>t. rs_cooldown_until st = Some t \<and> now < t \<and> r = Some (t - now) \<and> st' = st) \<or>
   ((rs_cooldown_until st = None \<or> (\<exists>t. rs_cooldown_until st = Some t \<and> t \<le> now)) \<and> r = None \<and>
     st' = st\<lparr>rs_cooldown_until := None\<rparr>)"
  by (auto simp: cooldown_remaining_def split: option.splits if_splits)

lemma failed_state_cooldown [simp]:
  "rs_cooldown_until (failed_state ck f st) = rs_cooldown_until st"
  "rs_penalty_score (failed_state ck f st) = rs_penalty_score st"
  "rs_penalty_updated_at (failed_state ck f st) = rs_penalty_updated_at st"
  by (simp_all add: failed_state_def)

lemma cooldown_remaining_snd: "rs_cooldown_until st = rs_cooldown_until st2 \<Longrightarrow>
    snd (cooldown_remaining now st) = snd (cooldown_remaining now st2)"
  by (simp add: cooldown_remaining_def split: option.split)

text \<open>Only a strike moves the windows of a failure report.\<close>

lemma no_strike_windows:
  assumes "\<not> plain_strike ref (FailureReport ck ref f tmp pen ra fl) rt"
    and "ref_view rt ref = (st, hs, es, m)"
  shows "\<exists>st' m'. failure_view ck f tmp pen' ra fl (st, hs, es, m) = (st', hs, es, m')"
proof -
  have st: "st = state_at rt ref" using assms(2) by (simp add: ref_view_def)
  obtain st1 r where cr: "cooldown_remaining (ck_now ck) (failed_state ck f st) = (st1, r)" by fastforce
  have "snd (cooldown_remaining (ck_now ck) st) = r"
    using cr cooldown_remaining_snd[of st "failed_state ck f st"] by simp
  with assms(1) st cr show ?thesis
    by (auto simp: failure_view_def cooldown_view_def Let_def split: option.splits)
qed

lemma strike_windows:
  assumes "plain_strike ref (FailureReport ck ref f tmp pen ra fl) rt"
    and "ref_view rt ref = (st, hs, es, m)"
    and "ladder_windows (ck_now ck) fl hs es = (hits, events, c)"
  shows "\<exists>st' m'. failure_view ck f tmp pen' ra fl (st, hs, es, m) = (st', hits, events, m') \<and>
           rs_cooldown_until st' = Some (ck_now ck + min c COOLDOWN_CEILING_SECONDS)"
proof -
  have st: "st = state_at rt ref" using assms(2) by (simp add: ref_view_def)
  obtain st1 r where cr: "cooldown_remaining (ck_now ck) (failed_state ck f st) = (st1, r)" by fastforce
  have "snd (cooldown_remaining (ck_now ck) st) = r"
    using cr cooldown_remaining_snd[of st "failed_state ck f st"] by simp
  with assms st cr show ?thesis
    by (auto simp: failure_view_def cooldown_view_def Let_def penalised_def decayed_penalty_def)
qed

lemma tracked_step:
  assumes "tracked ref t p" and "ordered_reports t [x]"
  shows "tracked ref (case report_time x of None \<Rightarrow> t | Some t' \<Rightarrow> t') (strike_step ref x p)"
proof -
  obtain rt hist where p: "p = (rt, hist)" by fastforce
  obtain st hs es m where v: "ref_view rt ref = (st, hs, es, m)" by (metis prod_cases4)
  have tr: "tracks hist hs es" and t: "hist \<noteq> [] \<longrightarrow> last hist \<le> t"
    using assms(1) p v by (auto simp: tracked_def)
  show ?thesis
  proof (cases x)
    case (HealthReport ck r h e)
    with p v tr t show ?thesis
      by (auto simp: tracked_def strike_step_def health_ref_view health_view_def Let_def)
  next
    case (LimitReport stamp r ax l rm rs src)
    with p v tr t show ?thesis
      by (auto simp: tracked_def strike_step_def limit_ref_view)
  next
    case (FailureReport ck r f tmp pen ra fl)
    have now: "hist \<noteq> [] \<longrightarrow> last hist \<le> ck_now ck" using t assms(2) FailureReport by auto
    show ?thesis
    proof (cases "plain_strike ref x rt")
      case True
      with FailureReport have r: "r = ref" by simp
      obtain hits events c where lw: "ladder_windows (ck_now ck) fl hs es = (hits, events, c)"
        by (metis prod_cases3)
      have "plain_strike ref (FailureReport ck ref f tmp pen ra fl) rt" using True FailureReport r by simp
      from strike_windows[OF this v lw, of "pen \<and> \<not> learning_raises f"] tracks_strike(2)[OF tr now lw] FailureReport r p v True
      show ?thesis by (auto simp: tracked_def strike_step_def failure_ref_view)
    next
      case False
      show ?thesis
      proof (cases "r = ref")
        case True
        with False FailureReport have "\<not> plain_strike ref (FailureReport ck ref f tmp pen ra fl) rt" by simp
        from no_strike_windows[OF this v, of "pen \<and> \<not> learning_raises f"] FailureReport True p v tr now False
        show ?thesis by (auto simp: tracked_def strike_step_def failure_ref_view)
      next
        case other: False
        with False FailureReport p v tr now show ?thesis
          by (auto simp: tracked_def strike_step_def failure_ref_view)
      qed
    qed
  qed
qed

lemma ordered_snoc:
  "ordered_reports t (xs @ ys) \<Longrightarrow> \<exists>t'. (\<forall>ref p. tracked ref t p \<longrightarrow> tracked ref t' (fold (strike_step ref) xs p)) \<and>
     ordered_reports t' ys"
proof (induction xs arbitrary: t)
  case Nil
  then show ?case by auto
next
  case (Cons x xs)
  let ?t = "case report_time x of None \<Rightarrow> t | Some t' \<Rightarrow> t'"
  have one: "ordered_reports t [x]" and rest: "ordered_reports ?t (xs @ ys)"
    using Cons.prems by (auto split: option.splits)
  from Cons.IH[OF rest] obtain t' where
    t': "\<And>ref p. tracked ref ?t p \<Longrightarrow> tracked ref t' (fold (strike_step ref) xs p)" "ordered_reports t' ys"
    by blast
  have "tracked ref t p \<Longrightarrow> tracked ref t' (fold (strike_step ref) (x # xs) p)" for ref p
    using t'(1)[OF tracked_step[OF _ one]] by simp
  with t'(2) show ?case by blast
qed

lemma tracked_new: "tracked ref t (new_routing, [])"
  by (simp add: tracked_def ref_view_def tracks_def new_routing_def dict_default_def)

section \<open>Penalties\<close>

definition penalties_ok :: "routing \<Rightarrow> bool" where
  "penalties_ok rt \<longleftrightarrow> (\<forall>ref. 0 \<le> rs_penalty_score (state_at rt ref) \<and> rs_penalty_score (state_at rt ref) \<le> 100)"

lemma penalties_okD:
  "penalties_ok rt \<Longrightarrow> 0 \<le> rs_penalty_score (state_at rt r)"
  "penalties_ok rt \<Longrightarrow> rs_penalty_score (state_at rt r) \<le> 100"
  unfolding penalties_ok_def by blast+

lemma penalties_okI:
  "(\<And>r. 0 \<le> rs_penalty_score (state_at rt r) \<and> rs_penalty_score (state_at rt r) \<le> 100) \<Longrightarrow> penalties_ok rt"
  unfolding penalties_ok_def by blast

lemma decayed_penalty_bounds:
  "0 \<le> rs_penalty_score st \<Longrightarrow> decayed_penalty now st = (st', p) \<Longrightarrow>
   0 \<le> p \<and> p \<le> rs_penalty_score st \<and> 0 \<le> rs_penalty_score st' \<and> rs_penalty_score st' \<le> rs_penalty_score st"
  by (auto simp: decayed_penalty_def Let_def PENALTY_DECAY_SECONDS_def max_def split: if_splits)

lemma cooldown_view_penalty:
  "cooldown_view ck f ra fl st hs es = (hits, events, st', c) \<Longrightarrow>
   rs_penalty_score st' = rs_penalty_score st \<and> rs_penalty_updated_at st' = rs_penalty_updated_at st"
  by (auto simp: cooldown_view_def cooldown_remaining_def Let_def split: if_splits option.splits prod.splits)

lemma state_at_view: "state_at rt ref = fst (ref_view rt ref)"
  by (simp add: ref_view_def)

lemma failure_state:
  "state_at (fst (record_failure ck ref f tmp pen ra fl rt)) r =
   (if r = ref then fst (failure_view ck f tmp (pen \<and> \<not> learning_raises f) ra fl (ref_view rt ref)) else state_at rt r)"
  by (simp add: state_at_view failure_ref_view)

lemma failure_penalty:
  "rs_penalty_score (fst (failure_view ck f tmp pen ra fl (st, hs, es, m))) =
     (if tmp \<and> pen then min 100 (snd (decayed_penalty (ck_now ck) st) + 25) else rs_penalty_score st)"
proof -
  obtain hits events st' c where cv:
    "cooldown_view ck f ra fl (failed_state ck f st) hs es = (hits, events, st', c)"
    by (metis prod_cases4)
  from cooldown_view_penalty[OF cv] show ?thesis
    by (auto simp: failure_view_def cv Let_def penalised_def decayed_penalty_def split: prod.splits)
qed

interpretation penalty_run: step_machine report_step penalties_ok
proof
  fix rt x
  assume ok: "penalties_ok rt"
  have failure_case: "0 \<le> rs_penalty_score st \<Longrightarrow> rs_penalty_score st \<le> 100 \<Longrightarrow>
      0 \<le> rs_penalty_score (fst (failure_view ck f tmp pen ra fl (st, hs, es, m))) \<and>
      rs_penalty_score (fst (failure_view ck f tmp pen ra fl (st, hs, es, m))) \<le> 100"
    for ck f tmp pen ra fl st hs es m
  proof -
    assume st: "0 \<le> rs_penalty_score st" "rs_penalty_score st \<le> 100"
    obtain st' q where "decayed_penalty (ck_now ck) st = (st', q)" by fastforce
    with decayed_penalty_bounds[OF st(1) this] st show ?thesis by (simp add: failure_penalty)
  qed
  note okD = penalties_okD[OF ok]
  show "penalties_ok (report_step x rt)"
  proof (rule penalties_okI, cases x)
    fix ref
    let ?s = "rs_penalty_score (state_at (report_step x rt) ref)"
    {
      case (HealthReport ck r h e)
      with okD[of r] okD[of ref] show "0 \<le> ?s \<and> ?s \<le> 100"
        by (auto simp: mark_health_def Let_def dict_simps put_state_def)
    next
      case (FailureReport ck r f tmp pen ra fl)
      obtain st hs es m where v: "ref_view rt r = (st, hs, es, m)" by (metis prod_cases4)
      then have st: "st = state_at rt r" by (simp add: ref_view_def)
      with okD[of r] okD[of ref] FailureReport v failure_case[of st ck f tmp "pen \<and> \<not> learning_raises f" ra fl hs es m]
      show "0 \<le> ?s \<and> ?s \<le> 100" by (simp add: failure_state)
    next
      case (LimitReport stamp r ax l rm rs src)
      with okD[of ref] show "0 \<le> ?s \<and> ?s \<le> 100" by simp
    }
  qed
qed

lemma penalties_ok_new: "penalties_ok new_routing"
  by (simp add: penalties_ok_def new_routing_def dict_default_def new_runtime_state_def)

section \<open>Error bodies and observed limits\<close>

fun header_report :: "report \<Rightarrow> bool" where
  "header_report (LimitReport stamp ref ax l r t src) = (src = Header)"
| "header_report _ = False"

definition tighter :: "observed_limit option \<Rightarrow> observed_limit option \<Rightarrow> bool" where
  "tighter a b \<longleftrightarrow> (case a of None \<Rightarrow> True | Some e \<Rightarrow>
     if ol_source e = Header then b = a
     else (case ol_limit e of None \<Rightarrow> True
           | Some n \<Rightarrow> (\<exists>e' n'. b = Some e' \<and> ol_source e' = ErrorBody \<and> ol_limit e' = Some n' \<and> n' \<le> n)))"

lemma not_header [simp]: "s \<noteq> Header \<longleftrightarrow> s = ErrorBody"
  by (cases s) simp_all

lemma tighter_refl: "tighter a a"
  by (auto simp: tighter_def split: option.split)

lemma tighter_trans: "tighter a b \<Longrightarrow> tighter b c \<Longrightarrow> tighter a c"
  by (fastforce simp: tighter_def split: option.splits if_splits)

lemma observe_error_tighter:
  "tighter (dict_get m a) (dict_get (observe_axis stamp ax l r t ErrorBody m) a)"
  by (cases "a = ax")
    (auto simp: observe_axis_def tighter_def dict_get_set tighter_refl split: option.splits)

lemma learn_tighter: "tighter (dict_get m a) (dict_get (learn_axis stamp f m) a)"
  by (auto simp: learn_axis_def tighter_refl observe_error_tighter split: option.split sum.split)

lemma failure_observed:
  "tighter (dict_get (snd (snd (snd v))) a) (dict_get (snd (snd (snd (failure_view ck f tmp pen ra fl v)))) a)"
  by (cases v) (simp add: failure_view_def tighter_refl learn_tighter Let_def split: prod.split)

abbreviation observed_at :: "routing \<Rightarrow> up_ref \<Rightarrow> axis \<Rightarrow> observed_limit option" where
  "observed_at rt ref ax \<equiv> dict_get (dict_default [] (rt_observed_limits rt) ref) ax"

lemma observed_step: "\<not> header_report x \<Longrightarrow> tighter (observed_at rt ref ax) (observed_at (report_step x rt) ref ax)"
proof (cases x)
  case (FailureReport ck r f tmp pen ra fl)
  have "snd (snd (snd (ref_view (report_step x rt) ref))) =
      (if ref = r then snd (snd (snd (failure_view ck f tmp (pen \<and> \<not> learning_raises f) ra fl (ref_view rt r))))
       else snd (snd (snd (ref_view rt ref))))"
    using FailureReport by (simp add: failure_ref_view)
  with failure_observed[of "ref_view rt r" ax]
  have "tighter (dict_get (snd (snd (snd (ref_view rt ref)))) ax)
      (dict_get (snd (snd (snd (ref_view (report_step x rt) ref)))) ax)"
    by (simp add: tighter_refl)
  then show ?thesis by (simp add: ref_view_def)
next
  case (HealthReport ck r h e)
  then show ?thesis by (simp add: mark_health_def Let_def tighter_refl)
next
  case (LimitReport stamp r ax' l rm rs src)
  assume "\<not> header_report x"
  with LimitReport have "src = ErrorBody" by (cases src) simp_all
  with LimitReport observe_error_tighter show ?thesis
    by (cases "r = ref") (simp_all add: observed_at_ref observed_frame tighter_refl)
qed

lemma observed_run:
  "\<forall>x\<in>set xs. \<not> header_report x \<Longrightarrow> tighter (observed_at rt ref ax) (observed_at (fold report_step xs rt) ref ax)"
proof (induction xs arbitrary: rt)
  case Nil
  then show ?case by (simp add: tighter_refl)
next
  case (Cons x xs)
  then show ?case
    using tighter_trans[OF observed_step[of x rt ref ax] Cons.IH[of "report_step x rt"]] by simp
qed

section \<open>Cooldown lengths of the classified failures\<close>

lemma positive_floor_nonneg: "0 \<le> positive_floor fl"
  by (simp add: positive_floor_def split: option.split)

lemma midnight_positive: "60 \<le> seconds_until_next_utc_midnight w"
  by (simp add: seconds_until_next_utc_midnight_def Let_def DAILY_QUOTA_MIN_COOLDOWN_SECONDS_def)

lemma ladder_at_least: "ladder_windows now fl hs es = (hits, events, c) \<Longrightarrow> 90 \<le> c \<and> positive_floor fl \<le> c"
proof -
  have "90 \<le> RATE_LIMIT_ESCALATION_LADDER_SECONDS ! min n 3" for n :: nat
  proof -
    have "min n 3 = 0 \<or> min n 3 = 1 \<or> min n 3 = 2 \<or> min n 3 = 3" by arith
    then show ?thesis by (auto simp: RATE_LIMIT_ESCALATION_LADDER_SECONDS_def)
  qed
  moreover have "length RATE_LIMIT_ESCALATION_LADDER_SECONDS - 1 = 3"
    by (simp add: RATE_LIMIT_ESCALATION_LADDER_SECONDS_def)
  ultimately show "ladder_windows now fl hs es = (hits, events, c) \<Longrightarrow> ?thesis"
    by (auto simp: ladder_windows_def Let_def RATE_LIMIT_TRANSIENT_COOLDOWN_SECONDS_def le_max_iff_disj
        split: if_splits)
qed

text \<open>The cooldown after a classified temporary failure.\<close>

lemma classified_cooldown:
  assumes "fl_rate_limited f \<or> fl_overload f"
    and "cooldown_view ck f ra fl st hs es = (hits, events, st', c)"
  shows "0 < c" and "c \<le> COOLDOWN_CEILING_SECONDS"
    and "min (positive_floor fl) COOLDOWN_CEILING_SECONDS \<le> c"
proof -
  obtain h e d where lw: "ladder_windows (ck_now ck) fl hs es = (h, e, d)" by (metis prod_cases3)
  note la = ladder_at_least[OF lw]
  obtain s r where cr: "cooldown_remaining (ck_now ck) st = (s, r)" by fastforce
  note cc = cooldown_remaining_cases[OF cr]
  have daily: "0 < daily_quota_cooldown_seconds (ck_wall ck) fl"
    "positive_floor fl \<le> daily_quota_cooldown_seconds (ck_wall ck) fl"
    using midnight_positive[of "ck_wall ck"]
    by (auto simp: daily_quota_cooldown_seconds_def positive_floor_def split: option.split)
  show "0 < c" "c \<le> COOLDOWN_CEILING_SECONDS" "min (positive_floor fl) COOLDOWN_CEILING_SECONDS \<le> c"
    using assms la cc daily positive_floor_nonneg[of fl]
    by (auto simp: cooldown_view_def Let_def cr lw COOLDOWN_CEILING_SECONDS_def
        UPSTREAM_OVERLOAD_COOLDOWN_SECONDS_def min_def max_def split: if_splits option.splits)
qed

lemma penalised_cooldown [simp]: "rs_cooldown_until (penalised now st) = rs_cooldown_until st"
  by (simp add: penalised_def decayed_penalty_def Let_def)

lemma failure_cooldown:
  assumes "cooldown_view ck f ra fl (failed_state ck f st) hs es = (hits, events, st', c)"
  shows "rs_cooldown_until (fst (failure_view ck f True pen ra fl (st, hs, es, m))) = Some (ck_now ck + c)"
  by (simp add: failure_view_def assms Let_def)

section \<open>Properties\<close>

text \<open>C30: The rate-limit ladder follows the history of strikes. After any run of reports whose
  failures come in clock order, a further plain 429 on a reference that is not cooling down sets
  its cooldown to the rung the specification reads off the strikes since the last healthy
  report: 90 s when the previous strike is more than an hour old, otherwise 120 s, 600 s, 3600 s
  or 86400 s by the number of exhaustion events of the last 24 hours; a larger retry floor wins,
  up to the ceiling. Reports on other references, failures of other kinds and a 429 during the
  cooldown do not climb.\<close>

theorem ladder_follows_strikes:
  assumes "ordered_reports t (xs @ [FailureReport ck ref f True pen ra fl])"
    and "fold (strike_step ref) xs (new_routing, []) = (rt, hist)"
    and "plain_strike ref (FailureReport ck ref f True pen ra fl) rt"
  shows "rs_cooldown_until (state_at (fst (record_failure ck ref f True pen ra fl rt)) ref) =
           Some (ck_now ck + min (max (rung (ck_now ck) hist) (positive_floor fl)) COOLDOWN_CEILING_SECONDS)"
proof -
  obtain st hs es m where v: "ref_view rt ref = (st, hs, es, m)" by (metis prod_cases4)
  from ordered_snoc[OF assms(1)] obtain t' where
    run: "\<forall>ref p. tracked ref t p \<longrightarrow> tracked ref t' (fold (strike_step ref) xs p)"
    and "ordered_reports t' [FailureReport ck ref f True pen ra fl]" by blast
  then have "t' \<le> ck_now ck" by simp
  moreover have "tracked ref t' (rt, hist)"
    using run[rule_format, of ref "(new_routing, [])"] tracked_new assms(2) by simp
  ultimately have tr: "tracks hist hs es" and now: "hist \<noteq> [] \<longrightarrow> last hist \<le> ck_now ck"
    using v by (auto simp: tracked_def)
  obtain hits events c where lw: "ladder_windows (ck_now ck) fl hs es = (hits, events, c)"
    by (metis prod_cases3)
  from strike_windows[OF assms(3) v lw, of "pen \<and> \<not> learning_raises f"] tracks_strike(1)[OF tr now lw] v
  show ?thesis by (auto simp: failure_state)
qed

text \<open>Cooldowns of classified failures are bounded and honour the upstream. A temporary failure
  classified as rate limit (daily quota or not) or overload cools its reference down for a
  positive time of at most 24 hours and at least the upstream's retry floor (cut at 24 hours),
  so the reference is refused now; and when a plain 429 hits a reference whose cooldown (of at
  most 24 hours) is still running, that cooldown is not shortened.\<close>

theorem cooldown_bounds:
  assumes "fl_rate_limited f \<or> fl_overload f"
  shows "\<exists>c. rs_cooldown_until (state_at (fst (record_failure ck ref f True pen ra fl rt)) ref) =
               Some (ck_now ck + c) \<and> 0 < c \<and> c \<le> COOLDOWN_CEILING_SECONDS \<and>
             min (positive_floor fl) COOLDOWN_CEILING_SECONDS \<le> c \<and>
             (\<forall>u. rs_cooldown_until (state_at rt ref) = Some u \<and> u \<le> ck_now ck + COOLDOWN_CEILING_SECONDS \<and>
                fl_rate_limited f \<and> \<not> fl_daily_quota f \<and> \<not> fl_overload f \<longrightarrow> u \<le> ck_now ck + c)"
proof -
  obtain st hs es m where v: "ref_view rt ref = (st, hs, es, m)" by (metis prod_cases4)
  then have st: "st = state_at rt ref" by (simp add: ref_view_def)
  obtain hits events st' c where cv:
    "cooldown_view ck f ra fl (failed_state ck f st) hs es = (hits, events, st', c)" by (metis prod_cases4)
  obtain s r where cr: "cooldown_remaining (ck_now ck) (failed_state ck f st) = (s, r)" by fastforce
  have keep: "u \<le> ck_now ck + c" if "rs_cooldown_until st = Some u" "u \<le> ck_now ck + COOLDOWN_CEILING_SECONDS"
    "fl_rate_limited f" "\<not> fl_daily_quota f" "\<not> fl_overload f" for u
    using cv that cooldown_remaining_cases[OF cr] classified_cooldown(1)[OF assms cv]
    by (auto simp: cooldown_view_def Let_def cr split: prod.splits)
  from classified_cooldown[OF assms cv] failure_cooldown[OF cv, of "pen \<and> \<not> learning_raises f" m] v keep st
  show ?thesis by (intro exI[of _ c]) (simp add: failure_state)
qed

text \<open>Penalty scores stay between 0 and 100 in every reachable state, whatever is reported.\<close>

theorem penalty_bounded:
  "0 \<le> rs_penalty_score (state_at (fold report_step xs new_routing) ref) \<and>
   rs_penalty_score (state_at (fold report_step xs new_routing) ref) \<le> 100"
  using penalties_okD[OF penalty_run.run_invar[OF penalties_ok_new]] by blast

text \<open>A penalised failure costs 25 points of effective penalty, counted from what the old
  penalty has decayed to, and never more than 100 in all.\<close>

theorem failure_adds_penalty:
  assumes "\<not> learning_raises f"
  shows "snd (decayed_penalty (ck_now ck) (state_at (fst (record_failure ck ref f True True ra fl rt)) ref)) =
           min 100 (snd (decayed_penalty (ck_now ck) (state_at rt ref)) + 25)"
proof -
  obtain st hs es m where v: "ref_view rt ref = (st, hs, es, m)" by (metis prod_cases4)
  then have st: "st = state_at rt ref" by (simp add: ref_view_def)
  obtain hits events st' c where cv:
    "cooldown_view ck f ra fl (failed_state ck f st) hs es = (hits, events, st', c)" by (metis prod_cases4)
  have nonneg: "0 \<le> snd (decayed_penalty (ck_now ck) st)"
    by (simp add: decayed_penalty_def Let_def)
  have "rs_penalty_score (fst (failure_view ck f True True ra fl (st, hs, es, m))) =
      min 100 (snd (decayed_penalty (ck_now ck) st) + 25)" by (simp add: failure_penalty)
  moreover have "rs_penalty_updated_at (fst (failure_view ck f True True ra fl (st, hs, es, m))) = ck_now ck"
    by (simp add: failure_view_def cv Let_def penalised_def split: prod.split)
  ultimately show ?thesis
    using nonneg v st assms by (simp add: failure_state decayed_penalty_def[of "ck_now ck" "fst _"])
qed

text \<open>When the limit of a 429 cannot be read, the report raises and the penalty is not added.\<close>

theorem unread_limit_skips_penalty:
  assumes "learning_raises f"
  shows "snd (record_failure ck ref f True pen ra fl rt) = Inl () \<and>
    rs_penalty_score (state_at (fst (record_failure ck ref f True pen ra fl rt)) ref) = rs_penalty_score (state_at rt ref)"
proof -
  obtain st hs es m where v: "ref_view rt ref = (st, hs, es, m)" by (metis prod_cases4)
  then have st: "st = state_at rt ref" by (simp add: ref_view_def)
  have "snd (record_failure ck ref f True pen ra fl rt) = Inl ()"
    using assms by (auto simp: record_failure_def learning_raises_def maybe_learn_limit_def Let_def isl_def
        split: prod.split)
  with v st assms show ?thesis by (simp add: failure_state failure_penalty)
qed

text \<open>A success can raise the effective penalty. \<open>mark_health\<close> takes its 10 points off the stored
  score, not off what the score has decayed to, and restarts the decay: a score above 10 that
  had decayed to nothing is back at the score less 10 after a success.\<close>

theorem success_revives_penalty:
  assumes "10 < rs_penalty_score (state_at rt ref)"
    and "rs_penalty_updated_at (state_at rt ref) + rs_penalty_score (state_at rt ref) * 12 \<le> ck_now ck"
  shows "snd (decayed_penalty (ck_now ck) (state_at rt ref)) = 0 \<and>
         snd (decayed_penalty (ck_now ck) (state_at (record_success ck ref rt) ref)) =
           rs_penalty_score (state_at rt ref) - 10"
  using assms
  by (simp add: decayed_penalty_def Let_def PENALTY_DECAY_SECONDS_def record_success_def mark_health_def
      dict_simps put_state_def max_def field_simps)

text \<open>Limits guessed from error texts never loosen what is known. Through any reports other than
  header readings, an axis learned from a header stays as it is, and a limit learned from an
  error text is only ever replaced by a smaller one.\<close>

theorem error_bodies_only_tighten:
  assumes "\<forall>x\<in>set xs. \<not> header_report x" and "observed_at rt ref ax = Some e"
  shows "if ol_source e = Header then observed_at (fold report_step xs rt) ref ax = Some e
         else \<forall>n. ol_limit e = Some n \<longrightarrow>
           (\<exists>e' n'. observed_at (fold report_step xs rt) ref ax = Some e' \<and> ol_limit e' = Some n' \<and> n' \<le> n)"
  using observed_run[OF assms(1), of rt ref ax] assms(2)
  by (auto simp: tighter_def split: if_splits option.splits)

text \<open>Reports on one upstream reference leave every other one alone: health, cooldown, penalty,
  rate-limit history and observed limits of a reference after a run are those after the reports
  on it.\<close>

theorem reports_isolated:
  "ref_view (fold report_step xs rt) ref =
   ref_view (fold report_step (filter (\<lambda>x. report_ref x = ref) xs) rt) ref"
  by (rule report_refs.run_noninterference)

text \<open>Concrete inputs.\<close>

definition plain_429 :: failure where
  "plain_429 = \<lparr>fl_present = True, fl_text = ''429'', fl_status_code = Some 429, fl_rate_limited = True,
     fl_daily_quota = False, fl_overload = False, fl_learned_limit = Inr None\<rparr>"

definition at_time :: "time \<Rightarrow> clocks" where
  "at_time t = \<lparr>ck_now = t, ck_wall = t, ck_stamp = ''now''\<rparr>"

abbreviation (input) sample_ref :: up_ref where "sample_ref \<equiv> (''p'', ''m'', ''k'')"

lemmas failure_eval = record_failure_def temporary_cooldown_def rate_limit_ladder_cooldown_def
  maybe_learn_limit_def cooldown_remaining_def decayed_penalty_def new_routing_def
  new_runtime_state_def plain_429_def at_time_def put_state_def dict_default_def
  trim_numeric_window_def positive_floor_def RATE_LIMIT_HIT_WINDOW_SECONDS_def
  RATE_LIMIT_EXHAUSTION_WINDOW_SECONDS_def RATE_LIMIT_ESCALATION_LADDER_SECONDS_def
  RATE_LIMIT_TRANSIENT_COOLDOWN_SECONDS_def COOLDOWN_CEILING_SECONDS_def PENALTY_DECAY_SECONDS_def
  ACCESS_DENIED_STATUS_CODES_def Let_def

theorem ladder_follows_strikes_witness:
  "rs_cooldown_until (state_at (fst (record_failure (at_time 500) sample_ref plain_429 True False None None
     (fold report_step [FailureReport (at_time 0) sample_ref plain_429 True False None None,
        FailureReport (at_time 50) sample_ref plain_429 True False None None,
        FailureReport (at_time 200) sample_ref plain_429 True False None None] new_routing))) sample_ref) = Some 1100"
proof -
  let ?f = "\<lambda>t. FailureReport (at_time t) sample_ref plain_429 True False None None"
  let ?xs = "[?f 0, ?f 50, ?f 200]"
  obtain rt hist where r: "fold (strike_step sample_ref) ?xs (new_routing, []) = (rt, hist)" by fastforce
  have rt: "rt = fold report_step ?xs new_routing"
    using arg_cong[OF r, of fst] by (simp add: strike_step_def split: prod.splits)
  have hist: "hist = [0, 200]" and strike: "plain_strike sample_ref (?f 500) rt"
    using r by (auto simp: strike_step_def failure_eval)
  have "rs_cooldown_until (state_at (fst (record_failure (at_time 500) sample_ref plain_429 True False None None rt)) sample_ref)
      = Some (500 + min (max (rung 500 hist) (positive_floor None)) COOLDOWN_CEILING_SECONDS)"
    using ladder_follows_strikes[OF _ r strike, of 0] by (simp add: at_time_def)
  with rt hist show ?thesis
    by (simp add: rung_def RATE_LIMIT_HIT_WINDOW_SECONDS_def RATE_LIMIT_EXHAUSTION_WINDOW_SECONDS_def
        RATE_LIMIT_ESCALATION_LADDER_SECONDS_def COOLDOWN_CEILING_SECONDS_def positive_floor_def)
qed

theorem cooldown_bounds_witness:
  "\<exists>c. rs_cooldown_until (state_at (fst (record_failure (at_time 5) sample_ref plain_429 True False None (Some 70)
     new_routing)) sample_ref) = Some (5 + c) \<and> 0 < c \<and> c \<le> COOLDOWN_CEILING_SECONDS"
  using cooldown_bounds[of plain_429 "at_time 5" sample_ref False None "Some 70" new_routing]
  by (auto simp: plain_429_def at_time_def)

definition tired :: routing where
  "tired = put_state sample_ref (new_runtime_state\<lparr>rs_penalty_score := 25, rs_penalty_updated_at := 0\<rparr>) new_routing"

theorem success_revives_penalty_witness:
  "snd (decayed_penalty 300 (state_at tired sample_ref)) = 0 \<and>
   snd (decayed_penalty 300 (state_at (record_success (at_time 300) sample_ref tired) sample_ref)) = 15"
  using success_revives_penalty[of tired sample_ref "at_time 300"]
  by (simp add: tired_def at_time_def)

theorem error_bodies_only_tighten_witness:
  "\<exists>e' n'. observed_at (fold report_step [LimitReport ''t'' sample_ref Rpm (Some 90) None None ErrorBody]
      (record_observed_limit ''s'' sample_ref Rpm (Some 60) None None ErrorBody new_routing)) sample_ref Rpm = Some e' \<and>
    ol_limit e' = Some n' \<and> n' \<le> 60"
proof -
  have "dict_default [] (rt_observed_limits new_routing) sample_ref = []"
    by (simp add: new_routing_def dict_default_def)
  then have "observed_at (record_observed_limit ''s'' sample_ref Rpm (Some 60) None None ErrorBody new_routing) sample_ref Rpm
      = Some \<lparr>ol_limit = Some 60, ol_remaining = None, ol_reset_at = None, ol_source = ErrorBody,
          ol_observed_at = ''s''\<rparr>"
    by (simp add: observed_at_ref observe_axis_def)
  from error_bodies_only_tighten[OF _ this, of "[LimitReport ''t'' sample_ref Rpm (Some 90) None None ErrorBody]"]
  show ?thesis by simp
qed

end
