(* ===== verification/Routing_Selection.thy ===== *)
theory Routing_Selection
  imports Routing_Failures "HOL-Library.Multiset"
begin

text \<open>
  Choosing an upstream key (\<open>select_key\<close>, \<open>select_key_from_candidates\<close> and what they call in
  \<open>services/upstream_routing_state.py\<close>): the scan that sorts candidates into available and
  blocked, session affinity, the three strategies with their round robin, the order of fallback
  rules, and the status report.

  The parameter \<open>sha\<close> is the hexadecimal SHA-256 digest of a text.
\<close>

section \<open>Data\<close>

record key_candidate =
  kc_api_key :: "string option"
  kc_order :: int
  kc_priority :: int
  kc_candidate_id :: "string option"

abbreviation fp_of :: "(string \<Rightarrow> string) \<Rightarrow> key_candidate \<Rightarrow> string" where
  "fp_of sha c \<equiv> fingerprint_api_key sha (kc_api_key c)"

text \<open>The blocked reason of the code is a text built from these fingerprints and reasons.\<close>

record selected_key =
  sk_api_key :: "string option"
  sk_fingerprint :: string
  sk_blocked_reason :: "(string \<times> block_reason) list option"
  sk_candidate_id :: "string option"

definition sk_available :: "selected_key \<Rightarrow> bool" where
  "sk_available s \<longleftrightarrow> sk_blocked_reason s = None"

definition selected_from_candidate :: "(string \<Rightarrow> string) \<Rightarrow> key_candidate \<Rightarrow> selected_key" where
  "selected_from_candidate sha c =
     \<lparr>sk_api_key = kc_api_key c, sk_fingerprint = fp_of sha c, sk_blocked_reason = None,
      sk_candidate_id = kc_candidate_id c\<rparr>"

record selection_request =
  sr_provider :: string
  sr_model :: string
  sr_limits :: "quota_limits option"
  sr_key_limits :: "quota_limits option"
  sr_strategy :: string
  sr_session_id :: "string option"
  sr_affinity_scope :: "string option"
  sr_affinity_ttl :: "rat option"
  sr_pool_name :: string

section \<open>The scan\<close>

text \<open>One candidate: the reason it is blocked, or its decayed penalty.\<close>

definition scan_candidate :: "(string \<Rightarrow> string) \<Rightarrow> selection_request \<Rightarrow> time \<Rightarrow> key_candidate \<Rightarrow> routing \<Rightarrow>
    routing \<times> (block_reason + rat)" where
  "scan_candidate sha sr now c rt =
     (let fp = fp_of sha c;
          ref = (sr_provider sr, sr_model sr, fp);
          (rt1, pause) = active_pause (sr_provider sr) fp (sr_model sr) now rt
      in if pause \<noteq> None then (rt1, Inl BlockPaused)
         else
           (let rt2 = state_for ref rt1;
                (st1, remaining) = cooldown_remaining now (state_at rt2 ref);
                rt3 = put_state ref st1 rt2
            in case remaining of
                 Some t \<Rightarrow> (rt3, Inl (BlockCooldown t))
               | None \<Rightarrow>
                   (case quota_block_reason ref (sr_limits sr) now rt3 of
                      (rt4, Some r) \<Rightarrow> (rt4, Inl r)
                    | (rt4, None) \<Rightarrow>
                        (case key_quota_block_reason True (sr_provider sr, fp) (sr_key_limits sr) now rt4 of
                           (rt5, Some r) \<Rightarrow> (rt5, Inl r)
                         | (rt5, None) \<Rightarrow>
                             (case decayed_penalty now (state_at rt5 ref) of
                                (st2, p) \<Rightarrow> (put_state ref st2 rt5, Inr p))))))"

fun scan_candidates :: "(string \<Rightarrow> string) \<Rightarrow> selection_request \<Rightarrow> time \<Rightarrow> key_candidate list \<Rightarrow> routing \<Rightarrow>
    routing \<times> (rat \<times> key_candidate) list \<times> (string \<times> block_reason) list" where
  "scan_candidates sha sr now [] rt = (rt, [], [])"
| "scan_candidates sha sr now (c # cs) rt =
     (case scan_candidate sha sr now c rt of (rt1, outcome) \<Rightarrow>
        (case scan_candidates sha sr now cs rt1 of (rt2, available, blocked) \<Rightarrow>
           (case outcome of
              Inl r \<Rightarrow> (rt2, available, (fp_of sha c, r) # blocked)
            | Inr p \<Rightarrow> (rt2, (p, c) # available, blocked))))"

section \<open>Affinity\<close>

definition affinity_key :: "selection_request \<Rightarrow> (string \<times> string \<times> string \<times> string \<times> string) option" where
  "affinity_key sr =
     (case sr_session_id sr of
        None \<Rightarrow> None
      | Some sid \<Rightarrow>
          (if py_strip sid = [] then None
           else
             (let scope = (case sr_affinity_scope sr of None \<Rightarrow> ''default'' | Some s \<Rightarrow> py_strip s)
              in Some (sr_provider sr, sr_model sr, sr_pool_name sr,
                       if scope = [] then ''default'' else scope, py_strip sid))))"

definition normalized_affinity_ttl :: "rat option \<Rightarrow> time" where
  "normalized_affinity_ttl v =
     (case v of None \<Rightarrow> DEFAULT_SESSION_AFFINITY_TTL_SECONDS | Some x \<Rightarrow> max 1 x)"

fun candidate_by_fingerprint :: "(string \<Rightarrow> string) \<Rightarrow> (rat \<times> key_candidate) list \<Rightarrow> string \<Rightarrow> key_candidate option" where
  "candidate_by_fingerprint sha [] fp = None"
| "candidate_by_fingerprint sha ((p, c) # cs) fp =
     (if fp_of sha c = fp then Some c else candidate_by_fingerprint sha cs fp)"

section \<open>Strategies\<close>

text \<open>Tuples compare lexicographically, strings by code point.\<close>

definition select_available_candidate :: "(string \<Rightarrow> string) \<Rightarrow> string \<Rightarrow> string \<Rightarrow> string \<Rightarrow>
    (rat \<times> key_candidate) list \<Rightarrow> routing \<Rightarrow> routing \<times> key_candidate" where
  "select_available_candidate sha provider model strategy available rt =
     (if strategy = ''fill-first''
      then (rt, snd (arg_min_list (\<lambda>x. (kc_order (snd x), fp_of sha (snd x))) available))
      else
        (let available1 =
               (if strategy = ''priority''
                then filter (\<lambda>x. kc_priority (snd x) = Max (set (map (\<lambda>x. kc_priority (snd x)) available))) available
                else available);
             available2 = sort_key (\<lambda>x. (fst x, kc_order (snd x), fp_of sha (snd x))) available1;
             best_penalty = fst (hd available2);
             best = filter (\<lambda>x. fst x = best_penalty) available2;
             pool_key = (provider, model, map (\<lambda>x. fp_of sha (snd x)) best);
             index = dict_default 0 (rt_round_robin rt) pool_key mod length best
         in (rt\<lparr>rt_round_robin := dict_set pool_key ((index + 1) mod length best) (rt_round_robin rt)\<rparr>,
             snd (best ! index))))"

section \<open>Selection\<close>

definition bind_session :: "(string \<times> string \<times> string \<times> string \<times> string) option \<Rightarrow> string \<Rightarrow> time \<Rightarrow> routing \<Rightarrow> routing" where
  "bind_session key fp expires rt =
     (case key of None \<Rightarrow> rt
      | Some k \<Rightarrow> rt\<lparr>rt_session_affinity := dict_set k \<lparr>ab_fingerprint = fp, ab_expires_at = expires\<rparr>
                        (rt_session_affinity rt)\<rparr>)"

text \<open>The session's choice: a live binding to an available candidate is renewed and kept; an
  expired binding is dropped; otherwise the strategy decides and the session is bound to it.\<close>

definition choose_available :: "(string \<Rightarrow> string) \<Rightarrow> selection_request \<Rightarrow> time \<Rightarrow> (rat \<times> key_candidate) list \<Rightarrow>
    routing \<Rightarrow> routing \<times> selected_key" where
  "choose_available sha sr now available rt =
     (let key = affinity_key sr;
          expires = now + normalized_affinity_ttl (sr_affinity_ttl sr);
          binding = (case key of None \<Rightarrow> None | Some k \<Rightarrow> dict_get (rt_session_affinity rt) k);
          bound = (case binding of None \<Rightarrow> None
            | Some b \<Rightarrow> if ab_expires_at b > now
                       then candidate_by_fingerprint sha available (ab_fingerprint b) else None)
      in case bound of
           Some c \<Rightarrow> (bind_session key (ab_fingerprint (the binding)) expires rt,
                     selected_from_candidate sha c)
         | None \<Rightarrow>
             (let rt1 = (case binding of None \<Rightarrow> rt
                    | Some b \<Rightarrow> if ab_expires_at b > now then rt
                        else rt\<lparr>rt_session_affinity := dict_pop (the key) (rt_session_affinity rt)\<rparr>);
                  (rt2, c) = select_available_candidate sha (sr_provider sr) (sr_model sr)
                     (sr_strategy sr) available rt1;
                  result = selected_from_candidate sha c
              in (bind_session key (sk_fingerprint result) expires rt2, result)))"

text \<open>\<open>Inl ()\<close> is the \<open>ValueError\<close> for an unknown strategy.\<close>

definition select_key_from_candidates :: "(string \<Rightarrow> string) \<Rightarrow> time \<Rightarrow> selection_request \<Rightarrow> key_candidate list \<Rightarrow>
    routing \<Rightarrow> routing \<times> (unit + selected_key)" where
  "select_key_from_candidates sha now sr candidates rt =
     (let cs = (if candidates = [] then [\<lparr>kc_api_key = None, kc_order = 0, kc_priority = 0,
                  kc_candidate_id = None\<rparr>] else candidates)
      in if sr_strategy sr \<notin> {''round-robin'', ''fill-first'', ''priority''} then (rt, Inl ())
         else
           (case scan_candidates sha sr now cs rt of (rt1, available, blocked) \<Rightarrow>
              (if available = []
               then (rt1, Inr \<lparr>sk_api_key = None, sk_fingerprint = KEYLESS_FINGERPRINT,
                        sk_blocked_reason = Some blocked, sk_candidate_id = None\<rparr>)
               else (case choose_available sha sr now available rt1 of (rt2, s) \<Rightarrow> (rt2, Inr s)))))"

definition select_key :: "(string \<Rightarrow> string) \<Rightarrow> time \<Rightarrow> selection_request \<Rightarrow> string option list \<Rightarrow> routing \<Rightarrow>
    routing \<times> (unit + selected_key)" where
  "select_key sha now sr api_keys rt =
     (let keys = filter (\<lambda>k. k \<noteq> None \<and> k \<noteq> Some []) api_keys;
          keys' = (if keys = [] then [None] else keys)
      in select_key_from_candidates sha now sr
           (map (\<lambda>(i, k). \<lparr>kc_api_key = k, kc_order = i, kc_priority = 0, kc_candidate_id = None\<rparr>)
              (zip [0..int (length keys') - 1] keys')) rt)"

section \<open>The order of fallback rules\<close>

text \<open>
  The configuration as the code reads it: a rule's provider, model and pool when they are texts;
  a provider's key setting and its pools, each a list of key settings or something that is not
  one. \<open>resolve\<close> is the configuration loader's resolution of a key setting; \<open>Inl ()\<close> is that it
  raises.
\<close>

record 'x routing_rule =
  rr_provider :: "string option"
  rr_model :: "string option"
  rr_pool :: "string option"
  rr_body :: 'x

record 'a key_setting =
  ks_disabled :: bool
  ks_apikey :: 'a

record 'a provider_settings =
  ps_apikey :: 'a
  ps_pools :: "(string, 'a key_setting list option) dict option"

definition split_api_keys :: "string option \<Rightarrow> string list" where
  "split_api_keys raw =
     (case raw of None \<Rightarrow> [] | Some s \<Rightarrow>
        if s = [] then [] else filter (\<lambda>k. k \<noteq> []) (map py_strip (py_split (CHR '','') s)))"

definition add_fingerprints :: "(string \<Rightarrow> string) \<Rightarrow> string list \<Rightarrow> string list \<Rightarrow> string list" where
  "add_fingerprints sha keys fps =
     fold (\<lambda>k acc. let fp = fingerprint_api_key sha (Some k) in if fp \<in> set acc then acc else acc @ [fp]) keys fps"

fun pool_fingerprints :: "(string \<Rightarrow> string) \<Rightarrow> ('a \<Rightarrow> unit + string option) \<Rightarrow> 'a key_setting list \<Rightarrow>
    string list \<Rightarrow> unit + string list" where
  "pool_fingerprints sha resolve [] fps = Inr fps"
| "pool_fingerprints sha resolve (ks # kss) fps =
     (if ks_disabled ks then pool_fingerprints sha resolve kss fps
      else case resolve (ks_apikey ks) of
        Inl e \<Rightarrow> Inl e
      | Inr raw \<Rightarrow> pool_fingerprints sha resolve kss (add_fingerprints sha (split_api_keys raw) fps))"

definition fingerprints_for_pool :: "(string \<Rightarrow> string) \<Rightarrow> ('a \<Rightarrow> unit + string option) \<Rightarrow>
    'a provider_settings \<Rightarrow> string \<Rightarrow> unit + string list" where
  "fingerprints_for_pool sha resolve pc pool_name =
     (case ps_pools pc of
        None \<Rightarrow> Inr []
      | Some pools \<Rightarrow>
          (case dict_get pools pool_name of
             None \<Rightarrow> Inr []
           | Some None \<Rightarrow> Inr []
           | Some (Some kss) \<Rightarrow> pool_fingerprints sha resolve kss []))"

definition fingerprints_for_rule :: "(string \<Rightarrow> string) \<Rightarrow> ('a \<Rightarrow> unit + string option) \<Rightarrow>
    'a provider_settings option \<Rightarrow> 'x routing_rule \<Rightarrow> string list" where
  "fingerprints_for_rule sha resolve config rule =
     (case config of
        None \<Rightarrow> [KEYLESS_FINGERPRINT]
      | Some pc \<Rightarrow>
          (case (case rr_pool rule of None \<Rightarrow> [] | Some p \<Rightarrow> py_strip p) of
             [] \<Rightarrow>
               (case resolve (ps_apikey pc) of
                  Inl _ \<Rightarrow> [KEYLESS_FINGERPRINT]
                | Inr raw \<Rightarrow>
                    (let keys = split_api_keys raw
                     in if keys = [] then [KEYLESS_FINGERPRINT]
                        else map (\<lambda>k. fingerprint_api_key sha (Some k)) keys))
           | name \<Rightarrow>
               (case fingerprints_for_pool sha resolve pc name of
                  Inl _ \<Rightarrow> [KEYLESS_FINGERPRINT]
                | Inr fps \<Rightarrow> fps)))"

text \<open>The decayed penalties of some references, each touched and cleaned up in turn.\<close>

fun read_penalties :: "time \<Rightarrow> up_ref list \<Rightarrow> routing \<Rightarrow> routing \<times> rat list" where
  "read_penalties now [] rt = (rt, [])"
| "read_penalties now (ref # refs) rt =
     (case decayed_penalty now (state_at rt ref) of (st, p) \<Rightarrow>
        (case read_penalties now refs (put_state ref st rt) of (rt', ps) \<Rightarrow> (rt', p # ps)))"

definition rule_penalty :: "(string \<Rightarrow> string) \<Rightarrow> ('a \<Rightarrow> unit + string option) \<Rightarrow>
    (string \<Rightarrow> 'a provider_settings option) \<Rightarrow> time \<Rightarrow> 'x routing_rule \<Rightarrow> routing \<Rightarrow> routing \<times> rat" where
  "rule_penalty sha resolve configs now rule rt =
     (case (rr_provider rule, rr_model rule) of
        (Some provider, Some model) \<Rightarrow>
          (case read_penalties now (map (\<lambda>fp. (provider, model, fp))
              (fingerprints_for_rule sha resolve (configs provider) rule)) rt of (rt', ps) \<Rightarrow>
             (rt', if ps = [] then 0 else Min (set ps)))
      | _ \<Rightarrow> (rt, 0))"

fun rule_penalties :: "(string \<Rightarrow> string) \<Rightarrow> ('a \<Rightarrow> unit + string option) \<Rightarrow>
    (string \<Rightarrow> 'a provider_settings option) \<Rightarrow> time \<Rightarrow> 'x routing_rule list \<Rightarrow> routing \<Rightarrow> routing \<times> rat list" where
  "rule_penalties sha resolve configs now [] rt = (rt, [])"
| "rule_penalties sha resolve configs now (r # rs) rt =
     (case rule_penalty sha resolve configs now r rt of (rt1, p) \<Rightarrow>
        (case rule_penalties sha resolve configs now rs rt1 of (rt2, ps) \<Rightarrow> (rt2, p # ps)))"

text \<open>Sorting by \<open>(penalty, index)\<close> over distinct indexes.\<close>

definition order_rules_by_penalty :: "(string \<Rightarrow> string) \<Rightarrow> ('a \<Rightarrow> unit + string option) \<Rightarrow>
    (string \<Rightarrow> 'a provider_settings option) \<Rightarrow> time \<Rightarrow> 'x routing_rule list \<Rightarrow> routing \<Rightarrow>
    routing \<times> 'x routing_rule list" where
  "order_rules_by_penalty sha resolve configs now rules rt =
     (case rule_penalties sha resolve configs now rules rt of (rt', ps) \<Rightarrow>
        (rt', map (\<lambda>z. snd (snd z))
                (sort_key (\<lambda>z. (fst z, fst (snd z))) (zip ps (zip [0..<length rules] rules)))))"

section \<open>The status report\<close>

record status_row =
  sw_ref :: up_ref
  sw_health_status :: string
  sw_last_checked_at :: "string option"
  sw_last_error :: "string option"
  sw_cooldown_remaining :: rat
  sw_penalty_score :: rat
  sw_requests_last_minute :: int
  sw_requests_last_day :: int
  sw_tokens_last_minute :: int
  sw_tokens_last_day :: int
  sw_escalation_level :: nat
  sw_observed_limits :: "(axis \<times> observed_row) list"
  sw_forced_unsupported :: bool

definition py_round2 :: "rat \<Rightarrow> rat" where
  "py_round2 x = of_int (py_round (x * 100)) / 100"

definition build_status_row :: "time \<Rightarrow> up_ref \<Rightarrow> routing \<Rightarrow> routing \<times> status_row" where
  "build_status_row now ref rt =
     (let rt0 = state_for ref rt;
          events = (case dict_get (rt_exhaustion_windows rt0) ref of None \<Rightarrow> [] | Some es \<Rightarrow>
            trim_numeric_window now RATE_LIMIT_EXHAUSTION_WINDOW_SECONDS es);
          rt1 = (case dict_get (rt_exhaustion_windows rt0) ref of None \<Rightarrow> rt0
            | Some _ \<Rightarrow> rt0\<lparr>rt_exhaustion_windows := dict_set ref events (rt_exhaustion_windows rt0)\<rparr>);
          (st1, remaining) = cooldown_remaining now (state_at rt1 ref);
          (st2, p) = decayed_penalty now st1;
          rt2 = (put_state ref st2 rt1)
                  \<lparr>rt_request_windows := dict_touch [] ref (rt_request_windows rt1),
                   rt_token_windows := dict_touch [] ref (rt_token_windows rt1)\<rparr>;
          requests = dict_default [] (rt_request_windows rt1) ref;
          tokens = dict_default [] (rt_token_windows rt1) ref
      in (rt2,
          \<lparr>sw_ref = ref, sw_health_status = rs_health_status st2,
           sw_last_checked_at = rs_last_checked_at st2, sw_last_error = rs_last_error st2,
           sw_cooldown_remaining = (case remaining of None \<Rightarrow> 0 | Some t \<Rightarrow> t),
           sw_penalty_score = py_round2 p,
           sw_requests_last_minute = count_since now 60 requests,
           sw_requests_last_day = count_since now 86400 requests,
           sw_tokens_last_minute = tokens_since now 60 tokens,
           sw_tokens_last_day = tokens_since now 86400 tokens,
           sw_escalation_level = length events,
           sw_observed_limits = observed_limits_snapshot ref now rt2,
           sw_forced_unsupported = ((fst ref, fst (snd ref)) \<in> rt_forced_unsupported rt2)\<rparr>))"

fun status_rows :: "time \<Rightarrow> up_ref list \<Rightarrow> routing \<Rightarrow> routing \<times> status_row list" where
  "status_rows now [] rt = (rt, [])"
| "status_rows now (ref # refs) rt =
     (case build_status_row now ref rt of (rt1, row) \<Rightarrow>
        (case status_rows now refs rt1 of (rt2, rows) \<Rightarrow> (rt2, row # rows)))"

definition get_status_rows :: "time \<Rightarrow> routing \<Rightarrow> routing \<times> status_row list" where
  "get_status_rows now rt =
     status_rows now
       (sort (remdups (dict_keys (rt_states rt) @ dict_keys (rt_request_windows rt) @
          dict_keys (rt_token_windows rt) @ dict_keys (rt_hit_windows rt) @
          dict_keys (rt_exhaustion_windows rt) @ dict_keys (rt_observed_limits rt)))) rt"

section \<open>What a moment sees\<close>

text \<open>
  Reading the state cleans it up: expired pauses, expired cooldowns, spent penalties and old
  window entries go away. A snapshot is what the state means at one moment; cleaning does not
  change it.
\<close>

definition live_pause :: "time \<Rightarrow> routing \<Rightarrow> string \<times> string \<times> string option \<Rightarrow> bool" where
  "live_pause now rt k = (case dict_get (rt_manual_pauses rt) k of None \<Rightarrow> False
     | Some p \<Rightarrow> mp_expires_at p > now)"

definition cooldown_at :: "time \<Rightarrow> routing \<Rightarrow> up_ref \<Rightarrow> time option" where
  "cooldown_at now rt ref = snd (cooldown_remaining now (state_at rt ref))"

definition penalty_at :: "time \<Rightarrow> routing \<Rightarrow> up_ref \<Rightarrow> rat" where
  "penalty_at now rt ref = snd (decayed_penalty now (state_at rt ref))"

definition requests_at :: "time \<Rightarrow> routing \<Rightarrow> up_ref \<Rightarrow> time \<Rightarrow> int" where
  "requests_at now rt ref seconds =
     count_since now (min seconds 86400) (dict_default [] (rt_request_windows rt) ref)"

definition tokens_at :: "time \<Rightarrow> routing \<Rightarrow> up_ref \<Rightarrow> time \<Rightarrow> int" where
  "tokens_at now rt ref seconds =
     tokens_since now (min seconds 86400) (dict_default [] (rt_token_windows rt) ref)"

definition key_requests_at :: "time \<Rightarrow> routing \<Rightarrow> key_ref \<Rightarrow> time \<Rightarrow> int" where
  "key_requests_at now rt ref seconds =
     count_since now (min seconds 86400) (dict_default [] (rt_key_request_windows rt) ref)"

definition key_tokens_at :: "time \<Rightarrow> routing \<Rightarrow> key_ref \<Rightarrow> time \<Rightarrow> int" where
  "key_tokens_at now rt ref seconds =
     tokens_since now (min seconds 86400) (dict_default [] (rt_key_token_windows rt) ref)"

definition active_at :: "routing \<Rightarrow> key_ref \<Rightarrow> int" where
  "active_at rt ref = dict_default 0 (rt_active_concurrency rt) ref"

definition limits_at :: "routing \<Rightarrow> up_ref \<Rightarrow> (axis \<times> observed_limit) list" where
  "limits_at rt ref = dict_default [] (rt_observed_limits rt) ref"

definition same_at :: "time \<Rightarrow> routing \<Rightarrow> routing \<Rightarrow> bool" where
  "same_at now rt rt' \<longleftrightarrow>
     live_pause now rt' = live_pause now rt \<and> cooldown_at now rt' = cooldown_at now rt \<and>
     penalty_at now rt' = penalty_at now rt \<and> requests_at now rt' = requests_at now rt \<and>
     tokens_at now rt' = tokens_at now rt \<and> key_requests_at now rt' = key_requests_at now rt \<and>
     key_tokens_at now rt' = key_tokens_at now rt \<and> active_at rt' = active_at rt \<and>
     limits_at rt' = limits_at rt \<and> rt_session_affinity rt' = rt_session_affinity rt \<and>
     rt_round_robin rt' = rt_round_robin rt \<and> rt_forced_unsupported rt' = rt_forced_unsupported rt"

lemmas moment_defs = live_pause_def cooldown_at_def penalty_at_def requests_at_def tokens_at_def
  key_requests_at_def key_tokens_at_def active_at_def limits_at_def

lemma same_at_refl: "same_at now rt rt"
  by (simp add: same_at_def)

lemma same_at_trans: "same_at now a b \<Longrightarrow> same_at now b c \<Longrightarrow> same_at now a c"
  by (simp add: same_at_def)

text \<open>Cleaning one component at a time.\<close>

lemma same_pop_pause:
  assumes "dict_get (rt_manual_pauses rt) k = Some p" and "\<not> mp_expires_at p > now"
  shows "same_at now rt (rt\<lparr>rt_manual_pauses := dict_pop k (rt_manual_pauses rt)\<rparr>)"
proof -
  have "live_pause now (rt\<lparr>rt_manual_pauses := dict_pop k (rt_manual_pauses rt)\<rparr>) = live_pause now rt"
    using assms by (intro ext) (simp add: live_pause_def dict_get_pop)
  then show ?thesis
    by (simp add: same_at_def cooldown_at_def[abs_def] penalty_at_def[abs_def] requests_at_def[abs_def]
        tokens_at_def[abs_def] key_requests_at_def[abs_def] key_tokens_at_def[abs_def]
        active_at_def[abs_def] limits_at_def[abs_def])
qed

lemma same_put_state:
  assumes "snd (cooldown_remaining now st) = cooldown_at now rt ref"
    and "snd (decayed_penalty now st) = penalty_at now rt ref"
  shows "same_at now rt (put_state ref st rt)"
proof -
  have "cooldown_at now (put_state ref st rt) = cooldown_at now rt"
    "penalty_at now (put_state ref st rt) = penalty_at now rt"
    using assms by (auto simp: cooldown_at_def penalty_at_def)
  then show ?thesis
    by (simp add: same_at_def live_pause_def[abs_def] requests_at_def[abs_def] put_state_def
        tokens_at_def[abs_def] key_requests_at_def[abs_def] key_tokens_at_def[abs_def]
        active_at_def[abs_def] limits_at_def[abs_def])
qed

lemma state_for_put: "state_for ref rt = put_state ref (state_at rt ref) rt"
  by (cases rt) (auto simp: state_for_def put_state_def dict_touch_def dict_default_def update_triv
      split: option.split)

lemma same_state_for: "same_at now rt (state_for ref rt)"
  unfolding state_for_put by (rule same_put_state) (simp_all add: cooldown_at_def penalty_at_def)

lemma cooldown_remaining_clean:
  "cooldown_remaining now st = (st', r) \<Longrightarrow>
   snd (cooldown_remaining now st') = r \<and> snd (decayed_penalty now st') = snd (decayed_penalty now st)"
  by (auto simp: cooldown_remaining_def decayed_penalty_def Let_def split: option.splits if_splits)

lemma decayed_penalty_clean:
  "decayed_penalty now st = (st', p) \<Longrightarrow>
   snd (decayed_penalty now st') = p \<and> snd (cooldown_remaining now st') = snd (cooldown_remaining now st)"
  by (auto simp: cooldown_remaining_def decayed_penalty_def Let_def split: if_splits option.split)

lemma same_set_windows:
  assumes "requests = trim_numeric_window now 86400 (dict_default [] (rt_request_windows rt) ref)"
    and "tokens = trim_token_window now 86400 (dict_default [] (rt_token_windows rt) ref)"
  shows "same_at now rt (rt\<lparr>rt_request_windows := dict_set ref requests (rt_request_windows rt),
           rt_token_windows := dict_set ref tokens (rt_token_windows rt)\<rparr>)" (is "same_at now rt ?rt")
proof -
  have "requests_at now ?rt = requests_at now rt" "tokens_at now ?rt = tokens_at now rt"
    using assms by (auto simp: requests_at_def tokens_at_def fun_eq_iff dict_simps count_since_trim
        tokens_since_trim)
  then show ?thesis
    by (simp add: same_at_def live_pause_def[abs_def] cooldown_at_def[abs_def] penalty_at_def[abs_def]
        key_requests_at_def[abs_def] key_tokens_at_def[abs_def] active_at_def[abs_def] limits_at_def[abs_def])
qed

lemma same_set_key_windows:
  assumes "requests = trim_numeric_window now 86400 (dict_default [] (rt_key_request_windows rt) ref)"
    and "tokens = trim_token_window now 86400 (dict_default [] (rt_key_token_windows rt) ref)"
  shows "same_at now rt (rt\<lparr>rt_key_request_windows := dict_set ref requests (rt_key_request_windows rt),
           rt_key_token_windows := dict_set ref tokens (rt_key_token_windows rt)\<rparr>)" (is "same_at now rt ?rt")
proof -
  have "key_requests_at now ?rt = key_requests_at now rt" "key_tokens_at now ?rt = key_tokens_at now rt"
    using assms by (auto simp: key_requests_at_def key_tokens_at_def fun_eq_iff dict_simps count_since_trim
        tokens_since_trim)
  then show ?thesis
    by (simp add: same_at_def live_pause_def[abs_def] cooldown_at_def[abs_def] penalty_at_def[abs_def]
        requests_at_def[abs_def] tokens_at_def[abs_def] active_at_def[abs_def] limits_at_def[abs_def])
qed

lemma same_touch_active:
  "same_at now rt (rt\<lparr>rt_active_concurrency := dict_touch 0 ref (rt_active_concurrency rt)\<rparr>)"
  by (simp add: same_at_def live_pause_def[abs_def] cooldown_at_def[abs_def] penalty_at_def[abs_def]
      requests_at_def[abs_def] tokens_at_def[abs_def] key_requests_at_def[abs_def]
      key_tokens_at_def[abs_def] active_at_def limits_at_def[abs_def] dict_simps fun_eq_iff)

section \<open>The verdict on a candidate\<close>

text \<open>Specification: what makes a key unavailable at a moment, in the order the code asks.\<close>

definition quota_verdict :: "time \<Rightarrow> up_ref \<Rightarrow> quota_limits option \<Rightarrow> routing \<Rightarrow> block_reason option" where
  "quota_verdict now ref limits rt =
     (let cfg = (\<lambda>get. case limits of None \<Rightarrow> None | Some l \<Rightarrow> get l)
      in case zero_remaining_in now (limits_at rt ref) of
           Some r \<Rightarrow> Some r
         | None \<Rightarrow>
             (if at_limit (effective_limit ref Rpm (cfg ql_rpm) rt) (requests_at now rt ref 60) then Some (BlockQuota Rpm)
              else if at_limit (effective_limit ref Rpd (cfg ql_rpd) rt) (requests_at now rt ref 86400) then Some (BlockQuota Rpd)
              else if at_limit (effective_limit ref Tpm (cfg ql_tpm) rt) (tokens_at now rt ref 60) then Some (BlockQuota Tpm)
              else if at_limit (effective_limit ref Tpd (cfg ql_tpd) rt) (tokens_at now rt ref 86400) then Some (BlockQuota Tpd)
              else None))"

definition key_quota_verdict :: "bool \<Rightarrow> time \<Rightarrow> key_ref \<Rightarrow> quota_limits option \<Rightarrow> routing \<Rightarrow> block_reason option" where
  "key_quota_verdict conc now ref limits rt =
     (case limits of None \<Rightarrow> None
      | Some l \<Rightarrow>
          (if conc \<and> at_limit (ql_max_concurrency l) (active_at rt ref) then Some BlockKeyConcurrency
           else if at_limit (ql_rpm l) (key_requests_at now rt ref 60) then Some (BlockKeyQuota Rpm)
           else if at_limit (ql_rpd l) (key_requests_at now rt ref 86400) then Some (BlockKeyQuota Rpd)
           else if at_limit (ql_tpm l) (key_tokens_at now rt ref 60) then Some (BlockKeyQuota Tpm)
           else if at_limit (ql_tpd l) (key_tokens_at now rt ref 86400) then Some (BlockKeyQuota Tpd)
           else None))"

definition paused_at :: "time \<Rightarrow> string \<Rightarrow> string \<Rightarrow> string \<Rightarrow> routing \<Rightarrow> bool" where
  "paused_at now provider fp model rt \<longleftrightarrow>
     live_pause now rt (provider, fp, None) \<or> live_pause now rt (provider, fp, Some model)"

definition verdict :: "selection_request \<Rightarrow> time \<Rightarrow> string \<Rightarrow> routing \<Rightarrow> block_reason + rat" where
  "verdict sr now fp rt =
     (let ref = (sr_provider sr, sr_model sr, fp)
      in if paused_at now (sr_provider sr) fp (sr_model sr) rt then Inl BlockPaused
         else case cooldown_at now rt ref of
           Some t \<Rightarrow> Inl (BlockCooldown t)
         | None \<Rightarrow>
             (case quota_verdict now ref (sr_limits sr) rt of
                Some r \<Rightarrow> Inl r
              | None \<Rightarrow>
                  (case key_quota_verdict True now (sr_provider sr, fp) (sr_key_limits sr) rt of
                     Some r \<Rightarrow> Inl r
                   | None \<Rightarrow> Inr (penalty_at now rt ref))))"

lemma effective_limit_at: "effective_limit ref ax c rt =
    (let observed = (case dict_get (limits_at rt ref) ax of None \<Rightarrow> None | Some e \<Rightarrow> ol_limit e)
     in case c of None \<Rightarrow> observed
        | Some c \<Rightarrow> (case observed of None \<Rightarrow> Some c | Some n \<Rightarrow> Some (min c n)))"
  by (simp add: effective_limit_def limits_at_def)

lemma same_atD:
  assumes "same_at now rt rt'"
  shows "live_pause now rt' = live_pause now rt" "cooldown_at now rt' = cooldown_at now rt"
    "penalty_at now rt' = penalty_at now rt"
    "quota_verdict now ref l rt' = quota_verdict now ref l rt"
    "key_quota_verdict b now k l rt' = key_quota_verdict b now k l rt"
    "paused_at now p fp m rt' = paused_at now p fp m rt"
  using assms by (simp_all add: same_at_def quota_verdict_def key_quota_verdict_def paused_at_def
      effective_limit_at Let_def split: option.split)

lemma verdict_same: "same_at now rt rt' \<Longrightarrow> verdict sr now fp rt' = verdict sr now fp rt"
  using same_atD[of now rt rt'] by (simp add: verdict_def Let_def split: option.split)

section \<open>The scan implements the verdict\<close>

lemma active_pause_in_spec:
  "active_pause_in p fp scopes now rt = (rt', r) \<Longrightarrow>
   same_at now rt rt' \<and> (r \<noteq> None \<longleftrightarrow> (\<exists>s\<in>set scopes. live_pause now rt (p, fp, s)))"
proof (induction scopes arbitrary: rt)
  case Nil
  then show ?case by (simp add: same_at_refl)
next
  case (Cons s scopes)
  show ?case
  proof (cases "dict_get (rt_manual_pauses rt) (p, fp, s)")
    case None
    with Cons show ?thesis by (auto simp: live_pause_def)
  next
    case (Some pause)
    show ?thesis
    proof (cases "mp_expires_at pause > now")
      case True
      with Some Cons.prems have "rt' = rt" "r = Some pause" by simp_all
      with Some True show ?thesis by (auto simp: live_pause_def same_at_refl)
    next
      case False
      let ?rt = "rt\<lparr>rt_manual_pauses := dict_pop (p, fp, s) (rt_manual_pauses rt)\<rparr>"
      have sm: "same_at now rt ?rt" by (rule same_pop_pause[OF Some False])
      have "active_pause_in p fp scopes now ?rt = (rt', r)" using Some False Cons.prems by simp
      from Cons.IH[OF this] same_at_trans[OF sm] same_atD(1)[OF sm] Some False
      show ?thesis by (auto simp: live_pause_def)
    qed
  qed
qed

lemma active_pause_spec:
  "active_pause p fp m now rt = (rt', r) \<Longrightarrow>
   same_at now rt rt' \<and> (r \<noteq> None \<longleftrightarrow> paused_at now p fp m rt)"
  using active_pause_in_spec[of p fp "[None, Some m]" now rt rt' r]
  by (auto simp: active_pause_def paused_at_def)

lemma at_limit_None [simp]: "at_limit None = (\<lambda>n. False)"
  by (simp add: fun_eq_iff)

lemma quota_block_spec:
  assumes "quota_block_reason ref limits now rt = (rt', r)"
  shows "same_at now rt rt' \<and> r = quota_verdict now ref limits rt"
  using assms
  by (auto simp: quota_block_reason_def quota_verdict_def zero_remaining_block_def limits_at_def Let_def
      same_at_refl same_set_windows requests_at_def tokens_at_def count_since_trim tokens_since_trim
      split: option.splits if_splits)

lemma key_quota_spec:
  assumes "key_quota_block_reason conc ref limits now rt = (rt', r)"
  shows "same_at now rt rt' \<and> r = key_quota_verdict conc now ref limits rt"
proof (cases limits)
  case None
  with assms show ?thesis by (simp add: key_quota_block_reason_def key_quota_verdict_def same_at_refl)
next
  case (Some l)
  let ?rt1 = "if conc \<and> ql_max_concurrency l \<noteq> None
      then rt\<lparr>rt_active_concurrency := dict_touch 0 ref (rt_active_concurrency rt)\<rparr> else rt"
  let ?reqs = "trim_numeric_window now 86400 (dict_default [] (rt_key_request_windows rt) ref)"
  let ?toks = "trim_token_window now 86400 (dict_default [] (rt_key_token_windows rt) ref)"
  let ?rt2 = "?rt1\<lparr>rt_key_request_windows := dict_set ref ?reqs (rt_key_request_windows ?rt1),
      rt_key_token_windows := dict_set ref ?toks (rt_key_token_windows ?rt1)\<rparr>"
  have s1: "same_at now rt ?rt1" by (simp add: same_touch_active same_at_refl)
  have "same_at now ?rt1 ?rt2" by (rule same_set_key_windows) simp_all
  with s1 have s2: "same_at now rt ?rt2" by (rule same_at_trans)
  show ?thesis
  proof (cases "conc \<and> at_limit (ql_max_concurrency l) (dict_default 0 (rt_active_concurrency rt) ref)")
    case True
    with assms Some s1 show ?thesis
      by (simp add: key_quota_block_reason_def key_quota_verdict_def active_at_def Let_def)
  next
    case False
    from assms Some False have "rt' = ?rt2" "r = key_axis_block l now ?reqs ?toks"
      by (auto simp: key_quota_block_reason_def Let_def)
    with s2 Some False show ?thesis
      by (auto simp: key_axis_block_def key_quota_verdict_def active_at_def key_requests_at_def
          key_tokens_at_def count_since_trim tokens_since_trim)
  qed
qed

lemma scan_candidate_spec:
  assumes "scan_candidate sha sr now c rt = (rt', out)"
  shows "same_at now rt rt' \<and> out = verdict sr now (fp_of sha c) rt"
proof -
  let ?fp = "fp_of sha c"
  let ?ref = "(sr_provider sr, sr_model sr, ?fp)"
  obtain rt1 pause where ap: "active_pause (sr_provider sr) ?fp (sr_model sr) now rt = (rt1, pause)" by fastforce
  note pause = active_pause_spec[OF ap]
  show ?thesis
  proof (cases "pause = None")
    case False
    with assms ap pause show ?thesis by (auto simp: scan_candidate_def verdict_def Let_def)
  next
    case True
    let ?rt2 = "state_for ?ref rt1"
    obtain st1 rem where cr: "cooldown_remaining now (state_at ?rt2 ?ref) = (st1, rem)" by fastforce
    let ?rt3 = "put_state ?ref st1 ?rt2"
    have s2: "same_at now rt ?rt2" using pause same_state_for same_at_trans by blast
    have rem: "rem = cooldown_at now ?rt2 ?ref" using cr by (simp add: cooldown_at_def)
    have "same_at now ?rt2 ?rt3"
      by (rule same_put_state) (use cooldown_remaining_clean[OF cr] rem in \<open>auto simp: penalty_at_def\<close>)
    with s2 have s3: "same_at now rt ?rt3" by (rule same_at_trans)
    show ?thesis
    proof (cases rem)
      case (Some t)
      have cd: "cooldown_at now rt ?ref = Some t" using rem Some same_atD(2)[OF s2] by simp
      have "scan_candidate sha sr now c rt = (?rt3, Inl (BlockCooldown t))"
        using ap True cr Some by (simp add: scan_candidate_def Let_def)
      with assms s3 cd pause True show ?thesis by (simp add: verdict_def Let_def)
    next
      case None
      obtain rt4 q where qb: "quota_block_reason ?ref (sr_limits sr) now ?rt3 = (rt4, q)" by fastforce
      obtain rt5 kq where kb: "key_quota_block_reason True (sr_provider sr, ?fp) (sr_key_limits sr) now rt4 = (rt5, kq)"
        by fastforce
      obtain st2 p where dp: "decayed_penalty now (state_at rt5 ?ref) = (st2, p)" by fastforce
      have s4: "same_at now rt rt4" and q: "q = quota_verdict now ?ref (sr_limits sr) rt"
        using quota_block_spec[OF qb] s3 same_atD(4)[OF s3] same_at_trans by (blast, simp)
      have s5: "same_at now rt rt5" and kq: "kq = key_quota_verdict True now (sr_provider sr, ?fp) (sr_key_limits sr) rt"
        using key_quota_spec[OF kb] s4 same_atD(5)[OF s4] same_at_trans by (blast, simp)
      have p: "p = penalty_at now rt5 ?ref" using dp by (simp add: penalty_at_def)
      have "same_at now rt5 (put_state ?ref st2 rt5)"
        by (rule same_put_state) (use decayed_penalty_clean[OF dp] p in \<open>auto simp: cooldown_at_def\<close>)
      with s5 have s6: "same_at now rt (put_state ?ref st2 rt5)" by (rule same_at_trans)
      have pv: "p = penalty_at now rt ?ref" using p same_atD(3)[OF s5] by simp
      have cd: "cooldown_at now rt ?ref = None" using rem None same_atD(2)[OF s2] by simp
      have "scan_candidate sha sr now c rt =
          (case q of Some r \<Rightarrow> (rt4, Inl r) | None \<Rightarrow>
             (case kq of Some r \<Rightarrow> (rt5, Inl r) | None \<Rightarrow> (put_state ?ref st2 rt5, Inr p)))"
        using ap True cr None qb kb dp by (simp add: scan_candidate_def Let_def split: option.split)
      with assms s4 s5 s6 q kq pv cd pause True show ?thesis
        by (auto simp: verdict_def Let_def split: option.splits)
    qed
  qed
qed

definition available_of :: "(string \<Rightarrow> string) \<Rightarrow> selection_request \<Rightarrow> time \<Rightarrow> routing \<Rightarrow> key_candidate list \<Rightarrow>
    (rat \<times> key_candidate) list" where
  "available_of sha sr now rt cs =
     List.map_filter (\<lambda>c. case verdict sr now (fp_of sha c) rt of Inl r \<Rightarrow> None | Inr p \<Rightarrow> Some (p, c)) cs"

definition blocked_of :: "(string \<Rightarrow> string) \<Rightarrow> selection_request \<Rightarrow> time \<Rightarrow> routing \<Rightarrow> key_candidate list \<Rightarrow>
    (string \<times> block_reason) list" where
  "blocked_of sha sr now rt cs =
     List.map_filter (\<lambda>c. case verdict sr now (fp_of sha c) rt of Inl r \<Rightarrow> Some (fp_of sha c, r) | Inr p \<Rightarrow> None) cs"

lemma scan_candidates_spec:
  "scan_candidates sha sr now cs rt = (rt', available, blocked) \<Longrightarrow>
   same_at now rt rt' \<and> available = available_of sha sr now rt cs \<and> blocked = blocked_of sha sr now rt cs"
proof (induction cs arbitrary: rt rt' available blocked)
  case Nil
  then show ?case by (simp add: same_at_refl available_of_def blocked_of_def map_filter_simps)
next
  case (Cons c cs)
  obtain rt1 out where sc: "scan_candidate sha sr now c rt = (rt1, out)" by fastforce
  obtain rt2 av bl where rest: "scan_candidates sha sr now cs rt1 = (rt2, av, bl)" by (metis prod_cases3)
  have s1: "same_at now rt rt1" and out: "out = verdict sr now (fp_of sha c) rt"
    using scan_candidate_spec[OF sc] by simp_all
  have "available_of sha sr now rt1 cs = available_of sha sr now rt cs"
    "blocked_of sha sr now rt1 cs = blocked_of sha sr now rt cs"
    by (simp_all add: available_of_def blocked_of_def verdict_same[OF s1])
  with Cons.IH[OF rest] have s2: "same_at now rt rt2" and av: "av = available_of sha sr now rt cs"
    and bl: "bl = blocked_of sha sr now rt cs"
    using same_at_trans[OF s1] by auto
  show ?case
    using Cons.prems sc rest s2 out
    by (auto simp: av bl available_of_def blocked_of_def map_filter_simps split: sum.splits)
qed

lemma available_of_iff:
  "(p, c) \<in> set (available_of sha sr now rt cs) \<longleftrightarrow> c \<in> set cs \<and> verdict sr now (fp_of sha c) rt = Inr p"
  by (induction cs) (auto simp: available_of_def map_filter_simps split: sum.splits)

lemma available_of_empty:
  "available_of sha sr now rt cs = [] \<longleftrightarrow> (\<forall>c\<in>set cs. \<exists>r. verdict sr now (fp_of sha c) rt = Inl r)"
  by (induction cs) (auto simp: available_of_def map_filter_simps split: sum.splits)

section \<open>The strategies choose among the available\<close>

lemma best_of_sorted:
  fixes key :: "rat \<times> 'b \<Rightarrow> rat \<times> 'c::linorder"
  assumes "xs \<noteq> []" and "\<And>x. fst (key x) = fst x"
  defines "ys \<equiv> sort_key key xs"
  shows "filter (\<lambda>x. fst x = fst (hd ys)) ys \<noteq> []"
    and "fst (hd ys) = Min (fst ` set xs)"
proof -
  have ne: "ys \<noteq> []" using assms(1) by (simp add: ys_def) (metis length_0_conv length_sort)
  then have hd: "hd ys \<in> set ys" by simp
  then show "filter (\<lambda>x. fst x = fst (hd ys)) ys \<noteq> []" by (auto simp: filter_empty_conv)
  have srt: "sorted (map key ys)" by (simp add: ys_def)
  have "fst (hd ys) \<le> fst y" if "y \<in> set ys" for y
  proof -
    have "key (hd ys) \<le> key y"
      using srt ne that by (cases ys) auto
    then have "fst (key (hd ys)) \<le> fst (key y)" by (auto simp: less_eq_prod_def)
    then show ?thesis by (simp add: assms(2))
  qed
  moreover have "set ys = set xs" by (simp add: ys_def)
  ultimately show "fst (hd ys) = Min (fst ` set xs)"
    using hd by (intro Min_eqI[symmetric]) auto
qed

definition rank :: "(string \<Rightarrow> string) \<Rightarrow> rat \<times> key_candidate \<Rightarrow> rat \<times> int \<times> string" where
  "rank sha x = (fst x, kc_order (snd x), fp_of sha (snd x))"

text \<open>The candidates a strategy considers, and the ones its round robin runs over.\<close>

definition considered :: "string \<Rightarrow> (rat \<times> key_candidate) list \<Rightarrow> (rat \<times> key_candidate) list" where
  "considered strategy available =
     (if strategy = ''priority''
      then filter (\<lambda>x. kc_priority (snd x) = Max (set (map (\<lambda>x. kc_priority (snd x)) available))) available
      else available)"

definition best_of :: "(string \<Rightarrow> string) \<Rightarrow> (rat \<times> key_candidate) list \<Rightarrow> (rat \<times> key_candidate) list" where
  "best_of sha xs = (let ys = sort_key (rank sha) xs in filter (\<lambda>x. fst x = fst (hd ys)) ys)"

lemma considered_subset: "set (considered strategy xs) \<subseteq> set xs"
  by (auto simp: considered_def)

lemma considered_nonempty: "xs \<noteq> [] \<Longrightarrow> considered strategy xs \<noteq> []"
proof (cases "strategy = ''priority''")
  case True
  assume "xs \<noteq> []"
  then have "Max (set (map (\<lambda>x. kc_priority (snd x)) xs)) \<in> set (map (\<lambda>x. kc_priority (snd x)) xs)"
    by (intro Max_in) simp_all
  then obtain x where "x \<in> set xs" "kc_priority (snd x) = Max (set (map (\<lambda>x. kc_priority (snd x)) xs))"
    by auto
  with True show ?thesis by (auto simp: considered_def filter_empty_conv simp del: set_map)
next
  case False
  then show "xs \<noteq> [] \<Longrightarrow> ?thesis" by (simp add: considered_def)
qed

lemma best_of_facts:
  assumes "xs \<noteq> []"
  shows "best_of sha xs \<noteq> []"
    and "x \<in> set (best_of sha xs) \<Longrightarrow> x \<in> set xs \<and> fst x = Min (fst ` set xs)"
  using best_of_sorted[of xs "rank sha", OF assms]
  by (auto simp: best_of_def rank_def[abs_def] Let_def)

abbreviation pool_key :: "(string \<Rightarrow> string) \<Rightarrow> string \<Rightarrow> string \<Rightarrow> (rat \<times> key_candidate) list \<Rightarrow>
    string \<times> string \<times> string list" where
  "pool_key sha provider model best \<equiv> (provider, model, map (\<lambda>x. fp_of sha (snd x)) best)"

definition next_index :: "(string \<Rightarrow> string) \<Rightarrow> string \<Rightarrow> string \<Rightarrow> (rat \<times> key_candidate) list \<Rightarrow> routing \<Rightarrow> nat" where
  "next_index sha provider model best rt =
     dict_default 0 (rt_round_robin rt) (pool_key sha provider model best) mod length best"

lemma select_available_round_robin:
  fixes sha strategy available
  assumes "strategy \<noteq> ''fill-first''"
  defines "best \<equiv> best_of sha (considered strategy available)"
  shows "select_available_candidate sha provider model strategy available rt =
     (rt\<lparr>rt_round_robin := dict_set (pool_key sha provider model best)
          ((next_index sha provider model best rt + 1) mod length best) (rt_round_robin rt)\<rparr>,
      snd (best ! next_index sha provider model best rt))"
proof -
  have "best = (let ys = sort_key (\<lambda>x. (fst x, kc_order (snd x), fp_of sha (snd x))) (considered strategy available)
      in filter (\<lambda>x. fst x = fst (hd ys)) ys)"
    by (simp add: best_def best_of_def rank_def[abs_def] Let_def)
  with assms(1) show ?thesis
    by (simp add: select_available_candidate_def considered_def next_index_def Let_def)
qed

lemma arg_min_list_least:
  fixes f :: "'b \<Rightarrow> 'c::linorder"
  shows "xs \<noteq> [] \<Longrightarrow> x \<in> set xs \<Longrightarrow> f (arg_min_list f xs) \<le> f x"
  by (simp add: f_arg_min_list_f)

text \<open>What the strategy picks.\<close>

lemma select_available_spec:
  assumes "available \<noteq> []"
    and "select_available_candidate sha provider model strategy available rt = (rt', c)"
  shows "\<exists>p. (p, c) \<in> set available \<and>
     (if strategy = ''fill-first''
      then \<forall>x\<in>set available. (kc_order c, fp_of sha c) \<le> (kc_order (snd x), fp_of sha (snd x))
      else (p, c) \<in> set (considered strategy available) \<and>
           (\<forall>x\<in>set (considered strategy available). p \<le> fst x))"
    and "rt_session_affinity rt' = rt_session_affinity rt"
proof -
  show "rt_session_affinity rt' = rt_session_affinity rt"
    using assms(2) by (auto simp: select_available_candidate_def Let_def split: if_splits)
  show "\<exists>p. (p, c) \<in> set available \<and>
     (if strategy = ''fill-first''
      then \<forall>x\<in>set available. (kc_order c, fp_of sha c) \<le> (kc_order (snd x), fp_of sha (snd x))
      else (p, c) \<in> set (considered strategy available) \<and>
           (\<forall>x\<in>set (considered strategy available). p \<le> fst x))"
  proof (cases "strategy = ''fill-first''")
    case True
    let ?f = "\<lambda>x :: rat \<times> key_candidate. (kc_order (snd x), fp_of sha (snd x))"
    have c: "c = snd (arg_min_list ?f available)"
      using assms(2) True by (simp add: select_available_candidate_def)
    have "arg_min_list ?f available \<in> set available" by (rule arg_min_list_in[OF assms(1)])
    moreover have "?f (arg_min_list ?f available) \<le> ?f x" if "x \<in> set available" for x
      by (rule arg_min_list_least[OF assms(1) that])
    ultimately show ?thesis
      using True c by (intro exI[of _ "fst (arg_min_list ?f available)"]) auto
  next
    case False
    let ?best = "best_of sha (considered strategy available)"
    have ne: "considered strategy available \<noteq> []" by (rule considered_nonempty[OF assms(1)])
    have i: "next_index sha provider model ?best rt < length ?best"
      using best_of_facts(1)[OF ne] by (simp add: next_index_def)
    then have mem: "?best ! next_index sha provider model ?best rt \<in> set ?best" by (rule nth_mem)
    obtain p where x: "?best ! next_index sha provider model ?best rt = (p, c)"
      using assms(2) select_available_round_robin[OF False] by (metis Pair_inject prod.collapse)
    from mem x best_of_facts(2)[OF ne, of "(p, c)" sha]
    have "(p, c) \<in> set (considered strategy available)" "p = Min (fst ` set (considered strategy available))"
      by auto
    moreover from this(2) have "\<forall>x\<in>set (considered strategy available). p \<le> fst x" by auto
    ultimately show ?thesis
      using False considered_subset[of strategy available] by (intro exI[of _ p]) auto
  qed
qed

section \<open>Selection as a whole\<close>

definition keyless_candidate :: key_candidate where
  "keyless_candidate = \<lparr>kc_api_key = None, kc_order = 0, kc_priority = 0, kc_candidate_id = None\<rparr>"

definition offered :: "key_candidate list \<Rightarrow> key_candidate list" where
  "offered cs = (if cs = [] then [keyless_candidate] else cs)"

definition known_strategy :: "selection_request \<Rightarrow> bool" where
  "known_strategy sr \<longleftrightarrow> sr_strategy sr \<in> {''round-robin'', ''fill-first'', ''priority''}"

lemma selected_simps [simp]:
  "sk_blocked_reason (selected_from_candidate sha c) = None"
  "sk_fingerprint (selected_from_candidate sha c) = fp_of sha c"
  "sk_api_key (selected_from_candidate sha c) = kc_api_key c"
  by (simp_all add: selected_from_candidate_def)

lemma candidate_by_fingerprint_spec:
  "candidate_by_fingerprint sha xs fp = Some c \<Longrightarrow> (\<exists>p. (p, c) \<in> set xs) \<and> fp_of sha c = fp"
  by (induction xs) (auto split: if_splits)

lemma candidate_by_fingerprint_None:
  "candidate_by_fingerprint sha xs fp = None \<longleftrightarrow> (\<forall>x\<in>set xs. fp_of sha (snd x) \<noteq> fp)"
  by (induction sha xs fp rule: candidate_by_fingerprint.induct) auto

text \<open>The live binding of the session of a request.\<close>

definition live_binding :: "selection_request \<Rightarrow> time \<Rightarrow> routing \<Rightarrow> string option" where
  "live_binding sr now rt =
     (case affinity_key sr of None \<Rightarrow> None
      | Some k \<Rightarrow> (case dict_get (rt_session_affinity rt) k of None \<Rightarrow> None
          | Some b \<Rightarrow> if ab_expires_at b > now then Some (ab_fingerprint b) else None))"

lemma live_binding_same: "same_at now rt rt' \<Longrightarrow> live_binding sr t rt' = live_binding sr t rt"
  by (simp add: live_binding_def same_at_def split: option.split)

lemma choose_available_cases:
  assumes "choose_available sha sr now available rt = (rt', s)" and "available \<noteq> []"
  obtains (bound) c fp where "live_binding sr now rt = Some fp"
      "candidate_by_fingerprint sha available fp = Some c" "s = selected_from_candidate sha c"
      "rt_session_affinity rt' = (case affinity_key sr of None \<Rightarrow> rt_session_affinity rt
         | Some k \<Rightarrow> dict_set k \<lparr>ab_fingerprint = fp, ab_expires_at = now + normalized_affinity_ttl (sr_affinity_ttl sr)\<rparr>
             (rt_session_affinity rt))"
  | (free) c rt1 rt2 where
      "\<forall>fp. live_binding sr now rt = Some fp \<longrightarrow> candidate_by_fingerprint sha available fp = None"
      "select_available_candidate sha (sr_provider sr) (sr_model sr) (sr_strategy sr) available rt1 = (rt2, c)"
      "s = selected_from_candidate sha c" "rt_round_robin rt1 = rt_round_robin rt"
      "\<And>k. affinity_key sr = Some k \<Longrightarrow> dict_get (rt_session_affinity rt') k =
         Some \<lparr>ab_fingerprint = fp_of sha c, ab_expires_at = now + normalized_affinity_ttl (sr_affinity_ttl sr)\<rparr>"
proof (cases "\<exists>fp c. live_binding sr now rt = Some fp \<and> candidate_by_fingerprint sha available fp = Some c")
  case True
  then obtain fp c where fc: "live_binding sr now rt = Some fp"
    "candidate_by_fingerprint sha available fp = Some c" by blast
  then obtain k b where kb: "affinity_key sr = Some k" "dict_get (rt_session_affinity rt) k = Some b"
    "ab_expires_at b > now" "ab_fingerprint b = fp"
    by (auto simp: live_binding_def split: option.splits if_splits)
  with fc assms(1) show thesis
    by (intro bound[of fp c]) (auto simp: choose_available_def Let_def bind_session_def)
next
  case False
  let ?key = "affinity_key sr"
  let ?binding = "case ?key of None \<Rightarrow> None | Some k \<Rightarrow> dict_get (rt_session_affinity rt) k"
  let ?rt1 = "case ?binding of None \<Rightarrow> rt
     | Some b \<Rightarrow> if ab_expires_at b > now then rt
         else rt\<lparr>rt_session_affinity := dict_pop (the ?key) (rt_session_affinity rt)\<rparr>"
  have nb: "(case ?binding of None \<Rightarrow> None
      | Some b \<Rightarrow> if ab_expires_at b > now
                 then candidate_by_fingerprint sha available (ab_fingerprint b) else None) = None"
    using False by (auto simp: live_binding_def split: option.splits)
  obtain rt2 c where sel: "select_available_candidate sha (sr_provider sr) (sr_model sr) (sr_strategy sr)
      available ?rt1 = (rt2, c)" by fastforce
  have "rt' = bind_session ?key (fp_of sha c) (now + normalized_affinity_ttl (sr_affinity_ttl sr)) rt2"
    "s = selected_from_candidate sha c"
    using assms(1) nb sel by (simp_all add: choose_available_def Let_def)
  moreover have "rt_round_robin ?rt1 = rt_round_robin rt" by (simp split: option.split)
  ultimately show thesis
    using False sel by (intro free[of ?rt1 rt2 c]) (auto simp: bind_session_def dict_get_set)
qed

lemma choose_available_member:
  assumes "choose_available sha sr now available rt = (rt', s)" and "available \<noteq> []"
  shows "\<exists>p c. (p, c) \<in> set available \<and> s = selected_from_candidate sha c"
  using assms
proof (cases rule: choose_available_cases)
  case (bound c fp)
  with candidate_by_fingerprint_spec[OF bound(2)] show ?thesis by blast
next
  case (free c rt1 rt2)
  with select_available_spec(1)[OF assms(2) free(2)] show ?thesis by blast
qed

lemma select_key_unfold:
  assumes "known_strategy sr"
  shows "select_key_from_candidates sha now sr cs rt =
     (case scan_candidates sha sr now (offered cs) rt of (rt1, available, blocked) \<Rightarrow>
        (if available = []
         then (rt1, Inr \<lparr>sk_api_key = None, sk_fingerprint = KEYLESS_FINGERPRINT,
                  sk_blocked_reason = Some blocked, sk_candidate_id = None\<rparr>)
         else (case choose_available sha sr now available rt1 of (rt2, s) \<Rightarrow> (rt2, Inr s))))"
  using assms
  by (simp add: select_key_from_candidates_def Let_def offered_def keyless_candidate_def known_strategy_def)

text \<open>Two candidates with the same key get the same verdict.\<close>

lemma select_key_available:
  assumes "known_strategy sr" and "available_of sha sr now rt (offered cs) \<noteq> []"
  obtains rt1 rt2 s where "same_at now rt rt1"
    "choose_available sha sr now (available_of sha sr now rt (offered cs)) rt1 = (rt2, s)"
    "select_key_from_candidates sha now sr cs rt = (rt2, Inr s)"
proof -
  obtain rt1 av bl where sc: "scan_candidates sha sr now (offered cs) rt = (rt1, av, bl)" by (metis prod_cases3)
  note spec = scan_candidates_spec[OF sc]
  obtain rt2 s where ch: "choose_available sha sr now av rt1 = (rt2, s)" by fastforce
  show thesis
    by (rule that[of rt1 rt2 s]) (use spec ch sc assms in \<open>auto simp: select_key_unfold\<close>)
qed

lemma select_key_blocked:
  assumes "known_strategy sr" and "available_of sha sr now rt (offered cs) = []"
  shows "\<exists>rt1. same_at now rt rt1 \<and> select_key_from_candidates sha now sr cs rt =
    (rt1, Inr \<lparr>sk_api_key = None, sk_fingerprint = KEYLESS_FINGERPRINT,
       sk_blocked_reason = Some (blocked_of sha sr now rt (offered cs)), sk_candidate_id = None\<rparr>)"
proof -
  obtain rt1 av bl where sc: "scan_candidates sha sr now (offered cs) rt = (rt1, av, bl)" by (metis prod_cases3)
  from scan_candidates_spec[OF sc] sc assms show ?thesis by (auto simp: select_key_unfold)
qed

section \<open>Round robin\<close>

text \<open>The choices of \<open>n\<close> consecutive selections among the same available candidates.\<close>

fun picks :: "(string \<Rightarrow> string) \<Rightarrow> string \<Rightarrow> string \<Rightarrow> string \<Rightarrow> (rat \<times> key_candidate) list \<Rightarrow> nat \<Rightarrow> routing \<Rightarrow>
    key_candidate list" where
  "picks sha provider model strategy available 0 rt = []"
| "picks sha provider model strategy available (Suc n) rt =
     (case select_available_candidate sha provider model strategy available rt of (rt', c) \<Rightarrow>
        c # picks sha provider model strategy available n rt')"

lemma picks_indexes:
  fixes sha strategy available
  assumes "strategy \<noteq> ''fill-first''" and "available \<noteq> []"
  defines "best \<equiv> best_of sha (considered strategy available)"
  shows "picks sha provider model strategy available n rt =
     map (\<lambda>i. snd (best ! ((next_index sha provider model best rt + i) mod length best))) [0..<n]"
proof (induction n arbitrary: rt)
  case 0
  then show ?case by simp
next
  case (Suc n)
  let ?i = "next_index sha provider model best"
  have pos: "0 < length best"
    using best_of_facts(1)[OF considered_nonempty[OF assms(2)]] by (simp add: best_def)
  let ?rt = "rt\<lparr>rt_round_robin := dict_set (pool_key sha provider model best)
      ((?i rt + 1) mod length best) (rt_round_robin rt)\<rparr>"
  have sel: "select_available_candidate sha provider model strategy available rt = (?rt, snd (best ! ?i rt))"
    using select_available_round_robin[OF assms(1)] by (simp add: best_def)
  have "?i ?rt = (?i rt + 1) mod length best"
    by (simp add: next_index_def dict_simps)
  moreover have "?i rt < length best" using pos by (simp add: next_index_def)
  moreover have "[0..<Suc n] = 0 # map Suc [0..<n]" by (simp add: map_Suc_upt upt_conv_Cons del: upt_Suc)
  ultimately show ?case
    by (simp add: sel Suc.IH mod_add_left_eq o_def del: upt_Suc)
qed

lemma picks_rotate:
  fixes sha strategy available
  assumes "strategy \<noteq> ''fill-first''" and "available \<noteq> []"
  defines "best \<equiv> best_of sha (considered strategy available)"
  shows "picks sha provider model strategy available (length best) rt =
     rotate (next_index sha provider model best rt) (map snd best)"
proof -
  let ?i = "next_index sha provider model best rt"
  note ps = picks_indexes[OF assms(1,2), of sha provider model "length best" rt, folded best_def]
  show ?thesis
  proof (rule nth_equalityI)
    show "length (picks sha provider model strategy available (length best) rt) =
        length (rotate ?i (map snd best))" by (simp add: ps)
    fix j
    assume "j < length (picks sha provider model strategy available (length best) rt)"
    then have j: "j < length best" by (simp add: ps)
    then have "(?i + j) mod length best < length best" by (intro mod_less_divisor) (cases best; simp)
    then have "map snd best ! ((?i + j) mod length best) = snd (best ! ((?i + j) mod length best))"
      by (rule nth_map)
    with j show "picks sha provider model strategy available (length best) rt ! j =
        rotate ?i (map snd best) ! j" by (simp add: ps nth_rotate)
  qed
qed

section \<open>Fallback order\<close>

lemma read_penalties_spec:
  "read_penalties now refs rt = (rt', ps) \<Longrightarrow> same_at now rt rt' \<and> ps = map (penalty_at now rt) refs"
proof (induction refs arbitrary: rt rt' ps)
  case Nil
  then show ?case by (simp add: same_at_refl)
next
  case (Cons ref refs)
  obtain st p where dp: "decayed_penalty now (state_at rt ref) = (st, p)" by fastforce
  obtain rt2 qs where rp: "read_penalties now refs (put_state ref st rt) = (rt2, qs)" by fastforce
  have s: "same_at now rt (put_state ref st rt)"
    by (rule same_put_state) (use decayed_penalty_clean[OF dp] dp in \<open>auto simp: cooldown_at_def penalty_at_def\<close>)
  from Cons.IH[OF rp] same_at_trans[OF s] same_atD(3)[OF s] Cons.prems dp rp
  show ?case by (auto simp: penalty_at_def)
qed

definition rule_penalty_at :: "(string \<Rightarrow> string) \<Rightarrow> ('a \<Rightarrow> unit + string option) \<Rightarrow>
    (string \<Rightarrow> 'a provider_settings option) \<Rightarrow> time \<Rightarrow> routing \<Rightarrow> 'x routing_rule \<Rightarrow> rat" where
  "rule_penalty_at sha resolve configs now rt rule =
     (case (rr_provider rule, rr_model rule) of
        (Some provider, Some model) \<Rightarrow>
          (let fps = fingerprints_for_rule sha resolve (configs provider) rule
           in if fps = [] then 0 else Min (set (map (\<lambda>fp. penalty_at now rt (provider, model, fp)) fps)))
      | _ \<Rightarrow> 0)"

lemma rule_penalty_spec:
  assumes "rule_penalty sha resolve configs now rule rt = (rt', p)"
  shows "same_at now rt rt' \<and> p = rule_penalty_at sha resolve configs now rt rule"
proof (cases "rr_provider rule")
  case None
  with assms show ?thesis by (simp add: rule_penalty_def rule_penalty_at_def same_at_refl)
next
  case (Some provider)
  show ?thesis
  proof (cases "rr_model rule")
    case None
    with assms Some show ?thesis by (simp add: rule_penalty_def rule_penalty_at_def same_at_refl)
  next
    case (Some model)
    obtain rt2 ps where rp: "read_penalties now (map (\<lambda>fp. (provider, model, fp))
        (fingerprints_for_rule sha resolve (configs provider) rule)) rt = (rt2, ps)" by fastforce
    from read_penalties_spec[OF rp] rp assms Some \<open>rr_provider rule = Some provider\<close>
    show ?thesis by (auto simp: rule_penalty_def rule_penalty_at_def Let_def o_def image_image)
  qed
qed

lemma rule_penalties_spec:
  "rule_penalties sha resolve configs now rules rt = (rt', ps) \<Longrightarrow>
   same_at now rt rt' \<and> ps = map (rule_penalty_at sha resolve configs now rt) rules"
proof (induction rules arbitrary: rt rt' ps)
  case Nil
  then show ?case by (simp add: same_at_refl)
next
  case (Cons r rules)
  obtain rt1 p where rp: "rule_penalty sha resolve configs now r rt = (rt1, p)" by fastforce
  obtain rt2 qs where rest: "rule_penalties sha resolve configs now rules rt1 = (rt2, qs)" by fastforce
  note s = rule_penalty_spec[OF rp]
  have "map (rule_penalty_at sha resolve configs now rt1) rules = map (rule_penalty_at sha resolve configs now rt) rules"
    using same_atD(3)[of now rt rt1] s by (simp add: rule_penalty_at_def Let_def split: option.split)
  with Cons.IH[OF rest] s same_at_trans Cons.prems rp rest show ?case by auto
qed

text \<open>Sorting by a key and the position is stable sorting by the key.\<close>

lemma sorted_pairs:
  assumes "sorted (map f ys)" and "\<And>k. sorted (map h (filter (\<lambda>y. f y = k) ys))"
  shows "sorted (map (\<lambda>y. (f y :: 'a::linorder, h y :: 'b::linorder)) ys)"
  using assms
proof (induction ys)
  case Nil
  then show ?case by simp
next
  case (Cons y ys)
  have "sorted (map h (filter (\<lambda>y. f y = k) ys))" for k
    using Cons.prems(2)[of k] by (auto split: if_splits)
  then have "sorted (map (\<lambda>y. (f y, h y)) ys)" using Cons by simp
  moreover have "(f y, h y) \<le> (f z, h z)" if "z \<in> set ys" for z
    using Cons.prems(1) Cons.prems(2)[of "f y"] that
    by (cases "f z = f y") (auto simp: less_eq_prod_def order_less_le)
  ultimately show ?case by simp
qed

lemma sort_key_position:
  assumes "sorted (map h xs)"
  shows "sort_key (\<lambda>x. (f x :: 'a::linorder, h x :: 'b::linorder)) xs = sort_key f xs"
proof (rule properties_for_sort_key)
  show "mset (sort_key f xs) = mset xs" by simp
  show "filter (\<lambda>x. (f k, h k) = (f x, h x)) (sort_key f xs) = filter (\<lambda>x. (f k, h k) = (f x, h x)) xs" for k
  proof -
    have eq: "filter (\<lambda>x. (f k, h k) = (f x, h x)) zs = filter (\<lambda>x. h k = h x) (filter (\<lambda>x. f x = f k) zs)" for zs
      by (auto intro!: filter_cong)
    show ?thesis unfolding eq by (simp add: sort_key_stable)
  qed
  show "sorted (map (\<lambda>x. (f x, h x)) (sort_key f xs))"
  proof (rule sorted_pairs)
    show "sorted (map f (sort_key f xs))" by simp
    show "sorted (map h (filter (\<lambda>y. f y = k) (sort_key f xs)))" for k
      using sorted_filter[OF assms] by (simp add: sort_key_stable)
  qed
qed

lemma sort_key_agree:
  fixes f g :: "'b \<Rightarrow> 'a::linorder"
  assumes "\<And>x. x \<in> set xs \<Longrightarrow> f x = g x"
  shows "sort_key f xs = sort_key g xs"
proof -
  have "insort_key f x ys = insort_key g x ys" if "f x = g x" "\<forall>y\<in>set ys. f y = g y" for x ys
    using that by (induction ys) simp_all
  with assms show ?thesis by (induction xs) simp_all
qed

lemma map_sort_key: "map g (sort_key (\<lambda>x. f (g x)) xs) = sort_key f (map g xs)"
proof -
  have "map g (insort_key (\<lambda>x. f (g x)) y ys) = insort_key f (g y) (map g ys)" for y ys
    by (induction ys) simp_all
  then show ?thesis by (induction xs) simp_all
qed

lemma order_rules_stable:
  "snd (order_rules_by_penalty sha resolve configs now rules rt) =
   sort_key (rule_penalty_at sha resolve configs now rt) rules"
proof -
  let ?pen = "rule_penalty_at sha resolve configs now rt"
  obtain rt' ps where rp: "rule_penalties sha resolve configs now rules rt = (rt', ps)" by fastforce
  then have ps: "ps = map ?pen rules" using rule_penalties_spec by blast
  let ?zs = "zip (map ?pen rules) (zip [0..<length rules] rules)"
  have "map (\<lambda>z. fst (snd z)) ?zs = [0..<length rules]"
    by (rule nth_equalityI) simp_all
  then have "sort_key (\<lambda>z. (fst z, fst (snd z))) ?zs = sort_key fst ?zs"
    by (intro sort_key_position) simp
  moreover have "sort_key fst ?zs = sort_key (\<lambda>z. ?pen (snd (snd z))) ?zs"
    by (rule sort_key_agree) (auto simp: set_zip)
  ultimately have "map (\<lambda>z. snd (snd z)) (sort_key (\<lambda>z. (fst z, fst (snd z))) ?zs) =
      sort_key ?pen (map (\<lambda>z. snd (snd z)) ?zs)"
    by (simp only: map_sort_key[where g = "\<lambda>z. snd (snd z)"])
  moreover have "map (\<lambda>z. snd (snd z)) ?zs = rules"
    by (rule nth_equalityI) simp_all
  ultimately show ?thesis
    by (simp add: order_rules_by_penalty_def rp ps)
qed

section \<open>Concurrency slots\<close>

text \<open>
  The router beside the leases it handed out. The calls of this machine are the ones that read
  or write the concurrency counters.
\<close>

datatype slot_op =
  AcquireSlot string string "int option"
| ReleaseSlot nat
| SelectKey "string \<Rightarrow> string" time selection_request "key_candidate list"
| StartAttempt time string string string "quota_limits option"

fun slot_step :: "slot_op \<Rightarrow> routing \<times> lease list \<Rightarrow> routing \<times> lease list" where
  "slot_step (AcquireSlot p fp limit) (rt, ls) =
     (case acquire_concurrency p fp limit rt of
        (rt', None) \<Rightarrow> (rt', ls) | (rt', Some l) \<Rightarrow> (rt', ls @ [l]))"
| "slot_step (ReleaseSlot i) (rt, ls) =
     (if i < length ls then (case release_lease (ls ! i) rt of (rt', l) \<Rightarrow> (rt', ls[i := l])) else (rt, ls))"
| "slot_step (SelectKey sha now sr cs) (rt, ls) = (fst (select_key_from_candidates sha now sr cs rt), ls)"
| "slot_step (StartAttempt now p m fp limits) (rt, ls) = (fst (record_attempt_start now p m fp limits rt), ls)"

definition held_slot :: "key_ref \<Rightarrow> lease \<Rightarrow> bool" where
  "held_slot ref l \<longleftrightarrow> \<not> ls_released l \<and> (ls_provider l, ls_fingerprint l) = ref"

definition slots_ok :: "routing \<times> lease list \<Rightarrow> bool" where
  "slots_ok s \<longleftrightarrow> (\<forall>ref. active_at (fst s) ref = int (length (filter (held_slot ref) (snd s))))"

lemma slots_okD: "slots_ok (rt, ls) \<Longrightarrow> active_at rt ref = int (length (filter (held_slot ref) ls))"
  unfolding slots_ok_def fst_conv snd_conv by blast

lemma slots_okI: "(\<And>ref. active_at rt ref = int (length (filter (held_slot ref) ls))) \<Longrightarrow> slots_ok (rt, ls)"
  unfolding slots_ok_def by simp

lemma select_available_active [simp]:
  "rt_active_concurrency (fst (select_available_candidate sha p m strategy av rt)) = rt_active_concurrency rt"
  by (simp add: select_available_candidate_def Let_def)

lemma bind_session_active [simp]:
  "rt_active_concurrency (bind_session k fp t rt) = rt_active_concurrency rt"
  by (simp add: bind_session_def split: option.split)

lemma choose_active: "choose_available sha sr now av rt = (rt', s) \<Longrightarrow> active_at rt' = active_at rt"
proof -
  have "rt_active_concurrency (fst (choose_available sha sr now av rt)) = rt_active_concurrency rt"
    by (simp add: choose_available_def Let_def split_beta split: option.split)
  then show "choose_available sha sr now av rt = (rt', s) \<Longrightarrow> ?thesis"
    by (simp add: active_at_def[abs_def])
qed

lemma select_active: "active_at (fst (select_key_from_candidates sha now sr cs rt)) = active_at rt"
proof (cases "known_strategy sr")
  case False
  then show ?thesis by (simp add: select_key_from_candidates_def known_strategy_def Let_def)
next
  case True
  show ?thesis
  proof (cases "available_of sha sr now rt (offered cs) = []")
    case empty: True
    from select_key_blocked[OF True empty] show ?thesis by (auto simp: same_at_def)
  next
    case False
    from select_key_available[OF True False] choose_active show ?thesis
      by (metis fst_conv same_at_def)
  qed
qed

lemma attempt_active: "active_at (fst (record_attempt_start now p m fp limits rt)) = active_at rt"
proof -
  obtain rt1 pause where ap: "active_pause p fp m now rt = (rt1, pause)" by fastforce
  obtain rt2 r where kq: "key_quota_block_reason False (p, fp) limits now rt1 = (rt2, r)" by fastforce
  have "active_at rt1 = active_at rt" "active_at rt2 = active_at rt1"
    using active_pause_spec[OF ap] key_quota_spec[OF kq] by (simp_all add: same_at_def)
  moreover have "active_at (fst (record_attempt_start now p m fp limits rt)) \<in> {active_at rt1, active_at rt2}"
    by (simp add: record_attempt_start_def ap kq Let_def state_for_def active_at_def[abs_def] split: option.split)
  ultimately show ?thesis by auto
qed

lemma acquire_active:
  assumes "acquire_concurrency p fp limit rt = (rt', r)"
  shows "r = None \<Longrightarrow> active_at rt' = active_at rt \<and> at_limit limit (active_at rt (p, fp))"
    and "r = Some l \<Longrightarrow> \<not> at_limit limit (active_at rt (p, fp)) \<and> \<not> ls_released l \<and>
           ls_provider l = p \<and> ls_fingerprint l = fp \<and>
           active_at rt' = (active_at rt)((p, fp) := active_at rt (p, fp) + 1)"
  using assms by (auto simp: acquire_concurrency_def active_at_def fun_eq_iff dict_simps Let_def split: if_splits)

lemma release_active:
  assumes "release_lease l rt = (rt', l')" and "\<not> ls_released l"
    and "1 \<le> active_at rt (ls_provider l, ls_fingerprint l)"
  shows "ls_released l'" and "active_at rt' = (active_at rt)((ls_provider l, ls_fingerprint l) :=
           active_at rt (ls_provider l, ls_fingerprint l) - 1)"
  using assms by (auto simp: release_lease_def active_at_def fun_eq_iff dict_simps Let_def split: if_splits)

lemma filter_update_length:
  assumes "i < length xs" and "P (xs ! i)" and "\<not> P y"
  shows "Suc (length (filter P (xs[i := y]))) = length (filter P xs)"
  using assms
proof (induction xs arbitrary: i)
  case Nil
  then show ?case by simp
next
  case (Cons x xs)
  then show ?case by (cases i) auto
qed

lemma filter_update_same:
  assumes "i < length xs" and "\<not> P (xs ! i)" and "\<not> P y"
  shows "length (filter P (xs[i := y])) = length (filter P xs)"
  using assms
proof (induction xs arbitrary: i)
  case Nil
  then show ?case by simp
next
  case (Cons x xs)
  then show ?case by (cases i) auto
qed

interpretation slot_run: step_machine slot_step slots_ok
proof
  fix s x
  assume ok: "slots_ok s"
  obtain rt ls where s: "s = (rt, ls)" by fastforce
  note D = slots_okD[OF ok[unfolded s]]
  show "slots_ok (slot_step x s)"
  proof (cases x)
    case (AcquireSlot p fp limit)
    obtain rt' r where ac: "acquire_concurrency p fp limit rt = (rt', r)" by fastforce
    show ?thesis
    proof (cases r)
      case None
      with acquire_active(1)[OF ac] D AcquireSlot s ac show ?thesis by (simp add: slots_okI)
    next
      case (Some l)
      from acquire_active(2)[OF ac this] D AcquireSlot s ac Some show ?thesis
        by (auto intro!: slots_okI simp: held_slot_def)
    qed
  next
    case (ReleaseSlot i)
    show ?thesis
    proof (cases "i < length ls \<and> \<not> ls_released (ls ! i)")
      case False
      with ReleaseSlot s ok show ?thesis by (auto simp: release_lease_def)
    next
      case True
      let ?l = "ls ! i"
      let ?ref = "(ls_provider ?l, ls_fingerprint ?l)"
      obtain rt' l' where rl: "release_lease ?l rt = (rt', l')" by fastforce
      have held: "held_slot ?ref ?l" using True by (simp add: held_slot_def)
      then have "?l \<in> set (filter (held_slot ?ref) ls)" using True by simp
      then have "1 \<le> active_at rt ?ref" unfolding D by (cases "filter (held_slot ?ref) ls") auto
      note ra = release_active[OF rl _ this]
      have dead: "\<not> held_slot ref l'" for ref using ra(1) True by (simp add: held_slot_def)
      have "active_at rt' ref = int (length (filter (held_slot ref) (ls[i := l'])))" for ref
      proof (cases "ref = ?ref")
        case eq: True
        with filter_update_length[of i ls "held_slot ?ref" l'] held dead True ra(2) D
        show ?thesis by (simp add: algebra_simps flip: of_nat_Suc)
      next
        case False
        then have "\<not> held_slot ref ?l" by (simp add: held_slot_def)
        with filter_update_same[of i ls "held_slot ref" l'] dead True ra(2) D False
        show ?thesis by simp
      qed
      with True ReleaseSlot s rl show ?thesis by (simp add: slots_okI)
    qed
  next
    case (SelectKey sha now sr cs)
    with D s show ?thesis by (simp add: slots_okI select_active)
  next
    case (StartAttempt now p m fp limits)
    with D s show ?thesis by (simp add: slots_okI attempt_active)
  qed
qed

lemma slots_ok_new: "slots_ok (new_routing, [])"
  by (rule slots_okI) (simp add: active_at_def new_routing_def dict_default_def)

fun limited_slot :: "key_ref \<Rightarrow> int \<Rightarrow> slot_op \<Rightarrow> bool" where
  "limited_slot ref n (AcquireSlot p fp limit) = ((p, fp) = ref \<longrightarrow> limit = Some n)"
| "limited_slot ref n _ = True"

lemma slot_bound_step:
  assumes "slots_ok s" and "limited_slot ref n x" and "0 \<le> n" and "active_at (fst s) ref \<le> n"
  shows "active_at (fst (slot_step x s)) ref \<le> n"
proof -
  obtain rt ls where s: "s = (rt, ls)" by fastforce
  show ?thesis
  proof (cases x)
    case (AcquireSlot p fp limit)
    obtain rt' r where ac: "acquire_concurrency p fp limit rt = (rt', r)" by fastforce
    show ?thesis
    proof (cases r)
      case None
      with acquire_active(1)[OF ac] AcquireSlot s ac assms(4) show ?thesis by simp
    next
      case (Some l)
      from acquire_active(2)[OF ac this] AcquireSlot s ac Some assms show ?thesis by auto
    qed
  next
    case (ReleaseSlot i)
    have "active_at (fst (release_lease l rt)) ref \<le> max 0 (active_at rt ref)" for l
      by (auto simp: release_lease_def active_at_def Let_def dict_simps)
    from this[of "ls ! i"] ReleaseSlot s assms(3,4) show ?thesis
      by (auto split: prod.split)
  next
    case (SelectKey sha now sr cs)
    with s assms(4) show ?thesis by (simp add: select_active)
  next
    case (StartAttempt now p m fp limits)
    with s assms(4) show ?thesis by (simp add: attempt_active)
  qed
qed

lemma slot_bound_run:
  "slots_ok s \<Longrightarrow> \<forall>x\<in>set xs. limited_slot ref n x \<Longrightarrow> 0 \<le> n \<Longrightarrow> active_at (fst s) ref \<le> n \<Longrightarrow>
   active_at (fst (fold slot_step xs s)) ref \<le> n"
proof (induction xs arbitrary: s)
  case Nil
  then show ?case by simp
next
  case (Cons x xs)
  then have "active_at (fst (slot_step x s)) ref \<le> n" by (intro slot_bound_step) simp_all
  with Cons show ?case by (simp add: slot_run.step_invar)
qed

section \<open>Properties\<close>

text \<open>C29: Selection is sound and complete. A key is handed out exactly when some offered candidate is
  eligible at that moment (not paused, not cooling down, its observed and configured quotas and
  the shared key's quotas and concurrency below their limits); the key handed out is an eligible
  candidate; and when there is none, the refusal names every candidate's reason.\<close>

theorem selection_sound_complete:
  assumes "known_strategy sr"
  shows "\<exists>rt' s. select_key_from_candidates sha now sr cs rt = (rt', Inr s) \<and>
     (sk_available s \<longleftrightarrow> (\<exists>c\<in>set (offered cs). \<exists>p. verdict sr now (fp_of sha c) rt = Inr p)) \<and>
     (if sk_available s
      then \<exists>c\<in>set (offered cs). s = selected_from_candidate sha c \<and> (\<exists>p. verdict sr now (fp_of sha c) rt = Inr p)
      else sk_blocked_reason s = Some (blocked_of sha sr now rt (offered cs)) \<and>
           length (blocked_of sha sr now rt (offered cs)) = length (offered cs))"
proof (cases "available_of sha sr now rt (offered cs) = []")
  case True
  have "length (blocked_of sha sr now rt xs) = length xs"
    if "\<forall>c\<in>set xs. \<exists>r. verdict sr now (fp_of sha c) rt = Inl r" for xs
    using that by (induction xs) (auto simp: blocked_of_def map_filter_simps)
  with True select_key_blocked[OF assms True] show ?thesis
    by (fastforce simp: available_of_empty sk_available_def)
next
  case False
  from select_key_available[OF assms False] obtain rt1 rt2 s where
    ch: "choose_available sha sr now (available_of sha sr now rt (offered cs)) rt1 = (rt2, s)"
    and sel: "select_key_from_candidates sha now sr cs rt = (rt2, Inr s)" by blast
  from choose_available_member[OF ch False] obtain p c where
    "(p, c) \<in> set (available_of sha sr now rt (offered cs))" "s = selected_from_candidate sha c" by blast
  then show ?thesis using sel by (auto simp: available_of_iff sk_available_def)
qed

text \<open>Without a live session binding the strategy decides. \<open>fill-first\<close> takes the first eligible
  candidate in \<open>(order, fingerprint)\<close>; \<open>round-robin\<close> takes one of least decayed penalty;
  \<open>priority\<close> takes one of least decayed penalty among those of the highest priority.\<close>

theorem selection_follows_strategy:
  assumes "known_strategy sr" and "live_binding sr now rt = None"
    and "\<exists>c\<in>set (offered cs). \<exists>p. verdict sr now (fp_of sha c) rt = Inr p"
  defines "av \<equiv> available_of sha sr now rt (offered cs)"
  shows "\<exists>rt' c p. select_key_from_candidates sha now sr cs rt = (rt', Inr (selected_from_candidate sha c)) \<and>
     (p, c) \<in> set av \<and>
     (if sr_strategy sr = ''fill-first''
      then \<forall>x\<in>set av. (kc_order c, fp_of sha c) \<le> (kc_order (snd x), fp_of sha (snd x))
      else (sr_strategy sr = ''priority'' \<longrightarrow> (\<forall>x\<in>set av. kc_priority (snd x) \<le> kc_priority c)) \<and>
           (\<forall>x\<in>set av. (sr_strategy sr = ''priority'' \<longrightarrow> kc_priority (snd x) = kc_priority c) \<longrightarrow> p \<le> fst x))"
proof -
  obtain c0 p0 where "(p0, c0) \<in> set av" using assms(3) by (auto simp: av_def available_of_iff)
  then have ne: "av \<noteq> []" by auto
  from select_key_available[OF assms(1) ne[unfolded av_def]] obtain rt1 rt2 s where
    same: "same_at now rt rt1" and ch: "choose_available sha sr now av rt1 = (rt2, s)"
    and sel: "select_key_from_candidates sha now sr cs rt = (rt2, Inr s)" by (auto simp: av_def)
  have nb: "live_binding sr now rt1 = None"
    using assms(2) live_binding_same[OF same] by simp
  from ch ne show ?thesis
  proof (cases rule: choose_available_cases)
    case (bound c fp)
    with nb show ?thesis by simp
  next
    case (free c rt3 rt4)
    from select_available_spec(1)[OF ne free(2)] obtain p where p: "(p, c) \<in> set av"
      "if sr_strategy sr = ''fill-first''
       then \<forall>x\<in>set av. (kc_order c, fp_of sha c) \<le> (kc_order (snd x), fp_of sha (snd x))
       else (p, c) \<in> set (considered (sr_strategy sr) av) \<and>
            (\<forall>x\<in>set (considered (sr_strategy sr) av). p \<le> fst x)" by blast
    let ?prio = "\<lambda>x. kc_priority (snd x)"
    have top: "\<forall>x\<in>set av. ?prio x \<le> kc_priority c" and among: "\<forall>x\<in>set av. ?prio x = kc_priority c \<longrightarrow> p \<le> fst x"
      if "sr_strategy sr = ''priority''"
    proof -
      have cons: "considered (sr_strategy sr) av = filter (\<lambda>x. ?prio x = Max (set (map ?prio av))) av"
        using that by (simp add: considered_def)
      have pc: "(p, c) \<in> set (considered (sr_strategy sr) av)"
        and least: "\<forall>x\<in>set (considered (sr_strategy sr) av). p \<le> fst x"
        using p(2) that by simp_all
      have c: "kc_priority c = Max (set (map ?prio av))" using pc unfolding cons by simp
      have le: "\<forall>x\<in>set av. ?prio x = Max (set (map ?prio av)) \<longrightarrow> p \<le> fst x"
        using least unfolding cons set_filter by blast
      show "\<forall>x\<in>set av. ?prio x \<le> kc_priority c" unfolding c by simp
      show "\<forall>x\<in>set av. ?prio x = kc_priority c \<longrightarrow> p \<le> fst x" unfolding c by (rule le)
    qed
    have plain: "\<forall>x\<in>set av. p \<le> fst x" if "sr_strategy sr \<noteq> ''fill-first''" "sr_strategy sr \<noteq> ''priority''"
      using p(2) that by (simp add: considered_def)
    show ?thesis
      using sel free(3) p top among plain
      by (intro exI[of _ rt2] exI[of _ c] exI[of _ p])
        (cases "sr_strategy sr = ''priority''"; simp split: if_splits)
  qed
qed

text \<open>Round robin is fair. As many consecutive selections as there are best candidates hand out
  each of them exactly once, in rotation, wherever the index stood.\<close>

theorem round_robin_fair:
  assumes "strategy \<noteq> ''fill-first''" and "available \<noteq> []"
  shows "picks sha provider model strategy available (length (best_of sha (considered strategy available))) rt =
           rotate (next_index sha provider model (best_of sha (considered strategy available)) rt)
             (map snd (best_of sha (considered strategy available)))"
  using assms by (rule picks_rotate)

text \<open>Sessions stick. Once a session has been given a key, a later selection for the same session
  before the binding expires gets a candidate with the same fingerprint whenever one is offered
  and eligible then, whatever happened in between, as long as the binding itself was not
  rewritten.\<close>

theorem sessions_stick:
  assumes "known_strategy sr" and key: "affinity_key sr = Some k"
    and first: "select_key_from_candidates sha now sr cs rt = (rt1, Inr s)" "sk_available s"
    and kept: "dict_get (rt_session_affinity rt2) k = dict_get (rt_session_affinity rt1) k"
    and later: "now' < now + normalized_affinity_ttl (sr_affinity_ttl sr)"
    and again: "c \<in> set (offered cs')" "fp_of sha c = sk_fingerprint s"
      "verdict sr now' (fp_of sha c) rt2 = Inr p"
  shows "\<exists>rt3 s'. select_key_from_candidates sha now' sr cs' rt2 = (rt3, Inr s') \<and> sk_available s' \<and>
           sk_fingerprint s' = sk_fingerprint s"
proof -
  have ne: "available_of sha sr now rt (offered cs) \<noteq> []"
  proof
    assume "available_of sha sr now rt (offered cs) = []"
    from select_key_blocked[OF assms(1) this] first show False by (auto simp: sk_available_def)
  qed
  from select_key_available[OF assms(1) ne] first obtain rt0 where
    ch: "choose_available sha sr now (available_of sha sr now rt (offered cs)) rt0 = (rt1, s)" by auto
  from ch ne have "dict_get (rt_session_affinity rt1) k = Some \<lparr>ab_fingerprint = sk_fingerprint s,
      ab_expires_at = now + normalized_affinity_ttl (sr_affinity_ttl sr)\<rparr>"
    by (cases rule: choose_available_cases)
      (auto simp: key dict_get_set dest: candidate_by_fingerprint_spec)
  with kept later have bind: "live_binding sr now' rt2 = Some (sk_fingerprint s)"
    by (simp add: live_binding_def key)
  have mem: "(p, c) \<in> set (available_of sha sr now' rt2 (offered cs'))"
    using again by (simp add: available_of_iff)
  then have ne': "available_of sha sr now' rt2 (offered cs') \<noteq> []" by auto
  from select_key_available[OF assms(1) ne'] obtain rt4 rt3 s' where
    same: "same_at now' rt2 rt4"
    and ch': "choose_available sha sr now' (available_of sha sr now' rt2 (offered cs')) rt4 = (rt3, s')"
    and sel: "select_key_from_candidates sha now' sr cs' rt2 = (rt3, Inr s')" by blast
  have bind': "live_binding sr now' rt4 = Some (sk_fingerprint s)"
    using bind live_binding_same[OF same] by simp
  have found: "candidate_by_fingerprint sha (available_of sha sr now' rt2 (offered cs')) (sk_fingerprint s) \<noteq> None"
    using mem again(2) unfolding candidate_by_fingerprint_None by force
  from ch' ne' show ?thesis
  proof (cases rule: choose_available_cases)
    case (bound d fp)
    with bind' sel candidate_by_fingerprint_spec[OF bound(2)] show ?thesis
      by (auto simp: sk_available_def)
  next
    case (free d rt5 rt6)
    with bind' found show ?thesis by simp
  qed
qed

text \<open>Fallback rules are tried in order of penalty: the ordered list is the given rules, stably
  sorted by the least decayed penalty among the rule's upstream keys.\<close>

theorem fallback_order_stable:
  "snd (order_rules_by_penalty sha resolve configs now rules rt) =
     sort_key (rule_penalty_at sha resolve configs now rt) rules \<and>
   mset (snd (order_rules_by_penalty sha resolve configs now rules rt)) = mset rules \<and>
   sorted (map (rule_penalty_at sha resolve configs now rt)
     (snd (order_rules_by_penalty sha resolve configs now rules rt)))"
  by (simp add: order_rules_stable)

text \<open>C31: Concurrency slots are counted exactly. In every reachable state the counter of a provider
  key is the number of its leases not yet released (releasing twice counts once), selections
  and attempts leave it alone, and when every acquisition of the key carries the limit \<open>n\<close>, at most
  \<open>n\<close> leases are ever held.\<close>

theorem concurrency_slots_exact:
  assumes "\<forall>x\<in>set xs. limited_slot ref n x" and "0 \<le> n"
    and "fold slot_step xs (new_routing, []) = (rt, ls)"
  shows "active_at rt ref = int (length (filter (held_slot ref) ls)) \<and>
         int (length (filter (held_slot ref) ls)) \<le> n"
proof -
  have "slots_ok (rt, ls)" using slot_run.run_invar[OF slots_ok_new, of xs] assms(3) by simp
  moreover have "active_at rt ref \<le> n"
    using slot_bound_run[OF slots_ok_new assms(1,2)] assms(2,3)
    by (simp add: active_at_def new_routing_def dict_default_def)
  ultimately show ?thesis by (simp add: slots_okD)
qed

text \<open>Concrete inputs.\<close>

definition sample_request :: selection_request where
  "sample_request = \<lparr>sr_provider = ''p'', sr_model = ''m'', sr_limits = None, sr_key_limits = None,
     sr_strategy = ''round-robin'', sr_session_id = Some ''s1'', sr_affinity_scope = None,
     sr_affinity_ttl = None, sr_pool_name = ''default''\<rparr>"

definition sample_key :: "string \<Rightarrow> int \<Rightarrow> key_candidate" where
  "sample_key k i = \<lparr>kc_api_key = Some k, kc_order = i, kc_priority = 0, kc_candidate_id = None\<rparr>"

lemma sample_verdict: "verdict sample_request now fp new_routing = Inr 0"
  by (simp add: verdict_def sample_request_def paused_at_def live_pause_def cooldown_at_def penalty_at_def
      quota_verdict_def key_quota_verdict_def limits_at_def effective_limit_def new_routing_def
      dict_default_def new_runtime_state_def cooldown_remaining_def decayed_penalty_def Let_def)

lemma sample_known: "known_strategy sample_request"
  by (simp add: known_strategy_def sample_request_def)

theorem selection_sound_complete_witness:
  "\<exists>rt' s. select_key_from_candidates (\<lambda>k. k) 5 sample_request [sample_key ''k1'' 0, sample_key ''k2'' 1]
      new_routing = (rt', Inr s) \<and> sk_available s"
  using selection_sound_complete[OF sample_known, of "\<lambda>k. k" 5 "[sample_key ''k1'' 0, sample_key ''k2'' 1]"
      new_routing]
  by (auto simp: offered_def sample_verdict)

theorem selection_follows_strategy_witness:
  "\<exists>rt' c. select_key_from_candidates (\<lambda>k. k) 5 sample_request [sample_key ''k1'' 0] new_routing =
     (rt', Inr (selected_from_candidate (\<lambda>k. k) c)) \<and> c = sample_key ''k1'' 0"
proof -
  have "live_binding sample_request 5 new_routing = None"
    by (simp add: live_binding_def new_routing_def split: option.split)
  from selection_follows_strategy[OF sample_known this, of "[sample_key ''k1'' 0]" "\<lambda>k. k"]
  show ?thesis by (auto simp: offered_def sample_verdict available_of_iff)
qed

theorem round_robin_fair_witness:
  "picks (\<lambda>k. k) ''p'' ''m'' ''round-robin'' [(0, sample_key ''k1'' 0), (0, sample_key ''k2'' 1)] 2 new_routing =
     [sample_key ''k1'' 0, sample_key ''k2'' 1]"
proof -
  let ?av = "[(0, sample_key ''k1'' 0), (0, sample_key ''k2'' 1)] :: (rat \<times> key_candidate) list"
  have best: "best_of (\<lambda>k. k) (considered ''round-robin'' ?av) = ?av"
    by (simp add: best_of_def considered_def rank_def sample_key_def fingerprint_api_key_def Let_def)
  from round_robin_fair[of "''round-robin''" ?av "\<lambda>k. k" "''p''" "''m''" new_routing, unfolded best]
  show ?thesis by (simp add: next_index_def new_routing_def dict_default_def numeral_2_eq_2)
qed

theorem sessions_stick_witness:
  "\<exists>rt1 s rt3 s'. select_key_from_candidates (\<lambda>k. k) 5 sample_request [sample_key ''k1'' 0] new_routing = (rt1, Inr s) \<and>
     select_key_from_candidates (\<lambda>k. k) 9 sample_request [sample_key ''k2'' 0, sample_key ''k1'' 1]
       (new_routing\<lparr>rt_session_affinity := rt_session_affinity rt1\<rparr>) = (rt3, Inr s') \<and>
     sk_fingerprint s' = sk_fingerprint s"
proof -
  have one: "available_of (\<lambda>k. k) sample_request 5 new_routing (offered [sample_key ''k1'' 0]) =
      [(0, sample_key ''k1'' 0)]"
    by (simp add: available_of_def offered_def sample_verdict map_filter_simps)
  then have "available_of (\<lambda>k. k) sample_request 5 new_routing (offered [sample_key ''k1'' 0]) \<noteq> []"
    by simp
  from select_key_available[OF sample_known this] one obtain rt0 rt1 s where
    ch: "choose_available (\<lambda>k. k) sample_request 5 [(0, sample_key ''k1'' 0)] rt0 = (rt1, s)"
    and first: "select_key_from_candidates (\<lambda>k. k) 5 sample_request [sample_key ''k1'' 0] new_routing = (rt1, Inr s)"
    by metis
  from choose_available_member[OF ch] have s: "s = selected_from_candidate (\<lambda>k. k) (sample_key ''k1'' 0)" by auto
  let ?rt2 = "new_routing\<lparr>rt_session_affinity := rt_session_affinity rt1\<rparr>"
  have key: "affinity_key sample_request = Some (''p'', ''m'', ''default'', ''default'', ''s1'')"
    by (simp add: affinity_key_def sample_request_def py_strip_def py_space_def Let_def)
  have v: "verdict sample_request 9 fp ?rt2 = Inr 0" for fp
    by (simp add: verdict_def sample_request_def paused_at_def live_pause_def cooldown_at_def penalty_at_def
        quota_verdict_def key_quota_verdict_def limits_at_def effective_limit_def new_routing_def
        dict_default_def new_runtime_state_def cooldown_remaining_def decayed_penalty_def Let_def)
  have ttl: "9 < 5 + normalized_affinity_ttl (sr_affinity_ttl sample_request)"
    by (simp add: sample_request_def normalized_affinity_ttl_def DEFAULT_SESSION_AFFINITY_TTL_SECONDS_def)
  have "\<exists>rt3 s'. select_key_from_candidates (\<lambda>k. k) 9 sample_request [sample_key ''k2'' 0, sample_key ''k1'' 1] ?rt2 =
      (rt3, Inr s') \<and> sk_available s' \<and> sk_fingerprint s' = sk_fingerprint s"
    by (rule sessions_stick[OF sample_known key first, where c = "sample_key ''k1'' 1" and p = 0])
      (simp_all add: s v ttl sk_available_def offered_def sample_key_def)
  with first show ?thesis by blast
qed

theorem concurrency_slots_exact_witness:
  "active_at (fst (fold slot_step [AcquireSlot ''p'' ''k'' (Some 1), AcquireSlot ''p'' ''k'' (Some 1),
     ReleaseSlot 0, ReleaseSlot 0, AcquireSlot ''p'' ''k'' (Some 1)] (new_routing, []))) (''p'', ''k'') \<le> 1"
proof -
  let ?xs = "[AcquireSlot ''p'' ''k'' (Some 1), AcquireSlot ''p'' ''k'' (Some 1),
     ReleaseSlot 0, ReleaseSlot 0, AcquireSlot ''p'' ''k'' (Some 1)]"
  obtain rt ls where r: "fold slot_step ?xs (new_routing, []) = (rt, ls)" by fastforce
  from concurrency_slots_exact[OF _ _ r, of "(''p'', ''k'')" 1] r show ?thesis by simp
qed

end
