(* ===== verification/Upload_Admission.thy ===== *)
theory Upload_Admission
  imports Gateway_Prelude
begin

text \<open>
  The weighted first-come-first-served admission of uploads (\<open>services/upload_admission.py\<close>).

  A suspended \<open>acquire\<close> is an entry of the waiter queue and a future; futures and leases are
  numbered in the order of their creation. What the event loop may do to a suspended call is an
  operation of its own: its timeout fires, or its task is cancelled (the future itself is
  shielded). Affinity to one event loop is not modelled.
\<close>

section \<open>Data\<close>

datatype upload_future = FutPending | FutLease nat | FutClosed | FutCancelled

record upload_lease =
  ul_weight :: int
  ul_released :: bool

record upload_admission =
  ua_max_bytes :: int
  ua_active_bytes :: int
  ua_active_leases :: int
  ua_high_water_bytes :: int
  ua_failures :: int
  ua_last_reason :: "string option"
  ua_closed :: bool
  ua_waiters :: "(nat \<times> int) list"
  ua_futures :: "upload_future list"
  ua_leases :: "upload_lease list"

fun positive_weight :: "py_num \<Rightarrow> int option" where
  "positive_weight (PyInt n) = (if n \<le> 0 then None else Some n)"
| "positive_weight _ = None"

fun positive_timeout_ok :: "py_num option \<Rightarrow> bool" where
  "positive_timeout_ok None = True"
| "positive_timeout_ok (Some (PyInt n)) = (0 < n \<and> \<not> float_overflow (of_int n))"
| "positive_timeout_ok (Some (PyFloat x)) = (0 < x)"
| "positive_timeout_ok (Some _) = False"

definition new_upload_admission :: "py_num \<Rightarrow> upload_admission option" where
  "new_upload_admission max_bytes =
     map_option (\<lambda>m. \<lparr>ua_max_bytes = m, ua_active_bytes = 0, ua_active_leases = 0,
       ua_high_water_bytes = 0, ua_failures = 0, ua_last_reason = None, ua_closed = False,
       ua_waiters = [], ua_futures = [], ua_leases = []\<rparr>) (positive_weight max_bytes)"

record upload_snapshot =
  us_max_bytes :: int
  us_active_bytes :: int
  us_active_leases :: int
  us_waiters :: nat
  us_high_water_bytes :: int
  us_failures :: int
  us_last_reason :: "string option"
  us_closed :: bool

definition upload_snapshot_of :: "upload_admission \<Rightarrow> upload_snapshot" where
  "upload_snapshot_of s = \<lparr>us_max_bytes = ua_max_bytes s, us_active_bytes = ua_active_bytes s,
     us_active_leases = ua_active_leases s, us_waiters = length (ua_waiters s),
     us_high_water_bytes = ua_high_water_bytes s, us_failures = ua_failures s,
     us_last_reason = ua_last_reason s, us_closed = ua_closed s\<rparr>"

section \<open>Granting and draining\<close>

definition ua_fits :: "int \<Rightarrow> upload_admission \<Rightarrow> bool" where
  "ua_fits w s \<longleftrightarrow> ua_active_bytes s + w \<le> ua_max_bytes s"

definition ua_grant :: "int \<Rightarrow> upload_admission \<Rightarrow> upload_admission \<times> nat" where
  "ua_grant w s =
     (s\<lparr>ua_active_bytes := ua_active_bytes s + w,
        ua_active_leases := ua_active_leases s + 1,
        ua_high_water_bytes := max (ua_high_water_bytes s) (ua_active_bytes s + w),
        ua_leases := ua_leases s @ [\<lparr>ul_weight = w, ul_released = False\<rparr>]\<rparr>,
      length (ua_leases s))"

text \<open>One waiter leaves the head of the queue: skipped when its future is already done.\<close>

definition ua_serve :: "nat \<times> int \<Rightarrow> upload_admission \<Rightarrow> upload_admission" where
  "ua_serve wt s =
     (if ua_futures s ! fst wt \<noteq> FutPending then s
      else case ua_grant (snd wt) s of
        (s', l) \<Rightarrow> s'\<lparr>ua_futures := (ua_futures s')[fst wt := FutLease l]\<rparr>)"

fun ua_drain_loop :: "(nat \<times> int) list \<Rightarrow> upload_admission \<Rightarrow> (nat \<times> int) list \<times> upload_admission" where
  "ua_drain_loop [] s = ([], s)"
| "ua_drain_loop (wt # wts) s =
     (if ua_closed s then (wt # wts, s)
      else if \<not> ua_fits (snd wt) s then (wt # wts, s)
      else ua_drain_loop wts (ua_serve wt s))"

definition ua_drain :: "upload_admission \<Rightarrow> upload_admission" where
  "ua_drain s = (case ua_drain_loop (ua_waiters s) s of (wts, s') \<Rightarrow> s'\<lparr>ua_waiters := wts\<rparr>)"

interpretation upload_fifo: fifo_drain "\<lambda>s wt. \<not> ua_closed s \<and> ua_fits (snd wt) s" ua_serve ua_drain_loop
  by unfold_locales auto

section \<open>Operations\<close>

definition ua_record_failure :: "string \<Rightarrow> upload_admission \<Rightarrow> upload_admission" where
  "ua_record_failure reason s = s\<lparr>ua_failures := ua_failures s + 1, ua_last_reason := Some reason\<rparr>"

text \<open>\<open>_release\<close>; the flag is the \<open>RuntimeError\<close> for an inconsistent state.\<close>

definition ua_release :: "int \<Rightarrow> upload_admission \<Rightarrow> upload_admission \<times> bool" where
  "ua_release w s =
     (if w > ua_active_bytes s \<or> ua_active_leases s \<le> 0 then (s, True)
      else (ua_drain (s\<lparr>ua_active_bytes := ua_active_bytes s - w,
               ua_active_leases := ua_active_leases s - 1\<rparr>), False))"

definition release_upload_lease :: "nat \<Rightarrow> upload_admission \<Rightarrow> upload_admission \<times> bool" where
  "release_upload_lease l s =
     (if l < length (ua_leases s) \<and> \<not> ul_released (ua_leases s ! l)
      then ua_release (ul_weight (ua_leases s ! l))
             (s\<lparr>ua_leases := (ua_leases s)[l := (ua_leases s ! l)\<lparr>ul_released := True\<rparr>]\<rparr>)
      else (s, False))"

datatype acquire_outcome =
  AcqInvalid
| AcqTooLarge int int
| AcqClosed
| AcqGranted nat
| AcqWaiting nat

definition upload_acquire :: "py_num \<Rightarrow> py_num option \<Rightarrow> upload_admission \<Rightarrow> upload_admission \<times> acquire_outcome" where
  "upload_acquire weight timeout s =
     (case positive_weight weight of
        None \<Rightarrow> (s, AcqInvalid)
      | Some w \<Rightarrow>
          (if \<not> positive_timeout_ok timeout then (s, AcqInvalid)
           else if w > ua_max_bytes s
           then (ua_record_failure ''weight_too_large'' s, AcqTooLarge w (ua_max_bytes s))
           else if ua_closed s then (ua_record_failure ''closed'' s, AcqClosed)
           else if ua_waiters s = [] \<and> ua_fits w s
           then (case ua_grant w s of (s', l) \<Rightarrow> (s', AcqGranted l))
           else (s\<lparr>ua_futures := ua_futures s @ [FutPending],
                   ua_waiters := ua_waiters s @ [(length (ua_futures s), w)]\<rparr>,
                 AcqWaiting (length (ua_futures s)))))"

definition ua_withdraw :: "nat \<Rightarrow> upload_admission \<Rightarrow> upload_admission \<times> bool" where
  "ua_withdraw f s =
     (if f \<in> fst ` set (ua_waiters s)
      then (ua_drain (s\<lparr>ua_waiters := filter (\<lambda>wt. fst wt \<noteq> f) (ua_waiters s),
               ua_futures := (if ua_futures s ! f = FutPending then (ua_futures s)[f := FutCancelled]
                              else ua_futures s)\<rparr>), False)
      else if f < length (ua_futures s)
      then (case ua_futures s ! f of FutLease l \<Rightarrow> release_upload_lease l s | _ \<Rightarrow> (s, False))
      else (s, False))"

definition upload_timeout :: "nat \<Rightarrow> upload_admission \<Rightarrow> upload_admission \<times> bool" where
  "upload_timeout f s = (case ua_withdraw f s of (s', bad) \<Rightarrow>
     (if bad then s' else ua_record_failure ''timeout'' s', bad))"

definition upload_cancel :: "nat \<Rightarrow> upload_admission \<Rightarrow> upload_admission \<times> bool" where
  "upload_cancel f s = ua_withdraw f s"

definition upload_close :: "upload_admission \<Rightarrow> upload_admission" where
  "upload_close s =
     (if ua_closed s then s
      else s\<lparr>ua_closed := True, ua_waiters := [],
             ua_futures := fold (\<lambda>wt fs. if fs ! fst wt = FutPending then fs[fst wt := FutClosed] else fs)
               (ua_waiters s) (ua_futures s)\<rparr>)"

section \<open>One step per event\<close>

datatype upload_op =
  UAcquire py_num "py_num option"
| UTimeout nat
| UCancel nat
| URelease nat
| UClose

fun upload_step :: "upload_op \<Rightarrow> upload_admission \<Rightarrow> upload_admission \<times> bool" where
  "upload_step (UAcquire w t) s = (fst (upload_acquire w t s), False)"
| "upload_step (UTimeout f) s = upload_timeout f s"
| "upload_step (UCancel f) s = upload_cancel f s"
| "upload_step (URelease l) s = release_upload_lease l s"
| "upload_step UClose s = (upload_close s, False)"

section \<open>Invariant\<close>

abbreviation held_bytes :: "upload_lease \<Rightarrow> int" where
  "held_bytes l \<equiv> (if ul_released l then 0 else ul_weight l)"

abbreviation held_one :: "upload_lease \<Rightarrow> int" where
  "held_one l \<equiv> (if ul_released l then 0 else 1)"

definition ua_counters_ok :: "upload_admission \<Rightarrow> bool" where
  "ua_counters_ok s \<longleftrightarrow>
     ua_active_bytes s = (\<Sum>l\<leftarrow>ua_leases s. held_bytes l) \<and>
     ua_active_leases s = (\<Sum>l\<leftarrow>ua_leases s. held_one l) \<and>
     ua_active_bytes s \<le> ua_high_water_bytes s \<and> ua_high_water_bytes s \<le> ua_max_bytes s \<and>
     (\<forall>l\<in>set (ua_leases s). 0 < ul_weight l)"

definition ua_waiters_ok :: "(nat \<times> int) list \<Rightarrow> upload_admission \<Rightarrow> bool" where
  "ua_waiters_ok wts s \<longleftrightarrow> sorted_wrt (<) (map fst wts) \<and>
     (\<forall>wt\<in>set wts. fst wt < length (ua_futures s) \<and> ua_futures s ! fst wt = FutPending \<and>
        0 < snd wt \<and> snd wt \<le> ua_max_bytes s)"

definition ua_core :: "(nat \<times> int) list \<Rightarrow> upload_admission \<Rightarrow> bool" where
  "ua_core wts s \<longleftrightarrow> ua_counters_ok s \<and> ua_waiters_ok wts s"

definition upload_ok :: "upload_admission \<Rightarrow> bool" where
  "upload_ok s \<longleftrightarrow> ua_core (ua_waiters s) s \<and> (ua_closed s \<longrightarrow> ua_waiters s = []) \<and>
     (ua_waiters s \<noteq> [] \<longrightarrow> \<not> ua_fits (snd (hd (ua_waiters s))) s)"

lemma ua_core_serve:
  assumes "ua_core (wt # wts) s" and "ua_fits (snd wt) s"
  shows "ua_core wts (ua_serve wt s)"
  using assms
  by (auto simp: ua_core_def ua_counters_ok_def ua_waiters_ok_def ua_serve_def ua_grant_def ua_fits_def
      nth_list_update)

lemma ua_core_waiters [simp]: "ua_core wts (s\<lparr>ua_waiters := x\<rparr>) = ua_core wts s"
  by (simp add: ua_core_def ua_counters_ok_def ua_waiters_ok_def)

lemma ua_serve_closed [simp]: "ua_closed (ua_serve wt s) = ua_closed s"
  by (simp add: ua_serve_def ua_grant_def)

lemma drain_loop_closed: "ua_drain_loop wts s = (rest, s') \<Longrightarrow> ua_closed s' = ua_closed s"
  by (induction wts arbitrary: s) (auto split: if_splits)

lemma ua_drain_ok:
  assumes "ua_core (ua_waiters s) s" and "ua_closed s \<longrightarrow> ua_waiters s = []"
  shows "upload_ok (ua_drain s)"
proof -
  obtain rest s' where dl: "ua_drain_loop (ua_waiters s) s = (rest, s')" by fastforce
  have core: "ua_core rest s'"
    using upload_fifo.drain_invariant[of ua_core, OF _ assms(1) dl] ua_core_serve by blast
  have closed: "ua_closed s' = ua_closed s" by (rule drain_loop_closed[OF dl])
  have "ua_closed s \<Longrightarrow> rest = []" using assms(2) dl by auto
  with upload_fifo.drain_blocked[OF dl] core closed dl show ?thesis
    by (auto simp: upload_ok_def ua_drain_def ua_fits_def)
qed

lemma release_lease_ok:
  assumes "upload_ok s"
  shows "upload_ok (fst (release_upload_lease l s)) \<and> \<not> snd (release_upload_lease l s)"
proof (cases "l < length (ua_leases s) \<and> \<not> ul_released (ua_leases s ! l)")
  case False
  with assms show ?thesis by (auto simp: release_upload_lease_def)
next
  case True
  let ?w = "ul_weight (ua_leases s ! l)"
  let ?ls = "(ua_leases s)[l := (ua_leases s ! l)\<lparr>ul_released := True\<rparr>]"
  let ?s = "s\<lparr>ua_leases := ?ls, ua_active_bytes := ua_active_bytes s - ?w,
      ua_active_leases := ua_active_leases s - 1\<rparr>"
  have ok: "ua_counters_ok s" "ua_waiters_ok (ua_waiters s) s" "ua_closed s \<longrightarrow> ua_waiters s = []"
    using assms by (simp_all add: upload_ok_def ua_core_def)
  have pos: "0 < ?w" "\<forall>x\<in>set (ua_leases s). 0 < ul_weight x" using ok(1) True by (simp_all add: ua_counters_ok_def)
  have nonneg: "\<forall>x\<in>set (ua_leases s). 0 \<le> held_bytes x" "\<forall>x\<in>set (ua_leases s). 0 \<le> held_one x"
    using pos(2) by (auto simp: less_imp_le)
  have "?w \<le> ua_active_bytes s" "1 \<le> ua_active_leases s"
    using sum_ge_nth[of l "ua_leases s" held_bytes] sum_ge_nth[of l "ua_leases s" held_one] nonneg ok(1) True
    by (simp_all add: ua_counters_ok_def)
  then have r: "release_upload_lease l s = (ua_drain ?s, False)"
    using True by (simp add: release_upload_lease_def ua_release_def)
  have low: "ua_active_bytes s - ?w \<le> ua_high_water_bytes s"
    using ok(1) pos(1) by (simp add: ua_counters_ok_def)
  have "ua_counters_ok ?s"
    using ok(1) True pos low sum_update[of l "ua_leases s" held_bytes "(ua_leases s ! l)\<lparr>ul_released := True\<rparr>"]
      sum_update[of l "ua_leases s" held_one "(ua_leases s ! l)\<lparr>ul_released := True\<rparr>"]
    by (auto simp: ua_counters_ok_def dest!: set_update_subset_insert[THEN subsetD])
  moreover have "ua_waiters_ok (ua_waiters s) ?s" using ok(2) by (simp add: ua_waiters_ok_def)
  ultimately have "upload_ok (ua_drain ?s)" using ok(3) by (intro ua_drain_ok) (simp_all add: ua_core_def)
  with r show ?thesis by simp
qed

lemma upload_ok_drainD: "upload_ok s \<Longrightarrow> ua_core (ua_waiters s) s \<and> (ua_closed s \<longrightarrow> ua_waiters s = [])"
  by (simp add: upload_ok_def)

lemma record_failure_ok [simp]: "upload_ok (ua_record_failure r s) = upload_ok s"
  by (simp add: upload_ok_def ua_core_def ua_counters_ok_def ua_waiters_ok_def ua_fits_def ua_record_failure_def)

lemma upload_acquire_ok:
  assumes "upload_ok s"
  shows "upload_ok (fst (upload_acquire w t s))"
proof (cases "positive_weight w")
  case None
  with assms show ?thesis by (simp add: upload_acquire_def)
next
  case (Some n)
  have pos: "0 < n" using Some by (cases w) (auto split: if_splits)
  consider (invalid) "\<not> positive_timeout_ok t" | (large) "positive_timeout_ok t" "n > ua_max_bytes s"
    | (closed) "positive_timeout_ok t" "n \<le> ua_max_bytes s" "ua_closed s"
    | (now) "positive_timeout_ok t" "n \<le> ua_max_bytes s" "\<not> ua_closed s" "ua_waiters s = []" "ua_fits n s"
    | (wait) "positive_timeout_ok t" "n \<le> ua_max_bytes s" "\<not> ua_closed s" "\<not> (ua_waiters s = [] \<and> ua_fits n s)"
    by fastforce
  then show ?thesis
  proof cases
    case invalid
    with assms Some show ?thesis by (simp add: upload_acquire_def)
  next
    case large
    with assms Some show ?thesis by (simp add: upload_acquire_def)
  next
    case closed
    with assms Some show ?thesis by (simp add: upload_acquire_def)
  next
    case now
    with assms Some pos show ?thesis
      by (auto simp: upload_acquire_def upload_ok_def ua_core_def ua_counters_ok_def ua_waiters_ok_def
          ua_grant_def ua_fits_def)
  next
    case wait
    with assms Some pos show ?thesis
      by (cases "ua_waiters s")
        (auto simp: upload_acquire_def upload_ok_def ua_core_def ua_counters_ok_def ua_waiters_ok_def
          ua_fits_def sorted_wrt_append nth_append)
  qed
qed

lemma withdraw_ok:
  assumes "upload_ok s"
  shows "upload_ok (fst (ua_withdraw f s)) \<and> \<not> snd (ua_withdraw f s)"
proof (cases "f \<in> fst ` set (ua_waiters s)")
  case True
  let ?s = "s\<lparr>ua_waiters := filter (\<lambda>wt. fst wt \<noteq> f) (ua_waiters s),
      ua_futures := (if ua_futures s ! f = FutPending then (ua_futures s)[f := FutCancelled] else ua_futures s)\<rparr>"
  have "sorted_wrt (<) (map fst (filter (\<lambda>wt. fst wt \<noteq> f) wts))" if "sorted_wrt (<) (map fst wts)" for wts :: "(nat \<times> int) list"
    using that by (induction wts) auto
  then have "ua_core (ua_waiters ?s) ?s"
    using assms by (auto simp: upload_ok_def ua_core_def ua_counters_ok_def ua_waiters_ok_def)
  then have "upload_ok (ua_drain ?s)" using assms by (intro ua_drain_ok) (auto simp: upload_ok_def)
  with True show ?thesis by (simp add: ua_withdraw_def)
next
  case False
  with assms release_lease_ok[OF assms] show ?thesis
    by (auto simp: ua_withdraw_def split: upload_future.split)
qed

lemma upload_close_ok: "upload_ok s \<Longrightarrow> upload_ok (upload_close s)"
  by (simp add: upload_ok_def upload_close_def ua_core_def ua_counters_ok_def ua_waiters_ok_def)

lemma upload_timeout_ok: "upload_ok s \<Longrightarrow> upload_ok (fst (upload_timeout f s)) \<and> \<not> snd (upload_timeout f s)"
  using withdraw_ok[of s f] by (cases "ua_withdraw f s") (simp add: upload_timeout_def)

lemma upload_step_ok: "upload_ok s \<Longrightarrow> upload_ok (fst (upload_step x s)) \<and> \<not> snd (upload_step x s)"
  by (cases x) (simp_all add: upload_acquire_ok upload_close_ok upload_timeout_ok upload_cancel_def
      withdraw_ok release_lease_ok)

interpretation upload_run: step_machine "\<lambda>x s. fst (upload_step x s)" upload_ok
  by unfold_locales (simp add: upload_step_ok)

lemma new_upload_ok: "new_upload_admission m = Some s \<Longrightarrow> upload_ok s"
  by (cases m) (auto simp: new_upload_admission_def upload_ok_def ua_core_def ua_counters_ok_def
      ua_waiters_ok_def split: if_splits)

section \<open>Order of service\<close>

text \<open>The futures a step turns from pending to granted.\<close>

definition newly_granted :: "upload_admission \<Rightarrow> upload_admission \<Rightarrow> nat set" where
  "newly_granted s s' = {f. f < length (ua_futures s) \<and> ua_futures s ! f = FutPending \<and>
     (\<exists>l. ua_futures s' ! f = FutLease l)}"

lemma serve_futures: "length (ua_futures (ua_serve wt s)) = length (ua_futures s)"
  "f \<noteq> fst wt \<Longrightarrow> ua_futures (ua_serve wt s) ! f = ua_futures s ! f"
  by (auto simp: ua_serve_def ua_grant_def)

lemma fold_serve_futures:
  "f \<notin> fst ` set gs \<Longrightarrow> ua_futures (fold ua_serve gs s) ! f = ua_futures s ! f"
  by (induction gs arbitrary: s) (auto simp: serve_futures)

lemma drain_granted:
  assumes "sorted_wrt (<) (map fst (ua_waiters s))" and "f \<in> newly_granted s (ua_drain s)"
  shows "f \<in> fst ` set (ua_waiters s) \<and> (\<forall>wt\<in>set (ua_waiters (ua_drain s)). f < fst wt)"
proof -
  obtain rest s' where dl: "ua_drain_loop (ua_waiters s) s = (rest, s')" by fastforce
  from upload_fifo.drain_prefix[OF dl] obtain gs where gs: "ua_waiters s = gs @ rest" "s' = fold ua_serve gs s"
    by blast
  have "f \<in> fst ` set gs"
  proof (rule ccontr)
    assume "f \<notin> fst ` set gs"
    then have "ua_futures s' ! f = ua_futures s ! f" using gs(2) by (simp add: fold_serve_futures)
    with assms(2) dl show False by (auto simp: newly_granted_def ua_drain_def)
  qed
  moreover have "ua_waiters (ua_drain s) = rest" by (simp add: ua_drain_def dl)
  ultimately show ?thesis using assms(1) gs(1) by (auto simp: sorted_wrt_append)
qed

lemma granted_by_drain:
  assumes "sorted_wrt (<) (map fst (ua_waiters t))" and "f \<in> newly_granted s (ua_drain t)"
    and "f < length (ua_futures t)" and "ua_futures t ! f = FutPending"
  shows "f \<in> fst ` set (ua_waiters t) \<and> (\<forall>wt\<in>set (ua_waiters (ua_drain t)). f < fst wt)"
  using assms(2-4) by (intro drain_granted[OF assms(1)]) (simp add: newly_granted_def)

lemma release_granted:
  assumes "upload_ok s" and "f \<in> newly_granted s (fst (release_upload_lease l s))"
  shows "f \<in> fst ` set (ua_waiters s) \<and>
    (\<forall>wt\<in>set (ua_waiters (fst (release_upload_lease l s))). f < fst wt)"
proof (cases "l < length (ua_leases s) \<and> \<not> ul_released (ua_leases s ! l)")
  case False
  with assms(2) show ?thesis by (auto simp: release_upload_lease_def newly_granted_def)
next
  case True
  let ?s = "s\<lparr>ua_leases := (ua_leases s)[l := (ua_leases s ! l)\<lparr>ul_released := True\<rparr>],
      ua_active_bytes := ua_active_bytes s - ul_weight (ua_leases s ! l),
      ua_active_leases := ua_active_leases s - 1\<rparr>"
  have r: "fst (release_upload_lease l s) = ua_drain ?s"
    using True release_lease_ok[OF assms(1), of l] by (auto simp: release_upload_lease_def ua_release_def split: if_splits)
  have "sorted_wrt (<) (map fst (ua_waiters ?s))"
    using assms(1) by (simp add: upload_ok_def ua_core_def ua_waiters_ok_def)
  from granted_by_drain[OF this, of f s] assms(2) r show ?thesis by (auto simp: newly_granted_def)
qed

lemma withdraw_granted:
  assumes "upload_ok s" and "f \<in> newly_granted s (fst (ua_withdraw g s))"
  shows "f \<in> fst ` set (ua_waiters s) \<and> (\<forall>wt\<in>set (ua_waiters (fst (ua_withdraw g s))). f < fst wt)"
proof (cases "g \<in> fst ` set (ua_waiters s)")
  case False
  with assms release_granted[OF assms(1), of f] show ?thesis
    by (auto simp: ua_withdraw_def newly_granted_def split: upload_future.splits if_splits)
next
  case True
  let ?s = "s\<lparr>ua_waiters := filter (\<lambda>wt. fst wt \<noteq> g) (ua_waiters s),
      ua_futures := (if ua_futures s ! g = FutPending then (ua_futures s)[g := FutCancelled] else ua_futures s)\<rparr>"
  have r: "fst (ua_withdraw g s) = ua_drain ?s" using True by (simp add: ua_withdraw_def)
  have srt: "sorted_wrt (<) (map fst (ua_waiters ?s))"
    using assms(1) sorted_wrt_filter[of "\<lambda>x y. fst x < fst y" "ua_waiters s"]
    by (simp add: upload_ok_def ua_core_def ua_waiters_ok_def sorted_wrt_map)
  have pend: "ua_futures s ! g = FutPending" "g < length (ua_futures s)"
    using assms(1) True by (auto simp: upload_ok_def ua_core_def ua_waiters_ok_def)
  have fg: "f \<noteq> g"
  proof
    assume "f = g"
    obtain rest s' where dl: "ua_drain_loop (ua_waiters ?s) ?s = (rest, s')" by fastforce
    from upload_fifo.drain_prefix[OF dl] obtain gs where gs: "ua_waiters ?s = gs @ rest" "s' = fold ua_serve gs ?s"
      by blast
    have "g \<notin> fst ` set (ua_waiters ?s)" by auto
    then have "g \<notin> fst ` set gs" using gs(1) by auto
    then have "ua_futures s' ! g = FutCancelled" using gs(2) pend by (simp add: fold_serve_futures)
    with assms(2) r dl \<open>f = g\<close> show False by (auto simp: newly_granted_def ua_drain_def)
  qed
  with assms(2) have "f < length (ua_futures ?s)" "ua_futures ?s ! f = FutPending"
    by (auto simp: newly_granted_def nth_list_update)
  from granted_by_drain[OF srt _ this, of s] assms(2) r show ?thesis by auto
qed

lemma step_granted:
  assumes "upload_ok s" and "f \<in> newly_granted s (fst (upload_step x s))"
  shows "f \<in> fst ` set (ua_waiters s) \<and> (\<forall>wt\<in>set (ua_waiters (fst (upload_step x s))). f < fst wt)"
proof (cases x)
  case (UAcquire w t)
  have "newly_granted s (fst (upload_acquire w t s)) = {}"
    by (auto simp: newly_granted_def upload_acquire_def ua_record_failure_def ua_grant_def nth_append
        split: option.splits if_splits)
  with assms(2) UAcquire show ?thesis by simp
next
  case (UTimeout g)
  have "ua_futures (fst (upload_timeout g s)) = ua_futures (fst (ua_withdraw g s))"
    "ua_waiters (fst (upload_timeout g s)) = ua_waiters (fst (ua_withdraw g s))"
    by (auto simp: upload_timeout_def ua_record_failure_def split: prod.split)
  with assms UTimeout withdraw_granted[OF assms(1), of f g] show ?thesis
    by (simp add: newly_granted_def)
next
  case (UCancel g)
  with assms withdraw_granted[OF assms(1), of f g] show ?thesis by (simp add: upload_cancel_def)
next
  case (URelease l)
  with assms release_granted[OF assms(1), of f l] show ?thesis by simp
next
  case UClose
  have never: "fold (\<lambda>wt fs. if fs ! fst wt = FutPending then fs[fst wt := FutClosed] else fs) wts fs ! g \<noteq> FutLease l"
    if "g < length fs" "fs ! g = FutPending \<or> fs ! g = FutClosed" for wts :: "(nat \<times> int) list" and fs g l
    using that
  proof (induction wts arbitrary: fs)
    case Nil
    then show ?case by auto
  next
    case (Cons wt wts)
    then show ?case by (cases "fst wt = g") (auto simp: nth_list_update)
  qed
  have "newly_granted s (upload_close s) = {}"
    using never by (auto simp: newly_granted_def upload_close_def)
  with assms(2) UClose show ?thesis by simp
qed

section \<open>Properties\<close>

text \<open>C32: The upload capacity is never exceeded and never leaks. In every state reachable from a new
  admission object, through any acquisitions, timeouts, cancellations (also racing a grant),
  repeated releases and closing, the bytes and leases accounted as active are exactly those of
  the leases not yet released, the bytes never pass the maximum nor the recorded high water, and
  no step runs into the inconsistent-state error.\<close>

theorem upload_capacity_exact:
  fixes s0 :: upload_admission and xs :: "upload_op list"
  assumes "new_upload_admission m = Some s0"
  defines "s \<equiv> fold (\<lambda>x s. fst (upload_step x s)) xs s0"
  shows "ua_active_bytes s = (\<Sum>l\<leftarrow>ua_leases s. held_bytes l) \<and>
         ua_active_leases s = (\<Sum>l\<leftarrow>ua_leases s. held_one l) \<and>
         ua_active_bytes s \<le> ua_high_water_bytes s \<and> ua_high_water_bytes s \<le> ua_max_bytes s \<and>
         \<not> snd (upload_step x s)"
proof -
  have ok: "upload_ok s" unfolding s_def by (rule upload_run.run_invar[OF new_upload_ok[OF assms(1)]])
  then have "ua_counters_ok s" by (simp add: upload_ok_def ua_core_def)
  with upload_step_ok[OF ok, of x] show ?thesis unfolding ua_counters_ok_def by blast
qed

definition sample_upload :: upload_admission where
  "sample_upload = \<lparr>ua_max_bytes = 10, ua_active_bytes = 0, ua_active_leases = 0, ua_high_water_bytes = 0,
     ua_failures = 0, ua_last_reason = None, ua_closed = False, ua_waiters = [], ua_futures = [],
     ua_leases = []\<rparr>"

lemma sample_upload_new: "new_upload_admission (PyInt 10) = Some sample_upload"
  by (simp add: new_upload_admission_def sample_upload_def)

theorem upload_capacity_exact_witness:
  "ua_active_bytes (fold (\<lambda>x s. fst (upload_step x s))
     [UAcquire (PyInt 7) None, UAcquire (PyInt 5) None, URelease 0, URelease 0] sample_upload) \<le>
   ua_max_bytes (fold (\<lambda>x s. fst (upload_step x s))
     [UAcquire (PyInt 7) None, UAcquire (PyInt 5) None, URelease 0, URelease 0] sample_upload)"
  using upload_capacity_exact[OF sample_upload_new,
      of "[UAcquire (PyInt 7) None, UAcquire (PyInt 5) None, URelease 0, URelease 0]" UClose]
  by linarith

text \<open>Uploads are admitted strictly in order of arrival and capacity is not left idle. In every
  reachable state the waiters stand in order of arrival and the first one does not fit; an
  acquisition is granted at once only when nobody waits; and whoever a step grants came before
  everybody still waiting after it, however small their weights.\<close>

theorem upload_strict_fifo:
  fixes s0 :: upload_admission and xs :: "upload_op list"
  assumes "new_upload_admission m = Some s0"
  defines "s \<equiv> fold (\<lambda>x s. fst (upload_step x s)) xs s0"
  shows "sorted_wrt (<) (map fst (ua_waiters s)) \<and>
         (ua_waiters s \<noteq> [] \<longrightarrow> \<not> ua_fits (snd (hd (ua_waiters s))) s) \<and>
         (\<forall>w t l. snd (upload_acquire w t s) = AcqGranted l \<longrightarrow> ua_waiters s = []) \<and>
         (\<forall>f\<in>newly_granted s (fst (upload_step x s)).
            \<forall>wt\<in>set (ua_waiters (fst (upload_step x s))). f < fst wt)"
proof -
  have ok: "upload_ok s" unfolding s_def by (rule upload_run.run_invar[OF new_upload_ok[OF assms(1)]])
  have "snd (upload_acquire w t s) = AcqGranted l \<Longrightarrow> ua_waiters s = []" for w t l
    by (auto simp: upload_acquire_def ua_grant_def split: option.splits if_splits)
  with ok step_granted[OF ok, of _ x] show ?thesis
    by (auto simp: upload_ok_def ua_core_def ua_waiters_ok_def)
qed

theorem upload_strict_fifo_witness:
  "\<not> ua_fits 5 (fold (\<lambda>x s. fst (upload_step x s))
     [UAcquire (PyInt 7) None, UAcquire (PyInt 5) None, UAcquire (PyInt 1) None] sample_upload)"
  using upload_strict_fifo[OF sample_upload_new,
      of "[UAcquire (PyInt 7) None, UAcquire (PyInt 5) None, UAcquire (PyInt 1) None]" UClose]
  by (simp add: upload_acquire_def sample_upload_def ua_grant_def ua_fits_def)

end
