(* ===== verification/Stream_Capacity.thy ===== *)
theory Stream_Capacity
  imports Gateway_Prelude
begin

text \<open>
  The process-wide capacity of stream observation (\<open>StreamObservationCapacity\<close> and
  \<open>StreamObservationLease\<close> in \<open>services/stream_observation.py\<close>): first-come-first-served
  admission by items and bytes, and leases whose bytes are consumed, transferred and released.

  A suspended \<open>acquire\<close> is an entry of the queue and a future. The task awaits the future itself,
  so a cancellation first marks a pending future cancelled and only later runs the handler of
  the call; both are operations. Affinity to one event loop is not modelled: all calls come from
  the capacity's loop, and there is one capacity.
\<close>

section \<open>Data\<close>

datatype stream_future = SfPending | SfLease nat | SfError | SfCancelled

record stream_lease =
  sl_owns_item :: bool
  sl_remaining :: int

record stream_capacity =
  sc_max_items :: int
  sc_max_bytes :: int
  sc_active_items :: int
  sc_active_bytes :: int
  sc_waiting_bytes :: int
  sc_high_water_items :: int
  sc_high_water_bytes :: int
  sc_failures :: int
  sc_last_reason :: "string option"
  sc_closed :: bool
  sc_waiters :: "(nat \<times> int) list"
  sc_futures :: "stream_future list"
  sc_leases :: "stream_lease list"

fun positive_count :: "py_num \<Rightarrow> int option" where
  "positive_count (PyInt n) = (if n \<le> 0 then None else Some n)"
| "positive_count _ = None"

definition new_stream_capacity :: "py_num \<Rightarrow> py_num \<Rightarrow> stream_capacity option" where
  "new_stream_capacity items bytes =
     (case (positive_count items, positive_count bytes) of
        (Some i, Some b) \<Rightarrow> Some \<lparr>sc_max_items = i, sc_max_bytes = b, sc_active_items = 0,
          sc_active_bytes = 0, sc_waiting_bytes = 0, sc_high_water_items = 0,
          sc_high_water_bytes = 0, sc_failures = 0, sc_last_reason = None, sc_closed = False,
          sc_waiters = [], sc_futures = [], sc_leases = []\<rparr>
      | _ \<Rightarrow> None)"

record stream_snapshot =
  ss_max_items :: int
  ss_max_bytes :: int
  ss_active_items :: int
  ss_active_bytes :: int
  ss_waiters :: nat
  ss_high_water_items :: int
  ss_high_water_bytes :: int
  ss_failures :: int
  ss_last_reason :: "string option"

definition stream_snapshot_of :: "stream_capacity \<Rightarrow> stream_snapshot" where
  "stream_snapshot_of s = \<lparr>ss_max_items = sc_max_items s, ss_max_bytes = sc_max_bytes s,
     ss_active_items = sc_active_items s, ss_active_bytes = sc_active_bytes s,
     ss_waiters = length (sc_waiters s), ss_high_water_items = sc_high_water_items s,
     ss_high_water_bytes = sc_high_water_bytes s, ss_failures = sc_failures s,
     ss_last_reason = sc_last_reason s\<rparr>"

text \<open>The pattern \<open>[a-z0-9_.-]{1,64}\<close>.\<close>

definition safe_reason_char :: "char \<Rightarrow> bool" where
  "safe_reason_char c = (let n = of_char c :: nat in
     (97 \<le> n \<and> n \<le> 122) \<or> (48 \<le> n \<and> n \<le> 57) \<or> c \<in> {CHR ''_'', CHR ''.'', CHR ''-''})"

definition safe_reason :: "string \<Rightarrow> string \<Rightarrow> string" where
  "safe_reason reason fallback =
     (if reason \<noteq> [] \<and> length reason \<le> 64 \<and> (\<forall>c\<in>set reason. safe_reason_char c) then reason else fallback)"

definition sc_record_failure :: "string \<Rightarrow> stream_capacity \<Rightarrow> stream_capacity" where
  "sc_record_failure reason s =
     s\<lparr>sc_failures := sc_failures s + 1, sc_last_reason := Some (safe_reason reason ''state_error'')\<rparr>"

section \<open>Granting and draining\<close>

definition sc_fits :: "int \<Rightarrow> stream_capacity \<Rightarrow> bool" where
  "sc_fits n s \<longleftrightarrow> sc_active_items s < sc_max_items s \<and> sc_active_bytes s + n \<le> sc_max_bytes s"

definition sc_grant :: "int \<Rightarrow> stream_capacity \<Rightarrow> stream_capacity \<times> nat" where
  "sc_grant n s =
     (s\<lparr>sc_active_items := sc_active_items s + 1,
        sc_active_bytes := sc_active_bytes s + n,
        sc_high_water_items := max (sc_high_water_items s) (sc_active_items s + 1),
        sc_high_water_bytes := max (sc_high_water_bytes s) (sc_active_bytes s + n),
        sc_leases := sc_leases s @ [\<lparr>sl_owns_item = True, sl_remaining = n\<rparr>]\<rparr>,
      length (sc_leases s))"

text \<open>A waiter whose future is done leaves the queue whether or not it fits.\<close>

definition sc_may_leave :: "stream_capacity \<Rightarrow> nat \<times> int \<Rightarrow> bool" where
  "sc_may_leave s wt \<longleftrightarrow> sc_futures s ! fst wt \<noteq> SfPending \<or> (\<not> sc_closed s \<and> sc_fits (snd wt) s)"

definition sc_serve :: "nat \<times> int \<Rightarrow> stream_capacity \<Rightarrow> stream_capacity" where
  "sc_serve wt s =
     (let s1 = s\<lparr>sc_waiting_bytes := sc_waiting_bytes s - snd wt\<rparr>
      in if sc_futures s ! fst wt \<noteq> SfPending then s1
         else case sc_grant (snd wt) s1 of
           (s2, l) \<Rightarrow> s2\<lparr>sc_futures := (sc_futures s2)[fst wt := SfLease l]\<rparr>)"

fun sc_drain_loop :: "(nat \<times> int) list \<Rightarrow> stream_capacity \<Rightarrow> (nat \<times> int) list \<times> stream_capacity" where
  "sc_drain_loop [] s = ([], s)"
| "sc_drain_loop (wt # wts) s =
     (if sc_may_leave s wt then sc_drain_loop wts (sc_serve wt s) else (wt # wts, s))"

definition sc_drain :: "stream_capacity \<Rightarrow> stream_capacity" where
  "sc_drain s = (case sc_drain_loop (sc_waiters s) s of (wts, s') \<Rightarrow> s'\<lparr>sc_waiters := wts\<rparr>)"

interpretation stream_fifo: fifo_drain sc_may_leave sc_serve sc_drain_loop
  by unfold_locales auto

text \<open>The flag is the \<open>capacity_counter_underflow\<close> error.\<close>

definition sc_release_bytes :: "int \<Rightarrow> bool \<Rightarrow> stream_capacity \<Rightarrow> stream_capacity \<times> bool" where
  "sc_release_bytes n releases_item s =
     (if n > sc_active_bytes s \<or> (releases_item \<and> sc_active_items s = 0)
      then (sc_record_failure ''capacity_counter_underflow'' s, True)
      else (sc_drain (s\<lparr>sc_active_bytes := sc_active_bytes s - n,
               sc_active_items := (if releases_item then sc_active_items s - 1 else sc_active_items s)\<rparr>),
            False))"

definition sc_release_item :: "stream_capacity \<Rightarrow> stream_capacity \<times> bool" where
  "sc_release_item s =
     (if sc_active_items s = 0 then (sc_record_failure ''capacity_counter_underflow'' s, True)
      else (sc_drain (s\<lparr>sc_active_items := sc_active_items s - 1\<rparr>), False))"

section \<open>Leases\<close>

datatype lease_error =
  CounterUnderflow
| SelfAbsorb
| AlreadyReleased
| BytesExceeded
| BytesNotPositive

definition put_lease :: "nat \<Rightarrow> stream_lease \<Rightarrow> stream_capacity \<Rightarrow> stream_capacity" where
  "put_lease l x s = s\<lparr>sc_leases := (sc_leases s)[l := x]\<rparr>"

abbreviation lease_at :: "stream_capacity \<Rightarrow> nat \<Rightarrow> stream_lease" where
  "lease_at s l \<equiv> sc_leases s ! l"

definition lease_released :: "stream_lease \<Rightarrow> bool" where
  "lease_released x \<longleftrightarrow> sl_remaining x = 0 \<and> \<not> sl_owns_item x"

definition lease_release_item :: "nat \<Rightarrow> stream_capacity \<Rightarrow> stream_capacity \<times> lease_error option" where
  "lease_release_item l s =
     (if \<not> sl_owns_item (lease_at s l) then (s, None)
      else case sc_release_item s of
        (s', True) \<Rightarrow> (s', Some CounterUnderflow)
      | (s', False) \<Rightarrow> (put_lease l ((lease_at s' l)\<lparr>sl_owns_item := False\<rparr>) s', None))"

definition lease_absorb :: "nat \<Rightarrow> nat \<Rightarrow> stream_capacity \<Rightarrow> stream_capacity \<times> lease_error option" where
  "lease_absorb l m s =
     (if m = l then (sc_record_failure ''lease_self_absorb'' s, Some SelfAbsorb)
      else if lease_released (lease_at s m)
      then (sc_record_failure ''lease_already_released'' s, Some AlreadyReleased)
      else case lease_release_item l s of
        (s1, Some e) \<Rightarrow> (s1, Some e)
      | (s1, None) \<Rightarrow>
          (case lease_release_item m s1 of
             (s2, Some e) \<Rightarrow> (s2, Some e)
           | (s2, None) \<Rightarrow>
               (let s3 = put_lease l ((lease_at s2 l)\<lparr>sl_remaining :=
                      sl_remaining (lease_at s2 l) + sl_remaining (lease_at s2 m)\<rparr>) s2
                in (put_lease m ((lease_at s3 m)\<lparr>sl_remaining := 0\<rparr>) s3, None))))"

definition lease_consume :: "nat \<Rightarrow> py_num \<Rightarrow> stream_capacity \<Rightarrow> stream_capacity \<times> lease_error option" where
  "lease_consume l count s =
     (case positive_count count of
        None \<Rightarrow> (s, Some BytesNotPositive)
      | Some n \<Rightarrow>
          (if n > sl_remaining (lease_at s l)
           then (sc_record_failure ''lease_bytes_exceeded'' s, Some BytesExceeded)
           else
             (let releases_item = (n = sl_remaining (lease_at s l) \<and> sl_owns_item (lease_at s l))
              in case sc_release_bytes n releases_item s of
                   (s', True) \<Rightarrow> (s', Some CounterUnderflow)
                 | (s', False) \<Rightarrow>
                     (put_lease l ((lease_at s' l)\<lparr>sl_remaining := sl_remaining (lease_at s' l) - n,
                        sl_owns_item := (if releases_item then False else sl_owns_item (lease_at s' l))\<rparr>) s',
                      None))))"

definition lease_release_all :: "nat \<Rightarrow> stream_capacity \<Rightarrow> stream_capacity \<times> lease_error option" where
  "lease_release_all l s =
     (if lease_released (lease_at s l) then (s, None)
      else
        (let x = lease_at s l;
             (s', bad) = (if sl_remaining x \<noteq> 0 then sc_release_bytes (sl_remaining x) (sl_owns_item x) s
                          else if sl_owns_item x then sc_release_item s else (s, False))
         in if bad then (s', Some CounterUnderflow)
            else (put_lease l \<lparr>sl_owns_item = False, sl_remaining = 0\<rparr> s', None)))"

section \<open>Operations\<close>

datatype stream_outcome =
  ScInvalid
| ScTooLarge int int
| ScClosed
| ScExhausted int
| ScGranted nat
| ScWaiting nat

definition sc_acquire :: "py_num \<Rightarrow> stream_capacity \<Rightarrow> stream_capacity \<times> stream_outcome" where
  "sc_acquire count s =
     (case positive_count count of
        None \<Rightarrow> (s, ScInvalid)
      | Some n \<Rightarrow>
          (if n > sc_max_bytes s
           then (sc_record_failure ''acquire_too_large'' s, ScTooLarge n (sc_max_bytes s))
           else if sc_closed s then (sc_record_failure ''capacity_closed'' s, ScClosed)
           else if sc_waiters s = [] \<and> sc_fits n s
           then (case sc_grant n s of (s', l) \<Rightarrow> (s', ScGranted l))
           else (s\<lparr>sc_futures := sc_futures s @ [SfPending],
                   sc_waiters := sc_waiters s @ [(length (sc_futures s), n)],
                   sc_waiting_bytes := sc_waiting_bytes s + n\<rparr>,
                 ScWaiting (length (sc_futures s)))))"

definition sc_try_acquire :: "py_num \<Rightarrow> stream_capacity \<Rightarrow> stream_capacity \<times> stream_outcome" where
  "sc_try_acquire count s =
     (case positive_count count of
        None \<Rightarrow> (s, ScInvalid)
      | Some n \<Rightarrow>
          (if n > sc_max_bytes s
           then (sc_record_failure ''acquire_too_large'' s, ScTooLarge n (sc_max_bytes s))
           else if sc_closed s then (sc_record_failure ''capacity_closed'' s, ScClosed)
           else if sc_waiters s \<noteq> [] \<or> \<not> sc_fits n s
           then (sc_record_failure ''capacity_exhausted'' s, ScExhausted n)
           else (case sc_grant n s of (s', l) \<Rightarrow> (s', ScGranted l))))"

definition sc_close :: "string \<Rightarrow> stream_capacity \<Rightarrow> stream_capacity" where
  "sc_close reason s =
     (if sc_closed s then s
      else s\<lparr>sc_closed := True, sc_last_reason := Some (safe_reason reason ''capacity_closed''),
             sc_waiting_bytes := sc_waiting_bytes s - (\<Sum>wt\<leftarrow>sc_waiters s. snd wt),
             sc_futures := fold (\<lambda>wt fs. if fs ! fst wt = SfPending then fs[fst wt := SfError] else fs)
               (sc_waiters s) (sc_futures s),
             sc_waiters := []\<rparr>)"

text \<open>Cancelling the awaiting task cancels a pending future at once; the handler runs later.\<close>

definition sc_cancel_future :: "nat \<Rightarrow> stream_capacity \<Rightarrow> stream_capacity" where
  "sc_cancel_future f s =
     (if f < length (sc_futures s) \<and> sc_futures s ! f = SfPending
      then s\<lparr>sc_futures := (sc_futures s)[f := SfCancelled]\<rparr> else s)"

definition sc_cancel_waiter :: "nat \<Rightarrow> stream_capacity \<Rightarrow> stream_capacity \<times> lease_error option" where
  "sc_cancel_waiter f s =
     (case dict_get (sc_waiters s) f of
        None \<Rightarrow>
          (if f < length (sc_futures s)
           then (case sc_futures s ! f of
                   SfLease l \<Rightarrow>
                     (case lease_release_all l s of
                        (s', Some e) \<Rightarrow> (s', Some e) | (s', None) \<Rightarrow> (sc_drain s', None))
                 | _ \<Rightarrow> (sc_drain s, None))
           else (s, None))
      | Some n \<Rightarrow>
          (sc_drain (s\<lparr>sc_waiters := filter (\<lambda>wt. fst wt \<noteq> f) (sc_waiters s),
              sc_waiting_bytes := sc_waiting_bytes s - n,
              sc_futures := (if sc_futures s ! f = SfPending then (sc_futures s)[f := SfCancelled]
                             else sc_futures s)\<rparr>), None))"

definition sc_report_failure :: "string \<Rightarrow> stream_capacity \<Rightarrow> stream_capacity" where
  "sc_report_failure reason s = sc_record_failure reason s"

section \<open>One step per event\<close>

datatype stream_op =
  SAcquire py_num
| STryAcquire py_num
| SClose string
| SReport string
| SCancelFuture nat
| SCancelHandler nat
| SReleaseItem nat
| SAbsorb nat nat
| SConsume nat py_num
| SReleaseAll nat

fun stream_step :: "stream_op \<Rightarrow> stream_capacity \<Rightarrow> stream_capacity \<times> lease_error option" where
  "stream_step (SAcquire n) s = (fst (sc_acquire n s), None)"
| "stream_step (STryAcquire n) s = (fst (sc_try_acquire n s), None)"
| "stream_step (SClose r) s = (sc_close r s, None)"
| "stream_step (SReport r) s = (sc_report_failure r s, None)"
| "stream_step (SCancelFuture f) s = (sc_cancel_future f s, None)"
| "stream_step (SCancelHandler f) s = sc_cancel_waiter f s"
| "stream_step (SReleaseItem l) s = (if l < length (sc_leases s) then lease_release_item l s else (s, None))"
| "stream_step (SAbsorb l m) s =
     (if l < length (sc_leases s) \<and> m < length (sc_leases s) then lease_absorb l m s else (s, None))"
| "stream_step (SConsume l n) s = (if l < length (sc_leases s) then lease_consume l n s else (s, None))"
| "stream_step (SReleaseAll l) s = (if l < length (sc_leases s) then lease_release_all l s else (s, None))"

section \<open>Invariant\<close>

text \<open>
  While a lease operation runs, the counters are ahead of the lease by the items and bytes just
  given back: the two numbers \<open>di\<close> and \<open>db\<close>.
\<close>

abbreviation lease_items :: "stream_capacity \<Rightarrow> int" where
  "lease_items s \<equiv> (\<Sum>x\<leftarrow>sc_leases s. if sl_owns_item x then 1 else 0)"

abbreviation lease_bytes :: "stream_capacity \<Rightarrow> int" where
  "lease_bytes s \<equiv> (\<Sum>x\<leftarrow>sc_leases s. sl_remaining x)"

definition sc_counters_ok :: "int \<Rightarrow> int \<Rightarrow> stream_capacity \<Rightarrow> bool" where
  "sc_counters_ok di db s \<longleftrightarrow>
     sc_active_items s + di = lease_items s \<and> sc_active_bytes s + db = lease_bytes s \<and>
     0 \<le> sc_active_items s \<and> sc_active_items s \<le> sc_high_water_items s \<and>
     sc_high_water_items s \<le> sc_max_items s \<and>
     0 \<le> sc_active_bytes s \<and> sc_active_bytes s \<le> sc_high_water_bytes s \<and>
     sc_high_water_bytes s \<le> sc_max_bytes s \<and>
     (\<forall>x\<in>set (sc_leases s). 0 \<le> sl_remaining x) \<and>
     (\<forall>l. SfLease l \<in> set (sc_futures s) \<longrightarrow> l < length (sc_leases s))"

definition sc_waiters_ok :: "(nat \<times> int) list \<Rightarrow> stream_capacity \<Rightarrow> bool" where
  "sc_waiters_ok wts s \<longleftrightarrow> sorted_wrt (<) (map fst wts) \<and>
     sc_waiting_bytes s = (\<Sum>wt\<leftarrow>wts. snd wt) \<and>
     (\<forall>wt\<in>set wts. fst wt < length (sc_futures s) \<and>
        sc_futures s ! fst wt \<in> {SfPending, SfCancelled} \<and> 0 < snd wt \<and> snd wt \<le> sc_max_bytes s)"

definition sc_core :: "int \<Rightarrow> int \<Rightarrow> (nat \<times> int) list \<Rightarrow> stream_capacity \<Rightarrow> bool" where
  "sc_core di db wts s \<longleftrightarrow> sc_counters_ok di db s \<and> sc_waiters_ok wts s"

definition sc_ok_with :: "int \<Rightarrow> int \<Rightarrow> stream_capacity \<Rightarrow> bool" where
  "sc_ok_with di db s \<longleftrightarrow> sc_core di db (sc_waiters s) s \<and> (sc_closed s \<longrightarrow> sc_waiters s = []) \<and>
     (sc_waiters s \<noteq> [] \<and> sc_futures s ! fst (hd (sc_waiters s)) = SfPending \<longrightarrow>
        \<not> sc_fits (snd (hd (sc_waiters s))) s)"

abbreviation stream_ok :: "stream_capacity \<Rightarrow> bool" where
  "stream_ok s \<equiv> sc_ok_with 0 0 s"

lemmas sc_defs = sc_core_def sc_counters_ok_def sc_waiters_ok_def

lemma sc_core_serve:
  assumes "sc_core di db (wt # wts) s" and "sc_may_leave s wt"
  shows "sc_core di db wts (sc_serve wt s)"
  using assms
  by (auto simp: sc_defs sc_serve_def sc_grant_def sc_fits_def sc_may_leave_def Let_def nth_list_update
      dest!: set_update_subset_insert[THEN subsetD] intro: less_SucI)

lemma sc_serve_frame:
  "sc_closed (sc_serve wt s) = sc_closed s"
  "\<exists>xs. sc_leases (sc_serve wt s) = sc_leases s @ xs"
  by (auto simp: sc_serve_def sc_grant_def Let_def)

lemma drain_loop_frame:
  "sc_drain_loop wts s = (rest, s') \<Longrightarrow>
   sc_closed s' = sc_closed s \<and> (\<exists>xs. sc_leases s' = sc_leases s @ xs)"
proof (induction wts arbitrary: s)
  case Nil
  then show ?case by simp
next
  case (Cons wt wts)
  show ?case
  proof (cases "sc_may_leave s wt")
    case True
    with Cons.prems have "sc_drain_loop wts (sc_serve wt s) = (rest, s')" by simp
    obtain ys where "sc_leases (sc_serve wt s) = sc_leases s @ ys" using sc_serve_frame(2) by blast
    with Cons.IH[OF \<open>sc_drain_loop wts (sc_serve wt s) = (rest, s')\<close>] show ?thesis
      by (auto simp: sc_serve_frame(1))
  next
    case False
    with Cons.prems show ?thesis by auto
  qed
qed

lemma sc_core_waiters [simp]: "sc_core di db wts (s\<lparr>sc_waiters := x\<rparr>) = sc_core di db wts s"
  by (simp add: sc_defs)

lemma sc_drain_ok:
  assumes "sc_core di db (sc_waiters s) s" and "sc_closed s \<longrightarrow> sc_waiters s = []"
  shows "sc_ok_with di db (sc_drain s)" and "\<exists>xs. sc_leases (sc_drain s) = sc_leases s @ xs"
proof -
  obtain rest s' where dl: "sc_drain_loop (sc_waiters s) s = (rest, s')" by fastforce
  have core: "sc_core di db rest s'"
    using stream_fifo.drain_invariant[of "sc_core di db", OF _ assms(1) dl] sc_core_serve by blast
  note fr = drain_loop_frame[OF dl]
  have closed: "sc_closed s \<Longrightarrow> rest = []" using assms(2) dl by auto
  show "sc_ok_with di db (sc_drain s)"
    using stream_fifo.drain_blocked[OF dl] core fr dl closed
    by (auto simp: sc_ok_with_def sc_drain_def sc_fits_def sc_may_leave_def)
  show "\<exists>xs. sc_leases (sc_drain s) = sc_leases s @ xs"
    using fr dl by (simp add: sc_drain_def)
qed

lemma sc_ok_core: "sc_ok_with di db s \<Longrightarrow> sc_core di db (sc_waiters s) s \<and> (sc_closed s \<longrightarrow> sc_waiters s = [])"
  by (simp add: sc_ok_with_def)

lemma put_lease_ok:
  assumes "sc_ok_with di db s" and "l < length (sc_leases s)" and "0 \<le> sl_remaining x"
    and "di' = di + (if sl_owns_item x then 1 else 0) - (if sl_owns_item (lease_at s l) then 1 else 0)"
    and "db' = db + sl_remaining x - sl_remaining (lease_at s l)"
  shows "sc_ok_with di' db' (put_lease l x s)"
proof -
  have "\<forall>y\<in>set ((sc_leases s)[l := x]). 0 \<le> sl_remaining y"
    using assms(1,3) by (auto simp: sc_ok_with_def sc_defs dest!: set_update_subset_insert[THEN subsetD])
  with assms show ?thesis
    by (simp add: sc_ok_with_def sc_defs put_lease_def sum_update sc_fits_def)
qed

lemma lease_bounds:
  assumes "sc_ok_with 0 0 s" and "l < length (sc_leases s)"
  shows "sl_remaining (lease_at s l) \<le> sc_active_bytes s" and "0 \<le> sl_remaining (lease_at s l)"
    and "sl_owns_item (lease_at s l) \<Longrightarrow> 1 \<le> sc_active_items s"
proof -
  have nn: "\<forall>x\<in>set (sc_leases s). 0 \<le> sl_remaining x" using assms(1) by (simp add: sc_ok_with_def sc_defs)
  then show "0 \<le> sl_remaining (lease_at s l)" using assms(2) by simp
  show "sl_remaining (lease_at s l) \<le> sc_active_bytes s"
    using sum_ge_nth[of l "sc_leases s" sl_remaining] assms nn by (simp add: sc_ok_with_def sc_defs)
  show "1 \<le> sc_active_items s" if "sl_owns_item (lease_at s l)"
    using sum_ge_nth[of l "sc_leases s" "\<lambda>x. if sl_owns_item x then 1 else 0"] assms that
    by (simp add: sc_ok_with_def sc_defs)
qed

lemma release_bytes_ok:
  assumes "sc_ok_with di db s" and "0 \<le> n" and "n \<le> sc_active_bytes s" and "r \<Longrightarrow> 1 \<le> sc_active_items s"
    and "di' = (if r then di + 1 else di)" and "db' = db + n"
  shows "\<exists>s'. sc_release_bytes n r s = (s', False) \<and> sc_ok_with di' db' s' \<and>
    (\<exists>xs. sc_leases s' = sc_leases s @ xs)"
proof -
  let ?s = "s\<lparr>sc_active_bytes := sc_active_bytes s - n,
      sc_active_items := (if r then sc_active_items s - 1 else sc_active_items s)\<rparr>"
  have "sc_core di' db' (sc_waiters ?s) ?s"
    using assms by (auto simp: sc_ok_with_def sc_defs)
  moreover have "sc_closed ?s \<longrightarrow> sc_waiters ?s = []" using assms(1) by (simp add: sc_ok_with_def)
  ultimately have "sc_ok_with di' db' (sc_drain ?s)" "\<exists>xs. sc_leases (sc_drain ?s) = sc_leases ?s @ xs"
    by (rule sc_drain_ok)+
  moreover have "sc_release_bytes n r s = (sc_drain ?s, False)"
    using assms(3,4) by (auto simp: sc_release_bytes_def)
  ultimately show ?thesis by simp
qed

corollary release_bytes_from_ok:
  assumes "stream_ok s" and "0 \<le> n" and "n \<le> sc_active_bytes s" and "r \<Longrightarrow> 1 \<le> sc_active_items s"
  shows "\<exists>s' xs. sc_release_bytes n r s = (s', False) \<and> sc_ok_with (if r then 1 else 0) n s' \<and>
    sc_leases s' = sc_leases s @ xs"
  using release_bytes_ok[OF assms(1-3), of r "if r then 1 else 0" n] assms(4) by auto

lemma release_item_is_bytes: "0 \<le> sc_active_bytes s \<Longrightarrow> sc_release_item s = sc_release_bytes 0 True s"
  by (cases s) (simp add: sc_release_item_def sc_release_bytes_def)

lemma release_item_ok:
  assumes "sc_ok_with di db s" and "1 \<le> sc_active_items s"
  shows "\<exists>s'. sc_release_item s = (s', False) \<and> sc_ok_with (di + 1) db s' \<and>
    (\<exists>xs. sc_leases s' = sc_leases s @ xs)"
proof -
  have "0 \<le> sc_active_bytes s" using assms(1) by (simp add: sc_ok_with_def sc_defs)
  with release_bytes_ok[OF assms(1), of 0 True "di + 1" db] assms(2) show ?thesis
    by (simp add: release_item_is_bytes)
qed

section \<open>Every step keeps the invariant\<close>

lemma same_lease: "sc_leases s' = sc_leases s @ xs \<Longrightarrow> l < length (sc_leases s) \<Longrightarrow>
    lease_at s' l = lease_at s l \<and> l < length (sc_leases s')"
  by (simp add: nth_append)

lemma put_lease_at [simp]:
  "l < length (sc_leases s) \<Longrightarrow> lease_at (put_lease l x s) m = (if m = l then x else lease_at s m)"
  "length (sc_leases (put_lease l x s)) = length (sc_leases s)"
  by (auto simp: put_lease_def)

lemma lease_release_item_ok:
  assumes "stream_ok s" and "l < length (sc_leases s)"
  shows "\<exists>s'. lease_release_item l s = (s', None) \<and> stream_ok s' \<and>
    (\<forall>m<length (sc_leases s). m < length (sc_leases s') \<and>
       lease_at s' m = (if m = l then (lease_at s l)\<lparr>sl_owns_item := False\<rparr> else lease_at s m))"
proof (cases "sl_owns_item (lease_at s l)")
  case False
  have "(lease_at s l)\<lparr>sl_owns_item := False\<rparr> = lease_at s l"
    using False by (cases "lease_at s l") simp
  with False assms show ?thesis by (simp add: lease_release_item_def)
next
  case True
  from release_item_ok[OF assms(1) lease_bounds(3)[OF assms True]] obtain s' xs where
    r: "sc_release_item s = (s', False)" and ok: "sc_ok_with 1 0 s'" and xs: "sc_leases s' = sc_leases s @ xs"
    by auto
  note sl = same_lease[OF xs]
  have "stream_ok (put_lease l ((lease_at s' l)\<lparr>sl_owns_item := False\<rparr>) s')"
    by (rule put_lease_ok[OF ok]) (use sl[OF assms(2)] lease_bounds(2)[OF assms] True in simp_all)
  then show ?thesis
    using True r sl assms(2)
    by (intro exI[of _ "put_lease l ((lease_at s' l)\<lparr>sl_owns_item := False\<rparr>) s'"])
      (auto simp: lease_release_item_def)
qed

lemma record_failure_stream_ok [simp]: "sc_ok_with di db (sc_record_failure r s) = sc_ok_with di db s"
  by (simp add: sc_ok_with_def sc_defs sc_record_failure_def sc_fits_def)

definition stream_fine :: "stream_capacity \<times> lease_error option \<Rightarrow> bool" where
  "stream_fine r \<longleftrightarrow> stream_ok (fst r) \<and> snd r \<noteq> Some CounterUnderflow"

lemma lease_absorb_ok:
  assumes ok: "stream_ok s" and l: "l < length (sc_leases s)" and m: "m < length (sc_leases s)"
  shows "stream_fine (lease_absorb l m s)"
proof (cases "m = l \<or> lease_released (lease_at s m)")
  case True
  with ok show ?thesis by (auto simp: lease_absorb_def stream_fine_def)
next
  case False
  from lease_release_item_ok[OF ok l] obtain s1 where s1: "lease_release_item l s = (s1, None)" "stream_ok s1"
    "\<forall>k<length (sc_leases s). k < length (sc_leases s1) \<and>
       lease_at s1 k = (if k = l then (lease_at s l)\<lparr>sl_owns_item := False\<rparr> else lease_at s k)" by blast
  have m1: "m < length (sc_leases s1)" and l1: "l < length (sc_leases s1)" using s1(3) l m by blast+
  from lease_release_item_ok[OF s1(2) m1] obtain s2 where s2: "lease_release_item m s1 = (s2, None)" "stream_ok s2"
    "\<forall>k<length (sc_leases s1). k < length (sc_leases s2) \<and>
       lease_at s2 k = (if k = m then (lease_at s1 m)\<lparr>sl_owns_item := False\<rparr> else lease_at s1 k)" by blast
  have m2: "m < length (sc_leases s2)" and l2: "l < length (sc_leases s2)" using s2(3) l1 m1 by blast+
  have lm: "m \<noteq> l" using False by simp
  let ?n = "sl_remaining (lease_at s2 m)"
  let ?s3 = "put_lease l ((lease_at s2 l)\<lparr>sl_remaining := sl_remaining (lease_at s2 l) + ?n\<rparr>) s2"
  let ?s4 = "put_lease m ((lease_at ?s3 m)\<lparr>sl_remaining := 0\<rparr>) ?s3"
  have nn: "0 \<le> ?n" "0 \<le> sl_remaining (lease_at s2 l)" using lease_bounds(2)[OF s2(2)] m2 l2 by simp_all
  have "sc_ok_with 0 ?n ?s3"
    by (rule put_lease_ok[OF s2(2) l2]) (use nn in simp_all)
  then have "stream_ok ?s4"
    by (rule put_lease_ok) (use m2 l2 lm nn in simp_all)
  with False s1(1) s2(1) show ?thesis by (simp add: lease_absorb_def stream_fine_def Let_def)
qed

lemma lease_consume_ok:
  assumes ok: "stream_ok s" and l: "l < length (sc_leases s)"
  shows "stream_fine (lease_consume l c s)"
proof (cases "positive_count c")
  case None
  with ok show ?thesis by (simp add: lease_consume_def stream_fine_def)
next
  case (Some n)
  have pos: "0 < n" using Some by (cases c) (auto split: if_splits)
  let ?x = "lease_at s l"
  let ?r = "n = sl_remaining ?x \<and> sl_owns_item ?x"
  show ?thesis
  proof (cases "n > sl_remaining ?x")
    case True
    with ok Some show ?thesis by (simp add: lease_consume_def stream_fine_def)
  next
    case False
    have "n \<le> sc_active_bytes s" using lease_bounds(1)[OF ok l] False by simp
    moreover have "?r \<Longrightarrow> 1 \<le> sc_active_items s" using lease_bounds(3)[OF ok l] by blast
    ultimately obtain s' xs where r: "sc_release_bytes n ?r s = (s', False)"
      and ok': "sc_ok_with (if ?r then 1 else 0) n s'" and xs: "sc_leases s' = sc_leases s @ xs"
      using release_bytes_from_ok[OF ok, of n ?r] pos by (metis less_imp_le)
    note sl = same_lease[OF xs l]
    let ?y = "(lease_at s' l)\<lparr>sl_remaining := sl_remaining (lease_at s' l) - n,
        sl_owns_item := (if ?r then False else sl_owns_item (lease_at s' l))\<rparr>"
    have "stream_ok (put_lease l ?y s')"
      by (rule put_lease_ok[OF ok']) (use sl False in auto)
    with Some False r show ?thesis by (simp add: lease_consume_def stream_fine_def Let_def)
  qed
qed

lemma lease_release_all_ok:
  assumes ok: "stream_ok s" and l: "l < length (sc_leases s)"
  shows "stream_fine (lease_release_all l s) \<and> (\<exists>s'. lease_release_all l s = (s', None))"
proof (cases "lease_released (lease_at s l)")
  case True
  with ok show ?thesis by (simp add: lease_release_all_def stream_fine_def)
next
  case False
  let ?x = "lease_at s l"
  let ?n = "sl_remaining ?x" and ?o = "sl_owns_item ?x"
  note lb = lease_bounds[OF ok l]
  obtain s' xs where r: "sc_release_bytes ?n ?o s = (s', False)"
    and ok': "sc_ok_with (if ?o then 1 else 0) ?n s'" and xs: "sc_leases s' = sc_leases s @ xs"
    using release_bytes_from_ok[OF ok lb(2,1), of ?o] lb(3) by blast
  note sl = same_lease[OF xs l]
  have "stream_ok (put_lease l \<lparr>sl_owns_item = False, sl_remaining = 0\<rparr> s')"
    by (rule put_lease_ok[OF ok']) (use sl in auto)
  moreover have "lease_release_all l s = (put_lease l \<lparr>sl_owns_item = False, sl_remaining = 0\<rparr> s', None)"
  proof (cases "?n = 0")
    case True
    have "0 \<le> sc_active_bytes s" using ok by (simp add: sc_ok_with_def sc_defs)
    with True False r show ?thesis
      by (auto simp: lease_release_all_def lease_released_def release_item_is_bytes)
  next
    case nz: False
    with False r show ?thesis by (simp add: lease_release_all_def)
  qed
  ultimately show ?thesis by (simp add: stream_fine_def)
qed

lemma positive_count_pos: "positive_count c = Some n \<Longrightarrow> 0 < n"
  by (cases c) (auto split: if_splits)

lemma grant_ok:
  assumes "stream_ok s" and "sc_waiters s = []" and "sc_fits n s" and "0 < n"
  shows "stream_ok (fst (sc_grant n s))"
  using assms by (auto simp: sc_ok_with_def sc_defs sc_grant_def sc_fits_def)

lemma sc_acquire_ok:
  assumes ok: "stream_ok s"
  shows "stream_ok (fst (sc_acquire c s))"
proof -
  consider (fails) "positive_count c = None \<or> (\<exists>n. positive_count c = Some n \<and> (n > sc_max_bytes s \<or> sc_closed s))"
    | (now) n where "positive_count c = Some n" "\<not> n > sc_max_bytes s" "\<not> sc_closed s" "sc_waiters s = []" "sc_fits n s"
    | (wait) n where "positive_count c = Some n" "\<not> n > sc_max_bytes s" "\<not> sc_closed s"
        "\<not> (sc_waiters s = [] \<and> sc_fits n s)"
    by (cases "positive_count c") blast+
  then show ?thesis
  proof cases
    case fails
    with ok show ?thesis by (auto simp: sc_acquire_def)
  next
    case now
    with grant_ok[OF ok now(4,5) positive_count_pos[OF now(1)]] show ?thesis
      by (simp add: sc_acquire_def case_prod_beta)
  next
    case wait
    let ?f = "length (sc_futures s)"
    let ?s = "s\<lparr>sc_futures := sc_futures s @ [SfPending], sc_waiters := sc_waiters s @ [(?f, n)],
        sc_waiting_bytes := sc_waiting_bytes s + n\<rparr>"
    have "sc_core 0 0 (sc_waiters ?s) ?s"
      using ok wait positive_count_pos[OF wait(1)]
      by (auto simp: sc_ok_with_def sc_defs sorted_wrt_append nth_append)
    moreover have "sc_waiters ?s \<noteq> [] \<and> sc_futures ?s ! fst (hd (sc_waiters ?s)) = SfPending \<longrightarrow>
        \<not> sc_fits (snd (hd (sc_waiters ?s))) ?s"
      using ok wait
      by (cases "sc_waiters s") (auto simp: sc_ok_with_def sc_defs sc_fits_def nth_append split: if_splits)
    ultimately have "stream_ok ?s" using wait(3) by (simp add: sc_ok_with_def)
    moreover have "fst (sc_acquire c s) = ?s" using wait by (auto simp: sc_acquire_def)
    ultimately show ?thesis by simp
  qed
qed

lemma sc_try_acquire_ok:
  assumes ok: "stream_ok s"
  shows "stream_ok (fst (sc_try_acquire c s))"
proof (cases "\<exists>n. positive_count c = Some n \<and> \<not> n > sc_max_bytes s \<and> \<not> sc_closed s \<and>
    sc_waiters s = [] \<and> sc_fits n s")
  case True
  then obtain n where n: "positive_count c = Some n" "\<not> n > sc_max_bytes s" "\<not> sc_closed s"
    "sc_waiters s = []" "sc_fits n s" by blast
  with grant_ok[OF ok n(4,5) positive_count_pos[OF n(1)]] show ?thesis
    by (simp add: sc_try_acquire_def case_prod_beta)
next
  case False
  then have "fst (sc_try_acquire c s) = s \<or> (\<exists>r. fst (sc_try_acquire c s) = sc_record_failure r s)"
    by (auto simp: sc_try_acquire_def split: option.split)
  with ok show ?thesis by auto
qed

lemma close_futures:
  "SfLease l \<in> set (fold (\<lambda>wt fs. if fs ! fst wt = SfPending then fs[fst wt := SfError] else fs) wts fs) \<Longrightarrow>
   SfLease l \<in> set fs"
  by (induction wts arbitrary: fs) (auto split: if_splits dest!: set_update_subset_insert[THEN subsetD])

lemma sc_close_ok: "stream_ok s \<Longrightarrow> stream_ok (sc_close r s)"
  by (auto simp: sc_ok_with_def sc_defs sc_close_def dest!: close_futures)

lemma sc_cancel_future_ok: "stream_ok s \<Longrightarrow> stream_ok (sc_cancel_future f s)"
  by (auto simp: sc_ok_with_def sc_defs sc_cancel_future_def sc_fits_def nth_list_update
      dest!: set_update_subset_insert[THEN subsetD])

lemma stream_drain_ok: "stream_ok s \<Longrightarrow> stream_ok (sc_drain s)"
  using sc_drain_ok(1) sc_ok_core by blast

lemma sc_cancel_waiter_ok:
  assumes ok: "stream_ok s"
  shows "stream_fine (sc_cancel_waiter f s)"
proof (cases "dict_get (sc_waiters s) f")
  case None
  show ?thesis
  proof (cases "\<exists>l. f < length (sc_futures s) \<and> sc_futures s ! f = SfLease l")
    case True
    then obtain l where l: "f < length (sc_futures s)" "sc_futures s ! f = SfLease l" by blast
    have "SfLease l \<in> set (sc_futures s)" using l by (metis nth_mem)
    then have "l < length (sc_leases s)" using ok by (simp add: sc_ok_with_def sc_defs)
    from lease_release_all_ok[OF ok this] obtain s' where
      "lease_release_all l s = (s', None)" "stream_ok s'" by (auto simp: stream_fine_def)
    with None l stream_drain_ok[of s'] show ?thesis by (simp add: sc_cancel_waiter_def stream_fine_def)
  next
    case False
    with None ok stream_drain_ok[OF ok] show ?thesis
      by (auto simp: sc_cancel_waiter_def stream_fine_def split: stream_future.split)
  qed
next
  case (Some n)
  let ?s = "s\<lparr>sc_waiters := filter (\<lambda>wt. fst wt \<noteq> f) (sc_waiters s),
      sc_waiting_bytes := sc_waiting_bytes s - n,
      sc_futures := (if sc_futures s ! f = SfPending then (sc_futures s)[f := SfCancelled] else sc_futures s)\<rparr>"
  have w: "sc_waiters_ok (sc_waiters s) s" and c: "sc_counters_ok 0 0 s"
    using ok by (simp_all add: sc_ok_with_def sc_core_def)
  have srt: "sorted_wrt (<) (map fst (sc_waiters s))" using w by (simp add: sc_waiters_ok_def)
  have dist: "distinct (map fst (sc_waiters s))" using srt by (simp add: strict_sorted_iff)
  have "sorted_wrt (<) (map fst (sc_waiters ?s))"
    using srt sorted_wrt_filter[of "\<lambda>x y. fst x < fst y" "sc_waiters s"] by (simp add: sorted_wrt_map)
  moreover have "sc_waiting_bytes ?s = (\<Sum>wt\<leftarrow>sc_waiters ?s. snd wt)"
    using sum_dict_pop[OF dist Some, of "\<lambda>v. v"] w by (simp add: dict_pop_filter sc_waiters_ok_def)
  ultimately have "sc_waiters_ok (sc_waiters ?s) ?s"
    using w by (auto simp: sc_waiters_ok_def nth_list_update)
  moreover have "sc_counters_ok 0 0 ?s" using c
    by (auto simp: sc_counters_ok_def dest!: set_update_subset_insert[THEN subsetD])
  ultimately have "sc_core 0 0 (sc_waiters ?s) ?s" by (simp add: sc_core_def)
  moreover have "sc_closed ?s \<longrightarrow> sc_waiters ?s = []" using ok by (auto simp: sc_ok_with_def)
  ultimately have "stream_ok (sc_drain ?s)" by (rule sc_drain_ok)
  with Some show ?thesis by (simp add: sc_cancel_waiter_def stream_fine_def)
qed

lemma stream_step_ok:
  assumes "stream_ok s"
  shows "stream_fine (stream_step x s)"
proof (cases x)
  case (SReleaseItem l)
  with assms lease_release_item_ok[OF assms, of l] show ?thesis by (auto simp: stream_fine_def)
next
  case (SReleaseAll l)
  with assms lease_release_all_ok[OF assms, of l] show ?thesis by (simp add: stream_fine_def)
next
  case (SAbsorb l m)
  with assms lease_absorb_ok[OF assms, of l m] show ?thesis by (simp add: stream_fine_def)
next
  case (SConsume l n)
  with assms lease_consume_ok[OF assms, of l n] show ?thesis by (simp add: stream_fine_def)
qed (use assms sc_cancel_waiter_ok[OF assms] in \<open>simp_all add: stream_fine_def sc_acquire_ok
    sc_try_acquire_ok sc_close_ok sc_cancel_future_ok sc_report_failure_def\<close>)

interpretation stream_run: step_machine "\<lambda>x s. fst (stream_step x s)" stream_ok
  by unfold_locales (use stream_step_ok in \<open>simp add: stream_fine_def\<close>)

lemma new_stream_ok: "new_stream_capacity i b = Some s \<Longrightarrow> stream_ok s"
  by (auto simp: new_stream_capacity_def sc_ok_with_def sc_defs dest!: positive_count_pos
      split: option.splits)

lemma granted_only_when_free:
  "snd (sc_acquire c s) = ScGranted l \<or> snd (sc_try_acquire c s) = ScGranted l \<Longrightarrow>
   sc_waiters s = [] \<and> \<not> sc_closed s"
  by (auto simp: sc_acquire_def sc_try_acquire_def split: option.splits if_splits prod.splits)

section \<open>Properties\<close>

text \<open>C33: Stream observation capacity is exact. In every state reachable from a new capacity, through
  any acquisitions, cancellations (before, while or after a grant), item releases, transfers
  between leases, partial and full releases and closing, the active items and bytes are exactly
  what the leases still own, no lease owns a negative number of bytes, both counters stay below
  the configured maxima and the recorded high water, and no operation runs into the counter
  underflow error.\<close>

theorem stream_capacity_exact:
  fixes s0 :: stream_capacity and xs :: "stream_op list"
  assumes "new_stream_capacity i b = Some s0"
  defines "s \<equiv> fold (\<lambda>x s. fst (stream_step x s)) xs s0"
  shows "sc_active_items s = (\<Sum>x\<leftarrow>sc_leases s. if sl_owns_item x then 1 else 0) \<and>
         sc_active_bytes s = (\<Sum>x\<leftarrow>sc_leases s. sl_remaining x) \<and>
         (\<forall>x\<in>set (sc_leases s). 0 \<le> sl_remaining x) \<and>
         sc_active_items s \<le> sc_high_water_items s \<and> sc_high_water_items s \<le> sc_max_items s \<and>
         sc_active_bytes s \<le> sc_high_water_bytes s \<and> sc_high_water_bytes s \<le> sc_max_bytes s \<and>
         snd (stream_step x s) \<noteq> Some CounterUnderflow"
proof -
  have ok: "stream_ok s" unfolding s_def by (rule stream_run.run_invar[OF new_stream_ok[OF assms(1)]])
  then have "sc_counters_ok 0 0 s" by (simp add: sc_ok_with_def sc_core_def)
  moreover have "snd (stream_step x s) \<noteq> Some CounterUnderflow"
    using stream_step_ok[OF ok, of x] by (simp add: stream_fine_def)
  ultimately show ?thesis unfolding sc_counters_ok_def by simp
qed

definition sample_stream :: stream_capacity where
  "sample_stream = \<lparr>sc_max_items = 2, sc_max_bytes = 10, sc_active_items = 0, sc_active_bytes = 0,
     sc_waiting_bytes = 0, sc_high_water_items = 0, sc_high_water_bytes = 0, sc_failures = 0,
     sc_last_reason = None, sc_closed = False, sc_waiters = [], sc_futures = [], sc_leases = []\<rparr>"

lemma sample_stream_new: "new_stream_capacity (PyInt 2) (PyInt 10) = Some sample_stream"
  by (simp add: new_stream_capacity_def sample_stream_def)

theorem stream_capacity_exact_witness:
  "sc_active_bytes (fold (\<lambda>x s. fst (stream_step x s))
     [SAcquire (PyInt 7), SAcquire (PyInt 3), SAbsorb 0 1, SConsume 0 (PyInt 4)] sample_stream) \<le>
   sc_max_bytes (fold (\<lambda>x s. fst (stream_step x s))
     [SAcquire (PyInt 7), SAcquire (PyInt 3), SAbsorb 0 1, SConsume 0 (PyInt 4)] sample_stream)"
  using stream_capacity_exact[OF sample_stream_new,
      of "[SAcquire (PyInt 7), SAcquire (PyInt 3), SAbsorb 0 1, SConsume 0 (PyInt 4)]" "SReleaseAll 0"]
  by linarith

text \<open>Stream capacity is handed out in order and not left idle. In every reachable state the
  waiters stand in order of arrival, their bytes add up to the recorded waiting bytes, the first
  one fits only if its future is already cancelled, an acquisition (waiting or fail-fast) is
  granted at once only when nobody waits and the capacity is open, and a closed capacity has no
  waiters.\<close>

theorem stream_work_conserving:
  fixes s0 :: stream_capacity and xs :: "stream_op list"
  assumes "new_stream_capacity i b = Some s0"
  defines "s \<equiv> fold (\<lambda>x s. fst (stream_step x s)) xs s0"
  shows "sorted_wrt (<) (map fst (sc_waiters s)) \<and>
         sc_waiting_bytes s = (\<Sum>wt\<leftarrow>sc_waiters s. snd wt) \<and>
         (sc_waiters s \<noteq> [] \<longrightarrow> sc_fits (snd (hd (sc_waiters s))) s \<longrightarrow>
            sc_futures s ! fst (hd (sc_waiters s)) = SfCancelled) \<and>
         (\<forall>c l. snd (sc_acquire c s) = ScGranted l \<or> snd (sc_try_acquire c s) = ScGranted l \<longrightarrow>
            sc_waiters s = [] \<and> \<not> sc_closed s) \<and>
         (sc_closed s \<longrightarrow> sc_waiters s = [])"
proof -
  have ok: "stream_ok s" unfolding s_def by (rule stream_run.run_invar[OF new_stream_ok[OF assms(1)]])
  have w: "sc_waiters_ok (sc_waiters s) s" using ok by (simp add: sc_ok_with_def sc_core_def)
  have "sc_waiters s \<noteq> [] \<Longrightarrow> sc_fits (snd (hd (sc_waiters s))) s \<Longrightarrow>
      sc_futures s ! fst (hd (sc_waiters s)) = SfCancelled"
    using ok w by (cases "sc_waiters s") (auto simp: sc_ok_with_def sc_waiters_ok_def)
  moreover have "sc_closed s \<longrightarrow> sc_waiters s = []" using ok by (simp add: sc_ok_with_def)
  ultimately show ?thesis using w granted_only_when_free by (auto simp: sc_waiters_ok_def)
qed

theorem stream_work_conserving_witness:
  "sc_waiting_bytes (fold (\<lambda>x s. fst (stream_step x s))
     [SAcquire (PyInt 7), SAcquire (PyInt 5), SAcquire (PyInt 1)] sample_stream) =
   (\<Sum>wt\<leftarrow>[(0, 5), (1::nat, 1)]. snd wt)"
  using stream_work_conserving[OF sample_stream_new,
      of "[SAcquire (PyInt 7), SAcquire (PyInt 5), SAcquire (PyInt 1)]"]
  by (simp add: sc_acquire_def sample_stream_def sc_grant_def sc_fits_def)

end
