(* ===== verification/Sse_Framing.thy ===== *)
theory Sse_Framing
  imports Stream_Capacity "HOL-Library.Word"
begin

text \<open>
  Incremental framing of server-sent events from raw bytes (\<open>SSEFramer\<close> in
  \<open>services/stream_observation.py\<close>), and a byte-by-byte reference machine it is proved equal to.

  Bytes are 8-bit words; decoded text is a list of code points. \<open>bytes.decode\<close> is strict UTF-8.
\<close>

section \<open>Bytes and text\<close>

type_synonym byte = "8 word"
type_synonym code_points = "nat list"

abbreviation LF :: byte where "LF \<equiv> 10"
abbreviation CR :: byte where "CR \<equiv> 13"

definition codes :: "string \<Rightarrow> code_points" where
  "codes s = map of_char s"

text \<open>\<open>b.find(c, start, stop)\<close>.\<close>

definition byte_find :: "byte \<Rightarrow> byte list \<Rightarrow> nat \<Rightarrow> nat \<Rightarrow> nat option" where
  "byte_find c buf start stop = find (\<lambda>i. buf ! i = c) [start ..< min stop (length buf)]"

definition continuation :: "nat \<Rightarrow> bool" where
  "continuation b \<longleftrightarrow> 128 \<le> b \<and> b \<le> 191"

fun utf8_decode :: "nat list \<Rightarrow> code_points option" where
  "utf8_decode [] = Some []"
| "utf8_decode (a # r) =
     (if a < 128 then map_option (Cons a) (utf8_decode r)
      else case r of
        [] \<Rightarrow> None
      | b # r1 \<Rightarrow>
          (if 194 \<le> a \<and> a \<le> 223
           then (if continuation b then map_option (Cons ((a - 192) * 64 + (b - 128))) (utf8_decode r1) else None)
           else case r1 of
             [] \<Rightarrow> None
           | c # r2 \<Rightarrow>
               (if 224 \<le> a \<and> a \<le> 239
                then (if continuation b \<and> continuation c \<and> (a = 224 \<longrightarrow> 160 \<le> b) \<and> (a = 237 \<longrightarrow> b \<le> 159)
                      then map_option (Cons ((a - 224) * 4096 + (b - 128) * 64 + (c - 128))) (utf8_decode r2)
                      else None)
                else case r2 of
                  [] \<Rightarrow> None
                | d # r3 \<Rightarrow>
                    (if 240 \<le> a \<and> a \<le> 244 \<and> continuation b \<and> continuation c \<and> continuation d \<and>
                        (a = 240 \<longrightarrow> 144 \<le> b) \<and> (a = 244 \<longrightarrow> b \<le> 143)
                     then map_option (Cons ((a - 240) * 262144 + (b - 128) * 4096 + (c - 128) * 64 + (d - 128)))
                            (utf8_decode r3)
                     else None))))"

section \<open>Events, errors and the framer\<close>

record sse_event =
  ev_data :: code_points
  ev_event :: "code_points option"
  ev_done :: bool

datatype sse_error =
  EventTooLarge nat nat
| InvalidEncoding nat
| MalformedEvent nat
| FramerState string

record sse_batch =
  fb_events :: "sse_event list"
  fb_consumed :: nat
  fb_trailing :: nat

record sse_framer =
  fr_max :: nat
  fr_buffer :: "byte list"
  fr_failed :: bool
  fr_finished :: bool
  fr_terminal :: bool
  fr_terminal_trailing :: nat
  fr_line_start :: nat
  fr_search_start :: nat

definition new_framer :: "py_num \<Rightarrow> sse_framer option" where
  "new_framer m = (case positive_count m of None \<Rightarrow> None | Some n \<Rightarrow>
     Some \<lparr>fr_max = nat n, fr_buffer = [], fr_failed = False, fr_finished = False, fr_terminal = False,
       fr_terminal_trailing = 0, fr_line_start = 0, fr_search_start = 0\<rparr>)"

section \<open>One event\<close>

fun crlf_to_lf :: "code_points \<Rightarrow> code_points" where
  "crlf_to_lf (x # y # r) = (if x = 13 \<and> y = 10 then 10 # crlf_to_lf r else x # crlf_to_lf (y # r))"
| "crlf_to_lf r = r"

text \<open>\<open>s.partition(c)\<close>: what stands before the separator, whether it occurs, what follows it.\<close>

definition partition_at :: "nat \<Rightarrow> code_points \<Rightarrow> code_points \<times> bool \<times> code_points" where
  "partition_at c s = (takeWhile (\<lambda>x. x \<noteq> c) s, c \<in> set s, tl (dropWhile (\<lambda>x. x \<noteq> c) s))"

definition event_line :: "code_points \<Rightarrow> code_points list \<times> code_points option \<Rightarrow>
    code_points list \<times> code_points option" where
  "event_line line acc =
     (if take 1 line = codes '':'' then acc
      else case partition_at (of_char (CHR '':'')) line of (field, separator, v) \<Rightarrow>
        (let v = (if separator \<and> take 1 v = codes '' '' then drop 1 v else v)
         in if field = codes ''data'' then (fst acc @ [v], snd acc)
            else if field = codes ''event'' then (fst acc, if v = [] then None else Some v)
            else acc))"

fun join_lf :: "code_points list \<Rightarrow> code_points" where
  "join_lf [] = []"
| "join_lf [x] = x"
| "join_lf (x # xs) = x @ 10 # join_lf xs"

definition parse_event :: "byte list \<Rightarrow> sse_error + sse_event option" where
  "parse_event raw =
     (case utf8_decode (map unat raw) of
        None \<Rightarrow> Inl (InvalidEncoding (length raw))
      | Some decoded \<Rightarrow>
          (case fold event_line (py_split 10 (crlf_to_lf decoded)) ([], None) of
             (data_lines, name) \<Rightarrow>
               if data_lines = [] then Inr None
               else Inr (Some \<lparr>ev_data = join_lf data_lines, ev_event = name,
                      ev_done = (join_lf data_lines = codes ''[DONE]'')\<rparr>)))"

section \<open>Boundaries\<close>

lemma byte_find_Some:
  "byte_find c buf a b = Some i \<Longrightarrow> a \<le> i \<and> i < b \<and> i < length buf \<and> buf ! i = c \<and>
     (\<forall>j. a \<le> j \<and> j < i \<longrightarrow> buf ! j \<noteq> c)"
proof -
  assume "byte_find c buf a b = Some i"
  moreover define m where "m = min b (length buf)"
  ultimately obtain k where k: "k < m - a" "buf ! ([a..<m] ! k) = c" "i = [a..<m] ! k"
    "\<forall>j<k. buf ! ([a..<m] ! j) \<noteq> c"
    unfolding byte_find_def find_Some_iff by auto
  have nth: "[a..<m] ! j = a + j" if "j \<le> k" for j using that k(1) by (intro nth_upt) simp
  have "buf ! j \<noteq> c" if "a \<le> j" "j < i" for j
  proof -
    have "j - a < k" using k(3) nth[of k] that by simp
    with k(4) nth[of "j - a"] that(1) show ?thesis by auto
  qed
  with k nth[of k] m_def show ?thesis by auto
qed

lemma byte_find_None:
  "byte_find c buf a b = None \<longleftrightarrow> (\<forall>j. a \<le> j \<and> j < b \<and> j < length buf \<longrightarrow> buf ! j \<noteq> c)"
  by (auto simp: byte_find_def find_None_iff)

text \<open>A carriage return that is not followed by a line feed; at the end of the buffer it is
  tolerated unless the stream has ended.\<close>

function cr_scan :: "bool \<Rightarrow> byte list \<Rightarrow> nat \<Rightarrow> bool" where
  "cr_scan at_eof buf start =
     (case byte_find CR buf start (length buf) of
        None \<Rightarrow> False
      | Some i \<Rightarrow>
          (if i + 1 = length buf then at_eof
           else if buf ! (i + 1) \<noteq> LF then True
           else cr_scan at_eof buf (i + 2)))"
  by auto
termination
  by (relation "measure (\<lambda>(e, buf, start). length buf - start)") (auto dest: byte_find_Some)

declare cr_scan.simps [simp del]

datatype boundary = BoundaryAt nat nat | NoBoundary | BadLine

text \<open>The results before the boundary are the new \<open>_line_start\<close> and \<open>_search_start\<close>.\<close>

function find_boundary :: "byte list \<Rightarrow> nat \<Rightarrow> nat \<Rightarrow> nat \<times> nat \<times> boundary" where
  "find_boundary buf ls ss =
     (case byte_find LF buf ss (length buf) of
        None \<Rightarrow>
          (if cr_scan False buf (max (ss - 1) ls) then (ls, ss, BadLine)
           else (ls, max (length buf - 1) ls, NoBoundary))
      | Some newline \<Rightarrow>
          (let content_end = (if newline > ls \<and> buf ! (newline - 1) = CR then newline - 1 else newline)
           in if byte_find CR buf ls content_end \<noteq> None then (ls, ss, BadLine)
              else if content_end = ls then (ls, ss, BoundaryAt ls (newline + 1))
              else find_boundary buf (newline + 1) (newline + 1)))"
  by pat_completeness auto
termination
  by (relation "measure (\<lambda>(buf, ls, ss). length buf - ss)") (auto dest: byte_find_Some)

declare find_boundary.simps [simp del]

lemma find_boundary_progress:
  "find_boundary buf ls ss = (ls', ss', BoundaryAt fe de) \<Longrightarrow> ss < de \<and> de \<le> length buf"
proof (induction buf ls ss rule: find_boundary.induct)
  case (1 buf ls ss)
  show ?case
  proof (cases "byte_find LF buf ss (length buf)")
    case None
    with "1.prems" show ?thesis by (subst (asm) find_boundary.simps) (simp split: if_splits)
  next
    case (Some i)
    note b = byte_find_Some[OF Some]
    let ?ce = "if i > ls \<and> buf ! (i - 1) = CR then i - 1 else i"
    from "1.prems" Some consider "de = i + 1"
      | "byte_find CR buf ls ?ce = None" "?ce \<noteq> ls" "find_boundary buf (i + 1) (i + 1) = (ls', ss', BoundaryAt fe de)"
      by (subst (asm) find_boundary.simps) (simp add: Let_def split: if_splits)
    then show ?thesis
    proof cases
      case 1
      with b show ?thesis by simp
    next
      case 2
      from "1.IH"[OF Some refl _ 2(2) 2(3)] 2(1) b show ?thesis by simp
    qed
  qed
qed

section \<open>Feeding, finishing, aborting\<close>

definition event_over_limit :: "nat \<Rightarrow> sse_framer \<Rightarrow> bool" where
  "event_over_limit n s \<longleftrightarrow> n > fr_max s"

definition fr_fail :: "sse_error \<Rightarrow> sse_framer \<Rightarrow> sse_framer \<times> (sse_error + 'a)" where
  "fr_fail e s = (s\<lparr>fr_failed := True\<rparr>, Inl e)"

text \<open>The loop of \<open>_extract_complete_events\<close>: events so far, \<open>consumed_end\<close>, \<open>last_event_end\<close>.\<close>

function extract_loop :: "sse_event list \<Rightarrow> nat \<Rightarrow> nat \<Rightarrow> sse_framer \<Rightarrow>
    sse_framer \<times> (sse_error + (sse_event list \<times> nat \<times> nat))" where
  "extract_loop evs consumed last_end s =
     (if fr_terminal s then (s, Inr (evs, consumed, last_end))
      else case find_boundary (fr_buffer s) (fr_line_start s) (fr_search_start s) of
        (ls, ss, b) \<Rightarrow>
          (let s1 = s\<lparr>fr_line_start := ls, fr_search_start := ss\<rparr>
           in case b of
                BadLine \<Rightarrow> fr_fail (MalformedEvent (length (fr_buffer s))) s1
              | NoBoundary \<Rightarrow>
                  (let n = length (fr_buffer s) - consumed
                   in if event_over_limit n s then fr_fail (EventTooLarge n (fr_max s)) s1
                      else (s1, Inr (evs, consumed, last_end)))
              | BoundaryAt fe de \<Rightarrow>
                  (if event_over_limit (fe - consumed) s then fr_fail (EventTooLarge (fe - consumed) (fr_max s)) s1
                   else case parse_event (take (fe - consumed) (drop consumed (fr_buffer s))) of
                     Inl e \<Rightarrow> fr_fail e s1
                   | Inr ev \<Rightarrow>
                       (let s2 = s1\<lparr>fr_line_start := de, fr_search_start := de\<rparr>
                        in case ev of
                             None \<Rightarrow> extract_loop evs de last_end s2
                           | Some event \<Rightarrow>
                               (if ev_done event
                                then extract_loop (evs @ [event]) (length (fr_buffer s)) de
                                       (s2\<lparr>fr_terminal := True,
                                          fr_terminal_trailing := fr_terminal_trailing s + (length (fr_buffer s) - de)\<rparr>)
                                else extract_loop (evs @ [event]) de de s2)))))"
  by auto
termination
  by (relation "measure (\<lambda>(evs, c, l, s). if fr_terminal s then 0 else Suc (length (fr_buffer s) - fr_search_start s))")
    (auto dest!: sym[of "(_, _, _)"] find_boundary_progress)

declare extract_loop.simps [simp del]

definition extract_complete_events :: "sse_framer \<Rightarrow> sse_framer \<times> (sse_error + (sse_event list \<times> nat))" where
  "extract_complete_events s =
     (case extract_loop [] 0 0 s of
        (s', Inl e) \<Rightarrow> (s', Inl e)
      | (s', Inr (evs, consumed, last_end)) \<Rightarrow>
          (if consumed \<noteq> 0
           then s'\<lparr>fr_buffer := drop consumed (fr_buffer s'), fr_line_start := fr_line_start s' - consumed,
                  fr_search_start := fr_search_start s' - consumed\<rparr>
           else s',
           Inr (evs, consumed - last_end)))"

definition feed :: "byte list \<Rightarrow> sse_framer \<Rightarrow> sse_framer \<times> (sse_error + sse_batch)" where
  "feed data s =
     (if fr_failed s then (s, Inl (FramerState ''framer_failed''))
      else if fr_terminal s
      then (s\<lparr>fr_terminal_trailing := fr_terminal_trailing s + length data\<rparr>,
            Inr \<lparr>fb_events = [], fb_consumed = length data, fb_trailing = 0\<rparr>)
      else if fr_finished s then (s, Inl (FramerState ''framer_finished''))
      else
        (let owned = length (fr_buffer s) + length data
         in case extract_complete_events (s\<lparr>fr_buffer := fr_buffer s @ data\<rparr>) of
              (s', Inl e) \<Rightarrow> (s', Inl e)
            | (s', Inr (evs, trailing)) \<Rightarrow>
                (s', Inr \<lparr>fb_events = evs, fb_consumed = owned - length (fr_buffer s'), fb_trailing = trailing\<rparr>)))"

definition finish :: "sse_framer \<Rightarrow> sse_framer \<times> (sse_error + sse_batch)" where
  "finish s =
     (if fr_failed s then (s, Inl (FramerState ''framer_failed''))
      else if fr_terminal s \<or> fr_finished s
      then (s, Inr \<lparr>fb_events = [], fb_consumed = 0, fb_trailing = 0\<rparr>)
      else
        (let n = length (fr_buffer s)
         in if fr_buffer s = []
            then (s\<lparr>fr_finished := True\<rparr>, Inr \<lparr>fb_events = [], fb_consumed = 0, fb_trailing = 0\<rparr>)
            else if cr_scan True (fr_buffer s) 0 then fr_fail (MalformedEvent n) s
            else if event_over_limit n s then fr_fail (EventTooLarge n (fr_max s)) s
            else case parse_event (fr_buffer s) of
                Inl e \<Rightarrow> fr_fail e s
              | Inr ev \<Rightarrow>
                  (s\<lparr>fr_terminal := (case ev of None \<Rightarrow> fr_terminal s | Some event \<Rightarrow> ev_done event),
                     fr_buffer := [], fr_finished := True\<rparr>,
                   Inr \<lparr>fb_events = (case ev of None \<Rightarrow> [] | Some event \<Rightarrow> [event]), fb_consumed = n,
                        fb_trailing = 0\<rparr>)))"

definition abort :: "sse_framer \<Rightarrow> sse_framer \<times> nat" where
  "abort s = (s\<lparr>fr_buffer := [], fr_line_start := 0, fr_search_start := 0, fr_finished := True\<rparr>,
     length (fr_buffer s))"

section \<open>The reference: one byte at a time\<close>

text \<open>
  The reference keeps the complete lines \<open>F\<close> of the current event and the current line \<open>L\<close>, and
  reads bytes one by one. It has no positions, and never looks at a byte twice.
\<close>

datatype scan_result = Scanned "byte list" "byte list" | Framed "byte list" "byte list" | BadByte

fun scan :: "byte list \<Rightarrow> byte list \<Rightarrow> byte list \<Rightarrow> scan_result" where
  "scan F L [] = Scanned F L"
| "scan F L (b # D) =
     (if b = LF
      then (if L = [] \<or> L = [CR] then Framed F D else scan (F @ L @ [LF]) [] D)
      else if L \<noteq> [] \<and> last L = CR then BadByte
      else scan F (L @ [b]) D)"

definition line_ok :: "byte list \<Rightarrow> bool" where
  "line_ok L \<longleftrightarrow> LF \<notin> set L \<and> CR \<notin> set (butlast L)"

lemma line_ok_Nil [simp]: "line_ok []"
  by (simp add: line_ok_def)

lemma line_ok_snoc: "line_ok (L @ [b]) \<longleftrightarrow> LF \<notin> set L \<and> b \<noteq> LF \<and> CR \<notin> set L"
  by (auto simp: line_ok_def)

lemma line_ok_no_cr: "line_ok L \<Longrightarrow> \<not> (L \<noteq> [] \<and> last L = CR) \<Longrightarrow> CR \<notin> set L"
  by (cases L rule: rev_cases) (auto simp: line_ok_def)

lemma scan_Scanned: "scan F L D = Scanned F' L' \<Longrightarrow> line_ok L \<Longrightarrow> F @ L @ D = F' @ L' \<and> line_ok L'"
proof (induction F L D rule: scan.induct)
  case (2 F L b D)
  show ?case
  proof (cases "b = LF")
    case True
    with 2 show ?thesis by (auto split: if_splits)
  next
    case False
    with 2 line_ok_no_cr[of L] show ?thesis
      by (auto simp: line_ok_snoc line_ok_def split: if_splits)
  qed
qed auto

lemma scan_Framed: "scan F L D = Framed F' D' \<Longrightarrow> \<exists>G. F @ L @ D = F' @ G @ D' \<and> length D' < length D"
proof (induction F L D rule: scan.induct)
  case (2 F L b D)
  show ?case
  proof (cases "b = LF \<and> (L = [] \<or> L = [CR])")
    case True
    with 2 show ?thesis by (auto intro: exI[of _ "L @ [b]"])
  next
    case False
    with 2 show ?thesis by (fastforce split: if_splits)
  qed
qed auto

lemma scan_append:
  "scan F L (D1 @ D2) = (case scan F L D1 of
     BadByte \<Rightarrow> BadByte | Framed F' D' \<Rightarrow> Framed F' (D' @ D2) | Scanned F' L' \<Rightarrow> scan F' L' D2)"
  by (induction F L D1 rule: scan.induct) auto

lemma scan_no_lf:
  "LF \<notin> set D \<Longrightarrow> CR \<notin> set (butlast L) \<Longrightarrow>
   scan F L D = (if CR \<in> set (butlast (L @ D)) then BadByte else Scanned F (L @ D))"
proof (induction D arbitrary: L)
  case (Cons b D)
  show ?case
  proof (cases "L \<noteq> [] \<and> last L = CR")
    case True
    then have "CR \<in> set L" by (metis last_in_set)
    with True Cons.prems show ?thesis by (simp add: butlast_append)
  next
    case False
    have "CR \<notin> set L" using False Cons.prems(2) by (cases L rule: rev_cases) auto
    with False Cons.prems Cons.IH[of "L @ [b]"] show ?thesis by auto
  qed
qed simp

section \<open>The positions are only an optimisation\<close>

lemma byte_find_eqI:
  assumes "a \<le> i" "i < b" "i < length buf" "buf ! i = c" "\<And>j. a \<le> j \<Longrightarrow> j < i \<Longrightarrow> buf ! j \<noteq> c"
  shows "byte_find c buf a b = Some i"
proof (cases "byte_find c buf a b")
  case None
  with assms show ?thesis by (auto simp: byte_find_None)
next
  case (Some k)
  from byte_find_Some[OF Some] assms show ?thesis using Some by (metis linorder_neqE_nat)
qed

lemma segment_mem:
  "k \<le> length Y \<Longrightarrow>
   c \<in> set (take k Y) \<longleftrightarrow> (\<exists>j. length X \<le> j \<and> j < length X + k \<and> (X @ Y) ! j = c)"
proof
  assume k: "k \<le> length Y" and "c \<in> set (take k Y)"
  then obtain i where "i < k" "Y ! i = c" by (auto simp: in_set_conv_nth)
  then show "\<exists>j. length X \<le> j \<and> j < length X + k \<and> (X @ Y) ! j = c"
    by (intro exI[of _ "length X + i"]) simp
next
  assume k: "k \<le> length Y" and "\<exists>j. length X \<le> j \<and> j < length X + k \<and> (X @ Y) ! j = c"
  then obtain j where j: "length X \<le> j" "j < length X + k" "(X @ Y) ! j = c" by blast
  have "j - length X < k" using j(1,2) by simp
  moreover have "take k Y ! (j - length X) = c" using j k by (simp add: nth_append)
  ultimately show "c \<in> set (take k Y)" using k by (metis length_take min.absorb2 nth_mem)
qed

lemma cr_scan_no_lf:
  assumes "\<And>j. start \<le> j \<Longrightarrow> j < length buf \<Longrightarrow> buf ! j \<noteq> LF"
  shows "cr_scan False buf start \<longleftrightarrow> (\<exists>j. start \<le> j \<and> j + 1 < length buf \<and> buf ! j = CR)"
proof (cases "byte_find CR buf start (length buf)")
  case None
  then have "\<not> cr_scan False buf start" by (subst cr_scan.simps) simp
  with None show ?thesis by (auto simp: byte_find_None)
next
  case (Some i)
  note b = byte_find_Some[OF Some]
  show ?thesis
  proof (cases "i + 1 = length buf")
    case True
    have "\<not> (start \<le> j \<and> j + 1 < length buf \<and> buf ! j = CR)" for j
      using b True by (metis add_less_cancel_right)
    with Some True show ?thesis by (subst cr_scan.simps) auto
  next
    case False
    then have "i + 1 < length buf" using b by simp
    moreover have "buf ! (i + 1) \<noteq> LF" using assms[of "i + 1"] b \<open>i + 1 < length buf\<close> by simp
    ultimately show ?thesis using Some b by (subst cr_scan.simps) auto
  qed
qed

lemma cr_scan_segment:
  assumes "LF \<notin> set (L @ D)" and "CR \<notin> set (butlast L)"
    and "length X \<le> ss" and "ss \<le> length (X @ L)"
  shows "cr_scan False (X @ L @ D) (max (ss - 1) (length X)) \<longleftrightarrow> CR \<in> set (butlast (L @ D))"
proof -
  let ?buf = "X @ L @ D" and ?st = "max (ss - 1) (length X)"
  have nolf: "?buf ! j \<noteq> LF" if "?st \<le> j" "j < length ?buf" for j
    using segment_mem[of "length (L @ D)" "L @ D" LF X] assms(1) that by auto
  have low: "?buf ! j \<noteq> CR" if "length X \<le> j" "j < ?st" for j
  proof -
    have "j < length X + (length L - 1)" "length L - 1 \<le> length (L @ D)" using that assms(4) by auto
    with segment_mem[of "length L - 1" "L @ D" CR X] assms(2) that(1) show ?thesis
      by (auto simp: butlast_conv_take)
  qed
  have "cr_scan False ?buf ?st \<longleftrightarrow> (\<exists>j. ?st \<le> j \<and> j + 1 < length ?buf \<and> ?buf ! j = CR)"
    by (rule cr_scan_no_lf[OF nolf])
  also have "\<dots> \<longleftrightarrow> (\<exists>j. length X \<le> j \<and> j < length X + (length (L @ D) - 1) \<and> ?buf ! j = CR)" (is "?l = ?r")
  proof
    assume ?l
    then obtain j where "?st \<le> j" "j + 1 < length ?buf" "?buf ! j = CR" by blast
    then show ?r by (intro exI[of _ j]) auto
  next
    assume ?r
    then obtain j where j: "length X \<le> j" "j < length X + (length (L @ D) - 1)" "?buf ! j = CR" by blast
    with low[of j] have "?st \<le> j" by (meson not_le)
    with j show ?l by (intro exI[of _ j]) auto
  qed
  also have "\<dots> \<longleftrightarrow> CR \<in> set (butlast (L @ D))"
    using segment_mem[of "length (L @ D) - 1" "L @ D" CR X] by (simp add: butlast_conv_take)
  finally show ?thesis .
qed

lemma find_boundary_line_end:
  assumes Y: "LF \<notin> set Y" and ss: "length X \<le> ss" "ss \<le> length (X @ Y)"
  shows "find_boundary (X @ Y @ LF # D2) (length X) ss =
    (if CR \<in> set (butlast Y) then (length X, ss, BadLine)
     else if Y = [] \<or> Y = [CR] then (length X, ss, BoundaryAt (length X) (length (X @ Y) + 1))
     else find_boundary ((X @ Y @ [LF]) @ D2) (length (X @ Y @ [LF])) (length (X @ Y @ [LF])))"
proof -
  let ?buf = "X @ Y @ LF # D2" and ?n = "length (X @ Y)"
  have nolf: "?buf ! j \<noteq> LF" if "length X \<le> j" "j < ?n" for j
    using segment_mem[of "length Y" "Y @ LF # D2" LF X] Y that by auto
  have nl: "byte_find LF ?buf ss (length ?buf) = Some ?n"
    by (rule byte_find_eqI) (use nolf ss in \<open>auto simp: nth_append\<close>)
  have bl: "Y \<noteq> [] \<Longrightarrow> ?buf ! (?n - 1) = last Y"
    by (cases Y rule: rev_cases) (auto simp: nth_append)
  define ce where "ce = (if ?n > length X \<and> ?buf ! (?n - 1) = CR then ?n - 1 else ?n)"
  define k where "k = (if Y \<noteq> [] \<and> last Y = CR then length Y - 1 else length Y)"
  have ce: "ce = length X + k" using bl by (cases "Y = []") (auto simp: ce_def k_def Suc_le_eq)
  have kle: "k \<le> length Y" by (simp add: k_def)
  have "byte_find CR ?buf (length X) ce \<noteq> None \<longleftrightarrow>
      (\<exists>j. length X \<le> j \<and> j < length X + k \<and> ?buf ! j = CR)"
    using kle by (auto simp: byte_find_None ce)
  also have "\<dots> \<longleftrightarrow> CR \<in> set (take k Y)"
    using segment_mem[of k "Y @ LF # D2" CR X] kle by simp
  also have "\<dots> \<longleftrightarrow> CR \<in> set (butlast Y)"
    by (cases Y rule: rev_cases) (auto simp: k_def)
  finally have cr: "byte_find CR ?buf (length X) ce \<noteq> None \<longleftrightarrow> CR \<in> set (butlast Y)" .
  have blank: "CR \<notin> set (butlast Y) \<Longrightarrow> ce = length X \<longleftrightarrow> Y = [] \<or> Y = [CR]"
    by (cases Y rule: rev_cases) (auto simp: ce k_def)
  have "find_boundary ?buf (length X) ss =
      (if byte_find CR ?buf (length X) ce \<noteq> None then (length X, ss, BadLine)
       else if ce = length X then (length X, ss, BoundaryAt (length X) (?n + 1))
       else find_boundary ?buf (?n + 1) (?n + 1))"
    by (subst find_boundary.simps) (simp only: nl option.case Let_def ce_def[symmetric])
  then show ?thesis using cr blank by simp
qed

lemma find_boundary_tail:
  assumes "LF \<notin> set (L @ D)" and "CR \<notin> set (butlast L)" and "length X \<le> ss" and "ss \<le> length (X @ L)"
  shows "find_boundary (X @ L @ D) (length X) ss =
    (if CR \<in> set (butlast (L @ D)) then (length X, ss, BadLine)
     else (length X, max (length (X @ L @ D) - 1) (length X), NoBoundary))"
proof -
  let ?buf = "X @ L @ D"
  have "?buf ! j \<noteq> LF" if "ss \<le> j" "j < length ?buf" for j
    using segment_mem[of "length (L @ D)" "L @ D" LF X] assms(1,3) that by auto
  then have "byte_find LF ?buf ss (length ?buf) = None" by (simp add: byte_find_None)
  with cr_scan_segment[OF assms] show ?thesis by (subst find_boundary.simps) simp
qed

text \<open>What one search finds in a buffer \<open>P @ F @ L @ D\<close> whose first part is consumed.\<close>

fun scan_boundary :: "byte list \<Rightarrow> nat \<Rightarrow> scan_result \<Rightarrow> nat \<times> nat \<times> boundary \<Rightarrow> bool" where
  "scan_boundary P n BadByte (ls, ss, b) \<longleftrightarrow> b = BadLine"
| "scan_boundary P n (Framed F' D') (ls, ss, b) \<longleftrightarrow> b = BoundaryAt (length (P @ F')) (n - length D')"
| "scan_boundary P n (Scanned F' L') (ls, ss, b) \<longleftrightarrow>
     b = NoBoundary \<and> ls = length (P @ F') \<and> ss = max (n - 1) ls"

lemma find_boundary_scan:
  assumes "line_ok L" and "length (P @ F) \<le> ss" and "ss \<le> length (P @ F @ L)"
  shows "scan_boundary P (length (P @ F @ L @ D)) (scan F L D)
    (find_boundary (P @ F @ L @ D) (length (P @ F)) ss)"
  using assms
proof (induction "length D" arbitrary: F L D ss rule: less_induct)
  case less
  have L: "LF \<notin> set L" "CR \<notin> set (butlast L)" using less.prems(1) by (simp_all add: line_ok_def)
  show ?case
  proof (cases "LF \<in> set D")
    case False
    with find_boundary_tail[of L D "P @ F" ss] less.prems L show ?thesis
      by (simp add: scan_no_lf)
  next
    case True
    then obtain D1 D2 where D: "D = D1 @ LF # D2" "LF \<notin> set D1" by (meson split_list_first)
    let ?Y = "L @ D1"
    have sc: "scan F L D = (if CR \<in> set (butlast ?Y) then BadByte else scan F ?Y (LF # D2))"
      using D L scan_append[of F L D1 "LF # D2"] by (simp add: scan_no_lf)
    have fb: "find_boundary (P @ F @ L @ D) (length (P @ F)) ss =
      (if CR \<in> set (butlast ?Y) then (length (P @ F), ss, BadLine)
       else if ?Y = [] \<or> ?Y = [CR] then (length (P @ F), ss, BoundaryAt (length (P @ F)) (length (P @ F @ ?Y) + 1))
       else find_boundary ((P @ F @ ?Y @ [LF]) @ D2) (length (P @ F @ ?Y @ [LF])) (length (P @ F @ ?Y @ [LF])))"
      using find_boundary_line_end[of ?Y "P @ F" ss D2] D L less.prems by simp
    consider (bad) "CR \<in> set (butlast ?Y)" | (frame) "CR \<notin> set (butlast ?Y)" "?Y = [] \<or> ?Y = [CR]"
      | (more) "CR \<notin> set (butlast ?Y)" "\<not> (?Y = [] \<or> ?Y = [CR])" by blast
    then show ?thesis
    proof cases
      case bad
      with sc fb show ?thesis by simp
    next
      case frame
      with sc fb D show ?thesis by simp
    next
      case more
      have "length D2 < length D" using D by simp
      from less.hyps[OF this, of "[]" "F @ ?Y @ [LF]" "length (P @ F @ ?Y @ [LF])"]
      have "scan_boundary P (length (P @ F @ L @ D)) (scan (F @ ?Y @ [LF]) [] D2)
          (find_boundary ((P @ F @ ?Y @ [LF]) @ D2) (length (P @ F @ ?Y @ [LF])) (length (P @ F @ ?Y @ [LF])))"
        using D by simp
      moreover have "scan F L D = scan (F @ ?Y @ [LF]) [] D2" using more sc by auto
      moreover have "find_boundary (P @ F @ L @ D) (length (P @ F)) ss =
          find_boundary ((P @ F @ ?Y @ [LF]) @ D2) (length (P @ F @ ?Y @ [LF])) (length (P @ F @ ?Y @ [LF]))"
        by (simp only: fb more if_False)
      ultimately show ?thesis by simp
    qed
  qed
qed

section \<open>The reference machine over events\<close>

fun reason_code :: "sse_error \<Rightarrow> string" where
  "reason_code (EventTooLarge n m) = ''event_too_large''"
| "reason_code (InvalidEncoding n) = ''invalid_utf8''"
| "reason_code (MalformedEvent n) = ''malformed_line_ending''"
| "reason_code (FramerState r) = r"

text \<open>
  The events of a byte string, the unfinished lines, and, once the final event is seen, the number
  of bytes after it.
\<close>

type_synonym ref_result = "string + (sse_event list \<times> byte list \<times> byte list \<times> nat option)"

function ref_run :: "nat \<Rightarrow> sse_event list \<Rightarrow> byte list \<Rightarrow> byte list \<Rightarrow> byte list \<Rightarrow> ref_result" where
  "ref_run m evs F L D =
     (case scan F L D of
        BadByte \<Rightarrow> Inl ''malformed_line_ending''
      | Scanned F' L' \<Rightarrow> Inr (evs, F', L', None)
      | Framed F' D' \<Rightarrow>
          (if length F' > m then Inl ''event_too_large''
           else case parse_event F' of
             Inl e \<Rightarrow> Inl (reason_code e)
           | Inr None \<Rightarrow> ref_run m evs [] [] D'
           | Inr (Some ev) \<Rightarrow>
               (if ev_done ev then Inr (evs @ [ev], [], [], Some (length D'))
                else ref_run m (evs @ [ev]) [] [] D')))"
  by pat_completeness auto
termination
  by (relation "measure (\<lambda>(m, evs, F, L, D). length D)") (auto dest: scan_Framed)

declare ref_run.simps [simp del]

lemma ref_run_append:
  "ref_run m evs F L (D1 @ D2) = (case ref_run m evs F L D1 of
     Inl r \<Rightarrow> Inl r
   | Inr (evs', F', L', None) \<Rightarrow> ref_run m evs' F' L' D2
   | Inr (evs', F', L', Some t) \<Rightarrow> Inr (evs', F', L', Some (t + length D2)))"
proof (induction "length D1" arbitrary: evs F L D1 rule: less_induct)
  case less
  show ?case
  proof (cases "scan F L D1")
    case (Scanned F' L')
    then have "ref_run m evs F L (D1 @ D2) = ref_run m evs F' L' D2"
      by (simp add: scan_append ref_run.simps[of m evs F L "D1 @ D2"] ref_run.simps[of m evs F' L' D2])
    with Scanned show ?thesis by (simp add: ref_run.simps[of m evs F L D1])
  next
    case (Framed F' D')
    then have "length D' < length D1" using scan_Framed by blast
    note IH = less.hyps[OF this, of _ "[]" "[]"]
    show ?thesis
    proof (cases "length F' > m \<or> (\<exists>e. parse_event F' = Inl e)")
      case True
      with Framed show ?thesis
        by (auto simp: scan_append ref_run.simps[of m evs F L D1] ref_run.simps[of m evs F L "D1 @ D2"])
    next
      case False
      then obtain ev where "parse_event F' = Inr ev" by (cases "parse_event F'") auto
      with Framed False IH show ?thesis
        by (cases ev)
          (simp_all add: scan_append ref_run.simps[of m evs F L D1] ref_run.simps[of m evs F L "D1 @ D2"])
    qed
  next
    case BadByte
    then show ?thesis
      by (simp add: scan_append ref_run.simps[of m evs F L D1] ref_run.simps[of m evs F L "D1 @ D2"])
  qed
qed

lemma ref_run_events:
  "ref_run m evs F L D = (case ref_run m [] F L D of Inl r \<Rightarrow> Inl r | Inr (es, r) \<Rightarrow> Inr (evs @ es, r))"
proof (induction "length D" arbitrary: evs F L D rule: less_induct)
  case less
  show ?case
  proof (cases "scan F L D")
    case (Framed F' D')
    then have "length D' < length D" using scan_Framed by blast
    note IH = less.hyps[OF this, of _ "[]" "[]"]
    show ?thesis
    proof (cases "length F' > m \<or> (\<exists>e. parse_event F' = Inl e)")
      case True
      with Framed show ?thesis by (auto simp: ref_run.simps[of _ _ F L D])
    next
      case False
      then obtain ev where ev: "parse_event F' = Inr ev" by (cases "parse_event F'") auto
      show ?thesis
      proof (cases ev)
        case None
        with Framed False ev IH[of evs] show ?thesis by (simp add: ref_run.simps[of _ _ F L D])
      next
        case (Some e)
        with Framed False ev IH[of "evs @ [e]"] IH[of "[e]"] show ?thesis
          by (auto simp: ref_run.simps[of _ _ F L D] split: sum.split)
      qed
    qed
  qed (simp_all add: ref_run.simps[of _ _ F L D])
qed

lemma ref_run_lines: "ref_run m evs F L D = Inr (evs', F', L', None) \<Longrightarrow> line_ok L \<Longrightarrow> line_ok L'"
proof (induction "length D" arbitrary: evs F L D rule: less_induct)
  case less
  show ?case
  proof (cases "scan F L D")
    case (Scanned F1 L1)
    with less.prems scan_Scanned[OF Scanned] show ?thesis by (simp add: ref_run.simps[of m evs F L D])
  next
    case (Framed F1 D1)
    then have "length D1 < length D" using scan_Framed by blast
    from less.hyps[OF this, of _ "[]" "[]"] less.prems Framed show ?thesis
      by (auto simp: ref_run.simps[of m evs F L D] split: if_splits sum.splits option.splits)
  next
    case BadByte
    with less.prems show ?thesis by (simp add: ref_run.simps[of m evs F L D])
  qed
qed

section \<open>One feed is one run of the reference\<close>

definition extract_matches :: "sse_framer \<Rightarrow> ref_result \<Rightarrow>
    sse_framer \<times> (sse_error + (sse_event list \<times> nat \<times> nat)) \<Rightarrow> bool" where
  "extract_matches s ref res \<longleftrightarrow>
     (case ref of
        Inl r \<Rightarrow> \<exists>s' e. res = (s', Inl e) \<and> reason_code e = r \<and> fr_failed s'
      | Inr (evs, F, L, Some t) \<Rightarrow>
          \<exists>ls ss last_end. ls \<le> length (fr_buffer s) \<and> ss \<le> length (fr_buffer s) \<and> fr_buffer s \<noteq> [] \<and>
            res = (s\<lparr>fr_line_start := ls, fr_search_start := ss, fr_terminal := True,
                     fr_terminal_trailing := fr_terminal_trailing s + t\<rparr>,
                   Inr (evs, length (fr_buffer s), last_end))
      | Inr (evs, F, L, None) \<Rightarrow>
          (if length (F @ L) > fr_max s
           then \<exists>s'. res = (s', Inl (EventTooLarge (length (F @ L)) (fr_max s))) \<and> fr_failed s'
           else \<exists>P last_end. fr_buffer s = P @ F @ L \<and>
             res = (s\<lparr>fr_line_start := length (P @ F),
                      fr_search_start := max (length (fr_buffer s) - 1) (length (P @ F))\<rparr>,
                    Inr (evs, length P, last_end))))"

lemma extract_matches_open:
  assumes "extract_matches s (Inr (evs, F, L, None)) res" and "\<not> length (F @ L) > fr_max s"
  shows "\<exists>P last_end. fr_buffer s = P @ F @ L \<and>
    res = (s\<lparr>fr_line_start := length (P @ F),
             fr_search_start := max (length (fr_buffer s) - 1) (length (P @ F))\<rparr>, Inr (evs, length P, last_end))"
  using assms by (simp add: extract_matches_def)

lemma extract_loop_ref:
  assumes "\<not> fr_terminal s" and "fr_buffer s = P @ F @ L @ D" and "fr_line_start s = length (P @ F)"
    and "length (P @ F) \<le> fr_search_start s" and "fr_search_start s \<le> length (P @ F @ L)" and "line_ok L"
  shows "extract_matches s (ref_run (fr_max s) evs F L D) (extract_loop evs (length P) last_end s)"
  using assms
proof (induction "length D" arbitrary: evs P F L D last_end s rule: less_induct)
  case less
  let ?n = "length (fr_buffer s)"
  obtain ls ss b where fb: "find_boundary (fr_buffer s) (fr_line_start s) (fr_search_start s) = (ls, ss, b)"
    by (metis prod_cases3)
  have sb: "scan_boundary P ?n (scan F L D) (ls, ss, b)"
    using find_boundary_scan[of L P F "fr_search_start s" D] less.prems fb by simp
  let ?s1 = "s\<lparr>fr_line_start := ls, fr_search_start := ss\<rparr>"
  show ?case
  proof (cases "scan F L D")
    case BadByte
    with sb fb less.prems(1) show ?thesis
      by (simp add: extract_matches_def ref_run.simps[of _ evs F L D] extract_loop.simps[of evs "length P"]
          fr_fail_def Let_def)
  next
    case (Scanned F' L')
    with sb have b: "b = NoBoundary" "ls = length (P @ F')" "ss = max (?n - 1) ls" by auto
    have eq: "F @ L @ D = F' @ L'" using scan_Scanned[OF Scanned less.prems(6)] by simp
    then have buf: "fr_buffer s = P @ F' @ L'" using less.prems(2) by simp
    then have len: "?n - length P = length (F' @ L')" by simp
    with Scanned b fb less.prems(1) buf show ?thesis
      by (simp add: extract_matches_def ref_run.simps[of _ evs F L D] extract_loop.simps[of evs "length P"]
          fr_fail_def Let_def event_over_limit_def)
  next
    case (Framed F' D')
    from scan_Framed[OF Framed] obtain G where G: "F @ L @ D = F' @ G @ D'" and less_D: "length D' < length D"
      by blast
    have buf: "fr_buffer s = (P @ F' @ G) @ [] @ [] @ D'" using less.prems(2) G by simp
    define de where "de = length (P @ F' @ G)"
    have b: "b = BoundaryAt (length (P @ F')) de" using sb Framed buf by (simp add: de_def)
    have frame: "take (length (P @ F') - length P) (drop (length P) (fr_buffer s)) = F'" by (simp add: buf)
    have nonempty: "fr_buffer s \<noteq> []" using find_boundary_progress fb b by fastforce
    let ?s2 = "?s1\<lparr>fr_line_start := de, fr_search_start := de\<rparr>"
    have same: "extract_matches ?s2 r x = extract_matches s r x" for r x
      by (cases r) (auto simp: extract_matches_def split: option.split prod.split)
    have IH: "extract_matches s (ref_run (fr_max s) evs' [] [] D') (extract_loop evs' de le ?s2)" for evs' le
      using less.hyps[OF less_D, of ?s2 "P @ F' @ G" "[]" "[]" evs' le] less.prems(1) buf same
      by (simp add: de_def)
    have loop: "extract_loop evs (length P) last_end s =
        (if length F' > fr_max s then fr_fail (EventTooLarge (length F') (fr_max s)) ?s1
         else case parse_event F' of Inl e \<Rightarrow> fr_fail e ?s1
         | Inr None \<Rightarrow> extract_loop evs de last_end ?s2
         | Inr (Some ev) \<Rightarrow>
             (if ev_done ev
              then (?s2\<lparr>fr_terminal := True, fr_terminal_trailing := fr_terminal_trailing s + (?n - de)\<rparr>,
                    Inr (evs @ [ev], ?n, de))
              else extract_loop (evs @ [ev]) de de ?s2))"
      by (subst extract_loop.simps, simp only: less.prems(1) if_False fb b frame Let_def prod.case boundary.case)
        (auto simp: event_over_limit_def extract_loop.simps[of "evs @ [_]" ?n] split: sum.split option.split)
    have tl: "?n - de = length D'" "de \<le> ?n" by (simp_all add: buf de_def)
    show ?thesis
    proof (cases "length F' > fr_max s \<or> (\<exists>e. parse_event F' = Inl e)")
      case True
      then show ?thesis using Framed loop
        by (auto simp: extract_matches_def ref_run.simps[of _ evs F L D] fr_fail_def)
    next
      case False
      then obtain ev where ev: "parse_event F' = Inr ev" by (cases "parse_event F'") auto
      show ?thesis
      proof (cases ev)
        case None
        then show ?thesis using Framed loop False ev IH by (simp add: ref_run.simps[of _ evs F L D])
      next
        case (Some e)
        show ?thesis
        proof (cases "ev_done e")
          case True
          then show ?thesis using Framed loop False ev Some tl nonempty
            by (auto simp: extract_matches_def ref_run.simps[of _ evs F L D])
        next
          case d: False
          then show ?thesis using Framed loop False ev Some IH by (simp add: ref_run.simps[of _ evs F L D])
        qed
      qed
    qed
  qed
qed

text \<open>The framer after the bytes \<open>D\<close>, having delivered \<open>evs\<close>: its state is determined by the reference.\<close>

definition fr_at :: "nat \<Rightarrow> byte list \<Rightarrow> sse_event list \<Rightarrow> sse_framer \<Rightarrow> bool" where
  "fr_at m D evs s \<longleftrightarrow> fr_max s = m \<and> \<not> fr_failed s \<and> \<not> fr_finished s \<and>
     (\<exists>F L t. ref_run m [] [] [] D = Inr (evs, F, L, t) \<and>
        (case t of
           None \<Rightarrow> \<not> fr_terminal s \<and> fr_buffer s = F @ L \<and> fr_line_start s = length F \<and>
             fr_search_start s = max (length (F @ L) - 1) (length F) \<and> length (F @ L) \<le> m \<and>
             fr_terminal_trailing s = 0
         | Some n \<Rightarrow> fr_terminal s \<and> fr_buffer s = [] \<and> fr_line_start s = 0 \<and> fr_search_start s = 0 \<and>
             fr_terminal_trailing s = n))"

lemma fr_at_unique:
  assumes "fr_at m D evs s" and "fr_at m D evs' s'"
  shows "evs = evs' \<and> s = s'"
  using assms by (cases s; cases s') (auto simp: fr_at_def split: option.splits)

lemma new_framer_at: "new_framer c = Some s \<Longrightarrow> fr_at (fr_max s) [] [] s"
  by (auto simp: new_framer_def fr_at_def ref_run.simps split: option.splits)

text \<open>Why the bytes \<open>D\<close>, read so far, end a stream: the reference fails on them, or what it has to keep of
  the unfinished event after them is longer than the limit.\<close>

inductive stream_fails :: "nat \<Rightarrow> byte list \<Rightarrow> sse_error \<Rightarrow> bool" for m D where
  bad_bytes: "ref_run m [] [] [] D = Inl (reason_code e) \<Longrightarrow> stream_fails m D e"
| overlong: "ref_run m [] [] [] D = Inr (evs, F, L, None) \<Longrightarrow> m < length (F @ L) \<Longrightarrow>
    stream_fails m D (EventTooLarge (length (F @ L)) m)"

lemma fr_at_runs: "fr_at m D evs s \<Longrightarrow> \<not> stream_fails m D e"
  by (auto simp: fr_at_def elim!: stream_fails.cases)

definition fed_to :: "nat \<Rightarrow> byte list \<Rightarrow> sse_event list \<Rightarrow> nat \<Rightarrow> sse_framer \<times> (sse_error + sse_batch) \<Rightarrow> bool" where
  "fed_to m D evs n res \<longleftrightarrow>
     (case snd res of
        Inr b \<Rightarrow> fr_at m D (evs @ fb_events b) (fst res) \<and> fb_consumed b + length (fr_buffer (fst res)) = n
      | Inl e \<Rightarrow> stream_fails m D e)"

lemma feed_terminal:
  assumes "fr_at m D evs s" and "fr_terminal s"
  shows "fed_to m (D @ D2) evs (length (fr_buffer s) + length D2) (feed D2 s)"
proof -
  from assms obtain F L n where r: "ref_run m [] [] [] D = Inr (evs, F, L, Some n)"
    by (auto simp: fr_at_def split: option.splits)
  then have "ref_run m [] [] [] (D @ D2) = Inr (evs, F, L, Some (n + length D2))"
    by (simp add: ref_run_append)
  with r assms show ?thesis by (simp add: fr_at_def fed_to_def feed_def split: option.splits)
qed

lemma feed_running:
  assumes "fr_at m D evs s" and "\<not> fr_terminal s"
  shows "fed_to m (D @ D2) evs (length (fr_buffer s) + length D2) (feed D2 s)"
proof -
  from assms obtain F L where r: "ref_run m [] [] [] D = Inr (evs, F, L, None)"
    and s: "fr_max s = m" "\<not> fr_failed s" "\<not> fr_finished s" "fr_buffer s = F @ L" "fr_line_start s = length F"
      "fr_search_start s = max (length (F @ L) - 1) (length F)" "fr_terminal_trailing s = 0"
    unfolding fr_at_def by (auto split: option.splits)
  let ?s1 = "s\<lparr>fr_buffer := fr_buffer s @ D2\<rparr>"
  have "line_ok L" using ref_run_lines[OF r] by simp
  then have M: "extract_matches ?s1 (ref_run m [] F L D2) (extract_loop [] 0 0 ?s1)"
    using extract_loop_ref[of ?s1 "[]" F L D2 "[]" 0] assms(2) s by (simp add: le_diff_conv)
  have run: "ref_run m [] [] [] (D @ D2) =
      (case ref_run m [] F L D2 of Inl x \<Rightarrow> Inl x | Inr (es, y) \<Rightarrow> Inr (evs @ es, y))"
    using ref_run_events[of m evs F L D2] by (simp add: ref_run_append r)
  have fd: "feed D2 s = (case extract_complete_events ?s1 of (s', Inl e) \<Rightarrow> (s', Inl e)
      | (s', Inr (evs, trailing)) \<Rightarrow> (s', Inr \<lparr>fb_events = evs,
          fb_consumed = length (fr_buffer s) + length D2 - length (fr_buffer s'), fb_trailing = trailing\<rparr>))"
    using assms(2) s(2,3) by (simp add: feed_def Let_def)
  show ?thesis
  proof (cases "ref_run m [] F L D2")
    case (Inl x)
    with M run show ?thesis
      by (auto simp: extract_matches_def fed_to_def fd extract_complete_events_def intro: bad_bytes)
  next
    case (Inr y)
    obtain es F' L' t where y: "y = (es, F', L', t)" by (metis prod_cases4)
    show ?thesis
    proof (cases t)
      case (Some n)
      with M run Inr y s assms(2) show ?thesis
        by (auto simp: extract_matches_def fed_to_def fd extract_complete_events_def fr_at_def)
    next
      case None
      show ?thesis
      proof (cases "length (F' @ L') > m")
        case True
        then have "stream_fails m (D @ D2) (EventTooLarge (length (F' @ L')) m)"
          using run Inr y None by (intro overlong) simp_all
        with True M Inr y None s(1) show ?thesis
          by (auto simp: extract_matches_def fed_to_def fd extract_complete_events_def)
      next
        case False
        have "extract_matches ?s1 (Inr (es, F', L', None)) (extract_loop [] 0 0 ?s1)"
          using M Inr y None by simp
        moreover have "\<not> length (F' @ L') > fr_max ?s1" using False s(1) by simp
        ultimately obtain P last_end where
          buf: "fr_buffer ?s1 = P @ F' @ L'" and ex: "extract_loop [] 0 0 ?s1 =
            (?s1\<lparr>fr_line_start := length (P @ F'),
               fr_search_start := max (length (fr_buffer ?s1) - 1) (length (P @ F'))\<rparr>, Inr (es, length P, last_end))"
          using extract_matches_open by blast
        note P = buf[simplified] ex
        have "length (fr_buffer s) + length D2 = length P + length (F' @ L')"
          using P(1) by (metis length_append)
        with P run Inr y None False s assms(2) show ?thesis
          by (cases "P = []") (auto simp: fed_to_def fd extract_complete_events_def fr_at_def)
      qed
    qed
  qed
qed

lemma feed_fed_to: "fr_at m D evs s \<Longrightarrow> fed_to m (D @ D2) evs (length (fr_buffer s) + length D2) (feed D2 s)"
  using feed_terminal feed_running by blast

text \<open>A stream arrives in chunks; the first error ends it.\<close>

fun feed_all :: "byte list list \<Rightarrow> sse_framer \<Rightarrow> sse_framer \<times> (sse_error + (sse_event list \<times> nat))" where
  "feed_all [] s = (s, Inr ([], 0))"
| "feed_all (d # ds) s =
     (case feed d s of
        (s', Inl e) \<Rightarrow> (s', Inl e)
      | (s', Inr b) \<Rightarrow>
          (case feed_all ds s' of
             (s'', Inl e) \<Rightarrow> (s'', Inl e)
           | (s'', Inr (evs, n)) \<Rightarrow> (s'', Inr (fb_events b @ evs, fb_consumed b + n))))"

lemma ref_run_Inl: "ref_run m [] [] [] D = Inl r \<Longrightarrow> ref_run m [] [] [] (D @ D2) = Inl r"
  by (simp add: ref_run_append)

lemma feed_all_at:
  assumes "fr_at m D evs s" and "feed_all ds s = (s', r)"
  shows "case r of
      Inr (es, n) \<Rightarrow> fr_at m (D @ concat ds) (evs @ es) s' \<and>
        n + length (fr_buffer s') = length (fr_buffer s) + length (concat ds) \<and>
        (\<forall>i e. \<not> stream_fails m (D @ concat (take i ds)) e)
    | Inl e \<Rightarrow> \<exists>i<length ds. stream_fails m (D @ concat (take (Suc i) ds)) e"
  using assms
proof (induction ds arbitrary: D evs s s' r)
  case Nil
  then show ?case using fr_at_runs by auto
next
  case (Cons d ds)
  note step = feed_fed_to[OF Cons.prems(1), of d]
  obtain s1 x where fd: "feed d s = (s1, x)" by fastforce
  show ?case
  proof (cases x)
    case (Inl e)
    with step fd Cons.prems(2) show ?thesis by (auto simp: fed_to_def intro!: exI[of _ 0])
  next
    case (Inr b)
    with step fd have at: "fr_at m (D @ d) (evs @ fb_events b) s1"
      and n: "fb_consumed b + length (fr_buffer s1) = length (fr_buffer s) + length d"
      by (simp_all add: fed_to_def)
    obtain s2 y where rest: "feed_all ds s1 = (s2, y)" by fastforce
    have runs: "\<not> stream_fails m (D @ concat (take i (d # ds))) e"
      if "\<forall>i e. \<not> stream_fails m ((D @ d) @ concat (take i ds)) e" for i e
      using that fr_at_runs[OF Cons.prems(1)] by (cases i) auto
    show ?thesis
    proof (cases y)
      case (Inl e)
      with Cons.IH[OF at rest] obtain i where "i < length ds" "stream_fails m (D @ d @ concat (take (Suc i) ds)) e" by auto
      with Inl Cons.prems(2) fd Inr rest show ?thesis by (auto intro!: exI[of _ "Suc i"])
    next
      case Y: (Inr z)
      with Cons.IH[OF at rest] Cons.prems(2) fd Inr rest n runs show ?thesis
        by (cases z) auto
    qed
  qed
qed

section \<open>Properties\<close>

text \<open>C34: The incremental framer is the byte-by-byte machine. However a stream is cut into chunks,
  feeding the chunks to a new framer delivers exactly the events the reference machine finds in
  the concatenated bytes, retains exactly its unfinished lines (at most the event limit), and is
  terminal exactly when the final event was seen; the bytes reported consumed and the bytes
  retained add up to the bytes fed. It fails exactly when, at the end of some chunk, the reference
  fails on the bytes read so far, with the same reason, or what is retained of the unfinished event
  after them is longer than the limit, and then it reports that length. (What is retained includes a
  carriage return that may begin the closing blank line: see \<open>sse_limit_depends_on_chunking\<close>.)\<close>

theorem sse_refines_reference:
  assumes "new_framer c = Some s0" and "feed_all chunks s0 = (s, r)"
  shows "case r of
      Inr (evs, n) \<Rightarrow>
        (\<exists>F L t. ref_run (fr_max s0) [] [] [] (concat chunks) = Inr (evs, F, L, t) \<and>
           fr_terminal s = (t \<noteq> None) \<and> (t = None \<longrightarrow> fr_buffer s = F @ L)) \<and>
        length (fr_buffer s) \<le> fr_max s0 \<and> n + length (fr_buffer s) = length (concat chunks) \<and>
        (\<forall>i e. \<not> stream_fails (fr_max s0) (concat (take i chunks)) e)
    | Inl e \<Rightarrow> \<exists>i<length chunks. stream_fails (fr_max s0) (concat (take (Suc i) chunks)) e"
proof -
  note at = new_framer_at[OF assms(1)]
  have "fr_buffer s0 = []" using assms(1) by (auto simp: new_framer_def split: option.splits)
  note all = feed_all_at[OF at assms(2)]
  show ?thesis
  proof (cases r)
    case (Inl e)
    with all show ?thesis by simp
  next
    case (Inr y)
    obtain evs n where y: "y = (evs, n)" by fastforce
    from all Inr y have at': "fr_at (fr_max s0) (concat chunks) evs s"
      and n: "n + length (fr_buffer s) = length (concat chunks)"
      and runs: "\<forall>i e. \<not> stream_fails (fr_max s0) (concat (take i chunks)) e"
      using \<open>fr_buffer s0 = []\<close> by simp_all
    from at' obtain F L t where t: "ref_run (fr_max s0) [] [] [] (concat chunks) = Inr (evs, F, L, t)"
      "fr_terminal s = (t \<noteq> None)" "t = None \<longrightarrow> fr_buffer s = F @ L" "length (fr_buffer s) \<le> fr_max s0"
      unfolding fr_at_def by (auto split: option.splits)
    with Inr y n runs show ?thesis by auto
  qed
qed

definition sample_framer :: sse_framer where
  "sample_framer = \<lparr>fr_max = 8, fr_buffer = [], fr_failed = False, fr_finished = False,
     fr_terminal = False, fr_terminal_trailing = 0, fr_line_start = 0, fr_search_start = 0\<rparr>"

lemma sample_framer_new: "new_framer (PyInt 8) = Some sample_framer"
  by (simp add: new_framer_def sample_framer_def)

text \<open>The bytes of \<open>data: x\<close> and a line feed.\<close>

definition sample_event :: "byte list" where
  "sample_event = [100, 97, 116, 97, 58, 32, 120, 10]"

theorem sse_refines_reference_witness:
  "\<exists>F L t. ref_run 8 [] [] [] (concat [sample_event, [10], [58]]) =
     Inr ([\<lparr>ev_data = codes ''x'', ev_event = None, ev_done = False\<rparr>], F, L, t)"
proof -
  have "snd (feed_all [sample_event, [10], [58]] sample_framer) =
      Inr ([\<lparr>ev_data = codes ''x'', ev_event = None, ev_done = False\<rparr>], 9)"
    by code_simp
  then obtain s where "feed_all [sample_event, [10], [58]] sample_framer =
      (s, Inr ([\<lparr>ev_data = codes ''x'', ev_event = None, ev_done = False\<rparr>], 9))"
    by (metis prod.collapse)
  from sse_refines_reference[OF sample_framer_new this] show ?thesis
    by (auto simp: sample_framer_def)
qed

text \<open>Chunk boundaries do not show. Two ways of cutting the same bytes into chunks that a new
  framer both accepts deliver the same events, report the same number of consumed bytes and leave
  the framer in the same state.\<close>

theorem sse_chunking_independent:
  assumes "new_framer c = Some s0" and "concat xs = concat ys"
    and "feed_all xs s0 = (s, Inr (evs, n))" and "feed_all ys s0 = (s', Inr (evs', n'))"
  shows "evs = evs' \<and> n = n' \<and> s = s'"
proof -
  note at = new_framer_at[OF assms(1)]
  have x: "fr_at (fr_max s0) (concat xs) evs s \<and> n + length (fr_buffer s) = length (fr_buffer s0) + length (concat xs)"
    using feed_all_at[OF at assms(3)] by simp
  have y: "fr_at (fr_max s0) (concat xs) evs' s' \<and> n' + length (fr_buffer s') = length (fr_buffer s0) + length (concat xs)"
    using feed_all_at[OF at assms(4)] assms(2) by simp
  have "evs = evs' \<and> s = s'" using x y fr_at_unique by blast
  with x y show ?thesis by simp
qed

theorem sse_chunking_independent_witness:
  "feed_all [sample_event, [10, 58]] sample_framer = feed_all [take 3 sample_event, drop 3 sample_event @ [10], [58]] sample_framer"
proof -
  have accepted: "\<not> isl (snd (feed_all [sample_event, [10, 58]] sample_framer))"
    "\<not> isl (snd (feed_all [take 3 sample_event, drop 3 sample_event @ [10], [58]] sample_framer))"
    by code_simp+
  have split: "\<exists>s e n. r = (s, Inr (e, n))" if "\<not> isl (snd r)"
    for r :: "sse_framer \<times> (sse_error + (sse_event list \<times> nat))"
    using that by (cases r; cases "snd r") auto
  obtain s evs n s' evs' n' where
    a: "feed_all [sample_event, [10, 58]] sample_framer = (s, Inr (evs, n))"
    and b: "feed_all [take 3 sample_event, drop 3 sample_event @ [10], [58]] sample_framer = (s', Inr (evs', n'))"
    using split[OF accepted(1)] split[OF accepted(2)] by blast
  have "concat [sample_event, [10, 58]] = concat [take 3 sample_event, drop 3 sample_event @ [10], [58]]"
    by (simp add: sample_event_def)
  from sse_chunking_independent[OF sample_framer_new this a b] a b show ?thesis by simp
qed

text \<open>Complete lines of one event: none is blank, and each ends in a line feed.\<close>

definition whole_lines :: "byte list \<Rightarrow> bool" where
  "whole_lines p \<longleftrightarrow> scan [] [] p = Scanned p []"

lemma ref_lines_cr: "whole_lines p \<Longrightarrow> ref_run m [] [] [] (p @ [CR]) = Inr ([], p, [CR], None)"
  by (simp add: whole_lines_def ref_run.simps scan_append)

lemma ref_lines_event:
  assumes "whole_lines p" and "length p \<le> m" and "parse_event p = Inr ev"
  shows "\<exists>t. ref_run m [] [] [] (p @ [CR, LF]) = Inr (case ev of None \<Rightarrow> [] | Some e \<Rightarrow> [e], [], [], t)"
proof -
  have "scan [] [] (p @ [CR, LF]) = Framed p []" using assms(1) by (simp add: whole_lines_def scan_append)
  then show ?thesis using assms(2,3) by (subst ref_run.simps) (auto simp: ref_run.simps split: option.split)
qed

text \<open>C35: The event limit does depend on the chunk boundaries. Take any event, that is any complete lines
  that decode, of exactly the permitted size, and end it with a blank line written as carriage return
  and line feed. In one chunk it is accepted; when a chunk ends between the two bytes of the blank
  line, it is refused as one byte too large.\<close>

theorem sse_limit_depends_on_chunking:
  assumes "new_framer (PyInt (int (length p))) = Some s0" and "whole_lines p" and "parse_event p = Inr ev"
  shows "snd (feed_all [p @ [CR, LF]] s0) = Inr (case ev of None \<Rightarrow> [] | Some e \<Rightarrow> [e], length p + 2) \<and>
    snd (feed_all [p @ [CR], [LF]] s0) = Inl (EventTooLarge (length p + 1) (length p))"
proof
  have m: "fr_max s0 = length p" and empty: "fr_buffer s0 = []"
    using assms(1) by (auto simp: new_framer_def split: option.splits if_splits)
  note at = new_framer_at[OF assms(1), unfolded m]
  obtain t where t: "ref_run (length p) [] [] [] (p @ [CR, LF]) = Inr (case ev of None \<Rightarrow> [] | Some e \<Rightarrow> [e], [], [], t)"
    using ref_lines_event[OF assms(2) order_refl assms(3)] by blast
  obtain s r where one: "feed_all [p @ [CR, LF]] s0 = (s, r)" by fastforce
  have "\<not> stream_fails (length p) (p @ [CR, LF]) e" for e
    using t by (auto elim: stream_fails.cases)
  with feed_all_at[OF at one] empty obtain es n where "r = Inr (es, n)" "fr_at (length p) (p @ [CR, LF]) es s"
    "n + length (fr_buffer s) = length p + 2" by (cases r) auto
  with t one show "snd (feed_all [p @ [CR, LF]] s0) = Inr (case ev of None \<Rightarrow> [] | Some e \<Rightarrow> [e], length p + 2)"
    by (auto simp: fr_at_def split: option.splits)
  note r = ref_lines_cr[OF assms(2), of "length p"]
  obtain s1 x where two: "feed (p @ [CR]) s0 = (s1, x)" by fastforce
  have only: "e = EventTooLarge (length p + 1) (length p)" if "stream_fails (length p) (p @ [CR]) e" for e
    using that r by (auto elim: stream_fails.cases)
  have "\<not> fr_at (length p) (p @ [CR]) es s1" for es using r by (auto simp: fr_at_def)
  with feed_fed_to[OF at, of "p @ [CR]"] two only have "x = Inl (EventTooLarge (length p + 1) (length p))"
    by (auto simp: fed_to_def split: sum.splits)
  with two show "snd (feed_all [p @ [CR], [LF]] s0) = Inl (EventTooLarge (length p + 1) (length p))" by simp
qed

theorem sse_limit_depends_on_chunking_witness:
  "snd (feed_all [sample_event @ [CR, LF]] sample_framer) =
     Inr ([\<lparr>ev_data = codes ''x'', ev_event = None, ev_done = False\<rparr>], 10) \<and>
   snd (feed_all [sample_event @ [CR], [LF]] sample_framer) = Inl (EventTooLarge 9 8)"
proof -
  have len: "length sample_event = 8" by (simp add: sample_event_def)
  have new: "new_framer (PyInt (int (length sample_event))) = Some sample_framer" by (simp add: len sample_framer_new)
  have lines: "whole_lines sample_event" by code_simp
  have parse: "parse_event sample_event = Inr (Some \<lparr>ev_data = codes ''x'', ev_event = None, ev_done = False\<rparr>)" by code_simp
  from sse_limit_depends_on_chunking[OF new lines parse] show ?thesis by (simp add: len)
qed

end
