(* ===== verification/Write_Batching.thy ===== *)
theory Write_Batching
  imports Gateway_Prelude "HOL-Library.Multiset"
begin

text \<open>
  The bounded writer of non-accounting rows (\<open>WriteBatcher\<close> in \<open>db/write_batcher.py\<close>): admission
  from the owner loop and from other threads, the consumer task that batches, flushes and splits
  failing batches, the stop task, and the dead-letter file.

  A task is the point where it is suspended: the consumer waits for the queue or for one flush
  attempt, the stop task for pending hand-offs, a flush attempt or the consumer. Every stretch of
  code between two suspensions, and every critical section of another thread, is one operation.
  What the outside decides is an argument of the operation: how a flush attempt ends, whether a
  hand-off can be scheduled, the size of a dead-letter record and whether its append succeeds.
  Four fields are not in the code: \<open>wb_db\<close> is the table the flush attempts write to, \<open>wb_late\<close> the rows an
  attempt committed although it then raised or was interrupted, \<open>wb_offered\<close> lists the items passed to
  \<open>enqueue\<close> while the writer was available, and \<open>wb_dead\<close> is the log of \<open>_write_dead_letter\<close>: the item, the
  reason, and whether the record was appended to the file.
\<close>

section \<open>Data\<close>

datatype writer_state = WNew | WRunning | WStopping | WStopped | WFailed

datatype 'i queue_entry = Work 'i | StopMark

datatype 'i consumer =
  NoConsumer
| Waiting
| Flushing "'i list" "'i list list" bool
| Finished

datatype 'i stopper =
  NoStop
| StopCreated
| StopHandoff "'i list"
| StopDirect "'i list" "'i list list"
| StopJoin
| StopEnd
| StopRaised

record 'i writer =
  wb_capacity :: int
  wb_batch_size :: int
  wb_state :: writer_state
  wb_accepting :: bool
  wb_consumer_failed :: bool
  wb_queue :: "'i queue_entry list"
  wb_pre_start :: "'i list"
  wb_handoff :: "(nat, 'i) dict"
  wb_next_handoff :: nat
  wb_handoff_waiter :: bool
  wb_queued :: int
  wb_in_flight :: int
  wb_accepted :: int
  wb_committed :: int
  wb_diagnostic :: int
  wb_overflow :: int
  wb_dead_failures :: int
  wb_last_error :: "string option"
  wb_consumer :: "'i consumer"
  wb_stopper :: "'i stopper"
  wb_dead_size :: int
  wb_dead :: "('i \<times> string \<times> bool) list"
  wb_db :: "'i list"
  wb_offered :: "'i list"
  wb_late :: "'i list"

definition new_writer :: "int \<Rightarrow> py_num \<Rightarrow> 'i writer option" where
  "new_writer batch_size queue_maxsize =
     (case queue_maxsize of
        PyInt n \<Rightarrow>
          (if n \<le> 0 then None
           else Some \<lparr>wb_capacity = n, wb_batch_size = batch_size, wb_state = WNew, wb_accepting = True,
             wb_consumer_failed = False, wb_queue = [], wb_pre_start = [], wb_handoff = [],
             wb_next_handoff = 0, wb_handoff_waiter = False, wb_queued = 0, wb_in_flight = 0,
             wb_accepted = 0, wb_committed = 0, wb_diagnostic = 0, wb_overflow = 0,
             wb_dead_failures = 0, wb_last_error = None, wb_consumer = NoConsumer,
             wb_stopper = NoStop, wb_dead_size = 0, wb_dead = [], wb_db = [], wb_offered = [], wb_late = []\<rparr>)
      | _ \<Rightarrow> None)"

definition wb_reserved :: "'i writer \<Rightarrow> int" where
  "wb_reserved s = int (length (wb_pre_start s)) + int (length (wb_handoff s)) + wb_queued s + wb_in_flight s"

record writer_health =
  wh_state :: writer_state
  wh_accepting :: bool
  wh_task_running :: bool
  wh_capacity :: int
  wh_reserved :: int
  wh_pre_start :: int
  wh_handoff_pending :: int
  wh_queued :: int
  wh_in_flight :: int
  wh_accepted :: int
  wh_committed :: int
  wh_diagnostic :: int
  wh_overflow :: int
  wh_dead_failures :: int
  wh_last_error :: "string option"

text \<open>\<open>__post_init__\<close> raises unless both sums agree.\<close>

definition health_consistent :: "writer_health \<Rightarrow> bool" where
  "health_consistent h \<longleftrightarrow>
     wh_reserved h = wh_pre_start h + wh_handoff_pending h + wh_queued h + wh_in_flight h \<and>
     0 \<le> wh_reserved h \<and> wh_reserved h \<le> wh_capacity h \<and>
     wh_accepted h = wh_committed h + wh_diagnostic h + wh_reserved h"

definition health_snapshot :: "'i writer \<Rightarrow> writer_health" where
  "health_snapshot s = \<lparr>wh_state = wb_state s, wh_accepting = wb_accepting s,
     wh_task_running = (wb_consumer s \<noteq> NoConsumer \<and> wb_consumer s \<noteq> Finished),
     wh_capacity = wb_capacity s, wh_reserved = wb_reserved s,
     wh_pre_start = int (length (wb_pre_start s)), wh_handoff_pending = int (length (wb_handoff s)),
     wh_queued = wb_queued s, wh_in_flight = wb_in_flight s, wh_accepted = wb_accepted s,
     wh_committed = wb_committed s, wh_diagnostic = wb_diagnostic s, wh_overflow = wb_overflow s,
     wh_dead_failures = wb_dead_failures s, wh_last_error = wb_last_error s\<rparr>"

section \<open>Dead letters\<close>

text \<open>The size of the full record, of the record with its parameters removed, and whether the file
  system lets the append through.\<close>

record letter_attempt =
  la_full :: int
  la_short :: int
  la_io_ok :: bool

definition MAX_RECORD_BYTES :: int where "MAX_RECORD_BYTES = 16 * 1024"
definition MAX_FILE_BYTES :: int where "MAX_FILE_BYTES = 8 * 1024 * 1024"

definition write_dead_letter :: "string \<Rightarrow> ('i \<Rightarrow> letter_attempt) \<Rightarrow> 'i \<Rightarrow> 'i writer \<Rightarrow> 'i writer" where
  "write_dead_letter reason att item s =
     (let a = att item; n = (if la_full a > MAX_RECORD_BYTES then la_short a else la_full a)
      in if \<not> la_io_ok a \<or> n > MAX_RECORD_BYTES \<or> wb_dead_size s + n > MAX_FILE_BYTES
         then s\<lparr>wb_dead_failures := wb_dead_failures s + 1,
                wb_last_error := Some ''dead_letter_write_failed'',
                wb_dead := wb_dead s @ [(item, reason, False)]\<rparr>
         else s\<lparr>wb_dead_size := wb_dead_size s + n, wb_dead := wb_dead s @ [(item, reason, True)]\<rparr>)"

text \<open>The writes that have a record in the dead-letter file, and those whose record could not be appended.\<close>

definition dead_lettered :: "'i writer \<Rightarrow> 'i list" where
  "dead_lettered s = map fst (filter (\<lambda>(i, reason, appended). appended) (wb_dead s))"

definition letters_lost :: "'i writer \<Rightarrow> 'i list" where
  "letters_lost s = map fst (filter (\<lambda>(i, reason, appended). \<not> appended) (wb_dead s))"

definition write_dead_letters :: "string \<Rightarrow> ('i \<Rightarrow> letter_attempt) \<Rightarrow> 'i list \<Rightarrow> 'i writer \<Rightarrow> 'i writer" where
  "write_dead_letters reason att items s = fold (write_dead_letter reason att) items s"

section \<open>Failure and hand-off bookkeeping\<close>

definition wb_fail :: "string \<Rightarrow> bool \<Rightarrow> 'i writer \<Rightarrow> 'i writer" where
  "wb_fail reason failed s = s\<lparr>wb_state := WFailed, wb_accepting := False,
     wb_consumer_failed := wb_consumer_failed s \<or> failed, wb_last_error := Some reason\<rparr>"

text \<open>The waiter is taken once the last hand-off is gone, and resolved right after the lock.\<close>

definition take_handoff_waiter :: "'i writer \<Rightarrow> 'i writer" where
  "take_handoff_waiter s =
     (if wb_handoff s \<noteq> [] \<or> \<not> wb_handoff_waiter s then s else s\<lparr>wb_handoff_waiter := False\<rparr>)"

definition queue_work :: "'i queue_entry list \<Rightarrow> 'i list" where
  "queue_work q = List.map_filter (\<lambda>e. case e of Work i \<Rightarrow> Some i | StopMark \<Rightarrow> None) q"

section \<open>Operations of the callers\<close>

datatype start_outcome = Started | AlreadyRunning | StartUnavailable

definition writer_start :: "bool \<Rightarrow> 'i writer \<Rightarrow> 'i writer \<times> start_outcome" where
  "writer_start on_owner_loop s =
     (if wb_state s = WRunning
      then if on_owner_loop \<and> wb_consumer s \<noteq> NoConsumer \<and> wb_consumer s \<noteq> Finished then (s, AlreadyRunning)
           else (wb_fail ''consumer_unavailable'' True s, StartUnavailable)
      else if wb_state s \<noteq> WNew then (s, StartUnavailable)
      else (s\<lparr>wb_queue := wb_queue s @ map Work (wb_pre_start s),
              wb_queued := wb_queued s + int (length (wb_pre_start s)), wb_pre_start := [],
              wb_state := WRunning, wb_consumer := Waiting\<rparr>, Started))"

datatype caller = OwnerLoop | OtherThread bool

datatype enqueue_outcome = Enqueued | EnqueueUnavailable | EnqueueOverloaded | HandoffUnavailable

definition writer_enqueue :: "('i \<Rightarrow> letter_attempt) \<Rightarrow> caller \<Rightarrow> 'i \<Rightarrow> 'i writer \<Rightarrow> 'i writer \<times> enqueue_outcome" where
  "writer_enqueue att who item s =
     (if \<not> wb_accepting s \<or> wb_state s \<notin> {WNew, WRunning} then (s, EnqueueUnavailable)
      else
        (let s0 = s\<lparr>wb_offered := wb_offered s @ [item]\<rparr>
         in if wb_reserved s \<ge> wb_capacity s
            then (write_dead_letter ''overloaded'' att item
                    (s0\<lparr>wb_overflow := wb_overflow s + 1, wb_last_error := Some ''overloaded''\<rparr>),
                  EnqueueOverloaded)
            else
              (let s1 = s0\<lparr>wb_accepted := wb_accepted s + 1\<rparr>
               in if wb_state s = WNew then (s1\<lparr>wb_pre_start := wb_pre_start s @ [item]\<rparr>, Enqueued)
                  else case who of
                    OwnerLoop \<Rightarrow> (s1\<lparr>wb_queue := wb_queue s @ [Work item], wb_queued := wb_queued s + 1\<rparr>, Enqueued)
                  | OtherThread scheduled \<Rightarrow>
                      (let h = wb_next_handoff s + 1;
                           s2 = s1\<lparr>wb_next_handoff := h, wb_handoff := dict_set h item (wb_handoff s)\<rparr>
                       in if scheduled then (s2, Enqueued)
                          else
                            (let stranded = map snd (wb_handoff s2);
                                 s3 = take_handoff_waiter (wb_fail ''handoff_unavailable'' True
                                   (s2\<lparr>wb_handoff := [], wb_diagnostic := wb_diagnostic s + int (length stranded)\<rparr>))
                             in (write_dead_letters ''handoff_unavailable'' att stranded s3, HandoffUnavailable))))))"

definition complete_handoff :: "('i \<Rightarrow> letter_attempt) \<Rightarrow> nat \<Rightarrow> 'i writer \<Rightarrow> 'i writer" where
  "complete_handoff att h s =
     (case dict_get (wb_handoff s) h of
        None \<Rightarrow> s
      | Some item \<Rightarrow>
          (let s1 = s\<lparr>wb_handoff := dict_pop h (wb_handoff s)\<rparr>
           in if wb_consumer_failed s
              then write_dead_letter ''consumer_failed'' att item
                     (take_handoff_waiter (s1\<lparr>wb_diagnostic := wb_diagnostic s + 1\<rparr>))
              else take_handoff_waiter (s1\<lparr>wb_queue := wb_queue s @ [Work item], wb_queued := wb_queued s + 1\<rparr>)))"

section \<open>Flushing\<close>

text \<open>A flush attempt commits the whole segment and returns, raises an ordinary exception, or is ended by a
  cancellation or another exception that is not an \<open>Exception\<close>. An attempt that does not return has
  usually been rolled back; the flag says that its commit took effect before (the exception came
  from closing the connection, or the cancellation while the commit ran).\<close>

datatype flush_outcome = Committed | Raised bool | Interrupted bool string

fun commits_late :: "flush_outcome \<Rightarrow> bool" where
  "commits_late Committed \<longleftrightarrow> False"
| "commits_late (Raised late) \<longleftrightarrow> late"
| "commits_late (Interrupted late reason) \<longleftrightarrow> late"

fun late_commit :: "flush_outcome \<Rightarrow> 'i list list \<Rightarrow> 'i writer \<Rightarrow> 'i writer" where
  "late_commit out [] s = s"
| "late_commit out (seg # segs) s =
     (if commits_late out then s\<lparr>wb_db := wb_db s @ seg, wb_late := wb_late s @ seg\<rparr> else s)"

definition complete_committed :: "int \<Rightarrow> 'i writer \<Rightarrow> 'i writer" where
  "complete_committed n s = s\<lparr>wb_in_flight := wb_in_flight s - n, wb_committed := wb_committed s + n\<rparr>"

definition complete_diagnostic :: "int \<Rightarrow> string \<Rightarrow> 'i writer \<Rightarrow> 'i writer" where
  "complete_diagnostic n reason s =
     wb_fail reason False (s\<lparr>wb_in_flight := wb_in_flight s - n, wb_diagnostic := wb_diagnostic s + n\<rparr>)"

text \<open>The recursion of \<open>_flush_or_split\<close> as the stack of segments it still has to flush: one
  attempt at the first segment.\<close>

fun flush_attempt :: "bool \<Rightarrow> ('i \<Rightarrow> letter_attempt) \<Rightarrow> 'i list list \<Rightarrow> 'i writer \<Rightarrow> 'i list list \<times> 'i writer" where
  "flush_attempt ok att [] s = ([], s)"
| "flush_attempt ok att (seg # segs) s =
     (if ok
      then (segs, complete_committed (int (length seg)) (s\<lparr>wb_db := wb_db s @ seg\<rparr>))
      else if length seg = 1
      then (segs, write_dead_letter ''write_failed'' att (hd seg) (complete_diagnostic 1 ''write_failed'' s))
      else (take (length seg div 2) seg # drop (length seg div 2) seg # segs, s))"

definition terminalize :: "string \<Rightarrow> ('i \<Rightarrow> letter_attempt) \<Rightarrow> 'i list \<Rightarrow> 'i writer \<Rightarrow> 'i writer" where
  "terminalize reason att current_batch s =
     (let queued_items = queue_work (wb_queue s);
          in_flight = wb_in_flight s;
          items = (if in_flight \<noteq> 0 then drop (length current_batch - nat in_flight) current_batch else [])
            @ queued_items @ wb_pre_start s @ map snd (wb_handoff s);
          terminal_count = wb_in_flight s + wb_queued s + int (length (wb_pre_start s)) + int (length (wb_handoff s));
          s1 = s\<lparr>wb_queue := [], wb_in_flight := 0, wb_queued := 0, wb_pre_start := [], wb_handoff := [],
                 wb_diagnostic := wb_diagnostic s + terminal_count\<rparr>
      in write_dead_letters reason att items (take_handoff_waiter (wb_fail reason True s1)))"

section \<open>The consumer\<close>

text \<open>Items follow the first one while the batch is not full and the queue not empty.\<close>

fun fill_batch :: "int \<Rightarrow> 'i list \<Rightarrow> 'i queue_entry list \<Rightarrow> 'i list \<times> 'i queue_entry list \<times> bool" where
  "fill_batch most batch [] = (batch, [], False)"
| "fill_batch most batch (e # q) =
     (if int (length batch) < most
      then case e of
        StopMark \<Rightarrow> (batch, q, True)
      | Work i \<Rightarrow> fill_batch most (batch @ [i]) q
      else (batch, e # q, False))"

definition consumer_stops :: "'i writer \<Rightarrow> 'i writer" where
  "consumer_stops s =
     (if wb_state s \<noteq> WFailed then s\<lparr>wb_state := WStopped, wb_consumer := Finished\<rparr>
      else s\<lparr>wb_consumer := Finished\<rparr>)"

definition consumer_get :: "'i writer \<Rightarrow> 'i writer" where
  "consumer_get s =
     (case (wb_consumer s, wb_queue s) of
        (Waiting, StopMark # q) \<Rightarrow> consumer_stops (s\<lparr>wb_queue := q\<rparr>)
      | (Waiting, Work i # q) \<Rightarrow>
          (case fill_batch (wb_batch_size s) [i] q of (batch, q', stops) \<Rightarrow>
             s\<lparr>wb_queue := q', wb_queued := wb_queued s - int (length batch),
               wb_in_flight := wb_in_flight s + int (length batch),
               wb_consumer := Flushing batch [batch] stops\<rparr>)
      | _ \<Rightarrow> s)"

definition consumer_flush :: "flush_outcome \<Rightarrow> ('i \<Rightarrow> letter_attempt) \<Rightarrow> 'i writer \<Rightarrow> 'i writer" where
  "consumer_flush out att s =
     (case wb_consumer s of
        Flushing batch segs stops \<Rightarrow>
          (case out of
             Interrupted late reason \<Rightarrow> (terminalize reason att batch s)\<lparr>wb_consumer := Finished\<rparr>
           | _ \<Rightarrow>
               (case flush_attempt (out = Committed) att segs s of (segs', s') \<Rightarrow>
                  if segs' \<noteq> [] then s'\<lparr>wb_consumer := Flushing batch segs' stops\<rparr>
                  else if stops then consumer_stops s' else s'\<lparr>wb_consumer := Waiting\<rparr>))
      | _ \<Rightarrow> s)"

text \<open>Cancelled, or failing otherwise, while it waits for the queue.\<close>

definition consumer_interrupt :: "string \<Rightarrow> ('i \<Rightarrow> letter_attempt) \<Rightarrow> 'i writer \<Rightarrow> 'i writer" where
  "consumer_interrupt reason att s =
     (case wb_consumer s of
        Waiting \<Rightarrow> (terminalize reason att [] s)\<lparr>wb_consumer := Finished\<rparr>
      | _ \<Rightarrow> s)"

section \<open>The stop task\<close>

definition terminal_ok :: "'i writer \<Rightarrow> bool" where
  "terminal_ok s \<longleftrightarrow> wb_reserved s = 0 \<and> wb_accepted s = wb_committed s + wb_diagnostic s"

definition stop_last :: "'i writer \<Rightarrow> 'i writer" where
  "stop_last s =
     (let s1 = (if wb_state s \<noteq> WFailed then s\<lparr>wb_state := WStopped\<rparr> else s)
      in s1\<lparr>wb_stopper := (if terminal_ok s1 then StopEnd else StopRaised)\<rparr>)"

text \<open>What follows the wait for the hand-offs.\<close>

definition stop_drain :: "'i list \<Rightarrow> 'i writer \<Rightarrow> 'i writer" where
  "stop_drain direct s =
     (if direct \<noteq> [] then s\<lparr>wb_stopper := StopDirect direct [direct]\<rparr>
      else if wb_consumer s \<noteq> NoConsumer \<and> wb_consumer s \<noteq> Finished
      then s\<lparr>wb_queue := wb_queue s @ [StopMark], wb_stopper := StopJoin\<rparr>
      else stop_last s)"

definition writer_stop :: "'i writer \<Rightarrow> 'i writer" where
  "writer_stop s = (if wb_stopper s = NoStop then s\<lparr>wb_stopper := StopCreated\<rparr> else s)"

definition stop_begin :: "'i writer \<Rightarrow> 'i writer" where
  "stop_begin s =
     (if wb_stopper s \<noteq> StopCreated then s
      else
        (let direct = (if wb_consumer s = NoConsumer then wb_pre_start s else []);
             s1 = s\<lparr>wb_accepting := False,
                    wb_pre_start := (if wb_consumer s = NoConsumer then [] else wb_pre_start s),
                    wb_in_flight := wb_in_flight s + int (length direct),
                    wb_state := (if wb_state s \<in> {WNew, WRunning} then WStopping else wb_state s)\<rparr>
         in if wb_handoff s \<noteq> [] then s1\<lparr>wb_handoff_waiter := True, wb_stopper := StopHandoff direct\<rparr>
            else stop_drain direct s1))"

definition stop_resume :: "'i writer \<Rightarrow> 'i writer" where
  "stop_resume s =
     (case wb_stopper s of
        StopHandoff direct \<Rightarrow> (if wb_handoff_waiter s then s else stop_drain direct s)
      | StopJoin \<Rightarrow> (if wb_consumer s = Finished then stop_last s else s)
      | _ \<Rightarrow> s)"

definition stop_flush :: "flush_outcome \<Rightarrow> ('i \<Rightarrow> letter_attempt) \<Rightarrow> 'i writer \<Rightarrow> 'i writer" where
  "stop_flush out att s =
     (case wb_stopper s of
        StopDirect batch segs \<Rightarrow>
          (case out of
             Interrupted late reason \<Rightarrow> stop_last (terminalize reason att batch s)
           | _ \<Rightarrow>
               (case flush_attempt (out = Committed) att segs s of (segs', s') \<Rightarrow>
                  if segs' \<noteq> [] then s'\<lparr>wb_stopper := StopDirect batch segs'\<rparr> else stop_last s'))
      | _ \<Rightarrow> s)"

section \<open>One step per event\<close>

datatype 'i writer_op =
  WStart bool
| WEnqueue "'i \<Rightarrow> letter_attempt" caller 'i
| WHandoff "'i \<Rightarrow> letter_attempt" nat
| WGet
| WFlush flush_outcome "'i \<Rightarrow> letter_attempt"
| WInterrupt string "'i \<Rightarrow> letter_attempt"
| WStop
| WStopBegin
| WStopResume
| WStopFlush flush_outcome "'i \<Rightarrow> letter_attempt"

text \<open>The segment a flush attempt is at.\<close>

fun pending_segments :: "'i consumer \<Rightarrow> 'i stopper \<Rightarrow> 'i list list" where
  "pending_segments (Flushing b segs st) t = segs"
| "pending_segments c (StopDirect b segs) = segs"
| "pending_segments c t = []"

definition wb_segments :: "'i writer \<Rightarrow> 'i list list" where
  "wb_segments s = pending_segments (wb_consumer s) (wb_stopper s)"

fun writer_step :: "'i writer_op \<Rightarrow> 'i writer \<Rightarrow> 'i writer" where
  "writer_step (WStart own) s = fst (writer_start own s)"
| "writer_step (WEnqueue att who i) s = fst (writer_enqueue att who i s)"
| "writer_step (WHandoff att h) s = complete_handoff att h s"
| "writer_step WGet s = consumer_get s"
| "writer_step (WFlush out att) s = consumer_flush out att (late_commit out (wb_segments s) s)"
| "writer_step (WInterrupt r att) s = consumer_interrupt r att s"
| "writer_step WStop s = writer_stop s"
| "writer_step WStopBegin s = stop_begin s"
| "writer_step WStopResume s = stop_resume s"
| "writer_step (WStopFlush out att) s = stop_flush out att (late_commit out (wb_segments s) s)"

section \<open>Frames\<close>

lemma write_dead_letter_frame [simp]:
  "wb_capacity (write_dead_letter r a i s) = wb_capacity s"
  "wb_batch_size (write_dead_letter r a i s) = wb_batch_size s"
  "wb_state (write_dead_letter r a i s) = wb_state s"
  "wb_accepting (write_dead_letter r a i s) = wb_accepting s"
  "wb_consumer_failed (write_dead_letter r a i s) = wb_consumer_failed s"
  "wb_queue (write_dead_letter r a i s) = wb_queue s"
  "wb_pre_start (write_dead_letter r a i s) = wb_pre_start s"
  "wb_handoff (write_dead_letter r a i s) = wb_handoff s"
  "wb_next_handoff (write_dead_letter r a i s) = wb_next_handoff s"
  "wb_handoff_waiter (write_dead_letter r a i s) = wb_handoff_waiter s"
  "wb_queued (write_dead_letter r a i s) = wb_queued s"
  "wb_in_flight (write_dead_letter r a i s) = wb_in_flight s"
  "wb_accepted (write_dead_letter r a i s) = wb_accepted s"
  "wb_committed (write_dead_letter r a i s) = wb_committed s"
  "wb_diagnostic (write_dead_letter r a i s) = wb_diagnostic s"
  "wb_consumer (write_dead_letter r a i s) = wb_consumer s"
  "wb_stopper (write_dead_letter r a i s) = wb_stopper s"
  "wb_db (write_dead_letter r a i s) = wb_db s"
  "wb_offered (write_dead_letter r a i s) = wb_offered s"
  "wb_late (write_dead_letter r a i s) = wb_late s"
  "map fst (wb_dead (write_dead_letter r a i s)) = map fst (wb_dead s) @ [i]"
  "image_mset fst (mset (wb_dead (write_dead_letter r a i s))) = add_mset i (image_mset fst (mset (wb_dead s)))"
  by (simp_all add: write_dead_letter_def Let_def)

lemma write_dead_letters_frame [simp]:
  "wb_capacity (write_dead_letters r a is s) = wb_capacity s"
  "wb_batch_size (write_dead_letters r a is s) = wb_batch_size s"
  "wb_state (write_dead_letters r a is s) = wb_state s"
  "wb_accepting (write_dead_letters r a is s) = wb_accepting s"
  "wb_consumer_failed (write_dead_letters r a is s) = wb_consumer_failed s"
  "wb_queue (write_dead_letters r a is s) = wb_queue s"
  "wb_pre_start (write_dead_letters r a is s) = wb_pre_start s"
  "wb_handoff (write_dead_letters r a is s) = wb_handoff s"
  "wb_next_handoff (write_dead_letters r a is s) = wb_next_handoff s"
  "wb_handoff_waiter (write_dead_letters r a is s) = wb_handoff_waiter s"
  "wb_queued (write_dead_letters r a is s) = wb_queued s"
  "wb_in_flight (write_dead_letters r a is s) = wb_in_flight s"
  "wb_accepted (write_dead_letters r a is s) = wb_accepted s"
  "wb_committed (write_dead_letters r a is s) = wb_committed s"
  "wb_diagnostic (write_dead_letters r a is s) = wb_diagnostic s"
  "wb_consumer (write_dead_letters r a is s) = wb_consumer s"
  "wb_stopper (write_dead_letters r a is s) = wb_stopper s"
  "wb_db (write_dead_letters r a is s) = wb_db s"
  "wb_offered (write_dead_letters r a is s) = wb_offered s"
  "wb_late (write_dead_letters r a is s) = wb_late s"
  "map fst (wb_dead (write_dead_letters r a is s)) = map fst (wb_dead s) @ is"
  "image_mset fst (mset (wb_dead (write_dead_letters r a is s))) = image_mset fst (mset (wb_dead s)) + mset is"
  unfolding write_dead_letters_def by (induction "is" arbitrary: s) simp_all

lemma take_handoff_waiter_frame [simp]:
  "wb_capacity (take_handoff_waiter s) = wb_capacity s"
  "wb_batch_size (take_handoff_waiter s) = wb_batch_size s"
  "wb_state (take_handoff_waiter s) = wb_state s"
  "wb_accepting (take_handoff_waiter s) = wb_accepting s"
  "wb_consumer_failed (take_handoff_waiter s) = wb_consumer_failed s"
  "wb_queue (take_handoff_waiter s) = wb_queue s"
  "wb_pre_start (take_handoff_waiter s) = wb_pre_start s"
  "wb_handoff (take_handoff_waiter s) = wb_handoff s"
  "wb_next_handoff (take_handoff_waiter s) = wb_next_handoff s"
  "wb_handoff_waiter (take_handoff_waiter s) = (wb_handoff_waiter s \<and> wb_handoff s \<noteq> [])"
  "wb_queued (take_handoff_waiter s) = wb_queued s"
  "wb_in_flight (take_handoff_waiter s) = wb_in_flight s"
  "wb_accepted (take_handoff_waiter s) = wb_accepted s"
  "wb_committed (take_handoff_waiter s) = wb_committed s"
  "wb_diagnostic (take_handoff_waiter s) = wb_diagnostic s"
  "wb_consumer (take_handoff_waiter s) = wb_consumer s"
  "wb_stopper (take_handoff_waiter s) = wb_stopper s"
  "wb_db (take_handoff_waiter s) = wb_db s"
  "wb_offered (take_handoff_waiter s) = wb_offered s"
  "wb_late (take_handoff_waiter s) = wb_late s"
  "wb_dead (take_handoff_waiter s) = wb_dead s"
  by (auto simp: take_handoff_waiter_def)

lemma queue_work_simps [simp]:
  "queue_work [] = []"
  "queue_work (Work i # q) = i # queue_work q"
  "queue_work (StopMark # q) = queue_work q"
  "queue_work (p @ q) = queue_work p @ queue_work q"
  by (simp_all add: queue_work_def List.map_filter_def)

lemma queue_work_map [simp]: "queue_work (map Work is) = is"
  by (induction "is") simp_all

section \<open>Invariant\<close>

text \<open>The items the writer holds.\<close>

definition wb_live :: "'i writer \<Rightarrow> 'i list" where
  "wb_live s = wb_pre_start s @ map snd (wb_handoff s) @ queue_work (wb_queue s) @ concat (wb_segments s)"

definition writer_counts :: "'i writer \<Rightarrow> bool" where
  "writer_counts s \<longleftrightarrow>
     wb_queued s = int (length (queue_work (wb_queue s))) \<and>
     wb_in_flight s = int (length (concat (wb_segments s))) \<and>
     wb_accepted s = wb_committed s + wb_diagnostic s + wb_reserved s \<and>
     wb_reserved s \<le> wb_capacity s \<and> wb_committed s + int (length (wb_late s)) = int (length (wb_db s))"

definition writer_items :: "'i writer \<Rightarrow> bool" where
  "writer_items s \<longleftrightarrow>
     mset (wb_offered s) + mset (wb_late s) = mset (wb_db s) + mset (map fst (wb_dead s)) + mset (wb_live s)"

definition batch_ok :: "'i list \<Rightarrow> 'i list list \<Rightarrow> bool" where
  "batch_ok b segs \<longleftrightarrow> segs \<noteq> [] \<and> [] \<notin> set segs \<and> (\<exists>pre. b = pre @ concat segs)"

definition writer_control :: "'i writer \<Rightarrow> bool" where
  "writer_control s \<longleftrightarrow>
     (case wb_consumer s of
        NoConsumer \<Rightarrow> wb_queue s = [] \<and> wb_handoff s = [] \<and> wb_state s \<noteq> WRunning \<and>
          (wb_pre_start s \<noteq> [] \<longrightarrow> wb_state s = WNew)
      | Waiting \<Rightarrow> wb_pre_start s = [] \<and> wb_state s \<noteq> WNew
      | Flushing b segs st \<Rightarrow> wb_pre_start s = [] \<and> wb_state s \<noteq> WNew \<and> batch_ok b segs \<and>
          (st \<longrightarrow> wb_stopper s = StopJoin \<and> wb_queue s = [] \<and> wb_handoff s = [])
      | Finished \<Rightarrow> wb_pre_start s = [] \<and> wb_state s \<noteq> WNew \<and> wb_state s \<noteq> WRunning \<and>
          wb_queue s = [] \<and> wb_handoff s = [] \<and> \<not> wb_accepting s) \<and>
     (case wb_stopper s of
        NoStop \<Rightarrow> True
      | StopCreated \<Rightarrow> True
      | StopHandoff d \<Rightarrow> d = [] \<and> wb_consumer s \<noteq> NoConsumer \<and> (wb_handoff s \<noteq> [] \<longrightarrow> wb_handoff_waiter s)
      | StopDirect b segs \<Rightarrow> batch_ok b segs \<and> wb_consumer s = NoConsumer
      | StopJoin \<Rightarrow> wb_consumer s \<noteq> NoConsumer \<and> wb_handoff s = []
      | StopEnd \<Rightarrow> wb_consumer s \<in> {NoConsumer, Finished}
      | StopRaised \<Rightarrow> False) \<and>
     (wb_stopper s \<notin> {NoStop, StopCreated} \<longrightarrow> \<not> wb_accepting s \<and> wb_state s \<noteq> WNew \<and> wb_state s \<noteq> WRunning) \<and>
     StopMark \<notin> set (butlast (wb_queue s)) \<and> (StopMark \<in> set (wb_queue s) \<longrightarrow> wb_stopper s = StopJoin) \<and>
     distinct (map fst (wb_handoff s)) \<and> (\<forall>k\<in>fst ` set (wb_handoff s). k \<le> wb_next_handoff s)"

definition writer_ok :: "'i writer \<Rightarrow> bool" where
  "writer_ok s \<longleftrightarrow> writer_counts s \<and> writer_items s \<and> writer_control s"

lemmas writer_views = writer_counts_def writer_items_def writer_control_def wb_reserved_def
  wb_live_def wb_segments_def

lemmas writer_defs = writer_ok_def writer_views

lemma new_writer_ok: "new_writer b m = Some s \<Longrightarrow> writer_ok s"
  by (auto simp: new_writer_def writer_defs split: py_num.splits if_splits)

lemma writer_start_ok: "writer_ok s \<Longrightarrow> writer_ok (fst (writer_start own s))"
  by (auto simp: writer_defs writer_start_def wb_fail_def dest: in_set_butlastD
      split: consumer.splits stopper.splits)

lemma writer_enqueue_ok:
  assumes "writer_ok s"
  shows "writer_ok (fst (writer_enqueue att who i s))"
proof -
  consider (refused) "\<not> wb_accepting s \<or> wb_state s \<notin> {WNew, WRunning}"
    | (full) "wb_accepting s" "wb_state s \<in> {WNew, WRunning}" "wb_reserved s \<ge> wb_capacity s"
    | (new) "wb_accepting s" "wb_state s = WNew" "wb_reserved s < wb_capacity s"
    | (run) "wb_accepting s" "wb_state s = WRunning" "wb_reserved s < wb_capacity s"
    by fastforce
  then show ?thesis
  proof cases
    case refused
    with assms show ?thesis by (simp add: writer_enqueue_def)
  next
    case full
    with assms show ?thesis
      by (auto simp: writer_enqueue_def Let_def writer_defs split: consumer.splits stopper.splits)
  next
    case new
    with assms show ?thesis
      by (auto simp: writer_enqueue_def Let_def writer_defs split: consumer.splits stopper.splits)
  next
    case run
    show ?thesis
    proof (cases who)
      case OwnerLoop
      with run assms show ?thesis
        by (auto simp: writer_enqueue_def Let_def writer_defs split: consumer.splits stopper.splits)
    next
      case (OtherThread sched)
      have new: "AList.update (wb_next_handoff s + 1) i (wb_handoff s) = wb_handoff s @ [(wb_next_handoff s + 1, i)]"
        using assms by (intro dict_set_new) (auto simp: writer_defs)
      show ?thesis
        using OtherThread run assms new
        by (cases sched) (auto simp: writer_enqueue_def Let_def writer_defs wb_fail_def
          split: consumer.splits stopper.splits)
    qed
  qed
qed

lemma complete_handoff_ok:
  assumes "writer_ok s"
  shows "writer_ok (complete_handoff att h s)"
proof (cases "dict_get (wb_handoff s) h")
  case None
  with assms show ?thesis by (simp add: complete_handoff_def)
next
  case (Some i)
  have dist: "distinct (map fst (wb_handoff s))" using assms by (simp add: writer_defs)
  from split_list[OF map_of_SomeD[OF Some]] obtain xs ys where h: "wb_handoff s = xs @ (h, i) # ys" by blast
  have "h \<notin> fst ` set xs" "h \<notin> fst ` set ys" using dist h by auto
  then have pop: "dict_pop h (xs @ (h, i) # ys) = xs @ ys"
    by (auto simp: dict_pop_filter image_iff intro!: arg_cong2[where f = append] filter_True)
  have pop': "dict_pop h (wb_handoff s) = xs @ ys" by (simp only: h pop)
  have res: "complete_handoff att h s =
      (if wb_consumer_failed s
       then write_dead_letter ''consumer_failed'' att i
              (take_handoff_waiter (s\<lparr>wb_handoff := xs @ ys, wb_diagnostic := wb_diagnostic s + 1\<rparr>))
       else take_handoff_waiter (s\<lparr>wb_handoff := xs @ ys, wb_queue := wb_queue s @ [Work i],
              wb_queued := wb_queued s + 1\<rparr>))"
    by (simp add: complete_handoff_def Let_def Some pop')
  have "wb_consumer s \<noteq> NoConsumer" "wb_consumer s \<noteq> Finished" "wb_stopper s \<noteq> StopJoin" "wb_stopper s \<noteq> StopEnd"
    "\<And>b segs. wb_consumer s \<noteq> Flushing b segs True" "StopMark \<notin> set (wb_queue s)"
    using assms h by (auto simp: writer_defs split: consumer.splits stopper.splits)
  note alive = this
  have "writer_counts s" and "writer_items s" using assms by (simp_all add: writer_ok_def)
  then have "writer_counts (complete_handoff att h s)" "writer_items (complete_handoff att h s)"
    using h by (simp_all add: res writer_views)
  moreover have "writer_control (complete_handoff att h s)"
    using assms h alive
    by (auto simp: res writer_ok_def writer_control_def dest: in_set_butlastD split: consumer.splits stopper.splits)
  ultimately show ?thesis by (simp add: writer_ok_def)
qed

lemma terminalize_ok:
  assumes "writer_ok s" and "wb_consumer s \<noteq> NoConsumer \<Longrightarrow> c' = Finished"
    and "wb_consumer s = NoConsumer \<Longrightarrow> c' = NoConsumer"
    and "(case wb_consumer s of Flushing b segs st \<Rightarrow> batch = b
          | _ \<Rightarrow> (case wb_stopper s of StopDirect b segs \<Rightarrow> batch = b | _ \<Rightarrow> batch = []))"
    and "(case t' of StopDirect b segs \<Rightarrow> False | StopRaised \<Rightarrow> False | _ \<Rightarrow> True)"
    and "t' = wb_stopper s \<or> (t' = StopEnd \<and> (\<exists>b segs. wb_stopper s = StopDirect b segs))"
  shows "writer_ok ((terminalize r att batch s)\<lparr>wb_consumer := c', wb_stopper := t'\<rparr>)"
proof -
  have take_rest: "drop (length (pre @ concat segs) - nat (int (length (concat segs)))) (pre @ concat segs) = concat segs"
    for pre :: "'a list" and segs by simp
  show ?thesis
    using assms
    by (auto simp: terminalize_def Let_def wb_fail_def writer_defs batch_ok_def
        split: consumer.splits stopper.splits if_splits)
qed

text \<open>What one flush attempt does to a stack of segments.\<close>

lemma flush_attempt_cases:
  assumes "segs \<noteq> []" and "[] \<notin> set segs" and "flush_attempt ok att segs s = (segs', s')"
  obtains (commit) seg where "segs = seg # segs'" "ok"
      "s' = complete_committed (int (length seg)) (s\<lparr>wb_db := wb_db s @ seg\<rparr>)"
    | (reject) i where "segs = [i] # segs'" "\<not> ok"
      "s' = write_dead_letter ''write_failed'' att i (complete_diagnostic 1 ''write_failed'' s)"
    | (divide) "s' = s" "\<not> ok" "concat segs' = concat segs" "segs' \<noteq> []" "[] \<notin> set segs'"
proof -
  obtain seg rest where segs: "segs = seg # rest" using assms(1) by (cases segs) auto
  have "seg \<noteq> []" using assms(2) segs by auto
  show ?thesis
  proof (cases "ok")
    case True
    with segs assms(3) show ?thesis by (intro commit) auto
  next
    case False
    show ?thesis
    proof (cases "length seg = 1")
      case True
      then obtain i where "seg = [i]" by (auto simp: length_Suc_conv)
      with False segs assms(3) show ?thesis by (intro reject) auto
    next
      case long: False
      then have "0 < length seg div 2" "length seg div 2 < length seg"
        using \<open>seg \<noteq> []\<close> by (cases seg; cases "tl seg"; simp)+
      with False long segs assms show ?thesis by (intro divide) auto
    qed
  qed
qed

lemma batch_ok_rest:
  "batch_ok b (seg # segs) \<Longrightarrow> segs \<noteq> [] \<Longrightarrow> batch_ok b segs"
  by (auto simp: batch_ok_def)

lemma consumer_flush_ok:
  assumes ok: "writer_ok s"
  shows "writer_ok (consumer_flush out att s)"
proof (cases "wb_consumer s")
  case (Flushing b segs st)
  have bok: "batch_ok b segs" using ok Flushing by (simp add: writer_defs)
  have cnt: "writer_counts s" and itm: "writer_items s" and ctl: "writer_control s"
    using ok by (simp_all add: writer_ok_def)
  have nd: "pending_segments Waiting (wb_stopper s) = []" "pending_segments Finished (wb_stopper s) = []"
    using ctl Flushing by (auto simp: writer_control_def split: stopper.splits)
  show ?thesis
  proof (cases "\<exists>l r. out = Interrupted l r")
    case True
    then obtain l r where r: "out = Interrupted l r" by blast
    have "writer_ok ((terminalize r att b s)\<lparr>wb_consumer := Finished, wb_stopper := wb_stopper s\<rparr>)"
      by (rule terminalize_ok[OF ok]) (use Flushing ok in \<open>auto simp: writer_defs split: stopper.splits\<close>)
    moreover have "(terminalize r att b s)\<lparr>wb_consumer := Finished, wb_stopper := wb_stopper s\<rparr> =
        (terminalize r att b s)\<lparr>wb_consumer := Finished\<rparr>"
      by (simp add: terminalize_def Let_def wb_fail_def)
    ultimately show ?thesis using Flushing r by (simp add: consumer_flush_def)
  next
    case False
    obtain segs' s' where fa: "flush_attempt (out = Committed) att segs s = (segs', s')" by fastforce
    have res: "consumer_flush out att s = (if segs' \<noteq> [] then s'\<lparr>wb_consumer := Flushing b segs' st\<rparr>
        else if st then consumer_stops s' else s'\<lparr>wb_consumer := Waiting\<rparr>)"
      using Flushing False fa by (cases out) (simp_all add: consumer_flush_def)
    from bok have ne: "segs \<noteq> []" "[] \<notin> set segs" by (auto simp: batch_ok_def)
    consider (commit) seg where "segs = seg # segs'" "out = Committed"
        "s' = complete_committed (int (length seg)) (s\<lparr>wb_db := wb_db s @ seg\<rparr>)"
      | (reject) i where "segs = [i] # segs'"
        "s' = write_dead_letter ''write_failed'' att i (complete_diagnostic 1 ''write_failed'' s)"
      | (divide) "s' = s" "concat segs' = concat segs" "segs' \<noteq> []" "[] \<notin> set segs'"
      by (rule flush_attempt_cases[OF ne fa]) blast+
    then show ?thesis
    proof cases
      case (commit seg)
      have "segs' \<noteq> [] \<Longrightarrow> batch_ok b segs'" using batch_ok_rest bok commit(1) by blast
      note rest = this
      have "writer_counts (consumer_flush out att s)"
        using cnt Flushing commit(1) nd by (simp add: res commit(3) complete_committed_def consumer_stops_def writer_views)
      moreover have "writer_items (consumer_flush out att s)"
        using itm Flushing commit(1) nd by (simp add: res commit(3) complete_committed_def consumer_stops_def writer_views)
      moreover have "writer_control (consumer_flush out att s)"
        using ctl Flushing rest
        by (cases "wb_stopper s")
          (auto simp: res commit(3) complete_committed_def consumer_stops_def writer_control_def)
      ultimately show ?thesis by (simp add: writer_ok_def)
    next
      case (reject i)
      have "segs' \<noteq> [] \<Longrightarrow> batch_ok b segs'" using batch_ok_rest bok reject(1) by blast
      with reject cnt itm ctl Flushing show ?thesis
        by (auto simp: res writer_ok_def complete_diagnostic_def wb_fail_def consumer_stops_def writer_views
            split: stopper.splits)
    next
      case divide
      with bok have "batch_ok b segs'" by (simp add: batch_ok_def)
      with divide cnt itm ctl Flushing show ?thesis
        by (auto simp: res writer_ok_def writer_views split: stopper.splits)
    qed
  qed
qed (use ok in \<open>simp_all add: consumer_flush_def\<close>)

lemma consumer_interrupt_ok:
  assumes ok: "writer_ok s"
  shows "writer_ok (consumer_interrupt r att s)"
proof (cases "wb_consumer s")
  case Waiting
  have "writer_ok ((terminalize r att [] s)\<lparr>wb_consumer := Finished, wb_stopper := wb_stopper s\<rparr>)"
    by (rule terminalize_ok[OF ok]) (use Waiting ok in \<open>auto simp: writer_defs split: stopper.splits\<close>)
  moreover have "(terminalize r att [] s)\<lparr>wb_consumer := Finished, wb_stopper := wb_stopper s\<rparr> =
      (terminalize r att [] s)\<lparr>wb_consumer := Finished\<rparr>"
    by (simp add: terminalize_def Let_def wb_fail_def)
  ultimately show ?thesis using Waiting by (simp add: consumer_interrupt_def)
qed (use ok in \<open>simp_all add: consumer_interrupt_def\<close>)

lemma fill_batch_spec:
  "fill_batch most b q = (b', q', st) \<Longrightarrow> StopMark \<notin> set (butlast q) \<Longrightarrow>
   \<exists>ws. b' = b @ ws \<and> queue_work q = ws @ queue_work q' \<and> StopMark \<notin> set (butlast q') \<and>
     (StopMark \<in> set q' \<longrightarrow> StopMark \<in> set q) \<and> (st \<longrightarrow> q' = [] \<and> StopMark \<in> set q)"
proof (induction most b q rule: fill_batch.induct)
  case (2 most b e q)
  show ?case
  proof (cases "int (length b) < most")
    case True
    show ?thesis
    proof (cases e)
      case (Work i)
      with 2(1)[OF True Work] 2(2,3) True show ?thesis by (fastforce split: if_splits)
    next
      case StopMark
      with 2(2,3) True show ?thesis by (auto split: if_splits)
    qed
  next
    case False
    with 2(2,3) show ?thesis by auto
  qed
qed auto

lemma consumer_get_ok:
  assumes ok: "writer_ok s"
  shows "writer_ok (consumer_get s)"
proof (cases "wb_consumer s = Waiting \<and> wb_queue s \<noteq> []")
  case False
  with ok show ?thesis by (auto simp: consumer_get_def split: consumer.split list.split)
next
  case True
  then obtain e q where q: "wb_queue s = e # q" by (meson list.exhaust)
  show ?thesis
  proof (cases e)
    case StopMark
    with ok True q show ?thesis
      by (auto simp: consumer_get_def consumer_stops_def writer_defs split: stopper.splits if_splits)
  next
    case (Work i)
    obtain b q' st where fb: "fill_batch (wb_batch_size s) [i] q = (b, q', st)" by (metis prod_cases3)
    have "StopMark \<notin> set (butlast q)" using ok q Work by (auto simp: writer_defs split: if_splits)
    from fill_batch_spec[OF fb this] obtain ws where ws: "b = [i] @ ws" "queue_work q = ws @ queue_work q'"
      "StopMark \<notin> set (butlast q')" "StopMark \<in> set q' \<longrightarrow> StopMark \<in> set q" "st \<longrightarrow> q' = [] \<and> StopMark \<in> set q"
      by blast
    have "batch_ok b [b]" using ws(1) by (simp add: batch_ok_def)
    with ok True q Work fb ws show ?thesis
      by (auto simp: consumer_get_def writer_defs split: stopper.splits if_splits)
  qed
qed

lemma stop_last_ok:
  assumes "writer_ok (s\<lparr>wb_stopper := StopEnd\<rparr>)"
  shows "writer_ok (stop_last s)"
proof -
  have "wb_live (s\<lparr>wb_stopper := StopEnd\<rparr>) = []"
    using assms by (auto simp: writer_defs split: consumer.splits)
  then have "terminal_ok s"
    using assms by (auto simp: writer_defs terminal_ok_def split: consumer.splits)
  then have "terminal_ok (if wb_state s \<noteq> WFailed then s\<lparr>wb_state := WStopped\<rparr> else s)"
    by (simp add: terminal_ok_def wb_reserved_def)
  with assms show ?thesis
    by (auto simp: stop_last_def Let_def writer_defs split: consumer.splits)
qed

definition stop_ready :: "'i writer \<Rightarrow> bool" where
  "stop_ready s \<longleftrightarrow> writer_ok (s\<lparr>wb_stopper := NoStop\<rparr>) \<and> \<not> wb_accepting s \<and>
     wb_state s \<noteq> WNew \<and> wb_state s \<noteq> WRunning"

lemma stop_drain_ok:
  assumes "stop_ready s" and "wb_handoff s = []"
  shows "writer_ok (stop_drain [] s)"
proof (cases "wb_consumer s \<in> {NoConsumer, Finished}")
  case True
  then have "writer_ok (s\<lparr>wb_stopper := StopEnd\<rparr>)"
    using assms by (auto simp: stop_ready_def writer_defs split: consumer.splits)
  with True show ?thesis by (auto simp: stop_drain_def dest: stop_last_ok)
next
  case False
  have "StopMark \<notin> set (wb_queue s)" using assms(1) by (auto simp: stop_ready_def writer_defs)
  with False assms show ?thesis
    by (auto simp: stop_drain_def stop_ready_def writer_defs split: consumer.splits)
qed

lemma stop_begin_ok:
  assumes ok: "writer_ok s"
  shows "writer_ok (stop_begin s)"
proof (cases "wb_stopper s = StopCreated")
  case False
  with ok show ?thesis by (simp add: stop_begin_def)
next
  case True
  let ?st = "if wb_state s \<in> {WNew, WRunning} then WStopping else wb_state s"
  have cnt: "writer_counts s" and itm: "writer_items s" and ctl: "writer_control s"
    using ok by (simp_all add: writer_ok_def)
  show ?thesis
  proof (cases "wb_consumer s = NoConsumer")
    case nc: True
    have h: "wb_handoff s = []" using ctl nc by (simp add: writer_control_def)
    show ?thesis
    proof (cases "wb_pre_start s = []")
      case empty: True
      let ?s0 = "s\<lparr>wb_accepting := False, wb_pre_start := [], wb_in_flight := wb_in_flight s, wb_state := ?st\<rparr>"
      have e: "stop_begin s = stop_drain [] ?s0"
        using True nc h empty by (simp add: stop_begin_def Let_def)
      have r: "stop_ready ?s0" using ok True nc h empty by (auto simp: stop_ready_def writer_defs)
      have "wb_handoff ?s0 = []" using h by simp
      with r show ?thesis unfolding e by (rule stop_drain_ok)
    next
      case some: False
      have "stop_begin s = s\<lparr>wb_accepting := False, wb_pre_start := [],
          wb_in_flight := wb_in_flight s + int (length (wb_pre_start s)), wb_state := ?st,
          wb_stopper := StopDirect (wb_pre_start s) [wb_pre_start s]\<rparr>"
        using True nc h some by (simp add: stop_begin_def Let_def stop_drain_def)
      then show ?thesis
        using cnt itm ctl True nc h some by (auto simp: writer_ok_def writer_views batch_ok_def)
    qed
  next
    case alive: False
    have pre: "wb_pre_start s = []" using ctl alive by (auto simp: writer_control_def split: consumer.splits)
    let ?s1 = "s\<lparr>wb_accepting := False, wb_state := ?st\<rparr>"
    have s1: "stop_begin s = (if wb_handoff s \<noteq> []
        then ?s1\<lparr>wb_handoff_waiter := True, wb_stopper := StopHandoff []\<rparr> else stop_drain [] ?s1)"
      using True alive pre by (cases s) (simp add: stop_begin_def Let_def)
    have "stop_ready ?s1"
      using ok True alive by (auto simp: stop_ready_def writer_defs split: consumer.splits)
    moreover have "wb_handoff s \<noteq> [] \<Longrightarrow> writer_ok (?s1\<lparr>wb_handoff_waiter := True, wb_stopper := StopHandoff []\<rparr>)"
      using ok True alive by (auto simp: writer_defs split: consumer.splits)
    ultimately show ?thesis using stop_drain_ok[of ?s1] by (simp add: s1)
  qed
qed

lemma stop_resume_ok:
  assumes ok: "writer_ok s"
  shows "writer_ok (stop_resume s)"
proof (cases "wb_stopper s")
  case (StopHandoff d)
  show ?thesis
  proof (cases "wb_handoff_waiter s")
    case True
    with ok StopHandoff show ?thesis by (simp add: stop_resume_def)
  next
    case False
    have d: "d = []" "wb_handoff s = []" using ok StopHandoff False by (auto simp: writer_defs)
    have "stop_ready s" using ok StopHandoff
      by (auto simp: stop_ready_def writer_defs split: consumer.splits)
    with StopHandoff False d show ?thesis by (simp add: stop_resume_def stop_drain_ok)
  qed
next
  case StopJoin
  show ?thesis
  proof (cases "wb_consumer s = Finished")
    case True
    have "writer_ok (s\<lparr>wb_stopper := StopEnd\<rparr>)" using ok StopJoin True by (auto simp: writer_defs)
    with StopJoin True show ?thesis by (simp add: stop_resume_def stop_last_ok)
  next
    case False
    with ok StopJoin show ?thesis by (simp add: stop_resume_def)
  qed
qed (use ok in \<open>simp_all add: stop_resume_def\<close>)

lemma stop_flush_ok:
  assumes ok: "writer_ok s"
  shows "writer_ok (stop_flush out att s)"
proof (cases "\<exists>b segs. wb_stopper s = StopDirect b segs")
  case False
  with ok show ?thesis by (auto simp: stop_flush_def split: stopper.split)
next
  case True
  then obtain b segs where d: "wb_stopper s = StopDirect b segs" by blast
  have cnt: "writer_counts s" and itm: "writer_items s" and ctl: "writer_control s"
    using ok by (simp_all add: writer_ok_def)
  have bok: "batch_ok b segs" and nc: "wb_consumer s = NoConsumer" using ctl d by (simp_all add: writer_control_def)
  show ?thesis
  proof (cases "\<exists>l r. out = Interrupted l r")
    case True
    then obtain l r where r: "out = Interrupted l r" by blast
    have "writer_ok ((terminalize r att b s)\<lparr>wb_consumer := NoConsumer, wb_stopper := StopEnd\<rparr>)"
      by (rule terminalize_ok[OF ok]) (use d nc in auto)
    moreover have "(terminalize r att b s)\<lparr>wb_consumer := NoConsumer, wb_stopper := StopEnd\<rparr> =
        (terminalize r att b s)\<lparr>wb_stopper := StopEnd\<rparr>"
      using nc by (simp add: terminalize_def Let_def wb_fail_def)
    ultimately have "writer_ok (stop_last (terminalize r att b s))" by (simp add: stop_last_ok)
    with d r show ?thesis by (simp add: stop_flush_def)
  next
    case False
    obtain segs' s' where fa: "flush_attempt (out = Committed) att segs s = (segs', s')" by fastforce
    have res: "stop_flush out att s = (if segs' \<noteq> [] then s'\<lparr>wb_stopper := StopDirect b segs'\<rparr> else stop_last s')"
      using d False fa by (cases out) (simp_all add: stop_flush_def)
    from bok have ne: "segs \<noteq> []" "[] \<notin> set segs" by (auto simp: batch_ok_def)
    have "writer_ok (s'\<lparr>wb_stopper := (if segs' \<noteq> [] then StopDirect b segs' else StopEnd)\<rparr>)"
    proof (rule flush_attempt_cases[OF ne fa])
      fix seg assume c: "segs = seg # segs'" "s' = complete_committed (int (length seg)) (s\<lparr>wb_db := wb_db s @ seg\<rparr>)"
      have "segs' \<noteq> [] \<Longrightarrow> batch_ok b segs'" using batch_ok_rest bok c(1) by blast
      with c cnt itm ctl d nc show ?thesis
        by (auto simp: writer_ok_def complete_committed_def writer_views)
    next
      fix i assume c: "segs = [i] # segs'"
        "s' = write_dead_letter ''write_failed'' att i (complete_diagnostic 1 ''write_failed'' s)"
      have "segs' \<noteq> [] \<Longrightarrow> batch_ok b segs'" using batch_ok_rest bok c(1) by blast
      with c cnt itm ctl d nc show ?thesis
        by (auto simp: writer_ok_def complete_diagnostic_def wb_fail_def writer_views)
    next
      assume c: "s' = s" "concat segs' = concat segs" "segs' \<noteq> []" "[] \<notin> set segs'"
      with bok have "batch_ok b segs'" by (simp add: batch_ok_def)
      with c cnt itm ctl d nc show ?thesis by (auto simp: writer_ok_def writer_views)
    qed
    then show ?thesis by (auto simp: res intro: stop_last_ok split: if_splits)
  qed
qed

lemma writer_stop_ok: "writer_ok s \<Longrightarrow> writer_ok (writer_stop s)"
  by (auto simp: writer_stop_def writer_defs split: consumer.splits)

lemma late_commit_ok: "writer_ok s \<Longrightarrow> writer_ok (late_commit out segs s)"
  by (cases segs) (auto simp: writer_ok_def writer_views split: consumer.splits stopper.splits)

lemma writer_step_ok: "writer_ok s \<Longrightarrow> writer_ok (writer_step x s)"
  by (cases x) (simp_all add: writer_start_ok writer_enqueue_ok complete_handoff_ok consumer_get_ok
      consumer_flush_ok consumer_interrupt_ok writer_stop_ok stop_begin_ok stop_resume_ok stop_flush_ok late_commit_ok)

interpretation writer_run: step_machine writer_step writer_ok
  by unfold_locales (rule writer_step_ok)

text \<open>The counter of failed appends counts the records that were lost.\<close>

definition losses_counted :: "'i writer \<Rightarrow> bool" where
  "losses_counted s \<longleftrightarrow> wb_dead_failures s = int (length (letters_lost s))"

lemma losses_counted_frame [simp]:
  "losses_counted (s\<lparr>wb_state := st\<rparr>) = losses_counted s"
  "losses_counted (s\<lparr>wb_accepting := b\<rparr>) = losses_counted s"
  "losses_counted (s\<lparr>wb_consumer_failed := b\<rparr>) = losses_counted s"
  "losses_counted (s\<lparr>wb_queue := q\<rparr>) = losses_counted s"
  "losses_counted (s\<lparr>wb_pre_start := items\<rparr>) = losses_counted s"
  "losses_counted (s\<lparr>wb_handoff := d\<rparr>) = losses_counted s"
  "losses_counted (s\<lparr>wb_next_handoff := h\<rparr>) = losses_counted s"
  "losses_counted (s\<lparr>wb_handoff_waiter := b\<rparr>) = losses_counted s"
  "losses_counted (s\<lparr>wb_queued := n\<rparr>) = losses_counted s"
  "losses_counted (s\<lparr>wb_in_flight := n\<rparr>) = losses_counted s"
  "losses_counted (s\<lparr>wb_accepted := n\<rparr>) = losses_counted s"
  "losses_counted (s\<lparr>wb_committed := n\<rparr>) = losses_counted s"
  "losses_counted (s\<lparr>wb_diagnostic := n\<rparr>) = losses_counted s"
  "losses_counted (s\<lparr>wb_overflow := n\<rparr>) = losses_counted s"
  "losses_counted (s\<lparr>wb_last_error := e\<rparr>) = losses_counted s"
  "losses_counted (s\<lparr>wb_consumer := c\<rparr>) = losses_counted s"
  "losses_counted (s\<lparr>wb_stopper := t\<rparr>) = losses_counted s"
  "losses_counted (s\<lparr>wb_db := items\<rparr>) = losses_counted s"
  "losses_counted (s\<lparr>wb_offered := items\<rparr>) = losses_counted s"
  "losses_counted (s\<lparr>wb_late := items\<rparr>) = losses_counted s"
  by (simp_all add: losses_counted_def letters_lost_def)

lemma losses_counted_letters [simp]:
  "losses_counted (write_dead_letter r a i s) = losses_counted s"
  "losses_counted (write_dead_letters r a items s) = losses_counted s"
proof -
  show one: "losses_counted (write_dead_letter r a i s) = losses_counted s" for i s
    by (simp add: write_dead_letter_def Let_def losses_counted_def letters_lost_def)
  show "losses_counted (write_dead_letters r a items s) = losses_counted s"
    unfolding write_dead_letters_def by (induction items arbitrary: s) (simp_all add: one)
qed

lemma losses_counted_helpers [simp]:
  "losses_counted (wb_fail r b s) = losses_counted s"
  "losses_counted (take_handoff_waiter s) = losses_counted s"
  "losses_counted (consumer_stops s) = losses_counted s"
  "losses_counted (terminalize r att batch s) = losses_counted s"
  "losses_counted (stop_last s) = losses_counted s"
  "losses_counted (stop_drain direct s) = losses_counted s"
  "losses_counted (complete_committed n s) = losses_counted s"
  "losses_counted (complete_diagnostic n r s) = losses_counted s"
  by (simp_all add: wb_fail_def take_handoff_waiter_def consumer_stops_def terminalize_def stop_last_def stop_drain_def
      complete_committed_def complete_diagnostic_def Let_def)

lemma losses_counted_attempt [simp]:
  "losses_counted (snd (flush_attempt ok att segs s)) = losses_counted s"
  "losses_counted (late_commit out segs s) = losses_counted s"
  by (cases segs; simp)+

lemma losses_counted_operations [simp]:
  "losses_counted (fst (writer_start own s)) = losses_counted s"
  "losses_counted (fst (writer_enqueue att who i s)) = losses_counted s"
  "losses_counted (complete_handoff att h s) = losses_counted s"
  "losses_counted (consumer_interrupt r att s) = losses_counted s"
  "losses_counted (writer_stop s) = losses_counted s"
  "losses_counted (stop_begin s) = losses_counted s"
  "losses_counted (stop_resume s) = losses_counted s"
  subgoal by (simp add: writer_start_def)
  subgoal by (simp add: writer_enqueue_def Let_def split: caller.split)
  subgoal by (simp add: complete_handoff_def Let_def split: option.split)
  subgoal by (simp add: consumer_interrupt_def split: consumer.split)
  subgoal by (simp add: writer_stop_def)
  subgoal by (simp add: stop_begin_def Let_def)
  subgoal by (simp add: stop_resume_def split: stopper.split)
  done

lemma losses_counted_consumer [simp]:
  "losses_counted (consumer_get s) = losses_counted s"
  "losses_counted (consumer_flush out att s) = losses_counted s"
  "losses_counted (stop_flush out att s) = losses_counted s"
  subgoal by (simp add: consumer_get_def split: consumer.split list.split queue_entry.split prod.split)
  subgoal by (simp add: consumer_flush_def split_beta split: consumer.split flush_outcome.split)
  subgoal by (simp add: stop_flush_def split_beta split: stopper.split flush_outcome.split)
  done

lemma writer_step_losses: "losses_counted s \<Longrightarrow> losses_counted (writer_step x s)"
  by (cases x) simp_all

interpretation writer_losses: step_machine writer_step losses_counted
  by unfold_locales (rule writer_step_losses)

section \<open>Splitting a failing batch\<close>

text \<open>
  \<open>_flush_or_split\<close> itself, when every attempt ends by committing or raising: \<open>ok\<close> tells which
  batches commit. \<open>_flush\<close> passes no empty batch.
\<close>

function flush_or_split :: "('i list \<Rightarrow> bool) \<Rightarrow> ('i \<Rightarrow> letter_attempt) \<Rightarrow> 'i list \<Rightarrow> 'i writer \<Rightarrow> 'i writer" where
  "flush_or_split ok att batch s =
     (if batch = [] then s
      else if ok batch then complete_committed (int (length batch)) (s\<lparr>wb_db := wb_db s @ batch\<rparr>)
      else if length batch = 1
      then write_dead_letter ''write_failed'' att (hd batch) (complete_diagnostic 1 ''write_failed'' s)
      else flush_or_split ok att (drop (length batch div 2) batch)
             (flush_or_split ok att (take (length batch div 2) batch) s))"
  by auto
termination
  by (relation "measure (\<lambda>(ok, att, batch, s). length batch)")
    (auto simp: neq_Nil_conv)

declare flush_or_split.simps [simp del]

lemma flush_attempt_measure:
  assumes "flush_attempt ok att ((i # seg) # segs) s = (segs', s')"
  shows "(\<Sum>seg\<leftarrow>segs'. 2 * length seg - 1) < Suc (2 * length seg + (\<Sum>seg\<leftarrow>segs. 2 * length seg - 1))"
proof (cases "ok \<or> seg = []")
  case True
  with assms show ?thesis by (auto split: if_splits)
next
  case False
  let ?x = "i # seg" let ?h = "length ?x div 2"
  have "segs' = take ?h ?x # drop ?h ?x # segs" using assms False by auto
  moreover have "0 < ?h" "?h < length ?x" using False by (cases seg; simp)+
  ultimately show ?thesis by simp
qed

text \<open>The attempts, one by one, until the stack is empty, and how many there were.\<close>

function flush_run :: "('i list \<Rightarrow> bool) \<Rightarrow> ('i \<Rightarrow> letter_attempt) \<Rightarrow> 'i list list \<Rightarrow> 'i writer \<Rightarrow> nat \<times> 'i writer" where
  "flush_run ok att segs s =
     (if segs = [] then (0, s)
      else if hd segs = [] then flush_run ok att (tl segs) s
      else case flush_attempt (ok (hd segs)) att segs s of
        (segs', s') \<Rightarrow> (case flush_run ok att segs' s' of (n, s'') \<Rightarrow> (Suc n, s'')))"
  by auto
termination
  by (relation "measures [\<lambda>(ok, att, segs, s). \<Sum>seg\<leftarrow>segs. 2 * length seg - 1, \<lambda>(ok, att, segs, s). length segs]")
    (auto simp: neq_Nil_conv simp del: flush_attempt.simps dest!: sym[of "(_, _)"] flush_attempt_measure)

declare flush_run.simps [simp del]

lemma flush_run_split:
  "batch \<noteq> [] \<Longrightarrow> \<exists>k. k \<le> 2 * length batch - 1 \<and>
     flush_run ok att (batch # segs) s =
       (case flush_run ok att segs (flush_or_split ok att batch s) of (n, t) \<Rightarrow> (k + n, t))"
proof (induction "length batch" arbitrary: batch segs s rule: less_induct)
  case less
  consider "ok batch" | "\<not> ok batch" "length batch = 1" | (long) "\<not> ok batch" "length batch \<noteq> 1" by blast
  then show ?case
  proof cases
    case long
    let ?h = "length batch div 2"
    let ?a = "take ?h batch" and ?b = "drop ?h batch"
    have h: "0 < ?h" "?h < length batch" using less.prems long(2) by (cases batch; cases "tl batch"; simp)+
    let ?m = "flush_or_split ok att ?a s"
    from h have "length ?a < length batch" "?a \<noteq> []" by auto
    from less.hyps[OF this, of "?b # segs" s] obtain k1 where k1: "k1 \<le> 2 * length ?a - 1"
      "flush_run ok att (?a # ?b # segs) s = (case flush_run ok att (?b # segs) ?m of (n, t) \<Rightarrow> (k1 + n, t))" by blast
    from h have "length ?b < length batch" "?b \<noteq> []" by auto
    from less.hyps[OF this, of segs ?m] obtain k2 where k2: "k2 \<le> 2 * length ?b - 1"
      "flush_run ok att (?b # segs) ?m =
        (case flush_run ok att segs (flush_or_split ok att ?b ?m) of (n, t) \<Rightarrow> (k2 + n, t))" by blast
    have "flush_or_split ok att batch s = flush_or_split ok att ?b ?m"
      using less.prems long by (simp add: flush_or_split.simps[of ok att batch])
    moreover have "flush_run ok att (batch # segs) s =
        (case flush_run ok att (?a # ?b # segs) s of (n, t) \<Rightarrow> (Suc n, t))"
      using less.prems long by (simp add: flush_run.simps[of ok att "batch # segs"])
    moreover have "Suc (k1 + k2) \<le> 2 * length batch - 1" using k1(1) k2(1) h by simp
    ultimately show ?thesis using k1(2) k2(2)
      by (intro exI[of _ "Suc (k1 + k2)"]) (simp split: prod.split)
  qed (use less.prems in \<open>auto simp: flush_run.simps[of ok att "batch # segs"] Suc_le_eq
      flush_or_split.simps[of ok att batch] neq_Nil_conv intro!: exI[of _ "Suc 0"] split: prod.split\<close>)
qed

lemma flush_or_split_isolates:
  "flush_or_split (\<lambda>b. \<forall>i\<in>set b. good i) att batch s = s' \<Longrightarrow>
   wb_db s' = wb_db s @ filter good batch \<and>
   map fst (wb_dead s') = map fst (wb_dead s) @ filter (\<lambda>i. \<not> good i) batch \<and>
   wb_in_flight s' = wb_in_flight s - int (length batch)"
proof (induction "length batch" arbitrary: batch s s' rule: less_induct)
  case less
  consider "batch = []" | "batch \<noteq> []" "\<forall>i\<in>set batch. good i" | i where "batch = [i]" "\<not> good i"
    | (long) "\<not> (\<forall>i\<in>set batch. good i)" "batch \<noteq> []" "length batch \<noteq> 1"
  proof (cases "length batch = 1")
    case True
    then obtain i where "batch = [i]" by (auto simp: length_Suc_conv)
    then show thesis using that(2,3) by (cases "good i") auto
  qed (use that in blast)
  then show ?case
  proof cases
    case long
    let ?h = "length batch div 2"
    let ?a = "take ?h batch" and ?b = "drop ?h batch"
    have h: "0 < ?h" "?h < length batch" using long(2,3) by (cases batch; cases "tl batch"; simp)+
    let ?m = "flush_or_split (\<lambda>b. \<forall>i\<in>set b. good i) att ?a s"
    have s': "flush_or_split (\<lambda>b. \<forall>i\<in>set b. good i) att ?b ?m = s'"
      using less.prems long by (subst (asm) flush_or_split.simps) (simp split: if_splits)
    have a: "length ?a < length batch" and b: "length ?b < length batch" using h by auto
    have fl: "filter P batch = filter P ?a @ filter P ?b" for P
      by (metis append_take_drop_id filter_append)
    note ih = less.hyps[OF a refl, of s] less.hyps[OF b s']
    have "int (length batch) = int (length ?a) + int (length ?b)" by simp
    then have "wb_in_flight s' = wb_in_flight s - int (length batch)" using ih by linarith
    moreover have "wb_db s' = wb_db s @ filter good batch" using ih by (simp only: fl append_assoc)
    moreover have "map fst (wb_dead s') = map fst (wb_dead s) @ filter (\<lambda>i. \<not> good i) batch"
      using ih by (simp only: fl append_assoc)
    ultimately show ?thesis by blast
  next
    case 2
    then have "filter good batch = batch" "filter (\<lambda>i. \<not> good i) batch = []" by (simp_all add: filter_empty_conv)
    moreover have "s' = complete_committed (int (length batch)) (s\<lparr>wb_db := wb_db s @ batch\<rparr>)"
      using less.prems 2 by (subst (asm) flush_or_split.simps) simp
    ultimately show ?thesis by (simp add: complete_committed_def)
  next
    case 3
    then have "s' = write_dead_letter ''write_failed'' att i (complete_diagnostic 1 ''write_failed'' s)"
      using less.prems by (subst (asm) flush_or_split.simps) simp
    with 3 show ?thesis by (simp add: complete_diagnostic_def wb_fail_def)
  qed (use less.prems in \<open>subst (asm) flush_or_split.simps, simp\<close>)
qed

section \<open>Properties\<close>

text \<open>The writer's own accounting always balances. In every state reachable by any interleaving of
  starts, enqueues from any thread, hand-offs, batches, failing or interrupted flushes and stops,
  a health snapshot passes its consistency checks (the reserved slots are exactly the buffered,
  handed-off, queued and in-flight writes and never exceed the capacity, and every accepted write
  is committed, diagnosed or reserved), the queue never exceeds its size, and the final check of
  the stop task never fails.\<close>

theorem writer_health_balanced:
  assumes "new_writer n c = Some s0"
  shows "health_consistent (health_snapshot (fold writer_step xs s0)) \<and>
    int (length (wb_queue (fold writer_step xs s0))) \<le> wb_capacity (fold writer_step xs s0) + 1 \<and>
    wb_stopper (fold writer_step xs s0) \<noteq> StopRaised"
proof -
  let ?s = "fold writer_step xs s0"
  have ok: "writer_ok ?s" by (rule writer_run.run_invar[OF new_writer_ok[OF assms]])
  then have cnt: "writer_counts ?s" and ctl: "writer_control ?s" by (simp_all add: writer_ok_def)
  have nn: "0 \<le> wb_queued ?s" "0 \<le> wb_in_flight ?s" "0 \<le> wb_reserved ?s"
    using cnt by (simp_all add: writer_counts_def wb_reserved_def)
  have "health_consistent (health_snapshot ?s)"
    using cnt nn by (simp add: health_consistent_def health_snapshot_def writer_counts_def wb_reserved_def)
  moreover have "length q \<le> Suc (length (queue_work q))" if "StopMark \<notin> set (butlast q)" for q :: "'a queue_entry list"
  proof (cases q rule: rev_cases)
    case (snoc p e)
    with that have "StopMark \<notin> set p" by simp
    then have "length (queue_work p) = length p"
    proof (induction p)
      case (Cons x p)
      then show ?case by (cases x) simp_all
    qed simp
    with snoc show ?thesis by simp
  qed simp
  then have "length (wb_queue ?s) \<le> Suc (length (queue_work (wb_queue ?s)))"
    using ctl by (simp add: writer_control_def)
  then have "int (length (wb_queue ?s)) \<le> wb_capacity ?s + 1"
    using cnt nn by (simp add: writer_counts_def wb_reserved_def)
  moreover have "wb_stopper ?s \<noteq> StopRaised"
    using ctl by (auto simp: writer_control_def)
  ultimately show ?thesis by blast
qed

definition sample_writer :: "nat writer" where
  "sample_writer = \<lparr>wb_capacity = 3, wb_batch_size = 2, wb_state = WNew, wb_accepting = True,
     wb_consumer_failed = False, wb_queue = [], wb_pre_start = [], wb_handoff = [],
     wb_next_handoff = 0, wb_handoff_waiter = False, wb_queued = 0, wb_in_flight = 0,
     wb_accepted = 0, wb_committed = 0, wb_diagnostic = 0, wb_overflow = 0,
     wb_dead_failures = 0, wb_last_error = None, wb_consumer = NoConsumer,
     wb_stopper = NoStop, wb_dead_size = 0, wb_dead = [], wb_db = [], wb_offered = [], wb_late = []\<rparr>"

lemma sample_writer_new: "new_writer 2 (PyInt 3) = Some sample_writer"
  by (simp add: new_writer_def sample_writer_def)

definition small_letter :: "nat \<Rightarrow> letter_attempt" where
  "small_letter i = \<lparr>la_full = 100, la_short = 50, la_io_ok = True\<rparr>"

text \<open>Three writes before the start, one refused, a failing batch, then a stop.\<close>

definition sample_run :: "nat writer_op list" where
  "sample_run =
     [WEnqueue small_letter OwnerLoop 1, WEnqueue small_letter OwnerLoop 2, WStart True,
      WEnqueue small_letter (OtherThread True) 3, WEnqueue small_letter OwnerLoop 4, WGet,
      WFlush (Raised False) small_letter, WFlush (Raised False) small_letter, WStop, WStopBegin,
      WHandoff small_letter 1, WFlush Committed small_letter, WStopResume, WGet,
      WFlush Committed small_letter, WStopResume]"

theorem writer_health_balanced_witness:
  "health_consistent (health_snapshot (fold writer_step sample_run sample_writer))"
  using writer_health_balanced[OF sample_writer_new, of sample_run] by blast

text \<open>Four writes: one is split off and fails, one is interrupted when its commit has already taken effect,
  and one is refused when the dead-letter file can no longer be written.\<close>

definition no_letter :: "nat \<Rightarrow> letter_attempt" where
  "no_letter i = \<lparr>la_full = 100, la_short = 50, la_io_ok = False\<rparr>"

definition sample_losses :: "nat writer_op list" where
  "sample_losses =
     [WEnqueue small_letter OwnerLoop 1, WEnqueue small_letter OwnerLoop 2, WStart True, WEnqueue small_letter OwnerLoop 3,
      WEnqueue no_letter OwnerLoop 4, WGet, WFlush (Raised False) small_letter, WFlush (Raised False) small_letter,
      WFlush (Interrupted True ''consumer_cancelled'') small_letter, WStop, WStopBegin, WStopResume]"

text \<open>C39: What happens to a write. In every reachable state the writes offered to an available writer,
  together with the rows that an attempt committed although it then raised or was interrupted
  (those are handled once more), are, counted with multiplicity, the rows in the table, the writes
  with a record in the dead-letter file, the writes whose record could not be appended, and those the
  writer still holds. The writes without a record are as many as the failure counter says; once the
  stop task has ended the writer holds none.\<close>

theorem writer_keeps_every_write:
  assumes "new_writer n c = Some s0"
  shows "mset (wb_offered (fold writer_step xs s0)) + mset (wb_late (fold writer_step xs s0)) =
      mset (wb_db (fold writer_step xs s0)) + mset (dead_lettered (fold writer_step xs s0)) +
      mset (letters_lost (fold writer_step xs s0)) + mset (wb_live (fold writer_step xs s0)) \<and>
    int (length (letters_lost (fold writer_step xs s0))) = wb_dead_failures (fold writer_step xs s0) \<and>
    (wb_stopper (fold writer_step xs s0) = StopEnd \<longrightarrow> wb_live (fold writer_step xs s0) = [])"
proof -
  let ?s = "fold writer_step xs s0"
  have ok: "writer_ok ?s" by (rule writer_run.run_invar[OF new_writer_ok[OF assms]])
  then have stopped: "wb_stopper ?s = StopEnd \<Longrightarrow> wb_live ?s = []"
    by (auto simp: writer_defs split: consumer.splits)
  have "losses_counted s0"
    using assms by (auto simp: new_writer_def losses_counted_def letters_lost_def split: py_num.splits if_splits)
  from writer_losses.run_invar[OF this] have lost: "int (length (letters_lost ?s)) = wb_dead_failures ?s"
    by (simp add: losses_counted_def)
  have "mset (map fst (wb_dead ?s)) = mset (dead_lettered ?s) + mset (letters_lost ?s)"
    by (simp add: dead_lettered_def letters_lost_def split_beta flip: image_mset_union multiset_partition)
  with ok stopped lost show ?thesis by (simp add: writer_ok_def writer_items_def)
qed

theorem writer_keeps_every_write_witness:
  "mset [1, 2, 3, 4::nat] + mset [2] = mset [2] + mset [1, 2, 3] + mset [4]"
proof -
  have "wb_offered (fold writer_step sample_losses sample_writer) = [1, 2, 3, 4]"
    "wb_late (fold writer_step sample_losses sample_writer) = [2]"
    "wb_db (fold writer_step sample_losses sample_writer) = [2]"
    "dead_lettered (fold writer_step sample_losses sample_writer) = [1, 2, 3]"
    "letters_lost (fold writer_step sample_losses sample_writer) = [4]"
    "wb_stopper (fold writer_step sample_losses sample_writer) = StopEnd"
    by code_simp+
  with writer_keeps_every_write[OF sample_writer_new, of sample_losses] show ?thesis by simp
qed

text \<open>C40: A failing batch loses only the rows that fail. When an attempt commits exactly if all its rows
  are good, flushing a batch needs fewer than twice as many attempts as it has rows, is the
  recursion of the code, commits exactly the good rows in their order, sends exactly the others
  to the dead letters, and takes the whole batch out of flight.\<close>

theorem flush_isolates_bad_rows:
  assumes "batch \<noteq> []"
  shows "fst (flush_run (\<lambda>b. \<forall>i\<in>set b. good i) att [batch] s) < 2 * length batch \<and>
    snd (flush_run (\<lambda>b. \<forall>i\<in>set b. good i) att [batch] s) =
      flush_or_split (\<lambda>b. \<forall>i\<in>set b. good i) att batch s \<and>
    wb_db (flush_or_split (\<lambda>b. \<forall>i\<in>set b. good i) att batch s) = wb_db s @ filter good batch \<and>
    map fst (wb_dead (flush_or_split (\<lambda>b. \<forall>i\<in>set b. good i) att batch s)) =
      map fst (wb_dead s) @ filter (\<lambda>i. \<not> good i) batch \<and>
    wb_in_flight (flush_or_split (\<lambda>b. \<forall>i\<in>set b. good i) att batch s) = wb_in_flight s - int (length batch)"
proof -
  let ?ok = "\<lambda>b. \<forall>i\<in>set b. good i"
  obtain k where k: "k \<le> 2 * length batch - 1"
    "flush_run ?ok att [batch] s = (case flush_run ?ok att [] (flush_or_split ?ok att batch s) of (n, t) \<Rightarrow> (k + n, t))"
    using flush_run_split[OF assms, of ?ok att "[]" s] by blast
  then have "flush_run ?ok att [batch] s = (k, flush_or_split ?ok att batch s)"
    by (simp add: flush_run.simps[of ?ok att "[]"])
  moreover have "k < 2 * length batch" using k(1) assms by (cases batch) simp_all
  ultimately show ?thesis using flush_or_split_isolates[of good att batch s, OF refl] by simp
qed

theorem flush_isolates_bad_rows_witness:
  "wb_db (flush_or_split (\<lambda>b. \<forall>i\<in>set b. i \<noteq> 2) small_letter [1, 2, 3] sample_writer) = [1, 3]"
  using flush_isolates_bad_rows[of "[1, 2, 3]" "\<lambda>i. i \<noteq> 2" small_letter sample_writer]
  by (simp add: sample_writer_def)

end
