(* ===== verification/Accounting_Contracts.thy ===== *)
theory Accounting_Contracts
  imports Gateway_Prelude "HOL-Library.Monad_Syntax" "HOL-Library.Multiset"
begin

text \<open>
  The accounting value contracts (\<open>services/accounting.py\<close>): what a usage, a billing component, an
  event, a receipt and the audit rows must satisfy, how they are normalised, how component usages
  are summed, and which billing policy a route has.

  A constructor of the code that validates is a function from unvalidated arguments to an option:
  \<open>None\<close> is \<open>AccountingValidationError\<close>. Arguments whose Python type is checked first are typed
  here. A datetime is naive or an instant. Amounts are exact rationals instead of floats. SHA-256
  and the text of a float are not modelled: a fingerprint is an argument, or the data it covers.
\<close>

section \<open>Enumerations\<close>

datatype cost_source =
  SrcUpstream | SrcTokenRegistry | SrcOperationConfigured | SrcOperationDefault
| SrcComponentSum | SrcReceiptRollup

datatype event_kind = Charge | Rollup

datatype billing_unit = UnitToken | UnitOperation

datatype component_kind = KindModel | KindOperation

datatype source_status = SourceAccepted | SourceRecovered | SourceDuplicate

datatype projection_status = ProjApplied | ProjAlreadyApplied | ProjNoSink | ProjPending

datatype accounting_health_state = HNew | HStarting | HRunning | HBlocked | HStopping | HStopped | HFailed

datatype reconciliation_mode = ReconcileRuntime | ReconcileFull

datatype source_audit_kind = AuditOutbox | AuditUsageWithoutOutbox

datatype parent_link_state = LinkNotApplicable | LinkLinked | LinkUnrolled

datatype owner_state = OwnerActive | OwnerTombstone | OwnerMissing | OwnerAmbiguous

datatype accounting_code =
  CodeInvalidContract | CodeInvalidUpstreamCost | CodeCostUnavailable | CodeSourceWriteFailed
| CodeProjectionWriteFailed | CodeFingerprintConflict | CodeOrphanSource | CodeOrphanSink
| CodeSchemaMismatch | CodeReconcileFailed | CodeDrainFailed | CodeAccountingFailed
| CodeAdmissionClosed | CodeActiveSessionLimit | CodeBudgetExhausted | CodeRateLimited
| CodeReservationConflict | CodeAccountingInFlight | CodeBudgetResetInProgress

section \<open>Numbers and text\<close>

definition INT64_MAX :: int where "INT64_MAX = 2 ^ 63 - 1"
definition INT64_MIN :: int where "INT64_MIN = - (2 ^ 63)"

definition require :: "bool \<Rightarrow> unit option" where
  "require b = (if b then Some () else None)"

fun normalize_float :: "bool \<Rightarrow> py_num \<Rightarrow> rat option" where
  "normalize_float nonneg (PyInt n) =
     (if float_overflow (of_int n) \<or> (nonneg \<and> n < 0) then None else Some (of_int n))"
| "normalize_float nonneg (PyFloat x) = (if nonneg \<and> x < 0 then None else Some x)"
| "normalize_float nonneg _ = None"

fun normalize_int :: "bool \<Rightarrow> py_num \<Rightarrow> int option" where
  "normalize_int nonneg (PyInt n) =
     (if n < (if nonneg then 0 else INT64_MIN) \<or> n > INT64_MAX then None else Some n)"
| "normalize_int nonneg _ = None"

definition normalize_opt :: "('a \<Rightarrow> 'b option) \<Rightarrow> 'a option \<Rightarrow> 'b option option" where
  "normalize_opt f v = (case v of None \<Rightarrow> Some None | Some x \<Rightarrow> map_option Some (f x))"

definition encoded_length :: "string \<Rightarrow> nat" where
  "encoded_length s = (\<Sum>c\<leftarrow>s. if code_of c < 128 then 1 else 2)"

definition all_ascii :: "string \<Rightarrow> bool" where
  "all_ascii s \<longleftrightarrow> (\<forall>c\<in>set s. code_of c < 128)"

definition normalize_text :: "nat \<Rightarrow> bool \<Rightarrow> string \<Rightarrow> string option" where
  "normalize_text max_bytes ascii_only v =
     (let s = py_strip v
      in if s = [] \<or> (ascii_only \<and> \<not> all_ascii s) \<or> encoded_length s > max_bytes then None else Some s)"

definition normalize_gateway_model :: "string \<Rightarrow> string option" where
  "normalize_gateway_model v = do {
     s \<leftarrow> normalize_text 255 False v;
     require (s = v \<and> \<not> list_ex py_space s);
     Some s }"

definition normalize_component_identity :: "string \<Rightarrow> string option" where
  "normalize_component_identity v = do {
     s \<leftarrow> normalize_text 512 False v;
     require (CHR 0x00 \<notin> set s);
     Some s }"

definition printable :: "string \<Rightarrow> bool" where
  "printable s \<longleftrightarrow> (\<forall>c\<in>set s. 32 \<le> code_of c \<and> code_of c \<le> 126)"

definition normalize_event_id :: "string \<Rightarrow> string option" where
  "normalize_event_id v = do {
     s \<leftarrow> normalize_text 255 True v;
     require (printable s);
     Some s }"

definition upper_char :: "char \<Rightarrow> char" where
  "upper_char c = (if 97 \<le> code_of c \<and> code_of c \<le> 122 then char_of (code_of c - 32) else c)"

definition upper_letter :: "char \<Rightarrow> bool" where
  "upper_letter c \<longleftrightarrow> 65 \<le> code_of c \<and> code_of c \<le> 90"

definition normalize_http_method :: "string \<Rightarrow> string option" where
  "normalize_http_method v = do {
     s \<leftarrow> normalize_text 16 True v;
     require (list_all upper_letter (map upper_char s) \<and> length s \<le> 16);
     Some (map upper_char s) }"

definition normalize_route_template :: "string \<Rightarrow> string option" where
  "normalize_route_template v = do {
     s \<leftarrow> normalize_text 512 True v;
     require (take 1 s = ''/'' \<and> CHR ''?'' \<notin> set s \<and> CHR ''#'' \<notin> set s \<and> printable s);
     Some s }"

datatype py_datetime = Naive | Instant rat

fun normalize_datetime :: "py_datetime \<Rightarrow> py_datetime option" where
  "normalize_datetime Naive = None"
| "normalize_datetime (Instant t) = Some (Instant t)"

definition hex_digit :: "char \<Rightarrow> bool" where
  "hex_digit c \<longleftrightarrow> (48 \<le> code_of c \<and> code_of c \<le> 57) \<or> (97 \<le> code_of c \<and> code_of c \<le> 102)"

definition normalize_fingerprint :: "string \<Rightarrow> string option" where
  "normalize_fingerprint v = (if length v = 64 \<and> list_all hex_digit v then Some v else None)"

definition normalize_key_id :: "py_num \<Rightarrow> int option" where
  "normalize_key_id v = do { n \<leftarrow> normalize_int True v; require (n \<noteq> 0); Some n }"

section \<open>Reservations\<close>

record reservation =
  rv_reservation_id :: string
  rv_request_id :: string
  rv_api_key_id :: "int option"
  rv_reserved_usd :: rat

definition make_reservation :: "string \<Rightarrow> string \<Rightarrow> py_num option \<Rightarrow> py_num \<Rightarrow> reservation option" where
  "make_reservation reservation_id request_id api_key_id reserved_usd = do {
     rid \<leftarrow> normalize_event_id reservation_id;
     qid \<leftarrow> normalize_event_id request_id;
     key \<leftarrow> normalize_opt normalize_key_id api_key_id;
     usd \<leftarrow> normalize_float True reserved_usd;
     Some \<lparr>rv_reservation_id = rid, rv_request_id = qid, rv_api_key_id = key, rv_reserved_usd = usd\<rparr> }"

section \<open>Operation costs\<close>

record cost_calculator =
  cc_rate_usd :: rat

definition make_calculator :: "string \<Rightarrow> py_num \<Rightarrow> cost_calculator option" where
  "make_calculator unit_name rate = do {
     require (unit_name = ''operation'');
     r \<leftarrow> normalize_float True rate;
     Some \<lparr>cc_rate_usd = r\<rparr> }"

record resolved_cost =
  rc_cost_usd :: rat
  rc_source :: cost_source

definition DEFAULT_OPERATION_COST_USD :: rat where "DEFAULT_OPERATION_COST_USD = 1 / 10"

text \<open>The result is \<open>None\<close> for \<open>AccountingCostError\<close>: a malformed upstream cost is never replaced.\<close>

definition resolve_operation_cost :: "bool \<Rightarrow> py_num \<Rightarrow> cost_calculator option \<Rightarrow> resolved_cost option" where
  "resolve_operation_cost upstream_present upstream_cost calculator =
     (if upstream_present
      then map_option (\<lambda>c. \<lparr>rc_cost_usd = c, rc_source = SrcUpstream\<rparr>) (normalize_float True upstream_cost)
      else case calculator of
        Some c \<Rightarrow> Some \<lparr>rc_cost_usd = cc_rate_usd c, rc_source = SrcOperationConfigured\<rparr>
      | None \<Rightarrow> Some \<lparr>rc_cost_usd = DEFAULT_OPERATION_COST_USD, rc_source = SrcOperationDefault\<rparr>)"

definition OPERATION_RULE_SECTIONS :: "(string \<times> string) list" where
  "OPERATION_RULE_SECTIONS =
     [(''images_generations'', ''images_generation''), (''images_edits'', ''images_edit''),
      (''audio_speech'', ''audio_speech''), (''audio_transcriptions'', ''audio_transcription''),
      (''audio_speaker_transcriptions'', ''audio_transcription''),
      (''audio_diarizations'', ''audio_diarization''), (''pdf_conversions'', ''pdf_conversion''),
      (''web_search'', ''web_search''), (''web_read'', ''web_read''),
      (''web_research'', ''web_research''), (''web_deep_research'', ''web_deep_research'')]"

text \<open>A model's section holds no calculator, or the unit and rate given for it.\<close>

type_synonym rule_section = "(string, (string \<times> py_num) option) dict"
type_synonym calculator_registry = "(string \<times> string, cost_calculator) dict"

fun register_models :: "string \<Rightarrow> rule_section \<Rightarrow> calculator_registry \<Rightarrow> calculator_registry option" where
  "register_models operation [] reg = Some reg"
| "register_models operation ((model, conf) # ms) reg = do {
     m \<leftarrow> normalize_gateway_model model;
     (case conf of
        None \<Rightarrow> register_models operation ms reg
      | Some (unit_name, rate) \<Rightarrow> do {
          require (dict_get reg (operation, m) = None);
          c \<leftarrow> make_calculator unit_name rate;
          register_models operation ms (dict_set (operation, m) c reg) }) }"

fun register_sections :: "(string \<times> string) list \<Rightarrow> (string, rule_section) dict \<Rightarrow> calculator_registry \<Rightarrow>
    calculator_registry option" where
  "register_sections [] conf reg = Some reg"
| "register_sections ((section_name, operation) # ss) conf reg =
     (case dict_get conf section_name of
        None \<Rightarrow> register_sections ss conf reg
      | Some models \<Rightarrow> do {
          reg' \<leftarrow> register_models operation models reg;
          register_sections ss conf reg' })"

definition build_calculator_registry :: "(string, rule_section) dict option \<Rightarrow> calculator_registry option" where
  "build_calculator_registry conf =
     (case conf of None \<Rightarrow> Some [] | Some d \<Rightarrow> register_sections OPERATION_RULE_SECTIONS d [])"

section \<open>Usage\<close>

record usage_args =
  ua_prompt :: py_num
  ua_completion :: py_num
  ua_total :: py_num
  ua_reasoning :: py_num
  ua_cached :: py_num
  ua_cost :: py_num
  ua_cost_saved :: py_num
  ua_duration_ms :: "py_num option"
  ua_ttft_ms :: "py_num option"
  ua_is_estimated :: bool
  ua_cost_unavailable :: bool

record usage =
  us_prompt :: int
  us_completion :: int
  us_total :: int
  us_reasoning :: int
  us_cached :: int
  us_cost :: rat
  us_cost_saved :: rat
  us_duration_ms :: "int option"
  us_ttft_ms :: "int option"
  us_is_estimated :: bool
  us_cost_unavailable :: bool

definition make_usage :: "usage_args \<Rightarrow> usage option" where
  "make_usage a = do {
     p \<leftarrow> normalize_int True (ua_prompt a);
     c \<leftarrow> normalize_int True (ua_completion a);
     t \<leftarrow> normalize_int True (ua_total a);
     r \<leftarrow> normalize_int True (ua_reasoning a);
     k \<leftarrow> normalize_int True (ua_cached a);
     require (t = p + c);
     cost \<leftarrow> normalize_float True (ua_cost a);
     saved \<leftarrow> normalize_float False (ua_cost_saved a);
     d \<leftarrow> normalize_opt (normalize_int True) (ua_duration_ms a);
     f \<leftarrow> normalize_opt (normalize_int True) (ua_ttft_ms a);
     Some \<lparr>us_prompt = p, us_completion = c, us_total = t, us_reasoning = r, us_cached = k,
       us_cost = cost, us_cost_saved = saved, us_duration_ms = d, us_ttft_ms = f,
       us_is_estimated = ua_is_estimated a, us_cost_unavailable = ua_cost_unavailable a\<rparr> }"

record billing_payload =
  bp_cached :: int
  bp_completion :: int
  bp_cost :: rat
  bp_prompt :: int
  bp_reasoning :: int
  bp_total :: int

definition billing_payload_of :: "usage \<Rightarrow> billing_payload" where
  "billing_payload_of u = \<lparr>bp_cached = us_cached u, bp_completion = us_completion u, bp_cost = us_cost u,
     bp_prompt = us_prompt u, bp_reasoning = us_reasoning u, bp_total = us_total u\<rparr>"

section \<open>Billing components\<close>

record component =
  co_provider :: "string option"
  co_model :: "string option"
  co_usage :: usage
  co_cost_source :: cost_source
  co_kind :: component_kind
  co_operation :: "string option"
  co_gateway_model :: "string option"

definition model_component :: "component \<Rightarrow> component option" where
  "model_component a = do {
     require (co_operation a = None \<and> co_gateway_model a = None);
     p \<leftarrow> Option.bind (co_provider a) normalize_component_identity;
     m \<leftarrow> Option.bind (co_model a) normalize_component_identity;
     require (co_cost_source a \<notin> {SrcComponentSum, SrcReceiptRollup});
     Some (a\<lparr>co_provider := Some p, co_model := Some m\<rparr>) }"

definition operation_component :: "component \<Rightarrow> component option" where
  "operation_component a = do {
     require (co_provider a = None \<and> co_model a = None);
     operation \<leftarrow> Option.bind (co_operation a) normalize_component_identity;
     g \<leftarrow> Option.bind (co_gateway_model a) normalize_gateway_model;
     require (CHR 0x00 \<notin> set g);
     require (co_cost_source a \<in> {SrcUpstream, SrcOperationConfigured, SrcOperationDefault});
     require (us_prompt (co_usage a) = 0 \<and> us_completion (co_usage a) = 0 \<and> us_total (co_usage a) = 0 \<and>
       us_reasoning (co_usage a) = 0 \<and> us_cached (co_usage a) = 0);
     Some (a\<lparr>co_operation := Some operation, co_gateway_model := Some g\<rparr>) }"

definition make_component :: "component \<Rightarrow> component option" where
  "make_component a = (case co_kind a of KindModel \<Rightarrow> model_component a | KindOperation \<Rightarrow> operation_component a)"

text \<open>\<open>math.fsum\<close> keeps the exact sum; it raises when a partial sum is too large for a float.\<close>

fun fsum_from :: "rat \<Rightarrow> rat list \<Rightarrow> rat option" where
  "fsum_from acc [] = Some acc"
| "fsum_from acc (x # xs) = (if float_overflow (acc + x) then None else fsum_from (acc + x) xs)"

definition fsum :: "rat list \<Rightarrow> rat option" where
  "fsum xs = fsum_from 0 xs"

definition component_sum_usage :: "component list \<Rightarrow> py_num option \<Rightarrow> py_num option \<Rightarrow> usage option" where
  "component_sum_usage cs duration_ms ttft_ms = do {
     require (cs \<noteq> []);
     cost \<leftarrow> fsum (map (us_cost \<circ> co_usage) cs);
     saved \<leftarrow> fsum (map (us_cost_saved \<circ> co_usage) cs);
     make_usage \<lparr>
       ua_prompt = PyInt (\<Sum>c\<leftarrow>cs. us_prompt (co_usage c)),
       ua_completion = PyInt (\<Sum>c\<leftarrow>cs. us_completion (co_usage c)),
       ua_total = PyInt (\<Sum>c\<leftarrow>cs. us_total (co_usage c)),
       ua_reasoning = PyInt (\<Sum>c\<leftarrow>cs. us_reasoning (co_usage c)),
       ua_cached = PyInt (\<Sum>c\<leftarrow>cs. us_cached (co_usage c)),
       ua_cost = PyFloat cost, ua_cost_saved = PyFloat saved,
       ua_duration_ms = duration_ms, ua_ttft_ms = ttft_ms,
       ua_is_estimated = list_ex (us_is_estimated \<circ> co_usage) cs,
       ua_cost_unavailable = list_ex (us_cost_unavailable \<circ> co_usage) cs\<rparr> }"

text \<open>What a component's fingerprint is computed from.\<close>

datatype component_print =
  ModelPrint cost_source "string option" "string option" billing_payload
| OperationPrint cost_source "string option" "string option" billing_payload

definition component_print_of :: "component \<Rightarrow> component_print" where
  "component_print_of c =
     (case co_kind c of
        KindOperation \<Rightarrow> OperationPrint (co_cost_source c) (co_gateway_model c) (co_operation c) (billing_payload_of (co_usage c))
      | KindModel \<Rightarrow> ModelPrint (co_cost_source c) (co_model c) (co_provider c) (billing_payload_of (co_usage c)))"

section \<open>Policies\<close>

record policy =
  bp_operation :: string
  bp_unit :: billing_unit

definition pol :: "string \<Rightarrow> billing_unit \<Rightarrow> policy" where
  "pol operation u = \<lparr>bp_operation = operation, bp_unit = u\<rparr>"

definition BILLING_POLICIES :: "((string \<times> string) \<times> policy) list" where
  "BILLING_POLICIES =
     [((''POST'', ''/v1/chat/completions''), pol ''chat'' UnitToken),
      ((''POST'', ''/v1/v1/chat/completions''), pol ''chat'' UnitToken),
      ((''POST'', ''/v1/responses''), pol ''chat'' UnitToken),
      ((''POST'', ''/v1/messages''), pol ''chat'' UnitToken),
      ((''POST'', ''/v1/v1/messages''), pol ''chat'' UnitToken),
      ((''POST'', ''/v1/embeddings''), pol ''embeddings'' UnitToken),
      ((''POST'', ''/v1/rerank''), pol ''rerank'' UnitToken),
      ((''POST'', ''/v1/decisions''), pol ''decisions'' UnitToken),
      ((''POST'', ''/v1/images''), pol ''images_generation'' UnitOperation),
      ((''POST'', ''/v1/images/generations''), pol ''images_generation'' UnitOperation),
      ((''POST'', ''/v1/images/edits''), pol ''images_edit'' UnitOperation),
      ((''POST'', ''/v1/audio/speech''), pol ''audio_speech'' UnitOperation),
      ((''POST'', ''/v1/audio/transcriptions''), pol ''audio_transcription'' UnitOperation),
      ((''POST'', ''/v1/audio/diarize''), pol ''audio_diarization'' UnitOperation),
      ((''POST'', ''/v1/pdf/convert''), pol ''pdf_conversion'' UnitOperation),
      ((''POST'', ''/v1/pdf/jobs''), pol ''pdf_conversion'' UnitOperation),
      ((''GET'', ''/v1/pdf/jobs/{job_id}''), pol ''pdf_conversion'' UnitOperation),
      ((''POST'', ''/v1/web/search''), pol ''web_search'' UnitOperation),
      ((''POST'', ''/v1/tavily/search''), pol ''web_search'' UnitOperation),
      ((''POST'', ''/v1/web/read''), pol ''web_read'' UnitOperation),
      ((''POST'', ''/v1/tavily/extract''), pol ''web_read'' UnitOperation),
      ((''POST'', ''/v1/jina/extract''), pol ''web_read'' UnitOperation),
      ((''POST'', ''/v1/jina/search''), pol ''web_search'' UnitOperation),
      ((''GET'', ''/v1/jina/extract''), pol ''web_read'' UnitOperation),
      ((''GET'', ''/v1/jina/extract/{url}''), pol ''web_read'' UnitOperation),
      ((''GET'', ''/v1/jina/search''), pol ''web_search'' UnitOperation),
      ((''GET'', ''/v1/jina/search/{query}''), pol ''web_search'' UnitOperation),
      ((''POST'', ''/v1/web/research''), pol ''web_research'' UnitOperation),
      ((''POST'', ''/v1/web/deep-research''), pol ''web_deep_research'' UnitOperation)]"

definition classify_policy :: "string \<Rightarrow> string \<Rightarrow> policy option" where
  "classify_policy method route = dict_get BILLING_POLICIES (map upper_char method, route)"

section \<open>Events\<close>

record event_args =
  ea_version :: py_num
  ea_event_id :: string
  ea_kind :: event_kind
  ea_api_key_id :: "py_num option"
  ea_method :: string
  ea_route :: string
  ea_operation :: string
  ea_gateway_model :: string
  ea_provider :: "string option"
  ea_model :: "string option"
  ea_usage :: usage
  ea_cost_source :: cost_source
  ea_occurred_at :: py_datetime
  ea_request_id :: "string option"
  ea_parent_event_id :: "string option"
  ea_components :: "component list"
  ea_child_event_ids :: "string list"
  ea_child_fingerprints :: "string list"
  ea_upstream_key :: "string option"
  ea_x_title :: "string option"
  ea_client_ip :: "string option"
  ea_user_agent :: "string option"
  ea_fallback_depth :: "py_num option"

record event =
  ev_event_id :: string
  ev_kind :: event_kind
  ev_api_key_id :: "int option"
  ev_method :: string
  ev_route :: string
  ev_operation :: string
  ev_gateway_model :: string
  ev_provider :: "string option"
  ev_model :: "string option"
  ev_usage :: usage
  ev_cost_source :: cost_source
  ev_occurred_at :: py_datetime
  ev_request_id :: "string option"
  ev_parent_event_id :: "string option"
  ev_components :: "component list"
  ev_child_event_ids :: "string list"
  ev_child_fingerprints :: "string list"
  ev_upstream_key :: "string option"
  ev_x_title :: "string option"
  ev_client_ip :: "string option"
  ev_user_agent :: "string option"
  ev_fallback_depth :: "int option"

definition valid_rollup :: "event \<Rightarrow> bool" where
  "valid_rollup e \<longleftrightarrow> \<not> (ev_cost_source e \<noteq> SrcReceiptRollup \<or> ev_components e \<noteq> [] \<or>
     ev_child_event_ids e = [] \<or> us_cost (ev_usage e) \<noteq> 0 \<or> us_total (ev_usage e) \<noteq> 0 \<or>
     us_reasoning (ev_usage e) \<noteq> 0 \<or> us_cached (ev_usage e) \<noteq> 0)"

definition valid_charge :: "event \<Rightarrow> bool" where
  "valid_charge e \<longleftrightarrow>
     \<not> (ev_child_event_ids e \<noteq> [] \<or> ev_cost_source e = SrcReceiptRollup) \<and>
     (ev_components e \<noteq> []) = (ev_cost_source e = SrcComponentSum) \<and>
     (ev_components e \<noteq> [] \<longrightarrow>
        (case component_sum_usage (ev_components e) (map_option PyInt (us_duration_ms (ev_usage e)))
                (map_option PyInt (us_ttft_ms (ev_usage e))) of
           None \<Rightarrow> False
         | Some u \<Rightarrow> billing_payload_of u = billing_payload_of (ev_usage e)))"

fun normalize_all :: "(string \<Rightarrow> string option) \<Rightarrow> string list \<Rightarrow> string list option" where
  "normalize_all f [] = Some []"
| "normalize_all f (x # xs) = do { y \<leftarrow> f x; ys \<leftarrow> normalize_all f xs; Some (y # ys) }"

definition make_event :: "event_args \<Rightarrow> event option" where
  "make_event a = do {
     version \<leftarrow> normalize_int True (ea_version a);
     require (version = 1);
     event_id \<leftarrow> normalize_event_id (ea_event_id a);
     key \<leftarrow> normalize_opt normalize_key_id (ea_api_key_id a);
     method \<leftarrow> normalize_http_method (ea_method a);
     route \<leftarrow> normalize_route_template (ea_route a);
     operation \<leftarrow> normalize_text 512 False (ea_operation a);
     gateway_model \<leftarrow> normalize_gateway_model (ea_gateway_model a);
     provider \<leftarrow> normalize_opt (normalize_text 512 False) (ea_provider a);
     model \<leftarrow> normalize_opt (normalize_text 512 False) (ea_model a);
     require ((provider = None) = (model = None));
     occurred \<leftarrow> normalize_datetime (ea_occurred_at a);
     request_id \<leftarrow> normalize_opt (normalize_text 255 False) (ea_request_id a);
     parent \<leftarrow> normalize_opt normalize_event_id (ea_parent_event_id a);
     upstream \<leftarrow> normalize_opt (normalize_text 255 False) (ea_upstream_key a);
     title \<leftarrow> normalize_opt (normalize_text 512 False) (ea_x_title a);
     ip \<leftarrow> normalize_opt (normalize_text 512 False) (ea_client_ip a);
     agent \<leftarrow> normalize_opt (normalize_text 512 False) (ea_user_agent a);
     depth \<leftarrow> normalize_opt (normalize_int True) (ea_fallback_depth a);
     children \<leftarrow> normalize_all normalize_event_id (ea_child_event_ids a);
     prints \<leftarrow> normalize_all normalize_fingerprint (ea_child_fingerprints a);
     require (length children = length prints \<and> distinct children \<and> event_id \<notin> set children);
     e \<leftarrow> Some \<lparr>ev_event_id = event_id, ev_kind = ea_kind a, ev_api_key_id = key, ev_method = method,
       ev_route = route, ev_operation = operation, ev_gateway_model = gateway_model,
       ev_provider = provider, ev_model = model, ev_usage = ea_usage a,
       ev_cost_source = ea_cost_source a, ev_occurred_at = occurred, ev_request_id = request_id,
       ev_parent_event_id = parent, ev_components = ea_components a, ev_child_event_ids = children,
       ev_child_fingerprints = prints, ev_upstream_key = upstream, ev_x_title = title,
       ev_client_ip = ip, ev_user_agent = agent, ev_fallback_depth = depth\<rparr>;
     require (case ea_kind a of Rollup \<Rightarrow> valid_rollup e | Charge \<Rightarrow> valid_charge e);
     Some e }"

definition event_args_of :: "event \<Rightarrow> event_args" where
  "event_args_of e = \<lparr>ea_version = PyInt 1, ea_event_id = ev_event_id e, ea_kind = ev_kind e,
     ea_api_key_id = map_option PyInt (ev_api_key_id e), ea_method = ev_method e, ea_route = ev_route e,
     ea_operation = ev_operation e, ea_gateway_model = ev_gateway_model e, ea_provider = ev_provider e,
     ea_model = ev_model e, ea_usage = ev_usage e, ea_cost_source = ev_cost_source e,
     ea_occurred_at = ev_occurred_at e, ea_request_id = ev_request_id e,
     ea_parent_event_id = ev_parent_event_id e, ea_components = ev_components e,
     ea_child_event_ids = ev_child_event_ids e, ea_child_fingerprints = ev_child_fingerprints e,
     ea_upstream_key = ev_upstream_key e, ea_x_title = ev_x_title e, ea_client_ip = ev_client_ip e,
     ea_user_agent = ev_user_agent e, ea_fallback_depth = map_option PyInt (ev_fallback_depth e)\<rparr>"

text \<open>What an event's fingerprint is computed from.\<close>

record event_print =
  ep_api_key_id :: "int option"
  ep_children :: "string list"
  ep_components :: "component_print list"
  ep_cost_source :: cost_source
  ep_gateway_model :: string
  ep_kind :: event_kind
  ep_method :: string
  ep_model :: "string option"
  ep_operation :: string
  ep_parent :: "string option"
  ep_provider :: "string option"
  ep_route :: string
  ep_usage :: billing_payload
  ep_version :: int

definition event_print_of :: "event \<Rightarrow> event_print" where
  "event_print_of e = \<lparr>ep_api_key_id = ev_api_key_id e, ep_children = ev_child_fingerprints e,
     ep_components = map component_print_of (ev_components e), ep_cost_source = ev_cost_source e,
     ep_gateway_model = ev_gateway_model e, ep_kind = ev_kind e, ep_method = ev_method e,
     ep_model = ev_model e, ep_operation = ev_operation e, ep_parent = ev_parent_event_id e,
     ep_provider = ev_provider e, ep_route = ev_route e, ep_usage = billing_payload_of (ev_usage e),
     ep_version = 1\<rparr>"

section \<open>Receipts, stored events and audit rows\<close>

record receipt =
  rp_source_status :: source_status
  rp_projection_status :: projection_status
  rp_event_id :: string
  rp_fingerprint :: string
  rp_usage_row_id :: "int option"
  rp_child_event_ids :: "string list"
  rp_child_fingerprints :: "string list"

definition make_receipt :: "source_status \<Rightarrow> projection_status \<Rightarrow> string \<Rightarrow> string \<Rightarrow> py_num option \<Rightarrow>
    string list \<Rightarrow> string list \<Rightarrow> receipt option" where
  "make_receipt source projection event_id fingerprint row_id child_ids child_prints = do {
     i \<leftarrow> normalize_event_id event_id;
     f \<leftarrow> normalize_fingerprint fingerprint;
     row \<leftarrow> normalize_opt normalize_key_id row_id;
     children \<leftarrow> normalize_all normalize_event_id child_ids;
     prints \<leftarrow> normalize_all normalize_fingerprint child_prints;
     require (length children = length prints);
     Some \<lparr>rp_source_status = source, rp_projection_status = projection, rp_event_id = i,
       rp_fingerprint = f, rp_usage_row_id = row, rp_child_event_ids = children,
       rp_child_fingerprints = prints\<rparr> }"

record stored_event =
  st_event :: event
  st_usage_row_id :: "int option"
  st_created_at :: py_datetime
  st_projected_at :: "py_datetime option"
  st_projection_attempts :: int
  st_last_attempt_at :: "py_datetime option"
  st_last_error :: "accounting_code option"

definition make_stored_event :: "event \<Rightarrow> py_num option \<Rightarrow> py_datetime \<Rightarrow> py_datetime option \<Rightarrow> py_num \<Rightarrow>
    py_datetime option \<Rightarrow> accounting_code option \<Rightarrow> stored_event option" where
  "make_stored_event e row_id created projected attempts last_attempt last_error = do {
     require (\<not> (row_id = None \<and> projected = None));
     row \<leftarrow> normalize_opt normalize_key_id row_id;
     c \<leftarrow> normalize_datetime created;
     p \<leftarrow> normalize_opt normalize_datetime projected;
     n \<leftarrow> normalize_int True attempts;
     l \<leftarrow> normalize_opt normalize_datetime last_attempt;
     Some \<lparr>st_event = e, st_usage_row_id = row, st_created_at = c, st_projected_at = p,
       st_projection_attempts = n, st_last_attempt_at = l, st_last_error = last_error\<rparr> }"

record projection_mark =
  pm_event_id :: string
  pm_fingerprint :: string
  pm_projected_at :: "py_datetime option"
  pm_attempts :: int
  pm_last_attempt_at :: "py_datetime option"
  pm_last_error :: "accounting_code option"

definition make_projection_mark :: "string \<Rightarrow> string \<Rightarrow> py_datetime option \<Rightarrow> py_num \<Rightarrow> py_datetime option \<Rightarrow>
    accounting_code option \<Rightarrow> projection_mark option" where
  "make_projection_mark event_id fingerprint projected attempts last_attempt last_error = do {
     i \<leftarrow> normalize_event_id event_id;
     f \<leftarrow> normalize_fingerprint fingerprint;
     p \<leftarrow> normalize_opt normalize_datetime projected;
     n \<leftarrow> normalize_int True attempts;
     l \<leftarrow> normalize_opt normalize_datetime last_attempt;
     require (if n = 0 then \<not> (p \<noteq> None \<or> l \<noteq> None \<or> last_error \<noteq> None)
              else \<not> (l = None \<or> ((p = None) \<noteq> (last_error \<noteq> None))));
     Some \<lparr>pm_event_id = i, pm_fingerprint = f, pm_projected_at = p, pm_attempts = n,
       pm_last_attempt_at = l, pm_last_error = last_error\<rparr> }"

record source_audit_row =
  sa_event_id :: string
  sa_row_kind :: source_audit_kind
  sa_event_kind :: event_kind
  sa_fingerprint :: "string option"
  sa_api_key_id :: "int option"
  sa_spend_usd :: rat
  sa_projected_at :: "py_datetime option"
  sa_usage_present :: bool
  sa_link :: parent_link_state

definition make_source_audit_row :: "string \<Rightarrow> source_audit_kind \<Rightarrow> event_kind \<Rightarrow> string option \<Rightarrow> py_num option \<Rightarrow>
    py_num \<Rightarrow> py_datetime option \<Rightarrow> bool \<Rightarrow> parent_link_state \<Rightarrow> source_audit_row option" where
  "make_source_audit_row event_id row_kind ekind fingerprint key spend projected usage_present link = do {
     i \<leftarrow> normalize_event_id event_id;
     f \<leftarrow> normalize_opt normalize_fingerprint fingerprint;
     k \<leftarrow> normalize_opt normalize_key_id key;
     usd \<leftarrow> normalize_float True spend;
     p \<leftarrow> normalize_opt normalize_datetime projected;
     require (\<not> (ekind = Rollup \<and> usd \<noteq> 0));
     require (if row_kind = AuditOutbox then f \<noteq> None
              else \<not> (f \<noteq> None \<or> p \<noteq> None \<or> \<not> usage_present \<or> link \<noteq> LinkNotApplicable));
     Some \<lparr>sa_event_id = i, sa_row_kind = row_kind, sa_event_kind = ekind, sa_fingerprint = f,
       sa_api_key_id = k, sa_spend_usd = usd, sa_projected_at = p, sa_usage_present = usage_present,
       sa_link = link\<rparr> }"

record sink_audit_row =
  ki_event_id :: string
  ki_fingerprint :: string
  ki_api_key_id :: int
  ki_spend_usd :: rat
  ki_applied_at :: py_datetime
  ki_sink_kind :: string
  ki_owner_state :: owner_state

definition make_sink_audit_row :: "string \<Rightarrow> string \<Rightarrow> py_num \<Rightarrow> py_num \<Rightarrow> py_datetime \<Rightarrow> string \<Rightarrow> owner_state \<Rightarrow>
    sink_audit_row option" where
  "make_sink_audit_row event_id fingerprint key spend applied sink_kind owner = do {
     i \<leftarrow> normalize_event_id event_id;
     f \<leftarrow> normalize_fingerprint fingerprint;
     k \<leftarrow> normalize_key_id key;
     usd \<leftarrow> normalize_float True spend;
     t \<leftarrow> normalize_datetime applied;
     require (sink_kind \<in> {''active'', ''tombstone''});
     Some \<lparr>ki_event_id = i, ki_fingerprint = f, ki_api_key_id = k, ki_spend_usd = usd,
       ki_applied_at = t, ki_sink_kind = sink_kind, ki_owner_state = owner\<rparr> }"

record owner_audit_row =
  ow_api_key_id :: int
  ow_owner_state :: owner_state

definition make_owner_audit_row :: "py_num \<Rightarrow> owner_state \<Rightarrow> owner_audit_row option" where
  "make_owner_audit_row key owner = do {
     k \<leftarrow> normalize_key_id key;
     Some \<lparr>ow_api_key_id = k, ow_owner_state = owner\<rparr> }"

section \<open>Reconciliation and health\<close>

record reconciliation_report =
  rr_mode :: reconciliation_mode
  rr_source_rows_scanned :: int
  rr_sink_rows_scanned :: int
  rr_retained_events :: int
  rr_pending_source_events :: int
  rr_usage_without_outbox :: int
  rr_pending_without_usage :: int
  rr_projected_without_receipt :: int
  rr_receipt_without_source :: int
  rr_unexpected_receipts :: int
  rr_fingerprint_mismatches :: int
  rr_api_key_mismatches :: int
  rr_cost_mismatches :: int
  rr_owner_orphans :: int
  rr_unrolled_children :: int

definition report_counts :: "reconciliation_report \<Rightarrow> int list" where
  "report_counts r = [rr_source_rows_scanned r, rr_sink_rows_scanned r, rr_retained_events r,
     rr_pending_source_events r, rr_usage_without_outbox r, rr_pending_without_usage r,
     rr_projected_without_receipt r, rr_receipt_without_source r, rr_unexpected_receipts r,
     rr_fingerprint_mismatches r, rr_api_key_mismatches r, rr_cost_mismatches r, rr_owner_orphans r,
     rr_unrolled_children r]"

definition make_report :: "reconciliation_report \<Rightarrow> reconciliation_report option" where
  "make_report r = do {
     require (list_all (\<lambda>n. 0 \<le> n \<and> n \<le> INT64_MAX) (report_counts r));
     Some r }"

definition report_full :: "reconciliation_report \<Rightarrow> bool" where
  "report_full r \<longleftrightarrow> rr_mode r = ReconcileFull"

definition report_clean :: "reconciliation_report \<Rightarrow> bool" where
  "report_clean r \<longleftrightarrow> list_all (\<lambda>n. n = 0)
     [rr_retained_events r, rr_pending_source_events r, rr_usage_without_outbox r,
      rr_pending_without_usage r, rr_projected_without_receipt r, rr_receipt_without_source r,
      rr_unexpected_receipts r, rr_fingerprint_mismatches r, rr_api_key_mismatches r,
      rr_cost_mismatches r, rr_owner_orphans r]"

record accounting_health =
  ah_state :: accounting_health_state
  ah_initialized :: bool
  ah_accepting :: bool
  ah_active_sessions :: int
  ah_active_session_limit :: int
  ah_reset_pending_keys :: int
  ah_pending_source_events :: int
  ah_projection_attempts :: int
  ah_fingerprint_conflicts :: int
  ah_source_orphans :: int
  ah_sink_orphans :: int
  ah_unrolled_children :: int
  ah_oldest_pending_at :: "py_datetime option"
  ah_last_full :: "reconciliation_report option"
  ah_last_error :: "accounting_code option"
  ah_last_error_at :: "py_datetime option"

definition make_health :: "accounting_health \<Rightarrow> accounting_health option" where
  "make_health h = do {
     require (\<not> (ah_accepting h \<and> \<not> ah_initialized h));
     require (list_all (\<lambda>n. 0 \<le> n \<and> n \<le> INT64_MAX)
       [ah_active_sessions h, ah_active_session_limit h, ah_reset_pending_keys h,
        ah_pending_source_events h, ah_projection_attempts h, ah_fingerprint_conflicts h,
        ah_source_orphans h, ah_sink_orphans h, ah_unrolled_children h]);
     oldest \<leftarrow> normalize_opt normalize_datetime (ah_oldest_pending_at h);
     require (case ah_last_full h of None \<Rightarrow> True
       | Some r \<Rightarrow> report_full r \<and> ah_unrolled_children h = rr_unrolled_children r);
     error_at \<leftarrow> normalize_opt normalize_datetime (ah_last_error_at h);
     Some (h\<lparr>ah_oldest_pending_at := oldest, ah_last_error_at := error_at\<rparr>) }"

definition accounting_healthy :: "accounting_health \<Rightarrow> bool" where
  "accounting_healthy h \<longleftrightarrow> ah_state h = HRunning \<and> ah_accepting h \<and> ah_pending_source_events h = 0 \<and>
     ah_fingerprint_conflicts h = 0 \<and> ah_source_orphans h = 0 \<and> ah_sink_orphans h = 0 \<and>
     (case ah_last_full h of None \<Rightarrow> True | Some r \<Rightarrow> report_clean r)"

section \<open>Normalising twice changes nothing\<close>

lemma require_Some [simp]: "require b = Some u \<longleftrightarrow> b"
  by (simp add: require_def)

lemmas contract_simps = bind_eq_Some_conv

lemma dropWhile_hd: "xs = [] \<or> \<not> P (hd xs) \<Longrightarrow> dropWhile P xs = xs"
  by (cases xs) auto

lemma strip_ends: "py_strip s = [] \<or> (\<not> py_space (hd (py_strip s)) \<and> \<not> py_space (last (py_strip s)))"
proof -
  let ?a = "dropWhile py_space s" and ?b = "dropWhile py_space (rev (dropWhile py_space s))"
  have strip: "py_strip s = rev ?b" by (simp add: py_strip_def)
  show ?thesis
  proof (cases "?b = []")
    case True
    then show ?thesis by (simp add: strip)
  next
    case False
    have "\<not> py_space (hd ?b)" using False by (rule hd_dropWhile)
    moreover have "\<not> py_space (last ?b)"
    proof -
      have "?a \<noteq> []" using False by (metis dropWhile.simps(1) rev.simps(1))
      then have "\<not> py_space (hd ?a)" by (rule hd_dropWhile)
      moreover have "last ?b = last (rev ?a)" using False by (metis last_appendR takeWhile_dropWhile_id)
      then have "last ?b = hd ?a" using \<open>?a \<noteq> []\<close> by (simp add: last_rev)
      ultimately show ?thesis by simp
    qed
    ultimately show ?thesis using False by (simp add: strip hd_rev last_rev)
  qed
qed

lemma py_strip_idem [simp]: "py_strip (py_strip s) = py_strip s"
proof (cases "py_strip s = []")
  case True
  show ?thesis unfolding True by (simp add: py_strip_def)
next
  case False
  let ?t = "py_strip s"
  have "\<not> py_space (hd ?t)" "\<not> py_space (last ?t)" using strip_ends[of s] False by simp_all
  then have "dropWhile py_space ?t = ?t" "dropWhile py_space (rev ?t) = rev ?t"
    using False by (auto intro!: dropWhile_hd simp: hd_rev)
  then show ?thesis by (simp add: py_strip_def[of ?t])
qed

lemma normalize_text_again: "normalize_text m a v = Some s \<Longrightarrow> normalize_text m a s = Some s"
  by (auto simp: normalize_text_def Let_def split: if_splits)

lemma normalize_event_id_again: "normalize_event_id v = Some s \<Longrightarrow> normalize_event_id s = Some s"
  by (auto simp: normalize_event_id_def contract_simps dest: normalize_text_again)

lemma normalize_gateway_model_again: "normalize_gateway_model v = Some s \<Longrightarrow> normalize_gateway_model s = Some s"
  by (auto simp: normalize_gateway_model_def contract_simps dest: normalize_text_again)

lemma normalize_identity_again:
  "normalize_component_identity v = Some s \<Longrightarrow> normalize_component_identity s = Some s"
  by (auto simp: normalize_component_identity_def contract_simps dest: normalize_text_again)

lemma normalize_route_again: "normalize_route_template v = Some s \<Longrightarrow> normalize_route_template s = Some s"
  by (auto simp: normalize_route_template_def contract_simps dest: normalize_text_again)

lemma normalize_datetime_again: "normalize_datetime v = Some s \<Longrightarrow> normalize_datetime s = Some s"
  by (cases v) auto

lemma normalize_fingerprint_again: "normalize_fingerprint v = Some s \<Longrightarrow> normalize_fingerprint s = Some s"
  by (simp add: normalize_fingerprint_def split: if_splits)

lemma normalize_int_again: "normalize_int b v = Some n \<Longrightarrow> normalize_int b (PyInt n) = Some n"
  by (cases v) (auto split: if_splits)

lemma normalize_key_again: "normalize_key_id v = Some n \<Longrightarrow> normalize_key_id (PyInt n) = Some n"
  by (auto simp: normalize_key_id_def contract_simps dest: normalize_int_again)

lemma normalize_float_again: "normalize_float b v = Some x \<Longrightarrow> normalize_float b (PyFloat x) = Some x"
  by (cases v) (auto split: if_splits)

lemma normalize_opt_again:
  "normalize_opt f v = Some w \<Longrightarrow> (\<And>x y. f x = Some y \<Longrightarrow> g (h y) = Some y) \<Longrightarrow>
   normalize_opt g (map_option h w) = Some w"
  by (auto simp: normalize_opt_def split: option.splits)

lemma normalize_opt_same:
  "normalize_opt f v = Some w \<Longrightarrow> (\<And>x y. f x = Some y \<Longrightarrow> f y = Some y) \<Longrightarrow> normalize_opt f w = Some w"
  using normalize_opt_again[of f v w f "\<lambda>x. x"] by (simp add: option.map_ident)

lemma normalize_all_again:
  "normalize_all f xs = Some ys \<Longrightarrow> (\<And>x y. f x = Some y \<Longrightarrow> f y = Some y) \<Longrightarrow> normalize_all f ys = Some ys"
  by (induction xs arbitrary: ys) (auto simp: contract_simps)

lemma upper_char_idem: "upper_letter c \<Longrightarrow> upper_char c = c"
  by (auto simp: upper_letter_def upper_char_def)

lemma upper_no_space: "upper_letter c \<Longrightarrow> \<not> py_space c"
  by (auto simp: upper_letter_def py_space_def Let_def)

lemma normalize_method_again: "normalize_http_method v = Some m \<Longrightarrow> normalize_http_method m = Some m"
proof -
  assume a: "normalize_http_method v = Some m"
  then obtain s where s: "normalize_text 16 True v = Some s" "m = map upper_char s"
    "list_all upper_letter m" "length s \<le> 16"
    by (auto simp: normalize_http_method_def contract_simps)
  have up: "upper_letter c" if "c \<in> set m" for c using s(3) that by (simp add: list_all_iff)
  have "s \<noteq> []" using s(1) by (auto simp: normalize_text_def Let_def split: if_splits)
  then have ne: "m \<noteq> []" using s(2) by simp
  have strip: "py_strip m = m"
    using ne up upper_no_space by (auto simp: py_strip_def dropWhile_hd hd_rev)
  have ascii: "all_ascii m" using up by (fastforce simp: all_ascii_def upper_letter_def)
  then have "encoded_length m = length m"
    by (induction m) (auto simp: encoded_length_def all_ascii_def)
  then have "normalize_text 16 True m = Some m"
    using strip ascii ne s(2,4) by (simp add: normalize_text_def Let_def)
  moreover have "map upper_char m = m" using up upper_char_idem by (simp add: map_idI)
  moreover have "length m \<le> 16" using s(2,4) by simp
  ultimately show ?thesis using s(3) by (simp add: normalize_http_method_def require_def)
qed

lemma make_usage_facts:
  "make_usage a = Some u \<Longrightarrow>
   us_total u = us_prompt u + us_completion u \<and> 0 \<le> us_prompt u \<and> 0 \<le> us_completion u \<and>
   us_total u \<le> INT64_MAX \<and> 0 \<le> us_cost u"
proof -
  have i: "normalize_int True v = Some n \<Longrightarrow> 0 \<le> n \<and> n \<le> INT64_MAX" for v n
    by (cases v) (auto split: if_splits)
  have f: "normalize_float True v = Some x \<Longrightarrow> 0 \<le> x" for v x
    by (cases v) (auto split: if_splits)
  show "make_usage a = Some u \<Longrightarrow> ?thesis"
    by (auto simp: make_usage_def contract_simps dest!: i f)
qed

lemma fsum_from_sum: "fsum_from acc xs = Some s \<Longrightarrow> s = acc + sum_list xs"
  by (induction acc xs rule: fsum_from.induct) (auto split: if_splits)

lemma fsum_sum: "fsum xs = Some s \<Longrightarrow> s = sum_list xs"
  using fsum_from_sum[of 0] by (simp add: fsum_def)

lemma fsum_from_nonneg:
  "0 \<le> acc \<Longrightarrow> \<forall>x\<in>set xs. 0 \<le> x \<Longrightarrow> xs \<noteq> [] \<Longrightarrow>
   fsum_from acc xs = (if float_overflow (acc + sum_list xs) then None else Some (acc + sum_list xs))"
proof (induction xs arbitrary: acc)
  case (Cons x xs)
  have pos: "0 \<le> x" "\<forall>x\<in>set xs. 0 \<le> x" "0 \<le> acc + x" using Cons.prems by simp_all
  then have "0 \<le> sum_list xs" by (simp add: sum_list_nonneg)
  then have m: "float_overflow (acc + x) \<Longrightarrow> float_overflow (acc + x + sum_list xs)"
    using float_overflow_mono[OF pos(3)] by simp
  show ?case
  proof (cases "xs = []")
    case False
    have "fsum_from (acc + x) xs =
        (if float_overflow (acc + x + sum_list xs) then None else Some (acc + x + sum_list xs))"
      by (rule Cons.IH[OF pos(3,2) False])
    with m show ?thesis by (simp add: add.assoc)
  qed simp
qed simp

lemma fsum_order:
  assumes "mset xs = mset ys" "\<forall>x\<in>set xs. 0 \<le> x"
  shows "fsum xs = fsum ys"
proof (cases "xs = []")
  case True
  with assms(1) show ?thesis by simp
next
  case False
  have "\<forall>y\<in>set ys. 0 \<le> y" using assms(2) mset_eq_setD[OF assms(1)] by simp
  moreover have "ys \<noteq> []" using assms(1) False by auto
  moreover have "sum_list xs = sum_list ys" using assms(1) by (metis sum_mset_sum_list)
  ultimately
  show ?thesis using assms(2) False by (simp add: fsum_def fsum_from_nonneg)
qed

lemma component_sum_facts:
  "component_sum_usage cs d f = Some u \<Longrightarrow>
   cs \<noteq> [] \<and> us_cost u = (\<Sum>c\<leftarrow>cs. us_cost (co_usage c)) \<and>
   us_prompt u = (\<Sum>c\<leftarrow>cs. us_prompt (co_usage c)) \<and>
   us_completion u = (\<Sum>c\<leftarrow>cs. us_completion (co_usage c)) \<and>
   us_total u = (\<Sum>c\<leftarrow>cs. us_total (co_usage c)) \<and> us_total u = us_prompt u + us_completion u"
proof -
  assume s: "component_sum_usage cs d f = Some u"
  obtain cost saved where f: "fsum (map (us_cost \<circ> co_usage) cs) = Some cost" "cs \<noteq> []"
    "fsum (map (us_cost_saved \<circ> co_usage) cs) = Some saved"
    using s by (auto simp: component_sum_usage_def contract_simps)
  from s f have "us_cost u = cost" "us_prompt u = (\<Sum>c\<leftarrow>cs. us_prompt (co_usage c))"
    "us_completion u = (\<Sum>c\<leftarrow>cs. us_completion (co_usage c))"
    "us_total u = (\<Sum>c\<leftarrow>cs. us_total (co_usage c))" "us_total u = us_prompt u + us_completion u"
    by (auto simp: component_sum_usage_def make_usage_def contract_simps split: if_splits)
  with fsum_sum[OF f(1)] f(2) show ?thesis by (simp add: comp_def)
qed

lemma component_sum_order:
  assumes m: "mset cs = mset ds"
    and nonneg: "list_all (\<lambda>c. 0 \<le> us_cost (co_usage c) \<and> 0 \<le> us_cost_saved (co_usage c)) cs"
  shows "component_sum_usage cs d f = component_sum_usage ds d f"
proof -
  have sums: "(\<Sum>c\<leftarrow>cs. g c) = (\<Sum>c\<leftarrow>ds. g c)" for g :: "component \<Rightarrow> int"
    using m by (metis mset_map sum_mset_sum_list)
  have rsums: "fsum (map (us_cost \<circ> co_usage) cs) = fsum (map (us_cost \<circ> co_usage) ds)"
    "fsum (map (us_cost_saved \<circ> co_usage) cs) = fsum (map (us_cost_saved \<circ> co_usage) ds)"
    using m nonneg by (auto intro!: fsum_order simp: list_all_iff)
  have ex: "list_ex P cs = list_ex P ds" for P
    using mset_eq_setD[OF m] by (simp add: list_ex_iff)
  have "(cs \<noteq> []) = (ds \<noteq> [])" using m by auto
  then show ?thesis by (simp add: component_sum_usage_def sums rsums ex)
qed

lemma opt_text_again: "normalize_opt (normalize_text m b) v = Some w \<Longrightarrow> normalize_opt (normalize_text m b) w = Some w"
  by (erule normalize_opt_same) (rule normalize_text_again)

lemma opt_id_again: "normalize_opt normalize_event_id v = Some w \<Longrightarrow> normalize_opt normalize_event_id w = Some w"
  by (erule normalize_opt_same) (rule normalize_event_id_again)

lemma opt_key_again:
  "normalize_opt normalize_key_id v = Some w \<Longrightarrow> normalize_opt normalize_key_id (map_option PyInt w) = Some w"
  by (erule normalize_opt_again) (rule normalize_key_again)

lemma opt_int_again:
  "normalize_opt (normalize_int b) v = Some w \<Longrightarrow> normalize_opt (normalize_int b) (map_option PyInt w) = Some w"
  by (erule normalize_opt_again) (rule normalize_int_again)

lemma all_id_again: "normalize_all normalize_event_id v = Some w \<Longrightarrow> normalize_all normalize_event_id w = Some w"
  by (erule normalize_all_again) (rule normalize_event_id_again)

lemma all_print_again: "normalize_all normalize_fingerprint v = Some w \<Longrightarrow> normalize_all normalize_fingerprint w = Some w"
  by (erule normalize_all_again) (rule normalize_fingerprint_again)

text \<open>What holds of the fields of a validated event.\<close>

definition event_fields_ok :: "event \<Rightarrow> bool" where
  "event_fields_ok e \<longleftrightarrow>
     normalize_event_id (ev_event_id e) = Some (ev_event_id e) \<and>
     normalize_opt normalize_key_id (map_option PyInt (ev_api_key_id e)) = Some (ev_api_key_id e) \<and>
     normalize_http_method (ev_method e) = Some (ev_method e) \<and>
     normalize_route_template (ev_route e) = Some (ev_route e) \<and>
     normalize_text 512 False (ev_operation e) = Some (ev_operation e) \<and>
     normalize_gateway_model (ev_gateway_model e) = Some (ev_gateway_model e) \<and>
     normalize_opt (normalize_text 512 False) (ev_provider e) = Some (ev_provider e) \<and>
     normalize_opt (normalize_text 512 False) (ev_model e) = Some (ev_model e) \<and>
     (ev_provider e = None) = (ev_model e = None) \<and>
     normalize_datetime (ev_occurred_at e) = Some (ev_occurred_at e) \<and>
     normalize_opt (normalize_text 255 False) (ev_request_id e) = Some (ev_request_id e) \<and>
     normalize_opt normalize_event_id (ev_parent_event_id e) = Some (ev_parent_event_id e) \<and>
     normalize_opt (normalize_text 255 False) (ev_upstream_key e) = Some (ev_upstream_key e) \<and>
     normalize_opt (normalize_text 512 False) (ev_x_title e) = Some (ev_x_title e) \<and>
     normalize_opt (normalize_text 512 False) (ev_client_ip e) = Some (ev_client_ip e) \<and>
     normalize_opt (normalize_text 512 False) (ev_user_agent e) = Some (ev_user_agent e) \<and>
     normalize_opt (normalize_int True) (map_option PyInt (ev_fallback_depth e)) = Some (ev_fallback_depth e) \<and>
     normalize_all normalize_event_id (ev_child_event_ids e) = Some (ev_child_event_ids e) \<and>
     normalize_all normalize_fingerprint (ev_child_fingerprints e) = Some (ev_child_fingerprints e) \<and>
     length (ev_child_event_ids e) = length (ev_child_fingerprints e) \<and> distinct (ev_child_event_ids e) \<and>
     ev_event_id e \<notin> set (ev_child_event_ids e) \<and>
     (case ev_kind e of Rollup \<Rightarrow> valid_rollup e | Charge \<Rightarrow> valid_charge e)"

lemma make_event_fields:
  assumes "make_event a = Some e"
  shows "event_fields_ok e"
  using assms unfolding make_event_def contract_simps require_Some option.inject
  by (elim exE conjE)
    (clarsimp simp: event_fields_ok_def, safe;
      (assumption | erule normalize_event_id_again | erule opt_key_again | erule normalize_method_again
       | erule normalize_route_again | erule normalize_text_again | erule normalize_gateway_model_again
       | erule opt_text_again | erule normalize_datetime_again | erule opt_id_again | erule opt_int_again
       | erule all_id_again | erule all_print_again | simp))

lemma event_fields_accepted: "event_fields_ok e \<Longrightarrow> make_event (event_args_of e) = Some e"
  by (cases e) (simp add: make_event_def event_args_of_def event_fields_ok_def require_def INT64_MAX_def)

section \<open>Properties\<close>

text \<open>Validating an accounting event is idempotent. The fields of an event that passed validation,
  passed to the constructor again (as when a stored event is read back), are accepted and give
  the very same event.\<close>

theorem event_revalidates:
  assumes "make_event a = Some e"
  shows "make_event (event_args_of e) = Some e"
  by (rule event_fields_accepted[OF make_event_fields[OF assms]])

definition sample_usage :: "int \<Rightarrow> int \<Rightarrow> rat \<Rightarrow> usage" where
  "sample_usage p c cost = \<lparr>us_prompt = p, us_completion = c, us_total = p + c, us_reasoning = 0, us_cached = 0,
     us_cost = cost, us_cost_saved = 0, us_duration_ms = None, us_ttft_ms = None,
     us_is_estimated = False, us_cost_unavailable = False\<rparr>"

definition sample_component :: "int \<Rightarrow> int \<Rightarrow> rat \<Rightarrow> component" where
  "sample_component p c cost = \<lparr>co_provider = Some ''groq'', co_model = Some ''llama'', co_usage = sample_usage p c cost,
     co_cost_source = SrcTokenRegistry, co_kind = KindModel, co_operation = None, co_gateway_model = None\<rparr>"

definition sample_event_args :: event_args where
  "sample_event_args = \<lparr>ea_version = PyInt 1, ea_event_id = '' e-1 '', ea_kind = Charge,
     ea_api_key_id = Some (PyInt 7), ea_method = ''post'', ea_route = ''/v1/chat/completions'',
     ea_operation = ''chat'', ea_gateway_model = ''gw'', ea_provider = None,
     ea_model = None, ea_usage = sample_usage 5 3 (3 / 4), ea_cost_source = SrcComponentSum,
     ea_occurred_at = Instant 100, ea_request_id = None, ea_parent_event_id = None,
     ea_components = [sample_component 2 1 (1 / 4), sample_component 3 2 (1 / 2)],
     ea_child_event_ids = [], ea_child_fingerprints = [],
     ea_upstream_key = None, ea_x_title = None, ea_client_ip = None, ea_user_agent = None,
     ea_fallback_depth = None\<rparr>"

definition sample_charge :: event where
  "sample_charge = \<lparr>ev_event_id = ''e-1'', ev_kind = Charge, ev_api_key_id = Some 7, ev_method = ''POST'',
     ev_route = ''/v1/chat/completions'', ev_operation = ''chat'', ev_gateway_model = ''gw'',
     ev_provider = None, ev_model = None, ev_usage = sample_usage 5 3 (3 / 4),
     ev_cost_source = SrcComponentSum, ev_occurred_at = Instant 100, ev_request_id = None,
     ev_parent_event_id = None, ev_components = [sample_component 2 1 (1 / 4), sample_component 3 2 (1 / 2)],
     ev_child_event_ids = [], ev_child_fingerprints = [], ev_upstream_key = None, ev_x_title = None,
     ev_client_ip = None, ev_user_agent = None, ev_fallback_depth = None\<rparr>"

lemma method_post: "normalize_http_method ''post'' = Some ''POST''"
  by code_simp

lemmas text_eval = normalize_text_def normalize_event_id_def method_post
  normalize_route_template_def normalize_gateway_model_def py_strip_def py_space_def printable_def all_ascii_def encoded_length_def require_def normalize_opt_def
  normalize_key_id_def INT64_MAX_def Let_def

lemma sample_usage_times:
  "us_duration_ms (sample_usage p c cost) = None" "us_ttft_ms (sample_usage p c cost) = None"
  by (simp_all add: sample_usage_def)

lemma sample_sum:
  "component_sum_usage [sample_component 2 1 (1 / 4), sample_component 3 2 (1 / 2)] None None =
   Some (sample_usage 5 3 (3 / 4))"
proof -
  have f: "fsum [1 / 4, 1 / 2] = Some (3 / 4)" "fsum [0, 0] = Some 0"
    by (simp_all only: fsum_def fsum_from.simps float_overflow_numeral if_False add_0 add_0_right)
      (simp_all add: float_overflow_numeral)
  show ?thesis
    by (simp add: component_sum_usage_def sample_component_def sample_usage_def f make_usage_def
        require_def INT64_MAX_def normalize_opt_def)
qed

lemma sample_event_made: "make_event sample_event_args = Some sample_charge"
  by (simp add: make_event_def sample_event_args_def sample_charge_def text_eval valid_charge_def
      sample_usage_times sample_sum)

theorem event_revalidates_witness: "make_event (event_args_of sample_charge) = Some sample_charge"
  by (rule event_revalidates[OF sample_event_made])

text \<open>The amounts of an accepted event are consistent. A rollup carries no cost, no tokens and no
  components and names at least one child; a charge names no child, has components exactly when
  its cost source is the component sum, and then its cost and token counts are the sums over the
  components, whatever their order when no amount is negative; no event is its own child, and no child occurs twice.\<close>

theorem event_amounts_consistent:
  assumes "make_event a = Some e"
  shows "(ev_kind e = Rollup \<longrightarrow> us_cost (ev_usage e) = 0 \<and> us_total (ev_usage e) = 0 \<and>
           ev_components e = [] \<and> ev_child_event_ids e \<noteq> []) \<and>
         (ev_kind e = Charge \<longrightarrow> ev_child_event_ids e = [] \<and>
           (ev_components e \<noteq> []) = (ev_cost_source e = SrcComponentSum)) \<and>
         (ev_components e \<noteq> [] \<longrightarrow>
           us_cost (ev_usage e) = (\<Sum>c\<leftarrow>ev_components e. us_cost (co_usage c)) \<and>
           us_prompt (ev_usage e) = (\<Sum>c\<leftarrow>ev_components e. us_prompt (co_usage c)) \<and>
           us_completion (ev_usage e) = (\<Sum>c\<leftarrow>ev_components e. us_completion (co_usage c)) \<and>
           us_total (ev_usage e) = us_prompt (ev_usage e) + us_completion (ev_usage e) \<and>
           (\<forall>cs d f. mset cs = mset (ev_components e) \<longrightarrow>
              list_all (\<lambda>c. 0 \<le> us_cost (co_usage c) \<and> 0 \<le> us_cost_saved (co_usage c)) cs \<longrightarrow>
              component_sum_usage cs d f = component_sum_usage (ev_components e) d f)) \<and>
         distinct (ev_child_event_ids e) \<and> ev_event_id e \<notin> set (ev_child_event_ids e)"
proof -
  have ok: "event_fields_ok e" by (rule make_event_fields[OF assms])
  have kids: "distinct (ev_child_event_ids e) \<and> ev_event_id e \<notin> set (ev_child_event_ids e)"
    using ok by (simp add: event_fields_ok_def)
  show ?thesis
  proof (cases "ev_kind e")
    case Rollup
    then have "valid_rollup e" using ok by (simp add: event_fields_ok_def)
    with Rollup kids show ?thesis by (auto simp: valid_rollup_def)
  next
    case Charge
    then have v: "valid_charge e" using ok by (simp add: event_fields_ok_def)
    show ?thesis
    proof (cases "ev_components e = []")
      case True
      with v Charge kids show ?thesis by (auto simp: valid_charge_def)
    next
      case False
      then obtain u where u: "component_sum_usage (ev_components e) (map_option PyInt (us_duration_ms (ev_usage e)))
          (map_option PyInt (us_ttft_ms (ev_usage e))) = Some u" "billing_payload_of u = billing_payload_of (ev_usage e)"
        using v by (auto simp: valid_charge_def split: option.splits)
      from u(2) have eq: "us_cost u = us_cost (ev_usage e)" "us_prompt u = us_prompt (ev_usage e)"
        "us_completion u = us_completion (ev_usage e)" "us_total u = us_total (ev_usage e)"
        by (simp_all add: billing_payload_of_def)
      have "\<forall>cs d f. mset cs = mset (ev_components e) \<longrightarrow>
          list_all (\<lambda>c. 0 \<le> us_cost (co_usage c) \<and> 0 \<le> us_cost_saved (co_usage c)) cs \<longrightarrow>
          component_sum_usage cs d f = component_sum_usage (ev_components e) d f"
        using component_sum_order by blast
      moreover have "us_cost (ev_usage e) = (\<Sum>c\<leftarrow>ev_components e. us_cost (co_usage c)) \<and>
           us_prompt (ev_usage e) = (\<Sum>c\<leftarrow>ev_components e. us_prompt (co_usage c)) \<and>
           us_completion (ev_usage e) = (\<Sum>c\<leftarrow>ev_components e. us_completion (co_usage c)) \<and>
           us_total (ev_usage e) = us_prompt (ev_usage e) + us_completion (ev_usage e)"
        using component_sum_facts[OF u(1)] eq by simp
      moreover have "ev_child_event_ids e = [] \<and> (ev_components e \<noteq> []) = (ev_cost_source e = SrcComponentSum)"
        using v by (simp add: valid_charge_def)
      moreover have "ev_kind e \<noteq> Rollup" using Charge by simp
      ultimately show ?thesis using kids by blast
    qed
  qed
qed

theorem event_amounts_consistent_witness:
  "us_cost (ev_usage sample_charge) = (\<Sum>c\<leftarrow>[sample_component 2 1 (1 / 4), sample_component 3 2 (1 / 2)]. us_cost (co_usage c))"
proof -
  have "ev_components sample_charge = [sample_component 2 1 (1 / 4), sample_component 3 2 (1 / 2)]"
    by (simp add: sample_charge_def)
  with event_amounts_consistent[OF sample_event_made] show ?thesis by simp
qed

end
