(* ===== verification/Reconciliation.thy ===== *)
theory Reconciliation
  imports Accounting_Contracts "HOL-Library.Char_ord" "HOL-Library.List_Lexorder"
begin

text \<open>
  The full audit of the accounting repositories (\<open>services/accounting_reconciliation.py\<close>): both
  repositories are read in pages ordered by event identifier, and the two streams are merged into
  a report of what one side has and the other has not.

  The repositories are parameters: a function from the page size and the last identifier seen to a
  page, or \<open>None\<close> for an exception. Every error is one failure here, whatever its code, and the
  pages of a stream are read before the merge instead of during it. Reading may never end:
  \<open>None\<close> of \<open>read_pages\<close>.
\<close>

section \<open>Pages\<close>

definition AUDIT_MAX_PAGE_SIZE :: int where "AUDIT_MAX_PAGE_SIZE = 256"

definition page_size_ok :: "int \<Rightarrow> bool" where
  "page_size_ok n \<longleftrightarrow> \<not> (n \<le> 0 \<or> n > AUDIT_MAX_PAGE_SIZE)"

fun ascending_after :: "string option \<Rightarrow> string list \<Rightarrow> bool" where
  "ascending_after previous [] = True"
| "ascending_after previous (i # is) =
     ((case previous of None \<Rightarrow> True | Some p \<Rightarrow> p < i) \<and> ascending_after (Some i) is)"

definition page_ok :: "('r \<Rightarrow> string) \<Rightarrow> nat \<Rightarrow> string option \<Rightarrow> 'r list \<Rightarrow> bool" where
  "page_ok ident limit after rows \<longleftrightarrow> length rows \<le> limit \<and> ascending_after after (map ident rows)"

type_synonym 'r fetch = "nat \<Rightarrow> string option \<Rightarrow> 'r list option"

text \<open>The items of a stream, a page at a time; \<open>decorate\<close> makes the items of a page.\<close>

partial_function (option) read_pages :: "'r fetch \<Rightarrow> ('r \<Rightarrow> string) \<Rightarrow> ('r list \<Rightarrow> 'i list option) \<Rightarrow> nat \<Rightarrow>
    string option \<Rightarrow> 'i list option option" where
  "read_pages fetch ident decorate limit after =
     (case fetch limit after of
        None \<Rightarrow> Some None
      | Some rows \<Rightarrow>
          if \<not> page_ok ident limit after rows then Some None
          else if rows = [] then Some (Some [])
          else (case decorate rows of
            None \<Rightarrow> Some None
          | Some items \<Rightarrow>
              if length rows < limit then Some (Some items)
              else Option.bind (read_pages fetch ident decorate limit (Some (ident (last rows))))
                (\<lambda>rest. Some (map_option (\<lambda>is. items @ is) rest))))"

declare read_pages.simps [code]

section \<open>Owner states\<close>

text \<open>\<open>dict.fromkeys\<close> keeps the first of equal keys.\<close>

definition from_keys :: "'a list \<Rightarrow> 'a list" where
  "from_keys xs = rev (remdups (rev xs))"

definition charged_key :: "source_audit_row \<Rightarrow> int option" where
  "charged_key r = (if sa_event_kind r = Charge then sa_api_key_id r else None)"

fun owner_rows_ok :: "int list \<Rightarrow> owner_audit_row list \<Rightarrow> bool" where
  "owner_rows_ok [] [] = True"
| "owner_rows_ok (k # ks) (r # rs) = (ow_api_key_id r = k \<and> owner_rows_ok ks rs)"
| "owner_rows_ok _ _ = False"

definition owner_states_for_page :: "(int list \<Rightarrow> owner_audit_row list option) \<Rightarrow> source_audit_row list \<Rightarrow>
    (int, owner_state) dict option" where
  "owner_states_for_page owners rows =
     (let ks = from_keys (map the (filter (\<lambda>k. k \<noteq> None) (map charged_key rows)))
      in if ks = [] then Some []
         else case owners ks of
           None \<Rightarrow> None
         | Some rs \<Rightarrow> if owner_rows_ok ks rs then Some (zip ks (map ow_owner_state rs)) else None)"

type_synonym source_item = "source_audit_row \<times> owner_state option"

definition source_items :: "(int list \<Rightarrow> owner_audit_row list option) \<Rightarrow> source_audit_row list \<Rightarrow> source_item list option" where
  "source_items owners rows =
     map_option (\<lambda>states. map (\<lambda>r. (r, Option.bind (charged_key r) (dict_get states))) rows)
       (owner_states_for_page owners rows)"

section \<open>The merge\<close>

definition owner_orphan :: "owner_state option \<Rightarrow> bool" where
  "owner_orphan s \<longleftrightarrow> s \<in> {Some OwnerMissing, Some OwnerAmbiguous}"

definition sink_owner_orphan :: "sink_audit_row \<Rightarrow> bool" where
  "sink_owner_orphan k \<longleftrightarrow> owner_orphan (Some (ki_owner_state k)) \<or>
     (ki_sink_kind k = ''tombstone'' \<and> ki_owner_state k = OwnerActive)"

definition tally :: "bool \<Rightarrow> int" where
  "tally b = (if b then 1 else 0)"

definition expects_receipt :: "source_audit_row \<Rightarrow> bool" where
  "expects_receipt r \<longleftrightarrow> sa_event_kind r = Charge \<and> sa_api_key_id r \<noteq> None"

definition outbox :: "source_audit_row \<Rightarrow> bool" where
  "outbox r \<longleftrightarrow> sa_row_kind r \<noteq> AuditUsageWithoutOutbox"

definition count_sink_only :: "sink_audit_row \<Rightarrow> reconciliation_report \<Rightarrow> reconciliation_report" where
  "count_sink_only k c = c\<lparr>
     rr_receipt_without_source := rr_receipt_without_source c + 1,
     rr_owner_orphans := rr_owner_orphans c + tally (sink_owner_orphan k)\<rparr>"

definition count_source_only :: "source_item \<Rightarrow> reconciliation_report \<Rightarrow> reconciliation_report" where
  "count_source_only x c = (case x of (r, owner) \<Rightarrow> c\<lparr>
     rr_usage_without_outbox := rr_usage_without_outbox c + tally (\<not> outbox r),
     rr_pending_source_events := rr_pending_source_events c + tally (outbox r \<and> sa_projected_at r = None),
     rr_pending_without_usage := rr_pending_without_usage c +
       tally (outbox r \<and> sa_projected_at r = None \<and> \<not> sa_usage_present r),
     rr_projected_without_receipt := rr_projected_without_receipt c +
       tally (outbox r \<and> sa_projected_at r \<noteq> None \<and> expects_receipt r),
     rr_unrolled_children := rr_unrolled_children c + tally (sa_link r = LinkUnrolled),
     rr_owner_orphans := rr_owner_orphans c + tally (owner_orphan owner)\<rparr>)"

definition count_pair :: "source_item \<Rightarrow> sink_audit_row \<Rightarrow> reconciliation_report \<Rightarrow> reconciliation_report" where
  "count_pair x k c = (case x of (r, owner) \<Rightarrow> c\<lparr>
     rr_unrolled_children := rr_unrolled_children c + tally (sa_link r = LinkUnrolled),
     rr_usage_without_outbox := rr_usage_without_outbox c + tally (\<not> outbox r),
     rr_receipt_without_source := rr_receipt_without_source c + tally (\<not> outbox r),
     rr_pending_source_events := rr_pending_source_events c + tally (outbox r \<and> sa_projected_at r = None),
     rr_pending_without_usage := rr_pending_without_usage c +
       tally (outbox r \<and> sa_projected_at r = None \<and> \<not> sa_usage_present r),
     rr_unexpected_receipts := rr_unexpected_receipts c + tally (outbox r \<and> \<not> expects_receipt r),
     rr_fingerprint_mismatches := rr_fingerprint_mismatches c +
       tally (outbox r \<and> expects_receipt r \<and> sa_fingerprint r \<noteq> Some (ki_fingerprint k)),
     rr_api_key_mismatches := rr_api_key_mismatches c +
       tally (outbox r \<and> expects_receipt r \<and> sa_api_key_id r \<noteq> Some (ki_api_key_id k)),
     rr_cost_mismatches := rr_cost_mismatches c +
       tally (outbox r \<and> expects_receipt r \<and> sa_spend_usd r \<noteq> ki_spend_usd k),
     rr_owner_orphans := rr_owner_orphans c + tally (owner_orphan owner \<or> sink_owner_orphan k)\<rparr>)"

text \<open>The two databases disagree about the owner of the same key.\<close>

definition owners_conflict :: "source_item \<Rightarrow> sink_audit_row \<Rightarrow> bool" where
  "owners_conflict x k = (case x of (r, owner) \<Rightarrow>
     sa_api_key_id r = Some (ki_api_key_id k) \<and> owner \<noteq> None \<and> owner \<noteq> Some (ki_owner_state k))"

fun audit_merge :: "source_item list \<Rightarrow> sink_audit_row list \<Rightarrow> reconciliation_report \<Rightarrow> reconciliation_report option" where
  "audit_merge [] [] c = Some c"
| "audit_merge [] (k # ks) c = audit_merge [] ks (count_sink_only k c)"
| "audit_merge (x # xs) [] c = audit_merge xs [] (count_source_only x c)"
| "audit_merge (x # xs) (k # ks) c =
     (if sa_event_id (fst x) < ki_event_id k then audit_merge xs (k # ks) (count_source_only x c)
      else if ki_event_id k < sa_event_id (fst x) then audit_merge (x # xs) ks (count_sink_only k c)
      else if owners_conflict x k then None
      else audit_merge xs ks (count_pair x k c))"

definition empty_report :: "int \<Rightarrow> int \<Rightarrow> reconciliation_report" where
  "empty_report sources sinks = \<lparr>rr_mode = ReconcileFull, rr_source_rows_scanned = sources,
     rr_sink_rows_scanned = sinks, rr_retained_events = 0, rr_pending_source_events = 0,
     rr_usage_without_outbox = 0, rr_pending_without_usage = 0, rr_projected_without_receipt = 0,
     rr_receipt_without_source = 0, rr_unexpected_receipts = 0, rr_fingerprint_mismatches = 0,
     rr_api_key_mismatches = 0, rr_cost_mismatches = 0, rr_owner_orphans = 0, rr_unrolled_children = 0\<rparr>"

text \<open>\<open>None\<close>: reading never ends. \<open>Some None\<close>: the audit fails.\<close>

definition reconcile :: "source_audit_row fetch \<Rightarrow> sink_audit_row fetch \<Rightarrow>
    (int list \<Rightarrow> owner_audit_row list option) \<Rightarrow> int \<Rightarrow> reconciliation_report option option" where
  "reconcile source_fetch sink_fetch owners page_size =
     (if \<not> page_size_ok page_size then Some None
      else Option.bind (read_pages source_fetch sa_event_id (source_items owners) (nat page_size) None) (\<lambda>s.
           Option.bind (read_pages sink_fetch ki_event_id Some (nat page_size) None) (\<lambda>k.
           Some (case (s, k) of
             (Some xs, Some ks) \<Rightarrow>
               Option.bind (audit_merge xs ks (empty_report (int (length xs)) (int (length ks)))) make_report
           | _ \<Rightarrow> None))))"

section \<open>The reference: a join by event identifier\<close>

datatype joined = SourceOnly source_item | SinkOnly sink_audit_row | Both source_item sink_audit_row

abbreviation item_id :: "source_item \<Rightarrow> string" where "item_id x \<equiv> sa_event_id (fst x)"

definition reference_join :: "source_item list \<Rightarrow> sink_audit_row list \<Rightarrow> joined list" where
  "reference_join xs ks =
     map (\<lambda>x. case find (\<lambda>k. ki_event_id k = item_id x) ks of None \<Rightarrow> SourceOnly x | Some k \<Rightarrow> Both x k) xs @
     map SinkOnly (filter (\<lambda>k. ki_event_id k \<notin> set (map item_id xs)) ks)"

fun joined_source :: "joined \<Rightarrow> source_item option" where
  "joined_source (SourceOnly x) = Some x"
| "joined_source (SinkOnly k) = None"
| "joined_source (Both x k) = Some x"

fun joined_sink :: "joined \<Rightarrow> sink_audit_row option" where
  "joined_sink (SourceOnly x) = None"
| "joined_sink (SinkOnly k) = Some k"
| "joined_sink (Both x k) = Some k"

definition source_row :: "joined \<Rightarrow> source_audit_row option" where
  "source_row j = map_option fst (joined_source j)"

definition holds :: "('a \<Rightarrow> bool) \<Rightarrow> 'a option \<Rightarrow> bool" where
  "holds P v = (case v of None \<Rightarrow> False | Some x \<Rightarrow> P x)"

lemma holds_simps [simp]: "\<not> holds P None" "holds P (Some x) = P x"
  by (simp_all add: holds_def)

definition receipt_differs :: "(source_audit_row \<Rightarrow> sink_audit_row \<Rightarrow> bool) \<Rightarrow> joined \<Rightarrow> bool" where
  "receipt_differs D j \<longleftrightarrow>
     holds (\<lambda>r. outbox r \<and> expects_receipt r \<and> holds (D r) (joined_sink j)) (source_row j)"

definition orphaned :: "joined \<Rightarrow> bool" where
  "orphaned j \<longleftrightarrow> holds (\<lambda>x. owner_orphan (snd x)) (joined_source j) \<or> holds sink_owner_orphan (joined_sink j)"

definition joined_conflict :: "joined \<Rightarrow> bool" where
  "joined_conflict j \<longleftrightarrow> holds (\<lambda>x. holds (owners_conflict x) (joined_sink j)) (joined_source j)"

definition defects :: "(joined \<Rightarrow> bool) \<Rightarrow> joined list \<Rightarrow> int" where
  "defects P js = (\<Sum>j\<leftarrow>js. tally (P j))"

text \<open>Every counter of the report is the number of joined rows with its defect.\<close>

definition add_counts :: "joined list \<Rightarrow> reconciliation_report \<Rightarrow> reconciliation_report" where
  "add_counts js c = c\<lparr>
     rr_pending_source_events := rr_pending_source_events c +
       defects (\<lambda>j. holds (\<lambda>r. outbox r \<and> sa_projected_at r = None) (source_row j)) js,
     rr_usage_without_outbox := rr_usage_without_outbox c + defects (\<lambda>j. holds (\<lambda>r. \<not> outbox r) (source_row j)) js,
     rr_pending_without_usage := rr_pending_without_usage c +
       defects (\<lambda>j. holds (\<lambda>r. outbox r \<and> sa_projected_at r = None \<and> \<not> sa_usage_present r) (source_row j)) js,
     rr_projected_without_receipt := rr_projected_without_receipt c +
       defects (\<lambda>j. joined_sink j = None \<and>
         holds (\<lambda>r. outbox r \<and> sa_projected_at r \<noteq> None \<and> expects_receipt r) (source_row j)) js,
     rr_receipt_without_source := rr_receipt_without_source c +
       defects (\<lambda>j. joined_sink j \<noteq> None \<and> \<not> holds outbox (source_row j)) js,
     rr_unexpected_receipts := rr_unexpected_receipts c +
       defects (\<lambda>j. joined_sink j \<noteq> None \<and> holds (\<lambda>r. outbox r \<and> \<not> expects_receipt r) (source_row j)) js,
     rr_fingerprint_mismatches := rr_fingerprint_mismatches c +
       defects (receipt_differs (\<lambda>r k. sa_fingerprint r \<noteq> Some (ki_fingerprint k))) js,
     rr_api_key_mismatches := rr_api_key_mismatches c +
       defects (receipt_differs (\<lambda>r k. sa_api_key_id r \<noteq> Some (ki_api_key_id k))) js,
     rr_cost_mismatches := rr_cost_mismatches c +
       defects (receipt_differs (\<lambda>r k. sa_spend_usd r \<noteq> ki_spend_usd k)) js,
     rr_owner_orphans := rr_owner_orphans c + defects orphaned js,
     rr_unrolled_children := rr_unrolled_children c + defects (\<lambda>j. holds (\<lambda>r. sa_link r = LinkUnrolled) (source_row j)) js\<rparr>"

lemma defects_simps [simp]:
  "defects P [] = 0" "defects P (j # js) = tally (P j) + defects P js" "defects P (xs @ ys) = defects P xs + defects P ys"
  by (simp_all add: defects_def)

lemma tally_simps [simp]: "tally True = 1" "tally False = 0"
  by (simp_all add: tally_def)

lemma add_counts_Nil [simp]: "add_counts [] c = c"
  by (simp add: add_counts_def)

lemma add_counts_middle: "add_counts (as @ j # bs) c = add_counts (j # as @ bs) c"
  by (simp add: add_counts_def add.assoc add.left_commute)

lemmas joined_defs = add_counts_def source_row_def receipt_differs_def orphaned_def

lemma add_counts_sink: "add_counts (SinkOnly k # js) c = add_counts js (count_sink_only k c)"
  by (simp add: joined_defs count_sink_only_def)

lemma add_counts_source: "add_counts (SourceOnly x # js) c = add_counts js (count_source_only x c)"
  by (cases x) (simp add: joined_defs count_source_only_def)

lemma add_counts_both: "add_counts (Both x k # js) c = add_counts js (count_pair x k c)"
  by (cases x) (simp add: joined_defs count_pair_def)

section \<open>The merge is the join\<close>

abbreviation ascending :: "('r \<Rightarrow> string) \<Rightarrow> 'r list \<Rightarrow> bool" where
  "ascending ident rows \<equiv> sorted_wrt (\<lambda>a b. ident a < ident b) rows"

lemma find_none: "\<forall>k\<in>set ks. ki_event_id k \<noteq> i \<Longrightarrow> find (\<lambda>k. ki_event_id k = i) ks = None"
  by (simp add: find_None_iff)

lemma join_source_first:
  assumes "\<forall>k\<in>set ks. item_id x < ki_event_id k"
  shows "reference_join (x # xs) ks = SourceOnly x # reference_join xs ks"
proof -
  have "find (\<lambda>k. ki_event_id k = item_id x) ks = None" using assms by (intro find_none) auto
  moreover have "filter (\<lambda>k. ki_event_id k \<notin> set (map item_id (x # xs))) ks = filter (\<lambda>k. ki_event_id k \<notin> set (map item_id xs)) ks"
    using assms by (intro filter_cong) auto
  ultimately show ?thesis by (simp add: reference_join_def)
qed

lemma join_sink_first:
  assumes "\<forall>x\<in>set xs. ki_event_id k < item_id x"
  shows "\<exists>as bs. reference_join xs (k # ks) = as @ SinkOnly k # bs \<and> reference_join xs ks = as @ bs"
proof -
  let ?as = "map (\<lambda>x. case find (\<lambda>k. ki_event_id k = item_id x) ks of None \<Rightarrow> SourceOnly x | Some k \<Rightarrow> Both x k) xs"
  let ?ks = "filter (\<lambda>k. ki_event_id k \<notin> set (map item_id xs)) ks"
  have "map (\<lambda>x. case find (\<lambda>k. ki_event_id k = item_id x) (k # ks) of None \<Rightarrow> SourceOnly x | Some k \<Rightarrow> Both x k) xs = ?as"
    using assms by (intro map_cong) auto
  moreover have "filter (\<lambda>k. ki_event_id k \<notin> set (map item_id xs)) (k # ks) = k # ?ks" using assms by auto
  ultimately have "reference_join xs (k # ks) = ?as @ SinkOnly k # map SinkOnly ?ks"
    by (simp only: reference_join_def list.map)
  moreover have "reference_join xs ks = ?as @ map SinkOnly ?ks" by (simp only: reference_join_def)
  ultimately show ?thesis by blast
qed

lemma join_both_first:
  assumes "item_id x = ki_event_id k" "\<forall>y\<in>set xs. item_id x < item_id y" "\<forall>l\<in>set ks. ki_event_id k < ki_event_id l"
  shows "reference_join (x # xs) (k # ks) = Both x k # reference_join xs ks"
proof -
  have "map (\<lambda>x. case find (\<lambda>k. ki_event_id k = item_id x) (k # ks) of None \<Rightarrow> SourceOnly x | Some k \<Rightarrow> Both x k) xs =
        map (\<lambda>x. case find (\<lambda>k. ki_event_id k = item_id x) ks of None \<Rightarrow> SourceOnly x | Some k \<Rightarrow> Both x k) xs"
    using assms(1,2) by (intro map_cong) auto
  moreover have "filter (\<lambda>l. ki_event_id l \<notin> set (map item_id (x # xs))) ks = filter (\<lambda>l. ki_event_id l \<notin> set (map item_id xs)) ks"
    using assms by (intro filter_cong) auto
  ultimately show ?thesis using assms(1) by (simp add: reference_join_def)
qed

lemma audit_merge_join:
  "ascending item_id xs \<Longrightarrow> ascending ki_event_id ks \<Longrightarrow>
   audit_merge xs ks c = (if list_ex joined_conflict (reference_join xs ks) then None
                          else Some (add_counts (reference_join xs ks) c))"
proof (induction xs ks c rule: audit_merge.induct)
  case (1 c)
  then show ?case by (simp add: reference_join_def)
next
  case (2 k ks c)
  then show ?case by (simp add: reference_join_def add_counts_sink joined_conflict_def)
next
  case (3 x xs c)
  then show ?case using join_source_first[of "[]" x xs] by (simp add: add_counts_source joined_conflict_def)
next
  case (4 x xs k ks c)
  consider "item_id x < ki_event_id k" | "ki_event_id k < item_id x" | "item_id x = ki_event_id k" by fastforce
  then show ?case
  proof cases
    case 1
    have "reference_join (x # xs) (k # ks) = SourceOnly x # reference_join xs (k # ks)"
      using 1 "4.prems" by (intro join_source_first) auto
    with 1 4 show ?thesis by (simp add: add_counts_source joined_conflict_def)
  next
    case 2
    then have n: "\<not> item_id x < ki_event_id k" by auto
    obtain as bs where "reference_join (x # xs) (k # ks) = as @ SinkOnly k # bs" "reference_join (x # xs) ks = as @ bs"
      using join_sink_first[of "x # xs" k ks] 2 "4.prems" by fastforce
    with 2 n 4 show ?thesis by (simp add: add_counts_middle add_counts_sink joined_conflict_def)
  next
    case 3
    have "reference_join (x # xs) (k # ks) = Both x k # reference_join xs ks"
      using 3 "4.prems" by (intro join_both_first) auto
    with 3 4 show ?thesis by (simp add: add_counts_both joined_conflict_def)
  qed
qed

section \<open>Reading a table in pages\<close>

text \<open>What the repositories promise: the first rows after the given identifier, of a table ordered by it.\<close>

definition beyond :: "string option \<Rightarrow> string \<Rightarrow> bool" where
  "beyond after i = (case after of None \<Rightarrow> True | Some p \<Rightarrow> p < i)"

definition rows_after :: "('r \<Rightarrow> string) \<Rightarrow> string option \<Rightarrow> 'r list \<Rightarrow> 'r list" where
  "rows_after ident after rows = filter (\<lambda>r. beyond after (ident r)) rows"

definition table_fetch :: "('r \<Rightarrow> string) \<Rightarrow> 'r list \<Rightarrow> 'r fetch" where
  "table_fetch ident rows limit after = Some (take limit (rows_after ident after rows))"

lemma ascending_afterI:
  "sorted_wrt (<) is \<Longrightarrow> \<forall>i\<in>set is. beyond after i \<Longrightarrow> ascending_after after is"
  by (induction "is" arbitrary: after) (auto simp: beyond_def)

lemma table_page_ok:
  assumes "ascending ident rows"
  shows "page_ok ident limit after (take limit (rows_after ident after rows))"
proof -
  have "ascending ident (rows_after ident after rows)"
    using assms by (simp add: rows_after_def sorted_wrt_filter)
  then have "ascending ident (take limit (rows_after ident after rows))" by (simp add: sorted_wrt_take)
  moreover have "\<forall>r\<in>set (take limit (rows_after ident after rows)). beyond after (ident r)"
    by (auto simp: rows_after_def dest: in_set_takeD)
  ultimately show ?thesis
    by (auto simp: page_ok_def sorted_wrt_map intro!: ascending_afterI)
qed

lemma filter_above:
  assumes "ascending ident (as @ [a] @ bs)"
  shows "filter (\<lambda>r. ident a < ident r) (as @ [a] @ bs) = bs"
proof -
  have "filter (\<lambda>r. ident a < ident r) as = []" using assms
    by (fastforce simp: sorted_wrt_append filter_empty_conv)
  moreover have "filter (\<lambda>r. ident a < ident r) bs = bs" using assms
    by (auto simp: sorted_wrt_append filter_id_conv)
  ultimately show ?thesis by simp
qed

lemma rows_after_last:
  assumes asc: "ascending ident rows" and n: "n \<le> length (rows_after ident after rows)" "0 < n"
  shows "rows_after ident (Some (ident (last (take n (rows_after ident after rows))))) rows =
         drop n (rows_after ident after rows)"
proof -
  let ?U = "rows_after ident after rows"
  have "take n ?U \<noteq> []" using n by auto
  then obtain as a where t: "take n ?U = as @ [a]" by (metis rev_exhaust)
  have u: "?U = as @ [a] @ drop n ?U" by (metis append_take_drop_id t append_assoc)
  have "a \<in> set ?U" by (subst u) simp
  then have a: "beyond after (ident a)" by (simp add: rows_after_def)
  have "rows_after ident (Some (ident a)) rows = filter (\<lambda>r. ident a < ident r) ?U"
    unfolding rows_after_def filter_filter using a
    by (intro filter_cong) (auto simp: beyond_def split: option.splits)
  also have "\<dots> = filter (\<lambda>r. ident a < ident r) (as @ [a] @ drop n ?U)" using u by simp
  also have "\<dots> = drop n ?U"
  proof (rule filter_above)
    have "ascending ident ?U" using asc by (simp add: rows_after_def sorted_wrt_filter)
    then show "ascending ident (as @ [a] @ drop n ?U)" using u by simp
  qed
  finally show ?thesis using t by simp
qed

lemma read_pages_table:
  assumes asc: "ascending ident rows" and limit: "0 < limit"
    and fetch: "\<And>n a. fetch n a = Some (take n (rows_after ident a rows))"
    and dec: "\<And>page. decorate page = Some (map d page)"
  shows "read_pages fetch ident decorate limit after = Some (Some (map d (rows_after ident after rows)))"
proof (induction "length (rows_after ident after rows)" arbitrary: after rule: less_induct)
  case less
  let ?U = "rows_after ident after rows"
  show ?case
  proof (cases "length ?U < limit")
    case True
    then show ?thesis using table_page_ok[OF asc, of limit after]
      by (simp add: read_pages.simps[of fetch] fetch dec)
  next
    case False
    then have n: "limit \<le> length ?U" by simp
    note rest = rows_after_last[OF asc n limit]
    let ?after = "Some (ident (last (take limit ?U)))"
    have "length (rows_after ident ?after rows) < length ?U" using rest n limit by simp
    from less.hyps[OF this] rest
    have "read_pages fetch ident decorate limit ?after = Some (Some (map d (drop limit ?U)))" by simp
    moreover have "take limit ?U \<noteq> []" using n limit by auto
    moreover have "map d (take limit ?U) @ map d (drop limit ?U) = map d ?U"
      by (metis append_take_drop_id map_append)
    ultimately show ?thesis using table_page_ok[OF asc, of limit after] n
      by (simp add: read_pages.simps[of fetch _ _ _ after] fetch dec)
  qed
qed

definition owned_item :: "(int \<Rightarrow> owner_state) \<Rightarrow> source_audit_row \<Rightarrow> source_item" where
  "owned_item owner r = (r, map_option owner (charged_key r))"

lemma owner_rows_map: "owner_rows_ok ks (map (\<lambda>k. \<lparr>ow_api_key_id = k, ow_owner_state = owner k\<rparr>) ks)"
  by (induction ks) auto

lemma source_items_owned:
  assumes "\<And>ks. owners ks = Some (map (\<lambda>k. \<lparr>ow_api_key_id = k, ow_owner_state = owner k\<rparr>) ks)"
  shows "source_items owners page = Some (map (owned_item owner) page)"
proof -
  let ?ks = "from_keys (map the (filter (\<lambda>k. k \<noteq> None) (map charged_key page)))"
  have s: "owner_states_for_page owners page = Some (map (\<lambda>k. (k, owner k)) ?ks)"
    using owner_rows_map[of ?ks owner]
    by (simp add: owner_states_for_page_def Let_def assms zip_map2 zip_same_conv_map comp_def)
  have "map_of (map (\<lambda>k. (k, owner k)) ?ks) k = Some (owner k)" if "k \<in> set ?ks" for k
    using that by (simp add: map_of_map_restrict)
  moreover have "k \<in> set ?ks" if "r \<in> set page" "charged_key r = Some k" for r k
    using that by (force simp: from_keys_def)
  ultimately have "Option.bind (charged_key r) (map_of (map (\<lambda>k. (k, owner k)) ?ks)) = map_option owner (charged_key r)"
    if "r \<in> set page" for r
    using that by (cases "charged_key r") simp_all
  then show ?thesis unfolding source_items_def s owned_item_def by simp
qed

section \<open>What a clean report means\<close>

lemma defects_nonneg: "0 \<le> defects P js"
  by (induction js) (auto simp: tally_def)

lemma defects_zero: "defects P js = 0 \<longleftrightarrow> (\<forall>j\<in>set js. \<not> P j)"
proof (induction js)
  case (Cons j js)
  then show ?case using defects_nonneg[of P js] by (auto simp: tally_def)
qed simp

lemma join_sink_sum:
  "ascending item_id xs \<Longrightarrow> ascending ki_event_id ks \<Longrightarrow>
   (\<Sum>j\<leftarrow>reference_join xs ks. case joined_sink j of None \<Rightarrow> 0 | Some k \<Rightarrow> g k) = (\<Sum>k\<leftarrow>ks. g k :: rat)"
proof (induction "length xs + length ks" arbitrary: xs ks rule: less_induct)
  case less
  consider "xs = []" "ks = []" | k l where "xs = []" "ks = k # l" | x r where "xs = x # r" "\<forall>k\<in>set ks. item_id x < ki_event_id k"
    | x r k l where "xs = x # r" "ks = k # l" "ki_event_id k < item_id x"
    | x r k l where "xs = x # r" "ks = k # l" "item_id x = ki_event_id k"
    using less.prems by (cases xs; cases ks) (auto, metis less_trans linorder_less_linear)
  then show ?case
  proof cases
    case 1
    then show ?thesis by (simp add: reference_join_def)
  next
    case 2
    then show ?thesis by (simp add: reference_join_def comp_def)
  next
    case 3
    with less join_source_first[OF 3(2), of r] show ?thesis by simp
  next
    case 4
    obtain as bs where j: "reference_join xs ks = as @ SinkOnly k # bs" "reference_join xs l = as @ bs"
      using join_sink_first[of xs k l] 4 less.prems by fastforce
    have "(\<Sum>j\<leftarrow>reference_join xs l. case joined_sink j of None \<Rightarrow> 0 | Some k \<Rightarrow> g k) = (\<Sum>k\<leftarrow>l. g k)"
      using 4 less.prems by (intro less.hyps) auto
    with 4(2) j show ?thesis by simp
  next
    case 5
    have "reference_join xs ks = Both x k # reference_join r l"
      using 5 less.prems unfolding 5(1,2) by (intro join_both_first) auto
    with 5 less show ?thesis by simp
  qed
qed

lemma join_source_sum:
  "(\<Sum>j\<leftarrow>reference_join xs ks. case joined_source j of None \<Rightarrow> 0 | Some x \<Rightarrow> g x) = (\<Sum>x\<leftarrow>xs. g x :: rat)"
proof -
  have "(case joined_source (case f of None \<Rightarrow> SourceOnly x | Some k \<Rightarrow> Both x k) of None \<Rightarrow> 0 | Some x \<Rightarrow> g x) = g x" for f x
    by (cases f) simp_all
  then show ?thesis by (simp add: reference_join_def comp_def)
qed

lemma ascending_owned: "ascending sa_event_id S \<Longrightarrow> ascending item_id (map (owned_item owner) S)"
  by (simp add: sorted_wrt_map owned_item_def)

text \<open>What the joined rows satisfy when no defect is counted.\<close>

definition settled :: "joined \<Rightarrow> bool" where
  "settled j \<longleftrightarrow>
     (case j of
        SourceOnly x \<Rightarrow> \<not> expects_receipt (fst x)
      | SinkOnly k \<Rightarrow> False
      | Both x k \<Rightarrow> expects_receipt (fst x) \<and> sa_fingerprint (fst x) = Some (ki_fingerprint k) \<and>
          sa_api_key_id (fst x) = Some (ki_api_key_id k) \<and> sa_spend_usd (fst x) = ki_spend_usd k)"

lemma clean_settled:
  assumes "report_clean (add_counts js (empty_report m n))" "j \<in> set js"
  shows "settled j"
proof -
  have "\<not> holds (\<lambda>r. outbox r \<and> sa_projected_at r = None) (source_row j)"
    "\<not> holds (\<lambda>r. \<not> outbox r) (source_row j)"
    "\<not> (joined_sink j = None \<and> holds (\<lambda>r. outbox r \<and> sa_projected_at r \<noteq> None \<and> expects_receipt r) (source_row j))"
    "\<not> (joined_sink j \<noteq> None \<and> \<not> holds outbox (source_row j))"
    "\<not> (joined_sink j \<noteq> None \<and> holds (\<lambda>r. outbox r \<and> \<not> expects_receipt r) (source_row j))"
    "\<not> receipt_differs (\<lambda>r k. sa_fingerprint r \<noteq> Some (ki_fingerprint k)) j"
    "\<not> receipt_differs (\<lambda>r k. sa_api_key_id r \<noteq> Some (ki_api_key_id k)) j"
    "\<not> receipt_differs (\<lambda>r k. sa_spend_usd r \<noteq> ki_spend_usd k) j"
    using assms by (simp_all add: report_clean_def add_counts_def empty_report_def defects_zero)
  then show ?thesis by (cases j) (auto simp: settled_def source_row_def receipt_differs_def)
qed

lemma settled_contribution:
  assumes "settled j"
  shows "(case joined_source j of None \<Rightarrow> 0 | Some x \<Rightarrow> if charged_key (fst x) = Some key then sa_spend_usd (fst x) else 0) =
         (case joined_sink j of None \<Rightarrow> 0 | Some k \<Rightarrow> if ki_api_key_id k = key then ki_spend_usd k else 0)"
  using assms by (cases j) (auto simp: settled_def charged_key_def expects_receipt_def)

lemma join_source_member:
  assumes "s \<in> set S"
  shows "(case find (\<lambda>k. ki_event_id k = sa_event_id s) K of None \<Rightarrow> SourceOnly (owned_item owner s)
     | Some k \<Rightarrow> Both (owned_item owner s) k) \<in> set (reference_join (map (owned_item owner) S) K)"
proof -
  have "fst (owned_item owner s) = s" by (simp add: owned_item_def)
  then show ?thesis using assms by (auto simp: reference_join_def image_iff intro!: disjI1 bexI[of _ s])
qed

section \<open>Properties\<close>

text \<open>C24: The paged merge is the join of the two tables. For repositories that answer from tables ordered
  by event identifier, and for every admissible page size, the audit ends; it fails exactly when some
  joined pair names the same key with different owner states (or a total exceeds 64 bits), and
  otherwise every counter of its report is the number of joined rows with that defect.\<close>

theorem audit_refines_join:
  assumes asc: "ascending sa_event_id S" "ascending ki_event_id K" and size: "page_size_ok n"
    and own: "\<And>ks. owners ks = Some (map (\<lambda>k. \<lparr>ow_api_key_id = k, ow_owner_state = owner k\<rparr>) ks)"
  defines "J \<equiv> reference_join (map (owned_item owner) S) K"
  shows "reconcile (table_fetch sa_event_id S) (table_fetch ki_event_id K) owners n =
         Some (if list_ex joined_conflict J then None
               else make_report (add_counts J (empty_report (int (length S)) (int (length K)))))"
proof -
  have n: "0 < nat n" using size by (simp add: page_size_ok_def)
  have all: "rows_after ident None rows = rows" for ident :: "'r \<Rightarrow> string" and rows
    by (simp add: rows_after_def beyond_def)
  have s: "read_pages (table_fetch sa_event_id S) sa_event_id (source_items owners) (nat n) None =
      Some (Some (map (owned_item owner) S))"
    using read_pages_table[OF asc(1) n, of "table_fetch sa_event_id S" "source_items owners" "owned_item owner" None]
    by (simp add: table_fetch_def source_items_owned[OF own] all)
  have k: "read_pages (table_fetch ki_event_id K) ki_event_id Some (nat n) None = Some (Some K)"
    using read_pages_table[OF asc(2) n, of "table_fetch ki_event_id K" Some "\<lambda>r. r" None]
    by (simp add: table_fetch_def all)
  show ?thesis using size audit_merge_join[OF ascending_owned[OF asc(1)] asc(2)]
    by (simp add: reconcile_def s k J_def)
qed

text \<open>C22: A clean full reconciliation means the two databases agree on the money. Every charge of a key in
  the usage database has its receipt with the same fingerprint, key and amount, every receipt belongs
  to such a charge, and for every key the spend recorded on the two sides is the same sum.\<close>

theorem clean_audit_balances:
  assumes asc: "ascending sa_event_id S" "ascending ki_event_id K"
    and own: "\<And>ks. owners ks = Some (map (\<lambda>k. \<lparr>ow_api_key_id = k, ow_owner_state = owner k\<rparr>) ks)"
    and r: "reconcile (table_fetch sa_event_id S) (table_fetch ki_event_id K) owners n = Some (Some r)" "report_clean r"
  shows "(\<Sum>s\<leftarrow>S. if charged_key s = Some key then sa_spend_usd s else 0) =
         (\<Sum>k\<leftarrow>K. if ki_api_key_id k = key then ki_spend_usd k else 0) \<and>
         (\<forall>s\<in>set S. expects_receipt s \<longrightarrow> (\<exists>k\<in>set K. ki_event_id k = sa_event_id s \<and>
            sa_fingerprint s = Some (ki_fingerprint k) \<and> sa_api_key_id s = Some (ki_api_key_id k) \<and>
            sa_spend_usd s = ki_spend_usd k)) \<and>
         (\<forall>k\<in>set K. \<exists>s\<in>set S. expects_receipt s \<and> sa_event_id s = ki_event_id k)"
proof -
  let ?xs = "map (owned_item owner) S" let ?J = "reference_join ?xs K"
  have "page_size_ok n" using r(1) by (auto simp: reconcile_def split: if_splits)
  from audit_refines_join[OF asc this own] r(1)
  have "r = add_counts ?J (empty_report (int (length S)) (int (length K)))"
    by (auto simp: make_report_def require_def split: if_splits)
  with r(2) have ok: "settled j" if "j \<in> set ?J" for j using clean_settled that by blast
  let ?g = "\<lambda>x :: source_item. if charged_key (fst x) = Some key then sa_spend_usd (fst x) else 0"
  let ?h = "\<lambda>k. if ki_api_key_id k = key then ki_spend_usd k else 0"
  have "(\<Sum>x\<leftarrow>?xs. ?g x) = (\<Sum>j\<leftarrow>?J. case joined_source j of None \<Rightarrow> 0 | Some x \<Rightarrow> ?g x)"
    by (rule join_source_sum[symmetric])
  also have "\<dots> = (\<Sum>j\<leftarrow>?J. case joined_sink j of None \<Rightarrow> 0 | Some k \<Rightarrow> ?h k)"
    by (rule arg_cong[where f = sum_list], rule map_cong[OF refl]) (rule settled_contribution[OF ok])
  also have "\<dots> = (\<Sum>k\<leftarrow>K. ?h k)" by (rule join_sink_sum[OF ascending_owned[OF asc(1)] asc(2)])
  finally have sums: "(\<Sum>s\<leftarrow>S. if charged_key s = Some key then sa_spend_usd s else 0) = (\<Sum>k\<leftarrow>K. ?h k)"
    by (simp add: owned_item_def comp_def cong: if_cong)
  have "\<exists>k\<in>set K. ki_event_id k = sa_event_id s \<and> sa_fingerprint s = Some (ki_fingerprint k) \<and>
      sa_api_key_id s = Some (ki_api_key_id k) \<and> sa_spend_usd s = ki_spend_usd k"
    if "s \<in> set S" "expects_receipt s" for s
    using ok[OF join_source_member[OF that(1), of owner K]] that(2)
    by (auto simp: settled_def owned_item_def find_Some_iff split: option.splits)
  moreover have "\<exists>s\<in>set S. expects_receipt s \<and> sa_event_id s = ki_event_id k" if "k \<in> set K" for k
  proof (cases "ki_event_id k \<in> set (map item_id ?xs)")
    case True
    then obtain s where s: "s \<in> set S" "sa_event_id s = ki_event_id k" by (auto simp: owned_item_def)
    have "find (\<lambda>l. ki_event_id l = sa_event_id s) K \<noteq> None" using s that by (auto simp: find_None_iff)
    then have "expects_receipt s"
      using ok[OF join_source_member[OF s(1), of owner K]] by (auto simp: settled_def owned_item_def)
    with s show ?thesis by blast
  next
    case False
    then have "SinkOnly k \<in> set ?J" using that by (auto simp: reference_join_def)
    from ok[OF this] show ?thesis by (simp add: settled_def)
  qed
  ultimately show ?thesis using sums by blast
qed

text \<open>Concrete tables: one charge with its receipt, and one pending charge.\<close>

definition sample_print :: string where "sample_print = replicate 64 CHR ''a''"

definition sample_source :: "string \<Rightarrow> py_datetime option \<Rightarrow> source_audit_row" where
  "sample_source i projected = \<lparr>sa_event_id = i, sa_row_kind = AuditOutbox, sa_event_kind = Charge,
     sa_fingerprint = Some sample_print, sa_api_key_id = Some 7, sa_spend_usd = 3 / 4,
     sa_projected_at = projected, sa_usage_present = True, sa_link = LinkNotApplicable\<rparr>"

definition sample_sink :: "string \<Rightarrow> sink_audit_row" where
  "sample_sink i = \<lparr>ki_event_id = i, ki_fingerprint = sample_print, ki_api_key_id = 7, ki_spend_usd = 3 / 4,
     ki_applied_at = Instant 5, ki_sink_kind = ''active'', ki_owner_state = OwnerActive\<rparr>"

definition sample_owners :: "int list \<Rightarrow> owner_audit_row list option" where
  "sample_owners ks = Some (map (\<lambda>k. \<lparr>ow_api_key_id = k, ow_owner_state = OwnerActive\<rparr>) ks)"

lemma sample_ascending:
  "ascending sa_event_id [sample_source ''a'' (Some (Instant 5)), sample_source ''b'' None]"
  "ascending sa_event_id [sample_source ''a'' (Some (Instant 5))]" "ascending ki_event_id [sample_sink ''a'']"
  by code_simp+

theorem audit_refines_join_witness:
  "reconcile (table_fetch sa_event_id [sample_source ''a'' (Some (Instant 5)), sample_source ''b'' None])
     (table_fetch ki_event_id [sample_sink ''a'']) sample_owners 1 =
   Some (Some ((empty_report 2 1)\<lparr>rr_pending_source_events := 1\<rparr>))"
proof -
  have "page_size_ok 1" by code_simp
  from audit_refines_join[OF sample_ascending(1,3) this, of sample_owners "\<lambda>k. OwnerActive"]
  have "reconcile (table_fetch sa_event_id [sample_source ''a'' (Some (Instant 5)), sample_source ''b'' None])
     (table_fetch ki_event_id [sample_sink ''a'']) sample_owners 1 =
    Some (if list_ex joined_conflict (reference_join (map (owned_item (\<lambda>k. OwnerActive))
             [sample_source ''a'' (Some (Instant 5)), sample_source ''b'' None]) [sample_sink ''a'']) then None
          else make_report (add_counts (reference_join (map (owned_item (\<lambda>k. OwnerActive))
             [sample_source ''a'' (Some (Instant 5)), sample_source ''b'' None]) [sample_sink ''a''])
             (empty_report 2 1)))"
    by (simp add: sample_owners_def)
  also have "\<dots> = Some (Some ((empty_report 2 1)\<lparr>rr_pending_source_events := 1\<rparr>))" by code_simp
  finally show ?thesis .
qed

theorem clean_audit_balances_witness:
  "(\<Sum>s\<leftarrow>[sample_source ''a'' (Some (Instant 5))]. if charged_key s = Some 7 then sa_spend_usd s else 0) =
   (\<Sum>k\<leftarrow>[sample_sink ''a'']. if ki_api_key_id k = 7 then ki_spend_usd k else 0)"
proof -
  have "reconcile (table_fetch sa_event_id [sample_source ''a'' (Some (Instant 5))])
     (table_fetch ki_event_id [sample_sink ''a'']) sample_owners 16 = Some (Some (empty_report 1 1))"
    by code_simp
  moreover have "report_clean (empty_report 1 1)" by code_simp
  ultimately show ?thesis
    using clean_audit_balances[OF sample_ascending(2,3), of sample_owners "\<lambda>k. OwnerActive" 16 "empty_report 1 1" 7]
    by (simp add: sample_owners_def)
qed

end
