(* ===== verification/Operation_Accounting.thy ===== *)
theory Operation_Accounting
  imports Accounting_Contracts
begin

text \<open>
  What an upstream answer costs (\<open>services/operation_accounting.py\<close>, the rate arithmetic of
  \<open>utils/usage_tracking.py\<close> and the request context of \<open>middleware/accounting_admission.py\<close>):
  the strict reading of token counts and costs from a decoded JSON answer, the choice of the cost
  source, and the charge event built from it.

  Errors are values. \<open>OpOverflow\<close> is an \<open>OverflowError\<close> that no handler of these functions turns
  into an accounting error.
\<close>

section \<open>Errors\<close>

datatype op_error = OpInvalid | OpUpstreamCost | OpCostUnavailable | OpOverflow

definition ok_bind :: "('e + 'a) \<Rightarrow> ('a \<Rightarrow> 'e + 'b) \<Rightarrow> 'e + 'b" where
  "ok_bind r f = (case r of Inl e \<Rightarrow> Inl e | Inr x \<Rightarrow> f x)"

definition demand :: "bool \<Rightarrow> 'e \<Rightarrow> 'e + unit" where
  "demand b e = (if b then Inr () else Inl e)"

definition or_error :: "'e \<Rightarrow> 'a option \<Rightarrow> 'e + 'a" where
  "or_error e v = (case v of None \<Rightarrow> Inl e | Some x \<Rightarrow> Inr x)"

lemma ok_bind_simps [simp]:
  "ok_bind (Inr x) f = f x" "ok_bind (Inl e) f = Inl e"
  "ok_bind r f = Inr y \<longleftrightarrow> (\<exists>x. r = Inr x \<and> f x = Inr y)"
  by (auto simp: ok_bind_def split: sum.split)

lemma demand_simps [simp]: "demand b e = Inr u \<longleftrightarrow> b" "demand b e = Inl e' \<longleftrightarrow> \<not> b \<and> e' = e"
  by (auto simp: demand_def)

lemma or_error_simps [simp]: "or_error e v = Inr x \<longleftrightarrow> v = Some x" "or_error e v = Inl e' \<longleftrightarrow> v = None \<and> e' = e"
  by (auto simp: or_error_def split: option.split)

section \<open>Token counts\<close>

fun strict_token :: "py_value \<Rightarrow> op_error + int" where
  "strict_token (VNum (PyInt n)) = (if n < 0 \<or> n > INT64_MAX then Inl OpInvalid else Inr n)"
| "strict_token _ = Inl OpInvalid"

fun tokens_of :: "json_object \<Rightarrow> string list \<Rightarrow> op_error + int list" where
  "tokens_of u [] = Inr []"
| "tokens_of u (k # ks) =
     (case dict_get u k of
        None \<Rightarrow> tokens_of u ks
      | Some v \<Rightarrow> ok_bind (strict_token v) (\<lambda>n. ok_bind (tokens_of u ks) (\<lambda>ns. Inr (n # ns))))"

definition all_same :: "int list \<Rightarrow> bool" where
  "all_same ns \<longleftrightarrow> (case ns of [] \<Rightarrow> True | n # ms \<Rightarrow> list_all (\<lambda>m. m = n) ms)"

definition consistent_alias :: "json_object \<Rightarrow> string list \<Rightarrow> op_error + (bool \<times> int)" where
  "consistent_alias u keys =
     ok_bind (tokens_of u keys) (\<lambda>ns. case ns of
       [] \<Rightarrow> Inr (False, 0)
     | n # ms \<Rightarrow> if all_same ns then Inr (True, n) else Inl OpInvalid)"

definition details :: "json_object \<Rightarrow> string \<Rightarrow> op_error + json_object" where
  "details u key =
     (case dict_get u key of
        None \<Rightarrow> Inr []
      | Some VNone \<Rightarrow> Inr []
      | Some (VDict d) \<Rightarrow> Inr d
      | Some _ \<Rightarrow> Inl OpInvalid)"

definition usage_value :: "py_value \<Rightarrow> op_error + json_object option" where
  "usage_value v = (case v of VNone \<Rightarrow> Inr None | VDict d \<Rightarrow> Inr (Some d) | _ \<Rightarrow> Inl OpInvalid)"

fun usage_in_containers :: "json_object \<Rightarrow> string list \<Rightarrow> op_error + json_object option" where
  "usage_in_containers payload [] = Inr None"
| "usage_in_containers payload (k # ks) =
     (case dict_get payload k of
        None \<Rightarrow> usage_in_containers payload ks
      | Some (VDict container) \<Rightarrow>
          (case dict_get container ''usage'' of
             None \<Rightarrow> usage_in_containers payload ks
           | Some v \<Rightarrow> usage_value v)
      | Some _ \<Rightarrow> Inl OpInvalid)"

definition usage_mapping :: "json_object \<Rightarrow> op_error + json_object option" where
  "usage_mapping payload =
     (case dict_get payload ''usage'' of
        Some v \<Rightarrow> usage_value v
      | None \<Rightarrow> usage_in_containers payload [''message'', ''response''])"

text \<open>The first of several candidate counts, which must agree.\<close>

definition agreed :: "int list \<Rightarrow> op_error + int" where
  "agreed ns = (case ns of [] \<Rightarrow> Inr 0 | n # _ \<Rightarrow> if all_same ns then Inr n else Inl OpInvalid)"

record prompt_count =
  pc_present :: bool
  pc_tokens :: int
  pc_cache_read :: "int option"

text \<open>The OpenAI count wins; the Anthropic counts may differ from it only when they are all zero.\<close>

definition prompt_counts :: "json_object \<Rightarrow> op_error + prompt_count" where
  "prompt_counts u =
     ok_bind (consistent_alias u [''prompt_tokens'']) (\<lambda>p.
     ok_bind (consistent_alias u [''input_tokens'']) (\<lambda>i.
     ok_bind (consistent_alias u [''cache_creation_input_tokens'']) (\<lambda>w.
     ok_bind (consistent_alias u [''cache_read_input_tokens'']) (\<lambda>r.
       (let aliased_present = (fst i \<or> fst w \<or> fst r); aliased = snd i + snd w + snd r
        in if fst p \<and> aliased_present \<and> snd p \<noteq> aliased \<and> aliased \<noteq> 0 then Inl OpInvalid
           else Inr \<lparr>pc_present = fst p \<or> aliased_present, pc_tokens = (if fst p then snd p else aliased),
                     pc_cache_read = (if fst r then Some (snd r) else None)\<rparr>)))))"

definition completion_counts :: "json_object \<Rightarrow> op_error + (bool \<times> int)" where
  "completion_counts u =
     ok_bind (consistent_alias u [''completion_tokens'']) (\<lambda>c.
     ok_bind (consistent_alias u [''output_tokens'']) (\<lambda>x.
       (if fst c \<and> fst x \<and> snd c \<noteq> snd x \<and> snd x \<noteq> 0 then Inl OpInvalid
        else Inr (fst c \<or> fst x, if fst c then snd c else snd x))))"

text \<open>The prompt and completion tokens charged; an input-only operation may report its total alone.\<close>

definition charged_tokens :: "bool \<Rightarrow> prompt_count \<Rightarrow> bool \<times> int \<Rightarrow> bool \<times> int \<Rightarrow> op_error + (int \<times> int)" where
  "charged_tokens input_only p c t =
     (if input_only
      then if pc_present p then Inr (pc_tokens p, if fst c then snd c else 0)
           else if fst t then Inr (snd t, if fst c then snd c else 0)
           else Inl OpInvalid
      else if \<not> pc_present p \<or> \<not> fst c then Inl OpInvalid
      else Inr (pc_tokens p, snd c))"

definition cached_count :: "json_object \<Rightarrow> json_object \<Rightarrow> int option \<Rightarrow> op_error + int" where
  "cached_count u prompt_details cache_read =
     ok_bind (tokens_of u [''cached_tokens'']) (\<lambda>ns.
     ok_bind (tokens_of prompt_details [''cached_tokens'']) (\<lambda>ms.
     agreed (ns @ ms @ (case cache_read of None \<Rightarrow> [] | Some n \<Rightarrow> [n]))))"

definition reasoning_count :: "json_object \<Rightarrow> json_object \<Rightarrow> op_error + int" where
  "reasoning_count u completion_details =
     ok_bind (tokens_of u [''reasoning_tokens'']) (\<lambda>ns.
     ok_bind (tokens_of completion_details [''reasoning_tokens'']) (\<lambda>ms.
     agreed (ns @ ms)))"

record token_counts =
  tk_usage :: json_object
  tk_prompt :: int
  tk_completion :: int
  tk_total :: int
  tk_reasoning :: int
  tk_cached :: int

definition strict_token_usage :: "json_object \<Rightarrow> bool \<Rightarrow> op_error + token_counts" where
  "strict_token_usage payload input_only =
     ok_bind (usage_mapping payload) (\<lambda>m.
     ok_bind (or_error OpInvalid m) (\<lambda>u.
     ok_bind (prompt_counts u) (\<lambda>p.
     ok_bind (completion_counts u) (\<lambda>c.
     ok_bind (consistent_alias u [''total_tokens'']) (\<lambda>t.
     ok_bind (charged_tokens input_only p c t) (\<lambda>x.
     ok_bind (demand (fst x + snd x \<le> INT64_MAX) OpInvalid) (\<lambda>_.
     ok_bind (details u ''prompt_tokens_details'') (\<lambda>pd.
     ok_bind (details u ''completion_tokens_details'') (\<lambda>cd.
     ok_bind (cached_count u pd (pc_cache_read p)) (\<lambda>cached.
     ok_bind (reasoning_count u cd) (\<lambda>reasoning.
     Inr \<lparr>tk_usage = u, tk_prompt = fst x, tk_completion = snd x, tk_total = fst x + snd x,
          tk_reasoning = reasoning, tk_cached = cached\<rparr>)))))))))))"

section \<open>Costs and diagnostics\<close>

fun strict_upstream_cost :: "py_value \<Rightarrow> op_error + rat" where
  "strict_upstream_cost (VNum n) = or_error OpUpstreamCost (normalize_float True n)"
| "strict_upstream_cost _ = Inl OpUpstreamCost"

text \<open>\<open>float(value)\<close> of the saved cost is not guarded.\<close>

fun saved_cost :: "py_value \<Rightarrow> op_error + rat" where
  "saved_cost (VNum (PyInt n)) = (if float_overflow (of_int n) then Inl OpOverflow else Inr (of_int n))"
| "saved_cost (VNum (PyFloat x)) = Inr x"
| "saved_cost _ = Inl OpInvalid"

record diagnostics =
  dg_cost_saved :: rat
  dg_duration_ms :: "int option"
  dg_is_estimated :: bool

text \<open>A value that is absent or \<open>None\<close> is skipped.\<close>

definition present :: "json_object \<Rightarrow> string \<Rightarrow> py_value option" where
  "present u key = (case dict_get u key of None \<Rightarrow> None | Some v \<Rightarrow> if v = VNone then None else Some v)"

definition optional :: "('a \<Rightarrow> op_error + 'b) \<Rightarrow> 'a option \<Rightarrow> op_error + 'b option" where
  "optional f v = (case v of None \<Rightarrow> Inr None | Some x \<Rightarrow> ok_bind (f x) (\<lambda>y. Inr (Some y)))"

definition strict_diagnostics :: "json_object option \<Rightarrow> py_num option \<Rightarrow> op_error + diagnostics" where
  "strict_diagnostics usage_opt duration_ms =
     (let u = (case usage_opt of None \<Rightarrow> [] | Some d \<Rightarrow> d) in
     ok_bind (optional saved_cost (present u ''cost_saved'')) (\<lambda>saved.
     ok_bind (optional strict_token (present u ''duration_ms'')) (\<lambda>payload_duration.
     ok_bind (optional (\<lambda>n. strict_token (VNum n)) duration_ms) (\<lambda>given.
     ok_bind (demand (\<not> (given \<noteq> None \<and> payload_duration \<noteq> None \<and> given \<noteq> payload_duration)) OpInvalid) (\<lambda>_.
     ok_bind (case present u ''is_estimated'' of
         None \<Rightarrow> Inr False | Some (VNum (PyBool b)) \<Rightarrow> Inr b | Some _ \<Rightarrow> Inl OpInvalid) (\<lambda>estimated.
     Inr \<lparr>dg_cost_saved = (case saved of None \<Rightarrow> 0 | Some x \<Rightarrow> x),
           dg_duration_ms = (if given \<noteq> None then given else payload_duration),
           dg_is_estimated = estimated\<rparr>))))))"

record cost_rates =
  ra_input :: py_num
  ra_output :: py_num

type_synonym rate_registry = "(string \<times> string, cost_rates) dict"

definition TOKEN_RATE_SCALE :: rat where "TOKEN_RATE_SCALE = 1000000"

fun as_non_negative_finite_float :: "py_num \<Rightarrow> op_error + rat option" where
  "as_non_negative_finite_float (PyBool b) = Inr (Some (if b then 1 else 0))"
| "as_non_negative_finite_float (PyInt n) =
     (if float_overflow (of_int n) then Inl OpOverflow
      else Inr (if n < 0 then None else Some (of_int n)))"
| "as_non_negative_finite_float (PyFloat x) = Inr (if x < 0 then None else Some x)"
| "as_non_negative_finite_float _ = Inr None"

definition as_non_negative_int :: "int \<Rightarrow> int" where
  "as_non_negative_int n = max n 0"

text \<open>The result is the sum before the division by the scale; it is an infinite float when too large.\<close>

definition calculate_model_cost_usd :: "int \<Rightarrow> int \<Rightarrow> cost_rates \<Rightarrow> op_error + rat option" where
  "calculate_model_cost_usd prompt completion rates =
     ok_bind (as_non_negative_finite_float (ra_input rates)) (\<lambda>i.
     ok_bind (as_non_negative_finite_float (ra_output rates)) (\<lambda>o'.
     Inr (case (i, o') of
            (Some x, Some y) \<Rightarrow>
              Some (of_int (as_non_negative_int prompt) * x + of_int (as_non_negative_int completion) * y)
          | _ \<Rightarrow> None)))"

fun rate_usable :: "py_num \<Rightarrow> op_error + bool" where
  "rate_usable (PyInt n) = (if float_overflow (of_int n) then Inl OpOverflow else Inr (n \<ge> 0))"
| "rate_usable (PyFloat x) = Inr (x \<ge> 0)"
| "rate_usable _ = Inr False"

text \<open>The cost used when no usable rate is configured.\<close>

definition default_cost :: "rat \<times> cost_source" where
  "default_cost = (DEFAULT_OPERATION_COST_USD, SrcOperationDefault)"

definition resolve_token_cost :: "int \<Rightarrow> int \<Rightarrow> cost_rates option \<Rightarrow> op_error + (rat \<times> cost_source)" where
  "resolve_token_cost prompt completion rates_opt =
     (case rates_opt of
        None \<Rightarrow> Inr default_cost
      | Some rates \<Rightarrow>
          ok_bind (rate_usable (ra_input rates)) (\<lambda>ok1. if \<not> ok1 then Inr default_cost else
          ok_bind (rate_usable (ra_output rates)) (\<lambda>ok2. if \<not> ok2 then Inr default_cost else
          ok_bind (calculate_model_cost_usd prompt completion rates) (\<lambda>cost. case cost of
              None \<Rightarrow> Inr default_cost
            | Some c \<Rightarrow> if float_overflow c \<or> c < 0 then Inr default_cost
                        else Inr (c / TOKEN_RATE_SCALE, SrcTokenRegistry)))))"

section \<open>Components and observations\<close>

definition TOKEN_USAGE_KEYS :: "string list" where
  "TOKEN_USAGE_KEYS =
     [''prompt_tokens'', ''input_tokens'', ''cache_creation_input_tokens'', ''cache_read_input_tokens'',
      ''completion_tokens'', ''output_tokens'', ''total_tokens'']"

definition INPUT_ONLY_OPERATIONS :: "string list" where
  "INPUT_ONLY_OPERATIONS = [''embeddings'', ''rerank'', ''decisions'']"

definition has_token_keys :: "json_object \<Rightarrow> bool" where
  "has_token_keys u \<longleftrightarrow> list_ex (\<lambda>k. dict_get u k \<noteq> None) TOKEN_USAGE_KEYS"

definition token_cost :: "bool \<Rightarrow> token_counts \<Rightarrow> cost_rates option \<Rightarrow> op_error + (rat \<times> cost_source)" where
  "token_cost accept t rates =
     (case (if accept then present (tk_usage t) ''cost'' else None) of
        Some v \<Rightarrow> ok_bind (strict_upstream_cost v) (\<lambda>c. Inr (c, SrcUpstream))
      | None \<Rightarrow> resolve_token_cost (tk_prompt t) (tk_completion t) rates)"

definition observed_usage :: "token_counts \<Rightarrow> rat \<Rightarrow> diagnostics \<Rightarrow> usage_args" where
  "observed_usage t cost dg = \<lparr>ua_prompt = PyInt (tk_prompt t), ua_completion = PyInt (tk_completion t),
     ua_total = PyInt (tk_total t), ua_reasoning = PyInt (tk_reasoning t), ua_cached = PyInt (tk_cached t),
     ua_cost = PyFloat cost, ua_cost_saved = PyFloat (dg_cost_saved dg),
     ua_duration_ms = map_option PyInt (dg_duration_ms dg), ua_ttft_ms = None,
     ua_is_estimated = dg_is_estimated dg, ua_cost_unavailable = False\<rparr>"

definition model_charge :: "string option \<Rightarrow> string option \<Rightarrow> usage \<Rightarrow> cost_source \<Rightarrow> component" where
  "model_charge provider model u src = \<lparr>co_provider = provider, co_model = model, co_usage = u,
     co_cost_source = src, co_kind = KindModel, co_operation = None, co_gateway_model = None\<rparr>"

definition token_component_from :: "bool \<Rightarrow> bool \<Rightarrow> json_object \<Rightarrow> string \<Rightarrow> string \<Rightarrow> rate_registry \<Rightarrow>
    py_num option \<Rightarrow> op_error + component" where
  "token_component_from accept input_only payload provider model registry duration_ms =
     ok_bind (strict_token_usage payload input_only) (\<lambda>t.
     ok_bind (demand (tk_total t \<noteq> 0)
       (if accept \<and> present (tk_usage t) ''cost'' \<noteq> None then OpInvalid else OpCostUnavailable)) (\<lambda>_.
     ok_bind (token_cost accept t (dict_get registry (provider, model))) (\<lambda>cs.
     ok_bind (strict_diagnostics (Some (tk_usage t)) duration_ms) (\<lambda>dg.
     ok_bind (or_error OpInvalid (make_usage (observed_usage t (fst cs) dg))) (\<lambda>u.
     or_error OpInvalid (make_component (model_charge (Some provider) (Some model) u (snd cs))))))))"

definition token_model_component :: "bool \<Rightarrow> bool \<Rightarrow> json_object \<Rightarrow> string \<Rightarrow> string \<Rightarrow> rate_registry \<Rightarrow>
    py_num option \<Rightarrow> op_error + component" where
  "token_model_component accept input_only payload provider model registry duration_ms =
     ok_bind (usage_mapping payload) (\<lambda>m.
     ok_bind (demand (case m of None \<Rightarrow> False
         | Some u \<Rightarrow> has_token_keys u \<or> (accept \<and> present u ''cost'' \<noteq> None)) OpCostUnavailable) (\<lambda>_.
     token_component_from accept input_only payload provider model registry duration_ms))"

definition build_token_model_component :: "json_object \<Rightarrow> string \<Rightarrow> string \<Rightarrow> rate_registry \<Rightarrow>
    py_num option \<Rightarrow> bool \<Rightarrow> op_error + component" where
  "build_token_model_component payload provider model registry duration_ms input_only =
     token_model_component True input_only payload provider model registry duration_ms"

record observation =
  ob_policy :: policy
  ob_gateway_model :: string
  ob_provider :: "string option"
  ob_model :: "string option"
  ob_usage :: usage
  ob_cost_source :: cost_source
  ob_occurred_at :: py_datetime

definition observed_model_ok :: "string \<Rightarrow> bool" where
  "observed_model_ok g \<longleftrightarrow> g \<noteq> [] \<and> g = py_strip g \<and> \<not> list_ex py_space g \<and> CHR 0x00 \<notin> set g \<and>
     encoded_length g \<le> 255"

definition operation_charge :: "observation \<Rightarrow> component" where
  "operation_charge a = \<lparr>co_provider = None, co_model = None, co_usage = ob_usage a,
     co_cost_source = ob_cost_source a, co_kind = KindOperation,
     co_operation = Some (bp_operation (ob_policy a)), co_gateway_model = Some (ob_gateway_model a)\<rparr>"

definition make_observation :: "observation \<Rightarrow> observation option" where
  "make_observation a = do {
     require (observed_model_ok (ob_gateway_model a));
     t \<leftarrow> normalize_datetime (ob_occurred_at a);
     (case bp_unit (ob_policy a) of
        UnitToken \<Rightarrow> do {
          require (us_total (ob_usage a) \<noteq> 0);
          make_component (model_charge (ob_provider a) (ob_model a) (ob_usage a) (ob_cost_source a));
          require (ob_cost_source a \<in> {SrcUpstream, SrcTokenRegistry, SrcOperationDefault});
          Some (a\<lparr>ob_occurred_at := t\<rparr>) }
      | UnitOperation \<Rightarrow> do {
          make_component (operation_charge a);
          require (ob_provider a = None \<and> ob_model a = None);
          Some (a\<lparr>ob_occurred_at := t\<rparr>) }) }"


record parse_request =
  pq_policy :: policy
  pq_gateway_model :: string
  pq_provider :: "string option"
  pq_model :: "string option"
  pq_rates :: rate_registry
  pq_calculators :: calculator_registry
  pq_occurred_at :: py_datetime
  pq_duration_ms :: "py_num option"

definition parse_token_observation :: "bool \<Rightarrow> parse_request \<Rightarrow> json_object \<Rightarrow> op_error + observation" where
  "parse_token_observation accept q payload =
     (case (pq_provider q, pq_model q) of
        (Some provider, Some model) \<Rightarrow>
          ok_bind (token_model_component accept (bp_operation (pq_policy q) \<in> set INPUT_ONLY_OPERATIONS)
            payload provider model (pq_rates q) (pq_duration_ms q)) (\<lambda>c.
          or_error OpInvalid (make_observation \<lparr>ob_policy = pq_policy q, ob_gateway_model = pq_gateway_model q,
            ob_provider = co_provider c, ob_model = co_model c, ob_usage = co_usage c,
            ob_cost_source = co_cost_source c, ob_occurred_at = pq_occurred_at q\<rparr>))
      | _ \<Rightarrow> Inl OpInvalid)"

fun as_number :: "py_value \<Rightarrow> py_num" where
  "as_number (VNum n) = n"
| "as_number _ = PyOther"

definition upstream_cost :: "bool \<Rightarrow> json_object option \<Rightarrow> py_value option" where
  "upstream_cost accept m = (if accept then Option.bind m (\<lambda>u. present u ''cost'') else None)"

definition operation_usage :: "rat \<Rightarrow> diagnostics \<Rightarrow> usage_args" where
  "operation_usage cost dg = \<lparr>ua_prompt = PyInt 0, ua_completion = PyInt 0, ua_total = PyInt 0,
     ua_reasoning = PyInt 0, ua_cached = PyInt 0, ua_cost = PyFloat cost,
     ua_cost_saved = PyFloat (dg_cost_saved dg), ua_duration_ms = map_option PyInt (dg_duration_ms dg),
     ua_ttft_ms = None, ua_is_estimated = dg_is_estimated dg, ua_cost_unavailable = False\<rparr>"

definition resolve_cost :: "py_value option \<Rightarrow> cost_calculator option \<Rightarrow> op_error + resolved_cost" where
  "resolve_cost cost calculator = or_error OpUpstreamCost
     (resolve_operation_cost (cost \<noteq> None) (case cost of None \<Rightarrow> PyOther | Some v \<Rightarrow> as_number v) calculator)"

definition parse_unit_observation :: "bool \<Rightarrow> parse_request \<Rightarrow> json_object \<Rightarrow> op_error + observation" where
  "parse_unit_observation accept q payload =
     ok_bind (usage_mapping payload) (\<lambda>m.
     ok_bind (resolve_cost (upstream_cost accept m)
       (dict_get (pq_calculators q) (bp_operation (pq_policy q), pq_gateway_model q))) (\<lambda>rc.
     ok_bind (strict_diagnostics m (pq_duration_ms q)) (\<lambda>dg.
     ok_bind (or_error OpInvalid (make_usage (operation_usage (rc_cost_usd rc) dg))) (\<lambda>u.
     or_error OpInvalid (make_observation \<lparr>ob_policy = pq_policy q, ob_gateway_model = pq_gateway_model q,
       ob_provider = None, ob_model = None, ob_usage = u, ob_cost_source = rc_source rc,
       ob_occurred_at = pq_occurred_at q\<rparr>)))))"

definition parse_operation_observation :: "bool \<Rightarrow> parse_request \<Rightarrow> json_object \<Rightarrow> op_error + observation" where
  "parse_operation_observation accept q payload =
     (case bp_unit (pq_policy q) of
        UnitToken \<Rightarrow> parse_token_observation accept q payload
      | UnitOperation \<Rightarrow> parse_unit_observation accept q payload)"

definition parse_upstream_operation_observation :: "parse_request \<Rightarrow> json_object \<Rightarrow> op_error + observation" where
  "parse_upstream_operation_observation q payload = parse_operation_observation True q payload"

definition parse_synthesized_operation_observation :: "parse_request \<Rightarrow> json_object \<Rightarrow> op_error + observation" where
  "parse_synthesized_operation_observation q payload = parse_operation_observation False q payload"

section \<open>The request context and its event\<close>

definition extract_request_x_title :: "string option \<Rightarrow> string option" where
  "extract_request_x_title header =
     (case header of None \<Rightarrow> None | Some v \<Rightarrow> if py_strip v = [] then None else Some (py_strip v))"

record request_context =
  cx_method :: string
  cx_route :: string
  cx_policy :: policy
  cx_request_id :: string
  cx_reservation :: reservation
  cx_parent_event_id :: "string option"
  cx_x_title :: "string option"

definition make_request_context :: "request_context \<Rightarrow> request_context option" where
  "make_request_context a = do {
     require (\<not> (cx_request_id a = [] \<or> rv_request_id (cx_reservation a) \<noteq> cx_request_id a \<or>
       classify_policy (cx_method a) (cx_route a) \<noteq> Some (cx_policy a)));
     parent \<leftarrow> normalize_opt normalize_event_id (cx_parent_event_id a);
     Some (a\<lparr>cx_parent_event_id := parent, cx_x_title := extract_request_x_title (cx_x_title a)\<rparr>) }"

record provenance =
  pv_event_id :: string
  pv_method :: string
  pv_route :: string
  pv_provider :: "string option"
  pv_model :: "string option"

definition provenance_name_ok :: "string option \<Rightarrow> bool" where
  "provenance_name_ok v = (case v of None \<Rightarrow> True
     | Some s \<Rightarrow> s \<noteq> [] \<and> s = py_strip s \<and> CHR 0x00 \<notin> set s \<and> encoded_length s \<le> 512)"

text \<open>\<open>s == s.upper()\<close> on characters up to U+00FF: no lower-case letter occurs.\<close>

definition is_upper_case :: "string \<Rightarrow> bool" where
  "is_upper_case s \<longleftrightarrow> list_all (\<lambda>c. \<not> (97 \<le> code_of c \<and> code_of c \<le> 122) \<and> code_of c \<noteq> 181 \<and>
     (code_of c < 223 \<or> code_of c = 247)) s"

definition make_provenance :: "provenance \<Rightarrow> provenance option" where
  "make_provenance a = do {
     require (pv_event_id a \<noteq> [] \<and> pv_event_id a = py_strip (pv_event_id a) \<and> all_ascii (pv_event_id a) \<and>
       encoded_length (pv_event_id a) \<le> 255 \<and> printable (pv_event_id a) \<and> pv_method a \<noteq> [] \<and>
       is_upper_case (pv_method a) \<and> take 1 (pv_route a) = ''/'');
     require ((pv_provider a = None) = (pv_model a = None));
     require (provenance_name_ok (pv_provider a) \<and> provenance_name_ok (pv_model a));
     Some a }"

definition or_else :: "'a option \<Rightarrow> 'a option \<Rightarrow> 'a option" where
  "or_else x y = (case x of None \<Rightarrow> y | Some _ \<Rightarrow> x)"

definition event_source :: "request_context \<Rightarrow> observation \<Rightarrow> provenance option \<Rightarrow> provenance option" where
  "event_source cx ob pv =
     (case pv of
        None \<Rightarrow> Some \<lparr>pv_event_id = cx_request_id cx, pv_method = cx_method cx, pv_route = cx_route cx,
                  pv_provider = ob_provider ob, pv_model = ob_model ob\<rparr>
      | Some v \<Rightarrow>
          if classify_policy (pv_method v) (pv_route v) \<noteq> Some (cx_policy cx) then None
          else if pv_provider v \<noteq> None \<and> bp_unit (cx_policy cx) \<noteq> UnitOperation then None
          else Some (v\<lparr>pv_provider := or_else (pv_provider v) (ob_provider ob),
                       pv_model := or_else (pv_model v) (ob_model ob)\<rparr>))"

definition build_operation_event :: "request_context \<Rightarrow> observation \<Rightarrow> provenance option \<Rightarrow> event option" where
  "build_operation_event cx ob pv = do {
     require (ob_policy ob = cx_policy cx);
     v \<leftarrow> event_source cx ob pv;
     make_event \<lparr>ea_version = PyInt 1, ea_event_id = pv_event_id v, ea_kind = Charge,
       ea_api_key_id = map_option PyInt (rv_api_key_id (cx_reservation cx)), ea_method = pv_method v,
       ea_route = pv_route v, ea_operation = bp_operation (cx_policy cx),
       ea_gateway_model = ob_gateway_model ob, ea_provider = pv_provider v, ea_model = pv_model v,
       ea_usage = ob_usage ob, ea_cost_source = ob_cost_source ob, ea_occurred_at = ob_occurred_at ob,
       ea_request_id = Some (rv_request_id (cx_reservation cx)),
       ea_parent_event_id = cx_parent_event_id cx, ea_components = [], ea_child_event_ids = [],
       ea_child_fingerprints = [], ea_upstream_key = None, ea_x_title = cx_x_title cx,
       ea_client_ip = None, ea_user_agent = None, ea_fallback_depth = None\<rparr> }"


section \<open>What a parsed answer satisfies\<close>

lemma normalize_float_nonneg: "normalize_float True v = Some x \<Longrightarrow> 0 \<le> x"
  by (cases v) (auto split: if_splits)

lemma make_usage_fields:
  assumes "make_usage a = Some u"
  shows "PyInt (us_prompt u) = ua_prompt a" "PyInt (us_completion u) = ua_completion a"
    "PyInt (us_total u) = ua_total a" "ua_cost a = PyFloat c \<Longrightarrow> us_cost u = c"
proof -
  have i: "normalize_int b v = Some n \<Longrightarrow> PyInt n = v" for b v n
    by (cases v) (auto split: if_splits)
  show "PyInt (us_prompt u) = ua_prompt a" "PyInt (us_completion u) = ua_completion a"
    "PyInt (us_total u) = ua_total a"
    using assms by (auto simp: make_usage_def contract_simps dest!: i)
  show "ua_cost a = PyFloat c \<Longrightarrow> us_cost u = c"
    using assms by (auto simp: make_usage_def contract_simps split: if_splits)
qed

lemma make_observation_update: "make_observation a = Some ob \<Longrightarrow> \<exists>t. ob = a\<lparr>ob_occurred_at := t\<rparr>"
  by (cases "bp_unit (ob_policy a)") (auto simp: make_observation_def contract_simps)

lemma make_observation_same:
  assumes "make_observation a = Some ob"
  shows "ob_policy ob = ob_policy a" "ob_usage ob = ob_usage a" "ob_cost_source ob = ob_cost_source a"
    "ob_provider ob = ob_provider a" "ob_model ob = ob_model a" "ob_gateway_model ob = ob_gateway_model a"
  using make_observation_update[OF assms] by auto

lemma make_observation_token:
  assumes "make_observation a = Some ob" "bp_unit (ob_policy a) = UnitToken"
  shows "us_total (ob_usage a) \<noteq> 0 \<and> ob_cost_source a \<in> {SrcUpstream, SrcTokenRegistry, SrcOperationDefault} \<and>
         ob_provider a \<noteq> None \<and> ob_model a \<noteq> None"
  using assms by (auto simp: make_observation_def contract_simps make_component_def model_charge_def model_component_def)

lemma make_observation_unit:
  assumes "make_observation a = Some ob" "bp_unit (ob_policy a) = UnitOperation"
  shows "us_total (ob_usage a) = 0 \<and> ob_cost_source a \<in> {SrcUpstream, SrcOperationConfigured, SrcOperationDefault} \<and>
         ob_provider a = None \<and> ob_model a = None"
  using assms
  by (auto simp: make_observation_def contract_simps make_component_def operation_charge_def operation_component_def)

lemma model_component_same:
  assumes "make_component (model_charge p m u src) = Some c"
  shows "co_usage c = u" "co_cost_source c = src"
  using assms by (auto simp: make_component_def model_charge_def model_component_def contract_simps)

lemma resolve_token_cost_source:
  "resolve_token_cost p c rates = Inr (x, src) \<Longrightarrow> src \<in> {SrcTokenRegistry, SrcOperationDefault}"
  by (auto simp: resolve_token_cost_def default_cost_def split: option.splits if_splits)

text \<open>A token observation, step by step.\<close>

lemma parse_token_obtain:
  assumes "parse_token_observation accept q payload = Inr ob"
  obtains provider model t cs dg u a where
    "strict_token_usage payload (bp_operation (pq_policy q) \<in> set INPUT_ONLY_OPERATIONS) = Inr t"
    "token_cost accept t (dict_get (pq_rates q) (provider, model)) = Inr cs"
    "strict_diagnostics (Some (tk_usage t)) (pq_duration_ms q) = Inr dg"
    "make_usage (observed_usage t (fst cs) dg) = Some u" "make_observation a = Some ob"
    "ob_usage a = u" "ob_cost_source a = snd cs" "ob_policy a = pq_policy q"
    "pq_provider q = Some provider" "pq_model q = Some model"
proof -
  from assms obtain provider model c a where
    c: "token_model_component accept (bp_operation (pq_policy q) \<in> set INPUT_ONLY_OPERATIONS) payload provider model
       (pq_rates q) (pq_duration_ms q) = Inr c" and
    a: "make_observation a = Some ob" "ob_policy a = pq_policy q" "ob_usage a = co_usage c"
      "ob_cost_source a = co_cost_source c" and
    q: "pq_provider q = Some provider" "pq_model q = Some model"
    by (auto simp: parse_token_observation_def split: option.splits)
  from c obtain t cs dg u where t:
    "strict_token_usage payload (bp_operation (pq_policy q) \<in> set INPUT_ONLY_OPERATIONS) = Inr t"
    "token_cost accept t (dict_get (pq_rates q) (provider, model)) = Inr cs"
    "strict_diagnostics (Some (tk_usage t)) (pq_duration_ms q) = Inr dg"
    "make_usage (observed_usage t (fst cs) dg) = Some u"
    "make_component (model_charge (Some provider) (Some model) u (snd cs)) = Some c"
    by (auto simp: token_model_component_def token_component_from_def)
  show thesis
    using that[OF t(1-4) a(1) _ _ a(2) q] a(3,4) model_component_same[OF t(5)] by simp
qed

lemma parse_unit_obtain:
  assumes "parse_unit_observation accept q payload = Inr ob"
  obtains m rc dg u a where
    "usage_mapping payload = Inr m"
    "resolve_cost (upstream_cost accept m)
       (dict_get (pq_calculators q) (bp_operation (pq_policy q), pq_gateway_model q)) = Inr rc"
    "strict_diagnostics m (pq_duration_ms q) = Inr dg"
    "make_usage (operation_usage (rc_cost_usd rc) dg) = Some u" "make_observation a = Some ob"
    "ob_usage a = u" "ob_cost_source a = rc_source rc" "ob_policy a = pq_policy q"
  using assms by (auto simp: parse_unit_observation_def)


section \<open>Answers that differ in one field\<close>

definition agree_except :: "string \<Rightarrow> json_object \<Rightarrow> json_object \<Rightarrow> bool" where
  "agree_except x u u' \<longleftrightarrow> (\<forall>k. k \<noteq> x \<longrightarrow> dict_get u k = dict_get u' k)"

lemma tokens_of_cong: "\<forall>k\<in>set ks. dict_get u k = dict_get u' k \<Longrightarrow> tokens_of u ks = tokens_of u' ks"
  by (induction ks) (auto split: option.split)

lemma present_other: "agree_except x u u' \<Longrightarrow> k \<noteq> x \<Longrightarrow> present u k = present u' k"
  by (simp add: agree_except_def present_def)

lemma strict_usage_same:
  assumes x: "x \<in> {''cost'', ''cost_saved''}" and same: "agree_except x u u'"
    and m: "usage_mapping p = Inr (Some u)" "usage_mapping p' = Inr (Some u')"
    and t: "strict_token_usage p input_only = r"
  shows "strict_token_usage p' input_only = map_sum id (\<lambda>t. t\<lparr>tk_usage := u'\<rparr>) r"
proof -
  have f: "dict_get u k = dict_get u' k" if "k \<notin> {''cost'', ''cost_saved''}" for k
    using x same that by (auto simp: agree_except_def)
  have ts: "tokens_of u [j] = tokens_of u' [j]" if "j \<notin> {''cost'', ''cost_saved''}" for j
    using f[OF that] by (intro tokens_of_cong) simp
  note simps = ts f prompt_counts_def completion_counts_def consistent_alias_def details_def
    cached_count_def reasoning_count_def
  have eqs: "prompt_counts u = prompt_counts u'" "completion_counts u = completion_counts u'"
    "consistent_alias u [''total_tokens''] = consistent_alias u' [''total_tokens'']"
    "details u ''prompt_tokens_details'' = details u' ''prompt_tokens_details''"
    "details u ''completion_tokens_details'' = details u' ''completion_tokens_details''"
    "cached_count u d n = cached_count u' d n" "reasoning_count u d = reasoning_count u' d" for d n
    by (simp_all add: simps del: tokens_of.simps)
  show ?thesis
    unfolding t[symmetric] strict_token_usage_def m or_error_def
    by (simp add: eqs ok_bind_def split: sum.split)
qed

lemma token_keys_same:
  assumes x: "x \<in> {''cost'', ''cost_saved''}" and same: "agree_except x u u'"
  shows "has_token_keys u = has_token_keys u'"
  using assms by (auto simp: has_token_keys_def TOKEN_USAGE_KEYS_def agree_except_def)

text \<open>A title longer than an event may hold is admitted, and leaves no event for the request.\<close>

lemma long_title_no_event:
  assumes "make_request_context a = Some cx0"
  shows "\<exists>cx. make_request_context (a\<lparr>cx_x_title := extract_request_x_title (Some header)\<rparr>) = Some cx \<and>
     (encoded_length (py_strip header) > 512 \<longrightarrow> (\<forall>ob pv. build_operation_event cx ob pv = None))"
proof -
  obtain cx where cx: "make_request_context (a\<lparr>cx_x_title := extract_request_x_title (Some header)\<rparr>) = Some cx"
    "cx_x_title cx = extract_request_x_title (Some header)"
    using assms by (auto simp: make_request_context_def contract_simps extract_request_x_title_def)
  have "normalize_opt (normalize_text 512 False) (cx_x_title cx) = None"
    if "encoded_length (py_strip header) > 512"
  proof -
    have "py_strip header \<noteq> []" using that by (auto simp: encoded_length_def)
    with that cx(2) show ?thesis
      by (simp add: extract_request_x_title_def normalize_opt_def normalize_text_def Let_def)
  qed
  then have "encoded_length (py_strip header) > 512 \<longrightarrow> (\<forall>ob pv. build_operation_event cx ob pv = None)"
    by (auto simp: build_operation_event_def make_event_def Option.bind_eq_None_conv)
  with cx(1) show ?thesis by blast
qed

section \<open>Properties\<close>

text \<open>C25: An answer is charged by a well-formed usage or not at all. Whatever JSON an upstream sent, an
  observation parsed from it keeps the request's policy; its tokens are non-negative, the total is
  their sum and fits 64 bits, and its cost is non-negative. A token operation has a positive total
  and names its provider and model; any other operation counts no tokens and names none. The cost
  source is one the unit allows, and it is the upstream only for an answer of an upstream.\<close>

theorem observations_sound:
  assumes "parse_operation_observation accept q payload = Inr ob"
  shows "ob_policy ob = pq_policy q \<and>
         0 \<le> us_prompt (ob_usage ob) \<and> 0 \<le> us_completion (ob_usage ob) \<and>
         us_total (ob_usage ob) = us_prompt (ob_usage ob) + us_completion (ob_usage ob) \<and>
         us_total (ob_usage ob) \<le> INT64_MAX \<and> 0 \<le> us_cost (ob_usage ob) \<and>
         (ob_cost_source ob = SrcUpstream \<longrightarrow> accept) \<and>
         (case bp_unit (pq_policy q) of
            UnitToken \<Rightarrow> us_total (ob_usage ob) \<noteq> 0 \<and> ob_provider ob \<noteq> None \<and> ob_model ob \<noteq> None \<and>
              ob_cost_source ob \<in> {SrcUpstream, SrcTokenRegistry, SrcOperationDefault}
          | UnitOperation \<Rightarrow> us_total (ob_usage ob) = 0 \<and> ob_provider ob = None \<and> ob_model ob = None \<and>
              ob_cost_source ob \<in> {SrcUpstream, SrcOperationConfigured, SrcOperationDefault})"
proof (cases "bp_unit (pq_policy q)")
  case UnitToken
  with assms have "parse_token_observation accept q payload = Inr ob" by (simp add: parse_operation_observation_def)
  then show ?thesis
  proof (cases rule: parse_token_obtain)
    case (1 provider model t cs dg u a)
    have "snd cs = SrcUpstream \<longrightarrow> accept"
      using 1(2) resolve_token_cost_source[of _ _ _ "fst cs" "snd cs"]
      by (auto simp: token_cost_def split: option.splits if_splits)
    with make_observation_same[OF 1(5)] make_observation_token[OF 1(5)] make_usage_facts[OF 1(4)] 1 UnitToken
    show ?thesis by simp
  qed
next
  case UnitOperation
  with assms have "parse_unit_observation accept q payload = Inr ob" by (simp add: parse_operation_observation_def)
  then show ?thesis
  proof (cases rule: parse_unit_obtain)
    case (1 m rc dg u a)
    have "rc_source rc = SrcUpstream \<longrightarrow> accept"
      using 1(2) by (auto simp: resolve_cost_def resolve_operation_cost_def upstream_cost_def split: option.splits if_splits)
    with make_observation_same[OF 1(5)] make_observation_unit[OF 1(5)] make_usage_facts[OF 1(4)] 1 UnitOperation
    show ?thesis by simp
  qed
qed

text \<open>C23: The cost an upstream reports is never replaced. When the usage of an answer names a cost, an
  observation is made only if that cost is a finite non-negative number, and then it is charged
  exactly that cost, from the upstream source; a malformed cost is an error, not the default.\<close>

theorem upstream_cost_respected:
  assumes "parse_upstream_operation_observation q payload = Inr ob"
    and "usage_mapping payload = Inr (Some u)" and "present u ''cost'' = Some v"
  shows "strict_upstream_cost v = Inr (us_cost (ob_usage ob)) \<and> ob_cost_source ob = SrcUpstream"
proof (cases "bp_unit (pq_policy q)")
  case UnitToken
  with assms(1) have "parse_token_observation True q payload = Inr ob"
    by (simp add: parse_upstream_operation_observation_def parse_operation_observation_def)
  then show ?thesis
  proof (cases rule: parse_token_obtain)
    case (1 provider model t cs dg u' a)
    have "tk_usage t = u" using 1(1) assms(2) by (auto simp: strict_token_usage_def)
    with 1(2) assms(3) have "strict_upstream_cost v = Inr (fst cs)" "snd cs = SrcUpstream"
      by (auto simp: token_cost_def)
    with make_observation_same[OF 1(5)] make_usage_fields(4)[OF 1(4)] 1 show ?thesis
      by (simp add: observed_usage_def)
  qed
next
  case UnitOperation
  with assms(1) have "parse_unit_observation True q payload = Inr ob"
    by (simp add: parse_upstream_operation_observation_def parse_operation_observation_def)
  then show ?thesis
  proof (cases rule: parse_unit_obtain)
    case (1 m rc dg u' a)
    have "upstream_cost True m = Some v" using 1(1) assms(2,3) by (auto simp: upstream_cost_def)
    with 1(2) have "strict_upstream_cost v = Inr (rc_cost_usd rc)" "rc_source rc = SrcUpstream"
      by (cases v; auto simp: resolve_cost_def resolve_operation_cost_def)+
    with make_observation_same[OF 1(5)] make_usage_fields(4)[OF 1(4)] 1 show ?thesis
      by (simp add: operation_usage_def)
  qed
qed


text \<open>What a synthesized answer says about its own cost is never believed. Two answers made inside
  the gateway whose usages differ at most in the field \<open>cost\<close> are observed alike.\<close>

theorem synthesized_cost_ignored:
  assumes m: "usage_mapping p = Inr (Some u)" "usage_mapping p' = Inr (Some u')"
    and same: "agree_except ''cost'' u u'"
  shows "parse_synthesized_operation_observation q p = parse_synthesized_operation_observation q p'"
proof -
  have d: "strict_diagnostics (Some u) n = strict_diagnostics (Some u') n" for n
    using present_other[OF same] by (simp add: strict_diagnostics_def)
  have k: "has_token_keys u = has_token_keys u'" by (rule token_keys_same[OF _ same]) simp
  have t: "token_component_from False io p pr md rs n = token_component_from False io p' pr md rs n" for io pr md rs n
  proof (cases "strict_token_usage p io")
    case (Inl e)
    then show ?thesis using strict_usage_same[OF _ same m Inl] by (simp add: token_component_from_def)
  next
    case (Inr t)
    have "tk_usage t = u" using Inr m by (auto simp: strict_token_usage_def)
    then show ?thesis using strict_usage_same[OF _ same m Inr] Inr d
      by (simp add: token_component_from_def token_cost_def observed_usage_def)
  qed
  have "token_model_component False io p pr md rs n = token_model_component False io p' pr md rs n" for io pr md rs n
    by (simp add: token_model_component_def m k t)
  then show ?thesis
    by (simp add: parse_synthesized_operation_observation_def parse_operation_observation_def
        parse_token_observation_def parse_unit_observation_def m d upstream_cost_def
        split: billing_unit.split option.split)
qed

text \<open>C27: A huge saved cost escapes the error handling. Take an answer that would be observed and
  charged. If its usage also names a saved cost that is an integer too large for a float, parsing
  ends in an \<open>OverflowError\<close>, which is no accounting error: routes that fall back on accounting
  errors do not fall back.\<close>

theorem huge_saved_cost_escapes:
  assumes ok: "parse_upstream_operation_observation q p = Inr ob"
    and m: "usage_mapping p = Inr (Some u)" "usage_mapping p' = Inr (Some u')"
    and same: "agree_except ''cost_saved'' u u'"
    and huge: "present u' ''cost_saved'' = Some (VNum (PyInt n))" "float_overflow (of_int n)"
  shows "parse_upstream_operation_observation q p' = Inl OpOverflow"
proof -
  have d: "strict_diagnostics (Some u') k = Inl OpOverflow" for k
    using huge by (simp add: strict_diagnostics_def optional_def)
  have c: "present u ''cost'' = present u' ''cost''" using present_other[OF same] by simp
  have k: "has_token_keys u = has_token_keys u'" by (rule token_keys_same[OF _ same]) simp
  show ?thesis
  proof (cases "bp_unit (pq_policy q)")
    case UnitOperation
    then show ?thesis using ok
      by (auto simp: parse_upstream_operation_observation_def parse_operation_observation_def
          parse_unit_observation_def m d c upstream_cost_def)
  next
    case UnitToken
    let ?io = "bp_operation (pq_policy q) \<in> set INPUT_ONLY_OPERATIONS"
    have pt: "parse_token_observation True q p = Inr ob" using ok UnitToken
      by (simp add: parse_upstream_operation_observation_def parse_operation_observation_def)
    then have key: "has_token_keys u \<or> present u ''cost'' \<noteq> None"
      by (auto simp: parse_token_observation_def token_model_component_def m split: option.splits)
    from pt show ?thesis
    proof (cases rule: parse_token_obtain)
      case (1 provider model t cs dg us a)
      have u: "tk_usage t = u" using 1(1) m by (auto simp: strict_token_usage_def)
      have t': "strict_token_usage p' ?io = Inr (t\<lparr>tk_usage := u'\<rparr>)"
        using strict_usage_same[OF _ same m 1(1)] by simp
      have "tk_total t \<noteq> 0"
        using make_observation_token[OF 1(5)] 1(6,8) UnitToken make_usage_fields(3)[OF 1(4)]
        by (simp add: observed_usage_def)
      moreover have "token_cost True (t\<lparr>tk_usage := u'\<rparr>) (dict_get (pq_rates q) (provider, model)) = Inr cs"
        using 1(2) u c by (simp add: token_cost_def split: option.splits)
      ultimately have "token_component_from True ?io p' provider model (pq_rates q) (pq_duration_ms q) = Inl OpOverflow"
        by (simp add: token_component_from_def t' d demand_def)
      then show ?thesis using UnitToken 1(9,10) key k c
        by (simp add: parse_upstream_operation_observation_def parse_operation_observation_def
            parse_token_observation_def token_model_component_def m demand_def)
    qed
  qed
qed

text \<open>Concrete inputs.\<close>

definition sample_query :: parse_request where
  "sample_query = \<lparr>pq_policy = pol ''embeddings'' UnitToken, pq_gateway_model = ''gw'',
     pq_provider = Some ''groq'', pq_model = Some ''llama'', pq_rates = [], pq_calculators = [],
     pq_occurred_at = Instant 100, pq_duration_ms = Some (PyInt 7)\<rparr>"

definition sample_answer :: "(string \<times> py_value) list \<Rightarrow> json_object" where
  "sample_answer extra = [(''usage'', VDict ((''prompt_tokens'', VNum (PyInt 10)) # extra))]"

definition sample_observed :: "rat \<Rightarrow> cost_source \<Rightarrow> observation" where
  "sample_observed cost src = \<lparr>ob_policy = pol ''embeddings'' UnitToken, ob_gateway_model = ''gw'',
     ob_provider = Some ''groq'', ob_model = Some ''llama'',
     ob_usage = (sample_usage 10 0 cost)\<lparr>us_duration_ms := Some 7\<rparr>, ob_cost_source = src,
     ob_occurred_at = Instant 100\<rparr>"

lemma sample_upstream:
  "parse_operation_observation True sample_query (sample_answer [(''cost'', VNum (PyFloat (1 / 4)))]) =
   Inr (sample_observed (1 / 4) SrcUpstream)"
  by code_simp

lemma sample_synthesized:
  "parse_operation_observation False sample_query (sample_answer [(''cost'', VNum (PyFloat 9))]) =
   Inr (sample_observed (1 / 10) SrcOperationDefault)"
  by code_simp

theorem observations_sound_witness:
  "us_prompt (ob_usage (sample_observed (1 / 4) SrcUpstream)) = 10 \<and>
   us_total (ob_usage (sample_observed (1 / 4) SrcUpstream)) = us_prompt (ob_usage (sample_observed (1 / 4) SrcUpstream)) +
     us_completion (ob_usage (sample_observed (1 / 4) SrcUpstream))"
  using observations_sound[OF sample_upstream] by (simp add: sample_observed_def sample_usage_def)

theorem upstream_cost_respected_witness:
  "strict_upstream_cost (VNum (PyFloat (1 / 4))) = Inr (us_cost (ob_usage (sample_observed (1 / 4) SrcUpstream)))"
proof -
  have "parse_upstream_operation_observation sample_query (sample_answer [(''cost'', VNum (PyFloat (1 / 4)))]) =
      Inr (sample_observed (1 / 4) SrcUpstream)"
    by (simp add: parse_upstream_operation_observation_def sample_upstream)
  from upstream_cost_respected[OF this,
      of "[(''prompt_tokens'', VNum (PyInt 10)), (''cost'', VNum (PyFloat (1 / 4)))]"]
  show ?thesis by (simp add: usage_mapping_def sample_answer_def usage_value_def present_def)
qed

theorem synthesized_cost_ignored_witness:
  "parse_synthesized_operation_observation sample_query (sample_answer []) = Inr (sample_observed (1 / 10) SrcOperationDefault)"
proof -
  have "parse_synthesized_operation_observation sample_query (sample_answer []) =
      parse_synthesized_operation_observation sample_query (sample_answer [(''cost'', VNum (PyFloat 9))])"
    by (rule synthesized_cost_ignored[of _ "[(''prompt_tokens'', VNum (PyInt 10))]" _
          "[(''prompt_tokens'', VNum (PyInt 10)), (''cost'', VNum (PyFloat 9))]"])
      (auto simp: usage_mapping_def sample_answer_def usage_value_def agree_except_def)
  then show ?thesis by (simp add: parse_synthesized_operation_observation_def sample_synthesized)
qed

theorem huge_saved_cost_escapes_witness:
  "parse_upstream_operation_observation sample_query
     (sample_answer [(''cost'', VNum (PyFloat (1 / 4))), (''cost_saved'', VNum (PyInt (2 ^ 1024)))]) = Inl OpOverflow"
proof -
  have "parse_upstream_operation_observation sample_query (sample_answer [(''cost'', VNum (PyFloat (1 / 4)))]) =
      Inr (sample_observed (1 / 4) SrcUpstream)"
    by (simp add: parse_upstream_operation_observation_def sample_upstream)
  from huge_saved_cost_escapes[OF this,
      where u = "[(''prompt_tokens'', VNum (PyInt 10)), (''cost'', VNum (PyFloat (1 / 4)))]"
        and u' = "[(''prompt_tokens'', VNum (PyInt 10)), (''cost'', VNum (PyFloat (1 / 4))),
            (''cost_saved'', VNum (PyInt (2 ^ 1024)))]" and n = "2 ^ 1024"]
  show ?thesis
    by (simp add: usage_mapping_def sample_answer_def usage_value_def agree_except_def present_def float_overflow_def)
qed

definition sample_context :: request_context where
  "sample_context = \<lparr>cx_method = ''POST'', cx_route = ''/v1/embeddings'', cx_policy = pol ''embeddings'' UnitToken,
     cx_request_id = ''req-1'', cx_reservation = \<lparr>rv_reservation_id = ''rsv-1'', rv_request_id = ''req-1'',
       rv_api_key_id = Some 7, rv_reserved_usd = 1 / 10\<rparr>, cx_parent_event_id = None, cx_x_title = None\<rparr>"

lemma sample_context_made: "make_request_context sample_context = Some sample_context"
  by code_simp

end
