(* ===== verification/Operation_Owner.thy ===== *)
theory Operation_Owner
  imports Operation_Accounting
begin

text \<open>
  Who settles a reservation (\<open>api/v1/operation_accounting.py\<close>: \<open>OperationTerminalOwner\<close>;
  \<open>middleware/response_observation_contracts.py\<close>: \<open>ResponseFinalizer\<close>). The request handler binds what
  the upstream answered, the response layer classifies the response and finalises it, and the
  finaliser's task commits the charge or releases the reservation.

  The calls run in tasks of one event loop and are cut at their suspension points: a commit and a
  release begin, wait for the accounting service, and end with whatever it answered. The service is
  a parameter: its answers are inputs of the steps, its calls are recorded.
\<close>

section \<open>State\<close>

datatype owner_phase = OwnerOpen | OwnerCommitting | OwnerReleasing | OwnerClosed

datatype terminal_reason =
  ReasonComplete | ReasonUpstreamError | ReasonClientDisconnect | ReasonCancelled | ReasonProtocolError | ReasonEmpty

record terminal_owner =
  oo_context :: request_context
  oo_provenance :: "provenance option"
  oo_released_without_charge :: bool
  oo_state :: owner_phase
  oo_streaming :: bool
  oo_terminal :: "observation option"
  oo_transport_finished :: bool
  oo_commits :: "event list"
  oo_releases :: nat
  oo_finished :: nat

text \<open>How a call ends: it returns, it raises an accounting error, or it waits for the service.\<close>

datatype call_result = CallReturned | CallRaised | CallWaiting

definition new_owner :: "request_context \<Rightarrow> terminal_owner" where
  "new_owner cx = \<lparr>oo_context = cx, oo_provenance = None, oo_released_without_charge = False,
     oo_state = OwnerOpen, oo_streaming = False, oo_terminal = None, oo_transport_finished = False,
     oo_commits = [], oo_releases = 0, oo_finished = 0\<rparr>"

section \<open>Commit and release\<close>

definition commit_begin :: "observation \<Rightarrow> terminal_owner \<Rightarrow> terminal_owner \<times> call_result" where
  "commit_begin ob s =
     (if oo_state s \<noteq> OwnerOpen then (s, CallRaised)
      else case build_operation_event (oo_context s) ob (oo_provenance s) of
        None \<Rightarrow> (s, CallRaised)
      | Some e \<Rightarrow> (s\<lparr>oo_state := OwnerCommitting, oo_commits := oo_commits s @ [e]\<rparr>, CallWaiting))"

definition commit_end :: "terminal_owner \<Rightarrow> terminal_owner" where
  "commit_end s = (if oo_state s = OwnerCommitting then s\<lparr>oo_state := OwnerClosed\<rparr> else s)"

definition release_begin :: "terminal_owner \<Rightarrow> terminal_owner \<times> call_result" where
  "release_begin s =
     (if oo_state s \<noteq> OwnerOpen then (s, CallRaised)
      else (s\<lparr>oo_state := OwnerReleasing, oo_releases := oo_releases s + 1\<rparr>, CallWaiting))"

text \<open>The service answered \<open>True\<close>, or something else, or raised.\<close>

definition release_end :: "bool \<Rightarrow> terminal_owner \<Rightarrow> terminal_owner" where
  "release_end released s =
     (if oo_state s = OwnerReleasing
      then s\<lparr>oo_released_without_charge := oo_released_without_charge s \<or> released, oo_state := OwnerClosed\<rparr>
      else s)"

definition release_if_open :: "terminal_owner \<Rightarrow> terminal_owner \<times> call_result" where
  "release_if_open s = (if oo_state s = OwnerOpen then release_begin s else (s, CallReturned))"

section \<open>What the handler calls\<close>

definition bind_terminal :: "observation \<Rightarrow> provenance option \<Rightarrow> terminal_owner \<Rightarrow> terminal_owner \<times> call_result" where
  "bind_terminal ob pv s =
     (if oo_state s \<noteq> OwnerOpen \<or> oo_terminal s \<noteq> None \<or> oo_streaming s then (s, CallRaised)
      else (s\<lparr>oo_terminal := Some ob, oo_provenance := pv\<rparr>, CallReturned))"

definition bind_stream :: "provenance option \<Rightarrow> terminal_owner \<Rightarrow> terminal_owner \<times> call_result" where
  "bind_stream pv s =
     (if oo_state s \<noteq> OwnerOpen \<or> oo_streaming s \<or> oo_terminal s \<noteq> None then (s, CallRaised)
      else (s\<lparr>oo_streaming := True, oo_provenance := pv\<rparr>, CallReturned))"

definition finalize_buffered :: "observation \<Rightarrow> provenance option \<Rightarrow> terminal_owner \<Rightarrow> terminal_owner \<times> call_result" where
  "finalize_buffered ob pv s =
     (if oo_state s \<noteq> OwnerOpen then (s, CallRaised)
      else case bind_terminal ob pv s of
        (s', CallReturned) \<Rightarrow> (s', CallReturned)
      | (s', _) \<Rightarrow> (fst (release_if_open s'), CallRaised))"

section \<open>What the response layer calls\<close>

definition status_valid :: "int \<Rightarrow> bool" where
  "status_valid status \<longleftrightarrow> 100 \<le> status \<and> status \<le> 599"

definition classify_bound :: "int \<Rightarrow> terminal_owner \<Rightarrow> terminal_reason option" where
  "classify_bound status s =
     (if \<not> status_valid status then None
      else if status \<ge> 400 then Some ReasonUpstreamError
      else if oo_terminal s = None \<and> \<not> oo_released_without_charge s then Some ReasonProtocolError
      else Some ReasonComplete)"

text \<open>What the bound observer makes of an event: an exception, nothing yet, or the final observation.\<close>

datatype observer_result = ObserverRaises | ObserverWaits | ObserverDone observation

text \<open>An error (\<open>Inl\<close>), or a reason once the stream is over.\<close>

definition classify_sse :: "int \<Rightarrow> observer_result \<Rightarrow> terminal_owner \<Rightarrow> terminal_owner \<times> (unit + terminal_reason option)" where
  "classify_sse status seen s =
     (if \<not> status_valid status then (s, Inl ())
      else if status \<ge> 400 then (s, Inr (Some ReasonUpstreamError))
      else if \<not> oo_streaming s then (s, Inl ())
      else case seen of
        ObserverRaises \<Rightarrow> (s, Inl ())
      | ObserverWaits \<Rightarrow> (s, Inr None)
      | ObserverDone ob \<Rightarrow>
          if oo_terminal s \<noteq> None then (s, Inl ())
          else (s\<lparr>oo_terminal := Some ob\<rparr>, Inr (Some ReasonComplete)))"

text \<open>The callback of the finaliser, up to its first suspension.\<close>

definition finalize_owner :: "terminal_reason \<Rightarrow> terminal_owner \<Rightarrow> terminal_owner \<times> call_result" where
  "finalize_owner reason s =
     (if reason = ReasonComplete
      then case oo_terminal s of
        Some ob \<Rightarrow>
          (case commit_begin ob s of
             (s', CallWaiting) \<Rightarrow> (s', CallWaiting)
           | (s', _) \<Rightarrow> (fst (release_if_open s'), CallRaised))
      | None \<Rightarrow> if oo_released_without_charge s then (s, CallReturned) else (s, CallRaised)
      else release_if_open s)"

definition finish_transport :: "terminal_owner \<Rightarrow> terminal_owner" where
  "finish_transport s =
     (if oo_transport_finished s then s
      else s\<lparr>oo_transport_finished := True, oo_finished := oo_finished s + 1\<rparr>)"

section \<open>The finaliser\<close>

record finalizer =
  fin_signal :: "terminal_reason option"
  fin_task :: bool
  fin_creation_error :: bool
  fin_ran :: bool

definition new_finalizer :: finalizer where
  "new_finalizer = \<lparr>fin_signal = None, fin_task = False, fin_creation_error = False, fin_ran = False\<rparr>"

text \<open>The first signal starts the task, if the supervisor accepts it; later callers join it. When no task
  can be made, the owner's abort runs and the error is raised now and for every later caller.\<close>

definition finalize :: "terminal_reason \<Rightarrow> bool \<Rightarrow> terminal_owner \<times> finalizer \<Rightarrow> terminal_owner \<times> finalizer" where
  "finalize reason accepts x = (case x of (s, f) \<Rightarrow>
     if fin_creation_error f \<or> fin_task f then (s, f)
     else if accepts then (s, f\<lparr>fin_signal := Some reason, fin_task := True\<rparr>)
     else (fst (release_if_open s), f\<lparr>fin_signal := Some reason, fin_creation_error := True\<rparr>))"

definition run_task :: "terminal_owner \<times> finalizer \<Rightarrow> terminal_owner \<times> finalizer" where
  "run_task x = (case x of (s, f) \<Rightarrow>
     if fin_task f \<and> \<not> fin_ran f
     then (fst (finalize_owner (the (fin_signal f)) s), f\<lparr>fin_ran := True\<rparr>)
     else (s, f))"

section \<open>Interleavings\<close>

text \<open>The response layer finalises with the reason of a classification, or with one of its own
  failures, which is never \<open>ReasonComplete\<close>. A refused classification is a protocol error.\<close>

datatype owner_input =
  HandlerReleases
| HandlerReleasesIfOpen
| HandlerBinds observation "provenance option"
| HandlerStreams "provenance option"
| ResponseClassified int bool
| StreamEvent int observer_result bool
| ResponseFails terminal_reason bool
| TaskRuns
| CommitAnswered
| ReleaseAnswered bool
| TransportFinishes

definition settle_with :: "terminal_reason option \<Rightarrow> bool \<Rightarrow> terminal_owner \<times> finalizer \<Rightarrow> terminal_owner \<times> finalizer" where
  "settle_with reason accepts x =
     finalize (case reason of None \<Rightarrow> ReasonProtocolError | Some r \<Rightarrow> r) accepts x"

fun owner_step :: "owner_input \<Rightarrow> terminal_owner \<times> finalizer \<Rightarrow> terminal_owner \<times> finalizer" where
  "owner_step HandlerReleases (s, f) = (fst (release_begin s), f)"
| "owner_step HandlerReleasesIfOpen (s, f) = (fst (release_if_open s), f)"
| "owner_step (HandlerBinds ob pv) (s, f) = (fst (finalize_buffered ob pv s), f)"
| "owner_step (HandlerStreams pv) (s, f) = (fst (bind_stream pv s), f)"
| "owner_step (ResponseClassified status accepts) (s, f) = settle_with (classify_bound status s) accepts (s, f)"
| "owner_step (StreamEvent status seen accepts) (s, f) =
     (case classify_sse status seen s of
        (s', Inl _) \<Rightarrow> settle_with None accepts (s', f)
      | (s', Inr None) \<Rightarrow> (s', f)
      | (s', Inr (Some r)) \<Rightarrow> settle_with (Some r) accepts (s', f))"
| "owner_step (ResponseFails reason accepts) (s, f) =
     (if reason = ReasonComplete then (s, f) else settle_with (Some reason) accepts (s, f))"
| "owner_step TaskRuns (s, f) = run_task (s, f)"
| "owner_step CommitAnswered (s, f) = (commit_end s, f)"
| "owner_step (ReleaseAnswered released) (s, f) = (release_end released s, f)"
| "owner_step TransportFinishes (s, f) = (finish_transport s, f)"

section \<open>The invariant\<close>

definition settlement_ok :: "terminal_owner \<Rightarrow> bool" where
  "settlement_ok s \<longleftrightarrow>
     (oo_state s = OwnerOpen \<longrightarrow> oo_commits s = [] \<and> oo_releases s = 0 \<and> \<not> oo_released_without_charge s) \<and>
     (oo_state s = OwnerCommitting \<longrightarrow>
        length (oo_commits s) = 1 \<and> oo_releases s = 0 \<and> \<not> oo_released_without_charge s) \<and>
     (oo_state s = OwnerReleasing \<longrightarrow> oo_commits s = [] \<and> oo_releases s = 1 \<and> \<not> oo_released_without_charge s) \<and>
     (oo_state s = OwnerClosed \<longrightarrow>
        (length (oo_commits s) = 1 \<and> oo_releases s = 0 \<and> \<not> oo_released_without_charge s) \<or>
        (oo_commits s = [] \<and> oo_releases s = 1))"

definition charges_ok :: "request_context \<Rightarrow> terminal_owner \<Rightarrow> bool" where
  "charges_ok cx s \<longleftrightarrow> oo_context s = cx \<and>
     (\<forall>e\<in>set (oo_commits s). \<exists>ob. oo_terminal s = Some ob \<and> build_operation_event cx ob (oo_provenance s) = Some e)"

definition finalizer_ok :: "terminal_owner \<Rightarrow> finalizer \<Rightarrow> bool" where
  "finalizer_ok s f \<longleftrightarrow>
     (fin_ran f \<or> fin_creation_error f \<longrightarrow> oo_state s \<noteq> OwnerOpen) \<and>
     (fin_ran f \<longrightarrow> fin_task f) \<and> (fin_task f \<longrightarrow> fin_signal f \<noteq> None) \<and>
     (fin_signal f = Some ReasonComplete \<longrightarrow> oo_terminal s \<noteq> None \<or> oo_released_without_charge s)"

fun owner_ok :: "request_context \<Rightarrow> terminal_owner \<times> finalizer \<Rightarrow> bool" where
  "owner_ok cx (s, f) \<longleftrightarrow> settlement_ok s \<and> charges_ok cx s \<and> finalizer_ok s f"

lemmas owner_parts = settlement_ok_def charges_ok_def finalizer_ok_def

lemma release_begin_ok:
  assumes "owner_ok cx (s, f)"
  shows "owner_ok cx (fst (release_begin s), f)" "oo_state (fst (release_begin s)) \<noteq> OwnerOpen"
  using assms by (auto simp: release_begin_def owner_parts)

lemma release_if_open_ok:
  assumes "owner_ok cx (s, f)" "fst (release_if_open s) = s'"
  shows "owner_ok cx (s', f) \<and> oo_state s' \<noteq> OwnerOpen"
  using assms release_begin_ok[OF assms(1)] by (auto simp: release_if_open_def split: if_splits)

lemma commit_begin_ok:
  assumes "owner_ok cx (s, f)" "oo_terminal s = Some ob" "commit_begin ob s = (s', r)"
  shows "owner_ok cx (s', f) \<and> (r = CallWaiting \<longrightarrow> oo_state s' \<noteq> OwnerOpen)"
  using assms by (auto simp: commit_begin_def owner_parts split: if_splits option.splits)

lemma finalize_ok:
  assumes "owner_ok cx (s, f)" and "reason = ReasonComplete \<longrightarrow> oo_terminal s \<noteq> None \<or> oo_released_without_charge s"
  shows "owner_ok cx (finalize reason accepts (s, f))"
proof (cases "fin_creation_error f \<or> fin_task f \<or> accepts")
  case True
  then show ?thesis using assms by (auto simp: finalize_def finalizer_ok_def)
next
  case False
  obtain s' where s': "fst (release_if_open s) = s'" by blast
  have "oo_terminal s' = oo_terminal s \<and> oo_released_without_charge s' = oo_released_without_charge s"
    using s' by (auto simp: release_if_open_def release_begin_def split: if_splits)
  with release_if_open_ok[OF assms(1) s'] False assms(2) s' show ?thesis
    by (auto simp: finalize_def finalizer_ok_def)
qed

lemma run_task_ok:
  assumes ok: "owner_ok cx (s, f)"
  shows "owner_ok cx (run_task (s, f))"
proof (cases "fin_task f \<and> \<not> fin_ran f")
  case True
  then obtain r where r: "fin_signal f = Some r" using ok by (auto simp: finalizer_ok_def)
  have "owner_ok cx (fst (finalize_owner r s), f) \<and> oo_state (fst (finalize_owner r s)) \<noteq> OwnerOpen"
  proof (cases "r = ReasonComplete")
    case False
    then show ?thesis using release_if_open_ok[OF ok] by (simp add: finalize_owner_def)
  next
    case True
    show ?thesis
    proof (cases "oo_terminal s")
      case None
      with True r ok have "oo_released_without_charge s" by (auto simp: finalizer_ok_def)
      with None True ok show ?thesis
        by (auto simp: finalize_owner_def settlement_ok_def split: owner_phase.splits)
    next
      case (Some ob)
      obtain s' c where c: "commit_begin ob s = (s', c)" by (cases "commit_begin ob s")
      from commit_begin_ok[OF ok Some c] have ok': "owner_ok cx (s', f)" "c = CallWaiting \<Longrightarrow> oo_state s' \<noteq> OwnerOpen"
        by auto
      show ?thesis using True Some c ok' release_if_open_ok[OF ok'(1)]
        by (cases c) (simp_all add: finalize_owner_def)
    qed
  qed
  with r True show ?thesis by (auto simp: run_task_def finalizer_ok_def)
next
  case False
  then show ?thesis using ok by (auto simp: run_task_def)
qed

lemma classify_bound_complete:
  "classify_bound status s = Some ReasonComplete \<Longrightarrow> oo_terminal s \<noteq> None \<or> oo_released_without_charge s"
  by (auto simp: classify_bound_def split: if_splits)

lemma classify_sse_ok:
  assumes "owner_ok cx (s, f)" "classify_sse status seen s = (s', r)"
  shows "owner_ok cx (s', f) \<and> (r = Inr (Some ReasonComplete) \<longrightarrow> oo_terminal s' \<noteq> None)"
proof -
  consider "s' = s" "r \<noteq> Inr (Some ReasonComplete)" | ob where "s' = s\<lparr>oo_terminal := Some ob\<rparr>" "oo_terminal s = None"
    using assms(2) by (auto simp: classify_sse_def split: if_splits observer_result.splits)
  then show ?thesis using assms(1) by cases (auto simp: owner_parts)
qed

lemma owner_step_ok:
  assumes "owner_ok cx x"
  shows "owner_ok cx (owner_step i x)"
proof -
  obtain s f where x: "x = (s, f)" by (cases x)
  note ok = assms[unfolded x]
  show ?thesis
  proof (cases i)
    case HandlerReleases
    then show ?thesis using release_begin_ok(1)[OF ok] x by simp
  next
    case HandlerReleasesIfOpen
    then show ?thesis using release_if_open_ok[OF ok] x by simp
  next
    case (HandlerBinds ob pv)
    have "owner_ok cx (fst (bind_terminal ob pv s), f)"
      using ok by (auto simp: bind_terminal_def owner_parts)
    moreover have "owner_ok cx (fst (finalize_buffered ob pv s), f)"
    proof (cases "oo_state s \<noteq> OwnerOpen")
      case False
      obtain s' c where b: "bind_terminal ob pv s = (s', c)" by (cases "bind_terminal ob pv s")
      with calculation release_if_open_ok[of cx s' f] False show ?thesis
        by (cases c) (simp_all add: finalize_buffered_def)
    qed (use ok in \<open>simp add: finalize_buffered_def\<close>)
    ultimately show ?thesis using HandlerBinds x by simp
  next
    case (HandlerStreams pv)
    then show ?thesis using ok x by (auto simp: bind_stream_def owner_parts)
  next
    case (ResponseClassified status accepts)
    then show ?thesis using finalize_ok[OF ok] classify_bound_complete[of status s] x
      by (auto simp: settle_with_def split: option.splits)
  next
    case (StreamEvent status seen accepts)
    obtain s' r where c: "classify_sse status seen s = (s', r)" by (cases "classify_sse status seen s")
    from classify_sse_ok[OF ok c] have ok': "owner_ok cx (s', f)"
      "r = Inr (Some ReasonComplete) \<Longrightarrow> oo_terminal s' \<noteq> None" by auto
    show ?thesis using StreamEvent x c ok' finalize_ok[OF ok'(1)]
      by (auto simp: settle_with_def split: sum.split option.split)
  next
    case (ResponseFails reason accepts)
    then show ?thesis using finalize_ok[OF ok] ok x by (auto simp: settle_with_def)
  next
    case TaskRuns
    then show ?thesis using run_task_ok[OF ok] x by simp
  next
    case CommitAnswered
    then show ?thesis using ok x by (auto simp: commit_end_def owner_parts)
  next
    case (ReleaseAnswered released)
    then show ?thesis using ok x by (auto simp: release_end_def owner_parts)
  next
    case TransportFinishes
    then show ?thesis using ok x by (auto simp: finish_transport_def owner_parts)
  qed
qed

interpretation owner_run: step_machine owner_step "owner_ok cx"
  by unfold_locales (rule owner_step_ok)

lemma new_owner_ok: "owner_ok cx (new_owner cx, new_finalizer)"
  by (simp add: owner_parts new_owner_def new_finalizer_def)

section \<open>Properties\<close>

text \<open>C12: A reservation is settled exactly once. However the handler, the response layer, the
  finaliser's task and the answers of the accounting service interleave, at most one commit or
  release reaches the service, one has reached it as soon as the finaliser's task ran or could not
  be created, and what is committed is the event built from the observation bound to the response.\<close>

theorem owner_settles_once:
  assumes "fold owner_step xs (new_owner cx, new_finalizer) = (s, f)"
  shows "length (oo_commits s) + oo_releases s \<le> 1 \<and>
         (fin_ran f \<or> fin_creation_error f \<longrightarrow> length (oo_commits s) + oo_releases s = 1) \<and>
         (\<forall>e\<in>set (oo_commits s). \<exists>ob. oo_terminal s = Some ob \<and>
            build_operation_event cx ob (oo_provenance s) = Some e)"
proof -
  have "owner_ok cx (s, f)" using owner_run.run_invar[OF new_owner_ok[of cx], of xs] assms by simp
  then show ?thesis by (cases "oo_state s") (auto simp: owner_parts)
qed

text \<open>C26: A caller with a long title is served and not charged. Admission accepts a request whatever
  its title header is, as long as the rest of its context is accepted. When the stripped title is
  longer than the 512 bytes an event may hold, no run of its owner commits a charge, whatever the
  upstream answered and charged; once the response is finalised the reservation is released.\<close>

theorem long_title_never_charged:
  assumes "make_request_context a = Some cx0" and "encoded_length (py_strip header) > 512"
  shows "\<exists>cx. make_request_context (a\<lparr>cx_x_title := extract_request_x_title (Some header)\<rparr>) = Some cx \<and>
     (\<forall>xs. case fold owner_step xs (new_owner cx, new_finalizer) of
        (s, f) \<Rightarrow> oo_commits s = [] \<and> (fin_ran f \<longrightarrow> oo_releases s = 1))"
proof -
  obtain cx where cx: "make_request_context (a\<lparr>cx_x_title := extract_request_x_title (Some header)\<rparr>) = Some cx"
    "\<forall>ob pv. build_operation_event cx ob pv = None"
    using long_title_no_event[OF assms(1), of header] assms(2) by blast
  have "oo_commits s = [] \<and> (fin_ran f \<longrightarrow> oo_releases s = 1)"
    if "fold owner_step xs (new_owner cx, new_finalizer) = (s, f)" for xs s f
  proof -
    have ok: "owner_ok cx (s, f)" using owner_run.run_invar[OF new_owner_ok[of cx], of xs] that by simp
    then have "oo_commits s = []" using cx(2) by (auto simp: charges_ok_def neq_Nil_conv)
    with ok show ?thesis by (cases "oo_state s") (auto simp: owner_parts)
  qed
  with cx(1) show ?thesis by (auto split: prod.split)
qed

text \<open>Concrete inputs.\<close>

definition sample_served :: "owner_input list" where
  "sample_served = [HandlerBinds (sample_observed (1 / 4) SrcUpstream) None, ResponseClassified 200 True, TaskRuns]"

theorem owner_settles_once_witness:
  "case fold owner_step sample_served (new_owner sample_context, new_finalizer) of
     (s, f) \<Rightarrow> map (us_cost \<circ> ev_usage) (oo_commits s) = [1 / 4] \<and> oo_releases s = 0"
proof -
  obtain s f where r: "fold owner_step sample_served (new_owner sample_context, new_finalizer) = (s, f)"
    by (cases "fold owner_step sample_served (new_owner sample_context, new_finalizer)")
  have "map (us_cost \<circ> ev_usage) (oo_commits (fst (fold owner_step sample_served (new_owner sample_context, new_finalizer)))) = [1 / 4]"
    by code_simp
  then have c: "map (us_cost \<circ> ev_usage) (oo_commits s) = [1 / 4]" using r by simp
  then have "length (oo_commits s) = 1" by (metis length_map length_Cons list.size(3) One_nat_def)
  with owner_settles_once[OF r] c r show ?thesis by simp
qed

theorem long_title_never_charged_witness:
  "\<exists>cx. make_request_context (sample_context\<lparr>cx_x_title := extract_request_x_title (Some (replicate 600 CHR ''x''))\<rparr>) = Some cx \<and>
     (case fold owner_step sample_served (new_owner cx, new_finalizer) of
        (s, f) \<Rightarrow> oo_commits s = [] \<and> oo_releases s = 1)"
proof -
  have "encoded_length (py_strip (replicate 600 CHR ''x'')) = 600" by code_simp
  then have l: "512 < encoded_length (py_strip (replicate 600 CHR ''x''))" by simp
  have ran: "fin_ran (snd (fold owner_step sample_served (new_owner cx, new_finalizer)))" for cx
    by (simp add: sample_served_def new_owner_def new_finalizer_def finalize_buffered_def bind_terminal_def
        classify_bound_def status_valid_def settle_with_def finalize_def run_task_def)
  obtain cx where cx: "make_request_context (sample_context\<lparr>cx_x_title :=
      extract_request_x_title (Some (replicate 600 CHR ''x''))\<rparr>) = Some cx"
    "\<forall>xs. case fold owner_step xs (new_owner cx, new_finalizer) of
        (s, f) \<Rightarrow> oo_commits s = [] \<and> (fin_ran f \<longrightarrow> oo_releases s = 1)"
    using long_title_never_charged[OF sample_context_made l] by blast
  from spec[OF cx(2), of sample_served] ran[of cx] have "case fold owner_step sample_served (new_owner cx, new_finalizer) of
      (s, f) \<Rightarrow> oo_commits s = [] \<and> oo_releases s = 1"
    by (cases "fold owner_step sample_served (new_owner cx, new_finalizer)") simp
  with cx(1) show ?thesis by (intro exI[of _ cx] conjI)
qed

end
