(* ===== verification/Accounting_Gate.thy ===== *)
theory Accounting_Gate
  imports Accounting_Contracts "HOL-Library.Char_ord" "HOL-Library.List_Lexorder"
begin

text \<open>
  The admission gate of the accounting service (\<open>services/accounting_service.py\<close>): its health
  state, the errors it has recorded, and the three collections of events that are not settled yet
  (retained for a retry, on their way to the source, accepted but not projected).

  \<open>fp\<close> is the billing fingerprint of an event (SHA-256 of its canonical JSON), a parameter. A clock
  reading holds the monotonic time of the rate limiter and the wall clock, \<open>None\<close> when reading it
  raises. Everything the code does under \<open>_state_guard\<close> is one step.
\<close>

section \<open>Results of calls\<close>

text \<open>
  A call returns, raises an \<open>AccountingError\<close> with its code, or raises another exception
  (\<open>Broke\<close>). The same type holds the answers of the repositories. \<open>then_do\<close> is sequencing: an
  exception skips the rest and keeps the state reached.
\<close>

datatype 'a answer = Answered 'a | Refused accounting_code | Broke

definition then_do :: "'s \<times> 'a answer \<Rightarrow> ('s \<Rightarrow> 'a \<Rightarrow> 's \<times> 'b answer) \<Rightarrow> 's \<times> 'b answer" where
  "then_do r f = (case r of
     (s, Answered x) \<Rightarrow> f s x
   | (s, Refused c) \<Rightarrow> (s, Refused c)
   | (s, Broke) \<Rightarrow> (s, Broke))"

lemma then_do_simps [simp]:
  "then_do (s, Answered x) f = f s x"
  "then_do (s, Refused c) f = (s, Refused c)"
  "then_do (s, Broke) f = (s, Broke)"
  by (simp_all add: then_do_def)

text \<open>A property of states that every part of a sequence keeps.\<close>

lemma then_do_invariant:
  assumes "P (fst r)" and "\<And>s x. r = (s, Answered x) \<Longrightarrow> P (fst (f s x))"
  shows "P (fst (then_do r f))"
  using assms by (cases r; cases "snd r") auto

definition answer_of_option :: "'a option \<Rightarrow> 'a answer" where
  "answer_of_option v = (case v of None \<Rightarrow> Refused CodeInvalidContract | Some x \<Rightarrow> Answered x)"

section \<open>Codes\<close>

definition PERMANENT_CODES :: "accounting_code list" where
  "PERMANENT_CODES = [CodeInvalidContract, CodeFingerprintConflict, CodeOrphanSource, CodeOrphanSink,
     CodeSchemaMismatch]"

definition TOLERATED_SINK_CODES :: "accounting_code list" where
  "TOLERATED_SINK_CODES = [CodeOrphanSink, CodeFingerprintConflict]"

abbreviation permanent_code :: "accounting_code \<Rightarrow> bool" where
  "permanent_code c \<equiv> c \<in> set PERMANENT_CODES"

section \<open>Argument checks\<close>

text \<open>\<open>float(value)\<close> of a huge integer raises \<open>OverflowError\<close>, which is no accounting error.\<close>

fun positive_integer :: "py_num \<Rightarrow> int answer" where
  "positive_integer (PyInt n) = (if n \<le> 0 then Refused CodeInvalidContract else Answered n)"
| "positive_integer _ = Refused CodeInvalidContract"

fun positive_float :: "py_num \<Rightarrow> rat answer" where
  "positive_float (PyInt n) =
     (if float_overflow (of_int n) then Broke
      else if n \<le> 0 then Refused CodeInvalidContract else Answered (of_int n))"
| "positive_float (PyFloat x) = (if x \<le> 0 then Refused CodeInvalidContract else Answered x)"
| "positive_float _ = Refused CodeInvalidContract"

fun non_negative_float :: "py_num \<Rightarrow> rat answer" where
  "non_negative_float (PyInt n) =
     (if float_overflow (of_int n) then Broke
      else if n < 0 then Refused CodeInvalidContract else Answered (of_int n))"
| "non_negative_float (PyFloat x) = (if x < 0 then Refused CodeInvalidContract else Answered x)"
| "non_negative_float _ = Refused CodeInvalidContract"

definition optional_arg :: "('a \<Rightarrow> 'b answer) \<Rightarrow> 'a option \<Rightarrow> 'b option answer" where
  "optional_arg f v = (case v of
     None \<Rightarrow> Answered None
   | Some x \<Rightarrow> (case f x of
       Answered y \<Rightarrow> Answered (Some y) | Refused c \<Rightarrow> Refused c | Broke \<Rightarrow> Broke))"

definition optional_non_negative_float :: "py_num option \<Rightarrow> rat option answer" where
  "optional_non_negative_float = optional_arg non_negative_float"

definition optional_positive_int :: "py_num option \<Rightarrow> int option answer" where
  "optional_positive_int = optional_arg positive_integer"

lemma non_negative_float_ge: "non_negative_float v = Answered x \<Longrightarrow> 0 \<le> x"
  by (cases v) (auto split: if_splits)

section \<open>State\<close>

type_synonym event_key = "string \<times> string"

record clock =
  ck_mono :: time
  ck_wall :: "py_datetime option"

record acceptance =
  acc_status :: source_status
  acc_stored :: stored_event

text \<open>\<open>gt_pending\<close> is a set in the code: a list without repetitions here.\<close>

record gate =
  gt_state :: accounting_health_state
  gt_initialized :: bool
  gt_accepting :: bool
  gt_retained :: "(event_key, event) dict"
  gt_inflight :: "(event_key, int) dict"
  gt_pending :: "event_key list"
  gt_attempts :: int
  gt_conflicts :: int
  gt_source_orphans :: int
  gt_sink_orphans :: int
  gt_last_error :: "accounting_code option"
  gt_last_error_at :: "py_datetime option"
  gt_fatal :: "accounting_code option"
  gt_last_full :: "reconciliation_report option"
  gt_max_retained :: int
  gt_batch_size :: int
  gt_wake :: bool

definition new_gate :: "int \<Rightarrow> int \<Rightarrow> gate" where
  "new_gate max_retained batch_size = \<lparr>gt_state = HNew, gt_initialized = False, gt_accepting = False,
     gt_retained = [], gt_inflight = [], gt_pending = [], gt_attempts = 0, gt_conflicts = 0,
     gt_source_orphans = 0, gt_sink_orphans = 0, gt_last_error = None, gt_last_error_at = None,
     gt_fatal = None, gt_last_full = None, gt_max_retained = max_retained,
     gt_batch_size = batch_size, gt_wake = False\<rparr>"

section \<open>Health\<close>

definition set_state :: "accounting_health_state \<Rightarrow> bool \<Rightarrow> bool option \<Rightarrow> gate \<Rightarrow> gate" where
  "set_state st accepting initialized g =
     (let g1 = g\<lparr>gt_state := st, gt_accepting := accepting\<rparr>
      in case initialized of None \<Rightarrow> g1 | Some b \<Rightarrow> g1\<lparr>gt_initialized := b\<rparr>)"

definition count_error :: "accounting_code \<Rightarrow> gate \<Rightarrow> gate" where
  "count_error c g =
     (if c = CodeFingerprintConflict then g\<lparr>gt_conflicts := gt_conflicts g + 1\<rparr>
      else if c = CodeOrphanSource then g\<lparr>gt_source_orphans := gt_source_orphans g + 1\<rparr>
      else if c = CodeOrphanSink then g\<lparr>gt_sink_orphans := gt_sink_orphans g + 1\<rparr>
      else g)"

definition record_error :: "clock \<Rightarrow> accounting_code \<Rightarrow> bool \<Rightarrow> bool \<Rightarrow> gate \<Rightarrow> gate" where
  "record_error ck c permanent block g =
     (let g1 = count_error c (g\<lparr>gt_last_error := Some c, gt_last_error_at := ck_wall ck\<rparr>)
      in if permanent
         then g1\<lparr>gt_fatal := Some c, gt_state := HFailed, gt_accepting := False\<rparr>
         else if block \<and> gt_state g1 \<notin> {HStopping, HStopped, HFailed}
         then g1\<lparr>gt_state := HBlocked, gt_accepting := False\<rparr>
         else g1)"

text \<open>The common call: permanent exactly when the code is.\<close>

definition record_code :: "clock \<Rightarrow> accounting_code \<Rightarrow> gate \<Rightarrow> gate" where
  "record_code ck c g = record_error ck c (permanent_code c) True g"

definition unsettled_keys :: "gate \<Rightarrow> event_key list" where
  "unsettled_keys g = remdups (dict_keys (gt_retained g) @ dict_keys (gt_inflight g) @ gt_pending g)"

definition unsettled_count :: "gate \<Rightarrow> int" where
  "unsettled_count g = int (length (unsettled_keys g))"

definition clear_transient_block :: "gate \<Rightarrow> gate" where
  "clear_transient_block g =
     (if gt_state g = HBlocked \<and> gt_fatal g = None \<and> unsettled_count g = 0
      then g\<lparr>gt_state := HRunning, gt_accepting := True\<rparr> else g)"

definition has_fatal_error :: "gate \<Rightarrow> bool" where
  "has_fatal_error g \<longleftrightarrow> gt_fatal g \<noteq> None"

definition gate_health :: "gate \<Rightarrow> int \<Rightarrow> int \<Rightarrow> int \<Rightarrow> accounting_health option" where
  "gate_health g active active_limit reset_pending =
     make_health \<lparr>ah_state = gt_state g, ah_initialized = gt_initialized g, ah_accepting = gt_accepting g,
       ah_active_sessions = active, ah_active_session_limit = active_limit,
       ah_reset_pending_keys = reset_pending, ah_pending_source_events = unsettled_count g,
       ah_projection_attempts = gt_attempts g, ah_fingerprint_conflicts = gt_conflicts g,
       ah_source_orphans = gt_source_orphans g, ah_sink_orphans = gt_sink_orphans g,
       ah_unrolled_children = (case gt_last_full g of None \<Rightarrow> 0 | Some r \<Rightarrow> rr_unrolled_children r),
       ah_oldest_pending_at = None, ah_last_full = gt_last_full g, ah_last_error = gt_last_error g,
       ah_last_error_at = gt_last_error_at g\<rparr>"

definition publish_full_reconciliation :: "reconciliation_report \<Rightarrow> gate \<Rightarrow> gate \<times> reconciliation_report answer" where
  "publish_full_reconciliation r g =
     (if \<not> report_full r then (g, Refused CodeInvalidContract)
      else (g\<lparr>gt_last_full := Some r\<rparr>, Answered r))"

section \<open>Unsettled events\<close>

definition pending_key :: "(event \<Rightarrow> string) \<Rightarrow> stored_event \<Rightarrow> event_key" where
  "pending_key fp st = (ev_event_id (st_event st), fp (st_event st))"

definition validate_source_result :: "(event \<Rightarrow> string) \<Rightarrow> acceptance option \<Rightarrow> event_key \<Rightarrow> acceptance answer" where
  "validate_source_result fp result expected = (case result of
     None \<Rightarrow> Refused CodeInvalidContract
   | Some acc \<Rightarrow> (if pending_key fp (acc_stored acc) \<noteq> expected then Refused CodeInvalidContract
       else Answered acc))"

definition validate_projection_mark :: "projection_mark option \<Rightarrow> event_key \<Rightarrow> bool \<Rightarrow> projection_mark answer" where
  "validate_projection_mark mark expected require_projected = (case mark of
     None \<Rightarrow> Refused CodeInvalidContract
   | Some m \<Rightarrow> (if (pm_event_id m, pm_fingerprint m) \<noteq> expected \<or> (require_projected \<and> pm_projected_at m = None)
       then Refused CodeInvalidContract else Answered m))"

text \<open>Cursors of the pending listing: creation time, then event identifier.\<close>

fun cursor_less :: "py_datetime \<times> string \<Rightarrow> py_datetime \<times> string \<Rightarrow> bool" where
  "cursor_less (Instant s, i) (Instant t, j) = (s < t \<or> (s = t \<and> i < j))"
| "cursor_less _ _ = False"

definition cursor_of :: "stored_event \<Rightarrow> py_datetime \<times> string" where
  "cursor_of st = (st_created_at st, ev_event_id (st_event st))"

fun pending_rows_ok :: "(py_datetime \<times> string) option \<Rightarrow> stored_event list \<Rightarrow> bool" where
  "pending_rows_ok previous [] = True"
| "pending_rows_ok previous (st # rows) =
     (st_projected_at st = None \<and>
      (case previous of None \<Rightarrow> True | Some c \<Rightarrow> cursor_less c (cursor_of st)) \<and>
      pending_rows_ok (Some (cursor_of st)) rows)"

definition validate_pending_page :: "int \<Rightarrow> stored_event list option \<Rightarrow> (py_datetime \<times> string) option \<Rightarrow>
    stored_event list answer" where
  "validate_pending_page batch_size rows after = (case rows of
     None \<Rightarrow> Refused CodeInvalidContract
   | Some xs \<Rightarrow> (if int (length xs) \<le> batch_size \<and> pending_rows_ok after xs then Answered xs
       else Refused CodeInvalidContract))"

text \<open>A new key needs room among the unsettled ones.\<close>

definition event_fits :: "event_key \<Rightarrow> gate \<Rightarrow> bool" where
  "event_fits k g \<longleftrightarrow> \<not> (dict_get (gt_retained g) k = None \<and> dict_get (gt_inflight g) k = None \<and>
     k \<notin> set (gt_pending g) \<and> unsettled_count g \<ge> gt_max_retained g)"

definition mark_pending :: "(event \<Rightarrow> string) \<Rightarrow> stored_event \<Rightarrow> gate \<Rightarrow> gate \<times> unit answer" where
  "mark_pending fp st g =
     (if \<not> event_fits (pending_key fp st) g then (g, Refused CodeAccountingFailed)
      else (g\<lparr>gt_pending := List.insert (pending_key fp st) (gt_pending g)\<rparr>, Answered ()))"

definition clear_pending :: "(event \<Rightarrow> string) \<Rightarrow> stored_event \<Rightarrow> gate \<Rightarrow> gate" where
  "clear_pending fp st g =
     clear_transient_block (g\<lparr>gt_pending := removeAll (pending_key fp st) (gt_pending g)\<rparr>)"

text \<open>\<open>_source_inflight\<close> counts the owners of a key; releasing one that is not there is \<open>KeyError\<close>.\<close>

definition take_source_owner :: "event_key \<Rightarrow> gate \<Rightarrow> gate" where
  "take_source_owner k g = g\<lparr>gt_inflight := dict_set k (dict_default 0 (gt_inflight g) k + 1) (gt_inflight g)\<rparr>"

definition release_source_owner :: "event_key \<Rightarrow> gate \<Rightarrow> gate \<times> unit answer" where
  "release_source_owner k g = (case dict_get (gt_inflight g) k of
     None \<Rightarrow> (g, Broke)
   | Some n \<Rightarrow> (g\<lparr>gt_inflight := (if n = 1 then dict_pop k (gt_inflight g)
                               else dict_set k (n - 1) (gt_inflight g))\<rparr>, Answered ()))"

text \<open>\<open>self._retained.setdefault(key, event)\<close>\<close>

definition retain_event :: "event_key \<Rightarrow> event \<Rightarrow> gate \<Rightarrow> gate" where
  "retain_event k e g = g\<lparr>gt_retained := dict_touch e k (gt_retained g)\<rparr>"

definition accept_source_result :: "(event \<Rightarrow> string) \<Rightarrow> event_key \<Rightarrow> stored_event \<Rightarrow> bool \<Rightarrow> gate \<Rightarrow> gate \<times> unit answer" where
  "accept_source_result fp k st source_owner g =
     then_do (if source_owner then release_source_owner k g else (g, Answered ())) (\<lambda>g1 _.
       let pk = pending_key fp st;
           g2 = g1\<lparr>gt_retained := dict_pop k (gt_retained g1)\<rparr>;
           g3 = g2\<lparr>gt_pending := (if st_projected_at st = None then List.insert pk (gt_pending g2)
                                  else removeAll pk (gt_pending g2))\<rparr>
       in (clear_transient_block g3, Answered ()))"

definition finish_source_failure :: "event_key \<Rightarrow> event \<Rightarrow> bool \<Rightarrow> gate \<Rightarrow> gate \<times> unit answer" where
  "finish_source_failure k e retain_for_retry g =
     then_do (release_source_owner k g) (\<lambda>g1 _.
       (if retain_for_retry then retain_event k e g1
        else g1\<lparr>gt_retained := dict_pop k (gt_retained g1)\<rparr>, Answered ()))"

section \<open>The latch\<close>

text \<open>
  The gate accepts only in the running state, and no state before a failure carries a fatal error.
  A fatal error is never forgotten and never leaves the gate accepting.
\<close>

definition gate_ok :: "gate \<Rightarrow> bool" where
  "gate_ok g \<longleftrightarrow> (gt_accepting g \<longrightarrow> gt_state g = HRunning) \<and>
     (gt_state g \<in> {HNew, HStarting, HRunning} \<longrightarrow> gt_fatal g = None)"

definition fatal_kept :: "gate \<Rightarrow> gate \<Rightarrow> bool" where
  "fatal_kept g g' \<longleftrightarrow> (gt_fatal g \<noteq> None \<longrightarrow> gt_fatal g' \<noteq> None)"

named_theorems gate_ok_intros \<open>gate operations keep the gate invariant\<close>
named_theorems fatal_intros \<open>gate operations keep a fatal error\<close>

lemma fatal_kept_refl [fatal_intros, simp]: "fatal_kept g g"
  by (simp add: fatal_kept_def)

lemma fatal_kept_trans: "fatal_kept g g' \<Longrightarrow> fatal_kept g' g'' \<Longrightarrow> fatal_kept g g''"
  by (simp add: fatal_kept_def)

lemma count_error_simps [simp]:
  "gt_state (count_error c g) = gt_state g" "gt_accepting (count_error c g) = gt_accepting g"
  "gt_fatal (count_error c g) = gt_fatal g" "gt_initialized (count_error c g) = gt_initialized g"
  "gt_retained (count_error c g) = gt_retained g" "gt_inflight (count_error c g) = gt_inflight g"
  "gt_pending (count_error c g) = gt_pending g" "gt_max_retained (count_error c g) = gt_max_retained g"
  by (simp_all add: count_error_def)

lemma record_error_events [simp]:
  "gt_retained (record_error ck c p b g) = gt_retained g" "gt_inflight (record_error ck c p b g) = gt_inflight g"
  "gt_pending (record_error ck c p b g) = gt_pending g" "gt_max_retained (record_error ck c p b g) = gt_max_retained g"
  "gt_initialized (record_error ck c p b g) = gt_initialized g"
  by (simp_all add: record_error_def Let_def)

lemma gate_ok_record_error [gate_ok_intros]: "gate_ok g \<Longrightarrow> gate_ok (record_error ck c p b g)"
  by (simp add: gate_ok_def record_error_def Let_def)

lemma gate_ok_record_code [gate_ok_intros]: "gate_ok g \<Longrightarrow> gate_ok (record_code ck c g)"
  by (simp add: record_code_def gate_ok_intros)

lemma gate_ok_clear [gate_ok_intros]: "gate_ok g \<Longrightarrow> gate_ok (clear_transient_block g)"
  by (simp add: gate_ok_def clear_transient_block_def)

lemma fatal_record_error [fatal_intros]: "fatal_kept g (record_error ck c p b g)"
  by (simp add: fatal_kept_def record_error_def Let_def)

lemma fatal_record_code [fatal_intros]: "fatal_kept g (record_code ck c g)"
  by (simp add: record_code_def fatal_record_error)

lemma record_code_fatal: "permanent_code c \<Longrightarrow> gt_fatal (record_code ck c g) \<noteq> None"
  by (simp add: record_code_def record_error_def Let_def)

lemma fatal_clear [fatal_intros]: "fatal_kept g (clear_transient_block g)"
  by (simp add: fatal_kept_def clear_transient_block_def)

lemma clear_transient_block_events [simp]:
  "gt_retained (clear_transient_block g) = gt_retained g" "gt_inflight (clear_transient_block g) = gt_inflight g"
  "gt_pending (clear_transient_block g) = gt_pending g" "gt_max_retained (clear_transient_block g) = gt_max_retained g"
  "gt_initialized (clear_transient_block g) = gt_initialized g" "gt_fatal (clear_transient_block g) = gt_fatal g"
  by (simp_all add: clear_transient_block_def)

text \<open>What the collections hold does not matter to the latch.\<close>

lemma gate_ok_updates [simp]:
  "gate_ok (g\<lparr>gt_retained := r\<rparr>) = gate_ok g" "gate_ok (g\<lparr>gt_inflight := i\<rparr>) = gate_ok g"
  "gate_ok (g\<lparr>gt_pending := p\<rparr>) = gate_ok g" "gate_ok (g\<lparr>gt_attempts := n\<rparr>) = gate_ok g"
  "gate_ok (g\<lparr>gt_wake := w\<rparr>) = gate_ok g" "gate_ok (g\<lparr>gt_last_full := f\<rparr>) = gate_ok g"
  by (simp_all add: gate_ok_def)

lemma fatal_kept_updates [simp]:
  "fatal_kept g (h\<lparr>gt_retained := r\<rparr>) = fatal_kept g h" "fatal_kept g (h\<lparr>gt_inflight := i\<rparr>) = fatal_kept g h"
  "fatal_kept g (h\<lparr>gt_pending := p\<rparr>) = fatal_kept g h" "fatal_kept g (h\<lparr>gt_attempts := n\<rparr>) = fatal_kept g h"
  "fatal_kept g (h\<lparr>gt_wake := w\<rparr>) = fatal_kept g h" "fatal_kept g (h\<lparr>gt_last_full := f\<rparr>) = fatal_kept g h"
  "fatal_kept (g\<lparr>gt_retained := r\<rparr>) h = fatal_kept g h" "fatal_kept (g\<lparr>gt_inflight := i\<rparr>) h = fatal_kept g h"
  "fatal_kept (g\<lparr>gt_pending := p\<rparr>) h = fatal_kept g h" "fatal_kept (g\<lparr>gt_attempts := n\<rparr>) h = fatal_kept g h"
  "fatal_kept (g\<lparr>gt_wake := w\<rparr>) h = fatal_kept g h"
  by (simp_all add: fatal_kept_def)

lemma gate_ok_release_source [gate_ok_intros]: "gate_ok g \<Longrightarrow> gate_ok (fst (release_source_owner k g))"
  by (simp add: release_source_owner_def split: option.split)

lemma fatal_release_source [fatal_intros]: "fatal_kept g (fst (release_source_owner k g))"
  by (simp add: release_source_owner_def split: option.split)

lemma gate_ok_accept_source [gate_ok_intros]:
  "gate_ok g \<Longrightarrow> gate_ok (fst (accept_source_result fp k st owner g))"
  unfolding accept_source_result_def
  by (rule then_do_invariant) (auto simp: Let_def release_source_owner_def intro!: gate_ok_intros split: option.splits if_splits)

lemma fatal_accept_source [fatal_intros]: "fatal_kept g (fst (accept_source_result fp k st owner g))"
  unfolding accept_source_result_def
  by (rule then_do_invariant)
    (auto simp: Let_def release_source_owner_def fatal_kept_def split: option.splits if_splits)

lemma gate_ok_source_failure [gate_ok_intros]:
  "gate_ok g \<Longrightarrow> gate_ok (fst (finish_source_failure k e retain g))"
  unfolding finish_source_failure_def
  by (rule then_do_invariant) (auto simp: release_source_owner_def retain_event_def intro!: gate_ok_intros split: option.splits)

lemma fatal_source_failure [fatal_intros]: "fatal_kept g (fst (finish_source_failure k e retain g))"
  unfolding finish_source_failure_def
  by (rule then_do_invariant) (auto simp: release_source_owner_def retain_event_def split: option.splits)

lemma gate_ok_clear_pending [gate_ok_intros]: "gate_ok g \<Longrightarrow> gate_ok (clear_pending fp st g)"
  by (simp add: clear_pending_def gate_ok_intros)

lemma fatal_clear_pending [fatal_intros]: "fatal_kept g (clear_pending fp st g)"
  by (simp add: clear_pending_def fatal_kept_def)

lemma gate_ok_mark_pending [gate_ok_intros]: "gate_ok g \<Longrightarrow> gate_ok (fst (mark_pending fp st g))"
  by (simp add: mark_pending_def)

lemma fatal_mark_pending [fatal_intros]: "fatal_kept g (fst (mark_pending fp st g))"
  by (simp add: mark_pending_def)

lemma gate_ok_take_source [gate_ok_intros]: "gate_ok g \<Longrightarrow> gate_ok (take_source_owner k g)"
  by (simp add: take_source_owner_def)

lemma fatal_take_source [fatal_intros]: "fatal_kept g (take_source_owner k g)"
  by (simp add: take_source_owner_def)

lemma gate_ok_retain [gate_ok_intros]: "gate_ok g \<Longrightarrow> gate_ok (retain_event k e g)"
  by (simp add: retain_event_def)

lemma fatal_retain [fatal_intros]: "fatal_kept g (retain_event k e g)"
  by (simp add: retain_event_def)

end
