(* ===== verification/Accounting_Projection.thy ===== *)
theory Accounting_Projection
  imports Accounting_Gate
begin

text \<open>
  The projector's work on the gate (\<open>services/accounting_service.py\<close>): projecting one stored event
  into the sink and marking it in the source, draining the pending events page by page, and the
  start of the service, which drains and audits before it opens the gate.

  The answers of source and sink are arguments. A listing answers by cursor and a projection by
  event: within one drain no cursor and no row comes twice, so this loses no behaviour. The gate
  changes between the awaits of one projection (only the attempt counter) are made at its end.
\<close>

section \<open>Projecting one event\<close>

text \<open>\<open>None\<close> in an answer is an object of another type.\<close>

record project_answers =
  pa_sink :: "projection_status option answer"
  pa_failed_mark :: "projection_mark option answer"
  pa_mark :: "projection_mark option answer"

datatype project_result =
  ProjectedAs projection_status
| Tolerated accounting_code
| ProjectRefused accounting_code

definition marked_answer :: "(event \<Rightarrow> string) \<Rightarrow> clock \<Rightarrow> stored_event \<Rightarrow> bool \<Rightarrow> projection_mark option answer \<Rightarrow>
    projection_mark answer" where
  "marked_answer fp ck st require_projected mark =
     (if ck_wall ck = None then Refused CodeInvalidContract
      else case mark of
        Answered m \<Rightarrow> validate_projection_mark m (pending_key fp st) require_projected
      | Refused c \<Rightarrow> Refused c
      | Broke \<Rightarrow> Broke)"

text \<open>\<open>Inl\<close>: the marker itself fails for good.\<close>

definition projection_failed :: "(event \<Rightarrow> string) \<Rightarrow> clock \<Rightarrow> stored_event \<Rightarrow> accounting_code \<Rightarrow>
    projection_mark option answer \<Rightarrow> gate \<Rightarrow> gate \<times> (accounting_code + bool)" where
  "projection_failed fp ck st error mark g =
     (let (g', r) = (case marked_answer fp ck st False mark of
           Refused c \<Rightarrow> (if permanent_code c then (g, Inl c) else (record_error ck c False True g, Inr False))
         | Broke \<Rightarrow> (record_error ck CodeSourceWriteFailed False True g, Inr False)
         | Answered m \<Rightarrow>
             (if pm_projected_at m \<noteq> None then (clear_pending fp st g, Inr True)
              else if permanent_code error then (g, Inr False)
              else (record_error ck error False False g, Inr False)))
      in (g'\<lparr>gt_wake := True\<rparr>, r))"

definition mark_projected :: "(event \<Rightarrow> string) \<Rightarrow> clock \<Rightarrow> stored_event \<Rightarrow> projection_status \<Rightarrow>
    projection_mark option answer \<Rightarrow> gate \<Rightarrow> gate \<times> project_result" where
  "mark_projected fp ck st status mark g =
     (case marked_answer fp ck st True mark of
        Refused c \<Rightarrow>
          (if permanent_code c then (g, ProjectRefused c)
           else ((record_error ck c False True g)\<lparr>gt_wake := True\<rparr>, ProjectedAs ProjPending))
      | Broke \<Rightarrow> ((record_error ck CodeSourceWriteFailed False True g)\<lparr>gt_wake := True\<rparr>, ProjectedAs ProjPending)
      | Answered _ \<Rightarrow> (clear_pending fp st g, ProjectedAs status))"

definition sink_refused :: "(event \<Rightarrow> string) \<Rightarrow> clock \<Rightarrow> stored_event \<Rightarrow> accounting_code \<Rightarrow> project_answers \<Rightarrow>
    gate \<Rightarrow> gate \<times> project_result" where
  "sink_refused fp ck st c pa g =
     (case projection_failed fp ck st c (pa_failed_mark pa) g of
        (g', Inl marker) \<Rightarrow> (g', ProjectRefused marker)
      | (g', Inr already) \<Rightarrow>
          (g', if already \<and> \<not> permanent_code c then ProjectedAs ProjAlreadyApplied
               else if permanent_code c
               then (if c \<in> set TOLERATED_SINK_CODES then Tolerated c else ProjectRefused c)
               else ProjectedAs ProjPending))"

definition project_stored :: "(event \<Rightarrow> string) \<Rightarrow> clock \<Rightarrow> stored_event \<Rightarrow> project_answers \<Rightarrow> gate \<Rightarrow>
    gate \<times> project_result" where
  "project_stored fp ck st pa g =
     (let g1 = g\<lparr>gt_attempts := gt_attempts g + 1\<rparr>; e = st_event st
      in if ck_wall ck = None then (g1, ProjectRefused CodeInvalidContract)
         else if ev_kind e = Charge \<and> ev_api_key_id e \<noteq> None then
           (case pa_sink pa of
              Refused c \<Rightarrow> sink_refused fp ck st c pa g1
            | Broke \<Rightarrow>
                (case projection_failed fp ck st CodeProjectionWriteFailed (pa_failed_mark pa) g1 of
                   (g2, Inl marker) \<Rightarrow> (g2, ProjectRefused marker)
                 | (g2, Inr already) \<Rightarrow> (g2, ProjectedAs (if already then ProjAlreadyApplied else ProjPending)))
            | Answered v \<Rightarrow>
                (if v = Some ProjApplied \<or> v = Some ProjAlreadyApplied
                 then mark_projected fp ck st (the v) (pa_mark pa) g1
                 else (case projection_failed fp ck st CodeInvalidContract (pa_failed_mark pa) g1 of
                   (g2, Inl marker) \<Rightarrow> (g2, ProjectRefused marker)
                 | (g2, Inr _) \<Rightarrow> (g2, ProjectRefused CodeInvalidContract))))
         else mark_projected fp ck st ProjNoSink (pa_mark pa) g1)"

section \<open>Draining the pending events\<close>

fun drain_rows :: "(event \<Rightarrow> string) \<Rightarrow> (stored_event \<Rightarrow> clock \<times> project_answers) \<Rightarrow> stored_event list \<Rightarrow>
    bool \<Rightarrow> bool \<Rightarrow> gate \<Rightarrow> gate \<times> (bool \<times> bool) answer" where
  "drain_rows fp answers [] clean tolerated g = (g, Answered (clean, tolerated))"
| "drain_rows fp answers (st # rows) clean tolerated g =
     then_do (mark_pending fp st g) (\<lambda>g1 _.
       let (ck, pa) = answers st
       in case project_stored fp ck st pa g1 of
            (g2, ProjectedAs status) \<Rightarrow> drain_rows fp answers rows (clean \<and> status \<noteq> ProjPending) tolerated g2
          | (g2, Tolerated c) \<Rightarrow> drain_rows fp answers rows clean True (record_error ck c False False g2)
          | (g2, ProjectRefused c) \<Rightarrow>
              (if permanent_code c then (g2, Refused c) else drain_rows fp answers rows False tolerated g2))"

text \<open>The loop over the pages; \<open>None\<close> when the source never stops listing.\<close>

partial_function (option) drain_pending ::
    "(event \<Rightarrow> string) \<Rightarrow> ((py_datetime \<times> string) option \<Rightarrow> stored_event list option answer) \<Rightarrow>
     (stored_event \<Rightarrow> clock \<times> project_answers) \<Rightarrow> (py_datetime \<times> string) option \<Rightarrow> bool \<Rightarrow> bool \<Rightarrow> gate \<Rightarrow>
     (gate \<times> (bool \<times> bool) answer) option" where
  "drain_pending fp listing answers after clean tolerated g =
     (case (case listing after of
              Answered rows \<Rightarrow> validate_pending_page (gt_batch_size g) rows after
            | Refused c \<Rightarrow> Refused c
            | Broke \<Rightarrow> Refused CodeSourceWriteFailed) of
        Refused c \<Rightarrow> Some (g, Refused c)
      | Broke \<Rightarrow> Some (g, Refused CodeSourceWriteFailed)
      | Answered rows \<Rightarrow>
          if rows = [] then Some (g, Answered (clean, tolerated))
          else case drain_rows fp answers rows clean tolerated g of
            (g1, Answered (clean1, tolerated1)) \<Rightarrow>
              if int (length rows) < gt_batch_size g then Some (g1, Answered (clean1, tolerated1))
              else drain_pending fp listing answers (Some (cursor_of (last rows))) clean1 tolerated1 g1
          | (g1, Refused c) \<Rightarrow> Some (g1, Refused c)
          | (g1, Broke) \<Rightarrow> Some (g1, Broke))"

declare drain_pending.simps [code]

definition full_reconcile :: "reconciliation_report option answer \<Rightarrow> gate \<Rightarrow> gate \<times> reconciliation_report answer" where
  "full_reconcile report g = (case report of
     Answered (Some r) \<Rightarrow> publish_full_reconciliation r g
   | Answered None \<Rightarrow> (g, Refused CodeInvalidContract)
   | Refused c \<Rightarrow> (g, Refused c)
   | Broke \<Rightarrow> (g, Broke))"

section \<open>Start\<close>

text \<open>The synchronous part of \<open>start\<close>: \<open>Answered True\<close> when a start task runs afterwards.\<close>

definition start_begin :: "bool \<Rightarrow> gate \<Rightarrow> gate \<times> bool answer" where
  "start_begin spawned g =
     (if gt_state g = HRunning then (g, Answered False)
      else if gt_state g \<noteq> HNew \<and> \<not> (gt_state g = HBlocked \<and> \<not> gt_initialized g \<and> gt_fatal g = None)
      then (g, Refused CodeAccountingFailed)
      else if \<not> spawned then (g, Refused CodeAccountingFailed)
      else (g\<lparr>gt_state := HStarting, gt_accepting := False, gt_initialized := False\<rparr>, Answered True))"

definition closed_state :: "gate \<Rightarrow> accounting_health_state" where
  "closed_state g = (if has_fatal_error g then HFailed else HBlocked)"

definition start_refused :: "clock \<Rightarrow> accounting_code \<Rightarrow> gate \<Rightarrow> gate \<times> unit answer" where
  "start_refused ck c g =
     (let g1 = record_code ck c g
      in (set_state (closed_state g1) False (Some False) g1, Refused CodeReconcileFailed))"

definition start_broke :: "clock \<Rightarrow> gate \<Rightarrow> gate \<times> unit answer" where
  "start_broke ck g =
     (set_state HBlocked False (Some False) (record_error ck CodeAccountingFailed False True g),
      Refused CodeReconcileFailed)"

text \<open>After the drain and the audit: the projector is started and the gate opens.\<close>

definition start_finish :: "clock \<Rightarrow> bool \<Rightarrow> bool \<Rightarrow> bool \<Rightarrow> reconciliation_report option \<Rightarrow> gate \<Rightarrow> gate \<times> unit answer" where
  "start_finish ck spawned clean tolerated report g =
     (if \<not> clean
      then (set_state (closed_state g) False (Some False) g, Refused CodeReconcileFailed)
      else if \<not> tolerated \<and> (case report of None \<Rightarrow> True | Some r \<Rightarrow> \<not> report_clean r)
      then (set_state HFailed False (Some False) (record_error ck CodeReconcileFailed True True g),
            Refused CodeReconcileFailed)
      else if gt_state g \<noteq> HStarting then (g, Refused CodeAccountingFailed)
      else if \<not> spawned then start_broke ck (g\<lparr>gt_wake := False\<rparr>)
      else (set_state HRunning True (Some True) (g\<lparr>gt_wake := False\<rparr>), Answered ()))"

definition start_workflow ::
    "(event \<Rightarrow> string) \<Rightarrow> clock \<Rightarrow> ((py_datetime \<times> string) option \<Rightarrow> stored_event list option answer) \<Rightarrow>
     (stored_event \<Rightarrow> clock \<times> project_answers) \<Rightarrow> reconciliation_report option answer \<Rightarrow> bool \<Rightarrow> gate \<Rightarrow>
     (gate \<times> unit answer) option" where
  "start_workflow fp ck listing answers report spawned g =
     (if gt_state g \<noteq> HStarting then Some (g, Refused CodeAccountingFailed)
      else Option.bind (drain_pending fp listing answers None True False g) (\<lambda>(g1, r). Some (case r of
        Refused c \<Rightarrow> start_refused ck c g1
      | Broke \<Rightarrow> start_broke ck g1
      | Answered (clean, tolerated) \<Rightarrow>
          (if clean \<and> \<not> tolerated then
             (case full_reconcile report g1 of
                (g2, Refused c) \<Rightarrow> start_refused ck c g2
              | (g2, Broke) \<Rightarrow> start_broke ck g2
              | (g2, Answered rep) \<Rightarrow> start_finish ck spawned clean tolerated (Some rep) g2)
           else start_finish ck spawned clean tolerated None g1))))"

section \<open>The gate invariant\<close>

lemma gate_ok_projection_failed [gate_ok_intros]: "gate_ok g \<Longrightarrow> gate_ok (fst (projection_failed fp ck st c m g))"
  by (auto simp: projection_failed_def intro!: gate_ok_intros split: answer.split)

lemma fatal_projection_failed [fatal_intros]: "fatal_kept g (fst (projection_failed fp ck st c m g))"
  by (auto simp: projection_failed_def intro!: fatal_intros split: answer.split)

lemma gate_ok_mark_projected [gate_ok_intros]: "gate_ok g \<Longrightarrow> gate_ok (fst (mark_projected fp ck st s m g))"
  by (auto simp: mark_projected_def intro!: gate_ok_intros split: answer.split)

lemma fatal_mark_projected [fatal_intros]: "fatal_kept g (fst (mark_projected fp ck st s m g))"
  by (auto simp: mark_projected_def intro!: fatal_intros split: answer.split)

lemma fst_case_failed:
  "fst (case r of (g', Inl x) \<Rightarrow> (g', f x) | (g', Inr y) \<Rightarrow> (g', h y)) = fst r"
  by (cases r) (simp split: sum.split)

lemma project_stored_gate:
  "fst (project_stored fp ck st pa g) \<in>
     {g\<lparr>gt_attempts := gt_attempts g + 1\<rparr>} \<union>
     range (\<lambda>(c, m). fst (projection_failed fp ck st c m (g\<lparr>gt_attempts := gt_attempts g + 1\<rparr>))) \<union>
     range (\<lambda>(s, m). fst (mark_projected fp ck st s m (g\<lparr>gt_attempts := gt_attempts g + 1\<rparr>)))"
  by (auto simp: project_stored_def sink_refused_def Let_def fst_case_failed image_iff split: answer.split)

lemma gate_ok_project [gate_ok_intros]:
  assumes "gate_ok g" shows "gate_ok (fst (project_stored fp ck st pa g))"
proof -
  let ?g = "g\<lparr>gt_attempts := gt_attempts g + 1\<rparr>"
  have ok: "gate_ok ?g" using assms by simp
  note parts = gate_ok_projection_failed[OF ok] gate_ok_mark_projected[OF ok]
  from project_stored_gate[of fp ck st pa g] show ?thesis
    by (elim UnE) (auto simp only: ok parts singleton_iff image_iff split_paired_Ex bex_UNIV split_beta)
qed

lemma fatal_project [fatal_intros]: "fatal_kept g (fst (project_stored fp ck st pa g))"
proof -
  let ?g = "g\<lparr>gt_attempts := gt_attempts g + 1\<rparr>"
  have "fatal_kept g (fst (projection_failed fp ck st c m ?g))" for c m
    using fatal_projection_failed[of ?g fp ck st c m] by simp
  moreover have "fatal_kept g (fst (mark_projected fp ck st s m ?g))" for s m
    using fatal_mark_projected[of ?g fp ck st s m] by simp
  ultimately show ?thesis using project_stored_gate[of fp ck st pa g] by auto
qed

lemma gate_ok_drain_rows: "gate_ok g \<Longrightarrow> gate_ok (fst (drain_rows fp answers rows clean tol g))"
proof (induction rows arbitrary: clean tol g)
  case Nil
  then show ?case by simp
next
  case (Cons st rows)
  show ?case
    unfolding drain_rows.simps
  proof (rule then_do_invariant)
    show "gate_ok (fst (mark_pending fp st g))" using Cons.prems by (rule gate_ok_mark_pending)
    fix g1 x assume "mark_pending fp st g = (g1, Answered x)"
    with gate_ok_mark_pending[OF Cons.prems, of fp st] have "gate_ok g1" by simp
    then have "gate_ok (fst (project_stored fp (fst (answers st)) st (snd (answers st)) g1))"
      by (rule gate_ok_project)
    then show "gate_ok (fst (let (ck, pa) = answers st in case project_stored fp ck st pa g1 of
        (g2, ProjectedAs status) \<Rightarrow> drain_rows fp answers rows (clean \<and> status \<noteq> ProjPending) tol g2
      | (g2, Tolerated c) \<Rightarrow> drain_rows fp answers rows clean True (record_error ck c False False g2)
      | (g2, ProjectRefused c) \<Rightarrow>
          (if permanent_code c then (g2, Refused c) else drain_rows fp answers rows False tol g2)))"
      by (cases "answers st"; cases "project_stored fp (fst (answers st)) st (snd (answers st)) g1")
        (auto intro!: Cons.IH gate_ok_record_error split: project_result.split)
  qed
qed

text \<open>What the rows of a page keep, the whole drain keeps.\<close>

lemma drain_keeps:
  assumes "drain_pending fp listing answers after clean tol g = Some (g', r)" and "Q g"
    and rows: "\<And>fp answers rows clean tol g. Q g \<Longrightarrow> Q (fst (drain_rows fp answers rows clean tol g))"
  shows "Q g'"
proof -
  define P where "P = (\<lambda>(g :: gate) (y :: gate \<times> (bool \<times> bool) answer). Q g \<longrightarrow> Q (fst y))"
  have "P g (g', r)"
  proof (rule drain_pending.raw_induct[where P = "\<lambda>fp listing answers after clean tol g y. P g y"])
    fix drain fp listing answers after clean tol g y
    assume IH: "\<And>fp listing answers after clean tol g y.
        drain fp listing answers after clean tol g = Some y \<Longrightarrow> P g y"
      and body: "(case (case listing after of
              Answered rows \<Rightarrow> validate_pending_page (gt_batch_size g) rows after
            | Refused c \<Rightarrow> Refused c
            | Broke \<Rightarrow> Refused CodeSourceWriteFailed) of
        Answered rows \<Rightarrow>
          if rows = [] then Some (g, Answered (clean, tol))
          else case drain_rows fp answers rows clean tol g of
            (g1, Answered (clean1, tolerated1)) \<Rightarrow>
              if int (length rows) < gt_batch_size g then Some (g1, Answered (clean1, tolerated1))
              else drain fp listing answers (Some (cursor_of (last rows))) clean1 tolerated1 g1
          | (g1, Refused c) \<Rightarrow> Some (g1, Refused c)
          | (g1, Broke) \<Rightarrow> Some (g1, Broke)
      | Refused c \<Rightarrow> Some (g, Refused c)
      | Broke \<Rightarrow> Some (g, Refused CodeSourceWriteFailed)) = Some y"
    show "P g y"
    proof (cases "Q g")
      case True
      then have rows_ok: "Q g1" if "drain_rows fp answers rows clean tol g = (g1, x)" for rows g1 x
        using rows[of g fp answers rows clean tol] that by simp
      from body True show ?thesis
        by (auto simp: P_def rows split: answer.splits if_splits prod.splits dest!: IH dest: rows_ok)
    qed (simp add: P_def)
  qed (rule assms(1))
  with assms(2) show ?thesis by (simp add: P_def)
qed

lemma gate_ok_drain: "drain_pending fp listing answers after clean tol g = Some (g', r) \<Longrightarrow> gate_ok g \<Longrightarrow> gate_ok g'"
  by (erule drain_keeps, assumption) (rule gate_ok_drain_rows)

lemma fatal_drain_rows: "fatal_kept g0 g \<Longrightarrow> fatal_kept g0 (fst (drain_rows fp answers rows clean tol g))"
proof (induction rows arbitrary: clean tol g)
  case Nil
  then show ?case by simp
next
  case (Cons st rows)
  obtain g1 x where m: "mark_pending fp st g = (g1, x)" by fastforce
  have g1: "fatal_kept g0 g1" using fatal_kept_trans[OF Cons.prems fatal_mark_pending[of g fp st]] m by simp
  obtain ck pa where cp: "answers st = (ck, pa)" by fastforce
  obtain g2 r where p: "project_stored fp ck st pa g1 = (g2, r)" by fastforce
  have g2: "fatal_kept g0 g2" using fatal_kept_trans[OF g1 fatal_project[of g1 fp ck st pa]] p by simp
  then have "fatal_kept g0 (record_error ck c pr b g2)" for c pr b by (rule fatal_kept_trans) (rule fatal_record_error)
  with g1 g2 show ?case
    by (cases x; cases r) (simp_all add: m cp p Cons.IH)
qed

lemma fatal_drain: "drain_pending fp listing answers after clean tol g = Some (g', r) \<Longrightarrow> fatal_kept g g'"
  by (erule drain_keeps[where Q = "fatal_kept g"]) (rule fatal_kept_refl, rule fatal_drain_rows)

lemma gate_ok_start_refused: "gate_ok g \<Longrightarrow> gate_ok (fst (start_refused ck c g))"
  by (auto simp: start_refused_def closed_state_def Let_def set_state_def gate_ok_def)

lemma gate_ok_start_broke: "gate_ok g \<Longrightarrow> gate_ok (fst (start_broke ck g))"
  by (auto simp: start_broke_def set_state_def gate_ok_def)

lemma gate_ok_start_finish: "gate_ok g \<Longrightarrow> gate_ok (fst (start_finish ck sp clean tol rep g))"
proof -
  assume ok: "gate_ok g"
  then have "gate_ok (fst (start_broke ck (g\<lparr>gt_wake := False\<rparr>)))" by (simp add: gate_ok_start_broke)
  moreover have "gate_ok (set_state (closed_state g) False (Some False) g)"
    using ok by (simp add: gate_ok_def set_state_def closed_state_def)
  moreover have "gate_ok (set_state HFailed False (Some False) h)" for h
    by (simp add: gate_ok_def set_state_def)
  moreover have "gt_state g = HStarting \<Longrightarrow> gate_ok (set_state HRunning True (Some True) (g\<lparr>gt_wake := False\<rparr>))"
    using ok by (simp add: gate_ok_def set_state_def)
  ultimately show ?thesis using ok by (simp add: start_finish_def)
qed

lemma gate_ok_start_begin: "gate_ok g \<Longrightarrow> gate_ok (fst (start_begin sp g))"
  by (auto simp: start_begin_def gate_ok_def)

lemma gate_ok_full_reconcile: "gate_ok g \<Longrightarrow> gate_ok (fst (full_reconcile rep g))"
  by (auto simp: full_reconcile_def publish_full_reconciliation_def split: answer.split option.split)

lemma gate_ok_start:
  assumes "start_workflow fp ck listing answers rep sp g = Some (g', r)" and "gate_ok g"
  shows "gate_ok g'"
proof (cases "gt_state g = HStarting")
  case False
  with assms show ?thesis by (simp add: start_workflow_def)
next
  case True
  with assms(1) obtain g1 x where d: "drain_pending fp listing answers None True False g = Some (g1, x)"
    by (auto simp: start_workflow_def bind_eq_Some_conv)
  from gate_ok_drain[OF d assms(2)] have ok: "gate_ok g1" .
  show ?thesis
  proof (cases x)
    case (Answered ct)
    obtain clean tol where ct: "ct = (clean, tol)" by (cases ct)
    obtain g2 y where f: "full_reconcile rep g1 = (g2, y)" by (cases "full_reconcile rep g1")
    with gate_ok_full_reconcile[OF ok, of rep] have "gate_ok g2" by simp
    then show ?thesis using True assms(1) d Answered ct f ok
      gate_ok_start_refused[of g2 ck] gate_ok_start_broke[of g2 ck] gate_ok_start_finish[of g2 ck sp]
      gate_ok_start_finish[of g1 ck sp clean tol None]
      by (cases y) (auto simp: start_workflow_def split: if_splits, (metis fst_conv)+)
  next
    case (Refused c)
    then show ?thesis using True assms(1) d ok gate_ok_start_refused[of g1 ck c]
      by (simp add: start_workflow_def)
  next
    case Broke
    then show ?thesis using True assms(1) d ok gate_ok_start_broke[of g1 ck]
      by (simp add: start_workflow_def)
  qed
qed

lemma fatal_set_state [simp]: "fatal_kept g (set_state st b i h) = fatal_kept g h"
  by (simp add: set_state_def fatal_kept_def Let_def split: option.split)

lemma fatal_full_reconcile: "fatal_kept g (fst (full_reconcile rep g))"
  by (auto simp: full_reconcile_def publish_full_reconciliation_def split: answer.split option.split)

lemma fatal_start_parts:
  "fatal_kept g (fst (start_refused ck c g))" "fatal_kept g (fst (start_broke ck g))"
  "fatal_kept g (fst (start_finish ck sp clean tol rep g))"
proof -
  show "fatal_kept g (fst (start_refused ck c g))" by (simp add: start_refused_def Let_def fatal_record_code)
  show br: "fatal_kept g (fst (start_broke ck g))" for g by (simp add: start_broke_def fatal_record_error)
  show "fatal_kept g (fst (start_finish ck sp clean tol rep g))"
    using br[of "g\<lparr>gt_wake := False\<rparr>"] by (auto simp: start_finish_def fatal_record_error split: option.split)
qed

lemma fatal_start:
  assumes "start_workflow fp ck listing answers rep sp g = Some (g', r)"
  shows "fatal_kept g g'"
proof (cases "gt_state g = HStarting")
  case False
  with assms show ?thesis by (simp add: start_workflow_def)
next
  case True
  with assms obtain g1 x where d: "drain_pending fp listing answers None True False g = Some (g1, x)"
    by (auto simp: start_workflow_def bind_eq_Some_conv)
  note k1 = fatal_drain[OF d]
  obtain g2 y where f: "full_reconcile rep g1 = (g2, y)" by fastforce
  have k2: "fatal_kept g g2" using fatal_kept_trans[OF k1 fatal_full_reconcile[of g1 rep]] f by simp
  note parts = fatal_kept_trans[OF k1 fatal_start_parts(1)] fatal_kept_trans[OF k1 fatal_start_parts(2)]
    fatal_kept_trans[OF k1 fatal_start_parts(3)] fatal_kept_trans[OF k2 fatal_start_parts(1)]
    fatal_kept_trans[OF k2 fatal_start_parts(2)] fatal_kept_trans[OF k2 fatal_start_parts(3)]
  from assms True d f show ?thesis
    by (cases x; cases y)
      (auto simp: start_workflow_def split: if_splits prod.splits, (metis fst_conv parts)+)
qed

end
