(* ===== verification/Accounting_Sessions.thy ===== *)
theory Accounting_Sessions
  imports Rate_Limiter Budget_Ledger Accounting_Projection
begin

text \<open>
  The request sessions of the accounting service (\<open>services/accounting_service.py\<close>): admission
  against the budget ledger and the rate limiter, commit, release, duplicates of one event, the
  charge of a session and its end. The ledger and the limiter are the models of \<open>Budget_Ledger\<close> and
  \<open>Rate_Limiter\<close>.

  A session is owned by one task. The task is cut at its awaits; \<open>task_point\<close> says where it stands,
  and every piece between two awaits is one definition here. The collectors of deep research are not
  modelled. \<open>BaseException\<close>s that are no \<open>Exception\<close> (cancellation of the shielded tasks) are not
  modelled.
\<close>

section \<open>State\<close>

datatype session_state = SReserved | SReleasing | SCommitting | SRetrying

text \<open>\<open>sn_owned\<close>: the session has an owner task. \<open>sn_retry\<close>: no future, a pending future
  (\<open>Some None\<close>), or a future with its result.\<close>

record session =
  sn_reservation :: reservation
  sn_state :: session_state
  sn_event_key :: "event_key option"
  sn_owned :: bool
  sn_retry :: "receipt answer option option"
  sn_charge :: "bool option"
  sn_ledger_done :: bool
  sn_limiter_done :: bool

definition new_session :: "reservation \<Rightarrow> session" where
  "new_session r = \<lparr>sn_reservation = r, sn_state = SReserved, sn_event_key = None, sn_owned = False,
     sn_retry = None, sn_charge = None, sn_ledger_done = False, sn_limiter_done = False\<rparr>"

definition liability_applied :: "session \<Rightarrow> bool" where
  "liability_applied s \<longleftrightarrow> sn_ledger_done s \<and> sn_limiter_done s"

abbreviation session_key :: "session \<Rightarrow> int option" where
  "session_key s \<equiv> rv_api_key_id (sn_reservation s)"

abbreviation session_request :: "session \<Rightarrow> string" where
  "session_request s \<equiv> rv_request_id (sn_reservation s)"

text \<open>What a task does once its session is closed: its result, whether it then lifts a transient
  block (the follower), and the event whose retry registration it drops.\<close>

record closing =
  cl_result :: "receipt option answer"
  cl_clear :: bool
  cl_unregister :: "event_key option"

datatype task_point =
  AtRelease
| AtAccept event
| AtProject event acceptance
| AtRetry event
| AtFollow string event
| AtReset closing

record reset_task =
  rt_moment :: time
  rt_keys :: "int list"
  rt_waiter :: "string option"

datatype drain_user = ByProjector | ByReconcile | ByUpdate int | ByReset nat | ByStop

text \<open>One holder of \<open>_drain_lock\<close>: whether retries and pending rows were clean so far, the retried
  event whose projection is awaited, and whether the drain is over and the holder's own database
  call runs.\<close>

record drain_pass =
  dp_user :: drain_user
  dp_retained_clean :: bool
  dp_pending_clean :: bool
  dp_projecting :: "(event_key \<times> acceptance) option"
  dp_drained :: bool

text \<open>The fields after the limiter are the suspended tasks of the service.\<close>

record acct =
  ac_gate :: gate
  ac_max_sessions :: int
  ac_max_owners :: int
  ac_sessions :: "(string, session) dict"
  ac_by_request :: "(string, string) dict"
  ac_retry_sessions :: "(event_key, string) dict"
  ac_event_owner :: "(event_key, string) dict"
  ac_active :: "(int, int) dict"
  ac_fences :: "(int, accounting_code) dict"
  ac_reset_pending :: "(int, time) dict"
  ac_deleted :: "int list"
  ac_known :: "int list"
  ac_limits :: "(int, int option \<times> int option) dict"
  ac_ledger :: ledger
  ac_limiter :: rate_limiter
  ac_tasks :: "(string, task_point) dict"
  ac_results :: "(string, receipt option answer) dict"
  ac_updates :: "(int, bool) dict"
  ac_resets :: "reset_task option list"
  ac_deletes :: "(int \<times> time option) list"
  ac_due :: "(time, int option) dict"
  ac_owners :: "(event \<times> acceptance option) list"
  ac_pass :: "drain_pass option"
  ac_projector :: bool
  ac_reconciling :: bool
  ac_stopping :: bool

definition new_service :: "int \<Rightarrow> int \<Rightarrow> int \<Rightarrow> int \<Rightarrow> acct" where
  "new_service max_retained batch_size max_sessions max_owners = \<lparr>ac_gate = new_gate max_retained batch_size,
     ac_max_sessions = max_sessions, ac_max_owners = max_owners, ac_sessions = [], ac_by_request = [], ac_retry_sessions = [],
     ac_event_owner = [], ac_active = [], ac_fences = [], ac_reset_pending = [], ac_deleted = [],
     ac_known = [], ac_limits = [], ac_ledger = [], ac_limiter = new_limiter WINDOW_SECONDS,
     ac_tasks = [], ac_results = [], ac_updates = [], ac_resets = [], ac_deletes = [], ac_due = [],
     ac_owners = [], ac_pass = None,
     ac_projector = False, ac_reconciling = False, ac_stopping = False\<rparr>"

definition on_gate :: "(gate \<Rightarrow> gate) \<Rightarrow> acct \<Rightarrow> acct" where
  "on_gate f a = a\<lparr>ac_gate := f (ac_gate a)\<rparr>"

definition put_session :: "string \<Rightarrow> session \<Rightarrow> acct \<Rightarrow> acct" where
  "put_session sid s a = a\<lparr>ac_sessions := dict_set sid s (ac_sessions a)\<rparr>"

definition wake_projector :: "gate \<Rightarrow> gate" where
  "wake_projector g = g\<lparr>gt_wake := True\<rparr>"

section \<open>Admission\<close>

record reserve_args =
  ra_request_id :: string
  ra_api_key_id :: "py_num option"
  ra_budget :: "py_num option"
  ra_spent :: py_num
  ra_rpm :: "py_num option"
  ra_tpm :: "py_num option"
  ra_estimate :: py_num

definition answer_bind :: "'a answer \<Rightarrow> ('a \<Rightarrow> 'b answer) \<Rightarrow> 'b answer" where
  "answer_bind r f = (case r of Answered x \<Rightarrow> f x | Refused c \<Rightarrow> Refused c | Broke \<Rightarrow> Broke)"

text \<open>The validation of the arguments, up to the reservation with its random identifier.\<close>

definition parse_reserve :: "string \<Rightarrow> reserve_args \<Rightarrow>
    (reservation \<times> rat option \<times> rat \<times> int option \<times> int option) answer" where
  "parse_reserve token ra =
     answer_bind (optional_arg positive_integer (ra_api_key_id ra)) (\<lambda>key.
     answer_bind (optional_non_negative_float (ra_budget ra)) (\<lambda>budget.
     answer_bind (non_negative_float (ra_spent ra)) (\<lambda>spent.
     answer_bind (optional_positive_int (ra_rpm ra)) (\<lambda>rpm.
     answer_bind (optional_positive_int (ra_tpm ra)) (\<lambda>tpm.
     answer_bind (non_negative_float (ra_estimate ra)) (\<lambda>estimate.
     answer_bind (answer_of_option
        (make_reservation token (ra_request_id ra) (map_option PyInt key) (PyFloat estimate))) (\<lambda>r.
     Answered (r, budget, spent, rpm, tpm))))))))"

text \<open>The first request of a key loads its budget, spend and limits; later ones use what is loaded.\<close>

definition learn_key :: "int \<Rightarrow> rat option \<Rightarrow> rat \<Rightarrow> int option \<times> int option \<Rightarrow> acct \<Rightarrow>
    acct \<times> (int option \<times> int option) answer" where
  "learn_key k budget spent limits a =
     (if k \<notin> set (ac_known a)
      then (a\<lparr>ac_ledger := sync_record k budget spent (ac_ledger a), ac_known := k # ac_known a,
              ac_limits := dict_set k limits (ac_limits a)\<rparr>, Answered limits)
      else case dict_get (ac_limits a) k of None \<Rightarrow> (a, Broke) | Some l \<Rightarrow> (a, Answered l))"

definition admit_rate :: "clock \<Rightarrow> string \<Rightarrow> int \<Rightarrow> int option \<times> int option \<Rightarrow> acct \<Rightarrow> acct \<times> unit answer" where
  "admit_rate ck rid k limits a =
     (case admit_request (ck_mono ck) rid (Some k) (fst limits) (snd limits) (ac_limiter a) of
        (l, None) \<Rightarrow> (a\<lparr>ac_limiter := l\<rparr>, Answered ())
      | (l, Some m) \<Rightarrow>
          (case release_request rid k (ac_ledger a) of
             (d, Inl _) \<Rightarrow> (a\<lparr>ac_limiter := l, ac_ledger := d\<rparr>, Refused CodeInvalidContract)
           | (d, Inr _) \<Rightarrow> (a\<lparr>ac_limiter := l, ac_ledger := d\<rparr>,
               Refused (if m = RequestAlreadyTerminal then CodeReservationConflict else CodeRateLimited))))"

definition admit_key :: "clock \<Rightarrow> string \<Rightarrow> int \<Rightarrow> rat \<Rightarrow> rat option \<Rightarrow> rat \<Rightarrow> int option \<times> int option \<Rightarrow>
    acct \<Rightarrow> acct \<times> unit answer" where
  "admit_key ck rid k estimate budget spent limits a =
     then_do (learn_key k budget spent limits a) (\<lambda>a1 known_limits.
       case reserve_request rid k (PyFloat estimate) (ac_ledger a1) of
         (d, Inl _) \<Rightarrow> (a1\<lparr>ac_ledger := d\<rparr>, Refused CodeInvalidContract)
       | (d, Inr False) \<Rightarrow> (a1\<lparr>ac_ledger := d\<rparr>, Refused CodeBudgetExhausted)
       | (d, Inr True) \<Rightarrow> admit_rate ck rid k known_limits (a1\<lparr>ac_ledger := d\<rparr>))"

definition open_session :: "reservation \<Rightarrow> acct \<Rightarrow> acct" where
  "open_session r a =
     a\<lparr>ac_sessions := dict_set (rv_reservation_id r) (new_session r) (ac_sessions a),
       ac_by_request := dict_set (rv_request_id r) (rv_reservation_id r) (ac_by_request a),
       ac_active := (case rv_api_key_id r of
           None \<Rightarrow> ac_active a
         | Some k \<Rightarrow> dict_set k (dict_default 0 (ac_active a) k + 1) (ac_active a))\<rparr>"

definition fence_of :: "int option \<Rightarrow> acct \<Rightarrow> accounting_code option" where
  "fence_of key a = (case key of None \<Rightarrow> None | Some k \<Rightarrow> dict_get (ac_fences a) k)"

text \<open>The part of \<open>reserve\<close> under the state guard.\<close>

definition admit_session :: "clock \<Rightarrow> reservation \<Rightarrow> rat option \<Rightarrow> rat \<Rightarrow> int option \<times> int option \<Rightarrow> acct \<Rightarrow>
    acct \<times> reservation answer" where
  "admit_session ck r budget spent limits a =
     (if gt_state (ac_gate a) \<noteq> HRunning \<or> \<not> gt_accepting (ac_gate a) then (a, Refused CodeAdmissionClosed)
      else case dict_get (ac_by_request a) (rv_request_id r) of
        Some sid \<Rightarrow>
          (case dict_get (ac_sessions a) sid of
             None \<Rightarrow> (a, Broke)
           | Some s \<Rightarrow>
               (if session_key s \<noteq> rv_api_key_id r \<or> rv_reserved_usd (sn_reservation s) \<noteq> rv_reserved_usd r
                then (a, Refused CodeReservationConflict) else (a, Answered (sn_reservation s))))
      | None \<Rightarrow>
          (case fence_of (rv_api_key_id r) a of
             Some c \<Rightarrow> (a, Refused c)
           | None \<Rightarrow>
               (if int (length (ac_sessions a)) \<ge> ac_max_sessions a then (a, Refused CodeActiveSessionLimit)
                else then_do
                  (case rv_api_key_id r of
                     None \<Rightarrow> (a, Answered ())
                   | Some k \<Rightarrow> admit_key ck (rv_request_id r) k (rv_reserved_usd r) budget spent limits a)
                  (\<lambda>a1 _. (open_session r a1, Answered r)))))"

definition reserve_session :: "clock \<Rightarrow> string \<Rightarrow> reserve_args \<Rightarrow> acct \<Rightarrow> acct \<times> reservation answer" where
  "reserve_session ck token ra a = (case parse_reserve token ra of
     Refused c \<Rightarrow> (a, Refused c)
   | Broke \<Rightarrow> (a, Broke)
   | Answered (r, budget, spent, rpm, tpm) \<Rightarrow> admit_session ck r budget spent (rpm, tpm) a)"

section \<open>The end of a session\<close>

definition find_session :: "reservation \<Rightarrow> acct \<Rightarrow> session option answer" where
  "find_session r a = (case dict_get (ac_sessions a) (rv_reservation_id r) of
     None \<Rightarrow> Answered None
   | Some s \<Rightarrow> (if sn_reservation s \<noteq> r then Refused CodeReservationConflict else Answered (Some s)))"

definition unlink_session :: "session \<Rightarrow> acct \<Rightarrow> acct" where
  "unlink_session s a =
     (let r = sn_reservation s
      in a\<lparr>ac_sessions := dict_pop (rv_reservation_id r) (ac_sessions a),
           ac_by_request := dict_pop (rv_request_id r) (ac_by_request a),
           ac_event_owner := (case sn_event_key s of
               None \<Rightarrow> ac_event_owner a
             | Some k \<Rightarrow> (if dict_get (ac_event_owner a) k = Some (rv_reservation_id r)
                        then dict_pop k (ac_event_owner a) else ac_event_owner a))\<rparr>)"

text \<open>The result: the key, and whether its last session left a pending reset or a deleted key.\<close>

definition detach_session :: "session \<Rightarrow> acct \<Rightarrow> acct \<times> (int option \<times> bool \<times> bool) answer" where
  "detach_session s a =
     (let a1 = unlink_session s a
      in case session_key s of
           None \<Rightarrow> (a1, Answered (None, False, False))
         | Some k \<Rightarrow>
             (case dict_get (ac_active a1) k of
                None \<Rightarrow> (a1, Broke)
              | Some n \<Rightarrow>
                  (if n - 1 \<noteq> 0
                   then (a1\<lparr>ac_active := dict_set k (n - 1) (ac_active a1)\<rparr>, Answered (Some k, False, False))
                   else (a1\<lparr>ac_active := dict_pop k (ac_active a1)\<rparr>,
                         Answered (Some k, dict_get (ac_reset_pending a1) k \<noteq> None, k \<in> set (ac_deleted a1))))))"

definition forget_key :: "int \<Rightarrow> acct \<Rightarrow> acct" where
  "forget_key k a = a\<lparr>ac_ledger := discard_record k (ac_ledger a), ac_limiter := rl_reset (Some k) (ac_limiter a),
     ac_known := removeAll k (ac_known a), ac_limits := dict_pop k (ac_limits a)\<rparr>"

definition pending_reset_of :: "int \<Rightarrow> acct \<Rightarrow> time option" where
  "pending_reset_of k a =
     (if dict_default 0 (ac_active a) k \<noteq> 0 then None else dict_get (ac_reset_pending a) k)"

definition unregister_retry :: "event_key \<Rightarrow> string \<Rightarrow> acct \<Rightarrow> acct" where
  "unregister_retry k sid a =
     (if dict_get (ac_retry_sessions a) k = Some sid
      then a\<lparr>ac_retry_sessions := dict_pop k (ac_retry_sessions a)\<rparr> else a)"

definition finish_task :: "string \<Rightarrow> closing \<Rightarrow> acct \<Rightarrow> acct" where
  "finish_task sid cl a =
     (let a1 = (case cl_unregister cl of None \<Rightarrow> a | Some k \<Rightarrow> unregister_retry k sid a);
          a2 = (if cl_clear cl then on_gate clear_transient_block a1 else a1)
      in a2\<lparr>ac_tasks := dict_pop sid (ac_tasks a2), ac_results := dict_set sid (cl_result cl) (ac_results a2)\<rparr>)"

text \<open>The detached session's key is dropped when it was deleted, or its pending reset runs, and the
  task waits for it.\<close>

definition after_terminal :: "string \<Rightarrow> closing \<Rightarrow> int option \<times> bool \<times> bool \<Rightarrow> acct \<Rightarrow> acct" where
  "after_terminal sid cl flags a = (case flags of
     (None, _, _) \<Rightarrow> finish_task sid cl a
   | (Some k, pending_reset, deleted) \<Rightarrow>
       (if deleted then finish_task sid cl (forget_key k a)
        else if pending_reset then
          (case pending_reset_of k a of
             None \<Rightarrow> finish_task sid cl a
           | Some moment \<Rightarrow>
               a\<lparr>ac_tasks := dict_set sid (AtReset cl) (ac_tasks a),
                 ac_resets := ac_resets a @ [Some \<lparr>rt_moment = moment, rt_keys = [k], rt_waiter = Some sid\<rparr>]\<rparr>)
        else finish_task sid cl a))"

definition close_session :: "string \<Rightarrow> session \<Rightarrow> closing \<Rightarrow> acct \<Rightarrow> acct" where
  "close_session sid s cl a = (case detach_session s a of
     (a1, Answered flags) \<Rightarrow> after_terminal sid cl flags a1
   | (a1, Refused c) \<Rightarrow> finish_task sid (cl\<lparr>cl_result := Refused c, cl_clear := False\<rparr>) a1
   | (a1, Broke) \<Rightarrow> finish_task sid (cl\<lparr>cl_result := Broke, cl_clear := False\<rparr>) a1)"

section \<open>Failure\<close>

text \<open>What a failed session still holds is given back, unless its charge was already decided. Each
  part says whether it raised.\<close>

definition give_back_ledger :: "session \<Rightarrow> int \<Rightarrow> acct \<Rightarrow> acct \<times> session \<times> bool" where
  "give_back_ledger s k a =
     (if sn_ledger_done s then (a, s, False)
      else case release_request (session_request s) k (ac_ledger a) of
        (d, Inl _) \<Rightarrow> (a\<lparr>ac_ledger := d\<rparr>, s, True)
      | (d, Inr b) \<Rightarrow> (a\<lparr>ac_ledger := d\<rparr>, if b then s\<lparr>sn_ledger_done := True\<rparr> else s, False))"

definition give_back_limiter :: "clock \<Rightarrow> session \<Rightarrow> int \<Rightarrow> acct \<Rightarrow> acct \<times> session \<times> bool" where
  "give_back_limiter ck s k a =
     (if sn_limiter_done s then (a, s, False)
      else case attribute_request_tokens (ck_mono ck) (session_request s) (Some k) (TokInt 0) (ac_limiter a) of
        (l, Inl _) \<Rightarrow> (a\<lparr>ac_limiter := l\<rparr>, s, True)
      | (l, Inr b) \<Rightarrow> (a\<lparr>ac_limiter := l\<rparr>, if b then s\<lparr>sn_limiter_done := True\<rparr> else s, False))"

definition give_back :: "clock \<Rightarrow> session \<Rightarrow> acct \<Rightarrow> acct \<times> session \<times> bool" where
  "give_back ck s a = (case (sn_charge s, session_key s) of
     (None, Some k) \<Rightarrow>
       (let (a1, s1, raised1) = give_back_ledger s k a;
            (a2, s2, raised2) = give_back_limiter ck s1 k a1
        in (a2, s2, raised1 \<or> raised2))
   | _ \<Rightarrow> (a, s, False))"

definition fail_session :: "clock \<Rightarrow> string \<Rightarrow> closing \<Rightarrow> acct \<Rightarrow> acct" where
  "fail_session ck sid cl a = (case dict_get (ac_sessions a) sid of
     None \<Rightarrow> finish_task sid cl a
   | Some s \<Rightarrow>
       (case give_back ck s a of (a1, s1, raised) \<Rightarrow>
          close_session sid s1 (if raised then cl\<lparr>cl_result := Refused CodeInvalidContract\<rparr> else cl) a1))"

definition failed_with :: "receipt option answer \<Rightarrow> event_key option \<Rightarrow> closing" where
  "failed_with r unregister = \<lparr>cl_result = r, cl_clear = False, cl_unregister = unregister\<rparr>"

section \<open>Release\<close>

text \<open>\<open>Answered (Some sid)\<close>: the caller waits for the owner task of session \<open>sid\<close>.\<close>

definition begin_release :: "reservation \<Rightarrow> bool \<Rightarrow> acct \<Rightarrow> acct \<times> string option answer" where
  "begin_release r spawned a = (case find_session r a of
     Refused c \<Rightarrow> (a, Refused c)
   | Broke \<Rightarrow> (a, Broke)
   | Answered None \<Rightarrow> (a, Answered None)
   | Answered (Some s) \<Rightarrow>
       (if sn_owned s then
          (if sn_state s \<noteq> SReleasing then (a, Refused CodeReservationConflict)
           else (a, Answered (Some (rv_reservation_id r))))
        else if sn_state s \<noteq> SReserved then (a, Refused CodeReservationConflict)
        else if \<not> spawned then (a, Refused CodeAccountingFailed)
        else ((put_session (rv_reservation_id r) (s\<lparr>sn_state := SReleasing, sn_owned := True\<rparr>) a)
                \<lparr>ac_tasks := dict_set (rv_reservation_id r) AtRelease (ac_tasks a)\<rparr>,
              Answered (Some (rv_reservation_id r)))))"

definition run_release :: "clock \<Rightarrow> string \<Rightarrow> acct \<Rightarrow> acct" where
  "run_release ck sid a = (case dict_get (ac_sessions a) sid of
     None \<Rightarrow> finish_task sid \<lparr>cl_result = Answered None, cl_clear = False, cl_unregister = None\<rparr> a
   | Some s \<Rightarrow>
       (let ok = \<lparr>cl_result = Answered None, cl_clear = False, cl_unregister = None\<rparr>
        in case session_key s of
             None \<Rightarrow> close_session sid s ok a
           | Some k \<Rightarrow>
               (case release_request (session_request s) k (ac_ledger a) of
                  (d, Inl _) \<Rightarrow> fail_session ck sid (failed_with (Refused CodeInvalidContract) None) (a\<lparr>ac_ledger := d\<rparr>)
                | (d, Inr False) \<Rightarrow> fail_session ck sid (failed_with (Refused CodeAccountingFailed) None) (a\<lparr>ac_ledger := d\<rparr>)
                | (d, Inr True) \<Rightarrow>
                    (case attribute_request_tokens (ck_mono ck) (session_request s) (Some k) (TokInt 0) (ac_limiter a) of
                       (l, Inl _) \<Rightarrow> fail_session ck sid (failed_with (Refused CodeInvalidContract) None)
                                       (a\<lparr>ac_ledger := d, ac_limiter := l\<rparr>)
                     | (l, Inr False) \<Rightarrow> fail_session ck sid (failed_with (Refused CodeAccountingFailed) None)
                                       (a\<lparr>ac_ledger := d, ac_limiter := l\<rparr>)
                     | (l, Inr True) \<Rightarrow> close_session sid s ok (a\<lparr>ac_ledger := d, ac_limiter := l\<rparr>)))))"

section \<open>Charging a session\<close>

text \<open>The two halves record their success in the session, so a repetition skips what is done. The
  cost is \<open>None\<close> when the reservation is only given back.\<close>

definition settle_ledger :: "string \<Rightarrow> session \<Rightarrow> int \<Rightarrow> rat option \<Rightarrow> acct \<Rightarrow> acct \<times> session answer" where
  "settle_ledger sid s k cost a =
     (if sn_ledger_done s then (put_session sid s a, Answered s)
      else case (case cost of
             Some c \<Rightarrow> commit_request (session_request s) k (PyFloat c) (ac_ledger a)
           | None \<Rightarrow> release_request (session_request s) k (ac_ledger a)) of
        (d, Inl _) \<Rightarrow> (put_session sid s (a\<lparr>ac_ledger := d\<rparr>), Refused CodeInvalidContract)
      | (d, Inr False) \<Rightarrow> (put_session sid s (a\<lparr>ac_ledger := d\<rparr>), Refused CodeAccountingFailed)
      | (d, Inr True) \<Rightarrow>
          (put_session sid (s\<lparr>sn_ledger_done := True\<rparr>) (a\<lparr>ac_ledger := d\<rparr>), Answered (s\<lparr>sn_ledger_done := True\<rparr>)))"

definition settle_limiter :: "clock \<Rightarrow> string \<Rightarrow> session \<Rightarrow> int \<Rightarrow> int \<Rightarrow> acct \<Rightarrow> acct \<times> unit answer" where
  "settle_limiter ck sid s k tokens a =
     (if sn_limiter_done s then (a, Answered ())
      else case attribute_request_tokens (ck_mono ck) (session_request s) (Some k) (TokInt tokens) (ac_limiter a) of
        (l, Inl _) \<Rightarrow> (a\<lparr>ac_limiter := l\<rparr>, Refused CodeInvalidContract)
      | (l, Inr False) \<Rightarrow> (a\<lparr>ac_limiter := l\<rparr>, Refused CodeAccountingFailed)
      | (l, Inr True) \<Rightarrow> (put_session sid (s\<lparr>sn_limiter_done := True\<rparr>) (a\<lparr>ac_limiter := l\<rparr>), Answered ()))"

definition settle_session :: "clock \<Rightarrow> string \<Rightarrow> session \<Rightarrow> bool \<Rightarrow> rat option \<Rightarrow> int \<Rightarrow> acct \<Rightarrow> acct \<times> unit answer" where
  "settle_session ck sid s charge cost tokens a =
     (if sn_charge s \<noteq> None \<and> sn_charge s \<noteq> Some charge then (a, Refused CodeReservationConflict)
      else let s1 = s\<lparr>sn_charge := Some charge\<rparr>
      in case session_key s of
           None \<Rightarrow> (put_session sid (s1\<lparr>sn_ledger_done := True, sn_limiter_done := True\<rparr>) a, Answered ())
         | Some k \<Rightarrow>
             then_do (settle_ledger sid s1 k cost a) (\<lambda>a1 s2. settle_limiter ck sid s2 k tokens a1))"

definition apply_session_liability :: "(event \<Rightarrow> string) \<Rightarrow> clock \<Rightarrow> string \<Rightarrow> acceptance \<Rightarrow> acct \<Rightarrow>
    acct \<times> unit answer" where
  "apply_session_liability fp ck sid acc a = (case dict_get (ac_sessions a) sid of
     None \<Rightarrow> (a, Answered ())
   | Some s \<Rightarrow>
       (if liability_applied s then (a, Answered ())
        else let st = acc_stored acc;
                 charge = (acc_status acc = SourceAccepted \<or> acc_status acc = SourceRecovered);
                 billable = (charge \<and> ev_kind (st_event st) = Charge)
             in if sn_event_key s \<noteq> Some (pending_key fp st) then (a, Refused CodeReservationConflict)
                else settle_session ck sid s charge
                  (if billable then Some (us_cost (ev_usage (st_event st))) else None)
                  (if billable then us_total (ev_usage (st_event st)) else 0) a))"

definition apply_duplicate_session :: "clock \<Rightarrow> string \<Rightarrow> acct \<Rightarrow> acct \<times> unit answer" where
  "apply_duplicate_session ck sid a = (case dict_get (ac_sessions a) sid of
     None \<Rightarrow> (a, Answered ())
   | Some s \<Rightarrow> (if liability_applied s then (a, Answered ()) else settle_session ck sid s False None 0 a))"

section \<open>Commit\<close>

definition own_commit :: "string \<Rightarrow> session \<Rightarrow> event \<Rightarrow> event_key \<Rightarrow> acct \<Rightarrow> acct" where
  "own_commit sid s e k a =
     (on_gate (take_source_owner k)
        (put_session sid (s\<lparr>sn_state := SCommitting, sn_event_key := Some k, sn_owned := True,
           sn_retry := Some None\<rparr>) a))
       \<lparr>ac_retry_sessions := dict_set k sid (ac_retry_sessions a),
        ac_event_owner := dict_set k sid (ac_event_owner a),
        ac_tasks := dict_set sid (AtAccept e) (ac_tasks a)\<rparr>"

definition follow_commit :: "string \<Rightarrow> session \<Rightarrow> event \<Rightarrow> event_key \<Rightarrow> string \<Rightarrow> acct \<Rightarrow> acct" where
  "follow_commit sid s e k owner a =
     (put_session sid (s\<lparr>sn_state := SCommitting, sn_event_key := Some k, sn_owned := True\<rparr>) a)
       \<lparr>ac_tasks := dict_set sid (AtFollow owner e) (ac_tasks a)\<rparr>"

definition begin_commit :: "(event \<Rightarrow> string) \<Rightarrow> reservation \<Rightarrow> event \<Rightarrow> bool \<Rightarrow> acct \<Rightarrow> acct \<times> string option answer" where
  "begin_commit fp r e spawned a = (case find_session r a of
     Refused c \<Rightarrow> (a, Refused c)
   | Broke \<Rightarrow> (a, Broke)
   | Answered None \<Rightarrow> (a, Answered None)
   | Answered (Some s) \<Rightarrow>
       (let sid = rv_reservation_id r; k = (ev_event_id e, fp e)
        in if event.ev_request_id e \<noteq> Some (rv_request_id r) \<or> ev_api_key_id e \<noteq> rv_api_key_id r
           then (a, Refused CodeReservationConflict)
           else if sn_owned s then
             (if sn_event_key s \<noteq> Some k then (a, Refused CodeReservationConflict) else (a, Answered (Some sid)))
           else if sn_state s \<noteq> SReserved then (a, Refused CodeReservationConflict)
           else case dict_get (ac_event_owner a) k of
             None \<Rightarrow>
               (if \<not> event_fits k (ac_gate a) then (a, Refused CodeAccountingFailed)
                else if \<not> spawned
                then (a\<lparr>ac_retry_sessions := dict_pop k (ac_retry_sessions a)\<rparr>, Refused CodeAccountingFailed)
                else (own_commit sid s e k a, Answered (Some sid)))
           | Some owner \<Rightarrow>
               (case dict_get (ac_sessions a) owner of
                  None \<Rightarrow> (a, Refused CodeAccountingFailed)
                | Some other \<Rightarrow>
                    (if \<not> sn_owned other then (a, Refused CodeAccountingFailed)
                     else if \<not> spawned then (a, Refused CodeAccountingFailed)
                     else (follow_commit sid s e k owner a, Answered (Some sid))))))"

section \<open>Recording an event\<close>

text \<open>The source's answer to \<open>accept_accounting_event\<close>; \<open>apply\<close> is the callback that charges.\<close>

definition source_answered :: "(event \<Rightarrow> string) \<Rightarrow> clock \<Rightarrow> event_key \<Rightarrow> event \<Rightarrow> acceptance option answer \<Rightarrow>
    (acceptance \<Rightarrow> acct \<Rightarrow> acct \<times> unit answer) \<Rightarrow> acct \<Rightarrow> acct \<times> acceptance answer" where
  "source_answered fp ck k e ans apply_acc a =
     (case answer_bind ans (\<lambda>result. validate_source_result fp result k) of
        Refused c \<Rightarrow>
          (case finish_source_failure k e (\<not> permanent_code c) (ac_gate a) of
             (g, Broke) \<Rightarrow> (a\<lparr>ac_gate := g\<rparr>, Broke)
           | (g, _) \<Rightarrow> (a\<lparr>ac_gate := wake_projector (record_code ck c g)\<rparr>, Refused c))
      | Broke \<Rightarrow>
          (case finish_source_failure k e True (ac_gate a) of
             (g, Broke) \<Rightarrow> (a\<lparr>ac_gate := g\<rparr>, Broke)
           | (g, _) \<Rightarrow> (a\<lparr>ac_gate := wake_projector (record_error ck CodeAccountingFailed False True g)\<rparr>,
               Refused CodeAccountingFailed))
      | Answered acc \<Rightarrow>
          (case accept_source_result fp k (acc_stored acc) True (ac_gate a) of
             (g, Answered _) \<Rightarrow>
               (case apply_acc acc (a\<lparr>ac_gate := g\<rparr>) of
                  (a1, Answered _) \<Rightarrow> (a1, Answered acc)
                | (a1, Refused c) \<Rightarrow>
                    (on_gate (\<lambda>g1. wake_projector (record_code ck c (retain_event k (st_event (acc_stored acc)) g1))) a1,
                     Refused c)
                | (a1, Broke) \<Rightarrow>
                    (on_gate (\<lambda>g1. wake_projector (record_error ck CodeAccountingFailed False True
                        (retain_event k (st_event (acc_stored acc)) g1))) a1,
                     Refused CodeAccountingFailed))
           | (g, _) \<Rightarrow> (a\<lparr>ac_gate := g\<rparr>, Broke)))"

definition receipt_of :: "(event \<Rightarrow> string) \<Rightarrow> acceptance \<Rightarrow> projection_status \<Rightarrow> receipt" where
  "receipt_of fp acc status =
     (let st = acc_stored acc; e = st_event st
      in \<lparr>rp_source_status = acc_status acc, rp_projection_status = status, rp_event_id = ev_event_id e,
          rp_fingerprint = fp e, rp_usage_row_id = st_usage_row_id st,
          rp_child_event_ids = ev_child_event_ids e, rp_child_fingerprints = ev_child_fingerprints e\<rparr>)"

text \<open>The status of an event the source already holds as projected.\<close>

definition settled_status :: "event \<Rightarrow> projection_status" where
  "settled_status e = (if ev_kind e = Charge \<and> ev_api_key_id e \<noteq> None then ProjAlreadyApplied else ProjNoSink)"

definition record_projected :: "(event \<Rightarrow> string) \<Rightarrow> clock \<Rightarrow> acceptance \<Rightarrow> project_answers \<Rightarrow> gate \<Rightarrow>
    gate \<times> receipt answer" where
  "record_projected fp ck acc pa g = (case project_stored fp ck (acc_stored acc) pa g of
     (g1, ProjectedAs status) \<Rightarrow> (g1, Answered (receipt_of fp acc status))
   | (g1, Tolerated c) \<Rightarrow>
       (wake_projector (record_error ck c False False g1), Answered (receipt_of fp acc ProjPending))
   | (g1, ProjectRefused c) \<Rightarrow> (wake_projector (record_code ck c g1), Refused c))"

section \<open>The owner task of a commit\<close>

definition commit_finish :: "clock \<Rightarrow> string \<Rightarrow> event_key \<Rightarrow> receipt \<Rightarrow> acct \<Rightarrow> acct" where
  "commit_finish ck sid k rc a =
     (let a1 = unregister_retry k sid a;
          ok = \<lparr>cl_result = Answered (Some rc), cl_clear = False, cl_unregister = None\<rparr>
      in case dict_get (ac_sessions a1) sid of
           None \<Rightarrow> finish_task sid ok a1
         | Some s \<Rightarrow>
             (if \<not> liability_applied s
              then fail_session ck sid (failed_with (Refused CodeAccountingFailed) None) a1
              else close_session sid s ok a1))"

text \<open>A transient failure of the record phase waits for the projector's retry.\<close>

definition commit_refused :: "clock \<Rightarrow> string \<Rightarrow> event \<Rightarrow> event_key \<Rightarrow> accounting_code \<Rightarrow> acct \<Rightarrow> acct" where
  "commit_refused ck sid e k c a =
     (case dict_get (ac_sessions a) sid of
        Some s \<Rightarrow>
          (if \<not> permanent_code c \<and> (dict_get (gt_retained (ac_gate a)) k \<noteq> None \<or> liability_applied s)
           then (let a1 = put_session sid (s\<lparr>sn_state := SRetrying\<rparr>) a
                 in if sn_retry s \<noteq> None then a1\<lparr>ac_tasks := dict_set sid (AtRetry e) (ac_tasks a1)\<rparr>
                    else fail_session ck sid (failed_with (Refused c) (Some k)) a1)
           else fail_session ck sid (failed_with (Refused c) (Some k)) a)
      | None \<Rightarrow> fail_session ck sid (failed_with (Refused c) (Some k)) a)"

definition commit_continue :: "clock \<Rightarrow> string \<Rightarrow> event \<Rightarrow> event_key \<Rightarrow> acct \<times> receipt answer \<Rightarrow> acct" where
  "commit_continue ck sid e k r = (case r of
     (a, Answered rc) \<Rightarrow> commit_finish ck sid k rc a
   | (a, Refused c) \<Rightarrow> commit_refused ck sid e k c a
   | (a, Broke) \<Rightarrow> fail_session ck sid (failed_with Broke (Some k)) a)"

text \<open>The three places where the owner task of a commit resumes.\<close>

definition commit_accepted :: "(event \<Rightarrow> string) \<Rightarrow> clock \<Rightarrow> string \<Rightarrow> event \<Rightarrow> acceptance option answer \<Rightarrow> acct \<Rightarrow> acct" where
  "commit_accepted fp ck sid e ans a =
     (let k = (ev_event_id e, fp e)
      in case source_answered fp ck k e ans (apply_session_liability fp ck sid) a of
           (a1, Answered acc) \<Rightarrow>
             (if st_projected_at (acc_stored acc) \<noteq> None
              then commit_continue ck sid e k
                (a1, Answered (receipt_of fp acc (settled_status (st_event (acc_stored acc)))))
              else a1\<lparr>ac_tasks := dict_set sid (AtProject e acc) (ac_tasks a1)\<rparr>)
         | (a1, Refused c) \<Rightarrow> commit_continue ck sid e k (a1, Refused c)
         | (a1, Broke) \<Rightarrow> commit_continue ck sid e k (a1, Broke))"

definition commit_projected :: "(event \<Rightarrow> string) \<Rightarrow> clock \<Rightarrow> string \<Rightarrow> event \<Rightarrow> acceptance \<Rightarrow> project_answers \<Rightarrow> acct \<Rightarrow> acct" where
  "commit_projected fp ck sid e acc pa a =
     (let (g, r) = record_projected fp ck acc pa (ac_gate a)
      in commit_continue ck sid e (ev_event_id e, fp e) (a\<lparr>ac_gate := g\<rparr>, r))"

definition commit_retried :: "(event \<Rightarrow> string) \<Rightarrow> clock \<Rightarrow> string \<Rightarrow> event \<Rightarrow> receipt answer \<Rightarrow> acct \<Rightarrow> acct" where
  "commit_retried fp ck sid e r a =
     (let k = (ev_event_id e, fp e)
      in case r of
           Answered rc \<Rightarrow> commit_finish ck sid k rc a
         | Refused c \<Rightarrow> fail_session ck sid (failed_with (Refused c) (Some k)) a
         | Broke \<Rightarrow> fail_session ck sid (failed_with Broke (Some k)) a)"

text \<open>A session that commits an event another session already owns waits for that owner's receipt
  and is settled as a duplicate.\<close>

definition follow_finish :: "clock \<Rightarrow> string \<Rightarrow> receipt \<Rightarrow> acct \<Rightarrow> acct" where
  "follow_finish ck sid rc a =
     (let ok = \<lparr>cl_result = Answered (Some (rc\<lparr>rp_source_status := SourceDuplicate\<rparr>)), cl_clear = True,
                cl_unregister = None\<rparr>
      in case dict_get (ac_sessions a) sid of
           None \<Rightarrow> finish_task sid ok a
         | Some s \<Rightarrow>
             (if \<not> liability_applied s
              then fail_session ck sid (failed_with (Refused CodeAccountingFailed) None) a
              else close_session sid s ok a))"

definition follow_owner :: "clock \<Rightarrow> string \<Rightarrow> receipt option answer \<Rightarrow> acct \<Rightarrow> acct" where
  "follow_owner ck sid owner_result a = (case owner_result of
     Answered (Some rc) \<Rightarrow>
       (case apply_duplicate_session ck sid a of
          (a1, Answered _) \<Rightarrow> follow_finish ck sid rc a1
        | (a1, Refused c) \<Rightarrow>
            (let a2 = on_gate (record_code ck c) a1
             in if permanent_code c then fail_session ck sid (failed_with (Refused c) None) a2 else a2)
        | (a1, Broke) \<Rightarrow> fail_session ck sid (failed_with Broke None) a1)
   | Answered None \<Rightarrow> fail_session ck sid (failed_with (Refused CodeAccountingFailed) None) a
   | Refused c \<Rightarrow> fail_session ck sid (failed_with (Refused c) None) a
   | Broke \<Rightarrow> fail_session ck sid (failed_with Broke None) a)"

end
