(* ===== verification/Accounting_Keys.thy ===== *)
theory Accounting_Keys
  imports Accounting_Sessions
begin

text \<open>
  Changes of virtual keys under accounting (\<open>services/accounting_service.py\<close>): updating a key,
  resetting the budgets that are due, deleting a key. A change fences the key, drains what is
  unsettled under the drain lock, writes the database and re-reads the key into ledger and limits.

  The database answers are arguments. A change in flight is an entry of \<open>ac_updates\<close>, \<open>ac_resets\<close> or
  \<open>ac_deletes\<close>. Pages of due keys are independent steps: the reset of one page is not awaited before
  the next page is marked.
\<close>

section \<open>Key records\<close>

record key_record =
  kr_id :: int
  kr_budget :: "py_num option"
  kr_spent :: py_num
  kr_rpm :: "py_num option"
  kr_tpm :: "py_num option"

definition validate_key_record :: "key_record \<Rightarrow> int \<Rightarrow> (rat option \<times> rat) answer" where
  "validate_key_record r k =
     (if kr_id r \<noteq> k then Refused CodeInvalidContract
      else answer_bind (optional_non_negative_float (kr_budget r)) (\<lambda>budget.
           answer_bind (non_negative_float (kr_spent r)) (\<lambda>spent. Answered (budget, spent))))"

definition sync_key_record :: "key_record \<Rightarrow> rat option \<Rightarrow> rat \<Rightarrow> acct \<Rightarrow> acct \<times> unit answer" where
  "sync_key_record r budget spent a =
     (case answer_bind (optional_positive_int (kr_rpm r)) (\<lambda>rpm.
           answer_bind (optional_positive_int (kr_tpm r)) (\<lambda>tpm. Answered (rpm, tpm))) of
        Refused c \<Rightarrow> (a, Refused c)
      | Broke \<Rightarrow> (a, Broke)
      | Answered limits \<Rightarrow>
          (a\<lparr>ac_ledger := reset_record (kr_id r) budget spent (ac_ledger a),
             ac_known := List.insert (kr_id r) (ac_known a),
             ac_limits := dict_set (kr_id r) limits (ac_limits a)\<rparr>, Answered ()))"

text \<open>An exception that is no accounting error is reported as a failed write.\<close>

definition write_failed :: "'a answer \<Rightarrow> 'a answer" where
  "write_failed r = (case r of Broke \<Rightarrow> Refused CodeProjectionWriteFailed | _ \<Rightarrow> r)"

definition mutable_state :: "acct \<Rightarrow> bool" where
  "mutable_state a \<longleftrightarrow> gt_state (ac_gate a) = HRunning \<or> gt_state (ac_gate a) = HBlocked"

definition key_active :: "int \<Rightarrow> acct \<Rightarrow> bool" where
  "key_active k a \<longleftrightarrow> dict_default 0 (ac_active a) k \<noteq> 0"

definition unfence :: "int \<Rightarrow> accounting_code \<Rightarrow> acct \<Rightarrow> acct" where
  "unfence k c a =
     (if dict_get (ac_fences a) k = Some c then a\<lparr>ac_fences := dict_pop k (ac_fences a)\<rparr> else a)"

section \<open>Draining before a change\<close>

text \<open>The check at the end of \<open>_drain_before_key_mutation_locked\<close>: \<open>None\<close> when everything is settled.\<close>

definition drained_clean :: "drain_pass \<Rightarrow> gate \<Rightarrow> bool" where
  "drained_clean p g \<longleftrightarrow> dp_retained_clean p \<and> dp_pending_clean p \<and> gt_retained g = [] \<and>
     gt_inflight g = [] \<and> gt_pending g = []"

section \<open>Updating a key\<close>

text \<open>\<open>resets_limiter\<close>: the changes name \<open>rpm\<close> or \<open>tpm\<close>. \<open>Answered False\<close>: the key is deleted and the
  call returns \<open>None\<close>.\<close>

definition update_begin :: "py_num \<Rightarrow> bool \<Rightarrow> bool \<Rightarrow> acct \<Rightarrow> acct \<times> bool answer" where
  "update_begin key resets_limiter reset_spent a = (case positive_integer key of
     Refused c \<Rightarrow> (a, Refused c)
   | Broke \<Rightarrow> (a, Broke)
   | Answered k \<Rightarrow>
       (if \<not> mutable_state a then (a, Refused CodeAdmissionClosed)
        else if k \<in> set (ac_deleted a) then (a, Answered False)
        else if dict_get (ac_fences a) k \<noteq> None then (a, Refused CodeAccountingInFlight)
        else if (reset_spent \<or> resets_limiter) \<and> key_active k a then (a, Refused CodeAccountingInFlight)
        else (a\<lparr>ac_fences := dict_set k CodeAccountingInFlight (ac_fences a),
                ac_updates := dict_set k resets_limiter (ac_updates a)\<rparr>, Answered True)))"

definition update_apply :: "int \<Rightarrow> bool \<Rightarrow> key_record option answer \<Rightarrow> acct \<Rightarrow> acct \<times> key_record option answer" where
  "update_apply k resets_limiter ans a = (case ans of
     Refused c \<Rightarrow> (a, Refused c)
   | Broke \<Rightarrow> (a, Broke)
   | Answered None \<Rightarrow> (a, Answered None)
   | Answered (Some r) \<Rightarrow>
       (case validate_key_record r k of
          Refused c \<Rightarrow> (a, Refused c)
        | Broke \<Rightarrow> (a, Broke)
        | Answered (budget, spent) \<Rightarrow>
            then_do (sync_key_record r budget spent a) (\<lambda>a1 _.
              (if resets_limiter then a1\<lparr>ac_limiter := rl_reset (Some k) (ac_limiter a1)\<rparr> else a1,
               Answered (Some r)))))"

text \<open>The end of an update, with the answer of the database or the error of its drain.\<close>

definition update_finish :: "int \<Rightarrow> bool \<Rightarrow> key_record option answer \<Rightarrow> acct \<Rightarrow> acct \<times> key_record option answer" where
  "update_finish k resets_limiter ans a =
     (let (a1, r) = update_apply k resets_limiter ans a
      in (unfence k CodeAccountingInFlight (a1\<lparr>ac_updates := dict_pop k (ac_updates a1)\<rparr>), write_failed r))"

section \<open>Due budgets\<close>

fun due_rows_ok :: "int \<Rightarrow> int list \<Rightarrow> bool" where
  "due_rows_ok previous [] = True"
| "due_rows_ok previous (k # ks) = (0 < k \<and> previous < k \<and> due_rows_ok k ks)"

definition validate_due_key_ids :: "int \<Rightarrow> int list \<Rightarrow> int option \<Rightarrow> int list answer" where
  "validate_due_key_ids batch_size rows after =
     (if int (length rows) > batch_size \<or> \<not> due_rows_ok (case after of None \<Rightarrow> 0 | Some k \<Rightarrow> k) rows
      then Refused CodeInvalidContract else Answered rows)"

fun mark_due :: "time \<Rightarrow> int list \<Rightarrow> acct \<Rightarrow> acct \<times> int list" where
  "mark_due moment [] a = (a, [])"
| "mark_due moment (k # ks) a =
     (if k \<in> set (ac_deleted a) then mark_due moment ks a
      else if dict_get (ac_fences a) k \<noteq> None \<and> dict_get (ac_fences a) k \<noteq> Some CodeBudgetResetInProgress
      then mark_due moment ks a
      else let (a1, eligible) = mark_due moment ks
                 (a\<lparr>ac_reset_pending := dict_set k moment (ac_reset_pending a),
                    ac_fences := dict_set k CodeBudgetResetInProgress (ac_fences a)\<rparr>)
           in (a1, if key_active k a then eligible else k # eligible))"

definition due_begin :: "time \<Rightarrow> acct \<Rightarrow> acct \<times> unit answer" where
  "due_begin moment a =
     (if \<not> mutable_state a then (a, Refused CodeAdmissionClosed)
      else (a\<lparr>ac_due := dict_set moment None (ac_due a)\<rparr>, Answered ()))"

text \<open>One page: its keys are fenced, those without sessions are reset at once.\<close>

definition due_page :: "time \<Rightarrow> int list answer \<Rightarrow> acct \<Rightarrow> acct \<times> unit answer" where
  "due_page moment rows a = (case dict_get (ac_due a) moment of
     None \<Rightarrow> (a, Answered ())
   | Some after \<Rightarrow>
       (case answer_bind (write_failed rows) (\<lambda>ks. validate_due_key_ids (gt_batch_size (ac_gate a)) ks after) of
          Refused c \<Rightarrow> (a\<lparr>ac_due := dict_pop moment (ac_due a)\<rparr>, Refused c)
        | Broke \<Rightarrow> (a\<lparr>ac_due := dict_pop moment (ac_due a)\<rparr>, Broke)
        | Answered ks \<Rightarrow>
            (let (a1, eligible) = mark_due moment ks a;
                 a2 = (if eligible = [] then a1 else a1\<lparr>ac_resets := ac_resets a1 @
                   [Some \<lparr>rt_moment = moment, rt_keys = eligible, rt_waiter = None\<rparr>]\<rparr>)
             in (a2\<lparr>ac_due := (if ks = [] \<or> int (length ks) < gt_batch_size (ac_gate a)
                             then dict_pop moment (ac_due a2)
                             else dict_set moment (Some (last ks)) (ac_due a2))\<rparr>, Answered ()))))"

text \<open>The records a reset returns; every record is synchronised before the next is checked.\<close>

fun sync_reset_records :: "int list \<Rightarrow> int list \<Rightarrow> key_record list \<Rightarrow> acct \<Rightarrow> acct \<times> unit answer" where
  "sync_reset_records keys seen [] a = (a, Answered ())"
| "sync_reset_records keys seen (r # rs) a =
     (if kr_id r \<notin> set keys \<or> kr_id r \<in> set seen then (a, Refused CodeInvalidContract)
      else case validate_key_record r (kr_id r) of
        Refused c \<Rightarrow> (a, Refused c)
      | Broke \<Rightarrow> (a, Broke)
      | Answered (budget, spent) \<Rightarrow>
          then_do (sync_key_record r budget spent a) (\<lambda>a1 _. sync_reset_records keys (kr_id r # seen) rs a1))"

fun end_resets :: "int list \<Rightarrow> acct \<Rightarrow> acct" where
  "end_resets [] a = a"
| "end_resets (k # ks) a =
     end_resets ks (unfence k CodeBudgetResetInProgress (a\<lparr>ac_reset_pending := dict_pop k (ac_reset_pending a)\<rparr>))"

definition reset_apply :: "reset_task \<Rightarrow> key_record list answer \<Rightarrow> acct \<Rightarrow> acct \<times> unit answer" where
  "reset_apply t ans a =
     (case (case ans of
              Refused c \<Rightarrow> (a, Refused c) | Broke \<Rightarrow> (a, Broke)
            | Answered rs \<Rightarrow> sync_reset_records (rt_keys t) [] rs a) of
        (a1, Answered _) \<Rightarrow> (end_resets (rt_keys t) a1, Answered ())
      | (a1, r) \<Rightarrow> (a1, write_failed r))"

text \<open>The task that waits for the reset goes on: with its own result, or with the error of the reset.\<close>

definition reset_finish :: "nat \<Rightarrow> reset_task \<Rightarrow> key_record list answer \<Rightarrow> acct \<Rightarrow> acct" where
  "reset_finish i t ans a =
     (let (a1, r) = reset_apply t ans a;
          a2 = a1\<lparr>ac_resets := (ac_resets a1)[i := None]\<rparr>
      in case rt_waiter t of
           None \<Rightarrow> a2
         | Some sid \<Rightarrow>
             (case dict_get (ac_tasks a2) sid of
                Some (AtReset cl) \<Rightarrow>
                  (case r of
                     Answered _ \<Rightarrow> finish_task sid cl a2
                   | Refused c \<Rightarrow> finish_task sid (cl\<lparr>cl_result := Refused c, cl_clear := False\<rparr>) a2
                   | Broke \<Rightarrow> finish_task sid (cl\<lparr>cl_result := Broke, cl_clear := False\<rparr>) a2)
              | _ \<Rightarrow> a2))"

section \<open>Deleting a key\<close>

definition delete_begin :: "py_num \<Rightarrow> acct \<Rightarrow> acct \<times> bool answer" where
  "delete_begin key a = (case positive_integer key of
     Refused c \<Rightarrow> (a, Refused c)
   | Broke \<Rightarrow> (a, Broke)
   | Answered k \<Rightarrow>
       (if \<not> mutable_state a then (a, Refused CodeAdmissionClosed)
        else if k \<in> set (ac_deleted a) then (a, Answered False)
        else if dict_get (ac_fences a) k \<noteq> None \<and> dict_get (ac_reset_pending a) k = None
        then (a, Refused CodeAccountingInFlight)
        else (a\<lparr>ac_fences := dict_set k CodeAdmissionClosed (ac_fences a),
                ac_deletes := ac_deletes a @ [(k, dict_get (ac_reset_pending a) k)]\<rparr>, Answered True)))"

definition restore_fence :: "int \<Rightarrow> time option \<Rightarrow> acct \<Rightarrow> acct" where
  "restore_fence k previous_pending a =
     a\<lparr>ac_fences := (if previous_pending = None then dict_pop k (ac_fences a)
                     else dict_set k CodeBudgetResetInProgress (ac_fences a))\<rparr>"

definition delete_finish :: "int \<Rightarrow> time option \<Rightarrow> bool answer \<Rightarrow> acct \<Rightarrow> acct \<times> bool answer" where
  "delete_finish k previous_pending ans a =
     (let a0 = a\<lparr>ac_deletes := remove1 (k, previous_pending) (ac_deletes a)\<rparr>
      in case ans of
           Answered True \<Rightarrow>
             (let a1 = a0\<lparr>ac_deleted := List.insert k (ac_deleted a0),
                          ac_reset_pending := dict_pop k (ac_reset_pending a0)\<rparr>
              in (if key_active k a1 then a1 else forget_key k a1, Answered True))
         | Answered False \<Rightarrow> (restore_fence k previous_pending a0, Answered False)
         | Refused c \<Rightarrow> (restore_fence k previous_pending a0, Refused c)
         | Broke \<Rightarrow> (restore_fence k previous_pending a0, Refused CodeProjectionWriteFailed))"

end
