(* ===== verification/Accounting_Service.thy ===== *)
theory Accounting_Service
  imports Accounting_Keys
begin

text \<open>
  The accounting service as one machine (\<open>services/accounting_service.py\<close>): the retries of retained
  events, the drains under the drain lock with what their holders do afterwards (projector,
  runtime reconciliation, key changes, stop), events recorded without a session, and \<open>acct_step\<close>,
  one piece of any task between two awaits.

  A drain is a sequence of steps, one per answer of source or sink, with any steps of other tasks in
  between. Which retained key comes next, which pending rows are listed and when a drain ends are
  inputs, so the machine has every order the loops can take and more.
\<close>

section \<open>Retry futures\<close>

definition publish_to :: "receipt answer \<Rightarrow> string \<Rightarrow> acct \<Rightarrow> acct" where
  "publish_to r sid a = (case dict_get (ac_sessions a) sid of
     None \<Rightarrow> a
   | Some s \<Rightarrow> (if sn_retry s = Some None then put_session sid (s\<lparr>sn_retry := Some (Some r)\<rparr>) a else a))"

definition publish_retry :: "receipt answer \<Rightarrow> event_key \<Rightarrow> acct \<Rightarrow> acct" where
  "publish_retry r k a = (case dict_get (ac_retry_sessions a) k of
     None \<Rightarrow> a
   | Some sid \<Rightarrow> publish_to r sid a)"

definition publish_all_retry_errors :: "receipt answer \<Rightarrow> acct \<Rightarrow> acct" where
  "publish_all_retry_errors r a = fold (\<lambda>p. publish_to r (snd p)) (ac_retry_sessions a) a"

section \<open>Drains\<close>

definition begin_pass :: "drain_user \<Rightarrow> acct \<Rightarrow> acct" where
  "begin_pass u a = a\<lparr>ac_pass := Some \<lparr>dp_user = u, dp_retained_clean = True, dp_pending_clean = True,
     dp_projecting = None, dp_drained = False\<rparr>\<rparr>"

definition retry_dirty :: "acct \<Rightarrow> acct" where
  "retry_dirty a = a\<lparr>ac_pass := map_option (\<lambda>p. p\<lparr>dp_retained_clean := False\<rparr>) (ac_pass a)\<rparr>"

definition pending_dirty :: "acct \<Rightarrow> acct" where
  "pending_dirty a = a\<lparr>ac_pass := map_option (\<lambda>p. p\<lparr>dp_pending_clean := False\<rparr>) (ac_pass a)\<rparr>"

definition projecting :: "(event_key \<times> acceptance) option \<Rightarrow> acct \<Rightarrow> acct" where
  "projecting x a = a\<lparr>ac_pass := map_option (\<lambda>p. p\<lparr>dp_projecting := x\<rparr>) (ac_pass a)\<rparr>"

text \<open>One iteration of \<open>_retry_retained_locked\<close>, to the end of the charge. An answer other than
  \<open>Answered\<close> ends the drain with that error.\<close>

definition retry_status :: "event_key \<Rightarrow> acceptance \<Rightarrow> acct \<Rightarrow> acceptance" where
  "retry_status k acc a = (case dict_get (ac_retry_sessions a) k of
     None \<Rightarrow> acc
   | Some sid \<Rightarrow>
       (if acc_status acc = SourceDuplicate \<and>
           (case dict_get (ac_sessions a) sid of None \<Rightarrow> True | Some s \<Rightarrow> sn_charge s \<noteq> Some False)
        then acc\<lparr>acc_status := SourceRecovered\<rparr> else acc))"

definition retry_charge :: "(event \<Rightarrow> string) \<Rightarrow> clock \<Rightarrow> event_key \<Rightarrow> acceptance \<Rightarrow> acct \<Rightarrow> acct \<times> unit answer" where
  "retry_charge fp ck k acc a = (case dict_get (ac_retry_sessions a) k of
     None \<Rightarrow> (a, Answered ())
   | Some sid \<Rightarrow> apply_session_liability fp ck sid acc a)"

definition retry_accepted :: "(event \<Rightarrow> string) \<Rightarrow> clock \<Rightarrow> event_key \<Rightarrow> acceptance option answer \<Rightarrow> acct \<Rightarrow>
    acct \<times> unit answer" where
  "retry_accepted fp ck k ans a =
     (case answer_bind ans (\<lambda>result. validate_source_result fp result k) of
        Refused c \<Rightarrow>
          (if permanent_code c
           then (publish_retry (Refused c) k (on_gate (\<lambda>g. g\<lparr>gt_retained := dict_pop k (gt_retained g)\<rparr>) a), Refused c)
           else (retry_dirty (on_gate (record_error ck c False True) a), Answered ()))
      | Broke \<Rightarrow> (retry_dirty (on_gate (record_error ck CodeAccountingFailed False True) a), Answered ())
      | Answered acc0 \<Rightarrow>
          (let a1 = on_gate (\<lambda>g. fst (accept_source_result fp k (acc_stored acc0) False g)) a;
               acc = retry_status k acc0 a1
           in case retry_charge fp ck k acc a1 of
                (a2, Refused c) \<Rightarrow>
                  (if permanent_code c then (publish_retry (Refused c) k a2, Refused c)
                   else (retry_dirty (on_gate (\<lambda>g. record_error ck c False True
                           (retain_event k (st_event (acc_stored acc)) g)) a2), Answered ()))
              | (a2, Broke) \<Rightarrow> (publish_retry Broke k a2, Broke)
              | (a2, Answered _) \<Rightarrow>
                  (if st_projected_at (acc_stored acc) \<noteq> None
                   then (publish_retry (Answered (receipt_of fp acc (settled_status (st_event (acc_stored acc))))) k a2,
                         Answered ())
                   else (projecting (Some (k, acc)) a2, Answered ()))))"

text \<open>The rest of the iteration, with the answers of the projection.\<close>

definition retry_projected :: "(event \<Rightarrow> string) \<Rightarrow> clock \<Rightarrow> event_key \<Rightarrow> acceptance \<Rightarrow> project_answers \<Rightarrow> acct \<Rightarrow>
    acct \<times> unit answer" where
  "retry_projected fp ck k acc pa a =
     (let a0 = projecting None a
      in case project_stored fp ck (acc_stored acc) pa (ac_gate a0) of
           (g, ProjectedAs status) \<Rightarrow>
             (let a1 = publish_retry (Answered (receipt_of fp acc status)) k (a0\<lparr>ac_gate := g\<rparr>)
              in (if status = ProjPending then retry_dirty a1 else a1, Answered ()))
         | (g, Tolerated c) \<Rightarrow>
             (publish_retry (Answered (receipt_of fp acc ProjPending)) k
                (a0\<lparr>ac_gate := record_error ck c False False g\<rparr>), Answered ())
         | (g, ProjectRefused c) \<Rightarrow>
             (if permanent_code c then (publish_retry (Refused c) k (a0\<lparr>ac_gate := g\<rparr>), Refused c)
              else (retry_dirty (a0\<lparr>ac_gate := g\<rparr>), Answered ())))"

text \<open>One row of \<open>_drain_pending_locked\<close> (\<open>drain_rows\<close> is the loop over a page).\<close>

definition drain_row :: "(event \<Rightarrow> string) \<Rightarrow> clock \<Rightarrow> stored_event \<Rightarrow> project_answers \<Rightarrow> acct \<Rightarrow> acct \<times> unit answer" where
  "drain_row fp ck st pa a = (case mark_pending fp st (ac_gate a) of
     (g, Answered _) \<Rightarrow>
       (case project_stored fp ck st pa g of
          (g1, ProjectedAs status) \<Rightarrow>
            (if status = ProjPending then pending_dirty (a\<lparr>ac_gate := g1\<rparr>) else a\<lparr>ac_gate := g1\<rparr>, Answered ())
        | (g1, Tolerated c) \<Rightarrow> (a\<lparr>ac_gate := record_error ck c False False g1\<rparr>, Answered ())
        | (g1, ProjectRefused c) \<Rightarrow>
            (if permanent_code c then (a\<lparr>ac_gate := g1\<rparr>, Refused c)
             else (pending_dirty (a\<lparr>ac_gate := g1\<rparr>), Answered ())))
   | (g, Refused c) \<Rightarrow> (a\<lparr>ac_gate := g\<rparr>, Refused c)
   | (g, Broke) \<Rightarrow> (a\<lparr>ac_gate := g\<rparr>, Broke))"

section \<open>What the holder of a drain does at its end\<close>

text \<open>Retained events are clean when every retry succeeded, or when none is left.\<close>

definition pass_clean :: "drain_pass \<Rightarrow> gate \<Rightarrow> bool" where
  "pass_clean p g \<longleftrightarrow> (dp_retained_clean p \<or> gt_retained g = []) \<and> dp_pending_clean p"

definition projector_end :: "clock \<Rightarrow> drain_pass \<Rightarrow> unit answer \<Rightarrow> acct \<Rightarrow> acct" where
  "projector_end ck p r a = (case r of
     Answered _ \<Rightarrow> (if pass_clean p (ac_gate a) then on_gate clear_transient_block a else a)
   | Refused c \<Rightarrow>
       (let a1 = on_gate (record_code ck c) a
        in if permanent_code c then (publish_all_retry_errors (Refused c) a1)\<lparr>ac_projector := False\<rparr> else a1)
   | Broke \<Rightarrow>
       (on_gate (record_error ck CodeAccountingFailed True True) (publish_all_retry_errors Broke a))
         \<lparr>ac_projector := False\<rparr>)"

definition reconcile_end :: "clock \<Rightarrow> drain_pass \<Rightarrow> unit answer \<Rightarrow> acct \<Rightarrow> acct" where
  "reconcile_end ck p r a =
     (let a0 = a\<lparr>ac_reconciling := False\<rparr>
      in case r of
           Refused c \<Rightarrow> on_gate (record_code ck c) a0
         | Broke \<Rightarrow> on_gate (record_error ck CodeAccountingFailed False True) a0
         | Answered _ \<Rightarrow>
             (if pass_clean p (ac_gate a0) \<and> gt_retained (ac_gate a0) = [] \<and> gt_pending (ac_gate a0) = []
              then on_gate clear_transient_block a0
              else on_gate (record_error ck CodeReconcileFailed False True) a0))"

text \<open>A key change goes on to its database call when everything is settled, and fails otherwise.\<close>

definition change_end :: "drain_pass \<Rightarrow> unit answer \<Rightarrow> acct \<Rightarrow> acct" where
  "change_end p r a =
     (let r' = (case r of
           Answered _ \<Rightarrow> if drained_clean p (ac_gate a) then Answered () else Refused CodeDrainFailed
         | Refused c \<Rightarrow> Refused c
         | Broke \<Rightarrow> Broke)
      in case r' of
           Answered _ \<Rightarrow> a\<lparr>ac_pass := Some (p\<lparr>dp_drained := True\<rparr>)\<rparr>
         | Refused c \<Rightarrow>
             (case dp_user p of
                ByUpdate k \<Rightarrow> fst (update_finish k (dict_default False (ac_updates a) k) (Refused c) (a\<lparr>ac_pass := None\<rparr>))
              | ByReset i \<Rightarrow>
                  (case ac_resets a ! i of
                     None \<Rightarrow> a\<lparr>ac_pass := None\<rparr>
                   | Some t \<Rightarrow> reset_finish i t (Refused c) (a\<lparr>ac_pass := None\<rparr>))
              | _ \<Rightarrow> a\<lparr>ac_pass := None\<rparr>)
         | Broke \<Rightarrow>
             (case dp_user p of
                ByUpdate k \<Rightarrow> fst (update_finish k (dict_default False (ac_updates a) k) Broke (a\<lparr>ac_pass := None\<rparr>))
              | ByReset i \<Rightarrow>
                  (case ac_resets a ! i of
                     None \<Rightarrow> a\<lparr>ac_pass := None\<rparr>
                   | Some t \<Rightarrow> reset_finish i t Broke (a\<lparr>ac_pass := None\<rparr>))
              | _ \<Rightarrow> a\<lparr>ac_pass := None\<rparr>))"

text \<open>The last part of \<open>_stop_workflow\<close>, with the report of the full audit.\<close>

definition terminal_clean :: "bool \<Rightarrow> reconciliation_report option \<Rightarrow> acct \<Rightarrow> bool" where
  "terminal_clean drained report a \<longleftrightarrow>
     drained \<and> (case report of None \<Rightarrow> False | Some r \<Rightarrow> report_clean r) \<and>
     unsettled_count (ac_gate a) = 0 \<and> ac_sessions a = [] \<and> ac_active a = [] \<and>
     ac_reset_pending a = [] \<and> gt_fatal (ac_gate a) = None"

definition stop_close :: "clock \<Rightarrow> bool \<Rightarrow> reconciliation_report option \<Rightarrow> acct \<Rightarrow> acct" where
  "stop_close ck drained report a =
     (let a1 = (case report of None \<Rightarrow> a
           | Some r \<Rightarrow> if report_clean r then a else on_gate (record_error ck CodeReconcileFailed True True) a)
      in on_gate (set_state (if terminal_clean drained report a1 then HStopped else HFailed) False None)
           (a1\<lparr>ac_stopping := False\<rparr>))"

definition stop_end :: "clock \<Rightarrow> drain_pass \<Rightarrow> unit answer \<Rightarrow> reconciliation_report option answer \<Rightarrow> acct \<Rightarrow> acct" where
  "stop_end ck p r report a = (case r of
     Refused c \<Rightarrow> stop_close ck False None (on_gate (record_code ck c) a)
   | Broke \<Rightarrow> stop_close ck False None (on_gate (record_error ck CodeAccountingFailed False True) a)
   | Answered _ \<Rightarrow>
       (if pass_clean p (ac_gate a) then
          (case full_reconcile report (ac_gate a) of
             (g, Answered rep) \<Rightarrow> stop_close ck True (Some rep) (a\<lparr>ac_gate := g\<rparr>)
           | (g, Refused c) \<Rightarrow> stop_close ck False None (a\<lparr>ac_gate := record_code ck c g\<rparr>)
           | (g, Broke) \<Rightarrow> stop_close ck False None (a\<lparr>ac_gate := record_error ck CodeAccountingFailed False True g\<rparr>))
        else stop_close ck False None a))"

definition end_pass :: "clock \<Rightarrow> unit answer \<Rightarrow> reconciliation_report option answer \<Rightarrow> acct \<Rightarrow> acct" where
  "end_pass ck r report a = (case ac_pass a of
     None \<Rightarrow> a
   | Some p \<Rightarrow>
       (case dp_user p of
          ByProjector \<Rightarrow> projector_end ck p r (a\<lparr>ac_pass := None\<rparr>)
        | ByReconcile \<Rightarrow> reconcile_end ck p r (a\<lparr>ac_pass := None\<rparr>)
        | ByStop \<Rightarrow> stop_end ck p r report (a\<lparr>ac_pass := None\<rparr>)
        | _ \<Rightarrow> change_end p r a))"

text \<open>A step of the drain: an error ends it.\<close>

definition pass_step :: "clock \<Rightarrow> acct \<times> unit answer \<Rightarrow> acct" where
  "pass_step ck x = (case x of
     (a, Answered _) \<Rightarrow> a
   | (a, r) \<Rightarrow> end_pass ck r (Answered None) a)"

section \<open>Reconciliation, stop, recorded events\<close>

definition reconcile_begin :: "bool \<Rightarrow> acct \<Rightarrow> acct \<times> unit answer" where
  "reconcile_begin spawned a =
     (if \<not> gt_initialized (ac_gate a) \<or> gt_fatal (ac_gate a) \<noteq> None \<or> \<not> mutable_state a
      then (a, Refused CodeAccountingFailed)
      else if ac_reconciling a then (a, Answered ())
      else if \<not> spawned then (a, Refused CodeAccountingFailed)
      else (a\<lparr>ac_reconciling := True\<rparr>, Answered ()))"

definition begin_stop :: "bool \<Rightarrow> acct \<Rightarrow> acct \<times> unit answer" where
  "begin_stop spawned a =
     (if gt_state (ac_gate a) = HStopped then (a, Answered ())
      else if gt_state (ac_gate a) = HNew then (on_gate (set_state HStopped False None) a, Answered ())
      else if ac_stopping a then (on_gate (set_state HStopping False None) a, Answered ())
      else if \<not> spawned then (a, Refused CodeAccountingFailed)
      else ((on_gate (set_state HStopping False None) a)\<lparr>ac_stopping := True\<rparr>, Answered ()))"

text \<open>What \<open>_stop_workflow\<close> waits for before it stops the projector and drains.\<close>

definition stop_quiet :: "acct \<Rightarrow> bool" where
  "stop_quiet a \<longleftrightarrow> ac_stopping a \<and> ac_sessions a = [] \<and> ac_tasks a = [] \<and> ac_updates a = [] \<and>
     ac_deletes a = [] \<and> ac_due a = [] \<and> list_all (\<lambda>t. t = None) (ac_resets a) \<and> ac_owners a = [] \<and>
     \<not> ac_reconciling a"

definition record_begin :: "(event \<Rightarrow> string) \<Rightarrow> event \<Rightarrow> bool \<Rightarrow> acct \<Rightarrow> acct \<times> unit answer" where
  "record_begin fp e spawned a =
     (let k = (ev_event_id e, fp e)
      in if gt_state (ac_gate a) \<noteq> HRunning \<or> \<not> gt_accepting (ac_gate a) then (a, Refused CodeAccountingFailed)
         else if int (length (ac_owners a)) \<ge> ac_max_owners a then (a, Refused CodeAccountingFailed)
         else if \<not> event_fits k (ac_gate a) then (a, Refused CodeAccountingFailed)
         else if \<not> spawned then (a, Refused CodeAccountingFailed)
         else ((on_gate (take_source_owner k) a)\<lparr>ac_owners := ac_owners a @ [(e, None)]\<rparr>, Answered ()))"

definition drop_owner :: "nat \<Rightarrow> acct \<Rightarrow> acct" where
  "drop_owner i a = a\<lparr>ac_owners := take i (ac_owners a) @ drop (Suc i) (ac_owners a)\<rparr>"

definition record_accepted :: "(event \<Rightarrow> string) \<Rightarrow> clock \<Rightarrow> nat \<Rightarrow> event \<Rightarrow> acceptance option answer \<Rightarrow> acct \<Rightarrow> acct" where
  "record_accepted fp ck i e ans a =
     (case source_answered fp ck (ev_event_id e, fp e) e ans (\<lambda>acc a1. (a1, Answered ())) a of
        (a1, Answered acc) \<Rightarrow>
          (if st_projected_at (acc_stored acc) \<noteq> None then drop_owner i a1
           else a1\<lparr>ac_owners := (ac_owners a1)[i := (e, Some acc)]\<rparr>)
      | (a1, _) \<Rightarrow> drop_owner i a1)"

definition record_finished :: "(event \<Rightarrow> string) \<Rightarrow> clock \<Rightarrow> nat \<Rightarrow> acceptance \<Rightarrow> project_answers \<Rightarrow> acct \<Rightarrow> acct" where
  "record_finished fp ck i acc pa a =
     drop_owner i (a\<lparr>ac_gate := fst (record_projected fp ck acc pa (ac_gate a))\<rparr>)"

section \<open>The machine\<close>

datatype acct_input =
  InStart bool
| InStarted clock "(py_datetime \<times> string) option \<Rightarrow> stored_event list option answer"
    "stored_event \<Rightarrow> clock \<times> project_answers" "reconciliation_report option answer" bool
| InReserve clock string reserve_args
| InCommit reservation event bool
| InRelease reservation bool
| InRunRelease clock string
| InAccepted clock string "acceptance option answer"
| InProjected clock string project_answers
| InFollow clock string
| InRetried clock string
| InRecord event bool
| InRecordAccepted clock nat "acceptance option answer"
| InRecordProjected clock nat project_answers
| InPass drain_user
| InRetryAccepted clock event_key "acceptance option answer"
| InRetryProjected clock project_answers
| InDrainRow clock stored_event project_answers
| InListingFailed clock accounting_code
| InPassEnd clock "reconciliation_report option answer"
| InReconcile bool
| InUpdate py_num bool bool
| InUpdated "key_record option answer"
| InDue time
| InDuePage time "int list answer"
| InResetDone "key_record list answer"
| InDelete py_num
| InDeleted int "time option" "bool answer"
| InStop bool

text \<open>Who may take the free drain lock. The projector looks for a fatal error first and ends.\<close>

definition may_drain :: "drain_user \<Rightarrow> acct \<Rightarrow> bool" where
  "may_drain u a \<longleftrightarrow> ac_pass a = None \<and> (case u of
     ByProjector \<Rightarrow> ac_projector a
   | ByReconcile \<Rightarrow> ac_reconciling a
   | ByUpdate k \<Rightarrow> dict_get (ac_updates a) k \<noteq> None
   | ByReset i \<Rightarrow> i < length (ac_resets a) \<and> ac_resets a ! i \<noteq> None
   | ByStop \<Rightarrow> stop_quiet a)"

definition take_drain :: "drain_user \<Rightarrow> acct \<Rightarrow> acct" where
  "take_drain u a =
     (if \<not> may_drain u a then a
      else if u = ByProjector \<and> has_fatal_error (ac_gate a) then a\<lparr>ac_projector := False\<rparr>
      else if u = ByStop then begin_pass u (a\<lparr>ac_projector := False\<rparr>)
      else begin_pass u a)"

text \<open>A drain is between two rows, or awaits the projection of a retried event.\<close>

definition draining :: "acct \<Rightarrow> bool" where
  "draining a \<longleftrightarrow> (case ac_pass a of None \<Rightarrow> False | Some p \<Rightarrow> dp_projecting p = None \<and> \<not> dp_drained p)"

definition owner_at :: "nat \<Rightarrow> acct \<Rightarrow> (event \<times> acceptance option) option" where
  "owner_at i a = (if i < length (ac_owners a) then Some (ac_owners a ! i) else None)"

fun acct_step :: "(event \<Rightarrow> string) \<Rightarrow> acct_input \<Rightarrow> acct \<Rightarrow> acct" where
  "acct_step fp (InStart spawned) a = on_gate (\<lambda>g. fst (start_begin spawned g)) a"
| "acct_step fp (InStarted ck listing answers report spawned) a =
     (case start_workflow fp ck listing answers report spawned (ac_gate a) of
        None \<Rightarrow> a
      | Some (g, r) \<Rightarrow> a\<lparr>ac_gate := g, ac_projector := (r = Answered () \<or> ac_projector a)\<rparr>)"
| "acct_step fp (InReserve ck token ra) a = fst (reserve_session ck token ra a)"
| "acct_step fp (InCommit r e spawned) a = fst (begin_commit fp r e spawned a)"
| "acct_step fp (InRelease r spawned) a = fst (begin_release r spawned a)"
| "acct_step fp (InRunRelease ck sid) a =
     (if dict_get (ac_tasks a) sid = Some AtRelease then run_release ck sid a else a)"
| "acct_step fp (InAccepted ck sid ans) a = (case dict_get (ac_tasks a) sid of
     Some (AtAccept e) \<Rightarrow> commit_accepted fp ck sid e ans a | _ \<Rightarrow> a)"
| "acct_step fp (InProjected ck sid pa) a = (case dict_get (ac_tasks a) sid of
     Some (AtProject e acc) \<Rightarrow> (if ac_pass a = None then commit_projected fp ck sid e acc pa a else a) | _ \<Rightarrow> a)"
| "acct_step fp (InFollow ck sid) a = (case dict_get (ac_tasks a) sid of
     Some (AtFollow owner e) \<Rightarrow>
       (case dict_get (ac_results a) owner of None \<Rightarrow> a | Some r \<Rightarrow> follow_owner ck sid r a) | _ \<Rightarrow> a)"
| "acct_step fp (InRetried ck sid) a = (case dict_get (ac_tasks a) sid of
     Some (AtRetry e) \<Rightarrow>
       (case Option.bind (dict_get (ac_sessions a) sid) sn_retry of
          Some (Some r) \<Rightarrow> commit_retried fp ck sid e r a | _ \<Rightarrow> a) | _ \<Rightarrow> a)"
| "acct_step fp (InRecord e spawned) a = fst (record_begin fp e spawned a)"
| "acct_step fp (InRecordAccepted ck i ans) a = (case owner_at i a of
     Some (e, None) \<Rightarrow> record_accepted fp ck i e ans a | _ \<Rightarrow> a)"
| "acct_step fp (InRecordProjected ck i pa) a = (case owner_at i a of
     Some (e, Some acc) \<Rightarrow> (if ac_pass a = None then record_finished fp ck i acc pa a else a) | _ \<Rightarrow> a)"
| "acct_step fp (InPass u) a = take_drain u a"
| "acct_step fp (InRetryAccepted ck k ans) a =
     (if draining a then pass_step ck (retry_accepted fp ck k ans a) else a)"
| "acct_step fp (InRetryProjected ck pa) a = (case Option.bind (ac_pass a) dp_projecting of
     Some (k, acc) \<Rightarrow> pass_step ck (retry_projected fp ck k acc pa a) | None \<Rightarrow> a)"
| "acct_step fp (InDrainRow ck st pa) a = (if draining a then pass_step ck (drain_row fp ck st pa a) else a)"
| "acct_step fp (InListingFailed ck c) a = (if draining a then pass_step ck (a, Refused c) else a)"
| "acct_step fp (InPassEnd ck report) a = (if draining a then end_pass ck (Answered ()) report a else a)"
| "acct_step fp (InReconcile spawned) a = fst (reconcile_begin spawned a)"
| "acct_step fp (InUpdate key resets_limiter reset_spent) a = fst (update_begin key resets_limiter reset_spent a)"
| "acct_step fp (InUpdated ans) a = (case ac_pass a of
     Some p \<Rightarrow> (case dp_user p of
       ByUpdate k \<Rightarrow> (if dp_drained p
         then fst (update_finish k (dict_default False (ac_updates a) k) ans (a\<lparr>ac_pass := None\<rparr>)) else a)
     | _ \<Rightarrow> a)
   | None \<Rightarrow> a)"
| "acct_step fp (InDue moment) a = fst (due_begin moment a)"
| "acct_step fp (InDuePage moment rows) a = fst (due_page moment rows a)"
| "acct_step fp (InResetDone ans) a = (case ac_pass a of
     Some p \<Rightarrow> (case dp_user p of
       ByReset i \<Rightarrow> (case ac_resets a ! i of
           Some t \<Rightarrow> (if dp_drained p then reset_finish i t ans (a\<lparr>ac_pass := None\<rparr>) else a)
         | None \<Rightarrow> a)
     | _ \<Rightarrow> a)
   | None \<Rightarrow> a)"
| "acct_step fp (InDelete key) a = fst (delete_begin key a)"
| "acct_step fp (InDeleted k previous ans) a =
     (if (k, previous) \<in> set (ac_deletes a) \<and> ac_pass a = None then fst (delete_finish k previous ans a) else a)"
| "acct_step fp (InStop spawned) a = fst (begin_stop spawned a)"

end
