(* ===== verification/Accounting_Books.thy ===== *)
theory Accounting_Books
  imports Accounting_Service
begin

text \<open>
  The books of the accounting service: sessions, the index by request, the counts by key, the ledger
  and the limiter agree in every state the service reaches. Each kind of change of the books is one
  lemma; every piece of a task is a sequence of such changes.
\<close>

section \<open>Ledger and limiter\<close>

text \<open>The amount a request has reserved under a key.\<close>

definition resv :: "ledger \<Rightarrow> int \<Rightarrow> string \<Rightarrow> rat option" where
  "resv d k q = Option.bind (dict_get d k) (\<lambda>e. dict_get (le_request_reservations e) q)"

definition ledger_books :: "ledger \<Rightarrow> bool" where
  "ledger_books d \<longleftrightarrow> ledger_ok d \<and> (\<forall>k e. dict_get d k = Some e \<longrightarrow> \<not> float_overflow (reservation_total e))"

lemma float_overflow_between: "\<not> float_overflow y \<Longrightarrow> 0 \<le> x \<Longrightarrow> x \<le> y \<Longrightarrow> \<not> float_overflow x"
  by (simp add: float_overflow_def)

lemma reservation_total_nonneg: "entry_ok e \<Longrightarrow> 0 \<le> reservation_total e"
  using entry_ok_reserved[of e] by (simp add: entry_ok_def)

lemma reserved_le_total:
  assumes "entry_ok e" and "dict_get (le_request_reservations e) q = Some v"
  shows "0 \<le> v" and "v \<le> reservation_total e" and
    "sum_list (le_reservations e) + (\<Sum>p\<leftarrow>dict_pop q (le_request_reservations e). snd p) = reservation_total e - v"
proof -
  have d: "distinct (map fst (le_request_reservations e))" using assms(1) by (simp add: entry_ok_def)
  show "0 \<le> v" using assms by (auto simp: entry_ok_def dest!: map_of_SomeD)
  show eq: "sum_list (le_reservations e) + (\<Sum>p\<leftarrow>dict_pop q (le_request_reservations e). snd p) =
      reservation_total e - v"
    using sum_dict_pop[OF d assms(2), of "\<lambda>x. x"] by (simp add: reservation_total_def)
  have "0 \<le> sum_list (le_reservations e)" using assms(1) by (auto simp: entry_ok_def intro: sum_list_nonneg)
  moreover have "0 \<le> (\<Sum>p\<leftarrow>dict_pop q (le_request_reservations e). snd p)"
    using assms(1) set_dict_pop[of q "le_request_reservations e"]
    by (intro sum_list_nonneg) (force simp: entry_ok_def)
  ultimately show "v \<le> reservation_total e" using eq by linarith
qed

lemma others_total:
  assumes "entry_ok e" and "dict_get (le_request_reservations e) q = Some v"
    and "\<not> float_overflow (reservation_total e)"
  shows "request_reserved_total e (Some q) [] = Inr (reservation_total e - v)"
proof -
  note v = reserved_le_total[OF assms(1,2)]
  have "map snd (filter (\<lambda>p. Some (fst p) \<noteq> Some q) (le_request_reservations e)) =
      map snd (dict_pop q (le_request_reservations e))"
    by (simp add: dict_pop_filter)
  then have "request_reserved_total e (Some q) [] =
      sum_request_usd (le_reservations e @ map snd (dict_pop q (le_request_reservations e)))"
    by (simp add: request_reserved_total_def)
  moreover have "sum_list (le_reservations e @ map snd (dict_pop q (le_request_reservations e))) =
      reservation_total e - v" using v(3) by simp
  moreover have "\<not> float_overflow (reservation_total e - v)"
    by (rule float_overflow_between[OF assms(3)]) (use v in linarith)+
  ultimately show ?thesis using v by (simp add: sum_request_usd_def Let_def)
qed

lemma resv_set [simp]: "resv (dict_set k e d) k' q = (if k' = k then dict_get (le_request_reservations e) q else resv d k' q)"
  by (simp add: resv_def dict_get_set)

lemma resv_pop [simp]: "resv (dict_pop k d) k' q = (if k' = k then None else resv d k' q)"
  by (simp add: resv_def dict_get_pop)

lemma resv_entry: "dict_get d k = Some e \<Longrightarrow> resv d k q = dict_get (le_request_reservations e) q"
  by (simp add: resv_def)

lemma resv_entry_for: "resv d k q = dict_get (le_request_reservations (entry_for k d)) q"
  by (simp add: resv_def entry_for_def split: option.split)

lemma ledger_books_set:
  "ledger_books d \<Longrightarrow> entry_ok e \<Longrightarrow> \<not> float_overflow (reservation_total e) \<Longrightarrow> ledger_books (dict_set k e d)"
  by (simp add: ledger_books_def ledger_ok_set dict_get_set)

lemma ledger_books_get:
  "ledger_books d \<Longrightarrow> dict_get d k = Some e \<Longrightarrow> entry_ok e \<and> \<not> float_overflow (reservation_total e)"
  by (auto simp: ledger_books_def dest: ledger_ok_get)

text \<open>Giving a reservation back always works.\<close>

definition closes :: "int \<Rightarrow> string \<Rightarrow> ledger \<Rightarrow> ledger \<Rightarrow> bool" where
  "closes k q d d' \<longleftrightarrow> ledger_books d' \<and> (\<forall>k' q'. resv d' k' q' = (if k' = k \<and> q' = q then None else resv d k' q'))"

lemma release_works:
  assumes books: "ledger_books d" and r: "resv d k q = Some v"
  obtains d' where "release_request q k d = (d', Inr True)" and "closes k q d d'"
    and "\<And>j. entry_for j d' = (if j = k then (entry_for k d)\<lparr>le_request_reservations :=
           dict_pop q (le_request_reservations (entry_for k d)), le_reserved_usd := reservation_total (entry_for k d) - v\<rparr>
         else entry_for j d)"
proof -
  from r obtain e where e: "dict_get d k = Some e" and v: "dict_get (le_request_reservations e) q = Some v"
    by (auto simp: resv_def bind_eq_Some_conv)
  from ledger_books_get[OF books e] have ok: "entry_ok e" and nf: "\<not> float_overflow (reservation_total e)" by auto
  note tot = others_total[OF ok v nf]
  define e' where "e' = e\<lparr>le_request_reservations := dict_pop q (le_request_reservations e),
      le_reserved_usd := reservation_total e - v\<rparr>"
  have eq: "release_request q k d = (dict_set k e' d, Inr True)"
    using e v tot by (simp add: release_request_def e'_def)
  have ok': "entry_ok e'"
    using entry_ok_close[OF ok v, of "le_spent_usd e"] ok by (simp add: e'_def entry_ok_def)
  have t': "reservation_total e' = reservation_total e - v"
    using reserved_le_total(3)[OF ok v] by (simp add: reservation_total_def e'_def)
  have nf': "\<not> float_overflow (reservation_total e')"
    unfolding t' by (rule float_overflow_between[OF nf]) (use reserved_le_total[OF ok v] in linarith)+
  have "closes k q d (dict_set k e' d)"
    using ledger_books_set[OF books ok' nf'] e by (auto simp: closes_def e'_def resv_entry dict_get_pop)
  with eq show thesis
    by (rule that) (use e in \<open>auto simp: e'_def entry_for_Some\<close>)
qed

text \<open>A commit closes the reservation and adds the cost, or the amounts overflow.\<close>

lemma commit_outcome:
  assumes books: "ledger_books d" and r: "resv d k q = Some v" and c: "commit_request q k (PyFloat cost) d = (d', x)"
  obtains (closed) "x = Inr True" "closes k q d d'" "0 \<le> cost"
      "\<And>j. le_spent_usd (entry_for j d') = (if j = k then le_spent_usd (entry_for k d) + cost else le_spent_usd (entry_for j d))"
  | (overflow) "x = Inl ()" "d' = d"
proof -
  from r obtain e where e: "dict_get d k = Some e" and v: "dict_get (le_request_reservations e) q = Some v"
    by (auto simp: resv_def bind_eq_Some_conv)
  from ledger_books_get[OF books e] have ok: "entry_ok e" and nf: "\<not> float_overflow (reservation_total e)" by auto
  have lok: "ledger_ok d" using books by (simp add: ledger_books_def)
  from c lok show thesis
  proof (cases rule: commit_request_cases)
    case same
    have "x = Inl ()" using c same(2) e v
      by (auto simp: commit_request_def others_total[OF ok v nf] split: sum.splits)
    with same show thesis by (intro overflow)
  next
    case (closed e1 v1 c1)
    with e v have eqs: "e1 = e" "v1 = v" by auto
    have c1: "c1 = cost" "0 \<le> cost" using closed(4,5) by (auto simp: normalize_request_usd_def split: if_splits)
    define e' where "e' = e\<lparr>le_request_reservations := dict_pop q (le_request_reservations e),
      le_reserved_usd := reservation_total e - v, le_spent_usd := le_spent_usd e + cost\<rparr>"
    have d': "d' = dict_set k e' d" using closed eqs c1 by (simp add: e'_def)
    have "0 \<le> le_spent_usd e" using ok by (simp add: entry_ok_def)
    then have "0 \<le> le_spent_usd e + cost" using c1 by simp
    then have ok': "entry_ok e'" unfolding e'_def by (rule entry_ok_close[OF ok v])
    have t': "reservation_total e' = reservation_total e - v"
      using reserved_le_total(3)[OF ok v] by (simp add: reservation_total_def e'_def)
    have nf': "\<not> float_overflow (reservation_total e')"
      unfolding t' by (rule float_overflow_between[OF nf]) (use reserved_le_total[OF ok v] in linarith)+
    have cl: "closes k q d d'"
      using ledger_books_set[OF books ok' nf'] e by (auto simp: d' closes_def e'_def resv_entry dict_get_pop)
    show thesis
      by (rule that(1)[OF closed(2) cl c1(2)]) (use e in \<open>auto simp: d' e'_def entry_for_Some\<close>)
  qed
qed

text \<open>A reservation call opens one reservation or changes nothing.\<close>

lemma reserve_outcome:
  assumes books: "ledger_books d" and r: "resv d k q = None" and v: "0 \<le> v"
    and c: "reserve_request q k (PyFloat v) d = (d', x)"
  obtains (opened) "x = Inr True" "ledger_books d'"
      "\<And>k' q'. resv d' k' q' = (if k' = k \<and> q' = q then Some v else resv d k' q')"
      "\<And>j. le_spent_usd (entry_for j d') = le_spent_usd (entry_for j d)"
  | (same) "x \<noteq> Inr True" "d' = d"
proof -
  have lok: "ledger_ok d" using books by (simp add: ledger_books_def)
  from c show thesis
  proof (cases rule: reserve_request_cases)
    case same
    have "x \<noteq> Inr True" using same(2) r by (auto simp: resv_entry_for)
    with same show thesis by (intro that(2))
  next
    case (opened w)
    have w: "w = v" using opened(2) v by (simp add: normalize_request_usd_def)
    let ?e = "entry_for k d"
    define e' where "e' = ?e\<lparr>le_reserved_usd := reservation_total ?e + v,
        le_request_reservations := dict_set q v (le_request_reservations ?e)\<rparr>"
    have d': "d' = dict_set k e' d" using opened(6) w by (simp add: e'_def)
    have ok: "entry_ok ?e" by (rule entry_for_ok[OF lok])
    have ok': "entry_ok e'" using entry_ok_open[OF ok opened(4) v] by (simp add: e'_def)
    have t': "reservation_total e' = reservation_total ?e + v"
      using ok' by (simp add: entry_ok_def e'_def)
    have "request_reserved_total ?e None [v] = Inr (reservation_total ?e + v)"
    proof -
      from c opened(1,4) v have "\<exists>t. request_reserved_total ?e None [v] = Inr t"
        by (auto simp: reserve_request_def normalize_request_usd_def Let_def entry_for_def[symmetric] split: sum.splits)
      then obtain t where t: "request_reserved_total ?e None [v] = Inr t" ..
      from request_reserved_total_None[OF t] t show ?thesis by simp
    qed
    then have "\<not> float_overflow (reservation_total ?e + v)"
      unfolding request_reserved_total_def sum_request_usd_Inr by blast
    then have books': "ledger_books d'" using ledger_books_set[OF books ok'] t' by (simp add: d')
    show thesis
      by (rule that(1)[OF opened(1) books'])
        (auto simp: d' e'_def resv_entry_for[symmetric] dict_get_set)
  qed
qed

lemma sync_record_books:
  assumes "ledger_books d"
  shows "ledger_books (sync_record k b s d)" and "resv (sync_record k b s d) k' q = resv d k' q"
    and "j \<noteq> k \<Longrightarrow> entry_for j (sync_record k b s d) = entry_for j d"
proof -
  have "reservation_total (new_entry b x) = 0" for b x by (simp add: reservation_total_def new_entry_def)
  moreover have "\<not> float_overflow 0" by (rule float_overflow_numeral) simp_all
  moreover have tot: "reservation_total (e\<lparr>le_budget_usd := b, le_spent_usd := x\<rparr>) = reservation_total e" for e b x
    by (simp add: reservation_total_def)
  moreover have "reservation_total (e\<lparr>le_budget_usd := b\<rparr>) = reservation_total e" for e b
    by (simp add: reservation_total_def)
  moreover have "ledger_ok (sync_record k b s d)" using assms by (simp add: ledger_books_def sync_ok)
  ultimately show "ledger_books (sync_record k b s d)"
    using assms by (auto simp: ledger_books_def sync_record_def Let_def dict_get_set split: option.splits if_splits)
  show "resv (sync_record k b s d) k' q = resv d k' q"
    by (auto simp: sync_record_def Let_def resv_def dict_get_set split: option.split)
  show "j \<noteq> k \<Longrightarrow> entry_for j (sync_record k b s d) = entry_for j d"
    by (simp add: sync_record_def Let_def split: option.split)
qed

lemma reset_record_books:
  assumes "ledger_books d"
  shows "ledger_books (reset_record k b s d)" and "resv (reset_record k b s d) k' q = resv d k' q"
proof -
  have "reservation_total (new_entry b x) = 0" for b x by (simp add: reservation_total_def new_entry_def)
  moreover have "\<not> float_overflow 0" by (rule float_overflow_numeral) simp_all
  moreover have "reservation_total (e\<lparr>le_budget_usd := b, le_spent_usd := x\<rparr>) = reservation_total e" for e b x
    by (simp add: reservation_total_def)
  moreover have "ledger_ok (reset_record k b s d)" using assms by (simp add: ledger_books_def reset_ledger_ok)
  ultimately show "ledger_books (reset_record k b s d)"
    using assms by (auto simp: ledger_books_def reset_record_def Let_def dict_get_set split: option.splits if_splits)
  show "resv (reset_record k b s d) k' q = resv d k' q"
    by (auto simp: reset_record_def Let_def resv_def dict_get_set split: option.split)
qed

lemma discard_books:
  "ledger_books d \<Longrightarrow> ledger_books (discard_record k d)"
  "resv (discard_record k d) k' q = (if k' = k then None else resv d k' q)"
  by (auto simp: ledger_books_def discard_record_def discard_ok[unfolded discard_record_def] dict_get_pop)

text \<open>Requests in flight survive the calls of others, and a refused attribution.\<close>

lemma attribute_keeps_others:
  assumes "in_flight l k q" and "q' \<noteq> q \<or> k' \<noteq> k"
  shows "in_flight (fst (attribute_request_tokens now q' (Some k') n l)) k q"
  using in_flight_step[OF assms(1), of "Attribute now q' (Some k') n"] assms(2) by auto

lemma attribute_refused:
  assumes "in_flight l k q" and "snd (attribute_request_tokens now q (Some k) n l) \<noteq> Inr True"
  shows "in_flight (fst (attribute_request_tokens now q (Some k) n l)) k q"
proof -
  obtain st where st: "window_of l k = Some st" "dict_get (kw_request_events st) q = Some None"
    using assms(1) by (auto simp: in_flight_def)
  define st' where "st' = purge_window (now - rl_window l) st"
  have open': "dict_get (kw_request_events st') q = Some None"
    using purge_keeps_open[OF st(2)] by (simp add: st'_def)
  then have ne: "kw_request_events st' \<noteq> []" by auto
  have p: "rl_purge k st now l = (put_window k st' l, st', kw_events st' = [])"
    using ne by (simp add: rl_purge_def Let_def st'_def)
  have "in_flight (put_window k st' l) k q" using open' by (simp add: in_flight_def put_window_def dict_get_set)
  then show ?thesis using assms(2) st open'
    by (cases n) (auto simp: attribute_request_tokens_def p)
qed

lemma admit_keeps: "in_flight l k q \<Longrightarrow> in_flight (fst (admit_request now q' key a b l)) k q"
  using in_flight_step[of l k q "Admit now q' key a b"] by simp

lemma reset_keeps: "in_flight l k q \<Longrightarrow> k' \<noteq> k \<Longrightarrow> in_flight (rl_reset (Some k') l) k q"
  using in_flight_step[of l k q "Reset (Some k')"] by simp

section \<open>The books\<close>

text \<open>
  \<open>books f h a\<close>: sessions and index agree, the counts by key are right, the cap holds, and every live
  session of a key that is not settled in the ledger has its reservation there. With \<open>f\<close> (no fatal
  error) nothing else is reserved, and a session whose charge is decided is settled. With \<open>h\<close> (no key
  update resets a rate window) every live session of a key that is not settled in the limiter is in
  flight there.
\<close>

definition keyed :: "int \<Rightarrow> session \<Rightarrow> int" where
  "keyed k s = (if session_key s = Some k then 1 else 0)"

definition live_count :: "int \<Rightarrow> (string, session) dict \<Rightarrow> int" where
  "live_count k S = (\<Sum>p\<leftarrow>S. keyed k (snd p))"

definition sessions_linked :: "(string, session) dict \<Rightarrow> (string, string) dict \<Rightarrow> bool" where
  "sessions_linked S Q \<longleftrightarrow> distinct (dict_keys S) \<and>
     (\<forall>sid s. dict_get S sid = Some s \<longrightarrow> rv_reservation_id (sn_reservation s) = sid \<and> dict_get Q (session_request s) = Some sid) \<and>
     (\<forall>q sid. dict_get Q q = Some sid \<longrightarrow> (\<exists>s. dict_get S sid = Some s \<and> session_request s = q))"

definition counts_match :: "(string, session) dict \<Rightarrow> (int, int) dict \<Rightarrow> bool" where
  "counts_match S A \<longleftrightarrow> (\<forall>k. dict_get A k = (if live_count k S = 0 then None else Some (live_count k S)))"

definition covered_sessions :: "(string, session) dict \<Rightarrow> ledger \<Rightarrow> bool" where
  "covered_sessions S d \<longleftrightarrow> (\<forall>sid s k. dict_get S sid = Some s \<longrightarrow> session_key s = Some k \<longrightarrow> \<not> sn_ledger_done s \<longrightarrow>
     resv d k (session_request s) = Some (rv_reserved_usd (sn_reservation s)))"

definition no_leak :: "(string, session) dict \<Rightarrow> ledger \<Rightarrow> bool" where
  "no_leak S d \<longleftrightarrow> (\<forall>k q v. resv d k q = Some v \<longrightarrow>
     (\<exists>sid s. dict_get S sid = Some s \<and> session_key s = Some k \<and> session_request s = q \<and> \<not> sn_ledger_done s))"

definition decided_done :: "(string, session) dict \<Rightarrow> bool" where
  "decided_done S \<longleftrightarrow> (\<forall>sid s. dict_get S sid = Some s \<longrightarrow> session_key s \<noteq> None \<longrightarrow> sn_charge s \<noteq> None \<longrightarrow> sn_ledger_done s)"

definition limiter_live :: "(string, session) dict \<Rightarrow> rate_limiter \<Rightarrow> bool" where
  "limiter_live S l \<longleftrightarrow> (\<forall>sid s k. dict_get S sid = Some s \<longrightarrow> session_key s = Some k \<longrightarrow> \<not> sn_limiter_done s \<longrightarrow>
     in_flight l k (session_request s))"

definition soft_updates :: "(int, bool) dict \<Rightarrow> bool" where
  "soft_updates U \<longleftrightarrow> (\<forall>k b. dict_get U k = Some b \<longrightarrow> \<not> b)"

definition books :: "bool \<Rightarrow> bool \<Rightarrow> acct \<Rightarrow> bool" where
  "books f h a \<longleftrightarrow> sessions_linked (ac_sessions a) (ac_by_request a) \<and>
     counts_match (ac_sessions a) (ac_active a) \<and>
     int (length (ac_sessions a)) \<le> ac_max_sessions a \<and>
     ledger_books (ac_ledger a) \<and> covered_sessions (ac_sessions a) (ac_ledger a) \<and>
     (f \<longrightarrow> no_leak (ac_sessions a) (ac_ledger a) \<and> decided_done (ac_sessions a)) \<and>
     (h \<longrightarrow> limiter_live (ac_sessions a) (ac_limiter a) \<and> soft_updates (ac_updates a))"

lemma books_mono: "books f h a \<Longrightarrow> (f' \<longrightarrow> f) \<Longrightarrow> (h' \<longrightarrow> h) \<Longrightarrow> books f' h' a"
  by (auto simp: books_def)

lemma no_leakE:
  assumes "no_leak S d" and "resv d k q = Some v"
  obtains sid s where "dict_get S sid = Some s" "session_key s = Some k" "session_request s = q" "\<not> sn_ledger_done s"
  using assms unfolding no_leak_def by blast

lemma linked_indexE:
  assumes "sessions_linked S Q" and "dict_get Q q = Some sid"
  obtains s where "dict_get S sid = Some s" "session_request s = q"
  using assms unfolding sessions_linked_def by blast

lemma linkedD:
  "sessions_linked S Q \<Longrightarrow> dict_get S sid = Some s \<Longrightarrow> rv_reservation_id (sn_reservation s) = sid"
  "sessions_linked S Q \<Longrightarrow> dict_get S sid = Some s \<Longrightarrow> dict_get Q (session_request s) = Some sid"
  by (simp_all add: sessions_linked_def)

lemma booksD:
  assumes "books f h a"
  shows "sessions_linked (ac_sessions a) (ac_by_request a)" "counts_match (ac_sessions a) (ac_active a)"
    "int (length (ac_sessions a)) \<le> ac_max_sessions a" "ledger_books (ac_ledger a)"
    "covered_sessions (ac_sessions a) (ac_ledger a)"
    "f \<Longrightarrow> no_leak (ac_sessions a) (ac_ledger a)" "f \<Longrightarrow> decided_done (ac_sessions a)"
    "h \<Longrightarrow> limiter_live (ac_sessions a) (ac_limiter a)"
    "h \<Longrightarrow> soft_updates (ac_updates a)"
  using assms by (simp_all add: books_def)

lemma coveredD: "covered_sessions S d \<Longrightarrow> dict_get S sid = Some s \<Longrightarrow> session_key s = Some k \<Longrightarrow> \<not> sn_ledger_done s \<Longrightarrow>
    resv d k (session_request s) = Some (rv_reserved_usd (sn_reservation s))"
  by (simp add: covered_sessions_def)

lemma decidedD: "decided_done S \<Longrightarrow> dict_get S sid = Some s \<Longrightarrow> session_key s = Some k \<Longrightarrow> sn_charge s = Some b \<Longrightarrow> sn_ledger_done s"
  by (simp add: decided_done_def)

text \<open>Only these fields matter.\<close>

lemma books_frame [simp]:
  "books f h (a\<lparr>ac_gate := x1\<rparr>) = books f h a" "books f h (a\<lparr>ac_retry_sessions := x2\<rparr>) = books f h a"
  "books f h (a\<lparr>ac_event_owner := x3\<rparr>) = books f h a" "books f h (a\<lparr>ac_fences := x4\<rparr>) = books f h a"
  "books f h (a\<lparr>ac_reset_pending := x5\<rparr>) = books f h a" "books f h (a\<lparr>ac_deleted := x6\<rparr>) = books f h a"
  "books f h (a\<lparr>ac_known := x7\<rparr>) = books f h a" "books f h (a\<lparr>ac_limits := x8\<rparr>) = books f h a"
  "books f h (a\<lparr>ac_tasks := x9\<rparr>) = books f h a" "books f h (a\<lparr>ac_results := x10\<rparr>) = books f h a"
  "books f h (a\<lparr>ac_resets := x11\<rparr>) = books f h a" "books f h (a\<lparr>ac_deletes := x12\<rparr>) = books f h a"
  "books f h (a\<lparr>ac_due := x13\<rparr>) = books f h a" "books f h (a\<lparr>ac_owners := x14\<rparr>) = books f h a"
  "books f h (a\<lparr>ac_pass := x15\<rparr>) = books f h a" "books f h (a\<lparr>ac_projector := x16\<rparr>) = books f h a"
  "books f h (a\<lparr>ac_reconciling := x17\<rparr>) = books f h a" "books f h (a\<lparr>ac_stopping := x18\<rparr>) = books f h a"
  by (simp_all add: books_def)

lemma books_on_gate [simp]: "books f h (on_gate g a) = books f h a"
  by (simp add: on_gate_def)

lemma linked_unique:
  "sessions_linked S Q \<Longrightarrow> dict_get S sid = Some s \<Longrightarrow> dict_get S sid' = Some s' \<Longrightarrow>
   session_request s' = session_request s \<Longrightarrow> sid' = sid \<and> s' = s"
  unfolding sessions_linked_def by (metis option.inject)

lemma live_count_set_old:
  assumes "distinct (dict_keys S)" and "dict_get S sid = Some s" and "session_key s' = session_key s"
  shows "live_count k (dict_set sid s' S) = live_count k S"
  using assms by (induction S) (auto simp: live_count_def keyed_def image_iff dest: map_of_SomeD split: if_splits)

lemma live_count_nonneg: "0 \<le> live_count k S"
  by (auto simp: live_count_def keyed_def intro!: sum_list_nonneg)

lemma live_count_zero: "live_count k S = 0 \<Longrightarrow> dict_get S sid = Some s \<Longrightarrow> session_key s \<noteq> Some k"
proof -
  assume "live_count k S = 0" and "dict_get S sid = Some s"
  then have "(sid, s) \<in> set S" by (simp add: map_of_SomeD)
  then have "keyed k s \<le> live_count k S" unfolding live_count_def
    by (induction S) (auto simp: keyed_def intro: add_increasing add_increasing2
        intro!: sum_list_nonneg)
  with \<open>live_count k S = 0\<close> show ?thesis by (auto simp: keyed_def)
qed

subsection \<open>A session changes\<close>

lemma linked_put:
  assumes link: "sessions_linked S Q" and s: "dict_get S sid = Some s" and r: "sn_reservation s' = sn_reservation s"
  shows "sessions_linked (dict_set sid s' S) Q"
  unfolding sessions_linked_def
proof (intro conjI allI impI)
  show "distinct (dict_keys (dict_set sid s' S))" using link by (simp add: sessions_linked_def distinct_dict_set)
  fix sid1 s1 assume "dict_get (dict_set sid s' S) sid1 = Some s1"
  then obtain s2 where "dict_get S sid1 = Some s2" "sn_reservation s1 = sn_reservation s2"
    using s r by (auto simp: dict_get_set split: if_splits)
  with link show "rv_reservation_id (sn_reservation s1) = sid1" "dict_get Q (session_request s1) = Some sid1"
    by (simp_all add: sessions_linked_def)
next
  fix q sid1 assume "dict_get Q q = Some sid1"
  with link obtain s1 where s1: "dict_get S sid1 = Some s1" "session_request s1 = q"
    by (rule linked_indexE)
  show "\<exists>s1. dict_get (dict_set sid s' S) sid1 = Some s1 \<and> session_request s1 = q"
    by (cases "sid1 = sid") (use s1 s r in \<open>auto simp: dict_get_set\<close>)
qed

lemma books_put:
  assumes b: "books f h a" and s: "dict_get (ac_sessions a) sid = Some s"
    and r: "sn_reservation s' = sn_reservation s" and d: "sn_ledger_done s' = sn_ledger_done s"
    and l: "sn_limiter_done s \<Longrightarrow> sn_limiter_done s'"
    and c: "f \<Longrightarrow> session_key s \<noteq> None \<Longrightarrow> sn_charge s' \<noteq> None \<Longrightarrow> sn_charge s \<noteq> None \<or> sn_ledger_done s"
  shows "books f h (put_session sid s' a)"
proof -
  let ?S = "dict_set sid s' (ac_sessions a)"
  have link: "sessions_linked (ac_sessions a) (ac_by_request a)" using b by (simp add: books_def)
  then have dist: "distinct (dict_keys (ac_sessions a))" by (simp add: sessions_linked_def)
  have "sessions_linked ?S (ac_by_request a)" by (rule linked_put[OF link s r])
  moreover have "counts_match ?S (ac_active a)"
    using b live_count_set_old[OF dist s] r by (simp add: books_def counts_match_def)
  moreover have "int (length ?S) \<le> ac_max_sessions a"
    using b by (simp add: books_def length_dict_set_old[OF s])
  moreover have "covered_sessions ?S (ac_ledger a)"
    using b s r d by (auto simp: books_def covered_sessions_def dict_get_set)
  moreover have "no_leak ?S (ac_ledger a)" if f
    unfolding no_leak_def
  proof (intro allI impI)
    fix k q v assume "resv (ac_ledger a) k q = Some v"
    with booksD(6)[OF b \<open>f\<close>] obtain sid1 s1 where s1: "dict_get (ac_sessions a) sid1 = Some s1"
      "session_key s1 = Some k" "session_request s1 = q" "\<not> sn_ledger_done s1" by (rule no_leakE)
    show "\<exists>sid s. dict_get ?S sid = Some s \<and> session_key s = Some k \<and> session_request s = q \<and> \<not> sn_ledger_done s"
    proof (cases "sid1 = sid")
      case True
      with s s1 r d show ?thesis by (intro exI[of _ sid] exI[of _ s']) (simp add: dict_get_set)
    next
      case False
      with s1 show ?thesis by (intro exI[of _ sid1] exI[of _ s1]) (simp add: dict_get_set)
    qed
  qed
  moreover have "decided_done ?S" if f
    using b \<open>f\<close> s r d c by (auto simp: books_def decided_done_def dict_get_set)
  moreover have "limiter_live ?S (ac_limiter a)" if h
    using b \<open>h\<close> s r l by (auto simp: books_def limiter_live_def dict_get_set)
  ultimately show ?thesis using b by (simp add: books_def put_session_def)
qed

text \<open>A session without a key has nothing in the books.\<close>

lemma books_put_keyless:
  assumes b: "books f h a" and s: "dict_get (ac_sessions a) sid = Some s"
    and r: "sn_reservation s' = sn_reservation s" and k: "session_key s = None"
  shows "books f h (put_session sid s' a)"
proof -
  let ?S = "dict_set sid s' (ac_sessions a)"
  note link = booksD(1)[OF b]
  then have dist: "distinct (dict_keys (ac_sessions a))" by (simp add: sessions_linked_def)
  have "counts_match ?S (ac_active a)"
    using booksD(2)[OF b] live_count_set_old[OF dist s] r by (simp add: counts_match_def)
  moreover have "covered_sessions ?S (ac_ledger a)"
    using booksD(5)[OF b] r k by (simp add: covered_sessions_def dict_get_set)
  moreover have "no_leak ?S (ac_ledger a)" if f
    unfolding no_leak_def
  proof (intro allI impI)
    fix j q v assume "resv (ac_ledger a) j q = Some v"
    with booksD(6)[OF b that] obtain sid1 s1 where s1: "dict_get (ac_sessions a) sid1 = Some s1"
      "session_key s1 = Some j" "session_request s1 = q" "\<not> sn_ledger_done s1" by (rule no_leakE)
    with s k have "sid1 \<noteq> sid" by auto
    with s1 show "\<exists>sid s. dict_get ?S sid = Some s \<and> session_key s = Some j \<and> session_request s = q \<and> \<not> sn_ledger_done s"
      by (intro exI[of _ sid1] exI[of _ s1]) (simp add: dict_get_set)
  qed
  moreover have "decided_done ?S" if f
    using booksD(7)[OF b that] r k by (simp add: decided_done_def dict_get_set)
  moreover have "limiter_live ?S (ac_limiter a)" if h
    using booksD(8)[OF b that] r k by (simp add: limiter_live_def dict_get_set)
  ultimately show ?thesis using booksD[OF b] linked_put[OF link s r]
    by (simp add: books_def put_session_def length_dict_set_old[OF s])
qed

text \<open>A session is settled in the ledger.\<close>

lemma books_settled:
  assumes b: "books f h a" and s: "dict_get (ac_sessions a) sid = Some s" and k: "session_key s = Some k"
    and cl: "closes k (session_request s) (ac_ledger a) d"
    and r: "sn_reservation s' = sn_reservation s" and d: "sn_ledger_done s'"
    and l: "sn_limiter_done s' = sn_limiter_done s"
  shows "books f h (put_session sid s' (a\<lparr>ac_ledger := d\<rparr>))"
proof -
  let ?S = "dict_set sid s' (ac_sessions a)"
  have link: "sessions_linked (ac_sessions a) (ac_by_request a)" using b by (simp add: books_def)
  then have dist: "distinct (dict_keys (ac_sessions a))" by (simp add: sessions_linked_def)
  have "sessions_linked ?S (ac_by_request a)" by (rule linked_put[OF link s r])
  moreover have "counts_match ?S (ac_active a)"
    using b live_count_set_old[OF dist s] r by (simp add: books_def counts_match_def)
  moreover have "int (length ?S) \<le> ac_max_sessions a"
    using b by (simp add: books_def length_dict_set_old[OF s])
  moreover have "covered_sessions ?S d"
    unfolding covered_sessions_def
  proof (intro allI impI)
    fix sid1 s1 k1
    assume s1: "dict_get ?S sid1 = Some s1" "session_key s1 = Some k1" "\<not> sn_ledger_done s1"
    with d have ne: "sid1 \<noteq> sid" by (auto simp: dict_get_set)
    with s1 have live: "dict_get (ac_sessions a) sid1 = Some s1" by (simp add: dict_get_set)
    with ne linked_unique[OF link s live] have "session_request s1 \<noteq> session_request s" by blast
    with live s1 cl b show "resv d k1 (session_request s1) = Some (rv_reserved_usd (sn_reservation s1))"
      by (auto simp: books_def covered_sessions_def closes_def)
  qed
  moreover have "no_leak ?S d" if f
    unfolding no_leak_def
  proof (intro allI impI)
    fix k1 q v assume "resv d k1 q = Some v"
    with cl have q: "resv (ac_ledger a) k1 q = Some v" "\<not> (k1 = k \<and> q = session_request s)"
      by (auto simp: closes_def split: if_splits)
    from booksD(6)[OF b \<open>f\<close>] q(1) obtain sid1 s1 where s1: "dict_get (ac_sessions a) sid1 = Some s1"
      "session_key s1 = Some k1" "session_request s1 = q" "\<not> sn_ledger_done s1" by (rule no_leakE)
    with q(2) s k have "sid1 \<noteq> sid" by auto
    with s1 show "\<exists>sid s. dict_get ?S sid = Some s \<and> session_key s = Some k1 \<and> session_request s = q \<and> \<not> sn_ledger_done s"
      by (intro exI[of _ sid1] exI[of _ s1]) (simp add: dict_get_set)
  qed
  moreover have "decided_done ?S" if f
    using b \<open>f\<close> d by (auto simp: books_def decided_done_def dict_get_set)
  moreover have "limiter_live ?S (ac_limiter a)" if h
    using b \<open>h\<close> s r l by (auto simp: books_def limiter_live_def dict_get_set)
  moreover have "ledger_books d" using cl by (simp add: closes_def)
  ultimately show ?thesis using b by (simp add: books_def put_session_def)
qed

text \<open>The limiter attributes a session's tokens, or refuses.\<close>

lemma books_limited:
  assumes b: "books f h a" and s: "dict_get (ac_sessions a) sid = Some s" and k: "session_key s = Some k"
    and at: "attribute_request_tokens now (session_request s) (Some k) n (ac_limiter a) = (l, x)"
  shows "x = Inr True \<Longrightarrow> books f h (put_session sid (s\<lparr>sn_limiter_done := True\<rparr>) (a\<lparr>ac_limiter := l\<rparr>))"
    and "x \<noteq> Inr True \<Longrightarrow> books f h (a\<lparr>ac_limiter := l\<rparr>)"
proof -
  have link: "sessions_linked (ac_sessions a) (ac_by_request a)" using b by (simp add: books_def)
  have l: "l = fst (attribute_request_tokens now (session_request s) (Some k) n (ac_limiter a))" using at by simp
  have others: "in_flight l k1 (session_request s1)"
    if "h" "dict_get (ac_sessions a) sid1 = Some s1" "sid1 \<noteq> sid" "session_key s1 = Some k1" "\<not> sn_limiter_done s1"
    for sid1 s1 k1
  proof -
    have "session_request s1 \<noteq> session_request s" using linked_unique[OF link s that(2)] that(3) by blast
    moreover have "in_flight (ac_limiter a) k1 (session_request s1)"
      using b that by (auto simp: books_def limiter_live_def)
    ultimately show ?thesis unfolding l by (intro attribute_keeps_others) auto
  qed
  have own: "in_flight l k (session_request s)" if "h" "x \<noteq> Inr True" "\<not> sn_limiter_done s"
  proof -
    have "in_flight (ac_limiter a) k (session_request s)"
      using b that(1,3) s k by (auto simp: books_def limiter_live_def)
    then show ?thesis unfolding l by (rule attribute_refused) (use that(2) at in simp)
  qed
  {
    assume "x \<noteq> Inr True"
    have "limiter_live (ac_sessions a) l" if h
      unfolding limiter_live_def using others own s k \<open>h\<close> \<open>x \<noteq> Inr True\<close>
      by (metis option.inject)
    with b show "books f h (a\<lparr>ac_limiter := l\<rparr>)" by (auto simp: books_def)
  next
    have b': "books f False (put_session sid (s\<lparr>sn_limiter_done := True\<rparr>) a)"
      by (rule books_put[OF books_mono[OF b] s]) auto
    have "limiter_live (dict_set sid (s\<lparr>sn_limiter_done := True\<rparr>) (ac_sessions a)) l" if h
      using others \<open>h\<close> by (auto simp: limiter_live_def dict_get_set)
    with b' b show "books f h (put_session sid (s\<lparr>sn_limiter_done := True\<rparr>) (a\<lparr>ac_limiter := l\<rparr>))"
      by (auto simp: books_def put_session_def)
  }
qed

subsection \<open>A session ends\<close>

lemma linked_pop:
  assumes link: "sessions_linked S Q" and s: "dict_get S sid = Some s"
  shows "sessions_linked (dict_pop sid S) (dict_pop (session_request s) Q)"
  unfolding sessions_linked_def
proof (intro conjI allI impI)
  show "distinct (dict_keys (dict_pop sid S))" using link by (simp add: sessions_linked_def distinct_dict_pop)
  fix sid1 s1 assume s1: "dict_get (dict_pop sid S) sid1 = Some s1"
  then have live: "dict_get S sid1 = Some s1" "sid1 \<noteq> sid" by (auto simp: dict_get_pop split: if_splits)
  then have "session_request s1 \<noteq> session_request s" using linked_unique[OF link s live(1)] by blast
  then show "rv_reservation_id (sn_reservation s1) = sid1"
    "dict_get (dict_pop (session_request s) Q) (session_request s1) = Some sid1"
    using linkedD[OF link live(1)] by (simp_all add: dict_get_pop)
next
  fix q sid1 assume q: "dict_get (dict_pop (session_request s) Q) q = Some sid1"
  then have "dict_get Q q = Some sid1" and ne: "q \<noteq> session_request s" by (auto simp: dict_get_pop split: if_splits)
  from linked_indexE[OF link this(1)] obtain s1 where s1: "dict_get S sid1 = Some s1" "session_request s1 = q" .
  with ne s have "sid1 \<noteq> sid" by auto
  with s1 show "\<exists>s1. dict_get (dict_pop sid S) sid1 = Some s1 \<and> session_request s1 = q"
    by (simp add: dict_get_pop)
qed

lemma live_count_pop:
  "sessions_linked S Q \<Longrightarrow> dict_get S sid = Some s \<Longrightarrow> live_count k (dict_pop sid S) = live_count k S - keyed k s"
  by (simp add: live_count_def sum_dict_pop sessions_linked_def)

lemma live_count_ge: "dict_get S sid = Some s \<Longrightarrow> keyed k s \<le> live_count k S"
  using live_count_zero[of k S sid s] live_count_nonneg[of k S] by (cases "live_count k S = 0") (auto simp: keyed_def)

lemma detach_books:
  assumes b: "books f h a" and s: "dict_get (ac_sessions a) sid = Some s"
    and r: "sn_reservation s' = sn_reservation s"
    and gone: "\<And>k. f \<Longrightarrow> session_key s = Some k \<Longrightarrow> resv (ac_ledger a) k (session_request s) = None"
  obtains a' p del where "detach_session s' a = (a', Answered (session_key s, p, del))" "books f h a'"
    "\<And>k. session_key s = Some k \<Longrightarrow> del \<Longrightarrow> live_count k (ac_sessions a') = 0"
    "ac_gate a' = ac_gate a" "ac_ledger a' = ac_ledger a" "ac_sessions a' = dict_pop sid (ac_sessions a)"
proof -
  note link = booksD(1)[OF b]
  define a1 where "a1 = unlink_session s' a"
  have S: "ac_sessions a1 = dict_pop sid (ac_sessions a)" "ac_by_request a1 = dict_pop (session_request s) (ac_by_request a)"
    using linkedD(1)[OF link s] r by (simp_all add: a1_def unlink_session_def Let_def)
  have same: "ac_active a1 = ac_active a" "ac_ledger a1 = ac_ledger a" "ac_limiter a1 = ac_limiter a"
    "ac_max_sessions a1 = ac_max_sessions a" "ac_updates a1 = ac_updates a" "ac_gate a1 = ac_gate a"
    by (simp_all add: a1_def unlink_session_def Let_def)
  have linked: "sessions_linked (ac_sessions a1) (ac_by_request a1)" using linked_pop[OF link s] S by simp
  have cap: "int (length (ac_sessions a1)) \<le> ac_max_sessions a1"
    using booksD(3)[OF b] length_dict_pop[of sid "ac_sessions a"] by (simp add: S same)
  have cov: "covered_sessions (ac_sessions a1) (ac_ledger a1)"
    using booksD(5)[OF b] by (auto simp: covered_sessions_def S same dict_get_pop)
  have leak: "no_leak (ac_sessions a1) (ac_ledger a1)" if f
    unfolding no_leak_def
  proof (intro allI impI)
    fix k q v assume q: "resv (ac_ledger a1) k q = Some v"
    with booksD(6)[OF b \<open>f\<close>] obtain sid1 s1 where s1: "dict_get (ac_sessions a) sid1 = Some s1"
      "session_key s1 = Some k" "session_request s1 = q" "\<not> sn_ledger_done s1" by (metis no_leakE same(2))
    have "sid1 \<noteq> sid" using gone[OF \<open>f\<close>] s1 s q same(2) by auto
    with s1 show "\<exists>sid s. dict_get (ac_sessions a1) sid = Some s \<and> session_key s = Some k \<and> session_request s = q \<and> \<not> sn_ledger_done s"
      by (intro exI[of _ sid1] exI[of _ s1]) (simp add: S dict_get_pop)
  qed
  have dec: "decided_done (ac_sessions a1)" if f
    using booksD(7)[OF b \<open>f\<close>] by (simp add: decided_done_def S dict_get_pop)
  have lim: "limiter_live (ac_sessions a1) (ac_limiter a1)" if h
    using booksD(8)[OF b \<open>h\<close>] by (simp add: limiter_live_def S same dict_get_pop)
  have "books f h (a1\<lparr>ac_active := A\<rparr>)" if "counts_match (ac_sessions a1) A" for A
    unfolding books_def using linked cap cov leak dec lim that booksD(4,9)[OF b] by (simp add: same)
  note books' = this
  have cnt: "live_count k (ac_sessions a1) = live_count k (ac_sessions a) - keyed k s" for k
    unfolding S by (rule live_count_pop[OF link s])
  note match = booksD(2)[OF b, unfolded counts_match_def, rule_format]
  show thesis
  proof (cases "session_key s")
    case None
    have "counts_match (ac_sessions a1) (ac_active a1)"
      using booksD(2)[OF b] None by (simp add: counts_match_def cnt keyed_def same)
    from books'[OF this] have "books f h a1" by simp
    then show thesis
      by (intro that[of a1 False False]) (auto simp: detach_session_def a1_def[symmetric] None r same S Let_def)
  next
    case (Some k)
    define n where "n = live_count k (ac_sessions a)"
    have "keyed k s = 1" using Some by (simp add: keyed_def)
    then have n: "n \<ge> 1" using live_count_ge[OF s, of k] by (simp add: n_def)
    then have act: "dict_get (ac_active a1) k = Some n" using match[of k] by (simp add: same n_def)
    have cnt': "live_count j (ac_sessions a1) = (if j = k then n - 1 else live_count j (ac_sessions a))" for j
      using cnt[of j] Some by (auto simp: keyed_def n_def)
    show thesis
    proof (cases "n - 1 = 0")
      case False
      define a' where "a' = a1\<lparr>ac_active := dict_set k (n - 1) (ac_active a1)\<rparr>"
      have "counts_match (ac_sessions a1) (dict_set k (n - 1) (ac_active a1))"
        using False match by (auto simp: counts_match_def cnt' dict_get_set same)
      from books'[OF this] have "books f h a'" by (simp add: a'_def)
      then show thesis
        by (intro that[of a' False False])
          (use False act in \<open>auto simp: a'_def detach_session_def a1_def[symmetric] Some r same S Let_def\<close>)
    next
      case True
      define a' where "a' = a1\<lparr>ac_active := dict_pop k (ac_active a1)\<rparr>"
      have "counts_match (ac_sessions a1) (dict_pop k (ac_active a1))"
        using True match by (auto simp: counts_match_def cnt' dict_get_pop same)
      from books'[OF this] have bk: "books f h a'" by (simp add: a'_def)
      show thesis
        by (rule that[of a' "dict_get (ac_reset_pending a1) k \<noteq> None" "k \<in> set (ac_deleted a1)"])
          (use True act bk cnt' in \<open>auto simp: a'_def detach_session_def a1_def[symmetric] Some r same S Let_def\<close>)
    qed
  qed
qed

lemma forget_books:
  assumes b: "books f h a" and none: "live_count k (ac_sessions a) = 0"
  shows "books f h (forget_key k a)"
proof -
  have other: "session_key s \<noteq> Some k" if "dict_get (ac_sessions a) sid = Some s" for sid s
    by (rule live_count_zero[OF none that])
  have "covered_sessions (ac_sessions a) (discard_record k (ac_ledger a))"
    using booksD(5)[OF b] other by (auto simp: covered_sessions_def discard_books(2))
  moreover have "no_leak (ac_sessions a) (discard_record k (ac_ledger a))" if f
    using booksD(6)[OF b that] by (simp add: no_leak_def discard_books(2))
  moreover have "limiter_live (ac_sessions a) (rl_reset (Some k) (ac_limiter a))" if h
    using booksD(8)[OF b that] other by (auto simp: limiter_live_def intro!: reset_keeps)
  ultimately show ?thesis
    using booksD[OF b] unfolding books_def forget_key_def by (simp add: discard_books(1))
qed

subsection \<open>A session begins\<close>

lemma live_count_new:
  "dict_get S sid = None \<Longrightarrow> live_count k (dict_set sid s S) = live_count k S + keyed k s"
  by (simp add: live_count_def sum_dict_set_new)

lemma linked_open:
  assumes link: "sessions_linked S Q" and fresh: "dict_get S (rv_reservation_id r) = None"
    and q: "dict_get Q (rv_request_id r) = None"
  shows "sessions_linked (dict_set (rv_reservation_id r) (new_session r) S)
    (dict_set (rv_request_id r) (rv_reservation_id r) Q)"
  unfolding sessions_linked_def
proof (intro conjI allI impI)
  show "distinct (dict_keys (dict_set (rv_reservation_id r) (new_session r) S))"
    using link by (simp add: sessions_linked_def distinct_dict_set)
  fix sid s assume s: "dict_get (dict_set (rv_reservation_id r) (new_session r) S) sid = Some s"
  show "rv_reservation_id (sn_reservation s) = sid"
    using s linkedD(1)[OF link, of sid s] by (auto simp: dict_get_set new_session_def split: if_splits)
  show "dict_get (dict_set (rv_request_id r) (rv_reservation_id r) Q) (session_request s) = Some sid"
    using s linkedD(2)[OF link, of sid s] q by (auto simp: dict_get_set new_session_def split: if_splits)
next
  fix qid sid assume qs: "dict_get (dict_set (rv_request_id r) (rv_reservation_id r) Q) qid = Some sid"
  show "\<exists>s. dict_get (dict_set (rv_reservation_id r) (new_session r) S) sid = Some s \<and> session_request s = qid"
  proof (cases "qid = rv_request_id r")
    case True
    with qs show ?thesis by (simp add: dict_get_set new_session_def)
  next
    case False
    with qs have "dict_get Q qid = Some sid" by (simp add: dict_get_set)
    from linked_indexE[OF link this] obtain s where s: "dict_get S sid = Some s" "session_request s = qid" .
    with fresh have "sid \<noteq> rv_reservation_id r" by auto
    with s show ?thesis by (simp add: dict_get_set)
  qed
qed

text \<open>The state after ledger and limiter admitted the request: only the session is missing.\<close>

lemma open_books:
  assumes link: "sessions_linked (ac_sessions a) (ac_by_request a)" and cm: "counts_match (ac_sessions a) (ac_active a)"
    and cap: "int (length (ac_sessions a)) < ac_max_sessions a" and led: "ledger_books (ac_ledger a)"
    and cov: "covered_sessions (ac_sessions a) (ac_ledger a)"
    and fresh: "dict_get (ac_sessions a) (rv_reservation_id r) = None"
    and q: "dict_get (ac_by_request a) (rv_request_id r) = None"
    and own: "\<And>k. rv_api_key_id r = Some k \<Longrightarrow> resv (ac_ledger a) k (rv_request_id r) = Some (rv_reserved_usd r)"
    and leak: "\<And>k q v. resv (ac_ledger a) k q = Some v \<Longrightarrow> \<not> (rv_api_key_id r = Some k \<and> q = rv_request_id r) \<Longrightarrow>
      \<exists>sid s. dict_get (ac_sessions a) sid = Some s \<and> session_key s = Some k \<and> session_request s = q \<and> \<not> sn_ledger_done s"
    and dec: "decided_done (ac_sessions a)"
    and lim: "h \<Longrightarrow> limiter_live (ac_sessions a) (ac_limiter a) \<and> soft_updates (ac_updates a)"
    and ownl: "\<And>k. h \<Longrightarrow> rv_api_key_id r = Some k \<Longrightarrow> in_flight (ac_limiter a) k (rv_request_id r)"
  shows "books True h (open_session r a)"
proof -
  let ?sid = "rv_reservation_id r"
  let ?S = "dict_set ?sid (new_session r) (ac_sessions a)"
  have new: "sn_reservation (new_session r) = r" "\<not> sn_ledger_done (new_session r)" "sn_charge (new_session r) = None"
    by (simp_all add: new_session_def)
  have "sessions_linked ?S (dict_set (rv_request_id r) ?sid (ac_by_request a))"
    by (rule linked_open[OF link fresh q])
  moreover have "counts_match ?S (case rv_api_key_id r of None \<Rightarrow> ac_active a
      | Some k \<Rightarrow> dict_set k (dict_default 0 (ac_active a) k + 1) (ac_active a))"
    using cm live_count_nonneg[of _ "ac_sessions a"]
    by (auto simp: counts_match_def live_count_new[OF fresh] keyed_def new dict_get_set dict_default_def
        add_nonneg_eq_0_iff split: option.split)
  moreover have "int (length ?S) \<le> ac_max_sessions a"
    using cap fresh by (simp add: dict_set_new map_of_eq_None_iff)
  moreover have "covered_sessions ?S (ac_ledger a)"
    using cov own new by (auto simp: covered_sessions_def dict_get_set)
  moreover have "no_leak ?S (ac_ledger a)"
    unfolding no_leak_def
  proof (intro allI impI)
    fix k q v assume v: "resv (ac_ledger a) k q = Some v"
    show "\<exists>sid s. dict_get ?S sid = Some s \<and> session_key s = Some k \<and> session_request s = q \<and> \<not> sn_ledger_done s"
    proof (cases "rv_api_key_id r = Some k \<and> q = rv_request_id r")
      case True
      then show ?thesis using new by (intro exI[of _ ?sid] exI[of _ "new_session r"]) (simp add: dict_get_set)
    next
      case False
      from leak[OF v this] obtain sid s where s: "dict_get (ac_sessions a) sid = Some s" "session_key s = Some k"
        "session_request s = q" "\<not> sn_ledger_done s" by blast
      with fresh have "sid \<noteq> ?sid" by auto
      with s show ?thesis by (intro exI[of _ sid] exI[of _ s]) (simp add: dict_get_set)
    qed
  qed
  moreover have "decided_done ?S" using dec new by (auto simp: decided_done_def dict_get_set)
  moreover have "limiter_live ?S (ac_limiter a)" if h
    using lim ownl new \<open>h\<close> by (auto simp: limiter_live_def dict_get_set)
  ultimately show ?thesis using led lim by (simp add: books_def open_session_def)
qed

end
