(* ===== verification/Accounting_Soundness.thy ===== *)
theory Accounting_Soundness
  imports Accounting_Books
begin

text \<open>
  Every piece of every task of the accounting service keeps the books and the gate invariant. The
  properties of the service follow by induction over its runs.
\<close>

section \<open>Ends of sessions\<close>

abbreviation fatal_of :: "acct \<Rightarrow> accounting_code option" where
  "fatal_of a \<equiv> gt_fatal (ac_gate a)"

definition sound :: "bool \<Rightarrow> acct \<Rightarrow> bool" where
  "sound h a \<longleftrightarrow> gate_ok (ac_gate a) \<and> books True h a"

lemma soundD: "sound h a \<Longrightarrow> gate_ok (ac_gate a)" "sound h a \<Longrightarrow> books True h a"
  by (simp_all add: sound_def)

lemma sound_frame [simp]:
  "sound h (a\<lparr>ac_retry_sessions := x2\<rparr>) = sound h a"
  "sound h (a\<lparr>ac_event_owner := x3\<rparr>) = sound h a" "sound h (a\<lparr>ac_fences := x4\<rparr>) = sound h a"
  "sound h (a\<lparr>ac_reset_pending := x5\<rparr>) = sound h a" "sound h (a\<lparr>ac_deleted := x6\<rparr>) = sound h a"
  "sound h (a\<lparr>ac_known := x7\<rparr>) = sound h a" "sound h (a\<lparr>ac_limits := x8\<rparr>) = sound h a"
  "sound h (a\<lparr>ac_tasks := x9\<rparr>) = sound h a" "sound h (a\<lparr>ac_results := x10\<rparr>) = sound h a"
  "sound h (a\<lparr>ac_resets := x11\<rparr>) = sound h a" "sound h (a\<lparr>ac_deletes := x12\<rparr>) = sound h a"
  "sound h (a\<lparr>ac_due := x13\<rparr>) = sound h a" "sound h (a\<lparr>ac_owners := x14\<rparr>) = sound h a"
  "sound h (a\<lparr>ac_pass := x15\<rparr>) = sound h a" "sound h (a\<lparr>ac_projector := x16\<rparr>) = sound h a"
  "sound h (a\<lparr>ac_reconciling := x17\<rparr>) = sound h a" "sound h (a\<lparr>ac_stopping := x18\<rparr>) = sound h a"
  by (simp_all add: sound_def)

lemma sound_gate: "sound h a \<Longrightarrow> gate_ok g \<Longrightarrow> sound h (a\<lparr>ac_gate := g\<rparr>)"
  by (simp add: sound_def)

lemma sound_on_gate: "sound h a \<Longrightarrow> (\<And>g. gate_ok g \<Longrightarrow> gate_ok (f g)) \<Longrightarrow> sound h (on_gate f a)"
  by (simp add: sound_def on_gate_def)

lemma sound_put:
  assumes "sound h a" and "dict_get (ac_sessions a) sid = Some s"
    and "sn_reservation s' = sn_reservation s" and "sn_ledger_done s' = sn_ledger_done s"
    and "sn_limiter_done s \<Longrightarrow> sn_limiter_done s'"
    and "session_key s \<noteq> None \<Longrightarrow> sn_charge s' \<noteq> None \<Longrightarrow> sn_charge s \<noteq> None \<or> sn_ledger_done s"
  shows "sound h (put_session sid s' a)"
  using books_put[OF soundD(2)[OF assms(1)] assms(2-5)] assms(1,6) by (simp add: sound_def put_session_def)

lemma gate_ok_wake [gate_ok_intros]: "gate_ok g \<Longrightarrow> gate_ok (wake_projector g)"
  by (simp add: wake_projector_def)

lemma sound_unregister: "sound h a \<Longrightarrow> sound h (unregister_retry k sid a)"
  by (simp add: unregister_retry_def)

lemma sound_finish_task: "sound h a \<Longrightarrow> sound h (finish_task sid cl a)"
  by (auto simp: finish_task_def Let_def sound_unregister gate_ok_clear split: option.split intro!: sound_on_gate)

lemma sound_forget: "sound h a \<Longrightarrow> live_count k (ac_sessions a) = 0 \<Longrightarrow> sound h (forget_key k a)"
  using forget_books[of True h a k] by (simp add: sound_def forget_key_def)

lemma sound_after_terminal:
  assumes "sound h a" and "\<And>k. key = Some k \<Longrightarrow> del \<Longrightarrow> live_count k (ac_sessions a) = 0"
  shows "sound h (after_terminal sid cl (key, p, del) a)"
  using assms by (auto simp: after_terminal_def sound_finish_task sound_forget split: option.split)

text \<open>\<open>x\<close> is the session as the books know it, \<open>s\<close> as the task holds it.\<close>

lemma unlink_put: "rv_reservation_id (sn_reservation s) = sid \<Longrightarrow> unlink_session s (put_session sid x a) = unlink_session s a"
  by (cases "sn_event_key s") (simp_all add: unlink_session_def put_session_def Let_def delete_update_same)

lemma close_put:
  "rv_reservation_id (sn_reservation s) = sid \<Longrightarrow> close_session sid s cl (put_session sid x a) = close_session sid s cl a"
  by (simp add: close_session_def detach_session_def unlink_put)

lemma done_gone:
  assumes "books True h a" and "dict_get (ac_sessions a) sid = Some x" and "sn_ledger_done x" and "session_key x = Some k"
  shows "resv (ac_ledger a) k (session_request x) = None"
proof (rule ccontr)
  assume "resv (ac_ledger a) k (session_request x) \<noteq> None"
  then obtain v where "resv (ac_ledger a) k (session_request x) = Some v" by auto
  with booksD(6)[OF assms(1)] obtain sid1 s1 where s1: "dict_get (ac_sessions a) sid1 = Some s1"
    "session_request s1 = session_request x" "\<not> sn_ledger_done s1" by (metis no_leakE)
  with linked_unique[OF booksD(1)[OF assms(1)] assms(2) s1(1)] assms(3) show False by simp
qed

lemma put_get [simp]: "dict_get (ac_sessions (put_session sid x a)) sid' = (if sid' = sid then Some x else dict_get (ac_sessions a) sid')"
  by (simp add: put_session_def dict_get_set)

lemma put_fields [simp]:
  "ac_ledger (put_session sid x a) = ac_ledger a" "ac_limiter (put_session sid x a) = ac_limiter a"
  "ac_gate (put_session sid x a) = ac_gate a" "ac_by_request (put_session sid x a) = ac_by_request a"
  "ac_updates (put_session sid x a) = ac_updates a"
  by (simp_all add: put_session_def)

lemma sound_close:
  assumes b: "sound h (put_session sid x a)" and r: "sn_reservation s = sn_reservation x"
    and fin: "sn_ledger_done x \<or> session_key x = None"
  shows "sound h (close_session sid s cl a)"
proof -
  let ?a = "put_session sid x a"
  have bk: "books True h ?a" and g: "gate_ok (ac_gate ?a)" using b by (auto simp: sound_def)
  have id: "rv_reservation_id (sn_reservation s) = sid"
    using linkedD(1)[OF booksD(1)[OF bk], of sid x] r by simp
  have "resv (ac_ledger ?a) k (session_request x) = None" if "session_key x = Some k" for k
    using done_gone[OF bk, of sid x k] fin that by simp
  then obtain a' p del where d: "detach_session s ?a = (a', Answered (session_key x, p, del))" "books True h a'"
    "\<And>k. session_key x = Some k \<Longrightarrow> del \<Longrightarrow> live_count k (ac_sessions a') = 0" "ac_gate a' = ac_gate ?a"
    using detach_books[OF bk, of sid x s] r by (metis put_get)
  have "sound h a'" using d g by (simp add: sound_def)
  then have "sound h (after_terminal sid cl (session_key x, p, del) a')"
    using d(3) by (intro sound_after_terminal) auto
  then have "sound h (close_session sid s cl ?a)" by (simp add: close_session_def d)
  then show ?thesis by (simp add: close_put[OF id])
qed

lemma release_cases:
  assumes "release_request q k d = (d', x)" and "ledger_books d"
  obtains "x = Inr True" "closes k q d d'" | "x \<noteq> Inr True" "d' = d" "resv d k q = None"
proof (cases "resv d k q")
  case None
  then have "\<not> open_reservation k q d" by (simp add: open_reservation_def resv_entry_for)
  from closed_noop(2)[OF this] assms(1) None show thesis by (intro that(2)) auto
next
  case (Some v)
  from release_works[OF assms(2) Some] obtain e where "release_request q k d = (e, Inr True)" "closes k q d e" by metis
  with assms(1) show thesis by (intro that(1)) auto
qed

lemma sound_ledger_settled:
  assumes b: "sound h a" and s: "dict_get (ac_sessions a) sid = Some x" and k: "session_key x = Some k"
    and cl: "closes k (session_request x) (ac_ledger a) d"
    and r: "sn_reservation x' = sn_reservation x" "sn_ledger_done x'" "sn_limiter_done x' = sn_limiter_done x"
  shows "sound h (put_session sid x' (a\<lparr>ac_ledger := d\<rparr>))"
  using books_settled[OF soundD(2)[OF b] s k cl r] b by (simp add: sound_def put_session_def)

lemma sound_limited:
  assumes b: "sound h a" and s: "dict_get (ac_sessions a) sid = Some x" and k: "session_key x = Some k"
    and at: "attribute_request_tokens now (session_request x) (Some k) n (ac_limiter a) = (l, r)"
  shows "r = Inr True \<Longrightarrow> sound h (put_session sid (x\<lparr>sn_limiter_done := True\<rparr>) (a\<lparr>ac_limiter := l\<rparr>))"
    and "r \<noteq> Inr True \<Longrightarrow> sound h (a\<lparr>ac_limiter := l\<rparr>)"
  using books_limited[OF soundD(2)[OF b] s k at] b by (simp_all add: sound_def put_session_def)

lemma put_ledger: "put_session sid x (a\<lparr>ac_ledger := d\<rparr>) = (put_session sid x a)\<lparr>ac_ledger := d\<rparr>"
  and put_limiter: "put_session sid x (a\<lparr>ac_limiter := l\<rparr>) = (put_session sid x a)\<lparr>ac_limiter := l\<rparr>"
  by (simp_all add: put_session_def)

lemma sound_put_put: "sound h (put_session sid x' (put_session sid x a)) = sound h (put_session sid x' a)"
proof -
  have "AList.update sid x' (AList.update sid x S) = AList.update sid x' S" for S :: "(string, session) dict"
    by (induction S) auto
  then show ?thesis by (simp add: put_session_def)
qed

lemma give_back_ledger_sound:
  assumes b: "sound h (put_session sid x a)" and r: "sn_reservation s = sn_reservation x"
    and dn: "sn_ledger_done s \<Longrightarrow> sn_ledger_done x" and k: "session_key x = Some k"
    and g: "give_back_ledger s k a = (a', s', e)"
  obtains x' where "sound h (put_session sid x' a')" "sn_reservation s' = sn_reservation x'" "sn_ledger_done x'"
    "session_key x' = Some k" "sn_limiter_done x' = sn_limiter_done x" "sn_limiter_done s' = sn_limiter_done s"
proof (cases "sn_ledger_done s")
  case True
  with assms show thesis by (intro that[of x]) (auto simp: give_back_ledger_def)
next
  case False
  obtain d res where rel: "release_request (session_request s) k (ac_ledger a) = (d, res)" by fastforce
  have bk: "books True h (put_session sid x a)" using b by (simp add: sound_def)
  have lb: "ledger_books (ac_ledger a)" using booksD(4)[OF bk] by simp
  from rel lb show thesis
  proof (cases rule: release_cases)
    case 1
    have "sound h (put_session sid (x\<lparr>sn_ledger_done := True\<rparr>) ((put_session sid x a)\<lparr>ac_ledger := d\<rparr>))"
      using 1 r k by (intro sound_ledger_settled[OF b, of sid x k]) auto
    then have "sound h (put_session sid (x\<lparr>sn_ledger_done := True\<rparr>) (a\<lparr>ac_ledger := d\<rparr>))"
      by (simp add: put_ledger[symmetric] sound_put_put)
    with 1 False g rel r k show thesis
      by (intro that[of "x\<lparr>sn_ledger_done := True\<rparr>"]) (auto simp: give_back_ledger_def)
  next
    case 2
    have "sn_ledger_done x"
    proof (rule ccontr)
      assume "\<not> sn_ledger_done x"
      with coveredD[OF booksD(5)[OF bk], of sid x k] k 2 r show False by simp
    qed
    moreover have "a\<lparr>ac_ledger := d\<rparr> = a" using 2 by simp
    ultimately show thesis using 2 False g rel r k b
      by (intro that[of x]) (auto simp: give_back_ledger_def split: sum.splits)
  qed
qed

lemma give_back_limiter_sound:
  assumes b: "sound h (put_session sid x a)" and r: "sn_reservation s = sn_reservation x"
    and k: "session_key x = Some k" and g: "give_back_limiter ck s k a = (a', s', e)"
  obtains x' where "sound h (put_session sid x' a')" "sn_reservation s' = sn_reservation x'"
    "sn_ledger_done x' = sn_ledger_done x" "session_key x' = Some k"
proof (cases "sn_limiter_done s")
  case True
  with assms show thesis by (intro that[of x]) (auto simp: give_back_limiter_def)
next
  case False
  obtain l res where at: "attribute_request_tokens (ck_mono ck) (session_request x) (Some k) (TokInt 0) (ac_limiter a) = (l, res)"
    by fastforce
  show thesis
  proof (cases "res = Inr True")
    case True
    have "sound h (put_session sid (x\<lparr>sn_limiter_done := True\<rparr>) ((put_session sid x a)\<lparr>ac_limiter := l\<rparr>))"
      by (rule sound_limited(1)[OF b _ k _ True]) (use at in auto)
    then have "sound h (put_session sid (x\<lparr>sn_limiter_done := True\<rparr>) (a\<lparr>ac_limiter := l\<rparr>))"
      by (simp add: put_limiter[symmetric] sound_put_put)
    with True False g at r k show thesis
      by (intro that[of "x\<lparr>sn_limiter_done := True\<rparr>"]) (auto simp: give_back_limiter_def)
  next
    case nt: False
    have "sound h ((put_session sid x a)\<lparr>ac_limiter := l\<rparr>)"
      by (rule sound_limited(2)[OF b _ k _ nt]) (use at in auto)
    then have "sound h (put_session sid x (a\<lparr>ac_limiter := l\<rparr>))" by (simp add: put_limiter)
    with nt False g at r k show thesis
      by (intro that[of x]) (auto simp: give_back_limiter_def split: sum.splits if_splits)
  qed
qed

lemma sound_fail:
  assumes b: "sound h (put_session sid x a)" and s: "dict_get (ac_sessions a) sid = Some s"
    and r: "sn_reservation s = sn_reservation x" and dn: "sn_ledger_done s \<Longrightarrow> sn_ledger_done x"
    and c: "sn_charge s = sn_charge x \<or> sn_ledger_done x"
  shows "sound h (fail_session ck sid cl a)"
proof -
  have bk: "books True h (put_session sid x a)" using b by (simp add: sound_def)
  obtain a1 s1 e where gb: "give_back ck s a = (a1, s1, e)" by (cases "give_back ck s a")
  obtain x1 where x1: "sound h (put_session sid x1 a1)" "sn_reservation s1 = sn_reservation x1"
    "sn_ledger_done x1 \<or> session_key x1 = None"
  proof (cases "\<exists>k. sn_charge s = None \<and> session_key s = Some k")
    case True
    then obtain k where k: "sn_charge s = None" "session_key s = Some k" by blast
    obtain a2 s2 e2 where g1: "give_back_ledger s k a = (a2, s2, e2)" by (cases "give_back_ledger s k a")
    obtain a3 s3 e3 where g2: "give_back_limiter ck s2 k a2 = (a3, s3, e3)" by (cases "give_back_limiter ck s2 k a2")
    have kx: "session_key x = Some k" using k r by simp
    from give_back_ledger_sound[OF b r dn kx g1] obtain x2 where x2: "sound h (put_session sid x2 a2)"
      "sn_reservation s2 = sn_reservation x2" "sn_ledger_done x2" "session_key x2 = Some k" by metis
    from give_back_limiter_sound[OF x2(1,2,4) g2] obtain x3 where "sound h (put_session sid x3 a3)"
      "sn_reservation s3 = sn_reservation x3" "sn_ledger_done x3 = sn_ledger_done x2" by metis
    with x2 show thesis using gb g1 g2 k by (intro that[of x3]) (auto simp: give_back_def)
  next
    case False
    have "sn_ledger_done x \<or> session_key x = None"
      using False c r decidedD[OF booksD(7)[OF bk], of sid x]
      by (cases "session_key x"; cases "sn_charge x") auto
    with False b r gb show thesis by (intro that[of x]) (auto simp: give_back_def split: option.splits)
  qed
  then show ?thesis using s gb by (auto simp: fail_session_def intro!: sound_close)
qed

lemma sound_put_same: "sound h a \<Longrightarrow> dict_get (ac_sessions a) sid = Some s \<Longrightarrow> sound h (put_session sid s a)"
  by (rule sound_put) auto

lemma sound_fail_session: "sound h a \<Longrightarrow> sound h (fail_session ck sid cl a)"
proof (cases "dict_get (ac_sessions a) sid")
  case None
  then show "sound h a \<Longrightarrow> ?thesis" by (simp add: fail_session_def sound_finish_task)
next
  case (Some s)
  assume "sound h a"
  from sound_put_same[OF this Some] show ?thesis by (rule sound_fail[OF _ Some]) auto
qed

lemma sound_close_done:
  assumes "sound h a" and "dict_get (ac_sessions a) sid = Some s" and "sn_ledger_done s \<or> session_key s = None"
  shows "sound h (close_session sid s cl a)"
  using sound_close[OF sound_put_same[OF assms(1,2)] refl assms(3)] .

section \<open>Charging\<close>

text \<open>The event is validated, and no key's spend overflows a float with its cost.\<close>

definition chargeable :: "event \<Rightarrow> acct \<Rightarrow> bool" where
  "chargeable e a \<longleftrightarrow> 0 \<le> us_cost (ev_usage e) \<and> 0 \<le> us_total (ev_usage e) \<and>
     list_all (\<lambda>p. \<not> float_overflow (le_spent_usd (snd p) + us_cost (ev_usage e))) (ac_ledger a)"

lemma commit_works:
  assumes "ledger_books d" and "resv d k q = Some v" and "0 \<le> cost"
    and "list_all (\<lambda>p. \<not> float_overflow (le_spent_usd (snd p) + cost)) d"
  obtains d' where "commit_request q k (PyFloat cost) d = (d', Inr True)" "closes k q d d'"
    "\<And>j. le_spent_usd (entry_for j d') = (if j = k then le_spent_usd (entry_for k d) + cost else le_spent_usd (entry_for j d))"
proof -
  obtain d' x where c: "commit_request q k (PyFloat cost) d = (d', x)" by fastforce
  from assms(2) obtain e where e: "dict_get d k = Some e" and v: "dict_get (le_request_reservations e) q = Some v"
    by (auto simp: resv_def bind_eq_Some_conv)
  from ledger_books_get[OF assms(1) e] have ok: "entry_ok e" "\<not> float_overflow (reservation_total e)" by auto
  have sp: "0 \<le> le_spent_usd e" using ok(1) by (simp add: entry_ok_def)
  have "\<not> float_overflow (le_spent_usd e + cost)" using assms(4) map_of_SomeD[OF e] by (auto simp: list_all_iff)
  then have "sum_request_usd [le_spent_usd e, cost] = Inr (le_spent_usd e + cost)"
    using sp assms(3) by (simp add: sum_request_usd_def Let_def)
  then have "x = Inr True"
    using c e v assms(3) by (simp add: commit_request_def normalize_request_usd_def others_total[OF ok(1) v ok(2)])
  from commit_outcome[OF assms(1,2) c] this c that show thesis by (metis sum.distinct(1))
qed

lemma settle_ledger_sound:
  assumes b: "sound h a" and s: "dict_get (ac_sessions a) sid = Some s" and k: "session_key s = Some k"
    and cost: "\<And>c. cost = Some c \<Longrightarrow> 0 \<le> c \<and> list_all (\<lambda>p. \<not> float_overflow (le_spent_usd (snd p) + c)) (ac_ledger a)"
  obtains a1 s2 where "settle_ledger sid (s\<lparr>sn_charge := ch\<rparr>) k cost a = (a1, Answered s2)" "sound h a1"
    "dict_get (ac_sessions a1) sid = Some s2" "s2 = s\<lparr>sn_charge := ch, sn_ledger_done := True\<rparr>"
proof (cases "sn_ledger_done s")
  case True
  have "sound h (put_session sid (s\<lparr>sn_charge := ch\<rparr>) a)" using True by (intro sound_put[OF b s]) auto
  moreover have "s\<lparr>sn_charge := ch\<rparr> = s\<lparr>sn_charge := ch, sn_ledger_done := True\<rparr>" using True by simp
  ultimately show thesis using True by (intro that[of "put_session sid (s\<lparr>sn_charge := ch\<rparr>) a" "s\<lparr>sn_charge := ch\<rparr>"])
    (simp_all add: settle_ledger_def)
next
  case False
  have bk: "books True h a" using b by (simp add: sound_def)
  have r: "resv (ac_ledger a) k (session_request s) = Some (rv_reserved_usd (sn_reservation s))"
    using coveredD[OF booksD(5)[OF bk] s k False] .
  have "\<exists>d. (case cost of Some c \<Rightarrow> commit_request (session_request s) k (PyFloat c) (ac_ledger a)
      | None \<Rightarrow> release_request (session_request s) k (ac_ledger a)) = (d, Inr True) \<and> closes k (session_request s) (ac_ledger a) d"
  proof (cases cost)
    case None
    from release_works[OF booksD(4)[OF bk] r] show ?thesis unfolding None by (metis option.simps(4))
  next
    case (Some c)
    from commit_works[OF booksD(4)[OF bk] r] cost[OF Some] show ?thesis unfolding Some by (metis option.simps(5))
  qed
  then obtain d where d: "(case cost of Some c \<Rightarrow> commit_request (session_request s) k (PyFloat c) (ac_ledger a)
      | None \<Rightarrow> release_request (session_request s) k (ac_ledger a)) = (d, Inr True)"
    "closes k (session_request s) (ac_ledger a) d" by blast
  have "sound h (put_session sid (s\<lparr>sn_charge := ch, sn_ledger_done := True\<rparr>) (a\<lparr>ac_ledger := d\<rparr>))"
    using d(2) k by (intro sound_ledger_settled[OF b s k]) auto
  with d(1) False show thesis
    by (intro that[of "put_session sid (s\<lparr>sn_charge := ch, sn_ledger_done := True\<rparr>) (a\<lparr>ac_ledger := d\<rparr>)"
          "s\<lparr>sn_charge := ch, sn_ledger_done := True\<rparr>"])
      (simp_all add: settle_ledger_def cong: option.case_cong)
qed

lemma settle_limiter_sound:
  assumes b: "sound h a" and s: "dict_get (ac_sessions a) sid = Some s" and k: "session_key s = Some k"
  shows "sound h (fst (settle_limiter ck sid s k n a))"
    and "h \<Longrightarrow> 0 \<le> n \<Longrightarrow> snd (settle_limiter ck sid s k n a) = Answered ()"
proof -
  obtain l r where at: "attribute_request_tokens (ck_mono ck) (session_request s) (Some k) (TokInt n) (ac_limiter a) = (l, r)"
    by fastforce
  note lim = sound_limited[OF b s k at]
  show "sound h (fst (settle_limiter ck sid s k n a))"
    using b lim at by (auto simp: settle_limiter_def split: sum.split bool.split)
  assume "h" "0 \<le> n"
  have "r = Inr True" if "\<not> sn_limiter_done s"
  proof -
    have "in_flight (ac_limiter a) k (session_request s)"
      using booksD(8)[OF soundD(2)[OF b] \<open>h\<close>] s k that by (simp add: limiter_live_def)
    from attribution_of_in_flight(1)[OF this \<open>0 \<le> n\<close>, of "ck_mono ck"] at show ?thesis by simp
  qed
  with at show "snd (settle_limiter ck sid s k n a) = Answered ()" by (simp add: settle_limiter_def)
qed

lemma settle_sound:
  assumes b: "sound h a" and s: "dict_get (ac_sessions a) sid = Some s"
    and cost: "\<And>c. cost = Some c \<Longrightarrow> 0 \<le> c \<and> list_all (\<lambda>p. \<not> float_overflow (le_spent_usd (snd p) + c)) (ac_ledger a)"
  shows "sound h (fst (settle_session ck sid s charge cost n a))"
    and "h \<Longrightarrow> 0 \<le> n \<Longrightarrow> sn_charge s = None \<or> sn_charge s = Some charge \<Longrightarrow>
      snd (settle_session ck sid s charge cost n a) = Answered ()"
proof -
  have "sound h (fst (settle_session ck sid s charge cost n a)) \<and> (h \<longrightarrow> 0 \<le> n \<longrightarrow>
      sn_charge s = None \<or> sn_charge s = Some charge \<longrightarrow> snd (settle_session ck sid s charge cost n a) = Answered ())"
  proof (cases "sn_charge s \<noteq> None \<and> sn_charge s \<noteq> Some charge")
    case True
    with b show ?thesis by (auto simp: settle_session_def)
  next
    case False
    show ?thesis
    proof (cases "session_key s")
      case None
      have "books True h (put_session sid (s\<lparr>sn_charge := Some charge, sn_ledger_done := True, sn_limiter_done := True\<rparr>) a)"
        by (rule books_put_keyless[OF soundD(2)[OF b] s _ None]) simp
      with b False None show ?thesis by (auto simp: settle_session_def sound_def)
    next
      case (Some k)
      from settle_ledger_sound[OF b s Some cost, where ch = "Some charge"] obtain a1 s2 where l:
        "settle_ledger sid (s\<lparr>sn_charge := Some charge\<rparr>) k cost a = (a1, Answered s2)" "sound h a1"
        "dict_get (ac_sessions a1) sid = Some s2" "s2 = s\<lparr>sn_charge := Some charge, sn_ledger_done := True\<rparr>" by metis
      have "session_key s2 = Some k" using l(4) Some by simp
      from settle_limiter_sound[OF l(2,3) this] l(1) False Some show ?thesis
        by (auto simp: settle_session_def Let_def)
    qed
  qed
  then show "sound h (fst (settle_session ck sid s charge cost n a))"
    and "h \<Longrightarrow> 0 \<le> n \<Longrightarrow> sn_charge s = None \<or> sn_charge s = Some charge \<Longrightarrow>
      snd (settle_session ck sid s charge cost n a) = Answered ()" by auto
qed

lemma liability_sound: "sound h a \<Longrightarrow> chargeable (st_event (acc_stored acc)) a \<Longrightarrow> sound h (fst (apply_session_liability fp ck sid acc a))"
  unfolding apply_session_liability_def
  by (auto simp: Let_def chargeable_def intro!: settle_sound(1) split: option.split)

lemma duplicate_sound: "sound h a \<Longrightarrow> sound h (fst (apply_duplicate_session ck sid a))"
  unfolding apply_duplicate_session_def by (auto intro!: settle_sound(1) split: option.split)

section \<open>Tasks of sessions\<close>

lemma find_session_Some: "find_session r a = Answered (Some s) \<Longrightarrow> dict_get (ac_sessions a) (rv_reservation_id r) = Some s \<and> sn_reservation s = r"
  by (auto simp: find_session_def split: option.splits if_splits)

lemma begin_release_sound: "sound h a \<Longrightarrow> sound h (fst (begin_release r spawned a))"
  by (auto simp: begin_release_def split: answer.split option.split dest!: find_session_Some intro!: sound_put)

lemma run_release_sound:
  assumes b: "sound h a" shows "sound h (run_release ck sid a)"
proof (cases "dict_get (ac_sessions a) sid")
  case None
  with b show ?thesis by (simp add: run_release_def sound_finish_task)
next
  case (Some s)
  show ?thesis
  proof (cases "session_key s")
    case None
    with b Some show ?thesis by (simp add: run_release_def sound_close_done)
  next
    case k: (Some k)
    obtain d res where rel: "release_request (session_request s) k (ac_ledger a) = (d, res)" by fastforce
    have lb: "ledger_books (ac_ledger a)" using booksD(4)[OF soundD(2)[OF b]] .
    from rel lb show ?thesis
    proof (cases rule: release_cases)
      case 2
      then have "a\<lparr>ac_ledger := d\<rparr> = a" by simp
      with b Some k rel 2 show ?thesis
        by (auto simp: run_release_def Let_def sound_fail_session split: sum.split bool.split)
    next
      case 1
      define x where "x = s\<lparr>sn_ledger_done := True\<rparr>"
      have b1: "sound h (put_session sid x (a\<lparr>ac_ledger := d\<rparr>))"
        unfolding x_def by (rule sound_ledger_settled[OF b Some k 1(2)]) auto
      have x: "session_key x = Some k" "sn_reservation s = sn_reservation x" "sn_ledger_done x" by (simp_all add: x_def k)
      obtain l r where at: "attribute_request_tokens (ck_mono ck) (session_request s) (Some k) (TokInt 0) (ac_limiter a) = (l, r)"
        by fastforce
      have at': "attribute_request_tokens (ck_mono ck) (session_request x) (Some k) (TokInt 0)
          (ac_limiter (put_session sid x (a\<lparr>ac_ledger := d\<rparr>))) = (l, r)" using at by (simp add: x_def)
      note lim = sound_limited[OF b1 _ x(1) at']
      show ?thesis
      proof (cases "r = Inr True")
        case True
        have live: "dict_get (ac_sessions (put_session sid x (a\<lparr>ac_ledger := d\<rparr>))) sid = Some x" by simp
        from lim(1)[OF live True] have "sound h (put_session sid (x\<lparr>sn_limiter_done := True\<rparr>) (a\<lparr>ac_ledger := d, ac_limiter := l\<rparr>))"
          by (simp add: put_limiter[symmetric] sound_put_put)
        from sound_close[OF this, of s] x show ?thesis
          using Some k rel 1 at True by (simp add: run_release_def)
      next
        case False
        have live: "dict_get (ac_sessions (put_session sid x (a\<lparr>ac_ledger := d\<rparr>))) sid = Some x" by simp
        from lim(2)[OF live False] have b2: "sound h (put_session sid x (a\<lparr>ac_ledger := d, ac_limiter := l\<rparr>))"
          by (simp add: put_limiter)
        have "sound h (fail_session ck sid cl (a\<lparr>ac_ledger := d, ac_limiter := l\<rparr>))" for cl
          by (rule sound_fail[OF b2, where s = s]) (use Some x in auto)
        then show ?thesis
          using Some k rel 1 at False by (auto simp: run_release_def Let_def split: sum.split bool.split)
      qed
    qed
  qed
qed

lemma own_commit_sound:
  "sound h a \<Longrightarrow> dict_get (ac_sessions a) sid = Some s \<Longrightarrow> sound h (own_commit sid s e k a)"
  by (auto simp: own_commit_def intro!: sound_on_gate sound_put gate_ok_take_source)

lemma follow_commit_sound:
  "sound h a \<Longrightarrow> dict_get (ac_sessions a) sid = Some s \<Longrightarrow> sound h (follow_commit sid s e k owner a)"
  by (auto simp: follow_commit_def intro!: sound_put)

lemma begin_commit_sound: "sound h a \<Longrightarrow> sound h (fst (begin_commit fp r e spawned a))"
  by (auto simp: begin_commit_def Let_def own_commit_sound follow_commit_sound
      split: answer.split option.split dest!: find_session_Some)

lemma source_failure_sound:
  assumes "sound h a" and "finish_source_failure k e retain (ac_gate a) = (g, r)"
  shows "gate_ok g"
  using gate_ok_source_failure[OF soundD(1)[OF assms(1)], of k e retain] assms(2) by simp

lemma source_answered_sound:
  assumes b: "sound h a"
    and app: "\<And>acc a'. sound h a' \<Longrightarrow> ac_ledger a' = ac_ledger a \<Longrightarrow> ans = Answered (Some acc) \<Longrightarrow> sound h (fst (apply_acc acc a'))"
  shows "sound h (fst (source_answered fp ck k e ans apply_acc a))"
proof (cases "answer_bind ans (\<lambda>result. validate_source_result fp result k)")
  case (Refused c)
  obtain g r where f: "finish_source_failure k e (\<not> permanent_code c) (ac_gate a) = (g, r)" by fastforce
  from source_failure_sound[OF b f] b show ?thesis
    by (cases r) (simp_all add: source_answered_def Refused f sound_gate gate_ok_wake gate_ok_record_code)
next
  case Broke
  obtain g r where f: "finish_source_failure k e True (ac_gate a) = (g, r)" by fastforce
  from source_failure_sound[OF b f] b show ?thesis
    by (cases r) (simp_all add: source_answered_def Broke f sound_gate gate_ok_wake gate_ok_record_error)
next
  case (Answered acc)
  then have ans: "ans = Answered (Some acc)"
    by (auto simp: answer_bind_def validate_source_result_def split: answer.splits option.splits if_splits)
  obtain g r where f: "accept_source_result fp k (acc_stored acc) True (ac_gate a) = (g, r)" by fastforce
  have g: "gate_ok g" using gate_ok_accept_source[OF soundD(1)[OF b], of fp k "acc_stored acc" True] f by simp
  obtain a1 r1 where ap: "apply_acc acc (a\<lparr>ac_gate := g\<rparr>) = (a1, r1)" by fastforce
  have "sound h a1" using app[OF sound_gate[OF b g] _ ans] ap by simp
  then show ?thesis using sound_gate[OF b g]
    by (cases r; cases r1) (auto simp: source_answered_def Answered f ap
      intro!: sound_on_gate gate_ok_wake gate_ok_record_code gate_ok_record_error gate_ok_retain)
qed

lemma record_projected_gate: "gate_ok g \<Longrightarrow> gate_ok (fst (record_projected fp ck acc pa g))"
  using gate_ok_project[of g fp ck "acc_stored acc" pa]
  by (cases "project_stored fp ck (acc_stored acc) pa g"; cases "snd (project_stored fp ck (acc_stored acc) pa g)")
    (auto simp: record_projected_def intro!: gate_ok_wake gate_ok_record_code gate_ok_record_error)

lemma applied_done: "liability_applied s \<Longrightarrow> sn_ledger_done s"
  by (simp add: liability_applied_def)

lemma commit_finish_sound: "sound h a \<Longrightarrow> sound h (commit_finish ck sid k rc a)"
  using sound_unregister[of h a k sid]
  by (auto simp: commit_finish_def Let_def sound_finish_task sound_fail_session sound_close_done applied_done split: option.split)

lemma commit_refused_sound: "sound h a \<Longrightarrow> sound h (commit_refused ck sid e k c a)"
proof -
  assume b: "sound h a"
  have "sound h (put_session sid (s\<lparr>sn_state := SRetrying\<rparr>) a)" if "dict_get (ac_sessions a) sid = Some s" for s
    using that by (intro sound_put[OF b]) auto
  with b show ?thesis by (auto simp: commit_refused_def Let_def sound_fail_session split: option.split)
qed

lemma commit_continue_sound: "sound h (fst r) \<Longrightarrow> sound h (commit_continue ck sid e k r)"
  by (cases r; cases "snd r") (auto simp: commit_continue_def commit_finish_sound commit_refused_sound sound_fail_session)

lemma commit_accepted_sound:
  assumes b: "sound h a" and ok: "\<And>acc. ans = Answered (Some acc) \<Longrightarrow> chargeable (st_event (acc_stored acc)) a"
  shows "sound h (commit_accepted fp ck sid e ans a)"
proof -
  obtain a1 r where r: "source_answered fp ck (ev_event_id e, fp e) e ans (apply_session_liability fp ck sid) a = (a1, r)" by fastforce
  have "sound h (fst (source_answered fp ck (ev_event_id e, fp e) e ans (apply_session_liability fp ck sid) a))"
    by (rule source_answered_sound[OF b liability_sound]) (use ok in \<open>auto simp: chargeable_def\<close>)
  then have "sound h a1" by (simp add: r)
  then show ?thesis by (cases r) (auto simp: commit_accepted_def Let_def r intro!: commit_continue_sound)
qed

lemma commit_projected_sound: "sound h a \<Longrightarrow> sound h (commit_projected fp ck sid e acc pa a)"
  using record_projected_gate[OF soundD(1), of h a fp ck acc pa]
  by (cases "record_projected fp ck acc pa (ac_gate a)")
    (auto simp: commit_projected_def intro!: commit_continue_sound sound_gate)

lemma commit_retried_sound: "sound h a \<Longrightarrow> sound h (commit_retried fp ck sid e r a)"
  by (auto simp: commit_retried_def Let_def commit_finish_sound sound_fail_session split: answer.split)

lemma follow_finish_sound: "sound h a \<Longrightarrow> sound h (follow_finish ck sid rc a)"
  by (auto simp: follow_finish_def Let_def sound_finish_task sound_fail_session sound_close_done applied_done split: option.split)

lemma follow_owner_sound:
  assumes b: "sound h a" shows "sound h (follow_owner ck sid r a)"
proof -
  obtain a1 x where d: "apply_duplicate_session ck sid a = (a1, x)" by fastforce
  have b1: "sound h a1" using duplicate_sound[OF b, of ck sid] d by simp
  then have "sound h (on_gate (record_code ck c) a1)" for c by (rule sound_on_gate) (rule gate_ok_record_code)
  with b b1 show ?thesis
    by (cases x) (auto simp: follow_owner_def d Let_def follow_finish_sound sound_fail_session split: answer.split option.split)
qed

section \<open>Drains\<close>

lemma publish_to_sound: "sound h a \<Longrightarrow> sound h (publish_to r sid a)"
  by (auto simp: publish_to_def intro!: sound_put split: option.split)

lemma publish_retry_sound: "sound h a \<Longrightarrow> sound h (publish_retry r k a)"
  by (auto simp: publish_retry_def publish_to_sound split: option.split)

lemma publish_all_sound: "sound h a \<Longrightarrow> sound h (publish_all_retry_errors r a)"
proof -
  have "sound h a \<Longrightarrow> sound h (fold (\<lambda>p. publish_to r (snd p)) xs a)" for xs
    by (induction xs arbitrary: a) (auto simp: publish_to_sound)
  then show "sound h a \<Longrightarrow> ?thesis" by (simp add: publish_all_retry_errors_def)
qed

lemma dirty_sound [simp]:
  "sound h (retry_dirty a) = sound h a" "sound h (pending_dirty a) = sound h a" "sound h (projecting x a) = sound h a"
  by (simp_all add: retry_dirty_def pending_dirty_def projecting_def)

lemma sound_errors:
  "sound h a \<Longrightarrow> sound h (on_gate (record_error ck c p b) a)"
  "sound h a \<Longrightarrow> sound h (on_gate (record_code ck c) a)"
  "sound h a \<Longrightarrow> sound h (on_gate clear_transient_block a)"
  "sound h a \<Longrightarrow> sound h (on_gate (\<lambda>g. record_error ck c p b (retain_event k e g)) a)"
  "sound h a \<Longrightarrow> sound h (on_gate (\<lambda>g. fst (accept_source_result fp k st False g)) a)"
  "sound h a \<Longrightarrow> sound h (on_gate (\<lambda>g. g\<lparr>gt_retained := f g\<rparr>) a)"
  by (auto intro!: sound_on_gate gate_ok_record_error gate_ok_record_code gate_ok_clear gate_ok_retain gate_ok_accept_source)

lemma retry_charge_sound:
  "sound h a \<Longrightarrow> chargeable (st_event (acc_stored acc)) a \<Longrightarrow> sound h (fst (retry_charge fp ck k acc a))"
  by (auto simp: retry_charge_def liability_sound split: option.split)

lemma retry_status_stored [simp]: "acc_stored (retry_status k acc a) = acc_stored acc"
  by (simp add: retry_status_def split: option.split)

lemma retry_accepted_sound:
  assumes b: "sound h a" and ok: "\<And>acc. ans = Answered (Some acc) \<Longrightarrow> chargeable (st_event (acc_stored acc)) a"
  shows "sound h (fst (retry_accepted fp ck k ans a))"
proof (cases "answer_bind ans (\<lambda>result. validate_source_result fp result k)")
  case (Refused c)
  with b show ?thesis by (auto simp: retry_accepted_def intro!: publish_retry_sound sound_errors)
next
  case Broke
  with b show ?thesis by (auto simp: retry_accepted_def intro!: sound_errors)
next
  case (Answered acc0)
  then have ans: "ans = Answered (Some acc0)"
    by (auto simp: answer_bind_def validate_source_result_def split: answer.splits option.splits if_splits)
  define a1 where "a1 = on_gate (\<lambda>g. fst (accept_source_result fp k (acc_stored acc0) False g)) a"
  define acc where "acc = retry_status k acc0 a1"
  have b1: "sound h a1" unfolding a1_def by (rule sound_errors(5)[OF b])
  have "chargeable (st_event (acc_stored acc)) a1"
    using ok[OF ans] by (simp add: acc_def a1_def chargeable_def on_gate_def)
  with b1 have rc: "sound h (fst (retry_charge fp ck k acc a1))" by (rule retry_charge_sound)
  obtain a2 r where r: "retry_charge fp ck k acc a1 = (a2, r)" by fastforce
  have b2: "sound h a2" using rc r by simp
  show ?thesis
    using b2 by (cases r)
      (auto simp: retry_accepted_def Answered a1_def[symmetric] acc_def[symmetric] r Let_def
        intro!: publish_retry_sound sound_errors)
qed

lemma retry_projected_sound:
  assumes b: "sound h a" shows "sound h (fst (retry_projected fp ck k acc pa a))"
proof -
  obtain g r where p: "project_stored fp ck (acc_stored acc) pa (ac_gate a) = (g, r)" by fastforce
  have g: "gate_ok g" using gate_ok_project[OF soundD(1)[OF b], of fp ck "acc_stored acc" pa] p by simp
  have gate: "ac_gate (projecting None a) = ac_gate a" by (simp add: projecting_def)
  have "sound h (projecting None a)" using b by simp
  then have "sound h ((projecting None a)\<lparr>ac_gate := g'\<rparr>)" if "gate_ok g'" for g' using that by (rule sound_gate)
  with g show ?thesis
    by (cases r) (auto simp: retry_projected_def Let_def gate p intro!: publish_retry_sound gate_ok_record_error)
qed

lemma drain_row_sound:
  assumes b: "sound h a" shows "sound h (fst (drain_row fp ck st pa a))"
proof -
  obtain g x where m: "mark_pending fp st (ac_gate a) = (g, x)" by fastforce
  have g: "gate_ok g" using gate_ok_mark_pending[OF soundD(1)[OF b], of fp st] m by simp
  obtain g1 r where p: "project_stored fp ck st pa g = (g1, r)" by fastforce
  have g1: "gate_ok g1" using gate_ok_project[OF g, of fp ck st pa] p by simp
  show ?thesis using sound_gate[OF b] g g1
    by (cases x; cases r) (auto simp: drain_row_def m p gate_ok_record_error)
qed

section \<open>Changes of keys\<close>

lemma sync_key_record_sound: "sound h a \<Longrightarrow> sound h (fst (sync_key_record r budget spent a))"
proof -
  assume b: "sound h a"
  note bk = soundD(2)[OF b]
  have "books True h (a\<lparr>ac_ledger := reset_record (kr_id r) budget spent (ac_ledger a)\<rparr>)"
    using booksD[OF bk] reset_record_books[OF booksD(4)[OF bk]] unfolding books_def
    by (simp add: covered_sessions_def no_leak_def)
  with b show ?thesis by (auto simp: sync_key_record_def sound_def split: answer.split)
qed

lemma sync_key_record_updates: "ac_updates (fst (sync_key_record r budget spent a)) = ac_updates a"
  by (simp add: sync_key_record_def split: answer.split)

lemma unfence_sound [simp]: "sound h (unfence k c a) = sound h a"
  by (simp add: unfence_def)

lemma update_begin_sound:
  "sound h a \<Longrightarrow> (h \<Longrightarrow> \<not> resets) \<Longrightarrow> sound h (fst (update_begin key resets reset_spent a))"
  by (auto simp: update_begin_def sound_def books_def soft_updates_def dict_get_set split: answer.split)

lemma sound_updates_pop: "sound h a \<Longrightarrow> sound h (a\<lparr>ac_updates := dict_pop k (ac_updates a)\<rparr>)"
  by (auto simp: sound_def books_def soft_updates_def dict_get_pop)

lemma sound_reset_limiter: "sound False a \<Longrightarrow> sound False (a\<lparr>ac_limiter := l\<rparr>)"
  by (simp add: sound_def books_def)

lemma update_finish_sound:
  assumes b: "sound h a" and u: "h \<Longrightarrow> \<not> resets"
  shows "sound h (fst (update_finish k resets ans a))"
proof -
  have ap: "sound h (fst (update_apply k resets ans a))"
  proof (cases "\<exists>r budget spent. ans = Answered (Some r) \<and> validate_key_record r k = Answered (budget, spent)")
    case True
    then obtain r budget spent where r: "ans = Answered (Some r)" "validate_key_record r k = Answered (budget, spent)" by blast
    obtain a1 x where s: "sync_key_record r budget spent a = (a1, x)" by fastforce
    have b1: "sound h a1" using sync_key_record_sound[OF b, of r budget spent] s by simp
    have "sound h (if resets then a1\<lparr>ac_limiter := rl_reset (Some k) (ac_limiter a1)\<rparr> else a1)"
      using b1 u sound_reset_limiter by (cases h) auto
    with b1 show ?thesis by (cases x) (simp_all add: update_apply_def r s)
  next
    case False
    with b show ?thesis by (auto simp: update_apply_def split: answer.split option.split)
  qed
  obtain a1 x where "update_apply k resets ans a = (a1, x)" by fastforce
  with ap show ?thesis by (simp add: update_finish_def sound_updates_pop)
qed

lemma mark_due_sound: "sound h a \<Longrightarrow> sound h (fst (mark_due moment ks a))"
  by (induction ks arbitrary: a) (auto simp: Let_def split_beta)

lemma due_page_sound:
  assumes "sound h a" shows "sound h (fst (due_page moment rows a))"
proof -
  have "sound h (fst (mark_due moment ks a))" for ks by (rule mark_due_sound[OF assms])
  with assms show ?thesis
    by (auto simp: due_page_def Let_def split_beta split: answer.split option.split)
qed

lemma sync_reset_records_sound: "sound h a \<Longrightarrow> sound h (fst (sync_reset_records keys seen rs a))"
proof (induction rs arbitrary: seen a)
  case Nil
  then show ?case by simp
next
  case (Cons r rs)
  show ?case
  proof (cases "kr_id r \<notin> set keys \<or> kr_id r \<in> set seen")
    case True
    with Cons.prems show ?thesis by simp
  next
    case False
    show ?thesis
    proof (cases "validate_key_record r (kr_id r)")
      case (Answered bs)
      obtain budget spent where bs: "bs = (budget, spent)" by (cases bs)
      obtain a1 x where s: "sync_key_record r budget spent a = (a1, x)" by fastforce
      have "sound h a1" using sync_key_record_sound[OF Cons.prems, of r budget spent] s by simp
      with False Answered bs s show ?thesis by (cases x) (auto intro: Cons.IH)
    qed (use False Cons.prems in auto)
  qed
qed

lemma end_resets_sound: "sound h a \<Longrightarrow> sound h (end_resets ks a)"
  by (induction ks arbitrary: a) simp_all

lemma reset_finish_sound:
  assumes b: "sound h a" shows "sound h (reset_finish i t ans a)"
proof -
  have "sound h (fst (reset_apply t ans a))"
  proof (cases ans)
    case (Answered rs)
    obtain a1 x where s: "sync_reset_records (rt_keys t) [] rs a = (a1, x)" by fastforce
    have "sound h a1" using sync_reset_records_sound[OF b, of "rt_keys t" "[]" rs] s by simp
    then show ?thesis by (cases x) (simp_all add: reset_apply_def Answered s end_resets_sound)
  qed (use b in \<open>simp_all add: reset_apply_def\<close>)
  then show ?thesis
    by (auto simp: reset_finish_def Let_def split_beta sound_finish_task split: option.split task_point.split answer.split)
qed

lemma restore_fence_sound [simp]: "sound h (restore_fence k p a) = sound h a"
  by (simp add: restore_fence_def)

lemma delete_finish_sound:
  assumes b: "sound h a" shows "sound h (fst (delete_finish k p ans a))"
proof -
  have "live_count k (ac_sessions a) = 0" if "\<not> key_active k a"
    using booksD(2)[OF soundD(2)[OF b], unfolded counts_match_def, rule_format, of k] that
    by (auto simp: key_active_def dict_default_def split: if_splits)
  with b show ?thesis
    by (auto simp: delete_finish_def Let_def key_active_def split: answer.split bool.split intro!: sound_forget)
qed

section \<open>Admission\<close>

lemma then_do_assoc: "then_do (then_do r f) g = then_do r (\<lambda>s x. then_do (f s x) g)"
  by (cases r; cases "snd r") auto

lemma learn_key_sound:
  assumes b: "sound h a"
  shows "sound h (fst (learn_key k budget spent limits a))"
    and "ac_sessions (fst (learn_key k budget spent limits a)) = ac_sessions a"
    and "ac_by_request (fst (learn_key k budget spent limits a)) = ac_by_request a"
    and "ac_limiter (fst (learn_key k budget spent limits a)) = ac_limiter a"
    and "ac_max_sessions (fst (learn_key k budget spent limits a)) = ac_max_sessions a"
proof -
  note bk = soundD(2)[OF b]
  have "books True h (a\<lparr>ac_ledger := sync_record k budget spent (ac_ledger a)\<rparr>)"
    using booksD[OF bk] sync_record_books(1,2)[OF booksD(4)[OF bk]] unfolding books_def
    by (simp add: covered_sessions_def no_leak_def)
  with b show "sound h (fst (learn_key k budget spent limits a))"
    by (auto simp: learn_key_def sound_def split: option.split)
qed (auto simp: learn_key_def split: option.split)

lemma admit_session_sound:
  assumes b: "sound h a" and fresh: "dict_get (ac_sessions a) (rv_reservation_id r) = None" and usd: "0 \<le> rv_reserved_usd r"
  shows "sound h (fst (admit_session ck r budget spent limits a))"
proof (cases "gt_state (ac_gate a) \<noteq> HRunning \<or> \<not> gt_accepting (ac_gate a) \<or> dict_get (ac_by_request a) (rv_request_id r) \<noteq> None \<or>
    fence_of (rv_api_key_id r) a \<noteq> None \<or> int (length (ac_sessions a)) \<ge> ac_max_sessions a")
  case True
  with b show ?thesis by (auto simp: admit_session_def split: option.split)
next
  case False
  then have q: "dict_get (ac_by_request a) (rv_request_id r) = None" and cap: "int (length (ac_sessions a)) < ac_max_sessions a" by auto
  note bk = soundD(2)[OF b]
  show ?thesis
  proof (cases "rv_api_key_id r")
    case None
    have "books True h (open_session r a)"
      by (rule open_books) (use booksD[OF bk] cap fresh q None in \<open>auto elim!: no_leakE\<close>)
    then have "sound h (open_session r a)" using b by (simp add: sound_def open_session_def)
    with False None show ?thesis by (auto simp: admit_session_def split: option.split)
  next
    case (Some k)
    define a1 where "a1 = fst (learn_key k budget spent limits a)"
    note l = learn_key_sound[OF b, of k budget spent limits, folded a1_def]
    have bk1: "books True h a1" using l(1) by (rule soundD)
    have q1: "dict_get (ac_by_request a1) (rv_request_id r) = None" using q l(3) by simp
    have noresv: "resv (ac_ledger a1) k (rv_request_id r) = None"
    proof (rule ccontr)
      assume "resv (ac_ledger a1) k (rv_request_id r) \<noteq> None"
      then obtain v where "resv (ac_ledger a1) k (rv_request_id r) = Some v" by auto
      with booksD(6)[OF bk1] obtain sid s where "dict_get (ac_sessions a1) sid = Some s" "session_request s = rv_request_id r"
        by (metis no_leakE)
      with linkedD(2)[OF booksD(1)[OF bk1]] q1 show False by (metis option.distinct(1))
    qed
    obtain d x where rr: "reserve_request (rv_request_id r) k (PyFloat (rv_reserved_usd r)) (ac_ledger a1) = (d, x)" by fastforce
    have main: "sound h (fst (then_do (case learn_key k budget spent limits a of (a', y) \<Rightarrow>
        (a', y)) (\<lambda>a1 known_limits. then_do (case reserve_request (rv_request_id r) k (PyFloat (rv_reserved_usd r)) (ac_ledger a1) of
         (d, Inl _) \<Rightarrow> (a1\<lparr>ac_ledger := d\<rparr>, Refused CodeInvalidContract)
       | (d, Inr False) \<Rightarrow> (a1\<lparr>ac_ledger := d\<rparr>, Refused CodeBudgetExhausted)
       | (d, Inr True) \<Rightarrow> admit_rate ck (rv_request_id r) k known_limits (a1\<lparr>ac_ledger := d\<rparr>))
         (\<lambda>a1 _. (open_session r a1, Answered r)))))"
    proof (cases "learn_key k budget spent limits a")
      case (Pair a1' y)
      then have a1': "a1' = a1" by (simp add: a1_def)
      show ?thesis
      proof (cases y)
        case (Answered lims)
        from booksD(4)[OF bk1] noresv usd rr show ?thesis
        proof (cases rule: reserve_outcome)
          case same
          then have "a1\<lparr>ac_ledger := d\<rparr> = a1" by simp
          with same rr l(1) show ?thesis
            by (cases x) (auto simp: Pair a1' Answered split: bool.split)
        next
          case opened
          define a2 where "a2 = a1\<lparr>ac_ledger := d\<rparr>"
          obtain m0 m where ad: "admit_request (ck_mono ck) (rv_request_id r) (Some k) (fst lims) (snd lims) (ac_limiter a1) = (m0, m)"
            by fastforce
          have lim: "limiter_live (ac_sessions a1) m0" if h
            using booksD(8)[OF bk1 that] admit_keeps[of "ac_limiter a1" _ _ "ck_mono ck" "rv_request_id r" "Some k" "fst lims" "snd lims"] ad
            by (auto simp: limiter_live_def)
          show ?thesis
          proof (cases m)
            case None
            have fl: "in_flight m0 k (rv_request_id r)"
              using admitted_in_flight[of "ck_mono ck" "rv_request_id r" k "fst lims" "snd lims" "ac_limiter a1"] ad None by simp
            have cov: "covered_sessions (ac_sessions a1) d"
              unfolding covered_sessions_def
            proof (intro allI impI)
              fix sid s j assume s: "dict_get (ac_sessions a1) sid = Some s" "session_key s = Some j" "\<not> sn_ledger_done s"
              with linkedD(2)[OF booksD(1)[OF bk1] s(1)] q1 have "session_request s \<noteq> rv_request_id r" by auto
              with coveredD[OF booksD(5)[OF bk1] s] opened(3) show "resv d j (session_request s) = Some (rv_reserved_usd (sn_reservation s))"
                by simp
            qed
            have leak: "\<exists>sid s. dict_get (ac_sessions a1) sid = Some s \<and> session_key s = Some j \<and> session_request s = q \<and> \<not> sn_ledger_done s"
              if "resv d j q = Some v" "\<not> (rv_api_key_id r = Some j \<and> q = rv_request_id r)" for j q v
            proof -
              have "resv (ac_ledger a1) j q = Some v" using that opened(3)[of j q] Some by (auto split: if_splits)
              with booksD(6)[OF bk1] show ?thesis by (metis no_leakE)
            qed
            have "books True h (open_session r (a2\<lparr>ac_limiter := m0\<rparr>))"
              by (rule open_books)
                (use booksD[OF bk1] cap fresh q1 Some l opened(2,3) cov leak lim fl in \<open>auto simp: a2_def\<close>)
            then have "sound h (open_session r (a2\<lparr>ac_limiter := m0\<rparr>))" using l(1) by (simp add: sound_def a2_def open_session_def)
            then show ?thesis using rr opened(1) ad None
              by (simp add: Pair a1' Answered admit_rate_def a2_def)
          next
            case m: (Some msg)
            obtain d2 x2 where rel: "release_request (rv_request_id r) k d = (d2, x2)" by fastforce
            have undone: "ledger_books d2 \<and> (\<forall>j q. resv d2 j q = resv (ac_ledger a1) j q)"
              using rel opened(2)
            proof (cases rule: release_cases)
              case 1
              then show ?thesis using opened(3) noresv by (auto simp: closes_def)
            next
              case 2
              then show ?thesis using opened(3) by simp
            qed
            have "books True h (a1\<lparr>ac_limiter := m0, ac_ledger := d2\<rparr>)"
              using booksD[OF bk1] undone lim unfolding books_def by (simp add: covered_sessions_def no_leak_def)
            then have "sound h (a1\<lparr>ac_limiter := m0, ac_ledger := d2\<rparr>)" using l(1) by (simp add: sound_def)
            moreover have "a1\<lparr>ac_ledger := d2, ac_limiter := m0\<rparr> = a1\<lparr>ac_limiter := m0, ac_ledger := d2\<rparr>" by simp
            ultimately show ?thesis using rr opened(1) ad m rel
              by (cases x2) (simp_all add: Pair a1' Answered admit_rate_def)
          qed
        qed
      qed (use l(1) in \<open>simp_all add: Pair a1'\<close>)
    qed
    from False Some main show ?thesis
      by (auto simp: admit_session_def admit_key_def then_do_assoc split: option.split)
  qed
qed

section \<open>The machine\<close>

text \<open>What is assumed of an input: the random identifier of a new reservation is not the one of a live
  session, and an event the source returns is validated and does not overflow a spend.\<close>

fun admissible :: "acct_input \<Rightarrow> acct \<Rightarrow> bool" where
  "admissible (InReserve ck token ra) a = (case parse_reserve token ra of
     Answered (r, budget, spent, rpm, tpm) \<Rightarrow> dict_get (ac_sessions a) (rv_reservation_id r) = None
   | _ \<Rightarrow> True)"
| "admissible (InAccepted ck sid (Answered (Some acc))) a = chargeable (st_event (acc_stored acc)) a"
| "admissible (InRetryAccepted ck k (Answered (Some acc))) a = chargeable (st_event (acc_stored acc)) a"
| "admissible _ a = True"

fun admissible_run :: "(event \<Rightarrow> string) \<Rightarrow> acct_input list \<Rightarrow> acct \<Rightarrow> bool" where
  "admissible_run fp [] a = True"
| "admissible_run fp (x # xs) a = (admissible x a \<and> admissible_run fp xs (acct_step fp x a))"

text \<open>An update of rate limits resets the key's window.\<close>

fun keeps_windows :: "acct_input \<Rightarrow> bool" where
  "keeps_windows (InUpdate key resets_limiter reset_spent) = (\<not> resets_limiter)"
| "keeps_windows _ = True"

lemma parse_reserve_nonneg: "parse_reserve token ra = Answered (r, budget, spent, limits) \<Longrightarrow> 0 \<le> rv_reserved_usd r"
proof -
  assume "parse_reserve token ra = Answered (r, budget, spent, limits)"
  then obtain rid key e where "make_reservation rid (ra_request_id ra) key (PyFloat e) = Some r"
    by (auto simp: parse_reserve_def answer_bind_def answer_of_option_def split: answer.splits option.splits)
  then show ?thesis by (auto simp: make_reservation_def bind_eq_Some_conv split: if_splits)
qed

lemma reserve_sound:
  "sound h a \<Longrightarrow> admissible (InReserve ck token ra) a \<Longrightarrow> sound h (fst (reserve_session ck token ra a))"
  by (auto simp: reserve_session_def split: answer.splits intro!: admit_session_sound dest: parse_reserve_nonneg)

lemma projector_end_sound: "sound h a \<Longrightarrow> sound h (projector_end ck p r a)"
  by (auto simp: projector_end_def Let_def split: answer.split intro!: sound_errors publish_all_sound)

lemma reconcile_end_sound: "sound h a \<Longrightarrow> sound h (reconcile_end ck p r a)"
  by (auto simp: reconcile_end_def Let_def split: answer.split intro!: sound_errors)

lemma dict_default_soft: "sound h a \<Longrightarrow> h \<Longrightarrow> \<not> dict_default False (ac_updates a) k"
  using booksD(9)[OF soundD(2)] by (auto simp: dict_default_def soft_updates_def split: option.split)

lemma change_end_sound:
  assumes b: "sound h a" shows "sound h (change_end p r a)"
proof -
  have "sound h (fst (update_finish k (dict_default False (ac_updates a) k) x (a\<lparr>ac_pass := None\<rparr>)))" for k x
    by (rule update_finish_sound) (use b dict_default_soft[OF b] in auto)
  moreover have "sound h (reset_finish i t x (a\<lparr>ac_pass := None\<rparr>))" for i t x
    by (rule reset_finish_sound) (use b in simp)
  ultimately show ?thesis using b
    by (auto simp: change_end_def Let_def split: answer.splits drain_user.split option.split)
qed

lemma gate_ok_set_closed: "gate_ok (set_state st False None g) \<longleftrightarrow> (st \<in> {HNew, HStarting, HRunning} \<longrightarrow> gt_fatal g = None)"
  by (auto simp: gate_ok_def set_state_def)

lemma stop_close_sound: "sound h a \<Longrightarrow> sound h (stop_close ck dr rep a)"
proof -
  assume b: "sound h a"
  define a1 where "a1 = (case rep of None \<Rightarrow> a | Some r \<Rightarrow>
      if report_clean r then a else on_gate (record_error ck CodeReconcileFailed True True) a)"
  have "sound h a1" using b by (auto simp: a1_def intro!: sound_errors split: option.split)
  then show ?thesis
    by (auto simp: stop_close_def a1_def[symmetric] Let_def on_gate_def sound_def gate_ok_set_closed)
qed

lemma stop_end_sound:
  assumes b: "sound h a" shows "sound h (stop_end ck p r rep a)"
proof -
  obtain g x where f: "full_reconcile rep (ac_gate a) = (g, x)" by fastforce
  have g: "gate_ok g" using gate_ok_full_reconcile[OF soundD(1)[OF b], of rep] f by simp
  show ?thesis using b g
    by (cases x) (auto simp: stop_end_def f split: answer.split
      intro!: stop_close_sound sound_errors sound_gate gate_ok_record_code gate_ok_record_error)
qed

lemma end_pass_sound: "sound h a \<Longrightarrow> sound h (end_pass ck r rep a)"
  by (auto simp: end_pass_def projector_end_sound reconcile_end_sound stop_end_sound change_end_sound
      split: option.split drain_user.split)

lemma pass_step_sound: "sound h (fst x) \<Longrightarrow> sound h (pass_step ck x)"
  by (cases x) (auto simp: pass_step_def end_pass_sound split: answer.split)

lemma start_sound:
  assumes b: "sound h a" and st: "start_workflow fp ck listing answers rep sp (ac_gate a) = Some (g, r)"
  shows "sound h (a\<lparr>ac_gate := g, ac_projector := x\<rparr>)"
proof -
  have "sound h (a\<lparr>ac_gate := g\<rparr>)" by (rule sound_gate[OF b gate_ok_start[OF st soundD(1)[OF b]]])
  then have "sound h (a\<lparr>ac_gate := g\<rparr>\<lparr>ac_projector := x\<rparr>)" by (simp only: sound_frame)
  then show ?thesis by simp
qed

lemma begin_stop_sound: "sound h a \<Longrightarrow> sound h (fst (begin_stop sp a))"
  by (auto simp: begin_stop_def on_gate_def sound_def gate_ok_set_closed)

lemma take_drain_sound: "sound h a \<Longrightarrow> sound h (take_drain u a)"
  by (simp add: take_drain_def begin_pass_def)

lemma record_accepted_sound: "sound h a \<Longrightarrow> sound h (record_accepted fp ck i e ans a)"
proof -
  assume b: "sound h a"
  obtain a1 r where r: "source_answered fp ck (ev_event_id e, fp e) e ans (\<lambda>acc a1. (a1, Answered ())) a = (a1, r)" by fastforce
  have "sound h (fst (source_answered fp ck (ev_event_id e, fp e) e ans (\<lambda>acc a1. (a1, Answered ())) a))"
    by (rule source_answered_sound[OF b]) simp
  then show ?thesis by (cases r) (simp_all add: record_accepted_def r drop_owner_def)
qed

lemma record_finished_sound: "sound h a \<Longrightarrow> sound h (record_finished fp ck i acc pa a)"
  using sound_gate[of h a] record_projected_gate[OF soundD(1), of h a fp ck acc pa]
  by (simp add: record_finished_def drop_owner_def)

lemma record_begin_sound: "sound h a \<Longrightarrow> sound h (fst (record_begin fp e sp a))"
  by (auto simp: record_begin_def Let_def intro!: sound_on_gate gate_ok_take_source)

lemma step_sound:
  assumes b: "sound h a" and adm: "admissible x a" and w: "h \<Longrightarrow> keeps_windows x"
  shows "sound h (acct_step fp x a)"
proof (cases x)
  case (InStart sp)
  with b show ?thesis by (auto intro!: sound_on_gate gate_ok_start_begin)
next
  case (InStarted ck listing answers rep sp)
  with b show ?thesis by (auto split: option.split dest: start_sound)
next
  case (InReserve ck token ra)
  with b adm show ?thesis by (simp add: reserve_sound del: admissible.simps)
next
  case (InAccepted ck sid ans)
  have "chargeable (st_event (acc_stored acc)) a" if "ans = Answered (Some acc)" for acc
    using adm InAccepted that by simp
  with b InAccepted show ?thesis by (auto split: option.split task_point.split intro!: commit_accepted_sound)
next
  case (InRetryAccepted ck k ans)
  have "chargeable (st_event (acc_stored acc)) a" if "ans = Answered (Some acc)" for acc
    using adm InRetryAccepted that by simp
  with b InRetryAccepted show ?thesis by (auto intro!: pass_step_sound retry_accepted_sound)
next
  case (InUpdate key resets rs)
  with b w show ?thesis by (simp add: update_begin_sound)
next
  case (InUpdated ans)
  have "sound h (fst (update_finish k (dict_default False (ac_updates a) k) ans (a\<lparr>ac_pass := None\<rparr>)))" for k
    by (rule update_finish_sound) (use b dict_default_soft[OF b] in auto)
  with b InUpdated show ?thesis by (auto split: option.split drain_user.split)
next
  case (InResetDone ans)
  have "sound h (reset_finish i t ans (a\<lparr>ac_pass := None\<rparr>))" for i t
    by (rule reset_finish_sound) (use b in simp)
  with b InResetDone show ?thesis by (auto split: option.split drain_user.split)
next
  case (InRetryProjected ck pa)
  with b show ?thesis by (auto split: option.split intro!: pass_step_sound retry_projected_sound)
next
  case (InDrainRow ck st pa)
  with b show ?thesis by (auto intro!: pass_step_sound drain_row_sound)
next
  case (InCommit r e sp)
  with b show ?thesis by (simp add: begin_commit_sound)
next
  case (InRelease r sp)
  with b show ?thesis by (simp add: begin_release_sound)
next
  case (InRunRelease ck sid)
  with b show ?thesis by (simp add: run_release_sound)
next
  case (InProjected ck sid pa)
  with b show ?thesis by (auto split: option.split task_point.split intro!: commit_projected_sound)
next
  case (InFollow ck sid)
  with b show ?thesis by (auto split: option.split task_point.split intro!: follow_owner_sound)
next
  case (InRetried ck sid)
  with b show ?thesis by (auto split: option.split task_point.split intro!: commit_retried_sound)
next
  case (InRecord e sp)
  with b show ?thesis by (simp add: record_begin_sound)
next
  case (InRecordAccepted ck i ans)
  with b show ?thesis by (auto split: option.split prod.split intro!: record_accepted_sound)
next
  case (InRecordProjected ck i pa)
  with b show ?thesis by (auto split: option.split prod.split intro!: record_finished_sound)
next
  case (InPass u)
  with b show ?thesis by (simp add: take_drain_sound)
next
  case (InListingFailed ck c)
  with b show ?thesis by (auto intro!: pass_step_sound)
next
  case (InPassEnd ck rep)
  with b show ?thesis by (simp add: end_pass_sound)
next
  case (InReconcile sp)
  with b show ?thesis by (simp add: reconcile_begin_def)
next
  case (InDue moment)
  with b show ?thesis by (simp add: due_begin_def)
next
  case (InDuePage moment rows)
  with b show ?thesis by (simp add: due_page_sound)
next
  case (InDelete key)
  with b show ?thesis by (auto simp: delete_begin_def split: answer.split)
next
  case (InDeleted k p ans)
  with b show ?thesis by (simp add: delete_finish_sound)
next
  case (InStop sp)
  with b show ?thesis by (simp add: begin_stop_sound)
qed

interpretation service_run: guarded_machine "acct_step fp" "sound False" admissible "admissible_run fp" for fp
  by unfold_locales (auto intro: step_sound)

text \<open>Runs that keep the rate windows also keep the limiter's side of the books.\<close>

definition windowed_run :: "(event \<Rightarrow> string) \<Rightarrow> acct_input list \<Rightarrow> acct \<Rightarrow> bool" where
  "windowed_run fp xs a \<longleftrightarrow> admissible_run fp xs a \<and> list_all keeps_windows xs"

interpretation windowed: guarded_machine "acct_step fp" "sound True" "\<lambda>x a. admissible x a \<and> keeps_windows x"
    "windowed_run fp" for fp
  by unfold_locales (auto simp: windowed_run_def intro: step_sound)

lemma new_service_sound: "0 \<le> n \<Longrightarrow> sound h (new_service m b n w)"
  by (simp add: sound_def new_service_def new_gate_def gate_ok_def books_def sessions_linked_def counts_match_def
      live_count_def covered_sessions_def no_leak_def decided_done_def limiter_live_def soft_updates_def
      ledger_books_def ledger_ok_empty resv_def)

end
