(* ===== verification/Accounting_History.thy ===== *)
theory Accounting_History
  imports Accounting_Soundness
begin

text \<open>
  What a piece of a task may change: it never forgets a fatal error, it never revives a session or
  unsettles one, and only a charge moves the spend of a key. \<open>charge_of\<close> says which input charges
  which session, and \<open>charges\<close> is the log of a run.
\<close>

section \<open>Spend\<close>

definition spent_of :: "int \<Rightarrow> acct \<Rightarrow> rat" where
  "spent_of k a = le_spent_usd (entry_for k (ac_ledger a))"

lemma release_spent: "le_spent_usd (entry_for j (fst (release_request q k d))) = le_spent_usd (entry_for j d)"
  by (auto simp: release_request_def entry_for_Some split: option.split sum.split)

lemma reserve_spent: "le_spent_usd (entry_for j (fst (reserve_request q k v d))) = le_spent_usd (entry_for j d)"
proof -
  obtain d' r where c: "reserve_request q k v d = (d', r)" by fastforce
  then show ?thesis by (cases rule: reserve_request_cases) (use c in simp_all)
qed

text \<open>\<open>N\<close>: sessions that may be new. \<open>c\<close>: no key was deleted or re-read.\<close>

definition kept :: "string set \<Rightarrow> bool \<Rightarrow> acct \<Rightarrow> acct \<Rightarrow> bool" where
  "kept N c a0 a \<longleftrightarrow> fatal_kept (ac_gate a0) (ac_gate a) \<and>
     (\<forall>sid s. sid \<notin> N \<longrightarrow> dict_get (ac_sessions a) sid = Some s \<longrightarrow>
        (\<exists>s0. dict_get (ac_sessions a0) sid = Some s0 \<and> sn_reservation s = sn_reservation s0 \<and>
           (sn_ledger_done s0 \<longrightarrow> sn_ledger_done s))) \<and>
     (c \<longrightarrow> ac_deleted a0 = [] \<longrightarrow> ac_deleted a = [] \<and> set (ac_known a0) \<subseteq> set (ac_known a) \<and>
        (\<forall>k\<in>set (ac_known a0). spent_of k a = spent_of k a0))"

lemma kept_refl: "kept N c a a"
  by (simp add: kept_def)

lemma keptD:
  assumes "kept N c a0 a"
  shows "fatal_kept (ac_gate a0) (ac_gate a)"
    and "sid \<notin> N \<Longrightarrow> dict_get (ac_sessions a) sid = Some s \<Longrightarrow> \<exists>s0. dict_get (ac_sessions a0) sid = Some s0 \<and>
      sn_reservation s = sn_reservation s0 \<and> (sn_ledger_done s0 \<longrightarrow> sn_ledger_done s)"
    and "c \<Longrightarrow> ac_deleted a0 = [] \<Longrightarrow> ac_deleted a = []"
    and "c \<Longrightarrow> ac_deleted a0 = [] \<Longrightarrow> set (ac_known a0) \<subseteq> set (ac_known a)"
    and "c \<Longrightarrow> ac_deleted a0 = [] \<Longrightarrow> k \<in> set (ac_known a0) \<Longrightarrow> spent_of k a = spent_of k a0"
  using assms unfolding kept_def by blast+

lemma kept_trans:
  assumes a: "kept N c a0 a1" and b: "kept N c a1 a2" shows "kept N c a0 a2"
  unfolding kept_def
proof (intro conjI allI impI)
  show "fatal_kept (ac_gate a0) (ac_gate a2)" using keptD(1)[OF a] keptD(1)[OF b] by (rule fatal_kept_trans)
  fix sid s2 assume n: "sid \<notin> N" and s: "dict_get (ac_sessions a2) sid = Some s2"
  from keptD(2)[OF b n s] obtain s1 where s1: "dict_get (ac_sessions a1) sid = Some s1" "sn_reservation s2 = sn_reservation s1"
    "sn_ledger_done s1 \<longrightarrow> sn_ledger_done s2" by blast
  from keptD(2)[OF a n s1(1)] s1 show "\<exists>s0. dict_get (ac_sessions a0) sid = Some s0 \<and>
      sn_reservation s2 = sn_reservation s0 \<and> (sn_ledger_done s0 \<longrightarrow> sn_ledger_done s2)" by auto
next
  assume c: c and d: "ac_deleted a0 = []"
  note d1 = keptD(3)[OF a c d]
  show "ac_deleted a2 = []" by (rule keptD(3)[OF b c d1])
  show "set (ac_known a0) \<subseteq> set (ac_known a2)" using keptD(4)[OF a c d] keptD(4)[OF b c d1] by blast
  show "\<forall>k\<in>set (ac_known a0). spent_of k a2 = spent_of k a0"
    using keptD(4,5)[OF a c d] keptD(5)[OF b c d1] by auto
qed

lemma kept_frame [simp]:
  "kept N c a0 (a\<lparr>ac_retry_sessions := x2\<rparr>) = kept N c a0 a"
  "kept N c a0 (a\<lparr>ac_event_owner := x3\<rparr>) = kept N c a0 a" "kept N c a0 (a\<lparr>ac_fences := x4\<rparr>) = kept N c a0 a"
  "kept N c a0 (a\<lparr>ac_reset_pending := x5\<rparr>) = kept N c a0 a" "kept N c a0 (a\<lparr>ac_limiter := x6\<rparr>) = kept N c a0 a"
  "kept N c a0 (a\<lparr>ac_by_request := x7\<rparr>) = kept N c a0 a" "kept N c a0 (a\<lparr>ac_limits := x8\<rparr>) = kept N c a0 a"
  "kept N c a0 (a\<lparr>ac_tasks := x9\<rparr>) = kept N c a0 a" "kept N c a0 (a\<lparr>ac_results := x10\<rparr>) = kept N c a0 a"
  "kept N c a0 (a\<lparr>ac_resets := x11\<rparr>) = kept N c a0 a" "kept N c a0 (a\<lparr>ac_deletes := x12\<rparr>) = kept N c a0 a"
  "kept N c a0 (a\<lparr>ac_due := x13\<rparr>) = kept N c a0 a" "kept N c a0 (a\<lparr>ac_owners := x14\<rparr>) = kept N c a0 a"
  "kept N c a0 (a\<lparr>ac_pass := x15\<rparr>) = kept N c a0 a" "kept N c a0 (a\<lparr>ac_projector := x16\<rparr>) = kept N c a0 a"
  "kept N c a0 (a\<lparr>ac_reconciling := x17\<rparr>) = kept N c a0 a" "kept N c a0 (a\<lparr>ac_stopping := x18\<rparr>) = kept N c a0 a"
  "kept N c a0 (a\<lparr>ac_active := x19\<rparr>) = kept N c a0 a" "kept N c a0 (a\<lparr>ac_updates := x20\<rparr>) = kept N c a0 a"
  by (simp_all add: kept_def spent_of_def)

lemma kept_gate: "kept N c a0 a \<Longrightarrow> fatal_kept (ac_gate a) g \<Longrightarrow> kept N c a0 (a\<lparr>ac_gate := g\<rparr>)"
  by (auto simp: kept_def spent_of_def intro: fatal_kept_trans)

lemma kept_on_gate: "kept N c a0 a \<Longrightarrow> (\<And>g. fatal_kept g (f g)) \<Longrightarrow> kept N c a0 (on_gate f a)"
  by (simp add: on_gate_def kept_gate)

lemma kept_put:
  assumes k: "kept N c a0 a" and s: "dict_get (ac_sessions a) sid = Some s"
    and r: "sn_reservation s' = sn_reservation s" and d: "sn_ledger_done s \<Longrightarrow> sn_ledger_done s'"
  shows "kept N c a0 (put_session sid s' a)"
proof -
  have "kept N c a (put_session sid s' a)"
    using s r d by (auto simp: kept_def spent_of_def put_session_def dict_get_set)
  with k show ?thesis by (rule kept_trans)
qed

lemma kept_ledger:
  assumes "kept N c a0 a" and "\<And>j. le_spent_usd (entry_for j d) = le_spent_usd (entry_for j (ac_ledger a))"
  shows "kept N c a0 (a\<lparr>ac_ledger := d\<rparr>)"
  using assms by (simp add: kept_def spent_of_def)

lemma kept_forget: "kept N False a0 a \<Longrightarrow> kept N False a0 (forget_key k a)"
  by (simp add: kept_def forget_key_def)

lemma kept_unregister: "kept N c a0 a \<Longrightarrow> kept N c a0 (unregister_retry k sid a)"
  by (simp add: unregister_retry_def)

lemma kept_finish_task: "kept N c a0 a \<Longrightarrow> kept N c a0 (finish_task sid cl a)"
  by (auto simp: finish_task_def Let_def kept_unregister fatal_clear split: option.split intro!: kept_on_gate)

lemma kept_unlink: "kept N c a0 a \<Longrightarrow> kept N c a0 (unlink_session s a)"
  unfolding unlink_session_def Let_def
  by (auto simp: kept_def spent_of_def dict_get_pop)

text \<open>With \<open>c\<close>, a key is forgotten only when one was deleted.\<close>

definition plain :: "bool \<Rightarrow> acct \<Rightarrow> bool" where
  "plain c a \<longleftrightarrow> (c \<longrightarrow> ac_deleted a = [])"

lemma kept_weaken: "kept N True a0 a \<Longrightarrow> kept N c a0 a"
  by (simp add: kept_def)

lemma kept_close:
  assumes k: "kept N c a0 a" and p: "plain c a" shows "kept N c a0 (close_session sid s cl a)"
proof -
  have u: "kept N c a0 (unlink_session s a)" by (rule kept_unlink[OF k])
  have del: "ac_deleted (unlink_session s a) = ac_deleted a" by (simp add: unlink_session_def Let_def)
  obtain a1 r where d: "detach_session s a = (a1, r)" by fastforce
  have k1: "kept N c a0 a1" "ac_deleted a1 = ac_deleted a"
    using d u del by (auto simp: detach_session_def Let_def split: option.splits if_splits)
  show ?thesis
  proof (cases r)
    case (Answered f)
    obtain key pr dl where f: "f = (key, pr, dl)" by (cases f)
    have dl: "c \<Longrightarrow> \<not> dl"
      using d p del Answered f by (auto simp: detach_session_def Let_def plain_def split: option.splits if_splits)
    have "kept N c a0 (after_terminal sid cl f a1)"
    proof (cases c)
      case True
      with dl k1(1) f show ?thesis by (auto simp: after_terminal_def kept_finish_task split: option.split)
    next
      case False
      with k1(1) f show ?thesis by (auto simp: after_terminal_def kept_finish_task kept_forget split: option.split)
    qed
    then show ?thesis by (simp add: close_session_def d Answered)
  qed (use k1 in \<open>simp_all add: close_session_def d kept_finish_task\<close>)
qed

lemma kept_give_back:
  assumes "kept N c a0 a" and "give_back ck s a = (a1, s1, e)"
  shows "kept N c a0 a1" and "ac_deleted a1 = ac_deleted a" and "ac_sessions a1 = ac_sessions a"
proof -
  have L: "kept N c a0 (fst (give_back_ledger s k a)) \<and> ac_deleted (fst (give_back_ledger s k a)) = ac_deleted a \<and>
      ac_sessions (fst (give_back_ledger s k a)) = ac_sessions a" for k
  proof -
    have "kept N c a0 (a\<lparr>ac_ledger := fst (release_request q k (ac_ledger a))\<rparr>)" for q
      by (rule kept_ledger[OF assms(1)]) (rule release_spent)
    note k' = this[of "session_request s"]
    show ?thesis using assms(1) k'
      by (cases "release_request (session_request s) k (ac_ledger a)") (auto simp: give_back_ledger_def split: sum.split)
  qed
  have M: "kept N c a0 a' \<Longrightarrow> kept N c a0 (fst (give_back_limiter ck s' k a')) \<and>
      ac_deleted (fst (give_back_limiter ck s' k a')) = ac_deleted a' \<and>
      ac_sessions (fst (give_back_limiter ck s' k a')) = ac_sessions a'" for s' k a'
    by (auto simp: give_back_limiter_def split: prod.split sum.split)
  have "kept N c a0 a1 \<and> ac_deleted a1 = ac_deleted a \<and> ac_sessions a1 = ac_sessions a"
  proof (cases "\<exists>k. sn_charge s = None \<and> session_key s = Some k")
    case True
    then obtain k where k: "sn_charge s = None" "session_key s = Some k" by blast
    obtain a2 s2 e2 where g1: "give_back_ledger s k a = (a2, s2, e2)" by (cases "give_back_ledger s k a")
    obtain a3 s3 e3 where g2: "give_back_limiter ck s2 k a2 = (a3, s3, e3)" by (cases "give_back_limiter ck s2 k a2")
    from L[of k] M[of a2 s2 k] g1 g2 assms(2) k show ?thesis by (auto simp: give_back_def)
  next
    case False
    with assms show ?thesis by (auto simp: give_back_def split: option.splits)
  qed
  then show "kept N c a0 a1" "ac_deleted a1 = ac_deleted a" "ac_sessions a1 = ac_sessions a" by auto
qed

lemma kept_fail:
  assumes k: "kept N c a0 a" and p: "plain c a" shows "kept N c a0 (fail_session ck sid cl a)"
proof (cases "dict_get (ac_sessions a) sid")
  case None
  with k show ?thesis by (simp add: fail_session_def kept_finish_task)
next
  case (Some s)
  obtain a1 s1 e where g: "give_back ck s a = (a1, s1, e)" by (cases "give_back ck s a")
  note g1 = kept_give_back[OF k g]
  have "plain c a1" using p g1(2) by (simp add: plain_def)
  with g1(1) Some g show ?thesis by (simp add: fail_session_def kept_close)
qed

section \<open>Tasks of sessions\<close>

lemma kept_begin_release: "kept N c a0 a \<Longrightarrow> kept N c a0 (fst (begin_release r spawned a))"
  by (auto simp: begin_release_def split: answer.split option.split dest!: find_session_Some intro!: kept_put)

lemma kept_released: "kept N c a0 a \<Longrightarrow> release_request q k (ac_ledger a) = (d, x) \<Longrightarrow> kept N c a0 (a\<lparr>ac_ledger := d\<rparr>)"
  using release_spent[of _ q k "ac_ledger a"] by (intro kept_ledger) auto

lemma kept_run_release:
  assumes k: "kept N c a0 a" and p: "plain c a" shows "kept N c a0 (run_release ck sid a)"
proof (cases "dict_get (ac_sessions a) sid")
  case None
  with k show ?thesis by (simp add: run_release_def kept_finish_task)
next
  case (Some s)
  show ?thesis
  proof (cases "session_key s")
    case None
    with k p Some show ?thesis by (simp add: run_release_def kept_close)
  next
    case key: (Some j)
    obtain d x where r: "release_request (session_request s) j (ac_ledger a) = (d, x)" by fastforce
    obtain l y where t: "attribute_request_tokens (ck_mono ck) (session_request s) (Some j) (TokInt 0) (ac_limiter a) = (l, y)"
      by fastforce
    have k1: "kept N c a0 (a\<lparr>ac_ledger := d\<rparr>)" "plain c (a\<lparr>ac_ledger := d\<rparr>)"
      using kept_released[OF k r] p by (simp_all add: plain_def)
    have k2: "kept N c a0 (a\<lparr>ac_ledger := d, ac_limiter := l\<rparr>)" "plain c (a\<lparr>ac_ledger := d, ac_limiter := l\<rparr>)"
      using k1 by (simp_all add: plain_def)
    show ?thesis using k1 k2 Some key r t
      by (auto simp: run_release_def Let_def kept_fail kept_close split: sum.split bool.split)
  qed
qed

lemma kept_begin_commit: "kept N c a0 a \<Longrightarrow> kept N c a0 (fst (begin_commit fp r e spawned a))"
  by (auto simp: begin_commit_def Let_def own_commit_def follow_commit_def fatal_take_source
      split: answer.split option.split dest!: find_session_Some intro!: kept_on_gate kept_put)

lemma fatal_wake [fatal_intros]: "fatal_kept g (wake_projector g)"
  by (simp add: wake_projector_def)

lemma fatal_chain: "fatal_kept g h \<Longrightarrow> fatal_kept h (f h) \<Longrightarrow> fatal_kept g (f h)"
  by (rule fatal_kept_trans)

lemma kept_wake_code: "kept N c a0 a \<Longrightarrow> fatal_kept (ac_gate a) g \<Longrightarrow>
    kept N c a0 (a\<lparr>ac_gate := wake_projector (record_code ck x g)\<rparr>)"
  by (rule kept_gate) (auto intro: fatal_kept_trans[OF _ fatal_kept_trans[OF fatal_record_code fatal_wake]])

lemma kept_wake_error: "kept N c a0 a \<Longrightarrow> fatal_kept (ac_gate a) g \<Longrightarrow>
    kept N c a0 (a\<lparr>ac_gate := wake_projector (record_error ck x p b g)\<rparr>)"
  by (rule kept_gate) (auto intro: fatal_kept_trans[OF _ fatal_kept_trans[OF fatal_record_error fatal_wake]])

lemma kept_on_wake:
  "kept N c a0 a \<Longrightarrow> kept N c a0 (on_gate (\<lambda>g. wake_projector (record_code ck x (retain_event k e g))) a)"
  "kept N c a0 a \<Longrightarrow> kept N c a0 (on_gate (\<lambda>g. wake_projector (record_error ck x p b (retain_event k e g))) a)"
  unfolding on_gate_def
  by (auto intro!: kept_wake_code kept_wake_error fatal_retain)

text \<open>A charge: the gate changes before and after it do not matter.\<close>

lemma source_answered_kept:
  assumes k: "kept N c a0 a"
    and app: "\<And>acc a'. answer_bind ans (\<lambda>result. validate_source_result fp result key) = Answered acc \<Longrightarrow>
       dict_get (gt_inflight (ac_gate a)) key \<noteq> None \<Longrightarrow> kept N c a0 a' \<Longrightarrow> ac_sessions a' = ac_sessions a \<Longrightarrow> ac_ledger a' = ac_ledger a \<Longrightarrow>
       ac_deleted a' = ac_deleted a \<Longrightarrow> kept N c a0 (fst (apply_acc acc a')) \<and> ac_deleted (fst (apply_acc acc a')) = ac_deleted a"
  shows "kept N c a0 (fst (source_answered fp ck key e ans apply_acc a)) \<and>
    ac_deleted (fst (source_answered fp ck key e ans apply_acc a)) = ac_deleted a"
proof (cases "answer_bind ans (\<lambda>result. validate_source_result fp result key)")
  case (Refused x)
  obtain g r where f: "finish_source_failure key e (\<not> permanent_code x) (ac_gate a) = (g, r)" by fastforce
  have "fatal_kept (ac_gate a) g" using fatal_source_failure[of "ac_gate a" key e "\<not> permanent_code x"] f by simp
  with k show ?thesis
    by (cases r) (simp_all add: source_answered_def Refused f kept_gate kept_wake_code)
next
  case Broke
  obtain g r where f: "finish_source_failure key e True (ac_gate a) = (g, r)" by fastforce
  have "fatal_kept (ac_gate a) g" using fatal_source_failure[of "ac_gate a" key e True] f by simp
  with k show ?thesis
    by (cases r) (simp_all add: source_answered_def Broke f kept_gate kept_wake_error)
next
  case (Answered acc)
  obtain g r where f: "accept_source_result fp key (acc_stored acc) True (ac_gate a) = (g, r)" by fastforce
  have g: "fatal_kept (ac_gate a) g" using fatal_accept_source[of "ac_gate a" fp key "acc_stored acc" True] f by simp
  obtain a1 r1 where ap: "apply_acc acc (a\<lparr>ac_gate := g\<rparr>) = (a1, r1)" by fastforce
  have fl: "r = Answered u \<Longrightarrow> dict_get (gt_inflight (ac_gate a)) key \<noteq> None" for u
    using f by (auto simp: accept_source_result_def release_source_owner_def split: option.splits)
  have "r = Answered u \<Longrightarrow> kept N c a0 a1 \<and> ac_deleted a1 = ac_deleted a" for u
    using app[OF Answered fl kept_gate[OF k g]] ap by simp
  then show ?thesis using kept_gate[OF k g]
    by (cases r; cases r1) (simp_all add: source_answered_def Answered f ap kept_on_wake, simp_all add: on_gate_def)
qed

lemma record_projected_fatal: "fatal_kept g (fst (record_projected fp ck acc pa g))"
proof -
  obtain g1 r where p: "project_stored fp ck (acc_stored acc) pa g = (g1, r)" by fastforce
  have f: "fatal_kept g g1" using fatal_project[of g fp ck "acc_stored acc" pa] p by simp
  have "fatal_kept g1 (wake_projector (record_code ck x g1))" "fatal_kept g1 (wake_projector (record_error ck x False False g1))" for x
    by (auto intro: fatal_kept_trans fatal_wake fatal_record_code fatal_record_error)
  with f show ?thesis by (cases r) (auto simp: record_projected_def p intro: fatal_kept_trans)
qed

lemma plain_simps [simp]:
  "plain c (unregister_retry k sid a) = plain c a" "plain c (on_gate f a) = plain c a" "plain c (put_session sid s a) = plain c a"
  "plain c (a\<lparr>ac_tasks := t\<rparr>) = plain c a" "plain c (a\<lparr>ac_gate := g\<rparr>) = plain c a" "plain c (a\<lparr>ac_pass := ps\<rparr>) = plain c a"
  by (simp_all add: plain_def unregister_retry_def on_gate_def put_session_def)

lemma kept_commit_finish: "kept N c a0 a \<Longrightarrow> plain c a \<Longrightarrow> kept N c a0 (commit_finish ck sid k rc a)"
  using kept_unregister[of N c a0 a k sid]
  by (auto simp: commit_finish_def Let_def kept_finish_task kept_fail kept_close split: option.split)

lemma kept_commit_refused: "kept N c a0 a \<Longrightarrow> plain c a \<Longrightarrow> kept N c a0 (commit_refused ck sid e k x a)"
proof -
  assume k: "kept N c a0 a" and p: "plain c a"
  have "kept N c a0 (put_session sid (s\<lparr>sn_state := SRetrying\<rparr>) a)" if "dict_get (ac_sessions a) sid = Some s" for s
    using that by (intro kept_put[OF k]) auto
  with k p show ?thesis by (auto simp: commit_refused_def Let_def kept_fail split: option.split)
qed

lemma kept_commit_continue: "kept N c a0 (fst r) \<Longrightarrow> plain c (fst r) \<Longrightarrow> kept N c a0 (commit_continue ck sid e k r)"
  by (cases r; cases "snd r") (auto simp: commit_continue_def kept_commit_finish kept_commit_refused kept_fail)

text \<open>The part of a commit after the source's answer.\<close>

definition after_accept :: "(event \<Rightarrow> string) \<Rightarrow> clock \<Rightarrow> string \<Rightarrow> event \<Rightarrow> acct \<times> acceptance answer \<Rightarrow> acct" where
  "after_accept fp ck sid e x =
     (let k = (ev_event_id e, fp e)
      in case x of
           (a1, Answered acc) \<Rightarrow>
             (if st_projected_at (acc_stored acc) \<noteq> None
              then commit_continue ck sid e k
                (a1, Answered (receipt_of fp acc (settled_status (st_event (acc_stored acc)))))
              else a1\<lparr>ac_tasks := dict_set sid (AtProject e acc) (ac_tasks a1)\<rparr>)
         | (a1, Refused c) \<Rightarrow> commit_continue ck sid e k (a1, Refused c)
         | (a1, Broke) \<Rightarrow> commit_continue ck sid e k (a1, Broke))"

lemma commit_accepted_split:
  "commit_accepted fp ck sid e ans a =
   after_accept fp ck sid e (source_answered fp ck (ev_event_id e, fp e) e ans (apply_session_liability fp ck sid) a)"
  by (simp add: commit_accepted_def after_accept_def Let_def)

lemma kept_after_accept: "kept N c a0 (fst x) \<Longrightarrow> plain c (fst x) \<Longrightarrow> kept N c a0 (after_accept fp ck sid e x)"
  by (cases x; cases "snd x") (auto simp: after_accept_def Let_def intro!: kept_commit_continue)

lemma kept_commit_projected: "kept N c a0 a \<Longrightarrow> plain c a \<Longrightarrow> kept N c a0 (commit_projected fp ck sid e acc pa a)"
  using record_projected_fatal[of "ac_gate a" fp ck acc pa]
  by (cases "record_projected fp ck acc pa (ac_gate a)")
    (auto simp: commit_projected_def intro!: kept_commit_continue kept_gate)

lemma kept_commit_retried: "kept N c a0 a \<Longrightarrow> plain c a \<Longrightarrow> kept N c a0 (commit_retried fp ck sid e r a)"
  by (auto simp: commit_retried_def Let_def kept_commit_finish kept_fail split: answer.split)

lemma kept_settle_limiter:
  assumes k: "kept N c a0 a" and s: "dict_get (ac_sessions a) sid = Some s"
  shows "kept N c a0 (fst (settle_limiter ck sid s j n a))" "ac_deleted (fst (settle_limiter ck sid s j n a)) = ac_deleted a"
    "ac_ledger (fst (settle_limiter ck sid s j n a)) = ac_ledger a" "ac_known (fst (settle_limiter ck sid s j n a)) = ac_known a"
    "dict_get (ac_sessions (fst (settle_limiter ck sid s j n a))) sid' =
       (if sid' = sid \<and> snd (settle_limiter ck sid s j n a) = Answered () then Some (s\<lparr>sn_limiter_done := True\<rparr>)
        else dict_get (ac_sessions a) sid')"
proof -
  have "kept N c a0 (put_session sid (s\<lparr>sn_limiter_done := True\<rparr>) (a\<lparr>ac_limiter := l\<rparr>))" for l
    by (rule kept_put[where s = s]) (use k s in auto)
  with k show "kept N c a0 (fst (settle_limiter ck sid s j n a))"
    by (auto simp: settle_limiter_def split: prod.split sum.split bool.split)
  show "ac_deleted (fst (settle_limiter ck sid s j n a)) = ac_deleted a"
    "ac_ledger (fst (settle_limiter ck sid s j n a)) = ac_ledger a" "ac_known (fst (settle_limiter ck sid s j n a)) = ac_known a"
    by (auto simp: settle_limiter_def put_session_def split: prod.split sum.split bool.split)
  show "dict_get (ac_sessions (fst (settle_limiter ck sid s j n a))) sid' =
       (if sid' = sid \<and> snd (settle_limiter ck sid s j n a) = Answered () then Some (s\<lparr>sn_limiter_done := True\<rparr>)
        else dict_get (ac_sessions a) sid')"
    using s by (auto simp: settle_limiter_def put_session_def dict_get_set split: prod.split sum.split bool.split)
qed

text \<open>Settling without a cost moves no spend.\<close>

lemma kept_settle:
  assumes k: "kept N c a0 a" and s: "dict_get (ac_sessions a) sid = Some s" and cost: "c \<Longrightarrow> cost = None \<or> sn_ledger_done s \<or> session_key s = None \<or> (sn_charge s \<noteq> None \<and> sn_charge s \<noteq> Some ch)"
  shows "kept N c a0 (fst (settle_session ck sid s ch cost n a)) \<and> ac_deleted (fst (settle_session ck sid s ch cost n a)) = ac_deleted a"
proof (cases "sn_charge s \<noteq> None \<and> sn_charge s \<noteq> Some ch")
  case True
  with k show ?thesis by (auto simp: settle_session_def)
next
  case False
  show ?thesis
  proof (cases "session_key s")
    case None
    have "kept N c a0 (put_session sid (s\<lparr>sn_charge := Some ch, sn_ledger_done := True, sn_limiter_done := True\<rparr>) a)"
      by (rule kept_put[OF k s]) auto
    with False None show ?thesis by (auto simp: settle_session_def put_session_def)
  next
    case (Some j)
    let ?s = "s\<lparr>sn_charge := Some ch\<rparr>"
    obtain a1 r where l: "settle_ledger sid ?s j cost a = (a1, r)" by fastforce
    have put: "kept N c a0 (put_session sid x b)" if "kept N c a0 b" "ac_sessions b = ac_sessions a" "sn_reservation x = sn_reservation s"
      "sn_ledger_done s \<longrightarrow> sn_ledger_done x" for x b
      by (rule kept_put[OF that(1), where s = s]) (use that s in auto)
    have k1: "kept N c a0 (a\<lparr>ac_ledger := d\<rparr>)"
      if "(case cost of Some x \<Rightarrow> commit_request (session_request ?s) j (PyFloat x) (ac_ledger a)
         | None \<Rightarrow> release_request (session_request ?s) j (ac_ledger a)) = (d, x)" "\<not> sn_ledger_done s" for d x
    proof (cases cost)
      case None
      with that have "release_request (session_request s) j (ac_ledger a) = (d, x)" by simp
      with k show ?thesis by (rule kept_released)
    next
      case (Some y)
      with cost that(2) Some \<open>session_key s = Some j\<close> False have "\<not> c" by auto
      with k show ?thesis by (simp add: kept_def)
    qed
    have a1: "kept N c a0 a1 \<and> ac_deleted a1 = ac_deleted a \<and> (\<forall>s2. r = Answered s2 \<longrightarrow> dict_get (ac_sessions a1) sid = Some s2)"
    proof (cases "sn_ledger_done s")
      case True
      with l have "a1 = put_session sid ?s a" "r = Answered ?s" by (simp_all add: settle_ledger_def)
      with put[OF k, of ?s] show ?thesis by (auto simp: put_session_def dict_get_set)
    next
      case nd: False
      obtain d x where c: "(case cost of Some x \<Rightarrow> commit_request (session_request ?s) j (PyFloat x) (ac_ledger a)
         | None \<Rightarrow> release_request (session_request ?s) j (ac_ledger a)) = (d, x)" by fastforce
      have "kept N c a0 (put_session sid ?s (a\<lparr>ac_ledger := d\<rparr>))"
        "kept N c a0 (put_session sid (?s\<lparr>sn_ledger_done := True\<rparr>) (a\<lparr>ac_ledger := d\<rparr>))"
        by (rule put[OF k1[OF c nd]]; simp)+
      moreover have "settle_ledger sid ?s j cost a = (case (d, x) of
          (d, Inl _) \<Rightarrow> (put_session sid ?s (a\<lparr>ac_ledger := d\<rparr>), Refused CodeInvalidContract)
        | (d, Inr False) \<Rightarrow> (put_session sid ?s (a\<lparr>ac_ledger := d\<rparr>), Refused CodeAccountingFailed)
        | (d, Inr True) \<Rightarrow>
          (put_session sid (?s\<lparr>sn_ledger_done := True\<rparr>) (a\<lparr>ac_ledger := d\<rparr>), Answered (?s\<lparr>sn_ledger_done := True\<rparr>)))"
        unfolding settle_ledger_def c using nd by simp
      ultimately show ?thesis using l
        by (cases x) (auto simp: put_session_def dict_get_set split: bool.splits)
    qed
    show ?thesis
    proof (cases r)
      case (Answered s2)
      with a1 have s2: "dict_get (ac_sessions a1) sid = Some s2" and ka: "kept N c a0 a1" by auto
      from kept_settle_limiter(1,2)[OF ka s2, of ck j n] a1 False Some l Answered show ?thesis
        by (auto simp: settle_session_def Let_def)
    qed (use a1 False Some l in \<open>auto simp: settle_session_def Let_def\<close>)
  qed
qed

lemma kept_duplicate:
  "kept N c a0 a \<Longrightarrow> kept N c a0 (fst (apply_duplicate_session ck sid a)) \<and>
   ac_deleted (fst (apply_duplicate_session ck sid a)) = ac_deleted a"
  using kept_settle[where cost = None and ch = False and n = 0 and ck = ck and sid = sid]
  by (auto simp: apply_duplicate_session_def split: option.split)

lemma kept_liability:
  "kept N False a0 a \<Longrightarrow> kept N False a0 (fst (apply_session_liability fp ck sid acc a)) \<and>
   ac_deleted (fst (apply_session_liability fp ck sid acc a)) = ac_deleted a"
  using kept_settle[of N False a0 a sid]
  by (auto simp: apply_session_liability_def Let_def split: option.split)

lemma kept_follow_owner:
  assumes k: "kept N c a0 a" and p: "plain c a" shows "kept N c a0 (follow_owner ck sid r a)"
proof -
  obtain a1 x where d: "apply_duplicate_session ck sid a = (a1, x)" by fastforce
  from kept_duplicate[OF k, of ck sid] d have k1: "kept N c a0 a1" "ac_deleted a1 = ac_deleted a" by auto
  have p1: "plain c a1" using p k1 by (simp add: plain_def)
  have "kept N c a0 (on_gate (record_code ck y) a1)" for y by (rule kept_on_gate[OF k1(1)]) (rule fatal_record_code)
  moreover have "kept N c a0 (follow_finish ck sid rc a1)" for rc
    using k1 p1 by (auto simp: follow_finish_def Let_def kept_finish_task kept_fail kept_close split: option.split)
  ultimately show ?thesis using k p k1 p1
    by (cases x) (auto simp: follow_owner_def d Let_def kept_fail split: answer.split option.split)
qed

section \<open>Drains and changes of keys\<close>

lemma kept_publish_to: "kept N c a0 a \<Longrightarrow> kept N c a0 (publish_to r sid a)"
  by (auto simp: publish_to_def intro!: kept_put split: option.split)

lemma kept_publish_retry: "kept N c a0 a \<Longrightarrow> kept N c a0 (publish_retry r k a)"
  by (auto simp: publish_retry_def kept_publish_to split: option.split)

lemma kept_publish_all: "kept N c a0 a \<Longrightarrow> kept N c a0 (publish_all_retry_errors r a)"
proof -
  have "kept N c a0 a \<Longrightarrow> kept N c a0 (fold (\<lambda>p. publish_to r (snd p)) xs a)" for xs
    by (induction xs arbitrary: a) (auto simp: kept_publish_to)
  then show "kept N c a0 a \<Longrightarrow> ?thesis" by (simp add: publish_all_retry_errors_def)
qed

lemma kept_dirty [simp]:
  "kept N c a0 (retry_dirty a) = kept N c a0 a" "kept N c a0 (pending_dirty a) = kept N c a0 a"
  "kept N c a0 (projecting x a) = kept N c a0 a"
  by (simp_all add: retry_dirty_def pending_dirty_def projecting_def)

lemma kept_errors:
  "kept N c a0 a \<Longrightarrow> kept N c a0 (on_gate (record_error ck x p b) a)"
  "kept N c a0 a \<Longrightarrow> kept N c a0 (on_gate (record_code ck x) a)"
  "kept N c a0 a \<Longrightarrow> kept N c a0 (on_gate clear_transient_block a)"
  "kept N c a0 a \<Longrightarrow> kept N c a0 (on_gate (\<lambda>g. record_error ck x p b (retain_event k e g)) a)"
  "kept N c a0 a \<Longrightarrow> kept N c a0 (on_gate (\<lambda>g. fst (accept_source_result fp k st False g)) a)"
  "kept N c a0 a \<Longrightarrow> kept N c a0 (on_gate (\<lambda>g. g\<lparr>gt_retained := f g\<rparr>) a)"
  by (auto intro!: kept_on_gate fatal_record_error fatal_record_code fatal_clear fatal_accept_source
      intro: fatal_kept_trans[OF fatal_retain fatal_record_error])

text \<open>The part of a retry after the charge.\<close>

definition after_retry :: "(event \<Rightarrow> string) \<Rightarrow> clock \<Rightarrow> event_key \<Rightarrow> acceptance \<Rightarrow> acct \<times> unit answer \<Rightarrow> acct \<times> unit answer" where
  "after_retry fp ck k acc x = (case x of
     (a2, Refused c) \<Rightarrow>
       (if permanent_code c then (publish_retry (Refused c) k a2, Refused c)
        else (retry_dirty (on_gate (\<lambda>g. record_error ck c False True
                (retain_event k (st_event (acc_stored acc)) g)) a2), Answered ()))
   | (a2, Broke) \<Rightarrow> (publish_retry Broke k a2, Broke)
   | (a2, Answered _) \<Rightarrow>
       (if st_projected_at (acc_stored acc) \<noteq> None
        then (publish_retry (Answered (receipt_of fp acc (settled_status (st_event (acc_stored acc))))) k a2, Answered ())
        else (projecting (Some (k, acc)) a2, Answered ())))"

lemma retry_accepted_split:
  "answer_bind ans (\<lambda>result. validate_source_result fp result k) = Answered acc0 \<Longrightarrow>
   retry_accepted fp ck k ans a =
     (let a1 = on_gate (\<lambda>g. fst (accept_source_result fp k (acc_stored acc0) False g)) a; acc = retry_status k acc0 a1
      in after_retry fp ck k acc (retry_charge fp ck k acc a1))"
  by (simp add: retry_accepted_def after_retry_def)

lemma kept_after_retry: "kept N c a0 (fst x) \<Longrightarrow> kept N c a0 (fst (after_retry fp ck k acc x))"
  by (cases x; cases "snd x") (auto simp: after_retry_def intro!: kept_publish_retry kept_errors)

lemma deleted_publish [simp]: "ac_deleted (publish_to r sid a) = ac_deleted a" "ac_deleted (publish_retry r k a) = ac_deleted a"
  "ac_deleted (publish_all_retry_errors r a) = ac_deleted a"
proof -
  show p: "ac_deleted (publish_to r sid a) = ac_deleted a" for r sid a
    by (simp add: publish_to_def put_session_def split: option.split)
  then show "ac_deleted (publish_retry r k a) = ac_deleted a" by (simp add: publish_retry_def split: option.split)
  have "ac_deleted (fold (\<lambda>p. publish_to r (snd p)) xs a) = ac_deleted a" for xs
    by (induction xs arbitrary: a) (auto simp: p)
  then show "ac_deleted (publish_all_retry_errors r a) = ac_deleted a" by (simp add: publish_all_retry_errors_def)
qed

lemma deleted_after_retry: "ac_deleted (fst (after_retry fp ck k acc x)) = ac_deleted (fst x)"
  by (cases x; cases "snd x") (auto simp: after_retry_def retry_dirty_def on_gate_def projecting_def)

lemma kept_retry_projected: "kept N c a0 a \<Longrightarrow> kept N c a0 (fst (retry_projected fp ck k acc pa a))"
proof -
  assume k0: "kept N c a0 a"
  obtain g r where p: "project_stored fp ck (acc_stored acc) pa (ac_gate a) = (g, r)" by fastforce
  have f: "fatal_kept (ac_gate a) g" using fatal_project[of "ac_gate a" fp ck "acc_stored acc" pa] p by simp
  have gate: "ac_gate (projecting None a) = ac_gate a" by (simp add: projecting_def)
  have "kept N c a0 ((projecting None a)\<lparr>ac_gate := g'\<rparr>)" if "fatal_kept (ac_gate a) g'" for g'
    by (rule kept_gate) (use k0 that gate in auto)
  moreover have "fatal_kept (ac_gate a) (record_error ck x pr bl g)" for x pr bl
    using f fatal_record_error by (rule fatal_kept_trans)
  ultimately show ?thesis using f
    by (cases r) (auto simp: retry_projected_def Let_def gate p intro!: kept_publish_retry)
qed

lemma deleted_retry_projected: "ac_deleted (fst (retry_projected fp ck k acc pa a)) = ac_deleted a"
  by (auto simp: retry_projected_def Let_def retry_dirty_def projecting_def split: prod.split project_result.split)

lemma kept_drain_row: "kept N c a0 a \<Longrightarrow> kept N c a0 (fst (drain_row fp ck st pa a)) \<and> ac_deleted (fst (drain_row fp ck st pa a)) = ac_deleted a"
proof -
  assume k0: "kept N c a0 a"
  obtain g x where m: "mark_pending fp st (ac_gate a) = (g, x)" by fastforce
  have g: "fatal_kept (ac_gate a) g" using fatal_mark_pending[of "ac_gate a" fp st] m by simp
  obtain g1 r where p: "project_stored fp ck st pa g = (g1, r)" by fastforce
  have "fatal_kept g g1" using fatal_project[of g fp ck st pa] p by simp
  with g have g1: "fatal_kept (ac_gate a) g1" by (rule fatal_kept_trans)
  then have "fatal_kept (ac_gate a) (record_error ck y pr bl g1)" for y pr bl
    using fatal_record_error by (rule fatal_kept_trans)
  with k0 g g1 show ?thesis
    by (cases x; cases r) (auto simp: drain_row_def m p pending_dirty_def intro!: kept_gate)
qed

lemma kept_unfence [simp]: "kept N c a0 (unfence k x a) = kept N c a0 a"
  by (simp add: unfence_def)

lemma kept_sync: "kept N False a0 a \<Longrightarrow> kept N False a0 (fst (sync_key_record r b s a))"
  by (auto simp: sync_key_record_def kept_def split: answer.split)

lemma kept_update_finish:
  "kept N False a0 a \<Longrightarrow> kept N False a0 (fst (update_finish k resets ans a))"
proof -
  assume k0: "kept N False a0 a"
  have "kept N False a0 (fst (update_apply k resets ans a))"
  proof (cases "\<exists>r budget spent. ans = Answered (Some r) \<and> validate_key_record r k = Answered (budget, spent)")
    case True
    then obtain r budget spent where r: "ans = Answered (Some r)" "validate_key_record r k = Answered (budget, spent)" by blast
    obtain a1 x where s: "sync_key_record r budget spent a = (a1, x)" by fastforce
    have "kept N False a0 a1" using kept_sync[OF k0, of r budget spent] s by simp
    then show ?thesis by (cases x) (simp_all add: update_apply_def r s)
  next
    case False
    with k0 show ?thesis by (auto simp: update_apply_def split: answer.split option.split)
  qed
  then show ?thesis by (simp add: update_finish_def split_beta)
qed

lemma kept_update_refused: "kept N c a0 a \<Longrightarrow> kept N c a0 (fst (update_finish k resets (Refused x) a))"
  and kept_update_broke: "kept N c a0 a \<Longrightarrow> kept N c a0 (fst (update_finish k resets Broke a))"
  by (simp_all add: update_finish_def update_apply_def)

lemma kept_end_resets: "kept N c a0 (end_resets ks a) = kept N c a0 a"
  by (induction ks arbitrary: a) simp_all

lemma kept_sync_resets: "kept N False a0 a \<Longrightarrow> kept N False a0 (fst (sync_reset_records keys seen rs a))"
proof (induction rs arbitrary: seen a)
  case Nil
  then show ?case by simp
next
  case (Cons r rs)
  show ?case
  proof (cases "validate_key_record r (kr_id r)")
    case (Answered bs)
    obtain budget spent where bs: "bs = (budget, spent)" by (cases bs)
    obtain a1 x where s: "sync_key_record r budget spent a = (a1, x)" by fastforce
    have "kept N False a0 a1" using kept_sync[OF Cons.prems, of r budget spent] s by simp
    with Cons.prems Answered bs s show ?thesis by (cases x) (auto intro: Cons.IH)
  qed (use Cons.prems in auto)
qed

lemma kept_reset_tail:
  "kept N c a0 a \<Longrightarrow> kept N c a0 (case w of None \<Rightarrow> a | Some sid \<Rightarrow>
     (case dict_get (ac_tasks a) sid of
        Some (AtReset cl) \<Rightarrow>
          (case r of
             Answered _ \<Rightarrow> finish_task sid cl a
           | Refused x \<Rightarrow> finish_task sid (cl\<lparr>cl_result := Refused x, cl_clear := False\<rparr>) a
           | Broke \<Rightarrow> finish_task sid (cl\<lparr>cl_result := Broke, cl_clear := False\<rparr>) a)
      | _ \<Rightarrow> a))"
  by (auto simp: kept_finish_task split: option.split task_point.split answer.split)

lemma kept_reset_finish:
  assumes k: "kept N c a0 a" and plain: "c \<Longrightarrow> \<forall>rs. ans \<noteq> Answered rs"
  shows "kept N c a0 (reset_finish i t ans a)"
proof -
  have "kept N c a0 (fst (reset_apply t ans a))"
  proof (cases ans)
    case (Answered rs)
    with plain have "\<not> c" by auto
    obtain a1 x where s: "sync_reset_records (rt_keys t) [] rs a = (a1, x)" by fastforce
    have "kept N False a0 a1" using kept_sync_resets[of N a0 a "rt_keys t" "[]" rs] k \<open>\<not> c\<close> s by simp
    with \<open>\<not> c\<close> show ?thesis by (cases x) (simp_all add: reset_apply_def Answered s kept_end_resets)
  qed (use k in \<open>simp_all add: reset_apply_def\<close>)
  then show ?thesis unfolding reset_finish_def Let_def split_beta
    by (intro kept_reset_tail) simp
qed

lemma kept_mark_due: "kept N c a0 a \<Longrightarrow> kept N c a0 (fst (mark_due moment ks a))"
  by (induction ks arbitrary: a) (auto simp: Let_def split_beta)

lemma kept_due_page: "kept N c a0 a \<Longrightarrow> kept N c a0 (fst (due_page moment rows a))"
  using kept_mark_due[of N c a0 a moment]
  by (auto simp: due_page_def Let_def split_beta split: answer.split option.split)

lemma kept_delete_finish: "kept N False a0 a \<Longrightarrow> kept N False a0 (fst (delete_finish k p ans a))"
  by (auto simp: delete_finish_def Let_def restore_fence_def kept_def forget_key_def split: answer.split bool.split)

section \<open>Ends of drains\<close>

lemma kept_projector_end: "kept N c a0 a \<Longrightarrow> kept N c a0 (projector_end ck p r a)"
  by (auto simp: projector_end_def Let_def split: answer.split intro!: kept_errors kept_publish_all)

lemma kept_reconcile_end: "kept N c a0 a \<Longrightarrow> kept N c a0 (reconcile_end ck p r a)"
  by (auto simp: reconcile_end_def Let_def split: answer.split intro!: kept_errors)

lemma kept_change_end: "kept N c a0 a \<Longrightarrow> kept N c a0 (change_end p r a)"
  by (auto simp: change_end_def Let_def split: answer.split drain_user.split option.split
      intro!: kept_update_refused kept_update_broke kept_reset_finish)

lemma kept_stop_close: "kept N c a0 a \<Longrightarrow> kept N c a0 (stop_close ck dr rep a)"
  by (auto simp: stop_close_def Let_def split: option.split intro!: kept_on_gate fatal_record_error)

lemma kept_stop_end: "kept N c a0 a \<Longrightarrow> kept N c a0 (stop_end ck p r rep a)"
proof -
  assume k: "kept N c a0 a"
  obtain g x where f: "full_reconcile rep (ac_gate a) = (g, x)" by fastforce
  have g: "fatal_kept (ac_gate a) g" using fatal_full_reconcile[of "ac_gate a" rep] f by simp
  then have "fatal_kept (ac_gate a) (record_code ck y g)" "fatal_kept (ac_gate a) (record_error ck y pr bl g)" for y pr bl
    using fatal_record_code fatal_record_error by (auto intro: fatal_kept_trans)
  with k g show ?thesis
    by (cases x) (auto simp: stop_end_def f split: answer.split intro!: kept_stop_close kept_errors kept_gate)
qed

lemma kept_end_pass: "kept N c a0 a \<Longrightarrow> kept N c a0 (end_pass ck r rep a)"
  by (auto simp: end_pass_def kept_projector_end kept_reconcile_end kept_stop_end kept_change_end
      split: option.split drain_user.split)

lemma kept_pass_step: "kept N c a0 (fst x) \<Longrightarrow> kept N c a0 (pass_step ck x)"
  by (cases x) (auto simp: pass_step_def kept_end_pass split: answer.split)

section \<open>Charges\<close>

text \<open>What a charge adds to which key: only an unsettled session of a key is charged, with the cost of
  an accepted or recovered charge event.\<close>

definition liability_charge :: "(event \<Rightarrow> string) \<Rightarrow> string \<Rightarrow> acceptance \<Rightarrow> acct \<Rightarrow> (int \<times> rat) option" where
  "liability_charge fp sid acc a = (case dict_get (ac_sessions a) sid of
     None \<Rightarrow> None
   | Some s \<Rightarrow>
       (if \<not> sn_ledger_done s \<and> sn_event_key s = Some (pending_key fp (acc_stored acc)) \<and>
           (sn_charge s = None \<or> sn_charge s = Some True) \<and> acc_status acc \<noteq> SourceDuplicate \<and>
           ev_kind (st_event (acc_stored acc)) = Charge
        then map_option (\<lambda>k. (k, us_cost (ev_usage (st_event (acc_stored acc))))) (session_key s) else None))"

fun charge_of :: "(event \<Rightarrow> string) \<Rightarrow> acct_input \<Rightarrow> acct \<Rightarrow> (string \<times> int \<times> rat) option" where
  "charge_of fp (InAccepted ck sid ans) a = (case dict_get (ac_tasks a) sid of
     Some (AtAccept e) \<Rightarrow>
       (case answer_bind ans (\<lambda>result. validate_source_result fp result (ev_event_id e, fp e)) of
          Answered acc \<Rightarrow>
            (if dict_get (gt_inflight (ac_gate a)) (ev_event_id e, fp e) = None then None
             else map_option (Pair sid) (liability_charge fp sid acc a))
        | _ \<Rightarrow> None)
   | _ \<Rightarrow> None)"
| "charge_of fp (InRetryAccepted ck k ans) a =
     (if \<not> draining a then None
      else case answer_bind ans (\<lambda>result. validate_source_result fp result k) of
        Answered acc0 \<Rightarrow>
          (case dict_get (ac_retry_sessions a) k of
             None \<Rightarrow> None
           | Some sid \<Rightarrow> map_option (Pair sid) (liability_charge fp sid (retry_status k acc0 a) a))
      | _ \<Rightarrow> None)"
| "charge_of fp _ a = None"

fun charges :: "(event \<Rightarrow> string) \<Rightarrow> acct_input list \<Rightarrow> acct \<Rightarrow> (string \<times> int \<times> rat) list" where
  "charges fp [] a = []"
| "charges fp (x # xs) a =
     (case charge_of fp x a of None \<Rightarrow> [] | Some y \<Rightarrow> [y]) @ charges fp xs (acct_step fp x a)"

definition charged_to :: "int \<Rightarrow> (string \<times> int \<times> rat) list \<Rightarrow> rat" where
  "charged_to k entries = (\<Sum>(sid, j, cost)\<leftarrow>entries. if j = k then cost else 0)"

text \<open>Inputs that re-read or drop keys, and the identifier an admission draws.\<close>

fun rereads :: "acct_input \<Rightarrow> bool" where
  "rereads (InUpdated ans) = True"
| "rereads (InResetDone ans) = True"
| "rereads (InDeleted k p ans) = True"
| "rereads _ = False"

fun drawn :: "acct_input \<Rightarrow> string list" where
  "drawn (InReserve ck token ra) = (case parse_reserve token ra of
     Answered (r, budget, spent, rpm, tpm) \<Rightarrow> [rv_reservation_id r] | _ \<Rightarrow> [])"
| "drawn _ = []"

lemma liability_none:
  assumes k: "kept N c a0 a" and no: "liability_charge fp sid acc a = None"
  shows "kept N c a0 (fst (apply_session_liability fp ck sid acc a)) \<and>
    ac_deleted (fst (apply_session_liability fp ck sid acc a)) = ac_deleted a"
proof (cases "dict_get (ac_sessions a) sid")
  case None
  with k show ?thesis by (simp add: apply_session_liability_def)
next
  case (Some s)
  let ?ch = "acc_status acc = SourceAccepted \<or> acc_status acc = SourceRecovered"
  let ?b = "?ch \<and> ev_kind (st_event (acc_stored acc)) = Charge"
  let ?cost = "if ?b then Some (us_cost (ev_usage (st_event (acc_stored acc)))) else None"
  have ch: "?ch = (acc_status acc \<noteq> SourceDuplicate)" by (cases "acc_status acc") auto
  show ?thesis
  proof (cases "liability_applied s \<or> sn_event_key s \<noteq> Some (pending_key fp (acc_stored acc))")
    case True
    with k Some show ?thesis by (auto simp: apply_session_liability_def Let_def)
  next
    case False
    have "?cost = None \<or> sn_ledger_done s \<or> session_key s = None \<or> (sn_charge s \<noteq> None \<and> sn_charge s \<noteq> Some ?ch)"
      using no Some False ch by (auto simp: liability_charge_def split: if_splits)
    from kept_settle[OF k Some this, where ck = ck] False Some show ?thesis
      by (auto simp: apply_session_liability_def Let_def)
  qed
qed

lemma liability_some:
  assumes b: "sound h a" and ok: "chargeable (st_event (acc_stored acc)) a"
    and ch: "liability_charge fp sid acc a = Some (k, cost)"
    and a1_def: "a1 = fst (apply_session_liability fp ck sid acc a)"
  shows "spent_of j a1 = spent_of j a + (if j = k then cost else 0)" and "ac_known a1 = ac_known a"
    and "ac_deleted a1 = ac_deleted a" and "\<exists>s. dict_get (ac_sessions a1) sid = Some s \<and> sn_ledger_done s"
proof -
  from ch obtain s where s: "dict_get (ac_sessions a) sid = Some s" and nd: "\<not> sn_ledger_done s"
    and key: "sn_event_key s = Some (pending_key fp (acc_stored acc))" and cg: "sn_charge s = None \<or> sn_charge s = Some True"
    and st: "acc_status acc \<noteq> SourceDuplicate" "ev_kind (st_event (acc_stored acc)) = Charge"
    and k: "session_key s = Some k" and cost: "cost = us_cost (ev_usage (st_event (acc_stored acc)))"
    by (auto simp: liability_charge_def split: option.splits if_splits)
  have chb: "(acc_status acc = SourceAccepted \<or> acc_status acc = SourceRecovered) = True"
    using st by (cases "acc_status acc") auto
  have nla: "\<not> liability_applied s" using nd by (simp add: liability_applied_def)
  define n where "n = us_total (ev_usage (st_event (acc_stored acc)))"
  have a1: "a1 = fst (settle_session ck sid s True (Some cost) n a)"
    unfolding a1_def using s nla key chb st(2)
    by (simp add: apply_session_liability_def Let_def cost n_def)
  have bk: "books True h a" using b by (simp add: sound_def)
  have r: "resv (ac_ledger a) k (session_request s) = Some (rv_reserved_usd (sn_reservation s))"
    by (rule coveredD[OF booksD(5)[OF bk] s k nd])
  have ok': "0 \<le> cost" "list_all (\<lambda>p. \<not> float_overflow (le_spent_usd (snd p) + cost)) (ac_ledger a)"
    using ok by (simp_all add: chargeable_def cost)
  from commit_works[OF booksD(4)[OF bk] r ok'] obtain d where
    d: "commit_request (session_request s) k (PyFloat cost) (ac_ledger a) = (d, Inr True)"
    "\<And>j. le_spent_usd (entry_for j d) = (if j = k then le_spent_usd (entry_for k (ac_ledger a)) + cost
        else le_spent_usd (entry_for j (ac_ledger a)))" by metis
  define s2 where "s2 = s\<lparr>sn_charge := Some True, sn_ledger_done := True\<rparr>"
  define a2 where "a2 = put_session sid s2 (a\<lparr>ac_ledger := d\<rparr>)"
  have l: "settle_ledger sid (s\<lparr>sn_charge := Some True\<rparr>) k (Some cost) a = (a2, Answered s2)"
    using nd d(1) by (simp add: settle_ledger_def a2_def s2_def)
  have a1': "a1 = fst (settle_limiter ck sid s2 k n a2)"
    unfolding a1 using cg k l by (auto simp: settle_session_def Let_def)
  have s2: "dict_get (ac_sessions a2) sid = Some s2" by (simp add: a2_def)
  note lim = kept_settle_limiter[OF kept_refl s2, where ck = ck and j = k and n = n]
  show "spent_of j a1 = spent_of j a + (if j = k then cost else 0)"
    using d(2)[of j] lim(3) by (simp add: spent_of_def a1' a2_def)
  show "ac_known a1 = ac_known a" using lim(4) by (simp add: a1' a2_def put_session_def)
  show "ac_deleted a1 = ac_deleted a" using lim(2) by (simp add: a1' a2_def put_session_def)
  show "\<exists>s. dict_get (ac_sessions a1) sid = Some s \<and> sn_ledger_done s"
    using lim(5)[of sid] s2 by (auto simp: a1' s2_def split: if_splits)
qed

text \<open>The gate operations around the charge of a commit.\<close>

lemma source_answered_apply:
  assumes v: "answer_bind ans (\<lambda>result. validate_source_result fp result key) = Answered acc"
    and fl: "dict_get (gt_inflight (ac_gate a)) key \<noteq> None"
  obtains g f where "fatal_kept (ac_gate a) g" "gate_ok (ac_gate a) \<Longrightarrow> gate_ok g" "\<And>g'. fatal_kept g' (f g')"
    "fst (source_answered fp ck key e ans apply_acc a) = on_gate f (fst (apply_acc acc (a\<lparr>ac_gate := g\<rparr>)))"
proof -
  obtain g r where ac: "accept_source_result fp key (acc_stored acc) True (ac_gate a) = (g, r)" by fastforce
  have r: "\<exists>u. r = Answered u"
    using ac fl by (auto simp: accept_source_result_def release_source_owner_def Let_def split: option.splits)
  have g: "fatal_kept (ac_gate a) g" "gate_ok (ac_gate a) \<Longrightarrow> gate_ok g"
    using fatal_accept_source[of "ac_gate a" fp key "acc_stored acc" True]
      gate_ok_accept_source[of "ac_gate a" fp key "acc_stored acc" True] ac by auto
  obtain a1 r1 where ap: "apply_acc acc (a\<lparr>ac_gate := g\<rparr>) = (a1, r1)" by fastforce
  have f: "fatal_kept g' (wake_projector (record_code ck c (retain_event key e' g')))"
    "fatal_kept g' (wake_projector (record_error ck c p b (retain_event key e' g')))" for g' c e' p b
    by (auto intro: fatal_kept_trans[OF fatal_retain fatal_kept_trans[OF _ fatal_wake]] fatal_record_code fatal_record_error)
  show thesis
  proof (cases r1)
    case (Answered u)
    with r ac ap v show thesis by (intro that[of g id] g) (auto simp: source_answered_def on_gate_def)
  next
    case (Refused c)
    with r ac ap v show thesis
      by (intro that[of g "\<lambda>g1. wake_projector (record_code ck c (retain_event key (st_event (acc_stored acc)) g1))"] g f)
        (auto simp: source_answered_def)
  next
    case Broke
    with r ac ap v show thesis
      by (intro that[of g "\<lambda>g1. wake_projector (record_error ck CodeAccountingFailed False True
          (retain_event key (st_event (acc_stored acc)) g1))"] g f)
        (auto simp: source_answered_def)
  qed
qed

lemma liability_charge_gate [simp]: "liability_charge fp sid acc (a\<lparr>ac_gate := g\<rparr>) = liability_charge fp sid acc a"
  by (simp add: liability_charge_def)

lemma retry_status_gate [simp]: "retry_status k acc (a\<lparr>ac_gate := g\<rparr>) = retry_status k acc a"
  by (auto simp: retry_status_def split: option.split)

lemma chargeable_gate [simp]: "chargeable e (a\<lparr>ac_gate := g\<rparr>) = chargeable e a"
  by (simp add: chargeable_def)

text \<open>A charging step: everything but the charge is kept.\<close>

definition charged :: "string \<Rightarrow> int \<Rightarrow> rat \<Rightarrow> acct \<Rightarrow> acct \<Rightarrow> bool" where
  "charged sid k cost a a' \<longleftrightarrow> ac_deleted a' = [] \<and> set (ac_known a) \<subseteq> set (ac_known a') \<and>
     (\<forall>j\<in>set (ac_known a). spent_of j a' = spent_of j a + (if j = k then cost else 0)) \<and>
     (\<forall>s. dict_get (ac_sessions a') sid = Some s \<longrightarrow> sn_ledger_done s)"

lemma charged_then:
  assumes b: "sound h a" and ok: "chargeable (st_event (acc_stored acc)) a" and ch: "liability_charge fp sid acc a = Some (k, cost)"
    and nodel: "ac_deleted a = []" and rest: "kept {} True (fst (apply_session_liability fp ck sid acc a)) a'"
  shows "charged sid k cost a a'"
proof -
  let ?a1 = "fst (apply_session_liability fp ck sid acc a)"
  note l = liability_some[OF b ok ch refl, where ck = ck]
  have d: "ac_deleted ?a1 = []" using l(3) nodel by simp
  have "sn_ledger_done s" if "dict_get (ac_sessions a') sid = Some s" for s
    using keptD(2)[OF rest _ that] l(4) by auto
  then show ?thesis
    using keptD(3,4,5)[OF rest _ d] l by (auto simp: charged_def)
qed

lemma charging_step:
  assumes b: "sound h a" and adm: "admissible x a" and ch: "charge_of fp x a = Some (sid, k, cost)" and nodel: "ac_deleted a = []"
  shows "charged sid k cost a (acct_step fp x a)"
proof -
  consider (acc) ck ans e acc where "x = InAccepted ck sid ans" "dict_get (ac_tasks a) sid = Some (AtAccept e)"
      "answer_bind ans (\<lambda>result. validate_source_result fp result (ev_event_id e, fp e)) = Answered acc"
      "dict_get (gt_inflight (ac_gate a)) (ev_event_id e, fp e) \<noteq> None" "liability_charge fp sid acc a = Some (k, cost)"
    | (retry) ck key ans acc0 where "x = InRetryAccepted ck key ans" "draining a"
      "answer_bind ans (\<lambda>result. validate_source_result fp result key) = Answered acc0"
      "dict_get (ac_retry_sessions a) key = Some sid" "liability_charge fp sid (retry_status key acc0 a) a = Some (k, cost)"
    using ch by (cases "(fp, x, a)" rule: charge_of.cases)
      (auto split: option.splits task_point.splits answer.splits if_splits)
  then show ?thesis
  proof cases
    case acc
    have ans: "ans = Answered (Some acc)"
      using acc(3) by (auto simp: answer_bind_def validate_source_result_def split: answer.splits option.splits if_splits)
    have ok: "chargeable (st_event (acc_stored acc)) a" using adm acc(1) ans by simp
    obtain g f where gf: "fatal_kept (ac_gate a) g" "gate_ok (ac_gate a) \<Longrightarrow> gate_ok g" "\<And>g'. fatal_kept g' (f g')"
      "fst (source_answered fp ck (ev_event_id e, fp e) e ans (apply_session_liability fp ck sid) a) =
         on_gate f (fst (apply_session_liability fp ck sid acc (a\<lparr>ac_gate := g\<rparr>)))"
      using source_answered_apply[OF acc(3,4)] by metis
    let ?b = "a\<lparr>ac_gate := g\<rparr>"
    have bg: "sound h ?b" by (rule sound_gate[OF b gf(2)[OF soundD(1)[OF b]]])
    let ?a1 = "fst (apply_session_liability fp ck sid acc ?b)"
    have k1: "kept {} True ?a1 (on_gate f ?a1)" by (rule kept_on_gate[OF kept_refl gf(3)])
    have "plain True (on_gate f ?a1)" using liability_some(3)[OF bg _ _ refl, where acc = acc and fp = fp and sid = sid and k = k and cost = cost and ck = ck] ok acc(5) nodel
      by (simp add: plain_def on_gate_def)
    with k1 have "kept {} True ?a1 (acct_step fp x a)"
      unfolding acc(1) using acc(2) gf(4)
      by (auto simp: commit_accepted_split intro!: kept_after_accept)
    from charged_then[OF bg _ _ _ this] ok acc(5) nodel have "charged sid k cost ?b (acct_step fp x a)" by simp
    then show ?thesis by (simp add: charged_def spent_of_def)
  next
    case retry
    have ans: "ans = Answered (Some acc0)"
      using retry(3) by (auto simp: answer_bind_def validate_source_result_def split: answer.splits option.splits if_splits)
    have ok: "chargeable (st_event (acc_stored acc0)) a" using adm retry(1) ans by simp
    define b where "b = on_gate (\<lambda>g. fst (accept_source_result fp key (acc_stored acc0) False g)) a"
    have bg: "sound h b" unfolding b_def by (rule sound_errors(5)[OF assms(1)])
    have bf: "b = a\<lparr>ac_gate := fst (accept_source_result fp key (acc_stored acc0) False (ac_gate a))\<rparr>"
      by (simp add: b_def on_gate_def)
    define acc where "acc = retry_status key acc0 b"
    have acc: "acc = retry_status key acc0 a" by (simp add: acc_def bf)
    have lc: "liability_charge fp sid acc b = Some (k, cost)" using retry(5) by (simp add: acc bf)
    have okb: "chargeable (st_event (acc_stored acc)) b" using ok by (simp add: acc bf)
    have rc: "retry_charge fp ck key acc b = apply_session_liability fp ck sid acc b"
      using retry(4) by (simp add: retry_charge_def bf)
    let ?a1 = "fst (apply_session_liability fp ck sid acc b)"
    have "kept {} True ?a1 (fst (after_retry fp ck key acc (apply_session_liability fp ck sid acc b)))"
      by (rule kept_after_retry[OF kept_refl])
    then have "kept {} True ?a1 (fst (retry_accepted fp ck key ans a))"
      unfolding retry_accepted_split[OF retry(3)] Let_def b_def[symmetric] acc_def[symmetric] rc .
    then have "kept {} True ?a1 (acct_step fp x a)"
      unfolding retry(1) using retry(2) by (simp add: kept_pass_step)
    from charged_then[OF bg okb lc _ this] nodel have "charged sid k cost b (acct_step fp x a)" by (simp add: bf)
    then show ?thesis by (simp add: charged_def spent_of_def bf)
  qed
qed

end
