(* ===== verification/Accounting_Runs.thy ===== *)
theory Accounting_Runs
  imports Accounting_History
begin

text \<open>
  Whole steps and whole runs of the accounting service: every step keeps what \<open>kept\<close> says, with
  \<open>charge_of\<close> as the one way a spend moves while no key is re-read or deleted; a run charges a
  session at most once, and the spend of a key grows by exactly the charges.
\<close>

section \<open>Admission\<close>

lemma kept_learn: "kept N c a0 a \<Longrightarrow> kept N c a0 (fst (learn_key k budget spent limits a))"
  "ac_sessions (fst (learn_key k budget spent limits a)) = ac_sessions a"
proof -
  have "kept N c a (a\<lparr>ac_ledger := sync_record k budget spent (ac_ledger a), ac_known := k # ac_known a,
      ac_limits := x\<rparr>)" if "k \<notin> set (ac_known a)" for x
    using that by (auto simp: kept_def spent_of_def sync_record_def Let_def split: option.split)
  then show "kept N c a0 a \<Longrightarrow> kept N c a0 (fst (learn_key k budget spent limits a))"
    by (auto simp: learn_key_def split: option.split intro: kept_trans)
qed (auto simp: learn_key_def split: option.split)

lemma kept_admit_rate: "kept N c a0 a \<Longrightarrow> kept N c a0 (fst (admit_rate ck q k limits a))"
proof -
  assume k0: "kept N c a0 a"
  have "kept N c a0 (a\<lparr>ac_limiter := l, ac_ledger := d\<rparr>)" if "release_request q k (ac_ledger a) = (d, x)" for d x l
    using kept_released[of N c a0 "a\<lparr>ac_limiter := l\<rparr>"] k0 that by simp
  with k0 show ?thesis
    by (auto simp: admit_rate_def split: prod.split option.split sum.split)
qed

lemma kept_admit_key: "kept N c a0 a \<Longrightarrow> kept N c a0 (fst (admit_key ck q k e budget spent limits a))"
proof -
  assume k0: "kept N c a0 a"
  obtain a1 r where l: "learn_key k budget spent limits a = (a1, r)" by fastforce
  have k1: "kept N c a0 a1" using kept_learn(1)[OF k0, of k budget spent limits] l by simp
  obtain d x where rr: "reserve_request q k (PyFloat e) (ac_ledger a1) = (d, x)" by fastforce
  have k2: "kept N c a0 (a1\<lparr>ac_ledger := d\<rparr>)"
    by (rule kept_ledger[OF k1]) (use reserve_spent[of _ q k "PyFloat e" "ac_ledger a1"] rr in simp)
  show ?thesis using k1 k2 kept_admit_rate[OF k2]
    by (cases r) (auto simp: admit_key_def l rr split: sum.split bool.split)
qed

lemma kept_open: "kept N c a0 a \<Longrightarrow> rv_reservation_id r \<in> N \<Longrightarrow> kept N c a0 (open_session r a)"
  by (auto simp: kept_def spent_of_def open_session_def dict_get_set)

lemma kept_admit_session:
  assumes k: "kept N c a0 a" and n: "rv_reservation_id r \<in> N"
  shows "kept N c a0 (fst (admit_session ck r budget spent limits a))"
proof -
  define m where "m = (case rv_api_key_id r of None \<Rightarrow> (a, Answered ())
    | Some k \<Rightarrow> admit_key ck (rv_request_id r) k (rv_reserved_usd r) budget spent limits a)"
  have "kept N c a0 (fst m)" using k by (auto simp: m_def kept_admit_key split: option.split)
  then have "kept N c a0 (fst (then_do m (\<lambda>a1 _. (open_session r a1, Answered r))))"
    using n by (cases m; cases "snd m") (auto simp: kept_open)
  with k show ?thesis by (auto simp: admit_session_def m_def[symmetric] split: option.split)
qed

lemma kept_reserve: "kept N c a0 a \<Longrightarrow> set (drawn (InReserve ck token ra)) \<subseteq> N \<Longrightarrow>
    kept N c a0 (fst (reserve_session ck token ra a))"
  by (auto simp: reserve_session_def kept_admit_session split: answer.split)

section \<open>Steps\<close>

lemma kept_accepted:
  assumes k: "kept N c a0 a" and p: "plain c a" and at: "dict_get (ac_tasks a) sid = Some (AtAccept e)"
    and no: "c \<Longrightarrow> charge_of fp (InAccepted ck sid ans) a = None"
  shows "kept N c a0 (commit_accepted fp ck sid e ans a)"
proof -
  let ?sa = "source_answered fp ck (ev_event_id e, fp e) e ans (apply_session_liability fp ck sid) a"
  have "kept N c a0 (fst ?sa) \<and> ac_deleted (fst ?sa) = ac_deleted a"
  proof (rule source_answered_kept[OF k])
    fix acc a' assume v: "answer_bind ans (\<lambda>result. validate_source_result fp result (ev_event_id e, fp e)) = Answered acc"
      and fl: "dict_get (gt_inflight (ac_gate a)) (ev_event_id e, fp e) \<noteq> None"
      and k': "kept N c a0 a'" and a': "ac_sessions a' = ac_sessions a" "ac_ledger a' = ac_ledger a" "ac_deleted a' = ac_deleted a"
    show "kept N c a0 (fst (apply_session_liability fp ck sid acc a')) \<and>
        ac_deleted (fst (apply_session_liability fp ck sid acc a')) = ac_deleted a"
    proof (cases c)
      case True
      with no at v fl have "liability_charge fp sid acc a = None" by simp
      then have "liability_charge fp sid acc a' = None" by (simp add: liability_charge_def a')
      from liability_none[OF k' this, of ck] a' show ?thesis by simp
    next
      case False
      with kept_liability[of N a0 a' fp ck sid acc] k' a' show ?thesis by simp
    qed
  qed
  then show ?thesis unfolding commit_accepted_split
    by (intro kept_after_accept) (use p in \<open>auto simp: plain_def\<close>)
qed

lemma kept_retry_accepted:
  assumes k: "kept N c a0 a" and dr: "draining a" and no: "c \<Longrightarrow> charge_of fp (InRetryAccepted ck key ans) a = None"
  shows "kept N c a0 (fst (retry_accepted fp ck key ans a))"
proof (cases "answer_bind ans (\<lambda>result. validate_source_result fp result key)")
  case (Refused x)
  with k show ?thesis by (auto simp: retry_accepted_def intro!: kept_publish_retry kept_errors)
next
  case Broke
  with k show ?thesis by (auto simp: retry_accepted_def intro!: kept_errors)
next
  case (Answered acc0)
  define a1 where "a1 = on_gate (\<lambda>g. fst (accept_source_result fp key (acc_stored acc0) False g)) a"
  define acc where "acc = retry_status key acc0 a1"
  have a1: "a1 = a\<lparr>ac_gate := fst (accept_source_result fp key (acc_stored acc0) False (ac_gate a))\<rparr>"
    by (simp add: a1_def on_gate_def)
  have k1: "kept N c a0 a1" unfolding a1_def by (rule kept_errors(5)[OF k])
  have "kept N c a0 (fst (retry_charge fp ck key acc a1))"
  proof (cases "dict_get (ac_retry_sessions a) key")
    case None
    with k1 show ?thesis by (simp add: retry_charge_def a1)
  next
    case (Some sid)
    show ?thesis
    proof (cases c)
      case True
      with no dr Answered Some have "liability_charge fp sid (retry_status key acc0 a) a = None" by simp
      then have "liability_charge fp sid acc a1 = None" by (simp add: acc_def a1)
      from liability_none[OF k1 this, of ck] Some show ?thesis by (simp add: retry_charge_def a1)
    next
      case False
      with kept_liability[of N a0 a1 fp ck sid acc] k1 Some show ?thesis by (simp add: retry_charge_def a1)
    qed
  qed
  then have "kept N c a0 (fst (after_retry fp ck key acc (retry_charge fp ck key acc a1)))" by (rule kept_after_retry)
  then show ?thesis unfolding retry_accepted_split[OF Answered] Let_def a1_def[symmetric] acc_def[symmetric] .
qed

lemma kept_record_accepted: "kept N c a0 a \<Longrightarrow> kept N c a0 (record_accepted fp ck i e ans a)"
proof -
  assume k: "kept N c a0 a"
  obtain a1 r where r: "source_answered fp ck (ev_event_id e, fp e) e ans (\<lambda>acc a1. (a1, Answered ())) a = (a1, r)" by fastforce
  have "kept N c a0 a1" using source_answered_kept[OF k, where ans = ans and fp = fp and key = "(ev_event_id e, fp e)"
      and apply_acc = "\<lambda>acc a1. (a1, Answered ())" and ck = ck and e = e] r by simp
  then show ?thesis by (cases r) (simp_all add: record_accepted_def r drop_owner_def)
qed

lemma kept_record_finished: "kept N c a0 a \<Longrightarrow> kept N c a0 (record_finished fp ck i acc pa a)"
  by (auto simp: record_finished_def drop_owner_def intro!: kept_gate record_projected_fatal)

lemma kept_delete_begin: "kept N c a0 a \<Longrightarrow> kept N c a0 (fst (delete_begin key a))"
  by (auto simp: delete_begin_def split: answer.split)

lemma kept_update_begin: "kept N c a0 a \<Longrightarrow> kept N c a0 (fst (update_begin key resets rs a))"
  by (auto simp: update_begin_def split: answer.split)

lemma kept_start:
  assumes "kept N c a0 a" and "start_workflow fp ck listing answers rep sp (ac_gate a) = Some (g, r)"
  shows "kept N c a0 (a\<lparr>ac_gate := g, ac_projector := x\<rparr>)"
proof -
  have "kept N c a0 (a\<lparr>ac_gate := g\<rparr>)" by (rule kept_gate[OF assms(1) fatal_start[OF assms(2)]])
  then have "kept N c a0 (a\<lparr>ac_gate := g\<rparr>\<lparr>ac_projector := x\<rparr>)" by (simp only: kept_frame)
  then show ?thesis by simp
qed

lemma fatal_start_begin: "fatal_kept g (fst (start_begin sp g))"
  by (auto simp: start_begin_def fatal_record_error fatal_kept_def)

text \<open>\<open>c\<close>: the step charges nothing and re-reads no key, and no key was deleted.\<close>

lemma step_kept:
  assumes c: "c \<Longrightarrow> charge_of fp x a = None \<and> \<not> rereads x \<and> ac_deleted a = []"
  shows "kept (set (drawn x)) c a (acct_step fp x a)"
proof -
  note k = kept_refl[of "set (drawn x)" c a]
  have p: "plain c a" using c by (simp add: plain_def)
  show ?thesis
  proof (cases x)
    case (InStart sp)
    with k show ?thesis by (auto intro!: kept_on_gate fatal_start_begin)
  next
    case (InStarted ck listing answers rep sp)
    with k show ?thesis by (auto split: option.split dest: kept_start)
  next
    case (InReserve ck token ra)
    with k kept_reserve[OF k, of ck token ra] show ?thesis by simp
  next
    case (InAccepted ck sid ans)
    with k p c show ?thesis by (auto split: option.split task_point.split intro!: kept_accepted simp del: charge_of.simps)
  next
    case (InRetryAccepted ck key ans)
    with k p c show ?thesis by (auto intro!: kept_pass_step kept_retry_accepted simp del: charge_of.simps)
  next
    case (InUpdated ans)
    have "kept (set (drawn x)) c a (fst (update_finish j u ans (a\<lparr>ac_pass := None\<rparr>)))" for j u
      using kept_update_finish[of "set (drawn x)" a "a\<lparr>ac_pass := None\<rparr>"] k c InUpdated by (cases c) auto
    with k InUpdated show ?thesis by (auto split: option.split drain_user.split)
  next
    case (InResetDone ans)
    have "kept (set (drawn x)) c a (reset_finish i t ans (a\<lparr>ac_pass := None\<rparr>))" for i t
      by (rule kept_reset_finish) (use k c InResetDone in auto)
    with k InResetDone show ?thesis by (auto split: option.split drain_user.split)
  next
    case (InDeleted j previous ans)
    with k c kept_delete_finish[OF kept_refl] show ?thesis by (cases c) auto
  next
    case (InRunRelease ck sid)
    with k p show ?thesis by (simp add: kept_run_release)
  next
    case (InProjected ck sid pa)
    with k p show ?thesis by (auto split: option.split task_point.split intro!: kept_commit_projected)
  next
    case (InFollow ck sid)
    with k p show ?thesis by (auto split: option.split task_point.split intro!: kept_follow_owner)
  next
    case (InRetried ck sid)
    with k p show ?thesis by (auto split: option.split task_point.split intro!: kept_commit_retried)
  next
    case (InRecord e sp)
    with k show ?thesis by (auto simp: record_begin_def Let_def intro!: kept_on_gate fatal_take_source)
  next
    case (InRecordAccepted ck i ans)
    with k show ?thesis by (auto split: option.split prod.split intro!: kept_record_accepted)
  next
    case (InRecordProjected ck i pa)
    with k show ?thesis by (auto split: option.split prod.split intro!: kept_record_finished)
  next
    case (InRetryProjected ck pa)
    with k show ?thesis by (auto split: option.split intro!: kept_pass_step kept_retry_projected)
  next
    case (InDrainRow ck st pa)
    with k show ?thesis by (auto intro!: kept_pass_step simp: kept_drain_row)
  next
    case (InListingFailed ck y)
    with k show ?thesis by (auto intro!: kept_pass_step)
  next
    case (InStop sp)
    with k show ?thesis by (auto simp: begin_stop_def intro!: kept_on_gate)
  qed (use k in \<open>simp_all add: kept_begin_commit kept_begin_release kept_update_begin take_drain_def begin_pass_def
    kept_end_pass reconcile_begin_def due_begin_def kept_due_page kept_delete_begin\<close>)
qed

section \<open>Runs\<close>

definition run_service :: "(event \<Rightarrow> string) \<Rightarrow> acct_input list \<Rightarrow> acct \<Rightarrow> acct" where
  "run_service fp xs a = fold (acct_step fp) xs a"

text \<open>A fatal error is never forgotten.\<close>

lemma run_fatal: "fatal_kept (ac_gate a) (ac_gate (run_service fp xs a))"
proof (induction xs arbitrary: a)
  case (Cons x xs)
  have "fatal_kept (ac_gate a) (ac_gate (acct_step fp x a))"
    using keptD(1)[OF step_kept[of False fp x a]] by simp
  from fatal_kept_trans[OF this Cons.IH] show ?case by (simp add: run_service_def)
qed (simp add: run_service_def)

text \<open>The identifiers a run draws are new, and no key is deleted or re-read.\<close>

definition fresh_ids :: "acct_input list \<Rightarrow> acct \<Rightarrow> bool" where
  "fresh_ids xs a \<longleftrightarrow> distinct (concat (map drawn xs)) \<and>
     list_all (\<lambda>sid. dict_get (ac_sessions a) sid = None) (concat (map drawn xs))"

definition undisturbed :: "acct_input list \<Rightarrow> acct \<Rightarrow> bool" where
  "undisturbed xs a \<longleftrightarrow> ac_deleted a = [] \<and> list_all (\<lambda>x. \<not> rereads x) xs"

definition settled_ids :: "string set \<Rightarrow> acct \<Rightarrow> bool" where
  "settled_ids D a \<longleftrightarrow> (\<forall>sid\<in>D. \<forall>s. dict_get (ac_sessions a) sid = Some s \<longrightarrow> sn_ledger_done s)"

lemma charge_of_unsettled:
  assumes "charge_of fp x a = Some (sid, k, cost)"
  shows "\<exists>s. dict_get (ac_sessions a) sid = Some s \<and> \<not> sn_ledger_done s"
  using assms by (cases "(fp, x, a)" rule: charge_of.cases)
    (auto simp: liability_charge_def split: option.splits task_point.splits answer.splits if_splits)

lemma charge_of_drawn: "charge_of fp x a = Some y \<Longrightarrow> drawn x = []"
  by (cases x) simp_all

lemma step_sessions:
  assumes "sid \<notin> set (drawn x)" and "dict_get (ac_sessions (acct_step fp x a)) sid = Some s"
  shows "\<exists>s0. dict_get (ac_sessions a) sid = Some s0 \<and> (sn_ledger_done s0 \<longrightarrow> sn_ledger_done s)"
  using keptD(2)[OF step_kept[of False fp x a] assms] by auto

text \<open>One step: the spend of a known key moves by the charge of the step.\<close>

lemma step_charges:
  assumes b: "sound h a" and adm: "admissible x a" and nodel: "ac_deleted a = []" and nr: "\<not> rereads x"
    and c_def: "c = (case charge_of fp x a of None \<Rightarrow> [] | Some y \<Rightarrow> [y])"
  shows "ac_deleted (acct_step fp x a) = []" and "k \<in> set (ac_known a) \<Longrightarrow> k \<in> set (ac_known (acct_step fp x a))"
    and "k \<in> set (ac_known a) \<Longrightarrow> spent_of k (acct_step fp x a) = spent_of k a + charged_to k c"
    and "settled_ids (set (map fst c)) (acct_step fp x a)"
proof -
  have "ac_deleted (acct_step fp x a) = [] \<and> set (ac_known a) \<subseteq> set (ac_known (acct_step fp x a)) \<and>
    (\<forall>k\<in>set (ac_known a). spent_of k (acct_step fp x a) = spent_of k a + charged_to k c) \<and>
    settled_ids (set (map fst c)) (acct_step fp x a)"
  proof (cases "charge_of fp x a")
    case None
    have "kept (set (drawn x)) True a (acct_step fp x a)" by (rule step_kept) (use None nodel nr in simp)
    from keptD(3,4,5)[OF this TrueI nodel] show ?thesis
      by (simp add: c_def None charged_to_def settled_ids_def)
  next
    case (Some y)
    obtain sid j cost where y: "y = (sid, j, cost)" by (cases y)
    from charging_step[OF b adm Some[unfolded y] nodel] show ?thesis
      by (auto simp: c_def Some y charged_def charged_to_def settled_ids_def)
  qed
  then show "ac_deleted (acct_step fp x a) = []" "k \<in> set (ac_known a) \<Longrightarrow> k \<in> set (ac_known (acct_step fp x a))"
    "k \<in> set (ac_known a) \<Longrightarrow> spent_of k (acct_step fp x a) = spent_of k a + charged_to k c"
    "settled_ids (set (map fst c)) (acct_step fp x a)" by auto
qed

lemma charged_to_append [simp]: "charged_to k (xs @ ys) = charged_to k xs + charged_to k ys"
  by (simp add: charged_to_def)

lemma fresh_ids_Cons:
  assumes "fresh_ids (x # xs) a" shows "fresh_ids xs (acct_step fp x a)"
proof -
  have "dict_get (ac_sessions (acct_step fp x a)) sid = None" if "sid \<in> set (concat (map drawn xs))" for sid
  proof (rule ccontr)
    assume "dict_get (ac_sessions (acct_step fp x a)) sid \<noteq> None"
    moreover have "sid \<notin> set (drawn x)" using assms that by (auto simp: fresh_ids_def)
    ultimately have "dict_get (ac_sessions a) sid \<noteq> None" using step_sessions[of sid x fp a] by auto
    with assms that show False by (auto simp: fresh_ids_def list_all_iff)
  qed
  with assms show ?thesis by (simp add: fresh_ids_def list_all_iff)
qed

lemma run_charges:
  assumes "sound h a" and "admissible_run fp xs a" and "h \<Longrightarrow> list_all keeps_windows xs"
    and "undisturbed xs a" and "fresh_ids xs a"
    and "settled_ids D a" and "D \<inter> set (concat (map drawn xs)) = {}"
  shows "distinct (map fst (charges fp xs a)) \<and> D \<inter> set (map fst (charges fp xs a)) = {} \<and>
    (\<forall>k\<in>set (ac_known a). spent_of k (run_service fp xs a) = spent_of k a + charged_to k (charges fp xs a))"
  using assms
proof (induction xs arbitrary: a D)
  case Nil
  then show ?case by (simp add: run_service_def charged_to_def)
next
  case (Cons x xs)
  let ?a = "acct_step fp x a"
  define c where "c = (case charge_of fp x a of None \<Rightarrow> [] | Some y \<Rightarrow> [y])"
  have adm: "admissible x a" "admissible_run fp xs ?a" using Cons.prems(2) by simp_all
  have u: "ac_deleted a = []" "\<not> rereads x" "list_all (\<lambda>x. \<not> rereads x) xs" using Cons.prems(4) by (auto simp: undisturbed_def)
  note st = step_charges[OF Cons.prems(1) adm(1) u(1,2) c_def]
  have b: "sound h ?a" by (rule step_sound[OF Cons.prems(1) adm(1)]) (use Cons.prems(3) in simp)
  let ?E = "D \<union> set (map fst c)"
  have keepD: "settled_ids D ?a"
    unfolding settled_ids_def
  proof (intro ballI allI impI)
    fix sid s assume d: "sid \<in> D" and s: "dict_get (ac_sessions ?a) sid = Some s"
    then have "sid \<notin> set (drawn x)" using Cons.prems(7) by auto
    from step_sessions[OF this s] Cons.prems(6) d show "sn_ledger_done s" by (auto simp: settled_ids_def)
  qed
  have sE: "settled_ids ?E ?a" using keepD st(4) by (auto simp: settled_ids_def)
  have new: "sid \<notin> set (concat (map drawn xs)) \<and> sid \<notin> D" if c': "sid \<in> set (map fst c)" for sid
  proof -
    have "\<exists>k cost. charge_of fp x a = Some (sid, k, cost)" using c' by (cases "charge_of fp x a") (auto simp: c_def)
    then obtain k cost where y: "charge_of fp x a = Some (sid, k, cost)" by blast
    from charge_of_unsettled[OF y] obtain s where s: "dict_get (ac_sessions a) sid = Some s" "\<not> sn_ledger_done s" by blast
    have "sid \<notin> set (concat (map drawn xs))"
    proof
      assume "sid \<in> set (concat (map drawn xs))"
      with Cons.prems(5) s(1) show False by (auto simp: fresh_ids_def list_all_iff)
    qed
    moreover have "sid \<notin> D" using Cons.prems(6) s by (auto simp: settled_ids_def)
    ultimately show ?thesis by simp
  qed
  have dis: "?E \<inter> set (concat (map drawn xs)) = {}" using new Cons.prems(7) by auto
  have "undisturbed xs ?a" using st(1) u(3) by (simp add: undisturbed_def)
  from Cons.IH[OF b adm(2) _ this fresh_ids_Cons[OF Cons.prems(5)] sE dis] Cons.prems(3)
  have ih: "distinct (map fst (charges fp xs ?a))" "?E \<inter> set (map fst (charges fp xs ?a)) = {}"
    "\<forall>k\<in>set (ac_known ?a). spent_of k (run_service fp xs ?a) = spent_of k ?a + charged_to k (charges fp xs ?a)" by auto
  have ch: "charges fp (x # xs) a = c @ charges fp xs ?a" by (simp add: c_def)
  have d: "distinct (map fst c)" by (simp add: c_def split: option.split)
  have apart: "set (map fst c) \<inter> D = {}" using new by blast
  have "distinct (map fst (c @ charges fp xs ?a))" using ih(1,2) d by auto
  moreover have "D \<inter> set (map fst (c @ charges fp xs ?a)) = {}" using ih(2) apart by auto
  moreover have "\<forall>k\<in>set (ac_known a). spent_of k (run_service fp (x # xs) a) = spent_of k a + charged_to k (c @ charges fp xs ?a)"
    using ih(3) st(2,3) by (simp add: run_service_def)
  ultimately show ?case unfolding ch by blast
qed

end
