(* ===== verification/Accounting_Start.thy ===== *)
theory Accounting_Start
  imports Accounting_Projection
begin

text \<open>
  What a drain of the pending events does that reports to be clean (\<open>_drain_pending\<close> of
  \<open>services/accounting_service.py\<close>): which events the source listed, and what source and sink
  answered for each of them.
\<close>

section \<open>What source and sink said of an event\<close>

definition owed_to_sink :: "stored_event \<Rightarrow> bool" where
  "owed_to_sink st \<longleftrightarrow> ev_kind (st_event st) = Charge \<and> ev_api_key_id (st_event st) \<noteq> None"

text \<open>The source confirms that the event is projected.\<close>

definition confirms :: "(event \<Rightarrow> string) \<Rightarrow> stored_event \<Rightarrow> projection_mark option answer \<Rightarrow> bool" where
  "confirms fp st mark \<longleftrightarrow> (\<exists>m. mark = Answered (Some m) \<and>
     pm_event_id m = ev_event_id (st_event st) \<and> pm_fingerprint m = fp (st_event st) \<and> pm_projected_at m \<noteq> None)"

inductive event_projected :: "(event \<Rightarrow> string) \<Rightarrow> stored_event \<Rightarrow> project_answers \<Rightarrow> bool" for fp st pa where
  no_sink: "\<not> owed_to_sink st \<Longrightarrow> confirms fp st (pa_mark pa) \<Longrightarrow> event_projected fp st pa"
| in_sink: "owed_to_sink st \<Longrightarrow> pa_sink pa \<in> {Answered (Some ProjApplied), Answered (Some ProjAlreadyApplied)} \<Longrightarrow>
    confirms fp st (pa_mark pa) \<Longrightarrow> event_projected fp st pa"
| before: "owed_to_sink st \<Longrightarrow> pa_sink pa = Broke \<or> (\<exists>c. pa_sink pa = Refused c \<and> \<not> permanent_code c) \<Longrightarrow>
    confirms fp st (pa_failed_mark pa) \<Longrightarrow> event_projected fp st pa"

inductive event_tolerated :: "stored_event \<Rightarrow> project_answers \<Rightarrow> bool" for st pa where
  "owed_to_sink st \<Longrightarrow> pa_sink pa \<in> {Refused CodeOrphanSink, Refused CodeFingerprintConflict} \<Longrightarrow> event_tolerated st pa"

lemma mark_answer: "marked_answer fp ck st True mark = Answered m \<Longrightarrow> confirms fp st mark"
  by (auto simp: marked_answer_def validate_projection_mark_def confirms_def pending_key_def
      split: if_splits answer.splits option.splits)

lemma failed_mark_answer:
  "marked_answer fp ck st False mark = Answered m \<Longrightarrow> pm_projected_at m \<noteq> None \<Longrightarrow> confirms fp st mark"
  by (auto simp: marked_answer_def validate_projection_mark_def confirms_def pending_key_def
      split: if_splits answer.splits option.splits)

lemma clear_pending_pending [simp]: "gt_pending (clear_pending fp st g) = removeAll (pending_key fp st) (gt_pending g)"
  by (simp add: clear_pending_def)

lemma batch_size_kept [simp]:
  "gt_batch_size (record_error ck c p b g) = gt_batch_size g" "gt_batch_size (clear_pending fp st g) = gt_batch_size g"
  by (simp_all add: record_error_def count_error_def clear_pending_def clear_transient_block_def Let_def)

lemma mark_projected_clean:
  assumes "mark_projected fp ck st status mark g = (g', r)"
  shows "gt_batch_size g' = gt_batch_size g" and "set (gt_pending g') \<subseteq> set (gt_pending g)"
    and "r = ProjectedAs s \<Longrightarrow> s \<noteq> ProjPending \<Longrightarrow> confirms fp st mark \<and> pending_key fp st \<notin> set (gt_pending g')"
    and "r \<noteq> Tolerated c"
  using assms by (auto simp: mark_projected_def dest: mark_answer split: answer.splits if_splits)

lemma projection_failed_clean:
  assumes "projection_failed fp ck st error mark g = (g', r)"
  shows "gt_batch_size g' = gt_batch_size g" and "set (gt_pending g') \<subseteq> set (gt_pending g)"
    and "r = Inr True \<Longrightarrow> confirms fp st mark \<and> pending_key fp st \<notin> set (gt_pending g')"
proof -
  show "gt_batch_size g' = gt_batch_size g" "set (gt_pending g') \<subseteq> set (gt_pending g)"
    using assms by (auto simp: projection_failed_def Let_def split: answer.splits if_splits)
  show "confirms fp st mark \<and> pending_key fp st \<notin> set (gt_pending g')" if "r = Inr True"
    using assms that failed_mark_answer[of fp ck st mark]
    by (auto simp: projection_failed_def Let_def split: answer.splits if_splits)
qed

lemma sink_refused_clean:
  assumes "sink_refused fp ck st c pa g = (g', r)"
  shows "gt_batch_size g' = gt_batch_size g" and "set (gt_pending g') \<subseteq> set (gt_pending g)"
    and "r = ProjectedAs s \<Longrightarrow> s \<noteq> ProjPending \<Longrightarrow>
      \<not> permanent_code c \<and> confirms fp st (pa_failed_mark pa) \<and> pending_key fp st \<notin> set (gt_pending g')"
    and "r = Tolerated d \<Longrightarrow> c \<in> {CodeOrphanSink, CodeFingerprintConflict}"
proof -
  obtain h q where f: "projection_failed fp ck st c (pa_failed_mark pa) g = (h, q)" by fastforce
  note clean = projection_failed_clean[OF f]
  show "gt_batch_size g' = gt_batch_size g" "set (gt_pending g') \<subseteq> set (gt_pending g)"
    using assms clean by (auto simp: sink_refused_def f split: sum.splits)
  show "\<not> permanent_code c \<and> confirms fp st (pa_failed_mark pa) \<and> pending_key fp st \<notin> set (gt_pending g')"
    if "r = ProjectedAs s" "s \<noteq> ProjPending"
    using assms that clean(3) by (auto simp: sink_refused_def f split: sum.splits if_splits)
  show "c \<in> {CodeOrphanSink, CodeFingerprintConflict}" if "r = Tolerated d"
    using assms that by (auto simp: sink_refused_def f TOLERATED_SINK_CODES_def split: sum.splits if_splits)
qed

lemma project_stored_clean:
  assumes "project_stored fp ck st pa g = (g', r)"
  shows "gt_batch_size g' = gt_batch_size g \<and> set (gt_pending g') \<subseteq> set (gt_pending g) \<and>
    (case r of ProjectedAs s \<Rightarrow> s = ProjPending \<or> (event_projected fp st pa \<and> pending_key fp st \<notin> set (gt_pending g'))
     | Tolerated c \<Rightarrow> event_tolerated st pa | ProjectRefused c \<Rightarrow> True)"
proof -
  let ?g = "g\<lparr>gt_attempts := gt_attempts g + 1\<rparr>"
  consider (no_time) "ck_wall ck = None"
    | (no_sink) "ck_wall ck \<noteq> None" "\<not> owed_to_sink st"
    | (refused) c where "ck_wall ck \<noteq> None" "owed_to_sink st" "pa_sink pa = Refused c"
    | (broke) "ck_wall ck \<noteq> None" "owed_to_sink st" "pa_sink pa = Broke"
    | (applied) s where "ck_wall ck \<noteq> None" "owed_to_sink st" "pa_sink pa = Answered (Some s)" "s \<in> {ProjApplied, ProjAlreadyApplied}"
    | (odd) v where "ck_wall ck \<noteq> None" "owed_to_sink st" "pa_sink pa = Answered v" "v \<notin> {Some ProjApplied, Some ProjAlreadyApplied}"
    by (cases "pa_sink pa") (metis insert_iff option.exhaust singleton_iff)+
  then show ?thesis
  proof cases
    case no_time
    with assms show ?thesis by (auto simp: project_stored_def Let_def)
  next
    case no_sink
    then have m: "mark_projected fp ck st ProjNoSink (pa_mark pa) ?g = (g', r)"
      using assms by (auto simp: project_stored_def owed_to_sink_def)
    note clean = mark_projected_clean[OF m]
    show ?thesis using clean(1,2,4) clean(3) no_sink event_projected.no_sink by (auto split: project_result.split)
  next
    case (refused c)
    then have m: "sink_refused fp ck st c pa ?g = (g', r)"
      using assms by (auto simp: project_stored_def owed_to_sink_def)
    note clean = sink_refused_clean[OF m]
    show ?thesis using clean(1,2) clean(3,4) refused
      by (auto simp: event_tolerated.simps intro!: event_projected.before split: project_result.split)
  next
    case broke
    obtain h q where f: "projection_failed fp ck st CodeProjectionWriteFailed (pa_failed_mark pa) ?g = (h, q)" by fastforce
    note clean = projection_failed_clean[OF f]
    show ?thesis using assms f clean(1,2) clean(3) broke
      by (auto simp: project_stored_def owed_to_sink_def intro!: event_projected.before split: sum.splits if_splits)
  next
    case (applied s)
    then have m: "mark_projected fp ck st s (pa_mark pa) ?g = (g', r)"
      using assms by (auto simp: project_stored_def owed_to_sink_def)
    note clean = mark_projected_clean[OF m]
    show ?thesis using clean(1,2,4) clean(3) applied
      by (auto intro!: event_projected.in_sink split: project_result.split)
  next
    case (odd v)
    obtain h q where f: "projection_failed fp ck st CodeInvalidContract (pa_failed_mark pa) ?g = (h, q)" by fastforce
    note clean = projection_failed_clean[OF f]
    show ?thesis using assms f clean(1,2) odd
      by (auto simp: project_stored_def owed_to_sink_def split: sum.splits if_splits)
  qed
qed

section \<open>A clean drain\<close>

text \<open>The events the source lists from a cursor on, page by page, up to the first page that is not full.\<close>

inductive listed :: "((py_datetime \<times> string) option \<Rightarrow> stored_event list option answer) \<Rightarrow> int \<Rightarrow>
    (py_datetime \<times> string) option \<Rightarrow> stored_event list \<Rightarrow> bool" for listing batch where
  last_page: "listing after = Answered (Some page) \<Longrightarrow> page = [] \<or> int (length page) < batch \<Longrightarrow> listed listing batch after page"
| full_page: "listing after = Answered (Some page) \<Longrightarrow> page \<noteq> [] \<Longrightarrow> int (length page) = batch \<Longrightarrow>
    listed listing batch (Some (cursor_of (last page))) rows \<Longrightarrow> listed listing batch after (page @ rows)"

definition drained :: "(event \<Rightarrow> string) \<Rightarrow> (stored_event \<Rightarrow> clock \<times> project_answers) \<Rightarrow> stored_event list \<Rightarrow> bool \<Rightarrow> bool \<Rightarrow>
    gate \<Rightarrow> gate \<Rightarrow> bool" where
  "drained fp answers rows tolerated tolerated' g g' \<longleftrightarrow> gt_batch_size g' = gt_batch_size g \<and>
     (\<forall>st\<in>set rows. event_projected fp st (snd (answers st)) \<or> event_tolerated st (snd (answers st))) \<and>
     (tolerated' \<longrightarrow> tolerated \<or> (\<exists>st\<in>set rows. event_tolerated st (snd (answers st)))) \<and>
     (\<forall>k\<in>set (gt_pending g'). k \<in> set (gt_pending g) \<or>
       (\<exists>st\<in>set rows. event_tolerated st (snd (answers st)) \<and> k = pending_key fp st))"

lemma drained_Nil: "drained fp answers [] tolerated tolerated g g"
  by (simp add: drained_def)

lemma drained_append:
  "drained fp answers rows t0 t1 g h \<Longrightarrow> drained fp answers rows' t1 t2 h i \<Longrightarrow> drained fp answers (rows @ rows') t0 t2 g i"
  unfolding drained_def by (simp add: ball_Un bex_Un) blast

lemma drain_rows_clean:
  "drain_rows fp answers rows clean tolerated g = (g', Answered (True, tolerated')) \<Longrightarrow>
   clean \<and> drained fp answers rows tolerated tolerated' g g'"
proof (induction rows arbitrary: clean tolerated g)
  case Nil
  then show ?case by (simp add: drained_Nil)
next
  case (Cons st rows)
  obtain ck pa where an: "answers st = (ck, pa)" by fastforce
  let ?g1 = "g\<lparr>gt_pending := List.insert (pending_key fp st) (gt_pending g)\<rparr>"
  have marked: "mark_pending fp st g = (?g1, Answered ())"
    using Cons.prems by (simp add: mark_pending_def split: if_splits)
  obtain g2 r where p: "project_stored fp ck st pa ?g1 = (g2, r)" by fastforce
  note clean = project_stored_clean[OF p]
  show ?case
  proof (cases r)
    case (ProjectedAs s)
    have rest: "drain_rows fp answers rows (clean \<and> s \<noteq> ProjPending) tolerated g2 = (g', Answered (True, tolerated'))"
      using Cons.prems ProjectedAs by (simp add: marked an p)
    note IH = Cons.IH[OF rest]
    have "drained fp answers [st] tolerated tolerated g g2"
      using clean ProjectedAs IH an by (auto simp: drained_def)
    from drained_append[OF this] IH show ?thesis by simp
  next
    case (Tolerated c)
    have rest: "drain_rows fp answers rows clean True (record_error ck c False False g2) = (g', Answered (True, tolerated'))"
      using Cons.prems Tolerated by (simp add: marked an p)
    note IH = Cons.IH[OF rest]
    have "drained fp answers [st] tolerated True g (record_error ck c False False g2)"
      using clean Tolerated an by (auto simp: drained_def)
    from drained_append[OF this] IH show ?thesis by simp
  next
    case (ProjectRefused c)
    show ?thesis
    proof (cases "permanent_code c")
      case False
      then have "drain_rows fp answers rows False tolerated g2 = (g', Answered (True, tolerated'))"
        using Cons.prems ProjectRefused by (simp add: marked an p)
      from Cons.IH[OF this] show ?thesis by simp
    qed (use Cons.prems ProjectRefused in \<open>simp add: marked an p\<close>)
  qed
qed

lemma valid_page: "validate_pending_page n rows after = Answered page \<Longrightarrow> rows = Some page \<and> int (length page) \<le> n"
  by (auto simp: validate_pending_page_def split: option.splits if_splits)

lemma drain_clean:
  assumes "drain_pending fp listing answers after clean tolerated g = Some (g', Answered (True, tolerated'))"
  shows "clean \<and> (\<exists>rows. listed listing (gt_batch_size g) after rows \<and> drained fp answers rows tolerated tolerated' g g')"
proof -
  define Q where "Q = (\<lambda>fp listing answers after clean tolerated (g :: gate) (y :: gate \<times> (bool \<times> bool) answer).
    \<forall>g' tolerated'. y = (g', Answered (True, tolerated')) \<longrightarrow> clean \<and>
      (\<exists>rows. listed listing (gt_batch_size g) after rows \<and> drained fp answers rows tolerated tolerated' g g'))"
  have "Q fp listing answers after clean tolerated g (g', Answered (True, tolerated'))"
  proof (rule drain_pending.raw_induct[where P = Q])
    fix drain fp listing answers after clean tolerated g y
    assume IH: "\<And>fp listing answers after clean tolerated g y.
        drain fp listing answers after clean tolerated g = Some y \<Longrightarrow> Q fp listing answers after clean tolerated g y"
      and body: "(case (case listing after of
              Answered rows \<Rightarrow> validate_pending_page (gt_batch_size g) rows after
            | Refused c \<Rightarrow> Refused c
            | Broke \<Rightarrow> Refused CodeSourceWriteFailed) of
        Answered rows \<Rightarrow>
          if rows = [] then Some (g, Answered (clean, tolerated))
          else case drain_rows fp answers rows clean tolerated g of
            (g1, Answered (clean1, tolerated1)) \<Rightarrow>
              if int (length rows) < gt_batch_size g then Some (g1, Answered (clean1, tolerated1))
              else drain fp listing answers (Some (cursor_of (last rows))) clean1 tolerated1 g1
          | (g1, Refused c) \<Rightarrow> Some (g1, Refused c)
          | (g1, Broke) \<Rightarrow> Some (g1, Broke)
      | Refused c \<Rightarrow> Some (g, Refused c)
      | Broke \<Rightarrow> Some (g, Refused CodeSourceWriteFailed)) = Some y"
    show "Q fp listing answers after clean tolerated g y"
      unfolding Q_def
    proof (intro allI impI)
      fix g' tolerated'
      assume y: "y = (g', Answered (True, tolerated'))"
      then obtain page where page: "listing after = Answered (Some page)" "int (length page) \<le> gt_batch_size g"
        and valid: "(case listing after of
              Answered rows \<Rightarrow> validate_pending_page (gt_batch_size g) rows after
            | Refused c \<Rightarrow> Refused c
            | Broke \<Rightarrow> Refused CodeSourceWriteFailed) = Answered page"
        using body by (auto split: answer.splits dest: valid_page)
      note body = body[unfolded valid answer.simps y]
      show "clean \<and> (\<exists>rows. listed listing (gt_batch_size g) after rows \<and> drained fp answers rows tolerated tolerated' g g')"
      proof (cases "page = []")
        case True
        with body listed.last_page[of listing after page "gt_batch_size g"] page(1) show ?thesis
          using drained_Nil[of fp answers tolerated g] by auto
      next
        case False
        then obtain g1 clean1 tolerated1 where rows: "drain_rows fp answers page clean tolerated g = (g1, Answered (clean1, tolerated1))"
          using body by (auto split: answer.splits prod.splits)
        show ?thesis
        proof (cases "int (length page) < gt_batch_size g")
          case True
          with body rows False have "drain_rows fp answers page clean tolerated g = (g', Answered (True, tolerated'))" by simp
          with drain_rows_clean[OF this] listed.last_page[of listing after page "gt_batch_size g"] page(1) True show ?thesis by blast
        next
          case full: False
          with body rows False have "drain fp listing answers (Some (cursor_of (last page))) clean1 tolerated1 g1 =
              Some (g', Answered (True, tolerated'))" by simp
          from IH[OF this] obtain rest where clean1: "clean1"
            and rest: "listed listing (gt_batch_size g1) (Some (cursor_of (last page))) rest" "drained fp answers rest tolerated1 tolerated' g1 g'"
            unfolding Q_def by blast
          with rows have first: "clean" "drained fp answers page tolerated tolerated1 g g1" using drain_rows_clean by fastforce+
          then have "listed listing (gt_batch_size g) after (page @ rest)"
            using listed.full_page[of listing after page "gt_batch_size g" rest] page False full rest(1) by (simp add: drained_def)
          with first drained_append[OF first(2) rest(2)] show ?thesis by blast
        qed
      qed
    qed
  qed (rule assms)
  then show ?thesis by (simp add: Q_def)
qed

end
