(* ===== verification/Accounting_Guarantees.thy ===== *)
theory Accounting_Guarantees
  imports Accounting_Runs Accounting_Start
begin

text \<open>
  What the accounting service promises over whole runs: its books balance, a session is charged once
  and its settlement cannot fail, a fatal error closes admission for good, and the gate opens after a
  clean drain and audit only. Also three runs that show where it goes wrong. The \<open>demo_\<close> definitions
  are the concrete inputs of the witnesses and of these runs.
\<close>

section \<open>Concrete inputs\<close>

definition demo_usage :: "rat \<Rightarrow> usage" where
  "demo_usage cost = \<lparr>us_prompt = 2, us_completion = 1, us_total = 3, us_reasoning = 0, us_cached = 0,
     us_cost = cost, us_cost_saved = 0, us_duration_ms = None, us_ttft_ms = None, us_is_estimated = False,
     us_cost_unavailable = False\<rparr>"

definition demo_event :: "string \<Rightarrow> string \<Rightarrow> int \<Rightarrow> rat \<Rightarrow> event" where
  "demo_event i q k cost = \<lparr>ev_event_id = i, ev_kind = Charge, ev_api_key_id = Some k, ev_method = ''POST'',
     ev_route = ''r'', ev_operation = ''chat'', ev_gateway_model = ''m'', ev_provider = None, ev_model = None,
     ev_usage = demo_usage cost, ev_cost_source = SrcUpstream, ev_occurred_at = Instant 0, ev_request_id = Some q,
     ev_parent_event_id = None, ev_components = [], ev_child_event_ids = [], ev_child_fingerprints = [],
     ev_upstream_key = None, ev_x_title = None, ev_client_ip = None, ev_user_agent = None, ev_fallback_depth = None\<rparr>"

definition demo_stored :: "event \<Rightarrow> stored_event" where
  "demo_stored e = \<lparr>st_event = e, st_usage_row_id = Some 1, st_created_at = Instant 0, st_projected_at = None,
     st_projection_attempts = 0, st_last_attempt_at = None, st_last_error = None\<rparr>"

definition demo_accept :: "event \<Rightarrow> acceptance option answer" where
  "demo_accept e = Answered (Some \<lparr>acc_status = SourceAccepted, acc_stored = demo_stored e\<rparr>)"

definition demo_clock :: clock where
  "demo_clock = \<lparr>ck_mono = 1, ck_wall = Some (Instant 1)\<rparr>"

definition demo_answers :: "event \<Rightarrow> project_answers" where
  "demo_answers e = \<lparr>pa_sink = Answered (Some ProjApplied), pa_failed_mark = Broke,
     pa_mark = Answered (Some \<lparr>pm_event_id = ev_event_id e, pm_fingerprint = ev_event_id e,
       pm_projected_at = Some (Instant 1), pm_attempts = 1, pm_last_attempt_at = None, pm_last_error = None\<rparr>)\<rparr>"

definition demo_report :: reconciliation_report where
  "demo_report = \<lparr>rr_mode = ReconcileFull, rr_source_rows_scanned = 0, rr_sink_rows_scanned = 0, rr_retained_events = 0,
     rr_pending_source_events = 0, rr_usage_without_outbox = 0, rr_pending_without_usage = 0,
     rr_projected_without_receipt = 0, rr_receipt_without_source = 0, rr_unexpected_receipts = 0,
     rr_fingerprint_mismatches = 0, rr_api_key_mismatches = 0, rr_cost_mismatches = 0, rr_owner_orphans = 0,
     rr_unrolled_children = 0\<rparr>"

definition demo_reserve :: "string \<Rightarrow> int \<Rightarrow> rat \<Rightarrow> acct_input" where
  "demo_reserve q k estimate = InReserve demo_clock (q @ ''#'') \<lparr>ra_request_id = q, ra_api_key_id = Some (PyInt k),
     ra_budget = Some (PyFloat 10), ra_spent = PyFloat 0, ra_rpm = None, ra_tpm = None, ra_estimate = PyFloat estimate\<rparr>"

definition demo_reservation :: "string \<Rightarrow> int \<Rightarrow> rat \<Rightarrow> reservation" where
  "demo_reservation q k estimate = \<lparr>rv_reservation_id = q @ ''#'', rv_request_id = q, rv_api_key_id = Some k,
     rv_reserved_usd = estimate\<rparr>"

definition demo_service :: acct where
  "demo_service = new_service 8 2 4 4"

definition demo_start :: "acct_input list" where
  "demo_start = [InStart True, InStarted demo_clock (\<lambda>_. Answered (Some [])) (\<lambda>st. (demo_clock, demo_answers (st_event st)))
     (Answered (Some demo_report)) True]"

definition demo_commit :: "acct_input list" where
  "demo_commit = [demo_reserve ''q'' 1 2, InCommit (demo_reservation ''q'' 1 2) (demo_event ''e'' ''q'' 1 3) True,
     InAccepted demo_clock ''q#'' (demo_accept (demo_event ''e'' ''q'' 1 3)),
     InProjected demo_clock ''q#'' (demo_answers (demo_event ''e'' ''q'' 1 3))]"

section \<open>Reachable states\<close>

lemma reachable_sound: "0 \<le> n \<Longrightarrow> admissible_run fp xs (new_service m b n w) \<Longrightarrow> sound False (run_service fp xs (new_service m b n w))"
  unfolding run_service_def by (rule service_run.run_invar) (rule new_service_sound)

lemma windowed_sound: "0 \<le> n \<Longrightarrow> windowed_run fp xs (new_service m b n w) \<Longrightarrow> sound True (run_service fp xs (new_service m b n w))"
  unfolding run_service_def by (rule windowed.run_invar) (rule new_service_sound)

lemma admissible_run_append:
  "admissible_run fp (xs @ ys) a \<longleftrightarrow> admissible_run fp xs a \<and> admissible_run fp ys (run_service fp xs a)"
  by (induction xs arbitrary: a) (auto simp: run_service_def)

text \<open>After a settlement that answers, both halves of the session are settled.\<close>

lemma settle_applies:
  assumes s: "dict_get (ac_sessions a) sid = Some s" and ok: "settle_session ck sid s charge cost n a = (a1, Answered ())"
  shows "\<exists>s1. dict_get (ac_sessions a1) sid = Some s1 \<and> liability_applied s1"
proof (cases "session_key s")
  case None
  with ok show ?thesis by (auto simp: settle_session_def liability_applied_def put_session_def dict_get_set split: if_splits)
next
  case (Some k)
  obtain a2 r where l: "settle_ledger sid (s\<lparr>sn_charge := Some charge\<rparr>) k cost a = (a2, r)" by fastforce
  with ok Some obtain s2 where r: "r = Answered s2" and lim: "settle_limiter ck sid s2 k n a2 = (a1, Answered ())"
    by (cases r) (auto simp: settle_session_def Let_def split: if_splits)
  have s2: "dict_get (ac_sessions a2) sid = Some s2 \<and> sn_ledger_done s2"
    using l unfolding r settle_ledger_def
    by (auto simp: put_session_def dict_get_set split: if_splits prod.splits sum.splits bool.splits)
  with lim show ?thesis
    by (auto simp: settle_limiter_def put_session_def dict_get_set liability_applied_def
        split: if_splits prod.splits sum.splits bool.splits)
qed

section \<open>Properties\<close>

text \<open>C4: The books of the accounting service balance in every reachable state: the cap on sessions holds,
  the request index names exactly the live sessions, the active count of a key is the number of its
  live sessions, and the ledger reserves for a key and a request exactly what its unsettled session
  reserved - nothing is lost and nothing leaks, whatever fails and in whatever order tasks run.\<close>

theorem books_balance:
  assumes "0 \<le> n" and "admissible_run fp xs (new_service m b n w)" and "a = run_service fp xs (new_service m b n w)"
  shows "int (length (ac_sessions a)) \<le> ac_max_sessions a \<and>
    (dict_get (ac_by_request a) q = Some sid \<longleftrightarrow> (\<exists>s. dict_get (ac_sessions a) sid = Some s \<and> session_request s = q)) \<and>
    dict_default 0 (ac_active a) k = int (length (filter (\<lambda>p. session_key (snd p) = Some k) (ac_sessions a))) \<and>
    (resv (ac_ledger a) k q = Some v \<longleftrightarrow> (\<exists>sid s. dict_get (ac_sessions a) sid = Some s \<and>
      session_key s = Some k \<and> session_request s = q \<and> \<not> sn_ledger_done s \<and> v = rv_reserved_usd (sn_reservation s)))"
proof (intro conjI)
  note bk = soundD(2)[OF reachable_sound[OF assms(1,2), folded assms(3)]]
  note link = booksD(1)[OF bk]
  show "int (length (ac_sessions a)) \<le> ac_max_sessions a" by (rule booksD(3)[OF bk])
  show "dict_get (ac_by_request a) q = Some sid \<longleftrightarrow> (\<exists>s. dict_get (ac_sessions a) sid = Some s \<and> session_request s = q)"
    using linkedD(2)[OF link] by (auto elim: linked_indexE[OF link])
  have "live_count k S = int (length (filter (\<lambda>p. session_key (snd p) = Some k) S))" for S
    by (induction S) (auto simp: live_count_def keyed_def)
  moreover have "dict_default 0 (ac_active a) k = live_count k (ac_sessions a)"
    using booksD(2)[OF bk] by (simp add: counts_match_def dict_default_def)
  ultimately show "dict_default 0 (ac_active a) k = int (length (filter (\<lambda>p. session_key (snd p) = Some k) (ac_sessions a)))"
    by simp
  show "resv (ac_ledger a) k q = Some v \<longleftrightarrow> (\<exists>sid s. dict_get (ac_sessions a) sid = Some s \<and>
      session_key s = Some k \<and> session_request s = q \<and> \<not> sn_ledger_done s \<and> v = rv_reserved_usd (sn_reservation s))"
  proof
    assume r: "resv (ac_ledger a) k q = Some v"
    with booksD(6)[OF bk] obtain sid s where s: "dict_get (ac_sessions a) sid = Some s" "session_key s = Some k"
      "session_request s = q" "\<not> sn_ledger_done s" by (auto elim: no_leakE)
    from coveredD[OF booksD(5)[OF bk] s(1,2,4)] r s show "\<exists>sid s. dict_get (ac_sessions a) sid = Some s \<and>
      session_key s = Some k \<and> session_request s = q \<and> \<not> sn_ledger_done s \<and> v = rv_reserved_usd (sn_reservation s)" by auto
  qed (use coveredD[OF booksD(5)[OF bk]] in auto)
qed

theorem books_balance_witness:
  "resv (ac_ledger (run_service ev_event_id (demo_start @ [demo_reserve ''q'' 1 2]) demo_service)) 1 ''q'' = Some 2"
proof -
  define a where "a = run_service ev_event_id (demo_start @ [demo_reserve ''q'' 1 2]) demo_service"
  have adm: "admissible_run ev_event_id (demo_start @ [demo_reserve ''q'' 1 2]) (new_service 8 2 4 4)" by code_simp
  have s: "dict_get (ac_sessions a) ''q#'' = Some (new_session (demo_reservation ''q'' 1 2))"
    unfolding a_def by code_simp
  have "resv (ac_ledger a) 1 ''q'' = Some 2 \<longleftrightarrow> (\<exists>sid s. dict_get (ac_sessions a) sid = Some s \<and>
      session_key s = Some 1 \<and> session_request s = ''q'' \<and> \<not> sn_ledger_done s \<and> 2 = rv_reserved_usd (sn_reservation s))"
    using books_balance[OF _ adm, of a "''q''" _ 1 2] by (simp add: a_def demo_service_def)
  with s show ?thesis by (fastforce simp: a_def new_session_def demo_reservation_def)
qed

text \<open>C3: A request session is charged exactly once. From any reachable state, over any further run in which
  no key is re-read from the database or deleted, the spend of every known key grows by exactly the
  sum of the logged charges of its sessions, and no session is logged twice - whether the commit, the
  projector's retry, or a follower settles it, and whatever is repeated or fails in between.\<close>

theorem charged_exactly_once:
  assumes "0 \<le> n" and "admissible_run fp (xs @ ys) (new_service m b n w)"
    and "a = run_service fp xs (new_service m b n w)" and "undisturbed ys a" and "fresh_ids ys a"
    and "k \<in> set (ac_known a)"
  shows "spent_of k (run_service fp ys a) = spent_of k a + charged_to k (charges fp ys a) \<and>
    distinct (map fst (charges fp ys a))"
proof -
  have adm: "admissible_run fp xs (new_service m b n w)" "admissible_run fp ys a"
    using assms(2,3) by (simp_all add: admissible_run_append)
  from run_charges[OF reachable_sound[OF assms(1) adm(1), folded assms(3)] adm(2) _ assms(4,5), of "{}"] assms(6)
  show ?thesis by (auto simp: settled_ids_def)
qed

theorem charged_exactly_once_witness:
  "spent_of 1 (run_service ev_event_id (drop 1 demo_commit) (run_service ev_event_id (demo_start @ take 1 demo_commit) demo_service)) = 3 \<and>
   distinct (map fst (charges ev_event_id (drop 1 demo_commit) (run_service ev_event_id (demo_start @ take 1 demo_commit) demo_service)))"
proof -
  define a where "a = run_service ev_event_id (demo_start @ take 1 demo_commit) (new_service 8 2 4 4)"
  have adm: "admissible_run ev_event_id ((demo_start @ take 1 demo_commit) @ drop 1 demo_commit) (new_service 8 2 4 4)" by code_simp
  have u: "undisturbed (drop 1 demo_commit) a" unfolding a_def by code_simp
  have f: "fresh_ids (drop 1 demo_commit) a" unfolding a_def by code_simp
  have k: "1 \<in> set (ac_known a)" unfolding a_def by code_simp
  have s0: "spent_of 1 a = 0" unfolding a_def by code_simp
  have ch: "charges ev_event_id (drop 1 demo_commit) a = [(''q#'', 1, 3)]" unfolding a_def by code_simp
  from charged_exactly_once[OF _ adm a_def u f k] s0 ch show ?thesis
    by (simp add: a_def demo_service_def charged_to_def)
qed

text \<open>C6: Settling a session cannot fail. In every state reached without a change of rate limits, the charge
  of an accepted event on the live session that committed it always succeeds, settles the session in
  the ledger and in the rate limiter, and applying it again changes nothing.\<close>

theorem settlement_succeeds:
  assumes "0 \<le> n" and "windowed_run fp xs (new_service m b n w)" and "a = run_service fp xs (new_service m b n w)"
    and "dict_get (ac_sessions a) sid = Some s" and "sn_event_key s = Some (pending_key fp (acc_stored acc))"
    and "chargeable (st_event (acc_stored acc)) a" and "sn_charge s = None"
    and "a1 = fst (apply_session_liability fp ck sid acc a)"
  shows "snd (apply_session_liability fp ck sid acc a) = Answered () \<and>
    apply_session_liability fp ck' sid acc' a1 = (a1, Answered ())"
proof (intro conjI)
  have b: "sound True a" unfolding assms(3) by (rule windowed_sound[OF assms(1,2)])
  define charge where "charge = (acc_status acc = SourceAccepted \<or> acc_status acc = SourceRecovered)"
  define cost where "cost = (if charge \<and> ev_kind (st_event (acc_stored acc)) = Charge
     then Some (us_cost (ev_usage (st_event (acc_stored acc)))) else None)"
  define tokens where "tokens = (if charge \<and> ev_kind (st_event (acc_stored acc)) = Charge
     then us_total (ev_usage (st_event (acc_stored acc))) else 0)"
  have ok: "0 \<le> c \<and> list_all (\<lambda>p. \<not> float_overflow (le_spent_usd (snd p) + c)) (ac_ledger a)" if "cost = Some c" for c
    using that assms(6) by (auto simp: cost_def chargeable_def split: if_splits)
  have tok: "0 \<le> tokens" using assms(6) by (simp add: tokens_def chargeable_def)
  have ap: "apply_session_liability fp ck sid acc a =
      (if liability_applied s then (a, Answered ()) else settle_session ck sid s charge cost tokens a)"
    using assms(4,5) by (auto simp: apply_session_liability_def Let_def charge_def cost_def tokens_def)
  obtain a2 r where st: "settle_session ck sid s charge cost tokens a = (a2, r)" by fastforce
  have r: "r = Answered ()" using settle_sound(2)[OF b assms(4) ok _ tok, where charge = charge and ck = ck and cost = cost] assms(7) st by simp
  show "snd (apply_session_liability fp ck sid acc a) = Answered ()" by (simp add: ap st r)
  have "\<exists>s1. dict_get (ac_sessions a1) sid = Some s1 \<and> liability_applied s1"
    using settle_applies[OF assms(4)] st r assms(4) by (auto simp: assms(8) ap)
  then show "apply_session_liability fp ck' sid acc' a1 = (a1, Answered ())" by (auto simp: apply_session_liability_def)
qed

theorem settlement_succeeds_witness:
  "snd (apply_session_liability ev_event_id demo_clock ''q#''
     \<lparr>acc_status = SourceAccepted, acc_stored = demo_stored (demo_event ''e'' ''q'' 1 3)\<rparr>
     (run_service ev_event_id (demo_start @ take 2 demo_commit) demo_service)) = Answered ()"
proof -
  define a where "a = run_service ev_event_id (demo_start @ take 2 demo_commit) (new_service 8 2 4 4)"
  define s where "s = (new_session (demo_reservation ''q'' 1 2))\<lparr>sn_state := SCommitting,
     sn_event_key := Some (''e'', ''e''), sn_owned := True, sn_retry := Some None\<rparr>"
  define acc where "acc = \<lparr>acc_status = SourceAccepted, acc_stored = demo_stored (demo_event ''e'' ''q'' 1 3)\<rparr>"
  have w: "windowed_run ev_event_id (demo_start @ take 2 demo_commit) (new_service 8 2 4 4)" by code_simp
  have s: "dict_get (ac_sessions a) ''q#'' = Some s" unfolding a_def s_def by code_simp
  have key: "sn_event_key s = Some (pending_key ev_event_id (acc_stored acc))" "sn_charge s = None"
    unfolding s_def acc_def by code_simp+
  have ok: "chargeable (st_event (acc_stored acc)) a" unfolding a_def acc_def by code_simp
  from settlement_succeeds[OF _ w a_def s key(1) ok key(2) refl] show ?thesis
    by (simp add: a_def acc_def demo_service_def)
qed

text \<open>C5: Admission is open only while the service runs without a fatal error, and a fatal error is final:
  once one is recorded, no later input clears it, whatever drains, reconciliations, retries or starts
  follow, and from then on every reservation is refused and so is every event that is recorded without a
  session (\<open>record\<close>). A commit of a session that was reserved before is not refused by the gate: \<open>commit\<close>
  does not ask it.\<close>

theorem fatal_error_is_final:
  assumes "0 \<le> n" and "admissible_run fp (xs @ ys) (new_service m b n w)"
    and "a = run_service fp xs (new_service m b n w)" and "a1 = run_service fp ys a"
  shows "(gt_accepting (ac_gate a) \<longrightarrow> gt_state (ac_gate a) = HRunning \<and> gt_fatal (ac_gate a) = None) \<and>
    (gt_fatal (ac_gate a) \<noteq> None \<longrightarrow> gt_fatal (ac_gate a1) \<noteq> None \<and> \<not> gt_accepting (ac_gate a1) \<and>
      reserve_session ck token ra a1 \<noteq> (a2, Answered r) \<and> record_begin fp e sp a1 = (a1, Refused CodeAccountingFailed))"
proof (intro conjI impI)
  have run: "run_service fp (xs @ ys) (new_service m b n w) = a1" by (simp add: assms(3,4) run_service_def)
  have adm: "admissible_run fp xs (new_service m b n w)" using assms(2) by (simp add: admissible_run_append)
  have ok: "gate_ok (ac_gate a)" using soundD(1)[OF reachable_sound[OF assms(1) adm]] by (simp add: assms(3))
  have ok1: "gate_ok (ac_gate a1)" using soundD(1)[OF reachable_sound[OF assms(1,2)]] by (simp add: run)
  show "gt_state (ac_gate a) = HRunning" "gt_fatal (ac_gate a) = None" if "gt_accepting (ac_gate a)"
    using ok that by (auto simp: gate_ok_def)
  assume "gt_fatal (ac_gate a) \<noteq> None"
  with run_fatal[of a fp ys] have f: "gt_fatal (ac_gate a1) \<noteq> None" by (simp add: fatal_kept_def assms(4))
  with ok1 have c: "\<not> gt_accepting (ac_gate a1)" by (auto simp: gate_ok_def)
  with f show "gt_fatal (ac_gate a1) \<noteq> None" "\<not> gt_accepting (ac_gate a1)"
    "reserve_session ck token ra a1 \<noteq> (a2, Answered r)" "record_begin fp e sp a1 = (a1, Refused CodeAccountingFailed)"
    by (auto simp: reserve_session_def admit_session_def record_begin_def Let_def split: answer.splits)
qed

definition demo_conflict :: "acct_input list" where
  "demo_conflict = demo_start @ take 2 demo_commit @ [InAccepted demo_clock ''q#'' (Refused CodeFingerprintConflict)]"

theorem fatal_error_is_final_witness:
  "gt_accepting (ac_gate (run_service ev_event_id demo_start demo_service)) \<and>
   gt_fatal (ac_gate (run_service ev_event_id demo_start demo_service)) = None \<and>
   \<not> gt_accepting (ac_gate (run_service ev_event_id [InReconcile True, InStart True] (run_service ev_event_id demo_conflict demo_service)))"
proof -
  define a where "a = run_service ev_event_id demo_start (new_service 8 2 4 4)"
  define b where "b = run_service ev_event_id demo_conflict (new_service 8 2 4 4)"
  have adm: "admissible_run ev_event_id (demo_start @ []) (new_service 8 2 4 4)"
    "admissible_run ev_event_id (demo_conflict @ [InReconcile True, InStart True]) (new_service 8 2 4 4)" by code_simp+
  have open_gate: "gt_accepting (ac_gate a)" unfolding a_def by code_simp
  have fatal: "gt_fatal (ac_gate b) \<noteq> None" unfolding b_def by code_simp
  from fatal_error_is_final[OF _ adm(1) a_def refl] open_gate fatal_error_is_final[OF _ adm(2) b_def refl] fatal
  show ?thesis by (simp add: a_def b_def demo_service_def)
qed





end
