(* ===== verification/Accounting_Bystanders.thy ===== *)
theory Accounting_Bystanders
  imports Accounting_Runs
begin

text \<open>
  What the sessions of the accounting service leave alone. A \<open>bystander\<close> is a property of the service
  that speaks of none of the fields a session task writes; a task may still start the pending reset of
  a key. A \<open>drain_bystander\<close> does not speak of the holder of the drain lock either. Two bystanders
  follow: an update of a key that holds the drain lock, and a key that stays fenced for a reset which
  no longer exists.
\<close>

section \<open>Bystanders of session tasks\<close>

locale bystander =
  fixes P :: "acct \<Rightarrow> bool"
  assumes frame [simp]:
    "P (a\<lparr>ac_gate := x1\<rparr>) = P a" "P (a\<lparr>ac_sessions := x2\<rparr>) = P a" "P (a\<lparr>ac_by_request := x3\<rparr>) = P a"
    "P (a\<lparr>ac_retry_sessions := x4\<rparr>) = P a" "P (a\<lparr>ac_event_owner := x5\<rparr>) = P a" "P (a\<lparr>ac_active := x6\<rparr>) = P a"
    "P (a\<lparr>ac_known := x7\<rparr>) = P a" "P (a\<lparr>ac_limits := x8\<rparr>) = P a" "P (a\<lparr>ac_ledger := x9\<rparr>) = P a"
    "P (a\<lparr>ac_limiter := x10\<rparr>) = P a" "P (a\<lparr>ac_tasks := x11\<rparr>) = P a" "P (a\<lparr>ac_results := x12\<rparr>) = P a"
    "P (a\<lparr>ac_owners := x13\<rparr>) = P a" "P (a\<lparr>ac_projector := x14\<rparr>) = P a" "P (a\<lparr>ac_reconciling := x15\<rparr>) = P a"
    "P (a\<lparr>ac_stopping := x16\<rparr>) = P a" "P (a\<lparr>ac_due := x17\<rparr>) = P a"
    and started: "P a \<Longrightarrow> dict_get (ac_reset_pending a) k = Some m \<Longrightarrow>
      P (a\<lparr>ac_resets := ac_resets a @ [Some \<lparr>rt_moment = m, rt_keys = [k], rt_waiter = Some sid\<rparr>]\<rparr>)"
begin

lemma beside_basic [simp]:
  "P (on_gate f a) = P a" "P (put_session sid s a) = P a" "P (unregister_retry k sid a) = P a"
  "P (forget_key j a) = P a" "P (open_session r a) = P a" "P (finish_task sid cl a) = P a" "P (unlink_session s a) = P a"
  by (auto simp: on_gate_def put_session_def unregister_retry_def forget_key_def open_session_def finish_task_def
      unlink_session_def Let_def split: option.split)

lemma beside_close: "P a \<Longrightarrow> P (close_session sid s cl a)"
proof -
  assume p: "P a"
  obtain a1 r where d: "detach_session s a = (a1, r)" by fastforce
  have p1: "P a1" using d p beside_basic(7)[of s a]
    by (auto simp: detach_session_def Let_def simp del: beside_basic(7) split: option.splits if_splits)
  have "P (a1\<lparr>ac_tasks := t, ac_resets := ac_resets a1 @ [Some \<lparr>rt_moment = m, rt_keys = [k], rt_waiter = Some sid\<rparr>]\<rparr>)"
    if "pending_reset_of k a1 = Some m" for k m t
    using started[of "a1\<lparr>ac_tasks := t\<rparr>" k m sid] that p1 by (auto simp: pending_reset_of_def split: if_splits)
  with p1 show ?thesis by (cases r) (auto simp: close_session_def d after_terminal_def split: option.split)
qed

lemma beside_give_back [simp]: "P (fst (give_back ck s a)) = P a"
proof -
  have "P (fst (give_back_ledger s k b)) = P b" for k b
    by (auto simp: give_back_ledger_def split: prod.split sum.split)
  moreover have "P (fst (give_back_limiter ck s' k b)) = P b" for s' k b
    by (auto simp: give_back_limiter_def split: prod.split sum.split)
  ultimately show ?thesis by (auto simp: give_back_def split_beta split: option.split)
qed

lemma beside_fail: "P a \<Longrightarrow> P (fail_session ck sid cl a)"
  using beside_give_back by (auto simp: fail_session_def split_beta split: option.split intro!: beside_close)

lemma beside_release: "P a \<Longrightarrow> P (fst (begin_release r sp a))" "P a \<Longrightarrow> P (run_release ck sid a)"
  by (auto simp: begin_release_def run_release_def Let_def
      split: answer.split option.split prod.split sum.split bool.split intro!: beside_close beside_fail)

lemma beside_commit: "P a \<Longrightarrow> P (fst (begin_commit fp r e sp a))"
  by (auto simp: begin_commit_def own_commit_def follow_commit_def Let_def split: answer.split option.split)

lemma beside_settle [simp]: "P (fst (settle_session ck sid s ch cost n a)) = P a"
proof -
  have l: "P (fst (settle_ledger sid s' k cost b)) = P b" for s' k b
    by (auto simp: settle_ledger_def split: prod.split sum.split bool.split option.split)
  have m: "P (fst (settle_limiter ck sid s' k n b)) = P b" for s' k b
    by (auto simp: settle_limiter_def split: prod.split sum.split bool.split)
  have "P (fst (then_do (settle_ledger sid s' k cost a) (\<lambda>a1 s2. settle_limiter ck sid s2 k n a1))) = P a" for s' k
    using l[of s' k a] by (cases "settle_ledger sid s' k cost a"; cases "snd (settle_ledger sid s' k cost a)") (auto simp: m)
  then show ?thesis by (auto simp: settle_session_def Let_def split: option.split)
qed

lemma beside_liability [simp]: "P (fst (apply_session_liability fp ck sid acc a)) = P a"
  "P (fst (apply_duplicate_session ck sid a)) = P a"
  by (auto simp: apply_session_liability_def apply_duplicate_session_def Let_def split: option.split)

lemma beside_source:
  assumes "\<And>acc b. P (fst (f acc b)) = P b" shows "P (fst (source_answered fp ck k e ans f a)) = P a"
proof -
  have "P (fst (case f acc (a\<lparr>ac_gate := g\<rparr>) of
      (a1, Answered _) \<Rightarrow> (a1, Answered acc)
    | (a1, Refused c) \<Rightarrow>
        (on_gate (\<lambda>g1. wake_projector (record_code ck c (retain_event k (st_event (acc_stored acc)) g1))) a1, Refused c)
    | (a1, Broke) \<Rightarrow>
        (on_gate (\<lambda>g1. wake_projector (record_error ck CodeAccountingFailed False True
           (retain_event k (st_event (acc_stored acc)) g1))) a1, Refused CodeAccountingFailed))) = P a" for acc g
    using assms[of acc "a\<lparr>ac_gate := g\<rparr>"]
    by (cases "f acc (a\<lparr>ac_gate := g\<rparr>)"; cases "snd (f acc (a\<lparr>ac_gate := g\<rparr>))") auto
  then show ?thesis by (auto simp: source_answered_def split: answer.split prod.split)
qed

lemma beside_continue: "P (fst r) \<Longrightarrow> P (commit_continue ck sid e k r)"
  by (cases r; cases "snd r") (auto simp: commit_continue_def commit_finish_def commit_refused_def Let_def
      split: option.split intro!: beside_close beside_fail)

lemma beside_owner:
  "P a \<Longrightarrow> P (commit_accepted fp ck sid e ans a)" "P a \<Longrightarrow> P (commit_projected fp ck sid e acc pa a)"
  "P a \<Longrightarrow> P (commit_retried fp ck sid e rc a)" "P a \<Longrightarrow> P (follow_owner ck sid r a)"
proof -
  assume p: "P a"
  have after: "P (after_accept fp ck sid e x)" if "P (fst x)" for x
    using that by (cases x; cases "snd x") (auto simp: after_accept_def Let_def intro!: beside_continue)
  have "P (fst (source_answered fp ck k e ans (apply_session_liability fp ck sid) a))" for k
    using p beside_source[of "apply_session_liability fp ck sid"] by simp
  then show "P (commit_accepted fp ck sid e ans a)" by (simp add: commit_accepted_split after)
  show "P (commit_projected fp ck sid e acc pa a)"
    using p by (auto simp: commit_projected_def split_beta intro!: beside_continue)
  show "P (commit_retried fp ck sid e rc a)"
    using p by (auto simp: commit_retried_def commit_finish_def Let_def split: answer.split option.split
        intro!: beside_close beside_fail)
  have dup: "P (fst (apply_duplicate_session ck sid a))" using p by simp
  show "P (follow_owner ck sid r a)"
    using p dup by (cases "apply_duplicate_session ck sid a"; cases "snd (apply_duplicate_session ck sid a)")
      (auto simp: follow_owner_def follow_finish_def Let_def split: answer.split option.split
        intro!: beside_close beside_fail)
qed

lemma beside_record: "P (fst (record_begin fp e sp a)) = P a" "P (record_finished fp ck i acc pa a) = P a"
    "P a \<Longrightarrow> P (record_accepted fp ck i e ans a)"
proof -
  show "P (fst (record_begin fp e sp a)) = P a" "P (record_finished fp ck i acc pa a) = P a"
    by (auto simp: record_begin_def record_finished_def drop_owner_def Let_def)
  assume p: "P a"
  obtain a1 r where r: "source_answered fp ck (ev_event_id e, fp e) e ans (\<lambda>acc a1. (a1, Answered ())) a = (a1, r)" by fastforce
  have "P a1" using p beside_source[of "\<lambda>acc a1. (a1, Answered ())" fp ck "(ev_event_id e, fp e)" e ans a] r by simp
  then show "P (record_accepted fp ck i e ans a)"
    by (cases r) (auto simp: record_accepted_def r drop_owner_def)
qed

lemma beside_reserve: "P a \<Longrightarrow> P (fst (reserve_session ck token ra a))"
proof -
  assume p: "P a"
  have rate: "P (fst (admit_rate ck rid k limits b)) = P b" for rid k limits b
    by (auto simp: admit_rate_def split: prod.split option.split sum.split)
  have learn: "P (fst (learn_key k budget spent limits b)) = P b" for k budget spent limits b
    by (auto simp: learn_key_def split: option.split)
  have key: "P (fst (admit_key ck rid k est budget spent limits b)) = P b" for rid k est budget spent limits b
    using learn[of k budget spent limits b]
    by (cases "learn_key k budget spent limits b"; cases "snd (learn_key k budget spent limits b)")
      (auto simp: admit_key_def rate split: prod.split sum.split bool.split)
  have "P (fst (then_do m (\<lambda>a1 _. (open_session r a1, Answered r))))" if "P (fst m)" for m and r :: reservation
    using that by (cases m; cases "snd m") auto
  note fin = this
  have "P (fst (admit_session ck r budget spent limits a))" for r budget spent limits
    using p by (auto simp: admit_session_def key split: option.split intro!: fin)
  with p show ?thesis by (auto simp: reserve_session_def split: answer.split)
qed

end

section \<open>Bystanders of drains\<close>

locale drain_bystander = bystander +
  assumes pass_frame: "map_option dp_user x18 = map_option dp_user (ac_pass a) \<Longrightarrow> P (a\<lparr>ac_pass := x18\<rparr>) = P a"
    and pass_gone: "P a \<Longrightarrow> P (a\<lparr>ac_pass := None\<rparr>)"
begin

lemma beside_publish [simp]: "P (publish_to r sid a) = P a" "P (publish_retry r k a) = P a"
  "P (publish_all_retry_errors r a) = P a" "P (retry_dirty a) = P a" "P (pending_dirty a) = P a" "P (projecting x a) = P a"
proof -
  show to: "P (publish_to r sid a) = P a" for r sid a by (auto simp: publish_to_def split: option.split)
  then show "P (publish_retry r k a) = P a" by (simp add: publish_retry_def split: option.split)
  have "P (fold (\<lambda>p. publish_to r (snd p)) xs a) = P a" for xs by (induction xs arbitrary: a) (auto simp: to)
  then show "P (publish_all_retry_errors r a) = P a" by (simp add: publish_all_retry_errors_def)
qed (auto simp: retry_dirty_def pending_dirty_def projecting_def option.map_comp comp_def intro!: pass_frame)

lemma beside_retry [simp]: "P (fst (retry_accepted fp ck k ans a)) = P a" "P (fst (retry_projected fp ck k acc pa a)) = P a"
  "P (fst (drain_row fp ck st pa a)) = P a"
proof -
  have charge: "P (fst (retry_charge fp ck k acc b)) = P b" for acc b
    by (auto simp: retry_charge_def split: option.split)
  have after: "P (fst (after_retry fp ck k acc x)) = P (fst x)" for acc x
    by (cases x; cases "snd x") (auto simp: after_retry_def)
  show "P (fst (retry_accepted fp ck k ans a)) = P a"
  proof (cases "answer_bind ans (\<lambda>result. validate_source_result fp result k)")
    case (Answered acc0)
    then show ?thesis by (simp add: retry_accepted_split Let_def after charge)
  qed (auto simp: retry_accepted_def)
  show "P (fst (retry_projected fp ck k acc pa a)) = P a"
    by (auto simp: retry_projected_def Let_def split: prod.split project_result.split)
  show "P (fst (drain_row fp ck st pa a)) = P a"
    by (auto simp: drain_row_def split: prod.split project_result.split answer.split)
qed

lemma beside_ends [simp]: "P (projector_end ck p r a) = P a" "P (reconcile_end ck p r a) = P a" "P (stop_end ck p r rep a) = P a"
proof -
  have "P (stop_close ck dr rp b) = P b" for dr rp b by (auto simp: stop_close_def Let_def split: option.split)
  then show "P (stop_end ck p r rep a) = P a" by (auto simp: stop_end_def split: answer.split prod.split)
qed (auto simp: projector_end_def reconcile_end_def Let_def split: answer.split)

end

section \<open>An update at its database call\<close>

text \<open>The update of key \<open>k\<close> holds the drain lock, everything was settled, and the database call runs.\<close>

definition update_writing :: "int \<Rightarrow> acct \<Rightarrow> bool" where
  "update_writing k a = (case ac_pass a of None \<Rightarrow> False
     | Some p \<Rightarrow> dp_user p = ByUpdate k \<and> dp_drained p \<and> dp_projecting p = None)"

interpretation writing: bystander "update_writing k" for k
  by unfold_locales (simp_all add: update_writing_def)

lemma due_frame: "update_writing k (fst (due_page m rows a)) = update_writing k a"
proof -
  have "ac_pass (fst (mark_due m ks b)) = ac_pass b" for ks b
    by (induction ks arbitrary: b) (auto simp: Let_def split_beta)
  then show ?thesis by (auto simp: update_writing_def due_page_def Let_def split_beta split: answer.split option.split)
qed

lemma writing_step: "update_writing k a \<Longrightarrow> \<not> rereads x \<Longrightarrow> update_writing k (acct_step fp x a)"
proof -
  assume w: "update_writing k a" and nr: "\<not> rereads x"
  then obtain p where p: "ac_pass a = Some p" "dp_drained p" "dp_projecting p = None"
    by (auto simp: update_writing_def split: option.splits)
  have quiet: "\<not> draining a" "take_drain u a = a" for u
    using p by (simp_all add: draining_def take_drain_def may_drain_def)
  show ?thesis
  proof (cases x)
    case (InStarted ck l an rp sp)
    with w show ?thesis by (auto split: option.split)
  next
    case (InUpdate key rl rs)
    with w show ?thesis by (auto simp: update_begin_def update_writing_def split: answer.split)
  next
    case (InDelete key)
    with w show ?thesis by (auto simp: delete_begin_def update_writing_def split: answer.split)
  qed (use w nr p quiet in \<open>auto simp: writing.beside_reserve writing.beside_commit writing.beside_release writing.beside_owner
      writing.beside_record due_frame due_begin_def reconcile_begin_def begin_stop_def
      split: option.split task_point.split prod.split\<close>)
qed

section \<open>A key whose fence outlives its reset\<close>

fun holder_listed :: "drain_user option \<Rightarrow> nat \<Rightarrow> bool" where
  "holder_listed (Some (ByReset i)) n = (i < n)"
| "holder_listed _ n = True"

lemma holder_listed_Suc: "holder_listed u n \<Longrightarrow> holder_listed u (Suc n)"
  by (cases "(u, n)" rule: holder_listed.cases) auto

text \<open>The key is fenced as being reset, but no reset is pending or running and no delete is in flight. A
  reset that holds the drain lock is one of the list.\<close>

definition left_fenced :: "int \<Rightarrow> acct \<Rightarrow> bool" where
  "left_fenced k a \<longleftrightarrow> dict_get (ac_fences a) k = Some CodeBudgetResetInProgress \<and>
     dict_get (ac_reset_pending a) k = None \<and> k \<notin> set (ac_deleted a) \<and>
     list_all (\<lambda>d. fst d \<noteq> k) (ac_deletes a) \<and>
     list_all (\<lambda>t. case t of None \<Rightarrow> True | Some t \<Rightarrow> k \<notin> set (rt_keys t)) (ac_resets a) \<and>
     holder_listed (map_option dp_user (ac_pass a)) (length (ac_resets a))"

interpretation fenced: drain_bystander "left_fenced k" for k
  by unfold_locales (auto simp: left_fenced_def holder_listed_Suc)

lemma fenced_sync [simp]: "left_fenced k (fst (sync_key_record r b s a)) = left_fenced k a"
  by (auto simp: sync_key_record_def split: answer.split)

lemma fenced_unfence: "left_fenced k a \<Longrightarrow> j \<noteq> k \<or> c \<noteq> CodeBudgetResetInProgress \<Longrightarrow> left_fenced k (unfence j c a)"
  by (auto simp: left_fenced_def unfence_def dict_get_pop)

lemma fenced_updates [simp]: "left_fenced k (a\<lparr>ac_updates := u\<rparr>) = left_fenced k a"
  by (simp add: left_fenced_def)

lemma fenced_update: "left_fenced k a \<Longrightarrow> left_fenced k (fst (update_begin key rl rs a))"
  "left_fenced k a \<Longrightarrow> left_fenced k (fst (update_finish j u ans a))"
proof -
  show "left_fenced k a \<Longrightarrow> left_fenced k (fst (update_begin key rl rs a))"
    by (auto simp: update_begin_def left_fenced_def dict_get_set split: answer.split)
  have "left_fenced k (fst (then_do (sync_key_record r b s a) (\<lambda>a1 _.
      (if u then a1\<lparr>ac_limiter := rl_reset (Some j) (ac_limiter a1)\<rparr> else a1, Answered (Some r))))) = left_fenced k a" for r b s
    using fenced_sync[of k r b s a]
    by (cases "sync_key_record r b s a"; cases "snd (sync_key_record r b s a)") auto
  then have "left_fenced k (fst (update_apply j u ans a)) = left_fenced k a"
    by (auto simp: update_apply_def split: answer.split option.split)
  then show "left_fenced k a \<Longrightarrow> left_fenced k (fst (update_finish j u ans a))"
    by (auto simp: update_finish_def split_beta intro!: fenced_unfence)
qed

lemma fenced_end_resets: "left_fenced k a \<Longrightarrow> k \<notin> set ks \<Longrightarrow> left_fenced k (end_resets ks a)"
proof (induction ks arbitrary: a)
  case (Cons j ks)
  have "left_fenced k (a\<lparr>ac_reset_pending := dict_pop j (ac_reset_pending a)\<rparr>)"
    using Cons.prems by (auto simp: left_fenced_def dict_get_pop)
  with Cons show ?case by (simp add: fenced_unfence)
qed simp

lemma fenced_sync_resets: "left_fenced k a \<Longrightarrow> left_fenced k (fst (sync_reset_records keys seen rs a))"
proof (induction rs arbitrary: seen a)
  case (Cons r rs)
  show ?case
  proof (cases "validate_key_record r (kr_id r)")
    case (Answered bs)
    obtain budget spent where bs: "bs = (budget, spent)" by (cases bs)
    obtain a1 x where s: "sync_key_record r budget spent a = (a1, x)" by fastforce
    have "left_fenced k a1" using fenced_sync[of k r budget spent a] Cons.prems s by simp
    with Cons.prems Answered bs s show ?thesis by (cases x) (auto intro: Cons.IH)
  qed (use Cons.prems in auto)
qed simp

lemma fenced_reset: "left_fenced k a \<Longrightarrow> k \<notin> set (rt_keys t) \<Longrightarrow> left_fenced k (reset_finish i t ans a)"
proof -
  assume f: "left_fenced k a" and t: "k \<notin> set (rt_keys t)"
  have "left_fenced k (fst (reset_apply t ans a))"
  proof (cases ans)
    case (Answered rs)
    obtain a1 x where s: "sync_reset_records (rt_keys t) [] rs a = (a1, x)" by fastforce
    have "left_fenced k a1" using fenced_sync_resets[OF f, of "rt_keys t" "[]" rs] s by simp
    with t show ?thesis by (cases x) (simp_all add: reset_apply_def Answered s fenced_end_resets)
  qed (use f in \<open>simp_all add: reset_apply_def\<close>)
  moreover have "left_fenced k (b\<lparr>ac_resets := (ac_resets b)[i := None]\<rparr>)" if "left_fenced k b" for b
    using that by (auto simp: left_fenced_def list_all_iff dest!: set_update_subset_insert[THEN subsetD])
  ultimately show ?thesis
    by (auto simp: reset_finish_def Let_def split_beta split: option.split task_point.split answer.split)
qed

text \<open>Only a page of due keys that names the key fences it for a new reset.\<close>

fun due_again :: "int \<Rightarrow> acct_input \<Rightarrow> bool" where
  "due_again k (InDuePage moment (Answered ks)) = (k \<in> set ks)"
| "due_again k _ = False"

lemma fenced_mark: "left_fenced k a \<Longrightarrow> k \<notin> set ks \<Longrightarrow>
    left_fenced k (fst (mark_due m ks a)) \<and> set (snd (mark_due m ks a)) \<subseteq> set ks"
proof (induction ks arbitrary: a)
  case (Cons j ks)
  have "left_fenced k (a\<lparr>ac_reset_pending := dict_set j m (ac_reset_pending a),
      ac_fences := dict_set j CodeBudgetResetInProgress (ac_fences a)\<rparr>)"
    using Cons.prems by (auto simp: left_fenced_def dict_get_set)
  from Cons.IH[OF this] Cons.IH[OF Cons.prems(1)] Cons.prems(2) show ?case
    by (auto simp: Let_def split_beta)
qed simp

lemma fenced_due: "left_fenced k a \<Longrightarrow> \<not> due_again k (InDuePage m rows) \<Longrightarrow> left_fenced k (fst (due_page m rows a))"
proof -
  assume f: "left_fenced k a" and nd: "\<not> due_again k (InDuePage m rows)"
  have k: "k \<notin> set ks" if "answer_bind (write_failed rows) (\<lambda>ks. validate_due_key_ids n ks after) = Answered ks" for ks n after
    using that nd by (cases rows) (auto simp: answer_bind_def write_failed_def validate_due_key_ids_def split: if_splits)
  have "left_fenced k (b\<lparr>ac_resets := ac_resets b @ [Some \<lparr>rt_moment = m, rt_keys = e, rt_waiter = None\<rparr>]\<rparr>)"
    if "left_fenced k b" "k \<notin> set e" for b e
    using that by (auto simp: left_fenced_def holder_listed_Suc)
  note start = this
  show ?thesis
  proof (cases "dict_get (ac_due a) m")
    case (Some after)
    show ?thesis
    proof (cases "answer_bind (write_failed rows) (\<lambda>ks. validate_due_key_ids (gt_batch_size (ac_gate a)) ks after)")
      case (Answered ks)
      obtain a1 e where me: "mark_due m ks a = (a1, e)" by fastforce
      have "left_fenced k a1" "k \<notin> set e" using fenced_mark[OF f k[OF Answered], of m] k[OF Answered] me by auto
      with start[of a1 e] show ?thesis by (simp add: due_page_def Some Answered me Let_def)
    qed (use f Some in \<open>simp_all add: due_page_def\<close>)
  qed (use f in \<open>simp add: due_page_def\<close>)
qed

lemma fenced_delete: "left_fenced k a \<Longrightarrow> left_fenced k (fst (delete_begin key a))"
  "left_fenced k a \<Longrightarrow> (j, q) \<in> set (ac_deletes a) \<Longrightarrow> left_fenced k (fst (delete_finish j q ans a))"
proof -
  show "left_fenced k a \<Longrightarrow> left_fenced k (fst (delete_begin key a))"
    by (auto simp: delete_begin_def left_fenced_def dict_get_set split: answer.split)
  assume f: "left_fenced k a" and j: "(j, q) \<in> set (ac_deletes a)"
  then have "j \<noteq> k" by (auto simp: left_fenced_def list_all_iff)
  have del: "left_fenced k (b\<lparr>ac_deletes := remove1 x (ac_deletes b)\<rparr>)" if "left_fenced k b" for b x
    using that by (auto simp: left_fenced_def list_all_iff dest: set_remove1_subset[THEN subsetD])
  have fence: "left_fenced k (b\<lparr>ac_fences := dict_pop j (ac_fences b)\<rparr>)"
    "left_fenced k (b\<lparr>ac_fences := dict_set j c (ac_fences b)\<rparr>)"
    "left_fenced k (b\<lparr>ac_deleted := List.insert j (ac_deleted b), ac_reset_pending := dict_pop j (ac_reset_pending b)\<rparr>)"
    if "left_fenced k b" for b c
    using that \<open>j \<noteq> k\<close> by (simp_all add: left_fenced_def dict_get_pop dict_get_set)
  note f0 = del[OF f, of "(j, q)"]
  show "left_fenced k (fst (delete_finish j q ans a))"
  proof (cases "ans = Answered True")
    case True
    with fence(3)[OF f0] show ?thesis by (simp add: delete_finish_def Let_def)
  next
    case False
    have "left_fenced k (restore_fence j q (a\<lparr>ac_deletes := remove1 (j, q) (ac_deletes a)\<rparr>))"
      using fence(1,2)[OF f0] by (cases q) (simp_all add: restore_fence_def)
    with False show ?thesis by (auto simp: delete_finish_def Let_def split: answer.split bool.split)
  qed
qed

lemma fenced_held:
  assumes f: "left_fenced k a" and p: "ac_pass a = Some p" "dp_user p = ByReset i" "ac_resets a ! i = Some t"
  shows "left_fenced k (reset_finish i t y (a\<lparr>ac_pass := None\<rparr>))"
proof (rule fenced_reset)
  have "i < length (ac_resets a)" using f p by (simp add: left_fenced_def)
  then have "Some t \<in> set (ac_resets a)" using p(3) by (metis nth_mem)
  with f show "k \<notin> set (rt_keys t)" by (auto simp: left_fenced_def list_all_iff split: option.splits)
qed (rule fenced.pass_gone[OF f])

lemma fenced_end_pass: "left_fenced k a \<Longrightarrow> left_fenced k (end_pass ck r rep a)"
proof -
  assume f: "left_fenced k a"
  have drained: "left_fenced k (a\<lparr>ac_pass := Some (p\<lparr>dp_drained := True\<rparr>)\<rparr>)" if "ac_pass a = Some p" for p
    using f that fenced.pass_frame[of "Some (p\<lparr>dp_drained := True\<rparr>)" a k] by simp
  show ?thesis using f fenced_held[OF f] drained fenced.pass_gone[OF f]
    by (auto simp: end_pass_def change_end_def Let_def split: option.split drain_user.split answer.split intro!: fenced_update)
qed

lemma fenced_pass_step: "left_fenced k (fst x) \<Longrightarrow> left_fenced k (pass_step ck x)"
  by (cases x; cases "snd x") (auto simp: pass_step_def intro!: fenced_end_pass)

lemma fenced_take_drain: "left_fenced k a \<Longrightarrow> left_fenced k (take_drain u a)"
  by (auto simp: take_drain_def may_drain_def begin_pass_def left_fenced_def split: drain_user.splits)

lemma fenced_step: "left_fenced k a \<Longrightarrow> \<not> due_again k x \<Longrightarrow> left_fenced k (acct_step fp x a)"
proof -
  assume f: "left_fenced k a" and nd: "\<not> due_again k x"
  show ?thesis
  proof (cases x)
    case (InDuePage m rows)
    with f nd show ?thesis by (simp add: fenced_due)
  next
    case (InResetDone ans)
    with f fenced_held[OF f] show ?thesis by (auto split: option.split drain_user.split)
  next
    case (InUpdated ans)
    with f fenced.pass_gone[OF f] show ?thesis by (auto split: option.split drain_user.split intro!: fenced_update)
  next
    case (InDeleted j q ans)
    with f show ?thesis by (auto intro!: fenced_delete)
  qed (use f in \<open>auto simp: fenced.beside_reserve fenced.beside_commit fenced.beside_release fenced.beside_owner
      fenced.beside_record fenced_take_drain fenced_pass_step fenced_end_pass fenced_delete fenced_update due_begin_def
      reconcile_begin_def begin_stop_def split: option.split task_point.split prod.split\<close>)
qed

lemma fenced_run: "left_fenced k a \<Longrightarrow> list_all (\<lambda>x. \<not> due_again k x) xs \<Longrightarrow> left_fenced k (run_service fp xs a)"
  unfolding run_service_def by (induction xs arbitrary: a) (simp_all add: fenced_step)

text \<open>What such a key gets.\<close>

lemma fenced_refused:
  assumes "left_fenced k a" and "0 < k"
  shows "rv_api_key_id r = Some k \<Longrightarrow> dict_get (ac_by_request a) (rv_request_id r) = None \<Longrightarrow>
      admit_session ck r budget spent limits a =
        (a, Refused (if gt_state (ac_gate a) = HRunning \<and> gt_accepting (ac_gate a) then CodeBudgetResetInProgress else CodeAdmissionClosed))"
    and "update_begin (PyInt k) rl rs a = (a, Refused (if mutable_state a then CodeAccountingInFlight else CodeAdmissionClosed))"
    and "delete_begin (PyInt k) a = (a, Refused (if mutable_state a then CodeAccountingInFlight else CodeAdmissionClosed))"
  using assms by (auto simp: left_fenced_def admit_session_def fence_of_def update_begin_def delete_begin_def)

lemma writing_run: "update_writing k a \<Longrightarrow> list_all (\<lambda>x. \<not> rereads x) xs \<Longrightarrow> update_writing k (run_service fp xs a)"
  unfolding run_service_def by (induction xs arbitrary: a) (simp_all add: writing_step)

text \<open>The end of an update sets the spend of its key to the one of the record.\<close>

lemma update_overwrites:
  assumes w: "update_writing k a" and v: "validate_key_record r k = Answered (budget, spent)"
    and l: "optional_positive_int (kr_rpm r) = Answered rpm" "optional_positive_int (kr_tpm r) = Answered tpm"
  shows "spent_of k (acct_step fp (InUpdated (Answered (Some r))) a) = spent"
proof -
  obtain p where p: "ac_pass a = Some p" "dp_user p = ByUpdate k" "dp_drained p"
    using w by (auto simp: update_writing_def split: option.splits)
  have "kr_id r = k" "0 \<le> spent" using v by (auto simp: validate_key_record_def answer_bind_def
      split: if_splits answer.splits dest: non_negative_float_ge)
  with p v l show ?thesis
    by (simp add: update_finish_def update_apply_def sync_key_record_def answer_bind_def spent_of_def unfence_def
        reset_record_def entry_for_def new_entry_def Let_def dict_get_set split: option.split)
qed

end
