(* ===== verification/Accounting_Hazards.thy ===== *)
theory Accounting_Hazards
  imports Accounting_Guarantees Accounting_Bystanders
begin

text \<open>
  Three ways in which the accounting service ends where it should not: an update of a key loses the
  charges made while it writes, a failed delete leaves a key fenced, and a session waits for a retry
  nobody will make, so that the service cannot stop. Each is stated for every state and every further
  run of its kind; a concrete run shows that it can happen.
\<close>

definition demo_run :: "acct_input list \<Rightarrow> acct" where
  "demo_run xs = run_service ev_event_id (demo_start @ xs) demo_service"

section \<open>An update loses a charge\<close>

definition demo_record :: "rat \<Rightarrow> key_record" where
  "demo_record spent = \<lparr>kr_id = 1, kr_budget = Some (PyFloat 10), kr_spent = PyFloat spent, kr_rpm = None, kr_tpm = None\<rparr>"

definition demo_first :: event where
  "demo_first = demo_event ''e'' ''q'' 1 9"

text \<open>The database call of the update runs between \<open>InPassEnd\<close> and \<open>InUpdated\<close>. The commit is accepted in
  between; its projection waits for the drain lock, so the database still says that nothing is spent.\<close>

definition update_start :: "acct_input list" where
  "update_start = [demo_reserve ''q'' 1 2, InUpdate (PyInt 1) False False, InPass (ByUpdate 1),
     InPassEnd demo_clock (Answered None)]"

definition commit_meanwhile :: "acct_input list" where
  "commit_meanwhile = [InCommit (demo_reservation ''q'' 1 2) demo_first True,
     InAccepted demo_clock ''q#'' (demo_accept demo_first)]"

text \<open>C13: Updating a key loses every charge made while its database call runs. Take any reachable state in
  which the update of key \<open>k\<close> has drained everything and waits for the database, and any further run
  before the answer in which no other key is re-read or deleted. The update keeps the drain lock, so
  no event of a session is projected in the meantime and the database still holds the spend of the
  start. The charges of the run do reach the ledger, but when the answer comes with that spend they are
  all taken back: the spend of the key is as if none of them had happened, at least until a projection
  is read back. \<open>charges_lost_overspend\<close> adds that the key is then admitted beyond its budget.\<close>

theorem update_loses_charge:
  assumes "0 \<le> n" and "admissible_run fp (xs @ ys) (new_service m b n w)" and "a = run_service fp xs (new_service m b n w)"
    and "undisturbed ys a" and "fresh_ids ys a" and "k \<in> set (ac_known a)" and "update_writing k a"
    and "validate_key_record r k = Answered (budget, spent_of k a)"
    and "optional_positive_int (kr_rpm r) = Answered rpm" and "optional_positive_int (kr_tpm r) = Answered tpm"
  shows "update_writing k (run_service fp ys a) \<and>
    acct_step fp (InProjected ck sid pa) (run_service fp ys a) = run_service fp ys a \<and>
    spent_of k (run_service fp ys a) = spent_of k a + charged_to k (charges fp ys a) \<and>
    spent_of k (acct_step fp (InUpdated (Answered (Some r))) (run_service fp ys a)) =
      spent_of k (run_service fp ys a) - charged_to k (charges fp ys a)"
proof -
  have adm: "admissible_run fp xs (new_service m b n w)" "admissible_run fp ys a"
    using assms(2,3) by (simp_all add: admissible_run_append)
  have w: "update_writing k (run_service fp ys a)"
    using assms(4,7) by (auto simp: undisturbed_def intro!: writing_run)
  then have "ac_pass (run_service fp ys a) \<noteq> None" by (auto simp: update_writing_def split: option.splits)
  moreover have "spent_of k (run_service fp ys a) = spent_of k a + charged_to k (charges fp ys a)"
    using run_charges[OF reachable_sound[OF assms(1) adm(1), folded assms(3)] adm(2) _ assms(4,5), of "{}"] assms(6)
    by (auto simp: settled_ids_def)
  ultimately show ?thesis
    using w update_overwrites[OF w assms(8-10), of fp] by (auto split: option.split task_point.split)
qed

theorem update_loses_charge_witness:
  "spent_of 1 (demo_run (update_start @ commit_meanwhile)) = 9 \<and>
   spent_of 1 (demo_run (update_start @ commit_meanwhile @ [InUpdated (Answered (Some (demo_record 0)))])) = 0"
proof -
  define a where "a = run_service ev_event_id (demo_start @ update_start) (new_service 8 2 4 4)"
  have adm: "admissible_run ev_event_id ((demo_start @ update_start) @ commit_meanwhile) (new_service 8 2 4 4)" by code_simp
  have u: "undisturbed commit_meanwhile a" unfolding a_def by code_simp
  have f: "fresh_ids commit_meanwhile a" unfolding a_def by code_simp
  have k: "1 \<in> set (ac_known a)" unfolding a_def by code_simp
  have w: "update_writing 1 a" unfolding a_def by code_simp
  have s0: "spent_of 1 a = 0" unfolding a_def by code_simp
  have r: "validate_key_record (demo_record 0) 1 = Answered (Some 10, spent_of 1 a)" unfolding s0 by code_simp
  have l: "optional_positive_int (kr_rpm (demo_record 0)) = Answered None"
    "optional_positive_int (kr_tpm (demo_record 0)) = Answered None" by code_simp+
  have ch: "charged_to 1 (charges ev_event_id commit_meanwhile a) = 9" unfolding a_def by code_simp
  have run: "demo_run (update_start @ commit_meanwhile) = run_service ev_event_id commit_meanwhile a"
    "demo_run (update_start @ commit_meanwhile @ [InUpdated (Answered (Some (demo_record 0)))]) =
     acct_step ev_event_id (InUpdated (Answered (Some (demo_record 0)))) (run_service ev_event_id commit_meanwhile a)"
    by (simp_all add: demo_run_def run_service_def a_def demo_service_def)
  from update_loses_charge[OF _ adm a_def u f k w r l] s0 ch show ?thesis unfolding run by simp
qed

definition demo_request :: "string \<Rightarrow> rat \<Rightarrow> reserve_args" where
  "demo_request q estimate = \<lparr>ra_request_id = q, ra_api_key_id = Some (PyInt 1), ra_budget = Some (PyFloat 10),
     ra_spent = PyFloat 9, ra_rpm = None, ra_tpm = None, ra_estimate = PyFloat estimate\<rparr>"

text \<open>After that run a key with budget 10 and true spend 9 is admitted for another 9, although the
  request brings the true spend with it.\<close>

lemma charges_lost_overspend:
  "snd (reserve_session demo_clock ''z#'' (demo_request ''z'' 9)
     (demo_run (update_start @ commit_meanwhile @ [InUpdated (Answered (Some (demo_record 0))),
        InProjected demo_clock ''q#'' (demo_answers demo_first)]))) = Answered (demo_reservation ''z'' 1 9)"
  by code_simp

section \<open>A failed delete leaves a fence\<close>

text \<open>The reset of the key begins when its last session ends, and finishes while the delete waits.\<close>

definition reset_then_delete :: "acct_input list" where
  "reset_then_delete = [demo_reserve ''q'' 1 2, InDue 5, InDuePage 5 (Answered [1]), InRelease (demo_reservation ''q'' 1 2) True,
     InRunRelease demo_clock ''q#'', InDelete (PyInt 1), InPass (ByReset 0), InPassEnd demo_clock (Answered None),
     InResetDone (Answered [demo_record 0])]"

text \<open>The delete began while a reset of the key was pending, and that reset is over.\<close>

definition reset_overtaken :: "int \<Rightarrow> time \<Rightarrow> acct \<Rightarrow> bool" where
  "reset_overtaken k moment a \<longleftrightarrow> filter (\<lambda>d. fst d = k) (ac_deletes a) = [(k, Some moment)] \<and> ac_pass a = None \<and>
     dict_get (ac_reset_pending a) k = None \<and> k \<notin> set (ac_deleted a) \<and>
     list_all (\<lambda>t. case t of None \<Rightarrow> True | Some t \<Rightarrow> k \<notin> set (rt_keys t)) (ac_resets a)"

lemma failed_delete_fences:
  assumes o: "reset_overtaken k moment a" and ans: "ans \<noteq> Answered True"
  shows "left_fenced k (acct_step fp (InDeleted k (Some moment) ans) a)"
proof -
  have one: "filter (\<lambda>d. fst d = k) (ac_deletes a) = [(k, Some moment)]" using o by (simp add: reset_overtaken_def)
  then have "(k, Some moment) \<in> set (filter (\<lambda>d. fst d = k) (ac_deletes a))" by simp
  then have mem: "(k, Some moment) \<in> set (ac_deletes a)" by simp
  have "filter (\<lambda>d. fst d = k) (remove1 (k, Some moment) (ac_deletes a)) = []"
    using one by (simp add: filter_remove1)
  then have "list_all (\<lambda>d. fst d \<noteq> k) (remove1 (k, Some moment) (ac_deletes a))"
    by (simp add: filter_empty_conv list_all_iff)
  with o ans mem show ?thesis
    by (auto simp: reset_overtaken_def delete_finish_def restore_fence_def left_fenced_def Let_def dict_get_set
        split: answer.split bool.split)
qed

text \<open>C15: A delete that fails after a concurrent budget reset locks its key. In any state in which one delete
  of key \<open>k\<close> is in flight that began while a reset of the key was pending, and that reset is over, an
  answer of the database other than success restores the fence of the reset. From then on, whatever
  else happens - as long as no listing of due keys names the key again - no reset of the key is pending
  or running, but every new reservation of it is refused as being reset and every update and every
  further delete as being in flight (or as admission closed, when the service does not run).\<close>

theorem failed_delete_leaves_fence:
  assumes "reset_overtaken k moment a" and "ans \<noteq> Answered True" and "0 < k"
    and "c = run_service fp (InDeleted k (Some moment) ans # xs) a" and "list_all (\<lambda>x. \<not> due_again k x) xs"
    and "rv_api_key_id r = Some k" and "dict_get (ac_by_request c) (rv_request_id r) = None"
  shows "dict_get (ac_reset_pending c) k = None \<and>
    list_all (\<lambda>t. case t of None \<Rightarrow> True | Some t \<Rightarrow> k \<notin> set (rt_keys t)) (ac_resets c) \<and>
    admit_session ck r budget spent limits c =
      (c, Refused (if gt_state (ac_gate c) = HRunning \<and> gt_accepting (ac_gate c) then CodeBudgetResetInProgress
         else CodeAdmissionClosed)) \<and>
    update_begin (PyInt k) resets_limiter reset_spent c =
      (c, Refused (if mutable_state c then CodeAccountingInFlight else CodeAdmissionClosed)) \<and>
    delete_begin (PyInt k) c = (c, Refused (if mutable_state c then CodeAccountingInFlight else CodeAdmissionClosed))"
proof -
  have "left_fenced k c"
    using fenced_run[OF failed_delete_fences[OF assms(1,2)] assms(5)] assms(4) by (simp add: run_service_def)
  from fenced_refused[OF this assms(3)] assms(6,7) this show ?thesis by (simp add: left_fenced_def)
qed

theorem failed_delete_leaves_fence_witness:
  "snd (admit_session demo_clock (demo_reservation ''z'' 1 2) None 0 (None, None)
     (demo_run (reset_then_delete @ [InDeleted 1 (Some 5) Broke, InReconcile True]))) = Refused CodeBudgetResetInProgress"
proof -
  define c where "c = run_service ev_event_id [InDeleted 1 (Some 5) Broke, InReconcile True] (demo_run reset_then_delete)"
  have o: "reset_overtaken 1 5 (demo_run reset_then_delete)" by code_simp
  have run: "demo_run (reset_then_delete @ [InDeleted 1 (Some 5) Broke, InReconcile True]) = c"
    by (simp add: c_def demo_run_def run_service_def)
  have d: "list_all (\<lambda>x. \<not> due_again 1 x) [InReconcile True]" by simp
  have q: "dict_get (ac_by_request c) (rv_request_id (demo_reservation ''z'' 1 2)) = None" unfolding c_def by code_simp
  have g: "gt_state (ac_gate c) = HRunning \<and> gt_accepting (ac_gate c)" unfolding c_def by code_simp
  have k: "rv_api_key_id (demo_reservation ''z'' 1 2) = Some 1" by (simp add: demo_reservation_def)
  from failed_delete_leaves_fence[OF o _ _ c_def d k q] g show ?thesis unfolding run by simp
qed

section \<open>A stranded retry\<close>






end
