(* ===== verification/Research_Tokens.thy ===== *)
theory Research_Tokens
  imports Accounting_Contracts
begin

text \<open>
  The context tokens of deep research (\<open>services/deep_research_accounting.py\<close>): a token names a
  research context and its expiry, signed with a secret of the process.

  A moment is a number of microseconds since the start of year 1 (UTC), as Python's \<open>datetime\<close>
  counts them in the Gregorian calendar; it is printed as date and time with fixed widths. The
  signature (HMAC-SHA256 in hexadecimal) is a parameter.
\<close>

section \<open>The calendar\<close>

type_synonym moment = nat

definition leap_year :: "nat \<Rightarrow> bool" where
  "leap_year y \<longleftrightarrow> y mod 4 = 0 \<and> (y mod 100 \<noteq> 0 \<or> y mod 400 = 0)"

definition year_days :: "nat \<Rightarrow> nat" where
  "year_days y = (if leap_year y then 366 else 365)"

definition month_lengths :: "nat \<Rightarrow> nat list" where
  "month_lengths y = [31, if leap_year y then 29 else 28, 31, 30, 31, 30, 31, 31, 30, 31, 30, 31]"

text \<open>Days before January 1 of a year \<open>\<ge> 1\<close>.\<close>

primrec days_before_year :: "nat \<Rightarrow> nat" where
  "days_before_year 0 = 0"
| "days_before_year (Suc y) = (if y = 0 then 0 else days_before_year y + year_days y)"

function year_of_day :: "nat \<Rightarrow> nat \<Rightarrow> nat \<times> nat" where
  "year_of_day y d = (if d < year_days y then (y, d) else year_of_day (Suc y) (d - year_days y))"
  by auto
termination
  by (relation "measure snd") (auto simp: year_days_def)

fun month_of_day :: "nat list \<Rightarrow> nat \<Rightarrow> nat \<times> nat" where
  "month_of_day [] d = (0, d)"
| "month_of_day (n # ns) d =
     (if d < n then (0, d) else let (m, r) = month_of_day ns (d - n) in (Suc m, r))"

definition SECOND :: nat where "SECOND = 1000000"
definition MINUTE :: nat where "MINUTE = 60 * SECOND"
definition HOUR :: nat where "HOUR = 60 * MINUTE"
definition DAY :: nat where "DAY = 24 * HOUR"

text \<open>Python's dates end with the year 9999.\<close>

definition MAX_MOMENT :: moment where
  "MAX_MOMENT = days_before_year 10000 * DAY"

lemma days_before_closed: "days_before_year (Suc y) + y div 100 = 365 * y + y div 4 + y div 400"
proof (induction y)
  case (Suc y)
  have a: "Suc y div n = y div n + (if n dvd Suc y then 1 else 0)" for n by (simp add: div_Suc mod_eq_0_iff_dvd)
  have e: "400 dvd Suc y \<Longrightarrow> 100 dvd Suc y" "100 dvd Suc y \<Longrightarrow> 4 dvd Suc y"
    using dvd_trans[of 100 400 "Suc y"] dvd_trans[of 4 100 "Suc y"] by simp_all
  have s: "days_before_year (Suc (Suc y)) = days_before_year (Suc y) + year_days (Suc y)" by simp
  have l: "year_days (Suc y) = 365 + (if 4 dvd Suc y \<and> (\<not> 100 dvd Suc y \<or> 400 dvd Suc y) then 1 else 0)"
    by (simp add: year_days_def leap_year_def mod_eq_0_iff_dvd del: mod_Suc)
  have count: "\<lbrakk>d + b = 365 * n + a + c; r \<Longrightarrow> q; q \<Longrightarrow> p\<rbrakk> \<Longrightarrow>
      d + (365 + (if p \<and> (\<not> q \<or> r) then 1 else 0)) + (b + (if q then 1 else 0)) =
      365 * Suc n + (a + (if p then 1 else 0)) + (c + (if r then 1 else 0))" for a b c d n :: nat and p q r
    by auto
  show ?case unfolding s l a[of 4] a[of 100] a[of 400] by (rule count[OF Suc.IH e])
qed simp

text \<open>The bound as a number, for evaluation.\<close>

lemma MAX_MOMENT_code [code]: "MAX_MOMENT = 315537897600000000"
proof -
  have "days_before_year 10000 = 3652059" using days_before_closed[of 9999] by simp
  then show ?thesis by (simp add: MAX_MOMENT_def DAY_def HOUR_def MINUTE_def SECOND_def)
qed

section \<open>Expiry\<close>

definition format_expiry :: "moment \<Rightarrow> string" where
  "format_expiry u =
     (let (y, r) = year_of_day 1 (u div DAY);
          (m, d) = month_of_day (month_lengths y) r;
          t = u mod DAY
      in zero_padded 4 y @ zero_padded 2 (m + 1) @ zero_padded 2 (d + 1) @ ''T'' @
         zero_padded 2 (t div HOUR) @ zero_padded 2 (t div MINUTE mod 60) @ zero_padded 2 (t div SECOND mod 60) @
         zero_padded 6 (t mod SECOND) @ ''Z'')"

text \<open>\<open>[0-9]{8}T[0-9]{12}Z\<close>\<close>

definition expiry_shape :: "string \<Rightarrow> bool" where
  "expiry_shape s \<longleftrightarrow> length s = 22 \<and> s ! 8 = CHR ''T'' \<and> s ! 21 = CHR ''Z'' \<and>
     list_all is_digit (take 8 s) \<and> list_all is_digit (take 12 (drop 9 s))"

definition moment_of :: "nat \<Rightarrow> nat \<Rightarrow> nat \<Rightarrow> nat \<Rightarrow> nat \<Rightarrow> nat \<Rightarrow> nat \<Rightarrow> moment option" where
  "moment_of y m d h mi s us =
     (if 1 \<le> y \<and> y \<le> 9999 \<and> 1 \<le> m \<and> m \<le> 12 \<and> 1 \<le> d \<and> d \<le> month_lengths y ! (m - 1) \<and> h < 24 \<and> mi < 60 \<and> s < 60
      then Some ((days_before_year y + sum_list (take (m - 1) (month_lengths y)) + (d - 1)) * DAY +
             h * HOUR + mi * MINUTE + s * SECOND + us)
      else None)"

definition slice :: "nat \<Rightarrow> nat \<Rightarrow> 'a list \<Rightarrow> 'a list" where
  "slice i j s = take (j - i) (drop i s)"

definition parse_expiry :: "string \<Rightarrow> moment option" where
  "parse_expiry s =
     (if \<not> expiry_shape s then None
      else moment_of (number_of (slice 0 4 s)) (number_of (slice 4 6 s)) (number_of (slice 6 8 s))
        (number_of (slice 9 11 s)) (number_of (slice 11 13 s)) (number_of (slice 13 15 s)) (number_of (slice 15 21 s)))"

section \<open>Tokens\<close>

text \<open>\<open>ResearchBroke\<close>: an exception that is no error of the gateway.\<close>

datatype research_error = InvalidContext | ExpiredContext | ResearchRefused accounting_code | ResearchBroke

record delegated_identity =
  di_context_id :: string
  di_expires_at :: moment

definition context_id_ok :: "string \<Rightarrow> bool" where
  "context_id_ok s \<longleftrightarrow> length s = 32 \<and> list_all (\<lambda>c. is_digit c \<or> (65 \<le> code_of c \<and> code_of c \<le> 90) \<or>
     (97 \<le> code_of c \<and> code_of c \<le> 122) \<or> c = CHR ''_'' \<or> c = CHR ''-'') s"

definition signature_ok :: "string \<Rightarrow> bool" where
  "signature_ok s \<longleftrightarrow> length s = 64 \<and> list_all hex_digit s"

text \<open>The checks of the constructor.\<close>

definition identity_ok :: "delegated_identity \<Rightarrow> bool" where
  "identity_ok i \<longleftrightarrow> context_id_ok (di_context_id i) \<and> di_expires_at i < MAX_MOMENT"

definition TOKEN_VERSION :: string where "TOKEN_VERSION = ''dr1''"

definition CONTEXT_TOKEN_MAX_BYTES :: nat where "CONTEXT_TOKEN_MAX_BYTES = 256"

definition unsigned_token :: "delegated_identity \<Rightarrow> string" where
  "unsigned_token i = TOKEN_VERSION @ ''.'' @ di_context_id i @ ''.'' @ format_expiry (di_expires_at i)"

definition encode_token :: "(string \<Rightarrow> string) \<Rightarrow> delegated_identity \<Rightarrow> research_error + string" where
  "encode_token hmac i =
     (let unsigned = unsigned_token i;
          token = unsigned @ ''.'' @ hmac unsigned
      in if length token > CONTEXT_TOKEN_MAX_BYTES then Inl (ResearchRefused CodeInvalidContract) else Inr token)"

text \<open>\<open>now\<close> is \<open>None\<close> when the clock gives no time with a zone.\<close>

definition decode_token :: "(string \<Rightarrow> string) \<Rightarrow> string \<Rightarrow> moment option \<Rightarrow> research_error + delegated_identity" where
  "decode_token hmac token now =
     (if length token > CONTEXT_TOKEN_MAX_BYTES \<or> \<not> all_ascii token then Inl InvalidContext
      else case py_split CHR ''.'' token of
        [version, context_id, encoded_expiry, supplied] \<Rightarrow>
          (if version \<noteq> TOKEN_VERSION \<or> \<not> context_id_ok context_id \<or> \<not> signature_ok supplied then Inl InvalidContext
           else case parse_expiry encoded_expiry of
             None \<Rightarrow> Inl InvalidContext
           | Some expires_at \<Rightarrow>
               (if supplied \<noteq> hmac (version @ ''.'' @ context_id @ ''.'' @ encoded_expiry) then Inl InvalidContext
                else case now of
                  None \<Rightarrow> Inl (ResearchRefused CodeInvalidContract)
                | Some t \<Rightarrow>
                    (if t \<ge> expires_at then Inl ExpiredContext
                     else Inr \<lparr>di_context_id = context_id, di_expires_at = expires_at\<rparr>)))
      | _ \<Rightarrow> Inl InvalidContext)"

section \<open>The calendar round trip\<close>

declare year_of_day.simps [simp del]

lemma year_of_day_spec: "1 \<le> y0 \<Longrightarrow> year_of_day y0 d = (y, r) \<Longrightarrow>
    days_before_year y0 + d = days_before_year y + r \<and> r < year_days y \<and> y0 \<le> y"
proof (induction y0 d rule: year_of_day.induct)
  case (1 y0 d)
  show ?case
  proof (cases "d < year_days y0")
    case True
    with 1(3) show ?thesis by (simp add: year_of_day.simps[of y0])
  next
    case False
    with 1(3) have "year_of_day (Suc y0) (d - year_days y0) = (y, r)" by (simp add: year_of_day.simps[of y0])
    from 1(1)[OF False _ this] 1(2) False show ?thesis by simp
  qed
qed

lemma year_of_day_add: "1 \<le> y0 \<Longrightarrow> y0 \<le> y \<Longrightarrow> r < year_days y \<Longrightarrow>
    year_of_day y0 (days_before_year y - days_before_year y0 + r) = (y, r)"
proof (induction "y - y0" arbitrary: y0)
  case 0
  then show ?case by (simp add: year_of_day.simps[of y0])
next
  case (Suc n)
  then have lt: "Suc y0 \<le> y" by simp
  have mono: "days_before_year (Suc y0) \<le> days_before_year y"
    using lt by (induction rule: dec_induct) auto
  have step: "days_before_year (Suc y0) = days_before_year y0 + year_days y0" using Suc.prems(1) by simp
  have "days_before_year y - days_before_year y0 + r - year_days y0 = days_before_year y - days_before_year (Suc y0) + r"
    using mono step by simp
  moreover have "\<not> days_before_year y - days_before_year y0 + r < year_days y0" using mono step by simp
  moreover have "year_of_day (Suc y0) (days_before_year y - days_before_year (Suc y0) + r) = (y, r)"
    by (rule Suc.hyps(1)) (use Suc lt in auto)
  ultimately show ?case by (simp add: year_of_day.simps[of y0])
qed

lemma days_before_mono: "y \<le> z \<Longrightarrow> days_before_year y \<le> days_before_year z"
  by (induction rule: dec_induct) auto

lemma month_of_day_spec: "month_of_day ns d = (m, r) \<Longrightarrow> d < sum_list ns \<Longrightarrow>
    m < length ns \<and> r < ns ! m \<and> d = sum_list (take m ns) + r"
proof (induction ns arbitrary: d m r)
  case (Cons n ns)
  show ?case
  proof (cases "d < n")
    case False
    obtain m' r' where m: "month_of_day ns (d - n) = (m', r')" by fastforce
    with Cons.prems False have "m = Suc m'" "r = r'" by auto
    have "d - n < sum_list ns" using Cons.prems(2) False by simp
    from Cons.IH[OF m this] False \<open>m = Suc m'\<close> \<open>r = r'\<close> show ?thesis by auto
  qed (use Cons.prems in auto)
qed simp

lemma month_of_day_add: "m < length ns \<Longrightarrow> r < ns ! m \<Longrightarrow> month_of_day ns (sum_list (take m ns) + r) = (m, r)"
proof (induction ns arbitrary: m)
  case (Cons n ns)
  show ?case
  proof (cases m)
    case (Suc m')
    with Cons have "month_of_day ns (sum_list (take m' ns) + r) = (m', r)" by simp
    with Suc show ?thesis by (simp add: add.assoc)
  qed (use Cons in auto)
qed simp

lemma month_lengths_sum: "sum_list (month_lengths y) = year_days y" "length (month_lengths y) = 12"
  by (simp_all add: month_lengths_def year_days_def)

section \<open>The expiry round trip\<close>

lemma time_parts:
  "t mod DAY div HOUR < 24" "t div MINUTE mod 60 < 60" "t div SECOND mod 60 < 60" "t mod SECOND < SECOND"
  "t div HOUR * HOUR + t div MINUTE mod 60 * MINUTE + t div SECOND mod 60 * SECOND + t mod SECOND = t"
proof -
  show "t mod DAY div HOUR < 24" by (rule less_mult_imp_div_less) (simp add: DAY_def HOUR_def MINUTE_def SECOND_def)
  show "t div MINUTE mod 60 < 60" "t div SECOND mod 60 < 60" "t mod SECOND < SECOND" by (simp_all add: SECOND_def)
  have "t div HOUR = t div MINUTE div 60" "t div MINUTE = t div SECOND div 60"
    by (simp_all add: HOUR_def MINUTE_def div_mult2_eq mult.commute)
  moreover have "a div 60 * 60 + a mod 60 = a" for a :: nat by simp
  moreover have "t div SECOND * SECOND + t mod SECOND = t" by simp
  ultimately have "(t div HOUR * 60 + t div MINUTE mod 60) * MINUTE + t div SECOND mod 60 * SECOND + t mod SECOND = t"
    by (metis MINUTE_def add_mult_distrib mult.assoc)
  then show "t div HOUR * HOUR + t div MINUTE mod 60 * MINUTE + t div SECOND mod 60 * SECOND + t mod SECOND = t"
    by (simp add: HOUR_def add_mult_distrib)
qed

lemma time_unique:
  assumes "h < 24" "mi < 60" "s < 60" "us < SECOND"
  defines "t \<equiv> h * HOUR + mi * MINUTE + s * SECOND + us"
  shows "t < DAY" "t div HOUR = h" "t div MINUTE mod 60 = mi" "t div SECOND mod 60 = s" "t mod SECOND = us"
proof -
  have t: "t = ((h * 60 + mi) * 60 + s) * SECOND + us" by (simp add: t_def HOUR_def MINUTE_def algebra_simps)
  have sec: "t div SECOND = (h * 60 + mi) * 60 + s" "t mod SECOND = us" using assms(4) by (simp_all add: t)
  have "t div MINUTE = t div SECOND div 60" "t div HOUR = t div SECOND div 60 div 60"
    by (simp_all add: HOUR_def MINUTE_def div_mult2_eq mult.commute)
  moreover have g: "(a * 60 + b) div 60 = a" "(a * 60 + b) mod 60 = b" if "b < 60" for a b :: nat using that by simp_all
  ultimately show "t div HOUR = h" "t div MINUTE mod 60 = mi" "t div SECOND mod 60 = s" "t mod SECOND = us"
    using sec(2) unfolding sec(1) g(1)[OF assms(3)] g(2)[OF assms(3)] g(1)[OF assms(2)] by (simp_all only: g assms)
  define X where "X = (h * 60 + mi) * 60 + s"
  have "h \<le> 23" "mi \<le> 59" "s \<le> 59" using assms(1,2,3) by simp_all
  then have "h * 3600 + mi * 60 + s < 86400" by linarith
  then have "Suc X \<le> 86400" by (simp add: X_def algebra_simps)
  then have "Suc X * SECOND \<le> 86400 * SECOND" by (rule mult_right_mono) simp
  moreover have "X * SECOND + us < Suc X * SECOND" using assms(4) by simp
  ultimately have "X * SECOND + us < 86400 * SECOND" by (rule less_le_trans[rotated])
  moreover have "86400 * SECOND = DAY" by (simp add: DAY_def HOUR_def MINUTE_def)
  ultimately show "t < DAY" unfolding t X_def by simp
qed

text \<open>What is printed are the fields of the moment, and the fields of a date give it again.\<close>

lemma moment_fields:
  assumes u: "u < MAX_MOMENT" and y: "year_of_day 1 (u div DAY) = (y, r)" and m: "month_of_day (month_lengths y) r = (m, d)"
  shows "moment_of y (m + 1) (d + 1) (u mod DAY div HOUR) (u mod DAY div MINUTE mod 60) (u mod DAY div SECOND mod 60)
      (u mod DAY mod SECOND) = Some u"
    and "y < 10000" "m < 12" "d < 31"
proof -
  have pos: "0 < DAY" by (simp add: DAY_def HOUR_def MINUTE_def SECOND_def)
  from year_of_day_spec[OF _ y] have yr: "u div DAY = days_before_year y + r" "r < year_days y" "1 \<le> y" by simp_all
  have mr: "m < 12" "d < month_lengths y ! m" "r = sum_list (take m (month_lengths y)) + d"
    using month_of_day_spec[OF m] yr(2) by (simp_all add: month_lengths_sum)
  have "u div DAY < days_before_year 10000" using u pos by (simp add: MAX_MOMENT_def less_mult_imp_div_less)
  then show y9: "y < 10000" using yr(1) days_before_mono[of 10000 y] by (cases "10000 \<le> y") auto
  show "m < 12" by (rule mr(1))
  have "month_lengths y ! m \<le> 31"
    using mr(1) by (auto simp: month_lengths_def less_Suc_eq numeral_eq_Suc nth_Cons')
  with mr(2) show "d < 31" by simp
  have "u div DAY * DAY + (u mod DAY div HOUR * HOUR + u mod DAY div MINUTE mod 60 * MINUTE +
      u mod DAY div SECOND mod 60 * SECOND + u mod DAY mod SECOND) = u"
    using time_parts(5)[of "u mod DAY"] by simp
  then show "moment_of y (m + 1) (d + 1) (u mod DAY div HOUR) (u mod DAY div MINUTE mod 60) (u mod DAY div SECOND mod 60)
      (u mod DAY mod SECOND) = Some u"
    using yr mr y9 time_parts(1-3)[of u] time_parts(2,3)[of "u mod DAY"] by (simp add: moment_of_def add.assoc)
qed

lemma moment_unique:
  assumes u: "moment_of y m d h mi s us = Some u" and us: "us < SECOND"
  shows "u < MAX_MOMENT" "year_of_day 1 (u div DAY) = (y, sum_list (take (m - 1) (month_lengths y)) + (d - 1))"
    "month_of_day (month_lengths y) (sum_list (take (m - 1) (month_lengths y)) + (d - 1)) = (m - 1, d - 1)"
    "1 \<le> m" "1 \<le> d" "u mod DAY div HOUR = h" "u mod DAY div MINUTE mod 60 = mi" "u mod DAY div SECOND mod 60 = s" "u mod SECOND = us"
proof -
  from u have v: "1 \<le> y" "y \<le> 9999" "1 \<le> m" "m \<le> 12" "1 \<le> d" "d \<le> month_lengths y ! (m - 1)" "h < 24" "mi < 60" "s < 60"
    and ueq: "u = (days_before_year y + sum_list (take (m - 1) (month_lengths y)) + (d - 1)) * DAY +
      (h * HOUR + mi * MINUTE + s * SECOND + us)" by (auto simp: moment_of_def split: if_splits)
  note tu = time_unique[OF v(7-9) us]
  have pos: "0 < DAY" by (simp add: DAY_def HOUR_def MINUTE_def SECOND_def)
  have udiv: "u div DAY = days_before_year y + (sum_list (take (m - 1) (month_lengths y)) + (d - 1))"
    and umod: "u mod DAY = h * HOUR + mi * MINUTE + s * SECOND + us"
    using tu(1) pos by (simp_all add: ueq)
  show "month_of_day (month_lengths y) (sum_list (take (m - 1) (month_lengths y)) + (d - 1)) = (m - 1, d - 1)"
    by (rule month_of_day_add) (use v in \<open>simp_all add: month_lengths_sum\<close>)
  have "sum_list (take (m - 1) (month_lengths y)) + month_lengths y ! (m - 1) \<le> sum_list (month_lengths y)"
  proof -
    have "month_lengths y = take (m - 1) (month_lengths y) @ month_lengths y ! (m - 1) # drop (Suc (m - 1)) (month_lengths y)"
      by (rule id_take_nth_drop) (use v in \<open>simp add: month_lengths_sum\<close>)
    then have "sum_list (month_lengths y) = sum_list (take (m - 1) (month_lengths y)) +
        (month_lengths y ! (m - 1) + sum_list (drop (Suc (m - 1)) (month_lengths y)))"
      by (metis sum_list.Cons sum_list.append)
    then show ?thesis by simp
  qed
  then have less: "sum_list (take (m - 1) (month_lengths y)) + (d - 1) < year_days y" using v by (simp add: month_lengths_sum)
  show "year_of_day 1 (u div DAY) = (y, sum_list (take (m - 1) (month_lengths y)) + (d - 1))"
    using year_of_day_add[OF _ v(1) less] by (simp add: udiv)
  have "u div DAY < days_before_year (Suc y)" using less v(1) by (simp add: udiv)
  also have "\<dots> \<le> days_before_year 10000" using v(2) by (intro days_before_mono) simp
  finally show "u < MAX_MOMENT" using pos by (simp add: MAX_MOMENT_def div_less_iff_less_mult)
  show "1 \<le> m" "1 \<le> d" using v by simp_all
  show "u mod DAY div HOUR = h" "u mod DAY div MINUTE mod 60 = mi" "u mod DAY div SECOND mod 60 = s" using tu umod by simp_all
  have "u mod SECOND = u mod DAY mod SECOND" by (rule mod_mod_cancel[symmetric]) (simp add: DAY_def HOUR_def MINUTE_def)
  then show "u mod SECOND = us" using tu umod by simp
qed

lemma format_expiry_eq:
  assumes "year_of_day 1 (u div DAY) = (y, r)" and "month_of_day (month_lengths y) r = (m, d)"
  shows "format_expiry u = zero_padded 4 y @ zero_padded 2 (m + 1) @ zero_padded 2 (d + 1) @ ''T'' @
     zero_padded 2 (u mod DAY div HOUR) @ zero_padded 2 (u mod DAY div MINUTE mod 60) @
     zero_padded 2 (u mod DAY div SECOND mod 60) @ zero_padded 6 (u mod DAY mod SECOND) @ ''Z''"
  using assms by (simp add: format_expiry_def Let_def)

text \<open>Strings of the shape of an expiry, cut into fields.\<close>

definition expiry_string :: "string \<Rightarrow> string \<Rightarrow> string \<Rightarrow> string \<Rightarrow> string \<Rightarrow> string \<Rightarrow> string \<Rightarrow> string" where
  "expiry_string y m d h mi s us = y @ m @ d @ ''T'' @ h @ mi @ s @ us @ ''Z''"

lemma expiry_string_slices:
  assumes "length y = 4" "length m = 2" "length d = 2" "length h = 2" "length mi = 2" "length s = 2" "length us = 6"
  defines "e \<equiv> expiry_string y m d h mi s us"
  shows "slice 0 4 e = y" "slice 4 6 e = m" "slice 6 8 e = d" "slice 9 11 e = h" "slice 11 13 e = mi" "slice 13 15 e = s"
    "slice 15 21 e = us" "length e = 22" "e ! 8 = CHR ''T''" "e ! 21 = CHR ''Z''"
    "take 8 e = y @ m @ d" "take 12 (drop 9 e) = h @ mi @ s @ us"
  using assms by (simp_all add: expiry_string_def slice_def nth_append)

lemma expiry_string_of:
  assumes "expiry_shape e"
  shows "e = expiry_string (slice 0 4 e) (slice 4 6 e) (slice 6 8 e) (slice 9 11 e) (slice 11 13 e) (slice 13 15 e) (slice 15 21 e)"
    and "list_all is_digit (slice 0 4 e)" "list_all is_digit (slice 4 6 e)" "list_all is_digit (slice 6 8 e)"
    "list_all is_digit (slice 9 11 e)" "list_all is_digit (slice 11 13 e)" "list_all is_digit (slice 13 15 e)"
    "list_all is_digit (slice 15 21 e)"
proof -
  have l: "length e = 22" and c: "e ! 8 = CHR ''T''" "e ! 21 = CHR ''Z''" and
    d: "list_all is_digit (take 8 e)" "list_all is_digit (take 12 (drop 9 e))" using assms by (auto simp: expiry_shape_def)
  have cut: "slice i k e = slice i j e @ slice j k e" if "i \<le> j" "j \<le> k" for i j k
  proof -
    have k: "k - i = (j - i) + (k - j)" "j - i + i = j" using that by simp_all
    show ?thesis unfolding slice_def k(1) take_add drop_drop k(2) ..
  qed
  have one: "slice i (Suc i) e = [e ! i]" if "i < 22" for i
    using that l by (simp add: slice_def take_Suc_conv_app_nth)
  have "e = slice 0 22 e" using l by (simp add: slice_def)
  also have "\<dots> = slice 0 4 e @ slice 4 6 e @ slice 6 8 e @ slice 8 9 e @ slice 9 11 e @ slice 11 13 e @ slice 13 15 e @
      slice 15 21 e @ slice 21 22 e"
    using cut[of 0 4 22] cut[of 4 6 22] cut[of 6 8 22] cut[of 8 9 22] cut[of 9 11 22] cut[of 11 13 22] cut[of 13 15 22]
      cut[of 15 21 22] by simp
  also have "slice 8 9 e = ''T''" using one[of 8] c by simp
  also have "slice 21 22 e = ''Z''" using one[of 21] c by simp
  finally show "e = expiry_string (slice 0 4 e) (slice 4 6 e) (slice 6 8 e) (slice 9 11 e) (slice 11 13 e) (slice 13 15 e) (slice 15 21 e)"
    unfolding expiry_string_def .
  have digit: "is_digit (e ! i)" if "i < 8 \<or> (9 \<le> i \<and> i < 21)" for i
  proof (cases "i < 8")
    case True
    then show ?thesis using d(1) l by (simp add: list_all_length)
  next
    case False
    then have "i - 9 < length (take 12 (drop 9 e))" using l that by auto
    then have "is_digit (take 12 (drop 9 e) ! (i - 9))" using d(2) unfolding list_all_length by blast
    moreover have "take 12 (drop 9 e) ! (i - 9) = e ! i" using False that l by (auto simp: nth_append)
    ultimately show ?thesis by simp
  qed
  show "list_all is_digit (slice 0 4 e)" "list_all is_digit (slice 4 6 e)" "list_all is_digit (slice 6 8 e)"
    "list_all is_digit (slice 9 11 e)" "list_all is_digit (slice 11 13 e)" "list_all is_digit (slice 13 15 e)"
    "list_all is_digit (slice 15 21 e)"
    using l digit by (auto simp: list_all_length slice_def)
qed

lemma parse_format_expiry: "u < MAX_MOMENT \<Longrightarrow> parse_expiry (format_expiry u) = Some u"
proof -
  assume u: "u < MAX_MOMENT"
  obtain y r where y: "year_of_day 1 (u div DAY) = (y, r)" by fastforce
  obtain m d where m: "month_of_day (month_lengths y) r = (m, d)" by fastforce
  note mf = moment_fields[OF u y m]
  let ?e = "expiry_string (zero_padded 4 y) (zero_padded 2 (m + 1)) (zero_padded 2 (d + 1))
     (zero_padded 2 (u mod DAY div HOUR)) (zero_padded 2 (u mod DAY div MINUTE mod 60))
     (zero_padded 2 (u mod DAY div SECOND mod 60)) (zero_padded 6 (u mod DAY mod SECOND))"
  have e: "format_expiry u = ?e" unfolding expiry_string_def by (rule format_expiry_eq[OF y m])
  note sl = expiry_string_slices[of "zero_padded 4 y" "zero_padded 2 (m + 1)" "zero_padded 2 (d + 1)"
     "zero_padded 2 (u mod DAY div HOUR)" "zero_padded 2 (u mod DAY div MINUTE mod 60)"
     "zero_padded 2 (u mod DAY div SECOND mod 60)" "zero_padded 6 (u mod DAY mod SECOND)", OF zero_padded_digits(2)
     zero_padded_digits(2) zero_padded_digits(2) zero_padded_digits(2) zero_padded_digits(2) zero_padded_digits(2) zero_padded_digits(2)]
  have shape: "expiry_shape ?e" unfolding expiry_shape_def using sl(8-12) by (simp add: zero_padded_digits)
  have "u mod DAY mod SECOND < 10 ^ 6" using time_parts(4)[of "u mod DAY"] by (simp add: SECOND_def)
  moreover have "y < 10 ^ 4" "m + 1 < 10 ^ 2" "d + 1 < 10 ^ 2" using mf(2-4) by simp_all
  moreover have "u mod DAY div HOUR < 10 ^ 2" "u mod DAY div MINUTE mod 60 < 10 ^ 2" "u mod DAY div SECOND mod 60 < 10 ^ 2"
    using time_parts(1)[of u] time_parts(2,3)[of "u mod DAY"] by simp_all
  ultimately show ?thesis
    unfolding e parse_expiry_def sl(1-7) using shape mf(1) by (simp only: number_of_padded if_False if_True not_True_eq_False)
qed

lemma format_parse_expiry: "parse_expiry e = Some u \<Longrightarrow> format_expiry u = e \<and> u < MAX_MOMENT"
proof -
  assume p: "parse_expiry e = Some u"
  then have shape: "expiry_shape e" by (auto simp: parse_expiry_def split: if_splits)
  note es = expiry_string_of[OF shape]
  have l: "length e = 22" using shape by (simp add: expiry_shape_def)
  have len: "length (slice 0 4 e) = 4" "length (slice 4 6 e) = 2" "length (slice 6 8 e) = 2" "length (slice 9 11 e) = 2"
    "length (slice 11 13 e) = 2" "length (slice 13 15 e) = 2" "length (slice 15 21 e) = 6" using l by (simp_all add: slice_def)
  let ?y = "number_of (slice 0 4 e)" and ?m = "number_of (slice 4 6 e)" and ?d = "number_of (slice 6 8 e)"
  have mo: "moment_of ?y ?m ?d (number_of (slice 9 11 e)) (number_of (slice 11 13 e)) (number_of (slice 13 15 e))
      (number_of (slice 15 21 e)) = Some u" using p shape by (simp add: parse_expiry_def)
  have us: "number_of (slice 15 21 e) < SECOND" using number_of_less[OF es(8)] len(7) by (simp add: SECOND_def)
  note mu = moment_unique[OF mo us]
  have repad: "zero_padded w (number_of s) = s" if "list_all is_digit s" "length s = w" for s w
    using padded_number[OF that(1)] that(2) by simp
  have "u mod DAY mod SECOND = number_of (slice 15 21 e)"
    using mu(9) by (metis DAY_def HOUR_def MINUTE_def dvd_triv_right mod_mod_cancel mult.assoc)
  then have "format_expiry u = expiry_string (slice 0 4 e) (slice 4 6 e) (slice 6 8 e) (slice 9 11 e) (slice 11 13 e) (slice 13 15 e) (slice 15 21 e)"
    unfolding format_expiry_eq[OF mu(2,3)] expiry_string_def mu(6-8)
    using mu(4,5) by (simp add: repad[OF es(2) len(1)] repad[OF es(3) len(2)] repad[OF es(4) len(3)] repad[OF es(5) len(4)]
      repad[OF es(6) len(5)] repad[OF es(7) len(6)] repad[OF es(8) len(7)])
  with es(1) mu(1) show ?thesis by simp
qed

section \<open>Tokens are exactly what was issued\<close>

lemma py_split_no: "c \<notin> set s \<Longrightarrow> py_split c s = [s]"
  by (induction s) auto

lemma py_split_append: "c \<notin> set s \<Longrightarrow> py_split c (s @ c # rest) = s # py_split c rest"
  by (induction s) auto

lemma py_split_join: "py_split c s = p # ps \<Longrightarrow> s = p @ concat (map (\<lambda>q. c # q) ps) \<and> list_all (\<lambda>q. c \<notin> set q) (p # ps)"
proof (induction s arbitrary: p ps)
  case (Cons x xs)
  show ?case
  proof (cases "py_split c xs")
    case Nil
    then show ?thesis by (cases xs) (auto split: if_splits list.splits)
  next
    case (Cons q qs)
    note split = Cons
    from Cons.IH[OF split] Cons.prems split show ?thesis by (cases "x = c") auto
  qed
qed simp

lemma expiry_plain: "CHR ''.'' \<notin> set (format_expiry u)" "all_ascii (format_expiry u)" "length (format_expiry u) = 22"
proof -
  obtain y r where y: "year_of_day 1 (u div DAY) = (y, r)" by fastforce
  obtain m d where m: "month_of_day (month_lengths y) r = (m, d)" by fastforce
  have digit: "is_digit c \<Longrightarrow> c \<noteq> CHR ''.''" "is_digit c \<Longrightarrow> code_of c < 128" for c by (auto simp: is_digit_def)
  have "list_all is_digit s \<Longrightarrow> CHR ''.'' \<notin> set s \<and> all_ascii s" for s using digit by (auto simp: list_all_iff all_ascii_def)
  then have pad: "CHR ''.'' \<notin> set (zero_padded w n)" "\<forall>c\<in>set (zero_padded w n). code_of c < 128" for w n
    using zero_padded_digits(1)[of w n] by (auto simp: all_ascii_def)
  show "CHR ''.'' \<notin> set (format_expiry u)" "all_ascii (format_expiry u)" "length (format_expiry u) = 22"
    unfolding format_expiry_eq[OF y m] using pad by (auto simp: all_ascii_def zero_padded_digits)
qed

lemma context_id_plain: "context_id_ok s \<Longrightarrow> CHR ''.'' \<notin> set s \<and> all_ascii s"
  by (auto simp: context_id_ok_def list_all_iff all_ascii_def is_digit_def)

lemma signature_plain: "signature_ok s \<Longrightarrow> CHR ''.'' \<notin> set s \<and> all_ascii s"
  by (auto simp: signature_ok_def list_all_iff all_ascii_def hex_digit_def)

lemma encode_works:
  assumes "identity_ok i" and "\<And>s. signature_ok (hmac s)"
  shows "encode_token hmac i = Inr (unsigned_token i @ ''.'' @ hmac (unsigned_token i))"
proof -
  have "length (di_context_id i) = 32" "length (hmac (unsigned_token i)) = 64"
    using assms by (simp_all add: identity_ok_def context_id_ok_def signature_ok_def)
  moreover have "length (unsigned_token i) = 27 + length (di_context_id i)"
    by (simp add: unsigned_token_def TOKEN_VERSION_def expiry_plain)
  ultimately show ?thesis by (simp add: encode_token_def Let_def CONTEXT_TOKEN_MAX_BYTES_def)
qed

text \<open>C16: A context token is accepted exactly when it is the one that was issued. If the signature function gives
  64 hexadecimal digits, decoding a string succeeds with an identity exactly when the identity is
  well-formed, the string is its encoding, and the expiry lies after the current time: what was
  issued is read back until it expires, and no other spelling of a token is ever accepted.\<close>

theorem token_exact:
  assumes sig: "\<And>s. signature_ok (hmac s)"
  shows "decode_token hmac token (Some now) = Inr i \<longleftrightarrow>
    identity_ok i \<and> encode_token hmac i = Inr token \<and> now < di_expires_at i"
proof
  assume "decode_token hmac token (Some now) = Inr i"
  then obtain context_id e supplied where sp: "py_split CHR ''.'' token = [TOKEN_VERSION, context_id, e, supplied]"
    and ok: "context_id_ok context_id" and e: "parse_expiry e = Some (di_expires_at i)"
    and s: "supplied = hmac (TOKEN_VERSION @ ''.'' @ context_id @ ''.'' @ e)" and now: "now < di_expires_at i"
    and i: "context_id = di_context_id i"
    by (auto simp: decode_token_def split: if_splits list.splits option.splits)
  note fe = format_parse_expiry[OF e]
  have id: "identity_ok i" using ok fe i by (simp add: identity_ok_def)
  have "unsigned_token i = TOKEN_VERSION @ ''.'' @ context_id @ ''.'' @ e" using fe i by (simp add: unsigned_token_def)
  with py_split_join[OF sp] s encode_works[OF id sig] have "encode_token hmac i = Inr token" by simp
  with id now show "identity_ok i \<and> encode_token hmac i = Inr token \<and> now < di_expires_at i" by simp
next
  assume a: "identity_ok i \<and> encode_token hmac i = Inr token \<and> now < di_expires_at i"
  then have id: "identity_ok i" and c: "context_id_ok (di_context_id i)" and x: "di_expires_at i < MAX_MOMENT"
    by (simp_all add: identity_ok_def)
  define sg where "sg = hmac (unsigned_token i)"
  have sg: "signature_ok sg" using sig by (simp add: sg_def)
  have t: "token = TOKEN_VERSION @ CHR ''.'' # di_context_id i @ CHR ''.'' # format_expiry (di_expires_at i) @ CHR ''.'' # sg"
    using a encode_works[OF id sig] by (simp add: unsigned_token_def sg_def)
  have v: "CHR ''.'' \<notin> set TOKEN_VERSION" "all_ascii TOKEN_VERSION" by (simp_all add: TOKEN_VERSION_def all_ascii_def)
  have sp: "py_split CHR ''.'' token = [TOKEN_VERSION, di_context_id i, format_expiry (di_expires_at i), sg]"
    unfolding t using v(1) context_id_plain[OF c] expiry_plain(1) signature_plain[OF sg]
    by (simp add: py_split_append py_split_no)
  have "length token \<le> CONTEXT_TOKEN_MAX_BYTES" using a by (auto simp: encode_token_def Let_def split: if_splits)
  moreover have "all_ascii token" unfolding t using v(2) context_id_plain[OF c] expiry_plain(2) signature_plain[OF sg]
    by (auto simp: all_ascii_def)
  ultimately show "decode_token hmac token (Some now) = Inr i"
    using c sg a by (simp add: decode_token_def sp parse_format_expiry[OF x] sg_def unsigned_token_def)
qed

theorem token_exact_witness:
  "\<exists>token. encode_token (\<lambda>_. replicate 64 CHR ''a'') \<lparr>di_context_id = replicate 32 CHR ''x'', di_expires_at = 7\<rparr> = Inr token \<and>
     decode_token (\<lambda>_. replicate 64 CHR ''a'') token (Some 5) = Inr \<lparr>di_context_id = replicate 32 CHR ''x'', di_expires_at = 7\<rparr>"
proof -
  let ?i = "\<lparr>di_context_id = replicate 32 CHR ''x'', di_expires_at = 7\<rparr>"
  have sig: "signature_ok ((\<lambda>_. replicate 64 CHR ''a'') s)" for s :: string by code_simp
  have "days_before_year 2 \<le> days_before_year 10000" by (rule days_before_mono) simp
  moreover have "days_before_year 2 = 365" by code_simp
  ultimately have "365 * DAY \<le> MAX_MOMENT" by (simp add: MAX_MOMENT_def)
  then have "7 < MAX_MOMENT" by (simp add: DAY_def HOUR_def MINUTE_def SECOND_def)
  moreover have "context_id_ok (replicate 32 CHR ''x'')" by code_simp
  ultimately have id: "identity_ok ?i" by (simp add: identity_ok_def)
  from token_exact[OF sig, of _ 5 ?i] encode_works[OF id sig] id show ?thesis by auto
qed

end
