(* ===== verification/Research_Registry.thy ===== *)
theory Research_Registry
  imports Research_Tokens
begin

text \<open>
  The collector of a research run (\<open>DeepResearchAccountingRegistry\<close> of
  \<open>services/deep_research_accounting.py\<close>): a parent request opens a context, its children are
  prepared under the context's token, bound to their reservations, and end with a receipt or
  without one; sealing waits until all have ended and hands their receipts to the parent's rollup
  event.

  The methods hold a lock and are one step each; \<open>seal\<close> and \<open>cancel\<close> are cut at their wait. The
  mutable slots live in \<open>rg_slots\<close> and are shared by position; \<open>ps_serial\<close> is the identity of a
  parent state. The random identifier of a context is an argument of \<open>begin_context\<close>.
\<close>

section \<open>Data\<close>

record auth_identity =
  au_api_key_id :: "int option"
  au_allowed_models :: "string list"

definition make_auth_identity :: "py_num option \<Rightarrow> string list \<Rightarrow> auth_identity option" where
  "make_auth_identity key models =
     (if (case key of None \<Rightarrow> True | Some (PyInt n) \<Rightarrow> 0 < n | _ \<Rightarrow> False) \<and>
         list_all (\<lambda>m. m \<noteq> [] \<and> m = py_strip m \<and> encoded_length m \<le> 255) models
      then Some \<lparr>au_api_key_id = (case key of Some (PyInt n) \<Rightarrow> Some n | _ \<Rightarrow> None), au_allowed_models = models\<rparr>
      else None)"

record parent_handle =
  ph_context_id :: string
  ph_reservation :: reservation
  ph_gateway_model :: string
  ph_expires_at :: moment

definition make_parent_handle :: "string \<Rightarrow> reservation \<Rightarrow> string \<Rightarrow> moment \<Rightarrow> parent_handle option" where
  "make_parent_handle context_id r model expires =
     (if \<not> context_id_ok context_id then None
      else map_option (\<lambda>m. \<lparr>ph_context_id = context_id, ph_reservation = r, ph_gateway_model = m, ph_expires_at = expires\<rparr>)
        (normalize_gateway_model model))"

definition delegated_identity_of :: "parent_handle \<Rightarrow> delegated_identity" where
  "delegated_identity_of h = \<lparr>di_context_id = ph_context_id h, di_expires_at = ph_expires_at h\<rparr>"

definition rollup_event_id :: "parent_handle \<Rightarrow> string" where
  "rollup_event_id h = rv_request_id (ph_reservation h)"

definition normalize_request_id :: "string \<Rightarrow> string option" where
  "normalize_request_id v =
     (if v = [] \<or> v \<noteq> py_strip v \<or> \<not> all_ascii v \<or> length v > 255 \<or> \<not> printable v then None else Some v)"

record prepared_child =
  pc_context_id :: string
  pc_request_id :: string
  pc_ordinal :: int
  pc_parent_event_id :: string
  pc_auth :: auth_identity

record child_slot =
  cs_prepared :: prepared_child
  cs_reservation :: "reservation option"
  cs_receipt :: "receipt option"
  cs_usage :: "usage option"
  cs_terminal :: bool

record parent_state =
  ps_handle :: parent_handle
  ps_token :: string
  ps_auth :: auth_identity
  ps_drained :: bool
  ps_accepting :: bool
  ps_next_ordinal :: int
  ps_children :: "nat list"
  ps_by_request :: "(string, nat) dict"
  ps_serial :: nat

record registry =
  rg_max_contexts :: int
  rg_max_children :: int
  rg_ttl :: moment
  rg_contexts :: "(string, parent_state) dict"
  rg_by_parent :: "(string, string) dict"
  rg_by_child :: "(string, nat) dict"
  rg_slots :: "child_slot list"
  rg_serials :: nat

text \<open>\<open>ttl\<close> is the \<open>timedelta\<close> of the checked positive number of seconds.\<close>

definition new_registry :: "int \<Rightarrow> int \<Rightarrow> moment \<Rightarrow> registry option" where
  "new_registry max_contexts max_children ttl =
     (if max_contexts \<le> 0 \<or> max_children \<le> 0 then None
      else Some \<lparr>rg_max_contexts = max_contexts, rg_max_children = max_children, rg_ttl = ttl,
        rg_contexts = [], rg_by_parent = [], rg_by_child = [], rg_slots = [], rg_serials = 0\<rparr>)"

record child_admission =
  ca_reservation :: reservation
  ca_parent_event_id :: string
  ca_ordinal :: int

record child_seal =
  se_receipts :: "receipt list"
  se_usage :: usage

section \<open>The parent\<close>

definition begin_context :: "(string \<Rightarrow> string) \<Rightarrow> string \<Rightarrow> reservation \<Rightarrow> string \<Rightarrow> auth_identity \<Rightarrow> moment option \<Rightarrow>
    registry \<Rightarrow> registry \<times> (research_error + parent_handle \<times> string)" where
  "begin_context hmac cid r model auth now g =
     (if rv_api_key_id r \<noteq> au_api_key_id auth then (g, Inl (ResearchRefused CodeInvalidContract))
      else if dict_get (rg_by_parent g) (rv_reservation_id r) \<noteq> None then (g, Inl (ResearchRefused CodeInvalidContract))
      else if int (length (rg_contexts g)) \<ge> rg_max_contexts g then (g, Inl (ResearchRefused CodeInvalidContract))
      else case now of
        None \<Rightarrow> (g, Inl (ResearchRefused CodeInvalidContract))
      | Some t \<Rightarrow>
          (if t + rg_ttl g \<ge> MAX_MOMENT then (g, Inl ResearchBroke)
           else case make_parent_handle cid r model (t + rg_ttl g) of
             None \<Rightarrow> (g, Inl (ResearchRefused CodeInvalidContract))
           | Some h \<Rightarrow>
               (case encode_token hmac (delegated_identity_of h) of
                  Inl e \<Rightarrow> (g, Inl e)
                | Inr token \<Rightarrow>
                    (g\<lparr>rg_contexts := dict_set cid \<lparr>ps_handle = h, ps_token = token, ps_auth = auth, ps_drained = True,
                         ps_accepting = True, ps_next_ordinal = 0, ps_children = [], ps_by_request = [],
                         ps_serial = rg_serials g\<rparr> (rg_contexts g),
                       rg_by_parent := dict_set (rv_reservation_id r) cid (rg_by_parent g),
                       rg_serials := rg_serials g + 1\<rparr>, Inr (h, token)))))"

text \<open>The context of a token; its event identifier is checked when the answer is built. (\<open>prepare_child\<close> repeats the check of the context under its own lock.)\<close>

definition resolve_token :: "(string \<Rightarrow> string) \<Rightarrow> string \<Rightarrow> moment option \<Rightarrow> registry \<Rightarrow>
    research_error + string \<times> parent_state" where
  "resolve_token hmac token now g = (case now of
     None \<Rightarrow> Inl (ResearchRefused CodeInvalidContract)
   | Some t \<Rightarrow>
       (case decode_token hmac token (Some t) of
          Inl e \<Rightarrow> Inl e
        | Inr i \<Rightarrow>
            (case dict_get (rg_contexts g) (di_context_id i) of
               None \<Rightarrow> Inl InvalidContext
             | Some st \<Rightarrow>
                 (if \<not> ps_accepting st \<or> ps_token st \<noteq> token \<or> ph_expires_at (ps_handle st) \<noteq> di_expires_at i
                  then Inl InvalidContext
                  else if normalize_request_id (rollup_event_id (ps_handle st)) = None
                  then Inl (ResearchRefused CodeInvalidContract)
                  else Inr (di_context_id i, st)))))"

section \<open>Children\<close>

definition slot_at :: "nat \<Rightarrow> registry \<Rightarrow> child_slot" where
  "slot_at i g = rg_slots g ! i"

definition prepare_child :: "(string \<Rightarrow> string) \<Rightarrow> string \<Rightarrow> string \<Rightarrow> moment option \<Rightarrow> registry \<Rightarrow>
    registry \<times> (research_error + prepared_child)" where
  "prepare_child hmac token rid now g = (case resolve_token hmac token now g of
     Inl e \<Rightarrow> (g, Inl e)
   | Inr (cid, st) \<Rightarrow>
       (case normalize_request_id rid of
          None \<Rightarrow> (g, Inl (ResearchRefused CodeInvalidContract))
        | Some q \<Rightarrow>
            (case dict_get (ps_by_request st) q of
               Some i \<Rightarrow>
                 (if cs_terminal (slot_at i g) then (g, Inl InvalidContext) else (g, Inr (cs_prepared (slot_at i g))))
             | None \<Rightarrow>
                 (if int (length (ps_children st)) \<ge> rg_max_children g
                  then (g, Inl (ResearchRefused CodeActiveSessionLimit))
                  else let p = \<lparr>pc_context_id = cid, pc_request_id = q, pc_ordinal = ps_next_ordinal st,
                                pc_parent_event_id = rollup_event_id (ps_handle st), pc_auth = ps_auth st\<rparr>;
                           i = length (rg_slots g)
                       in (g\<lparr>rg_slots := rg_slots g @ [\<lparr>cs_prepared = p, cs_reservation = None, cs_receipt = None,
                                cs_usage = None, cs_terminal = False\<rparr>],
                             rg_contexts := dict_set cid (st\<lparr>ps_next_ordinal := ps_next_ordinal st + 1,
                                ps_children := ps_children st @ [i], ps_by_request := dict_set q i (ps_by_request st),
                                ps_drained := False\<rparr>) (rg_contexts g)\<rparr>, Inr p)))))"

definition bind_child :: "prepared_child \<Rightarrow> reservation \<Rightarrow> registry \<Rightarrow> registry \<times> (research_error + child_admission)" where
  "bind_child p r g =
     (let admission = \<lparr>ca_reservation = r, ca_parent_event_id = pc_parent_event_id p, ca_ordinal = pc_ordinal p\<rparr>
      in if rv_request_id r \<noteq> pc_request_id p \<or> rv_api_key_id r \<noteq> au_api_key_id (pc_auth p)
         then (g, Inl (ResearchRefused CodeInvalidContract))
         else case dict_get (rg_contexts g) (pc_context_id p) of
           None \<Rightarrow> (g, Inl InvalidContext)
         | Some st \<Rightarrow>
             (case dict_get (ps_by_request st) (pc_request_id p) of
                None \<Rightarrow> (g, Inl InvalidContext)
              | Some i \<Rightarrow>
                  (let s = slot_at i g
                   in if cs_prepared s \<noteq> p \<or> cs_terminal s then (g, Inl InvalidContext)
                      else case cs_reservation s of
                        None \<Rightarrow>
                          (if dict_get (rg_by_child g) (rv_reservation_id r) \<noteq> None
                           then (g, Inl (ResearchRefused CodeInvalidContract))
                           else (g\<lparr>rg_slots := (rg_slots g)[i := s\<lparr>cs_reservation := Some r\<rparr>],
                                   rg_by_child := dict_set (rv_reservation_id r) i (rg_by_child g)\<rparr>, Inr admission))
                      | Some r0 \<Rightarrow>
                          (if r0 \<noteq> r then (g, Inl (ResearchRefused CodeInvalidContract)) else (g, Inr admission)))))"

text \<open>\<open>list.remove\<close> on slots compares their contents.\<close>

fun remove_slot :: "(nat \<Rightarrow> child_slot) \<Rightarrow> child_slot \<Rightarrow> nat list \<Rightarrow> nat list" where
  "remove_slot f s [] = []"
| "remove_slot f s (i # is) = (if f i = s then is else i # remove_slot f s is)"

definition all_ended :: "nat list \<Rightarrow> registry \<Rightarrow> bool" where
  "all_ended is g \<longleftrightarrow> list_all (\<lambda>i. cs_terminal (slot_at i g)) is"

definition abort_child :: "prepared_child \<Rightarrow> registry \<Rightarrow> registry" where
  "abort_child p g = (case dict_get (rg_contexts g) (pc_context_id p) of
     None \<Rightarrow> g
   | Some st \<Rightarrow>
       (case dict_get (ps_by_request st) (pc_request_id p) of
          None \<Rightarrow> g
        | Some i \<Rightarrow>
            (if cs_prepared (slot_at i g) \<noteq> p \<or> cs_reservation (slot_at i g) \<noteq> None then g
             else let children = remove_slot (\<lambda>j. slot_at j g) (slot_at i g) (ps_children st)
                  in g\<lparr>rg_contexts := dict_set (pc_context_id p)
                    (st\<lparr>ps_by_request := dict_pop (pc_request_id p) (ps_by_request st), ps_children := children,
                        ps_drained := ps_drained st \<or> all_ended children g\<rparr>) (rg_contexts g)\<rparr>)))"

definition finish_slot :: "nat \<Rightarrow> registry \<Rightarrow> registry" where
  "finish_slot i g =
     (let s = slot_at i g;
          g1 = g\<lparr>rg_slots := (rg_slots g)[i := s\<lparr>cs_terminal := True\<rparr>],
                 rg_by_child := (case cs_reservation s of None \<Rightarrow> rg_by_child g
                                 | Some r \<Rightarrow> dict_pop (rv_reservation_id r) (rg_by_child g))\<rparr>;
          cid = pc_context_id (cs_prepared s)
      in case dict_get (rg_contexts g1) cid of
           None \<Rightarrow> g1
         | Some st \<Rightarrow>
             (if all_ended (ps_children st) g1
              then g1\<lparr>rg_contexts := dict_set cid (st\<lparr>ps_drained := True\<rparr>) (rg_contexts g1)\<rparr> else g1))"

definition finish_child_commit :: "(event \<Rightarrow> string) \<Rightarrow> reservation \<Rightarrow> event \<Rightarrow> receipt \<Rightarrow> registry \<Rightarrow>
    registry \<times> (research_error + unit)" where
  "finish_child_commit fp r e rc g = (case dict_get (rg_by_child g) (rv_reservation_id r) of
     None \<Rightarrow> (g, Inr ())
   | Some i \<Rightarrow>
       (let s = slot_at i g
        in if cs_reservation s \<noteq> Some r then (g, Inl (ResearchRefused CodeInvalidContract))
           else if cs_terminal s then
             (if cs_receipt s \<noteq> Some rc then (g, Inl (ResearchRefused CodeInvalidContract)) else (g, Inr ()))
           else if ev_kind e \<noteq> Charge \<or> event.ev_request_id e \<noteq> Some (rv_request_id r) \<or>
               ev_api_key_id e \<noteq> rv_api_key_id r \<or> ev_parent_event_id e \<noteq> Some (pc_parent_event_id (cs_prepared s)) \<or>
               rp_event_id rc \<noteq> ev_event_id e \<or> rp_fingerprint rc \<noteq> fp e
           then (g, Inl (ResearchRefused CodeInvalidContract))
           else (finish_slot i (g\<lparr>rg_slots := (rg_slots g)[i := s\<lparr>cs_receipt := Some rc, cs_usage := Some (ev_usage e)\<rparr>]\<rparr>),
                 Inr ())))"

definition finish_child_release :: "reservation \<Rightarrow> registry \<Rightarrow> registry \<times> (research_error + unit)" where
  "finish_child_release r g = (case dict_get (rg_by_child g) (rv_reservation_id r) of
     None \<Rightarrow> (g, Inr ())
   | Some i \<Rightarrow>
       (if cs_terminal (slot_at i g) then (g, Inr ())
        else if cs_reservation (slot_at i g) \<noteq> Some r then (g, Inl (ResearchRefused CodeInvalidContract))
        else (finish_slot i g, Inr ())))"

section \<open>Sealing\<close>

text \<open>\<open>Inr serial\<close>: the caller waits until the state with that identity is drained.\<close>

definition start_drain :: "parent_handle \<Rightarrow> registry \<Rightarrow> registry \<times> (research_error + nat)" where
  "start_drain h g = (case dict_get (rg_contexts g) (ph_context_id h) of
     None \<Rightarrow> (g, Inl InvalidContext)
   | Some st \<Rightarrow>
       (if ps_handle st \<noteq> h then (g, Inl InvalidContext)
        else (g\<lparr>rg_contexts := dict_set (ph_context_id h) (st\<lparr>ps_accepting := False\<rparr>) (rg_contexts g)\<rparr>,
              Inr (ps_serial st))))"

definition aggregate_child_usage :: "usage list \<Rightarrow> usage option" where
  "aggregate_child_usage us = do {
     require (us \<noteq> []);
     cost \<leftarrow> fsum (map us_cost us);
     saved \<leftarrow> fsum (map us_cost_saved us);
     make_usage \<lparr>ua_prompt = PyInt (\<Sum>u\<leftarrow>us. us_prompt u), ua_completion = PyInt (\<Sum>u\<leftarrow>us. us_completion u),
       ua_total = PyInt (\<Sum>u\<leftarrow>us. us_total u), ua_reasoning = PyInt (\<Sum>u\<leftarrow>us. us_reasoning u),
       ua_cached = PyInt (\<Sum>u\<leftarrow>us. us_cached u), ua_cost = PyFloat cost, ua_cost_saved = PyFloat saved,
       ua_duration_ms = None, ua_ttft_ms = None, ua_is_estimated = list_ex us_is_estimated us,
       ua_cost_unavailable = False\<rparr> }"

definition make_child_seal :: "receipt list \<Rightarrow> usage \<Rightarrow> child_seal option" where
  "make_child_seal rcs u =
     (if rcs = [] \<or> \<not> distinct (map rp_event_id rcs) then None else Some \<lparr>se_receipts = rcs, se_usage = u\<rparr>)"

definition remove_context :: "parent_state \<Rightarrow> registry \<Rightarrow> registry" where
  "remove_context st g = g\<lparr>rg_contexts := dict_pop (ph_context_id (ps_handle st)) (rg_contexts g),
     rg_by_parent := dict_pop (rv_reservation_id (ph_reservation (ps_handle st))) (rg_by_parent g)\<rparr>"

definition child_receipts :: "parent_state \<Rightarrow> registry \<Rightarrow> receipt list" where
  "child_receipts st g = List.map_filter (\<lambda>i. cs_receipt (slot_at i g)) (ps_children st)"

definition child_usages :: "parent_state \<Rightarrow> registry \<Rightarrow> usage list" where
  "child_usages st g =
     List.map_filter (\<lambda>i. if cs_receipt (slot_at i g) = None then None else cs_usage (slot_at i g)) (ps_children st)"

text \<open>\<open>seal\<close> after its wait.\<close>

definition finish_seal :: "parent_handle \<Rightarrow> nat \<Rightarrow> registry \<Rightarrow> registry \<times> (research_error + child_seal)" where
  "finish_seal h serial g = (case dict_get (rg_contexts g) (ph_context_id h) of
     None \<Rightarrow> (g, Inl InvalidContext)
   | Some st \<Rightarrow>
       (if ps_serial st \<noteq> serial then (g, Inl InvalidContext)
        else case aggregate_child_usage (child_usages st g) of
          None \<Rightarrow> (g, Inl (ResearchRefused CodeInvalidContract))
        | Some u \<Rightarrow>
            (remove_context st g,
             (case make_child_seal (child_receipts st g) u of
                None \<Rightarrow> Inl (ResearchRefused CodeInvalidContract) | Some seal \<Rightarrow> Inr seal))))"

definition finish_cancel :: "parent_handle \<Rightarrow> nat \<Rightarrow> registry \<Rightarrow> registry" where
  "finish_cancel h serial g = (case dict_get (rg_contexts g) (ph_context_id h) of
     None \<Rightarrow> g
   | Some st \<Rightarrow> (if ps_serial st = serial then remove_context st g else g))"

definition has_context :: "parent_handle \<Rightarrow> registry \<Rightarrow> bool" where
  "has_context h g \<longleftrightarrow> dict_get (rg_contexts g) (ph_context_id h) \<noteq> None"

section \<open>The rollup event\<close>

definition no_usage :: usage_args where
  "no_usage = \<lparr>ua_prompt = PyInt 0, ua_completion = PyInt 0, ua_total = PyInt 0, ua_reasoning = PyInt 0,
     ua_cached = PyInt 0, ua_cost = PyFloat 0, ua_cost_saved = PyFloat 0, ua_duration_ms = None, ua_ttft_ms = None,
     ua_is_estimated = False, ua_cost_unavailable = False\<rparr>"

definition build_rollup_event :: "parent_handle \<Rightarrow> child_seal \<Rightarrow> py_datetime \<Rightarrow> string option \<Rightarrow> event option" where
  "build_rollup_event h seal occurred_at title = do {
     u \<leftarrow> make_usage no_usage;
     make_event \<lparr>ea_version = PyInt 1, ea_event_id = rollup_event_id h, ea_kind = Rollup,
       ea_api_key_id = map_option PyInt (rv_api_key_id (ph_reservation h)), ea_method = ''POST'',
       ea_route = ''/v1/web/deep-research'', ea_operation = ''web_deep_research'', ea_gateway_model = ph_gateway_model h,
       ea_provider = None, ea_model = None, ea_usage = u, ea_cost_source = SrcReceiptRollup, ea_occurred_at = occurred_at,
       ea_request_id = Some (rv_request_id (ph_reservation h)), ea_parent_event_id = None, ea_components = [],
       ea_child_event_ids = map rp_event_id (se_receipts seal), ea_child_fingerprints = map rp_fingerprint (se_receipts seal),
       ea_upstream_key = None, ea_x_title = title, ea_client_ip = None, ea_user_agent = None, ea_fallback_depth = None\<rparr> }"

end
