(* ===== verification/Research_Runs.thy ===== *)
theory Research_Runs
  imports Research_Registry
begin

text \<open>
  The invariant of the collector over all its runs: its two indexes list exactly the open contexts
  and the bound, unfinished children; a context that is marked as drained has no open child; and the
  receipts a context holds are exactly the commits it was told of, in the order of its children.
\<close>

section \<open>Runs\<close>

datatype reg_op =
  RgBegin string reservation string auth_identity "moment option"
| RgPrepare string string "moment option"
| RgBind prepared_child reservation
| RgAbort prepared_child
| RgCommit reservation event receipt
| RgRelease reservation
| RgDrain parent_handle
| RgSeal parent_handle nat
| RgCancel parent_handle nat

fun reg_step :: "(string \<Rightarrow> string) \<Rightarrow> (event \<Rightarrow> string) \<Rightarrow> reg_op \<Rightarrow> registry \<Rightarrow> registry" where
  "reg_step hmac fp (RgBegin cid r model auth now) g = fst (begin_context hmac cid r model auth now g)"
| "reg_step hmac fp (RgPrepare token rid now) g = fst (prepare_child hmac token rid now g)"
| "reg_step hmac fp (RgBind p r) g = fst (bind_child p r g)"
| "reg_step hmac fp (RgAbort p) g = abort_child p g"
| "reg_step hmac fp (RgCommit r e rc) g = fst (finish_child_commit fp r e rc g)"
| "reg_step hmac fp (RgRelease r) g = fst (finish_child_release r g)"
| "reg_step hmac fp (RgDrain h) g = fst (start_drain h g)"
| "reg_step hmac fp (RgSeal h n) g = fst (finish_seal h n g)"
| "reg_step hmac fp (RgCancel h n) g = finish_cancel h n g"

text \<open>The state a caller of \<open>seal\<close> or \<open>cancel\<close> waited for is drained when it goes on.\<close>

definition waited :: "parent_handle \<Rightarrow> nat \<Rightarrow> registry \<Rightarrow> bool" where
  "waited h n g \<longleftrightarrow> (case dict_get (rg_contexts g) (ph_context_id h) of
     None \<Rightarrow> True | Some st \<Rightarrow> ps_serial st = n \<longrightarrow> ps_drained st)"

text \<open>The random identifier of a new context is not one of an open context.\<close>

fun reg_possible :: "reg_op \<Rightarrow> registry \<Rightarrow> bool" where
  "reg_possible (RgBegin cid r model auth now) g \<longleftrightarrow> dict_get (rg_contexts g) cid = None"
| "reg_possible (RgSeal h n) g \<longleftrightarrow> waited h n g"
| "reg_possible (RgCancel h n) g \<longleftrightarrow> waited h n g"
| "reg_possible _ g \<longleftrightarrow> True"

fun reg_run :: "(string \<Rightarrow> string) \<Rightarrow> (event \<Rightarrow> string) \<Rightarrow> reg_op list \<Rightarrow> registry \<Rightarrow> bool" where
  "reg_run hmac fp [] g \<longleftrightarrow> True"
| "reg_run hmac fp (x # xs) g \<longleftrightarrow> reg_possible x g \<and> reg_run hmac fp xs (reg_step hmac fp x g)"

section \<open>The invariant\<close>

definition slot_ok :: "child_slot \<Rightarrow> bool" where
  "slot_ok s \<longleftrightarrow> (cs_receipt s = None \<longleftrightarrow> cs_usage s = None) \<and> (cs_receipt s \<noteq> None \<longrightarrow> cs_terminal s) \<and>
     (cs_terminal s \<longrightarrow> cs_reservation s \<noteq> None)"

definition child_ok :: "string \<Rightarrow> parent_state \<Rightarrow> registry \<Rightarrow> nat \<Rightarrow> bool" where
  "child_ok cid st g i \<longleftrightarrow> i < length (rg_slots g) \<and> slot_ok (slot_at i g) \<and>
     pc_context_id (cs_prepared (slot_at i g)) = cid \<and> pc_ordinal (cs_prepared (slot_at i g)) < ps_next_ordinal st \<and>
     pc_parent_event_id (cs_prepared (slot_at i g)) = rollup_event_id (ps_handle st) \<and>
     dict_get (ps_by_request st) (pc_request_id (cs_prepared (slot_at i g))) = Some i"

definition ordinal_at :: "registry \<Rightarrow> nat \<Rightarrow> int" where
  "ordinal_at g i = pc_ordinal (cs_prepared (slot_at i g))"

definition context_ok :: "string \<Rightarrow> parent_state \<Rightarrow> registry \<Rightarrow> bool" where
  "context_ok cid st g \<longleftrightarrow> ph_context_id (ps_handle st) = cid \<and> ps_serial st < rg_serials g \<and>
     int (length (ps_children st)) \<le> rg_max_children g \<and> (\<forall>i\<in>set (ps_children st). child_ok cid st g i) \<and>
     sorted_wrt (<) (map (ordinal_at g) (ps_children st)) \<and>
     (\<forall>q i. dict_get (ps_by_request st) q = Some i \<longrightarrow>
        i \<in> set (ps_children st) \<and> pc_request_id (cs_prepared (slot_at i g)) = q) \<and>
     (ps_drained st \<longleftrightarrow> all_ended (ps_children st) g)"

definition contexts_ok :: "registry \<Rightarrow> bool" where
  "contexts_ok g \<longleftrightarrow> (\<forall>cid st. dict_get (rg_contexts g) cid = Some st \<longrightarrow> context_ok cid st g)"

definition serials_ok :: "registry \<Rightarrow> bool" where
  "serials_ok g \<longleftrightarrow> (\<forall>c d st tt. dict_get (rg_contexts g) c = Some st \<longrightarrow> dict_get (rg_contexts g) d = Some tt \<longrightarrow>
     ps_serial st = ps_serial tt \<longrightarrow> c = d)"

definition listed :: "registry \<Rightarrow> nat \<Rightarrow> bool" where
  "listed g i \<longleftrightarrow> (\<exists>cid st. dict_get (rg_contexts g) cid = Some st \<and> i \<in> set (ps_children st))"

definition bound_as :: "child_slot \<Rightarrow> string \<Rightarrow> bool" where
  "bound_as s rid \<longleftrightarrow> (\<exists>r. cs_reservation s = Some r \<and> rv_reservation_id r = rid) \<and> \<not> cs_terminal s"

definition children_indexed :: "registry \<Rightarrow> bool" where
  "children_indexed g \<longleftrightarrow>
     (\<forall>rid i. dict_get (rg_by_child g) rid = Some i \<longleftrightarrow> listed g i \<and> bound_as (slot_at i g) rid)"

definition parents_indexed :: "registry \<Rightarrow> bool" where
  "parents_indexed g \<longleftrightarrow> (\<forall>rid cid. dict_get (rg_by_parent g) rid = Some cid \<longleftrightarrow>
     (\<exists>st. dict_get (rg_contexts g) cid = Some st \<and> rv_reservation_id (ph_reservation (ps_handle st)) = rid))"

definition contexts_bounded :: "registry \<Rightarrow> bool" where
  "contexts_bounded g \<longleftrightarrow> distinct (dict_keys (rg_contexts g)) \<and> int (length (rg_contexts g)) \<le> rg_max_contexts g \<and>
     0 < rg_max_children g"

definition registry_ok :: "registry \<Rightarrow> bool" where
  "registry_ok g \<longleftrightarrow> contexts_ok g \<and> serials_ok g \<and> children_indexed g \<and> parents_indexed g \<and> contexts_bounded g"

lemma registry_okD:
  assumes "registry_ok g"
  shows "contexts_ok g" and "serials_ok g" and "children_indexed g" and "parents_indexed g" and "contexts_bounded g"
  using assms by (auto simp: registry_ok_def)

lemma context_at: "registry_ok g \<Longrightarrow> dict_get (rg_contexts g) cid = Some st \<Longrightarrow> context_ok cid st g"
  by (simp add: registry_ok_def contexts_ok_def)

lemma context_okD:
  assumes "context_ok cid st g"
  shows "ph_context_id (ps_handle st) = cid" and "ps_serial st < rg_serials g"
    and "int (length (ps_children st)) \<le> rg_max_children g"
    and "i \<in> set (ps_children st) \<Longrightarrow> child_ok cid st g i"
    and "sorted_wrt (<) (map (ordinal_at g) (ps_children st))"
    and "dict_get (ps_by_request st) q = Some i \<Longrightarrow>
      i \<in> set (ps_children st) \<and> pc_request_id (cs_prepared (slot_at i g)) = q"
    and "ps_drained st \<longleftrightarrow> all_ended (ps_children st) g"
  using assms by (auto simp: context_ok_def)

lemma child_okD:
  assumes "child_ok cid st g i"
  shows "i < length (rg_slots g)" and "slot_ok (slot_at i g)" and "pc_context_id (cs_prepared (slot_at i g)) = cid"
    and "pc_ordinal (cs_prepared (slot_at i g)) < ps_next_ordinal st"
    and "dict_get (ps_by_request st) (pc_request_id (cs_prepared (slot_at i g))) = Some i"
    and "pc_parent_event_id (cs_prepared (slot_at i g)) = rollup_event_id (ps_handle st)"
  using assms by (auto simp: child_ok_def)

text \<open>A child belongs to one context.\<close>

lemma child_owner:
  assumes ok: "contexts_ok g"
    and a: "dict_get (rg_contexts g) c = Some st" "i \<in> set (ps_children st)"
    and b: "dict_get (rg_contexts g) d = Some tt" "i \<in> set (ps_children tt)"
  shows "c = d \<and> st = tt"
proof -
  have "context_ok c st g" "context_ok d tt g" using ok a(1) b(1) by (auto simp: contexts_ok_def)
  then have "c = d" using child_okD(3)[OF context_okD(4)] a(2) b(2) by metis
  then show ?thesis using a(1) b(1) by simp
qed

lemma children_distinct:
  assumes "context_ok cid st g" shows "distinct (ps_children st)"
proof -
  have "distinct (map (ordinal_at g) (ps_children st))"
    using context_okD(5)[OF assms] by (simp add: strict_sorted_iff)
  then show ?thesis by (simp add: distinct_map)
qed

text \<open>A context whose slots did not change stays well formed.\<close>

lemma slots_frame:
  assumes "\<forall>i\<in>set is. slot_at i g' = slot_at i g"
  shows "map (ordinal_at g') is = map (ordinal_at g) is" and "all_ended is g' = all_ended is g"
  using assms by (auto simp: ordinal_at_def all_ended_def list_all_iff)

lemma context_frame:
  assumes ok: "context_ok cid st g"
    and slots: "\<forall>i\<in>set (ps_children st). slot_at i g' = slot_at i g"
    and len: "length (rg_slots g) \<le> length (rg_slots g')"
    and serials: "rg_serials g \<le> rg_serials g'" and mx: "rg_max_children g' = rg_max_children g"
  shows "context_ok cid st g'"
proof -
  have "child_ok cid st g' i" if i: "i \<in> set (ps_children st)" for i
    using context_okD(4)[OF ok i] slots i len by (simp add: child_ok_def)
  moreover have "i \<in> set (ps_children st) \<and> pc_request_id (cs_prepared (slot_at i g')) = q"
    if i: "dict_get (ps_by_request st) q = Some i" for q i
    using context_okD(6)[OF ok i] slots by simp
  ultimately show ?thesis
    using ok serials mx by (simp add: context_ok_def slots_frame[OF slots])
qed

text \<open>An operation on one open context.\<close>

definition context_change :: "string \<Rightarrow> parent_state \<Rightarrow> parent_state \<Rightarrow> registry \<Rightarrow> registry \<Rightarrow> bool" where
  "context_change cid st st' g g' \<longleftrightarrow>
     dict_get (rg_contexts g) cid = Some st \<and> rg_contexts g' = dict_set cid st' (rg_contexts g) \<and>
     rg_by_parent g' = rg_by_parent g \<and> rg_max_contexts g' = rg_max_contexts g \<and>
     rg_max_children g' = rg_max_children g \<and> rg_serials g' = rg_serials g \<and>
     ps_handle st' = ps_handle st \<and> ps_serial st' = ps_serial st \<and> length (rg_slots g) \<le> length (rg_slots g') \<and>
     (\<forall>c tt. c \<noteq> cid \<longrightarrow> dict_get (rg_contexts g) c = Some tt \<longrightarrow>
        (\<forall>i\<in>set (ps_children tt). slot_at i g' = slot_at i g))"

lemma change_at:
  "context_change cid st st' g g' \<Longrightarrow>
     dict_get (rg_contexts g') c = (if c = cid then Some st' else dict_get (rg_contexts g) c)"
  by (simp add: context_change_def dict_simps)

lemma context_change_ok:
  assumes before: "registry_ok g" and change: "context_change cid st st' g g'"
    and new: "context_ok cid st' g'" and index: "children_indexed g'"
  shows "registry_ok g'"
proof -
  note at = change_at[OF change]
  have found: "dict_get (rg_contexts g) cid = Some st"
    and same: "ps_handle st' = ps_handle st" "ps_serial st' = ps_serial st" "rg_by_parent g' = rg_by_parent g"
    using change by (simp_all add: context_change_def)
  have "contexts_ok g'"
    unfolding contexts_ok_def
  proof (intro allI impI)
    fix c tt assume c: "dict_get (rg_contexts g') c = Some tt"
    show "context_ok c tt g'"
    proof (cases "c = cid")
      case True with c new show ?thesis by (simp add: at)
    next
      case False
      with c have old: "dict_get (rg_contexts g) c = Some tt" by (simp add: at)
      show ?thesis
        by (rule context_frame[OF context_at[OF before old]]) (use change False old in \<open>auto simp: context_change_def\<close>)
    qed
  qed
  moreover have "serials_ok g'"
    using registry_okD(2)[OF before] found same by (auto simp: serials_ok_def at split: if_splits)
  moreover have "parents_indexed g'"
    using registry_okD(4)[OF before] found same by (auto simp: parents_indexed_def at split: if_splits)
  moreover have "contexts_bounded g'"
    using registry_okD(5)[OF before] change length_dict_set_old[OF found]
    by (simp add: contexts_bounded_def context_change_def distinct_dict_set)
  ultimately show ?thesis using index by (simp add: registry_ok_def)
qed

text \<open>The listed children after a change of one context.\<close>

lemma listed_len: "registry_ok g \<Longrightarrow> listed g i \<Longrightarrow> i < length (rg_slots g)"
  using child_okD(1)[OF context_okD(4)[OF context_at]] by (auto simp: listed_def)

lemma listed_new:
  assumes g': "rg_contexts g' = dict_set cid st (rg_contexts g)" and new: "dict_get (rg_contexts g) cid = None"
    and none: "ps_children st = []"
  shows "listed g' i \<longleftrightarrow> listed g i"
proof -
  have "dict_get (rg_contexts g') c = Some tt \<and> i \<in> set (ps_children tt) \<longleftrightarrow>
      dict_get (rg_contexts g) c = Some tt \<and> i \<in> set (ps_children tt)" for c tt
    using new none by (cases "c = cid") (auto simp: g' dict_get_set)
  then show ?thesis by (simp add: listed_def)
qed

lemma listed_change:
  assumes change: "context_change cid st st' g g'" and i: "i \<in> set (ps_children st) \<longleftrightarrow> i \<in> set (ps_children st')"
  shows "listed g' i \<longleftrightarrow> listed g i"
proof -
  have found: "dict_get (rg_contexts g) cid = Some st" using change by (simp add: context_change_def)
  show ?thesis
  proof
    assume "listed g' i"
    then obtain c tt where c: "dict_get (rg_contexts g') c = Some tt" "i \<in> set (ps_children tt)" by (auto simp: listed_def)
    then show "listed g i" using found i by (cases "c = cid") (auto simp: listed_def change_at[OF change])
  next
    assume "listed g i"
    then obtain c tt where c: "dict_get (rg_contexts g) c = Some tt" "i \<in> set (ps_children tt)" by (auto simp: listed_def)
    then have "dict_get (rg_contexts g') c = Some (if c = cid then st' else tt)" using found by (simp add: change_at[OF change])
    moreover have "i \<in> set (ps_children (if c = cid then st' else tt))" using c found i by auto
    ultimately show "listed g' i" unfolding listed_def by blast
  qed
qed

section \<open>Each operation keeps it\<close>

lemma begin_shape:
  assumes g': "g' = fst (begin_context hmac cid r model auth now g)"
  obtains "g' = g"
  | st where "g' = g\<lparr>rg_contexts := dict_set cid st (rg_contexts g),
        rg_by_parent := dict_set (rv_reservation_id r) cid (rg_by_parent g), rg_serials := rg_serials g + 1\<rparr>"
      "dict_get (rg_by_parent g) (rv_reservation_id r) = None" "int (length (rg_contexts g)) < rg_max_contexts g"
      "ps_drained st" "ps_children st = []" "ps_by_request st = []" "ps_serial st = rg_serials g"
      "ph_context_id (ps_handle st) = cid" "ph_reservation (ps_handle st) = r"
  using g' by (auto simp: begin_context_def make_parent_handle_def split: option.splits sum.splits if_splits)

lemma begin_ok:
  assumes ok: "registry_ok g" and fresh: "dict_get (rg_contexts g) cid = None"
  shows "registry_ok (fst (begin_context hmac cid r model auth now g))"
proof (cases rule: begin_shape[OF refl, of hmac cid r model auth now g])
  case 1
  with ok show ?thesis by simp
next
  case (2 st)
  note g' = 2(1) and new = 2(2,3) and st = 2(4-7) and h = 2(8,9)
  let ?g = "g\<lparr>rg_contexts := dict_set cid st (rg_contexts g),
    rg_by_parent := dict_set (rv_reservation_id r) cid (rg_by_parent g), rg_serials := rg_serials g + 1\<rparr>"
  note at = dict_get_set[of cid st "rg_contexts g"] dict_get_set[of "rv_reservation_id r" cid "rg_by_parent g"]
  have "context_ok cid st ?g"
    using st h registry_okD(5)[OF ok] by (simp add: context_ok_def all_ended_def contexts_bounded_def)
  moreover have "context_ok c tt ?g" if "dict_get (rg_contexts g) c = Some tt" for c tt
    by (rule context_frame[OF context_at[OF ok that]]) (simp_all add: slot_at_def)
  ultimately have "contexts_ok ?g" by (auto simp: contexts_ok_def at)
  moreover have "serials_ok ?g"
    using registry_okD(2)[OF ok] context_okD(2)[OF context_at[OF ok]] st(4) fresh
    by (fastforce simp: serials_ok_def at)
  moreover have "children_indexed ?g"
  proof -
    have "listed ?g i = listed g i" for i using listed_new[OF _ fresh st(2)] by simp
    then show ?thesis using registry_okD(3)[OF ok] by (simp add: children_indexed_def slot_at_def)
  qed
  moreover have "parents_indexed ?g"
  proof -
    have "rv_reservation_id (ph_reservation (ps_handle tt)) \<noteq> rv_reservation_id r"
      if "dict_get (rg_contexts g) c = Some tt" for c tt
      using registry_okD(4)[OF ok] new(1) that unfolding parents_indexed_def by (metis option.distinct(1))
    then show ?thesis using registry_okD(4)[OF ok] new(1) h fresh by (auto simp: parents_indexed_def at)
  qed
  moreover have "contexts_bounded ?g"
  proof -
    have "cid \<notin> fst ` set (rg_contexts g)" using fresh by (simp add: map_of_eq_None_iff)
    then show ?thesis using registry_okD(5)[OF ok] new(2) by (simp add: contexts_bounded_def dict_set_new)
  qed
  ultimately show ?thesis using g' by (simp add: registry_ok_def)
qed

lemma resolve_token_found:
  "resolve_token hmac token now g = Inr (cid, st) \<Longrightarrow> dict_get (rg_contexts g) cid = Some st \<and> ps_accepting st"
  by (auto simp: resolve_token_def split: option.splits sum.splits if_splits)

text \<open>A new child.\<close>

lemma new_child_ok:
  assumes ok: "registry_ok g" and found: "dict_get (rg_contexts g) cid = Some st"
    and q: "dict_get (ps_by_request st) q = None" and room: "int (length (ps_children st)) < rg_max_children g"
    and p: "pc_context_id p = cid" "pc_request_id p = q" "pc_ordinal p = ps_next_ordinal st"
      "pc_parent_event_id p = rollup_event_id (ps_handle st)"
    and s: "cs_prepared s = p" "cs_reservation s = None" "cs_receipt s = None" "cs_usage s = None" "\<not> cs_terminal s"
    and i: "i = length (rg_slots g)"
    and st': "st' = st\<lparr>ps_next_ordinal := ps_next_ordinal st + 1, ps_children := ps_children st @ [i],
        ps_by_request := dict_set q i (ps_by_request st), ps_drained := False\<rparr>"
    and g': "g' = g\<lparr>rg_slots := rg_slots g @ [s], rg_contexts := dict_set cid st' (rg_contexts g)\<rparr>"
  shows "registry_ok g'"
proof -
  note old = context_at[OF ok found]
  have slots: "slot_at j g' = slot_at j g" if "j < length (rg_slots g)" for j
    using that by (simp add: g' slot_at_def nth_append)
  have new: "slot_at i g' = s" by (simp add: g' slot_at_def i)
  have mine: "j < length (rg_slots g)" if "j \<in> set (ps_children st)" for j
    using child_okD(1)[OF context_okD(4)[OF old that]] .
  have change: "context_change cid st st' g g'"
    using found child_okD(1)[OF context_okD(4)[OF context_at[OF ok]]] by (auto simp: context_change_def g' st' slot_at_def nth_append)
  have kids: "child_ok cid st' g' j" if j: "j \<in> set (ps_children st)" for j
    using context_okD(4)[OF old j] q slots[OF mine[OF j]]
    by (auto simp: child_ok_def st' g' dict_get_set)
  have kid: "child_ok cid st' g' i"
    using p s new by (simp add: child_ok_def st' slot_ok_def dict_get_set) (simp add: g' i)
  have ords: "map (ordinal_at g') (ps_children st) = map (ordinal_at g) (ps_children st)"
    by (rule slots_frame) (use slots mine in blast)
  have "sorted_wrt (<) (map (ordinal_at g') (ps_children st @ [i]))"
    using context_okD(5)[OF old] child_okD(4)[OF context_okD(4)[OF old]] p(3) s(1)
    by (simp add: ords sorted_wrt_append) (auto simp: ordinal_at_def new slots[OF mine])
  moreover have "i' \<in> set (ps_children st') \<and> pc_request_id (cs_prepared (slot_at i' g')) = q'"
    if "dict_get (ps_by_request st') q' = Some i'" for q' i'
    using that context_okD(6)[OF old, of q' i'] slots[OF mine] p(2) s(1) new by (auto simp: st' dict_get_set split: if_splits)
  ultimately have "context_ok cid st' g'"
    using old kids kid room s(5) new
    by (simp add: context_ok_def st' all_ended_def) (simp add: g')
  moreover have "children_indexed g'"
  proof -
    have same: "listed g' j \<longleftrightarrow> listed g j" if "j \<noteq> i" for j
      by (rule listed_change[OF change]) (use that in \<open>simp add: st'\<close>)
    have "dict_get (rg_by_child g) rid = Some j \<longleftrightarrow> listed g' j \<and> bound_as (slot_at j g') rid" for rid j
    proof (cases "j = i")
      case True
      have "dict_get (rg_by_child g) rid \<noteq> Some i"
        using registry_okD(3)[OF ok] listed_len[OF ok, of i] by (auto simp: children_indexed_def i)
      with True new s(2) show ?thesis by (simp add: bound_as_def)
    next
      case False
      with registry_okD(3)[OF ok] listed_len[OF ok, of j] slots[of j] show ?thesis
        by (auto simp: children_indexed_def same[OF False])
    qed
    then show ?thesis by (simp add: children_indexed_def g')
  qed
  ultimately show ?thesis by (rule context_change_ok[OF ok change])
qed

lemma prepare_shape:
  assumes g': "g' = fst (prepare_child hmac token rid now g)"
  obtains "g' = g"
  | cid st q p where "dict_get (rg_contexts g) cid = Some st" "ps_accepting st" "dict_get (ps_by_request st) q = None"
      "int (length (ps_children st)) < rg_max_children g"
      "p = \<lparr>pc_context_id = cid, pc_request_id = q, pc_ordinal = ps_next_ordinal st,
         pc_parent_event_id = rollup_event_id (ps_handle st), pc_auth = ps_auth st\<rparr>"
      "g' = g\<lparr>rg_slots := rg_slots g @ [\<lparr>cs_prepared = p, cs_reservation = None, cs_receipt = None,
           cs_usage = None, cs_terminal = False\<rparr>],
         rg_contexts := dict_set cid (st\<lparr>ps_next_ordinal := ps_next_ordinal st + 1,
           ps_children := ps_children st @ [length (rg_slots g)],
           ps_by_request := dict_set q (length (rg_slots g)) (ps_by_request st), ps_drained := False\<rparr>) (rg_contexts g)\<rparr>"
proof (cases "g' = g")
  case True
  then show ?thesis by (rule that(1))
next
  case False
  then obtain cid st q where res: "resolve_token hmac token now g = Inr (cid, st)"
    and q: "dict_get (ps_by_request st) q = None" "int (length (ps_children st)) < rg_max_children g"
      "normalize_request_id rid = Some q"
    by (auto simp: g' prepare_child_def split: option.splits sum.splits if_splits)
  show ?thesis
    by (rule that(2)[of cid st q, OF conjunct1[OF resolve_token_found[OF res]] conjunct2[OF resolve_token_found[OF res]]
          q(1,2) refl]) (use q res in \<open>simp add: g' prepare_child_def Let_def\<close>)
qed

lemma prepare_ok:
  assumes ok: "registry_ok g"
  shows "registry_ok (fst (prepare_child hmac token rid now g))"
proof (cases rule: prepare_shape[OF refl, of hmac token rid now g])
  case 1
  with ok show ?thesis by simp
next
  case (2 cid st q p)
  show ?thesis
    by (rule new_child_ok[OF ok 2(1,3,4) _ _ _ _ _ _ _ _ _ refl refl 2(6)]) (simp_all add: 2(5))
qed

text \<open>A child changes.\<close>

lemma slot_at_update:
  "rg_slots g' = (rg_slots g)[i := s] \<Longrightarrow> i < length (rg_slots g) \<Longrightarrow> slot_at j g' = (if j = i then s else slot_at j g)"
  by (simp add: slot_at_def)

lemma child_change_ok:
  assumes ok: "registry_ok g" and found: "dict_get (rg_contexts g) cid = Some st" and i: "i \<in> set (ps_children st)"
    and s: "cs_prepared s = cs_prepared (slot_at i g)" "slot_ok s"
    and slots: "rg_slots g' = (rg_slots g)[i := s]"
    and contexts: "rg_contexts g' = dict_set cid (st\<lparr>ps_drained := d\<rparr>) (rg_contexts g)"
    and d: "d \<longleftrightarrow> all_ended (ps_children st) g'"
    and rest: "rg_by_parent g' = rg_by_parent g" "rg_max_contexts g' = rg_max_contexts g"
      "rg_max_children g' = rg_max_children g" "rg_serials g' = rg_serials g"
    and index: "\<And>rid j. dict_get (rg_by_child g') rid = Some j \<longleftrightarrow>
      (if j = i then bound_as s rid else dict_get (rg_by_child g) rid = Some j)"
  shows "registry_ok g'"
proof -
  let ?st = "st\<lparr>ps_drained := d\<rparr>"
  note old = context_at[OF ok found]
  note at = slot_at_update[OF slots child_okD(1)[OF context_okD(4)[OF old i]]]
  have prep: "cs_prepared (slot_at j g') = cs_prepared (slot_at j g)" for j using s(1) by (simp add: at)
  have change: "context_change cid st ?st g g'"
    using found contexts rest slots child_owner[OF registry_okD(1)[OF ok] found i]
    by (auto simp: context_change_def at)
  have "child_ok cid ?st g' j" if "j \<in> set (ps_children st)" for j
    using context_okD(4)[OF old that] s(2) slots by (auto simp: child_ok_def prep) (simp add: at)
  moreover have "ordinal_at g' = ordinal_at g" by (rule ext) (simp add: ordinal_at_def prep)
  ultimately have "context_ok cid ?st g'"
    using old d rest by (auto simp: context_ok_def prep)
  moreover have "children_indexed g'"
  proof -
    have "listed g' j = listed g j" for j by (rule listed_change[OF change]) simp
    moreover have "listed g i" using found i by (auto simp: listed_def)
    ultimately show ?thesis using registry_okD(3)[OF ok] by (auto simp: children_indexed_def index at)
  qed
  ultimately show ?thesis by (rule context_change_ok[OF ok change])
qed

text \<open>What the index of the children leads to.\<close>

lemma indexed_child:
  assumes ok: "registry_ok g" and i: "dict_get (rg_by_child g) rid = Some i"
  obtains cid st r where "dict_get (rg_contexts g) cid = Some st" "i \<in> set (ps_children st)"
    "cs_reservation (slot_at i g) = Some r" "rv_reservation_id r = rid" "\<not> cs_terminal (slot_at i g)"
    "pc_context_id (cs_prepared (slot_at i g)) = cid" "cs_receipt (slot_at i g) = None"
proof -
  from i registry_okD(3)[OF ok] have "listed g i" and b: "bound_as (slot_at i g) rid" by (auto simp: children_indexed_def)
  then obtain cid st where c: "dict_get (rg_contexts g) cid = Some st" "i \<in> set (ps_children st)" by (auto simp: listed_def)
  note k = child_okD[OF context_okD(4)[OF context_at[OF ok c(1)] c(2)]]
  from b obtain r where "cs_reservation (slot_at i g) = Some r" "rv_reservation_id r = rid" "\<not> cs_terminal (slot_at i g)"
    by (auto simp: bound_as_def)
  with that[OF c] k show ?thesis by (auto simp: slot_ok_def)
qed

lemma requested_child:
  assumes "registry_ok g" and "dict_get (rg_contexts g) cid = Some st" and "dict_get (ps_by_request st) q = Some i"
  shows "i \<in> set (ps_children st)" and "child_ok cid st g i"
  using context_okD(4,6)[OF context_at[OF assms(1,2)]] assms(3) by auto

lemma bind_ok:
  assumes ok: "registry_ok g"
  shows "registry_ok (fst (bind_child p r g))" (is "registry_ok ?g")
proof (cases "?g = g")
  case True
  with ok show ?thesis by simp
next
  case False
  then obtain st i where found: "dict_get (rg_contexts g) (pc_context_id p) = Some st"
    and i: "dict_get (ps_by_request st) (pc_request_id p) = Some i" "\<not> cs_terminal (slot_at i g)"
      "cs_reservation (slot_at i g) = None" "dict_get (rg_by_child g) (rv_reservation_id r) = None"
    and g': "?g = g\<lparr>rg_slots := (rg_slots g)[i := (slot_at i g)\<lparr>cs_reservation := Some r\<rparr>],
      rg_by_child := dict_set (rv_reservation_id r) i (rg_by_child g)\<rparr>"
    by (auto simp: bind_child_def Let_def split: option.splits if_splits)
  note kid = requested_child[OF ok found i(1)]
  note at = slot_at_update[of ?g g i "(slot_at i g)\<lparr>cs_reservation := Some r\<rparr>", OF _ child_okD(1)[OF kid(2)]]
  have ends: "all_ended is ?g = all_ended is g" for "is"
    using at g' i(2) by (auto simp: all_ended_def list_all_iff split: if_splits)
  have none: "dict_get (rg_by_child g) rid \<noteq> Some i" for rid
    using registry_okD(3)[OF ok] i(3) by (auto simp: children_indexed_def bound_as_def)
  show ?thesis
  proof (rule child_change_ok[OF ok found kid(1)])
    show "rg_contexts ?g = dict_set (pc_context_id p) (st\<lparr>ps_drained := ps_drained st\<rparr>) (rg_contexts g)"
      using update_triv[OF found] by (simp add: g')
    show "ps_drained st = all_ended (ps_children st) ?g"
      using context_okD(7)[OF context_at[OF ok found]] by (simp add: ends)
    show "dict_get (rg_by_child ?g) rid = Some j \<longleftrightarrow> (if j = i then bound_as ((slot_at i g)\<lparr>cs_reservation := Some r\<rparr>) rid
        else dict_get (rg_by_child g) rid = Some j)" for rid j
      using none i(2,4) by (auto simp: g' dict_get_set bound_as_def)
  qed (use child_okD(2)[OF kid(2)] i(2) in \<open>auto simp: g' slot_ok_def\<close>)
qed

text \<open>A child ends.\<close>

lemma finish_slot_shape:
  assumes ok: "registry_ok g" and i: "dict_get (rg_by_child g) rid = Some i"
    and s: "cs_prepared s = cs_prepared (slot_at i g)" "cs_reservation s = cs_reservation (slot_at i g)"
    and g': "g' = finish_slot i (g\<lparr>rg_slots := (rg_slots g)[i := s]\<rparr>)"
    and t: "t = s\<lparr>cs_terminal := True\<rparr>"
  obtains cid st d where "dict_get (rg_contexts g) cid = Some st" "i \<in> set (ps_children st)"
    "i < length (rg_slots g)" "pc_context_id (cs_prepared (slot_at i g)) = cid"
    "rg_slots g' = (rg_slots g)[i := t]" "rg_by_child g' = dict_pop rid (rg_by_child g)"
    "rg_contexts g' = dict_set cid (st\<lparr>ps_drained := d\<rparr>) (rg_contexts g)" "d = all_ended (ps_children st) g'"
    "rg_by_parent g' = rg_by_parent g" "rg_max_contexts g' = rg_max_contexts g"
    "rg_max_children g' = rg_max_children g" "rg_serials g' = rg_serials g"
proof -
  obtain cid st r where c: "dict_get (rg_contexts g) cid = Some st" "i \<in> set (ps_children st)"
    "cs_reservation (slot_at i g) = Some r" "rv_reservation_id r = rid" "\<not> cs_terminal (slot_at i g)"
    "pc_context_id (cs_prepared (slot_at i g)) = cid"
    using indexed_child[OF ok i] by metis
  note old = context_at[OF ok c(1)]
  note len = child_okD(1)[OF context_okD(4)[OF old c(2)]]
  have ended: "\<not> ps_drained st" using context_okD(7)[OF old] c(2,5) by (auto simp: all_ended_def list_all_iff)
  define d where "d = all_ended (ps_children st) (g\<lparr>rg_slots := (rg_slots g)[i := t]\<rparr>)"
  have "st\<lparr>ps_drained := False\<rparr> = st" using ended by simp
  then have same: "dict_set cid (st\<lparr>ps_drained := False\<rparr>) (rg_contexts g) = rg_contexts g"
    using update_triv[OF c(1)] by simp
  have slots: "rg_slots g' = (rg_slots g)[i := t]" and index: "rg_by_child g' = dict_pop rid (rg_by_child g)"
    and rest: "rg_by_parent g' = rg_by_parent g" "rg_max_contexts g' = rg_max_contexts g"
      "rg_max_children g' = rg_max_children g" "rg_serials g' = rg_serials g"
    and contexts: "rg_contexts g' = dict_set cid (st\<lparr>ps_drained := d\<rparr>) (rg_contexts g)"
    using s c same len by (auto simp: g' finish_slot_def Let_def slot_at_def t d_def all_ended_def)
  have "d = all_ended (ps_children st) g'" by (simp add: d_def all_ended_def slot_at_def slots)
  with that[OF c(1,2) len c(6) slots index contexts _ rest] show ?thesis by blast
qed

lemma finish_slot_ok:
  assumes ok: "registry_ok g" and i: "dict_get (rg_by_child g) rid = Some i"
    and s: "cs_prepared s = cs_prepared (slot_at i g)" "cs_reservation s = cs_reservation (slot_at i g)"
      "cs_receipt s = None \<longleftrightarrow> cs_usage s = None"
  shows "registry_ok (finish_slot i (g\<lparr>rg_slots := (rg_slots g)[i := s]\<rparr>))" (is "registry_ok ?g")
proof -
  define t where "t = s\<lparr>cs_terminal := True\<rparr>"
  obtain r where r: "cs_reservation (slot_at i g) = Some r" "rv_reservation_id r = rid" using indexed_child[OF ok i] by metis
  from finish_slot_shape[OF ok i s(1,2) refl t_def] show ?thesis
  proof cases
    case (1 cid st d)
    show ?thesis
    proof (rule child_change_ok[OF ok 1(1,2) _ _ 1(5,7,8)])
      show "cs_prepared t = cs_prepared (slot_at i g)" and "slot_ok t" using s r by (simp_all add: t_def slot_ok_def)
      show "dict_get (rg_by_child ?g) x = Some j \<longleftrightarrow>
          (if j = i then bound_as t x else dict_get (rg_by_child g) x = Some j)" for x j
      proof -
        have "dict_get (rg_by_child g) x = Some i \<Longrightarrow> x = rid"
          using registry_okD(3)[OF ok] r by (auto simp: children_indexed_def bound_as_def)
        moreover have "\<not> bound_as t x" by (simp add: t_def bound_as_def)
        ultimately show ?thesis using i unfolding 1(6) dict_get_pop by (cases "x = rid") auto
      qed
    qed (fact 1)+
  qed
qed

lemma commit_child_ok:
  assumes ok: "registry_ok g"
  shows "registry_ok (fst (finish_child_commit fp r e rc g))"
  using ok by (auto simp: finish_child_commit_def Let_def intro: finish_slot_ok split: option.split)

lemma release_child_ok:
  assumes ok: "registry_ok g"
  shows "registry_ok (fst (finish_child_release r g))"
proof (cases "dict_get (rg_by_child g) (rv_reservation_id r)")
  case None
  with ok show ?thesis by (simp add: finish_child_release_def)
next
  case (Some i)
  have "slot_ok (slot_at i g)"
    using indexed_child[OF ok Some] child_okD(2)[OF context_okD(4)[OF context_at[OF ok]]] by metis
  with finish_slot_ok[OF ok Some, of "slot_at i g"] ok Some show ?thesis
    by (simp add: finish_child_release_def slot_ok_def) (simp add: slot_at_def)
qed

text \<open>A child that was not bound is given up.\<close>

lemma remove_slot_first: "i \<in> set is \<Longrightarrow> inj_on f (set is) \<Longrightarrow> remove_slot f (f i) is = remove1 i is"
  by (induction "is") (auto simp: inj_on_def)

lemma slots_differ:
  assumes "context_ok cid st g" shows "inj_on (\<lambda>j. slot_at j g) (set (ps_children st))"
proof -
  have "distinct (map (ordinal_at g) (ps_children st))"
    using context_okD(5)[OF assms] by (simp add: strict_sorted_iff)
  then have "inj_on (ordinal_at g) (set (ps_children st))" by (simp add: distinct_map)
  then show ?thesis by (auto simp: inj_on_def ordinal_at_def)
qed

lemma abort_shape:
  assumes ok: "registry_ok g" and g': "g' = abort_child p g"
  obtains "g' = g"
  | st st' i js where "dict_get (rg_contexts g) (pc_context_id p) = Some st"
      "dict_get (ps_by_request st) (pc_request_id p) = Some i" "cs_prepared (slot_at i g) = p"
      "cs_reservation (slot_at i g) = None" "js = filter (\<lambda>j. j \<noteq> i) (ps_children st)"
      "st' = st\<lparr>ps_by_request := dict_pop (pc_request_id p) (ps_by_request st), ps_children := js,
         ps_drained := ps_drained st \<or> all_ended js g\<rparr>"
      "g' = g\<lparr>rg_contexts := dict_set (pc_context_id p) st' (rg_contexts g)\<rparr>"
proof (cases "g' = g")
  case True
  then show ?thesis by (rule that(1))
next
  case False
  then obtain st i where found: "dict_get (rg_contexts g) (pc_context_id p) = Some st"
    and i: "dict_get (ps_by_request st) (pc_request_id p) = Some i" "cs_prepared (slot_at i g) = p"
      "cs_reservation (slot_at i g) = None"
    by (auto simp: g' abort_child_def Let_def split: option.splits if_splits)
  note old = context_at[OF ok found]
  define js where "js = filter (\<lambda>j. j \<noteq> i) (ps_children st)"
  have rem: "remove_slot (\<lambda>j. slot_at j g) (slot_at i g) (ps_children st) = js"
    using remove_slot_first[OF requested_child(1)[OF ok found i(1)] slots_differ[OF old]] children_distinct[OF old]
    by (simp add: js_def distinct_remove1_removeAll removeAll_filter_not_eq eq_commute[of i])
  show ?thesis
    by (rule that(2)[OF found i js_def refl]) (use found i in \<open>simp add: g' abort_child_def Let_def rem\<close>)
qed

lemma abort_ok:
  assumes ok: "registry_ok g"
  shows "registry_ok (abort_child p g)" (is "registry_ok ?g")
proof (cases rule: abort_shape[OF ok refl, of p])
  case 1
  with ok show ?thesis by simp
next
  case (2 st st' i js)
  note found = 2(1) and i = 2(2-4) and js_def = 2(5) and st'_def = 2(6) and g' = 2(7)
  note old = context_at[OF ok found]
  note kid = requested_child[OF ok found i(1)]
  have slots: "slot_at j ?g = slot_at j g" for j by (simp add: g' slot_at_def)
  have change: "context_change (pc_context_id p) st st' g ?g"
    using found slots unfolding context_change_def by (simp add: g') (simp add: st'_def)
  have "child_ok (pc_context_id p) st' ?g j" if j: "j \<in> set (ps_children st)" "j \<noteq> i" for j
  proof -
    note k = context_okD(4)[OF old j(1)]
    have "pc_request_id (cs_prepared (slot_at j g)) \<noteq> pc_request_id p" using child_okD(5)[OF k] i(1) j(2) by auto
    with k show ?thesis by (simp add: child_ok_def slots st'_def dict_get_pop) (simp add: g')
  qed
  moreover have "ordinal_at ?g = ordinal_at g" by (rule ext) (simp add: ordinal_at_def slots)
  moreover have "j \<in> set js \<and> pc_request_id (cs_prepared (slot_at j ?g)) = q"
    if "dict_get (ps_by_request st') q = Some j" for q j
    using that context_okD(6)[OF old, of q j] i(2) by (auto simp: st'_def js_def slots dict_get_pop split: if_splits)
  moreover have "sorted_wrt (<) (map (ordinal_at g) js)"
    using context_okD(5)[OF old] by (simp add: js_def sorted_wrt_map sorted_wrt_filter)
  moreover have "all_ended ks ?g = all_ended ks g" for ks by (simp add: all_ended_def slots)
  moreover have "all_ended (ps_children st) g \<longrightarrow> all_ended js g" by (auto simp: all_ended_def js_def list_all_iff)
  moreover have "int (length js) \<le> rg_max_children g"
  proof -
    have "length js \<le> length (ps_children st)" by (simp add: js_def)
    then show ?thesis using context_okD(3)[OF old] by linarith
  qed
  ultimately have "context_ok (pc_context_id p) st' ?g"
    using old by (simp add: context_ok_def st'_def js_def) (auto simp: g')
  moreover have "children_indexed ?g"
  proof -
    have "listed ?g j = listed g j" if "j \<noteq> i" for j
      by (rule listed_change[OF change]) (use that in \<open>simp add: st'_def js_def\<close>)
    moreover have "\<not> bound_as (slot_at i g) rid" for rid using i(3) by (simp add: bound_as_def)
    ultimately show ?thesis using registry_okD(3)[OF ok] unfolding children_indexed_def
      by (metis (no_types, lifting) g' slots registry.select_convs(6) registry.surjective registry.update_convs(4))
  qed
  ultimately show ?thesis by (rule context_change_ok[OF ok change])
qed

text \<open>Draining and closing.\<close>

lemma drain_ok:
  assumes ok: "registry_ok g"
  shows "registry_ok (fst (start_drain h g))" (is "registry_ok ?g")
proof (cases "?g = g")
  case True
  with ok show ?thesis by simp
next
  case False
  then obtain st where found: "dict_get (rg_contexts g) (ph_context_id h) = Some st"
    and g': "?g = g\<lparr>rg_contexts := dict_set (ph_context_id h) (st\<lparr>ps_accepting := False\<rparr>) (rg_contexts g)\<rparr>"
    by (auto simp: start_drain_def split: option.splits if_splits)
  note old = context_at[OF ok found]
  have slots: "slot_at j ?g = slot_at j g" for j by (simp add: g' slot_at_def)
  have change: "context_change (ph_context_id h) st (st\<lparr>ps_accepting := False\<rparr>) g ?g"
    using found slots by (simp add: context_change_def g')
  have "ordinal_at ?g = ordinal_at g" by (rule ext) (simp add: ordinal_at_def slots)
  moreover have "child_ok c (st\<lparr>ps_accepting := False\<rparr>) ?g j = child_ok c st g j" for c j
    by (simp add: child_ok_def slots) (simp add: g')
  ultimately have "context_ok (ph_context_id h) (st\<lparr>ps_accepting := False\<rparr>) ?g"
    using old by (simp add: context_ok_def slots all_ended_def) (simp add: g')
  moreover have "children_indexed ?g"
    using registry_okD(3)[OF ok] listed_change[OF change] unfolding children_indexed_def by (simp add: slots) (simp add: g')
  ultimately show ?thesis by (rule context_change_ok[OF ok change])
qed

lemma remove_context_ok:
  assumes ok: "registry_ok g" and found: "dict_get (rg_contexts g) cid = Some st" and drained: "ps_drained st"
  shows "registry_ok (remove_context st g)" (is "registry_ok ?g")
proof -
  note old = context_at[OF ok found]
  let ?rid = "rv_reservation_id (ph_reservation (ps_handle st))"
  have at: "dict_get (rg_contexts ?g) c = (if c = cid then None else dict_get (rg_contexts g) c)" for c
    using context_okD(1)[OF old] by (simp add: remove_context_def dict_get_pop)
  have slots: "slot_at j ?g = slot_at j g" for j by (simp add: remove_context_def slot_at_def)
  have "contexts_ok ?g"
    unfolding contexts_ok_def
  proof (intro allI impI)
    fix c tt assume "dict_get (rg_contexts ?g) c = Some tt"
    then have "dict_get (rg_contexts g) c = Some tt" by (simp add: at split: if_splits)
    from context_frame[OF context_at[OF ok this]] slots show "context_ok c tt ?g" by (simp add: remove_context_def)
  qed
  moreover have "serials_ok ?g" using registry_okD(2)[OF ok] by (auto simp: serials_ok_def at split: if_splits)
  moreover have "children_indexed ?g"
  proof -
    have "listed ?g i \<and> bound_as (slot_at i g) rid \<longleftrightarrow> listed g i \<and> bound_as (slot_at i g) rid" for i rid
    proof (cases "i \<in> set (ps_children st)")
      case True
      then have "cs_terminal (slot_at i g)" using context_okD(7)[OF old] drained by (auto simp: all_ended_def list_all_iff)
      then show ?thesis by (simp add: bound_as_def)
    next
      case False
      then have "listed ?g i = listed g i" using found by (auto simp: listed_def at) (metis option.inject)+
      then show ?thesis by simp
    qed
    then show ?thesis using registry_okD(3)[OF ok] unfolding children_indexed_def
      by (simp add: slots) (simp add: remove_context_def)
  qed
  moreover have "parents_indexed ?g"
  proof -
    have mine: "dict_get (rg_by_parent g) ?rid = Some cid"
      using registry_okD(4)[OF ok] found unfolding parents_indexed_def by blast
    have "dict_get (rg_by_parent ?g) rid = Some c \<longleftrightarrow> rid \<noteq> ?rid \<and> dict_get (rg_by_parent g) rid = Some c" for rid c
      by (simp add: remove_context_def dict_get_pop)
    with registry_okD(4)[OF ok] mine found show ?thesis unfolding parents_indexed_def at
      by (metis option.inject option.distinct(1))
  qed
  moreover have "contexts_bounded ?g"
    using registry_okD(5)[OF ok] length_dict_pop[of "ph_context_id (ps_handle st)" "rg_contexts g"]
    by (simp add: contexts_bounded_def remove_context_def distinct_dict_pop)
  ultimately show ?thesis by (simp add: registry_ok_def)
qed

lemma close_ok:
  assumes "registry_ok g" and "waited h n g"
  shows "registry_ok (fst (finish_seal h n g))" and "registry_ok (finish_cancel h n g)"
  using assms by (auto simp: finish_seal_def finish_cancel_def waited_def intro: remove_context_ok split: option.split)

text \<open>Every possible step keeps the invariant, hence every run does.\<close>

lemma reg_step_ok:
  assumes ok: "registry_ok g" and possible: "reg_possible x g"
  shows "registry_ok (reg_step hmac fp x g)"
proof (cases x)
  case (RgBegin cid r model auth now)
  with assms show ?thesis by (simp add: begin_ok)
qed (use assms in \<open>simp_all add: prepare_ok bind_ok abort_ok commit_child_ok release_child_ok drain_ok close_ok\<close>)

interpretation registry_run: guarded_machine "reg_step hmac fp" registry_ok reg_possible "reg_run hmac fp" for hmac fp
  by unfold_locales (simp_all add: reg_step_ok)

lemma new_registry_ok: "new_registry m k ttl = Some g \<Longrightarrow> registry_ok g"
  by (auto simp: new_registry_def registry_ok_def contexts_ok_def serials_ok_def children_indexed_def listed_def
      parents_indexed_def contexts_bounded_def split: if_splits)

end
