(* ===== verification/Research_Seals.thy ===== *)
theory Research_Seals
  imports Research_Runs "HOL-Library.Multiset" "HOL-Library.Code_Target_Nat" "HOL-Library.Code_Target_Int"
begin

text \<open>
  What a seal contains. \<open>run_log\<close> lists the commits a run told the collector of, as they came;
  \<open>log_ok\<close> says that every open context holds the commits of its own children.
\<close>

section \<open>The commits of a run\<close>

type_synonym commit_entry = "nat \<times> int \<times> receipt \<times> usage"

fun commits_of :: "(event \<Rightarrow> string) \<Rightarrow> reg_op \<Rightarrow> registry \<Rightarrow> commit_entry list" where
  "commits_of fp (RgCommit r e rc) g =
     (case dict_get (rg_by_child g) (rv_reservation_id r) of
        None \<Rightarrow> []
      | Some i \<Rightarrow>
          (if snd (finish_child_commit fp r e rc g) \<noteq> Inr () then []
           else case dict_get (rg_contexts g) (pc_context_id (cs_prepared (slot_at i g))) of
             None \<Rightarrow> [] | Some st \<Rightarrow> [(ps_serial st, ordinal_at g i, rc, ev_usage e)]))"
| "commits_of fp _ g = []"

fun run_log :: "(string \<Rightarrow> string) \<Rightarrow> (event \<Rightarrow> string) \<Rightarrow> reg_op list \<Rightarrow> registry \<Rightarrow> commit_entry list" where
  "run_log hmac fp [] g = []"
| "run_log hmac fp (x # xs) g = commits_of fp x g @ run_log hmac fp xs (reg_step hmac fp x g)"

definition of_context :: "nat \<Rightarrow> commit_entry list \<Rightarrow> (int \<times> receipt \<times> usage) list" where
  "of_context n es = map snd (filter (\<lambda>e. fst e = n) es)"

definition slot_commit :: "child_slot \<Rightarrow> (int \<times> receipt \<times> usage) option" where
  "slot_commit s = (case (cs_receipt s, cs_usage s) of
     (Some rc, Some u) \<Rightarrow> Some (pc_ordinal (cs_prepared s), rc, u) | _ \<Rightarrow> None)"

definition kept_commit :: "registry \<Rightarrow> nat \<Rightarrow> (int \<times> receipt \<times> usage) option" where
  "kept_commit g i = slot_commit (slot_at i g)"

lemma kept_commit_ordinal: "kept_commit g i = Some x \<Longrightarrow> fst x = ordinal_at g i"
  by (auto simp: kept_commit_def slot_commit_def ordinal_at_def split: option.splits)

definition collected :: "parent_state \<Rightarrow> registry \<Rightarrow> (int \<times> receipt \<times> usage) list" where
  "collected st g = List.map_filter (kept_commit g) (ps_children st)"

definition log_ok :: "commit_entry list \<Rightarrow> registry \<Rightarrow> bool" where
  "log_ok es g \<longleftrightarrow> (\<forall>e\<in>set es. fst e < rg_serials g) \<and>
     (\<forall>cid st. dict_get (rg_contexts g) cid = Some st \<longrightarrow>
        distinct (map fst (of_context (ps_serial st) es)) \<and>
        set (of_context (ps_serial st) es) = set (collected st g))"

lemma log_okD:
  assumes "log_ok es g"
  shows "e \<in> set es \<Longrightarrow> fst e < rg_serials g"
    and "dict_get (rg_contexts g) cid = Some st \<Longrightarrow> distinct (map fst (of_context (ps_serial st) es))"
    and "dict_get (rg_contexts g) cid = Some st \<Longrightarrow> set (of_context (ps_serial st) es) = set (collected st g)"
  using assms by (auto simp: log_ok_def)

lemma of_context_append: "of_context n (xs @ ys) = of_context n xs @ of_context n ys"
  by (simp add: of_context_def)

lemma set_map_filter: "set (List.map_filter f xs) = {y. \<exists>x\<in>set xs. f x = Some y}"
  by (induction xs) (auto simp: List.map_filter_simps split: option.split)

lemma collected_set: "x \<in> set (collected st g) \<longleftrightarrow> (\<exists>i\<in>set (ps_children st). kept_commit g i = Some x)"
  by (auto simp: collected_def set_map_filter)

section \<open>Operations that commit nothing\<close>

text \<open>Every context is new and empty, or held the same commits before.\<close>

definition commits_kept :: "registry \<Rightarrow> registry \<Rightarrow> bool" where
  "commits_kept g g' \<longleftrightarrow> rg_serials g \<le> rg_serials g' \<and>
     (\<forall>cid st'. dict_get (rg_contexts g') cid = Some st' \<longrightarrow>
        (ps_serial st' = rg_serials g \<and> ps_children st' = []) \<or>
        (\<exists>st. dict_get (rg_contexts g) cid = Some st \<and> ps_serial st' = ps_serial st \<and>
           set (collected st' g') = set (collected st g)))"

lemma commits_kept_refl: "commits_kept g g"
  by (simp add: commits_kept_def)

lemma log_kept:
  assumes log: "log_ok es g" and kept: "commits_kept g g'"
  shows "log_ok es g'"
proof -
  have "distinct (map fst (of_context (ps_serial st') es)) \<and>
      set (of_context (ps_serial st') es) = set (collected st' g')"
    if st': "dict_get (rg_contexts g') cid = Some st'" for cid st'
  proof -
    from kept[unfolded commits_kept_def] st' consider "ps_serial st' = rg_serials g" "ps_children st' = []"
      | st where "dict_get (rg_contexts g) cid = Some st" "ps_serial st' = ps_serial st"
          "set (collected st' g') = set (collected st g)"
      by blast
    then show ?thesis
    proof cases
      case 1
      then have "of_context (ps_serial st') es = []" using log_okD(1)[OF log] by (fastforce simp: of_context_def filter_empty_conv)
      with 1 show ?thesis by (simp add: collected_def List.map_filter_simps)
    next
      case 2
      with log_okD(2,3)[OF log 2(1)] show ?thesis by simp
    qed
  qed
  moreover have "\<forall>e\<in>set es. fst e < rg_serials g'"
    using log_okD(1)[OF log] kept by (fastforce simp: commits_kept_def)
  ultimately show ?thesis unfolding log_ok_def by blast
qed

text \<open>The commits of a context whose children kept theirs.\<close>

lemma kept_commit_same:
  assumes "cs_receipt (slot_at i g') = cs_receipt (slot_at i g)" and "cs_usage (slot_at i g') = cs_usage (slot_at i g)"
    and "cs_prepared (slot_at i g') = cs_prepared (slot_at i g)"
  shows "kept_commit g' i = kept_commit g i"
  using assms by (simp add: kept_commit_def slot_commit_def split: option.split)

lemma collected_same:
  assumes "set (ps_children st') = set (ps_children st)" and "\<forall>i\<in>set (ps_children st). kept_commit g' i = kept_commit g i"
  shows "set (collected st' g') = set (collected st g)"
  using assms by (auto simp: collected_set)

text \<open>It is enough to look at the contexts that were there and at their slots.\<close>

lemma commits_keptI:
  assumes serials: "rg_serials g \<le> rg_serials g'"
    and ctx: "\<And>cid st'. dict_get (rg_contexts g') cid = Some st' \<Longrightarrow> ps_serial st' = rg_serials g \<and> ps_children st' = [] \<or>
      (\<exists>st. dict_get (rg_contexts g) cid = Some st \<and> ps_serial st' = ps_serial st \<and>
         (\<forall>i\<in>set (ps_children st'). i \<in> set (ps_children st) \<or> kept_commit g' i = None) \<and>
         (\<forall>i\<in>set (ps_children st). i \<in> set (ps_children st') \<or> kept_commit g i = None))"
    and slots: "\<And>i. listed g i \<Longrightarrow> kept_commit g' i = kept_commit g i"
  shows "commits_kept g g'"
  unfolding commits_kept_def
proof (intro conjI allI impI)
  fix cid st' assume st': "dict_get (rg_contexts g') cid = Some st'"
  from ctx[OF this] show "(ps_serial st' = rg_serials g \<and> ps_children st' = []) \<or>
    (\<exists>st. dict_get (rg_contexts g) cid = Some st \<and> ps_serial st' = ps_serial st \<and>
       set (collected st' g') = set (collected st g))"
  proof (elim disjE exE conjE)
    fix st assume st: "dict_get (rg_contexts g) cid = Some st" "ps_serial st' = ps_serial st"
      and new: "\<forall>i\<in>set (ps_children st'). i \<in> set (ps_children st) \<or> kept_commit g' i = None"
      and old: "\<forall>i\<in>set (ps_children st). i \<in> set (ps_children st') \<or> kept_commit g i = None"
    have "kept_commit g' i = kept_commit g i" if "i \<in> set (ps_children st)" for i
      using slots that st(1) by (auto simp: listed_def)
    with new old have "x \<in> set (collected st' g') \<longleftrightarrow> x \<in> set (collected st g)" for x
      unfolding collected_set by (metis option.distinct(1))
    with st show ?thesis by blast
  qed simp
qed (fact serials)

lemma begin_kept:
  assumes "dict_get (rg_contexts g) cid = None"
  shows "commits_kept g (fst (begin_context hmac cid r model auth now g))"
proof (cases rule: begin_shape[OF refl, of hmac cid r model auth now g])
  case 1
  then show ?thesis by (simp add: commits_kept_refl)
next
  case (2 st)
  show ?thesis unfolding 2(1)
    by (rule commits_keptI) (auto simp: dict_get_set 2(5,7) kept_commit_def slot_at_def split: if_splits)
qed

lemma prepare_kept:
  assumes ok: "registry_ok g"
  shows "commits_kept g (fst (prepare_child hmac token rid now g))"
proof (cases rule: prepare_shape[OF refl, of hmac token rid now g])
  case 1
  then show ?thesis by (simp add: commits_kept_refl)
next
  case (2 cid st q p)
  show ?thesis unfolding 2(6)
  proof (rule commits_keptI)
    fix i assume "listed g i"
    from listed_len[OF ok this] show "kept_commit (g\<lparr>rg_slots := rg_slots g @ [\<lparr>cs_prepared = p, cs_reservation = None,
        cs_receipt = None, cs_usage = None, cs_terminal = False\<rparr>], rg_contexts := dict_set cid
        (st\<lparr>ps_next_ordinal := ps_next_ordinal st + 1, ps_children := ps_children st @ [length (rg_slots g)],
          ps_by_request := dict_set q (length (rg_slots g)) (ps_by_request st), ps_drained := False\<rparr>) (rg_contexts g)\<rparr>) i
      = kept_commit g i"
      by (simp add: kept_commit_def slot_at_def nth_append)
  qed (use 2(1) in \<open>auto simp: dict_get_set kept_commit_def slot_commit_def slot_at_def nth_append split: if_splits\<close>)
qed

text \<open>A change of a slot that leaves its receipt alone.\<close>

lemma slot_change_kept:
  assumes "rg_serials g' = rg_serials g"
    and "\<And>cid st'. dict_get (rg_contexts g') cid = Some st' \<Longrightarrow>
      \<exists>st. dict_get (rg_contexts g) cid = Some st \<and> ps_serial st' = ps_serial st \<and> ps_children st' = ps_children st"
    and "\<And>i. kept_commit g' i = kept_commit g i"
  shows "commits_kept g g'"
  by (rule commits_keptI) (use assms in fastforce)+

lemma bind_kept: "commits_kept g (fst (bind_child p r g))"
proof (cases "fst (bind_child p r g) = g")
  case True
  then show ?thesis by (simp add: commits_kept_refl)
next
  case False
  then obtain i where g': "fst (bind_child p r g) = g\<lparr>rg_slots := (rg_slots g)[i := (slot_at i g)\<lparr>cs_reservation := Some r\<rparr>],
      rg_by_child := dict_set (rv_reservation_id r) i (rg_by_child g)\<rparr>"
    by (auto simp: bind_child_def Let_def split: option.splits if_splits)
  have "cs_receipt (slot_at j (fst (bind_child p r g))) = cs_receipt (slot_at j g) \<and>
      cs_usage (slot_at j (fst (bind_child p r g))) = cs_usage (slot_at j g) \<and>
      cs_prepared (slot_at j (fst (bind_child p r g))) = cs_prepared (slot_at j g)" for j
    unfolding g' by (cases "i < length (rg_slots g)") (auto simp: slot_at_def nth_list_update list_update_beyond)
  then show ?thesis by (intro slot_change_kept kept_commit_same) (auto simp: g')
qed

lemma abort_kept:
  assumes ok: "registry_ok g"
  shows "commits_kept g (abort_child p g)"
proof (cases rule: abort_shape[OF ok refl, of p])
  case 1
  then show ?thesis by (simp add: commits_kept_refl)
next
  case (2 st st' i js)
  have "slot_ok (slot_at i g)" using child_okD(2)[OF requested_child(2)[OF ok 2(1,2)]] .
  then have none: "kept_commit g i = None" using 2(4) by (auto simp: slot_ok_def kept_commit_def slot_commit_def split: option.split)
  show ?thesis unfolding 2(7)
    by (rule commits_keptI) (use none 2(1) in \<open>auto simp: dict_get_set 2(5,6) kept_commit_def slot_at_def split: if_splits\<close>)
qed

lemma drain_kept: "commits_kept g (fst (start_drain h g))"
  by (rule slot_change_kept) (auto simp: start_drain_def dict_get_set kept_commit_def slot_at_def
      split: option.splits if_splits)

lemma remove_kept: "commits_kept g (remove_context st g)"
  by (rule slot_change_kept) (auto simp: remove_context_def dict_get_pop kept_commit_def slot_at_def
      split: if_splits)

lemma close_kept: "commits_kept g (fst (finish_seal h n g))" "commits_kept g (finish_cancel h n g)"
  by (auto simp: finish_seal_def finish_cancel_def intro: remove_kept commits_kept_refl split: option.split)

lemma release_kept:
  assumes ok: "registry_ok g"
  shows "commits_kept g (fst (finish_child_release r g))"
proof (cases "fst (finish_child_release r g) = g")
  case True
  then show ?thesis by (simp add: commits_kept_refl)
next
  case False
  then obtain i where i: "dict_get (rg_by_child g) (rv_reservation_id r) = Some i"
    and g': "fst (finish_child_release r g) = finish_slot i (g\<lparr>rg_slots := (rg_slots g)[i := slot_at i g]\<rparr>)"
    by (auto simp: finish_child_release_def slot_at_def split: option.splits if_splits)
  from finish_slot_shape[OF ok i refl refl g' refl] show ?thesis
  proof cases
    case (1 cid st d)
    have "kept_commit (fst (finish_child_release r g)) j = kept_commit g j" for j
      using slot_at_update[OF 1(5,3)] by (intro kept_commit_same) auto
    then show ?thesis using 1(1) by (intro slot_change_kept) (auto simp: 1(7,12) dict_get_set split: if_splits)
  qed
qed

section \<open>A commit\<close>

lemma commit_kept:
  assumes ok: "registry_ok g" and log: "log_ok es g"
  shows "log_ok (es @ commits_of fp (RgCommit r e rc) g) (fst (finish_child_commit fp r e rc g))" (is "log_ok ?es ?g")
proof (cases "?g = g")
  case True
  have "commits_of fp (RgCommit r e rc) g = []"
  proof (rule ccontr)
    assume "commits_of fp (RgCommit r e rc) g \<noteq> []"
    then obtain i where i: "dict_get (rg_by_child g) (rv_reservation_id r) = Some i"
      and acc: "snd (finish_child_commit fp r e rc g) = Inr ()" by (auto split: option.splits if_splits)
    from indexed_child[OF ok i] have live: "\<not> cs_terminal (slot_at i g)" by metis
    let ?s = "(slot_at i g)\<lparr>cs_receipt := Some rc, cs_usage := Some (ev_usage e)\<rparr>"
    have g': "?g = finish_slot i (g\<lparr>rg_slots := (rg_slots g)[i := ?s]\<rparr>)"
      using i acc live by (auto simp: finish_child_commit_def Let_def split: if_splits)
    have "cs_prepared ?s = cs_prepared (slot_at i g)" "cs_reservation ?s = cs_reservation (slot_at i g)" by simp_all
    from finish_slot_shape[OF ok i this g' refl] have "dict_get (rg_by_child ?g) (rv_reservation_id r) = None"
      by (metis dict_get_pop)
    with True i show False by simp
  qed
  with True log show ?thesis by simp
next
  case False
  then obtain i where i: "dict_get (rg_by_child g) (rv_reservation_id r) = Some i"
    and acc: "snd (finish_child_commit fp r e rc g) = Inr ()"
    and g': "?g = finish_slot i (g\<lparr>rg_slots := (rg_slots g)[i :=
        (slot_at i g)\<lparr>cs_receipt := Some rc, cs_usage := Some (ev_usage e)\<rparr>]\<rparr>)"
    by (auto simp: finish_child_commit_def Let_def split: option.splits if_splits)
  define s where "s = (slot_at i g)\<lparr>cs_receipt := Some rc, cs_usage := Some (ev_usage e)\<rparr>"
  have same: "cs_prepared s = cs_prepared (slot_at i g)" "cs_reservation s = cs_reservation (slot_at i g)"
    by (simp_all add: s_def)
  have empty: "kept_commit g i = None"
  proof -
    have "cs_receipt (slot_at i g) = None" using indexed_child[OF ok i] by metis
    then show ?thesis by (simp add: kept_commit_def slot_commit_def)
  qed
  from finish_slot_shape[OF ok i same g'[folded s_def] refl] show ?thesis
  proof cases
    case (1 cid st d)
    note found = 1(1) and mine = 1(2)
    let ?c = "(ordinal_at g i, rc, ev_usage e)"
    have es: "?es = es @ [(ps_serial st, ?c)]" using i acc found 1(4) by simp
    have kept: "kept_commit ?g j = (if j = i then Some ?c else kept_commit g j)" for j
      using slot_at_update[OF 1(5,3), of j] by (simp add: kept_commit_def slot_commit_def ordinal_at_def s_def)
    have serial: "ps_serial tt = ps_serial st \<longleftrightarrow> c = cid" if "dict_get (rg_contexts g) c = Some tt" for c tt
      using registry_okD(2)[OF ok] found that unfolding serials_ok_def by (metis option.inject)
    have other: "set (collected tt ?g) = set (collected tt g)" if "dict_get (rg_contexts g) c = Some tt" "c \<noteq> cid" for c tt
      by (rule collected_same) (use child_owner[OF registry_okD(1)[OF ok] found mine that(1)] that(2) in \<open>auto simp: kept\<close>)
    have own: "set (collected (st\<lparr>ps_drained := d\<rparr>) ?g) = insert ?c (set (collected st g))"
    proof (rule set_eqI)
      fix x
      have "(\<exists>j\<in>set (ps_children st). kept_commit ?g j = Some x) \<longleftrightarrow>
          x = ?c \<or> (\<exists>j\<in>set (ps_children st). kept_commit g j = Some x)"
        unfolding kept using mine empty by (metis option.distinct(1) option.inject)
      then show "x \<in> set (collected (st\<lparr>ps_drained := d\<rparr>) ?g) \<longleftrightarrow> x \<in> insert ?c (set (collected st g))"
        by (simp add: collected_set)
    qed
    have fresh: "ordinal_at g i \<notin> fst ` set (collected st g)"
    proof
      assume "ordinal_at g i \<in> fst ` set (collected st g)"
      then obtain j where j: "j \<in> set (ps_children st)" "kept_commit g j \<noteq> None" "ordinal_at g j = ordinal_at g i"
        using kept_commit_ordinal by (fastforce simp: collected_set)
      have "inj_on (ordinal_at g) (set (ps_children st))"
        using context_okD(5)[OF context_at[OF ok found]] by (simp add: strict_sorted_iff distinct_map)
      with j mine have "j = i" by (auto dest: inj_onD)
      with j(2) empty show False by simp
    qed
    show ?thesis
      unfolding log_ok_def
    proof (intro conjI allI impI)
      show "\<forall>x\<in>set ?es. fst x < rg_serials ?g"
        using log_okD(1)[OF log] context_okD(2)[OF context_at[OF ok found]] unfolding es 1(12) by auto
      fix c tt assume "dict_get (rg_contexts ?g) c = Some tt"
      then consider "c = cid" "tt = st\<lparr>ps_drained := d\<rparr>" | "c \<noteq> cid" "dict_get (rg_contexts g) c = Some tt"
        by (auto simp: 1(7) dict_get_set split: if_splits)
      then have "distinct (map fst (of_context (ps_serial tt) ?es)) \<and>
        set (of_context (ps_serial tt) ?es) = set (collected tt ?g)"
      proof cases
        case 1
        have "set (map fst (of_context (ps_serial st) es)) = fst ` set (collected st g)"
          using log_okD(3)[OF log found] by simp
        with 1 log_okD(2,3)[OF log found] fresh own show ?thesis
          unfolding es of_context_append by (simp add: of_context_def)
      next
        case 2
        with log_okD(2,3)[OF log 2(2)] other[OF 2(2,1)] serial[OF 2(2)] show ?thesis
          unfolding es of_context_append by (simp add: of_context_def)
      qed
      then show "distinct (map fst (of_context (ps_serial tt) ?es))"
        and "set (of_context (ps_serial tt) ?es) = set (collected tt ?g)" by simp_all
    qed
  qed
qed

lemma log_step:
  assumes ok: "registry_ok g" and possible: "reg_possible x g" and log: "log_ok es g"
  shows "log_ok (es @ commits_of fp x g) (reg_step hmac fp x g)"
proof (cases x)
  case (RgCommit r e rc)
  with commit_kept[OF ok log] show ?thesis by simp
qed (use assms in \<open>simp_all add: log_kept begin_kept prepare_kept bind_kept abort_kept release_kept drain_kept close_kept\<close>)

lemma log_run:
  "registry_ok g \<Longrightarrow> reg_run hmac fp xs g \<Longrightarrow> log_ok es g \<Longrightarrow>
     log_ok (es @ run_log hmac fp xs g) (fold (reg_step hmac fp) xs g)"
proof (induction xs arbitrary: g es)
  case (Cons x xs)
  then show ?case using log_step[of g x es fp hmac] reg_step_ok[of g x hmac fp] by (fastforce simp flip: append_assoc)
qed simp

section \<open>A seal\<close>

lemma collected_sorted:
  assumes "context_ok cid st g"
  shows "sorted_wrt (<) (map fst (collected st g))"
proof -
  have "map fst (collected st g) = map (ordinal_at g) (filter (\<lambda>i. kept_commit g i \<noteq> None) (ps_children st))"
    unfolding collected_def List.map_filter_def using kept_commit_ordinal by auto
  then show ?thesis using context_okD(5)[OF assms] by (simp add: sorted_wrt_map sorted_wrt_filter)
qed

lemma sorted_commits:
  assumes "sorted_wrt (<) (map fst xs)" and "distinct (map fst ys)" and "set ys = set xs"
  shows "sort_key fst ys = (xs :: (int \<times> 'b) list)"
proof (rule sort_key_inj_key_eq)
  have "distinct ys" "distinct xs" using assms(1,2) by (auto simp: strict_sorted_iff distinct_map)
  with assms(3) show "mset ys = mset xs" by (simp add: set_eq_iff_mset_eq_distinct)
  show "inj_on fst (set ys)" using assms(2) by (simp add: distinct_map)
  show "sorted (map fst xs)" using assms(1) by (simp add: strict_sorted_iff)
qed

lemma collected_parts:
  assumes "\<forall>i\<in>set is. slot_ok (slot_at i g)"
  shows "List.map_filter (\<lambda>i. cs_receipt (slot_at i g)) is = map (\<lambda>c. fst (snd c)) (List.map_filter (kept_commit g) is)"
    and "List.map_filter (\<lambda>i. if cs_receipt (slot_at i g) = None then None else cs_usage (slot_at i g)) is =
      map (\<lambda>c. snd (snd c)) (List.map_filter (kept_commit g) is)"
  using assms
  by (induction "is") (auto simp: List.map_filter_simps kept_commit_def slot_commit_def slot_ok_def split: option.splits)

lemma aggregate_sums:
  assumes "aggregate_child_usage us = Some u"
  shows "us_prompt u = (\<Sum>v\<leftarrow>us. us_prompt v)" and "us_completion u = (\<Sum>v\<leftarrow>us. us_completion v)"
    and "us_cost u = (\<Sum>v\<leftarrow>us. us_cost v)"
proof -
  have i: "normalize_int b (PyInt n) = Some m \<Longrightarrow> m = n" for b n m by (auto simp: contract_simps split: if_splits)
  have f: "normalize_float b (PyFloat q) = Some r \<Longrightarrow> r = q" for b q r by (auto simp: contract_simps split: if_splits)
  show "us_prompt u = (\<Sum>v\<leftarrow>us. us_prompt v)" "us_completion u = (\<Sum>v\<leftarrow>us. us_completion v)"
    "us_cost u = (\<Sum>v\<leftarrow>us. us_cost v)"
    using assms by (auto simp: aggregate_child_usage_def make_usage_def dest!: i f fsum_sum split: bind_splits if_splits)
qed

text \<open>C7: A seal lists exactly the receipts of the children that committed under the context, in the order
  in which the children were prepared, none twice; the tokens and the cost it reports are the sums
  over their events; and when it is given no child of the context is still open. This holds for
  every run of the collector from the start, whatever other parents and children do in between.\<close>

theorem seal_collects_every_commit:
  assumes "new_registry m k ttl = Some g0" and "reg_run hmac fp xs g0" and "g = fold (reg_step hmac fp) xs g0"
    and "waited h n g" and "finish_seal h n g = (g', Inr seal)"
    and "E = sort_key fst (of_context n (run_log hmac fp xs g0))"
  shows "se_receipts seal = map (\<lambda>c. fst (snd c)) E \<and> distinct (map rp_event_id (se_receipts seal)) \<and>
    us_prompt (se_usage seal) = (\<Sum>c\<leftarrow>E. us_prompt (snd (snd c))) \<and>
    us_completion (se_usage seal) = (\<Sum>c\<leftarrow>E. us_completion (snd (snd c))) \<and>
    us_cost (se_usage seal) = (\<Sum>c\<leftarrow>E. us_cost (snd (snd c))) \<and>
    (\<forall>rid i. dict_get (rg_by_child g) rid = Some i \<longrightarrow>
       pc_context_id (cs_prepared (slot_at i g)) \<noteq> ph_context_id h) \<and> \<not> has_context h g'"
proof -
  have ok: "registry_ok g"
    using registry_run.run_invar[OF new_registry_ok[OF assms(1)] assms(2)] by (simp add: assms(3))
  have "log_ok [] g0" using assms(1) by (auto simp: new_registry_def log_ok_def split: if_splits)
  with log_run[OF new_registry_ok[OF assms(1)] assms(2)] have log: "log_ok (run_log hmac fp xs g0) g"
    by (fastforce simp: assms(3))
  from assms(5) obtain st u where found: "dict_get (rg_contexts g) (ph_context_id h) = Some st" and n: "ps_serial st = n"
    and u: "aggregate_child_usage (child_usages st g) = Some u" and seal: "make_child_seal (child_receipts st g) u = Some seal"
    and g': "g' = remove_context st g"
    by (auto simp: finish_seal_def split: option.splits if_splits)
  note old = context_at[OF ok found]
  have E: "E = collected st g"
    using sorted_commits[OF collected_sorted[OF old] log_okD(2,3)[OF log found]] by (simp add: assms(6) n)
  have slots: "\<forall>i\<in>set (ps_children st). slot_ok (slot_at i g)" using child_okD(2)[OF context_okD(4)[OF old]] by blast
  have rcs: "child_receipts st g = map (\<lambda>c. fst (snd c)) E" and us: "child_usages st g = map (\<lambda>c. snd (snd c)) E"
    using collected_parts[OF slots] by (simp_all add: child_receipts_def child_usages_def E collected_def)
  have parts: "se_receipts seal = child_receipts st g" "se_usage seal = u" "distinct (map rp_event_id (child_receipts st g))"
    using seal by (auto simp: make_child_seal_def split: if_splits)
  have "ps_drained st" using assms(4) found n by (simp add: waited_def)
  then have ended: "all_ended (ps_children st) g" using context_okD(7)[OF old] by simp
  have closed: "pc_context_id (cs_prepared (slot_at i g)) \<noteq> ph_context_id h"
    if i: "dict_get (rg_by_child g) rid = Some i" for rid i
  proof
    assume c: "pc_context_id (cs_prepared (slot_at i g)) = ph_context_id h"
    from indexed_child[OF ok i] obtain tt where "dict_get (rg_contexts g) (ph_context_id h) = Some tt"
      "i \<in> set (ps_children tt)" "\<not> cs_terminal (slot_at i g)" using c by metis
    with found ended show False by (auto simp: all_ended_def list_all_iff)
  qed
  have "\<not> has_context h g'"
    using context_okD(1)[OF old] by (simp add: has_context_def g' remove_context_def dict_get_pop)
  with closed parts aggregate_sums[OF u] show ?thesis
    by (auto simp: rcs us split_beta comp_def)
qed

text \<open>Two children are prepared; the second commits first.\<close>

definition study_hmac :: "string \<Rightarrow> string" where
  "study_hmac s = replicate 64 CHR ''a''"

definition study_context :: string where
  "study_context = replicate 32 CHR ''c''"

definition study_parent :: reservation where
  "study_parent = \<lparr>rv_reservation_id = ''p'', rv_request_id = ''req'', rv_api_key_id = Some 1, rv_reserved_usd = 0\<rparr>"

definition study_auth :: auth_identity where
  "study_auth = \<lparr>au_api_key_id = Some 1, au_allowed_models = []\<rparr>"

definition study_handle :: parent_handle where
  "study_handle = \<lparr>ph_context_id = study_context, ph_reservation = study_parent, ph_gateway_model = ''m'', ph_expires_at = 10\<rparr>"

definition study_child :: "string \<Rightarrow> int \<Rightarrow> prepared_child" where
  "study_child q n = \<lparr>pc_context_id = study_context, pc_request_id = q, pc_ordinal = n, pc_parent_event_id = ''req'',
     pc_auth = study_auth\<rparr>"

definition study_bound :: "string \<Rightarrow> reservation" where
  "study_bound q = \<lparr>rv_reservation_id = q, rv_request_id = q, rv_api_key_id = Some 1, rv_reserved_usd = 0\<rparr>"

definition study_charge :: "string \<Rightarrow> int \<Rightarrow> rat \<Rightarrow> event" where
  "study_charge q n cost = \<lparr>ev_event_id = q, ev_kind = Charge, ev_api_key_id = Some 1, ev_method = ''POST'',
     ev_route = ''r'', ev_operation = ''chat'', ev_gateway_model = ''m'', ev_provider = None, ev_model = None,
     ev_usage = sample_usage n 0 cost, ev_cost_source = SrcUpstream, ev_occurred_at = Instant 0, ev_request_id = Some q,
     ev_parent_event_id = Some ''req'', ev_components = [], ev_child_event_ids = [], ev_child_fingerprints = [],
     ev_upstream_key = None, ev_x_title = None, ev_client_ip = None, ev_user_agent = None, ev_fallback_depth = None\<rparr>"

definition study_receipt :: "string \<Rightarrow> receipt" where
  "study_receipt q = \<lparr>rp_source_status = SourceAccepted, rp_projection_status = ProjPending, rp_event_id = q,
     rp_fingerprint = q, rp_usage_row_id = None, rp_child_event_ids = [], rp_child_fingerprints = []\<rparr>"

definition study_run :: "reg_op list" where
  "study_run = (let token = unsigned_token (delegated_identity_of study_handle) @ ''.'' @ study_hmac [] in
     [RgBegin study_context study_parent ''m'' study_auth (Some 4),
      RgPrepare token ''a'' (Some 5), RgPrepare token ''b'' (Some 5),
      RgBind (study_child ''a'' 0) (study_bound ''a''), RgBind (study_child ''b'' 1) (study_bound ''b''),
      RgCommit (study_bound ''b'') (study_charge ''b'' 2 1) (study_receipt ''b''), RgDrain study_handle,
      RgCommit (study_bound ''a'') (study_charge ''a'' 3 2) (study_receipt ''a'')])"

definition study_start :: registry where
  "study_start = \<lparr>rg_max_contexts = 2, rg_max_children = 2, rg_ttl = 6, rg_contexts = [], rg_by_parent = [],
     rg_by_child = [], rg_slots = [], rg_serials = 0\<rparr>"

definition study_end :: registry where
  "study_end = fold (reg_step study_hmac ev_event_id) study_run study_start"

theorem seal_collects_every_commit_witness:
  "\<exists>g' seal. finish_seal study_handle 0 study_end = (g', Inr seal) \<and>
     map rp_event_id (se_receipts seal) = [''a'', ''b''] \<and> us_prompt (se_usage seal) = 5 \<and> us_cost (se_usage seal) = 3"
proof -
  have new: "new_registry 2 2 6 = Some study_start" by (simp add: new_registry_def study_start_def)
  have run: "reg_run study_hmac ev_event_id study_run study_start" by code_simp
  have wait: "waited study_handle 0 study_end" by code_simp
  have "snd (finish_seal study_handle 0 study_end) =
      Inr \<lparr>se_receipts = [study_receipt ''a'', study_receipt ''b''], se_usage = sample_usage 5 0 3\<rparr>" by code_simp
  then obtain g' seal where seal: "finish_seal study_handle 0 study_end = (g', Inr seal)" by (metis surj_pair snd_conv)
  have log: "sort_key fst (of_context 0 (run_log study_hmac ev_event_id study_run study_start)) =
      [(0, study_receipt ''a'', sample_usage 3 0 2), (1, study_receipt ''b'', sample_usage 2 0 1)]" by code_simp
  from seal_collects_every_commit[OF new run study_end_def wait seal log[symmetric]] seal show ?thesis
    by (auto simp: study_receipt_def sample_usage_def)
qed

end
