(* ===== verification/Runtime_Graph.thy ===== *)
theory Runtime_Graph
  imports Gateway_Prelude
begin

text \<open>
  The mutable objects of a configuration (\<open>_mutable_graph_ids\<close> of \<open>services/runtime_config.py\<close>).

  Python objects are entries of a heap under their identity (\<open>id\<close>), with what the function asks of
  them: what they are instances of, their items, fields and attributes, and what their class says.
  Objects may refer to each other in cycles, and the recursion may be too deep for the interpreter or
  meet a field that is not set. The main result compares the walk with two relations that are stated
  kind by kind: which object refers to which, and which object can be changed.
\<close>

section \<open>Objects\<close>

text \<open>A class attribute that should name fields: absent (or \<open>None\<close>), a mapping by field name, or
  anything else.\<close>

datatype class_value = NoValue | FieldNames "string list" | OtherValue

text \<open>The model attributes of a class: \<open>model_fields\<close>, \<open>__fields__\<close>, \<open>model_config\<close> (key and truth value of
  each entry, when it is a mapping), and for a class \<open>Config\<close> its \<open>allow_mutation\<close> when that is a bool.\<close>

record py_class =
  pc_model_fields :: class_value
  pc_fields :: class_value
  pc_model_config :: "(string, bool) dict option"
  pc_config :: "bool option option"

text \<open>
  \<open>MappingObject\<close> has its items and the flag that it is a \<open>MappingProxyType\<close>. \<open>DataObject\<close> has the \<open>frozen\<close>
  of its \<open>__dataclass_params__\<close> if there are any, the names of its fields and the attributes that are set.
  \<open>Instance\<close> is any other object: its class, its attributes, and its \<open>vars\<close> if it has one.
\<close>

datatype py_object =
  Scalar
| MappingObject bool "(nat \<times> nat) list"
| ListObject "nat list"
| SetObject "nat list"
| ByteArray
| TupleObject "nat list"
| FrozenSet "nat list"
| DataObject "bool option" "string list" "(string, nat) dict"
| Instance py_class "(string, nat) dict" "(string, nat) dict option"

text \<open>\<open>hp_room\<close> is how many calls of \<open>visit\<close> the recursion limit leaves inside each other. Identity 0 is \<open>None\<close>;
  an identity without entry is an object without attributes.\<close>

record py_heap =
  hp_objects :: "(nat, py_object) dict"
  hp_room :: nat

definition NONE_ID :: nat where "NONE_ID = 0"

definition plain_class :: py_class where
  "plain_class = \<lparr>pc_model_fields = NoValue, pc_fields = NoValue, pc_model_config = Some [], pc_config = None\<rparr>"

definition object_at :: "py_heap \<Rightarrow> nat \<Rightarrow> py_object" where
  "object_at h v = (if v = NONE_ID then Scalar
     else case dict_get (hp_objects h) v of None \<Rightarrow> Instance plain_class [] None | Some x \<Rightarrow> x)"

definition model_fields :: "py_class \<Rightarrow> string list option" where
  "model_fields c =
     (case (if pc_model_fields c = NoValue then pc_fields c else pc_model_fields c) of
        FieldNames ns \<Rightarrow> Some ns | _ \<Rightarrow> None)"

definition model_frozen :: "py_class \<Rightarrow> bool" where
  "model_frozen c =
     (let frozen = (case pc_model_config c of
            None \<Rightarrow> False
          | Some d \<Rightarrow> (case dict_get d ''frozen'' of None \<Rightarrow> False | Some b \<Rightarrow> b))
      in if pc_config c = Some (Some False) then True else frozen)"

text \<open>What \<open>visit\<close> is called with next, in its order; \<open>None\<close> where \<open>getattr\<close> raises instead.\<close>

fun visited_next :: "py_object \<Rightarrow> nat option list" where
  "visited_next Scalar = []"
| "visited_next (MappingObject proxy items) = concat (map (\<lambda>(key, item). [Some key, Some item]) items)"
| "visited_next (ListObject vs) = map Some vs"
| "visited_next (SetObject vs) = map Some vs"
| "visited_next ByteArray = []"
| "visited_next (TupleObject vs) = map Some vs"
| "visited_next (FrozenSet vs) = map Some vs"
| "visited_next (DataObject params names attrs) = map (dict_get attrs) names"
| "visited_next (Instance c attrs vars) = (case model_fields c of
     Some names \<Rightarrow> map (\<lambda>n. case dict_get attrs n of None \<Rightarrow> Some NONE_ID | Some v \<Rightarrow> Some v) names
   | None \<Rightarrow> (case vars of None \<Rightarrow> [] | Some d \<Rightarrow> map (\<lambda>(n, v). Some v) d))"

fun is_mutable :: "py_object \<Rightarrow> bool" where
  "is_mutable Scalar \<longleftrightarrow> False"
| "is_mutable (MappingObject proxy items) \<longleftrightarrow> \<not> proxy"
| "is_mutable (ListObject vs) \<longleftrightarrow> True"
| "is_mutable (SetObject vs) \<longleftrightarrow> True"
| "is_mutable ByteArray \<longleftrightarrow> True"
| "is_mutable (TupleObject vs) \<longleftrightarrow> False"
| "is_mutable (FrozenSet vs) \<longleftrightarrow> False"
| "is_mutable (DataObject params names attrs) \<longleftrightarrow> (case params of None \<Rightarrow> True | Some frozen \<Rightarrow> \<not> frozen)"
| "is_mutable (Instance c attrs vars) \<longleftrightarrow>
     (case model_fields c of Some names \<Rightarrow> \<not> model_frozen c | None \<Rightarrow> vars \<noteq> None)"

section \<open>The walk\<close>

datatype graph_error = GraphTooDeep | GraphUnset

type_synonym walk = "nat set \<times> nat set"

text \<open>The loops that visit the items of an object; the error of a call ends them.\<close>

fun visit_each :: "(nat \<Rightarrow> walk \<Rightarrow> graph_error + walk) \<Rightarrow> nat option list \<Rightarrow> walk \<Rightarrow> graph_error + walk" where
  "visit_each call [] s = Inr s"
| "visit_each call (None # vs) s = Inl GraphUnset"
| "visit_each call (Some v # vs) s = (case call v s of Inl e \<Rightarrow> Inl e | Inr s' \<Rightarrow> visit_each call vs s')"

primrec visit :: "py_heap \<Rightarrow> nat \<Rightarrow> nat \<Rightarrow> walk \<Rightarrow> graph_error + walk" where
  "visit h 0 v s = Inl GraphTooDeep"
| "visit h (Suc room) v s =
     (let x = object_at h v; (visited, found) = s
      in if x = Scalar \<or> v \<in> visited then Inr s
         else visit_each (visit h room) (visited_next x)
           (insert v visited, if is_mutable x then insert v found else found))"

definition mutable_graph_ids :: "py_heap \<Rightarrow> nat \<Rightarrow> graph_error + nat set" where
  "mutable_graph_ids h v = (case visit h (hp_room h) v ({}, {}) of
     Inl e \<Rightarrow> Inl e | Inr (visited, found) \<Rightarrow> Inr found)"

section \<open>References and changeable objects\<close>

inductive declares :: "py_class \<Rightarrow> string list \<Rightarrow> bool" where
  model_names: "pc_model_fields c = FieldNames ns \<Longrightarrow> declares c ns"
| older_names: "pc_model_fields c = NoValue \<Longrightarrow> pc_fields c = FieldNames ns \<Longrightarrow> declares c ns"

inductive forbids_changes :: "py_class \<Rightarrow> bool" where
  frozen_config: "pc_model_config c = Some d \<Longrightarrow> dict_get d ''frozen'' = Some True \<Longrightarrow> forbids_changes c"
| no_mutation: "pc_config c = Some (Some False) \<Longrightarrow> forbids_changes c"

inductive refers :: "py_heap \<Rightarrow> nat \<Rightarrow> nat \<Rightarrow> bool" for h where
  key: "object_at h u = MappingObject proxy items \<Longrightarrow> (k, i) \<in> set items \<Longrightarrow> refers h u k"
| item: "object_at h u = MappingObject proxy items \<Longrightarrow> (k, i) \<in> set items \<Longrightarrow> refers h u i"
| in_list: "object_at h u = ListObject vs \<Longrightarrow> v \<in> set vs \<Longrightarrow> refers h u v"
| in_set: "object_at h u = SetObject vs \<Longrightarrow> v \<in> set vs \<Longrightarrow> refers h u v"
| in_tuple: "object_at h u = TupleObject vs \<Longrightarrow> v \<in> set vs \<Longrightarrow> refers h u v"
| in_frozenset: "object_at h u = FrozenSet vs \<Longrightarrow> v \<in> set vs \<Longrightarrow> refers h u v"
| data_field: "object_at h u = DataObject params names attrs \<Longrightarrow> n \<in> set names \<Longrightarrow> dict_get attrs n = Some v \<Longrightarrow>
    refers h u v"
| model_field: "object_at h u = Instance c attrs vars \<Longrightarrow> declares c names \<Longrightarrow> n \<in> set names \<Longrightarrow>
    dict_get attrs n = Some v \<Longrightarrow> refers h u v"
| model_default: "object_at h u = Instance c attrs vars \<Longrightarrow> declares c names \<Longrightarrow> n \<in> set names \<Longrightarrow>
    dict_get attrs n = None \<Longrightarrow> refers h u NONE_ID"
| attribute: "object_at h u = Instance c attrs (Some d) \<Longrightarrow> \<nexists>names. declares c names \<Longrightarrow> (n, v) \<in> set d \<Longrightarrow>
    refers h u v"

inductive changeable :: "py_heap \<Rightarrow> nat \<Rightarrow> bool" for h where
  mapping: "object_at h u = MappingObject False items \<Longrightarrow> changeable h u"
| list_object: "object_at h u = ListObject vs \<Longrightarrow> changeable h u"
| set_object: "object_at h u = SetObject vs \<Longrightarrow> changeable h u"
| bytes: "object_at h u = ByteArray \<Longrightarrow> changeable h u"
| dataclass: "object_at h u = DataObject params names attrs \<Longrightarrow> params \<noteq> Some True \<Longrightarrow> changeable h u"
| model: "object_at h u = Instance c attrs vars \<Longrightarrow> declares c names \<Longrightarrow> \<not> forbids_changes c \<Longrightarrow> changeable h u"
| with_vars: "object_at h u = Instance c attrs (Some d) \<Longrightarrow> \<nexists>names. declares c names \<Longrightarrow> changeable h u"

text \<open>A dataclass instance on which a declared field is not set.\<close>

inductive field_unset :: "py_heap \<Rightarrow> nat \<Rightarrow> bool" for h where
  unset: "object_at h u = DataObject params names attrs \<Longrightarrow> n \<in> set names \<Longrightarrow> dict_get attrs n = None \<Longrightarrow>
    field_unset h u"

lemma declares_model_fields: "declares c ns \<longleftrightarrow> model_fields c = Some ns"
  by (auto simp: declares.simps model_fields_def split: class_value.splits if_splits)

lemma forbids_model_frozen: "forbids_changes c \<longleftrightarrow> model_frozen c"
  by (auto simp: forbids_changes.simps model_frozen_def Let_def split: option.splits)

lemmas class_facts = declares_model_fields forbids_model_frozen

lemma refers_next: "refers h u v \<longleftrightarrow> Some v \<in> set (visited_next (object_at h u))"
proof (cases "object_at h u")
  case (DataObject params names attrs)
  then show ?thesis by (auto simp: refers.simps image_iff) metis
next
  case (Instance c attrs vars)
  show ?thesis
  proof (cases "model_fields c")
    case None
    with Instance show ?thesis by (force simp: refers.simps class_facts split: option.splits)
  next
    case (Some names)
    have "(Some v = (case dict_get attrs n of None \<Rightarrow> Some NONE_ID | Some w \<Rightarrow> Some w)) \<longleftrightarrow>
        dict_get attrs n = Some v \<or> dict_get attrs n = None \<and> v = NONE_ID" for n
      by (auto split: option.splits)
    with Some Instance show ?thesis by (auto simp: refers.simps class_facts image_iff)
  qed
qed (auto simp: refers.simps image_iff)

lemma changeable_mutable: "changeable h u \<longleftrightarrow> is_mutable (object_at h u)"
  by (cases "object_at h u") (auto simp: changeable.simps class_facts split: option.splits)

lemma field_unset_next: "field_unset h u \<longleftrightarrow> None \<in> set (visited_next (object_at h u))"
  by (cases "object_at h u") (auto simp: field_unset.simps image_iff split: option.splits, metis)

lemma scalar_refers: "object_at h u = Scalar \<Longrightarrow> \<not> refers h u v"
  by (simp add: refers_next)

text \<open>Only an object of the heap refers to another.\<close>

lemma refers_known: "refers h u v \<Longrightarrow> u \<in> fst ` set (hp_objects h)"
proof (rule ccontr)
  assume r: "refers h u v" and "u \<notin> fst ` set (hp_objects h)"
  then have "dict_get (hp_objects h) u = None" by (simp add: map_of_eq_None_iff)
  with r show False
    by (simp add: refers_next object_at_def plain_class_def model_fields_def split: if_splits)
qed

section \<open>What the walk finds\<close>

text \<open>A walk below the objects \<open>us\<close> that went from \<open>V\<close> to \<open>V'\<close>: it entered nothing that cannot be reached,
  and whatever an entered object refers to was entered, or is a scalar.\<close>

definition entered :: "py_heap \<Rightarrow> nat set \<Rightarrow> nat \<Rightarrow> bool" where
  "entered h V v \<longleftrightarrow> v \<in> V \<or> object_at h v = Scalar"

definition walked :: "py_heap \<Rightarrow> nat set \<Rightarrow> walk \<Rightarrow> walk \<Rightarrow> bool" where
  "walked h us s s' \<longleftrightarrow> fst s \<subseteq> fst s' \<and> (\<forall>u\<in>us. entered h (fst s') u) \<and>
     (\<forall>w\<in>fst s' - fst s. \<exists>u\<in>us. (refers h)\<^sup>*\<^sup>* u w) \<and>
     (\<forall>w\<in>fst s' - fst s. \<forall>x. refers h w x \<longrightarrow> entered h (fst s') x)"

definition found_exact :: "py_heap \<Rightarrow> walk \<Rightarrow> bool" where
  "found_exact h s \<longleftrightarrow> snd s = {w \<in> fst s. changeable h w}"

lemma entered_mono: "entered h V v \<Longrightarrow> V \<subseteq> V' \<Longrightarrow> entered h V' v"
  by (auto simp: entered_def)

lemma walked_refl: "walked h {} s s"
  by (simp add: walked_def)

lemma walked_trans:
  assumes a: "walked h us s t" and b: "walked h vs t r"
  shows "walked h (us \<union> vs) s r"
proof -
  have sub: "fst s \<subseteq> fst t" "fst t \<subseteq> fst r" using a b by (auto simp: walked_def)
  note mono = entered_mono[OF _ sub(2)]
  have "\<forall>w\<in>fst r - fst s. \<exists>u\<in>us \<union> vs. (refers h)\<^sup>*\<^sup>* u w"
  proof
    fix w
    assume "w \<in> fst r - fst s"
    then consider "w \<in> fst t - fst s" | "w \<in> fst r - fst t" by blast
    then show "\<exists>u\<in>us \<union> vs. (refers h)\<^sup>*\<^sup>* u w" using a b unfolding walked_def by cases blast+
  qed
  moreover have "\<forall>w\<in>fst r - fst s. \<forall>x. refers h w x \<longrightarrow> entered h (fst r) x"
  proof
    fix w
    assume "w \<in> fst r - fst s"
    then consider "w \<in> fst t - fst s" | "w \<in> fst r - fst t" by blast
    then show "\<forall>x. refers h w x \<longrightarrow> entered h (fst r) x" using a b mono unfolding walked_def by cases blast+
  qed
  moreover have "\<forall>u\<in>us \<union> vs. entered h (fst r) u" using a b mono unfolding walked_def by blast
  ultimately show ?thesis using sub unfolding walked_def by blast
qed

lemma visit_each_walked:
  assumes call: "\<And>v s s'. call v s = Inr s' \<Longrightarrow> found_exact h s \<Longrightarrow> walked h {v} s s' \<and> found_exact h s'"
  shows "visit_each call vs s = Inr s' \<Longrightarrow> found_exact h s \<Longrightarrow>
    walked h {v. Some v \<in> set vs} s s' \<and> found_exact h s'"
proof (induction vs arbitrary: s)
  case Nil
  then show ?case by (simp add: walked_refl)
next
  case (Cons x vs)
  then obtain v t where x: "x = Some v" and t: "call v s = Inr t" "visit_each call vs t = Inr s'"
    by (cases x) (auto split: sum.splits)
  from call[OF t(1) Cons.prems(2)] have first: "walked h {v} s t" "found_exact h t" by blast+
  have "{u. Some u \<in> set (x # vs)} = {v} \<union> {u. Some u \<in> set vs}" using x by auto
  with walked_trans[OF first(1), of "{u. Some u \<in> set vs}" s'] Cons.IH[OF t(2) first(2)] show ?case by simp
qed

lemma visit_walked:
  "visit h room v s = Inr s' \<Longrightarrow> found_exact h s \<Longrightarrow> walked h {v} s s' \<and> found_exact h s'"
proof (induction room arbitrary: v s s')
  case (Suc room)
  obtain V F where s: "s = (V, F)" by fastforce
  show ?case
  proof (cases "entered h V v")
    case True
    with Suc.prems s have "s' = s" by (auto simp: entered_def)
    with True Suc.prems s show ?thesis by (simp add: walked_def)
  next
    case False
    define t where "t = (insert v V, if is_mutable (object_at h v) then insert v F else F)"
    have run: "visit_each (visit h room) (visited_next (object_at h v)) t = Inr s'"
      using Suc.prems(1) False s by (simp add: entered_def t_def Let_def)
    have "found_exact h t" using Suc.prems(2) s by (auto simp: found_exact_def t_def changeable_mutable)
    from visit_each_walked[OF Suc.IH run this]
    have below: "walked h {x. refers h v x} t s'" and found: "found_exact h s'" by (simp_all add: refers_next)
    have new: "fst s' - fst s \<subseteq> insert v (fst s' - fst t)" and old: "v \<in> fst s'" "fst s \<subseteq> fst s'"
      using below s by (auto simp: walked_def t_def)
    have reach: "\<forall>w\<in>fst s' - fst s. (refers h)\<^sup>*\<^sup>* v w"
    proof
      fix w
      assume "w \<in> fst s' - fst s"
      with new consider "w = v" | "w \<in> fst s' - fst t" by blast
      then show "(refers h)\<^sup>*\<^sup>* v w"
      proof cases
        case 2
        with below obtain x where "refers h v x" "(refers h)\<^sup>*\<^sup>* x w"
          unfolding walked_def by blast
        then show ?thesis by (rule converse_rtranclp_into_rtranclp)
      qed simp
    qed
    have "\<forall>w\<in>fst s' - fst s. \<forall>x. refers h w x \<longrightarrow> entered h (fst s') x"
      using new below unfolding walked_def by blast
    with reach old found show ?thesis by (simp add: walked_def entered_def)
  qed
qed simp

lemma walked_everything:
  assumes w: "walked h {v} ({}, {}) s" and r: "(refers h)\<^sup>*\<^sup>* v u"
  shows "entered h (fst s) u"
  using r
proof (induction rule: rtranclp_induct)
  case base
  with w show ?case by (simp add: walked_def)
next
  case (step y z)
  then have "y \<in> fst s" using scalar_refers by (auto simp: entered_def)
  with step w show ?case by (simp add: walked_def)
qed

theorem visit_exact:
  assumes "visit h room v ({}, {}) = Inr (visited, found)"
  shows "found = {u. (refers h)\<^sup>*\<^sup>* v u \<and> changeable h u}"
proof -
  have w: "walked h {v} ({}, {}) (visited, found)" and f: "found_exact h (visited, found)"
    using visit_walked[OF assms] by (auto simp: found_exact_def)
  have "u \<in> visited \<longleftrightarrow> (refers h)\<^sup>*\<^sup>* v u" if "changeable h u" for u
    using walked_everything[OF w, of u] w that by (auto simp: walked_def entered_def changeable_mutable)
  with f show ?thesis by (auto simp: found_exact_def)
qed

section \<open>When the walk does not return\<close>

lemma visit_each_error:
  assumes call: "\<And>v s s'. call v s = Inr s' \<Longrightarrow> found_exact h s \<Longrightarrow> walked h {v} s s' \<and> found_exact h s'"
  shows "visit_each call vs s = Inl e \<Longrightarrow> found_exact h s \<Longrightarrow> (e = GraphUnset \<and> None \<in> set vs) \<or>
    (\<exists>v t. Some v \<in> set vs \<and> call v t = Inl e \<and> found_exact h t \<and> fst s \<subseteq> fst t)"
proof (induction vs arbitrary: s)
  case (Cons x vs)
  show ?case
  proof (cases x)
    case (Some v)
    show ?thesis
    proof (cases "call v s")
      case (Inl e')
      with Cons.prems Some have "call v s = Inl e" by simp
      then show ?thesis using Some Cons.prems(2) by (intro disjI2 exI[of _ v] exI[of _ s]) simp
    next
      case (Inr t)
      with Cons.prems Some have run: "visit_each call vs t = Inl e" by simp
      have t: "found_exact h t" "fst s \<subseteq> fst t"
        using call[OF Inr Cons.prems(2)] by (simp_all add: walked_def)
      from Cons.IH[OF run t(1)] t(2) show ?thesis by (meson list.set_intros(2) subset_trans)
    qed
  qed (use Cons.prems in auto)
qed simp

text \<open>An object that is entered, and the call inside it that failed.\<close>

lemma visit_error:
  assumes "visit h (Suc room) v s = Inl e" and "found_exact h s"
  shows "v \<notin> fst s \<and> ((e = GraphUnset \<and> field_unset h v) \<or>
    (\<exists>x t. refers h v x \<and> visit h room x t = Inl e \<and> found_exact h t \<and> insert v (fst s) \<subseteq> fst t))"
proof -
  obtain V F where s: "s = (V, F)" by fastforce
  define t where "t = (insert v V, if is_mutable (object_at h v) then insert v F else F)"
  have run: "visit_each (visit h room) (visited_next (object_at h v)) t = Inl e" and new: "v \<notin> V"
    using assms(1) s by (auto simp: t_def Let_def split: if_splits)
  have "found_exact h t" using assms(2) s by (auto simp: found_exact_def t_def changeable_mutable)
  from visit_each_error[OF visit_walked run this] show ?thesis
    using s new by (auto simp: refers_next field_unset_next t_def)
qed

lemma visit_unset:
  "visit h room v s = Inl GraphUnset \<Longrightarrow> found_exact h s \<Longrightarrow> \<exists>u. (refers h)\<^sup>*\<^sup>* v u \<and> field_unset h u"
proof (induction room arbitrary: v s)
  case (Suc room)
  from visit_error[OF this(2,3)] Suc.IH show ?case by (meson converse_rtranclp_into_rtranclp rtranclp.rtrancl_refl)
qed simp

text \<open>The calls that are open when there is no room for another one: a path of different objects.\<close>

fun open_calls :: "py_heap \<Rightarrow> nat \<Rightarrow> nat list \<Rightarrow> bool" where
  "open_calls h v [] \<longleftrightarrow> True"
| "open_calls h v (u # us) \<longleftrightarrow> v = u \<and> u \<notin> set us \<and> (\<exists>x. refers h u x \<and> open_calls h x us)"

lemma visit_too_deep:
  "visit h room v s = Inl GraphTooDeep \<Longrightarrow> found_exact h s \<Longrightarrow>
   \<exists>us. length us = room \<and> open_calls h v us \<and> set us \<inter> fst s = {}"
proof (induction room arbitrary: v s)
  case 0
  then show ?case by (intro exI[of _ "[]"]) simp
next
  case (Suc room)
  from visit_error[OF Suc.prems] obtain x t where x: "refers h v x" "visit h room x t = Inl GraphTooDeep"
    "found_exact h t" "insert v (fst s) \<subseteq> fst t" and v: "v \<notin> fst s" by auto
  from Suc.IH[OF x(2,3)] obtain us where "length us = room" "open_calls h x us" "set us \<inter> fst t = {}" by blast
  with x v show ?case by (intro exI[of _ "v # us"]) auto
qed

lemma open_calls_known: "open_calls h v us \<Longrightarrow> set us \<subseteq> fst ` set (hp_objects h) \<and> distinct us"
proof (induction us arbitrary: v)
  case (Cons u us)
  then show ?case using refers_known by (auto simp del: set_map)
qed simp

text \<open>There is room for a call in each object of the heap, and one more.\<close>

lemma visit_room:
  assumes "card (fst ` set (hp_objects h)) < room"
  shows "visit h room v ({}, {}) \<noteq> Inl GraphTooDeep"
proof
  assume "visit h room v ({}, {}) = Inl GraphTooDeep"
  then obtain us where "length us = room" "open_calls h v us"
    using visit_too_deep[of h room v "({}, {})"] by (auto simp: found_exact_def)
  with open_calls_known[of h v us] card_mono[of "fst ` set (hp_objects h)" "set us"] assms show False
    by (simp add: distinct_card)
qed

end
