(* ===== verification/Runtime_Generations.thy ===== *)
theory Runtime_Generations
  imports Runtime_Graph
begin

text \<open>
  Runtime generations (\<open>RuntimeGenerationManager\<close> of \<open>services/runtime_config.py\<close>): one generation of
  replaceable services is active, requests hold leases on the generation they started with, a
  replaced generation is retired and its HTTP clients are closed when its last lease is gone, and
  clients that could not be closed are kept for another attempt.

  Everything runs on one event loop. A method without \<open>await\<close> is one step; \<open>close\<close>, \<open>retry_failed_cleanup\<close>
  and \<open>shutdown\<close> are cut at their waits. HTTP clients are named by their identity; whether closing one
  works, and whether a task can be created, are arguments. \<open>passes\<close> counts the attempts of a running
  close task; the failures of one attempt are recorded together.
\<close>

section \<open>Data\<close>

datatype manager_status = RtNew | RtRunning | RtStopping | RtStopped | RtStopFailed

datatype generation_status = GenActive | GenRetired | GenClosing | GenClosed | GenCloseFailed

text \<open>\<open>RtBroke\<close>: a \<open>KeyError\<close> or a failed assertion.\<close>

datatype runtime_error = RtStateError | RtConflict | RtValueError | RtBroke

type_synonym client = nat
type_synonym client_map = "(string, client) dict"

record cleanup_failure =
  cf_generation :: int
  cf_resource :: string
  cf_exception :: string

text \<open>\<open>sp_services\<close>: the loader, dispatcher, fusion, router and provider-model objects, in this order;
  \<open>sp_config\<close>: the values of the seven configuration attributes of the loader.\<close>

record runtime_snapshot =
  sp_generation :: int
  sp_services :: "nat list"
  sp_config :: "nat list"
  sp_clients :: client_map

record generation_record =
  gr_snapshot :: "runtime_snapshot option"
  gr_status :: generation_status
  gr_leases :: int
  gr_passes :: "nat option"
  gr_cleanup_clients :: client_map

definition new_generation :: "runtime_snapshot \<Rightarrow> generation_record" where
  "new_generation s = \<lparr>gr_snapshot = Some s, gr_status = GenActive, gr_leases = 0, gr_passes = None,
     gr_cleanup_clients = []\<rparr>"

record slot_record =
  us_generation :: int
  us_clients :: client_map
  us_accepting :: bool
  us_close_failed :: bool
  us_passes :: "nat option"

datatype shutdown_phase = SdIdle | SdSlots | SdLeases | SdDrain | SdRetrySlots | SdClients

text \<open>\<open>gm_recovery\<close>: the holder of the recovery lock (is it the shutdown?), the failed generations it still
  has to go through, and its attempts at the first of them.\<close>

record generations =
  gm_status :: manager_status
  gm_current :: "int option"
  gm_generations :: "(int, generation_record) dict"
  gm_history :: "(int, generation_status) dict"
  gm_failed :: "(int, client_map) dict"
  gm_slots :: "(nat, slot_record) dict"
  gm_next_slot :: nat
  gm_failures :: "cleanup_failure list"
  gm_recovery :: "(bool \<times> int list \<times> nat) option"
  gm_shutdown :: shutdown_phase

definition new_manager :: generations where
  "new_manager = \<lparr>gm_status = RtNew, gm_current = None, gm_generations = [], gm_history = [], gm_failed = [],
     gm_slots = [], gm_next_slot = 1, gm_failures = [], gm_recovery = None, gm_shutdown = SdIdle\<rparr>"

definition CLEANUP_MAX_ATTEMPTS :: nat where "CLEANUP_MAX_ATTEMPTS = 3"
definition GENERATION_HISTORY_LIMIT :: nat where "GENERATION_HISTORY_LIMIT = 64"
definition CLEANUP_DIAGNOSTIC_LIMIT :: nat where "CLEANUP_DIAGNOSTIC_LIMIT = 128"
definition MAX_RETIRING :: nat where "MAX_RETIRING = 4"

section \<open>Diagnostics\<close>

definition identifier_start :: "char \<Rightarrow> bool" where
  "identifier_start c \<longleftrightarrow> (65 \<le> code_of c \<and> code_of c \<le> 90) \<or> (97 \<le> code_of c \<and> code_of c \<le> 122) \<or> c = CHR ''_''"

definition sanitize_exception_type_name :: "string \<Rightarrow> string" where
  "sanitize_exception_type_name s =
     (if s = [] \<or> \<not> identifier_start (hd s) \<or>
         \<not> list_all (\<lambda>c. identifier_start c \<or> (48 \<le> code_of c \<and> code_of c \<le> 57)) s \<or> length s > 128
      then ''BaseException'' else s)"

definition record_cleanup_failure :: "int \<Rightarrow> string \<Rightarrow> string \<Rightarrow> generations \<Rightarrow> generations" where
  "record_cleanup_failure gen resource exn m =
     (let f = \<lparr>cf_generation = gen, cf_resource = resource, cf_exception = sanitize_exception_type_name exn\<rparr>
      in if f \<in> set (gm_failures m) then m
         else let fs = gm_failures m @ [f] in m\<lparr>gm_failures := drop (length fs - CLEANUP_DIAGNOSTIC_LIMIT) fs\<rparr>)"

definition remember_terminal_status :: "int \<Rightarrow> generation_status \<Rightarrow> generations \<Rightarrow> generations" where
  "remember_terminal_status gen st m =
     (let hs = dict_pop gen (gm_history m) @ [(gen, st)]
      in m\<lparr>gm_history := drop (length hs - GENERATION_HISTORY_LIMIT) hs\<rparr>)"

section \<open>Closing clients\<close>

definition still_pending :: "(string \<Rightarrow> string option) \<Rightarrow> client_map \<Rightarrow> client_map" where
  "still_pending answers pending = filter (\<lambda>(n, c). answers n \<noteq> None) pending"

text \<open>One attempt at every pending client. \<open>answers\<close> gives the exception of a close that failed.\<close>

definition close_pass :: "int \<Rightarrow> (string \<Rightarrow> string option) \<Rightarrow> client_map \<Rightarrow> generations \<Rightarrow> client_map \<times> generations" where
  "close_pass gen answers pending m =
     (still_pending answers pending,
      fold (\<lambda>(n, c) m'. case answers n of None \<Rightarrow> m' | Some exn \<Rightarrow> record_cleanup_failure gen n exn m') pending m)"

definition terminal_status :: "client_map \<Rightarrow> generation_status" where
  "terminal_status failed = (if failed \<noteq> [] then GenCloseFailed else GenClosed)"

definition finish_cleanup :: "int \<Rightarrow> client_map \<Rightarrow> generations \<Rightarrow> generations" where
  "finish_cleanup gen failed m =
     remember_terminal_status gen (terminal_status failed)
       (m\<lparr>gm_generations := dict_pop gen (gm_generations m),
          gm_failed := (if failed \<noteq> [] then dict_set gen failed (gm_failed m) else dict_pop gen (gm_failed m))\<rparr>)"

text \<open>\<open>task_ok\<close>: \<open>asyncio.create_task\<close> gave a task; otherwise it is the name of the exception.\<close>

type_synonym task_answer = "string option"

definition schedule_cleanup :: "int \<Rightarrow> task_answer \<Rightarrow> generations \<Rightarrow> generations \<times> (runtime_error + unit)" where
  "schedule_cleanup gen task_ok m = (case dict_get (gm_generations m) gen of
     None \<Rightarrow> (m, Inr ())
   | Some r \<Rightarrow>
       (if gr_passes r \<noteq> None then (m, Inr ())
        else if gr_leases r \<noteq> 0 then (m, Inl RtStateError)
        else case gr_snapshot r of
          None \<Rightarrow> (finish_cleanup gen (gr_cleanup_clients r) m, Inr ())
        | Some s \<Rightarrow>
            (let r' = r\<lparr>gr_cleanup_clients := sp_clients s, gr_snapshot := None, gr_status := GenClosing\<rparr>
             in case task_ok of
                  None \<Rightarrow> (m\<lparr>gm_generations := dict_set gen (r'\<lparr>gr_passes := Some 0\<rparr>) (gm_generations m)\<rparr>, Inr ())
                | Some exn \<Rightarrow>
                    (finish_cleanup gen (sp_clients s)
                       (record_cleanup_failure gen ''generation_cleanup'' exn
                         (m\<lparr>gm_generations := dict_set gen r' (gm_generations m)\<rparr>)), Inr ()))))"

text \<open>An attempt of the close task of a generation; the third one ends it.\<close>

definition cleanup_pass :: "int \<Rightarrow> (string \<Rightarrow> string option) \<Rightarrow> generations \<Rightarrow> generations" where
  "cleanup_pass gen answers m = (case dict_get (gm_generations m) gen of
     None \<Rightarrow> m
   | Some r \<Rightarrow>
       (case gr_passes r of
          None \<Rightarrow> m
        | Some n \<Rightarrow>
            (let (pending, m') = close_pass gen answers (gr_cleanup_clients r) m
             in if pending = [] \<or> n + 1 \<ge> CLEANUP_MAX_ATTEMPTS then finish_cleanup gen pending m'
                else m'\<lparr>gm_generations := dict_set gen (r\<lparr>gr_cleanup_clients := pending, gr_passes := Some (n + 1)\<rparr>)
                  (gm_generations m')\<rparr>)))"

text \<open>The done callback of a close task that ended before it had finished.\<close>

definition cleanup_task_broke :: "int \<Rightarrow> string \<Rightarrow> generations \<Rightarrow> generations" where
  "cleanup_task_broke gen exn m = (case dict_get (gm_generations m) gen of
     None \<Rightarrow> m
   | Some r \<Rightarrow>
       (if gr_passes r = None \<or> gr_status r \<noteq> GenClosing then m
        else finish_cleanup gen (gr_cleanup_clients r) (record_cleanup_failure gen ''generation_cleanup'' exn m)))"

section \<open>Leases\<close>

definition running :: "generations \<Rightarrow> bool" where
  "running m \<longleftrightarrow> gm_status m = RtRunning"

text \<open>A lease in use is the number of its generation; who holds it knows the number.\<close>

definition acquire_generation :: "int \<Rightarrow> generations \<Rightarrow> generations \<times> (runtime_error + int)" where
  "acquire_generation gen m = (case dict_get (gm_generations m) gen of
     None \<Rightarrow> (m, Inl RtBroke)
   | Some r \<Rightarrow>
       (if gr_snapshot r = None then (m, Inl RtStateError)
        else (m\<lparr>gm_generations := dict_set gen (r\<lparr>gr_leases := gr_leases r + 1\<rparr>) (gm_generations m)\<rparr>, Inr gen)))"

definition acquire_current :: "generations \<Rightarrow> generations \<times> (runtime_error + int)" where
  "acquire_current m = (if \<not> running m then (m, Inl RtStateError)
     else case gm_current m of None \<Rightarrow> (m, Inl RtBroke) | Some gen \<Rightarrow> acquire_generation gen m)"

definition retain_generation :: "int \<Rightarrow> generations \<Rightarrow> generations \<times> (runtime_error + int)" where
  "retain_generation gen m = (if \<not> running m then (m, Inl RtStateError)
     else case dict_get (gm_generations m) gen of
       None \<Rightarrow> (m, Inl RtStateError)
     | Some r \<Rightarrow> if gr_status r \<noteq> GenActive then (m, Inl RtStateError) else acquire_generation gen m)"

definition retain_from_lease :: "int \<Rightarrow> generations \<Rightarrow> generations \<times> (runtime_error + int)" where
  "retain_from_lease gen m = (if \<not> running m then (m, Inl RtStateError)
     else case dict_get (gm_generations m) gen of
       None \<Rightarrow> (m, Inl RtStateError)
     | Some r \<Rightarrow> if gr_leases r \<le> 0 \<or> gr_status r \<notin> {GenActive, GenRetired} then (m, Inl RtStateError)
                 else acquire_generation gen m)"

definition release_generation :: "int \<Rightarrow> task_answer \<Rightarrow> generations \<Rightarrow> generations \<times> (runtime_error + unit)" where
  "release_generation gen task_ok m = (case dict_get (gm_generations m) gen of
     None \<Rightarrow> (m, Inl RtStateError)
   | Some r \<Rightarrow>
       (if gr_leases r \<le> 0 then (m, Inl RtStateError)
        else let m' = m\<lparr>gm_generations := dict_set gen (r\<lparr>gr_leases := gr_leases r - 1\<rparr>) (gm_generations m)\<rparr>
             in if gr_leases r - 1 \<noteq> 0 \<or> gr_status r \<noteq> GenRetired \<or> gm_status m = RtStopping then (m', Inr ())
                else schedule_cleanup gen task_ok m'))"

section \<open>Unpublished slots\<close>

definition some_slot_failed :: "generations \<Rightarrow> bool" where
  "some_slot_failed m \<longleftrightarrow> list_ex (\<lambda>(i, r). us_close_failed r) (gm_slots m)"

definition open_unpublished_slot :: "int \<Rightarrow> generations \<Rightarrow> generations \<times> (runtime_error + nat)" where
  "open_unpublished_slot gen m =
     (if gm_status m \<notin> {RtNew, RtRunning} then (m, Inl RtStateError)
      else if gen \<le> 0 then (m, Inl RtValueError)
      else if some_slot_failed m then (m, Inl RtStateError)
      else (m\<lparr>gm_next_slot := gm_next_slot m + 1,
              gm_slots := dict_set (gm_next_slot m) \<lparr>us_generation = gen, us_clients = [], us_accepting = True,
                us_close_failed = False, us_passes = None\<rparr> (gm_slots m)\<rparr>, Inr (gm_next_slot m)))"

definition live_clients :: "generation_record \<Rightarrow> client_map" where
  "live_clients r = (case gr_snapshot r of None \<Rightarrow> gr_cleanup_clients r | Some s \<Rightarrow> sp_clients s)"

definition owns_http_client :: "client \<Rightarrow> generations \<Rightarrow> bool" where
  "owns_http_client c m \<longleftrightarrow> list_ex (\<lambda>(i, r). c \<in> snd ` set (us_clients r)) (gm_slots m) \<or>
     list_ex (\<lambda>(g, r). c \<in> snd ` set (live_clients r)) (gm_generations m) \<or>
     list_ex (\<lambda>(g, d). c \<in> snd ` set d) (gm_failed m)"

definition register_http_client :: "nat \<Rightarrow> string \<Rightarrow> client \<Rightarrow> generations \<Rightarrow> generations \<times> (runtime_error + unit)" where
  "register_http_client i name c m = (case dict_get (gm_slots m) i of
     None \<Rightarrow> (m, Inl RtStateError)
   | Some r \<Rightarrow>
       (if \<not> us_accepting r then (m, Inl RtStateError)
        else if gm_status m \<notin> {RtNew, RtRunning} then (m, Inl RtStateError)
        else if dict_get (us_clients r) name \<noteq> None then (m, Inl RtConflict)
        else if owns_http_client c m then (m, Inl RtConflict)
        else (m\<lparr>gm_slots := dict_set i (r\<lparr>us_clients := dict_set name c (us_clients r)\<rparr>) (gm_slots m)\<rparr>, Inr ())))"

text \<open>The close of a slot, up to its wait.\<close>

definition close_slot :: "nat \<Rightarrow> task_answer \<Rightarrow> generations \<Rightarrow> generations" where
  "close_slot i task_ok m = (case dict_get (gm_slots m) i of
     None \<Rightarrow> m
   | Some r \<Rightarrow>
       (if us_clients r = [] then m\<lparr>gm_slots := dict_pop i (gm_slots m)\<rparr>
        else if us_passes r \<noteq> None then m\<lparr>gm_slots := dict_set i (r\<lparr>us_accepting := False\<rparr>) (gm_slots m)\<rparr>
        else case task_ok of
          None \<Rightarrow> m\<lparr>gm_slots := dict_set i (r\<lparr>us_accepting := False, us_passes := Some 0\<rparr>) (gm_slots m)\<rparr>
        | Some exn \<Rightarrow>
            record_cleanup_failure (us_generation r) ''unpublished_cleanup'' exn
              (m\<lparr>gm_slots := dict_set i (r\<lparr>us_accepting := False, us_close_failed := True\<rparr>) (gm_slots m)\<rparr>)))"

text \<open>The end of a close task (\<open>pending\<close> is what it could not close).\<close>

definition finish_slot_close :: "nat \<Rightarrow> slot_record \<Rightarrow> client_map \<Rightarrow> generations \<Rightarrow> generations" where
  "finish_slot_close i r pending m =
     (if pending \<noteq> []
      then m\<lparr>gm_slots := dict_set i (r\<lparr>us_clients := pending, us_close_failed := True, us_passes := None\<rparr>) (gm_slots m)\<rparr>
      else m\<lparr>gm_slots := dict_pop i (gm_slots m)\<rparr>)"

definition slot_pass :: "nat \<Rightarrow> (string \<Rightarrow> string option) \<Rightarrow> generations \<Rightarrow> generations" where
  "slot_pass i answers m = (case dict_get (gm_slots m) i of
     None \<Rightarrow> m
   | Some r \<Rightarrow>
       (case us_passes r of
          None \<Rightarrow> m
        | Some n \<Rightarrow>
            (let (pending, m') = close_pass (us_generation r) answers (us_clients r) m
             in if pending = [] \<or> n + 1 \<ge> CLEANUP_MAX_ATTEMPTS then finish_slot_close i r pending m'
                else m'\<lparr>gm_slots := dict_set i (r\<lparr>us_clients := pending, us_passes := Some (n + 1)\<rparr>) (gm_slots m')\<rparr>)))"

text \<open>A close task that is cancelled before it runs, or that ends with an exception.\<close>

definition slot_task_cancelled :: "nat \<Rightarrow> generations \<Rightarrow> generations" where
  "slot_task_cancelled i m = (case dict_get (gm_slots m) i of
     None \<Rightarrow> m | Some r \<Rightarrow> m\<lparr>gm_slots := dict_set i (r\<lparr>us_passes := None\<rparr>) (gm_slots m)\<rparr>)"

definition slot_task_broke :: "nat \<Rightarrow> string \<Rightarrow> generations \<Rightarrow> generations" where
  "slot_task_broke i exn m = (case dict_get (gm_slots m) i of
     None \<Rightarrow> m
   | Some r \<Rightarrow>
       (if us_passes r = None then m
        else finish_slot_close i r (us_clients r) (record_cleanup_failure (us_generation r) ''unpublished_cleanup'' exn m)))"

section \<open>Publishing\<close>

text \<open>The ids of all configuration values of a snapshot; the error of a walk is not caught.\<close>

fun graph_union :: "py_heap \<Rightarrow> nat list \<Rightarrow> nat set \<Rightarrow> graph_error + nat set" where
  "graph_union h [] ids = Inr ids"
| "graph_union h (v # vs) ids = (case mutable_graph_ids h v of Inl e \<Rightarrow> Inl e | Inr found \<Rightarrow> graph_union h vs (ids \<union> found))"

definition config_mutables :: "py_heap \<Rightarrow> runtime_snapshot \<Rightarrow> graph_error + nat set" where
  "config_mutables h s = graph_union h (sp_config s) {}"

text \<open>What a live generation has in common with a candidate whose mutable configuration is \<open>ids\<close>.\<close>

definition shares_client :: "runtime_snapshot \<Rightarrow> generation_record \<Rightarrow> runtime_error option" where
  "shares_client cand r =
     (if list_ex (\<lambda>(n, c). c \<in> snd ` set (sp_clients cand)) (live_clients r) then Some RtConflict else None)"

definition shares_with :: "py_heap \<Rightarrow> runtime_snapshot \<Rightarrow> nat set \<Rightarrow> generation_record \<Rightarrow> runtime_error option" where
  "shares_with h cand ids r = (case gr_snapshot r of
     None \<Rightarrow> shares_client cand r
   | Some s \<Rightarrow>
       (if list_ex (\<lambda>(old, new). old = new) (zip (sp_services s) (sp_services cand)) then Some RtConflict
        else case config_mutables h s of
          Inl e \<Rightarrow> Some RtBroke
        | Inr live_ids \<Rightarrow> if live_ids \<inter> ids \<noteq> {} then Some RtConflict else shares_client cand r))"

fun first_shared :: "py_heap \<Rightarrow> runtime_snapshot \<Rightarrow> nat set \<Rightarrow> (int, generation_record) dict \<Rightarrow> runtime_error option" where
  "first_shared h cand ids [] = None"
| "first_shared h cand ids ((g, r) # rs) =
     (case shares_with h cand ids r of Some e \<Rightarrow> Some e | None \<Rightarrow> first_shared h cand ids rs)"

definition reject_shared :: "py_heap \<Rightarrow> runtime_snapshot \<Rightarrow> generations \<Rightarrow> runtime_error option" where
  "reject_shared h cand m = (case config_mutables h cand of
     Inl e \<Rightarrow> Some RtBroke
   | Inr ids \<Rightarrow> first_shared h cand ids (gm_generations m))"

definition retiring_count :: "generations \<Rightarrow> nat" where
  "retiring_count m = length (filter (\<lambda>(g, r). Some g \<noteq> gm_current m \<and> gr_status r \<in> {GenRetired, GenClosing})
     (gm_generations m))"

definition validate_publish :: "py_heap \<Rightarrow> runtime_snapshot \<Rightarrow> int \<Rightarrow> generations \<Rightarrow> runtime_error option" where
  "validate_publish h cand expected m =
     (if \<not> running m then Some RtStateError
      else if gm_current m \<noteq> Some expected then Some RtConflict
      else if sp_generation cand \<noteq> expected + 1 then Some RtConflict
      else if dict_get (gm_generations m) (sp_generation cand) \<noteq> None then Some RtConflict
      else if gm_failed m \<noteq> [] then Some RtStateError
      else if some_slot_failed m then Some RtStateError
      else if retiring_count m \<ge> MAX_RETIRING then Some RtStateError
      else reject_shared h cand m)"

definition same_clients :: "client_map \<Rightarrow> client_map \<Rightarrow> bool" where
  "same_clients d e \<longleftrightarrow> set (dict_keys d) = set (dict_keys e) \<and> list_all (\<lambda>(n, c). dict_get e n = Some c) d"

definition validate_candidate :: "runtime_snapshot \<Rightarrow> nat \<Rightarrow> generations \<Rightarrow> runtime_error + slot_record" where
  "validate_candidate cand i m = (case dict_get (gm_slots m) i of
     None \<Rightarrow> Inl RtStateError
   | Some r \<Rightarrow>
       (if \<not> us_accepting r then Inl RtStateError
        else if us_generation r \<noteq> sp_generation cand then Inl RtConflict
        else if \<not> same_clients (us_clients r) (sp_clients cand) then Inl RtConflict
        else Inr r))"

definition install_initial :: "runtime_snapshot \<Rightarrow> nat \<Rightarrow> generations \<Rightarrow> generations \<times> (runtime_error + unit)" where
  "install_initial cand i m = (case validate_candidate cand i m of
     Inl e \<Rightarrow> (m, Inl e)
   | Inr r \<Rightarrow>
       (if gm_status m \<noteq> RtNew then (m, Inl RtStateError)
        else if sp_generation cand \<noteq> 1 then (m, Inl RtConflict)
        else if list_ex (\<lambda>(j, r). j \<noteq> i \<and> us_close_failed r) (gm_slots m) then (m, Inl RtStateError)
        else (m\<lparr>gm_generations := dict_set 1 (new_generation cand) (gm_generations m), gm_current := Some 1,
                gm_status := RtRunning, gm_slots := dict_pop i (gm_slots m)\<rparr>, Inr ())))"

definition publish_candidate :: "py_heap \<Rightarrow> runtime_snapshot \<Rightarrow> int \<Rightarrow> nat \<Rightarrow> task_answer \<Rightarrow> generations \<Rightarrow>
    generations \<times> (runtime_error + unit)" where
  "publish_candidate h cand expected i task_ok m = (case validate_publish h cand expected m of
     Some e \<Rightarrow> (m, Inl e)
   | None \<Rightarrow>
       (case validate_candidate cand i m of
          Inl e \<Rightarrow> (m, Inl e)
        | Inr r \<Rightarrow>
            (case dict_get (gm_generations m) expected of
               None \<Rightarrow> (m, Inl RtBroke)
             | Some old \<Rightarrow>
                 (let m' = m\<lparr>gm_generations := dict_set expected (old\<lparr>gr_status := GenRetired\<rparr>)
                               (dict_set (sp_generation cand) (new_generation cand) (gm_generations m)),
                             gm_current := Some (sp_generation cand), gm_slots := dict_pop i (gm_slots m)\<rparr>
                  in if gr_leases old = 0 then schedule_cleanup expected task_ok m' else (m', Inr ())))))"

section \<open>Recovery\<close>

definition close_failed_slots :: "(nat \<Rightarrow> task_answer) \<Rightarrow> generations \<Rightarrow> generations" where
  "close_failed_slots oks m = fold (\<lambda>i. close_slot i (oks i)) (map fst (filter (\<lambda>(i, r). us_close_failed r) (gm_slots m))) m"

definition retry_begin :: "(nat \<Rightarrow> task_answer) \<Rightarrow> generations \<Rightarrow> generations \<times> (runtime_error + unit)" where
  "retry_begin oks m =
     (if gm_status m \<notin> {RtRunning, RtStopFailed} then (m, Inl RtStateError) else (close_failed_slots oks m, Inr ()))"

text \<open>The recovery lock is taken, by a retry or by the shutdown.\<close>

definition recovery_lock :: "bool \<Rightarrow> generations \<Rightarrow> generations" where
  "recovery_lock by_shutdown m = m\<lparr>gm_recovery := Some (by_shutdown, map fst (gm_failed m), 0)\<rparr>"

definition recovery_pass :: "(string \<Rightarrow> string option) \<Rightarrow> generations \<Rightarrow> generations" where
  "recovery_pass answers m = (case gm_recovery m of
     Some (who, gen # gens, n) \<Rightarrow>
       (case dict_get (gm_failed m) gen of
          None \<Rightarrow> m\<lparr>gm_recovery := Some (who, gens, 0)\<rparr>
        | Some clients \<Rightarrow>
            (let (pending, m') = close_pass gen answers clients m
             in if pending = [] then
                  remember_terminal_status gen GenClosed
                    (m'\<lparr>gm_failed := dict_pop gen (gm_failed m'), gm_recovery := Some (who, gens, 0)\<rparr>)
                else if n + 1 \<ge> CLEANUP_MAX_ATTEMPTS then
                  remember_terminal_status gen GenCloseFailed
                    (m'\<lparr>gm_failed := dict_set gen pending (gm_failed m'), gm_recovery := Some (who, gens, 0)\<rparr>)
                else m'\<lparr>gm_failed := dict_set gen pending (gm_failed m'), gm_recovery := Some (who, gen # gens, n + 1)\<rparr>))
   | _ \<Rightarrow> m)"

definition no_close_task :: "generations \<Rightarrow> bool" where
  "no_close_task m \<longleftrightarrow> list_all (\<lambda>(g, r). gr_passes r = None) (gm_generations m)"

definition all_closed :: "generations \<Rightarrow> bool" where
  "all_closed m \<longleftrightarrow> gm_failed m = [] \<and> gm_generations m = [] \<and> no_close_task m \<and> gm_slots m = []"

text \<open>\<open>slots_done\<close> is what the caller saw of the slots before it took the lock.\<close>

definition retry_end :: "bool \<Rightarrow> generations \<Rightarrow> generations" where
  "retry_end slots_done m = (case gm_recovery m of
     Some (False, [], n) \<Rightarrow>
       (let m' = m\<lparr>gm_recovery := None\<rparr>
        in if slots_done \<and> gm_status m = RtStopFailed \<and> all_closed m then m'\<lparr>gm_status := RtStopped\<rparr> else m')
   | _ \<Rightarrow> m)"

section \<open>Shutdown\<close>

definition shutdown_begin :: "generations \<Rightarrow> generations" where
  "shutdown_begin m =
     (if gm_status m = RtStopped \<or> gm_shutdown m \<noteq> SdIdle then m
      else let m' = (if gm_status m = RtRunning then
             (case gm_current m of
                None \<Rightarrow> m
              | Some gen \<Rightarrow>
                  (case dict_get (gm_generations m) gen of
                     None \<Rightarrow> m
                   | Some r \<Rightarrow> m\<lparr>gm_generations := dict_set gen (r\<lparr>gr_status := GenRetired\<rparr>) (gm_generations m)\<rparr>))
             else m)
           in m'\<lparr>gm_status := RtStopping, gm_shutdown := SdSlots\<rparr>)"

text \<open>Every slot is closed; then every lease is waited for; then every retired generation is closed.\<close>

definition shutdown_slots :: "(nat \<Rightarrow> task_answer) \<Rightarrow> generations \<Rightarrow> generations" where
  "shutdown_slots oks m =
     (if gm_shutdown m \<noteq> SdSlots then m
      else (fold (\<lambda>i. close_slot i (oks i)) (map fst (gm_slots m)) m)\<lparr>gm_shutdown := SdLeases\<rparr>)"

definition schedule_retired :: "(int \<Rightarrow> task_answer) \<Rightarrow> int \<Rightarrow> generations \<Rightarrow> generations" where
  "schedule_retired oks gen m = (case dict_get (gm_generations m) gen of
     None \<Rightarrow> m | Some r \<Rightarrow> if gr_status r = GenRetired then fst (schedule_cleanup gen (oks gen) m) else m)"

definition shutdown_leases :: "(int \<Rightarrow> task_answer) \<Rightarrow> generations \<Rightarrow> generations" where
  "shutdown_leases oks m =
     (if gm_shutdown m \<noteq> SdLeases then m
      else (fold (schedule_retired oks) (map fst (gm_generations m)) m)\<lparr>gm_shutdown := SdDrain\<rparr>)"

definition shutdown_drained :: "(nat \<Rightarrow> task_answer) \<Rightarrow> generations \<Rightarrow> generations" where
  "shutdown_drained oks m =
     (if gm_shutdown m \<noteq> SdDrain then m else (close_failed_slots oks m)\<lparr>gm_shutdown := SdRetrySlots\<rparr>)"

definition shutdown_lock :: "generations \<Rightarrow> generations" where
  "shutdown_lock m =
     (if gm_shutdown m \<noteq> SdRetrySlots then m else (recovery_lock True m)\<lparr>gm_shutdown := SdClients\<rparr>)"

definition shutdown_generation :: "generations \<Rightarrow> int" where
  "shutdown_generation m = (case gm_current m of None \<Rightarrow> 0 | Some gen \<Rightarrow> gen)"

definition shutdown_end :: "bool \<Rightarrow> generations \<Rightarrow> generations" where
  "shutdown_end slots_done m = (case (gm_shutdown m, gm_recovery m) of
     (SdClients, Some (True, [], n)) \<Rightarrow>
       (let m' = m\<lparr>gm_recovery := None, gm_shutdown := SdIdle\<rparr>
        in if slots_done \<and> all_closed m then m'\<lparr>gm_status := RtStopped\<rparr>
           else (record_cleanup_failure (shutdown_generation m) ''runtime_shutdown'' ''UnresolvedHttpClients'' m')
                  \<lparr>gm_status := RtStopFailed\<rparr>)
   | _ \<Rightarrow> m)"

text \<open>An exception ends the shutdown at one of its waits.\<close>

definition shutdown_broke :: "string \<Rightarrow> generations \<Rightarrow> generations" where
  "shutdown_broke exn m =
     (if gm_shutdown m = SdIdle then m
      else (record_cleanup_failure (shutdown_generation m) ''runtime_shutdown'' exn m)
        \<lparr>gm_status := RtStopFailed, gm_shutdown := SdIdle,
         gm_recovery := (case gm_recovery m of Some (True, rest) \<Rightarrow> None | other \<Rightarrow> other)\<rparr>)"

section \<open>What the manager reports\<close>

definition failed_unpublished_generations :: "generations \<Rightarrow> int list" where
  "failed_unpublished_generations m = map (\<lambda>(i, r). us_generation r) (filter (\<lambda>(i, r). us_close_failed r) (gm_slots m))"

definition unresolved_cleanup_generations :: "generations \<Rightarrow> int list" where
  "unresolved_cleanup_generations m = failed_unpublished_generations m @ dict_keys (gm_failed m)"

definition active_leases :: "generations \<Rightarrow> (int, int) dict" where
  "active_leases m = map (\<lambda>(g, r). (g, gr_leases r)) (gm_generations m)"

definition generation_statuses :: "generations \<Rightarrow> (int, generation_status) dict" where
  "generation_statuses m = fold (\<lambda>(g, st). dict_set g st)
     (gm_history m @ map (\<lambda>(g, d). (g, GenCloseFailed)) (gm_failed m) @ map (\<lambda>(g, r). (g, gr_status r)) (gm_generations m)) []"

definition retired_generations :: "generations \<Rightarrow> int list" where
  "retired_generations m = map fst (filter (\<lambda>(g, st). st \<noteq> GenActive) (generation_statuses m))"

end
