(* ===== verification/Runtime_Lifecycle.thy ===== *)
theory Runtime_Lifecycle
  imports Runtime_Generations
begin

text \<open>
  Runs of the generation manager, with the lease objects its callers hold and the HTTP clients that
  were registered with it and closed by it. The invariant says who owns what: the leases of a
  generation are counted exactly, a generation keeps its services while it is leased, and every
  client has one owner until it is closed.
\<close>

section \<open>Runs\<close>

text \<open>A lease is its generation and whether it was released.\<close>

record runtime =
  rn_manager :: generations
  rn_leases :: "(int \<times> bool) list"
  rn_registered :: "client list"
  rn_closed :: "client list"

definition new_runtime :: runtime where
  "new_runtime = \<lparr>rn_manager = new_manager, rn_leases = [], rn_registered = [], rn_closed = []\<rparr>"

type_synonym close_answers = "string \<Rightarrow> string option"

datatype runtime_op =
  OpenSlot int
| RegisterClient nat string client
| CloseSlot nat task_answer
| SlotPass nat close_answers
| SlotCancelled nat
| SlotBroke nat string
| InstallInitial runtime_snapshot nat
| Publish py_heap runtime_snapshot int nat task_answer
| AcquireCurrent
| RetainGeneration int
| RetainLease nat
| ReleaseLease nat task_answer
| CleanupPass int close_answers
| CleanupBroke int string
| RetryBegin "nat \<Rightarrow> task_answer"
| RecoveryLock
| RecoveryPass close_answers
| RetryEnd bool
| ShutdownBegin
| ShutdownSlots "nat \<Rightarrow> task_answer"
| ShutdownLeases "int \<Rightarrow> task_answer"
| ShutdownDrained "nat \<Rightarrow> task_answer"
| ShutdownLock
| ShutdownEnd bool
| ShutdownBroke string

definition on_manager :: "(generations \<Rightarrow> generations) \<Rightarrow> runtime \<Rightarrow> runtime" where
  "on_manager f w = w\<lparr>rn_manager := f (rn_manager w)\<rparr>"

text \<open>A call that hands out a lease.\<close>

definition taking_lease :: "(generations \<Rightarrow> generations \<times> (runtime_error + int)) \<Rightarrow> runtime \<Rightarrow> runtime" where
  "taking_lease f w = (case f (rn_manager w) of
     (m, Inl e) \<Rightarrow> w\<lparr>rn_manager := m\<rparr>
   | (m, Inr gen) \<Rightarrow> w\<lparr>rn_manager := m, rn_leases := rn_leases w @ [(gen, False)]\<rparr>)"

text \<open>\<open>RuntimeLease.retain\<close> and \<open>RuntimeLease.release\<close>.\<close>

definition lease_retain :: "nat \<Rightarrow> runtime \<Rightarrow> runtime" where
  "lease_retain i w =
     (if i \<ge> length (rn_leases w) \<or> snd (rn_leases w ! i) then w
      else taking_lease (retain_from_lease (fst (rn_leases w ! i))) w)"

definition lease_release :: "nat \<Rightarrow> task_answer \<Rightarrow> runtime \<Rightarrow> runtime" where
  "lease_release i task_ok w =
     (if i \<ge> length (rn_leases w) \<or> snd (rn_leases w ! i) then w
      else case release_generation (fst (rn_leases w ! i)) task_ok (rn_manager w) of
        (m, Inl e) \<Rightarrow> w\<lparr>rn_manager := m\<rparr>
      | (m, Inr u) \<Rightarrow> w\<lparr>rn_manager := m, rn_leases := (rn_leases w)[i := (fst (rn_leases w ! i), True)]\<rparr>)"

text \<open>The clients an attempt closes.\<close>

definition closed_by :: "close_answers \<Rightarrow> client_map \<Rightarrow> client list" where
  "closed_by answers pending = map snd (filter (\<lambda>(n, c). answers n = None) pending)"

definition closing :: "client list \<Rightarrow> runtime \<Rightarrow> runtime" where
  "closing cs w = w\<lparr>rn_closed := rn_closed w @ cs\<rparr>"

definition pass_clients :: "runtime_op \<Rightarrow> generations \<Rightarrow> client_map" where
  "pass_clients x m = (case x of
     SlotPass i answers \<Rightarrow> (case dict_get (gm_slots m) i of
       Some r \<Rightarrow> if us_passes r = None then [] else us_clients r | None \<Rightarrow> [])
   | CleanupPass g answers \<Rightarrow> (case dict_get (gm_generations m) g of
       Some r \<Rightarrow> if gr_passes r = None then [] else gr_cleanup_clients r | None \<Rightarrow> [])
   | RecoveryPass answers \<Rightarrow> (case gm_recovery m of
       Some (who, g # gs, n) \<Rightarrow> (case dict_get (gm_failed m) g of Some d \<Rightarrow> d | None \<Rightarrow> []) | _ \<Rightarrow> [])
   | _ \<Rightarrow> [])"

fun runtime_step :: "runtime_op \<Rightarrow> runtime \<Rightarrow> runtime" where
  "runtime_step (OpenSlot gen) w = on_manager (\<lambda>m. fst (open_unpublished_slot gen m)) w"
| "runtime_step (RegisterClient i n c) w = (case register_http_client i n c (rn_manager w) of
     (m, Inl e) \<Rightarrow> w\<lparr>rn_manager := m\<rparr>
   | (m, Inr u) \<Rightarrow> w\<lparr>rn_manager := m, rn_registered := rn_registered w @ [c]\<rparr>)"
| "runtime_step (CloseSlot i ok) w = on_manager (close_slot i ok) w"
| "runtime_step (SlotPass i answers) w =
     closing (closed_by answers (pass_clients (SlotPass i answers) (rn_manager w))) (on_manager (slot_pass i answers) w)"
| "runtime_step (SlotCancelled i) w = on_manager (slot_task_cancelled i) w"
| "runtime_step (SlotBroke i exn) w = on_manager (slot_task_broke i exn) w"
| "runtime_step (InstallInitial s i) w = on_manager (\<lambda>m. fst (install_initial s i m)) w"
| "runtime_step (Publish h s gen i ok) w = on_manager (\<lambda>m. fst (publish_candidate h s gen i ok m)) w"
| "runtime_step AcquireCurrent w = taking_lease acquire_current w"
| "runtime_step (RetainGeneration gen) w = taking_lease (retain_generation gen) w"
| "runtime_step (RetainLease i) w = lease_retain i w"
| "runtime_step (ReleaseLease i ok) w = lease_release i ok w"
| "runtime_step (CleanupPass gen answers) w =
     closing (closed_by answers (pass_clients (CleanupPass gen answers) (rn_manager w))) (on_manager (cleanup_pass gen answers) w)"
| "runtime_step (CleanupBroke gen exn) w = on_manager (cleanup_task_broke gen exn) w"
| "runtime_step (RetryBegin oks) w = on_manager (\<lambda>m. fst (retry_begin oks m)) w"
| "runtime_step RecoveryLock w = on_manager (recovery_lock False) w"
| "runtime_step (RecoveryPass answers) w =
     closing (closed_by answers (pass_clients (RecoveryPass answers) (rn_manager w))) (on_manager (recovery_pass answers) w)"
| "runtime_step (RetryEnd ok) w = on_manager (retry_end ok) w"
| "runtime_step ShutdownBegin w = on_manager shutdown_begin w"
| "runtime_step (ShutdownSlots oks) w = on_manager (shutdown_slots oks) w"
| "runtime_step (ShutdownLeases oks) w = on_manager (shutdown_leases oks) w"
| "runtime_step (ShutdownDrained oks) w = on_manager (shutdown_drained oks) w"
| "runtime_step ShutdownLock w = on_manager shutdown_lock w"
| "runtime_step (ShutdownEnd ok) w = on_manager (shutdown_end ok) w"
| "runtime_step (ShutdownBroke exn) w = on_manager (shutdown_broke exn) w"

text \<open>A client is registered when it has just been created; the clients of a snapshot are a dictionary;
  a wait ends when what it waits for has happened, and the recovery lock has one holder.\<close>

definition no_slot_task :: "generations \<Rightarrow> bool" where
  "no_slot_task m \<longleftrightarrow> list_all (\<lambda>(i, r). us_passes r = None) (gm_slots m)"

fun runtime_possible :: "runtime_op \<Rightarrow> runtime \<Rightarrow> bool" where
  "runtime_possible (RegisterClient i n c) w \<longleftrightarrow> c \<notin> set (rn_registered w)"
| "runtime_possible (InstallInitial s i) w \<longleftrightarrow> distinct (dict_keys (sp_clients s))"
| "runtime_possible (Publish h s gen i ok) w \<longleftrightarrow> distinct (dict_keys (sp_clients s))"
| "runtime_possible RecoveryLock w \<longleftrightarrow> gm_recovery (rn_manager w) = None"
| "runtime_possible (ShutdownLeases oks) w \<longleftrightarrow> no_slot_task (rn_manager w) \<and>
     list_all (\<lambda>(g, r). gr_leases r = 0) (gm_generations (rn_manager w))"
| "runtime_possible (ShutdownDrained oks) w \<longleftrightarrow> no_close_task (rn_manager w)"
| "runtime_possible ShutdownLock w \<longleftrightarrow> no_slot_task (rn_manager w) \<and> gm_recovery (rn_manager w) = None"
| "runtime_possible _ w \<longleftrightarrow> True"

fun runtime_run :: "runtime_op list \<Rightarrow> runtime \<Rightarrow> bool" where
  "runtime_run [] w \<longleftrightarrow> True"
| "runtime_run (x # xs) w \<longleftrightarrow> runtime_possible x w \<and> runtime_run xs (runtime_step x w)"

section \<open>The invariant of the manager\<close>

definition record_ok :: "manager_status \<Rightarrow> int option \<Rightarrow> int \<Rightarrow> generation_record \<Rightarrow> bool" where
  "record_ok st cur g r \<longleftrightarrow> gr_status r \<in> {GenActive, GenRetired, GenClosing} \<and>
     (gr_snapshot r = None \<longleftrightarrow> gr_status r = GenClosing) \<and> (gr_passes r \<noteq> None \<longleftrightarrow> gr_status r = GenClosing) \<and>
     (gr_status r = GenClosing \<longrightarrow> gr_leases r = 0) \<and> 0 \<le> gr_leases r \<and>
     (gr_status r = GenActive \<longrightarrow> st = RtRunning \<and> cur = Some g) \<and>
     (gr_status r = GenRetired \<and> gr_leases r = 0 \<longrightarrow> st \<in> {RtStopping, RtStopFailed})"

definition numbered :: "generations \<Rightarrow> int \<Rightarrow> bool" where
  "numbered m g \<longleftrightarrow> (\<exists>c. gm_current m = Some c \<and> g \<le> c)"

definition tables_ok :: "generations \<Rightarrow> bool" where
  "tables_ok m \<longleftrightarrow> distinct (dict_keys (gm_generations m)) \<and> distinct (dict_keys (gm_failed m)) \<and>
     distinct (dict_keys (gm_slots m)) \<and> fst ` set (gm_generations m) \<inter> fst ` set (gm_failed m) = {} \<and>
     (\<forall>i\<in>fst ` set (gm_slots m). i < gm_next_slot m) \<and>
     (\<forall>g\<in>fst ` set (gm_generations m) \<union> fst ` set (gm_failed m). numbered m g) \<and>
     (\<forall>i r. dict_get (gm_slots m) i = Some r \<longrightarrow> distinct (dict_keys (us_clients r)))"

definition records_ok :: "generations \<Rightarrow> bool" where
  "records_ok m \<longleftrightarrow> (\<forall>g r. dict_get (gm_generations m) g = Some r \<longrightarrow> record_ok (gm_status m) (gm_current m) g r)"

definition status_ok :: "generations \<Rightarrow> bool" where
  "status_ok m \<longleftrightarrow>
     (gm_status m = RtRunning \<longrightarrow> (\<exists>g r. gm_current m = Some g \<and> dict_get (gm_generations m) g = Some r \<and> gr_status r = GenActive)) \<and>
     (gm_status m = RtNew \<longrightarrow> gm_generations m = [] \<and> gm_failed m = []) \<and>
     (gm_status m = RtStopped \<longrightarrow> gm_generations m = [] \<and> gm_failed m = [] \<and> gm_slots m = []) \<and>
     (gm_shutdown m \<noteq> SdIdle \<longleftrightarrow> gm_status m = RtStopping) \<and> length (gm_generations m) \<le> MAX_RETIRING + 1"

definition manager_ok :: "generations \<Rightarrow> bool" where
  "manager_ok m \<longleftrightarrow> tables_ok m \<and> records_ok m \<and> status_ok m"

lemmas manager_defs = manager_ok_def tables_ok_def records_ok_def status_ok_def numbered_def

text \<open>Diagnostics, history and the lock do not matter.\<close>

lemma manager_ok_diagnostics [simp]:
  "manager_ok (m\<lparr>gm_failures := fs\<rparr>) = manager_ok m"
  "manager_ok (m\<lparr>gm_history := hs\<rparr>) = manager_ok m"
  "manager_ok (m\<lparr>gm_recovery := rc\<rparr>) = manager_ok m"
  by (simp_all add: manager_defs)

lemma record_failure_update: "\<exists>fs. record_cleanup_failure g x e m = m\<lparr>gm_failures := fs\<rparr>"
proof (cases "\<lparr>cf_generation = g, cf_resource = x, cf_exception = sanitize_exception_type_name e\<rparr> \<in> set (gm_failures m)")
  case True
  then show ?thesis by (intro exI[of _ "gm_failures m"]) (simp add: record_cleanup_failure_def Let_def)
qed (auto simp: record_cleanup_failure_def Let_def)

lemma record_cleanup_failure_ok [simp]: "manager_ok (record_cleanup_failure g x e m) = manager_ok m"
  using record_failure_update[of g x e m] by auto

lemma remember_ok [simp]: "manager_ok (remember_terminal_status g st m) = manager_ok m"
  by (simp add: remember_terminal_status_def Let_def)

text \<open>An attempt to close changes the diagnostics only.\<close>

lemma close_pass_update: "\<exists>fs. snd (close_pass g answers pending m) = m\<lparr>gm_failures := fs\<rparr>"
proof -
  have "\<exists>fs. fold (\<lambda>(n, c) m'. case answers n of None \<Rightarrow> m' | Some exn \<Rightarrow> record_cleanup_failure g n exn m') ps m =
      m\<lparr>gm_failures := fs\<rparr>" for ps :: client_map
  proof (induction ps arbitrary: m)
    case Nil
    then show ?case by (intro exI[of _ "gm_failures m"]) simp
  next
    case (Cons p ps)
    show ?case
    proof (cases "answers (fst p)")
      case None
      with Cons show ?thesis by (simp add: split_beta)
    next
      case (Some exn)
      obtain fs where "record_cleanup_failure g (fst p) exn m = m\<lparr>gm_failures := fs\<rparr>" using record_failure_update by blast
      with Cons[of "m\<lparr>gm_failures := fs\<rparr>"] Some show ?thesis by (simp add: split_beta)
    qed
  qed
  then show ?thesis by (simp add: close_pass_def)
qed

section \<open>What is leased and owned\<close>

definition holds :: "client \<Rightarrow> client_map \<Rightarrow> int" where
  "holds c d = dict_sum (\<lambda>x. if x = c then 1 else 0) d"

lemma live_clients_simps [simp]:
  "live_clients (r\<lparr>gr_status := st\<rparr>) = live_clients r" "live_clients (r\<lparr>gr_leases := n\<rparr>) = live_clients r"
  "live_clients (new_generation s) = sp_clients s"
  by (simp_all add: live_clients_def new_generation_def split: option.split)

lemma holds_Nil [simp]: "holds c [] = 0"
  by (simp add: holds_def)

definition owners :: "client \<Rightarrow> generations \<Rightarrow> int" where
  "owners c m = dict_sum (\<lambda>r. holds c (us_clients r)) (gm_slots m) +
     dict_sum (\<lambda>r. holds c (live_clients r)) (gm_generations m) + dict_sum (holds c) (gm_failed m)"

definition lease_count :: "generations \<Rightarrow> int \<Rightarrow> int" where
  "lease_count m g = (case dict_get (gm_generations m) g of None \<Rightarrow> 0 | Some r \<Rightarrow> gr_leases r)"

text \<open>The manager is well formed and neither leases nor owners changed.\<close>

definition quiet :: "generations \<Rightarrow> generations \<Rightarrow> bool" where
  "quiet m m' \<longleftrightarrow> manager_ok m' \<and> lease_count m' = lease_count m \<and> (\<forall>c. owners c m' = owners c m)"

lemma quietD:
  assumes "quiet m m'" shows "manager_ok m'" and "lease_count m' g = lease_count m g" and "owners c m' = owners c m"
  using assms by (simp_all add: quiet_def)

lemma quiet_refl: "manager_ok m \<Longrightarrow> quiet m m"
  by (simp add: quiet_def)

lemma quiet_trans: "quiet m m' \<Longrightarrow> quiet m' m'' \<Longrightarrow> quiet m m''"
  by (simp add: quiet_def)

lemma books_diagnostics [simp]:
  "owners c (m\<lparr>gm_failures := fs\<rparr>) = owners c m" "lease_count (m\<lparr>gm_failures := fs\<rparr>) = lease_count m"
  "owners c (m\<lparr>gm_history := hs\<rparr>) = owners c m" "lease_count (m\<lparr>gm_history := hs\<rparr>) = lease_count m"
  "owners c (m\<lparr>gm_recovery := rc\<rparr>) = owners c m" "lease_count (m\<lparr>gm_recovery := rc\<rparr>) = lease_count m"
  by (simp_all add: owners_def lease_count_def fun_eq_iff)

lemma quiet_diagnostics [simp]:
  "quiet m (m'\<lparr>gm_failures := fs\<rparr>) = quiet m m'" "quiet m (m'\<lparr>gm_history := hs\<rparr>) = quiet m m'"
  "quiet m (m'\<lparr>gm_recovery := rc\<rparr>) = quiet m m'"
  by (simp_all add: quiet_def)

lemma diagnostics_last:
  "m\<lparr>gm_failures := fs, gm_slots := S\<rparr> = m\<lparr>gm_slots := S, gm_failures := fs\<rparr>"
  "m\<lparr>gm_failures := fs, gm_generations := G\<rparr> = m\<lparr>gm_generations := G, gm_failures := fs\<rparr>"
  "m\<lparr>gm_failures := fs, gm_failed := F\<rparr> = m\<lparr>gm_failed := F, gm_failures := fs\<rparr>"
  "m\<lparr>gm_failures := fs, gm_status := st\<rparr> = m\<lparr>gm_status := st, gm_failures := fs\<rparr>"
  "m\<lparr>gm_failures := fs, gm_shutdown := ph\<rparr> = m\<lparr>gm_shutdown := ph, gm_failures := fs\<rparr>"
  "m\<lparr>gm_recovery := rc, gm_status := st\<rparr> = m\<lparr>gm_status := st, gm_recovery := rc\<rparr>"
  "m\<lparr>gm_recovery := rc, gm_shutdown := ph\<rparr> = m\<lparr>gm_shutdown := ph, gm_recovery := rc\<rparr>"
  "m\<lparr>gm_shutdown := ph, gm_status := st\<rparr> = m\<lparr>gm_status := st, gm_shutdown := ph\<rparr>"
  by (cases m, simp)+

lemma finish_cleanup_eqs:
  "finish_cleanup g failed (m\<lparr>gm_failures := fs\<rparr>) = (finish_cleanup g failed m)\<lparr>gm_failures := fs\<rparr>"
  "finish_cleanup g failed (m\<lparr>gm_generations := dict_set g r (gm_generations m)\<rparr>) = finish_cleanup g failed m"
  by (cases m, simp add: finish_cleanup_def remember_terminal_status_def Let_def dict_pop_set)+

lemma quiet_record_failure [simp]: "quiet m (record_cleanup_failure g x e m') = quiet m m'"
  using record_failure_update[of g x e m'] by auto

lemma remember_books:
  "owners c (remember_terminal_status g st m) = owners c m"
  "lease_count (remember_terminal_status g st m) = lease_count m"
  by (simp_all add: remember_terminal_status_def Let_def)

lemma quiet_remember [simp]: "quiet m (remember_terminal_status g st m') = quiet m m'"
  by (simp add: remember_terminal_status_def Let_def)

text \<open>The primitive changes.\<close>

lemma manager_okD:
  assumes "manager_ok m" shows "tables_ok m" and "records_ok m" and "status_ok m"
  using assms by (simp_all add: manager_ok_def)

lemma record_at: "manager_ok m \<Longrightarrow> dict_get (gm_generations m) g = Some r \<Longrightarrow> record_ok (gm_status m) (gm_current m) g r"
  by (simp add: manager_ok_def records_ok_def)

text \<open>In the middle of a step a retired generation may have no lease.\<close>

definition nearly_ok :: "int \<Rightarrow> generations \<Rightarrow> bool" where
  "nearly_ok g m \<longleftrightarrow> tables_ok m \<and> status_ok m \<and> (\<forall>g' r. dict_get (gm_generations m) g' = Some r \<longrightarrow>
     (if g' = g then record_ok RtStopping None g r else record_ok (gm_status m) (gm_current m) g' r))"

lemma nearly_okD:
  assumes "nearly_ok g m" shows "tables_ok m" and "status_ok m"
    and "dict_get (gm_generations m) g = Some r \<Longrightarrow> record_ok RtStopping None g r"
  using assms by (auto simp: nearly_ok_def)

lemma ok_nearly:
  assumes "manager_ok m" and "dict_get (gm_generations m) g = Some r" and "gr_status r \<noteq> GenActive"
  shows "nearly_ok g m"
  using assms by (auto simp: nearly_ok_def manager_ok_def records_ok_def record_ok_def)

lemma put_status_ok:
  assumes ok: "status_ok m" and g: "dict_get (gm_generations m) g = Some r"
    and act: "gr_status r = GenActive \<longrightarrow> gr_status r' = GenActive"
  shows "status_ok (m\<lparr>gm_generations := dict_set g r' (gm_generations m)\<rparr>)"
proof -
  have "\<exists>x y. gm_current m = Some x \<and> dict_get (dict_set g r' (gm_generations m)) x = Some y \<and> gr_status y = GenActive"
    if "gm_status m = RtRunning"
    using ok that g act unfolding status_ok_def dict_get_set by (metis option.inject)
  moreover have "gm_generations m \<noteq> []" using g by auto
  ultimately show ?thesis using ok length_dict_set_old[OF g, of r'] by (simp add: status_ok_def)
qed

lemma put_tables_ok:
  assumes ok: "tables_ok m" and g: "dict_get (gm_generations m) g = Some r"
  shows "tables_ok (m\<lparr>gm_generations := dict_set g r' (gm_generations m)\<rparr>)"
proof -
  have "insert g (fst ` set (gm_generations m)) = fst ` set (gm_generations m)" using g by (force dest: map_of_SomeD)
  then show ?thesis using ok by (simp add: tables_ok_def numbered_def keys_dict_set distinct_dict_set)
qed

lemma put_record_ok:
  assumes ok: "manager_ok m \<or> (nearly_ok g m \<and> gr_status r \<noteq> GenActive)" and g: "dict_get (gm_generations m) g = Some r"
    and r': "record_ok (gm_status m) (gm_current m) g r'" and act: "gr_status r = GenActive \<longrightarrow> gr_status r' = GenActive"
  shows "manager_ok (m\<lparr>gm_generations := dict_set g r' (gm_generations m)\<rparr>)" (is "manager_ok ?m")
proof -
  have base: "tables_ok m" "status_ok m" using ok by (auto simp: manager_ok_def nearly_ok_def)
  have "records_ok ?m"
    using ok r' by (auto simp: records_ok_def manager_ok_def nearly_ok_def dict_get_set)
  with put_tables_ok[OF base(1) g] put_status_ok[OF base(2) g act] show ?thesis by (simp add: manager_ok_def)
qed

lemma put_record_books:
  assumes ok: "tables_ok m" and g: "dict_get (gm_generations m) g = Some r"
  shows "lease_count (m\<lparr>gm_generations := dict_set g r' (gm_generations m)\<rparr>) = (lease_count m)(g := gr_leases r')"
    and "owners c (m\<lparr>gm_generations := dict_set g r' (gm_generations m)\<rparr>) =
      owners c m - holds c (live_clients r) + holds c (live_clients r')"
  using assms by (auto simp: lease_count_def fun_eq_iff dict_get_set owners_def tables_ok_def dict_sum_set)

lemma finish_cleanup_books:
  assumes ok: "nearly_ok g m" and g: "dict_get (gm_generations m) g = Some r"
    and idle: "gr_status r \<noteq> GenActive" "gr_leases r = 0"
  shows "manager_ok (finish_cleanup g failed m)" and "lease_count (finish_cleanup g failed m) = lease_count m"
    and "owners c (finish_cleanup g failed m) = owners c m - holds c (live_clients r) + holds c failed"
proof -
  let ?m = "m\<lparr>gm_generations := dict_pop g (gm_generations m),
    gm_failed := (if failed \<noteq> [] then dict_set g failed (gm_failed m) else dict_pop g (gm_failed m))\<rparr>"
  note base = nearly_okD(1,2)[OF ok]
  have mem: "g \<in> fst ` set (gm_generations m)" using g by (force dest: map_of_SomeD)
  then have "numbered m g" and none: "dict_get (gm_failed m) g = None"
    using base(1) by (auto simp: tables_ok_def map_of_eq_None_iff)
  then have "tables_ok ?m" using base(1)
    by (auto simp: tables_ok_def numbered_def keys_dict_set keys_dict_pop distinct_dict_set distinct_dict_pop)
  moreover have "records_ok ?m"
    using ok by (auto simp: records_ok_def nearly_ok_def dict_get_pop split: if_splits)
  moreover have "status_ok ?m"
  proof -
    have "gm_status m \<noteq> RtStopped" "gm_status m \<noteq> RtNew" using base(2) g by (auto simp: status_ok_def)
    moreover have "\<exists>x y. gm_current m = Some x \<and> dict_get (dict_pop g (gm_generations m)) x = Some y \<and> gr_status y = GenActive"
      if "gm_status m = RtRunning"
      using base(2) that g idle(1) unfolding status_ok_def dict_get_pop by (metis option.inject)
    moreover have "length (dict_pop g (gm_generations m)) \<le> MAX_RETIRING + 1"
      using base(2) length_dict_pop[of g "gm_generations m"] unfolding status_ok_def by linarith
    ultimately show ?thesis using base(2) by (simp add: status_ok_def)
  qed
  ultimately have "manager_ok ?m" by (simp add: manager_ok_def)
  then show "manager_ok (finish_cleanup g failed m)" by (simp only: finish_cleanup_def remember_ok)
  have "lease_count ?m = lease_count m"
    using g idle(2) by (auto simp: lease_count_def fun_eq_iff dict_get_pop)
  then show "lease_count (finish_cleanup g failed m) = lease_count m"
    by (simp only: finish_cleanup_def remember_books)
  have "owners c ?m = owners c m - holds c (live_clients r) + holds c failed"
    using base(1) g none
    by (cases "failed = []") (simp_all add: owners_def tables_ok_def dict_sum_pop dict_sum_set)
  then show "owners c (finish_cleanup g failed m) = owners c m - holds c (live_clients r) + holds c failed"
    by (simp only: finish_cleanup_def remember_books)
qed

lemma finish_cleanup_quiet:
  assumes "nearly_ok g m" and "dict_get (gm_generations m) g = Some r"
    and "gr_status r \<noteq> GenActive" "gr_leases r = 0" and "\<And>c. holds c failed = holds c (live_clients r)"
  shows "quiet m (finish_cleanup g failed m)"
  using finish_cleanup_books[OF assms(1-4)] assms(5) by (simp add: quiet_def)

lemma put_slot_ok:
  assumes ok: "manager_ok m" and i: "dict_get (gm_slots m) i = Some r" and r': "distinct (dict_keys (us_clients r'))"
  shows "manager_ok (m\<lparr>gm_slots := dict_set i r' (gm_slots m)\<rparr>)"
proof -
  have "i \<in> fst ` set (gm_slots m)" using i by (force dest: map_of_SomeD)
  then show ?thesis using ok r' by (auto simp: manager_defs keys_dict_set distinct_dict_set dict_get_set insert_absorb)
qed

lemma pop_slot_ok: "manager_ok m \<Longrightarrow> manager_ok (m\<lparr>gm_slots := dict_pop i (gm_slots m)\<rparr>)"
  by (auto simp: manager_defs keys_dict_pop distinct_dict_pop dict_get_pop)

lemma slot_books:
  assumes ok: "manager_ok m" and i: "dict_get (gm_slots m) i = Some r"
  shows "owners c (m\<lparr>gm_slots := dict_set i r' (gm_slots m)\<rparr>) = owners c m - holds c (us_clients r) + holds c (us_clients r')"
    and "owners c (m\<lparr>gm_slots := dict_pop i (gm_slots m)\<rparr>) = owners c m - holds c (us_clients r)"
    and "lease_count (m\<lparr>gm_slots := S\<rparr>) = lease_count m"
  using assms
  by (simp_all add: lease_count_def fun_eq_iff owners_def dict_sum_set dict_sum_pop manager_ok_def tables_ok_def)

lemma put_slot_quiet:
  assumes ok: "manager_ok m" and i: "dict_get (gm_slots m) i = Some r" and same: "us_clients r' = us_clients r"
  shows "quiet m (m\<lparr>gm_slots := dict_set i r' (gm_slots m)\<rparr>)"
proof -
  have "distinct (dict_keys (us_clients r'))" using ok i same by (auto simp: manager_ok_def tables_ok_def)
  from put_slot_ok[OF ok i this] show ?thesis by (simp add: quiet_def slot_books[OF ok i] same)
qed

lemma pop_slot_quiet:
  assumes ok: "manager_ok m" and i: "dict_get (gm_slots m) i = Some r" and same: "us_clients r = []"
  shows "quiet m (m\<lparr>gm_slots := dict_pop i (gm_slots m)\<rparr>)"
  using pop_slot_ok[OF ok] by (simp add: quiet_def slot_books[OF ok i] same)

lemma schedule_quiet:
  assumes ok: "nearly_ok g m" and g: "dict_get (gm_generations m) g = Some r" and r: "gr_status r = GenRetired" "gr_leases r = 0"
  shows "quiet m (fst (schedule_cleanup g task_ok m))"
proof -
  have rec: "gr_passes r = None" "gr_snapshot r \<noteq> None" using nearly_okD(3)[OF ok g] r by (auto simp: record_ok_def)
  then obtain s where s: "gr_snapshot r = Some s" by auto
  let ?r = "r\<lparr>gr_cleanup_clients := sp_clients s, gr_snapshot := None, gr_status := GenClosing\<rparr>"
  have live: "live_clients r = sp_clients s" "live_clients ?r = sp_clients s" by (simp_all add: live_clients_def s)
  show ?thesis
  proof (cases task_ok)
    case None
    let ?r' = "?r\<lparr>gr_passes := Some 0\<rparr>"
    have "record_ok (gm_status m) (gm_current m) g ?r'" using r by (simp add: record_ok_def)
    moreover have "live_clients ?r' = sp_clients s" by (simp add: live_clients_def)
    moreover have "gr_leases ?r' = lease_count m g" using g by (simp add: lease_count_def)
    ultimately have "quiet m (m\<lparr>gm_generations := dict_set g ?r' (gm_generations m)\<rparr>)"
      using put_record_ok[of m g r ?r'] put_record_books[OF nearly_okD(1)[OF ok] g, where r' = ?r'] ok g r live
      by (simp add: quiet_def fun_eq_iff)
    then show ?thesis using g rec r s None by (simp add: schedule_cleanup_def Let_def)
  next
    case (Some exn)
    have "quiet m (finish_cleanup g (sp_clients s) m)"
      by (rule finish_cleanup_quiet[OF ok g]) (simp_all add: r live)
    moreover obtain fs where fs: "record_cleanup_failure g ''generation_cleanup'' exn
        (m\<lparr>gm_generations := dict_set g ?r (gm_generations m)\<rparr>) = (m\<lparr>gm_generations := dict_set g ?r (gm_generations m)\<rparr>)\<lparr>gm_failures := fs\<rparr>"
      using record_failure_update by blast
    ultimately show ?thesis using g rec(1) r s Some
      by (simp add: schedule_cleanup_def Let_def finish_cleanup_eqs)
  qed
qed

section \<open>Operations that neither lease nor close\<close>

lemma release_record:
  assumes "record_ok st cur g r" and "gr_status r \<noteq> GenClosing"
  shows "0 < gr_leases r \<Longrightarrow> record_ok RtStopping None g (r\<lparr>gr_leases := gr_leases r - 1\<rparr>) \<or> gr_status r = GenActive"
  using assms by (auto simp: record_ok_def)

lemma close_slot_quiet:
  assumes ok: "manager_ok m" shows "quiet m (close_slot i task_ok m)"
proof (cases "dict_get (gm_slots m) i")
  case None
  then show ?thesis using ok by (simp add: close_slot_def quiet_refl)
next
  case (Some r)
  then show ?thesis using ok
    by (auto simp: close_slot_def intro: pop_slot_quiet put_slot_quiet split: option.split)
qed

lemma close_slots_quiet: "manager_ok m \<Longrightarrow> quiet m (fold (\<lambda>i. close_slot i (oks i)) is m)"
proof (induction "is" arbitrary: m)
  case Nil
  then show ?case by (simp add: quiet_refl)
next
  case (Cons i "is")
  note first = close_slot_quiet[OF Cons.prems, of i "oks i"]
  show ?case using quiet_trans[OF first Cons.IH[OF quietD(1)[OF first]]] by simp
qed

lemma open_slot_quiet:
  assumes ok: "manager_ok m" shows "quiet m (fst (open_unpublished_slot gen m))"
proof (cases "fst (open_unpublished_slot gen m) = m")
  case True
  with ok show ?thesis by (simp add: quiet_refl)
next
  case False
  define r where "r = \<lparr>us_generation = gen, us_clients = [], us_accepting = True, us_close_failed = False, us_passes = None\<rparr>"
  let ?m = "m\<lparr>gm_next_slot := gm_next_slot m + 1, gm_slots := dict_set (gm_next_slot m) r (gm_slots m)\<rparr>"
  have m': "fst (open_unpublished_slot gen m) = ?m" and st: "gm_status m \<in> {RtNew, RtRunning}"
    using False by (auto simp: open_unpublished_slot_def r_def split: if_splits)
  have new: "dict_get (gm_slots m) (gm_next_slot m) = None"
    using ok by (auto simp: manager_ok_def tables_ok_def map_of_eq_None_iff)
  have "tables_ok ?m"
    using manager_okD(1)[OF ok]
    by (auto simp: tables_ok_def numbered_def keys_dict_set distinct_dict_set dict_get_set r_def less_Suc_eq)
  moreover have "records_ok ?m" using manager_okD(2)[OF ok] by (simp add: records_ok_def)
  moreover have "status_ok ?m" using manager_okD(3)[OF ok] st by (auto simp: status_ok_def)
  moreover have "owners c ?m = owners c m" for c
    using manager_okD(1)[OF ok] new by (simp add: owners_def tables_ok_def dict_sum_set r_def)
  ultimately show ?thesis by (simp add: m' quiet_def manager_ok_def lease_count_def fun_eq_iff)
qed

lemma slot_task_quiet:
  assumes ok: "manager_ok m"
  shows "quiet m (slot_task_cancelled i m)" and "quiet m (slot_task_broke i exn m)"
proof -
  show "quiet m (slot_task_cancelled i m)" using ok
    by (auto simp: slot_task_cancelled_def quiet_refl intro: put_slot_quiet split: option.split)
  show "quiet m (slot_task_broke i exn m)"
  proof (cases "dict_get (gm_slots m) i")
    case None
    with ok show ?thesis by (simp add: slot_task_broke_def quiet_refl)
  next
    case (Some r)
    obtain fs where fs: "record_cleanup_failure (us_generation r) ''unpublished_cleanup'' exn m = m\<lparr>gm_failures := fs\<rparr>"
      using record_failure_update by blast
    with Some ok fs put_slot_quiet[OF ok Some] pop_slot_quiet[OF ok Some] show ?thesis
      by (auto simp: slot_task_broke_def finish_slot_close_def quiet_refl diagnostics_last)
  qed
qed

section \<open>Attempts to close\<close>

text \<open>The clients of the list were given up, everything else is as before.\<close>

definition closing_quiet :: "client list \<Rightarrow> generations \<Rightarrow> generations \<Rightarrow> bool" where
  "closing_quiet cs m m' \<longleftrightarrow> manager_ok m' \<and> lease_count m' = lease_count m \<and>
     (\<forall>c. owners c m' = owners c m - int (count_list cs c))"

lemma quiet_closing: "quiet m m' \<Longrightarrow> closing_quiet [] m m'"
  by (simp add: closing_quiet_def quiet_def)

lemma holds_pass:
  "holds c (still_pending answers d) = holds c d - int (count_list (closed_by answers d) c)"
  by (induction d) (auto simp: holds_def dict_sum_def closed_by_def still_pending_def)

lemma pass_keys: "distinct (dict_keys d) \<Longrightarrow> distinct (dict_keys (still_pending answers d))"
  unfolding still_pending_def by (induction d) auto

lemma cleanup_pass_closing:
  assumes ok: "manager_ok m"
  shows "closing_quiet (closed_by answers (pass_clients (CleanupPass g answers) m)) m (cleanup_pass g answers m)"
proof (cases "\<exists>r n. dict_get (gm_generations m) g = Some r \<and> gr_passes r = Some n")
  case False
  then have "cleanup_pass g answers m = m \<and> pass_clients (CleanupPass g answers) m = []"
    by (auto simp: cleanup_pass_def pass_clients_def split: option.split)
  with ok show ?thesis by (simp add: closing_quiet_def closed_by_def)
next
  case True
  then obtain r n where g: "dict_get (gm_generations m) g = Some r" and n: "gr_passes r = Some n" by blast
  from record_at[OF ok g] n have r: "gr_status r = GenClosing" "gr_snapshot r = None" "gr_leases r = 0"
    by (auto simp: record_ok_def)
  have live: "live_clients r = gr_cleanup_clients r" by (simp add: live_clients_def r)
  note near = ok_nearly[OF ok g]
  let ?p = "still_pending answers (gr_cleanup_clients r)"
  let ?r = "r\<lparr>gr_cleanup_clients := ?p, gr_passes := Some (n + 1)\<rparr>"
  obtain fs where fs: "close_pass g answers (gr_cleanup_clients r) m = (?p, m\<lparr>gm_failures := fs\<rparr>)"
    using close_pass_update[of g answers "gr_cleanup_clients r" m] by (auto simp: close_pass_def)
  have "record_ok (gm_status m) (gm_current m) g ?r" using r by (simp add: record_ok_def)
  from put_record_ok[OF disjI1[OF ok] g this] have
    "closing_quiet (closed_by answers (gr_cleanup_clients r)) m (m\<lparr>gm_generations := dict_set g ?r (gm_generations m)\<rparr>)"
    using put_record_books[OF manager_okD(1)[OF ok] g, where r' = ?r] g r
    by (auto simp: closing_quiet_def live live_clients_def holds_pass fun_eq_iff lease_count_def)
  moreover have "closing_quiet (closed_by answers (gr_cleanup_clients r)) m (finish_cleanup g ?p m)"
    using finish_cleanup_books[OF near g, where failed = ?p] r by (simp add: closing_quiet_def live holds_pass)
  ultimately show ?thesis using g n fs
    by (simp add: cleanup_pass_def pass_clients_def closing_quiet_def finish_cleanup_eqs diagnostics_last)
qed

lemma slot_pass_closing:
  assumes ok: "manager_ok m"
  shows "closing_quiet (closed_by answers (pass_clients (SlotPass i answers) m)) m (slot_pass i answers m)"
proof (cases "\<exists>r n. dict_get (gm_slots m) i = Some r \<and> us_passes r = Some n")
  case False
  then have "slot_pass i answers m = m \<and> pass_clients (SlotPass i answers) m = []"
    by (auto simp: slot_pass_def pass_clients_def split: option.split)
  with ok show ?thesis by (simp add: closing_quiet_def closed_by_def)
next
  case True
  then obtain r n where i: "dict_get (gm_slots m) i = Some r" and n: "us_passes r = Some n" by blast
  let ?p = "still_pending answers (us_clients r)"
  obtain fs where fs: "close_pass (us_generation r) answers (us_clients r) m = (?p, m\<lparr>gm_failures := fs\<rparr>)"
    using close_pass_update[of "us_generation r" answers "us_clients r" m] by (auto simp: close_pass_def)
  have keys: "distinct (dict_keys ?p)" using ok i by (auto simp: manager_ok_def tables_ok_def intro: pass_keys)
  have "closing_quiet (closed_by answers (us_clients r)) m (m\<lparr>gm_slots := dict_set i r' (gm_slots m)\<rparr>)"
    if "us_clients r' = ?p" for r'
    using put_slot_ok[OF ok i, of r'] keys that by (simp add: closing_quiet_def slot_books[OF ok i] holds_pass)
  moreover have "?p = [] \<Longrightarrow> closing_quiet (closed_by answers (us_clients r)) m (m\<lparr>gm_slots := dict_pop i (gm_slots m)\<rparr>)"
    using pop_slot_ok[OF ok, of i] holds_pass[of _ answers "us_clients r"]
    by (simp add: closing_quiet_def slot_books[OF ok i])
  ultimately show ?thesis using i n fs
    by (simp add: slot_pass_def pass_clients_def finish_slot_close_def closing_quiet_def diagnostics_last)
qed

lemma cleanup_broke_quiet:
  assumes ok: "manager_ok m" shows "quiet m (cleanup_task_broke g exn m)"
proof (cases "cleanup_task_broke g exn m = m")
  case True
  with ok show ?thesis by (simp add: quiet_refl)
next
  case False
  then obtain r where g: "dict_get (gm_generations m) g = Some r" and st: "gr_status r = GenClosing"
    and m': "cleanup_task_broke g exn m =
      finish_cleanup g (gr_cleanup_clients r) (record_cleanup_failure g ''generation_cleanup'' exn m)"
    by (auto simp: cleanup_task_broke_def split: option.splits if_splits)
  obtain fs where fs: "record_cleanup_failure g ''generation_cleanup'' exn m = m\<lparr>gm_failures := fs\<rparr>"
    using record_failure_update by blast
  have "gr_leases r = 0" "live_clients r = gr_cleanup_clients r"
    using record_at[OF ok g] st by (auto simp: record_ok_def live_clients_def)
  then have "quiet m (finish_cleanup g (gr_cleanup_clients r) m)"
    using finish_cleanup_quiet[OF ok_nearly[OF ok g] g] st by simp
  then show ?thesis by (simp add: m' fs finish_cleanup_eqs)
qed

text \<open>The tables of failed generations.\<close>

lemma failed_change:
  assumes ok: "manager_ok m" and g: "dict_get (gm_failed m) g = Some d"
  shows "manager_ok (m\<lparr>gm_failed := dict_pop g (gm_failed m)\<rparr>)" and "manager_ok (m\<lparr>gm_failed := dict_set g d' (gm_failed m)\<rparr>)"
    and "owners c (m\<lparr>gm_failed := dict_pop g (gm_failed m)\<rparr>) = owners c m - holds c d"
    and "owners c (m\<lparr>gm_failed := dict_set g d' (gm_failed m)\<rparr>) = owners c m - holds c d + holds c d'"
    and "lease_count (m\<lparr>gm_failed := F\<rparr>) = lease_count m"
proof -
  have mem: "g \<in> fst ` set (gm_failed m)" using g by (force dest: map_of_SomeD)
  then have ne: "gm_failed m \<noteq> []" by auto
  have keys: "insert g (fst ` set (gm_failed m)) = fst ` set (gm_failed m)" using mem by blast
  have st: "gm_status m \<noteq> RtNew" "gm_status m \<noteq> RtStopped" using manager_okD(3)[OF ok] ne by (auto simp: status_ok_def)
  have "tables_ok (m\<lparr>gm_failed := dict_pop g (gm_failed m)\<rparr>)"
    using manager_okD(1)[OF ok] by (auto simp: tables_ok_def numbered_def keys_dict_pop distinct_dict_pop)
  then show "manager_ok (m\<lparr>gm_failed := dict_pop g (gm_failed m)\<rparr>)"
    using manager_okD(2,3)[OF ok] st by (simp add: manager_ok_def records_ok_def status_ok_def)
  have "tables_ok (m\<lparr>gm_failed := dict_set g d' (gm_failed m)\<rparr>)"
    using manager_okD(1)[OF ok] keys by (simp add: tables_ok_def numbered_def keys_dict_set distinct_dict_set)
  then show "manager_ok (m\<lparr>gm_failed := dict_set g d' (gm_failed m)\<rparr>)"
    using manager_okD(2,3)[OF ok] st by (simp add: manager_ok_def records_ok_def status_ok_def)
  show "owners c (m\<lparr>gm_failed := dict_pop g (gm_failed m)\<rparr>) = owners c m - holds c d"
    and "owners c (m\<lparr>gm_failed := dict_set g d' (gm_failed m)\<rparr>) = owners c m - holds c d + holds c d'"
    and "lease_count (m\<lparr>gm_failed := F\<rparr>) = lease_count m"
    using manager_okD(1)[OF ok] g
    by (simp_all add: owners_def tables_ok_def dict_sum_pop dict_sum_set lease_count_def fun_eq_iff)
qed

lemma lock_last: "m\<lparr>gm_failed := F, gm_recovery := rc\<rparr> = m\<lparr>gm_recovery := rc, gm_failed := F\<rparr>"
  by (cases m) simp

lemma closing_lock: "closing_quiet cs m (m'\<lparr>gm_recovery := rc\<rparr>) = closing_quiet cs m m'"
  "closing_quiet cs m (remember_terminal_status g st m') = closing_quiet cs m m'"
  "closing_quiet cs m (m'\<lparr>gm_failures := fs\<rparr>) = closing_quiet cs m m'"
  by (simp_all add: closing_quiet_def remember_books)

lemma recovery_pass_closing:
  assumes ok: "manager_ok m"
  shows "closing_quiet (closed_by answers (pass_clients (RecoveryPass answers) m)) m (recovery_pass answers m)"
proof (cases "gm_recovery m")
  case None
  with ok show ?thesis by (simp add: recovery_pass_def pass_clients_def closing_quiet_def closed_by_def)
next
  case (Some rc)
  obtain who gs n where rc: "rc = (who, gs, n)" by (cases rc)
  show ?thesis
  proof (cases gs)
    case Nil
    with ok Some rc show ?thesis by (simp add: recovery_pass_def pass_clients_def closing_quiet_def closed_by_def)
  next
    case (Cons g gs')
    show ?thesis
    proof (cases "dict_get (gm_failed m) g")
      case None
      with ok Some rc Cons show ?thesis by (simp add: recovery_pass_def pass_clients_def closing_quiet_def closed_by_def)
    next
      case d: (Some d)
      let ?p = "still_pending answers d"
      obtain fs where fs: "close_pass g answers d m = (?p, m\<lparr>gm_failures := fs\<rparr>)"
        using close_pass_update[of g answers d m] by (auto simp: close_pass_def)
      note ch = failed_change[OF ok d]
      have "closing_quiet (closed_by answers d) m (m\<lparr>gm_failed := dict_set g ?p (gm_failed m)\<rparr>)"
        using ch by (simp add: closing_quiet_def holds_pass)
      moreover have "?p = [] \<Longrightarrow> closing_quiet (closed_by answers d) m (m\<lparr>gm_failed := dict_pop g (gm_failed m)\<rparr>)"
        using ch holds_pass[of _ answers d] by (simp add: closing_quiet_def)
      ultimately show ?thesis using Some rc Cons d fs
        by (auto simp: recovery_pass_def pass_clients_def closing_lock diagnostics_last)
    qed
  qed
qed

section \<open>Retry and shutdown\<close>

lemma retry_begin_quiet: "manager_ok m \<Longrightarrow> quiet m (fst (retry_begin oks m))"
  by (simp add: retry_begin_def close_failed_slots_def quiet_refl close_slots_quiet)

lemma lock_quiet: "manager_ok m \<Longrightarrow> quiet m (recovery_lock who m)"
  by (simp add: recovery_lock_def quiet_refl)

lemma status_change_ok:
  assumes ok: "manager_ok m" and st: "gm_status m \<in> {RtStopping, RtStopFailed}" "st \<in> {RtStopFailed, RtStopped}"
    and closed: "st = RtStopped \<longrightarrow> all_closed m"
  shows "quiet m (m\<lparr>gm_status := st, gm_shutdown := SdIdle\<rparr>)"
proof -
  have "records_ok (m\<lparr>gm_status := st, gm_shutdown := SdIdle\<rparr>)"
    using manager_okD(2)[OF ok] st closed by (auto simp: records_ok_def record_ok_def all_closed_def)
  moreover have "status_ok (m\<lparr>gm_status := st, gm_shutdown := SdIdle\<rparr>)"
    using manager_okD(3)[OF ok] st closed by (auto simp: status_ok_def all_closed_def)
  moreover have "tables_ok (m\<lparr>gm_status := st, gm_shutdown := SdIdle\<rparr>)"
    using manager_okD(1)[OF ok] by (simp add: tables_ok_def numbered_def)
  ultimately show ?thesis by (simp add: quiet_def manager_ok_def lease_count_def fun_eq_iff owners_def)
qed

lemma shutdown_status: "manager_ok m \<Longrightarrow> gm_shutdown m \<noteq> SdIdle \<longleftrightarrow> gm_status m = RtStopping"
  by (simp add: manager_ok_def status_ok_def)

lemma retry_end_quiet:
  assumes ok: "manager_ok m" shows "quiet m (retry_end seen m)"
proof -
  have "gm_status m = RtStopFailed \<Longrightarrow> m\<lparr>gm_status := RtStopped, gm_shutdown := SdIdle\<rparr> = m\<lparr>gm_status := RtStopped\<rparr>"
    using shutdown_status[OF ok] by (cases m) simp
  with status_change_ok[OF ok, of RtStopped] ok show ?thesis
    by (auto simp: retry_end_def Let_def quiet_refl diagnostics_last split: option.split list.split bool.split)
qed

lemma shutdown_end_quiet:
  assumes ok: "manager_ok m" shows "quiet m (shutdown_end seen m)"
proof (cases "\<exists>n. gm_shutdown m = SdClients \<and> gm_recovery m = Some (True, [], n)")
  case False
  then have "shutdown_end seen m = m"
    by (auto simp: shutdown_end_def split: option.split shutdown_phase.split list.split bool.split)
  with ok show ?thesis by (simp add: quiet_refl)
next
  case True
  then have st: "gm_status m = RtStopping" using shutdown_status[OF ok] by auto
  let ?m = "m\<lparr>gm_recovery := None, gm_shutdown := SdIdle\<rparr>"
  obtain fs where fs: "record_cleanup_failure (shutdown_generation m) ''runtime_shutdown'' ''UnresolvedHttpClients'' ?m = ?m\<lparr>gm_failures := fs\<rparr>"
    using record_failure_update by blast
  show ?thesis using status_change_ok[OF ok, of RtStopped] status_change_ok[OF ok, of RtStopFailed] True st
    by (auto simp: shutdown_end_def Let_def fs) (simp_all add: diagnostics_last)
qed

lemma shutdown_broke_quiet:
  assumes ok: "manager_ok m" shows "quiet m (shutdown_broke exn m)"
proof (cases "gm_shutdown m = SdIdle")
  case True
  with ok show ?thesis by (simp add: shutdown_broke_def quiet_refl)
next
  case False
  then have st: "gm_status m = RtStopping" using shutdown_status[OF ok] by auto
  obtain fs where fs: "record_cleanup_failure (shutdown_generation m) ''runtime_shutdown'' exn m = m\<lparr>gm_failures := fs\<rparr>"
    using record_failure_update by blast
  show ?thesis using status_change_ok[OF ok, of RtStopFailed] st False
    by (simp add: shutdown_broke_def fs diagnostics_last)
qed

lemma shutdown_begin_quiet:
  assumes ok: "manager_ok m" shows "quiet m (shutdown_begin m)"
proof (cases "gm_status m = RtStopped \<or> gm_shutdown m \<noteq> SdIdle")
  case True
  with ok show ?thesis by (auto simp: shutdown_begin_def quiet_refl)
next
  case False
  show ?thesis
  proof (cases "gm_status m = RtRunning")
    case True
    then obtain g r where g: "gm_current m = Some g" "dict_get (gm_generations m) g = Some r" "gr_status r = GenActive"
      using manager_okD(3)[OF ok] by (auto simp: status_ok_def)
    let ?r = "r\<lparr>gr_status := GenRetired\<rparr>"
    let ?m = "m\<lparr>gm_generations := dict_set g ?r (gm_generations m), gm_status := RtStopping, gm_shutdown := SdSlots\<rparr>"
    have m': "shutdown_begin m = ?m" using False True g by (simp add: shutdown_begin_def Let_def)
    have len: "length (dict_set g ?r (gm_generations m)) = length (gm_generations m)" by (rule length_dict_set_old[OF g(2)])
    have "tables_ok ?m" using put_tables_ok[OF manager_okD(1)[OF ok] g(2), of ?r] by (simp add: tables_ok_def numbered_def)
    moreover have "records_ok ?m"
    proof -
      have "record_ok RtStopping (Some g) g' r'" if "dict_get (dict_set g ?r (gm_generations m)) g' = Some r'" for g' r'
        using record_at[OF ok g(2)] record_at[OF ok, of g' r'] that g(1,3)
        by (cases "g' = g") (auto simp: record_ok_def dict_get_set)
      then show ?thesis using g(1) by (simp add: records_ok_def)
    qed
    moreover have "status_ok ?m" using manager_okD(3)[OF ok] len by (simp add: status_ok_def)
    moreover have "lease_count ?m = lease_count m" using g by (auto simp: lease_count_def fun_eq_iff dict_get_set)
    moreover have "owners c ?m = owners c m" for c
      using put_record_books(2)[OF manager_okD(1)[OF ok] g(2), of c ?r] by (simp add: owners_def)
    ultimately show ?thesis by (simp add: m' quiet_def manager_ok_def)
  next
    case other: False
    let ?m = "m\<lparr>gm_status := RtStopping, gm_shutdown := SdSlots\<rparr>"
    have m': "shutdown_begin m = ?m" using False other by (simp add: shutdown_begin_def Let_def)
    have "records_ok ?m" using manager_okD(2)[OF ok] other by (auto simp: records_ok_def record_ok_def)
    moreover have "tables_ok ?m" using manager_okD(1)[OF ok] by (simp add: tables_ok_def numbered_def)
    moreover have "status_ok ?m" using manager_okD(3)[OF ok] by (simp add: status_ok_def)
    ultimately show ?thesis by (simp add: m' quiet_def manager_ok_def lease_count_def fun_eq_iff owners_def)
  qed
qed

text \<open>The phases of a shutdown.\<close>

lemma phase_quiet:
  assumes "quiet m m'" and "gm_shutdown m' \<noteq> SdIdle" and "ph \<noteq> SdIdle"
  shows "quiet m (m'\<lparr>gm_shutdown := ph\<rparr>)"
proof -
  have ok: "manager_ok m'" using assms(1) by (simp add: quiet_def)
  have "gm_status m' = RtStopping" using shutdown_status[OF ok] assms(2) by simp
  then have "manager_ok (m'\<lparr>gm_shutdown := ph\<rparr>)"
    using manager_okD[OF ok] assms(3) by (simp add: manager_ok_def tables_ok_def numbered_def records_ok_def status_ok_def)
  then show ?thesis using assms(1) by (simp add: quiet_def lease_count_def fun_eq_iff owners_def)
qed

lemma rcf_phase [simp]: "gm_shutdown (record_cleanup_failure g x e m) = gm_shutdown m"
  using record_failure_update[of g x e m] by auto

lemma close_slots_phase: "gm_shutdown (fold (\<lambda>i. close_slot i (oks i)) is m) = gm_shutdown m"
  by (induction "is" arbitrary: m) (simp_all add: close_slot_def split: option.split)

lemma shutdown_slots_quiet: "manager_ok m \<Longrightarrow> quiet m (shutdown_slots oks m)"
  by (auto simp: shutdown_slots_def quiet_refl close_slots_phase intro!: phase_quiet close_slots_quiet)

lemma shutdown_drained_quiet: "manager_ok m \<Longrightarrow> quiet m (shutdown_drained oks m)"
  by (auto simp: shutdown_drained_def close_failed_slots_def quiet_refl close_slots_phase intro!: phase_quiet close_slots_quiet)

lemma shutdown_lock_quiet: "manager_ok m \<Longrightarrow> quiet m (shutdown_lock m)"
  by (auto simp: shutdown_lock_def quiet_refl recovery_lock_def intro!: phase_quiet)

lemma finish_fields: "gm_shutdown (finish_cleanup g f m) = gm_shutdown m" "gm_status (finish_cleanup g f m) = gm_status m"
  by (simp_all add: finish_cleanup_def remember_terminal_status_def Let_def)

lemma rcf_status [simp]: "gm_status (record_cleanup_failure g x e m) = gm_status m"
  using record_failure_update[of g x e m] by auto

lemma schedule_fields: "gm_shutdown (fst (schedule_cleanup g ok m)) = gm_shutdown m"
  "gm_status (fst (schedule_cleanup g ok m)) = gm_status m"
  by (auto simp: schedule_cleanup_def Let_def finish_fields split: option.split)

lemma schedule_retired_step:
  assumes ok: "manager_ok m" and none: "\<forall>g. lease_count m g = 0"
  shows "quiet m (schedule_retired oks g m)" and "gm_shutdown (schedule_retired oks g m) = gm_shutdown m"
proof -
  show "gm_shutdown (schedule_retired oks g m) = gm_shutdown m"
    by (simp add: schedule_retired_def schedule_fields split: option.split)
  show "quiet m (schedule_retired oks g m)"
  proof (cases "dict_get (gm_generations m) g")
    case None
    with ok show ?thesis by (simp add: schedule_retired_def quiet_refl)
  next
    case (Some r)
    have "gr_leases r = 0" using none Some by (auto simp: lease_count_def dest!: spec[of _ g])
    then have "gr_status r = GenRetired \<Longrightarrow> quiet m (fst (schedule_cleanup g (oks g) m))"
      using schedule_quiet[OF ok_nearly[OF ok Some] Some] by simp
    with Some ok show ?thesis by (simp add: schedule_retired_def quiet_refl)
  qed
qed

lemma schedule_all_quiet:
  "manager_ok m \<Longrightarrow> \<forall>g. lease_count m g = 0 \<Longrightarrow>
     quiet m (fold (schedule_retired oks) gs m) \<and> gm_shutdown (fold (schedule_retired oks) gs m) = gm_shutdown m"
proof (induction gs arbitrary: m)
  case Nil
  then show ?case by (simp add: quiet_refl)
next
  case (Cons g gs)
  note first = schedule_retired_step[OF Cons.prems, of oks g]
  have "\<forall>g'. lease_count (schedule_retired oks g m) g' = 0" using Cons.prems(2) first(1) by (simp add: quiet_def)
  from Cons.IH[OF quietD(1)[OF first(1)] this] show ?case using first by (auto intro: quiet_trans)
qed

lemma shutdown_leases_quiet:
  assumes ok: "manager_ok m" and none: "list_all (\<lambda>(g, r). gr_leases r = 0) (gm_generations m)"
  shows "quiet m (shutdown_leases oks m)"
proof -
  have "lease_count m g = 0" for g
    using none by (auto simp: lease_count_def list_all_iff dest: map_of_SomeD split: option.split)
  with schedule_all_quiet[OF ok, of oks] ok show ?thesis
    by (auto simp: shutdown_leases_def quiet_refl intro!: phase_quiet)
qed

section \<open>Publishing\<close>

lemma same_clients_holds:
  assumes d: "distinct (dict_keys d)" and e: "distinct (dict_keys e)" and same: "same_clients d e"
  shows "holds c d = holds c e"
proof -
  have get: "dict_get e n = Some x" if "(n, x) \<in> set d" for n x
    using same that by (auto simp: same_clients_def list_all_iff)
  have "set d = set e"
  proof (rule set_eqI)
    fix p :: "string \<times> client"
    obtain n x where p: "p = (n, x)" by (cases p)
    have "(n, x) \<in> set e \<Longrightarrow> (n, x) \<in> set d"
    proof -
      assume x: "(n, x) \<in> set e"
      then have "n \<in> set (dict_keys e)" by force
      then have "n \<in> set (dict_keys d)" using same by (simp only: same_clients_def)
      then obtain y where y: "(n, y) \<in> set d" by auto
      with get[OF y] x e show ?thesis by auto
    qed
    with get[of n x] show "p \<in> set d \<longleftrightarrow> p \<in> set e" by (auto simp: p dest: map_of_SomeD)
  qed
  moreover have "distinct d" "distinct e" using d e by (auto simp: distinct_map)
  ultimately show ?thesis by (simp add: holds_def dict_sum_def sum_list_distinct_conv_sum_set)
qed

lemma validate_candidate_slot:
  assumes "validate_candidate cand i m = Inr r" and "manager_ok m" and "distinct (dict_keys (sp_clients cand))"
  shows "dict_get (gm_slots m) i = Some r" and "holds c (us_clients r) = holds c (sp_clients cand)"
proof -
  show i: "dict_get (gm_slots m) i = Some r"
    using assms(1) by (auto simp: validate_candidate_def split: option.splits if_splits)
  moreover have "same_clients (us_clients r) (sp_clients cand)"
    using assms(1) by (auto simp: validate_candidate_def split: option.splits if_splits)
  moreover have "distinct (dict_keys (us_clients r))" using assms(2) i by (auto simp: manager_ok_def tables_ok_def)
  ultimately show "holds c (us_clients r) = holds c (sp_clients cand)" using same_clients_holds assms(3) by blast
qed

lemma install_quiet:
  assumes ok: "manager_ok m" and keys: "distinct (dict_keys (sp_clients cand))"
  shows "quiet m (fst (install_initial cand i m))"
proof (cases "fst (install_initial cand i m) = m")
  case True
  with ok show ?thesis by (simp add: quiet_refl)
next
  case False
  then obtain r where v: "validate_candidate cand i m = Inr r" and st: "gm_status m = RtNew"
    by (auto simp: install_initial_def split: sum.splits if_splits)
  note slot = validate_candidate_slot[OF v ok keys]
  have empty: "gm_generations m = []" "gm_failed m = []" "gm_shutdown m = SdIdle"
    using manager_okD(3)[OF ok] st by (auto simp: status_ok_def)
  let ?m = "m\<lparr>gm_generations := [(1, new_generation cand)], gm_current := Some 1, gm_status := RtRunning,
    gm_slots := dict_pop i (gm_slots m)\<rparr>"
  have m': "fst (install_initial cand i m) = ?m"
    using False v empty(1) by (auto simp: install_initial_def split: if_splits)
  have "tables_ok ?m" using manager_okD(1)[OF pop_slot_ok[OF ok, of i]] empty by (simp add: tables_ok_def numbered_def)
  moreover have "records_ok ?m" by (simp add: records_ok_def record_ok_def new_generation_def)
  moreover have "status_ok ?m" using empty by (simp add: status_ok_def new_generation_def MAX_RETIRING_def)
  moreover have "owners c ?m = owners c m" for c
    using slot_books(2)[OF ok slot(1), of c] slot(2)[of c] empty by (simp add: owners_def dict_sum_def)
  moreover have "lease_count ?m = lease_count m" using empty by (auto simp: lease_count_def fun_eq_iff new_generation_def)
  ultimately show ?thesis by (simp add: m' quiet_def manager_ok_def)
qed

text \<open>One generation is not retiring: the active one.\<close>

lemma one_key: "distinct (dict_keys d) \<Longrightarrow> length (filter (\<lambda>p. fst p = k) d) \<le> 1"
proof (induction d)
  case (Cons p d)
  have "filter (\<lambda>q. fst q = k) d = []" if "fst p = k"
  proof -
    have "k \<notin> fst ` set d" using Cons.prems that by simp
    then have "fst q \<noteq> k" if "q \<in> set d" for q using imageI[OF that, of fst] by metis
    then show ?thesis by (simp add: filter_empty_conv)
  qed
  with Cons show ?case by auto
qed simp

lemma filter_length_mono: "\<forall>x\<in>set xs. P x \<longrightarrow> Q x \<Longrightarrow> length (filter P xs) \<le> length (filter Q xs)"
  by (induction xs) auto

lemma retiring_length:
  assumes ok: "manager_ok m"
  shows "length (gm_generations m) \<le> retiring_count m + 1"
proof -
  let ?P = "\<lambda>p. Some (fst p) \<noteq> gm_current m \<and> gr_status (snd p) \<in> {GenRetired, GenClosing}"
  have keys: "distinct (dict_keys (gm_generations m))" using manager_okD(1)[OF ok] by (simp add: tables_ok_def)
  have "Some (fst p) = gm_current m" if "p \<in> set (gm_generations m)" "\<not> ?P p" for p
  proof -
    have "dict_get (gm_generations m) (fst p) = Some (snd p)" using that(1) keys by simp
    from record_at[OF ok this] that(2) show ?thesis by (auto simp: record_ok_def)
  qed
  then have "length (filter (\<lambda>p. \<not> ?P p) (gm_generations m)) \<le> length (filter (\<lambda>p. Some (fst p) = gm_current m) (gm_generations m))"
    by (intro filter_length_mono) blast
  also have "\<dots> \<le> 1" using one_key[OF keys] by (cases "gm_current m") auto
  finally have "length (filter (\<lambda>p. \<not> ?P p) (gm_generations m)) \<le> 1" .
  moreover have "length (gm_generations m) = length (filter ?P (gm_generations m)) + length (filter (\<lambda>p. \<not> ?P p) (gm_generations m))"
    by (simp only: sum_length_filter_compl)
  moreover have "retiring_count m = length (filter ?P (gm_generations m))" 
    unfolding retiring_count_def by (intro arg_cong[of _ _ length] filter_cong) auto
  ultimately show ?thesis by linarith
qed

lemma validate_publish_None:
  assumes "validate_publish h cand expected m = None"
  shows "gm_status m = RtRunning" and "gm_current m = Some expected" and "sp_generation cand = expected + 1"
    and "dict_get (gm_generations m) (expected + 1) = None" and "gm_failed m = []" and "retiring_count m < MAX_RETIRING"
  using assms by (auto simp: validate_publish_def running_def split: if_splits)

lemma publish_quiet:
  assumes ok: "manager_ok m" and keys: "distinct (dict_keys (sp_clients cand))"
  shows "quiet m (fst (publish_candidate h cand expected i task_ok m))"
proof (cases "\<exists>r old. validate_publish h cand expected m = None \<and> validate_candidate cand i m = Inr r \<and>
    dict_get (gm_generations m) expected = Some old")
  case False
  with ok show ?thesis by (auto simp: publish_candidate_def quiet_refl split: option.split sum.split)
next
  case True
  then obtain r old where v: "validate_publish h cand expected m = None" and c: "validate_candidate cand i m = Inr r"
    and old: "dict_get (gm_generations m) expected = Some old" by blast
  note val = validate_publish_None[OF v]
  note slot = validate_candidate_slot[OF c ok keys]
  note T = manager_okD(1)[OF ok, unfolded tables_ok_def]
  let ?new = "dict_set (expected + 1) (new_generation cand) (gm_generations m)"
  let ?old = "old\<lparr>gr_status := GenRetired\<rparr>"
  define m' where "m' = m\<lparr>gm_generations := dict_set expected ?old ?new, gm_current := Some (expected + 1),
      gm_slots := dict_pop i (gm_slots m)\<rparr>"
  have pub: "fst (publish_candidate h cand expected i task_ok m) =
      (if gr_leases old = 0 then fst (schedule_cleanup expected task_ok m') else m')"
    using v c old val(3) by (simp add: publish_candidate_def Let_def m'_def)
  have new: "dict_get ?new expected = Some old" using old by (simp add: dict_get_set)
  have get: "dict_get (gm_generations m') g = (if g = expected then Some ?old else if g = expected + 1
      then Some (new_generation cand) else dict_get (gm_generations m) g)" for g
    by (simp add: m'_def dict_get_set)
  have act: "gr_status old = GenActive"
  proof -
    obtain x where "dict_get (gm_generations m) expected = Some x" "gr_status x = GenActive"
      using manager_okD(3)[OF ok] val(1,2) by (auto simp: status_ok_def)
    with old show ?thesis by simp
  qed
  note rec = record_at[OF ok]
  have len: "length (dict_set expected ?old ?new) \<le> MAX_RETIRING + 1"
    using retiring_length[OF ok] val(6) length_dict_set_old[OF new, of ?old] length_dict_set_new[OF val(4)] by simp
  have "tables_ok m'"
    using T val(2,4,5) by (auto simp: tables_ok_def m'_def numbered_def keys_dict_set keys_dict_pop distinct_dict_set
        distinct_dict_pop dict_get_pop)
  moreover have "status_ok m'"
    using manager_okD(3)[OF ok] len val(1) get[of "expected + 1"]
    by (simp add: status_ok_def m'_def new_generation_def)
  moreover have others: "record_ok (gm_status m') (gm_current m') g x"
    if "dict_get (gm_generations m') g = Some x" "g \<noteq> expected" for g x
  proof (cases "g = expected + 1")
    case True
    with that(1) have "x = new_generation cand" by (simp add: get)
    moreover have "gm_status m' = RtRunning" "gm_current m' = Some (expected + 1)" using val(1) by (simp_all add: m'_def)
    ultimately show ?thesis using True by (simp add: record_ok_def new_generation_def)
  next
    case False
    with that have "dict_get (gm_generations m) g = Some x" by (simp add: get)
    from rec[OF this] that(2) val(1,2) show ?thesis by (auto simp: record_ok_def m'_def)
  qed
  moreover have retired: "record_ok RtStopping None expected ?old" using rec[OF old] act by (auto simp: record_ok_def)
  ultimately have near: "nearly_ok expected m'" by (auto simp: nearly_ok_def get[of expected])
  have "lease_count m' = lease_count m"
    using old val(4) by (auto simp: lease_count_def fun_eq_iff get new_generation_def)
  moreover have "owners c m' = owners c m" for c
  proof -
    have "dict_sum (\<lambda>r. holds c (live_clients r)) (dict_set expected ?old ?new) =
        dict_sum (\<lambda>r. holds c (live_clients r)) (gm_generations m) + holds c (sp_clients cand)"
      using T old new val(4) by (simp add: dict_sum_set distinct_dict_set dict_get_set)
    moreover have "dict_sum (\<lambda>r. holds c (us_clients r)) (dict_pop i (gm_slots m)) =
        dict_sum (\<lambda>r. holds c (us_clients r)) (gm_slots m) - holds c (sp_clients cand)"
      using T slot by (simp add: dict_sum_pop)
    ultimately show ?thesis by (simp add: owners_def m'_def)
  qed
  ultimately have books: "lease_count m' = lease_count m" "\<And>c. owners c m' = owners c m" by simp_all
  show ?thesis
  proof (cases "gr_leases old = 0")
    case True
    have "quiet m' (fst (schedule_cleanup expected task_ok m'))"
      by (rule schedule_quiet[OF near, of ?old]) (use True get[of expected] in simp_all)
    with True books show ?thesis by (simp add: pub quiet_def)
  next
    case False
    have "records_ok m'"
      unfolding records_ok_def
    proof (intro allI impI)
      fix g x assume g: "dict_get (gm_generations m') g = Some x"
      show "record_ok (gm_status m') (gm_current m') g x"
      proof (cases "g = expected")
        case True
        with g False retired show ?thesis by (auto simp: get record_ok_def)
      qed (use others g in blast)
    qed
    with nearly_okD(1,2)[OF near] False books show ?thesis by (simp add: pub quiet_def manager_ok_def)
  qed
qed

section \<open>Registration and leases\<close>

lemma register_client:
  assumes ok: "manager_ok m" and r: "register_http_client i n c m = (m', Inr u)"
  shows "manager_ok m' \<and> lease_count m' = lease_count m \<and>
    (\<forall>c'. owners c' m' = owners c' m + (if c' = c then 1 else 0))"
proof -
  obtain r where i: "dict_get (gm_slots m) i = Some r" and n: "dict_get (us_clients r) n = None"
    and m': "m' = m\<lparr>gm_slots := dict_set i (r\<lparr>us_clients := dict_set n c (us_clients r)\<rparr>) (gm_slots m)\<rparr>"
    using r by (auto simp: register_http_client_def split: option.splits if_splits)
  let ?r = "r\<lparr>us_clients := dict_set n c (us_clients r)\<rparr>"
  have keys: "distinct (dict_keys (us_clients r))" using ok i by (auto simp: manager_ok_def tables_ok_def)
  then have "holds c' (us_clients ?r) = holds c' (us_clients r) + (if c' = c then 1 else 0)" for c'
    using n by (simp add: holds_def dict_sum_set)
  moreover have "manager_ok m'" unfolding m' using keys by (intro put_slot_ok[OF ok i]) (simp add: distinct_dict_set)
  ultimately show ?thesis unfolding m' by (simp add: slot_books[OF ok i])
qed

text \<open>One more, or one less, lease of a generation.\<close>

definition leasing :: "int \<Rightarrow> int \<Rightarrow> generations \<Rightarrow> generations \<Rightarrow> bool" where
  "leasing k g m m' \<longleftrightarrow> manager_ok m' \<and> lease_count m' = (lease_count m)(g := lease_count m g + k) \<and>
     (\<forall>c. owners c m' = owners c m)"

lemma leasing_quiet: "leasing k g m m' \<Longrightarrow> quiet m' m'' \<Longrightarrow> leasing k g m m''"
  by (simp add: leasing_def quiet_def)

lemma acquire_leasing:
  assumes ok: "manager_ok m" and f: "acquire_generation g m = (m', y)"
  shows "m' = m \<and> isl y \<or> y = Inr g \<and> leasing 1 g m m'"
proof (cases "m' = m \<and> isl y")
  case False
  then obtain r where r: "dict_get (gm_generations m) g = Some r" "gr_snapshot r \<noteq> None"
    and y: "y = Inr g" and m': "m' = m\<lparr>gm_generations := dict_set g (r\<lparr>gr_leases := gr_leases r + 1\<rparr>) (gm_generations m)\<rparr>"
    using f by (auto simp: acquire_generation_def split: option.splits if_splits)
  let ?r = "r\<lparr>gr_leases := gr_leases r + 1\<rparr>"
  have "record_ok (gm_status m) (gm_current m) g ?r" using record_at[OF ok r(1)] r(2) by (auto simp: record_ok_def)
  from put_record_ok[OF disjI1[OF ok] r(1) this] have "leasing 1 g m m'"
    unfolding m' leasing_def using put_record_books[OF manager_okD(1)[OF ok] r(1), where r' = ?r] r(1)
    by (simp add: lease_count_def)
  with y show ?thesis by blast
qed simp

lemma take_leasing:
  assumes "manager_ok m" and "f \<in> {acquire_current, retain_generation g, retain_from_lease g}" and "f m = (m', y)"
  shows "m' = m \<and> isl y \<or> (\<exists>g'. y = Inr g' \<and> leasing 1 g' m m')"
proof (cases "m' = m \<and> isl y")
  case False
  then have "\<exists>g'. acquire_generation g' m = (m', y)"
    using assms(2,3) by (auto simp: acquire_current_def retain_generation_def retain_from_lease_def split: option.splits if_splits)
  with acquire_leasing[OF assms(1)] show ?thesis by blast
qed simp

lemma release_leasing:
  assumes ok: "manager_ok m" and f: "release_generation g task_ok m = (m', y)"
  shows "m' = m \<and> isl y \<or> \<not> isl y \<and> leasing (- 1) g m m'"
proof (cases "\<exists>r. dict_get (gm_generations m) g = Some r \<and> 0 < gr_leases r")
  case False
  with f show ?thesis by (auto simp: release_generation_def split: option.splits if_splits)
next
  case True
  then obtain r where r: "dict_get (gm_generations m) g = Some r" "0 < gr_leases r" by blast
  note rec = record_at[OF ok r(1)]
  let ?r = "r\<lparr>gr_leases := gr_leases r - 1\<rparr>"
  let ?m = "m\<lparr>gm_generations := dict_set g ?r (gm_generations m)\<rparr>"
  have books: "lease_count ?m = (lease_count m)(g := lease_count m g + - 1)" "owners c ?m = owners c m" for c
    using put_record_books[OF manager_okD(1)[OF ok] r(1), where r' = ?r] r(1) by (simp_all add: lease_count_def)
  show ?thesis
  proof (cases "gr_leases r - 1 \<noteq> 0 \<or> gr_status r \<noteq> GenRetired \<or> gm_status m = RtStopping")
    case True
    then have "record_ok (gm_status m) (gm_current m) g ?r" using rec r(2) by (auto simp: record_ok_def)
    from put_record_ok[OF disjI1[OF ok] r(1) this] have "leasing (- 1) g m ?m" using books by (simp add: leasing_def)
    moreover have "m' = ?m" "y = Inr ()" using f r True by (auto simp: release_generation_def Let_def)
    ultimately show ?thesis by simp
  next
    case False
    have near: "nearly_ok g ?m"
      using put_tables_ok[OF manager_okD(1)[OF ok] r(1), of ?r] put_status_ok[OF manager_okD(3)[OF ok] r(1), of ?r]
        rec manager_okD(2)[OF ok] False
      by (auto simp: nearly_ok_def records_ok_def dict_get_set record_ok_def)
    have sched: "schedule_cleanup g task_ok ?m = (m', y)" using f r False by (simp add: release_generation_def)
    have r': "dict_get (gm_generations ?m) g = Some ?r" by (simp add: dict_get_set)
    have "quiet ?m m'" using schedule_quiet[OF near r', of task_ok] False sched by simp
    moreover have "y = Inr ()" using sched False r' by (auto simp: schedule_cleanup_def Let_def split: option.splits if_splits)
    ultimately show ?thesis using books by (simp add: leasing_def quiet_def)
  qed
qed

section \<open>The invariant of a run\<close>

definition runtime_ok :: "runtime \<Rightarrow> bool" where
  "runtime_ok w \<longleftrightarrow> manager_ok (rn_manager w) \<and>
     (\<forall>g. lease_count (rn_manager w) g = int (count_list (rn_leases w) (g, False))) \<and> distinct (rn_registered w) \<and>
     (\<forall>c. owners c (rn_manager w) + int (count_list (rn_closed w) c) = int (count_list (rn_registered w) c))"

lemma runtime_ok_new: "runtime_ok new_runtime"
  by (simp add: runtime_ok_def new_runtime_def new_manager_def manager_defs lease_count_def owners_def)

lemma quiet_runtime: "runtime_ok w \<Longrightarrow> quiet (rn_manager w) (f (rn_manager w)) \<Longrightarrow> runtime_ok (on_manager f w)"
  by (simp add: runtime_ok_def quiet_def on_manager_def)

lemma closing_runtime:
  "runtime_ok w \<Longrightarrow> closing_quiet cs (rn_manager w) (f (rn_manager w)) \<Longrightarrow> runtime_ok (closing cs (on_manager f w))"
  by (simp add: runtime_ok_def closing_quiet_def on_manager_def closing_def)

lemma count_list_update:
  "i < length xs \<Longrightarrow> int (count_list (xs[i := y]) z) =
     int (count_list xs z) - (if xs ! i = z then 1 else 0) + (if y = z then 1 else 0)"
proof -
  have "int (count_list zs z) = (\<Sum>x\<leftarrow>zs. if x = z then 1 else 0)" for zs by (induction zs) auto
  then show "i < length xs \<Longrightarrow> ?thesis" by (simp add: sum_update)
qed

lemma taking_runtime:
  assumes "runtime_ok w" and "f \<in> {acquire_current, retain_generation g, retain_from_lease g}"
  shows "runtime_ok (taking_lease f w)"
proof -
  obtain m y where f: "f (rn_manager w) = (m, y)" by (cases "f (rn_manager w)")
  have "manager_ok (rn_manager w)" using assms(1) by (simp add: runtime_ok_def)
  from take_leasing[OF this assms(2) f] show ?thesis
  proof
    assume "m = rn_manager w \<and> isl y"
    with assms(1) f show ?thesis by (cases y) (simp_all add: taking_lease_def)
  next
    assume "\<exists>g'. y = Inr g' \<and> leasing 1 g' (rn_manager w) m"
    with assms(1) f show ?thesis by (auto simp: taking_lease_def runtime_ok_def leasing_def)
  qed
qed

lemma taking_each:
  assumes "runtime_ok w"
  shows "runtime_ok (taking_lease acquire_current w)" and "runtime_ok (taking_lease (retain_generation g) w)"
    and "runtime_ok (taking_lease (retain_from_lease g) w)"
  using taking_runtime[OF assms] by blast+

lemma release_runtime:
  assumes ok: "runtime_ok w" shows "runtime_ok (lease_release i task_ok w)"
proof (cases "i \<ge> length (rn_leases w) \<or> snd (rn_leases w ! i)")
  case True
  with ok show ?thesis by (simp add: lease_release_def)
next
  case False
  then obtain g where g: "rn_leases w ! i = (g, False)" "i < length (rn_leases w)" by (cases "rn_leases w ! i") auto
  obtain m y where f: "release_generation g task_ok (rn_manager w) = (m, y)" by fastforce
  have "manager_ok (rn_manager w)" using ok by (simp add: runtime_ok_def)
  from release_leasing[OF this f] show ?thesis
  proof
    assume "m = rn_manager w \<and> isl y"
    with ok f g show ?thesis by (cases y) (simp_all add: lease_release_def)
  next
    assume "\<not> isl y \<and> leasing (- 1) g (rn_manager w) m"
    with ok f g show ?thesis
      by (cases y) (auto simp: lease_release_def runtime_ok_def leasing_def count_list_update)
  qed
qed

lemma register_runtime:
  assumes ok: "runtime_ok w" and new: "c \<notin> set (rn_registered w)"
  shows "runtime_ok (runtime_step (RegisterClient i n c) w)"
proof -
  obtain m y where f: "register_http_client i n c (rn_manager w) = (m, y)" by fastforce
  show ?thesis
  proof (cases y)
    case (Inl e)
    then have "m = rn_manager w" using f by (auto simp: register_http_client_def split: option.splits if_splits)
    with Inl f ok show ?thesis by simp
  next
    case (Inr u)
    with register_client[of "rn_manager w" i n c m u] ok f new show ?thesis by (auto simp: runtime_ok_def)
  qed
qed

theorem runtime_step_ok:
  assumes ok: "runtime_ok w" and p: "runtime_possible x w"
  shows "runtime_ok (runtime_step x w)"
proof -
  have m: "manager_ok (rn_manager w)" using ok by (simp add: runtime_ok_def)
  note steps = open_slot_quiet close_slot_quiet slot_task_quiet install_quiet publish_quiet retry_begin_quiet
    lock_quiet retry_end_quiet shutdown_begin_quiet shutdown_slots_quiet shutdown_leases_quiet
    shutdown_drained_quiet shutdown_lock_quiet shutdown_end_quiet shutdown_broke_quiet cleanup_broke_quiet
  show ?thesis
  proof (cases x)
    case (RegisterClient i n c)
    with register_runtime[OF ok] p show ?thesis by simp
  next
    case (RetainLease i)
    with taking_each[OF ok] ok show ?thesis by (simp add: lease_retain_def)
  qed (use p in \<open>simp_all add: quiet_runtime[OF ok] closing_runtime[OF ok] steps[OF m] taking_each[OF ok]
      release_runtime[OF ok] cleanup_pass_closing[OF m] slot_pass_closing[OF m] recovery_pass_closing[OF m]\<close>)
qed

interpretation rgm: guarded_machine runtime_step runtime_ok runtime_possible runtime_run
  by unfold_locales (simp_all add: runtime_step_ok)

end
