(* ===== verification/Runtime_Guarantees.thy ===== *)
theory Runtime_Guarantees
  imports Runtime_Lifecycle "HOL-Library.Code_Target_Nat" "HOL-Library.Code_Target_Int"
begin

text \<open>
  What the generation manager of \<open>services/runtime_config.py\<close> guarantees in every run: a lease keeps
  its generation and the HTTP clients of it open, no client is lost or closed twice, a stopped
  runtime has closed every client it was given, and releasing the last lease of a retired
  generation leads to the end of it within three attempts.
\<close>

section \<open>Owners of a client\<close>

lemma dict_sum_nonneg: "(\<And>x. 0 \<le> f x) \<Longrightarrow> 0 \<le> dict_sum f d"
  by (induction d) (simp_all add: dict_sum_def)

lemma pos_add: "0 \<le> a \<Longrightarrow> 0 \<le> b \<Longrightarrow> 0 < a + b \<longleftrightarrow> 0 < a \<or> 0 < (b :: int)"
  by linarith

lemma dict_sum_pos_iff:
  assumes "\<And>x. 0 \<le> f x" shows "0 < dict_sum f d \<longleftrightarrow> (\<exists>p\<in>set d. 0 < f (snd p))"
proof (induction d)
  case (Cons p d)
  have "dict_sum f (p # d) = f (snd p) + dict_sum f d" by (simp add: dict_sum_def)
  moreover have "0 < f (snd p) + dict_sum f d \<longleftrightarrow> 0 < f (snd p) \<or> 0 < dict_sum f d"
    by (intro pos_add dict_sum_nonneg assms)
  ultimately show ?case using Cons by simp
qed simp

lemma holds_nonneg: "0 \<le> holds c d"
  by (simp add: holds_def dict_sum_nonneg)

lemma holds_pos: "0 < holds c d \<longleftrightarrow> c \<in> snd ` set d"
  by (force simp: holds_def dict_sum_pos_iff)

lemma sum_holds_pos: "0 < dict_sum (\<lambda>x. holds c (f x)) d \<longleftrightarrow> list_ex (\<lambda>(k, x). c \<in> snd ` set (f x)) d"
  using dict_sum_pos_iff[of "\<lambda>x. holds c (f x)" d] by (simp add: holds_nonneg holds_pos list_ex_iff split_beta)

lemma sum_holds_nonneg: "0 \<le> dict_sum (\<lambda>x. holds c (f x)) d"
  by (intro dict_sum_nonneg holds_nonneg)

lemma owners_pos: "0 < owners c m \<longleftrightarrow> owns_http_client c m"
proof -
  let ?s = "dict_sum (\<lambda>r. holds c (us_clients r)) (gm_slots m)"
    and ?g = "dict_sum (\<lambda>r. holds c (live_clients r)) (gm_generations m)" and ?f = "dict_sum (\<lambda>d. holds c d) (gm_failed m)"
  have "0 < ?s + ?g + ?f \<longleftrightarrow> 0 < ?s \<or> 0 < ?g \<or> 0 < ?f"
    using sum_holds_nonneg[of c us_clients "gm_slots m"] sum_holds_nonneg[of c live_clients "gm_generations m"]
      sum_holds_nonneg[of c "\<lambda>d. d" "gm_failed m"] by linarith
  then show ?thesis unfolding owns_http_client_def sum_holds_pos by (simp add: owners_def)
qed

lemma owners_nonneg: "0 \<le> owners c m"
  by (simp add: owners_def dict_sum_nonneg holds_nonneg)

lemma run_ok:
  assumes "runtime_run xs new_runtime" shows "runtime_ok (fold runtime_step xs new_runtime)"
  using rgm.run_invar[OF runtime_ok_new assms] .

lemma distinct_count: "distinct xs \<longleftrightarrow> (\<forall>x. count_list xs x \<le> 1)"
proof (induction xs)
  case (Cons y xs)
  show ?case
  proof
    assume "distinct (y # xs)"
    then have "count_list xs y = 0" "\<forall>x. count_list xs x \<le> 1" using Cons by (simp_all add: count_list_0_iff)
    then show "\<forall>x. count_list (y # xs) x \<le> 1" by simp
  next
    assume le: "\<forall>x. count_list (y # xs) x \<le> 1"
    have "count_list xs x \<le> 1" for x using spec[OF le, of x] by (simp split: if_splits)
    moreover have "count_list xs y = 0" using spec[OF le, of y] by simp
    ultimately show "distinct (y # xs)" using Cons by (simp add: count_list_0_iff)
  qed
qed simp

lemma client_books:
  assumes "runtime_ok w"
  shows "owners c (rn_manager w) + int (count_list (rn_closed w) c) = (if c \<in> set (rn_registered w) then 1 else 0)"
proof -
  have "count_list (rn_registered w) c \<le> 1"
    using assms by (simp add: runtime_ok_def distinct_count)
  then have "count_list (rn_registered w) c = (if c \<in> set (rn_registered w) then 1 else 0)"
    using count_list_0_iff[of "rn_registered w" c] by auto
  with assms show ?thesis by (simp add: runtime_ok_def)
qed

section \<open>The end of a generation\<close>

lemma cleanup_pass_gone: "dict_get (gm_generations m) g = None \<Longrightarrow> cleanup_pass g a m = m"
  by (simp add: cleanup_pass_def)

lemma finish_cleanup_result:
  "dict_get (gm_generations (finish_cleanup g d m)) g = None"
  "dict_get (gm_failed (finish_cleanup g d m)) g = (if d = [] then None else Some d)"
  by (simp_all add: finish_cleanup_def remember_terminal_status_def Let_def dict_get_set dict_get_pop)

lemma cleanup_pass_result:
  assumes g: "dict_get (gm_generations m) g = Some r" and n: "gr_passes r = Some n"
    and d: "still_pending a (gr_cleanup_clients r) = d"
  shows "if d = [] \<or> n + 1 \<ge> CLEANUP_MAX_ATTEMPTS
    then dict_get (gm_generations (cleanup_pass g a m)) g = None \<and>
      dict_get (gm_failed (cleanup_pass g a m)) g = (if d = [] then None else Some d)
    else \<exists>r'. dict_get (gm_generations (cleanup_pass g a m)) g = Some r' \<and> gr_passes r' = Some (n + 1) \<and> gr_cleanup_clients r' = d"
proof -
  obtain m1 where m1: "close_pass g a (gr_cleanup_clients r) m = (d, m1)" by (auto simp: close_pass_def d)
  show ?thesis by (simp add: cleanup_pass_def g n m1 finish_cleanup_result dict_get_set)
qed

section \<open>The guarantees\<close>

text \<open>C9: a client handed to the runtime is never lost and never closed twice.\<close>

theorem clients_never_lost:
  assumes "runtime_run xs new_runtime" and "w = fold runtime_step xs new_runtime"
  shows "(owns_http_client c (rn_manager w) \<longleftrightarrow> c \<in> set (rn_registered w) \<and> c \<notin> set (rn_closed w)) \<and>
    set (rn_closed w) \<subseteq> set (rn_registered w) \<and> distinct (rn_closed w) \<and> owners c (rn_manager w) \<le> 1"
proof -
  have ok: "runtime_ok w" using run_ok assms by simp
  note b = client_books[OF ok] owners_nonneg[of _ "rn_manager w"]
  have "count_list (rn_closed w) d \<le> 1" for d using b[of d] by (auto split: if_splits)
  moreover have "d \<in> set (rn_registered w)" if "d \<in> set (rn_closed w)" for d
    using that b[of d] count_list_0_iff[of "rn_closed w" d] by (auto split: if_splits)
  ultimately show ?thesis
    using b[of c] owners_pos[of c "rn_manager w"] count_list_0_iff[of "rn_closed w" c]
    by (auto simp: distinct_count split: if_splits)
qed

text \<open>C8: a lease that is not released keeps its generation, with its services and its open clients.\<close>

theorem leased_generation_alive:
  assumes "runtime_run xs new_runtime" and "w = fold runtime_step xs new_runtime" and "(g, False) \<in> set (rn_leases w)"
  shows "\<exists>r s. dict_get (gm_generations (rn_manager w)) g = Some r \<and> gr_snapshot r = Some s \<and>
    gr_status r \<in> {GenActive, GenRetired} \<and> gr_leases r = int (count_list (rn_leases w) (g, False)) \<and>
    set (closed_by (\<lambda>n. None) (sp_clients s)) \<inter> set (rn_closed w) = {}"
proof -
  have ok: "runtime_ok w" using run_ok assms by simp
  have "lease_count (rn_manager w) g = int (count_list (rn_leases w) (g, False))" "count_list (rn_leases w) (g, False) \<noteq> 0"
    using ok assms(3) by (simp_all add: runtime_ok_def count_list_0_iff)
  then obtain r where g: "dict_get (gm_generations (rn_manager w)) g = Some r"
    and n: "gr_leases r = int (count_list (rn_leases w) (g, False))" "gr_leases r \<noteq> 0"
    by (auto simp: lease_count_def split: option.splits)
  have rec: "record_ok (gm_status (rn_manager w)) (gm_current (rn_manager w)) g r"
    using ok g record_at by (simp add: runtime_ok_def)
  with n(2) obtain s where s: "gr_snapshot r = Some s" "gr_status r \<in> {GenActive, GenRetired}"
    by (auto simp: record_ok_def)
  have "c \<notin> set (rn_closed w)" if "c \<in> snd ` set (sp_clients s)" for c
  proof -
    have "owns_http_client c (rn_manager w)"
      using that map_of_SomeD[OF g] s(1) unfolding owns_http_client_def list_ex_iff
      by (intro disjI2 disjI1 bexI[of _ "(g, r)"]) (simp_all add: live_clients_def)
    then have "0 < owners c (rn_manager w)" by (simp add: owners_pos)
    with client_books[OF ok, of c] have "count_list (rn_closed w) c = 0" by (simp split: if_splits)
    then show ?thesis by (simp add: count_list_0_iff)
  qed
  moreover have "set (closed_by (\<lambda>n. None) (sp_clients s)) = snd ` set (sp_clients s)" by (simp add: closed_by_def)
  ultimately show ?thesis using g n(1) s by blast
qed

text \<open>C17: a runtime that says it stopped has closed every client it was given, and holds no lease.\<close>

theorem stopped_means_closed:
  assumes "runtime_run xs new_runtime" and "w = fold runtime_step xs new_runtime" and "gm_status (rn_manager w) = RtStopped"
  shows "set (rn_closed w) = set (rn_registered w) \<and> gm_generations (rn_manager w) = [] \<and> gm_slots (rn_manager w) = [] \<and>
    list_all snd (rn_leases w)"
proof -
  have ok: "runtime_ok w" using run_ok assms by simp
  have none: "gm_generations (rn_manager w) = []" "gm_slots (rn_manager w) = []" "gm_failed (rn_manager w) = []"
    using ok assms(3) by (simp_all add: runtime_ok_def manager_ok_def status_ok_def)
  have "c \<in> set (rn_closed w) \<longleftrightarrow> c \<in> set (rn_registered w)" for c
    using client_books[OF ok, of c] count_list_0_iff[of "rn_closed w" c] none
    by (auto simp: owners_def split: if_splits)
  moreover have "(g, False) \<notin> set (rn_leases w)" for g
    using ok none by (simp add: runtime_ok_def lease_count_def count_list_0_iff)
  then have "list_all snd (rn_leases w)" by (auto simp: list_all_iff split_paired_Ball_Sigma) (metis (full_types))
  ultimately show ?thesis using none by blast
qed

lemma cleanup_passes:
  assumes "dict_get (gm_generations m) g = Some r" and "gr_leases r = 1" and "gr_status r = GenRetired"
    and "gr_snapshot r = Some s" and "gr_passes r = None" and "gm_status m \<noteq> RtStopping"
    and "m' = fold (cleanup_pass g) [a, b, c] (fst (release_generation g None m))"
  shows "dict_get (gm_generations m') g = None \<and>
    dict_get (gm_failed m') g = (if still_pending c (still_pending b (still_pending a (sp_clients s))) = [] then None
      else Some (still_pending c (still_pending b (still_pending a (sp_clients s)))))"
proof -
  let ?p = "\<lambda>x d. still_pending x d"
  let ?m = "fst (release_generation g None m)"
  have "\<exists>r. dict_get (gm_generations ?m) g = Some r \<and> gr_passes r = Some 0 \<and> gr_cleanup_clients r = sp_clients s"
    using assms(1-6) by (simp add: release_generation_def schedule_cleanup_def Let_def dict_get_set)
  then obtain r1 where r1: "dict_get (gm_generations ?m) g = Some r1" "gr_passes r1 = Some 0" "gr_cleanup_clients r1 = sp_clients s"
    by blast
  have nil: "?p x [] = []" for x by (simp add: still_pending_def)
  note first = cleanup_pass_result[OF r1(1,2), of a, OF refl, unfolded r1(3)]
  show ?thesis
  proof (cases "?p a (sp_clients s) = []")
    case True
    with first assms(7) nil show ?thesis by (simp add: cleanup_pass_gone)
  next
    case False
    then obtain r2 where r2: "dict_get (gm_generations (cleanup_pass g a ?m)) g = Some r2" "gr_passes r2 = Some 1"
      "gr_cleanup_clients r2 = ?p a (sp_clients s)"
      using first by (auto simp: CLEANUP_MAX_ATTEMPTS_def)
    note second = cleanup_pass_result[OF r2(1,2), of b, OF refl, unfolded r2(3)]
    show ?thesis
    proof (cases "?p b (?p a (sp_clients s)) = []")
      case True
      with second assms(7) nil show ?thesis by (simp add: cleanup_pass_gone)
    next
      case False
      then obtain r3 where r3: "dict_get (gm_generations (cleanup_pass g b (cleanup_pass g a ?m))) g = Some r3"
        "gr_passes r3 = Some 2" "gr_cleanup_clients r3 = ?p b (?p a (sp_clients s))"
        using second by (auto simp: CLEANUP_MAX_ATTEMPTS_def)
      from cleanup_pass_result[OF r3(1,2), of c, OF refl, unfolded r3(3)] assms(7) show ?thesis
        by (simp add: CLEANUP_MAX_ATTEMPTS_def)
    qed
  qed
qed

text \<open>C18: releasing the last lease of a retired generation ends it within three attempts to close its clients,
  and the clients that failed each time, and no others, are remembered as those of a failed generation.
  When the close task cannot be created, the generation ends at once and all of its clients are remembered.
  While the manager is stopping nothing is closed here: the generation stays, without a lease, for the
  shutdown.\<close>

theorem last_release_closes:
  assumes "dict_get (gm_generations m) g = Some r" and "gr_leases r = 1" and "gr_status r = GenRetired"
    and "gr_snapshot r = Some s" and "gr_passes r = None"
    and "m' = fold (cleanup_pass g) [a, b, c] (fst (release_generation g task m))"
    and "unclosed = (case task of None \<Rightarrow> still_pending c (still_pending b (still_pending a (sp_clients s))) | Some _ \<Rightarrow> sp_clients s)"
  shows "snd (release_generation g task m) = Inr () \<and>
    (if gm_status m = RtStopping
     then dict_get (gm_generations m') g = Some (r\<lparr>gr_leases := 0\<rparr>) \<and> gm_failed m' = gm_failed m
     else dict_get (gm_generations m') g = None \<and>
       dict_get (gm_failed m') g = (if unclosed = [] then None else Some unclosed))"
proof (cases "gm_status m = RtStopping")
  case True
  let ?m = "m\<lparr>gm_generations := dict_set g (r\<lparr>gr_leases := 0\<rparr>) (gm_generations m)\<rparr>"
  have "release_generation g task m = (?m, Inr ())" using True assms(1,2) by (simp add: release_generation_def Let_def)
  moreover have "cleanup_pass g x ?m = ?m" for x using assms(5) by (simp add: cleanup_pass_def dict_get_set)
  ultimately show ?thesis using True assms(6) by (simp add: dict_get_set)
next
  case False
  have ok: "snd (release_generation g task m) = Inr ()"
    using assms(1-5) False by (simp add: release_generation_def schedule_cleanup_def Let_def dict_get_set split: option.split)
  show ?thesis
  proof (cases task)
    case None
    with cleanup_passes[OF assms(1-5) False] assms(6,7) ok False show ?thesis by simp
  next
    case (Some exn)
    let ?m = "fst (release_generation g task m)"
    obtain fs m1 where m1: "?m = finish_cleanup g (sp_clients s) (m1\<lparr>gm_failures := fs\<rparr>)"
      using assms(1-5) False Some record_failure_update[of g "''generation_cleanup''" exn]
      by (auto simp: release_generation_def schedule_cleanup_def Let_def dict_get_set) metis
    have gone: "dict_get (gm_generations ?m) g = None"
      and failed: "dict_get (gm_failed ?m) g = (if sp_clients s = [] then None else Some (sp_clients s))"
      unfolding m1 by (simp_all add: finish_cleanup_def remember_terminal_status_def Let_def dict_get_set dict_get_pop)
    have "fold (cleanup_pass g) [a, b, c] ?m = ?m" using gone by (simp add: cleanup_pass_gone)
    with gone failed assms(6,7) ok False Some show ?thesis by simp
  qed
qed

text \<open>C38: when the walk over a configuration returns, it has found exactly the objects that can be changed
  and can be reached, whatever they are; it raises only when a field of a dataclass that can be reached is
  not set, or when the calls open inside each other fill the room the recursion limit leaves, which takes
  as many different objects of the heap.\<close>

theorem mutable_graph_exact:
  "case mutable_graph_ids h v of
     Inr found \<Rightarrow> found = {u. (refers h)\<^sup>*\<^sup>* v u \<and> changeable h u}
   | Inl GraphUnset \<Rightarrow> \<exists>u. (refers h)\<^sup>*\<^sup>* v u \<and> field_unset h u
   | Inl GraphTooDeep \<Rightarrow> hp_room h \<le> card (fst ` set (hp_objects h)) \<and>
       (\<exists>us. length us = hp_room h \<and> open_calls h v us)"
proof (cases "visit h (hp_room h) v ({}, {})")
  case (Inl e)
  have start: "found_exact h ({}, {})" by (simp add: found_exact_def)
  show ?thesis
  proof (cases e)
    case GraphTooDeep
    with Inl visit_too_deep[OF _ start] visit_room[of h "hp_room h" v] show ?thesis
      by (auto simp: mutable_graph_ids_def linorder_not_less[symmetric])
  next
    case GraphUnset
    with Inl visit_unset[OF _ start] show ?thesis by (simp add: mutable_graph_ids_def)
  qed
next
  case (Inr s)
  then show ?thesis using visit_exact[of h "hp_room h" v "fst s" "snd s"]
    by (simp add: mutable_graph_ids_def split_beta)
qed

section \<open>Instances\<close>

text \<open>A generation is replaced while it is leased; then the lease is released, and the runtime is stopped.\<close>

definition sample_snapshot :: "int \<Rightarrow> client \<Rightarrow> runtime_snapshot" where
  "sample_snapshot g c = \<lparr>sp_generation = g, sp_services = [nat g], sp_config = [nat g + 10], sp_clients = [(''proxy'', c)]\<rparr>"

definition sample_heap :: py_heap where
  "sample_heap = \<lparr>hp_objects = [(11, MappingObject False [(4, 1), (4, 3)]), (12, MappingObject False [(4, 2), (4, 3)]),
       (1, ListObject [11]), (2, ListObject [12]), (3, TupleObject []), (4, Scalar)], hp_room = 900\<rparr>"

definition sample_replaced :: "runtime_op list" where
  "sample_replaced = [OpenSlot 1, RegisterClient 1 ''proxy'' 7, InstallInitial (sample_snapshot 1 7) 1, AcquireCurrent,
     OpenSlot 2, RegisterClient 2 ''proxy'' 8, Publish sample_heap (sample_snapshot 2 8) 1 2 None]"

definition sample_released :: "runtime_op list" where
  "sample_released = sample_replaced @ [ReleaseLease 0 None, CleanupPass 1 (\<lambda>n. Some ''OSError''), CleanupPass 1 (\<lambda>n. None)]"

definition sample_stopped :: "runtime_op list" where
  "sample_stopped = sample_released @ [ShutdownBegin, ShutdownSlots (\<lambda>i. None), ShutdownLeases (\<lambda>g. None),
     CleanupPass 2 (\<lambda>n. None), ShutdownDrained (\<lambda>i. None), ShutdownLock, ShutdownEnd True]"

lemma sample_runs:
  "runtime_run sample_replaced new_runtime" "runtime_run sample_released new_runtime" "runtime_run sample_stopped new_runtime"
  by code_simp+

lemma sample_ends:
  "rn_leases (fold runtime_step sample_replaced new_runtime) = [(1, False)]"
  "rn_closed (fold runtime_step sample_released new_runtime) = [7]"
  "rn_registered (fold runtime_step sample_released new_runtime) = [7, 8]"
  "rn_closed (fold runtime_step sample_stopped new_runtime) = [7, 8]"
  "gm_status (rn_manager (fold runtime_step sample_stopped new_runtime)) = RtStopped"
  by code_simp+

lemma clients_never_lost_witness:
  "owns_http_client 8 (rn_manager (fold runtime_step sample_released new_runtime)) \<and>
   \<not> owns_http_client 7 (rn_manager (fold runtime_step sample_released new_runtime))"
  using clients_never_lost[OF sample_runs(2) refl, of 7] clients_never_lost[OF sample_runs(2) refl, of 8]
  by (simp add: sample_ends)

lemma leased_generation_alive_witness:
  "\<exists>r. dict_get (gm_generations (rn_manager (fold runtime_step sample_replaced new_runtime))) 1 = Some r \<and> gr_leases r = 1"
  using leased_generation_alive[OF sample_runs(1) refl, of 1] by (auto simp: sample_ends)

lemma stopped_means_closed_witness:
  "set (rn_registered (fold runtime_step sample_stopped new_runtime)) = {7, 8}"
  using stopped_means_closed[OF sample_runs(3) refl sample_ends(5)] by (simp add: sample_ends)

definition sample_retired :: generations where
  "sample_retired = rn_manager (fold runtime_step sample_replaced new_runtime)"

definition sample_record :: generation_record where
  "sample_record = \<lparr>gr_snapshot = Some (sample_snapshot 1 7), gr_status = GenRetired, gr_leases = 1, gr_passes = None,
     gr_cleanup_clients = []\<rparr>"

lemma sample_retired_facts:
  "dict_get (gm_generations sample_retired) 1 = Some sample_record" "gm_status sample_retired = RtRunning"
  by code_simp+

lemma last_release_closes_witness:
  "dict_get (gm_generations (fold (cleanup_pass 1) [\<lambda>n. Some ''OSError'', \<lambda>n. Some ''OSError'', \<lambda>n. None]
     (fst (release_generation 1 None sample_retired)))) 1 = None"
  using last_release_closes[OF sample_retired_facts(1) _ _ _ _ refl refl, of "sample_snapshot 1 7"]
  by (simp add: sample_record_def sample_retired_facts)

end
