(* ===== verification/Text_Matching.thy ===== *)
theory Text_Matching
  imports Gateway_Prelude
begin

text \<open>
  The text functions of Python that the error classifier and the header parsers use: \<open>lower\<close>, the
  \<open>in\<close> of two strings, and \<open>re\<close> for the constructs their patterns have. A pattern is matched by
  backtracking, the results in the order in which \<open>re\<close> tries them; the matcher is shown to find
  exactly what the pattern describes.
\<close>

section \<open>Characters and substrings\<close>

definition py_lower_char :: "char \<Rightarrow> char" where
  "py_lower_char c = (let n = code_of c in
     if (65 \<le> n \<and> n \<le> 90) \<or> (192 \<le> n \<and> n \<le> 222 \<and> n \<noteq> 215) then char_of (n + 32) else c)"

definition py_lower :: "string \<Rightarrow> string" where
  "py_lower s = map py_lower_char s"

text \<open>\<open>\\w\<close>: letters, numbers and the underscore.\<close>

definition word_char :: "char \<Rightarrow> bool" where
  "word_char c = (let n = code_of c in
     (48 \<le> n \<and> n \<le> 57) \<or> (65 \<le> n \<and> n \<le> 90) \<or> n = 95 \<or> (97 \<le> n \<and> n \<le> 122) \<or>
     n \<in> {170, 178, 179, 181, 185, 186, 188, 189, 190} \<or> (192 \<le> n \<and> n \<noteq> 215 \<and> n \<noteq> 247))"

fun is_prefix :: "string \<Rightarrow> string \<Rightarrow> bool" where
  "is_prefix [] s \<longleftrightarrow> True"
| "is_prefix (p # ps) [] \<longleftrightarrow> False"
| "is_prefix (p # ps) (c # cs) \<longleftrightarrow> p = c \<and> is_prefix ps cs"

fun contains :: "string \<Rightarrow> string \<Rightarrow> bool" where
  "contains p [] \<longleftrightarrow> p = []"
| "contains p (c # cs) \<longleftrightarrow> is_prefix p (c # cs) \<or> contains p cs"

definition contains_any :: "string list \<Rightarrow> string \<Rightarrow> bool" where
  "contains_any ps s \<longleftrightarrow> list_ex (\<lambda>p. contains p s) ps"

lemma is_prefix_iff: "is_prefix p s \<longleftrightarrow> (\<exists>t. s = p @ t)"
  by (induction p s rule: is_prefix.induct) auto

lemma contains_iff: "contains p s \<longleftrightarrow> (\<exists>a b. s = a @ p @ b)"
proof (induction s)
  case (Cons c cs)
  have "(\<exists>a b. c # cs = a @ p @ b) \<longleftrightarrow> is_prefix p (c # cs) \<or> (\<exists>a b. cs = a @ p @ b)"
    unfolding is_prefix_iff by (metis Cons_eq_append_conv append_Cons append_Nil)
  with Cons show ?case by simp
qed simp

lemma contains_append: "contains p s \<Longrightarrow> contains p (a @ s @ b)"
  unfolding contains_iff by (metis append_assoc)

section \<open>Patterns\<close>

text \<open>The only repetitions are greedy ones of a class of characters.\<close>

datatype regex =
  RChar "char \<Rightarrow> bool"
| REmpty
| RSeq regex regex
| RAlt regex regex
| RMany "char \<Rightarrow> bool"
| RBoundary
| REnd
| RGroup nat regex

fun RText :: "string \<Rightarrow> regex" where
  "RText [] = REmpty"
| "RText (c # cs) = RSeq (RChar (\<lambda>x. x = c)) (RText cs)"

fun RSeqs :: "regex list \<Rightarrow> regex" where
  "RSeqs [] = REmpty"
| "RSeqs (r # rs) = RSeq r (RSeqs rs)"

fun RAlts :: "regex list \<Rightarrow> regex" where
  "RAlts [] = RChar (\<lambda>c. False)"
| "RAlts [r] = r"
| "RAlts (r # rs) = RAlt r (RAlts rs)"

abbreviation ROpt :: "regex \<Rightarrow> regex" where "ROpt r \<equiv> RAlt r REmpty"

abbreviation RSome :: "(char \<Rightarrow> bool) \<Rightarrow> regex" where "RSome P \<equiv> RSeq (RChar P) (RMany P)"

text \<open>A state is the character before the position, the text from it on, and the groups so far.\<close>

type_synonym rx_state = "char option \<times> string \<times> (nat, string) dict"

fun many_states :: "(char \<Rightarrow> bool) \<Rightarrow> char option \<Rightarrow> string \<Rightarrow> (char option \<times> string) list" where
  "many_states P p [] = [(p, [])]"
| "many_states P p (c # cs) = (if P c then many_states P (Some c) cs @ [(p, c # cs)] else [(p, c # cs)])"

definition word_at :: "char option \<Rightarrow> bool" where
  "word_at c \<longleftrightarrow> (case c of None \<Rightarrow> False | Some x \<Rightarrow> word_char x)"

definition next_char :: "string \<Rightarrow> char option" where
  "next_char s = (case s of [] \<Rightarrow> None | c # cs \<Rightarrow> Some c)"

fun rx_match :: "regex \<Rightarrow> rx_state \<Rightarrow> rx_state list" where
  "rx_match (RChar P) (p, s, gs) = (case s of [] \<Rightarrow> [] | c # cs \<Rightarrow> if P c then [(Some c, cs, gs)] else [])"
| "rx_match REmpty st = [st]"
| "rx_match (RSeq r q) st = concat (map (rx_match q) (rx_match r st))"
| "rx_match (RAlt r q) st = rx_match r st @ rx_match q st"
| "rx_match (RMany P) (p, s, gs) = map (\<lambda>(p', s'). (p', s', gs)) (many_states P p s)"
| "rx_match RBoundary (p, s, gs) = (if word_at p \<noteq> word_at (next_char s) then [(p, s, gs)] else [])"
| "rx_match REnd (p, s, gs) = (if s = [] \<or> s = [CHR 0x0A] then [(p, s, gs)] else [])"
| "rx_match (RGroup k r) (p, s, gs) = map (\<lambda>(p', s', gs'). (p', s', dict_set k (take (length s - length s') s) gs'))
     (rx_match r (p, s, gs))"

text \<open>\<open>match\<close> at the beginning, and \<open>search\<close> for the first position with a match; the result is the groups.\<close>

fun first_groups :: "rx_state list \<Rightarrow> (nat, string) dict option" where
  "first_groups [] = None"
| "first_groups ((p, s, gs) # sts) = Some gs"

definition rx_here :: "regex \<Rightarrow> string \<Rightarrow> (nat, string) dict option" where
  "rx_here r s = first_groups (rx_match r (None, s, []))"

fun rx_from :: "regex \<Rightarrow> char option \<Rightarrow> string \<Rightarrow> (nat, string) dict option" where
  "rx_from r p [] = first_groups (rx_match r (p, [], []))"
| "rx_from r p (c # cs) = (case first_groups (rx_match r (p, c # cs, [])) of
     None \<Rightarrow> rx_from r (Some c) cs | Some gs \<Rightarrow> Some gs)"

definition rx_search :: "regex \<Rightarrow> string \<Rightarrow> (nat, string) dict option" where
  "rx_search r s = rx_from r None s"

section \<open>What a pattern describes\<close>

definition last_char :: "char option \<Rightarrow> string \<Rightarrow> char option" where
  "last_char p w = (if w = [] then p else Some (last w))"

text \<open>The text \<open>w\<close> between the character \<open>p\<close> before it and the rest \<open>t\<close> fits the pattern.\<close>

fun fits :: "regex \<Rightarrow> char option \<Rightarrow> string \<Rightarrow> string \<Rightarrow> bool" where
  "fits (RChar P) p w t \<longleftrightarrow> (\<exists>c. w = [c] \<and> P c)"
| "fits REmpty p w t \<longleftrightarrow> w = []"
| "fits (RSeq r q) p w t \<longleftrightarrow> (\<exists>u v. w = u @ v \<and> fits r p u (v @ t) \<and> fits q (last_char p u) v t)"
| "fits (RAlt r q) p w t \<longleftrightarrow> fits r p w t \<or> fits q p w t"
| "fits (RMany P) p w t \<longleftrightarrow> list_all P w"
| "fits RBoundary p w t \<longleftrightarrow> w = [] \<and> word_at p \<noteq> word_at (next_char t)"
| "fits REnd p w t \<longleftrightarrow> w = [] \<and> (t = [] \<or> t = [CHR 0x0A])"
| "fits (RGroup k r) p w t \<longleftrightarrow> fits r p w t"

lemma last_char_simps [simp]: "last_char p [] = p" "last_char p (c # w) = last_char (Some c) w"
  by (simp_all add: last_char_def)

lemma last_char_append: "last_char p (u @ v) = last_char (last_char p u) v"
  by (simp add: last_char_def)

lemma many_states_exact:
  "(p', t) \<in> set (many_states P p s) \<longleftrightarrow> (\<exists>w. s = w @ t \<and> p' = last_char p w \<and> list_all P w)"
proof (induction P p s rule: many_states.induct)
  case (2 P p c cs)
  have "(\<exists>w. c # cs = w @ t \<and> p' = last_char p w \<and> list_all P w) \<longleftrightarrow>
      (t = c # cs \<and> p' = p) \<or> (P c \<and> (\<exists>w. cs = w @ t \<and> p' = last_char (Some c) w \<and> list_all P w))"
    by (auto simp: Cons_eq_append_conv)
  with 2 show ?case by auto
qed auto

lemma rx_match_exact:
  "(\<exists>gs'. (p', t, gs') \<in> set (rx_match r (p, s, gs))) \<longleftrightarrow> (\<exists>w. s = w @ t \<and> p' = last_char p w \<and> fits r p w t)"
proof (induction r arbitrary: p s gs p' t)
  case (RChar P)
  then show ?case by (cases s) auto
next
  case (RSeq r q)
  have "(\<exists>gs'. (p', t, gs') \<in> set (rx_match (RSeq r q) (p, s, gs))) \<longleftrightarrow>
      (\<exists>p1 s1 gs1. (p1, s1, gs1) \<in> set (rx_match r (p, s, gs)) \<and> (\<exists>gs'. (p', t, gs') \<in> set (rx_match q (p1, s1, gs1))))"
    by fastforce
  also have "\<dots> \<longleftrightarrow> (\<exists>p1 s1. (\<exists>gs1. (p1, s1, gs1) \<in> set (rx_match r (p, s, gs))) \<and>
      (\<exists>v. s1 = v @ t \<and> p' = last_char p1 v \<and> fits q p1 v t))"
    by (simp only: RSeq.IH(2)) blast
  also have "\<dots> \<longleftrightarrow> (\<exists>u v. s = u @ v @ t \<and> p' = last_char (last_char p u) v \<and> fits r p u (v @ t) \<and> fits q (last_char p u) v t)"
    by (simp only: RSeq.IH(1)) blast
  also have "\<dots> \<longleftrightarrow> (\<exists>w. s = w @ t \<and> p' = last_char p w \<and> fits (RSeq r q) p w t)"
    by (force simp: last_char_append)
  finally show ?case .
next
  case (RAlt r q)
  then show ?case by (simp add: ex_disj_distrib conj_disj_distribL)
next
  case (RMany P)
  then show ?case by (force simp: many_states_exact)
next
  case (RGroup k r)
  have "(\<exists>gs'. (p', t, gs') \<in> set (rx_match (RGroup k r) (p, s, gs))) \<longleftrightarrow> (\<exists>gs'. (p', t, gs') \<in> set (rx_match r (p, s, gs)))"
    by force
  with RGroup show ?case by simp
qed auto

lemma first_groups_None: "first_groups sts = None \<longleftrightarrow> sts = []"
  by (cases sts rule: first_groups.cases) auto

lemma rx_match_some: "rx_match r (p, s, gs) \<noteq> [] \<longleftrightarrow> (\<exists>w t. s = w @ t \<and> fits r p w t)"
proof -
  have "rx_match r (p, s, gs) \<noteq> [] \<longleftrightarrow> (\<exists>p' t gs'. (p', t, gs') \<in> set (rx_match r (p, s, gs)))"
    by (metis list.set_intros(1) neq_Nil_conv prod_cases3 empty_iff list.set(1))
  also have "\<dots> \<longleftrightarrow> (\<exists>w t. s = w @ t \<and> fits r p w t)" by (metis rx_match_exact)
  finally show ?thesis .
qed

lemma rx_from_exact: "rx_from r p s \<noteq> None \<longleftrightarrow> (\<exists>a w b. s = a @ w @ b \<and> fits r (last_char p a) w b)"
proof (induction s arbitrary: p)
  case Nil
  then show ?case using rx_match_some[of r p "[]" "[]"] by (simp add: first_groups_None)
next
  case (Cons c cs)
  have "(\<exists>a w b. c # cs = a @ w @ b \<and> fits r (last_char p a) w b) \<longleftrightarrow>
      (\<exists>w b. c # cs = w @ b \<and> fits r p w b) \<or> (\<exists>a w b. cs = a @ w @ b \<and> fits r (last_char (Some c) a) w b)"
    by (auto simp: Cons_eq_append_conv) (metis append_Cons append_Nil last_char_simps)+
  also have "\<dots> \<longleftrightarrow> rx_match r (p, c # cs, []) \<noteq> [] \<or> rx_from r (Some c) cs \<noteq> None"
    by (simp only: Cons rx_match_some)
  also have "\<dots> \<longleftrightarrow> rx_from r p (c # cs) \<noteq> None"
    by (auto simp: first_groups_None[symmetric] split: option.split)
  finally show ?case by simp
qed

theorem rx_search_exact:
  "rx_search r s \<noteq> None \<longleftrightarrow> (\<exists>a w b. s = a @ w @ b \<and> fits r (last_char None a) w b)"
  unfolding rx_search_def by (rule rx_from_exact)

end
