(* ===== verification/Tool_Schemas.thy ===== *)
theory Tool_Schemas
  imports Gateway_Prelude
begin

text \<open>
  The rewriting of tool schemas for stricter providers (\<open>services/tool_schema_normalizer.py\<close>). Schemas are
  decoded JSON, which is a tree: the copies the code makes of it are equal to it, and the marks of
  visited objects in \<open>_schema_contains_ref\<close> never hit.

  The functions that stop at a depth have the number of levels that are left as argument.
\<close>

section \<open>Values\<close>

text \<open>\<open>bool()\<close> of a value.\<close>

fun truthy :: "py_value \<Rightarrow> bool" where
  "truthy VNone \<longleftrightarrow> False"
| "truthy (VNum (PyBool b)) \<longleftrightarrow> b"
| "truthy (VNum (PyInt n)) \<longleftrightarrow> n \<noteq> 0"
| "truthy (VNum (PyFloat x)) \<longleftrightarrow> x \<noteq> 0"
| "truthy (VNum n) \<longleftrightarrow> True"
| "truthy (VText s) \<longleftrightarrow> s \<noteq> []"
| "truthy (VList vs) \<longleftrightarrow> vs \<noteq> []"
| "truthy (VDict d) \<longleftrightarrow> d \<noteq> []"

fun is_container :: "py_value \<Rightarrow> bool" where
  "is_container (VList vs) \<longleftrightarrow> True"
| "is_container (VDict d) \<longleftrightarrow> True"
| "is_container _ \<longleftrightarrow> False"

fun is_number :: "py_value \<Rightarrow> bool" where
  "is_number (VNum n) \<longleftrightarrow> n \<noteq> PyOther"
| "is_number _ \<longleftrightarrow> False"

fun is_bool :: "py_value \<Rightarrow> bool" where
  "is_bool (VNum (PyBool b)) \<longleftrightarrow> True"
| "is_bool _ \<longleftrightarrow> False"

definition vtrue :: py_value where "vtrue = VNum (PyBool True)"

section \<open>One node\<close>

definition META_KEYS :: "string list" where "META_KEYS = [''$schema'', ''$id'', ''$comment'']"

definition DEFINITION_KEYS :: "string list" where "DEFINITION_KEYS = [''definitions'', ''$defs'']"

definition MAX_SCHEMA_DEPTH :: nat where "MAX_SCHEMA_DEPTH = 64"

definition strip_meta :: "bool \<Rightarrow> json_object \<Rightarrow> json_object" where
  "strip_meta keep d = fold dict_pop (META_KEYS @ (if keep then [] else DEFINITION_KEYS)) d"

definition flatten_type_union :: "json_object \<Rightarrow> json_object" where
  "flatten_type_union d = (case dict_get d ''type'' of
     Some (VList ts) \<Rightarrow>
       (let non_null = filter (\<lambda>v. v \<noteq> VText ''null'') ts; has_null = VText ''null'' \<in> set ts
        in case non_null of
             [v] \<Rightarrow> (let d' = dict_set ''type'' v d in if has_null then dict_set ''nullable'' vtrue d' else d')
           | [] \<Rightarrow> if has_null then dict_set ''nullable'' vtrue (dict_set ''type'' (VText ''string'') d) else d
           | _ \<Rightarrow> d)
   | _ \<Rightarrow> d)"

fun null_typed :: "py_value \<Rightarrow> bool" where
  "null_typed (VDict d) \<longleftrightarrow> dict_get d ''type'' = Some (VText ''null'')"
| "null_typed _ \<longleftrightarrow> False"

definition merge_missing :: "json_object \<Rightarrow> json_object \<Rightarrow> json_object" where
  "merge_missing new d = fold (\<lambda>(k, v) d'. if dict_get d' k = None then dict_set k v d' else d') new d"

text \<open>The variant next to the null variant of a union of two, if it is an object.\<close>

definition other_variant :: "py_value list \<Rightarrow> json_object option" where
  "other_variant vs = (case vs of
     [a, b] \<Rightarrow> (case if null_typed a then Some b else if null_typed b then Some a else None of
       Some (VDict d) \<Rightarrow> Some d | _ \<Rightarrow> None)
   | _ \<Rightarrow> None)"

definition collapse_union :: "string \<Rightarrow> json_object \<Rightarrow> json_object option" where
  "collapse_union key d = (case dict_get d key of
     Some (VList vs) \<Rightarrow> (case other_variant vs of
       None \<Rightarrow> None | Some other \<Rightarrow> Some (dict_set ''nullable'' vtrue (merge_missing other (dict_pop key d))))
   | _ \<Rightarrow> None)"

definition collapse_nullable_any_of :: "json_object \<Rightarrow> json_object" where
  "collapse_nullable_any_of d = (case collapse_union ''anyOf'' d of Some d' \<Rightarrow> d'
     | None \<Rightarrow> (case collapse_union ''oneOf'' d of Some d' \<Rightarrow> d' | None \<Rightarrow> d))"

definition coerce_bound :: "string \<Rightarrow> string \<Rightarrow> json_object \<Rightarrow> json_object" where
  "coerce_bound bound flag d = (case (dict_get d flag, dict_get d bound) of
     (Some f, Some b) \<Rightarrow>
       if is_bool f \<and> is_number b then (if truthy f then dict_pop bound (dict_set flag b d) else dict_pop flag d) else d
   | _ \<Rightarrow> d)"

definition coerce_exclusive_bounds :: "json_object \<Rightarrow> json_object" where
  "coerce_exclusive_bounds d = coerce_bound ''minimum'' ''exclusiveMinimum'' (coerce_bound ''maximum'' ''exclusiveMaximum'' d)"

section \<open>The whole schema\<close>

primrec contains_ref :: "nat \<Rightarrow> py_value \<Rightarrow> bool" where
  "contains_ref 0 v \<longleftrightarrow> False"
| "contains_ref (Suc n) v \<longleftrightarrow> (case v of
     VDict d \<Rightarrow> dict_get d ''$ref'' \<noteq> None \<or> list_ex (\<lambda>p. contains_ref n (snd p)) d
   | VList vs \<Rightarrow> list_ex (contains_ref n) vs
   | _ \<Rightarrow> False)"

definition schema_contains_ref :: "py_value \<Rightarrow> bool" where
  "schema_contains_ref v = contains_ref (Suc MAX_SCHEMA_DEPTH) v"

definition update_child :: "(py_value \<Rightarrow> py_value) \<Rightarrow> string \<Rightarrow> json_object \<Rightarrow> json_object" where
  "update_child f k d = (case dict_get d k of None \<Rightarrow> d | Some v \<Rightarrow> dict_set k (f v) d)"

fun each_value :: "(py_value \<Rightarrow> py_value) \<Rightarrow> py_value \<Rightarrow> py_value" where
  "each_value g (VDict d) = VDict (map (\<lambda>p. (fst p, g (snd p))) d)"
| "each_value g v = v"

fun if_container :: "(py_value \<Rightarrow> py_value) \<Rightarrow> py_value \<Rightarrow> py_value" where
  "if_container g v = (if is_container v then g v else v)"

fun each_item :: "(py_value \<Rightarrow> py_value) \<Rightarrow> py_value \<Rightarrow> py_value" where
  "each_item g (VList vs) = VList (map g vs)"
| "each_item g v = v"

fun if_object :: "(py_value \<Rightarrow> py_value) \<Rightarrow> py_value \<Rightarrow> py_value" where
  "if_object g (VDict d) = g (VDict d)"
| "if_object g v = v"

definition normalize_children :: "(py_value \<Rightarrow> py_value) \<Rightarrow> json_object \<Rightarrow> json_object" where
  "normalize_children g d =
     update_child (if_object g) ''additionalProperties''
       (fold (update_child (each_item g)) [''allOf'', ''anyOf'', ''oneOf'']
         (update_child (if_container g) ''items''
           (fold (update_child (each_value g)) [''properties'', ''patternProperties'', ''definitions'', ''$defs''] d)))"

primrec normalize_levels :: "nat \<Rightarrow> bool \<Rightarrow> py_value \<Rightarrow> py_value" where
  "normalize_levels 0 keep v = v"
| "normalize_levels (Suc n) keep v = (case v of
     VList vs \<Rightarrow> VList (map (normalize_levels n keep) vs)
   | VDict d \<Rightarrow> VDict (normalize_children (normalize_levels n keep)
       (coerce_exclusive_bounds (flatten_type_union (collapse_nullable_any_of (strip_meta keep d)))))
   | _ \<Rightarrow> v)"

definition normalize_schema :: "py_value \<Rightarrow> py_value" where
  "normalize_schema v = normalize_levels (Suc MAX_SCHEMA_DEPTH) (schema_contains_ref v) v"

fun normalize_tool_schema :: "py_value \<Rightarrow> py_value" where
  "normalize_tool_schema (VDict d) = normalize_schema (VDict d)"
| "normalize_tool_schema (VList vs) = normalize_schema (VList vs)"
| "normalize_tool_schema v = v"

fun normalize_openai_tool :: "py_value \<Rightarrow> py_value" where
  "normalize_openai_tool (VDict t) = VDict (case dict_get t ''function'' of
     Some (VDict f) \<Rightarrow> dict_set ''function'' (VDict (update_child (if_object normalize_schema) ''parameters'' f)) t
   | _ \<Rightarrow> t)"
| "normalize_openai_tool v = v"

fun normalize_openai_tools :: "py_value \<Rightarrow> py_value" where
  "normalize_openai_tools (VList ts) = VList (map normalize_openai_tool ts)"
| "normalize_openai_tools v = v"

fun normalize_anthropic_tool :: "py_value \<Rightarrow> py_value" where
  "normalize_anthropic_tool (VDict t) = VDict (update_child (if_object normalize_schema) ''input_schema'' t)"
| "normalize_anthropic_tool v = v"

fun normalize_anthropic_tools :: "py_value \<Rightarrow> py_value" where
  "normalize_anthropic_tools (VList ts) = VList (map normalize_anthropic_tool ts)"
| "normalize_anthropic_tools v = v"

section \<open>Meta keys\<close>

lemma strip_meta_keys: "k \<in> set META_KEYS \<Longrightarrow> dict_get (strip_meta keep d) k = None"
  by (auto simp: strip_meta_def META_KEYS_def DEFINITION_KEYS_def dict_get_pop)

text \<open>Meta keys are removed from a node before the variant next to a null variant is merged into it: those
  of the variant stay.\<close>

lemma variant_levels:
  "normalize_levels (Suc n) keep (VDict [(''anyOf'', VList [VDict [(''$schema'', VText u), (''type'', VText ''object'')],
     VDict [(''type'', VText ''null'')]])]) =
   VDict [(''$schema'', VText u), (''type'', VText ''object''), (''nullable'', vtrue)]"
proof -
  let ?v = "[(''$schema'', VText u), (''type'', VText ''object'')]"
  let ?s = "[(''anyOf'', VList [VDict ?v, VDict [(''type'', VText ''null'')]])]"
  have strip: "strip_meta keep ?s = ?s" by (simp add: strip_meta_def META_KEYS_def DEFINITION_KEYS_def)
  have "other_variant [VDict ?v, VDict [(''type'', VText ''null'')]] = Some ?v" by (simp add: other_variant_def)
  moreover have "merge_missing ?v [] = ?v" by (simp add: merge_missing_def)
  ultimately have collapse: "collapse_nullable_any_of ?s = ?v @ [(''nullable'', vtrue)]"
    by (simp add: collapse_nullable_any_of_def collapse_union_def)
  have "coerce_exclusive_bounds (flatten_type_union (?v @ [(''nullable'', vtrue)])) = ?v @ [(''nullable'', vtrue)]"
    by (simp add: flatten_type_union_def coerce_exclusive_bounds_def coerce_bound_def)
  moreover have "normalize_children g (?v @ [(''nullable'', vtrue)]) = ?v @ [(''nullable'', vtrue)]" for g
    by (simp add: normalize_children_def update_child_def)
  ultimately show ?thesis by (simp add: strip collapse)
qed

theorem meta_key_of_variant_stays:
  "normalize_tool_schema (VDict [(''anyOf'', VList [VDict [(''$schema'', VText u), (''type'', VText ''object'')],
     VDict [(''type'', VText ''null'')]])]) =
   VDict [(''$schema'', VText u), (''type'', VText ''object''), (''nullable'', vtrue)]"
  by (simp only: normalize_tool_schema.simps normalize_schema_def variant_levels)

end
