(* ===== verification/Error_Classifier.thy ===== *)
theory Error_Classifier
  imports Text_Matching Routing_Data Tool_Schemas
begin

text \<open>
  The classification of upstream errors (\<open>services/error_classifier.py\<close>): the texts an error detail
  carries, the class it is given, whether it means an exhausted daily quota or an overload, the
  limit it names, and the changes that make a payload acceptable to stricter providers.

  An error detail is a text or decoded JSON with the attributes some of its classes have. What
  \<open>json.loads\<close> and \<open>sanitize_payload\<close> make of a text is part of the detail, and so is \<open>str()\<close> of a detail
  that is no text. Texts are lowered before they are matched, so patterns are written in lower case.
\<close>

section \<open>Error details\<close>

record error_detail =
  ed_value :: py_value
  ed_str :: string
  ed_parsed :: "py_value option"
  ed_status_code :: "int option"
  ed_behavior_class :: "string option"
  ed_diagnostic :: "string option"
  ed_diagnostic_parsed :: "py_value option"

definition plain_detail :: "string \<Rightarrow> error_detail" where
  "plain_detail s = \<lparr>ed_value = VText s, ed_str = s, ed_parsed = None, ed_status_code = None, ed_behavior_class = None,
     ed_diagnostic = None, ed_diagnostic_parsed = None\<rparr>"

definition text_of :: "error_detail \<Rightarrow> string" where
  "text_of d = (case ed_value d of VText s \<Rightarrow> s | _ \<Rightarrow> ed_str d)"

section \<open>Signals\<close>

definition SIGNAL_KEYS :: "string list" where
  "SIGNAL_KEYS = [''error'', ''detail'', ''message'', ''code'', ''type'']"

lemma entry_size: "(k, v) \<in> set d \<Longrightarrow> size v \<le> size_list (size_prod (\<lambda>x. 0) size) d"
  by (erule size_list_estimation') simp

lemma dict_value_size: "dict_get d k = Some v \<Longrightarrow> size v \<le> size_list (size_prod (\<lambda>x. 0) size) d"
  by (drule map_of_SomeD) (rule entry_size)

lemma item_size: "v \<in> set vs \<Longrightarrow> size v \<le> size_list size vs"
  by (erule size_list_estimation') simp

text \<open>A value under one of the keys is visited for its key, and once more when it is a container.\<close>

function collect_signals :: "py_value \<Rightarrow> string list" where
  "collect_signals (VText s) = (let t = py_strip s in if t = [] then [] else [t])"
| "collect_signals (VDict d) =
     concat (map (\<lambda>k. case dict_get d k of None \<Rightarrow> [] | Some v \<Rightarrow> collect_signals v) SIGNAL_KEYS) @
     concat (map (\<lambda>p. if is_container (snd p) then collect_signals (snd p) else []) d)"
| "collect_signals (VList vs) = concat (map collect_signals vs)"
| "collect_signals VNone = []"
| "collect_signals (VNum n) = []"
  by pat_completeness auto

termination collect_signals
  by (relation "measure size") (auto simp: le_imp_less_Suc dict_value_size entry_size item_size)

text \<open>Each signal once, in lower case, in the order of its first occurrence.\<close>

fun first_seen :: "string list \<Rightarrow> string list \<Rightarrow> string list" where
  "first_seen seen [] = []"
| "first_seen seen (x # xs) =
     (let y = py_lower x in if y \<in> set seen then first_seen seen xs else y # first_seen (y # seen) xs)"

definition raw_signals :: "py_value \<Rightarrow> py_value option \<Rightarrow> string list" where
  "raw_signals v parsed = collect_signals v @
     (case (v, parsed) of (VText s, Some p) \<Rightarrow> collect_signals p | _ \<Rightarrow> [])"

definition signal_candidates :: "py_value \<Rightarrow> py_value option \<Rightarrow> string list" where
  "signal_candidates v parsed = first_seen [] (raw_signals v parsed)"

definition signals_of :: "error_detail \<Rightarrow> string list" where
  "signals_of d = signal_candidates (ed_value d) (ed_parsed d)"

section \<open>Context overflow\<close>

definition OVERFLOW_CODES :: "string list" where
  "OVERFLOW_CODES = [''context_length_exceeded'', ''context_window_exceeded'', ''prompt_too_long'']"

definition OVERFLOW_MESSAGES :: "string list" where
  "OVERFLOW_MESSAGES = [''maximum context length'', ''maximum context size'', ''prompt is too long'', ''input is too long'',
     ''reduce the length of the messages'', ''context overflow'']"

definition OVERFLOW_MARKERS :: "string list" where
  "OVERFLOW_MARKERS = [''exceed'', ''maximum'', ''limit'', ''overflow'', ''too long'']"

definition TOKEN_VALUE :: regex where
  "TOKEN_VALUE = RSeqs [RBoundary, RChar is_digit, RMany (\<lambda>c. is_digit c \<or> c \<in> {CHR '','', CHR ''.'', CHR ''_''}),
     RMany py_space, ROpt (RChar (\<lambda>c. c \<in> {CHR ''k'', CHR ''m''})), RSome py_space, RText ''token'', ROpt (RText ''s''),
     RBoundary]"

definition MAXIMUM_CONTEXT :: regex where
  "MAXIMUM_CONTEXT = RSeqs [RBoundary, RText ''maximum'', RSome py_space, RText ''context'', RBoundary]"

definition requested_token_overflow :: "string \<Rightarrow> bool" where
  "requested_token_overflow s \<longleftrightarrow>
     (if \<not> contains ''requested'' s \<or> \<not> contains ''tokens'' s then False
      else if contains_any OVERFLOW_MARKERS s then True
      else rx_search TOKEN_VALUE s \<noteq> None)"

definition overflow_signal :: "string \<Rightarrow> bool" where
  "overflow_signal s \<longleftrightarrow>
     contains_any OVERFLOW_CODES s \<or> contains_any OVERFLOW_MESSAGES s \<or>
     (contains ''context window'' s \<and> contains_any OVERFLOW_MARKERS s) \<or>
     (contains ''context length'' s \<and> contains_any OVERFLOW_MARKERS s) \<or>
     (rx_search MAXIMUM_CONTEXT s \<noteq> None \<and> rx_search TOKEN_VALUE s \<noteq> None) \<or>
     requested_token_overflow s \<or>
     (contains ''too many tokens'' s \<and> contains_any [''prompt'', ''input'', ''context''] s)"

definition is_context_overflow_error :: "error_detail \<Rightarrow> bool" where
  "is_context_overflow_error d \<longleftrightarrow> list_ex overflow_signal (signals_of d)"

section \<open>The class of an error\<close>

datatype error_type =
  ContextOverflow
| HttpStatus int
| ReadTimeout
| ConnectTimeout
| ConnectError
| UnknownError
| ModelBehavior string

definition status_code_group :: "string list \<Rightarrow> regex" where
  "status_code_group codes =
     RGroup 1 (RAlts (map RText codes @ [RSeqs [RText ''5'', RChar is_digit, RChar is_digit]]))"

definition HTTP_STATUS_PATTERN :: regex where
  "HTTP_STATUS_PATTERN = RSeqs [RBoundary,
     RAlts [RText ''error'', RSeq (RText ''status'') (ROpt (RSeq (RSome py_space) (RText ''code''))), RText ''http''],
     RSome py_space, status_code_group [''400'', ''401'', ''403'', ''404'', ''429''], RBoundary]"

definition SERVER_ERROR_PATTERN :: regex where
  "SERVER_ERROR_PATTERN = RSeqs [RBoundary, status_code_group [], RSome py_space, RText ''internal'', RSome py_space,
     RText ''server'', RSome py_space, RText ''error'', RBoundary]"

definition DOWNSTREAM_PATTERN :: regex where
  "DOWNSTREAM_PATTERN = RSeqs [RBoundary, RText ''downstream'', RSome py_space, RText ''error'', RSome py_space,
     status_code_group [''429'', ''400'', ''401'', ''403'', ''404''], RBoundary]"

definition group_number :: "(nat, string) dict \<Rightarrow> int" where
  "group_number gs = (case dict_get gs 1 of None \<Rightarrow> 0 | Some s \<Rightarrow> int (number_of s))"

definition classified_status :: "int \<Rightarrow> bool" where
  "classified_status n \<longleftrightarrow> n \<in> {400, 401, 403, 404, 429} \<or> (500 \<le> n \<and> n \<le> 599)"

definition quoted :: "string \<Rightarrow> string" where
  "quoted s = CHR 0x22 # s @ [CHR 0x22]"

fun first_pattern :: "regex list \<Rightarrow> string \<Rightarrow> error_type" where
  "first_pattern [] s = UnknownError"
| "first_pattern (r # rs) s = (case rx_search r s of Some gs \<Rightarrow> HttpStatus (group_number gs) | None \<Rightarrow> first_pattern rs s)"

definition classify_text :: "string \<Rightarrow> error_type" where
  "classify_text s =
     (if contains_any [''readtimeout'', ''read timed out''] s then ReadTimeout
      else if contains_any [''connecttimeout'', ''connect timed out''] s then ConnectTimeout
      else if contains_any [''connecterror'', ''connection refused''] s then ConnectError
      else if contains (quoted ''code'' @ '':'' @ quoted ''429'') s then HttpStatus 429
      else first_pattern [HTTP_STATUS_PATTERN, SERVER_ERROR_PATTERN, DOWNSTREAM_PATTERN] s)"

definition classify_error :: "error_detail \<Rightarrow> error_type option" where
  "classify_error d =
     (if \<not> truthy (ed_value d) then None
      else case ed_behavior_class d of
        Some (c # cs) \<Rightarrow> Some (ModelBehavior (c # cs))
      | _ \<Rightarrow>
          if is_context_overflow_error d then Some ContextOverflow
          else case ed_status_code d of
            Some n \<Rightarrow> if classified_status n then Some (HttpStatus n) else Some (classify_text (py_lower (text_of d)))
          | None \<Rightarrow> Some (classify_text (py_lower (text_of d))))"

section \<open>Quotas, overload, limits\<close>

definition DAY_MARKERS :: "string list" where "DAY_MARKERS = [''daily'', ''per-day'', ''today'', ''24h'']"

definition QUOTA_MARKERS :: "string list" where
  "QUOTA_MARKERS = [''allocation'', ''quota'', ''limit'', ''exhausted'', ''used up'']"

definition MONTHLY_MARKERS :: "string list" where "MONTHLY_MARKERS = [''monthly'', ''per-month'', ''month'']"

definition OVERLOAD_MARKERS :: "string list" where
  "OVERLOAD_MARKERS = [''concurrency limit'', ''too many concurrent requests'', ''server overloaded'']"

definition is_daily_quota_exhausted_error :: "error_detail \<Rightarrow> bool" where
  "is_daily_quota_exhausted_error d \<longleftrightarrow>
     list_ex (\<lambda>s. contains_any DAY_MARKERS s \<and> contains_any QUOTA_MARKERS s) (signals_of d)"

definition overload_signals :: "error_detail \<Rightarrow> string list" where
  "overload_signals d = signals_of d @ (case ed_diagnostic d of None \<Rightarrow> []
     | Some t \<Rightarrow> signal_candidates (VText t) (ed_diagnostic_parsed d))"

definition is_confirmed_upstream_overload_error :: "error_detail \<Rightarrow> bool" where
  "is_confirmed_upstream_overload_error d \<longleftrightarrow>
     (if classify_error d \<notin> {Some (HttpStatus 429), Some (HttpStatus 503)} then False
      else if list_ex (\<lambda>s. (contains_any DAY_MARKERS s \<or> contains_any MONTHLY_MARKERS s) \<and> contains_any QUOTA_MARKERS s)
        (overload_signals d) then False
      else list_ex (contains_any OVERLOAD_MARKERS) (overload_signals d))"

definition LIMIT_VALUE :: regex where
  "LIMIT_VALUE = RSeqs [RBoundary, RText ''limit'', RSome (\<lambda>c. c = CHR '':'' \<or> py_space c),
     RGroup 1 (RSome (\<lambda>c. is_digit c \<or> c = CHR '',''))]"

definition axis_pattern :: "string \<Rightarrow> string \<Rightarrow> regex" where
  "axis_pattern phrase short = RAlt (RText phrase) (RSeqs [RBoundary, RText short, RBoundary])"

definition AXIS_PATTERNS :: "(axis \<times> regex) list" where
  "AXIS_PATTERNS = [(Tpd, axis_pattern ''tokens per day'' ''tpd''), (Tpm, axis_pattern ''tokens per minute'' ''tpm''),
     (Rpd, axis_pattern ''requests per day'' ''rpd''), (Rpm, axis_pattern ''requests per minute'' ''rpm'')]"

text \<open>\<open>int()\<close> of a text of digits and commas with the commas removed: \<open>ValueError\<close> when nothing is left, and
  beyond 4300 digits.\<close>

definition limit_number :: "string \<Rightarrow> unit + int" where
  "limit_number s = (let ds = filter (\<lambda>c. c \<noteq> CHR '','') s
     in if ds = [] \<or> length ds > 4300 then Inl () else Inr (int (number_of ds)))"

fun first_axis :: "(axis \<times> regex) list \<Rightarrow> string \<Rightarrow> axis option" where
  "first_axis [] s = None"
| "first_axis ((ax, r) # ps) s = (if rx_search r s \<noteq> None then Some ax else first_axis ps s)"

fun learned_limit :: "string list \<Rightarrow> unit + (axis \<times> int) option" where
  "learned_limit [] = Inr None"
| "learned_limit (s # ss) = (case rx_search LIMIT_VALUE s of
     None \<Rightarrow> learned_limit ss
   | Some gs \<Rightarrow> (case first_axis AXIS_PATTERNS s of
       None \<Rightarrow> learned_limit ss
     | Some ax \<Rightarrow> (case limit_number (dict_default [] gs 1) of Inl e \<Rightarrow> Inl e | Inr n \<Rightarrow> Inr (Some (ax, n)))))"

definition parse_learned_limit_from_error :: "error_detail \<Rightarrow> unit + (axis \<times> int) option" where
  "parse_learned_limit_from_error d = learned_limit (signals_of d)"

section \<open>A forced tool choice\<close>

definition TOOL_CHOICE_REFUSALS :: "string list" where
  "TOOL_CHOICE_REFUSALS = [''not support'', ''unsupported'', ''not allowed'', ''not available'', ''must be one of'', ''cannot be set'']"

definition is_forced_tool_choice_unsupported_error :: "error_detail \<Rightarrow> bool" where
  "is_forced_tool_choice_unsupported_error d \<longleftrightarrow>
     list_ex (\<lambda>s. contains ''tool_choice'' s \<and> contains_any TOOL_CHOICE_REFUSALS s) (signals_of d)"

definition has_forced_tool_choice :: "json_object \<Rightarrow> bool" where
  "has_forced_tool_choice payload \<longleftrightarrow> (case dict_get payload ''tool_choice'' of
     Some (VText s) \<Rightarrow> s = ''required'' | Some (VDict d) \<Rightarrow> True | _ \<Rightarrow> False)"

definition downgrade_forced_tool_choice :: "json_object \<Rightarrow> json_object \<times> bool" where
  "downgrade_forced_tool_choice payload =
     (if \<not> has_forced_tool_choice payload then (payload, False)
      else (dict_set ''tool_choice'' (VText ''auto'') payload, True))"

section \<open>Payloads for stricter providers\<close>

fun empty_text_block :: "py_value \<Rightarrow> bool" where
  "empty_text_block (VDict b) \<longleftrightarrow> dict_get b ''type'' = Some (VText ''text'') \<and> dict_get b ''text'' = Some (VText [])"
| "empty_text_block _ \<longleftrightarrow> False"

fun drop_empty_blocks :: "py_value \<Rightarrow> py_value" where
  "drop_empty_blocks (VDict m) = VDict (case dict_get m ''content'' of
     Some (VList bs) \<Rightarrow>
       (let kept = filter (\<lambda>b. \<not> empty_text_block b) bs
        in if length kept = length bs then m
           else if kept \<noteq> [] then dict_set ''content'' (VList kept) m
           else if (case dict_get m ''tool_calls'' of None \<Rightarrow> False | Some v \<Rightarrow> truthy v) then dict_pop ''content'' m
           else m)
   | _ \<Rightarrow> m)"
| "drop_empty_blocks v = v"

definition drop_empty_text_content_blocks :: "json_object \<Rightarrow> json_object" where
  "drop_empty_text_content_blocks payload = (case dict_get payload ''messages'' of
     Some (VList ms) \<Rightarrow> dict_set ''messages'' (VList (map drop_empty_blocks ms)) payload | _ \<Rightarrow> payload)"

definition requires_single_system_message :: "string option \<Rightarrow> bool" where
  "requires_single_system_message model \<longleftrightarrow> (case model of None \<Rightarrow> False | Some s \<Rightarrow> is_prefix ''mm.MiniMax-'' s)"

fun is_system_message :: "py_value \<Rightarrow> bool" where
  "is_system_message (VDict m) \<longleftrightarrow> dict_get m ''role'' = Some (VText ''system'')"
| "is_system_message _ \<longleftrightarrow> False"

text \<open>\<open>dumps\<close> is \<open>json.dumps\<close>.\<close>

fun system_part :: "(py_value \<Rightarrow> string) \<Rightarrow> py_value \<Rightarrow> string list" where
  "system_part dumps (VDict m) = (case dict_get m ''content'' of
     None \<Rightarrow> [] | Some VNone \<Rightarrow> [] | Some (VText s) \<Rightarrow> [s] | Some v \<Rightarrow> [dumps v])"
| "system_part dumps v = []"

fun join_with :: "string \<Rightarrow> string list \<Rightarrow> string" where
  "join_with sep [] = []"
| "join_with sep [s] = s"
| "join_with sep (s # ss) = s @ sep @ join_with sep ss"

definition merged_content :: "(py_value \<Rightarrow> string) \<Rightarrow> py_value list \<Rightarrow> string" where
  "merged_content dumps ms =
     join_with [CHR 0x0A, CHR 0x0A] (filter (\<lambda>s. s \<noteq> []) (concat (map (system_part dumps) (filter is_system_message ms))))"

fun set_content :: "string \<Rightarrow> py_value \<Rightarrow> py_value" where
  "set_content s (VDict m) = VDict (dict_set ''content'' (VText s) m)"
| "set_content s v = v"

fun keep_first_system :: "string \<Rightarrow> py_value list \<Rightarrow> py_value list" where
  "keep_first_system s [] = []"
| "keep_first_system s (m # ms) =
     (if is_system_message m then set_content s m # filter (\<lambda>m. \<not> is_system_message m) ms
      else m # keep_first_system s ms)"

definition merge_system_messages :: "(py_value \<Rightarrow> string) \<Rightarrow> py_value list \<Rightarrow> py_value list" where
  "merge_system_messages dumps ms =
     (if length (filter is_system_message ms) > 1 then keep_first_system (merged_content dumps ms) ms else ms)"

definition default_parameters :: py_value where
  "default_parameters = VDict [(''type'', VText ''object''), (''properties'', VDict [])]"

fun fill_parameters :: "py_value \<Rightarrow> py_value" where
  "fill_parameters (VDict t) = VDict (case (dict_get t ''type'', dict_get t ''function'') of
     (Some (VText ty), Some (VDict f)) \<Rightarrow>
       if ty = ''function'' \<and> (case dict_get f ''parameters'' of None \<Rightarrow> True | Some VNone \<Rightarrow> True | _ \<Rightarrow> False)
       then dict_set ''function'' (VDict (dict_set ''parameters'' default_parameters f)) t else t
   | _ \<Rightarrow> t)"
| "fill_parameters v = v"

definition normalize_provider_attempt_payload :: "(py_value \<Rightarrow> string) \<Rightarrow> string option \<Rightarrow> json_object \<Rightarrow> json_object" where
  "normalize_provider_attempt_payload dumps model payload =
     (let p1 = (case dict_get payload ''response_format'' of None \<Rightarrow> payload
                | Some v \<Rightarrow> if v = VNone then dict_pop ''response_format'' payload else payload);
          p2 = drop_empty_text_content_blocks p1;
          p3 = (if \<not> requires_single_system_message model then p2
                else case dict_get p2 ''messages'' of
                  Some (VList ms) \<Rightarrow> dict_set ''messages'' (VList (merge_system_messages dumps ms)) p2 | _ \<Rightarrow> p2)
      in case dict_get p3 ''tools'' of
           Some (VList ts) \<Rightarrow> dict_set ''tools'' (normalize_openai_tools (VList (map fill_parameters ts))) p3
         | _ \<Rightarrow> p3)"

end
