(* ===== verification/Error_Guarantees.thy ===== *)
theory Error_Guarantees
  imports Error_Classifier "HOL-Library.Code_Target_Nat" "HOL-Library.Code_Target_Int"
begin

text \<open>
  What holds of the classification of upstream errors (\<open>services/error_classifier.py\<close>): the classes it
  can give, that an overload is never also an exhausted quota, how a limit is read from a text and
  which texts make that fail, how many signals a nested detail has, and what merging the system
  messages of a payload keeps.
\<close>

section \<open>Groups of a match\<close>

text \<open>Every group of the pattern satisfies the predicate, and the group is set on every way through it.\<close>

fun groups_fit :: "(nat \<Rightarrow> string \<Rightarrow> bool) \<Rightarrow> regex \<Rightarrow> bool" where
  "groups_fit P (RSeq r q) \<longleftrightarrow> groups_fit P r \<and> groups_fit P q"
| "groups_fit P (RAlt r q) \<longleftrightarrow> groups_fit P r \<and> groups_fit P q"
| "groups_fit P (RGroup k r) \<longleftrightarrow> groups_fit P r \<and> (\<forall>p w t. fits r p w t \<longrightarrow> P k w)"
| "groups_fit P _ \<longleftrightarrow> True"

fun sets_group :: "nat \<Rightarrow> regex \<Rightarrow> bool" where
  "sets_group k (RSeq r q) \<longleftrightarrow> sets_group k r \<or> sets_group k q"
| "sets_group k (RAlt r q) \<longleftrightarrow> sets_group k r \<and> sets_group k q"
| "sets_group k (RGroup j r) \<longleftrightarrow> j = k \<or> sets_group k r"
| "sets_group k _ \<longleftrightarrow> False"

definition groups_ok :: "(nat \<Rightarrow> string \<Rightarrow> bool) \<Rightarrow> (nat, string) dict \<Rightarrow> bool" where
  "groups_ok P gs \<longleftrightarrow> (\<forall>k w. dict_get gs k = Some w \<longrightarrow> P k w)"

lemma match_seq:
  assumes "st \<in> set (rx_match (RSeq r q) (p, s, gs))"
  obtains p1 s1 gs1 where "(p1, s1, gs1) \<in> set (rx_match r (p, s, gs))" and "st \<in> set (rx_match q (p1, s1, gs1))"
proof -
  from assms obtain y where "y \<in> set (rx_match r (p, s, gs))" "st \<in> set (rx_match q y)" by auto
  moreover obtain p1 s1 gs1 where "y = (p1, s1, gs1)" by (rule prod_cases3)
  ultimately show ?thesis using that by blast
qed

lemma match_groups:
  "groups_ok P gs \<Longrightarrow> groups_fit P r \<Longrightarrow> (p', t, gs') \<in> set (rx_match r (p, s, gs)) \<Longrightarrow> groups_ok P gs'"
proof (induction r arbitrary: p s gs p' t gs')
  case (RChar Q)
  then show ?case by (cases s) (auto split: if_splits)
next
  case (RSeq r q)
  obtain p1 s1 gs1 where m: "(p1, s1, gs1) \<in> set (rx_match r (p, s, gs))" "(p', t, gs') \<in> set (rx_match q (p1, s1, gs1))"
    using RSeq.prems(3) by (rule match_seq)
  have fit: "groups_fit P r" "groups_fit P q" using RSeq.prems(2) by simp_all
  show ?case by (rule RSeq.IH(2)[OF RSeq.IH(1)[OF RSeq.prems(1) fit(1) m(1)] fit(2) m(2)])
next
  case (RAlt r q)
  have "(p', t, gs') \<in> set (rx_match r (p, s, gs)) \<or> (p', t, gs') \<in> set (rx_match q (p, s, gs))" using RAlt.prems(3) by simp
  with RAlt.IH[OF RAlt.prems(1)] RAlt.prems(2) show ?case by (metis groups_fit.simps(2))
next
  case (RGroup k r)
  then obtain gs1 where m: "(p', t, gs1) \<in> set (rx_match r (p, s, gs))" and gs': "gs' = dict_set k (take (length s - length t) s) gs1"
    by auto
  from m obtain w where "s = w @ t" "fits r p w t" using rx_match_exact[of p' t r p s gs] by blast
  then have "P k (take (length s - length t) s)" using RGroup.prems(2) by auto
  moreover have "groups_ok P gs1" using RGroup.IH[OF RGroup.prems(1) _ m] RGroup.prems(2) by simp
  ultimately show ?case by (simp add: gs' groups_ok_def dict_get_set)
qed (auto split: if_splits)

lemma match_sets:
  "(p', t, gs') \<in> set (rx_match r (p, s, gs)) \<Longrightarrow> sets_group k r \<or> dict_get gs k \<noteq> None \<Longrightarrow> dict_get gs' k \<noteq> None"
proof (induction r arbitrary: p s gs p' t gs')
  case (RChar Q)
  then show ?case by (cases s) (auto split: if_splits)
next
  case (RSeq r q)
  obtain p1 s1 gs1 where m: "(p1, s1, gs1) \<in> set (rx_match r (p, s, gs))" "(p', t, gs') \<in> set (rx_match q (p1, s1, gs1))"
    using RSeq.prems(1) by (rule match_seq)
  show ?case using RSeq.IH(1)[OF m(1)] RSeq.IH(2)[OF m(2)] RSeq.prems(2) by auto
next
  case (RAlt r q)
  have "(p', t, gs') \<in> set (rx_match r (p, s, gs)) \<or> (p', t, gs') \<in> set (rx_match q (p, s, gs))" using RAlt.prems(1) by simp
  with RAlt.IH RAlt.prems(2) show ?case by (metis sets_group.simps(2))
next
  case (RGroup j r)
  then obtain gs1 where "(p', t, gs1) \<in> set (rx_match r (p, s, gs))" "gs' = dict_set j (take (length s - length t) s) gs1" by auto
  with RGroup show ?case by (auto simp: dict_get_set)
qed (auto split: if_splits)

lemma first_groups_mem: "first_groups sts = Some gs \<Longrightarrow> \<exists>p s. (p, s, gs) \<in> set sts"
  by (cases sts rule: first_groups.cases) auto

text \<open>A group is a part of the text that is searched.\<close>

lemma match_within:
  "(p', t, gs') \<in> set (rx_match r (p, s, gs)) \<Longrightarrow> groups_ok (\<lambda>k w. contains w (a @ s)) gs \<Longrightarrow>
   groups_ok (\<lambda>k w. contains w (a @ s)) gs'"
proof (induction r arbitrary: p s gs p' t gs' a)
  case (RChar Q)
  then show ?case by (cases s) (auto split: if_splits)
next
  case (RSeq r q)
  obtain p1 s1 gs1 where m: "(p1, s1, gs1) \<in> set (rx_match r (p, s, gs))" "(p', t, gs') \<in> set (rx_match q (p1, s1, gs1))"
    using RSeq.prems(1) by (rule match_seq)
  from m(1) obtain w where s: "s = w @ s1" using rx_match_exact[of p1 s1 r p s gs] by blast
  have "groups_ok (\<lambda>k w. contains w (a @ s)) gs1" by (rule RSeq.IH(1)[OF m(1) RSeq.prems(2)])
  then show ?case using RSeq.IH(2)[OF m(2), of "a @ w"] s by simp
next
  case (RAlt r q)
  have "(p', t, gs') \<in> set (rx_match r (p, s, gs)) \<or> (p', t, gs') \<in> set (rx_match q (p, s, gs))" using RAlt.prems(1) by simp
  with RAlt.IH RAlt.prems(2) show ?case by blast
next
  case (RGroup k r)
  then obtain gs1 where m: "(p', t, gs1) \<in> set (rx_match r (p, s, gs))" and gs': "gs' = dict_set k (take (length s - length t) s) gs1"
    by auto
  have "contains (take n s) (a @ s)" for n unfolding contains_iff by (metis append_take_drop_id)
  moreover have "groups_ok (\<lambda>k w. contains w (a @ s)) gs1" by (rule RGroup.IH[OF m RGroup.prems(2)])
  ultimately show ?case by (simp add: gs' groups_ok_def dict_get_set)
qed (auto split: if_splits)

lemma rx_from_some: "rx_from r p s = Some gs \<Longrightarrow> \<exists>a p s1 p' t. s = a @ s1 \<and> (p', t, gs) \<in> set (rx_match r (p, s1, []))"
proof (induction r p s rule: rx_from.induct)
  case (1 r p)
  then show ?case using first_groups_mem by fastforce
next
  case (2 r p c cs)
  show ?case
  proof (cases "first_groups (rx_match r (p, c # cs, []))")
    case None
    with 2 obtain a q s1 p' t where "cs = a @ s1" "(p', t, gs) \<in> set (rx_match r (q, s1, []))" by auto
    then show ?thesis by (intro exI[of _ "c # a"]) auto
  next
    case (Some g)
    with 2(2) have "first_groups (rx_match r (p, c # cs, [])) = Some gs" by simp
    from first_groups_mem[OF this] show ?thesis by (intro exI[of _ "[]"]) auto
  qed
qed

lemma search_group:
  assumes "rx_search r s = Some gs" and "groups_fit P r" and "sets_group k r"
  shows "\<exists>w. dict_get gs k = Some w \<and> P k w \<and> contains w s"
proof -
  obtain a p s1 p' t where s: "s = a @ s1" and m: "(p', t, gs) \<in> set (rx_match r (p, s1, []))"
    using rx_from_some[OF assms(1)[unfolded rx_search_def]] by blast
  have "groups_ok P gs" by (rule match_groups[OF _ assms(2) m]) (simp add: groups_ok_def)
  moreover have "groups_ok (\<lambda>k w. contains w s) gs" unfolding s by (rule match_within[OF m]) (simp add: groups_ok_def)
  moreover have "dict_get gs k \<noteq> None" using match_sets[OF m] assms(3) by blast
  ultimately show ?thesis by (auto simp: groups_ok_def)
qed

section \<open>The class of an error\<close>

lemma fits_text: "fits (RText s) p w t \<longleftrightarrow> w = s"
  by (induction s arbitrary: p w) auto

lemma fits_alts: "fits (RAlts rs) p w t \<longleftrightarrow> (\<exists>r\<in>set rs. fits r p w t)"
  by (induction rs rule: RAlts.induct) auto

lemma groups_text: "groups_fit P (RText s)"
  by (induction s) auto

lemma groups_alts: "(\<And>r. r \<in> set rs \<Longrightarrow> groups_fit P r) \<Longrightarrow> groups_fit P (RAlts rs)"
  by (induction rs rule: RAlts.induct) auto

lemma groups_seqs: "groups_fit P (RSeqs rs) \<longleftrightarrow> list_all (groups_fit P) rs"
  by (induction rs) auto

lemma sets_seqs: "sets_group k (RSeqs rs) \<longleftrightarrow> list_ex (sets_group k) rs"
  by (induction rs) auto

definition status_text :: "nat \<Rightarrow> string \<Rightarrow> bool" where
  "status_text k w \<longleftrightarrow> length w = 3 \<and> classified_status (int (number_of w))"

lemma status_digits: "is_digit a \<Longrightarrow> is_digit b \<Longrightarrow> status_text k [CHR ''5'', a, b]"
  by (auto simp: status_text_def classified_status_def number_of_def is_digit_def)

lemma status_group:
  assumes "\<And>c. c \<in> set codes \<Longrightarrow> status_text 1 c"
  shows "groups_fit status_text (status_code_group codes)" and "sets_group 1 (status_code_group codes)"
proof -
  show "groups_fit status_text (status_code_group codes)"
    using assms by (auto simp: status_code_group_def fits_alts fits_text intro!: groups_alts groups_text status_digits)
  show "sets_group 1 (status_code_group codes)" by (simp add: status_code_group_def)
qed

lemma pattern_codes:
  assumes "c \<in> set [''400'', ''401'', ''403'', ''404'', ''429'']" shows "status_text k c"
proof -
  have "list_all (\<lambda>c. length c = 3 \<and> classified_status (int (number_of c))) [''400'', ''401'', ''403'', ''404'', ''429'']" by code_simp
  with assms show ?thesis unfolding status_text_def list_all_iff by blast
qed

lemma status_patterns:
  assumes "r \<in> {HTTP_STATUS_PATTERN, SERVER_ERROR_PATTERN, DOWNSTREAM_PATTERN}"
  shows "groups_fit status_text r" and "sets_group 1 r"
proof -
  have group: "groups_fit status_text (status_code_group codes) \<and> sets_group 1 (status_code_group codes)"
    if "set codes \<subseteq> set [''400'', ''401'', ''403'', ''404'', ''429'']" for codes
    using that status_group[of codes] pattern_codes by blast
  show "groups_fit status_text r"
    using assms group[of "[''400'', ''401'', ''403'', ''404'', ''429'']"] group[of "[''429'', ''400'', ''401'', ''403'', ''404'']"]
      group[of "[]"]
    by (auto simp: HTTP_STATUS_PATTERN_def SERVER_ERROR_PATTERN_def DOWNSTREAM_PATTERN_def groups_seqs groups_text
        simp del: RSeqs.simps RText.simps)
  show "sets_group 1 r"
    using assms group[of "[''400'', ''401'', ''403'', ''404'', ''429'']"] group[of "[''429'', ''400'', ''401'', ''403'', ''404'']"]
      group[of "[]"]
    by (auto simp: HTTP_STATUS_PATTERN_def SERVER_ERROR_PATTERN_def DOWNSTREAM_PATTERN_def sets_seqs
        simp del: RSeqs.simps RText.simps)
qed

text \<open>A status found in a text: its three digits stand there.\<close>

definition written_status :: "string \<Rightarrow> int \<Rightarrow> bool" where
  "written_status s n \<longleftrightarrow> classified_status n \<and> (\<exists>w. contains w s \<and> length w = 3 \<and> n = int (number_of w))"

lemma first_pattern_status:
  "set rs \<subseteq> {HTTP_STATUS_PATTERN, SERVER_ERROR_PATTERN, DOWNSTREAM_PATTERN} \<Longrightarrow>
     (case first_pattern rs s of HttpStatus n \<Rightarrow> written_status s n | t \<Rightarrow> t = UnknownError)"
proof (induction rs)
  case (Cons r rs)
  show ?case
  proof (cases "rx_search r s")
    case (Some gs)
    have "r \<in> {HTTP_STATUS_PATTERN, SERVER_ERROR_PATTERN, DOWNSTREAM_PATTERN}" using Cons.prems by simp
    then obtain w where "dict_get gs 1 = Some w" "status_text 1 w" "contains w s"
      using search_group[OF Some] status_patterns by blast
    with Some show ?thesis by (auto simp: group_number_def status_text_def written_status_def)
  next
    case None
    with Cons show ?thesis by simp
  qed
qed simp

lemma code_429: "contains (quoted ''code'' @ '':'' @ quoted ''429'') s \<Longrightarrow> written_status s 429"
proof -
  assume "contains (quoted ''code'' @ '':'' @ quoted ''429'') s"
  then obtain a b where "s = a @ (quoted ''code'' @ '':'' @ quoted ''429'') @ b" unfolding contains_iff by blast
  then have "s = (a @ quoted ''code'' @ '':'' @ [CHR 0x22]) @ ''429'' @ ([CHR 0x22] @ b)" by (simp add: quoted_def)
  then have "contains ''429'' s" unfolding contains_iff by blast
  moreover have "(429::int) = int (number_of ''429'') \<and> length ''429'' = 3 \<and> classified_status 429" by code_simp
  ultimately show ?thesis unfolding written_status_def by blast
qed

lemma classify_text_status:
  "case classify_text s of HttpStatus n \<Rightarrow> written_status s n | ContextOverflow \<Rightarrow> False | ModelBehavior b \<Rightarrow> False | t \<Rightarrow> True"
  using first_pattern_status[of "[HTTP_STATUS_PATTERN, SERVER_ERROR_PATTERN, DOWNSTREAM_PATTERN]" s] code_429[of s]
  by (auto simp: classify_text_def simp del: first_pattern.simps split: error_type.splits)

lemma overload_has_no_quota:
  assumes "is_confirmed_upstream_overload_error d" shows "\<not> is_daily_quota_exhausted_error d"
  using assms by (auto simp: is_confirmed_upstream_overload_error_def is_daily_quota_exhausted_error_def overload_signals_def
      list_ex_iff split: if_splits)

text \<open>No class of model behaviour is given with the error.\<close>

definition unregistered :: "error_detail \<Rightarrow> bool" where
  "unregistered d \<longleftrightarrow> ed_behavior_class d \<in> {None, Some []}"

definition names_overflow :: "error_detail \<Rightarrow> bool" where
  "names_overflow d \<longleftrightarrow> (\<exists>s\<in>set (signals_of d). overflow_signal s)"

text \<open>The class of an error, by what the error says.\<close>

inductive error_class :: "error_detail \<Rightarrow> error_type \<Rightarrow> bool" for d where
  behaviour: "ed_behavior_class d = Some b \<Longrightarrow> b \<noteq> [] \<Longrightarrow> error_class d (ModelBehavior b)"
| overflow: "unregistered d \<Longrightarrow> names_overflow d \<Longrightarrow> error_class d ContextOverflow"
| status: "unregistered d \<Longrightarrow> \<not> names_overflow d \<Longrightarrow> ed_status_code d = Some n \<Longrightarrow> classified_status n \<Longrightarrow>
    error_class d (HttpStatus n)"
| from_text: "unregistered d \<Longrightarrow> \<not> names_overflow d \<Longrightarrow> \<nexists>n. ed_status_code d = Some n \<and> classified_status n \<Longrightarrow>
    (case t of HttpStatus n \<Rightarrow> written_status (py_lower (text_of d)) n | ContextOverflow \<Rightarrow> False
     | ModelBehavior b \<Rightarrow> False | _ \<Rightarrow> True) \<Longrightarrow> error_class d t"

text \<open>C19: an error that is empty has no class. Any other has the class of the model behaviour it is registered
  with, else that of a context overflow exactly when one of its texts says so, else its own status when that is
  a classified one, else what its text says; a status read from the text is written there. An overload is never
  an exhausted daily quota and never a context overflow.\<close>

theorem classification_sound:
  "(case classify_error d of None \<Rightarrow> \<not> truthy (ed_value d) | Some t \<Rightarrow> truthy (ed_value d) \<and> error_class d t) \<and>
   (classify_error d = Some ContextOverflow \<longleftrightarrow> truthy (ed_value d) \<and> unregistered d \<and> names_overflow d) \<and>
   (is_confirmed_upstream_overload_error d \<longrightarrow> \<not> is_daily_quota_exhausted_error d \<and> \<not> names_overflow d)"
proof -
  have names: "is_context_overflow_error d \<longleftrightarrow> names_overflow d"
    by (simp add: is_context_overflow_error_def names_overflow_def list_ex_iff)
  note said = classify_text_status[of "py_lower (text_of d)"]
  consider (empty) "\<not> truthy (ed_value d)"
    | (behaviour) b where "truthy (ed_value d)" "ed_behavior_class d = Some b" "b \<noteq> []"
    | (overflow) "truthy (ed_value d)" "unregistered d" "names_overflow d"
    | (status) n where "truthy (ed_value d)" "unregistered d" "\<not> names_overflow d" "ed_status_code d = Some n" "classified_status n"
    | (from_text) "truthy (ed_value d)" "unregistered d" "\<not> names_overflow d" "\<nexists>n. ed_status_code d = Some n \<and> classified_status n"
    unfolding unregistered_def by (metis empty_iff insert_iff option.exhaust)
  then have sound: "(case classify_error d of None \<Rightarrow> \<not> truthy (ed_value d) | Some t \<Rightarrow> truthy (ed_value d) \<and> error_class d t) \<and>
     (classify_error d = Some ContextOverflow \<longleftrightarrow> truthy (ed_value d) \<and> unregistered d \<and> names_overflow d)"
  proof cases
    case from_text
    then have "classify_error d = Some (classify_text (py_lower (text_of d)))"
      by (auto simp: classify_error_def names unregistered_def split: option.split)
    with from_text said error_class.from_text[OF from_text(2-4) said] show ?thesis by (auto split: error_type.splits)
  next
    case overflow
    then have "classify_error d = Some ContextOverflow"
      by (auto simp: classify_error_def names unregistered_def split: option.split)
    with overflow error_class.overflow show ?thesis by simp
  next
    case (status n)
    then have "classify_error d = Some (HttpStatus n)"
      by (auto simp: classify_error_def names unregistered_def split: option.split)
    with status error_class.status show ?thesis by simp
  qed (auto simp: classify_error_def unregistered_def neq_Nil_conv intro: error_class.behaviour)
  have no_overflow: "error_class d (HttpStatus n) \<Longrightarrow> \<not> names_overflow d" for n by (auto elim: error_class.cases)
  have "\<not> names_overflow d" if "is_confirmed_upstream_overload_error d"
  proof -
    from that have "classify_error d \<in> {Some (HttpStatus 429), Some (HttpStatus 503)}"
      unfolding is_confirmed_upstream_overload_error_def by meson
    then obtain n where "classify_error d = Some (HttpStatus n)" by blast
    with sound have "error_class d (HttpStatus n)" by simp
    then show ?thesis by (rule no_overflow)
  qed
  with sound overload_has_no_quota show ?thesis by blast
qed

text \<open>An answer of status 429 that says why.\<close>

definition sample_overload :: error_detail where
  "sample_overload = (plain_detail ''Server overloaded, try again'')\<lparr>ed_status_code := Some 429\<rparr>"

lemma sample_overload_confirmed: "is_confirmed_upstream_overload_error sample_overload"
  by code_simp

lemma classification_sound_witness:
  "\<not> is_daily_quota_exhausted_error sample_overload \<and> \<not> names_overflow sample_overload"
  using classification_sound[of sample_overload] sample_overload_confirmed by blast

section \<open>Signals\<close>

lemma first_seen_set: "set (first_seen seen xs) = py_lower ` set xs - set seen"
  by (induction seen xs rule: first_seen.induct) (auto simp: Let_def)

lemma first_seen_distinct: "distinct (first_seen seen xs)"
  by (induction seen xs rule: first_seen.induct) (auto simp: Let_def first_seen_set)

lemma signal_candidates_exact:
  "distinct (signal_candidates v p) \<and> set (signal_candidates v p) = py_lower ` set (raw_signals v p)"
  by (simp add: signal_candidates_def first_seen_set first_seen_distinct)

text \<open>\<open>{"error": {"error": ... "x"}}\<close>.\<close>

primrec nested_error :: "nat \<Rightarrow> py_value" where
  "nested_error 0 = VDict [(''error'', VText ''x'')]"
| "nested_error (Suc n) = VDict [(''error'', nested_error n)]"

text \<open>C37: the number of texts collected from an error detail doubles with every level of nesting.\<close>

theorem signals_double:
  "length (collect_signals (nested_error n)) = 2 ^ n \<and> signal_candidates (nested_error n) None = [''x'']"
proof -
  have cont: "is_container (nested_error n)" for n by (cases n) simp_all
  have strip: "py_strip ''x'' = ''x''" by code_simp
  have rep: "collect_signals (nested_error n) = replicate (2 ^ n) ''x''"
  proof (induction n)
    case 0
    show ?case by (simp add: SIGNAL_KEYS_def strip)
  next
    case (Suc n)
    have "collect_signals (nested_error (Suc n)) = collect_signals (nested_error n) @ collect_signals (nested_error n)"
      using cont[of n] by (simp add: SIGNAL_KEYS_def)
    with Suc show ?case by (simp add: replicate_add[symmetric] mult_2)
  qed
  have lower: "py_lower ''x'' = ''x''" by code_simp
  have "first_seen seen (replicate k ''x'') = []" if "''x'' \<in> set seen" for seen k
    using that by (induction k) (simp_all add: lower)
  moreover obtain k where "(2::nat) ^ n = Suc k" using not0_implies_Suc[of "2 ^ n"] by auto
  ultimately have "first_seen [] (replicate (2 ^ n) ''x'') = [''x'']" by (simp add: lower)
  moreover have "raw_signals (nested_error n) None = collect_signals (nested_error n)"
    by (simp add: raw_signals_def split: py_value.split)
  ultimately show ?thesis by (simp add: rep signal_candidates_def)
qed

section \<open>System messages\<close>

lemma keep_first_system_spec:
  "filter (\<lambda>m. \<not> is_system_message m) (keep_first_system s ms) = filter (\<lambda>m. \<not> is_system_message m) ms"
  "length (filter is_system_message (keep_first_system s ms)) = min 1 (length (filter is_system_message ms))"
proof -
  have sys: "is_system_message m \<Longrightarrow> is_system_message (set_content s m)" for m
    by (cases m) (simp_all add: dict_get_set)
  have none: "filter is_system_message (filter (\<lambda>m. \<not> is_system_message m) ms) = []" for ms by (induction ms) auto
  show "filter (\<lambda>m. \<not> is_system_message m) (keep_first_system s ms) = filter (\<lambda>m. \<not> is_system_message m) ms"
    using sys by (induction ms) auto
  show "length (filter is_system_message (keep_first_system s ms)) = min 1 (length (filter is_system_message ms))"
    using sys none by (induction ms) auto
qed

text \<open>A payload for a provider that takes one system message has at most one, and every other message as it was.\<close>

theorem one_system_message:
  "length (filter is_system_message (merge_system_messages dumps ms)) = min 1 (length (filter is_system_message ms)) \<and>
   filter (\<lambda>m. \<not> is_system_message m) (merge_system_messages dumps ms) = filter (\<lambda>m. \<not> is_system_message m) ms"
  by (auto simp: merge_system_messages_def keep_first_system_spec)

lemma downgrade_final:
  "\<not> has_forced_tool_choice (fst (downgrade_forced_tool_choice p)) \<and>
   downgrade_forced_tool_choice (fst (downgrade_forced_tool_choice p)) = (fst (downgrade_forced_tool_choice p), False)"
  by (auto simp: downgrade_forced_tool_choice_def has_forced_tool_choice_def dict_get_set)

section \<open>Limits named in an error\<close>

text \<open>Without patterns: a number stands after the word \<open>limit\<close> and colons or spaces, and it goes on as long as
  there are digits and commas; the first such place counts. An axis is named by its phrase, or by its
  short form as a word of its own; per day goes before per minute, tokens before requests.\<close>

definition limit_char :: "char \<Rightarrow> bool" where
  "limit_char c \<longleftrightarrow> is_digit c \<or> c = CHR '',''"

definition limit_gap :: "char \<Rightarrow> bool" where
  "limit_gap c \<longleftrightarrow> c = CHR '':'' \<or> py_space c"

definition limit_here :: "char option \<Rightarrow> string \<Rightarrow> string option" where
  "limit_here before s =
     (if word_at before \<or> \<not> is_prefix ''limit'' s then None
      else let rest = drop 5 s; run = takeWhile limit_char (dropWhile limit_gap rest)
           in if takeWhile limit_gap rest = [] \<or> run = [] then None else Some run)"

fun limit_run :: "char option \<Rightarrow> string \<Rightarrow> string option" where
  "limit_run before [] = None"
| "limit_run before (c # cs) =
     (case limit_here before (c # cs) of Some run \<Rightarrow> Some run | None \<Rightarrow> limit_run (Some c) cs)"

definition word_in :: "string \<Rightarrow> string \<Rightarrow> bool" where
  "word_in w s \<longleftrightarrow> (\<exists>a b. s = a @ w @ b \<and> \<not> word_at (last_char None a) \<and> \<not> word_at (next_char b))"

fun mentions :: "axis \<Rightarrow> string \<Rightarrow> bool" where
  "mentions Tpd s \<longleftrightarrow> contains ''tokens per day'' s \<or> word_in ''tpd'' s"
| "mentions Tpm s \<longleftrightarrow> contains ''tokens per minute'' s \<or> word_in ''tpm'' s"
| "mentions Rpd s \<longleftrightarrow> contains ''requests per day'' s \<or> word_in ''rpd'' s"
| "mentions Rpm s \<longleftrightarrow> contains ''requests per minute'' s \<or> word_in ''rpm'' s"

definition named_axis :: "string \<Rightarrow> axis option" where
  "named_axis s = find (\<lambda>ax. mentions ax s) [Tpd, Tpm, Rpd, Rpm]"

fun hinted_limit :: "string list \<Rightarrow> unit + (axis \<times> int) option" where
  "hinted_limit [] = Inr None"
| "hinted_limit (s # ss) = (case (limit_run None s, named_axis s) of
     (Some run, Some ax) \<Rightarrow>
       (let ds = filter is_digit run
        in if ds = [] \<or> length ds > 4300 then Inl () else Inr (Some (ax, int (number_of ds))))
   | _ \<Rightarrow> hinted_limit ss)"

lemma match_text:
  "rx_match (RText w) (p, s, gs) = (if is_prefix w s then [(last_char p w, drop (length w) s, gs)] else [])"
proof (induction w arbitrary: p s)
  case (Cons c w)
  then show ?case by (cases s) auto
qed simp

text \<open>A greedy repetition tries the longest run first; after any shorter one the next character still fits.\<close>

lemma many_states_first:
  "\<exists>rest. many_states P p s = (last_char p (takeWhile P s), dropWhile P s) # rest \<and>
     (\<forall>(q, t)\<in>set rest. \<exists>c t'. t = c # t' \<and> P c)"
proof (induction P p s rule: many_states.induct)
  case (2 P p c cs)
  then show ?case by (cases "P c") auto
qed simp

lemma first_groups_dead:
  "(\<And>x. x \<in> set rest \<Longrightarrow> f x = []) \<Longrightarrow> first_groups (concat (map f (y # rest))) = first_groups (f y)"
proof -
  assume "\<And>x. x \<in> set rest \<Longrightarrow> f x = []"
  then have "concat (map f rest) = []" by simp
  then show ?thesis by (simp only: list.map concat.simps append_Nil2)
qed

definition number_group :: regex where
  "number_group = RSeq (RGroup 1 (RSome limit_char)) REmpty"

lemma number_group_match:
  "first_groups (rx_match number_group (p, s, [])) = (if takeWhile limit_char s = [] then None
     else Some [(1, takeWhile limit_char s)])"
  "rx_match number_group (p, s, gs) = [] \<longleftrightarrow> takeWhile limit_char s = []"
proof -
  have "first_groups (rx_match number_group (p, s, [])) = (if takeWhile limit_char s = [] then None
     else Some [(1, takeWhile limit_char s)]) \<and>
    (rx_match number_group (p, s, gs) = [] \<longleftrightarrow> takeWhile limit_char s = [])"
  proof (cases s)
    case (Cons c cs)
    show ?thesis
    proof (cases "limit_char c")
      case True
      obtain rest where r: "many_states limit_char (Some c) cs =
          (last_char (Some c) (takeWhile limit_char cs), dropWhile limit_char cs) # rest"
        using many_states_first by blast
      have "take (length s - length (dropWhile limit_char cs)) s = takeWhile limit_char s"
      proof -
        have "s = takeWhile limit_char s @ dropWhile limit_char cs" using Cons True by simp
        then show ?thesis by (metis append_eq_conv_conj append_take_drop_id length_append add_diff_cancel_right')
      qed
      with True Cons r show ?thesis by (simp add: number_group_def)
    qed (use Cons in \<open>simp add: number_group_def\<close>)
  qed (simp add: number_group_def)
  then show "first_groups (rx_match number_group (p, s, [])) = (if takeWhile limit_char s = [] then None
     else Some [(1, takeWhile limit_char s)])"
    and "rx_match number_group (p, s, gs) = [] \<longleftrightarrow> takeWhile limit_char s = []" by blast+
qed

lemma limit_value_parts:
  "LIMIT_VALUE = RSeq RBoundary (RSeq (RText ''limit'') (RSeq (RSome limit_gap) number_group))"
proof -
  have "(\<lambda>c. is_digit c \<or> c = CHR '','') = limit_char" "(\<lambda>c. c = CHR '':'' \<or> py_space c) = limit_gap"
    by (simp_all add: limit_char_def limit_gap_def fun_eq_iff)
  then show ?thesis by (simp add: LIMIT_VALUE_def number_group_def)
qed

lemma gap_no_number: "limit_gap c \<Longrightarrow> \<not> limit_char c"
  by (auto simp: limit_char_def limit_gap_def is_digit_def py_space_def Let_def)

lemma gap_match:
  "first_groups (rx_match (RSeq (RSome limit_gap) number_group) (p, s, [])) =
     (let run = takeWhile limit_char (dropWhile limit_gap s)
      in if takeWhile limit_gap s = [] \<or> run = [] then None else Some [(1, run)])"
proof (cases "s = [] \<or> \<not> limit_gap (hd s)")
  case True
  then show ?thesis by (cases s) (simp_all add: Let_def)
next
  case False
  then obtain c cs where s: "s = c # cs" "limit_gap c" by (cases s) auto
  obtain rest where r: "many_states limit_gap (Some c) cs =
      (last_char (Some c) (takeWhile limit_gap cs), dropWhile limit_gap cs) # rest"
    and dead: "\<forall>(q, t)\<in>set rest. \<exists>c t'. t = c # t' \<and> limit_gap c" using many_states_first by blast
  let ?f = "\<lambda>(q, t). rx_match number_group (q, t, [])"
  have "?f x = []" if "x \<in> set rest" for x
  proof -
    obtain q t where x: "x = (q, t)" by fastforce
    with dead that obtain d t' where "t = d # t'" "limit_gap d" by blast
    with x show ?thesis using gap_no_number by (simp add: number_group_match(2))
  qed
  then have "first_groups (concat (map ?f ((last_char (Some c) (takeWhile limit_gap cs), dropWhile limit_gap cs) # rest))) =
      first_groups (?f (last_char (Some c) (takeWhile limit_gap cs), dropWhile limit_gap cs))"
    by (rule first_groups_dead)
  moreover have "rx_match (RSeq (RSome limit_gap) number_group) (p, s, []) = concat (map ?f (many_states limit_gap (Some c) cs))"
    using s by (simp add: comp_def case_prod_beta')
  ultimately show ?thesis using s by (simp add: r number_group_match(1) Let_def)
qed

lemma limit_match:
  "first_groups (rx_match LIMIT_VALUE (p, s, [])) = map_option (\<lambda>run. [(1, run)]) (limit_here p s)"
proof (cases "is_prefix ''limit'' s")
  case False
  then show ?thesis by (simp add: limit_value_parts match_text limit_here_def del: RText.simps rx_match.simps(1))
next
  case True
  then obtain t where t: "s = ''limit'' @ t" by (auto simp: is_prefix_iff)
  have word: "word_at (next_char s)" unfolding t by (simp add: next_char_def) code_simp
  have "rx_match (RSeq (RText ''limit'') r) (p, s, []) = rx_match r (last_char p ''limit'', t, [])" for r
    using True t by (simp add: match_text del: RText.simps)
  then have "rx_match LIMIT_VALUE (p, s, []) = (if word_at p then []
      else rx_match (RSeq (RSome limit_gap) number_group) (last_char p ''limit'', t, []))"
    using word by (simp add: limit_value_parts del: RText.simps)
  then show ?thesis using True t by (simp add: gap_match limit_here_def Let_def del: rx_match.simps)
qed

lemma limit_search: "rx_search LIMIT_VALUE s = map_option (\<lambda>run. [(1, run)]) (limit_run None s)"
proof -
  have "rx_from LIMIT_VALUE p s = map_option (\<lambda>run. [(1, run)]) (limit_run p s)" for p
    by (induction s arbitrary: p) (simp_all add: limit_match limit_here_def del: rx_match.simps split: option.split)
  then show ?thesis by (simp add: rx_search_def)
qed

lemma word_in_fits:
  assumes "w \<noteq> []" and "word_char (hd w)" and "word_char (last w)"
  shows "fits (RSeqs [RBoundary, RText w, RBoundary]) p u t \<longleftrightarrow> u = w \<and> \<not> word_at p \<and> \<not> word_at (next_char t)"
proof -
  obtain c cs where w: "w = c # cs" using assms(1) by (cases w) auto
  have start: "word_at (next_char (w @ t))" using assms(2) w by (simp add: next_char_def word_at_def)
  have stop: "word_at (last_char p w)" using assms by (simp add: last_char_def word_at_def)
  have "fits (RSeqs [RBoundary, RText w, RBoundary]) p u t \<longleftrightarrow>
      u = w \<and> word_at p \<noteq> word_at (next_char (w @ t)) \<and> word_at (last_char p w) \<noteq> word_at (next_char t)"
    by (auto simp: fits_text simp del: RText.simps)
  with start stop show ?thesis by simp
qed

lemma axis_search:
  assumes "w \<noteq> []" and "word_char (hd w)" and "word_char (last w)"
  shows "rx_search (axis_pattern phrase w) s \<noteq> None \<longleftrightarrow> contains phrase s \<or> word_in w s"
  unfolding rx_search_exact axis_pattern_def fits.simps(4) fits_text word_in_fits[OF assms] contains_iff word_in_def by blast

lemma axis_named: "first_axis AXIS_PATTERNS s = named_axis s"
proof -
  have "\<forall>w\<in>set [''tpd'', ''tpm'', ''rpd'', ''rpm'']. w \<noteq> [] \<and> word_char (hd w) \<and> word_char (last w)" by code_simp
  then have "rx_search (axis_pattern phrase w) s \<noteq> None \<longleftrightarrow> contains phrase s \<or> word_in w s"
    if "w \<in> set [''tpd'', ''tpm'', ''rpd'', ''rpm'']" for phrase w
    using that axis_search by blast
  then show ?thesis by (simp only: AXIS_PATTERNS_def first_axis.simps named_axis_def find.simps mentions.simps list.set_intros)
qed

text \<open>C20: the limit an error names is the one of its first text that has both a number after the word \<open>limit\<close>
  and an axis, read from the digits of that number; reading it raises when there is no digit or when there are
  more than 4300.\<close>

theorem limit_hint_read: "parse_learned_limit_from_error d = hinted_limit (signals_of d)"
proof -
  have run: "list_all limit_char r" if "limit_run p s = Some r" for p s r
    using that by (induction p s rule: limit_run.induct)
      (auto simp: limit_here_def Let_def list_all_iff dest: set_takeWhileD split: option.splits if_splits)
  have "filter (\<lambda>c. c \<noteq> CHR '','') r = filter is_digit r" if "list_all limit_char r" for r
    using that by (intro filter_cong) (auto simp: list_all_iff limit_char_def is_digit_def)
  then have number: "limit_number r = (let ds = filter is_digit r
      in if ds = [] \<or> length ds > 4300 then Inl () else Inr (int (number_of ds)))" if "limit_run p s = Some r" for p s r
    using run[OF that] by (simp add: limit_number_def)
  have "learned_limit ss = hinted_limit ss" for ss
    by (induction ss) (auto simp: limit_search axis_named number dict_default_def Let_def split: option.split)
  then show ?thesis by (simp add: parse_learned_limit_from_error_def)
qed

end
