(* ===== verification/Ratelimit_Headers.thy ===== *)
theory Ratelimit_Headers
  imports Text_Matching Routing_Data "HOL-Library.Code_Target_Nat" "HOL-Library.Code_Target_Int"
begin

text \<open>
  The rate-limit headers of upstream answers (\<open>services/ratelimit_headers.py\<close>): durations, counts and
  epoch milliseconds, and the observations made of them for each provider. The host name is what
  \<open>urlsplit\<close> makes of the target address.

  \<open>Inl ()\<close> is an exception: a conversion the code does not guard.
\<close>

section \<open>Numbers in texts\<close>

text \<open>Digits with single underscores between them, as \<open>int()\<close> and \<open>float()\<close> take them.\<close>

fun digit_group :: "string \<Rightarrow> string option" where
  "digit_group [] = None"
| "digit_group [c] = (if is_digit c then Some [c] else None)"
| "digit_group (c # CHR ''_'' # cs) = (if is_digit c then map_option (\<lambda>ds. c # ds) (digit_group cs) else None)"
| "digit_group (c # d # cs) = (if is_digit c then map_option (\<lambda>ds. c # ds) (digit_group (d # cs)) else None)"

fun signed :: "string \<Rightarrow> bool \<times> string" where
  "signed (CHR ''-'' # s) = (True, s)"
| "signed (CHR ''+'' # s) = (False, s)"
| "signed s = (False, s)"

text \<open>\<open>int(s)\<close>; more than 4300 digits are refused with the same \<open>ValueError\<close>.\<close>

definition int_of_text :: "string \<Rightarrow> int option" where
  "int_of_text s = (case signed (py_strip s) of (neg, t) \<Rightarrow>
     (case digit_group t of
        None \<Rightarrow> None
      | Some ds \<Rightarrow> if length ds > 4300 then None
                   else Some (if neg then - int (number_of ds) else int (number_of ds))))"

definition float_value :: "rat \<Rightarrow> py_num" where
  "float_value x = (if float_overflow x then (if x < 0 then PyNegInf else PyInf) else PyFloat x)"

fun split_first :: "(char \<Rightarrow> bool) \<Rightarrow> string \<Rightarrow> string \<times> string option" where
  "split_first P [] = ([], None)"
| "split_first P (c # cs) = (if P c then ([], Some cs) else (case split_first P cs of (a, b) \<Rightarrow> (c # a, b)))"

definition optional_group :: "string \<Rightarrow> string option" where
  "optional_group s = (if s = [] then Some [] else digit_group s)"

text \<open>The value of a decimal text without a sign.\<close>

definition decimal_value :: "string \<Rightarrow> rat option" where
  "decimal_value t = (case split_first (\<lambda>c. c = CHR ''e'') t of (m, ex) \<Rightarrow>
     (case split_first (\<lambda>c. c = CHR ''.'') m of (ip, fp) \<Rightarrow>
       (case (optional_group ip, optional_group (case fp of None \<Rightarrow> [] | Some f \<Rightarrow> f)) of
          (Some a, Some b) \<Rightarrow>
            if a = [] \<and> b = [] then None
            else let x = of_nat (number_of (a @ b)) / 10 ^ length b
                 in (case ex of
                       None \<Rightarrow> Some x
                     | Some e \<Rightarrow> (case signed e of (neg, u) \<Rightarrow>
                         (case digit_group u of
                            None \<Rightarrow> None
                          | Some ds \<Rightarrow> Some (if neg then x / 10 ^ number_of ds else x * 10 ^ number_of ds))))
        | _ \<Rightarrow> None)))"

definition float_of_text :: "string \<Rightarrow> py_num option" where
  "float_of_text s = (case signed (py_lower (py_strip s)) of (neg, t) \<Rightarrow>
     if t = ''inf'' \<or> t = ''infinity'' then Some (if neg then PyNegInf else PyInf)
     else if t = ''nan'' then Some PyNan
     else map_option (\<lambda>x. float_value (if neg then - x else x)) (decimal_value t))"

text \<open>Float addition of a finite number or an infinity that is not negative, and of a finite reading.\<close>

fun add_float :: "py_num \<Rightarrow> py_num \<Rightarrow> py_num" where
  "add_float (PyFloat x) (PyFloat y) = float_value (x + y)"
| "add_float PyNan v = PyNan"
| "add_float v PyNan = PyNan"
| "add_float PyInf PyNegInf = PyNan"
| "add_float PyNegInf PyInf = PyNan"
| "add_float PyInf v = PyInf"
| "add_float v PyInf = PyInf"
| "add_float PyNegInf v = PyNegInf"
| "add_float v PyNegInf = PyNegInf"
| "add_float v w = PyOther"

section \<open>Durations\<close>

definition DURATION :: regex where
  "DURATION = RSeqs [ROpt (RSeqs [RGroup 1 (RSome is_digit), RText ''h'']),
     ROpt (RSeqs [RGroup 2 (RSome is_digit), RText ''m'']),
     ROpt (RSeqs [RGroup 3 (RSeq (RSome is_digit) (ROpt (RSeqs [RText ''.'', RSome is_digit]))), RText ''s'']), REnd]"

text \<open>\<open>int(digits) * unit\<close>: too many digits, or an integer too large for a float, raise.\<close>

definition whole_units :: "rat \<Rightarrow> string option \<Rightarrow> unit + py_num" where
  "whole_units unit g = (case g of
     None \<Rightarrow> Inr (PyFloat 0)
   | Some ds \<Rightarrow> if length ds > 4300 \<or> float_overflow (of_nat (number_of ds)) then Inl ()
                else Inr (float_value (of_nat (number_of ds) * unit)))"

definition seconds_part :: "string option \<Rightarrow> py_num" where
  "seconds_part g = (case g of None \<Rightarrow> PyFloat 0 | Some s \<Rightarrow> (case float_of_text s of None \<Rightarrow> PyOther | Some v \<Rightarrow> v))"

definition parse_reset_duration_seconds :: "string \<Rightarrow> unit + py_num option" where
  "parse_reset_duration_seconds raw =
     (let t = py_strip raw
      in if t = [] then Inr None
         else case rx_here DURATION t of
           Some (g # gs) \<Rightarrow>
             (case whole_units 3600 (dict_get (g # gs) 1) of
                Inl e \<Rightarrow> Inl e
              | Inr h \<Rightarrow> (case whole_units 60 (dict_get (g # gs) 2) of
                  Inl e \<Rightarrow> Inl e
                | Inr m \<Rightarrow> Inr (Some (add_float (add_float h m) (seconds_part (dict_get (g # gs) 3))))))
         | _ \<Rightarrow> Inr (float_of_text t))"

section \<open>Observations\<close>

record limit_observation =
  lo_axis :: axis
  lo_limit :: "int option"
  lo_remaining :: "int option"
  lo_reset_at :: "py_num option"

definition parse_int :: "string option \<Rightarrow> int option" where
  "parse_int raw = (case raw of None \<Rightarrow> None | Some s \<Rightarrow> if py_strip s = [] then None else int_of_text (py_strip s))"

definition build_observation :: "axis \<Rightarrow> string option \<Rightarrow> string option \<Rightarrow> py_num option \<Rightarrow> limit_observation option" where
  "build_observation ax limit_raw remaining_raw reset_at =
     (let limit = parse_int limit_raw; remaining = map_option (max 0) (parse_int remaining_raw)
      in if limit = None \<and> remaining = None \<and> reset_at = None then None
         else Some \<lparr>lo_axis = ax, lo_limit = limit, lo_remaining = remaining, lo_reset_at = reset_at\<rparr>)"

definition reset_at_from_duration :: "string option \<Rightarrow> rat \<Rightarrow> unit + py_num option" where
  "reset_at_from_duration raw now = (case raw of
     None \<Rightarrow> Inr None
   | Some s \<Rightarrow> (case parse_reset_duration_seconds s of
       Inl e \<Rightarrow> Inl e
     | Inr None \<Rightarrow> Inr None
     | Inr (Some v) \<Rightarrow> Inr (Some (add_float (PyFloat now) v))))"

definition MIN_PLAUSIBLE_EPOCH_MILLIS :: int where "MIN_PLAUSIBLE_EPOCH_MILLIS = 1000000000000"

definition reset_at_from_epoch_millis :: "string option \<Rightarrow> rat \<Rightarrow> rat \<Rightarrow> unit + py_num option" where
  "reset_at_from_epoch_millis raw now wall = (case raw of
     None \<Rightarrow> Inr None
   | Some s \<Rightarrow>
       if py_strip s = [] then Inr None
       else case int_of_text (py_strip s) of
         None \<Rightarrow> Inr None
       | Some n \<Rightarrow> if n < MIN_PLAUSIBLE_EPOCH_MILLIS then Inr None
                   else if float_overflow (of_int n) then Inl ()
                   else Inr (Some (add_float (add_float (PyFloat (of_int n / 1000)) (PyFloat (- wall))) (PyFloat now))))"

type_synonym headers = "(string, string) dict"

definition duration_observation :: "headers \<Rightarrow> rat \<Rightarrow> axis \<Rightarrow> string \<Rightarrow> unit + limit_observation list" where
  "duration_observation hs now ax name = (case reset_at_from_duration (dict_get hs (''x-ratelimit-reset-'' @ name)) now of
     Inl e \<Rightarrow> Inl e
   | Inr reset_at \<Rightarrow> Inr (case build_observation ax (dict_get hs (''x-ratelimit-limit-'' @ name))
         (dict_get hs (''x-ratelimit-remaining-'' @ name)) reset_at of None \<Rightarrow> [] | Some ob \<Rightarrow> [ob]))"

definition both_observations :: "unit + limit_observation list \<Rightarrow> unit + limit_observation list \<Rightarrow> unit + limit_observation list" where
  "both_observations a b = (case a of Inl e \<Rightarrow> Inl e | Inr xs \<Rightarrow> (case b of Inl e \<Rightarrow> Inl e | Inr ys \<Rightarrow> Inr (xs @ ys)))"

definition parse_groq_headers :: "headers \<Rightarrow> rat \<Rightarrow> unit + limit_observation list" where
  "parse_groq_headers hs now =
     both_observations (duration_observation hs now Rpm ''requests'') (duration_observation hs now Tpm ''tokens'')"

definition parse_cerebras_headers :: "headers \<Rightarrow> rat \<Rightarrow> unit + limit_observation list" where
  "parse_cerebras_headers hs now =
     both_observations (duration_observation hs now Rpd ''requests-day'') (duration_observation hs now Tpm ''tokens-minute'')"

definition parse_openrouter_headers :: "headers \<Rightarrow> rat \<Rightarrow> rat \<Rightarrow> unit + limit_observation list" where
  "parse_openrouter_headers hs now wall = (case reset_at_from_epoch_millis (dict_get hs ''x-ratelimit-reset'') now wall of
     Inl e \<Rightarrow> Inl e
   | Inr reset_at \<Rightarrow> Inr (case build_observation Rpd (dict_get hs ''x-ratelimit-limit'') (dict_get hs ''x-ratelimit-remaining'') reset_at
         of None \<Rightarrow> [] | Some ob \<Rightarrow> [ob]))"

definition normalized_headers :: "headers \<Rightarrow> headers" where
  "normalized_headers hs = fold (\<lambda>(k, v). dict_set (py_lower k) v) hs []"

definition parse_ratelimit_headers :: "string option \<Rightarrow> headers \<Rightarrow> rat \<Rightarrow> rat \<Rightarrow> unit + limit_observation list" where
  "parse_ratelimit_headers hostname hs now wall =
     (if hostname = Some ''api.groq.com'' then parse_groq_headers (normalized_headers hs) now
      else if hostname = Some ''api.cerebras.ai'' then parse_cerebras_headers (normalized_headers hs) now
      else if hostname = Some ''openrouter.ai'' then parse_openrouter_headers (normalized_headers hs) now wall
      else Inr [])"

end
