(* ===== verification/Header_Guarantees.thy ===== *)
theory Header_Guarantees
  imports Ratelimit_Headers
begin

text \<open>
  What holds of the header parsers (\<open>services/ratelimit_headers.py\<close>): a duration written in hours,
  minutes and seconds is read as the seconds it means, durations that are too large raise, and the
  observations of one answer are about different axes and have no negative remainder.
\<close>

section \<open>Runs of digits\<close>

lemma digit_plain:
  assumes "is_digit c"
  shows "\<not> py_space c" and "py_lower_char c = c" and "c \<notin> {CHR ''h'', CHR ''m'', CHR ''s'', CHR ''.'', CHR ''e'', CHR ''-'', CHR ''+'', CHR ''_'', CHR ''i'', CHR ''n''}"
  using assms by (auto simp: is_digit_def py_space_def py_lower_char_def Let_def)

lemma concat_many:
  assumes "list_all P ds" and "\<not> P c" and "\<And>p d s. P d \<Longrightarrow> f (p, d # s) = []"
  shows "concat (map f (many_states P p (ds @ c # t))) = f (last_char p ds, c # t)"
  using assms(1,2) by (induction ds arbitrary: p) (simp_all add: assms(3))

lemma match_empty [simp]: "concat (map (rx_match REmpty) sts) = sts"
  by (induction sts) simp_all

lemma bind_assoc: "concat (map f (concat (map g xs))) = concat (map (\<lambda>x. concat (map f (g x))) xs)"
  by (induction xs) simp_all

lemma number_unit:
  assumes ds: "list_all is_digit ds" "ds \<noteq> []" and c: "\<not> is_digit c"
  shows "rx_match (RSeqs [RGroup k (RSome is_digit), RText [c]]) (p, ds @ c # t, gs) = [(Some c, t, dict_set k ds gs)]"
proof -
  obtain d es where d: "ds = d # es" using ds(2) by (cases ds) auto
  have dg: "is_digit d" "list_all is_digit es" using ds(1) d by simp_all
  define f where "f = (\<lambda>x. case x of (p', s') \<Rightarrow> rx_match (RText [c]) (p', s', dict_set k (take (length (ds @ c # t) - length s') (ds @ c # t)) gs))"
  have "f (p', e # s') = []" if "is_digit e" for p' e s' using that c by (auto simp: f_def)
  then have "concat (map f (many_states is_digit (Some d) (es @ c # t))) = f (last_char (Some d) es, c # t)"
    by (intro concat_many[where P = is_digit] dg(2) c)
  also have "\<dots> = [(Some c, t, dict_set k ds gs)]" by (simp add: f_def d)
  finally have "concat (map f (many_states is_digit (Some d) (es @ c # t))) = [(Some c, t, dict_set k ds gs)]" .
  moreover have "rx_match (RSeqs [RGroup k (RSome is_digit), RText [c]]) (p, ds @ c # t, gs) =
      concat (map f (many_states is_digit (Some d) (es @ c # t)))"
    using dg(1) by (simp add: d f_def comp_def split_beta)
  ultimately show ?thesis by simp
qed

lemma digit_group_digits: "list_all is_digit ds \<Longrightarrow> ds \<noteq> [] \<Longrightarrow> digit_group ds = Some ds"
proof (induction ds rule: digit_group.induct)
  case (3 c cs)
  then show ?case using digit_plain(3)[of "CHR ''_''"] by simp
qed auto

lemma number_point_seconds:
  assumes a: "list_all is_digit a" "a \<noteq> []" and b: "list_all is_digit b" "b \<noteq> []"
  shows "rx_match (RSeqs [RGroup k (RSeq (RSome is_digit) (ROpt (RSeqs [RText ''.'', RSome is_digit]))), RText ''s''])
    (p, a @ CHR ''.'' # b @ [CHR ''s''], gs) = [(Some (CHR ''s''), [], dict_set k (a @ CHR ''.'' # b) gs)]"
proof -
  obtain d es where d: "a = d # es" using a(2) by (cases a) auto
  obtain e fs where e: "b = e # fs" using b(2) by (cases b) auto
  have dg: "is_digit d" "list_all is_digit es" "is_digit e" "list_all is_digit fs" using a(1) b(1) d e by simp_all
  have no: "\<not> is_digit (CHR ''.'')" "\<not> is_digit (CHR ''s'')" by code_simp+
  let ?s = "a @ CHR ''.'' # b @ [CHR ''s'']"
  define out where "out = (\<lambda>(s' :: string) h. dict_set k (take (length ?s - length s') ?s) h)"
  define g where "g = (\<lambda>x. case x of (p', s') \<Rightarrow> rx_match (RText ''s'') (p', s', out s' gs))"
  have g: "concat (map g (many_states is_digit (Some e) (fs @ CHR ''s'' # []))) = g (last_char (Some e) fs, [CHR ''s''])"
    by (rule concat_many[where P = is_digit]) (use dg(4) no(2) in \<open>auto simp: g_def\<close>)
  also have "\<dots> = [(Some (CHR ''s''), [], dict_set k (a @ CHR ''.'' # b) gs)]" by (simp add: g_def out_def d e)
  finally have tail: "concat (map g (many_states is_digit (Some e) (fs @ [CHR ''s'']))) = [(Some (CHR ''s''), [], dict_set k (a @ CHR ''.'' # b) gs)]" .
  define f where "f = (\<lambda>x. case x of (p', s') \<Rightarrow>
    concat (map (\<lambda>y. rx_match (RText ''s'') (fst y, fst (snd y), out (fst (snd y)) (snd (snd y)))) (rx_match (ROpt (RSeqs [RText ''.'', RSome is_digit])) (p', s', gs))))"
  have "concat (map f (many_states is_digit (Some d) (es @ CHR ''.'' # (b @ [CHR ''s''])))) = f (last_char (Some d) es, CHR ''.'' # b @ [CHR ''s''])"
    by (rule concat_many[where P = is_digit]) (use dg(2) no in \<open>auto simp: f_def\<close>)
  also have "\<dots> = concat (map g (many_states is_digit (Some e) (fs @ [CHR ''s''])))"
    using dg(3) by (simp add: f_def g_def e comp_def split_beta cong: if_cong list.case_cong)
  finally have "concat (map f (many_states is_digit (Some d) (es @ CHR ''.'' # b @ [CHR ''s'']))) =
      [(Some (CHR ''s''), [], dict_set k (a @ CHR ''.'' # b) gs)]" using tail by simp
  moreover have "rx_match (RSeqs [RGroup k (RSeq (RSome is_digit) (ROpt (RSeqs [RText ''.'', RSome is_digit]))), RText ''s'']) (p, ?s, gs) =
      concat (map f (many_states is_digit (Some d) (es @ CHR ''.'' # b @ [CHR ''s''])))"
    using dg(1) by (simp add: d f_def out_def comp_def split_beta bind_assoc cong: if_cong list.case_cong)
  ultimately show ?thesis by simp
qed

lemma first_groups_append: "first_groups (sts @ rest) = (case first_groups sts of Some gs \<Rightarrow> Some gs | None \<Rightarrow> first_groups rest)"
  by (cases sts rule: first_groups.cases) simp_all

lemma optional_step:
  "rx_match r st = [st1] \<Longrightarrow> first_groups (rx_match (RSeqs rs) st1) = Some gs \<Longrightarrow>
     first_groups (rx_match (RSeqs (ROpt r # rs)) st) = Some gs"
  by (simp add: first_groups_append)

text \<open>Hours, minutes and seconds with a fraction.\<close>

definition duration_text :: "string \<Rightarrow> string \<Rightarrow> string \<Rightarrow> string \<Rightarrow> string" where
  "duration_text h m a b = h @ CHR ''h'' # m @ CHR ''m'' # a @ CHR ''.'' # b @ [CHR ''s'']"

definition digit_run :: "string \<Rightarrow> bool" where
  "digit_run s \<longleftrightarrow> list_all is_digit s \<and> s \<noteq> []"

lemma duration_groups:
  assumes "digit_run h" "digit_run m" "digit_run a" "digit_run b"
  shows "rx_here DURATION (duration_text h m a b) = Some [(1, h), (2, m), (3, a @ CHR ''.'' # b)]"
proof -
  have no: "\<not> is_digit (CHR ''h'')" "\<not> is_digit (CHR ''m'')" by code_simp+
  let ?C = "RSeqs [RGroup 3 (RSeq (RSome is_digit) (ROpt (RSeqs [RText ''.'', RSome is_digit]))), RText ''s'']"
  let ?B = "RSeqs [RGroup 2 (RSome is_digit), RText ''m'']" and ?A = "RSeqs [RGroup 1 (RSome is_digit), RText ''h'']"
  let ?s3 = "a @ CHR ''.'' # b @ [CHR ''s'']"
  let ?s2 = "m @ CHR ''m'' # ?s3"
  have "first_groups (rx_match (RSeqs [REnd]) (p, [], gs)) = Some gs" for p gs by simp
  from optional_step[OF number_point_seconds this, of a b 3]
  have C: "first_groups (rx_match (RSeqs [ROpt ?C, REnd]) (p, ?s3, gs)) = Some (dict_set 3 (a @ CHR ''.'' # b) gs)" for p gs
    using assms unfolding digit_run_def by blast
  from optional_step[OF number_unit this, of m "CHR ''m''" 2]
  have B: "first_groups (rx_match (RSeqs [ROpt ?B, ROpt ?C, REnd]) (p, ?s2, gs)) =
      Some (dict_set 3 (a @ CHR ''.'' # b) (dict_set 2 m gs))" for p gs
    using assms no(2) unfolding digit_run_def by blast
  from optional_step[OF number_unit this, of h "CHR ''h''" 1]
  have "first_groups (rx_match (RSeqs [ROpt ?A, ROpt ?B, ROpt ?C, REnd]) (None, h @ CHR ''h'' # ?s2, [])) =
      Some (dict_set 3 (a @ CHR ''.'' # b) (dict_set 2 m (dict_set 1 h [])))"
    using assms no(1) unfolding digit_run_def by blast
  then show ?thesis by (simp add: rx_here_def DURATION_def duration_text_def)
qed

lemma strip_plain:
  assumes "s = c # t" "s = u @ [d]" and "\<not> py_space c" "\<not> py_space d" shows "py_strip s = s"
proof -
  have "dropWhile py_space s = s" using assms(1,3) by simp
  moreover have "dropWhile py_space (rev s) = rev s" using assms(2,4) by simp
  ultimately show ?thesis by (simp add: py_strip_def)
qed

lemma split_at:
  "list_all (\<lambda>c. \<not> P c) s \<Longrightarrow> split_first P s = (s, None)"
  "list_all (\<lambda>c. \<not> P c) s \<Longrightarrow> P c \<Longrightarrow> split_first P (s @ c # t) = (s, Some t)"
  by (induction s) auto

lemma plain_decimal:
  assumes a: "digit_run a" and b: "digit_run b"
  shows "float_of_text (a @ CHR ''.'' # b) = Some (float_value (of_nat (number_of (a @ b)) / 10 ^ length b))"
proof -
  let ?s = "a @ CHR ''.'' # b"
  obtain d es where d: "a = d # es" "is_digit d" using a by (cases a) (auto simp: digit_run_def)
  obtain gs z where z: "b = gs @ [z]" "is_digit z" using b by (cases b rule: rev_cases) (auto simp: digit_run_def)
  have strip: "py_strip ?s = ?s"
    by (rule strip_plain[of _ d "es @ CHR ''.'' # b" "a @ CHR ''.'' # gs" z]) (simp_all add: d z digit_plain)
  have dot: "py_lower_char (CHR ''.'') = CHR ''.''" by code_simp
  have "map py_lower_char xs = xs" if "list_all is_digit xs" for xs
    using that by (intro map_idI) (simp add: list_all_iff digit_plain)
  then have lower: "py_lower ?s = ?s" using a b dot by (simp add: py_lower_def digit_run_def)
  have "signed (c # t) = (False, c # t)" if "c \<noteq> CHR ''-''" "c \<noteq> CHR ''+''" for c t
    using that by (cases "c # t" rule: signed.cases) auto
  then have sg: "signed ?s = (False, ?s)" using digit_plain(3)[OF d(2)] by (simp add: d(1))
  have no: "?s \<noteq> ''inf''" "?s \<noteq> ''infinity''" "?s \<noteq> ''nan''" using digit_plain(3)[OF d(2)] by (auto simp: d(1))
  have cls: "list_all (\<lambda>c. c \<noteq> CHR ''e'' \<and> c \<noteq> CHR ''.'') a" "list_all (\<lambda>c. c \<noteq> CHR ''e'' \<and> c \<noteq> CHR ''.'') b"
    using a b digit_plain(3) by (force simp: digit_run_def list_all_iff)+
  have "list_all (\<lambda>c. c \<noteq> CHR ''e'') ?s" using cls by (auto simp: list_all_iff)
  then have "split_first (\<lambda>c. c = CHR ''e'') ?s = (?s, None)" by (intro split_at(1)) simp
  moreover have "split_first (\<lambda>c. c = CHR ''.'') ?s = (a, Some b)" using cls by (intro split_at(2)) (simp_all add: list_all_iff)
  moreover have "optional_group a = Some a" "optional_group b = Some b"
    using a b by (auto simp: optional_group_def digit_group_digits digit_run_def)
  ultimately have "decimal_value ?s = Some (of_nat (number_of (a @ b)) / 10 ^ length b)"
    using d(1) by (simp add: decimal_value_def)
  then show ?thesis by (simp add: float_of_text_def strip lower sg no)
qed

lemma add_float_values:
  assumes "0 \<le> x" and "0 \<le> y" shows "add_float (float_value x) (float_value y) = float_value (x + y)"
proof -
  have "float_overflow x \<or> float_overflow y \<Longrightarrow> float_overflow (x + y)"
    using float_overflow_mono[of x "x + y"] float_overflow_mono[of y "x + y"] assms by auto
  moreover have "float_value x = (if float_overflow x then PyInf else PyFloat x)" "float_value y = (if float_overflow y then PyInf else PyFloat y)"
    "float_value (x + y) = (if float_overflow (x + y) then PyInf else PyFloat (x + y))"
    using assms by (auto simp: float_value_def)
  ultimately show ?thesis by (auto simp: float_value_def)
qed

text \<open>C36: a duration in hours, minutes and seconds is read as the seconds it means; one whose hours
  or minutes do not fit a float, or have more digits than \<open>int\<close> takes, raises.\<close>

theorem duration_read:
  assumes "digit_run h" "digit_run m" "digit_run a" "digit_run b"
  shows "parse_reset_duration_seconds (duration_text h m a b) =
    (if length h > 4300 \<or> length m > 4300 \<or> float_overflow (of_nat (number_of h)) \<or> float_overflow (of_nat (number_of m)) then Inl ()
     else Inr (Some (float_value (3600 * of_nat (number_of h) + 60 * of_nat (number_of m) +
       of_nat (number_of (a @ b)) / 10 ^ length b))))"
proof -
  let ?t = "duration_text h m a b"
  obtain d es where d: "h = d # es" "is_digit d" using assms(1) by (cases h) (auto simp: digit_run_def)
  have "\<not> py_space (CHR ''s'')" by code_simp
  then have strip: "py_strip ?t = ?t"
    by (intro strip_plain[of _ d "es @ CHR ''h'' # m @ CHR ''m'' # a @ CHR ''.'' # b @ [CHR ''s'']"
          "h @ CHR ''h'' # m @ CHR ''m'' # a @ CHR ''.'' # b" "CHR ''s''"]) (simp_all add: d duration_text_def digit_plain)
  have "?t \<noteq> []" by (simp add: duration_text_def)
  then show ?thesis
    by (auto simp: parse_reset_duration_seconds_def strip duration_groups[OF assms(1-4)] whole_units_def
        seconds_part_def plain_decimal[OF assms(3,4)] add_float_values mult.commute)
qed

lemma duration_read_witness:
  "parse_reset_duration_seconds ''1h02m03.50s'' = Inr (Some (PyFloat (7447 / 2)))"
proof -
  have "duration_text ''1'' ''02'' ''03'' ''50'' = ''1h02m03.50s'' \<and> digit_run ''1'' \<and> digit_run ''02'' \<and> digit_run ''03'' \<and>
      digit_run ''50'' \<and> \<not> length ''1'' > 4300 \<and> \<not> length ''02'' > 4300 \<and>
      \<not> float_overflow (of_nat (number_of ''1'')) \<and> \<not> float_overflow (of_nat (number_of ''02'')) \<and>
      float_value (3600 * of_nat (number_of ''1'') + 60 * of_nat (number_of ''02'') + of_nat (number_of (''03'' @ ''50'')) / 10 ^ length ''50'')
        = PyFloat (7447 / 2)" by code_simp
  then show ?thesis using duration_read[of "''1''" "''02''" "''03''" "''50''"] by metis
qed

text \<open>The observations of one answer are about different axes, name something, and have no negative remainder.\<close>

definition plausible :: "limit_observation \<Rightarrow> bool" where
  "plausible ob \<longleftrightarrow> (case lo_remaining ob of None \<Rightarrow> True | Some n \<Rightarrow> 0 \<le> n) \<and>
     (lo_limit ob \<noteq> None \<or> lo_remaining ob \<noteq> None \<or> lo_reset_at ob \<noteq> None)"

definition one_axis :: "axis \<Rightarrow> limit_observation list \<Rightarrow> bool" where
  "one_axis ax xs \<longleftrightarrow> list_all plausible xs \<and> map lo_axis xs \<in> {[], [ax]}"

lemma built_axis: "one_axis ax (case build_observation ax l r t of None \<Rightarrow> [] | Some ob \<Rightarrow> [ob])"
  by (auto simp: one_axis_def build_observation_def Let_def plausible_def split: option.splits if_splits)

lemma duration_axis: "duration_observation hs now ax name = Inr xs \<Longrightarrow> one_axis ax xs"
  unfolding duration_observation_def
  by (cases "reset_at_from_duration (dict_get hs (''x-ratelimit-reset-'' @ name)) now") (auto simp: built_axis)

lemma both_axes:
  assumes "both_observations a b = Inr obs" and "\<And>xs. a = Inr xs \<Longrightarrow> one_axis ax xs" and "\<And>ys. b = Inr ys \<Longrightarrow> one_axis ax' ys"
    and "ax \<noteq> ax'"
  shows "distinct (map lo_axis obs) \<and> list_all plausible obs"
proof -
  obtain xs ys where "a = Inr xs" "b = Inr ys" "obs = xs @ ys"
    using assms(1) by (auto simp: both_observations_def split: sum.splits)
  with assms(2-4) have "one_axis ax xs" "one_axis ax' ys" "obs = xs @ ys" by simp_all
  then show ?thesis using assms(4) by (auto simp: one_axis_def simp flip: set_map)
qed

theorem observations_of_headers:
  assumes "parse_ratelimit_headers host hs now wall = Inr obs"
  shows "distinct (map lo_axis obs) \<and> list_all plausible obs"
proof -
  let ?hs = "normalized_headers hs"
  have "parse_groq_headers ?hs now = Inr obs \<Longrightarrow> ?thesis" unfolding parse_groq_headers_def
    by (erule both_axes[where ax = Rpm and ax' = Tpm]) (simp_all add: duration_axis)
  moreover have "parse_cerebras_headers ?hs now = Inr obs \<Longrightarrow> ?thesis" unfolding parse_cerebras_headers_def
    by (erule both_axes[where ax = Rpd and ax' = Tpm]) (simp_all add: duration_axis)
  moreover have "parse_openrouter_headers ?hs now wall = Inr obs \<Longrightarrow> ?thesis"
  proof -
    assume "parse_openrouter_headers ?hs now wall = Inr obs"
    then have "one_axis Rpd obs"
      unfolding parse_openrouter_headers_def
      by (cases "reset_at_from_epoch_millis (dict_get ?hs ''x-ratelimit-reset'') now wall") (auto simp: built_axis)
    then show ?thesis by (auto simp: one_axis_def)
  qed
  moreover have "obs = [] \<Longrightarrow> ?thesis" by simp
  ultimately show ?thesis using assms unfolding parse_ratelimit_headers_def by (metis sum.inject(2))
qed

end
