(* ===== verification/Spec2Isabelle.thy ===== *)
theory Spec2Isabelle
  imports Rate_Limiter Budget_Ledger Ip_Guard Routing_Selection Upload_Admission Stream_Capacity Sse_Framing
    Write_Batching Accounting_Contracts Reconciliation Operation_Owner Accounting_Hazards Research_Seals
    Runtime_Guarantees Error_Guarantees Header_Guarantees
begin

text \<open>
  LLMApiGateway: the admission, routing and accounting core of the gateway.

  \<^bold>\<open>The program.\<close> The gateway (\<open>llm_gateway_core\<close>, Python, one asyncio event loop plus worker threads)
  accepts OpenAI-style requests of clients that hold virtual keys and forwards them to upstream
  providers. A request passes the IP guard, is admitted against the key's rate limits and budget,
  gets an upstream key chosen for it, is forwarded, and its response is observed, parsed for usage
  and charged. This development models the components that keep state on that path and the contracts
  they exchange.

  \<^bold>\<open>How the parts interact.\<close> \<open>middleware/auth.py\<close> asks \<open>Ip_Guard\<close> before it authenticates, and the
  accounting service reserves through \<open>Rate_Limiter\<close> (\<open>admit_request\<close>) and \<open>Budget_Ledger\<close>
  (\<open>reserve_request\<close>) before a request goes on. Dispatch takes a key from \<open>Routing_Selection\<close>; what
  became of the attempt is classified by \<open>Error_Classifier\<close> and reported to \<open>Routing_Failures\<close>, and the rate-limit
  headers of the answer are read by \<open>Ratelimit_Headers\<close>; all work on the state of \<open>Routing_Data\<close>.
  Uploads first pass \<open>Upload_Admission\<close>. A response under observation holds a lease of
  \<open>Stream_Capacity\<close>, and its bytes are cut into events by \<open>Sse_Framing\<close>. From the final answer
  \<open>Operation_Accounting\<close> makes an observation, and \<open>Operation_Owner\<close> settles the reservation with an
  event of \<open>Accounting_Contracts\<close>. The accounting service (\<open>Accounting_Service\<close>) takes that event: it
  records it in the usage database, charges ledger and limiter, projects it into the key database,
  retries what failed, and holds keys back while they are changed. The configured services a request uses are
  those of a generation of \<open>Runtime_Generations\<close>, held by a lease until the response is done. Rows that are not accounting go to the database through
  \<open>Write_Batching\<close>.

  \<^bold>\<open>Theories and code.\<close>
  \<^item> \<open>Gateway_Prelude\<close>: Python dictionaries (association lists in insertion order), \<open>round\<close>, \<open>strip\<close>,
    numbers as a Python validator sees them (\<open>py_num\<close>), optional limits, and the interfaces as locales:
    \<open>sliding_window\<close> (a queue trimmed at a time horizon), \<open>step_machine\<close> (a machine with an invariant),
    \<open>keyed_machine\<close> (operations that touch one key leave the others alone), \<open>fifo_drain\<close> (a queue
    served from the front while its head fits). Every locale is interpreted on the model of the code,
    in the theory of the component that provides it.
  \<^item> \<open>Rate_Limiter\<close>: \<open>services/rate_limiter.py\<close>; \<open>rate_limiter\<close> is the dictionary of key windows, one
    definition per method, \<open>rl_step\<close> a call of any of them.
  \<^item> \<open>Budget_Ledger\<close>: \<open>UsdBudgetLedger\<close> of \<open>services/access_control.py\<close>; \<open>ledger_step\<close> is a call.
  \<^item> \<open>Ip_Guard\<close>: \<open>services/ip_blocklist.py\<close>; \<open>ip_phase\<close> is its abstract specification.
  \<^item> \<open>Routing_Data\<close>, \<open>Routing_Failures\<close>, \<open>Routing_Selection\<close>: \<open>services/upstream_routing_state.py\<close>.
  \<^item> \<open>Text_Matching\<close>: \<open>str.lower\<close>, \<open>in\<close> and \<open>re\<close> for the constructs the patterns use, shown to match exactly what a
    pattern describes. \<open>Error_Classifier\<close>: \<open>services/error_classifier.py\<close>; \<open>Error_Guarantees\<close> has its properties.
    \<open>Tool_Schemas\<close>: \<open>services/tool_schema_normalizer.py\<close>. \<open>Ratelimit_Headers\<close>: \<open>services/ratelimit_headers.py\<close>, with
    its properties in \<open>Header_Guarantees\<close>.
  \<^item> \<open>Upload_Admission\<close>: \<open>services/upload_admission.py\<close>.
  \<^item> \<open>Stream_Capacity\<close> and \<open>Sse_Framing\<close>: \<open>services/stream_observation.py\<close>.
  \<^item> \<open>Write_Batching\<close>: \<open>db/write_batcher.py\<close>; coroutines are cut at their suspension points and
    \<open>writer_step\<close> is one such piece.
  \<^item> \<open>Accounting_Contracts\<close>: \<open>services/accounting.py\<close>; a validating constructor is a function to an option.
  \<^item> \<open>Reconciliation\<close>: \<open>services/accounting_reconciliation.py\<close>; the repositories are functions to pages.
  \<^item> \<open>Operation_Accounting\<close>: \<open>services/operation_accounting.py\<close>, the rate arithmetic and title header of
    \<open>utils/usage_tracking.py\<close>, the request context of \<open>middleware/accounting_admission.py\<close>.
  \<^item> \<open>Operation_Owner\<close>: \<open>api/v1/operation_accounting.py\<close> and the \<open>ResponseFinalizer\<close> of
    \<open>middleware/response_observation_contracts.py\<close>.
  \<^item> \<open>services/accounting_service.py\<close>: \<open>Accounting_Gate\<close> (record \<open>gate\<close>: health, errors, unsettled events),
    \<open>Accounting_Projection\<close> (projecting an event, the drain, the start), \<open>Accounting_Sessions\<close> (record \<open>acct\<close>,
    the whole service; the owner tasks of sessions, cut at their awaits), \<open>Accounting_Keys\<close> (update, reset and
    delete of keys), \<open>Accounting_Service\<close> (retries, holders of the drain lock, stop; \<open>acct_step\<close> is one piece of
    any task). Lemmas: \<open>Accounting_Books\<close> (what ledger, limiter and sessions owe each other),
    \<open>Accounting_Soundness\<close> (every step keeps the books), \<open>Accounting_History\<close> and \<open>Accounting_Runs\<close> (what a
    step may charge), \<open>Accounting_Start\<close> (which events a clean drain listed and what became of them),
    \<open>Accounting_Bystanders\<close> (what the tasks of sessions and the drains leave alone, as the locales \<open>bystander\<close>
    and \<open>drain_bystander\<close>), \<open>Accounting_Guarantees\<close> and \<open>Accounting_Hazards\<close> (the properties). The calls of
    a session's end to the registry of deep-research contexts (\<open>finish_child_commit\<close>, \<open>finish_child_release\<close>)
    are modelled with that registry and assumed to return.
  \<^item> \<open>services/deep_research_accounting.py\<close>: \<open>Research_Tokens\<close> (the signed context token, with the
    calendar it prints), \<open>Research_Registry\<close> (record \<open>registry\<close>: open research contexts and their children),
    \<open>Research_Runs\<close> (its invariant), \<open>Research_Seals\<close> (what a seal contains).
  \<^item> \<open>services/runtime_config.py\<close>: \<open>Runtime_Graph\<close> (the recursive walk over a configuration, on a heap of
    Python objects of every kind the code tells apart, with the room the recursion limit leaves), \<open>Runtime_Generations\<close> (record \<open>generations\<close>: the manager of the generations of replaceable
    services; one definition per method, cut at its waits), \<open>Runtime_Lifecycle\<close> (record \<open>runtime\<close>: the
    manager with the leases and clients handed to it; its invariant), \<open>Runtime_Guarantees\<close> (the properties).

  \<^bold>\<open>What is shown.\<close>
  \<^item> Rate limits: no rolling window holds more recorded requests than the limit, retries are charged once,
    tokens are attributed once, the counters are the sums over the queue, keys do not interfere.
  \<^item> Budgets: concurrent reservations cannot overspend, what is reserved is the sum of what is open, a
    reservation is closed once.
  \<^item> IP guard: the stored state refines a small phase machine; a block comes exactly at the threshold and
    holds until its deadline.
  \<^item> Routing: selection hands out a key exactly when one is eligible, as its strategy says; sessions stick;
    round robin is fair; concurrency slots are counted exactly; the escalation ladder follows the strikes;
    error bodies only tighten learned limits. An error body whose limit cannot be read makes the report of the
    failure raise after the cool-down was set (\<open>unread_limit_skips_penalty\<close>).
  \<^item> Upstream errors and headers: which class an error gets, in which order its signals count; an overload is
    never an exhausted quota; the parser of learned limits agrees with a reading without patterns, for every
    error; durations are read as they are written. Four findings: a limit made of commas raises, nested error
    objects double the work per level, a huge duration raises, and the meta keys of a nullable variant stay in a schema.
  \<^item> Admission of uploads and streams: the capacity is the sum of the held leases and never exceeded; strict
    first-come-first-served order; nobody waits while the head of the queue fits.
  \<^item> SSE: the incremental framer with its cached positions equals a byte-by-byte reference, for any chunking;
    it fails exactly when the reference fails or what it retains at the end of a chunk exceeds the limit. So
    chunking matters for every event of exactly the limit (a finding).
  \<^item> Writer: every write offered is committed, recorded in the dead-letter file, counted as lost because its
    record could not be appended, or still held (and handled twice only if a commit took effect although its
    attempt failed); its health counters balance; splitting a failing batch isolates the bad rows in fewer
    than \<open>2 n\<close> attempts.
  \<^item> Accounting: validation is idempotent, amounts of events agree with their components; any parsed answer
    has consistent usage, an upstream's cost is charged as given or refused, a synthesized one ignored; a
    reservation is settled exactly once under any interleaving. The paged audit of the two databases is the
    join of their tables, and a clean report means the spend of every key agrees. Two findings: a title header of more than
    512 bytes makes a request free of charge, and a huge saved cost raises outside the accounting errors.
  \<^item> Accounting service, over all interleavings of its tasks and all answers of its databases: the ledger
    reserves exactly what the unsettled sessions reserved, the cap and the counts hold; a session is charged
    once, whoever settles it; settling cannot fail; a fatal error closes admission for good; a start opens
    only when every listed event was projected or tolerated. Three findings, each shown for every state and run of
    its kind: an update of a key loses the charges made during its database call, a failed delete leaves the fence
    of a finished reset until the key is due again, and a session waiting for a retry can be stranded so that a
    stop never ends.
  \<^item> Deep research: a token is accepted exactly when it is the one issued for an identity that has not
    expired; a seal holds exactly the receipts of the children that committed under its context, in order,
    and is given only when none is open, over all interleavings of parents and children.
  \<^item> Runtime generations, over all interleavings of publications, leases, cleanups, recovery and shutdown: a
    lease keeps its generation alive, a client has one owner until it is closed and is closed once, a stopped
    runtime has closed all of them, a released generation ends within three attempts unless the runtime is
    stopping. The walk over a configuration finds exactly what can be changed and reached, or raises for a
    stated reason.

  \<^bold>\<open>Conventions.\<close> Python integers are \<open>int\<close>; where the code bounds them to 64 bits the bound is written out.
  A float is the rational it denotes: rounding of float arithmetic is not modelled, overflow of \<open>float(n)\<close> and
  of sums is (\<open>float_overflow\<close>). Clock readings, SHA-256, database answers, observers and the answers of the
  accounting service are arguments. A character is one of the first 256 code points. Threads are serialised by
  the locks the code holds, so a locked method is one step. The levels a tool schema may still be descended are an argument (65 from the
  root, the depth guard of the code). No definition uses fuel: loops are structural
  recursion or \<open>function\<close>s with a termination proof (the recursion of \<open>visit\<close> is on the room the recursion
  limit leaves, which is a fact about Python and not fuel: running out of it is the \<open>RecursionError\<close>), except \<open>read_pages\<close>, which may not end for an
  arbitrary repository and is shown to end for an ordered table; the bytes a framer may scan and the rows a batch holds
  are their measures.

  Runs of the accounting service assume of their inputs that a new reservation identifier is unused and that
  the event a database returns is a validated one whose cost does not overflow (\<open>admissible\<close>).

  \<^bold>\<open>Not modelled.\<close> Cancellation (exceptions that are no \<open>Exception\<close>) and
  logging of the accounting service, and the SQLite repositories behind it (\<open>db/\<close>); configuration loading, validation and atomic updates (\<open>config/\<close>,
  \<open>services/config_updates.py\<close>); the dispatch and streaming of chat requests and
  the dialect translations (\<open>api/v1/\<close>); the request summaries of fallback errors (\<open>Routing_Failures\<close> takes the verdicts of the
  classifier as inputs); HTTP glue, research agents, image storage, the user interface, tests and scripts. Those
  are I/O, third-party protocols and large format translations.
\<close>

end
